(* ===== verification/Tiger_Prelude.thy ===== *)
theory Tiger_Prelude
  imports Main "HOL-Library.Word"
begin

text \<open>
  What every component of the model shares: the addresses that stand for C++ object identities,
  the ways a C++ routine of the compiler can fail to return (\<open>exn\<close>), the error-propagating
  sequencing of statements (\<open>bindE\<close>) and of range-\<open>for\<close> loops (\<open>foldE\<close>) with the congruence
  rules that recursive definitions over them need, and generic lemmas on lists and maps.
\<close>

section \<open>Names, addresses, failures\<close>

text \<open>
  An address is the identity of a C++ object (the value of a pointer to it).  A \<open>misc::symbol\<close> is
  the string it denotes; the theory of symbols shows that comparing the pointers of two symbols,
  as the code does, is comparing those strings.
\<close>

type_synonym addr = nat
type_synonym symbol = string
type_synonym i32 = "32 word"
type_synonym u32 = "32 word"
type_synonym i64 = "64 word"

named_theorems bindE_simps "equations of the error monad"
named_theorems visit_simps "equations of visitors, one per kind of node"
named_theorems frame_simps "what an operation leaves unchanged"

text \<open>
  The part of \<open>std::ostringstream\<close> that \<open>misc::error\<close> uses: a buffer, the position where the
  next output goes, and the slot of the indentation.  The stream is opened neither with \<open>ate\<close> nor with \<open>app\<close>, so setting the buffer
  with \<open>str(s)\<close> puts the position back to its beginning.
\<close>

record ostringstream =
  buffer :: string
  put_pos :: nat
  oss_indent :: int

definition newline :: string where
  "newline = [CHR 0x0A]"

definition oss_new :: ostringstream where
  "oss_new = \<lparr>buffer = [], put_pos = 0, oss_indent = 0\<rparr>"

definition oss_set :: "string \<Rightarrow> ostringstream \<Rightarrow> ostringstream" where
  "oss_set s os = os\<lparr>buffer := s, put_pos := 0\<rparr>"

definition oss_put :: "string \<Rightarrow> ostringstream \<Rightarrow> ostringstream" where
  "oss_put s os =
     os\<lparr>buffer := take (put_pos os) (buffer os) @ s @ drop (put_pos os + length s) (buffer os),
        put_pos := put_pos os + length s\<rparr>"

definition oss_at_end :: "ostringstream \<Rightarrow> bool" where
  "oss_at_end os \<longleftrightarrow> put_pos os = length (buffer os)"

text \<open>
  The exit status of the compiler, in the order of \<open>misc::error::error_type\<close>, and the error
  object that \<open>misc::error::exit\<close> throws.
\<close>

datatype error_type =
  err_success | err_failure | err_scan | err_parse | err_bind | err_type

record error =
  status :: error_type
  stream :: ostringstream

text \<open>
  The abnormal exits.  \<open>Thrown\<close> is a \<open>misc::error\<close> thrown by \<open>error::exit\<close>; the next six are
  standard exceptions; \<open>Runtime_exit\<close> is \<open>exit\<close> called by the runtime of the compiled program;
  \<open>Ice\<close>, \<open>Unreachable\<close> and \<open>Assertion\<close> are the aborts of \<open>misc/contract.hh\<close>; \<open>Null_deref\<close> is
  the undefined behaviour of going through a null pointer, \<open>Bad_access\<close> that of reading outside
  an array or a container; \<open>No_fuel\<close> says that a bounded evaluation of the model was cut (it is
  no behaviour of the code: the lemmas on fuel say when it cannot occur).
\<close>

datatype exn =
    Thrown error
  | Logic_error
  | Range_error
  | Invalid_argument
  | Bad_cast
  | Bad_variant
  | Out_of_range
  | Runtime_exit int
  | Ice string
  | Unreachable
  | Assertion
  | Null_deref
  | Bad_access
  | No_fuel

type_synonym 'a res = "exn + 'a"

section \<open>Sequencing\<close>

definition bindE :: "'e + 'a \<Rightarrow> ('a \<Rightarrow> 'e + 'b) \<Rightarrow> 'e + 'b" where
  "bindE m f = (case m of Inl e \<Rightarrow> Inl e | Inr x \<Rightarrow> f x)"

lemma bindE_Inl [simp, bindE_simps]: "bindE (Inl e) f = Inl e"
  by (simp add: bindE_def)

lemma bindE_Inr [simp, bindE_simps]: "bindE (Inr x) f = f x"
  by (simp add: bindE_def)

lemma bindE_assoc: "bindE (bindE m f) g = bindE m (\<lambda>x. bindE (f x) g)"
  by (cases m) simp_all

lemma bindE_Inr_right [simp]: "bindE m Inr = m"
  by (cases m) simp_all

lemma bindE_eq_Inr: "bindE m f = Inr y \<longleftrightarrow> (\<exists>x. m = Inr x \<and> f x = Inr y)"
  by (cases m) simp_all

lemma bindE_InrE: "bindE m f = Inr y \<Longrightarrow> (\<And>x. m = Inr x \<Longrightarrow> f x = Inr y \<Longrightarrow> R) \<Longrightarrow> R"
  by (auto simp: bindE_eq_Inr)

lemma bindE_pairE:
  "bindE m (\<lambda>(a, b). f a b) = Inr y \<Longrightarrow>
    (\<And>a b. m = Inr (a, b) \<Longrightarrow> f a b = Inr y \<Longrightarrow> R) \<Longrightarrow> R"
  by (auto simp: bindE_eq_Inr)

lemma bindE_eq_Inl: "bindE m f = Inl e \<longleftrightarrow> m = Inl e \<or> (\<exists>x. m = Inr x \<and> f x = Inl e)"
  by (cases m) simp_all

lemma bindE_cong [fundef_cong]:
  "m = m' \<Longrightarrow> (\<And>x. m' = Inr x \<Longrightarrow> f x = f' x) \<Longrightarrow> bindE m f = bindE m' f'"
  by (cases m') simp_all

text \<open>\<open>for (auto& x : xs) f(x)\<close>, where \<open>f\<close> may throw.\<close>

fun foldE :: "('x \<Rightarrow> 's \<Rightarrow> 'e + 's) \<Rightarrow> 'x list \<Rightarrow> 's \<Rightarrow> 'e + 's" where
  "foldE f [] s = Inr s"
| "foldE f (x # xs) s = bindE (f x s) (foldE f xs)"

lemma foldE_Nil_fun [simp]: "foldE f [] = Inr"
  by (rule ext) simp

lemma foldE_one: "foldE f [x] = f x"
  by (rule ext) simp

lemma foldE_append: "foldE f (xs @ ys) s = bindE (foldE f xs s) (foldE f ys)"
proof (induction xs arbitrary: s)
  case (Cons x xs)
  then show ?case by (cases "f x s") simp_all
qed simp

lemma foldE_cong [fundef_cong]:
  assumes "xs = ys" and "s = t" and "\<And>x s. x \<in> set ys \<Longrightarrow> f x s = g x s"
  shows "foldE f xs s = foldE g ys t"
proof -
  have "(\<And>x s. x \<in> set ys \<Longrightarrow> f x s = g x s) \<Longrightarrow> foldE f ys t = foldE g ys t" for t
    by (induction ys arbitrary: t) (simp_all cong: bindE_cong)
  with assms show ?thesis by blast
qed

text \<open>Invariants of loops: what one round keeps, the loop keeps, whatever the failures are.\<close>

lemma foldE_invariant:
  assumes "foldE f xs s = Inr t" and "P s"
    and "\<And>x s t. x \<in> set xs \<Longrightarrow> P s \<Longrightarrow> f x s = Inr t \<Longrightarrow> P t"
  shows "P t"
  using assms by (induction xs arbitrary: s) (auto simp: bindE_eq_Inr)

lemma foldE_relation:
  assumes "foldE f xs s = Inr t" and "\<And>s. R s s"
    and "\<And>s t u. R s t \<Longrightarrow> R t u \<Longrightarrow> R s u"
    and "\<And>x s t. x \<in> set xs \<Longrightarrow> f x s = Inr t \<Longrightarrow> R s t"
  shows "R s t"
  using assms(1,4)
proof (induction xs arbitrary: s)
  case Nil
  then show ?case using assms(2) by simp
next
  case (Cons x xs)
  then show ?case using assms(3) by (fastforce simp: bindE_eq_Inr)
qed

lemma foldE_member:
  assumes "foldE f xs s = Inr t" and "x \<in> set xs" and "\<And>s. R s s"
    and "\<And>s t u. R s t \<Longrightarrow> R t u \<Longrightarrow> R s u"
    and "\<And>x s t. x \<in> set xs \<Longrightarrow> f x s = Inr t \<Longrightarrow> R s t"
  shows "\<exists>u v. f x u = Inr v \<and> R v t"
proof -
  from split_list [OF assms(2)] obtain ys zs where xs: "xs = ys @ x # zs" by blast
  with assms(1) obtain u v where "f x u = Inr v" and r: "foldE f zs v = Inr t"
    by (auto simp: foldE_append bindE_eq_Inr)
  moreover have "R v t" by (rule foldE_relation [OF r assms(3,4)]) (use assms(5) xs in auto)
  ultimately show ?thesis by blast
qed

lemma foldE_failure:
  assumes "foldE f xs s = Inl e" and "I s"
    and "\<And>x s t. x \<in> set xs \<Longrightarrow> I s \<Longrightarrow> f x s = Inr t \<Longrightarrow> I t"
    and "\<And>x s e. x \<in> set xs \<Longrightarrow> I s \<Longrightarrow> f x s = Inl e \<Longrightarrow> Q e"
  shows "Q e"
  using assms
proof (induction xs arbitrary: s)
  case Nil
  then show ?case by simp
next
  case (Cons x xs)
  from Cons.prems(1) consider "f x s = Inl e" | t where "f x s = Inr t" "foldE f xs t = Inl e"
    by (auto simp: bindE_eq_Inl)
  then show ?case
  proof cases
    case 1
    then show ?thesis by (rule Cons.prems(4) [OF list.set_intros(1) Cons.prems(2)])
  next
    case 2
    have "I t" by (rule Cons.prems(3) [OF list.set_intros(1) Cons.prems(2) 2(1)])
    then show ?thesis
      by (rule Cons.IH [OF 2(2)])
        (rule Cons.prems(3) Cons.prems(4), erule list.set_intros(2), assumption+)+
  qed
qed

section \<open>Lists and maps\<close>

lemma size_list_member [termination_simp]: "x \<in> set xs \<Longrightarrow> size x \<le> size_list size xs"
  by (induction xs) auto

lemma size_list_member_less: "x \<in> set xs \<Longrightarrow> size x < Suc (size_list size xs)"
  using size_list_member [of x xs] by simp

lemma foldE_total:
  assumes "\<And>x s. x \<in> set xs \<Longrightarrow> \<exists>t. f x s = Inr t"
  shows "\<exists>t. foldE f xs s = Inr t"
  using assms
proof (induction xs arbitrary: s)
  case (Cons x xs)
  from Cons.prems [of x s] obtain u where "f x s = Inr u" by auto
  with Cons show ?case by simp
qed simp

lemma foldE_fails:
  "foldE f xs s = Inl e \<Longrightarrow> (\<And>x s e. x \<in> set xs \<Longrightarrow> f x s = Inl e \<Longrightarrow> Q e) \<Longrightarrow> Q e"
  by (rule foldE_failure [where I = "\<lambda>_. True"]) auto

lemma oss_put_at_end [simp]:
  assumes "oss_at_end os"
  shows "oss_at_end (oss_put s os)" and "buffer (oss_put s os) = buffer os @ s"
  using assms by (simp_all add: oss_at_end_def oss_put_def)

lemma oss_new_at_end [simp]: "oss_at_end oss_new" "buffer oss_new = []"
  by (simp_all add: oss_at_end_def oss_new_def)

section \<open>Decimal numerals\<close>

text \<open>\<open>std::to_string\<close> on unsigned and signed integers.\<close>

definition digit :: "nat \<Rightarrow> char" where
  "digit n = char_of (48 + n)"

fun dec_nat :: "nat \<Rightarrow> string" where
  "dec_nat n = (if n < 10 then [digit n] else dec_nat (n div 10) @ [digit (n mod 10)])"

declare dec_nat.simps [simp del]

definition dec_int :: "int \<Rightarrow> string" where
  "dec_int i = (if i < 0 then CHR ''-'' # dec_nat (nat (- i)) else dec_nat (nat i))"

definition read_dec :: "string \<Rightarrow> nat" where
  "read_dec = foldl (\<lambda>n c. 10 * n + (of_char c - 48)) 0"

lemma of_char_digit: "n < 10 \<Longrightarrow> (of_char (digit n) :: nat) = 48 + n"
  by (simp add: digit_def)

lemma digit_0 [simp]: "digit 0 = CHR ''0''"
  by (rule of_char_eq_iff [THEN iffD1, where ?'a1 = nat]) (simp add: digit_def)

lemma read_dec_dec_nat [simp]: "read_dec (dec_nat n) = n"
proof (induction n rule: dec_nat.induct)
  case (1 n)
  then show ?case
    by (cases "n < 10") (simp_all add: dec_nat.simps [of n] read_dec_def of_char_digit)
qed

lemma dec_nat_inject [simp]: "dec_nat m = dec_nat n \<longleftrightarrow> m = n"
  by (metis read_dec_dec_nat)

lemma dec_nat_digits: "c \<in> set (dec_nat n) \<Longrightarrow> \<exists>d < 10. c = digit d"
proof (induction n rule: dec_nat.induct)
  case (1 n)
  have "n mod 10 < 10" by simp
  then have "\<exists>d < 10. digit (n mod 10) = digit d" by blast
  with 1 show ?case by (cases "n < 10") (auto simp: dec_nat.simps [of n])
qed

lemma digit_not_underscore: "d < 10 \<Longrightarrow> digit d \<noteq> CHR ''_''"
proof
  assume "d < 10" "digit d = CHR ''_''"
  then have "48 + d = (of_char (CHR ''_'') :: nat)" using of_char_digit by metis
  with \<open>d < 10\<close> show False by simp
qed

lemma underscore_notin_dec_nat: "CHR ''_'' \<notin> set (dec_nat n)"
  using dec_nat_digits digit_not_underscore by metis

text \<open>What follows the last occurrence of a separator is determined by the whole.\<close>

lemma append_separator_inject:
  assumes "c \<notin> set ys" "c \<notin> set ys'" "xs @ c # ys = xs' @ c # ys'"
  shows "xs = xs' \<and> ys = ys'"
proof -
  have "rev ys @ c # rev xs = rev ys' @ c # rev xs'"
    using arg_cong [OF assms(3), of rev] by simp
  moreover have "takeWhile (\<lambda>x. x \<noteq> c) (rev ys @ c # zs) = rev ys" for zs
    using assms(1) by (subst takeWhile_append2) auto
  moreover have "takeWhile (\<lambda>x. x \<noteq> c) (rev ys' @ c # zs) = rev ys'" for zs
    using assms(2) by (subst takeWhile_append2) auto
  ultimately have "rev ys = rev ys'" by metis
  with assms(3) show ?thesis by simp
qed

end
