(* ===== verification/Misc_Timer.thy ===== *)
theory Misc_Timer
  imports Tiger_Prelude
begin

text \<open>
  \<^verbatim>\<open>src/lib/misc/timer.*\<close>: the times of nested tasks.  A \<open>time_var\<close> is known by the name it has in
  \<open>tasksmap\<close>, where it stays: the stack of pointers is a stack of names.  What \<open>times\<close> returns is an argument
  of the operations that call it, one for each call.
\<close>

section \<open>The model of the code\<close>

record time =
  user :: i64
  sys :: i64
  wall :: i64

definition time_zero :: time where
  "time_zero = \<lparr>user = 0, sys = 0, wall = 0\<rparr>"

definition time_add :: "time \<Rightarrow> time \<Rightarrow> time" where
  "time_add rhs t = \<lparr>user = user t + user rhs, sys = sys t + sys rhs, wall = wall t + wall rhs\<rparr>"

record time_var =
  tv_begin :: time
  elapsed :: time
  first_time :: time
  last_time :: time
  initial :: bool

definition tv_new :: time_var where
  "tv_new = \<lparr>tv_begin = time_zero, elapsed = time_zero, first_time = time_zero, last_time = time_zero, initial = True\<rparr>"

definition tv_start :: "time \<Rightarrow> time_var \<Rightarrow> time_var" where
  "tv_start now v =
     (let v1 = v\<lparr>tv_begin := now\<rparr>
      in if initial v1 then v1\<lparr>initial := False, first_time := now\<rparr> else v1)"

definition tv_stop :: "time \<Rightarrow> time_var \<Rightarrow> time_var" where
  "tv_stop now v =
     (let v1 = v\<lparr>last_time := now\<rparr>
      in v1\<lparr>elapsed := \<lparr>user = user (elapsed v1) + (user now - user (tv_begin v1)),
                        sys = sys (elapsed v1) + (sys now - sys (tv_begin v1)),
                        wall = wall (elapsed v1) + (wall now - wall (tv_begin v1))\<rparr>\<rparr>)"

definition tv_is_zero :: "time_var \<Rightarrow> bool" where
  "tv_is_zero v \<longleftrightarrow> wall (elapsed v) = 0 \<and> user (elapsed v) = 0 \<and> sys (elapsed v) = 0"

record timer =
  tasksmap :: "string \<rightharpoonup> time_var"
  tasks_stack :: "string list"
  intmap :: "int \<rightharpoonup> string"
  total :: time_var
  dumps :: bool

definition timer_new :: timer where
  "timer_new = \<lparr>tasksmap = Map.empty, tasks_stack = [], intmap = Map.empty, total = tv_new, dumps = False\<rparr>"

definition timer_copy :: "timer \<Rightarrow> timer res" where
  "timer_copy rhs =
     (if tasks_stack rhs = []
      then Inr \<lparr>tasksmap = tasksmap rhs, tasks_stack = [], intmap = intmap rhs, total = total rhs, dumps = dumps rhs\<rparr>
      else Inl Assertion)"

definition timer_name :: "int \<Rightarrow> string \<Rightarrow> timer \<Rightarrow> timer" where
  "timer_name i task_name t = t\<lparr>intmap := (intmap t)(i \<mapsto> task_name)\<rparr>"

text \<open>\<open>start\<close> and \<open>stop\<close> of the \<open>time_var\<close> on the top of the stack, if any.\<close>

definition on_top :: "(time_var \<Rightarrow> time_var) \<Rightarrow> timer \<Rightarrow> timer" where
  "on_top f t = (case tasks_stack t of
     [] \<Rightarrow> t
   | x # _ \<Rightarrow> t\<lparr>tasksmap := (tasksmap t)(x := map_option f (tasksmap t x))\<rparr>)"

definition timer_push :: "time \<Rightarrow> time \<Rightarrow> string \<Rightarrow> timer \<Rightarrow> timer" where
  "timer_push now1 now2 task_name t =
     (let t1 = on_top (tv_stop now1) t;
          current = (case tasksmap t1 task_name of Some v \<Rightarrow> v | None \<Rightarrow> tv_new)
      in t1\<lparr>tasksmap := (tasksmap t1)(task_name \<mapsto> tv_start now2 current),
            tasks_stack := task_name # tasks_stack t1\<rparr>)"

definition timer_pop :: "time \<Rightarrow> time \<Rightarrow> timer \<Rightarrow> timer res" where
  "timer_pop now1 now2 t =
     (if tasks_stack t = [] then Inl Assertion
      else let t1 = on_top (tv_stop now1) t
           in Inr (on_top (tv_start now2) (t1\<lparr>tasks_stack := tl (tasks_stack t1)\<rparr>)))"

definition timer_pop_named :: "time \<Rightarrow> time \<Rightarrow> string \<Rightarrow> timer \<Rightarrow> timer res" where
  "timer_pop_named now1 now2 task_name t = (case tasks_stack t of
     [] \<Rightarrow> Inl Bad_access
   | x # _ \<Rightarrow> if x = task_name then timer_pop now1 now2 t else Inl Assertion)"

definition timer_push_int :: "time \<Rightarrow> time \<Rightarrow> int \<Rightarrow> timer \<Rightarrow> timer res" where
  "timer_push_int now1 now2 i t = (case intmap t i of
     None \<Rightarrow> Inl Assertion
   | Some name \<Rightarrow> Inr (timer_push now1 now2 name t))"

text \<open>The subscript inserts the empty name for an unknown number.\<close>

definition timer_pop_int :: "time \<Rightarrow> time \<Rightarrow> int \<Rightarrow> timer \<Rightarrow> timer res" where
  "timer_pop_int now1 now2 i t = (case intmap t i of
     None \<Rightarrow> timer_pop_named now1 now2 [] (t\<lparr>intmap := (intmap t)(i \<mapsto> [])\<rparr>)
   | Some name \<Rightarrow> timer_pop_named now1 now2 name t)"

definition timer_start :: "time \<Rightarrow> timer \<Rightarrow> timer" where
  "timer_start now t = t\<lparr>total := tv_start now (total t)\<rparr>"

definition timer_stop :: "time \<Rightarrow> timer \<Rightarrow> timer" where
  "timer_stop now t = t\<lparr>total := tv_stop now (total t)\<rparr>"

definition timer_dump_on_destruction :: "timer \<Rightarrow> timer" where
  "timer_dump_on_destruction t = t\<lparr>dumps := True\<rparr>"

text \<open>\<open>operator<<\<close>: the tasks of the other timer that this one does not have.\<close>

definition timer_import :: "timer \<Rightarrow> timer \<Rightarrow> timer res" where
  "timer_import rhs t =
     (if tasks_stack rhs = []
      then Inr (t\<lparr>tasksmap := tasksmap rhs ++ tasksmap t, intmap := intmap rhs ++ intmap t\<rparr>)
      else Inl Assertion)"

text \<open>What the destructor does to a timer that dumps: it pops what was left, and stops the total.\<close>

fun timer_pop_all :: "(time \<times> time) list \<Rightarrow> timer \<Rightarrow> timer res" where
  "timer_pop_all nows t =
     (if tasks_stack t = [] then Inr t
      else case nows of
        [] \<Rightarrow> Inl No_fuel
      | (now1, now2) # rest \<Rightarrow> bindE (timer_pop now1 now2 t) (timer_pop_all rest))"

definition timer_destroy :: "(time \<times> time) list \<Rightarrow> time \<Rightarrow> timer \<Rightarrow> timer res" where
  "timer_destroy nows now t =
     (if dumps t \<and> tasks_stack t \<noteq> [] then bindE (timer_pop_all nows t) (\<lambda>t1. Inr (timer_stop now t1)) else Inr t)"

section \<open>The times add up\<close>

datatype timer_op = Push string | Pop string

text \<open>
  A run of the operations, each with the two readings of \<open>times\<close> it makes: that of the \<open>stop\<close> of the task on the top,
  then that of the \<open>start\<close>.  What passes between them is charged to no task.
\<close>

definition timer_step :: "timer_op \<times> time \<times> time \<Rightarrow> timer \<Rightarrow> timer res" where
  "timer_step x t = (case x of
     (Push name, now1, now2) \<Rightarrow> Inr (timer_push now1 now2 name t)
   | (Pop name, now1, now2) \<Rightarrow> timer_pop_named now1 now2 name t)"

definition gap :: "timer_op \<times> time \<times> time \<Rightarrow> i64" where
  "gap x = (case x of (_, now1, now2) \<Rightarrow> wall now2 - wall now1)"

definition timed :: "timer \<Rightarrow> i64" where
  "timed t = (\<Sum>x \<in> dom (tasksmap t). wall (elapsed (the (tasksmap t x))))"

definition begun :: "timer \<Rightarrow> i64" where
  "begun t = (case tasks_stack t of [] \<Rightarrow> 0 | x # _ \<Rightarrow> wall (tv_begin (the (tasksmap t x))))"

definition timer_ok :: "timer \<Rightarrow> bool" where
  "timer_ok t \<longleftrightarrow> finite (dom (tasksmap t)) \<and> set (tasks_stack t) \<subseteq> dom (tasksmap t)"

lemma timed_update:
  assumes "finite (dom m)" and "m x = Some v"
  shows "(\<Sum>y \<in> dom (m(x \<mapsto> w)). f (the ((m(x \<mapsto> w)) y))) = (\<Sum>y \<in> dom m. f (the (m y))) - f v + (f w :: i64)"
proof -
  have x: "x \<in> dom m" using assms(2) by blast
  then have d: "dom (m(x \<mapsto> w)) = dom m" by auto
  have "(\<Sum>y \<in> dom m. f (the ((m(x \<mapsto> w)) y))) = f w + (\<Sum>y \<in> dom m - {x}. f (the (m y)))"
    using sum.remove [OF assms(1) x, of "\<lambda>y. f (the ((m(x \<mapsto> w)) y))"] by simp
  moreover have "(\<Sum>y \<in> dom m. f (the (m y))) = f v + (\<Sum>y \<in> dom m - {x}. f (the (m y)))"
    using sum.remove [OF assms(1) x, of "\<lambda>y. f (the (m y))"] assms(2) by simp
  ultimately show ?thesis unfolding d by simp
qed

lemma timed_insert:
  assumes "finite (dom m)" and "m x = None" and "f w = (0 :: i64)"
  shows "(\<Sum>y \<in> dom (m(x \<mapsto> w)). f (the ((m(x \<mapsto> w)) y))) = (\<Sum>y \<in> dom m. f (the (m y)))"
proof -
  have "(\<Sum>y \<in> insert x (dom m). f (the ((m(x \<mapsto> w)) y))) = f w + (\<Sum>y \<in> dom m. f (the ((m(x \<mapsto> w)) y)))"
    using assms(1,2) by (subst sum.insert) (auto simp: domIff)
  moreover have "(\<Sum>y \<in> dom m. f (the ((m(x \<mapsto> w)) y))) = (\<Sum>y \<in> dom m. f (the (m y)))"
    using assms(2) by (intro sum.cong) auto
  ultimately show ?thesis using assms(3) by simp
qed

lemma tv_sel [simp]:
  "elapsed (tv_start now v) = elapsed v" "tv_begin (tv_start now v) = now" "tv_begin (tv_stop now v) = tv_begin v"
  "wall (elapsed (tv_stop now v)) = wall (elapsed v) + (wall now - wall (tv_begin v))"
  by (simp_all add: tv_start_def tv_stop_def Let_def)

lemma on_top_stack [simp]: "tasks_stack (on_top f t) = tasks_stack t"
  by (simp add: on_top_def split: list.split)

lemma on_top_Nil: "tasks_stack t = [] \<Longrightarrow> on_top f t = t"
  by (simp add: on_top_def)

lemma on_top_ok: "timer_ok t \<Longrightarrow> timer_ok (on_top f t)"
proof -
  have "dom (m(x := map_option f (m x))) = dom m" for x and m :: "string \<rightharpoonup> time_var"
    by (auto simp: domIff)
  then show "timer_ok t \<Longrightarrow> timer_ok (on_top f t)" by (cases "tasks_stack t") (auto simp: timer_ok_def on_top_def)
qed

lemma on_top_Cons:
  assumes "timer_ok t" and "tasks_stack t = x # xs"
  obtains v where "tasksmap t x = Some v" and "on_top f t = t\<lparr>tasksmap := (tasksmap t)(x \<mapsto> f v)\<rparr>"
proof -
  from assms obtain v where "tasksmap t x = Some v" unfolding timer_ok_def by auto
  with assms(2) that [of v] show thesis by (simp add: on_top_def)
qed

lemma timed_stop:
  assumes "timer_ok t" and "tasks_stack t \<noteq> []"
  shows "timed (on_top (tv_stop now) t) = timed t + (wall now - begun t)"
proof -
  from assms(2) obtain x xs where s: "tasks_stack t = x # xs" by (cases "tasks_stack t") auto
  with assms(1) obtain v where "tasksmap t x = Some v"
    "on_top (tv_stop now) t = t\<lparr>tasksmap := (tasksmap t)(x \<mapsto> tv_stop now v)\<rparr>" by (rule on_top_Cons)
  with assms(1) s timed_update [of "tasksmap t" x v "\<lambda>v. wall (elapsed v)" "tv_stop now v"] show ?thesis
    by (simp add: timed_def begun_def timer_ok_def)
qed

lemma timed_start:
  assumes "timer_ok t" and "tasks_stack t \<noteq> []"
  shows "timed (on_top (tv_start now) t) = timed t" and "begun (on_top (tv_start now) t) = wall now"
proof -
  from assms(2) obtain x xs where s: "tasks_stack t = x # xs" by (cases "tasks_stack t") auto
  with assms(1) obtain v where "tasksmap t x = Some v"
    "on_top (tv_start now) t = t\<lparr>tasksmap := (tasksmap t)(x \<mapsto> tv_start now v)\<rparr>" by (rule on_top_Cons)
  with assms(1) s timed_update [of "tasksmap t" x v "\<lambda>v. wall (elapsed v)" "tv_start now v"]
  show "timed (on_top (tv_start now) t) = timed t" and "begun (on_top (tv_start now) t) = wall now"
    by (simp_all add: timed_def begun_def timer_ok_def)
qed

lemma push_times:
  assumes "timer_ok t" and "tasks_stack t \<noteq> [] \<Longrightarrow> timed t - begun t = c" and "tasks_stack t = [] \<Longrightarrow> timed t - wall now1 = c"
  shows "timer_ok (timer_push now1 now2 name t) \<and> tasks_stack (timer_push now1 now2 name t) \<noteq> [] \<and>
    timed (timer_push now1 now2 name t) - begun (timer_push now1 now2 name t) = c - (wall now2 - wall now1)"
proof -
  let ?t = "on_top (tv_stop now1) t"
  have ok: "timer_ok ?t" using assms(1) by (rule on_top_ok)
  have "timed ?t - wall now1 = c"
  proof (cases "tasks_stack t = []")
    case True
    then show ?thesis using assms(3) by (simp add: on_top_def)
  next
    case False
    then show ?thesis using assms(2) timed_stop [OF assms(1) False, of now1] by (simp add: algebra_simps)
  qed
  moreover have "timed (timer_push now1 now2 name t) = timed ?t"
  proof (cases "tasksmap ?t name")
    case None
    with ok timed_insert [of "tasksmap ?t" name "\<lambda>v. wall (elapsed v)" "tv_start now2 tv_new"] show ?thesis
      by (simp add: timed_def timer_push_def timer_ok_def tv_new_def time_zero_def Let_def)
  next
    case (Some v)
    with ok timed_update [of "tasksmap ?t" name v "\<lambda>v. wall (elapsed v)" "tv_start now2 v"] show ?thesis
      by (simp add: timed_def timer_push_def timer_ok_def Let_def)
  qed
  ultimately show ?thesis using ok by (auto simp: timer_push_def timer_ok_def begun_def Let_def)
qed

lemma pop_times:
  assumes "timer_ok t" and "timed t - begun t = c" and "timer_pop_named now1 now2 name t = Inr u"
  shows "timer_ok u \<and>
    (if tasks_stack u = [] then timed u - wall now1 = c else timed u - begun u = c - (wall now2 - wall now1))"
proof -
  let ?t = "on_top (tv_stop now1) t"
  from assms(3) have s: "tasks_stack t \<noteq> []" and
    u: "u = on_top (tv_start now2) (?t\<lparr>tasks_stack := tl (tasks_stack ?t)\<rparr>)"
    by (auto simp: timer_pop_named_def timer_pop_def Let_def split: list.splits if_splits)
  have ok: "timer_ok (?t\<lparr>tasks_stack := tl (tasks_stack ?t)\<rparr>)"
    using on_top_ok [OF assms(1), of "tv_stop now1"] s by (cases "tasks_stack t") (simp_all add: timer_ok_def)
  have t: "timed (?t\<lparr>tasks_stack := tl (tasks_stack ?t)\<rparr>) - wall now1 = c"
    using timed_stop [OF assms(1) s, of now1] assms(2) by (simp add: timed_def algebra_simps)
  show ?thesis
  proof (cases "tl (tasks_stack t) = []")
    case True
    with u have "u = ?t\<lparr>tasks_stack := tl (tasks_stack ?t)\<rparr>" by (simp add: on_top_Nil)
    with ok t True show ?thesis by simp
  next
    case False
    with u ok t timed_start [OF ok, of now2] on_top_ok [OF ok, of "tv_start now2"] show ?thesis
      by (simp add: algebra_simps)
  qed
qed

text \<open>C40: The times of the tasks are exclusive and add up: from the push on an empty stack to the pop that
  empties it, however the tasks nest and repeat, the elapsed times of all tasks grow together by the time between
  the two, less what passes inside the pushes and pops in between, from the reading of the clock that stops a task
  to the one that starts the next.\<close>

theorem times_add_up:
  assumes "timer_ok t" and "tasks_stack t = []"
    and "foldE timer_step ((Push first, now, start) # ops @ [(Pop final, finish, now')]) t = Inr u"
    and "tasks_stack u = []"
    and "\<forall>k \<le> length ops. \<forall>v. foldE timer_step ((Push first, now, start) # take k ops) t = Inr v \<longrightarrow> tasks_stack v \<noteq> []"
  shows "timed u - timed t = (wall finish - wall start) - sum_list (map gap ops)"
proof -
  let ?c = "timed t - wall start"
  have inv: "timer_ok v \<and> tasks_stack v \<noteq> [] \<and> timed v - begun v = ?c - sum_list (map gap (take k ops))"
    if "foldE timer_step ((Push first, now, start) # take k ops) t = Inr v" "k \<le> length ops" for k v
    using that
  proof (induction k arbitrary: v)
    case 0
    then have "v = timer_push now start first t" by (simp add: timer_step_def)
    with push_times [OF assms(1), of "timed t - wall now" now start first] assms(2) show ?case by simp
  next
    case (Suc k)
    have snoc: "take (Suc k) ops = take k ops @ [ops ! k]" using Suc.prems(2) by (simp add: take_Suc_conv_app_nth)
    with Suc.prems(1) obtain w where w: "foldE timer_step ((Push first, now, start) # take k ops) t = Inr w"
      and step: "timer_step (ops ! k) w = Inr v"
      by (auto simp: foldE_append bindE_eq_Inr)
    obtain c where c: "c = ?c - sum_list (map gap (take k ops))" by blast
    from Suc.IH [OF w] Suc.prems(2) c have i: "timer_ok w" "tasks_stack w \<noteq> []" "timed w - begun w = c" by auto
    have ne: "tasks_stack v \<noteq> []" using assms(5) Suc.prems by blast
    obtain op n1 n2 where op: "ops ! k = (op, n1, n2)" by (cases "ops ! k") auto
    have gap: "wall n2 - wall n1 = gap (op, n1, n2)" by (simp add: gap_def)
    have "timer_ok v \<and> tasks_stack v \<noteq> [] \<and> timed v - begun v = c - (wall n2 - wall n1)"
    proof (cases op)
      case (Push name)
      with step op have "v = timer_push n1 n2 name w" by (simp add: timer_step_def)
      with push_times [OF i(1), of c n1 n2 name] i show ?thesis by simp
    next
      case (Pop name)
      with step op have "timer_pop_named n1 n2 name w = Inr v" by (simp add: timer_step_def)
      from pop_times [OF i(1,3) this] ne show ?thesis by simp
    qed
    then show ?case unfolding snoc gap by (simp add: c op algebra_simps)
  qed
  from assms(3) obtain v where v: "foldE timer_step ((Push first, now, start) # take (length ops) ops) t = Inr v"
    and final: "timer_pop_named finish now' final v = Inr u"
    by (auto simp: foldE_append bindE_eq_Inr timer_step_def)
  from inv [OF v] have "timer_ok v" "timed v - begun v = ?c - sum_list (map gap ops)" by auto
  from pop_times [OF this final] assms(4) show ?thesis by (simp add: algebra_simps)
qed

theorem times_add_up_witness:
  "\<exists>u. foldE timer_step [(Push ''a'', \<lparr>user = 0, sys = 0, wall = 2\<rparr>, \<lparr>user = 0, sys = 0, wall = 3\<rparr>),
      (Push ''b'', \<lparr>user = 0, sys = 0, wall = 5\<rparr>, \<lparr>user = 0, sys = 0, wall = 6\<rparr>),
      (Pop ''b'', \<lparr>user = 0, sys = 0, wall = 7\<rparr>, \<lparr>user = 0, sys = 0, wall = 7\<rparr>),
      (Pop ''a'', \<lparr>user = 0, sys = 0, wall = 10\<rparr>, \<lparr>user = 0, sys = 0, wall = 11\<rparr>)] timer_new = Inr u \<and>
    timed u = 6"
proof -
  let ?t = "\<lambda>w :: i64. \<lparr>user = 0, sys = 0, wall = w\<rparr>"
  let ?ops = "[(Push ''b'', ?t 5, ?t 6), (Pop ''b'', ?t 7, ?t 7)]"
  note defs = timer_step_def timer_push_def timer_pop_named_def timer_pop_def timer_new_def on_top_def Let_def
  obtain u where u: "foldE timer_step ((Push ''a'', ?t 2, ?t 3) # ?ops @ [(Pop ''a'', ?t 10, ?t 11)]) timer_new = Inr u"
    "tasks_stack u = []" by (simp add: defs)
  have stack: "\<forall>k \<le> length ?ops. \<forall>v. foldE timer_step ((Push ''a'', ?t 2, ?t 3) # take k ?ops) timer_new = Inr v \<longrightarrow>
      tasks_stack v \<noteq> []"
  proof (intro allI impI)
    fix k v
    assume k: "k \<le> length ?ops" and v: "foldE timer_step ((Push ''a'', ?t 2, ?t 3) # take k ?ops) timer_new = Inr v"
    from k consider "k = 0" | "k = 1" | "k = 2" by fastforce
    then show "tasks_stack v \<noteq> []" using v by cases (auto simp: defs)
  qed
  have "timer_ok timer_new" "tasks_stack timer_new = []" by (simp_all add: timer_ok_def timer_new_def)
  from times_add_up [OF this u(1,2) stack] u show ?thesis by (simp add: timed_def timer_new_def gap_def)
qed

end
