(* ===== verification/Misc_Error.thy ===== *)
theory Misc_Error
  imports Tiger_Prelude
begin

text \<open>
  \<^verbatim>\<open>lib/misc/error.cc\<close>, \<^verbatim>\<open>lib/misc/error.hxx\<close>: the error handler, its status and its text,
  and the ways to leave (throwing it, or aborting).  The overloads of \<open>operator<<\<close> are
  \<open>error_put\<close>, \<open>error_status\<close>, \<open>error_endl\<close>, \<open>error_import\<close> and the member manipulators.
\<close>

section \<open>The model of the code\<close>

definition error_code :: "error_type \<Rightarrow> nat" where
  "error_code t =
     (case t of err_success \<Rightarrow> 0 | err_failure \<Rightarrow> 1 | err_scan \<Rightarrow> 2 | err_parse \<Rightarrow> 3
      | err_bind \<Rightarrow> 4 | err_type \<Rightarrow> 5)"

definition error_new :: error where
  "error_new = \<lparr>status = err_success, stream = oss_new\<rparr>"

definition error_assign :: "error \<Rightarrow> error \<Rightarrow> error" where
  "error_assign lhs rhs =
     lhs\<lparr>status := status rhs, stream := oss_set (buffer (stream rhs)) (stream lhs)\<rparr>"

definition error_copy :: "error \<Rightarrow> error" where
  "error_copy e = error_assign \<lparr>status = err_success, stream = oss_new\<rparr> e"

definition error_put :: "string \<Rightarrow> error \<Rightarrow> error" where
  "error_put s e = e\<lparr>stream := oss_put s (stream e)\<rparr>"

definition error_status :: "error_type \<Rightarrow> error \<Rightarrow> error" where
  "error_status t e =
     (let status_value = error_code (status e); e_value = error_code t in
      if (e_value \<noteq> 0 \<and> e_value < status_value) \<or> status_value = 0
      then e\<lparr>status := t\<rparr> else e)"

definition error_import :: "error \<Rightarrow> error \<Rightarrow> error" where
  "error_import rhs e = error_put (buffer (stream rhs)) (error_status (status rhs) e)"

text \<open>\<open>std::endl\<close> is the manipulator the code applies.\<close>

definition error_endl :: "error \<Rightarrow> error" where
  "error_endl e = e\<lparr>stream := oss_put newline (stream e)\<rparr>"

text \<open>The manipulators of \<^verbatim>\<open>misc/indent.cc\<close> on the stream of an error.\<close>

definition error_iendl :: "error \<Rightarrow> error" where
  "error_iendl e =
     (let e1 = error_endl e in error_put (replicate (nat (oss_indent (stream e1))) CHR '' '') e1)"

definition error_incendl :: "error \<Rightarrow> error" where
  "error_incendl e =
     error_iendl (e\<lparr>stream := (stream e)\<lparr>oss_indent := oss_indent (stream e) + 2\<rparr>\<rparr>)"

definition error_decendl :: "error \<Rightarrow> error res" where
  "error_decendl e =
     (if oss_indent (stream e) \<noteq> 0
      then Inr (error_iendl (e\<lparr>stream := (stream e)\<lparr>oss_indent := oss_indent (stream e) - 2\<rparr>\<rparr>))
      else Inl Assertion)"

definition error_exit :: "error \<Rightarrow> 'a res" where
  "error_exit e = Inl (Thrown (error_copy e))"

definition error_exit_on_error :: "error \<Rightarrow> unit res" where
  "error_exit_on_error e = (if error_code (status e) \<noteq> 0 then error_exit e else Inr ())"

definition error_ice :: "error \<Rightarrow> 'a res" where
  "error_ice e = Inl (Ice (buffer (stream e)))"

definition error_ice_on_error :: "error \<Rightarrow> unit res" where
  "error_ice_on_error e = (if error_code (status e) \<noteq> 0 then error_ice e else Inr ())"

text \<open>\<open>stream_.clear()\<close> resets the state flags of the stream: it does not touch its buffer.\<close>

definition error_clear :: "error \<Rightarrow> error" where
  "error_clear e = e\<lparr>status := err_success\<rparr>"

text \<open>The hooks for member manipulators: \<open>(this->*f)()\<close> then \<open>return *this\<close>.\<close>

definition error_manip :: "(error \<Rightarrow> error) \<Rightarrow> error \<Rightarrow> error" where
  "error_manip f e = f e"

definition error_const_manip :: "(error \<Rightarrow> unit res) \<Rightarrow> error \<Rightarrow> error res" where
  "error_const_manip f e = bindE (f e) (\<lambda>_. Inr e)"

definition error_bool :: "error \<Rightarrow> bool" where
  "error_bool e \<longleftrightarrow> status e \<noteq> err_success"

definition status_get_value :: "error \<Rightarrow> nat" where
  "status_get_value e = error_code (status e)"

definition error_print :: "error \<Rightarrow> string \<Rightarrow> string" where
  "error_print e out = out @ buffer (stream e)"

section \<open>Facts of the model\<close>

lemma error_code_inject [simp]: "error_code s = error_code t \<longleftrightarrow> s = t"
  by (cases s; cases t) (simp_all add: error_code_def)

lemma error_code_zero [simp]: "error_code t = 0 \<longleftrightarrow> t = err_success"
  by (cases t) (simp_all add: error_code_def)

lemma error_code_success [simp]: "error_code err_success = 0"
  by simp

lemma error_code_pos [simp]: "0 < error_code t \<longleftrightarrow> t \<noteq> err_success"
  using error_code_zero [of t] by linarith

lemma error_status_stream [simp]: "stream (error_status t e) = stream e"
  by (simp add: error_status_def Let_def)

lemma error_put_status [simp]: "status (error_put s e) = status e"
  by (simp add: error_put_def)

lemma error_endl_status [simp]: "status (error_endl e) = status e"
  by (simp add: error_endl_def)

lemma error_iendl_status [simp]: "status (error_iendl e) = status e"
  by (simp add: error_iendl_def Let_def)

lemma error_incendl_status [simp]: "status (error_incendl e) = status e"
  by (simp add: error_incendl_def)

lemma error_decendl_status: "error_decendl e = Inr e' \<Longrightarrow> status e' = status e"
  by (auto simp: error_decendl_def split: if_splits)

lemma oss_put_indent [simp]: "oss_indent (oss_put s os) = oss_indent os"
  by (simp add: oss_put_def)

lemma error_put_indent [simp]: "oss_indent (stream (error_put s e)) = oss_indent (stream e)"
  by (simp add: error_put_def)

lemma error_endl_indent [simp]: "oss_indent (stream (error_endl e)) = oss_indent (stream e)"
  by (simp add: error_endl_def)

lemma error_iendl_indent [simp]: "oss_indent (stream (error_iendl e)) = oss_indent (stream e)"
  by (simp add: error_iendl_def Let_def)

lemma error_incendl_indent [simp]:
  "oss_indent (stream (error_incendl e)) = oss_indent (stream e) + 2"
  by (simp add: error_incendl_def)

lemma error_status_code:
  "error_code (status (error_status t e)) =
   (if status e = err_success then error_code t
    else if t = err_success then error_code (status e)
    else min (error_code t) (error_code (status e)))"
  by (auto simp: error_status_def Let_def)

text \<open>An error whose next output goes at the end of its text: every error but a copy.\<close>

definition error_wf :: "error \<Rightarrow> bool" where
  "error_wf e \<longleftrightarrow> oss_at_end (stream e)"

lemma error_new_wf [simp]: "error_wf error_new"
  by (simp add: error_wf_def error_new_def)

lemma error_wf_step [simp]:
  assumes "error_wf e"
  shows "error_wf (error_put s e)" "error_wf (error_status t e)" "error_wf (error_endl e)"
    "error_wf (error_import r e)" "error_wf (error_clear e)"
  using assms
  by (simp_all add: error_wf_def error_put_def error_endl_def error_import_def error_clear_def)

lemma error_put_text [simp]:
  "error_wf e \<Longrightarrow> buffer (stream (error_put s e)) = buffer (stream e) @ s"
  by (simp add: error_wf_def error_put_def)

lemma error_wf_status_put [simp]: "error_wf (error_status t e) = error_wf e"
  by (simp add: error_wf_def)

text \<open>
  Merging the errors of several components: the status is the least of the non-zero statuses
  (\<open>least_failure\<close>), the text the concatenation of the texts.
\<close>

definition least_failure :: "error_type list \<Rightarrow> nat" where
  "least_failure ts =
     (let fs = filter (\<lambda>t. t \<noteq> err_success) ts
      in if fs = [] then 0 else Min (error_code ` set fs))"

definition import_all :: "error list \<Rightarrow> error \<Rightarrow> error" where
  "import_all es e = foldl (\<lambda>acc r. error_import r acc) e es"

lemma import_all_snoc: "import_all (es @ [r]) e = error_import r (import_all es e)"
  by (simp add: import_all_def)

lemma least_failure_zero: "least_failure ts = 0 \<longleftrightarrow> (\<forall>t \<in> set ts. t = err_success)"
proof -
  define fs where "fs = filter (\<lambda>t. t \<noteq> err_success) ts"
  have "Min (error_code ` set fs) \<noteq> 0" if "fs \<noteq> []"
  proof -
    have "Min (error_code ` set fs) \<in> error_code ` set fs"
      using that by (intro Min_in) simp_all
    then show ?thesis by (auto simp: fs_def)
  qed
  then have "least_failure ts = 0 \<longleftrightarrow> fs = []"
    by (simp add: least_failure_def Let_def fs_def [symmetric])
  then show ?thesis by (simp add: fs_def filter_empty_conv)
qed

lemma least_failure_snoc:
  "least_failure (ts @ [t]) =
   (if least_failure ts = 0 then error_code t
    else if t = err_success then least_failure ts else min (error_code t) (least_failure ts))"
proof (cases "least_failure ts = 0")
  case True
  then have "filter (\<lambda>t. t \<noteq> err_success) ts = []"
    by (simp add: least_failure_zero filter_empty_conv)
  with True show ?thesis by (simp add: least_failure_def)
next
  case False
  define fs where "fs = filter (\<lambda>t. t \<noteq> err_success) ts"
  from False have "fs \<noteq> []" by (auto simp: least_failure_def fs_def)
  then have "finite (error_code ` set fs)" "error_code ` set fs \<noteq> {}" by simp_all
  from Min_insert [OF this, of "error_code t"] False \<open>fs \<noteq> []\<close> show ?thesis
    by (simp add: least_failure_def Let_def fs_def [symmetric] del: set_filter)
qed

lemma import_all_status:
  "error_code (status (import_all es e)) = least_failure (map status (e # es))"
proof (induction es rule: rev_induct)
  case Nil
  then show ?case by (simp add: import_all_def least_failure_def)
next
  case (snoc r es)
  have "error_code (status (import_all (es @ [r]) e)) =
    error_code (status (error_status (status r) (import_all es e)))"
    by (simp add: import_all_snoc error_import_def)
  also have "\<dots> = least_failure (map status (e # es) @ [status r])"
    by (simp only: error_status_code least_failure_snoc snoc.IH [symmetric] error_code_zero)
  finally show ?case by simp
qed

lemma import_all_text:
  "error_wf e \<Longrightarrow> error_wf (import_all es e) \<and>
   buffer (stream (import_all es e)) = buffer (stream e) @ concat (map (buffer \<circ> stream) es)"
proof (induction es rule: rev_induct)
  case Nil
  then show ?case by (simp add: import_all_def)
next
  case (snoc r es)
  then have "error_wf (error_status (status r) (import_all es e))" by simp
  then show ?case using snoc by (simp add: import_all_snoc error_import_def)
qed

section \<open>Properties\<close>

text \<open>Importing the errors of several components into an error handler keeps the most severe
  status, the least of the non-zero codes, and concatenates their texts in order.\<close>

theorem import_merges:
  assumes "error_wf e"
  shows "error_code (status (import_all es e)) = least_failure (map status (e # es)) \<and>
    buffer (stream (import_all es e)) = buffer (stream e) @ concat (map (buffer \<circ> stream) es)"
  using import_all_status [of es e] import_all_text [OF assms, of es] by simp

theorem import_merges_witness:
  "error_code (status (import_all [error_status err_type error_new, error_status err_scan error_new] error_new)) = 2"
  using import_merges [OF error_new_wf, of "[error_status err_type error_new, error_status err_scan error_new]"]
  by (simp add: least_failure_def error_status_def error_new_def error_code_def)

text \<open>A copy of an error is not an error one can go on filling: the next output overwrites the
  text from its beginning, and \<open>clear\<close> leaves the text.\<close>

theorem copy_is_overwritten:
  "buffer (stream (error_put s (error_copy e))) = s @ drop (length s) (buffer (stream e)) \<and>
   buffer (stream (error_clear e)) = buffer (stream e)"
  by (simp add: error_put_def error_copy_def error_assign_def oss_set_def oss_put_def error_clear_def)

end
