(* ===== verification/Task.thy ===== *)
theory Task
  imports Misc_Timer Misc_Error "HOL-Library.List_Lexorder" "HOL-Library.Char_ord"
begin

text \<open>
  \<^verbatim>\<open>src/src/task\<close> and \<^verbatim>\<open>src/src/tc.cc\<close>: the tasks of the compiler, the command line that enables
  them, their order and their execution.  A task is known by its index in the list of the tasks that were built; the
  variables the tasks set and the routines they call are named.  The parse of the command line by
  \<open>boost::program_options\<close> is an argument: what it throws, or the options in their order.
\<close>

section \<open>Tasks\<close>

datatype task_kind =
    Boolean_task string
  | Function_task string
  | Disjunctive_task
  | Int_task string i32 i32
  | String_task string
  | Multiple_string_task string

record task =
  tk_name :: string
  tk_fullname :: string
  tk_module :: string
  tk_desc :: string
  dependencies :: "string list"
  tk_kind :: task_kind

definition normalize :: "string \<Rightarrow> string" where
  "normalize = map (\<lambda>c. if c = CHR ''_'' then CHR ''-'' else c)"

text \<open>The loop on the dependencies, from \<open>start\<close>.\<close>

function split_deps :: "string \<Rightarrow> string list" where
  "split_deps s =
     (if s = [] then []
      else normalize (takeWhile (\<lambda>c. c \<noteq> CHR '' '') s) # split_deps (drop 1 (dropWhile (\<lambda>c. c \<noteq> CHR '' '') s)))"
  by auto
termination
proof (relation "measure length", goal_cases)
  case (2 s)
  have "length (dropWhile (\<lambda>c. c \<noteq> CHR '' '') s) \<le> length s" by (rule length_dropWhile_le)
  then show ?case using 2 by (cases s) auto
qed simp

declare split_deps.simps [simp del]

definition task_new :: "string \<Rightarrow> string \<Rightarrow> string \<Rightarrow> string \<Rightarrow> task_kind \<Rightarrow> task" where
  "task_new name module desc deps kind =
     (let n = normalize name;
          t = \<lparr>tk_name = n, tk_fullname = n, tk_module = module, tk_desc = desc, dependencies = split_deps deps,
               tk_kind = kind\<rparr>
      in if 2 \<le> length n \<and> n ! 1 = CHR ''|''
         then t\<lparr>tk_name := drop 2 n, tk_fullname := drop 2 (n @ '','' @ [n ! 0])\<rparr> else t)"

definition resolve_deps :: "task \<Rightarrow> nat list \<Rightarrow> string list" where
  "resolve_deps t active_tasks = (case tk_kind t of
     Disjunctive_task \<Rightarrow> (if active_tasks \<noteq> [] \<or> dependencies t = [] then [] else [hd (dependencies t)])
   | _ \<Rightarrow> dependencies t)"

section \<open>The register\<close>

record registry =
  built :: "task list"
  task_list :: "string \<rightharpoonup> nat"
  task_order :: "nat list"
  modules :: "string \<rightharpoonup> (string \<times> string \<times> nat) list"
  task_error :: error
  reg_timer :: timer

definition registry_new :: registry where
  "registry_new = \<lparr>built = [], task_list = Map.empty, task_order = [], modules = Map.empty, task_error = error_new,
     reg_timer = timer_new\<rparr>"

definition task_failure :: "string \<Rightarrow> registry \<Rightarrow> registry" where
  "task_failure text r = r\<lparr>task_error := error_put (text @ newline) (error_status err_failure (task_error r))\<rparr>"

definition register_in_module :: "string \<Rightarrow> nat \<Rightarrow> registry \<Rightarrow> bool \<times> registry" where
  "register_in_module program_name a r =
     (let t = built r ! a in
      if task_list r (tk_name t) \<noteq> None
      then (False, task_failure (program_name @ '': TaskRegister::register_task('' @ tk_name t @
                     ''): task name already registered.'') r)
      else (True, r\<lparr>task_list := (task_list r)(tk_name t \<mapsto> a),
                    modules := (if modules r (tk_module t) = None
                                then (modules r)(tk_module t \<mapsto> []) else modules r)\<rparr>))"

text \<open>Building a task registers it, and adds its option to its module.\<close>

definition register_task :: "string \<Rightarrow> nat \<Rightarrow> registry \<Rightarrow> registry" where
  "register_task program_name a r =
     (let (registered, r1) = register_in_module program_name a r; t = built r ! a
      in if registered
         then r1\<lparr>modules := (modules r1)(tk_module t :=
                map_option (\<lambda>os. os @ [(tk_fullname t, tk_desc t, a)]) (modules r1 (tk_module t)))\<rparr>
         else r1)"

definition build_task :: "string \<Rightarrow> task \<Rightarrow> registry \<Rightarrow> registry" where
  "build_task program_name t r = register_task program_name (length (built r)) (r\<lparr>built := built r @ [t]\<rparr>)"

text \<open>The dependencies that are already to be executed; those that are not known are errors.\<close>

definition unknown_deps :: "string \<Rightarrow> nat \<Rightarrow> registry \<Rightarrow> registry" where
  "unknown_deps program_name a r =
     fold (\<lambda>s r. task_failure (program_name @ '': TaskRegister::resolve_dependencies('' @ [CHR 0x22] @ tk_name (built r ! a) @
              [CHR 0x22] @ ''): unknown task: '' @ [CHR 0x22] @ s @ [CHR 0x22]) r)
       (filter (\<lambda>s. task_list r s = None) (dependencies (built r ! a))) r"

definition enabled_deps :: "nat \<Rightarrow> registry \<Rightarrow> nat list" where
  "enabled_deps a r =
     filter (\<lambda>b. b \<in> set (task_order r)) (List.map_filter (task_list r) (dependencies (built r ! a)))"

definition resolve_dependencies :: "(string \<Rightarrow> registry \<Rightarrow> registry res) \<Rightarrow> string \<Rightarrow> nat \<Rightarrow> registry \<Rightarrow> registry res" where
  "resolve_dependencies enable program_name a r =
     foldE (\<lambda>s r. case task_list r s of
         None \<Rightarrow> Inr r
       | Some b \<Rightarrow> if b \<in> set (task_order r) then Inr r else enable s r)
       (resolve_deps (built r ! a) (enabled_deps a r)) (unknown_deps program_name a r)"

text \<open>\<open>enable_task\<close> and \<open>resolve_dependencies\<close> call each other; a bound on the depth of the calls.\<close>

primrec enable_upto :: "nat \<Rightarrow> string \<Rightarrow> string \<Rightarrow> registry \<Rightarrow> registry res" where
  "enable_upto 0 = (\<lambda>program_name task_name r. Inl No_fuel)"
| "enable_upto (Suc n) = (\<lambda>program_name task_name r. case task_list r task_name of
     None \<Rightarrow> Inr (task_failure (program_name @ '': TaskRegister::enable_task('' @ task_name @
               ''): this task has not been registered.'') r)
   | Some a \<Rightarrow> bindE (resolve_dependencies (enable_upto n program_name) program_name a r)
       (\<lambda>r1. Inr (r1\<lparr>task_order := task_order r1 @ [a]\<rparr>)))"

definition nb_of_task_to_execute_get :: "registry \<Rightarrow> nat" where
  "nb_of_task_to_execute_get r = length (task_order r)"

definition registered_names :: "registry \<Rightarrow> string list" where
  "registered_names r = sort (remdups (filter (\<lambda>s. task_list r s \<noteq> None) (map tk_name (built r))))"

definition print_task_list :: "registry \<Rightarrow> string" where
  "print_task_list r =
     ''List of registered tasks:'' @ newline @
     concat (map (\<lambda>s. CHR 0x09 # ''* '' @ s @ newline) (registered_names r)) @ newline"

definition quoted :: "string \<Rightarrow> string" where
  "quoted s = [CHR 0x22] @ s @ [CHR 0x22]"

definition print_task_node :: "task \<Rightarrow> string" where
  "print_task_node t =
     (if tk_kind t = Disjunctive_task then ''  '' @ quoted (tk_name t) @ '' [shape=diamond]'' @ newline else []) @
     ''  '' @ quoted (tk_name t) @
     (if dependencies t = [] then []
      else '' -> {'' @ concat (map (\<lambda>s. '' '' @ quoted s) (dependencies t)) @ '' } '') @ newline"

definition print_task_graph :: "registry \<Rightarrow> string" where
  "print_task_graph r =
     ''/* Task graph */'' @ newline @ ''digraph Tasks {'' @ newline @ ''  node [shape=box, fontsize=14]'' @ newline @
     ''  graph [ordering=out]'' @ newline @
     concat (map (\<lambda>s. print_task_node (built r ! the (task_list r s))) (registered_names r)) @ ''}'' @ newline"

definition print_task_order :: "registry \<Rightarrow> string" where
  "print_task_order r =
     ''List of Task Order:'' @ newline @
     concat (map (\<lambda>a. CHR 0x09 # ''* '' @ tk_name (built r ! a) @ newline) (task_order r)) @ newline"

section \<open>The command line\<close>

text \<open>The global variables that the tasks set, and the rest of the world.\<close>

record 'w globals =
  flag_values :: "string \<Rightarrow> bool"
  int_values :: "string \<Rightarrow> i32"
  string_values :: "string \<Rightarrow> string"
  arg_values :: "nat \<Rightarrow> string"
  outside :: 'w

text \<open>\<open>std::stol\<close>: blanks, a sign, digits; what follows them is ignored.\<close>

definition is_space :: "char \<Rightarrow> bool" where
  "is_space c \<longleftrightarrow> c \<in> {CHR '' '', CHR 0x09, CHR 0x0A, CHR 0x0B, CHR 0x0C, CHR 0x0D}"

definition is_digit :: "char \<Rightarrow> bool" where
  "is_digit c \<longleftrightarrow> 48 \<le> (of_char c :: nat) \<and> (of_char c :: nat) \<le> 57"

definition stol :: "string \<Rightarrow> int res" where
  "stol s =
     (let t = dropWhile is_space s;
          neg = (t \<noteq> [] \<and> hd t = CHR ''-'');
          u = (if t \<noteq> [] \<and> (hd t = CHR ''-'' \<or> hd t = CHR ''+'') then tl t else t);
          ds = takeWhile is_digit u;
          n = (if neg then - int (read_dec ds) else int (read_dec ds))
      in if ds = [] then Inl Invalid_argument
         else if - (2 ^ 63) \<le> n \<and> n < 2 ^ 63 then Inr n else Inl Out_of_range)"

text \<open>The conversion from \<open>long\<close> to \<open>int\<close> keeps the low bits.\<close>

definition int_arg_set :: "string \<Rightarrow> i32 \<Rightarrow> i32 \<Rightarrow> string \<Rightarrow> 'w globals \<Rightarrow> 'w globals res" where
  "int_arg_set var low high arg g =
     bindE (stol arg) (\<lambda>n.
       let value = word_of_int n
       in if sint low \<le> sint value \<and> sint value \<le> sint high
          then Inr (g\<lparr>int_values := (int_values g)(var := value)\<rparr>) else Inl Invalid_argument)"

definition arg_set :: "task \<Rightarrow> nat \<Rightarrow> string \<Rightarrow> 'w globals \<Rightarrow> 'w globals res" where
  "arg_set t a arg g =
     (let g1 = g\<lparr>arg_values := (arg_values g)(a := arg)\<rparr>
      in case tk_kind t of
        Int_task var low high \<Rightarrow> int_arg_set var low high arg g1
      | _ \<Rightarrow> Inr g1)"

definition takes_argument :: "task \<Rightarrow> bool" where
  "takes_argument t \<longleftrightarrow> (case tk_kind t of
     Int_task _ _ _ \<Rightarrow> True | String_task _ \<Rightarrow> True | Multiple_string_task _ \<Rightarrow> True | _ \<Rightarrow> False)"

text \<open>The callback of an option: the argument is set, and the task enabled.\<close>

definition notify_option ::
  "nat \<Rightarrow> string \<Rightarrow> string \<times> string \<Rightarrow> registry \<times> 'w globals \<times> string \<Rightarrow> (registry \<times> 'w globals \<times> string) res" where
  "notify_option n program_name i = (\<lambda>(r, g, input_file).
     if fst i = ''input-file'' then Inr (r, g, snd i)
     else case task_list r (fst i) of
       None \<Rightarrow> Inl Invalid_argument
     | Some a \<Rightarrow>
         bindE (if takes_argument (built r ! a) then arg_set (built r ! a) a (snd i) g else Inr g) (\<lambda>g1.
         bindE (enable_upto n program_name (tk_name (built r ! a)) r) (\<lambda>r1. Inr (r1, g1, input_file))))"

definition is_parsed :: "string \<Rightarrow> (string \<times> string) list \<Rightarrow> bool" where
  "is_parsed s os \<longleftrightarrow> list_ex (\<lambda>(key, value). s = key) os"

text \<open>\<open>parse_arg\<close>: the result is the input file, null when only information was asked for.\<close>

definition parse_arg ::
  "nat \<Rightarrow> string \<Rightarrow> (string \<times> string) list option \<Rightarrow> registry \<times> 'w globals
   \<Rightarrow> (string option \<times> registry \<times> 'w globals) res" where
  "parse_arg n program_name parsed = (\<lambda>(r, g). case parsed of
     None \<Rightarrow> Inl Invalid_argument
   | Some os \<Rightarrow>
       if is_parsed ''help'' os \<or> is_parsed ''version'' os \<or> is_parsed ''usage'' os \<or> is_parsed ''license'' os
       then Inr (None, r, g)
       else bindE (foldE (notify_option n program_name) os (r, g, [])) (\<lambda>(r1, g1, input_file).
         if input_file = [] then Inl Invalid_argument else Inr (Some input_file, r1, g1)))"

section \<open>Execution\<close>

text \<open>What a task calls sees the errors recorded so far, and may record some or throw.\<close>

record 'w routines =
  routine :: "string \<Rightarrow> error \<times> 'w globals \<Rightarrow> (error \<times> 'w globals) res"
  string_routine :: "string \<Rightarrow> string \<Rightarrow> error \<times> 'w globals \<Rightarrow> (error \<times> 'w globals) res"

definition execute_task ::
  "'w routines \<Rightarrow> task \<Rightarrow> nat \<Rightarrow> error \<times> 'w globals \<Rightarrow> (error \<times> 'w globals) res" where
  "execute_task R t a = (\<lambda>(err, g). case tk_kind t of
     Boolean_task flag \<Rightarrow> Inr (err, g\<lparr>flag_values := (flag_values g)(flag := True)\<rparr>)
   | Function_task f \<Rightarrow> routine R f (err, g)
   | Disjunctive_task \<Rightarrow> Inr (err, g)
   | Int_task _ _ _ \<Rightarrow> Inr (err, g)
   | String_task var \<Rightarrow> Inr (err, g\<lparr>string_values := (string_values g)(var := arg_values g a)\<rparr>)
   | Multiple_string_task f \<Rightarrow> string_routine R f (arg_values g a) (err, g))"

text \<open>\<open>now k\<close> is the \<open>k\<close>-th reading of the clock.\<close>

definition timer_label :: "task \<Rightarrow> string" where
  "timer_label t = (if tk_module t = [] then [] else hd (tk_module t) # '': '') @ tk_name t"

definition execute ::
  "'w routines \<Rightarrow> (nat \<Rightarrow> time) \<Rightarrow> registry \<times> 'w globals \<Rightarrow> (registry \<times> 'w globals) res" where
  "execute R now = (\<lambda>(r, g).
     foldE (\<lambda>(k, a) (r, g).
       let t = built r ! a; tm = timer_push (now (4 * k)) (now (4 * k + 1)) (timer_label t) (reg_timer r)
       in bindE (execute_task R t a (task_error r, g)) (\<lambda>(err, g1).
          bindE (timer_pop_named (now (4 * k + 2)) (now (4 * k + 3)) (timer_label t) tm) (\<lambda>tm1.
            Inr (r\<lparr>reg_timer := tm1, task_error := err\<rparr>, g1))))
       (enumerate 0 (task_order r)) (r, g))"

text \<open>\<open>main\<close>: the exit status; the exceptions that it does not catch terminate the program.\<close>

definition tc_body ::
  "nat \<Rightarrow> 'w routines \<Rightarrow> (nat \<Rightarrow> time) \<Rightarrow> string \<Rightarrow> (string \<times> string) list option \<Rightarrow> registry \<times> 'w globals
   \<Rightarrow> (registry \<times> 'w globals) res" where
  "tc_body n R now program_name parsed x =
     bindE (parse_arg n program_name parsed x) (\<lambda>(filename, r, g).
     bindE (error_exit_on_error (task_error r)) (\<lambda>_.
     if filename = None then Inr (r, g)
     else bindE (if nb_of_task_to_execute_get r = 0 then enable_upto n program_name ''parse'' r else Inr r) (\<lambda>r1.
          bindE (execute R now (r1, g)) (\<lambda>(r2, g2).
          bindE (error_exit_on_error (task_error r2)) (\<lambda>_. Inr (r2, g2))))))"

definition tc_main ::
  "nat \<Rightarrow> 'w routines \<Rightarrow> (nat \<Rightarrow> time) \<Rightarrow> string \<Rightarrow> (string \<times> string) list option \<Rightarrow> registry \<times> 'w globals \<Rightarrow> nat res" where
  "tc_main n R now program_name parsed x = (case tc_body n R now program_name parsed x of
     Inr _ \<Rightarrow> Inr 0
   | Inl e \<Rightarrow> (case e of
       Invalid_argument \<Rightarrow> Inr 64
     | Range_error \<Rightarrow> Inr 0
     | Thrown err \<Rightarrow> Inr (status_get_value err)
     | _ \<Rightarrow> Inl e))"

section \<open>The tasks of the compiler\<close>

text \<open>The declarations of the files \<^verbatim>\<open>tasks.hh\<close>, without their help texts.\<close>

type_synonym task_decl = "string \<times> task_kind \<times> string \<times> string"

definition declare_task :: "string \<Rightarrow> task_kind \<times> string \<times> string \<Rightarrow> task_decl" where
  "declare_task module d = (module, d)"

definition ast_tasks :: "task_decl list" where
  "ast_tasks = map (declare_task ''2. Abstract Syntax Tree'') [
     (Function_task ''ast_display'', ''A|ast-display'', ''parse''),
     (Function_task ''ast_dump'', ''ast-dump'', ''parse'')]"

definition astclone_tasks :: "task_decl list" where
  "astclone_tasks = map (declare_task ''2.5 Cloning'') [
     (Function_task ''clone'', ''clone'', ''parse'')]"

definition bind_tasks :: "task_decl list" where
  "bind_tasks = map (declare_task ''3. Binding'') [
     (Function_task ''bind'', ''b|bindings-compute'', ''parse''),
     (Disjunctive_task, ''bound'', ''bindings-compute''),
     (Function_task ''bind_print'', ''B|bindings-display'', ''parse''),
     (Function_task ''rename'', ''rename'', ''bindings-compute'')]"

definition callgraph_tasks :: "task_decl list" where
  "callgraph_tasks = map (declare_task ''3. Callgraph'') [
     (Function_task ''callgraph_compute'', ''callgraph-compute'', ''bindings-compute''),
     (Function_task ''callgraph_dump'', ''callgraph-dump'', ''callgraph-compute''),
     (Function_task ''parentgraph_compute'', ''parentgraph-compute'', ''parse''),
     (Function_task ''parentgraph_dump'', ''parentgraph-dump'', ''parentgraph-compute'')]"

definition combine_tasks :: "task_decl list" where
  "combine_tasks = map (declare_task ''Combine'') [
     (Boolean_task ''c_object_p'', ''c-object'', ''object''),
     (Boolean_task ''c_bounds_p'', ''c-bounds'', []),
     (Boolean_task ''c_escapes_p'', ''c-escapes'', []),
     (Boolean_task ''c_desugar_p'', ''c-desugar'', ''desugar-for desugar-string-cmp''),
     (Boolean_task ''c_inline_p'', ''c-inline'', []),
     (Boolean_task ''c_prune_p'', ''c-prune'', []),
     (Boolean_task ''c_overload_p'', ''c-overload'', []),
     (Boolean_task ''c_all_p'', ''a|c-all'', ''c-object c-bounds c-escapes c-desugar c-inline c-prune c-overload''),
     (Function_task ''combine_bindings_compute'', ''combine-bindings-compute'', ''parse''),
     (Function_task ''combine_types_compute'', ''combine-types-compute'', ''combine-bindings-compute''),
     (Function_task ''combine_rename'', ''combine-rename'', ''combine-types-compute''),
     (Function_task ''combine_desugar'', ''c|combine-desugar'', ''combine-rename'')]"

definition desugar_tasks :: "task_decl list" where
  "desugar_tasks = map (declare_task ''Desugaring and bounds-checking'') [
     (Boolean_task ''desugar_for_p'', ''desugar-for'', []),
     (Boolean_task ''desugar_string_cmp_p'', ''desugar-string-cmp'', []),
     (Disjunctive_task, ''desugared'', ''desugar''),
     (Function_task ''desugar'', ''desugar'', ''types-compute rename''),
     (Function_task ''raw_desugar'', ''raw-desugar'', ''typed rename''),
     (Function_task ''bounds_checks_add'', ''bounds-checks-add'', ''types-compute rename''),
     (Function_task ''raw_bounds_checks_add'', ''raw-bounds-checks-add'', ''typed rename'')]"

definition escapes_tasks :: "task_decl list" where
  "escapes_tasks = map (declare_task ''3. Escapes'') [
     (Function_task ''escapes_compute'', ''e|escapes-compute'', ''bound''),
     (Function_task ''escapes_display'', ''E|escapes-display'', ''parse'')]"

definition inlining_tasks :: "task_decl list" where
  "inlining_tasks = map (declare_task ''Inlining'') [
     (Function_task ''inline_expand'', ''inline'', ''types-compute rename''),
     (Function_task ''prune'', ''prune'', ''rename types-compute'')]"

definition llvmgc_tasks :: "task_decl list" where
  "llvmgc_tasks = map (declare_task ''LLVM Garbage Collection'') [
     (Function_task ''llvm_gc_compute'', ''llvm-gc-compute'', ''typed desugar-for desugar-string-cmp desugar escapes-compute''),
     (Boolean_task ''llvm_gc_debug_p'', ''llvm-gc-debug'', []),
     (Function_task ''llvm_gc_runtime_link'', ''llvm-gc-runtime-link'', ''llvm-gc-compute'')]"

definition llvmtranslate_tasks :: "task_decl list" where
  "llvmtranslate_tasks = map (declare_task ''5.5. Translation to LLVM Intermediate Representation'') [
     (Function_task ''llvm_compute'', ''llvm-compute'', ''typed desugar-for desugar-string-cmp desugar escapes-compute''),
     (Boolean_task ''llvm_runtime_display_p'', ''llvm-runtime-display'', []),
     (Disjunctive_task, ''llvm-computed'', ''llvm-compute llvm-gc-compute''),
     (Function_task ''llvm_display'', ''llvm-display'', ''llvm-computed'')]"

definition object_tasks :: "task_decl list" where
  "object_tasks = map (declare_task ''Object'') [
     (Boolean_task ''enable_object_extensions_p'', ''o|object'', []),
     (Function_task ''object_parse'', ''object-parse'', ''object parse''),
     (Function_task ''object_types_compute'', ''object-types-compute'', ''object-bindings-compute''),
     (Function_task ''object_rename'', ''object-rename'', ''object-types-compute''),
     (Function_task ''object_desugar'', ''object-desugar'', ''object-rename''),
     (Function_task ''raw_object_desugar'', ''raw-object-desugar'', ''object-rename'')]"

definition overload_tasks :: "task_decl list" where
  "overload_tasks = map (declare_task ''4.5 Type checking with overloading'') [
     (Function_task ''overfun_bindings_compute'', ''overfun-bindings-compute'', ''parse''),
     (Function_task ''overfun_types_compute'', ''O|overfun-types-compute'', ''overfun-bindings-compute'')]"

definition parse_tasks :: "task_decl list" where
  "parse_tasks = map (declare_task ''1. Parsing'') [
     (Boolean_task ''scan_trace_p'', ''scan-trace'', []),
     (Boolean_task ''parse_trace_p'', ''parse-trace'', []),
     (String_task ''prelude'', ''prelude'', []),
     (Function_task ''no_prelude'', ''X|no-prelude'', []),
     (Function_task ''parse'', ''parse'', []),
     (Function_task ''library_display'', ''library-display'', []),
     (Multiple_string_task ''library_append'', ''P|library-append'', []),
     (Multiple_string_task ''library_prepend'', ''p|library-prepend'', [])]"

definition task_tasks :: "task_decl list" where
  "task_tasks = map (declare_task ''0. Tasks'') [
     (Function_task ''tasks_list'', ''task-list'', []),
     (Function_task ''tasks_graph'', ''task-graph'', []),
     (Function_task ''tasks_selection'', ''task-selection'', []),
     (Function_task ''time_report'', ''time-report'', [])]"

definition type_tasks :: "task_decl list" where
  "type_tasks = map (declare_task ''4. Type checking'') [
     (Disjunctive_task, ''T|typed'', ''types-compute combine-types-compute object-types-compute''),
     (Function_task ''types_check'', ''types-compute'', ''bindings-compute'')]"

definition build_declaration :: "string \<Rightarrow> task_decl \<Rightarrow> registry \<Rightarrow> registry" where
  "build_declaration program_name d r = (case d of (module, kind, name, deps) \<Rightarrow>
     build_task program_name (task_new name module [] deps kind) r)"

text \<open>The order of the files is not determined by the code.\<close>

definition tc_declarations :: "task_decl list" where
  "tc_declarations = ast_tasks @ astclone_tasks @ bind_tasks @ callgraph_tasks @ combine_tasks @ desugar_tasks @
     escapes_tasks @ inlining_tasks @ llvmgc_tasks @ llvmtranslate_tasks @ object_tasks @ overload_tasks @ parse_tasks @
     task_tasks @ type_tasks"

definition tc_registry :: "string \<Rightarrow> registry" where
  "tc_registry program_name = fold (build_declaration program_name) tc_declarations registry_new"

section \<open>The order of execution\<close>

definition unfailed :: "registry \<Rightarrow> bool" where
  "unfailed r \<longleftrightarrow> status (task_error r) = err_success"

definition enabled_in :: "registry \<Rightarrow> nat list \<Rightarrow> string \<Rightarrow> bool" where
  "enabled_in r before s \<longleftrightarrow> (case task_list r s of None \<Rightarrow> False | Some b \<Rightarrow> b \<in> set before)"

text \<open>What a task needs from the tasks that are executed before it: all its dependencies, or one of them.\<close>

definition deps_met :: "registry \<Rightarrow> nat list \<Rightarrow> nat \<Rightarrow> bool" where
  "deps_met r before a \<longleftrightarrow>
     (let t = built r ! a in
      list_all (\<lambda>s. task_list r s \<noteq> None) (dependencies t) \<and>
      (if tk_kind t = Disjunctive_task
       then dependencies t = [] \<or> list_ex (enabled_in r before) (dependencies t)
       else list_all (enabled_in r before) (dependencies t)))"

fun order_met :: "registry \<Rightarrow> nat list \<Rightarrow> nat list \<Rightarrow> bool" where
  "order_met r before [] \<longleftrightarrow> True"
| "order_met r before (a # as) \<longleftrightarrow> deps_met r before a \<and> order_met r (before @ [a]) as"

lemma order_met_append:
  "order_met r before (xs @ ys) \<longleftrightarrow> order_met r before xs \<and> order_met r (before @ xs) ys"
  by (induction xs arbitrary: before) simp_all

text \<open>A registry reg_grows: tasks are only added to the order, and a failure is not forgotten.\<close>

definition reg_grows :: "registry \<Rightarrow> registry \<Rightarrow> bool" where
  "reg_grows r r' \<longleftrightarrow> built r' = built r \<and> task_list r' = task_list r \<and> (\<exists>as. task_order r' = task_order r @ as) \<and>
     (unfailed r' \<longrightarrow> unfailed r)"

lemma reg_grows_refl [simp]: "reg_grows r r"
  by (simp add: reg_grows_def)

lemma reg_grows_trans: "reg_grows r s \<Longrightarrow> reg_grows s t \<Longrightarrow> reg_grows r t"
  by (auto simp: reg_grows_def)

lemma reg_grows_enabled_in: "reg_grows r r' \<Longrightarrow> enabled_in r (task_order r) s \<Longrightarrow> enabled_in r' (task_order r') s"
  by (auto simp: reg_grows_def enabled_in_def split: option.splits)

lemma deps_met_grows [simp]: "reg_grows r r' \<Longrightarrow> deps_met r' = deps_met r"
  by (auto simp: fun_eq_iff reg_grows_def deps_met_def enabled_in_def Let_def list_all_iff list_ex_iff split: option.splits)

lemma order_met_grows: "reg_grows r r' \<Longrightarrow> order_met r' before as = order_met r before as"
  by (induction as arbitrary: before) simp_all

definition in_order :: "registry \<Rightarrow> bool" where
  "in_order r \<longleftrightarrow> (unfailed r \<longrightarrow> order_met r [] (task_order r))"

lemma task_failure_facts [simp]:
  "built (task_failure s r) = built r" "task_list (task_failure s r) = task_list r"
  "task_order (task_failure s r) = task_order r" "\<not> unfailed (task_failure s r)"
proof -
  show "\<not> unfailed (task_failure s r)"
    using error_status_code [of err_failure "task_error r"]
    by (cases "status (task_error r)")
      (auto simp: unfailed_def task_failure_def error_status_def Let_def error_code_def)
qed (simp_all add: task_failure_def)

lemma reg_grows_failure [simp]: "reg_grows r (task_failure s r)"
  by (simp add: reg_grows_def)

lemma in_order_failure [simp]: "in_order (task_failure s r)"
  by (simp add: in_order_def)

lemma fold_failures:
  "reg_grows r (fold (\<lambda>s r. task_failure (f s r) r) ss r)"
  "unfailed (fold (\<lambda>s r. task_failure (f s r) r) ss r) \<Longrightarrow> ss = []"
proof -
  show "reg_grows r (fold (\<lambda>s r. task_failure (f s r) r) ss r)"
    by (induction ss arbitrary: r) (auto intro: reg_grows_trans [OF reg_grows_failure])
  show "unfailed (fold (\<lambda>s r. task_failure (f s r) r) ss r) \<Longrightarrow> ss = []"
    by (induction ss rule: rev_induct) simp_all
qed

lemma unknown_deps_grows: "reg_grows r (unknown_deps p a r)"
  unfolding unknown_deps_def by (rule fold_failures(1))

lemma unknown_deps_order: "task_order (unknown_deps p a r) = task_order r"
  unfolding unknown_deps_def by (rule fold_invariant [where Q = "\<lambda>_. True"]) simp_all

lemma unknown_deps_known:
  assumes "unfailed (unknown_deps p a r)" shows "list_all (\<lambda>s. task_list r s \<noteq> None) (dependencies (built r ! a))"
    and "unknown_deps p a r = r"
proof -
  have none: "filter (\<lambda>s. task_list r s = None) (dependencies (built r ! a)) = []"
    by (rule fold_failures(2)) (use assms in \<open>unfold unknown_deps_def\<close>)
  then show "list_all (\<lambda>s. task_list r s \<noteq> None) (dependencies (built r ! a))"
    by (simp add: filter_empty_conv list_all_iff)
  show "unknown_deps p a r = r" by (simp add: unknown_deps_def none)
qed

text \<open>What enabling a task promises.\<close>

definition enables :: "string \<Rightarrow> registry \<Rightarrow> registry \<Rightarrow> bool" where
  "enables s r r' \<longleftrightarrow> reg_grows r r' \<and> (in_order r \<longrightarrow> in_order r') \<and> (unfailed r' \<longrightarrow> enabled_in r' (task_order r') s)"

lemma resolve_dependencies_meets:
  assumes run: "resolve_dependencies enable p a r = Inr r'"
    and enable: "\<And>s r r'. enable s r = Inr r' \<Longrightarrow> enables s r r'"
  shows "reg_grows r r'" and "in_order r \<Longrightarrow> in_order r'" and "unfailed r' \<Longrightarrow> deps_met r (task_order r') a"
proof -
  define f where "f = (\<lambda>s r. case task_list r s of
         None \<Rightarrow> Inr r
       | Some b \<Rightarrow> if b \<in> set (task_order r) then Inr r else enable s r)"
  let ?u = "unknown_deps p a r"
  let ?ds = "resolve_deps (built r ! a) (enabled_deps a r)"
  have run': "foldE f ?ds ?u = Inr r'" using run by (simp add: resolve_dependencies_def f_def)
  have step: "reg_grows r r' \<and> (in_order r \<longrightarrow> in_order r') \<and>
      (unfailed r' \<longrightarrow> task_list r s \<noteq> None \<longrightarrow> enabled_in r' (task_order r') s)" if "f s r = Inr r'" for s r r'
    using that enable [of s r r'] by (auto simp: f_def enables_def enabled_in_def split: option.splits if_splits)
  have grow: "reg_grows ?u r'"
    by (rule foldE_relation [OF run', where R = reg_grows]) (auto dest: step intro: reg_grows_trans)
  show all: "reg_grows r r'" by (rule reg_grows_trans [OF unknown_deps_grows grow])
  show "in_order r'" if "in_order r"
  proof (rule foldE_invariant [OF run', where P = in_order])
    show "in_order ?u"
      using that unknown_deps_known(2) [of p a r] by (cases "unfailed ?u") (simp, simp add: in_order_def)
  qed (auto dest: step)
  show "deps_met r (task_order r') a" if ok: "unfailed r'"
  proof -
    have "unfailed ?u" using ok grow by (simp add: reg_grows_def)
    note known = unknown_deps_known [OF this]
    have same: "task_list r' = task_list r" using all by (simp add: reg_grows_def)
    have asked: "enabled_in r (task_order r') s" if "s \<in> set ?ds" "task_list r s \<noteq> None" for s
    proof -
      have "\<exists>u v. f s u = Inr v \<and> reg_grows v r'"
        by (rule foldE_member [OF run' that(1), where R = reg_grows]) (auto dest: step intro: reg_grows_trans)
      then obtain u v where v: "f s u = Inr v" "reg_grows v r'" by blast
      then have "task_list u s \<noteq> None" "unfailed v"
        using that(2) ok same step [of s u v] by (auto simp: reg_grows_def)
      with step [OF v(1)] have "enabled_in v (task_order v) s" by blast
      then have "enabled_in r' (task_order r') s" by (rule reg_grows_enabled_in [OF v(2)])
      then show ?thesis using same by (simp add: enabled_in_def)
    qed
    let ?deps = "dependencies (built r ! a)"
    have "list_ex (enabled_in r (task_order r')) ?deps" if disj: "tk_kind (built r ! a) = Disjunctive_task" "?deps \<noteq> []"
    proof (cases "enabled_deps a r")
      case Nil
      then have "?ds = [hd ?deps]" using disj by (simp add: resolve_deps_def)
      moreover have "hd ?deps \<in> set ?deps" using disj by simp
      moreover have "task_list r (hd ?deps) \<noteq> None" using known(1) disj(2) by (cases ?deps) auto
      ultimately show ?thesis using asked [of "hd ?deps"] by (auto simp: list_ex_iff)
    next
      case (Cons b bs)
      then have "b \<in> set (enabled_deps a r)" by simp
      then obtain s where "s \<in> set ?deps" "task_list r s = Some b" "b \<in> set (task_order r)"
        by (auto simp: enabled_deps_def List.map_filter_def)
      moreover have "set (task_order r) \<subseteq> set (task_order r')" using all by (auto simp: reg_grows_def)
      ultimately have "s \<in> set ?deps" "enabled_in r (task_order r') s" by (auto simp: enabled_in_def)
      then show ?thesis unfolding list_ex_iff by blast
    qed
    moreover have "list_all (enabled_in r (task_order r')) ?deps" if "tk_kind (built r ! a) \<noteq> Disjunctive_task"
    proof -
      have "?ds = ?deps" using that by (simp add: resolve_deps_def split: task_kind.splits)
      then show ?thesis using asked known(1) by (simp add: list_all_iff)
    qed
    ultimately show ?thesis using known(1) by (auto simp: deps_met_def Let_def)
  qed
qed

lemma enable_upto_enables: "enable_upto n p s r = Inr r' \<Longrightarrow> enables s r r'"
proof (induction n arbitrary: s r r')
  case (Suc n)
  show ?case
  proof (cases "task_list r s")
    case None
    then have "r' = task_failure (p @ '': TaskRegister::enable_task('' @ s @ ''): this task has not been registered.'') r"
      using Suc.prems by simp
    then show ?thesis by (simp add: enables_def)
  next
    case (Some a)
    then obtain r1 where run: "resolve_dependencies (enable_upto n p) p a r = Inr r1"
      and r': "r' = r1\<lparr>task_order := task_order r1 @ [a]\<rparr>"
      using Suc.prems by (auto simp: bindE_eq_Inr)
    have meets: "reg_grows r r1" "in_order r \<Longrightarrow> in_order r1" "unfailed r1 \<Longrightarrow> deps_met r (task_order r1) a"
      using resolve_dependencies_meets [OF run] Suc.IH by blast+
    have last: "reg_grows r1 r'" by (simp add: r' reg_grows_def unfailed_def)
    have "reg_grows r r'" by (rule reg_grows_trans [OF meets(1) last])
    moreover have "in_order r'" if "in_order r"
    proof (unfold in_order_def, rule impI)
      assume "unfailed r'"
      then have ok: "unfailed r1" by (simp add: r' unfailed_def)
      then have "deps_met r1 (task_order r1) a" using meets(1,3) by simp
      moreover have "order_met r1 [] (task_order r1)" using meets(2) [OF that] ok by (simp add: in_order_def)
      ultimately have "order_met r1 [] (task_order r')" by (simp add: r' order_met_append)
      then show "order_met r' [] (task_order r')" by (simp add: order_met_grows [OF last])
    qed
    moreover have "enabled_in r' (task_order r') s"
    proof -
      have "task_list r' s = Some a" using Some \<open>reg_grows r r'\<close> by (simp add: reg_grows_def)
      then show ?thesis by (simp add: enabled_in_def r')
    qed
    ultimately show ?thesis by (simp add: enables_def)
  qed
qed simp

lemma notify_option_keeps:
  assumes "notify_option n p i (r, g, f) = Inr (r', g', f')"
  shows "reg_grows r r' \<and> (in_order r \<longrightarrow> in_order r')"
  using assms enable_upto_enables [of n p _ r r']
  by (auto simp: notify_option_def enables_def bindE_eq_Inr split: if_splits option.splits)

lemma parse_arg_keeps:
  assumes "parse_arg n p parsed (r, g) = Inr (f, r', g')"
  shows "reg_grows r r' \<and> (in_order r \<longrightarrow> in_order r')"
proof (cases "\<exists>os. parsed = Some os \<and> (\<exists>i. foldE (notify_option n p) os (r, g, []) = Inr (r', g', i))")
  case True
  then obtain os i where run: "foldE (notify_option n p) os (r, g, []) = Inr (r', g', i)" by blast
  have "reg_grows (fst (r, g, [] :: string)) (fst (r', g', i)) \<and> (in_order (fst (r, g, [] :: string)) \<longrightarrow> in_order (fst (r', g', i)))"
    by (rule foldE_relation [OF run, where R = "\<lambda>x y. reg_grows (fst x) (fst y) \<and> (in_order (fst x) \<longrightarrow> in_order (fst y))"])
      (auto dest: notify_option_keeps intro: reg_grows_trans)
  then show ?thesis by simp
next
  case False
  then have "r' = r" using assms by (auto simp: parse_arg_def bindE_eq_Inr split: option.splits if_splits)
  then show ?thesis by simp
qed

section \<open>Enabling ends\<close>

definition ranked :: "(string \<Rightarrow> nat) \<Rightarrow> registry \<Rightarrow> bool" where
  "ranked rk r \<longleftrightarrow> (\<forall>s a. task_list r s = Some a \<longrightarrow>
     (\<forall>d \<in> set (dependencies (built r ! a)). task_list r d \<noteq> None \<longrightarrow> rk d < rk s))"

lemma ranked_grows: "reg_grows r r' \<Longrightarrow> ranked rk r \<Longrightarrow> ranked rk r'"
  by (simp add: reg_grows_def ranked_def)

lemma resolve_deps_subset: "set (resolve_deps t as) \<subseteq> set (dependencies t)"
  by (auto simp: resolve_deps_def split: task_kind.splits)

lemma enable_upto_ends:
  "ranked rk r \<Longrightarrow> rk s < n \<Longrightarrow> \<exists>r'. enable_upto n p s r = Inr r'"
proof (induction n arbitrary: s r)
  case (Suc n)
  show ?case
  proof (cases "task_list r s")
    case (Some a)
    let ?u = "unknown_deps p a r"
    let ?f = "\<lambda>d r. case task_list r d of
         None \<Rightarrow> Inr r
       | Some b \<Rightarrow> if b \<in> set (task_order r) then Inr r else enable_upto n p d r"
    have "\<exists>r'. foldE ?f ds v = Inr r'" if "set ds \<subseteq> set (dependencies (built r ! a))" "reg_grows ?u v" for ds v
      using that
    proof (induction ds arbitrary: v)
      case (Cons d ds)
      have v: "reg_grows r v" by (rule reg_grows_trans [OF unknown_deps_grows Cons.prems(2)])
      have "\<exists>w. ?f d v = Inr w \<and> reg_grows v w"
      proof (cases "task_list v d = None \<or> the (task_list v d) \<in> set (task_order v)")
        case False
        then have "rk d < rk s" using Suc.prems(1) Some Cons.prems(1) v by (auto simp: ranked_def reg_grows_def)
        then obtain w where "enable_upto n p d v = Inr w"
          using Suc.IH [of v d] Suc.prems ranked_grows [OF v] by auto
        with False enable_upto_enables [OF this] show ?thesis by (auto simp: enables_def)
      qed (auto split: option.splits)
      then obtain w where w: "?f d v = Inr w" "reg_grows v w" by blast
      then show ?case using Cons.IH [of w] Cons.prems reg_grows_trans by auto
    qed simp
    from this [OF resolve_deps_subset reg_grows_refl]
    obtain r' where "resolve_dependencies (enable_upto n p) p a r = Inr r'" unfolding resolve_dependencies_def by blast
    then show ?thesis by (simp add: Some)
  qed simp
qed simp

lemma enable_upto_failure: "enable_upto n p s r = Inl e \<Longrightarrow> e = No_fuel"
proof (induction n arbitrary: s r e)
  case (Suc n)
  show ?case
  proof (cases "task_list r s")
    case (Some a)
    let ?f = "\<lambda>s r. case task_list r s of
         None \<Rightarrow> Inr r
       | Some b \<Rightarrow> if b \<in> set (task_order r) then Inr r else enable_upto n p s r"
    have "foldE ?f ds v = Inl e \<Longrightarrow> e = No_fuel" for ds v
      by (induction ds arbitrary: v) (auto simp: bindE_eq_Inl split: option.splits if_splits dest: Suc.IH)
    then show ?thesis using Suc.prems by (auto simp: Some bindE_eq_Inl resolve_dependencies_def)
  qed (use Suc.prems in simp)
qed simp

text \<open>Tasks that all depend on one of them are never enabled: cycles are not looked for.\<close>

definition cyclic :: "registry \<Rightarrow> nat set \<Rightarrow> bool" where
  "cyclic r S \<longleftrightarrow> (\<forall>a \<in> S. tk_kind (built r ! a) \<noteq> Disjunctive_task \<and>
     (\<exists>d \<in> set (dependencies (built r ! a)). \<exists>b \<in> S. task_list r d = Some b))"

lemma cyclic_not_enabled:
  "enable_upto n p s r = Inr r' \<Longrightarrow> cyclic r S \<Longrightarrow> S \<inter> set (task_order r) = {} \<Longrightarrow>
    task_list r s \<notin> Some ` S \<and> S \<inter> set (task_order r') = {}"
proof (induction n arbitrary: s r r')
  case (Suc n)
  show ?case
  proof (cases "task_list r s")
    case None
    then show ?thesis using Suc.prems by auto
  next
    case (Some a)
    define f where "f = (\<lambda>s r. case task_list r s of
         None \<Rightarrow> Inr r
       | Some b \<Rightarrow> if b \<in> set (task_order r) then Inr r else enable_upto n p s r)"
    let ?u = "unknown_deps p a r"
    let ?ds = "resolve_deps (built r ! a) (enabled_deps a r)"
    let ?P = "\<lambda>v. reg_grows r v \<and> S \<inter> set (task_order v) = {}"
    obtain r1 where run: "foldE f ?ds ?u = Inr r1" and r': "r' = r1\<lparr>task_order := task_order r1 @ [a]\<rparr>"
      using Suc.prems(1) by (auto simp: Some bindE_eq_Inr resolve_dependencies_def f_def)
    have step: "?P w \<and> task_list r d \<notin> Some ` S" if "f d v = Inr w" "?P v" for d v w
    proof (cases "task_list v d = None \<or> the (task_list v d) \<in> set (task_order v)")
      case True
      then show ?thesis using that by (auto simp: f_def reg_grows_def split: option.splits)
    next
      case False
      then have run: "enable_upto n p d v = Inr w" using that by (auto simp: f_def)
      have "cyclic v S" using that(2) Suc.prems(2) by (simp add: reg_grows_def cyclic_def)
      from Suc.IH [OF run this] have "task_list v d \<notin> Some ` S \<and> S \<inter> set (task_order w) = {}" using that(2) by blast
      moreover have "reg_grows r w"
        using enable_upto_enables [OF run] reg_grows_trans that(2) by (auto simp: enables_def)
      ultimately show ?thesis using that(2) by (auto simp: reg_grows_def)
    qed
    have "?P ?u" using Suc.prems(3) unknown_deps_grows [of r p a] by (simp add: unknown_deps_order)
    moreover have run_from: "foldE f ds v = Inr w \<Longrightarrow> ?P v \<Longrightarrow>
        ?P w \<and> list_all (\<lambda>d. task_list r d \<notin> Some ` S) ds" for ds v w
      by (induction ds arbitrary: v) (auto simp: bindE_eq_Inr dest: step)
    ultimately have r1: "?P r1" and none: "list_all (\<lambda>d. task_list r d \<notin> Some ` S) ?ds"
      using run_from [OF run] by blast+
    have "a \<notin> S"
    proof
      assume "a \<in> S"
      then obtain d b where "tk_kind (built r ! a) \<noteq> Disjunctive_task"
        "d \<in> set (dependencies (built r ! a))" "b \<in> S" "task_list r d = Some b"
        using Suc.prems(2) by (auto simp: cyclic_def)
      moreover from this have "?ds = dependencies (built r ! a)" by (simp add: resolve_deps_def split: task_kind.splits)
      ultimately show False using none by (auto simp: list_all_iff)
    qed
    then show ?thesis using r1 Some by (auto simp: r')
  qed
qed simp

section \<open>The registry of the compiler\<close>

definition decl_task :: "task_decl \<Rightarrow> task" where
  "decl_task d = (case d of (module, kind, name, deps) \<Rightarrow> task_new name module [] deps kind)"

definition task_ranks :: "(string \<times> nat) list" where
  "task_ranks = [
     (''ast-display'', 1), (''ast-dump'', 1), (''bindings-compute'', 1), (''bindings-display'', 1),
     (''c-desugar'', 1), (''c-object'', 1), (''clone'', 1), (''combine-bindings-compute'', 1),
     (''escapes-display'', 1), (''object-parse'', 1), (''object-types-compute'', 1),
     (''overfun-bindings-compute'', 1), (''parentgraph-compute'', 1), (''bound'', 2), (''c-all'', 2),
     (''callgraph-compute'', 2), (''combine-types-compute'', 2), (''object-rename'', 2),
     (''overfun-types-compute'', 2), (''parentgraph-dump'', 2), (''rename'', 2), (''types-compute'', 2),
     (''bounds-checks-add'', 3), (''callgraph-dump'', 3), (''combine-rename'', 3), (''desugar'', 3),
     (''escapes-compute'', 3), (''inline'', 3), (''object-desugar'', 3), (''prune'', 3),
     (''raw-object-desugar'', 3), (''typed'', 3), (''combine-desugar'', 4), (''desugared'', 4),
     (''llvm-compute'', 4), (''llvm-gc-compute'', 4), (''raw-bounds-checks-add'', 4), (''raw-desugar'', 4),
     (''llvm-computed'', 5), (''llvm-gc-runtime-link'', 5), (''llvm-display'', 6)]"

definition task_rank :: "string \<Rightarrow> nat" where
  "task_rank s = (case map_of task_ranks s of None \<Rightarrow> 0 | Some k \<Rightarrow> k)"

lemma build_task_new:
  assumes "task_list r (tk_name t) = None"
  shows "built (build_task p t r) = built r @ [t]"
    and "task_list (build_task p t r) = (task_list r)(tk_name t \<mapsto> length (built r))"
    and "task_order (build_task p t r) = task_order r" and "unfailed (build_task p t r) = unfailed r"
  using assms by (simp_all add: build_task_def register_task_def register_in_module_def Let_def unfailed_def)

lemma build_tasks:
  assumes "distinct (map tk_name ts)"
  shows "built (fold (build_task p) ts registry_new) = ts" (is ?B)
    and "task_list (fold (build_task p) ts registry_new) = map_of (zip (map tk_name ts) [0..<length ts])" (is ?L)
    and "task_order (fold (build_task p) ts registry_new) = []" (is ?O)
    and "unfailed (fold (build_task p) ts registry_new)" (is ?E)
proof -
  have "?B \<and> ?L \<and> ?O \<and> ?E" using assms
  proof (induction ts rule: rev_induct)
    case Nil
    then show ?case by (simp add: registry_new_def unfailed_def error_new_def)
  next
    case (snoc t ts)
    let ?r = "fold (build_task p) ts registry_new"
    have ih: "built ?r = ts" "task_list ?r = map_of (zip (map tk_name ts) [0..<length ts])" "task_order ?r = []" "unfailed ?r"
      using snoc by simp_all
    have new: "map_of (zip (map tk_name ts) [0..<length ts]) (tk_name t) = None"
      using snoc.prems by (simp add: map_of_zip_is_None)
    then have "task_list ?r (tk_name t) = None" by (simp add: ih(2))
    note build = build_task_new [OF this, of p]
    show ?case
      using new by (auto simp: build ih fun_eq_iff map_add_def split: option.split dest!: map_of_SomeD dest: set_zip_leftD)
  qed
  then show ?B ?L ?O ?E by blast+
qed

lemma tc_names_distinct: "distinct (map tk_name (map decl_task tc_declarations))"
  by code_simp

lemma tc_ranked:
  "list_all (\<lambda>t. list_all (\<lambda>d. d = ''object-bindings-compute'' \<or> task_rank d < task_rank (tk_name t)) (dependencies t))
     (map decl_task tc_declarations)"
  by code_simp

lemma tc_registry_facts:
  "built (tc_registry p) = map decl_task tc_declarations"
  "task_list (tc_registry p) =
     map_of (zip (map tk_name (map decl_task tc_declarations)) [0..<length (map decl_task tc_declarations)])"
  "task_order (tc_registry p) = []" "unfailed (tc_registry p)"
proof -
  have "build_declaration p = build_task p \<circ> decl_task"
    by (auto simp: fun_eq_iff build_declaration_def decl_task_def)
  then have "tc_registry p = fold (build_task p) (map decl_task tc_declarations) registry_new"
    by (simp add: tc_registry_def fold_map)
  then show "built (tc_registry p) = map decl_task tc_declarations"
  "task_list (tc_registry p) =
     map_of (zip (map tk_name (map decl_task tc_declarations)) [0..<length (map decl_task tc_declarations)])"
  "task_order (tc_registry p) = []" "unfailed (tc_registry p)"
    by (simp_all only: build_tasks [OF tc_names_distinct])
qed

lemma tc_unknown: "list_all (\<lambda>t. tk_name t \<noteq> ''object-bindings-compute'') (map decl_task tc_declarations)"
  by code_simp

lemma tc_registered:
  assumes "task_list (tc_registry p) s = Some a"
  shows "a < length tc_declarations" and "tk_name (built (tc_registry p) ! a) = s"
proof -
  let ?ts = "map decl_task tc_declarations"
  have "(s, a) \<in> set (zip (map tk_name ?ts) [0..<length ?ts])"
    using assms unfolding tc_registry_facts by (rule map_of_SomeD)
  then obtain i where "i < length ?ts" "map tk_name ?ts ! i = s" "[0..<length ?ts] ! i = a"
    unfolding in_set_zip by auto
  then show "a < length tc_declarations" "tk_name (built (tc_registry p) ! a) = s"
    by (simp_all add: tc_registry_facts)
qed

lemma tc_registry_ranked: "ranked task_rank (tc_registry p)"
proof (unfold ranked_def, intro allI impI ballI)
  fix s a d
  assume s: "task_list (tc_registry p) s = Some a" and d: "d \<in> set (dependencies (built (tc_registry p) ! a))"
    "task_list (tc_registry p) d \<noteq> None"
  from d obtain b where b: "task_list (tc_registry p) d = Some b" by blast
  have mem: "built (tc_registry p) ! c \<in> set (map decl_task tc_declarations)"
    if "task_list (tc_registry p) x = Some c" for x c
    using tc_registered(1) [OF that] by (auto simp: tc_registry_facts)
  have "d \<noteq> ''object-bindings-compute''"
    using tc_unknown mem [OF b] tc_registered(2) [OF b] unfolding list_all_iff by blast
  then show "task_rank d < task_rank s"
    using tc_ranked mem [OF s] d(1) tc_registered(2) [OF s] unfolding list_all_iff by blast
qed

lemma task_ranks_le: "list_all (\<lambda>(s, k). k \<le> 6) task_ranks"
  by code_simp

lemma task_rank_le: "task_rank s \<le> 6"
  using task_ranks_le by (auto simp: task_rank_def list_all_iff split: option.split dest: map_of_SomeD)

lemma stol_failure: "stol s = Inl e \<Longrightarrow> e \<noteq> No_fuel"
  by (auto simp: stol_def Let_def split: if_splits)

lemma arg_set_failure: "arg_set t a arg g = Inl e \<Longrightarrow> e \<noteq> No_fuel"
  by (auto simp: arg_set_def int_arg_set_def Let_def bindE_eq_Inl dest: stol_failure split: task_kind.splits if_splits)

section \<open>The argument of an integer task\<close>

lemma is_digit_digit: "d < 10 \<Longrightarrow> is_digit (digit d) \<and> \<not> is_space (digit d) \<and> digit d \<noteq> CHR ''-'' \<and> digit d \<noteq> CHR ''+''"
proof -
  assume d: "d < 10"
  have "digit d \<noteq> c" if "(of_char c :: nat) < 48" for c using of_char_digit [OF d] that by auto
  then show ?thesis using d by (auto simp: is_digit_def is_space_def of_char_digit)
qed

lemma stol_dec_nat: "stol (dec_nat m) = (if m < 2 ^ 63 then Inr (int m) else Inl Out_of_range)"
proof -
  have all: "\<forall>c \<in> set (dec_nat m). is_digit c \<and> \<not> is_space c \<and> c \<noteq> CHR ''-'' \<and> c \<noteq> CHR ''+''"
    using dec_nat_digits is_digit_digit by metis
  then have "takeWhile is_digit (dec_nat m) = dec_nat m" by (simp add: takeWhile_eq_all_conv)
  moreover have ne: "dec_nat m \<noteq> []" by (simp add: dec_nat.simps [of m])
  then have "hd (dec_nat m) \<in> set (dec_nat m)" by simp
  with all have hd: "\<not> is_space (hd (dec_nat m))" "hd (dec_nat m) \<noteq> CHR ''-''" "hd (dec_nat m) \<noteq> CHR ''+''" by blast+
  then have "dropWhile is_space (dec_nat m) = dec_nat m" using ne by (cases "dec_nat m") auto
  moreover have "int m < 2 ^ 63 \<longleftrightarrow> m < 2 ^ 63" by (metis of_nat_less_iff of_nat_numeral of_nat_power)
  moreover have "- (2 ^ 63) \<le> int m" by (rule order_trans [of _ 0]) simp_all
  ultimately show ?thesis using ne hd by (simp add: stol_def Let_def del: takeWhile_eq_all_conv)
qed

section \<open>Properties\<close>

text \<open>C38: when the command line is parsed and no error was recorded, every task of the order comes after all its
  dependencies; after one of them, when the task is disjunctive.\<close>

theorem tasks_in_order:
  assumes "parse_arg n p parsed (r, g) = Inr (f, r', g')" and "task_order r = []"
    and "error_exit_on_error (task_error r') = Inr ()"
  shows "order_met r' [] (task_order r')"
proof -
  have "in_order r" using assms(2) by (simp add: in_order_def)
  then have "in_order r'" using parse_arg_keeps [OF assms(1)] by blast
  moreover have "unfailed r'"
    using assms(3) by (cases "status (task_error r')") (simp_all add: error_exit_on_error_def error_code_def error_exit_def unfailed_def)
  ultimately show ?thesis by (simp add: in_order_def)
qed

definition task_names :: "registry \<Rightarrow> string list" where
  "task_names r = map (\<lambda>a. tk_name (built r ! a)) (task_order r)"

definition no_globals :: "unit globals" where
  "no_globals = \<lparr>flag_values = \<lambda>_. False, int_values = \<lambda>_. 0, string_values = \<lambda>_. [], arg_values = \<lambda>_. [], outside = ()\<rparr>"

definition tc_table :: "(string \<times> nat \<times> bool \<times> string list) list" where
  "tc_table = [
     (''bindings-compute'', 3, False, [''parse'']),
     (''bound'', 4, True, [''bindings-compute'']),
     (''rename'', 6, False, [''bindings-compute'']),
     (''combine-types-compute'', 20, False, [''combine-bindings-compute'']),
     (''desugar-for'', 23, False, []),
     (''desugar-string-cmp'', 24, False, []),
     (''desugar'', 26, False, [''types-compute'', ''rename'']),
     (''escapes-compute'', 30, False, [''bound'']),
     (''llvm-compute'', 37, False, [''typed'', ''desugar-for'', ''desugar-string-cmp'', ''desugar'', ''escapes-compute'']),
     (''object-types-compute'', 43, False, [''object-bindings-compute'']),
     (''parse'', 53, False, []),
     (''typed'', 61, True, [''types-compute'', ''combine-types-compute'', ''object-types-compute'']),
     (''types-compute'', 62, False, [''bindings-compute''])]"

lemma tc_table_correct:
  "list_all (\<lambda>(s, a, d, ds). let ts = map decl_task tc_declarations in
     map_of (zip (map tk_name ts) [0..<length ts]) s = Some a \<and> (tk_kind (ts ! a) = Disjunctive_task) = d \<and>
     dependencies (ts ! a) = ds) tc_table"
  by code_simp

lemma tc_entries:
  "list_all (\<lambda>(s, a, d, ds). task_list (tc_registry p) s = Some a \<and> tk_name (built (tc_registry p) ! a) = s \<and>
     (tk_kind (built (tc_registry p) ! a) = Disjunctive_task) = d \<and> dependencies (built (tc_registry p) ! a) = ds) tc_table"
proof -
  have "list_all (\<lambda>(s, a, d, ds). task_list (tc_registry p) s = Some a \<and>
     (tk_kind (built (tc_registry p) ! a) = Disjunctive_task) = d \<and> dependencies (built (tc_registry p) ! a) = ds) tc_table"
    using tc_table_correct unfolding tc_registry_facts Let_def .
  then show ?thesis using tc_registered(2) [of p] unfolding list_all_iff by fast
qed

lemmas tc_entry = tc_entries [unfolded tc_table_def, simplified]

lemma resolve_deps_if:
  "resolve_deps t active = (if tk_kind t = Disjunctive_task
     then if active \<noteq> [] \<or> dependencies t = [] then [] else [hd (dependencies t)] else dependencies t)"
  by (simp add: resolve_deps_def split: task_kind.splits)

lemma enable_upto_numeral:
  "enable_upto (numeral k) p s r = (case task_list r s of
     None \<Rightarrow> Inr (task_failure (p @ '': TaskRegister::enable_task('' @ s @ ''): this task has not been registered.'') r)
   | Some a \<Rightarrow> bindE (resolve_dependencies (enable_upto (pred_numeral k) p) p a r)
       (\<lambda>r1. Inr (r1\<lparr>task_order := task_order r1 @ [a]\<rparr>)))"
  by (simp add: numeral_eq_Suc)

lemmas enable_eval = tc_entry resolve_deps_if resolve_dependencies_def unknown_deps_def enabled_deps_def
  List.map_filter_def enable_upto_numeral

lemma enable_llvm_compute:
  "enable_upto 7 p ''llvm-compute'' (tc_registry p) =
     Inr (tc_registry p\<lparr>task_order := [53, 3, 62, 61, 23, 24, 6, 26, 4, 30, 37]\<rparr>)"
  by (simp add: enable_eval tc_registry_facts(3))

theorem tasks_in_order_witness:
  "order_met (tc_registry ''tc'') [] [53, 3, 62, 61, 23, 24, 6, 26, 4, 30, 37] \<and>
   map (\<lambda>a. tk_name (built (tc_registry ''tc'') ! a)) [53, 3, 62, 61, 23, 24, 6, 26, 4, 30, 37] =
     [''parse'', ''bindings-compute'', ''types-compute'', ''typed'', ''desugar-for'', ''desugar-string-cmp'',
      ''rename'', ''desugar'', ''bound'', ''escapes-compute'', ''llvm-compute'']"
proof -
  let ?r = "tc_registry ''tc''\<lparr>task_order := [53, 3, 62, 61, 23, 24, 6, 26, 4, 30, 37]\<rparr>"
  have kind: "tk_kind (built (tc_registry ''tc'') ! 37) = Function_task ''llvm_compute''"
    by (simp add: tc_registry_facts) code_simp
  have "parse_arg 7 ''tc'' (Some [(''llvm-compute'', []), (''input-file'', ''a.tig'')]) (tc_registry ''tc'', no_globals) =
      Inr (Some ''a.tig'', ?r, no_globals)"
    by (simp add: parse_arg_def is_parsed_def notify_option_def takes_argument_def kind tc_entry enable_llvm_compute)
  moreover have "error_exit_on_error (task_error ?r) = Inr ()"
    using tc_registry_facts(4) [of "''tc''"] by (simp add: unfailed_def error_exit_on_error_def error_code_def)
  ultimately have "order_met ?r [] (task_order ?r)" by (rule tasks_in_order [OF _ tc_registry_facts(3)])
  moreover have "reg_grows (tc_registry ''tc'') ?r" by (simp add: reg_grows_def unfailed_def tc_registry_facts(3))
  ultimately show ?thesis using order_met_grows by (simp add: tc_entry)
qed

text \<open>Enabling a task that is already to be executed executes it twice.\<close>

lemma enabled_twice:
  "bindE (enable_upto 7 p ''bindings-compute'' (tc_registry p)) (enable_upto 7 p ''parse'') =
     Inr (tc_registry p\<lparr>task_order := [53, 3, 53]\<rparr>)"
  by (simp add: enable_eval tc_registry_facts(3))

text \<open>The types of objects are never computed: a dependency of the task is not declared.\<close>

lemma object_bindings_unknown: "task_list (tc_registry p) ''object-bindings-compute'' = None"
proof (cases "task_list (tc_registry p) ''object-bindings-compute''")
  case (Some a)
  from tc_registered [OF this] have "built (tc_registry p) ! a \<in> set (map decl_task tc_declarations)"
    by (auto simp: tc_registry_facts)
  then show ?thesis using tc_unknown tc_registered(2) [OF Some] unfolding list_all_iff by blast
qed

lemma object_types_never_computed:
  "\<exists>r. enable_upto 7 p ''object-types-compute'' (tc_registry p) = Inr r \<and> \<not> unfailed r"
  by (simp add: enable_eval object_bindings_unknown) (simp add: task_failure_facts(4) [unfolded unfailed_def] unfailed_def)

text \<open>C39: with the tasks of the compiler, the dependencies of every command line are enabled within seven nested calls.\<close>

theorem tc_tasks_end: "parse_arg (7 + n) p parsed (tc_registry p, g :: 'w globals) \<noteq> Inl No_fuel"
proof
  assume "parse_arg (7 + n) p parsed (tc_registry p, g) = Inl No_fuel"
  then obtain os where run: "foldE (notify_option (7 + n) p) os (tc_registry p, g, []) = Inl No_fuel"
    by (auto simp: parse_arg_def bindE_eq_Inl split: option.splits if_splits)
  have "No_fuel \<noteq> No_fuel"
  proof (rule foldE_failure [OF run, where I = "\<lambda>(r, g, f). reg_grows (tc_registry p) r" and Q = "\<lambda>e. e \<noteq> No_fuel"])
    show "case (tc_registry p, g, [] :: string) of (r, g, f) \<Rightarrow> reg_grows (tc_registry p) r" by simp
  next
    fix i and x y :: "registry \<times> 'w globals \<times> string" assume "case x of (r, g, f) \<Rightarrow> reg_grows (tc_registry p) r" "notify_option (7 + n) p i x = Inr y"
    then show "case y of (r, g, f) \<Rightarrow> reg_grows (tc_registry p) r"
      by (cases x, cases y) (auto dest: notify_option_keeps intro: reg_grows_trans)
  next
    fix i e and x :: "registry \<times> 'w globals \<times> string" assume x: "case x of (r, g, f) \<Rightarrow> reg_grows (tc_registry p) r" and fails: "notify_option (7 + n) p i x = Inl e"
    obtain r g f where [simp]: "x = (r, g, f)" by (cases x)
    have "ranked task_rank r" using x ranked_grows [OF _ tc_registry_ranked] by simp
    then have "enable_upto (7 + n) p s r \<noteq> Inl e" for s
      using enable_upto_ends [of task_rank r s "7 + n" p] task_rank_le [of s] by auto
    then show "e \<noteq> No_fuel"
      using fails by (auto simp: notify_option_def bindE_eq_Inl dest: arg_set_failure split: if_splits option.splits)
  qed
  then show False by simp
qed

text \<open>Tasks that depend on each other are never enabled: there is no bound on the depth that is enough.\<close>

theorem cycle_never_enabled:
  assumes "cyclic r S" and "S \<inter> set (task_order r) = {}" and "a \<in> S" and "task_list r s = Some a"
  shows "enable_upto n p s r = Inl No_fuel"
proof (cases "enable_upto n p s r")
  case (Inl e)
  then show ?thesis using enable_upto_failure [OF Inl] by simp
next
  case (Inr r')
  then show ?thesis using cyclic_not_enabled [OF Inr assms(1,2)] assms(3,4) by simp
qed

definition two_tasks :: "registry" where
  "two_tasks = fold (build_task ''tc'') [task_new ''hen'' [] [] ''egg'' (Function_task ''hen''),
     task_new ''egg'' [] [] ''hen'' (Function_task ''egg'')] registry_new"

theorem cycle_never_enabled_witness: "enable_upto 100 ''tc'' ''hen'' two_tasks = Inl No_fuel"
proof (rule cycle_never_enabled [where S = "{0, 1}" and a = 0])
  show "cyclic two_tasks {0, 1}" unfolding cyclic_def by code_simp
qed code_simp+

text \<open>The number that the argument of an integer task denotes is reduced to 32 bits before it is compared with
  the bounds of the task; a number of more than 63 bits is an exception that \<open>main\<close> does not catch.\<close>

theorem int_argument_reduced:
  "int_arg_set var low high (dec_nat m) g =
     (if 2 ^ 63 \<le> m then Inl Out_of_range
      else let value = (word_of_nat m :: i32)
           in if sint low \<le> sint value \<and> sint value \<le> sint high
              then Inr (g\<lparr>int_values := (int_values g)(var := value)\<rparr>) else Inl Invalid_argument)"
  by (simp add: int_arg_set_def stol_dec_nat Let_def)

lemma int_argument_wraps:
  "int_arg_set var 0 9 ''4294967297'' g = Inr (g\<lparr>int_values := (int_values g)(var := 1)\<rparr>)"
proof -
  have "stol ''4294967297'' = Inr 4294967297"
    using stol_dec_nat [of 4294967297] by (simp add: dec_nat.simps digit_def char_of_def bit_0)
  moreover have one: "word_of_int 4294967297 = (1 :: i32)" by transfer (simp add: take_bit_eq_mod)
  ultimately show ?thesis by (simp only: int_arg_set_def bindE_Inr Let_def one) simp
qed

lemma out_of_range_not_caught:
  "tc_main n R now p (Some [(s, ''9223372036854775808'')]) (r, g) = Inl Out_of_range"
  if "task_list r s = Some a" "tk_kind (built r ! a) = Int_task var low high" "s \<noteq> ''input-file''"
    "s \<notin> {''help'', ''version'', ''usage'', ''license''}"
proof -
  have "stol ''9223372036854775808'' = Inl Out_of_range"
    using stol_dec_nat [of 9223372036854775808] by (simp add: dec_nat.simps digit_def char_of_def bit_0)
  then show ?thesis
    using that by (auto simp: tc_main_def tc_body_def parse_arg_def is_parsed_def notify_option_def takes_argument_def
        arg_set_def int_arg_set_def)
qed

end
