(* ===== verification/Ast.thy ===== *)
theory Ast
  imports Tiger_Prelude
begin

text \<open>
  \<^verbatim>\<open>src/ast\<close>: the abstract syntax tree, and \<^verbatim>\<open>src/parse/tiger-factory.hxx\<close> that builds it.
  One datatype stands for the hierarchy of classes under \<open>ast::Ast\<close>, with one constructor per
  concrete class and the children in the order of the members.  What the classes in between
  (\<open>Exp\<close>, \<open>Var\<close>, \<open>Ty\<close>, \<open>Dec\<close>, \<open>ChunkInterface\<close>) say of the static types of the members is the
  predicate \<open>wf_ast\<close>, and a \<open>dynamic_cast\<close> is one of the predicates \<open>is_Exp\<close>, \<open>is_Var\<close>, ...

  A node carries its identity (its address) and its location.  The members that the passes change
  (the bindings, the types, the names, the escape flags) are in the state of the passes, maps from
  addresses.  A constructor of a class is an allocation: it takes the next address.
\<close>

section \<open>Locations, headers, operators\<close>

text \<open>\<open>parse::location\<close> is generated by Bison: a pair of positions, which the code reads and sets.\<close>

record position =
  line :: int
  column :: int

record location =
  begin_of :: position
  end_of :: position

record header =
  adr :: addr
  loc :: location

text \<open>A header for the examples of nodes.\<close>

definition header_at :: "addr \<Rightarrow> header" where
  "header_at a =
     \<lparr>adr = a,
      loc = \<lparr>begin_of = \<lparr>line = 1, column = 1\<rparr>, end_of = \<lparr>line = 1, column = 1\<rparr>\<rparr>\<rparr>"

datatype oper =
  op_add | op_sub | op_mul | op_div | op_eq | op_ne | op_lt | op_le | op_gt | op_ge

definition str_of_oper :: "oper \<Rightarrow> string" where
  "str_of_oper oper =
     (case oper of
        op_add \<Rightarrow> ''+'' | op_sub \<Rightarrow> ''-'' | op_mul \<Rightarrow> ''*'' | op_div \<Rightarrow> ''/''
      | op_eq \<Rightarrow> ''='' | op_ne \<Rightarrow> ''<>'' | op_lt \<Rightarrow> ''<'' | op_le \<Rightarrow> ''<=''
      | op_gt \<Rightarrow> ''>'' | op_ge \<Rightarrow> ''>='')"

section \<open>Nodes\<close>

datatype (plugins only: code size) ast =
    ArrayExp header ast ast ast
  | ArrayTy header ast
  | AssignExp header ast ast
  | BreakExp header
  | CallExp header symbol "ast list"
  | CastExp header ast ast
  | ClassTy header ast ast
  | Field_node header symbol ast
  | FieldInit header symbol ast
  | FieldVar header ast symbol
  | ForExp header ast ast ast
  | FunctionDec header symbol ast "ast option" "ast option"
  | IfExp header ast ast ast
  | IntExp header i32
  | LetExp header ast ast
  | MethodCallExp header symbol "ast list" ast
  | MethodDec header symbol ast "ast option" "ast option"
  | NameTy header symbol
  | NilExp header
  | ObjectExp header ast
  | OpExp header ast oper ast
  | RecordExp header ast "ast list"
  | RecordTy header "ast list"
  | SeqExp header "ast list"
  | SimpleVar header symbol
  | StringExp header string
  | SubscriptVar header ast ast
  | TypeDec header symbol ast
  | VarDec header symbol "ast option" "ast option"
  | WhileExp header ast ast
  | ChunkList header "ast list"
  | FunctionChunk header "ast list"
  | MethodChunk header "ast list"
  | TypeChunk header "ast list"
  | VarChunk header "ast list"

primrec hdr :: "ast \<Rightarrow> header" where
  "hdr (ArrayExp h _ _ _) = h"
| "hdr (ArrayTy h _) = h"
| "hdr (AssignExp h _ _) = h"
| "hdr (BreakExp h) = h"
| "hdr (CallExp h _ _) = h"
| "hdr (CastExp h _ _) = h"
| "hdr (ClassTy h _ _) = h"
| "hdr (Field_node h _ _) = h"
| "hdr (FieldInit h _ _) = h"
| "hdr (FieldVar h _ _) = h"
| "hdr (ForExp h _ _ _) = h"
| "hdr (FunctionDec h _ _ _ _) = h"
| "hdr (IfExp h _ _ _) = h"
| "hdr (IntExp h _) = h"
| "hdr (LetExp h _ _) = h"
| "hdr (MethodCallExp h _ _ _) = h"
| "hdr (MethodDec h _ _ _ _) = h"
| "hdr (NameTy h _) = h"
| "hdr (NilExp h) = h"
| "hdr (ObjectExp h _) = h"
| "hdr (OpExp h _ _ _) = h"
| "hdr (RecordExp h _ _) = h"
| "hdr (RecordTy h _) = h"
| "hdr (SeqExp h _) = h"
| "hdr (SimpleVar h _) = h"
| "hdr (StringExp h _) = h"
| "hdr (SubscriptVar h _ _) = h"
| "hdr (TypeDec h _ _) = h"
| "hdr (VarDec h _ _ _) = h"
| "hdr (WhileExp h _ _) = h"
| "hdr (ChunkList h _) = h"
| "hdr (FunctionChunk h _) = h"
| "hdr (MethodChunk h _) = h"
| "hdr (TypeChunk h _) = h"
| "hdr (VarChunk h _) = h"

definition addr_of :: "ast \<Rightarrow> addr" where
  "addr_of e = adr (hdr e)"

definition location_get :: "ast \<Rightarrow> location" where
  "location_get e = loc (hdr e)"

text \<open>The members that point to nodes, in the order of the class; \<open>None\<close> is \<open>nullptr\<close>.\<close>

definition opt_list :: "'a option \<Rightarrow> 'a list" where
  "opt_list o' = (case o' of None \<Rightarrow> [] | Some x \<Rightarrow> [x])"

primrec subs :: "ast \<Rightarrow> ast list" where
  "subs (ArrayExp _ type_name sz init) = [type_name, sz, init]"
| "subs (ArrayTy _ base_type) = [base_type]"
| "subs (AssignExp _ var exp1) = [var, exp1]"
| "subs (BreakExp _) = []"
| "subs (CallExp _ _ args) = args"
| "subs (CastExp _ exp1 ty) = [exp1, ty]"
| "subs (ClassTy _ super chunks) = [super, chunks]"
| "subs (Field_node _ _ type_name) = [type_name]"
| "subs (FieldInit _ _ init) = [init]"
| "subs (FieldVar _ var _) = [var]"
| "subs (ForExp _ vardec hi body) = [vardec, hi, body]"
| "subs (FunctionDec _ _ formals result body) = [formals] @ opt_list result @ opt_list body"
| "subs (IfExp _ test thenclause elseclause) = [test, thenclause, elseclause]"
| "subs (IntExp _ _) = []"
| "subs (LetExp _ chunks body) = [chunks, body]"
| "subs (MethodCallExp _ _ args object) = args @ [object]"
| "subs (MethodDec _ _ formals result body) = [formals] @ opt_list result @ opt_list body"
| "subs (NameTy _ _) = []"
| "subs (NilExp _) = []"
| "subs (ObjectExp _ type_name) = [type_name]"
| "subs (OpExp _ left _ right) = [left, right]"
| "subs (RecordExp _ type_name flds) = [type_name] @ flds"
| "subs (RecordTy _ flds) = flds"
| "subs (SeqExp _ exps) = exps"
| "subs (SimpleVar _ _) = []"
| "subs (StringExp _ _) = []"
| "subs (SubscriptVar _ var index) = [var, index]"
| "subs (TypeDec _ _ ty) = [ty]"
| "subs (VarDec _ _ type_name init) = opt_list type_name @ opt_list init"
| "subs (WhileExp _ test body) = [test, body]"
| "subs (ChunkList _ xs) = xs"
| "subs (FunctionChunk _ xs) = xs"
| "subs (MethodChunk _ xs) = xs"
| "subs (TypeChunk _ xs) = xs"
| "subs (VarChunk _ xs) = xs"

section \<open>Construction\<close>

text \<open>\<open>new\<close>: the node takes the next address.\<close>

type_synonym 'a alloc = "addr \<Rightarrow> 'a \<times> addr"

definition alloc :: "location \<Rightarrow> (header \<Rightarrow> ast) \<Rightarrow> ast alloc" where
  "alloc location C = (\<lambda>next. (C \<lparr>adr = next, loc = location\<rparr>, Suc next))"

definition new_ArrayExp :: "location \<Rightarrow> ast \<Rightarrow> ast \<Rightarrow> ast \<Rightarrow> ast alloc" where
  "new_ArrayExp location type_name sz init =
     alloc location (\<lambda>h. ArrayExp h type_name sz init)"

definition new_ArrayTy :: "location \<Rightarrow> ast \<Rightarrow> ast alloc" where
  "new_ArrayTy location base_type = alloc location (\<lambda>h. ArrayTy h base_type)"

definition new_AssignExp :: "location \<Rightarrow> ast \<Rightarrow> ast \<Rightarrow> ast alloc" where
  "new_AssignExp location var exp1 = alloc location (\<lambda>h. AssignExp h var exp1)"

definition new_BreakExp :: "location \<Rightarrow> ast alloc" where
  "new_BreakExp location = alloc location (\<lambda>h. BreakExp h)"

definition new_CallExp :: "location \<Rightarrow> symbol \<Rightarrow> ast list \<Rightarrow> ast alloc" where
  "new_CallExp location name args = alloc location (\<lambda>h. CallExp h name args)"

definition new_CastExp :: "location \<Rightarrow> ast \<Rightarrow> ast \<Rightarrow> ast alloc" where
  "new_CastExp location exp1 ty = alloc location (\<lambda>h. CastExp h exp1 ty)"

definition new_ClassTy :: "location \<Rightarrow> ast \<Rightarrow> ast \<Rightarrow> ast alloc" where
  "new_ClassTy location super chunks = alloc location (\<lambda>h. ClassTy h super chunks)"

definition new_Field_node :: "location \<Rightarrow> symbol \<Rightarrow> ast \<Rightarrow> ast alloc" where
  "new_Field_node location name type_name =
     alloc location (\<lambda>h. Field_node h name type_name)"

definition new_FieldInit :: "location \<Rightarrow> symbol \<Rightarrow> ast \<Rightarrow> ast alloc" where
  "new_FieldInit location name init = alloc location (\<lambda>h. FieldInit h name init)"

definition new_FieldVar :: "location \<Rightarrow> ast \<Rightarrow> symbol \<Rightarrow> ast alloc" where
  "new_FieldVar location var name = alloc location (\<lambda>h. FieldVar h var name)"

definition new_ForExp :: "location \<Rightarrow> ast \<Rightarrow> ast \<Rightarrow> ast \<Rightarrow> ast alloc" where
  "new_ForExp location vardec hi body = alloc location (\<lambda>h. ForExp h vardec hi body)"

definition new_FunctionDec :: "location \<Rightarrow> symbol \<Rightarrow> ast \<Rightarrow> ast option \<Rightarrow> ast option \<Rightarrow> ast alloc" where
  "new_FunctionDec location name formals result body =
     alloc location (\<lambda>h. FunctionDec h name formals result body)"

definition new_IfExp :: "location \<Rightarrow> ast \<Rightarrow> ast \<Rightarrow> ast \<Rightarrow> ast alloc" where
  "new_IfExp location test thenclause elseclause =
     alloc location (\<lambda>h. IfExp h test thenclause elseclause)"

definition new_IntExp :: "location \<Rightarrow> i32 \<Rightarrow> ast alloc" where
  "new_IntExp location value = alloc location (\<lambda>h. IntExp h value)"

definition new_LetExp :: "location \<Rightarrow> ast \<Rightarrow> ast \<Rightarrow> ast alloc" where
  "new_LetExp location chunks body = alloc location (\<lambda>h. LetExp h chunks body)"

definition new_MethodCallExp :: "location \<Rightarrow> symbol \<Rightarrow> ast list \<Rightarrow> ast \<Rightarrow> ast alloc" where
  "new_MethodCallExp location name args object =
     alloc location (\<lambda>h. MethodCallExp h name args object)"

definition new_MethodDec :: "location \<Rightarrow> symbol \<Rightarrow> ast \<Rightarrow> ast option \<Rightarrow> ast option \<Rightarrow> ast alloc" where
  "new_MethodDec location name formals result body =
     alloc location (\<lambda>h. MethodDec h name formals result body)"

definition new_NameTy :: "location \<Rightarrow> symbol \<Rightarrow> ast alloc" where
  "new_NameTy location name = alloc location (\<lambda>h. NameTy h name)"

definition new_NilExp :: "location \<Rightarrow> ast alloc" where
  "new_NilExp location = alloc location (\<lambda>h. NilExp h)"

definition new_ObjectExp :: "location \<Rightarrow> ast \<Rightarrow> ast alloc" where
  "new_ObjectExp location type_name = alloc location (\<lambda>h. ObjectExp h type_name)"

definition new_OpExp :: "location \<Rightarrow> ast \<Rightarrow> oper \<Rightarrow> ast \<Rightarrow> ast alloc" where
  "new_OpExp location left oper right = alloc location (\<lambda>h. OpExp h left oper right)"

definition new_RecordExp :: "location \<Rightarrow> ast \<Rightarrow> ast list \<Rightarrow> ast alloc" where
  "new_RecordExp location type_name flds = alloc location (\<lambda>h. RecordExp h type_name flds)"

definition new_RecordTy :: "location \<Rightarrow> ast list \<Rightarrow> ast alloc" where
  "new_RecordTy location flds = alloc location (\<lambda>h. RecordTy h flds)"

definition new_SeqExp :: "location \<Rightarrow> ast list \<Rightarrow> ast alloc" where
  "new_SeqExp location exps = alloc location (\<lambda>h. SeqExp h exps)"

definition new_SimpleVar :: "location \<Rightarrow> symbol \<Rightarrow> ast alloc" where
  "new_SimpleVar location name = alloc location (\<lambda>h. SimpleVar h name)"

definition new_StringExp :: "location \<Rightarrow> string \<Rightarrow> ast alloc" where
  "new_StringExp location value = alloc location (\<lambda>h. StringExp h value)"

definition new_SubscriptVar :: "location \<Rightarrow> ast \<Rightarrow> ast \<Rightarrow> ast alloc" where
  "new_SubscriptVar location var index = alloc location (\<lambda>h. SubscriptVar h var index)"

definition new_TypeDec :: "location \<Rightarrow> symbol \<Rightarrow> ast \<Rightarrow> ast alloc" where
  "new_TypeDec location name ty = alloc location (\<lambda>h. TypeDec h name ty)"

definition new_VarDec :: "location \<Rightarrow> symbol \<Rightarrow> ast option \<Rightarrow> ast option \<Rightarrow> ast alloc" where
  "new_VarDec location name type_name init =
     alloc location (\<lambda>h. VarDec h name type_name init)"

definition new_WhileExp :: "location \<Rightarrow> ast \<Rightarrow> ast \<Rightarrow> ast alloc" where
  "new_WhileExp location test body = alloc location (\<lambda>h. WhileExp h test body)"

text \<open>The constructor of \<open>IfExp\<close> without \<open>else\<close> makes the empty sequence itself.\<close>

definition new_IfExp_then :: "location \<Rightarrow> ast \<Rightarrow> ast \<Rightarrow> ast alloc" where
  "new_IfExp_then location test thenclause = (\<lambda>next.
     (let (elseclause, next') = new_SeqExp location [] (Suc next)
      in (IfExp \<lparr>adr = next, loc = location\<rparr> test thenclause elseclause, next')))"

definition new_ChunkList :: "location \<Rightarrow> ast list \<Rightarrow> ast alloc" where
  "new_ChunkList location chunks = alloc location (\<lambda>h. ChunkList h chunks)"

text \<open>\<open>Chunk<D>\<close> for the four classes of declarations: \<open>C\<close> is the constructor of the class.\<close>

definition new_Chunk :: "(header \<Rightarrow> ast list \<Rightarrow> ast) \<Rightarrow> location \<Rightarrow> ast list \<Rightarrow> ast alloc" where
  "new_Chunk C location decs = alloc location (\<lambda>h. C h decs)"

section \<open>The factory of the parser\<close>

definition make_ArrayExp :: "location \<Rightarrow> ast \<Rightarrow> ast \<Rightarrow> ast \<Rightarrow> ast alloc" where
  "make_ArrayExp location type_name sz init = new_ArrayExp location type_name sz init"

definition make_ArrayTy :: "location \<Rightarrow> ast \<Rightarrow> ast alloc" where
  "make_ArrayTy location base_type = new_ArrayTy location base_type"

definition make_AssignExp :: "location \<Rightarrow> ast \<Rightarrow> ast \<Rightarrow> ast alloc" where
  "make_AssignExp location var exp1 = new_AssignExp location var exp1"

definition make_BreakExp :: "location \<Rightarrow> ast alloc" where
  "make_BreakExp location = new_BreakExp location"

definition make_CallExp :: "location \<Rightarrow> symbol \<Rightarrow> ast list \<Rightarrow> ast alloc" where
  "make_CallExp location name args = new_CallExp location name args"

definition make_CastExp :: "location \<Rightarrow> ast \<Rightarrow> ast \<Rightarrow> ast alloc" where
  "make_CastExp location exp1 ty = new_CastExp location exp1 ty"

definition make_ClassTy :: "location \<Rightarrow> ast \<Rightarrow> ast \<Rightarrow> ast alloc" where
  "make_ClassTy location super chunks = new_ClassTy location super chunks"

definition make_Field_node :: "location \<Rightarrow> symbol \<Rightarrow> ast \<Rightarrow> ast alloc" where
  "make_Field_node location name type_name = new_Field_node location name type_name"

definition make_FieldInit :: "location \<Rightarrow> symbol \<Rightarrow> ast \<Rightarrow> ast alloc" where
  "make_FieldInit location name init = new_FieldInit location name init"

definition make_FieldVar :: "location \<Rightarrow> ast \<Rightarrow> symbol \<Rightarrow> ast alloc" where
  "make_FieldVar location var name = new_FieldVar location var name"

definition make_ForExp :: "location \<Rightarrow> ast \<Rightarrow> ast \<Rightarrow> ast \<Rightarrow> ast alloc" where
  "make_ForExp location vardec hi body = new_ForExp location vardec hi body"

definition make_FunctionDec :: "location \<Rightarrow> symbol \<Rightarrow> ast \<Rightarrow> ast option \<Rightarrow> ast option \<Rightarrow> ast alloc" where
  "make_FunctionDec location name formals result body =
     new_FunctionDec location name formals result body"

definition make_IfExp :: "location \<Rightarrow> ast \<Rightarrow> ast \<Rightarrow> ast \<Rightarrow> ast alloc" where
  "make_IfExp location test thenclause elseclause = new_IfExp location test thenclause elseclause"

definition make_IntExp :: "location \<Rightarrow> i32 \<Rightarrow> ast alloc" where
  "make_IntExp location value = new_IntExp location value"

definition make_LetExp :: "location \<Rightarrow> ast \<Rightarrow> ast \<Rightarrow> ast alloc" where
  "make_LetExp location chunks body = new_LetExp location chunks body"

definition make_MethodCallExp :: "location \<Rightarrow> symbol \<Rightarrow> ast list \<Rightarrow> ast \<Rightarrow> ast alloc" where
  "make_MethodCallExp location name args object = new_MethodCallExp location name args object"

definition make_MethodDec :: "location \<Rightarrow> symbol \<Rightarrow> ast \<Rightarrow> ast option \<Rightarrow> ast option \<Rightarrow> ast alloc" where
  "make_MethodDec location name formals result body =
     new_MethodDec location name formals result body"

definition make_NameTy :: "location \<Rightarrow> symbol \<Rightarrow> ast alloc" where
  "make_NameTy location name = new_NameTy location name"

definition make_NilExp :: "location \<Rightarrow> ast alloc" where
  "make_NilExp location = new_NilExp location"

definition make_ObjectExp :: "location \<Rightarrow> ast \<Rightarrow> ast alloc" where
  "make_ObjectExp location type_name = new_ObjectExp location type_name"

definition make_OpExp :: "location \<Rightarrow> ast \<Rightarrow> oper \<Rightarrow> ast \<Rightarrow> ast alloc" where
  "make_OpExp location left oper right = new_OpExp location left oper right"

definition make_RecordExp :: "location \<Rightarrow> ast \<Rightarrow> ast list \<Rightarrow> ast alloc" where
  "make_RecordExp location type_name flds = new_RecordExp location type_name flds"

definition make_RecordTy :: "location \<Rightarrow> ast list \<Rightarrow> ast alloc" where
  "make_RecordTy location flds = new_RecordTy location flds"

definition make_SeqExp :: "location \<Rightarrow> ast list \<Rightarrow> ast alloc" where
  "make_SeqExp location exps = new_SeqExp location exps"

definition make_SimpleVar :: "location \<Rightarrow> symbol \<Rightarrow> ast alloc" where
  "make_SimpleVar location name = new_SimpleVar location name"

definition make_StringExp :: "location \<Rightarrow> string \<Rightarrow> ast alloc" where
  "make_StringExp location value = new_StringExp location value"

definition make_SubscriptVar :: "location \<Rightarrow> ast \<Rightarrow> ast \<Rightarrow> ast alloc" where
  "make_SubscriptVar location var index = new_SubscriptVar location var index"

definition make_TypeDec :: "location \<Rightarrow> symbol \<Rightarrow> ast \<Rightarrow> ast alloc" where
  "make_TypeDec location name ty = new_TypeDec location name ty"

definition make_VarDec :: "location \<Rightarrow> symbol \<Rightarrow> ast option \<Rightarrow> ast option \<Rightarrow> ast alloc" where
  "make_VarDec location name type_name init = new_VarDec location name type_name init"

definition make_WhileExp :: "location \<Rightarrow> ast \<Rightarrow> ast \<Rightarrow> ast alloc" where
  "make_WhileExp location test body = new_WhileExp location test body"

definition make_IfExp_then :: "location \<Rightarrow> ast \<Rightarrow> ast \<Rightarrow> ast alloc" where
  "make_IfExp_then location test thenclause = new_IfExp_then location test thenclause"

definition make_exps_type :: "ast list \<Rightarrow> ast list" where
  "make_exps_type exps = exps"

definition make_fields_type :: "ast list \<Rightarrow> ast list" where
  "make_fields_type types = types"

definition make_fieldinits_type :: "ast list \<Rightarrow> ast list" where
  "make_fieldinits_type inits = inits"

definition make_ChunkList :: "location \<Rightarrow> ast alloc" where
  "make_ChunkList location = new_ChunkList location []"

definition make_TypeChunk :: "location \<Rightarrow> ast alloc" where
  "make_TypeChunk location = new_Chunk TypeChunk location []"

definition make_VarChunk :: "location \<Rightarrow> ast alloc" where
  "make_VarChunk location = new_Chunk VarChunk location []"

definition make_MethodChunk :: "location \<Rightarrow> ast alloc" where
  "make_MethodChunk location = new_Chunk MethodChunk location []"

definition make_FunctionChunk :: "location \<Rightarrow> ast list \<Rightarrow> ast alloc" where
  "make_FunctionChunk location decs = new_Chunk FunctionChunk location decs"

section \<open>Chunks\<close>

text \<open>The chunk a node is: its constructor and its declarations.\<close>

definition chunk_view :: "ast \<Rightarrow> ((header \<Rightarrow> ast list \<Rightarrow> ast) \<times> ast list) option" where
  "chunk_view e =
     (case e of
        FunctionChunk h decs \<Rightarrow> Some (FunctionChunk, decs)
      | MethodChunk h decs \<Rightarrow> Some (MethodChunk, decs)
      | TypeChunk h decs \<Rightarrow> Some (TypeChunk, decs)
      | VarChunk h decs \<Rightarrow> Some (VarChunk, decs)
      | _ \<Rightarrow> None)"

definition decs_get :: "ast \<Rightarrow> ast list" where
  "decs_get e = (case chunk_view e of Some (C, decs) \<Rightarrow> decs | None \<Rightarrow> [])"

definition chunk_empty :: "ast \<Rightarrow> bool" where
  "chunk_empty e \<longleftrightarrow> decs_get e = []"

definition chunk_at :: "ast \<Rightarrow> nat \<Rightarrow> ast res" where
  "chunk_at e pos = (if pos < length (decs_get e) then Inr (decs_get e ! pos) else Inl Bad_access)"

text \<open>
  \<open>operator+\<close> on locations comes with the generated class: it is the parameter \<open>join\<close>.
\<close>

definition chunk_push_front :: "(location \<Rightarrow> location \<Rightarrow> location) \<Rightarrow> ast \<Rightarrow> ast \<Rightarrow> ast" where
  "chunk_push_front join d e =
     (case chunk_view e of
        None \<Rightarrow> e
      | Some (C, decs) \<Rightarrow>
          C ((hdr e)\<lparr>loc := join (location_get e) (location_get d)\<rparr>) (d # decs))"

definition chunk_emplace_back :: "(location \<Rightarrow> location \<Rightarrow> location) \<Rightarrow> ast \<Rightarrow> ast \<Rightarrow> ast" where
  "chunk_emplace_back join d e =
     (case chunk_view e of
        None \<Rightarrow> e
      | Some (C, decs) \<Rightarrow>
          C ((hdr e)\<lparr>loc := join (location_get e) (location_get d)\<rparr>) (decs @ [d]))"

definition chunk_erase :: "nat \<Rightarrow> ast \<Rightarrow> ast" where
  "chunk_erase pos e =
     (case chunk_view e of
        None \<Rightarrow> e
      | Some (C, decs) \<Rightarrow> C (hdr e) (take pos decs @ drop (Suc pos) decs))"

definition chunk_erase_range :: "nat \<Rightarrow> nat \<Rightarrow> ast \<Rightarrow> ast" where
  "chunk_erase_range i j e =
     (case chunk_view e of
        None \<Rightarrow> e
      | Some (C, decs) \<Rightarrow> C (hdr e) (take i decs @ drop j decs))"

definition is_ChunkList :: "ast \<Rightarrow> bool" where
  "is_ChunkList e = (case e of ChunkList _ _ \<Rightarrow> True | _ \<Rightarrow> False)"

definition cl_push_front :: "ast \<Rightarrow> ast \<Rightarrow> ast" where
  "cl_push_front d e =
     (case e of
        ChunkList h chunks \<Rightarrow>
          ChunkList (h\<lparr>loc := (loc h)\<lparr>begin_of := begin_of (location_get d)\<rparr>\<rparr>) (d # chunks)
      | _ \<Rightarrow> e)"

definition cl_emplace_back :: "ast \<Rightarrow> ast \<Rightarrow> ast" where
  "cl_emplace_back d e =
     (case e of
        ChunkList h chunks \<Rightarrow>
          ChunkList (h\<lparr>loc := (loc h)\<lparr>end_of := end_of (location_get d)\<rparr>\<rparr>) (chunks @ [d])
      | _ \<Rightarrow> e)"

text \<open>\<open>std::list::splice\<close> moves the nodes: the other list ends up empty.\<close>

definition cl_splice_front :: "ast \<Rightarrow> ast \<Rightarrow> ast \<times> ast" where
  "cl_splice_front ds e =
     (if is_ChunkList ds \<and> is_ChunkList e
      then (ChunkList (hdr ds) [], ChunkList (hdr e) (subs ds @ subs e))
      else (ds, e))"

definition cl_splice_back :: "ast \<Rightarrow> ast \<Rightarrow> ast \<times> ast" where
  "cl_splice_back ds e =
     (if is_ChunkList ds \<and> is_ChunkList e
      then (ChunkList (hdr ds) [], ChunkList (hdr e) (subs e @ subs ds))
      else (ds, e))"

end
