(* ===== verification/Ast_Visitor.thy ===== *)
theory Ast_Visitor
  imports Ast
begin

text \<open>
  The hierarchy of the nodes, the nodes of a tree, and the traversal of
  \<^verbatim>\<open>src/ast/default-visitor.hxx\<close>, \<^verbatim>\<open>non-object-visitor.hxx\<close>, \<^verbatim>\<open>object-visitor.hxx\<close>.

  Dispatch: a visitor is a function \<open>visit :: ast \<Rightarrow> 's \<Rightarrow> exn + 's\<close> on the state of its members.
  A method \<open>operator()(C&)\<close> of a class derived from the default visitor is a definition that takes
  \<open>visit\<close> as an argument, for the calls of \<open>accept(*this)\<close>; \<open>default_visit\<close> are the inherited
  methods; the theory of each visitor picks the method of a node by its constructor and ties the
  knot.
\<close>

section \<open>Classes\<close>

definition is_Var :: "ast \<Rightarrow> bool" where
  "is_Var e = (case e of
     SimpleVar _ _ \<Rightarrow> True | FieldVar _ _ _ \<Rightarrow> True | SubscriptVar _ _ _ \<Rightarrow> True | _ \<Rightarrow> False)"

definition is_Exp :: "ast \<Rightarrow> bool" where
  "is_Exp e = (case e of
     SimpleVar _ _ \<Rightarrow> True | FieldVar _ _ _ \<Rightarrow> True | SubscriptVar _ _ _ \<Rightarrow> True
   | ArrayExp _ _ _ _ \<Rightarrow> True | AssignExp _ _ _ \<Rightarrow> True | BreakExp _ \<Rightarrow> True | CallExp _ _ _ \<Rightarrow> True
   | MethodCallExp _ _ _ _ \<Rightarrow> True | CastExp _ _ _ \<Rightarrow> True | ForExp _ _ _ _ \<Rightarrow> True
   | IfExp _ _ _ _ \<Rightarrow> True | IntExp _ _ \<Rightarrow> True | LetExp _ _ _ \<Rightarrow> True | NilExp _ \<Rightarrow> True
   | ObjectExp _ _ \<Rightarrow> True | OpExp _ _ _ _ \<Rightarrow> True | RecordExp _ _ _ \<Rightarrow> True | SeqExp _ _ \<Rightarrow> True
   | StringExp _ _ \<Rightarrow> True | WhileExp _ _ _ \<Rightarrow> True | _ \<Rightarrow> False)"

definition is_Ty :: "ast \<Rightarrow> bool" where
  "is_Ty e = (case e of
     NameTy _ _ \<Rightarrow> True | ArrayTy _ _ \<Rightarrow> True | RecordTy _ _ \<Rightarrow> True | ClassTy _ _ _ \<Rightarrow> True
   | _ \<Rightarrow> False)"

definition is_NameTy :: "ast \<Rightarrow> bool" where
  "is_NameTy e = (case e of NameTy _ _ \<Rightarrow> True | _ \<Rightarrow> False)"

definition is_VarDec :: "ast \<Rightarrow> bool" where
  "is_VarDec e = (case e of VarDec _ _ _ _ \<Rightarrow> True | _ \<Rightarrow> False)"

definition is_TypeDec :: "ast \<Rightarrow> bool" where
  "is_TypeDec e = (case e of TypeDec _ _ _ \<Rightarrow> True | _ \<Rightarrow> False)"

definition is_MethodDec :: "ast \<Rightarrow> bool" where
  "is_MethodDec e = (case e of MethodDec _ _ _ _ _ \<Rightarrow> True | _ \<Rightarrow> False)"

text \<open>A \<open>MethodDec\<close> is a \<open>FunctionDec\<close>.\<close>

definition is_FunctionDec :: "ast \<Rightarrow> bool" where
  "is_FunctionDec e =
     (case e of FunctionDec _ _ _ _ _ \<Rightarrow> True | MethodDec _ _ _ _ _ \<Rightarrow> True | _ \<Rightarrow> False)"

definition is_Dec :: "ast \<Rightarrow> bool" where
  "is_Dec e \<longleftrightarrow> is_VarDec e \<or> is_TypeDec e \<or> is_FunctionDec e"

definition is_VarChunk :: "ast \<Rightarrow> bool" where
  "is_VarChunk e = (case e of VarChunk _ _ \<Rightarrow> True | _ \<Rightarrow> False)"

definition is_Chunk :: "ast \<Rightarrow> bool" where
  "is_Chunk e = (case e of
     VarChunk _ _ \<Rightarrow> True | TypeChunk _ _ \<Rightarrow> True | FunctionChunk _ _ \<Rightarrow> True
   | MethodChunk _ _ \<Rightarrow> True | _ \<Rightarrow> False)"

definition is_Field :: "ast \<Rightarrow> bool" where
  "is_Field e = (case e of Field_node _ _ _ \<Rightarrow> True | _ \<Rightarrow> False)"

definition is_FieldInit :: "ast \<Rightarrow> bool" where
  "is_FieldInit e = (case e of FieldInit _ _ _ \<Rightarrow> True | _ \<Rightarrow> False)"

lemmas is_class_defs =
  is_Var_def is_Exp_def is_Ty_def is_NameTy_def is_VarDec_def is_TypeDec_def is_MethodDec_def
  is_FunctionDec_def is_Dec_def is_VarChunk_def is_Chunk_def is_Field_def is_FieldInit_def
  is_ChunkList_def

text \<open>Classes in plain Tiger: the nodes that \<open>NonObjectVisitor\<close> accepts.\<close>

definition is_object_node :: "ast \<Rightarrow> bool" where
  "is_object_node e = (case e of
     ClassTy _ _ _ \<Rightarrow> True | MethodChunk _ _ \<Rightarrow> True | MethodDec _ _ _ _ _ \<Rightarrow> True
   | MethodCallExp _ _ _ _ \<Rightarrow> True | ObjectExp _ _ \<Rightarrow> True | _ \<Rightarrow> False)"

section \<open>The static types of the members\<close>

definition opt_all :: "('a \<Rightarrow> bool) \<Rightarrow> 'a option \<Rightarrow> bool" where
  "opt_all P m = (case m of None \<Rightarrow> True | Some x \<Rightarrow> P x)"

definition wf_node :: "ast \<Rightarrow> bool" where
  "wf_node e = (case e of
     ArrayExp _ t s i \<Rightarrow> is_NameTy t \<and> is_Exp s \<and> is_Exp i
   | ArrayTy _ b \<Rightarrow> is_NameTy b
   | AssignExp _ v x \<Rightarrow> is_Var v \<and> is_Exp x
   | BreakExp _ \<Rightarrow> True
   | CallExp _ _ args \<Rightarrow> list_all is_Exp args
   | CastExp _ x t \<Rightarrow> is_Exp x \<and> is_Ty t
   | ClassTy _ s c \<Rightarrow> is_NameTy s \<and> is_ChunkList c
   | Field_node _ _ t \<Rightarrow> is_NameTy t
   | FieldInit _ _ i \<Rightarrow> is_Exp i
   | FieldVar _ v _ \<Rightarrow> is_Var v
   | ForExp _ v hi b \<Rightarrow> is_VarDec v \<and> is_Exp hi \<and> is_Exp b
   | FunctionDec _ _ f r b \<Rightarrow> is_VarChunk f \<and> opt_all is_NameTy r \<and> opt_all is_Exp b
   | IfExp _ c t f \<Rightarrow> is_Exp c \<and> is_Exp t \<and> is_Exp f
   | IntExp _ _ \<Rightarrow> True
   | LetExp _ c b \<Rightarrow> is_ChunkList c \<and> is_Exp b
   | MethodCallExp _ _ args v \<Rightarrow> list_all is_Exp args \<and> is_Var v
   | MethodDec _ _ f r b \<Rightarrow> is_VarChunk f \<and> opt_all is_NameTy r \<and> opt_all is_Exp b
   | NameTy _ _ \<Rightarrow> True
   | NilExp _ \<Rightarrow> True
   | ObjectExp _ t \<Rightarrow> is_NameTy t
   | OpExp _ l _ r \<Rightarrow> is_Exp l \<and> is_Exp r
   | RecordExp _ t fs \<Rightarrow> is_NameTy t \<and> list_all is_FieldInit fs
   | RecordTy _ fs \<Rightarrow> list_all is_Field fs
   | SeqExp _ es \<Rightarrow> list_all is_Exp es
   | SimpleVar _ _ \<Rightarrow> True
   | StringExp _ _ \<Rightarrow> True
   | SubscriptVar _ v i \<Rightarrow> is_Var v \<and> is_Exp i
   | TypeDec _ _ t \<Rightarrow> is_Ty t
   | VarDec _ _ t i \<Rightarrow> opt_all is_NameTy t \<and> opt_all is_Exp i
   | WhileExp _ c b \<Rightarrow> is_Exp c \<and> is_Exp b
   | ChunkList _ cs \<Rightarrow> list_all is_Chunk cs
   | FunctionChunk _ ds \<Rightarrow> list_all is_FunctionDec ds
   | MethodChunk _ ds \<Rightarrow> list_all is_MethodDec ds
   | TypeChunk _ ds \<Rightarrow> list_all is_TypeDec ds
   | VarChunk _ ds \<Rightarrow> list_all is_VarDec ds)"

text \<open>The nodes of a tree, in prefix order.\<close>

lemma subs_size: "c \<in> set (subs e) \<Longrightarrow> size c < size e"
  by (cases e)
    (auto simp: opt_list_def size_list_member_less dest: size_list_member split: option.splits)

function nodes :: "ast \<Rightarrow> ast list" where
  "nodes e = e # concat (map nodes (subs e))"
  by auto
termination by (relation "measure size") (auto dest: subs_size)

declare nodes.simps [simp del]

lemma nodes_trans: "c \<in> set (subs e) \<Longrightarrow> set (nodes c) \<subseteq> set (nodes e)"
  by (subst (2) nodes.simps) auto

lemma nodes_self [simp]: "e \<in> set (nodes e)"
  by (subst nodes.simps) simp

lemma nodes_sub: "e \<in> set (nodes r) \<Longrightarrow> set (nodes e) \<subseteq> set (nodes r)"
proof (induction r rule: nodes.induct)
  case (1 r)
  then show ?case using nodes_trans [of _ r] by (auto simp: nodes.simps [of r])
qed

definition wf_ast :: "ast \<Rightarrow> bool" where
  "wf_ast e \<longleftrightarrow> list_all wf_node (nodes e)"

lemma wf_ast_unfold: "wf_ast e \<longleftrightarrow> wf_node e \<and> list_all wf_ast (subs e)"
  by (simp add: wf_ast_def nodes.simps [of e] list_all_iff)

text \<open>Looking up the node that a pointer points to.\<close>

definition node_at :: "ast \<Rightarrow> addr \<Rightarrow> ast option" where
  "node_at root a = find (\<lambda>e. addr_of e = a) (nodes root)"

text \<open>The tree has no two nodes at the same address.\<close>

definition distinct_nodes :: "ast \<Rightarrow> bool" where
  "distinct_nodes root \<longleftrightarrow> distinct (map addr_of (nodes root))"

section \<open>The children that the default visitor accepts, in order\<close>

definition accepts_var :: "ast \<Rightarrow> ast list" where
  "accepts_var e = (case e of
     SimpleVar _ _ \<Rightarrow> []
   | FieldVar _ var _ \<Rightarrow> [var]
   | SubscriptVar _ var index \<Rightarrow> [var, index]
   | _ \<Rightarrow> [])"

definition accepts_exp :: "ast \<Rightarrow> ast list" where
  "accepts_exp e = (case e of
     NilExp _ \<Rightarrow> []
   | IntExp _ _ \<Rightarrow> []
   | StringExp _ _ \<Rightarrow> []
   | CallExp _ _ args \<Rightarrow> args
   | OpExp _ left _ right \<Rightarrow> [left, right]
   | RecordExp _ type_name flds \<Rightarrow> type_name # flds
   | SeqExp _ exps \<Rightarrow> exps
   | AssignExp _ var exp1 \<Rightarrow> [var, exp1]
   | IfExp _ test thenclause elseclause \<Rightarrow> [test, thenclause, elseclause]
   | WhileExp _ test body \<Rightarrow> [test, body]
   | ForExp _ vardec hi body \<Rightarrow> [vardec, hi, body]
   | BreakExp _ \<Rightarrow> []
   | LetExp _ chunks body \<Rightarrow> [chunks, body]
   | ArrayExp _ type_name sz init \<Rightarrow> [type_name, sz, init]
   | CastExp _ exp1 ty \<Rightarrow> [exp1, ty]
   | FieldInit _ _ init \<Rightarrow> [init]
   | _ \<Rightarrow> [])"

definition accepts_dec :: "ast \<Rightarrow> ast list" where
  "accepts_dec e = (case e of
     ChunkList _ chunks \<Rightarrow> chunks
   | VarChunk _ decs \<Rightarrow> decs
   | VarDec _ _ type_name init \<Rightarrow> opt_list type_name @ opt_list init
   | FunctionChunk _ decs \<Rightarrow> decs
   | FunctionDec _ _ formals result body \<Rightarrow> formals # opt_list result @ opt_list body
   | TypeChunk _ decs \<Rightarrow> decs
   | TypeDec _ _ ty \<Rightarrow> [ty]
   | _ \<Rightarrow> [])"

definition accepts_ty :: "ast \<Rightarrow> ast list" where
  "accepts_ty e = (case e of
     NameTy _ _ \<Rightarrow> []
   | RecordTy _ flds \<Rightarrow> flds
   | ArrayTy _ base_type \<Rightarrow> [base_type]
   | Field_node _ _ type_name \<Rightarrow> [type_name]
   | _ \<Rightarrow> [])"

text \<open>At most one of the four is not empty.\<close>

definition accepts :: "ast \<Rightarrow> ast list" where
  "accepts e = accepts_var e @ accepts_exp e @ accepts_dec e @ accepts_ty e"

lemmas accepts_defs = accepts_def accepts_var_def accepts_exp_def accepts_dec_def accepts_ty_def

section \<open>Visitors\<close>

type_synonym 's visit = "ast \<Rightarrow> 's \<Rightarrow> 's res"

text \<open>\<open>chunk_visit\<close>, the other loops, and the sequences of calls of \<open>accept\<close>.\<close>

definition default_visit :: "'s visit \<Rightarrow> 's visit" where
  "default_visit visit e = foldE visit (accepts e)"

text \<open>\<open>GenVisitor::accept(E* e)\<close>: nothing on a null pointer.\<close>

definition accept_opt :: "'s visit \<Rightarrow> ast option \<Rightarrow> 's \<Rightarrow> 's res" where
  "accept_opt visit e s = (case e of None \<Rightarrow> Inr s | Some x \<Rightarrow> visit x s)"

text \<open>The object-related methods of a \<open>NonObjectVisitor\<close>, and those of an \<open>ObjectVisitor\<close>.\<close>

definition non_object_visit :: "'s visit" where
  "non_object_visit e s = Inl Unreachable"

definition object_visit :: "'s visit" where
  "object_visit e s = Inr s"

lemma accepts_subs: "\<not> is_object_node e \<Longrightarrow> accepts e = subs e"
  by (cases e) (simp_all add: accepts_defs is_object_node_def)

lemma accepts_object: "is_object_node e \<Longrightarrow> accepts e = []"
  by (cases e) (simp_all add: accepts_defs is_object_node_def)

lemma nodes_closed: "e \<in> set (nodes root) \<Longrightarrow> c \<in> set (accepts e) \<Longrightarrow> c \<in> set (nodes root)"
proof -
  assume e: "e \<in> set (nodes root)" and c: "c \<in> set (accepts e)"
  then have "c \<in> set (subs e)"
    using accepts_subs accepts_object by (cases "is_object_node e") force+
  with nodes_sub [OF e] nodes_trans [of c e] nodes_self [of c] show ?thesis by blast
qed

lemma accepts_size: "c \<in> set (accepts e) \<Longrightarrow> size c < size e"
  using subs_size accepts_subs accepts_object by (cases "is_object_node e") force+

lemma default_visit_cong:
  assumes "\<And>c s. size c < size e \<Longrightarrow> f c s = g c s"
  shows "default_visit f e s = default_visit g e s"
  unfolding default_visit_def
  by (rule foldE_cong [OF refl refl]) (rule assms, erule accepts_size)

lemma accept_opt_cong:
  assumes "\<And>x s. m = Some x \<Longrightarrow> f x s = g x s"
  shows "accept_opt f m s = accept_opt g m s"
  using assms by (cases m) (simp_all add: accept_opt_def)

lemma accept_opt_simps [simp]:
  "accept_opt visit None s = Inr s" "accept_opt visit (Some x) s = visit x s"
  by (simp_all add: accept_opt_def)

lemma opt_all_simps [simp]: "opt_all P None" "opt_all P (Some x) = P x"
  by (simp_all add: opt_all_def)

lemma opt_list_simps [simp]: "opt_list None = []" "opt_list (Some x) = [x]"
  by (simp_all add: opt_list_def)

section \<open>The interface of a traversal\<close>

text \<open>
  What a visitor keeps, whatever its methods do: if every method, given that the visits of the
  strictly smaller nodes keep a reflexive and transitive relation between states, keeps it too,
  then the visitor keeps it.  The visitors of the passes are instances.
\<close>

locale traversal =
  fixes visit :: "ast \<Rightarrow> 's \<Rightarrow> exn + 's"
    and dispatch :: "(ast \<Rightarrow> 's \<Rightarrow> exn + 's) \<Rightarrow> ast \<Rightarrow> 's \<Rightarrow> exn + 's"
  assumes visit_dispatch: "visit e s = dispatch visit e s"
    and dispatch_local:
      "(\<And>c s. size c < size e \<Longrightarrow> f c s = g c s) \<Longrightarrow> dispatch f e s = dispatch g e s"
begin

text \<open>A traversal is determined by its methods.\<close>

lemma unique_visit:
  assumes "\<And>e s. f e s = dispatch f e s"
  shows "f e s = visit e s"
proof (induction e arbitrary: s rule: measure_induct_rule [of size])
  case (less e)
  have "f e s = dispatch f e s" by (rule assms)
  also have "\<dots> = dispatch visit e s" by (rule dispatch_local) (rule less)
  finally show ?case by (simp add: visit_dispatch [symmetric])
qed

lemma keeps:
  assumes "\<And>e s t.
      (\<And>c s t. size c < size e \<Longrightarrow> visit c s = Inr t \<Longrightarrow> R s t) \<Longrightarrow>
      dispatch visit e s = Inr t \<Longrightarrow> R s t"
    and "visit e s = Inr t"
  shows "R s t"
  using assms(2)
proof (induction e arbitrary: s t rule: measure_induct_rule [of size])
  case (less e)
  show ?case by (rule assms(1) [of e]) (use less visit_dispatch in auto)
qed

end

end
