(* ===== verification/Misc_Stream.thy ===== *)
theory Misc_Stream
  imports Tiger_Prelude
begin

text \<open>
  Output streams as the printers use them, and the helpers of \<^verbatim>\<open>lib/misc\<close> around them:
  \<^verbatim>\<open>indent.cc\<close>, \<^verbatim>\<open>escape.cc\<close>, \<^verbatim>\<open>separator.hxx\<close>, \<^verbatim>\<open>xalloc.hxx\<close>.  A stream is its text, the
  formatting state the helpers read or write (fill character, width, base of integers), the slot
  of the indentation, and the slots of \<open>xalloc\<close>.
\<close>

section \<open>Streams\<close>

datatype base = dec_base | oct_base | hex_base

record 'd ostream =
  text_of :: string
  fill_of :: char
  width_of :: int
  base_of :: base
  indent_of :: int
  pword_of :: "nat \<rightharpoonup> 'd"

definition ostream_new :: "'d ostream" where
  "ostream_new =
     \<lparr>text_of = [], fill_of = CHR '' '', width_of = 0, base_of = dec_base, indent_of = 0,
      pword_of = Map.empty\<rparr>"

text \<open>A formatted output: padding on the left up to the width, which is then reset.\<close>

definition put_str :: "string \<Rightarrow> 'd ostream \<Rightarrow> 'd ostream" where
  "put_str s os =
     os\<lparr>text_of := text_of os @ replicate (nat (width_of os) - length s) (fill_of os) @ s,
        width_of := 0\<rparr>"

fun digits_in :: "nat \<Rightarrow> nat \<Rightarrow> string" where
  "digits_in b n =
     (if b < 2 \<or> n < b then [digit n] else digits_in b (n div b) @ [digit (n mod b)])"

declare digits_in.simps [simp del]

definition put_nat :: "nat \<Rightarrow> 'd ostream \<Rightarrow> 'd ostream" where
  "put_nat n os =
     put_str (case base_of os of
                dec_base \<Rightarrow> digits_in 10 n | oct_base \<Rightarrow> digits_in 8 n | hex_base \<Rightarrow> digits_in 16 n) os"

definition put_endl :: "'d ostream \<Rightarrow> 'd ostream" where
  "put_endl os = os\<lparr>text_of := text_of os @ newline\<rparr>"

section \<open>Indentation: \<open>indent.cc\<close>\<close>

definition incindent :: "'d ostream \<Rightarrow> 'd ostream" where
  "incindent os = os\<lparr>indent_of := indent_of os + 2\<rparr>"

definition decindent :: "'d ostream \<Rightarrow> 'd ostream res" where
  "decindent os =
     (if indent_of os \<noteq> 0 then Inr (os\<lparr>indent_of := indent_of os - 2\<rparr>) else Inl Assertion)"

definition resetindent :: "'d ostream \<Rightarrow> 'd ostream" where
  "resetindent os = os\<lparr>indent_of := 0\<rparr>"

definition iendl :: "'d ostream \<Rightarrow> 'd ostream" where
  "iendl os =
     (let os1 = put_endl os;
          fill = fill_of os1;
          os2 = os1\<lparr>fill_of := CHR '' ''\<rparr>;
          os3 = put_str [] (os2\<lparr>width_of := indent_of os2\<rparr>)
      in os3\<lparr>fill_of := fill\<rparr>)"

definition incendl :: "'d ostream \<Rightarrow> 'd ostream" where
  "incendl os = iendl (incindent os)"

definition decendl :: "'d ostream \<Rightarrow> 'd ostream res" where
  "decendl os = bindE (decindent os) (\<lambda>os1. Inr (iendl os1))"

section \<open>Escaped strings: \<open>escape.cc\<close>\<close>

text \<open>The table \<open>escapes\<close>; the backslash is character 92, the double quote 34.\<close>

definition escapes :: "char \<rightharpoonup> string" where
  "escapes c =
     (let bs = char_of (92 :: nat); n = (of_char c :: nat) in
      if n = 7 then Some (bs # ''007'')
      else if n = 8 then Some (bs # ''b'')
      else if n = 12 then Some (bs # ''f'')
      else if n = 10 then Some (bs # ''n'')
      else if n = 13 then Some (bs # ''r'')
      else if n = 9 then Some (bs # ''t'')
      else if n = 11 then Some (bs # ''v'')
      else if n = 92 then Some [bs, bs]
      else if n = 34 then Some [bs, char_of (34 :: nat)]
      else None)"

text \<open>\<open>std::isprint\<close> in the "C" locale.\<close>

definition isprint :: "char \<Rightarrow> bool" where
  "isprint c \<longleftrightarrow> (let n = (of_char c :: nat) in 32 \<le> n \<and> n < 127)"

definition escape_char :: "char \<Rightarrow> 'd ostream \<Rightarrow> 'd ostream" where
  "escape_char p os =
     (case escapes p of
        Some it \<Rightarrow> put_str it os
      | None \<Rightarrow>
          if isprint p then put_str [p] os
          else put_nat (of_char p) ((put_str [char_of (92 :: nat)] os)\<lparr>width_of := 3\<rparr>))"

definition escape_print :: "string \<Rightarrow> 'd ostream \<Rightarrow> 'd ostream" where
  "escape_print es os =
     (let base = base_of os;
          os1 = os\<lparr>base_of := oct_base\<rparr>;
          fill = fill_of os1;
          os2 = os1\<lparr>fill_of := CHR ''0''\<rparr>;
          os3 = fold escape_char es os2
      in os3\<lparr>fill_of := fill, base_of := base\<rparr>)"

section \<open>Lists with a separator: \<open>separator.hxx\<close>\<close>

text \<open>
  The loop over the container, with \<open>first\<close> for \<open>i == container_.begin()\<close>; the printers of the
  items and of the separator may fail.
\<close>

fun separator_loop ::
  "('d ostream \<Rightarrow> 'd ostream res) \<Rightarrow> ('x \<Rightarrow> 'd ostream \<Rightarrow> 'd ostream res) \<Rightarrow> bool \<Rightarrow> 'x list
   \<Rightarrow> 'd ostream \<Rightarrow> 'd ostream res" where
  "separator_loop sep item first [] os = Inr os"
| "separator_loop sep item first (x # xs) os =
     bindE (if first then Inr os else sep os) (\<lambda>os1.
     bindE (item x os1) (\<lambda>os2. separator_loop sep item False xs os2))"

definition separate ::
  "('d ostream \<Rightarrow> 'd ostream res) \<Rightarrow> ('x \<Rightarrow> 'd ostream \<Rightarrow> 'd ostream res) \<Rightarrow> 'x list
   \<Rightarrow> 'd ostream \<Rightarrow> 'd ostream res" where
  "separate sep item xs os = separator_loop sep item True xs os"

section \<open>Slots of streams: \<open>xalloc.hxx\<close>\<close>

record 'd xalloc =
  xalloc_index :: nat
  xalloc_model :: 'd

text \<open>The stored data as an lvalue: the slot gets a copy of the model at its first use.\<close>

definition xalloc_ref :: "'d xalloc \<Rightarrow> 'd ostream \<Rightarrow> 'd \<times> 'd ostream" where
  "xalloc_ref x os =
     (case pword_of os (xalloc_index x) of
        None \<Rightarrow>
          (xalloc_model x, os\<lparr>pword_of := (pword_of os)(xalloc_index x \<mapsto> xalloc_model x)\<rparr>)
      | Some d \<Rightarrow> (d, os))"

definition xalloc_set :: "'d xalloc \<Rightarrow> 'd \<Rightarrow> 'd ostream \<Rightarrow> 'd ostream" where
  "xalloc_set x data os =
     (let os1 = snd (xalloc_ref x os) in
      os1\<lparr>pword_of := (pword_of os1)(xalloc_index x \<mapsto> data)\<rparr>)"

definition xalloc_get :: "'d xalloc \<Rightarrow> 'd ostream \<Rightarrow> 'd \<times> 'd ostream" where
  "xalloc_get x os = xalloc_ref x os"

definition xalloc_swap :: "'d xalloc \<Rightarrow> 'd \<Rightarrow> 'd ostream \<Rightarrow> 'd \<times> 'd ostream" where
  "xalloc_swap x data os =
     (let (old, os1) = xalloc_ref x os
      in (old, os1\<lparr>pword_of := (pword_of os1)(xalloc_index x \<mapsto> data)\<rparr>))"

definition xalloc_deallocate :: "nat \<Rightarrow> 'd ostream \<Rightarrow> 'd ostream" where
  "xalloc_deallocate index os = os\<lparr>pword_of := (pword_of os)(index := None)\<rparr>"

section \<open>Facts of the model\<close>

lemma iendl_eq:
  "iendl os = os\<lparr>text_of := text_of os @ newline @ replicate (nat (indent_of os)) (CHR '' ''),
                width_of := 0\<rparr>"
  by (simp add: iendl_def put_endl_def put_str_def Let_def)

lemma decindent_incindent: "0 \<le> indent_of os \<Longrightarrow> decindent (incindent os) = Inr os"
  by (simp add: decindent_def incindent_def)

lemma of_char_less: "(of_char c :: nat) < 256"
  by (rule nat_of_char_less_256)

lemma of_char_div_64: "(of_char c :: nat) div 64 < 8"
  by (rule less_mult_imp_div_less) (use of_char_less [of c] in linarith)

lemma put_str_width0: "width_of os = 0 \<Longrightarrow> put_str s os = os\<lparr>text_of := text_of os @ s\<rparr>"
  by (cases os) (simp add: put_str_def)

text \<open>What one character becomes, and what the whole string becomes.\<close>

definition escaped_char :: "char \<Rightarrow> string" where
  "escaped_char c =
     (case escapes c of
        Some it \<Rightarrow> it
      | None \<Rightarrow>
          if isprint c then [c]
          else (let n = of_char c
                in [char_of (92 :: nat), digit (n div 64), digit (n div 8 mod 8), digit (n mod 8)]))"

lemma digits_in_octal:
  assumes "n < 512"
  shows "replicate (3 - length (digits_in 8 n)) (CHR ''0'') @ digits_in 8 n =
         [digit (n div 64), digit (n div 8 mod 8), digit (n mod 8)]"
proof -
  have d: "digits_in 8 m = [digit m]" if "m < 8" for m
    using that by (simp add: digits_in.simps [of 8 m])
  have d2: "digits_in 8 m = [digit (m div 8), digit (m mod 8)]" if "8 \<le> m" "m < 64" for m
    using that by (simp add: digits_in.simps [of 8 m] d)
  have d3: "digits_in 8 m = [digit (m div 64), digit (m div 8 mod 8), digit (m mod 8)]"
    if "64 \<le> m" "m < 512" for m
    using that by (simp add: digits_in.simps [of 8 m] d2 div_mult2_eq [symmetric])
  consider "n < 8" | "8 \<le> n" "n < 64" | "64 \<le> n" using assms by linarith
  then show ?thesis
    by cases (simp_all add: d d2 d3 assms numeral_3_eq_3 numeral_2_eq_2)
qed

lemma escape_char_eq:
  assumes "width_of os = 0" "fill_of os = CHR ''0''" "base_of os = oct_base"
  shows "escape_char c os = os\<lparr>text_of := text_of os @ escaped_char c\<rparr>"
proof -
  have "of_char c < (512 :: nat)" using of_char_less [of c] by linarith
  from digits_in_octal [OF this] show ?thesis
    using assms
    by (auto simp: escape_char_def escaped_char_def put_str_def put_nat_def Let_def
        split: option.splits)
qed

lemma escape_fold_eq:
  assumes "width_of os = 0" "fill_of os = CHR ''0''" "base_of os = oct_base"
  shows "fold escape_char es os =
         os\<lparr>text_of := text_of os @ concat (map escaped_char es)\<rparr>"
  using assms by (induction es arbitrary: os) (simp_all add: escape_char_eq)

text \<open>\<open>escape_print\<close> appends the escaped text and restores the formatting state.\<close>

lemma escape_print_eq:
  "width_of os = 0 \<Longrightarrow>
   escape_print es os = os\<lparr>text_of := text_of os @ concat (map escaped_char es)\<rparr>"
  by (simp add: escape_print_def escape_fold_eq Let_def)

text \<open>A reader of escaped text, to state that nothing is lost.\<close>

definition unescapes :: "char \<rightharpoonup> char" where
  "unescapes d =
     (let n = (of_char d :: nat) in
      if n = 98 then Some (char_of (8 :: nat))
      else if n = 102 then Some (char_of (12 :: nat))
      else if n = 110 then Some (char_of (10 :: nat))
      else if n = 114 then Some (char_of (13 :: nat))
      else if n = 116 then Some (char_of (9 :: nat))
      else if n = 118 then Some (char_of (11 :: nat))
      else if n = 92 then Some (char_of (92 :: nat))
      else if n = 34 then Some (char_of (34 :: nat))
      else None)"

fun unescape :: "string \<Rightarrow> string" where
  "unescape [] = []"
| "unescape (c # cs) =
     (if of_char c \<noteq> (92 :: nat) then c # unescape cs
      else (case cs of
              [] \<Rightarrow> []
            | d # ds \<Rightarrow>
                (case unescapes d of
                   Some e \<Rightarrow> e # unescape ds
                 | None \<Rightarrow>
                     (case ds of
                        d2 # d3 # rest \<Rightarrow>
                          char_of (64 * (of_char d - 48) + 8 * (of_char d2 - 48)
                                   + (of_char d3 - 48) :: nat) # unescape rest
                      | _ \<Rightarrow> []))))"

lemma unescapes_digit: "n < 8 \<Longrightarrow> unescapes (digit n) = None"
  by (simp add: unescapes_def of_char_digit)

lemma octal_value: "64 * (n div 64) + 8 * (n div 8 mod 8) + n mod 8 = (n :: nat)"
proof -
  have "n div 64 = n div 8 div 8" by (simp add: div_mult2_eq)
  then show ?thesis
    using div_mult_mod_eq [of "n div 8" 8] div_mult_mod_eq [of n 8] by linarith
qed

lemma char_of_eqI: "of_char c = n \<Longrightarrow> char_of (n :: nat) = c"
  by auto

lemma unescape_escaped_char: "unescape (escaped_char c @ rest) = c # unescape rest"
proof (cases "escapes c")
  case None
  then have nb: "of_char c \<noteq> (92 :: nat)" by (auto simp: escapes_def Let_def split: if_splits)
  show ?thesis
  proof (cases "isprint c")
    case True
    with None nb show ?thesis by (simp add: escaped_char_def)
  next
    case False
    have small: "of_char c div 64 < (8 :: nat)" by (rule of_char_div_64)
    have "unescape (escaped_char c @ rest) =
      char_of (64 * (of_char c div 64) + 8 * (of_char c div 8 mod 8) + of_char c mod 8 :: nat)
        # unescape rest"
      using small by (simp add: None False escaped_char_def Let_def unescapes_digit of_char_digit)
    then show ?thesis by (simp only: octal_value char_of_char)
  qed
next
  case (Some it)
  have seven: "unescape (char_of (92 :: nat) # ''007'' @ rest) = char_of (7 :: nat) # unescape rest"
    by (simp add: unescapes_def)
  have bs: "unescape (char_of (92 :: nat) # d # rest) = e # unescape rest"
    if "unescapes d = Some e" for d e
    using that by simp
  show ?thesis
    using Some seven
    by (auto simp: escapes_def escaped_char_def Let_def unescapes_def
        split: if_splits intro!: char_of_eqI)
qed

lemma unescape_escaped: "unescape (concat (map escaped_char s)) = s"
  by (induction s) (simp_all add: unescape_escaped_char)

lemma escaped_char_printable: "d \<in> set (escaped_char c) \<Longrightarrow> isprint d"
proof -
  have dg: "isprint (digit n)" if "n < 8" for n
    using that by (simp add: isprint_def of_char_digit Let_def)
  have small: "of_char c div 64 < (8 :: nat)" by (rule of_char_div_64)
  show "d \<in> set (escaped_char c) \<Longrightarrow> isprint d"
  proof (cases "escapes c")
    case None
    then show "d \<in> set (escaped_char c) \<Longrightarrow> isprint d"
      using dg small
      by (auto simp: escaped_char_def Let_def isprint_def split: if_splits)
  next
    case (Some it)
    then show "d \<in> set (escaped_char c) \<Longrightarrow> isprint d"
      by (auto simp: escaped_char_def escapes_def Let_def isprint_def split: if_splits)
  qed
qed

text \<open>Separators stand between items: an item that only prints a string, a constant separator.\<close>

lemma separator_loop_rest:
  "width_of os = 0 \<Longrightarrow>
   separator_loop (\<lambda>os. Inr (put_str sep os)) (\<lambda>x os. Inr (put_str (f x) os)) False xs os =
   Inr (os\<lparr>text_of := text_of os @ concat (map (\<lambda>x. sep @ f x) xs)\<rparr>)"
  by (induction xs arbitrary: os) (simp_all add: put_str_width0)

lemma separate_strings:
  assumes "width_of os = 0"
  shows "separate (\<lambda>os. Inr (put_str sep os)) (\<lambda>x os. Inr (put_str (f x) os)) xs os =
    Inr (os\<lparr>text_of := text_of os @
       (if xs = [] then [] else f (hd xs) @ concat (map (\<lambda>x. sep @ f x) (tl xs)))\<rparr>)"
  using assms
  by (cases xs)
    (simp_all add: separate_def put_str_width0 separator_loop_rest)

lemma xalloc_get_set: "fst (xalloc_get x (xalloc_set x d os)) = d"
  by (auto simp: xalloc_get_def xalloc_set_def xalloc_ref_def Let_def split: option.splits)

lemma xalloc_get_new: "pword_of os (xalloc_index x) = None \<Longrightarrow> fst (xalloc_get x os) = xalloc_model x"
  by (simp add: xalloc_get_def xalloc_ref_def)

lemma xalloc_swap_twice:
  "xalloc_swap x d os = (old, os1) \<Longrightarrow>
   fst (xalloc_get x os1) = d \<and> fst (xalloc_get x (snd (xalloc_swap x old os1))) = old"
  by (auto simp: xalloc_swap_def xalloc_get_def xalloc_ref_def Let_def split: option.splits)

lemma xalloc_set_other:
  "xalloc_index x \<noteq> xalloc_index y \<Longrightarrow>
   fst (xalloc_get y (xalloc_set x d os)) = fst (xalloc_get y os)"
  by (auto simp: xalloc_set_def xalloc_get_def xalloc_ref_def Let_def split: option.splits)

section \<open>Properties\<close>

text \<open>C21: On a stream whose width is zero, escaping a string appends printable characters only, from which the string can be read
  back, and leaves the formatting state of the stream as it was.\<close>

theorem escape_roundtrip:
  assumes "width_of os = 0"
  shows "\<exists>out. escape_print s os = os\<lparr>text_of := text_of os @ out\<rparr> \<and>
    unescape out = s \<and> list_all isprint out"
proof -
  have "list_all isprint (concat (map escaped_char s))"
    using escaped_char_printable by (auto simp: list_all_iff)
  then show ?thesis using escape_print_eq [OF assms] unescape_escaped by blast
qed

theorem escape_roundtrip_witness:
  "unescape (text_of (escape_print ''ab'' (ostream_new :: bool ostream))) = ''ab''"
  using escape_roundtrip [of "ostream_new :: bool ostream" "''ab''"]
  by (auto simp: ostream_new_def)

end
