(* ===== verification/Pretty_Printer.thy ===== *)
theory Pretty_Printer
  imports Ast_Visitor Misc_Stream
begin

text \<open>
  \<^verbatim>\<open>src/src/ast/pretty-printer.*\<close>: printing a tree.  The state of the visitor is the stream.  The flags
  that the stream holds (\<open>bindings_display\<close>, \<open>escapes_display\<close>), what the nodes hold (\<open>def_\<close>, \<open>escape_\<close>) and how a
  pointer is printed are arguments, as none of them changes while a tree is printed.
\<close>

section \<open>The visitor\<close>

record pp_context =
  bindings_display :: bool
  escapes_display :: bool
  def_of :: "addr \<Rightarrow> addr option"
  escape_of :: "addr \<Rightarrow> bool"
  show_ptr :: "addr option \<Rightarrow> string"

text \<open>A sequence of statements.\<close>

definition stmts :: "('s \<Rightarrow> 's res) list \<Rightarrow> 's \<Rightarrow> 's res" where
  "stmts = foldE (\<lambda>f s. f s)"

definition out :: "string \<Rightarrow> 'd ostream \<Rightarrow> 'd ostream res" where
  "out s os = Inr (put_str s os)"

definition out_iendl :: "'d ostream \<Rightarrow> 'd ostream res" where
  "out_iendl os = Inr (iendl os)"

definition out_incindent :: "'d ostream \<Rightarrow> 'd ostream res" where
  "out_incindent os = Inr (incindent os)"

definition out_if :: "bool \<Rightarrow> string \<Rightarrow> 'd ostream \<Rightarrow> 'd ostream res" where
  "out_if c s = (if c then out s else Inr)"

text \<open>A comment with a pointer, between two texts, if bindings are displayed.\<close>

definition out_ptr :: "pp_context \<Rightarrow> string \<Rightarrow> addr option \<Rightarrow> string \<Rightarrow> 'd ostream \<Rightarrow> 'd ostream res" where
  "out_ptr p before a after = out_if (bindings_display p) (before @ show_ptr p a @ after)"

definition accept_ptr :: "'s visit \<Rightarrow> ast option \<Rightarrow> 's \<Rightarrow> 's res" where
  "accept_ptr visit e s = (case e of None \<Rightarrow> Inl Null_deref | Some x \<Rightarrow> visit x s)"

definition out_commas :: "'d ostream visit \<Rightarrow> ast list \<Rightarrow> 'd ostream \<Rightarrow> 'd ostream res" where
  "out_commas visit es = (case es of
     [] \<Rightarrow> Inr
   | x # xs \<Rightarrow> stmts (visit x # map (\<lambda>e. stmts [out '', '', visit e]) xs))"

definition pp_SimpleVar :: "pp_context \<Rightarrow> header \<Rightarrow> symbol \<Rightarrow> 'd ostream \<Rightarrow> 'd ostream res" where
  "pp_SimpleVar p h name = stmts [out name, out_ptr p '' /* '' (def_of p (adr h)) '' */'']"

definition pp_FieldVar :: "'d ostream visit \<Rightarrow> ast \<Rightarrow> symbol \<Rightarrow> 'd ostream \<Rightarrow> 'd ostream res" where
  "pp_FieldVar visit var name = stmts [out name, out ''.'', visit var]"

definition pp_SubscriptVar :: "pp_context \<Rightarrow> 'd ostream visit \<Rightarrow> ast \<Rightarrow> ast \<Rightarrow> 'd ostream \<Rightarrow> 'd ostream res" where
  "pp_SubscriptVar p visit var index =
     stmts [visit var, out_if (bindings_display p) '' '', out ''['', out_incindent, visit index, decindent,
       out_if (bindings_display p) '' '', out '']'']"

definition pp_CastExp :: "'d ostream visit \<Rightarrow> ast \<Rightarrow> ast \<Rightarrow> 'd ostream \<Rightarrow> 'd ostream res" where
  "pp_CastExp visit exp1 ty = stmts [out ''_cast('', visit exp1, out '', '', visit ty, out '')'']"

definition pp_ArrayExp :: "'d ostream visit \<Rightarrow> ast \<Rightarrow> ast \<Rightarrow> ast \<Rightarrow> 'd ostream \<Rightarrow> 'd ostream res" where
  "pp_ArrayExp visit type_name sz init =
     stmts [visit type_name, out '' ['', visit sz, out ''] of '', visit init]"

definition pp_ArrayTy :: "'d ostream visit \<Rightarrow> ast \<Rightarrow> 'd ostream \<Rightarrow> 'd ostream res" where
  "pp_ArrayTy visit base_type = stmts [out ''array of '', visit base_type, out_iendl]"

definition pp_AssignExp :: "'d ostream visit \<Rightarrow> ast \<Rightarrow> ast \<Rightarrow> 'd ostream \<Rightarrow> 'd ostream res" where
  "pp_AssignExp visit var exp1 = stmts [visit var, out '' := '', visit exp1]"

definition pp_BreakExp :: "pp_context \<Rightarrow> header \<Rightarrow> 'd ostream \<Rightarrow> 'd ostream res" where
  "pp_BreakExp p h = stmts [out ''break'', out_ptr p '' /* '' (def_of p (adr h)) '' */ '']"

definition pp_CallExp ::
  "pp_context \<Rightarrow> 'd ostream visit \<Rightarrow> header \<Rightarrow> symbol \<Rightarrow> ast list \<Rightarrow> 'd ostream \<Rightarrow> 'd ostream res" where
  "pp_CallExp p visit h name args =
     stmts [out name, out_ptr p '' /* '' (def_of p (adr h)) '' */ '',
       if args = [] then out ''()'' else stmts [out ''('', out_commas visit args, out '')'']]"

definition pp_ChunkList :: "'d ostream visit \<Rightarrow> ast list \<Rightarrow> 'd ostream \<Rightarrow> 'd ostream res" where
  "pp_ChunkList visit chunks = (case chunks of
     [] \<Rightarrow> Inr
   | x # xs \<Rightarrow> stmts (visit x # map (\<lambda>e. stmts [out_iendl, visit e]) xs))"

definition pp_ClassTy :: "'d ostream visit \<Rightarrow> ast \<Rightarrow> ast \<Rightarrow> 'd ostream \<Rightarrow> 'd ostream res" where
  "pp_ClassTy visit super chunks = stmts [visit super, visit chunks, out_iendl]"

definition pp_Field :: "'d ostream visit \<Rightarrow> symbol \<Rightarrow> ast \<Rightarrow> 'd ostream \<Rightarrow> 'd ostream res" where
  "pp_Field visit name type_name = stmts [out name, out '' : '', visit type_name]"

definition pp_FieldInit :: "'d ostream visit \<Rightarrow> symbol \<Rightarrow> ast \<Rightarrow> 'd ostream \<Rightarrow> 'd ostream res" where
  "pp_FieldInit visit name init = stmts [out name, out '' = '', visit init]"

definition pp_ForExp ::
  "pp_context \<Rightarrow> 'd ostream visit \<Rightarrow> header \<Rightarrow> ast \<Rightarrow> ast \<Rightarrow> ast \<Rightarrow> 'd ostream \<Rightarrow> 'd ostream res" where
  "pp_ForExp p visit h vardec hi body = (case vardec of
     VarDec hv name _ init \<Rightarrow>
       stmts [out ''for '', out_ptr p ''/* '' (Some (adr h)) '' */ '', out name,
         out_ptr p '' /* '' (Some (adr hv)) '' */'', out '' := '', accept_ptr visit init, out '' to '', visit hi,
         out '' do'', out_incindent, out_iendl, visit body, decindent]
   | _ \<Rightarrow> (\<lambda>_. Inl Bad_cast))"

definition pp_FunctionDec ::
  "pp_context \<Rightarrow> 'd ostream visit \<Rightarrow> header \<Rightarrow> symbol \<Rightarrow> ast \<Rightarrow> ast option \<Rightarrow> ast option
   \<Rightarrow> 'd ostream \<Rightarrow> 'd ostream res" where
  "pp_FunctionDec p visit h name formals result body =
     stmts ([out (if body \<noteq> None then ''function '' else ''primitive ''), out name,
         out_ptr p '' /* '' (Some (adr h)) '' */ '', out ''('', out_commas visit (decs_get formals), out '')''] @
       (case result of None \<Rightarrow> [] | Some r \<Rightarrow> [out '' : '', visit r]) @
       (case body of
          None \<Rightarrow> [out_incindent, out_iendl]
        | Some b \<Rightarrow> [out '' ='', out_incindent, out_iendl, visit b, out_iendl]) @
       [decindent])"

definition empty_seq :: "ast \<Rightarrow> bool" where
  "empty_seq e = (case e of SeqExp _ es \<Rightarrow> es = [] | _ \<Rightarrow> False)"

definition pp_IfExp :: "'d ostream visit \<Rightarrow> ast \<Rightarrow> ast \<Rightarrow> ast \<Rightarrow> 'd ostream \<Rightarrow> 'd ostream res" where
  "pp_IfExp visit test thenclause elseclause =
     stmts ([out ''if '', visit test, out '' then'', out_incindent, out_iendl, visit thenclause] @
       (if empty_seq elseclause then []
        else [decindent, out_iendl, out ''else'', out_incindent, out_iendl, visit elseclause, decindent]))"

definition pp_IntExp :: "i32 \<Rightarrow> 'd ostream \<Rightarrow> 'd ostream res" where
  "pp_IntExp i = out (dec_int (sint i))"

definition pp_LetExp :: "'d ostream visit \<Rightarrow> ast \<Rightarrow> ast \<Rightarrow> 'd ostream \<Rightarrow> 'd ostream res" where
  "pp_LetExp visit chunks body =
     stmts [out ''let'', out_incindent, out_iendl, visit chunks, decindent, out_iendl, out ''in'', out_incindent, out_iendl,
       visit body, decindent, out_iendl, out ''end'']"

definition pp_MethodCallExp ::
  "pp_context \<Rightarrow> 'd ostream visit \<Rightarrow> header \<Rightarrow> symbol \<Rightarrow> ast list \<Rightarrow> ast \<Rightarrow> 'd ostream \<Rightarrow> 'd ostream res" where
  "pp_MethodCallExp p visit h name args object =
     stmts [out name, out_ptr p '' /* '' (def_of p (adr h)) '' */'', out '' ('', out_commas visit args, out '')'', visit object]"

definition pp_MethodDec ::
  "'d ostream visit \<Rightarrow> symbol \<Rightarrow> ast \<Rightarrow> ast option \<Rightarrow> ast option \<Rightarrow> 'd ostream \<Rightarrow> 'd ostream res" where
  "pp_MethodDec visit name formals result body =
     stmts [out name, out '' ('', visit formals, out '') : '', accept_ptr visit result, out_incindent, out_iendl,
       accept_ptr visit body, decindent]"

definition pp_NameTy :: "pp_context \<Rightarrow> header \<Rightarrow> symbol \<Rightarrow> 'd ostream \<Rightarrow> 'd ostream res" where
  "pp_NameTy p h name = stmts [out name, out_ptr p '' /* '' (def_of p (adr h)) '' */'']"

definition pp_NilExp :: "'d ostream \<Rightarrow> 'd ostream res" where
  "pp_NilExp = out ''nil''"

definition pp_ObjectExp :: "'d ostream visit \<Rightarrow> ast \<Rightarrow> 'd ostream \<Rightarrow> 'd ostream res" where
  "pp_ObjectExp visit type_name = visit type_name"

definition oper_text :: "oper \<Rightarrow> string" where
  "oper_text q = (case q of
     op_add \<Rightarrow> '' + '' | op_sub \<Rightarrow> '' - '' | op_mul \<Rightarrow> '' * '' | op_div \<Rightarrow> '' / '' | op_eq \<Rightarrow> '' = '' | op_ne \<Rightarrow> '' <> ''
   | op_lt \<Rightarrow> '' < '' | op_le \<Rightarrow> '' <= '' | op_gt \<Rightarrow> '' > '' | op_ge \<Rightarrow> '' >= '')"

definition pp_OpExp :: "'d ostream visit \<Rightarrow> ast \<Rightarrow> oper \<Rightarrow> ast \<Rightarrow> 'd ostream \<Rightarrow> 'd ostream res" where
  "pp_OpExp visit left q right = stmts [visit left, out (oper_text q), visit right]"

definition pp_RecordExp :: "'d ostream visit \<Rightarrow> ast \<Rightarrow> ast list \<Rightarrow> 'd ostream \<Rightarrow> 'd ostream res" where
  "pp_RecordExp visit type_name flds =
     stmts ([visit type_name, out ''{ ''] @ (if flds = [] then [out ''}''] else [out_commas visit flds, out '' }'']))"

definition pp_RecordTy :: "'d ostream visit \<Rightarrow> ast list \<Rightarrow> 'd ostream \<Rightarrow> 'd ostream res" where
  "pp_RecordTy visit flds =
     stmts (out ''{ '' # (if flds = [] then [out '' }''] else [out_commas visit flds, out '' }'', out_iendl]))"

definition pp_SeqExp :: "'d ostream visit \<Rightarrow> ast list \<Rightarrow> 'd ostream \<Rightarrow> 'd ostream res" where
  "pp_SeqExp visit exps =
     (if exps = [] then out ''()''
      else stmts ([out ''('', out_incindent] @ map (\<lambda>e. stmts [out_iendl, visit e, out '';'']) (butlast exps) @
             [out_iendl, visit (List.last exps), decindent, out_iendl, out '')'']))"

definition pp_StringExp :: "string \<Rightarrow> 'd ostream \<Rightarrow> 'd ostream res" where
  "pp_StringExp s = stmts [out [CHR 0x22], out s, out [CHR 0x22]]"

definition pp_TypeDec :: "pp_context \<Rightarrow> 'd ostream visit \<Rightarrow> header \<Rightarrow> symbol \<Rightarrow> ast \<Rightarrow> 'd ostream \<Rightarrow> 'd ostream res" where
  "pp_TypeDec p visit h name ty =
     stmts [out ''type '', out name, out_ptr p '' /* '' (Some (adr h)) '' */'', out '' = '', visit ty, out_iendl]"

definition pp_VarDec ::
  "pp_context \<Rightarrow> 'd ostream visit \<Rightarrow> header \<Rightarrow> symbol \<Rightarrow> ast option \<Rightarrow> ast option \<Rightarrow> 'd ostream \<Rightarrow> 'd ostream res" where
  "pp_VarDec p visit h name type_name init =
     stmts ((if init \<noteq> None then [out ''var ''] else []) @
       [out_if (escapes_display p \<and> escape_of p (adr h)) ''/* escaping */ '', out name,
        out_ptr p '' /* '' (Some (adr h)) '' */''] @
       (case type_name of None \<Rightarrow> [] | Some t \<Rightarrow> [out '' : '', visit t]) @
       (case init of None \<Rightarrow> [] | Some i \<Rightarrow> [out '' := '', visit i]))"

definition pp_WhileExp ::
  "pp_context \<Rightarrow> 'd ostream visit \<Rightarrow> header \<Rightarrow> ast \<Rightarrow> ast \<Rightarrow> 'd ostream \<Rightarrow> 'd ostream res" where
  "pp_WhileExp p visit h test body =
     stmts [out ''while '', out_ptr p ''/* '' (Some (adr h)) '' */ '', visit test, out '' do'', out_incindent, out_iendl,
       visit body, decindent]"

definition pp_dispatch :: "pp_context \<Rightarrow> 'd ostream visit \<Rightarrow> 'd ostream visit" where
  "pp_dispatch p visit e = (case e of
     SimpleVar h name \<Rightarrow> pp_SimpleVar p h name
   | FieldVar _ var name \<Rightarrow> pp_FieldVar visit var name
   | SubscriptVar _ var index \<Rightarrow> pp_SubscriptVar p visit var index
   | CastExp _ exp1 ty \<Rightarrow> pp_CastExp visit exp1 ty
   | ArrayExp _ type_name sz init \<Rightarrow> pp_ArrayExp visit type_name sz init
   | ArrayTy _ base_type \<Rightarrow> pp_ArrayTy visit base_type
   | AssignExp _ var exp1 \<Rightarrow> pp_AssignExp visit var exp1
   | BreakExp h \<Rightarrow> pp_BreakExp p h
   | CallExp h name args \<Rightarrow> pp_CallExp p visit h name args
   | ChunkList _ chunks \<Rightarrow> pp_ChunkList visit chunks
   | ClassTy _ super chunks \<Rightarrow> pp_ClassTy visit super chunks
   | Field_node _ name type_name \<Rightarrow> pp_Field visit name type_name
   | FieldInit _ name init \<Rightarrow> pp_FieldInit visit name init
   | ForExp h vardec hi body \<Rightarrow> pp_ForExp p visit h vardec hi body
   | FunctionDec h name formals result body \<Rightarrow> pp_FunctionDec p visit h name formals result body
   | IfExp _ test thenclause elseclause \<Rightarrow> pp_IfExp visit test thenclause elseclause
   | IntExp _ i \<Rightarrow> pp_IntExp i
   | LetExp _ chunks body \<Rightarrow> pp_LetExp visit chunks body
   | MethodCallExp h name args object \<Rightarrow> pp_MethodCallExp p visit h name args object
   | MethodDec _ name formals result body \<Rightarrow> pp_MethodDec visit name formals result body
   | NameTy h name \<Rightarrow> pp_NameTy p h name
   | NilExp _ \<Rightarrow> pp_NilExp
   | ObjectExp _ type_name \<Rightarrow> pp_ObjectExp visit type_name
   | OpExp _ left q right \<Rightarrow> pp_OpExp visit left q right
   | RecordExp _ type_name flds \<Rightarrow> pp_RecordExp visit type_name flds
   | RecordTy _ flds \<Rightarrow> pp_RecordTy visit flds
   | SeqExp _ exps \<Rightarrow> pp_SeqExp visit exps
   | StringExp _ s \<Rightarrow> pp_StringExp s
   | TypeDec h name ty \<Rightarrow> pp_TypeDec p visit h name ty
   | VarDec h name type_name init \<Rightarrow> pp_VarDec p visit h name type_name init
   | WhileExp h test body \<Rightarrow> pp_WhileExp p visit h test body
   | MethodChunk _ _ \<Rightarrow> object_visit e
   | _ \<Rightarrow> default_visit visit e)"

section \<open>The printer\<close>

lemmas pp_defs =
  pp_SimpleVar_def pp_FieldVar_def pp_SubscriptVar_def pp_CastExp_def pp_ArrayExp_def pp_ArrayTy_def pp_AssignExp_def
  pp_BreakExp_def pp_CallExp_def pp_ChunkList_def pp_ClassTy_def pp_Field_def pp_FieldInit_def pp_ForExp_def
  pp_FunctionDec_def pp_IfExp_def pp_IntExp_def pp_LetExp_def pp_MethodCallExp_def pp_MethodDec_def pp_NameTy_def
  pp_NilExp_def pp_ObjectExp_def pp_OpExp_def pp_RecordExp_def pp_RecordTy_def pp_SeqExp_def pp_StringExp_def
  pp_TypeDec_def pp_VarDec_def pp_WhileExp_def

lemma map_visit_cong: "(\<And>e. e \<in> set es \<Longrightarrow> f e = g e) \<Longrightarrow> map (\<lambda>e. h (f e)) es = map (\<lambda>e. h (g e)) es"
  by simp

lemma out_commas_local: "(\<And>e. e \<in> set es \<Longrightarrow> f e = g e) \<Longrightarrow> out_commas f es = out_commas g es"
  by (simp add: out_commas_def split: list.splits cong: map_cong)

lemma pp_ChunkList_local: "(\<And>e. e \<in> set es \<Longrightarrow> f e = g e) \<Longrightarrow> pp_ChunkList f es = pp_ChunkList g es"
  by (simp add: pp_ChunkList_def split: list.splits cong: map_cong)

lemma pp_SeqExp_local: "(\<And>e. e \<in> set es \<Longrightarrow> f e = g e) \<Longrightarrow> pp_SeqExp f es = pp_SeqExp g es"
  by (simp add: pp_SeqExp_def in_set_butlastD cong: map_cong)

lemma accept_ptr_local: "(\<And>x. m = Some x \<Longrightarrow> f x = g x) \<Longrightarrow> accept_ptr f m = accept_ptr g m"
  by (simp add: accept_ptr_def fun_eq_iff split: option.splits)

lemma decs_get_smaller: "d \<in> set (decs_get e) \<Longrightarrow> size d < size e"
  by (cases e) (auto simp: decs_get_def chunk_view_def dest: size_list_member)

lemma pp_dispatch_local:
  assumes "\<And>c. size c < size e \<Longrightarrow> f c = g c"
  shows "pp_dispatch p f e = pp_dispatch p g e"
proof (cases e)
  case (ChunkList h cs)
  then show ?thesis using assms by (simp add: pp_dispatch_def) (rule pp_ChunkList_local, simp add: size_list_member_less)
next
  case (SeqExp h es)
  then show ?thesis using assms by (simp add: pp_dispatch_def) (rule pp_SeqExp_local, simp add: size_list_member_less)
next
  case (CallExp h n es)
  then have "out_commas f es = out_commas g es" using assms by (intro out_commas_local) (simp add: size_list_member_less)
  then show ?thesis by (simp add: CallExp pp_dispatch_def pp_CallExp_def)
next
  case (MethodCallExp h n es v)
  then have "out_commas f es = out_commas g es"
    using assms by (intro out_commas_local) (force dest: size_list_member)
  then show ?thesis using assms by (simp add: MethodCallExp pp_dispatch_def pp_MethodCallExp_def)
next
  case (RecordExp h t fs)
  then have "out_commas f fs = out_commas g fs"
    using assms by (intro out_commas_local) (force dest: size_list_member)
  then show ?thesis using assms by (simp add: RecordExp pp_dispatch_def pp_RecordExp_def)
next
  case (RecordTy h fs)
  then have "out_commas f fs = out_commas g fs" using assms by (intro out_commas_local) (simp add: size_list_member_less)
  then show ?thesis using assms by (simp add: RecordTy pp_dispatch_def pp_RecordTy_def)
next
  case (FunctionDec h n fs r b)
  then have "out_commas f (decs_get fs) = out_commas g (decs_get fs)"
    using assms by (intro out_commas_local) (auto dest: decs_get_smaller)
  then show ?thesis
    using assms FunctionDec by (simp add: pp_dispatch_def pp_FunctionDec_def split: option.splits)
next
  case (MethodDec h n fs r b)
  then have "accept_ptr f r = accept_ptr g r" "accept_ptr f b = accept_ptr g b"
    using assms by (auto intro!: accept_ptr_local)
  then show ?thesis using assms MethodDec by (simp add: pp_dispatch_def pp_MethodDec_def)
next
  case (ForExp h v hi b)
  have "accept_ptr f i = accept_ptr g i" if "v = VarDec hv n t i" for hv n t i
    using assms ForExp that by (intro accept_ptr_local) simp
  then show ?thesis using assms ForExp by (simp add: pp_dispatch_def pp_ForExp_def split: ast.splits)
next
  case (VarDec h n t i)
  then show ?thesis using assms by (simp add: pp_dispatch_def pp_VarDec_def split: option.splits)
next
  case (FunctionChunk h ds)
  then show ?thesis using assms by (simp add: pp_dispatch_def fun_eq_iff) (intro allI default_visit_cong, simp)
next
  case (TypeChunk h ds)
  then show ?thesis using assms by (simp add: pp_dispatch_def fun_eq_iff) (intro allI default_visit_cong, simp)
next
  case (VarChunk h ds)
  then show ?thesis using assms by (simp add: pp_dispatch_def fun_eq_iff) (intro allI default_visit_cong, simp)
qed (use assms in \<open>simp_all add: pp_dispatch_def pp_defs\<close>)

lemma pp_dispatch_cong [fundef_cong]:
  assumes "p = p'" and "e = e'" and "s = s'" and "\<And>c s. size c < size e' \<Longrightarrow> f c s = g c s"
  shows "pp_dispatch p f e s = pp_dispatch p' g e' s'"
  unfolding assms(1-3) by (rule fun_cong [OF pp_dispatch_local]) (use assms(4) in \<open>auto simp: fun_eq_iff\<close>)

function pp_visit :: "pp_context \<Rightarrow> 'd ostream visit" where
  "pp_visit p e s = pp_dispatch p (pp_visit p) e s"
  by auto
termination by (relation "measure (\<lambda>(p, e, s). size e)") auto

declare pp_visit.simps [simp del]

interpretation pp: traversal "pp_visit p" "pp_dispatch p" for p
  by unfold_locales (rule pp_visit.simps, rule fun_cong [OF pp_dispatch_local], auto simp: fun_eq_iff)

lemma pp_visit_eq: "pp_visit p e = pp_dispatch p (pp_visit p) e"
  by (rule ext) (rule pp_visit.simps)

text \<open>\<open>operator<<\<close> on a tree.\<close>

definition print_ast :: "pp_context \<Rightarrow> ast \<Rightarrow> 'd ostream \<Rightarrow> 'd ostream res" where
  "print_ast p tree ostr = pp_visit p tree ostr"

section \<open>What printing does to the stream\<close>

text \<open>From an indentation of at least \<open>d\<close>, the text is only extended and the indentation changes by \<open>k\<close>.\<close>

definition prints :: "int \<Rightarrow> int \<Rightarrow> ('d ostream \<Rightarrow> 'd ostream res) \<Rightarrow> bool" where
  "prints d k f \<longleftrightarrow> (\<forall>os. width_of os = 0 \<and> d \<le> indent_of os \<longrightarrow>
     (\<exists>t. f os = Inr (os\<lparr>text_of := text_of os @ t, indent_of := indent_of os + k\<rparr>)))"

lemma prints_Inr [intro]: "prints d 0 Inr"
  unfolding prints_def by (auto intro!: exI [of _ "[]"])

lemma prints_out [intro]: "prints d 0 (out s)"
  by (auto simp: prints_def out_def put_str_width0)

lemma prints_out_if [intro]: "prints d 0 (out_if c s)"
  by (auto simp: out_if_def)

lemma prints_out_ptr [intro]: "prints d 0 (out_ptr p s a s')"
  by (auto simp: out_ptr_def)

lemma prints_out_iendl [intro]: "prints d 0 out_iendl"
  unfolding prints_def out_iendl_def iendl_eq by (auto intro!: exI ostream.equality)

lemma prints_out_incindent [intro]: "prints d 2 out_incindent"
  by (auto simp: prints_def out_incindent_def incindent_def intro!: exI [of _ "[]"])

lemma prints_decindent [intro]: "0 < d \<Longrightarrow> prints d (- 2) decindent"
  by (auto simp: prints_def decindent_def intro!: exI [of _ "[]"])

lemma prints_weaken: "prints d k f \<Longrightarrow> d \<le> d' \<Longrightarrow> prints d' k f"
  by (auto simp: prints_def)

lemma prints_Nil: "prints d 0 (stmts [])"
  by (auto simp: stmts_def prints_Inr)

lemma prints_Cons: "prints d k f \<Longrightarrow> prints (d + k) l (stmts fs) \<Longrightarrow> prints d (k + l) (stmts (f # fs))"
  unfolding prints_def stmts_def
proof (intro allI impI, elim conjE)
  fix os :: "'a ostream"
  assume f: "\<forall>os. width_of os = 0 \<and> d \<le> indent_of os \<longrightarrow>
      (\<exists>t. f os = Inr (os\<lparr>text_of := text_of os @ t, indent_of := indent_of os + k\<rparr>))"
    and fs: "\<forall>os. width_of os = 0 \<and> d + k \<le> indent_of os \<longrightarrow>
      (\<exists>t. foldE (\<lambda>f. f) fs os = Inr (os\<lparr>text_of := text_of os @ t, indent_of := indent_of os + l\<rparr>))"
    and os: "width_of os = 0" "d \<le> indent_of os"
  from f os obtain t where t: "f os = Inr (os\<lparr>text_of := text_of os @ t, indent_of := indent_of os + k\<rparr>)" by blast
  let ?os = "os\<lparr>text_of := text_of os @ t, indent_of := indent_of os + k\<rparr>"
  have "width_of ?os = 0" "d + k \<le> indent_of ?os" using os by simp_all
  with fs obtain t' where "foldE (\<lambda>f. f) fs ?os =
      Inr (?os\<lparr>text_of := text_of ?os @ t', indent_of := indent_of ?os + l\<rparr>)" by blast
  then show "\<exists>t. foldE (\<lambda>f. f) (f # fs) os =
      Inr (os\<lparr>text_of := text_of os @ t, indent_of := indent_of os + (k + l)\<rparr>)"
    using t by (auto simp: add.assoc)
qed

lemma foldE_single: "foldE (\<lambda>f. f) [g] = g"
  by (rule ext) simp

text \<open>The changes \<open>ks\<close> of the indentation, statement by statement.\<close>

fun steps_print :: "int \<Rightarrow> int list \<Rightarrow> ('d ostream \<Rightarrow> 'd ostream res) list \<Rightarrow> bool" where
  "steps_print d [] fs \<longleftrightarrow> fs = []"
| "steps_print d (k # ks) fs \<longleftrightarrow> (case fs of [] \<Rightarrow> False | f # fs' \<Rightarrow> prints d k f \<and> steps_print (d + k) ks fs')"

lemma prints_steps: "steps_print d ks fs \<Longrightarrow> k = sum_list ks \<Longrightarrow> prints d k (stmts fs)"
  by (induction d ks fs arbitrary: k rule: steps_print.induct)
    (auto simp: prints_Nil intro: prints_Cons split: list.splits)

lemma foldE_append_fun: "foldE f (xs @ ys) = (\<lambda>s. bindE (foldE f xs s) (foldE f ys))"
  by (rule ext) (rule foldE_append)

lemma foldE_Cons_fun: "foldE f (x # xs) = (\<lambda>s. bindE (f x s) (foldE f xs))"
  by (rule ext) simp

lemma stmts_append3: "stmts (fs @ gs @ hs) = stmts [stmts fs, stmts gs, stmts hs]"
  by (simp add: stmts_def foldE_append_fun foldE_Cons_fun)

lemma prints_map:
  assumes "\<And>x d. x \<in> set xs \<Longrightarrow> 0 \<le> d \<Longrightarrow> prints d (int (k x)) (g x)" and "0 \<le> d"
  shows "prints d (int (sum_list (map k xs))) (stmts (map g xs))"
  using assms
proof (induction xs arbitrary: d)
  case Nil
  then show ?case by (simp add: prints_Nil)
next
  case (Cons x xs)
  have "prints d (int (k x) + int (sum_list (map k xs))) (stmts (g x # map g xs))"
    using Cons by (intro prints_Cons) auto
  then show ?case by simp
qed

section \<open>The indentation leaks\<close>

text \<open>The conditionals that are printed without \<open>else\<close>.\<close>

definition half_if :: "ast \<Rightarrow> nat" where
  "half_if e = (case e of IfExp _ _ _ x \<Rightarrow> (if empty_seq x then 1 else 0) | _ \<Rightarrow> 0)"

function half_ifs :: "ast \<Rightarrow> nat" where
  "half_ifs e = half_if e + sum_list (map half_ifs (accepts e))"
  by auto
termination by (relation "measure size") (auto dest: accepts_size)

declare half_ifs.simps [simp del]

text \<open>Trees without object constructs, whose loops have the initial value that the parser gives them.\<close>

definition printable_node :: "ast \<Rightarrow> bool" where
  "printable_node e \<longleftrightarrow> wf_node e \<and> \<not> is_object_node e \<and>
     (case e of ForExp _ (VarDec _ _ _ init) _ _ \<Rightarrow> init \<noteq> None | _ \<Rightarrow> True)"

definition printable :: "ast \<Rightarrow> bool" where
  "printable e \<longleftrightarrow> list_all printable_node (nodes e)"

lemma printable_accepts: "printable e \<Longrightarrow> c \<in> set (accepts e) \<Longrightarrow> printable c"
  using nodes_closed [of e e c] nodes_sub [of c e] by (auto simp: printable_def list_all_iff)

lemma printable_self: "printable e \<Longrightarrow> printable_node e"
  by (simp add: printable_def list_all_iff)

lemmas prints_simps [simp] = prints_Inr prints_out prints_out_if prints_out_ptr prints_out_iendl prints_out_incindent
  prints_decindent

lemma prints_commas:
  assumes "\<And>c d. c \<in> set es \<Longrightarrow> 0 \<le> d \<Longrightarrow> prints d (int (k c)) (visit c)" and "0 \<le> d"
  shows "prints d (int (sum_list (map k es))) (out_commas visit es)"
proof (cases es)
  case Nil
  then show ?thesis by (simp add: out_commas_def prints_Inr)
next
  case (Cons x xs)
  have "prints d' (int (k c)) (stmts [out '', '', visit c])" if "c \<in> set xs" "0 \<le> d'" for c d'
    by (rule prints_steps [where ks = "[0, int (k c)]"]) (use that Cons assms(1) in simp_all)
  then have "prints d (int (k x) + int (sum_list (map k xs))) (stmts (visit x # map (\<lambda>e. stmts [out '', '', visit e]) xs))"
    using assms Cons by (intro prints_Cons prints_map) auto
  then show ?thesis by (simp add: out_commas_def Cons)
qed

lemma prints_chunks:
  assumes "\<And>c d. c \<in> set es \<Longrightarrow> 0 \<le> d \<Longrightarrow> prints d (int (k c)) (visit c)" and "0 \<le> d"
  shows "prints d (int (sum_list (map k es))) (pp_ChunkList visit es)"
proof (cases es)
  case Nil
  then show ?thesis by (simp add: pp_ChunkList_def prints_Inr)
next
  case (Cons x xs)
  have "prints d' (int (k c)) (stmts [out_iendl, visit c])" if "c \<in> set xs" "0 \<le> d'" for c d'
    by (rule prints_steps [where ks = "[0, int (k c)]"]) (use that Cons assms(1) in simp_all)
  then have "prints d (int (k x) + int (sum_list (map k xs))) (stmts (visit x # map (\<lambda>e. stmts [out_iendl, visit e]) xs))"
    using assms Cons by (intro prints_Cons prints_map) auto
  then show ?thesis by (simp add: pp_ChunkList_def Cons)
qed

lemma prints_seq:
  assumes "\<And>c d. c \<in> set es \<Longrightarrow> 0 \<le> d \<Longrightarrow> prints d (int (k c)) (visit c)" and "0 \<le> d"
  shows "prints d (int (sum_list (map k es))) (pp_SeqExp visit es)"
proof (cases "es = []")
  case True
  then show ?thesis by (simp add: pp_SeqExp_def prints_out)
next
  case False
  have item: "prints d' (int (k c)) (stmts [out_iendl, visit c, out '';''])" if "c \<in> set (butlast es)" "0 \<le> d'" for c d'
    by (rule prints_steps [where ks = "[0, int (k c), 0]"]) (use that assms(1) in_set_butlastD in fastforce)+
  have items: "prints d' (int (sum_list (map k (butlast es))))
      (stmts (map (\<lambda>e. stmts [out_iendl, visit e, out '';'']) (butlast es)))" if "0 \<le> d'" for d'
    by (rule prints_map) (use item that in auto)
  have "prints d (int (sum_list (map k (butlast es))) + int (k (List.last es))) (stmts
      [stmts [out ''('', out_incindent], stmts (map (\<lambda>e. stmts [out_iendl, visit e, out '';'']) (butlast es)),
       stmts [out_iendl, visit (List.last es), decindent, out_iendl, out '')'']])"
  proof (rule prints_steps [where ks = "[2, int (sum_list (map k (butlast es))), int (k (List.last es)) - 2]"])
    have "prints d' 2 (stmts [out ''('', out_incindent])" for d'
      by (rule prints_steps [where ks = "[0, 2]"]) simp_all
    moreover have "prints d' (int (k (List.last es)) - 2) (stmts [out_iendl, visit (List.last es), decindent, out_iendl, out '')''])"
      if "2 \<le> d'" for d'
      by (rule prints_steps [where ks = "[0, int (k (List.last es)), - 2, 0, 0]"]) (use False that assms(1) in simp_all)
    ultimately show "steps_print d [2, int (sum_list (map k (butlast es))), int (k (List.last es)) - 2]
      [stmts [out ''('', out_incindent], stmts (map (\<lambda>e. stmts [out_iendl, visit e, out '';'']) (butlast es)),
       stmts [out_iendl, visit (List.last es), decindent, out_iendl, out '')'']]"
      using items assms(2) by simp
  qed simp
  moreover have "stmts ([out ''('', out_incindent] @ map (\<lambda>e. stmts [out_iendl, visit e, out '';'']) (butlast es) @
      [out_iendl, visit (List.last es), decindent, out_iendl, out '')'']) = stmts
      [stmts [out ''('', out_incindent], stmts (map (\<lambda>e. stmts [out_iendl, visit e, out '';'']) (butlast es)),
       stmts [out_iendl, visit (List.last es), decindent, out_iendl, out '')'']]"
    by (rule stmts_append3)
  ultimately have "prints d (int (sum_list (map k (butlast es))) + int (k (List.last es))) (pp_SeqExp visit es)"
    using False by (simp add: pp_SeqExp_def)
  moreover have "sum_list (map k es) = sum_list (map k (butlast es)) + k (List.last es)"
    using arg_cong [OF append_butlast_last_id [OF False], of "\<lambda>es. sum_list (map k es)"] by simp
  ultimately show ?thesis by simp
qed

lemma stmts_map: "stmts (map g xs) = foldE g xs"
  by (induction xs) (simp_all add: stmts_def foldE_Cons_fun)

lemma default_visit_fun: "default_visit visit e = foldE visit (accepts e)"
  by (simp add: default_visit_def fun_eq_iff)

lemma prints_loop:
  "(\<And>c d. c \<in> set es \<Longrightarrow> 0 \<le> d \<Longrightarrow> prints d (int (k c)) (visit c)) \<Longrightarrow> 0 \<le> d \<Longrightarrow>
    prints d (int (sum_list (map k es))) (foldE visit es)"
  unfolding stmts_map [symmetric] by (rule prints_map)

lemma accept_ptr_Some: "accept_ptr visit (Some x) = visit x"
  by (simp add: accept_ptr_def fun_eq_iff)

lemma decs_get_VarChunk: "is_VarChunk f \<Longrightarrow> decs_get f = accepts f \<and> half_if f = 0"
  by (cases f) (simp_all add: is_VarChunk_def decs_get_def chunk_view_def accepts_defs half_if_def)

lemma half_ifs_NameTy: "is_NameTy t \<Longrightarrow> half_ifs t = 0"
  by (subst half_ifs.simps) (cases t; simp add: is_NameTy_def half_if_def accepts_defs)

lemma visit_prints:
  fixes V :: "'d ostream visit"
  assumes V: "\<And>e. V e = pp_dispatch p V e"
  shows "printable e \<Longrightarrow> 0 \<le> d \<Longrightarrow> prints d (2 * int (half_ifs e)) (V e)"
proof (induction e arbitrary: d rule: measure_induct_rule [of size])
  case (less e)
  have visit [simp]: "prints d (2 * int (half_ifs c)) (V c)" if "c \<in> set (accepts e)" "0 \<le> d" for c d
    using less.IH [of c d] that accepts_size printable_accepts [OF less.prems(1)] by blast
  have visit2: "prints d (int (2 * half_ifs c)) (V c)" if "c \<in> set (accepts e)" "0 \<le> d" for c d
    using visit [OF that] by simp
  have sum: "2 * int (sum_list (map half_ifs cs)) = int (sum_list (map (\<lambda>c. 2 * half_ifs c) cs))" for cs
    by (induction cs) simp_all
  note node = printable_self [OF less.prems(1), unfolded printable_node_def]
  have plain: "\<not> is_object_node e" using node by simp
  have d: "0 \<le> d" by (rule less.prems)
  show ?case unfolding V [of e]
  proof (cases e)
    case (SimpleVar h n)
    show "prints d (2 * int (half_ifs e)) (pp_dispatch p V e)"
      unfolding SimpleVar pp_dispatch_def ast.case pp_SimpleVar_def
      by (rule prints_steps [where ks = "[0, 0]"]) (use d SimpleVar visit in \<open>simp_all add: half_ifs.simps [of e, unfolded SimpleVar] half_if_def accepts_defs\<close>)
  next
    case (FieldVar h v n)
    show "prints d (2 * int (half_ifs e)) (pp_dispatch p V e)"
      unfolding FieldVar pp_dispatch_def ast.case pp_FieldVar_def
      by (rule prints_steps [where ks = "[0, 0, 2 * int (half_ifs v)]"]) (use d FieldVar visit in \<open>simp_all add: half_ifs.simps [of e, unfolded FieldVar] half_if_def accepts_defs\<close>)
  next
    case (SubscriptVar h v i)
    show "prints d (2 * int (half_ifs e)) (pp_dispatch p V e)"
      unfolding SubscriptVar pp_dispatch_def ast.case pp_SubscriptVar_def
      by (rule prints_steps [where ks = "[2 * int (half_ifs v), 0, 0, 2, 2 * int (half_ifs i), - 2, 0, 0]"]) (use d SubscriptVar visit in \<open>simp_all add: half_ifs.simps [of e, unfolded SubscriptVar] half_if_def accepts_defs\<close>)
  next
    case (CastExp h x t)
    show "prints d (2 * int (half_ifs e)) (pp_dispatch p V e)"
      unfolding CastExp pp_dispatch_def ast.case pp_CastExp_def
      by (rule prints_steps [where ks = "[0, 2 * int (half_ifs x), 0, 2 * int (half_ifs t), 0]"]) (use d CastExp visit in \<open>simp_all add: half_ifs.simps [of e, unfolded CastExp] half_if_def accepts_defs\<close>)
  next
    case (ArrayExp h t z i)
    show "prints d (2 * int (half_ifs e)) (pp_dispatch p V e)"
      unfolding ArrayExp pp_dispatch_def ast.case pp_ArrayExp_def
      by (rule prints_steps [where ks = "[2 * int (half_ifs t), 0, 2 * int (half_ifs z), 0, 2 * int (half_ifs i)]"]) (use d ArrayExp visit in \<open>simp_all add: half_ifs.simps [of e, unfolded ArrayExp] half_if_def accepts_defs\<close>)
  next
    case (ArrayTy h b)
    show "prints d (2 * int (half_ifs e)) (pp_dispatch p V e)"
      unfolding ArrayTy pp_dispatch_def ast.case pp_ArrayTy_def
      by (rule prints_steps [where ks = "[0, 2 * int (half_ifs b), 0]"]) (use d ArrayTy visit in \<open>simp_all add: half_ifs.simps [of e, unfolded ArrayTy] half_if_def accepts_defs\<close>)
  next
    case (AssignExp h v x)
    show "prints d (2 * int (half_ifs e)) (pp_dispatch p V e)"
      unfolding AssignExp pp_dispatch_def ast.case pp_AssignExp_def
      by (rule prints_steps [where ks = "[2 * int (half_ifs v), 0, 2 * int (half_ifs x)]"]) (use d AssignExp visit in \<open>simp_all add: half_ifs.simps [of e, unfolded AssignExp] half_if_def accepts_defs\<close>)
  next
    case (BreakExp h)
    show "prints d (2 * int (half_ifs e)) (pp_dispatch p V e)"
      unfolding BreakExp pp_dispatch_def ast.case pp_BreakExp_def
      by (rule prints_steps [where ks = "[0, 0]"]) (use d BreakExp visit in \<open>simp_all add: half_ifs.simps [of e, unfolded BreakExp] half_if_def accepts_defs\<close>)
  next
    case (Field_node h n t)
    show "prints d (2 * int (half_ifs e)) (pp_dispatch p V e)"
      unfolding Field_node pp_dispatch_def ast.case pp_Field_def
      by (rule prints_steps [where ks = "[0, 0, 2 * int (half_ifs t)]"]) (use d Field_node visit in \<open>simp_all add: half_ifs.simps [of e, unfolded Field_node] half_if_def accepts_defs\<close>)
  next
    case (FieldInit h n i)
    show "prints d (2 * int (half_ifs e)) (pp_dispatch p V e)"
      unfolding FieldInit pp_dispatch_def ast.case pp_FieldInit_def
      by (rule prints_steps [where ks = "[0, 0, 2 * int (half_ifs i)]"]) (use d FieldInit visit in \<open>simp_all add: half_ifs.simps [of e, unfolded FieldInit] half_if_def accepts_defs\<close>)
  next
    case (LetExp h c b)
    show "prints d (2 * int (half_ifs e)) (pp_dispatch p V e)"
      unfolding LetExp pp_dispatch_def ast.case pp_LetExp_def
      by (rule prints_steps [where ks = "[0, 2, 0, 2 * int (half_ifs c), - 2, 0, 0, 2, 0, 2 * int (half_ifs b), - 2, 0, 0]"]) (use d LetExp visit in \<open>simp_all add: half_ifs.simps [of e, unfolded LetExp] half_if_def accepts_defs\<close>)
  next
    case (NameTy h n)
    show "prints d (2 * int (half_ifs e)) (pp_dispatch p V e)"
      unfolding NameTy pp_dispatch_def ast.case pp_NameTy_def
      by (rule prints_steps [where ks = "[0, 0]"]) (use d NameTy visit in \<open>simp_all add: half_ifs.simps [of e, unfolded NameTy] half_if_def accepts_defs\<close>)
  next
    case (OpExp h x q y)
    show "prints d (2 * int (half_ifs e)) (pp_dispatch p V e)"
      unfolding OpExp pp_dispatch_def ast.case pp_OpExp_def
      by (rule prints_steps [where ks = "[2 * int (half_ifs x), 0, 2 * int (half_ifs y)]"]) (use d OpExp visit in \<open>simp_all add: half_ifs.simps [of e, unfolded OpExp] half_if_def accepts_defs\<close>)
  next
    case (StringExp h t)
    show "prints d (2 * int (half_ifs e)) (pp_dispatch p V e)"
      unfolding StringExp pp_dispatch_def ast.case pp_StringExp_def
      by (rule prints_steps [where ks = "[0, 0, 0]"]) (use d StringExp visit in \<open>simp_all add: half_ifs.simps [of e, unfolded StringExp] half_if_def accepts_defs\<close>)
  next
    case (TypeDec h n t)
    show "prints d (2 * int (half_ifs e)) (pp_dispatch p V e)"
      unfolding TypeDec pp_dispatch_def ast.case pp_TypeDec_def
      by (rule prints_steps [where ks = "[0, 0, 0, 0, 2 * int (half_ifs t), 0]"]) (use d TypeDec visit in \<open>simp_all add: half_ifs.simps [of e, unfolded TypeDec] half_if_def accepts_defs\<close>)
  next
    case (WhileExp h c b)
    show "prints d (2 * int (half_ifs e)) (pp_dispatch p V e)"
      unfolding WhileExp pp_dispatch_def ast.case pp_WhileExp_def
      by (rule prints_steps [where ks = "[0, 0, 2 * int (half_ifs c), 0, 2, 0, 2 * int (half_ifs b), - 2]"]) (use d WhileExp visit in \<open>simp_all add: half_ifs.simps [of e, unfolded WhileExp] half_if_def accepts_defs\<close>)
  next
    case (IntExp h i)
    then show "prints d (2 * int (half_ifs e)) (pp_dispatch p V e)" by (simp add: pp_dispatch_def pp_IntExp_def half_ifs.simps [of e, unfolded IntExp] half_if_def accepts_defs)
  next
    case (NilExp h)
    then show "prints d (2 * int (half_ifs e)) (pp_dispatch p V e)" by (simp add: pp_dispatch_def pp_NilExp_def half_ifs.simps [of e, unfolded NilExp] half_if_def accepts_defs)
  next
    case (SeqExp h es)
    then show "prints d (2 * int (half_ifs e)) (pp_dispatch p V e)"
      using prints_seq [of es "\<lambda>c. 2 * half_ifs c" V d] visit2 d by (simp add: pp_dispatch_def half_ifs.simps [of e, unfolded SeqExp] half_if_def accepts_defs flip: sum)
  next
    case (ChunkList h cs)
    then show "prints d (2 * int (half_ifs e)) (pp_dispatch p V e)"
      using prints_chunks [of cs "\<lambda>c. 2 * half_ifs c" V d] visit2 d by (simp add: pp_dispatch_def half_ifs.simps [of e, unfolded ChunkList] half_if_def accepts_defs flip: sum)
  next
    case (IfExp h c t f)
    show "prints d (2 * int (half_ifs e)) (pp_dispatch p V e)"
    proof (cases "empty_seq f")
      case True
      then have "half_ifs f = 0" by (subst half_ifs.simps) (cases f; simp add: empty_seq_def half_if_def accepts_defs)
      then show ?thesis unfolding IfExp pp_dispatch_def ast.case pp_IfExp_def if_P [OF True]
        by (intro prints_steps [where ks = "[0, 2 * int (half_ifs c), 0, 2, 0, 2 * int (half_ifs t)]"])
          (use d IfExp True visit in \<open>simp_all add: half_ifs.simps [of e, unfolded IfExp] half_if_def accepts_defs\<close>)
    next
      case False
      then show ?thesis unfolding IfExp pp_dispatch_def ast.case pp_IfExp_def if_not_P [OF False]
        by (intro prints_steps [where ks = "[0, 2 * int (half_ifs c), 0, 2, 0, 2 * int (half_ifs t), - 2, 0, 0, 2, 0,
            2 * int (half_ifs f), - 2]"]) (use d IfExp False visit in \<open>simp_all add: half_ifs.simps [of e, unfolded IfExp] half_if_def accepts_defs\<close>)
    qed
  next
    case (CallExp h n es)
    have "prints d' (int (sum_list (map (\<lambda>c. 2 * half_ifs c) es))) (stmts [out ''('', out_commas V es, out '')''])"
      if "0 \<le> d'" for d'
      by (rule prints_steps [where ks = "[0, int (sum_list (map (\<lambda>c. 2 * half_ifs c) es)), 0]"])
        (use that prints_commas [of es "\<lambda>c. 2 * half_ifs c" V] visit2 CallExp in \<open>simp_all add: accepts_defs\<close>)
    then show "prints d (2 * int (half_ifs e)) (pp_dispatch p V e)"
      unfolding CallExp pp_dispatch_def ast.case pp_CallExp_def
      by (intro prints_steps [where ks = "[0, 0, int (sum_list (map (\<lambda>c. 2 * half_ifs c) es))]"])
        (use d CallExp in \<open>auto simp: half_ifs.simps [of e, unfolded CallExp] half_if_def accepts_defs sum\<close>)
  next
    case (RecordExp h t fs)
    have "prints d' (int (sum_list (map (\<lambda>c. 2 * half_ifs c) fs))) (out_commas V fs)" if "0 \<le> d'" for d'
      using prints_commas [of fs "\<lambda>c. 2 * half_ifs c" V, OF _ that] visit2 RecordExp by (simp add: accepts_defs)
    then show "prints d (2 * int (half_ifs e)) (pp_dispatch p V e)"
      unfolding RecordExp pp_dispatch_def ast.case pp_RecordExp_def
      by (intro prints_steps [where ks = "[2 * int (half_ifs t), 0] @
            (if fs = [] then [0] else [int (sum_list (map (\<lambda>c. 2 * half_ifs c) fs)), 0])"])
        (use d RecordExp visit in \<open>auto simp: half_ifs.simps [of e, unfolded RecordExp] half_if_def accepts_defs sum\<close>)
  next
    case (RecordTy h fs)
    have "prints d' (int (sum_list (map (\<lambda>c. 2 * half_ifs c) fs))) (out_commas V fs)" if "0 \<le> d'" for d'
      using prints_commas [of fs "\<lambda>c. 2 * half_ifs c" V, OF _ that] visit2 RecordTy by (simp add: accepts_defs)
    then show "prints d (2 * int (half_ifs e)) (pp_dispatch p V e)"
      unfolding RecordTy pp_dispatch_def ast.case pp_RecordTy_def
      by (intro prints_steps [where ks = "0 # (if fs = [] then [0] else [int (sum_list (map (\<lambda>c. 2 * half_ifs c) fs)), 0, 0])"])
        (use d RecordTy visit in \<open>auto simp: half_ifs.simps [of e, unfolded RecordTy] half_if_def accepts_defs sum\<close>)
  next
    case (FunctionChunk h ds)
    then show "prints d (2 * int (half_ifs e)) (pp_dispatch p V e)"
      using prints_loop [where es = ds and d = d and k = "\<lambda>c. 2 * half_ifs c" and visit = V] visit2 d
      by (simp add: pp_dispatch_def default_visit_fun half_ifs.simps [of e, unfolded FunctionChunk] half_if_def accepts_defs flip: sum)
  next
    case (TypeChunk h ds)
    then show "prints d (2 * int (half_ifs e)) (pp_dispatch p V e)"
      using prints_loop [where es = ds and d = d and k = "\<lambda>c. 2 * half_ifs c" and visit = V] visit2 d
      by (simp add: pp_dispatch_def default_visit_fun half_ifs.simps [of e, unfolded TypeChunk] half_if_def accepts_defs flip: sum)
  next
    case (VarChunk h ds)
    then show "prints d (2 * int (half_ifs e)) (pp_dispatch p V e)"
      using prints_loop [where es = ds and d = d and k = "\<lambda>c. 2 * half_ifs c" and visit = V] visit2 d
      by (simp add: pp_dispatch_def default_visit_fun half_ifs.simps [of e, unfolded VarChunk] half_if_def accepts_defs flip: sum)
  next
    case (VarDec h n t i)
    show "prints d (2 * int (half_ifs e)) (pp_dispatch p V e)"
      unfolding VarDec pp_dispatch_def ast.case pp_VarDec_def
      by (rule prints_steps [where ks = "(case i of None \<Rightarrow> [] | Some x \<Rightarrow> [0]) @ [0, 0, 0] @
            (case t of None \<Rightarrow> [] | Some x \<Rightarrow> [0, 2 * int (half_ifs x)]) @
            (case i of None \<Rightarrow> [] | Some x \<Rightarrow> [0, 2 * int (half_ifs x)])"])
        (use d VarDec visit in \<open>auto simp: half_ifs.simps [of e, unfolded VarDec] half_if_def accepts_defs opt_list_def split: option.splits\<close>)
  next
    case (ForExp h v hi b)
    then obtain hv n t i where v: "v = VarDec hv n t (Some i)"
      using node by (cases v) (auto simp: wf_node_def is_VarDec_def)
    have vp: "printable v" using printable_accepts [OF less.prems(1), of v] ForExp by (simp add: accepts_defs)
    have "size i < size e" "printable i" using ForExp v printable_accepts [OF vp, of i] by (simp_all add: accepts_defs)
    then have i: "0 \<le> d' \<Longrightarrow> prints d' (2 * int (half_ifs i)) (V i)" for d' using less.IH by blast
    have "\<And>x. t = Some x \<Longrightarrow> half_ifs x = 0"
      using printable_self [OF vp] half_ifs_NameTy by (auto simp: v printable_node_def wf_node_def opt_all_def)
    then have hv: "half_ifs v = half_ifs i"
      unfolding v by (subst half_ifs.simps) (auto simp: half_if_def accepts_defs opt_list_def split: option.split)
    show "prints d (2 * int (half_ifs e)) (pp_dispatch p V e)"
      unfolding ForExp v pp_dispatch_def ast.case pp_ForExp_def
      by (rule prints_steps [where ks = "[0, 0, 0, 0, 0, 2 * int (half_ifs i), 0, 2 * int (half_ifs hi), 0, 2, 0,
            2 * int (half_ifs b), - 2]"])
        (use d ForExp v visit i hv in \<open>simp_all add: half_ifs.simps [of e, unfolded ForExp v] half_if_def accepts_defs accept_ptr_Some\<close>)
  next
    case (FunctionDec h n fs r b)
    let ?ds = "decs_get fs"
    have vc: "?ds = accepts fs" "half_if fs = 0"
      using node FunctionDec decs_get_VarChunk by (auto simp: wf_node_def)
    then have fs: "half_ifs fs = sum_list (map half_ifs ?ds)" by (simp add: half_ifs.simps [of fs])
    have fp: "printable fs" "size fs < size e" using printable_accepts [OF less.prems(1), of fs] FunctionDec by (simp_all add: accepts_defs)
    have dec: "prints d' (int (2 * half_ifs c)) (V c)" if "c \<in> set ?ds" "0 \<le> d'" for c d'
    proof -
      have "size c < size e" using decs_get_smaller [OF that(1)] fp(2) by simp
      then show ?thesis using less.IH [of c d'] printable_accepts [OF fp(1), of c] that vc(1) by simp
    qed
    have commas: "prints d' (int (sum_list (map (\<lambda>c. 2 * half_ifs c) ?ds))) (out_commas V ?ds)" if "0 \<le> d'" for d'
      by (rule prints_commas) (use dec that in auto)
    show "prints d (2 * int (half_ifs e)) (pp_dispatch p V e)"
      unfolding FunctionDec pp_dispatch_def ast.case pp_FunctionDec_def
      by (rule prints_steps [where ks = "[0, 0, 0, 0, int (sum_list (map (\<lambda>c. 2 * half_ifs c) ?ds)), 0] @
            (case r of None \<Rightarrow> [] | Some x \<Rightarrow> [0, 2 * int (half_ifs x)]) @
            (case b of None \<Rightarrow> [2, 0] | Some x \<Rightarrow> [0, 2, 0, 2 * int (half_ifs x), 0]) @ [- 2]"])
        (use d FunctionDec visit commas fs in \<open>auto simp: half_ifs.simps [of e, unfolded FunctionDec] half_if_def accepts_defs sum opt_list_def split: option.splits\<close>)
  qed (use plain in \<open>simp_all add: is_object_node_def\<close>)
qed

section \<open>Properties\<close>

text \<open>C32: printing a tree without object constructs ends without any assertion failing; it only appends to the text, and
  leaves the indentation two columns deeper for each conditional without an \<open>else\<close> in the tree.\<close>

theorem print_ast_indent:
  assumes "printable e" and "width_of (os :: 'd ostream) = 0" and "0 \<le> indent_of os"
  shows "\<exists>t. print_ast p e os =
    Inr (os\<lparr>text_of := text_of os @ t, indent_of := indent_of os + 2 * int (half_ifs e)\<rparr>)"
proof -
  have "prints 0 (2 * int (half_ifs e)) (pp_visit p e :: 'd ostream \<Rightarrow> 'd ostream res)"
    by (rule visit_prints [OF pp_visit_eq assms(1) order_refl])
  then show ?thesis using assms(2,3) by (simp add: prints_def print_ast_def)
qed

text \<open>\<open>(if 1 then nil; nil)\<close>\<close>

definition half_if_example :: ast where
  "half_if_example = SeqExp (header_at 1) [IfExp (header_at 2) (IntExp (header_at 3) 1) (NilExp (header_at 4)) (SeqExp (header_at 5) []), NilExp (header_at 6)]"

definition plain_context :: pp_context where
  "plain_context = \<lparr>bindings_display = False, escapes_display = False, def_of = \<lambda>_. None, escape_of = \<lambda>_. False,
     show_ptr = \<lambda>_. ''0''\<rparr>"

theorem print_ast_indent_witness:
  "\<exists>t. print_ast plain_context half_if_example (ostream_new :: unit ostream) =
     Inr (ostream_new\<lparr>text_of := t, indent_of := 2\<rparr>)"
proof -
  have "printable half_if_example" "half_ifs half_if_example = 1" by code_simp+
  then show ?thesis
    using print_ast_indent [of half_if_example "ostream_new :: unit ostream" plain_context] by (simp add: ostream_new_def)
qed

text \<open>An operation prints the same text whichever way its operands are grouped: there are no parentheses, and the
  text of \<open>a - (b - c)\<close> is that of \<open>(a - b) - c\<close>.\<close>

theorem print_forgets_grouping:
  "print_ast p (OpExp h a q (OpExp i b r c)) os = print_ast p (OpExp j (OpExp k a q b) r c) os"
proof -
  have op: "pp_visit p (OpExp h x q y) s =
      bindE (pp_visit p x s) (\<lambda>s1. bindE (out (oper_text q) s1) (pp_visit p y))" for h x q y s
    by (subst pp_visit.simps) (simp add: pp_dispatch_def pp_OpExp_def stmts_def foldE_Cons_fun)
  have visit: "pp_visit p (OpExp h x q y) =
      (\<lambda>s. bindE (pp_visit p x s) (\<lambda>s1. bindE (out (oper_text q) s1) (pp_visit p y)))" for h x q y
    by (rule ext) (rule op)
  show ?thesis by (simp add: print_ast_def visit bindE_assoc)
qed

text \<open>What other nodes print: a field access backwards, and a string as it is.\<close>

lemma print_field_var:
  "print_ast p (FieldVar h (SimpleVar i v) f) os =
     bindE (out f os) (\<lambda>os. bindE (out ''.'' os) (pp_visit p (SimpleVar i v)))"
  unfolding print_ast_def by (subst pp_visit.simps) (simp add: pp_dispatch_def pp_FieldVar_def stmts_def foldE_Cons_fun)

lemma print_string_exp:
  "width_of os = 0 \<Longrightarrow> print_ast p (StringExp h s) os =
     Inr (os\<lparr>text_of := text_of os @ [CHR 0x22] @ s @ [CHR 0x22]\<rparr>)"
  unfolding print_ast_def
  by (subst pp_visit.simps) (simp add: pp_dispatch_def pp_StringExp_def stmts_def out_def put_str_width0)

end
