(* ===== verification/Dumper_Dot.thy ===== *)
theory Dumper_Dot
  imports Pretty_Printer
begin

text \<open>
  \<^verbatim>\<open>src/src/ast/dumper-dot.*\<close>: the tree in the language of dot.  The state of the visitor is the record of its members,
  the stream among them.  Two fields are added to it, that the text does not depend on: \<open>declared\<close>, the ports that the
  tables of the nodes have, and \<open>linked\<close>, the ports from which the edges leave, both with the number of the node.
  What the nodes hold (\<open>def_\<close>, \<open>type_\<close>), the numbers of the pointers and their text are arguments.
\<close>

section \<open>The state, and the output\<close>

text \<open>The numbers of the nodes: \<open>unsigned long\<close>.\<close>

type_synonym node_id = "64 word"

record 'd dumper =
  ostr :: "'d ostream"
  parent_id :: node_id
  inner_fields :: node_id
  parent_field :: "string option"
  declared :: "(node_id \<times> string) list"
  linked :: "(node_id \<times> string) list"

record dd_context =
  dd_def :: "addr \<Rightarrow> addr option"
  dd_type :: "addr \<Rightarrow> addr option"
  dd_number :: "addr \<Rightarrow> node_id"
  dd_text :: "addr \<Rightarrow> string"

type_synonym 'd dd = "'d dumper \<Rightarrow> 'd dumper res"

definition dumper_new :: "'d ostream \<Rightarrow> 'd dumper" where
  "dumper_new os =
     \<lparr>ostr = os, parent_id = - 1, inner_fields = 0, parent_field = None, declared = [], linked = []\<rparr>"

definition dd_os :: "('d ostream \<Rightarrow> 'd ostream res) \<Rightarrow> 'd dd" where
  "dd_os f s = bindE (f (ostr s)) (\<lambda>os. Inr (s\<lparr>ostr := os\<rparr>))"

definition dd_out :: "string \<Rightarrow> 'd dd" where
  "dd_out t = dd_os (out t)"

definition dd_number_out :: "node_id \<Rightarrow> 'd dd" where
  "dd_number_out n = dd_os (\<lambda>os. Inr (put_nat (unat n) os))"

definition dd_iendl :: "'d dd" where
  "dd_iendl = dd_os (\<lambda>os. Inr (iendl os))"

definition dd_incendl :: "'d dd" where
  "dd_incendl = dd_os (\<lambda>os. Inr (incendl os))"

definition dd_decendl :: "'d dd" where
  "dd_decendl = dd_os decendl"

definition dd_incindent :: "'d dd" where
  "dd_incindent = dd_os out_incindent"

definition dd_set_parent :: "node_id \<Rightarrow> 'd dd" where
  "dd_set_parent n s = Inr (s\<lparr>parent_id := n\<rparr>)"

definition dd_set_field :: "string option \<Rightarrow> 'd dd" where
  "dd_set_field f s = Inr (s\<lparr>parent_field := f\<rparr>)"

definition dd_reset_inner :: "'d dd" where
  "dd_reset_inner s = Inr (s\<lparr>inner_fields := 0\<rparr>)"

definition dd_declare :: "string \<Rightarrow> 'd dd" where
  "dd_declare p s = Inr (s\<lparr>declared := declared s @ [(parent_id s, p)]\<rparr>)"

definition dd_link :: "node_id \<Rightarrow> string \<Rightarrow> 'd dd" where
  "dd_link n p s = Inr (s\<lparr>linked := linked s @ [(n, p)]\<rparr>)"

text \<open>The quotes.\<close>

definition sq :: string where "sq = [CHR 0x27]"
definition dq :: string where "dq = [CHR 0x22]"

section \<open>The tables of the nodes: \<open>dumper-dot.hxx\<close>\<close>

definition node_html_begin_inner :: "bool \<Rightarrow> 'd dd" where
  "node_html_begin_inner l =
     stmts [dd_out (''<td cellpadding='' @ sq @ ''0'' @ sq @ ''>''), dd_incendl,
       dd_out (''<table border='' @ sq @ ''0'' @ sq @ '' cellborder='' @ sq),
       dd_out (if l then ''0'' else ''1''), dd_out sq,
       dd_out ('' cellspacing='' @ sq @ ''0'' @ sq @ '' cellpadding='' @ sq),
       dd_out (if l then ''0'' else ''2''), dd_out (sq @ ''>''), dd_incendl, dd_out ''<tr>'', dd_incendl]"

definition node_html_end_inner :: "'d dd" where
  "node_html_end_inner = stmts [dd_decendl, dd_out ''</tr>'', dd_decendl, dd_out ''</table>'', dd_decendl, dd_out ''</td>'']"

definition node_html_separator :: "'d dd" where
  "node_html_separator =
     stmts [node_html_end_inner, dd_decendl, dd_out ''</tr>'', dd_iendl, dd_out ''<tr>'', dd_incendl,
       node_html_begin_inner False]"

definition node_html_tr :: "string \<Rightarrow> string \<Rightarrow> 'd dd" where
  "node_html_tr port content =
     stmts [dd_declare port, dd_out (''<td port='' @ sq), dd_out port, dd_out (sq @ ''>''), dd_out content, dd_out ''</td>'']"

definition ends_with :: "string \<Rightarrow> string \<Rightarrow> bool" where
  "ends_with val ending \<longleftrightarrow>
     (if length ending > length val then False else rev ending = take (length ending) (rev val))"

definition node_html_color :: "string \<Rightarrow> string" where
  "node_html_color type =
     (if ends_with type ''Dec'' then ''red1''
      else if ends_with type ''Var'' then ''orange1''
      else if ends_with type ''Ty'' then ''green3''
      else if ends_with type ''Exp'' then ''blue2''
      else ''black'')"

definition html_escape :: "string \<Rightarrow> string" where
  "html_escape input = concat (map (\<lambda>p.
     if p = CHR 0x5C then [CHR 0x5C, CHR 0x5C]
     else if p \<in> set ''&<>'' then ''&#'' @ dec_nat (of_char p) @ '';''
     else [p]) input)"

text \<open>The table up to the fields, and the header.\<close>

definition dd_table_head :: "node_id \<Rightarrow> string \<Rightarrow> 'd dd list" where
  "dd_table_head n type =
     [dd_number_out n, dd_out '' [label=<'', dd_incendl,
       dd_out (''<table border='' @ sq @ ''0'' @ sq @ '' cellborder='' @ sq @ ''0'' @ sq @ '' cellspacing='' @ sq @ ''0'' @ sq @
         '' cellpadding='' @ sq @ ''0'' @ sq),
       dd_out ('' color='' @ sq), dd_out (node_html_color type), dd_out (sq @ ''>''), dd_incendl, dd_out ''<tr>'', dd_incendl,
       node_html_begin_inner False, node_html_tr ''nodename'' type, node_html_separator, dd_reset_inner]"

definition node_html_header :: "dd_context \<Rightarrow> header \<Rightarrow> string \<Rightarrow> 'd dd" where
  "node_html_header P h type =
     stmts (dd_set_parent (dd_number P (adr h)) # dd_table_head (dd_number P (adr h)) type)"

text \<open>\<open>if (inner_fields++) ostr_ << misc::iendl\<close>.\<close>

definition dd_next_field :: "'d dd" where
  "dd_next_field s =
     (if inner_fields s \<noteq> 0 then dd_iendl else Inr) (s\<lparr>inner_fields := inner_fields s + 1\<rparr>)"

definition node_html_field :: "string \<Rightarrow> string \<Rightarrow> string \<Rightarrow> 'd dd" where
  "node_html_field name content sep =
     stmts [dd_next_field, node_html_tr name (name @ '':&nbsp;'' @ sep @ html_escape content @ sep)]"

definition node_html_one_port :: "string \<Rightarrow> 'd dd" where
  "node_html_one_port p = stmts [dd_next_field, node_html_tr p p]"

definition node_html_ports :: "string list \<Rightarrow> 'd dd" where
  "node_html_ports ports =
     stmts ([\<lambda>s. (if inner_fields s \<noteq> 0 then node_html_separator else Inr) s, dd_reset_inner] @ map node_html_one_port ports)"

definition dd_port_cell :: "string \<Rightarrow> nat \<Rightarrow> 'd dd" where
  "dd_port_cell ref n =
     stmts [dd_declare (ref @ dec_nat n), dd_iendl, dd_out (''<td port='' @ sq), dd_out ref, dd_out (dec_nat n),
       dd_out (sq @ ''>''), dd_out (dec_nat n), dd_out ''</td>'']"

text \<open>The second row, when there are several elements.\<close>

definition dd_port_cells :: "string \<Rightarrow> nat \<Rightarrow> 'd dd" where
  "dd_port_cells ref n =
     stmts ([dd_decendl, dd_out ''</tr>'', dd_iendl, dd_out ''<tr>'', dd_incindent] @ map (dd_port_cell ref) [0..<n])"

definition node_html_port_list :: "string \<Rightarrow> ast list \<Rightarrow> bool \<Rightarrow> 'd dd" where
  "node_html_port_list name l chunk =
     (let ref = if chunk then ''nodename'' else name; n = length l in
      stmts [dd_next_field, node_html_begin_inner True, dd_declare ref, dd_out (''<td port='' @ sq), dd_out ref,
        dd_out (sq @ '' colspan='' @ sq), dd_out (dec_nat (if n \<noteq> 0 then n else 1)), dd_out (sq @ ''>''), dd_out name,
        dd_out ''</td>'', if n > 1 then dd_port_cells ref n else Inr, node_html_end_inner])"

definition node_html_footer :: "'d dd" where
  "node_html_footer =
     stmts [\<lambda>s. (if inner_fields s = 0 then dd_out ''<td></td>'' else Inr) s, node_html_end_inner, dd_decendl, dd_out ''</tr>'',
       dd_decendl, dd_out ''</table>'', dd_decendl, dd_out ''>]'', dd_iendl]"

section \<open>Edges, and the sons\<close>

definition display_link :: "node_id \<Rightarrow> 'd dd" where
  "display_link old_parent_id s = (case parent_field s of
     None \<Rightarrow> Inr s
   | Some f \<Rightarrow>
       stmts [dd_link old_parent_id f, dd_number_out old_parent_id, dd_out '':'', dd_out f, dd_out '':s'', dd_out '' -> '',
         dd_number_out (parent_id s), dd_out '':nodename:n'', dd_iendl] s)"

definition footer_and_link :: "node_id \<Rightarrow> 'd dd" where
  "footer_and_link old_parent_id = stmts [node_html_footer, display_link old_parent_id]"

definition dd_dump :: "'d dumper visit \<Rightarrow> string \<Rightarrow> ast \<Rightarrow> 'd dd" where
  "dd_dump visit field e s = stmts [dd_set_field (Some field), visit e, dd_set_field (parent_field s)] s"

text \<open>\<open>dump\<close> of a pointer.\<close>

definition dd_dump_opt :: "'d dumper visit \<Rightarrow> string \<Rightarrow> ast option \<Rightarrow> 'd dd" where
  "dd_dump_opt visit field e = (case e of None \<Rightarrow> Inr | Some x \<Rightarrow> dd_dump visit field x)"

text \<open>The loop of \<open>dump_list\<close>, where \<open>n\<close> counts the elements that are numbered.\<close>

fun dd_dump_loop :: "'d dumper visit \<Rightarrow> string \<Rightarrow> nat \<Rightarrow> ast list \<Rightarrow> 'd dd" where
  "dd_dump_loop visit field n [] s = Inr s"
| "dd_dump_loop visit field n (x # xs) s =
     (if xs \<noteq> [] \<or> n > 0
      then bindE (visit x (s\<lparr>parent_field := Some (field @ dec_nat n)\<rparr>)) (dd_dump_loop visit field (n + 1) xs)
      else bindE (visit x (s\<lparr>parent_field := Some field\<rparr>)) (dd_dump_loop visit field n xs))"

definition dd_dump_list :: "'d dumper visit \<Rightarrow> string \<Rightarrow> ast list \<Rightarrow> 'd dd" where
  "dd_dump_list visit field l s = stmts [dd_dump_loop visit field 0 l, dd_set_field (parent_field s)] s"

definition dd_dump_def :: "dd_context \<Rightarrow> header \<Rightarrow> 'd dd" where
  "dd_dump_def P h s = (case dd_def P (adr h) of
     None \<Rightarrow> Inr s
   | Some d \<Rightarrow>
       stmts [dd_link (parent_id s) ''def'', dd_number_out (parent_id s), dd_out '':def:s -> '', dd_number_out (dd_number P d),
         dd_out ('':nodename [constraint=false, style=dashed, color='' @ dq @ ''dimgray'' @ dq @ '']''), dd_iendl] s)"

text \<open>The pointer to the type is printed, not the type.\<close>

definition dd_dump_type :: "dd_context \<Rightarrow> header \<Rightarrow> 'd dd" where
  "dd_dump_type P h = (case dd_type P (adr h) of None \<Rightarrow> Inr | Some t \<Rightarrow> node_html_field ''type'' (dd_text P t) [])"

definition dd_dump_chunk :: "dd_context \<Rightarrow> 'd dumper visit \<Rightarrow> header \<Rightarrow> string \<Rightarrow> ast list \<Rightarrow> 'd dd" where
  "dd_dump_chunk P visit h name l s =
     stmts [dd_set_parent (dd_number P (adr h)), dd_number_out (dd_number P (adr h)), dd_out '' [label=<'', dd_incendl,
       dd_out (''<table cellborder='' @ sq @ ''0'' @ sq @ '' cellspacing='' @ sq @ ''0'' @ sq @ ''>''), dd_incendl,
       dd_out ''<tr>'', dd_incendl, dd_reset_inner, node_html_port_list name l True, dd_decendl, dd_out ''</tr>'', dd_decendl,
       dd_out ''</table>'', dd_decendl, dd_out ''>]'', dd_iendl, display_link (parent_id s), dd_dump_list visit ''nodename'' l,
       dd_set_parent (parent_id s)] s"

section \<open>The visit methods: \<open>dumper-dot.cc\<close>\<close>

text \<open>The shape of the methods: the header, the fields and the ports, the footer and the link, the sons.\<close>

definition dd_node :: "dd_context \<Rightarrow> header \<Rightarrow> string \<Rightarrow> 'd dd list \<Rightarrow> 'd dd list \<Rightarrow> 'd dd" where
  "dd_node P h type table sons s =
     stmts ([node_html_header P h type] @ table @ [footer_and_link (parent_id s)] @ sons @ [dd_set_parent (parent_id s)]) s"

definition dd_ArrayExp :: "dd_context \<Rightarrow> 'd dumper visit \<Rightarrow> header \<Rightarrow> ast \<Rightarrow> ast \<Rightarrow> ast \<Rightarrow> 'd dd" where
  "dd_ArrayExp P visit h type_name sz init = dd_node P h ''ArrayExp''
     [dd_dump_type P h, node_html_ports [''type_name'', ''size'', ''init'']]
     [dd_dump visit ''type_name'' type_name, dd_dump visit ''size'' sz, dd_dump visit ''init'' init]"

definition dd_ArrayTy :: "dd_context \<Rightarrow> 'd dumper visit \<Rightarrow> header \<Rightarrow> ast \<Rightarrow> 'd dd" where
  "dd_ArrayTy P visit h base_type = dd_node P h ''ArrayTy''
     [dd_dump_type P h, node_html_ports [''base_type'']]
     [dd_dump visit ''base_type'' base_type]"

definition dd_AssignExp :: "dd_context \<Rightarrow> 'd dumper visit \<Rightarrow> header \<Rightarrow> ast \<Rightarrow> ast \<Rightarrow> 'd dd" where
  "dd_AssignExp P visit h var exp1 = dd_node P h ''AssignExp''
     [dd_dump_type P h, node_html_ports [''var'', ''exp'']]
     [dd_dump visit ''var'' var, dd_dump visit ''exp'' exp1]"

definition dd_BreakExp :: "dd_context \<Rightarrow> header \<Rightarrow> 'd dd" where
  "dd_BreakExp P h = dd_node P h ''BreakExp''
     [dd_dump_type P h, node_html_ports [''def'']]
     [dd_dump_def P h]"

definition dd_CallExp :: "dd_context \<Rightarrow> 'd dumper visit \<Rightarrow> header \<Rightarrow> symbol \<Rightarrow> ast list \<Rightarrow> 'd dd" where
  "dd_CallExp P visit h name args = dd_node P h ''CallExp''
     [dd_dump_type P h, node_html_field ''name'' name [], node_html_ports [], node_html_port_list ''args'' args False, node_html_one_port ''def'']
     [dd_dump_def P h, dd_dump_list visit ''args'' args]"

definition dd_CastExp :: "dd_context \<Rightarrow> 'd dumper visit \<Rightarrow> header \<Rightarrow> ast \<Rightarrow> ast \<Rightarrow> 'd dd" where
  "dd_CastExp P visit h exp1 ty = dd_node P h ''CastExp''
     [dd_dump_type P h, node_html_ports [''exp'', ''ty'']]
     [dd_dump visit ''exp'' exp1, dd_dump visit ''ty'' ty]"

definition dd_ClassTy :: "dd_context \<Rightarrow> 'd dumper visit \<Rightarrow> header \<Rightarrow> ast \<Rightarrow> ast \<Rightarrow> 'd dd" where
  "dd_ClassTy P visit h super chunks = dd_node P h ''ClassTy''
     [dd_dump_type P h, node_html_ports [''super'', ''chunks'']]
     [dd_dump visit ''super'' super, dd_dump visit ''chunks'' chunks]"

definition dd_Field :: "dd_context \<Rightarrow> 'd dumper visit \<Rightarrow> header \<Rightarrow> symbol \<Rightarrow> ast \<Rightarrow> 'd dd" where
  "dd_Field P visit h name type_name = dd_node P h ''Field''
     [node_html_field ''name'' name [], node_html_ports [''type_name'']]
     [dd_dump visit ''type_name'' type_name]"

definition dd_FieldInit :: "dd_context \<Rightarrow> 'd dumper visit \<Rightarrow> header \<Rightarrow> symbol \<Rightarrow> ast \<Rightarrow> 'd dd" where
  "dd_FieldInit P visit h name init = dd_node P h ''FieldInit''
     [node_html_field ''name'' name [], node_html_ports [''init'']]
     [dd_dump visit ''init'' init]"

definition dd_FieldVar :: "dd_context \<Rightarrow> 'd dumper visit \<Rightarrow> header \<Rightarrow> ast \<Rightarrow> symbol \<Rightarrow> 'd dd" where
  "dd_FieldVar P visit h var name = dd_node P h ''FieldVar''
     [dd_dump_type P h, node_html_field ''name'' name [], node_html_ports [''var'']]
     [dd_dump visit ''var'' var]"

definition dd_ForExp :: "dd_context \<Rightarrow> 'd dumper visit \<Rightarrow> header \<Rightarrow> ast \<Rightarrow> ast \<Rightarrow> ast \<Rightarrow> 'd dd" where
  "dd_ForExp P visit h vardec hi body = dd_node P h ''ForExp''
     [dd_dump_type P h, node_html_ports [''vardec'', ''hi'', ''body'']]
     [dd_dump visit ''vardec'' vardec, dd_dump visit ''hi'' hi, dd_dump visit ''body'' body]"

definition dd_FunctionDec :: "dd_context \<Rightarrow> 'd dumper visit \<Rightarrow> header \<Rightarrow> symbol \<Rightarrow> ast \<Rightarrow> ast option \<Rightarrow> ast option \<Rightarrow> 'd dd" where
  "dd_FunctionDec P visit h name formals result body = dd_node P h ''FunctionDec''
     [dd_dump_type P h, node_html_field ''name'' name [], node_html_ports [''formals'', ''result'', ''body'']]
     [dd_dump visit ''formals'' formals, dd_dump_opt visit ''result'' result, dd_dump_opt visit ''body'' body]"

definition dd_IfExp :: "dd_context \<Rightarrow> 'd dumper visit \<Rightarrow> header \<Rightarrow> ast \<Rightarrow> ast \<Rightarrow> ast \<Rightarrow> 'd dd" where
  "dd_IfExp P visit h test thenclause elseclause = dd_node P h ''IfExp''
     [dd_dump_type P h, node_html_ports [''test'', ''thenclause'', ''elseclause'']]
     [dd_dump visit ''test'' test, dd_dump visit ''thenclause'' thenclause, dd_dump visit ''elseclause'' elseclause]"

definition dd_IntExp :: "dd_context \<Rightarrow> header \<Rightarrow> i32 \<Rightarrow> 'd dd" where
  "dd_IntExp P h i = dd_node P h ''IntExp''
     [dd_dump_type P h, node_html_field ''value'' (dec_int (sint i)) []]
     []"

definition dd_LetExp :: "dd_context \<Rightarrow> 'd dumper visit \<Rightarrow> header \<Rightarrow> ast \<Rightarrow> ast \<Rightarrow> 'd dd" where
  "dd_LetExp P visit h chunks body = dd_node P h ''LetExp''
     [dd_dump_type P h, node_html_ports [''chunks'', ''body'']]
     [dd_dump visit ''chunks'' chunks, dd_dump visit ''body'' body]"

definition dd_MethodCallExp :: "dd_context \<Rightarrow> 'd dumper visit \<Rightarrow> header \<Rightarrow> symbol \<Rightarrow> ast list \<Rightarrow> ast \<Rightarrow> 'd dd" where
  "dd_MethodCallExp P visit h name args object = dd_node P h ''MethodCallExp''
     [dd_dump_type P h, node_html_field ''name'' name [], node_html_ports [''object''], node_html_port_list ''args'' args False, node_html_one_port ''def'']
     [dd_dump_def P h, dd_dump visit ''object'' object, dd_dump_list visit ''args'' args]"

definition dd_MethodDec :: "dd_context \<Rightarrow> 'd dumper visit \<Rightarrow> header \<Rightarrow> symbol \<Rightarrow> ast \<Rightarrow> ast option \<Rightarrow> ast option \<Rightarrow> 'd dd" where
  "dd_MethodDec P visit h name formals result body = dd_node P h ''MethodDec''
     [dd_dump_type P h, node_html_field ''name'' name [], node_html_ports [''formals'', ''result'', ''body'']]
     [dd_dump visit ''formals'' formals, dd_dump_opt visit ''result'' result, dd_dump_opt visit ''body'' body]"

definition dd_NameTy :: "dd_context \<Rightarrow> header \<Rightarrow> symbol \<Rightarrow> 'd dd" where
  "dd_NameTy P h name = dd_node P h ''NameTy''
     [dd_dump_type P h, node_html_field ''name'' name [], node_html_ports [''def'']]
     [dd_dump_def P h]"

definition dd_NilExp :: "dd_context \<Rightarrow> header \<Rightarrow> 'd dd" where
  "dd_NilExp P h = dd_node P h ''NilExp''
     [dd_dump_type P h]
     []"

definition dd_ObjectExp :: "dd_context \<Rightarrow> header \<Rightarrow> 'd dd" where
  "dd_ObjectExp P h = dd_node P h ''ObjectExp''
     [dd_dump_type P h]
     []"

definition dd_OpExp :: "dd_context \<Rightarrow> 'd dumper visit \<Rightarrow> header \<Rightarrow> ast \<Rightarrow> oper \<Rightarrow> ast \<Rightarrow> 'd dd" where
  "dd_OpExp P visit h left q right = dd_node P h ''OpExp''
     [dd_dump_type P h, node_html_field ''oper'' (str_of_oper q) sq, node_html_ports [''left'', ''right'']]
     [dd_dump visit ''left'' left, dd_dump visit ''right'' right]"

definition dd_RecordExp :: "dd_context \<Rightarrow> 'd dumper visit \<Rightarrow> header \<Rightarrow> ast \<Rightarrow> ast list \<Rightarrow> 'd dd" where
  "dd_RecordExp P visit h type_name flds = dd_node P h ''RecordExp''
     [dd_dump_type P h, node_html_ports [''type_name''], node_html_port_list ''fields'' flds False]
     [dd_dump visit ''type_name'' type_name, dd_dump_list visit ''fields'' flds]"

definition dd_RecordTy :: "dd_context \<Rightarrow> 'd dumper visit \<Rightarrow> header \<Rightarrow> ast list \<Rightarrow> 'd dd" where
  "dd_RecordTy P visit h flds = dd_node P h ''RecordTy''
     [dd_dump_type P h, node_html_ports [], node_html_port_list ''fields'' flds True]
     [dd_dump_list visit ''fields'' flds]"

definition dd_SeqExp :: "dd_context \<Rightarrow> 'd dumper visit \<Rightarrow> header \<Rightarrow> ast list \<Rightarrow> 'd dd" where
  "dd_SeqExp P visit h exps = dd_node P h ''SeqExp''
     [dd_dump_type P h, node_html_ports [], node_html_port_list ''exps'' exps False]
     [dd_dump_list visit ''exps'' exps]"

definition dd_SimpleVar :: "dd_context \<Rightarrow> header \<Rightarrow> symbol \<Rightarrow> 'd dd" where
  "dd_SimpleVar P h name = dd_node P h ''SimpleVar''
     [dd_dump_type P h, node_html_field ''name'' name [], node_html_ports [''def'']]
     [dd_dump_def P h]"

definition dd_StringExp :: "dd_context \<Rightarrow> header \<Rightarrow> string \<Rightarrow> 'd dd" where
  "dd_StringExp P h t = dd_node P h ''StringExp''
     [dd_dump_type P h, node_html_field ''value'' (text_of (escape_print t (ostream_new :: unit ostream))) []]
     []"

definition dd_SubscriptVar :: "dd_context \<Rightarrow> 'd dumper visit \<Rightarrow> header \<Rightarrow> ast \<Rightarrow> ast \<Rightarrow> 'd dd" where
  "dd_SubscriptVar P visit h var index = dd_node P h ''SubscriptVar''
     [dd_dump_type P h, node_html_ports [''var'', ''index'']]
     [dd_dump visit ''var'' var, dd_dump visit ''index'' index]"

definition dd_TypeDec :: "dd_context \<Rightarrow> 'd dumper visit \<Rightarrow> header \<Rightarrow> symbol \<Rightarrow> ast \<Rightarrow> 'd dd" where
  "dd_TypeDec P visit h name ty = dd_node P h ''TypeDec''
     [dd_dump_type P h, node_html_field ''name'' name [], node_html_ports [''ty'']]
     [dd_dump visit ''ty'' ty]"

definition dd_VarDec :: "dd_context \<Rightarrow> 'd dumper visit \<Rightarrow> header \<Rightarrow> symbol \<Rightarrow> ast option \<Rightarrow> ast option \<Rightarrow> 'd dd" where
  "dd_VarDec P visit h name type_name init = dd_node P h ''VarDec''
     [dd_dump_type P h, node_html_field ''name'' name [], node_html_ports [''type_name'', ''init'']]
     [dd_dump_opt visit ''type_name'' type_name, dd_dump_opt visit ''init'' init]"

definition dd_WhileExp :: "dd_context \<Rightarrow> 'd dumper visit \<Rightarrow> header \<Rightarrow> ast \<Rightarrow> ast \<Rightarrow> 'd dd" where
  "dd_WhileExp P visit h test body = dd_node P h ''WhileExp''
     [dd_dump_type P h, node_html_ports [''test'', ''body'']]
     [dd_dump visit ''test'' test, dd_dump visit ''body'' body]"

definition dd_dispatch :: "dd_context \<Rightarrow> 'd dumper visit \<Rightarrow> 'd dumper visit" where
  "dd_dispatch P visit e = (case e of
     ArrayExp h type_name sz init \<Rightarrow> dd_ArrayExp P visit h type_name sz init
   | ArrayTy h base_type \<Rightarrow> dd_ArrayTy P visit h base_type
   | AssignExp h var exp1 \<Rightarrow> dd_AssignExp P visit h var exp1
   | BreakExp h \<Rightarrow> dd_BreakExp P h
   | CallExp h name args \<Rightarrow> dd_CallExp P visit h name args
   | CastExp h exp1 ty \<Rightarrow> dd_CastExp P visit h exp1 ty
   | ClassTy h super chunks \<Rightarrow> dd_ClassTy P visit h super chunks
   | Field_node h name type_name \<Rightarrow> dd_Field P visit h name type_name
   | FieldInit h name init \<Rightarrow> dd_FieldInit P visit h name init
   | FieldVar h var name \<Rightarrow> dd_FieldVar P visit h var name
   | ForExp h vardec hi body \<Rightarrow> dd_ForExp P visit h vardec hi body
   | FunctionDec h name formals result body \<Rightarrow> dd_FunctionDec P visit h name formals result body
   | IfExp h test thenclause elseclause \<Rightarrow> dd_IfExp P visit h test thenclause elseclause
   | IntExp h i \<Rightarrow> dd_IntExp P h i
   | LetExp h chunks body \<Rightarrow> dd_LetExp P visit h chunks body
   | MethodCallExp h name args object \<Rightarrow> dd_MethodCallExp P visit h name args object
   | MethodDec h name formals result body \<Rightarrow> dd_MethodDec P visit h name formals result body
   | NameTy h name \<Rightarrow> dd_NameTy P h name
   | NilExp h \<Rightarrow> dd_NilExp P h
   | ObjectExp h _ \<Rightarrow> dd_ObjectExp P h
   | OpExp h left q right \<Rightarrow> dd_OpExp P visit h left q right
   | RecordExp h type_name flds \<Rightarrow> dd_RecordExp P visit h type_name flds
   | RecordTy h flds \<Rightarrow> dd_RecordTy P visit h flds
   | SeqExp h exps \<Rightarrow> dd_SeqExp P visit h exps
   | SimpleVar h name \<Rightarrow> dd_SimpleVar P h name
   | StringExp h t \<Rightarrow> dd_StringExp P h t
   | SubscriptVar h var index \<Rightarrow> dd_SubscriptVar P visit h var index
   | TypeDec h name ty \<Rightarrow> dd_TypeDec P visit h name ty
   | VarDec h name type_name init \<Rightarrow> dd_VarDec P visit h name type_name init
   | WhileExp h test body \<Rightarrow> dd_WhileExp P visit h test body
   | ChunkList h l \<Rightarrow> dd_dump_chunk P visit h ''ChunkList'' l
   | FunctionChunk h l \<Rightarrow> dd_dump_chunk P visit h ''FunctionChunk'' l
   | MethodChunk h l \<Rightarrow> dd_dump_chunk P visit h ''MethodChunk'' l
   | TypeChunk h l \<Rightarrow> dd_dump_chunk P visit h ''TypeChunk'' l
   | VarChunk h l \<Rightarrow> dd_dump_chunk P visit h ''VarChunk'' l)"

lemmas dd_method_defs =
  dd_ArrayExp_def dd_ArrayTy_def dd_AssignExp_def dd_BreakExp_def dd_CallExp_def dd_CastExp_def dd_ClassTy_def
  dd_Field_def dd_FieldInit_def dd_FieldVar_def dd_ForExp_def dd_FunctionDec_def dd_IfExp_def dd_IntExp_def
  dd_LetExp_def dd_MethodCallExp_def dd_MethodDec_def dd_NameTy_def dd_NilExp_def dd_ObjectExp_def dd_OpExp_def
  dd_RecordExp_def dd_RecordTy_def dd_SeqExp_def dd_SimpleVar_def dd_StringExp_def dd_SubscriptVar_def dd_TypeDec_def
  dd_VarDec_def dd_WhileExp_def

section \<open>The dumper\<close>

lemma dd_dump_local: "f x = g x \<Longrightarrow> dd_dump f fld x = dd_dump g fld x"
  by (rule ext) (simp add: dd_dump_def)

lemma dd_dump_opt_local: "(\<And>x. m = Some x \<Longrightarrow> f x = g x) \<Longrightarrow> dd_dump_opt f fld m = dd_dump_opt g fld m"
  by (cases m) (simp_all add: dd_dump_opt_def dd_dump_local [of f _ g])

lemma dd_dump_loop_local:
  assumes "\<And>x. x \<in> set xs \<Longrightarrow> f x = g x"
  shows "dd_dump_loop f fld n xs = dd_dump_loop g fld n xs"
  using assms
proof (induction xs arbitrary: n)
  case (Cons x xs)
  have sons: "dd_dump_loop f fld m xs = dd_dump_loop g fld m xs" for m by (rule Cons.IH) (use Cons.prems in simp)
  have x: "f x = g x" using Cons.prems by simp
  show ?case by (rule ext) (simp only: dd_dump_loop.simps sons x)
qed (rule ext, simp)

lemma dd_dump_list_local:
  assumes "\<And>x. x \<in> set xs \<Longrightarrow> f x = g x"
  shows "dd_dump_list f fld xs = dd_dump_list g fld xs"
  by (rule ext) (simp only: dd_dump_list_def dd_dump_loop_local [OF assms])

lemma dd_dump_chunk_local:
  assumes "\<And>x. x \<in> set xs \<Longrightarrow> f x = g x"
  shows "dd_dump_chunk P f h n xs = dd_dump_chunk P g h n xs"
  by (rule ext) (simp only: dd_dump_chunk_def dd_dump_list_local [OF assms])

lemma dd_dispatch_local:
  assumes "\<And>c. size c < size e \<Longrightarrow> f c = g c"
  shows "dd_dispatch P f e = dd_dispatch P g e"
proof -
  have each: "dd_dump f fld x = dd_dump g fld x" if "x \<in> set (subs e)" for fld x
    by (rule dd_dump_local) (rule assms, rule subs_size [OF that])
  have opt: "dd_dump_opt f fld m = dd_dump_opt g fld m" if "set_option m \<subseteq> set (subs e)" for fld m
    by (rule dd_dump_opt_local) (use assms subs_size that in auto)
  have all: "dd_dump_list f fld xs = dd_dump_list g fld xs" if "set xs \<subseteq> set (subs e)" for fld xs
    by (rule dd_dump_list_local) (use assms subs_size that in auto)
  have chunk: "dd_dump_chunk P f h n xs = dd_dump_chunk P g h n xs" if "set xs \<subseteq> set (subs e)" for h n xs
    by (rule dd_dump_chunk_local) (use assms subs_size that in auto)
  show ?thesis using each opt all chunk
    by (cases e) (simp_all add: dd_dispatch_def dd_method_defs opt_list_def subset_iff split: option.splits)
qed

lemma dd_dispatch_cong [fundef_cong]:
  assumes "P = P'" and "e = e'" and "s = s'" and "\<And>c s. size c < size e' \<Longrightarrow> f c s = g c s"
  shows "dd_dispatch P f e s = dd_dispatch P' g e' s'"
  unfolding assms(1-3) by (rule fun_cong [OF dd_dispatch_local]) (use assms(4) in \<open>auto simp: fun_eq_iff\<close>)

function dd_visit :: "dd_context \<Rightarrow> 'd dumper visit" where
  "dd_visit P e s = dd_dispatch P (dd_visit P) e s"
  by auto
termination by (relation "measure (\<lambda>(P, e, s). size e)") auto

declare dd_visit.simps [simp del]

interpretation dd: traversal "dd_visit P" "dd_dispatch P" for P
  by unfold_locales (rule dd_visit.simps, rule fun_cong [OF dd_dispatch_local], auto simp: fun_eq_iff)

text \<open>\<open>dump_dot\<close> of \<^verbatim>\<open>libast.cc\<close>.\<close>

definition dump_dot :: "dd_context \<Rightarrow> ast \<Rightarrow> 'd ostream \<Rightarrow> 'd dumper res" where
  "dump_dot P tree os =
     stmts [dd_os (\<lambda>os. Inr (resetindent os)), dd_out ''digraph structs {'', dd_incendl, dd_out ''splines=line;'', dd_iendl,
       dd_out ''node [shape=plaintext]'', dd_iendl, dd_visit P tree, dd_decendl, dd_out ''}'', dd_iendl] (dumper_new os)"

section \<open>What a part of a table does\<close>

text \<open>From an indentation of at least \<open>d\<close>: the indentation changes by \<open>k\<close>, the ports \<open>D\<close> are declared, no edge is
  written.\<close>

definition tab :: "int \<Rightarrow> int \<Rightarrow> string set \<Rightarrow> 'd dd \<Rightarrow> bool" where
  "tab d k D f \<longleftrightarrow> (\<forall>s. width_of (ostr s) = 0 \<and> d \<le> indent_of (ostr s) \<longrightarrow>
     (\<exists>t. f s = Inr t \<and> width_of (ostr t) = 0 \<and> indent_of (ostr t) = indent_of (ostr s) + k \<and>
        parent_id t = parent_id s \<and> parent_field t = parent_field s \<and> linked t = linked s \<and>
        set (declared t) = set (declared s) \<union> Pair (parent_id s) ` D))"

lemma tabE:
  assumes "tab d k D f" "width_of (ostr s) = 0" "d \<le> indent_of (ostr s)"
  obtains t where "f s = Inr t" "width_of (ostr t) = 0" "indent_of (ostr t) = indent_of (ostr s) + k"
    "parent_id t = parent_id s" "parent_field t = parent_field s" "linked t = linked s"
    "set (declared t) = set (declared s) \<union> Pair (parent_id s) ` D"
  using assms unfolding tab_def by blast

lemma tab_Inr: "tab d 0 {} Inr"
  by (simp add: tab_def)

lemma tab_os: "prints d k f \<Longrightarrow> tab d k {} (dd_os f)"
  by (fastforce simp: tab_def prints_def dd_os_def)

lemma tab_out: "tab d 0 {} (dd_out t)"
  unfolding dd_out_def by (rule tab_os) (rule prints_out)

lemma tab_number_out: "tab d 0 {} (dd_number_out n)"
  unfolding dd_number_out_def by (rule tab_os) (auto simp: prints_def put_nat_def put_str_width0)

lemma tab_iendl: "tab d 0 {} dd_iendl"
  using prints_out_iendl [of d] unfolding dd_iendl_def out_iendl_def [abs_def] by (rule tab_os)

lemma tab_incindent: "tab d 2 {} dd_incindent"
  unfolding dd_incindent_def by (rule tab_os) (rule prints_out_incindent)

lemma tab_incendl: "tab d 2 {} dd_incendl"
  unfolding tab_def dd_incendl_def dd_os_def by (simp add: incendl_def iendl_eq incindent_def)

lemma tab_decendl: "0 < d \<Longrightarrow> tab d (- 2) {} dd_decendl"
  unfolding tab_def dd_decendl_def dd_os_def by (simp add: decendl_def iendl_eq decindent_def)

lemma tab_declare: "tab d 0 {p} (dd_declare p)"
  by (simp add: tab_def dd_declare_def)

lemma tab_reset_inner: "tab d 0 {} dd_reset_inner"
  by (simp add: tab_def dd_reset_inner_def)

lemma tab_next_field: "tab d 0 {} dd_next_field"
  by (simp add: tab_def dd_next_field_def dd_iendl_def dd_os_def iendl_eq)

lemma tab_Nil: "tab d 0 {} (stmts [])"
  by (simp add: stmts_def tab_Inr)

lemma tab_Cons:
  assumes f: "tab d k D f" and fs: "tab (d + k) l E (stmts fs)"
  shows "tab d (k + l) (D \<union> E) (stmts (f # fs))"
  unfolding tab_def
proof (intro allI impI, elim conjE)
  fix s :: "'a dumper"
  assume s: "width_of (ostr s) = 0" "d \<le> indent_of (ostr s)"
  from f s obtain t where t: "f s = Inr t" "width_of (ostr t) = 0" "indent_of (ostr t) = indent_of (ostr s) + k"
    "parent_id t = parent_id s" "parent_field t = parent_field s" "linked t = linked s"
    "set (declared t) = set (declared s) \<union> Pair (parent_id s) ` D" by (rule tabE)
  have "d + k \<le> indent_of (ostr t)" using s(2) t(3) by simp
  from tabE [OF fs t(2) this] obtain u where u: "stmts fs t = Inr u" "width_of (ostr u) = 0"
    "indent_of (ostr u) = indent_of (ostr t) + l" "parent_id u = parent_id t" "parent_field u = parent_field t"
    "linked u = linked t" "set (declared u) = set (declared t) \<union> Pair (parent_id t) ` E" by blast
  have "stmts (f # fs) s = Inr u" using t(1) u(1) by (simp add: stmts_def)
  then show "\<exists>t. stmts (f # fs) s = Inr t \<and> width_of (ostr t) = 0 \<and> indent_of (ostr t) = indent_of (ostr s) + (k + l) \<and>
      parent_id t = parent_id s \<and> parent_field t = parent_field s \<and> linked t = linked s \<and>
      set (declared t) = set (declared s) \<union> Pair (parent_id s) ` (D \<union> E)"
    using t u by (intro exI [of _ u]) auto
qed

fun steps_tab :: "int \<Rightarrow> (int \<times> string set) list \<Rightarrow> 'd dd list \<Rightarrow> bool" where
  "steps_tab d [] fs \<longleftrightarrow> fs = []"
| "steps_tab d (kD # kDs) fs \<longleftrightarrow>
     (case fs of [] \<Rightarrow> False | f # fs' \<Rightarrow> tab d (fst kD) (snd kD) f \<and> steps_tab (d + fst kD) kDs fs')"

lemma tab_steps:
  "steps_tab d kDs fs \<Longrightarrow> k = sum_list (map fst kDs) \<Longrightarrow> D = \<Union> (set (map snd kDs)) \<Longrightarrow> tab d k D (stmts fs)"
  by (induction d kDs fs arbitrary: k D rule: steps_tab.induct) (auto simp: tab_Nil intro: tab_Cons split: list.splits)

lemmas tab_parts = tab_Inr tab_out tab_number_out tab_iendl tab_incindent tab_incendl tab_decendl tab_declare
  tab_reset_inner tab_next_field

lemma tab_if: "tab d k D f \<Longrightarrow> tab d k D g \<Longrightarrow> tab d k D (\<lambda>s. (if b s then f else g) s)"
  unfolding tab_def by auto

lemma tab_begin_inner: "tab d 6 {} (node_html_begin_inner l)"
  unfolding node_html_begin_inner_def
  by (rule tab_steps [where kDs = "[(0, {}), (2, {}), (0, {}), (0, {}), (0, {}), (0, {}), (0, {}), (0, {}), (2, {}), (0, {}), (2, {})]"])
    (simp_all add: tab_parts)

lemma tab_end_inner: "6 \<le> d \<Longrightarrow> tab d (- 6) {} node_html_end_inner"
  unfolding node_html_end_inner_def
  by (rule tab_steps [where kDs = "[(- 2, {}), (0, {}), (- 2, {}), (0, {}), (- 2, {}), (0, {})]"]) (simp_all add: tab_parts)

lemma tab_separator: "8 \<le> d \<Longrightarrow> tab d 0 {} node_html_separator"
  unfolding node_html_separator_def
  by (rule tab_steps [where kDs = "[(- 6, {}), (- 2, {}), (0, {}), (0, {}), (0, {}), (2, {}), (6, {})]"])
    (simp_all add: tab_parts tab_begin_inner tab_end_inner)

lemma tab_tr: "tab d 0 {p} (node_html_tr p t)"
  unfolding node_html_tr_def
  by (rule tab_steps [where kDs = "[(0, {p}), (0, {}), (0, {}), (0, {}), (0, {}), (0, {})]"]) (simp_all add: tab_parts)

lemma tab_field: "tab d 0 {name} (node_html_field name t sep)"
  unfolding node_html_field_def
  by (rule tab_steps [where kDs = "[(0, {}), (0, {name})]"]) (simp_all add: tab_parts tab_tr)

lemma tab_one_port: "tab d 0 {p} (node_html_one_port p)"
  unfolding node_html_one_port_def
  by (rule tab_steps [where kDs = "[(0, {}), (0, {p})]"]) (simp_all add: tab_parts tab_tr)

lemma steps_tab_map: "(\<And>x. x \<in> set xs \<Longrightarrow> tab d 0 (D x) (f x)) \<Longrightarrow> steps_tab d (map (\<lambda>x. (0, D x)) xs) (map f xs)"
  by (induction xs) simp_all

lemma steps_tab_append:
  "steps_tab d kDs fs \<Longrightarrow> steps_tab (d + sum_list (map fst kDs)) kDs' fs' \<Longrightarrow> steps_tab d (kDs @ kDs') (fs @ fs')"
  by (induction d kDs fs rule: steps_tab.induct) (auto simp: add.assoc split: list.splits)

lemma steps_tab_append_sum:
  "steps_tab d kDs fs \<Longrightarrow> k = sum_list (map fst kDs) \<Longrightarrow> steps_tab (d + k) kDs' fs' \<Longrightarrow>
    steps_tab d (kDs @ kDs') (fs @ fs')"
  by (simp add: steps_tab_append)

lemma sum_list_zeros: "sum_list (map (\<lambda>x. 0 :: int) xs) = 0"
  by (induction xs) simp_all

lemma tab_ports:
  assumes "8 \<le> d"
  shows "tab d 0 (set ps) (node_html_ports ps)"
  unfolding node_html_ports_def
proof (rule tab_steps [OF steps_tab_append [where kDs = "[(0, {}), (0, {})]"]])
  show "steps_tab d [(0, {}), (0, {})] [\<lambda>s. (if inner_fields s \<noteq> 0 then node_html_separator else Inr) s, dd_reset_inner]"
    using assms by (simp add: tab_parts tab_separator tab_if)
  show "steps_tab (d + sum_list (map fst [(0, {}), (0, {} :: string set)])) (map (\<lambda>p. (0, {p})) ps) (map node_html_one_port ps)"
    by (rule steps_tab_map) (simp add: tab_one_port)
qed (simp_all add: o_def sum_list_zeros)

lemma tab_port_cell: "tab d 0 {ref @ dec_nat n} (dd_port_cell ref n)"
  unfolding dd_port_cell_def
  by (rule tab_steps [where kDs = "[(0, {ref @ dec_nat n}), (0, {}), (0, {}), (0, {}), (0, {}), (0, {}), (0, {}), (0, {})]"])
    (simp_all add: tab_parts)

lemma tab_port_cells: "0 < d \<Longrightarrow> tab d 0 ((\<lambda>i. ref @ dec_nat i) ` {..<n}) (dd_port_cells ref n)"
  unfolding dd_port_cells_def
proof (rule tab_steps [OF steps_tab_append_sum [where k = 0 and kDs = "[(- 2, {}), (0, {}), (0, {}), (0, {}), (2, {})]"]])
  show "steps_tab (d + 0) (map (\<lambda>i. (0, {ref @ dec_nat i})) [0..<n]) (map (dd_port_cell ref) [0..<n])"
    by (rule steps_tab_map) (simp add: tab_port_cell)
qed (simp_all add: tab_parts o_def sum_list_zeros atLeast0LessThan UNION_singleton_eq_range)

text \<open>The ports of a list, as they are declared and as they are used.\<close>

definition list_ports :: "string \<Rightarrow> nat \<Rightarrow> string set" where
  "list_ports ref n =
     (if n = 0 then {} else if n = 1 then {ref} else (\<lambda>i. ref @ dec_nat i) ` {..<n})"

lemma tab_port_list:
  assumes "0 \<le> d" "ref = (if chunk then ''nodename'' else name)"
  shows "tab d 0 (insert ref (list_ports ref (length l))) (node_html_port_list name l chunk)"
  unfolding node_html_port_list_def Let_def assms(2) [symmetric]
proof (rule tab_steps [where kDs = "[(0, {}), (6, {}), (0, {ref}), (0, {}), (0, {}), (0, {}), (0, {}), (0, {}), (0, {}), (0, {}),
      (0, if length l > 1 then (\<lambda>i. ref @ dec_nat i) ` {..<length l} else {}), (- 6, {})]"])
  show "insert ref (list_ports ref (length l)) = \<Union> (set (map snd [(0 :: int, {}), (6, {}), (0, {ref}), (0, {}), (0, {}), (0, {}),
      (0, {}), (0, {}), (0, {}), (0, {}), (0, if length l > 1 then (\<lambda>i. ref @ dec_nat i) ` {..<length l} else {}), (- 6, {})]))"
    by (cases "length l > 1") (auto simp: list_ports_def not_less le_Suc_eq)
qed (use assms(1) in \<open>simp_all add: tab_parts tab_begin_inner tab_end_inner tab_port_cells\<close>)

lemma tab_footer: "12 \<le> d \<Longrightarrow> tab d (- 12) {} node_html_footer"
  unfolding node_html_footer_def
  by (rule tab_steps [where kDs = "[(0, {}), (- 6, {}), (- 2, {}), (0, {}), (- 2, {}), (0, {}), (- 2, {}), (0, {}), (0, {})]"])
    (simp_all add: tab_parts tab_end_inner tab_if)

section \<open>What a visit does\<close>

text \<open>The edges leave from ports that are declared.\<close>

definition dd_good :: "'d dumper \<Rightarrow> bool" where
  "dd_good s \<longleftrightarrow> width_of (ostr s) = 0 \<and> 0 \<le> indent_of (ostr s) \<and> set (linked s) \<subseteq> set (declared s)"

definition dd_keeps :: "'d dumper \<Rightarrow> 'd dumper \<Rightarrow> bool" where
  "dd_keeps s t \<longleftrightarrow> dd_good t \<and> indent_of (ostr t) = indent_of (ostr s) \<and> parent_id t = parent_id s \<and>
     set (declared s) \<subseteq> set (declared t)"

lemma dd_keeps_trans: "dd_keeps s t \<Longrightarrow> dd_keeps t u \<Longrightarrow> dd_keeps s u"
  by (auto simp: dd_keeps_def)

text \<open>A son is dumped once the ports \<open>D\<close> of its father are declared.\<close>

definition son :: "string set \<Rightarrow> 'd dd \<Rightarrow> bool" where
  "son D f \<longleftrightarrow> (\<forall>s. dd_good s \<and> Pair (parent_id s) ` D \<subseteq> set (declared s) \<longrightarrow>
     (\<exists>t. f s = Inr t \<and> dd_keeps s t \<and> parent_field t = parent_field s))"

definition dumps :: "'d dd \<Rightarrow> bool" where
  "dumps f \<longleftrightarrow> (\<forall>s. dd_good s \<and> (\<forall>p. parent_field s = Some p \<longrightarrow> (parent_id s, p) \<in> set (declared s)) \<longrightarrow>
     (\<exists>t. f s = Inr t \<and> dd_keeps s t \<and> parent_field t = parent_field s))"

lemma dumpsE:
  assumes "dumps f" "dd_good s" "\<And>p. parent_field s = Some p \<Longrightarrow> (parent_id s, p) \<in> set (declared s)"
  obtains t where "f s = Inr t" "dd_keeps s t" "parent_field t = parent_field s"
  using assms unfolding dumps_def by blast

lemma sonE:
  assumes "son D f" "dd_good s" "Pair (parent_id s) ` D \<subseteq> set (declared s)"
  obtains t where "f s = Inr t" "dd_keeps s t" "parent_field t = parent_field s"
  using assms unfolding son_def by blast

lemma dd_good_field [simp]: "dd_good (s\<lparr>parent_field := f\<rparr>) = dd_good s" "dd_good (s\<lparr>parent_id := n\<rparr>) = dd_good s"
  by (simp_all add: dd_good_def)

lemma dd_keeps_field [simp]: "dd_keeps (s\<lparr>parent_field := f\<rparr>) t = dd_keeps s t" "dd_keeps s (t\<lparr>parent_field := f\<rparr>) = dd_keeps s t"
  by (simp_all add: dd_keeps_def)

lemma son_dump:
  assumes "dumps (visit x)" "fld \<in> D"
  shows "son D (dd_dump visit fld x)"
  unfolding son_def
proof (intro allI impI, elim conjE)
  fix s :: "'a dumper" assume s: "dd_good s" "Pair (parent_id s) ` D \<subseteq> set (declared s)"
  let ?s = "s\<lparr>parent_field := Some fld\<rparr>"
  have "(parent_id ?s, p) \<in> set (declared ?s)" if "parent_field ?s = Some p" for p using s(2) assms(2) that by auto
  then obtain t where t: "visit x ?s = Inr t" "dd_keeps ?s t" using dumpsE [OF assms(1), of ?s] s(1) by auto
  then show "\<exists>t. dd_dump visit fld x s = Inr t \<and> dd_keeps s t \<and> parent_field t = parent_field s"
    by (simp add: dd_dump_def stmts_def dd_set_field_def)
qed

lemma son_Inr: "son D Inr"
  by (simp add: son_def dd_keeps_def)

lemma son_dump_opt: "(\<And>x. m = Some x \<Longrightarrow> dumps (visit x)) \<Longrightarrow> fld \<in> D \<Longrightarrow> son D (dd_dump_opt visit fld m)"
  by (cases m) (simp_all add: dd_dump_opt_def son_Inr son_dump)

lemma dump_loop:
  assumes "\<And>x. x \<in> set xs \<Longrightarrow> dumps (visit x)" "dd_good s"
    "(if n = 0 then list_ports fld (length xs) else (\<lambda>i. fld @ dec_nat i) ` {n..<n + length xs}) \<subseteq> D"
    "Pair (parent_id s) ` D \<subseteq> set (declared s)"
  shows "\<exists>t. dd_dump_loop visit fld n xs s = Inr t \<and> dd_keeps s t"
  using assms
proof (induction xs arbitrary: n s)
  case Nil
  then show ?case by (simp add: dd_keeps_def)
next
  case (Cons x xs)
  define name where "name = (if xs \<noteq> [] \<or> n > 0 then fld @ dec_nat n else fld)"
  define m where "m = (if xs \<noteq> [] \<or> n > 0 then n + 1 else n)"
  let ?s = "s\<lparr>parent_field := Some name\<rparr>"
  have "name \<in> D" using Cons.prems(3) by (force simp: name_def list_ports_def split: if_splits)
  then have "(parent_id ?s, p) \<in> set (declared ?s)" if "parent_field ?s = Some p" for p using Cons.prems(4) that by auto
  moreover have "dd_good ?s" "dumps (visit x)" using Cons.prems(1,2) by simp_all
  ultimately obtain t where t: "visit x ?s = Inr t" "dd_keeps ?s t" by (blast elim: dumpsE)
  have keeps: "dd_keeps s t" using t(2) by simp
  have "(if m = 0 then list_ports fld (length xs) else (\<lambda>i. fld @ dec_nat i) ` {m..<m + length xs}) \<subseteq> D"
    using Cons.prems(3) by (cases xs) (force simp: m_def list_ports_def split: if_splits)+
  moreover have "dd_good t" "Pair (parent_id t) ` D \<subseteq> set (declared t)" using keeps Cons.prems(4) by (auto simp: dd_keeps_def)
  ultimately obtain u where "dd_dump_loop visit fld m xs t = Inr u" "dd_keeps t u"
    using Cons.IH [of t m] Cons.prems(1) by auto
  then show ?case using t(1) dd_keeps_trans [OF keeps] by (auto simp: name_def m_def split: if_splits)
qed

lemma son_dump_list:
  assumes "\<And>x. x \<in> set xs \<Longrightarrow> dumps (visit x)" "list_ports fld (length xs) \<subseteq> D"
  shows "son D (dd_dump_list visit fld xs)"
  unfolding son_def
proof (intro allI impI, elim conjE)
  fix s :: "'a dumper" assume "dd_good s" "Pair (parent_id s) ` D \<subseteq> set (declared s)"
  then obtain t where "dd_dump_loop visit fld 0 xs s = Inr t" "dd_keeps s t"
    using dump_loop [of xs visit s 0 fld D] assms by auto
  then show "\<exists>t. dd_dump_list visit fld xs s = Inr t \<and> dd_keeps s t \<and> parent_field t = parent_field s"
    by (simp add: dd_dump_list_def stmts_def dd_set_field_def)
qed

text \<open>A line that writes an edge.\<close>

lemma link_line:
  assumes "tab 0 0 {} (stmts fs)" "dd_good s" "(n, p) \<in> set (declared s)"
  shows "\<exists>t. stmts (dd_link n p # fs) s = Inr t \<and> dd_keeps s t \<and> parent_field t = parent_field s"
proof -
  let ?s = "s\<lparr>linked := linked s @ [(n, p)]\<rparr>"
  have "width_of (ostr ?s) = 0" "0 \<le> indent_of (ostr ?s)" using assms(2) by (simp_all add: dd_good_def)
  then obtain t where "stmts fs ?s = Inr t" "width_of (ostr t) = 0" "indent_of (ostr t) = indent_of (ostr ?s) + 0"
    "parent_id t = parent_id ?s" "parent_field t = parent_field ?s" "linked t = linked ?s"
    "set (declared t) = set (declared ?s) \<union> Pair (parent_id ?s) ` {}" by (rule tabE [OF assms(1)])
  then show ?thesis using assms(2,3)
    by (intro exI [of _ t]) (auto simp: stmts_def dd_link_def dd_keeps_def dd_good_def)
qed

lemma son_dump_def: "''def'' \<in> D \<Longrightarrow> son D (dd_dump_def P h)"
proof -
  assume def: "''def'' \<in> D"
  have "tab 0 0 {} (stmts [dd_number_out a, dd_out x, dd_number_out b, dd_out y, dd_iendl])" for a x b y
    by (rule tab_steps [where kDs = "[(0, {}), (0, {}), (0, {}), (0, {}), (0, {})]"]) (simp_all add: tab_parts)
  from link_line [OF this] def show ?thesis
    by (force simp: son_def dd_dump_def_def dd_keeps_def split: option.split)
qed

lemma link_display:
  assumes "dd_good s" "\<And>p. parent_field s = Some p \<Longrightarrow> (n, p) \<in> set (declared s)"
  shows "\<exists>t. display_link n s = Inr t \<and> dd_keeps s t \<and> parent_field t = parent_field s"
proof (cases "parent_field s")
  case None
  then show ?thesis using assms(1) by (simp add: display_link_def dd_keeps_def)
next
  case (Some p)
  have "tab 0 0 {} (stmts [dd_number_out a, dd_out x, dd_out y, dd_out z, dd_out w, dd_number_out b, dd_out v, dd_iendl])" for a x y z w b v
    by (rule tab_steps [where kDs = "[(0, {}), (0, {}), (0, {}), (0, {}), (0, {}), (0, {}), (0, {}), (0, {})]"]) (simp_all add: tab_parts)
  from link_line [OF this assms(1) assms(2) [OF Some]] show ?thesis by (simp add: display_link_def Some)
qed

lemma sons_keep:
  assumes "\<forall>f \<in> set fs. son D f" "dd_good s" "Pair (parent_id s) ` D \<subseteq> set (declared s)"
  shows "\<exists>t. stmts fs s = Inr t \<and> dd_keeps s t \<and> parent_field t = parent_field s"
  using assms
proof (induction fs arbitrary: s)
  case Nil
  then show ?case by (simp add: stmts_def dd_keeps_def)
next
  case (Cons f fs)
  then have "son D f" by simp
  then obtain t where t: "f s = Inr t" "dd_keeps s t" "parent_field t = parent_field s" using Cons.prems(2,3) by (rule sonE)
  then have "dd_good t" "Pair (parent_id t) ` D \<subseteq> set (declared t)" using Cons.prems(3) by (auto simp: dd_keeps_def)
  with Cons.IH [of t] Cons.prems(1) obtain u where "stmts fs t = Inr u" "dd_keeps t u" "parent_field u = parent_field t" by auto
  then show ?case using t dd_keeps_trans [OF t(2)] by (simp add: stmts_def)
qed

lemma tab_head: "tab 0 12 {''nodename''} (stmts (dd_table_head n type))"
  unfolding dd_table_head_def
  by (rule tab_steps [where kDs = "[(0, {}), (0, {}), (2, {}), (0, {}), (0, {}), (0, {}), (0, {}), (2, {}), (0, {}), (2, {}),
      (6, {}), (0, {''nodename''}), (0, {}), (0, {})]"]) (simp_all add: tab_parts tab_begin_inner tab_tr tab_separator)

lemma stmts_eqs:
  "stmts [] = Inr" "stmts (f # fs) = (\<lambda>s. bindE (f s) (stmts fs))" "stmts (fs @ gs) = (\<lambda>s. bindE (stmts fs s) (stmts gs))"
  by (simp_all add: stmts_def foldE_append fun_eq_iff)

lemma dd_node_eq:
  "dd_node P h type table sons s =
     bindE (stmts ([stmts (dd_table_head (dd_number P (adr h)) type)] @ table @ [node_html_footer])
       (s\<lparr>parent_id := dd_number P (adr h)\<rparr>)) (\<lambda>s1.
     bindE (display_link (parent_id s) s1) (\<lambda>s2.
     bindE (stmts sons s2) (\<lambda>s3. Inr (s3\<lparr>parent_id := parent_id s\<rparr>))))"
  unfolding dd_node_def node_html_header_def footer_and_link_def
  by (simp only: stmts_eqs append.simps dd_set_parent_def [abs_def] bindE_assoc bindE_Inr bindE_Inr_right)

lemma dd_node_dumps:
  assumes table: "list_all2 (\<lambda>D f. tab 12 0 D f) Ds table" and sons: "\<forall>f \<in> set sons. son (\<Union> (set Ds)) f"
  shows "dumps (dd_node P h type table sons)"
  unfolding dumps_def
proof (intro allI impI, elim conjE)
  fix s :: "'a dumper"
  assume s: "dd_good s" and field: "\<forall>p. parent_field s = Some p \<longrightarrow> (parent_id s, p) \<in> set (declared s)"
  have "steps_tab 12 (map (\<lambda>D. (0, D)) Ds) table" using table by (induction Ds table rule: list_all2_induct) simp_all
  moreover have "steps_tab 0 [(12, {''nodename''})] [stmts (dd_table_head (dd_number P (adr h)) type)]" by (simp add: tab_head)
  ultimately have "steps_tab 0 ([(12, {''nodename''})] @ map (\<lambda>D. (0, D)) Ds @ [(- 12, {})])
      ([stmts (dd_table_head (dd_number P (adr h)) type)] @ table @ [node_html_footer])"
    by (intro steps_tab_append) (simp_all add: o_def sum_list_zeros tab_footer)
  then have "tab 0 0 (insert ''nodename'' (\<Union> (set Ds))) (stmts ([stmts (dd_table_head (dd_number P (adr h)) type)] @ table @ [node_html_footer]))"
    by (rule tab_steps) (simp_all add: o_def sum_list_zeros)
  moreover have "width_of (ostr (s\<lparr>parent_id := dd_number P (adr h)\<rparr>)) = 0" "0 \<le> indent_of (ostr (s\<lparr>parent_id := dd_number P (adr h)\<rparr>))"
    using s by (simp_all add: dd_good_def)
  ultimately obtain t where "stmts ([stmts (dd_table_head (dd_number P (adr h)) type)] @ table @ [node_html_footer])
      (s\<lparr>parent_id := dd_number P (adr h)\<rparr>) = Inr t"
    "width_of (ostr t) = 0" "indent_of (ostr t) = indent_of (ostr (s\<lparr>parent_id := dd_number P (adr h)\<rparr>)) + 0"
    "parent_id t = parent_id (s\<lparr>parent_id := dd_number P (adr h)\<rparr>)"
    "parent_field t = parent_field (s\<lparr>parent_id := dd_number P (adr h)\<rparr>)" "linked t = linked (s\<lparr>parent_id := dd_number P (adr h)\<rparr>)"
    "set (declared t) = set (declared (s\<lparr>parent_id := dd_number P (adr h)\<rparr>)) \<union>
      Pair (parent_id (s\<lparr>parent_id := dd_number P (adr h)\<rparr>)) ` insert ''nodename'' (\<Union> (set Ds))" by (rule tabE)
  then have t: "stmts ([stmts (dd_table_head (dd_number P (adr h)) type)] @ table @ [node_html_footer])
      (s\<lparr>parent_id := dd_number P (adr h)\<rparr>) = Inr t"
    "width_of (ostr t) = 0" "indent_of (ostr t) = indent_of (ostr s)" "parent_id t = dd_number P (adr h)"
    "parent_field t = parent_field s" "linked t = linked s"
    "set (declared t) = set (declared s) \<union> Pair (dd_number P (adr h)) ` insert ''nodename'' (\<Union> (set Ds))"
    by simp_all
  have good: "dd_good t" using s t by (auto simp: dd_good_def)
  obtain u where u: "display_link (parent_id s) t = Inr u" "dd_keeps t u" "parent_field u = parent_field t"
    using link_display [OF good, of "parent_id s"] field t(5,7) by auto
  have "dd_good u" "Pair (parent_id u) ` \<Union> (set Ds) \<subseteq> set (declared u)" using u(2) t(4,7) by (auto simp: dd_keeps_def)
  then obtain v where v: "stmts sons u = Inr v" "dd_keeps u v" "parent_field v = parent_field u" using sons_keep [OF sons] by blast
  have "dd_keeps s (v\<lparr>parent_id := parent_id s\<rparr>)" using u(2) v(2) t(3,7) by (auto simp: dd_keeps_def)
  then show "\<exists>t. dd_node P h type table sons s = Inr t \<and> dd_keeps s t \<and> parent_field t = parent_field s"
    unfolding dd_node_eq t(1) using u(1,3) v(1,3) t(5) by simp
qed

definition type_ports :: "dd_context \<Rightarrow> header \<Rightarrow> string set" where
  "type_ports P h = (if dd_type P (adr h) = None then {} else {''type''})"

lemma tab_dump_type: "tab d 0 (type_ports P h) (dd_dump_type P h)"
  by (auto simp: dd_dump_type_def type_ports_def tab_Inr tab_field split: option.split)

lemma tab_port_lists:
  "0 \<le> d \<Longrightarrow> tab d 0 (insert ''nodename'' (list_ports ''nodename'' (length l))) (node_html_port_list name l True)"
  "0 \<le> d \<Longrightarrow> tab d 0 (insert name (list_ports name (length l))) (node_html_port_list name l False)"
  by (rule tab_port_list; simp)+

lemma tab_ports_0: "8 \<le> d \<Longrightarrow> tab d 0 {} (node_html_ports [])"
  using tab_ports [of d "[]"] by simp

lemma tab_ports_1: "8 \<le> d \<Longrightarrow> tab d 0 {p} (node_html_ports [p])"
  using tab_ports [of d "[p]"] by simp

lemma tab_ports_2: "8 \<le> d \<Longrightarrow> tab d 0 {p, q} (node_html_ports [p, q])"
  using tab_ports [of d "[p, q]"] by simp

lemma tab_ports_3: "8 \<le> d \<Longrightarrow> tab d 0 {p, q, r} (node_html_ports [p, q, r])"
  using tab_ports [of d "[p, q, r]"] by simp

lemmas table_parts = tab_dump_type tab_field tab_one_port tab_ports_0 tab_ports_1 tab_ports_2 tab_ports_3 tab_port_lists
lemmas son_parts = son_dump son_dump_opt son_dump_list son_dump_def

text \<open>A chunk is a table of its own.\<close>

lemma dumps_chunk:
  assumes "\<And>x. x \<in> set l \<Longrightarrow> dumps (visit x)"
  shows "dumps (dd_dump_chunk P visit h name l)"
  unfolding dumps_def
proof (intro allI impI, elim conjE)
  fix s :: "'a dumper"
  assume s: "dd_good s" and field: "\<forall>p. parent_field s = Some p \<longrightarrow> (parent_id s, p) \<in> set (declared s)"
  define n where "n = dd_number P (adr h)"
  let ?D = "insert ''nodename'' (list_ports ''nodename'' (length l))"
  define table where "table = ([dd_number_out n, dd_out '' [label=<'', dd_incendl,
       dd_out (''<table cellborder='' @ sq @ ''0'' @ sq @ '' cellspacing='' @ sq @ ''0'' @ sq @ ''>''), dd_incendl,
       dd_out ''<tr>'', dd_incendl, dd_reset_inner, node_html_port_list name l True, dd_decendl, dd_out ''</tr>'', dd_decendl,
       dd_out ''</table>'', dd_decendl, dd_out ''>]'', dd_iendl] :: 'a dd list)"
  have chunk: "dd_dump_chunk P visit h name l s =
     bindE (stmts table (s\<lparr>parent_id := n\<rparr>)) (\<lambda>s1. bindE (display_link (parent_id s) s1) (\<lambda>s2.
     bindE (dd_dump_list visit ''nodename'' l s2) (\<lambda>s3. Inr (s3\<lparr>parent_id := parent_id s\<rparr>))))"
    unfolding dd_dump_chunk_def table_def n_def
    by (simp only: stmts_eqs append.simps dd_set_parent_def [abs_def] bindE_assoc bindE_Inr bindE_Inr_right)
  have "tab 0 0 ?D (stmts table)"
    unfolding table_def
    by (rule tab_steps [where kDs = "[(0, {}), (0, {}), (2, {}), (0, {}), (2, {}), (0, {}), (2, {}), (0, {}), (0, ?D), (- 2, {}),
        (0, {}), (- 2, {}), (0, {}), (- 2, {}), (0, {}), (0, {})]"]) (simp_all add: tab_parts tab_port_lists)
  moreover have "width_of (ostr (s\<lparr>parent_id := n\<rparr>)) = 0" "0 \<le> indent_of (ostr (s\<lparr>parent_id := n\<rparr>))"
    using s by (simp_all add: dd_good_def)
  ultimately obtain t where "stmts table (s\<lparr>parent_id := n\<rparr>) = Inr t" "width_of (ostr t) = 0"
    "indent_of (ostr t) = indent_of (ostr (s\<lparr>parent_id := n\<rparr>)) + 0" "parent_id t = parent_id (s\<lparr>parent_id := n\<rparr>)"
    "parent_field t = parent_field (s\<lparr>parent_id := n\<rparr>)" "linked t = linked (s\<lparr>parent_id := n\<rparr>)"
    "set (declared t) = set (declared (s\<lparr>parent_id := n\<rparr>)) \<union> Pair (parent_id (s\<lparr>parent_id := n\<rparr>)) ` ?D" by (rule tabE)
  then have t: "stmts table (s\<lparr>parent_id := n\<rparr>) = Inr t" "width_of (ostr t) = 0"
    "indent_of (ostr t) = indent_of (ostr s)" "parent_id t = n" "parent_field t = parent_field s" "linked t = linked s"
    "set (declared t) = set (declared s) \<union> Pair n ` ?D" by simp_all
  have good: "dd_good t" using s t by (auto simp: dd_good_def)
  obtain u where u: "display_link (parent_id s) t = Inr u" "dd_keeps t u" "parent_field u = parent_field t"
    using link_display [OF good, of "parent_id s"] field t(5,7) by auto
  have "dd_good u" "Pair (parent_id u) ` ?D \<subseteq> set (declared u)" using u(2) t(4,7) by (auto simp: dd_keeps_def)
  moreover have "son ?D (dd_dump_list visit ''nodename'' l)" by (rule son_dump_list) (use assms in auto)
  ultimately obtain v where v: "dd_dump_list visit ''nodename'' l u = Inr v" "dd_keeps u v" "parent_field v = parent_field u"
    using sonE by blast
  have "dd_keeps s (v\<lparr>parent_id := parent_id s\<rparr>)" using u(2) v(2) t(3,7) by (auto simp: dd_keeps_def)
  then show "\<exists>t. dd_dump_chunk P visit h name l s = Inr t \<and> dd_keeps s t \<and> parent_field t = parent_field s"
    unfolding chunk t(1) using u(1,3) v(1,3) t(5) by simp
qed

text \<open>No record type has a field.\<close>

definition no_record_fields :: "ast \<Rightarrow> bool" where
  "no_record_fields e = (case e of RecordTy _ flds \<Rightarrow> flds = [] | _ \<Rightarrow> True)"

definition dumpable :: "ast \<Rightarrow> bool" where
  "dumpable e \<longleftrightarrow> list_all no_record_fields (nodes e)"

lemma dispatch_dumps:
  assumes visit: "\<And>x. x \<in> set (subs e) \<Longrightarrow> dumps (visit x)" and "no_record_fields e"
  shows "dumps (dd_dispatch P visit e)"
proof (cases e)
  case (ArrayExp h type_name sz init)
  show ?thesis unfolding ArrayExp dd_dispatch_def ast.case dd_method_defs
    by (rule dd_node_dumps [where Ds = "[type_ports P h, {''type_name'', ''size'', ''init''}]"])
      (use visit ArrayExp in \<open>auto simp: table_parts intro!: son_parts\<close>)
next
  case (ArrayTy h base_type)
  show ?thesis unfolding ArrayTy dd_dispatch_def ast.case dd_method_defs
    by (rule dd_node_dumps [where Ds = "[type_ports P h, {''base_type''}]"])
      (use visit ArrayTy in \<open>auto simp: table_parts intro!: son_parts\<close>)
next
  case (AssignExp h var exp1)
  show ?thesis unfolding AssignExp dd_dispatch_def ast.case dd_method_defs
    by (rule dd_node_dumps [where Ds = "[type_ports P h, {''var'', ''exp''}]"])
      (use visit AssignExp in \<open>auto simp: table_parts intro!: son_parts\<close>)
next
  case (BreakExp h)
  show ?thesis unfolding BreakExp dd_dispatch_def ast.case dd_method_defs
    by (rule dd_node_dumps [where Ds = "[type_ports P h, {''def''}]"])
      (use visit BreakExp in \<open>auto simp: table_parts intro!: son_parts\<close>)
next
  case (CallExp h name args)
  show ?thesis unfolding CallExp dd_dispatch_def ast.case dd_method_defs
    by (rule dd_node_dumps [where Ds = "[type_ports P h, {''name''}, {}, insert ''args'' (list_ports ''args'' (length args)), {''def''}]"])
      (use visit CallExp in \<open>auto simp: table_parts intro!: son_parts\<close>)
next
  case (CastExp h exp1 ty)
  show ?thesis unfolding CastExp dd_dispatch_def ast.case dd_method_defs
    by (rule dd_node_dumps [where Ds = "[type_ports P h, {''exp'', ''ty''}]"])
      (use visit CastExp in \<open>auto simp: table_parts intro!: son_parts\<close>)
next
  case (ClassTy h super chunks)
  show ?thesis unfolding ClassTy dd_dispatch_def ast.case dd_method_defs
    by (rule dd_node_dumps [where Ds = "[type_ports P h, {''super'', ''chunks''}]"])
      (use visit ClassTy in \<open>auto simp: table_parts intro!: son_parts\<close>)
next
  case (Field_node h name type_name)
  show ?thesis unfolding Field_node dd_dispatch_def ast.case dd_method_defs
    by (rule dd_node_dumps [where Ds = "[{''name''}, {''type_name''}]"])
      (use visit Field_node in \<open>auto simp: table_parts intro!: son_parts\<close>)
next
  case (FieldInit h name init)
  show ?thesis unfolding FieldInit dd_dispatch_def ast.case dd_method_defs
    by (rule dd_node_dumps [where Ds = "[{''name''}, {''init''}]"])
      (use visit FieldInit in \<open>auto simp: table_parts intro!: son_parts\<close>)
next
  case (FieldVar h var name)
  show ?thesis unfolding FieldVar dd_dispatch_def ast.case dd_method_defs
    by (rule dd_node_dumps [where Ds = "[type_ports P h, {''name''}, {''var''}]"])
      (use visit FieldVar in \<open>auto simp: table_parts intro!: son_parts\<close>)
next
  case (ForExp h vardec hi body)
  show ?thesis unfolding ForExp dd_dispatch_def ast.case dd_method_defs
    by (rule dd_node_dumps [where Ds = "[type_ports P h, {''vardec'', ''hi'', ''body''}]"])
      (use visit ForExp in \<open>auto simp: table_parts intro!: son_parts\<close>)
next
  case (FunctionDec h name formals result body)
  show ?thesis unfolding FunctionDec dd_dispatch_def ast.case dd_method_defs
    by (rule dd_node_dumps [where Ds = "[type_ports P h, {''name''}, {''formals'', ''result'', ''body''}]"])
      (use visit FunctionDec in \<open>auto simp: table_parts intro!: son_parts\<close>)
next
  case (IfExp h test thenclause elseclause)
  show ?thesis unfolding IfExp dd_dispatch_def ast.case dd_method_defs
    by (rule dd_node_dumps [where Ds = "[type_ports P h, {''test'', ''thenclause'', ''elseclause''}]"])
      (use visit IfExp in \<open>auto simp: table_parts intro!: son_parts\<close>)
next
  case (IntExp h i)
  show ?thesis unfolding IntExp dd_dispatch_def ast.case dd_method_defs
    by (rule dd_node_dumps [where Ds = "[type_ports P h, {''value''}]"])
      (use visit IntExp in \<open>auto simp: table_parts intro!: son_parts\<close>)
next
  case (LetExp h chunks body)
  show ?thesis unfolding LetExp dd_dispatch_def ast.case dd_method_defs
    by (rule dd_node_dumps [where Ds = "[type_ports P h, {''chunks'', ''body''}]"])
      (use visit LetExp in \<open>auto simp: table_parts intro!: son_parts\<close>)
next
  case (MethodCallExp h name args object)
  show ?thesis unfolding MethodCallExp dd_dispatch_def ast.case dd_method_defs
    by (rule dd_node_dumps [where Ds = "[type_ports P h, {''name''}, {''object''}, insert ''args'' (list_ports ''args'' (length args)), {''def''}]"])
      (use visit MethodCallExp in \<open>auto simp: table_parts intro!: son_parts\<close>)
next
  case (MethodDec h name formals result body)
  show ?thesis unfolding MethodDec dd_dispatch_def ast.case dd_method_defs
    by (rule dd_node_dumps [where Ds = "[type_ports P h, {''name''}, {''formals'', ''result'', ''body''}]"])
      (use visit MethodDec in \<open>auto simp: table_parts intro!: son_parts\<close>)
next
  case (NameTy h name)
  show ?thesis unfolding NameTy dd_dispatch_def ast.case dd_method_defs
    by (rule dd_node_dumps [where Ds = "[type_ports P h, {''name''}, {''def''}]"])
      (use visit NameTy in \<open>auto simp: table_parts intro!: son_parts\<close>)
next
  case (NilExp h)
  show ?thesis unfolding NilExp dd_dispatch_def ast.case dd_method_defs
    by (rule dd_node_dumps [where Ds = "[type_ports P h]"])
      (use visit NilExp in \<open>auto simp: table_parts intro!: son_parts\<close>)
next
  case (ObjectExp h t)
  show ?thesis unfolding ObjectExp dd_dispatch_def ast.case dd_method_defs
    by (rule dd_node_dumps [where Ds = "[type_ports P h]"])
      (use visit ObjectExp in \<open>auto simp: table_parts intro!: son_parts\<close>)
next
  case (OpExp h left q right)
  show ?thesis unfolding OpExp dd_dispatch_def ast.case dd_method_defs
    by (rule dd_node_dumps [where Ds = "[type_ports P h, {''oper''}, {''left'', ''right''}]"])
      (use visit OpExp in \<open>auto simp: table_parts intro!: son_parts\<close>)
next
  case (RecordExp h type_name flds)
  show ?thesis unfolding RecordExp dd_dispatch_def ast.case dd_method_defs
    by (rule dd_node_dumps [where Ds = "[type_ports P h, {''type_name''}, insert ''fields'' (list_ports ''fields'' (length flds))]"])
      (use visit RecordExp in \<open>auto simp: table_parts intro!: son_parts\<close>)
next
  case (RecordTy h flds)
  then have flds: "flds = []" using assms(2) by (simp add: no_record_fields_def)
  have "tab 12 0 {''nodename''} (node_html_port_list ''fields'' [] True)"
    using tab_port_lists(1) [of 12 "[]"] by (simp add: list_ports_def)
  moreover have "son D (dd_dump_list visit ''fields'' [])" for D by (rule son_dump_list) (simp_all add: list_ports_def)
  ultimately show ?thesis unfolding RecordTy flds dd_dispatch_def ast.case dd_method_defs
    by (intro dd_node_dumps [where Ds = "[type_ports P h, {}, {''nodename''}]"]) (simp_all add: table_parts)
next
  case (SeqExp h exps)
  show ?thesis unfolding SeqExp dd_dispatch_def ast.case dd_method_defs
    by (rule dd_node_dumps [where Ds = "[type_ports P h, {}, insert ''exps'' (list_ports ''exps'' (length exps))]"])
      (use visit SeqExp in \<open>auto simp: table_parts intro!: son_parts\<close>)
next
  case (SimpleVar h name)
  show ?thesis unfolding SimpleVar dd_dispatch_def ast.case dd_method_defs
    by (rule dd_node_dumps [where Ds = "[type_ports P h, {''name''}, {''def''}]"])
      (use visit SimpleVar in \<open>auto simp: table_parts intro!: son_parts\<close>)
next
  case (StringExp h t)
  show ?thesis unfolding StringExp dd_dispatch_def ast.case dd_method_defs
    by (rule dd_node_dumps [where Ds = "[type_ports P h, {''value''}]"])
      (use visit StringExp in \<open>auto simp: table_parts intro!: son_parts\<close>)
next
  case (SubscriptVar h var index)
  show ?thesis unfolding SubscriptVar dd_dispatch_def ast.case dd_method_defs
    by (rule dd_node_dumps [where Ds = "[type_ports P h, {''var'', ''index''}]"])
      (use visit SubscriptVar in \<open>auto simp: table_parts intro!: son_parts\<close>)
next
  case (TypeDec h name ty)
  show ?thesis unfolding TypeDec dd_dispatch_def ast.case dd_method_defs
    by (rule dd_node_dumps [where Ds = "[type_ports P h, {''name''}, {''ty''}]"])
      (use visit TypeDec in \<open>auto simp: table_parts intro!: son_parts\<close>)
next
  case (VarDec h name type_name init)
  show ?thesis unfolding VarDec dd_dispatch_def ast.case dd_method_defs
    by (rule dd_node_dumps [where Ds = "[type_ports P h, {''name''}, {''type_name'', ''init''}]"])
      (use visit VarDec in \<open>auto simp: table_parts intro!: son_parts\<close>)
next
  case (WhileExp h test body)
  show ?thesis unfolding WhileExp dd_dispatch_def ast.case dd_method_defs
    by (rule dd_node_dumps [where Ds = "[type_ports P h, {''test'', ''body''}]"])
      (use visit WhileExp in \<open>auto simp: table_parts intro!: son_parts\<close>)
next
  case (ChunkList h l)
  show ?thesis unfolding ChunkList dd_dispatch_def ast.case by (rule dumps_chunk) (use visit ChunkList in simp)
next
  case (FunctionChunk h l)
  show ?thesis unfolding FunctionChunk dd_dispatch_def ast.case by (rule dumps_chunk) (use visit FunctionChunk in simp)
next
  case (MethodChunk h l)
  show ?thesis unfolding MethodChunk dd_dispatch_def ast.case by (rule dumps_chunk) (use visit MethodChunk in simp)
next
  case (TypeChunk h l)
  show ?thesis unfolding TypeChunk dd_dispatch_def ast.case by (rule dumps_chunk) (use visit TypeChunk in simp)
next
  case (VarChunk h l)
  show ?thesis unfolding VarChunk dd_dispatch_def ast.case by (rule dumps_chunk) (use visit VarChunk in simp)
qed

lemma visit_dumps: "dumpable e \<Longrightarrow> dumps (dd_visit P e :: 'd dd)"
proof (induction e rule: measure_induct_rule [of size])
  case (less e)
  have sub: "dumpable x" if "x \<in> set (subs e)" for x
    using less.prems nodes_trans [OF that] by (auto simp: dumpable_def list_all_iff)
  have "dumps (dd_visit P x :: 'd dd)" if "x \<in> set (subs e)" for x by (rule less.IH [OF subs_size [OF that] sub [OF that]])
  moreover have "no_record_fields e" using less.prems nodes_self [of e] unfolding dumpable_def list_all_iff by blast
  ultimately have "dumps (dd_dispatch P (dd_visit P) e :: 'd dd)" by (rule dispatch_dumps)
  moreover have "dd_visit P e = (dd_dispatch P (dd_visit P) e :: 'd dd)" by (rule ext) (rule dd_visit.simps)
  ultimately show ?case by simp
qed

text \<open>The dump of a program, from any stream.\<close>

lemma dump_dot_good:
  assumes "dumpable e" "width_of (os :: 'd ostream) = 0"
  obtains s where "dump_dot P e os = Inr s" "indent_of (ostr s) = 0" "set (linked s) \<subseteq> set (declared s)"
proof -
  let ?first = "[dd_os (\<lambda>os. Inr (resetindent os)), dd_out ''digraph structs {'', dd_incendl, dd_out ''splines=line;'', dd_iendl,
      dd_out ''node [shape=plaintext]'', dd_iendl] :: 'd dd list"
  let ?last = "[dd_decendl, dd_out ''}'', dd_iendl] :: 'd dd list"
  let ?s = "(dumper_new os)\<lparr>ostr := resetindent os\<rparr> :: 'd dumper"
  have "tab 0 2 {} (stmts (List.tl ?first))"
    unfolding list.sel by (rule tab_steps [where kDs = "[(0, {}), (2, {}), (0, {}), (0, {}), (0, {}), (0, {})]"]) (simp_all add: tab_parts)
  moreover have "width_of (ostr ?s) = 0" "0 \<le> indent_of (ostr ?s)" using assms(2) by (simp_all add: resetindent_def)
  ultimately obtain t where t: "stmts (List.tl ?first) ?s = Inr t" "width_of (ostr t) = 0" "indent_of (ostr t) = indent_of (ostr ?s) + 2"
    "parent_field t = parent_field ?s" "linked t = linked ?s" by (rule tabE)
  have "dd_good t" using t by (simp add: dd_good_def dumper_new_def resetindent_def)
  moreover have "parent_field t = None" using t(4) by (simp add: dumper_new_def)
  ultimately obtain u where u: "dd_visit P e t = Inr u" "dd_keeps t u"
    using dumpsE [OF visit_dumps [OF assms(1), of P, where 'd = 'd], of t] by auto
  have "tab 2 (- 2) {} (stmts ?last)"
    by (rule tab_steps [where kDs = "[(- 2, {}), (0, {}), (0, {})]"]) (simp_all add: tab_parts)
  moreover have "width_of (ostr u) = 0" "2 \<le> indent_of (ostr u)"
    using u(2) t(3) by (simp_all add: dd_keeps_def dd_good_def dumper_new_def resetindent_def)
  ultimately obtain v where v: "stmts ?last u = Inr v" "indent_of (ostr v) = indent_of (ostr u) + (- 2)" "linked v = linked u"
    "set (declared v) = set (declared u) \<union> Pair (parent_id u) ` {}" by (rule tabE)
  show thesis
  proof (rule that)
    have "dump_dot P e os = bindE (stmts (List.tl ?first) ?s) (\<lambda>t. bindE (dd_visit P e t) (stmts ?last))"
      by (simp add: dump_dot_def stmts_eqs dd_os_def [of "\<lambda>os. Inr (resetindent os)"] bindE_assoc dumper_new_def)
    then show "dump_dot P e os = Inr v" using t(1) u(1) v(1) by (simp only: bindE_Inr)
    show "indent_of (ostr v) = 0" using v(2) u(2) t(3) by (simp add: dd_keeps_def dumper_new_def resetindent_def)
    show "set (linked v) \<subseteq> set (declared v)" using v(3,4) u(2) by (simp add: dd_keeps_def dd_good_def)
  qed
qed

section \<open>Properties\<close>

text \<open>C37: on a tree whose record types have no field, the dump ends without a failed assertion, with the indentation that
  it starts from, and every edge that it writes leaves from a port that the table of its node declares.\<close>

theorem dot_edges_have_ports:
  assumes "dumpable e" and "width_of (os :: 'd ostream) = 0"
  shows "\<exists>s. dump_dot P e os = Inr s \<and> indent_of (ostr s) = 0 \<and> set (linked s) \<subseteq> set (declared s)"
  by (rule dump_dot_good [OF assms, of P]) blast

definition no_context :: dd_context where
  "no_context = \<lparr>dd_def = \<lambda>_. None, dd_type = \<lambda>_. None, dd_number = of_nat, dd_text = \<lambda>_. []\<rparr>"

theorem dot_edges_have_ports_witness:
  "\<exists>s. dump_dot no_context (SeqExp (header_at 1) [NilExp (header_at 2), NilExp (header_at 3)]) (ostream_new :: unit ostream) = Inr s \<and>
     indent_of (ostr s) = 0 \<and> set (linked s) \<subseteq> set (declared s)"
proof -
  have "dumpable (SeqExp (header_at 1) [NilExp (header_at 2), NilExp (header_at 3)])" by code_simp
  then show ?thesis by (rule dot_edges_have_ports) (simp add: ostream_new_def)
qed

text \<open>The table of a record type has no port \<open>fields\<close>, but its only field is dumped with the edge of that name.\<close>

lemma record_type_ports:
  assumes "width_of (ostr s) = 0" "0 \<le> indent_of (ostr s)" "parent_field s = None"
    and new: "(dd_number P (adr h), ''fields'') \<notin> set (declared s)"
  shows "\<exists>t. dd_RecordTy P visit h [f] s =
      bindE (visit f t) (\<lambda>u. Inr (u\<lparr>parent_field := None, parent_id := parent_id s\<rparr>)) \<and>
    parent_id t = dd_number P (adr h) \<and> parent_field t = Some ''fields'' \<and>
    (dd_number P (adr h), ''fields'') \<notin> set (declared t)"
proof -
  let ?n = "dd_number P (adr h)" and ?s = "s\<lparr>parent_id := dd_number P (adr h)\<rparr>"
  let ?table = "[dd_dump_type P h, node_html_ports [], node_html_port_list ''fields'' [f] True]"
  let ?D = "insert ''nodename'' (type_ports P h)"
  have "tab 12 0 {''nodename''} (node_html_port_list ''fields'' [f] True)"
    using tab_port_lists(1) [of 12 "[f]"] by (simp add: list_ports_def)
  then have "tab 0 0 ?D (stmts ([stmts (dd_table_head ?n ''RecordTy'')] @ ?table @ [node_html_footer]))"
    by (intro tab_steps [where kDs = "[(12, {''nodename''}), (0, type_ports P h), (0, {}), (0, {''nodename''}), (- 12, {})]"])
      (simp_all add: tab_head table_parts tab_footer)
  moreover have "width_of (ostr ?s) = 0" "0 \<le> indent_of (ostr ?s)" using assms(1,2) by simp_all
  ultimately obtain t where t: "stmts ([stmts (dd_table_head ?n ''RecordTy'')] @ ?table @ [node_html_footer]) ?s = Inr t"
    "parent_id t = parent_id ?s" "parent_field t = parent_field ?s"
    "set (declared t) = set (declared ?s) \<union> Pair (parent_id ?s) ` ?D" by (rule tabE)
  let ?t = "t\<lparr>parent_field := Some ''fields''\<rparr>"
  have "display_link m t = Inr t" for m using t(3) assms(3) by (simp add: display_link_def)
  then have "dd_RecordTy P visit h [f] s =
      bindE (visit f ?t) (\<lambda>u. Inr (u\<lparr>parent_field := None, parent_id := parent_id s\<rparr>))"
    using t(1,3) assms(3)
    by (simp add: dd_RecordTy_def dd_node_eq dd_dump_list_def stmts_def dd_set_field_def bindE_assoc del: append.simps)
  moreover have "(?n, ''fields'') \<notin> set (declared ?t)" using t(4) new by (auto simp: type_ports_def)
  ultimately show ?thesis using t(2) by (intro exI [of _ ?t]) simp
qed

end
