(* ===== verification/Tiger_Runtime.thy ===== *)
theory Tiger_Runtime
  imports Tiger_Prelude
begin

text \<open>
  \<^verbatim>\<open>src/src/llvmtranslate/tiger-runtime.c\<close>: the runtime that compiled programs are linked with.  The memory
  is a list of blocks of bytes; a pointer is a block and an offset in it, block 0 is the array \<open>consts\<close>.  A read or a
  write outside a block is the value \<open>Bad_access\<close>, and a call of \<open>exit\<close> is \<open>Runtime_exit\<close>.  Whether \<open>malloc\<close>
  finds the memory is an argument.  Signed additions wrap around.
\<close>

section \<open>The memory\<close>

type_synonym byte = "8 word"
type_synonym u64 = "64 word"

datatype ptr = Ptr (block: nat) (offset: int)

record runtime =
  blocks :: "byte list list"
  stdin_bytes :: "byte list"
  stdout_text :: "byte list"
  stderr_text :: "byte list"

definition ptr_add :: "ptr \<Rightarrow> int \<Rightarrow> ptr" where
  "ptr_add p k = Ptr (block p) (offset p + k)"

definition load_byte :: "ptr \<Rightarrow> runtime \<Rightarrow> byte res" where
  "load_byte p m =
     (if block p < length (blocks m) \<and> 0 \<le> offset p \<and> nat (offset p) < length (blocks m ! block p)
      then Inr (blocks m ! block p ! nat (offset p)) else Inl Bad_access)"

definition store_byte :: "ptr \<Rightarrow> byte \<Rightarrow> runtime \<Rightarrow> runtime res" where
  "store_byte p c m =
     (if block p < length (blocks m) \<and> 0 \<le> offset p \<and> nat (offset p) < length (blocks m ! block p)
      then Inr (m\<lparr>blocks := (blocks m)[block p := (blocks m ! block p)[nat (offset p) := c]]\<rparr>) else Inl Bad_access)"

text \<open>The bytes of a string, up to its null byte, and what \<^verbatim>\<open>strlen\<close> and \<^verbatim>\<open>strcmp\<close> of the C library make
  of them; the result of \<open>strcmp\<close> stands for its sign.\<close>

definition from_ptr :: "ptr \<Rightarrow> runtime \<Rightarrow> byte list" where
  "from_ptr p m = (if block p < length (blocks m) \<and> 0 \<le> offset p then drop (nat (offset p)) (blocks m ! block p) else [])"

definition string_at :: "ptr \<Rightarrow> runtime \<Rightarrow> byte list res" where
  "string_at p m = (if 0 \<in> set (from_ptr p m) then Inr (takeWhile (\<lambda>c. c \<noteq> 0) (from_ptr p m)) else Inl Bad_access)"

definition strlen :: "ptr \<Rightarrow> runtime \<Rightarrow> u64 res" where
  "strlen p m = bindE (string_at p m) (\<lambda>s. Inr (word_of_nat (length s)))"

fun compare_bytes :: "byte list \<Rightarrow> byte list \<Rightarrow> int" where
  "compare_bytes [] [] = 0"
| "compare_bytes [] (c # t) = - 1"
| "compare_bytes (c # s) [] = 1"
| "compare_bytes (c # s) (d # t) = (if c < d then - 1 else if d < c then 1 else compare_bytes s t)"

definition strcmp :: "ptr \<Rightarrow> ptr \<Rightarrow> runtime \<Rightarrow> int res" where
  "strcmp lhs rhs m = bindE (string_at lhs m) (\<lambda>s. bindE (string_at rhs m) (\<lambda>t. Inr (compare_bytes s t)))"

section \<open>The functions of the runtime\<close>

definition tc_malloc :: "(u64 \<Rightarrow> runtime \<Rightarrow> bool) \<Rightarrow> u64 \<Rightarrow> runtime \<Rightarrow> (ptr \<times> runtime) res" where
  "tc_malloc malloc_ok bytes m =
     (if malloc_ok bytes m then Inr (Ptr (length (blocks m)) 0, m\<lparr>blocks := blocks m @ [replicate (unat bytes) 0]\<rparr>)
      else Inl (Runtime_exit 120))"

text \<open>A word in memory, the least significant byte first.\<close>

definition store_word :: "ptr \<Rightarrow> i64 \<Rightarrow> runtime \<Rightarrow> runtime res" where
  "store_word p w = foldE (\<lambda>k. store_byte (ptr_add p (int k)) (ucast (drop_bit (8 * k) w))) [0..<8]"

definition tc_init_array ::
  "(u64 \<Rightarrow> runtime \<Rightarrow> bool) \<Rightarrow> i64 \<Rightarrow> i64 \<Rightarrow> runtime \<Rightarrow> (ptr \<times> runtime) res" where
  "tc_init_array malloc_ok len elt m =
     bindE (tc_malloc malloc_ok (len * 8) m) (\<lambda>(arr, m1).
     bindE (foldE (\<lambda>i. store_word (ptr_add arr (8 * int i)) elt) [0..<unat len] m1) (\<lambda>m2. Inr (arr, m2)))"

definition tc_init_ptr_array ::
  "(u64 \<Rightarrow> runtime \<Rightarrow> bool) \<Rightarrow> i64 \<Rightarrow> i64 \<Rightarrow> runtime \<Rightarrow> (ptr \<times> runtime) res" where
  "tc_init_ptr_array malloc_ok len elt = tc_init_array malloc_ok len elt"

definition tc_init_string :: "(u64 \<Rightarrow> runtime \<Rightarrow> bool) \<Rightarrow> u64 \<Rightarrow> runtime \<Rightarrow> (ptr \<times> runtime) res" where
  "tc_init_string malloc_ok bytes = tc_malloc malloc_ok bytes"

definition tc_not :: "i64 \<Rightarrow> i64" where
  "tc_not i = (if i = 0 then 1 else 0)"

definition tc_exit :: "i64 \<Rightarrow> 'a res" where
  "tc_exit st = Inl (Runtime_exit (sint st))"

definition consts_ptr :: ptr where
  "consts_ptr = Ptr 0 0"

definition tc_chr :: "i64 \<Rightarrow> ptr res" where
  "tc_chr i = (if \<not> (0 \<le> sint i \<and> sint i \<le> 255) then Inl (Runtime_exit 120) else Inr (ptr_add consts_ptr (sint i * 2)))"

definition copy_bytes :: "ptr \<Rightarrow> ptr \<Rightarrow> nat \<Rightarrow> runtime \<Rightarrow> runtime res" where
  "copy_bytes dst src n =
     foldE (\<lambda>i m. bindE (load_byte (ptr_add src (int i)) m) (\<lambda>c. store_byte (ptr_add dst (int i)) c m)) [0..<n]"

definition tc_concat :: "(u64 \<Rightarrow> runtime \<Rightarrow> bool) \<Rightarrow> ptr \<Rightarrow> ptr \<Rightarrow> runtime \<Rightarrow> (ptr \<times> runtime) res" where
  "tc_concat malloc_ok a b m =
     bindE (strlen a m) (\<lambda>len_a.
     bindE (strlen b m) (\<lambda>len_b.
     if len_a = 0 then Inr (b, m)
     else if len_b = 0 then Inr (a, m)
     else let n = len_a + len_b
          in bindE (tc_init_string malloc_ok (n + 1) m) (\<lambda>(t, m1).
             bindE (copy_bytes t a (unat len_a) m1) (\<lambda>m2.
             bindE (copy_bytes (ptr_add t (uint len_a)) b (unat len_b) m2) (\<lambda>m3.
             bindE (store_byte (ptr_add t (uint n)) 0 m3) (\<lambda>m4. Inr (t, m4)))))))"

text \<open>A \<open>char\<close> is signed.\<close>

definition tc_ord :: "ptr \<Rightarrow> runtime \<Rightarrow> i64 res" where
  "tc_ord s m = bindE (strlen s m) (\<lambda>len. if len = 0 then Inr (- 1) else bindE (load_byte s m) (\<lambda>c. Inr (scast c)))"

definition tc_size :: "ptr \<Rightarrow> runtime \<Rightarrow> i64 res" where
  "tc_size s m = strlen s m"

text \<open>The counter of the loop has 32 bits: it overflows on longer copies.\<close>

definition tc_substring ::
  "(u64 \<Rightarrow> runtime \<Rightarrow> bool) \<Rightarrow> ptr \<Rightarrow> i64 \<Rightarrow> i64 \<Rightarrow> runtime \<Rightarrow> (ptr \<times> runtime) res" where
  "tc_substring malloc_ok s first n m =
     bindE (strlen s m) (\<lambda>len.
     if \<not> (0 \<le> sint first \<and> 0 \<le> sint n \<and> first + n \<le> len) then Inl (Runtime_exit 120)
     else if n = 1 then bindE (load_byte (ptr_add s (sint first)) m) (\<lambda>c. Inr (ptr_add consts_ptr (sint c * 2), m))
     else bindE (tc_init_string malloc_ok (n + 1) m) (\<lambda>(t, m1).
          if 2 ^ 31 \<le> sint n then Inl Out_of_range
          else bindE (copy_bytes t (ptr_add s (sint first)) (nat (sint n)) m1) (\<lambda>m2.
               bindE (store_byte (ptr_add t (sint n)) 0 m2) (\<lambda>m3. Inr (t, m3)))))"

definition tc_strcmp :: "ptr \<Rightarrow> ptr \<Rightarrow> runtime \<Rightarrow> i64 res" where
  "tc_strcmp lhs rhs m = bindE (strcmp lhs rhs m) (\<lambda>k. Inr (word_of_int k))"

definition tc_streq :: "ptr \<Rightarrow> ptr \<Rightarrow> runtime \<Rightarrow> i64 res" where
  "tc_streq lhs rhs m = bindE (strcmp lhs rhs m) (\<lambda>k. Inr (if k = 0 then 1 else 0))"

text \<open>The empty string of \<open>getchar\<close> at the end of the input is a literal: a block of its own.\<close>

definition tc_getchar :: "runtime \<Rightarrow> ptr \<times> runtime" where
  "tc_getchar m = (case stdin_bytes m of
     [] \<Rightarrow> (Ptr (length (blocks m)) 0, m\<lparr>blocks := blocks m @ [[0]]\<rparr>)
   | c # cs \<Rightarrow> (ptr_add consts_ptr (uint c * 2), m\<lparr>stdin_bytes := cs\<rparr>))"

definition tc_print_string :: "ptr \<Rightarrow> runtime \<Rightarrow> runtime res" where
  "tc_print_string s m = bindE (string_at s m) (\<lambda>t. Inr (m\<lparr>stdout_text := stdout_text m @ t\<rparr>))"

definition tc_print_err :: "ptr \<Rightarrow> runtime \<Rightarrow> runtime res" where
  "tc_print_err s m = bindE (string_at s m) (\<lambda>t. Inr (m\<lparr>stderr_text := stderr_text m @ t\<rparr>))"

definition tc_print_int :: "i64 \<Rightarrow> runtime \<Rightarrow> runtime" where
  "tc_print_int i m = m\<lparr>stdout_text := stdout_text m @ map of_char (dec_int (sint i))\<rparr>"

definition init_consts :: "runtime \<Rightarrow> runtime res" where
  "init_consts = foldE (\<lambda>k m. bindE (store_byte (ptr_add consts_ptr (2 * int k)) (word_of_nat k) m)
     (store_byte (ptr_add consts_ptr (2 * int k + 1)) 0)) [0..<256]"

definition runtime_new :: "byte list \<Rightarrow> runtime" where
  "runtime_new input = \<lparr>blocks = [replicate 512 0], stdin_bytes = input, stdout_text = [], stderr_text = []\<rparr>"

definition runtime_main :: "(runtime \<Rightarrow> runtime res) \<Rightarrow> byte list \<Rightarrow> runtime res" where
  "runtime_main tc_main input = bindE (init_consts (runtime_new input)) tc_main"

section \<open>Strings and fresh blocks\<close>

lemma ptr_add_simps [simp]: "block (ptr_add p k) = block p" "offset (ptr_add p k) = offset p + k"
  by (simp_all add: ptr_add_def)

lemma string_atD:
  assumes "string_at p m = Inr s"
  shows "block p < length (blocks m)" and "0 \<le> offset p" and "0 \<notin> set s"
    and "\<exists>rest. blocks m ! block p = take (nat (offset p)) (blocks m ! block p) @ s @ 0 # rest \<and>
           nat (offset p) \<le> length (blocks m ! block p)"
proof -
  let ?f = "from_ptr p m"
  have zero: "0 \<in> set ?f" and s: "s = takeWhile (\<lambda>c. c \<noteq> 0) ?f"
    using assms by (auto simp: string_at_def split: if_splits)
  then show blk: "block p < length (blocks m)" "0 \<le> offset p" by (auto simp: from_ptr_def split: if_splits)
  then have f: "?f = drop (nat (offset p)) (blocks m ! block p)" by (simp add: from_ptr_def)
  show "0 \<notin> set s" using s set_takeWhileD by fastforce
  have "dropWhile (\<lambda>c. c \<noteq> 0) ?f \<noteq> []" using zero by (auto simp: dropWhile_eq_Nil_conv)
  then obtain c rest where d: "dropWhile (\<lambda>c. c \<noteq> 0) ?f = c # rest" by (cases "dropWhile (\<lambda>c. c \<noteq> 0) ?f") auto
  then have "c = 0" using hd_dropWhile [of "\<lambda>c. c \<noteq> 0" ?f] by simp
  then have "?f = s @ 0 # rest" using takeWhile_dropWhile_id [of "\<lambda>c. c \<noteq> 0" ?f] d s by simp
  then have "blocks m ! block p = take (nat (offset p)) (blocks m ! block p) @ s @ 0 # rest"
    using f append_take_drop_id by metis
  moreover have "nat (offset p) \<le> length (blocks m ! block p)" using zero f by (cases "nat (offset p) \<le> length (blocks m ! block p)") auto
  ultimately show "\<exists>rest. blocks m ! block p = take (nat (offset p)) (blocks m ! block p) @ s @ 0 # rest \<and>
           nat (offset p) \<le> length (blocks m ! block p)" by blast
qed

lemma string_atI:
  assumes "b < length (blocks m)" and "blocks m ! b = xs @ s @ 0 # rest" and "0 \<notin> set s" and "o' = int (length xs)"
  shows "string_at (Ptr b o') m = Inr s"
  using assms by (auto simp: string_at_def from_ptr_def takeWhile_append)

lemma load_string:
  assumes "string_at p m = Inr s" and "i < length s"
  shows "load_byte (ptr_add p (int i)) m = Inr (s ! i)"
proof -
  obtain rest where b: "blocks m ! block p = take (nat (offset p)) (blocks m ! block p) @ s @ 0 # rest"
    "nat (offset p) \<le> length (blocks m ! block p)" using string_atD(4) [OF assms(1)] by blast
  have len: "length (blocks m ! block p) = nat (offset p) + length s + Suc (length rest)"
    using arg_cong [OF b(1), of length] b(2) by simp
  have "blocks m ! block p ! (nat (offset p) + i) = s ! i"
    by (subst b(1)) (use b(2) assms(2) in \<open>simp add: nth_append\<close>)
  then show ?thesis
    using string_atD(1,2) [OF assms(1)] assms(2) len by (simp add: load_byte_def nat_add_distrib)
qed

definition with_block :: "runtime \<Rightarrow> byte list \<Rightarrow> runtime" where
  "with_block m blk = m\<lparr>blocks := blocks m @ [blk]\<rparr>"

lemma load_with_block: "block p < length (blocks m) \<Longrightarrow> load_byte p (with_block m blk) = load_byte p m"
  by (simp add: load_byte_def with_block_def nth_append)

lemma string_at_with_block:
  assumes "string_at p m = Inr s" shows "string_at p (with_block m blk) = Inr s"
proof -
  have "from_ptr p (with_block m blk) = from_ptr p m"
    using string_atD(1) [OF assms] by (simp add: from_ptr_def with_block_def nth_append)
  then show ?thesis using assms by (simp only: string_at_def)
qed

lemma store_with_block:
  "k < length blk \<Longrightarrow> store_byte (Ptr (length (blocks m)) (int k)) c (with_block m blk) = Inr (with_block m (blk[k := c]))"
  by (simp add: store_byte_def with_block_def list_update_append)

lemma tc_malloc_ok: "malloc_ok n m \<Longrightarrow>
    tc_malloc malloc_ok n m = Inr (Ptr (length (blocks m)) 0, with_block m (replicate (unat n) 0))"
  by (simp add: tc_malloc_def with_block_def)

text \<open>A loop that writes the fresh block byte by byte, as those that copy strings and write words.\<close>

lemma store_loop_fresh:
  assumes "\<And>i blk. i < n \<Longrightarrow> g i (with_block m blk) = store_byte (Ptr (length (blocks m)) (int (d + i))) (f i) (with_block m blk)"
    and "d + n \<le> length blk"
  shows "foldE g [0..<n] (with_block m blk) = Inr (with_block m (take d blk @ map f [0..<n] @ drop (d + n) blk))"
  using assms
proof (induction n)
  case (Suc n)
  let ?blk = "take d blk @ map f [0..<n] @ drop (d + n) blk"
  have "drop (d + n) blk = blk ! (d + n) # drop (Suc (d + n)) blk" using Suc.prems(2) by (simp add: Cons_nth_drop_Suc)
  then have "?blk[d + n := f n] = take d blk @ map f [0..<Suc n] @ drop (d + Suc n) blk"
    using Suc.prems(2) by (simp add: list_update_append)
  moreover have "g n (with_block m ?blk) = Inr (with_block m (?blk[d + n := f n]))"
    using Suc.prems store_with_block [of "d + n" ?blk m "f n"] by simp
  ultimately show ?case using Suc by (simp add: foldE_append)
qed simp

lemma copy_bytes_fresh:
  assumes "string_at src m = Inr s" and "k + n \<le> length s" and "d + n \<le> length blk"
  shows "copy_bytes (Ptr (length (blocks m)) (int d)) (ptr_add src (int k)) n (with_block m blk) =
     Inr (with_block m (take d blk @ take n (drop k s) @ drop (d + n) blk))"
proof -
  have "load_byte (ptr_add (ptr_add src (int k)) (int i)) (with_block m blk) = Inr (s ! (k + i))" if "i < n" for i blk
  proof -
    have "ptr_add (ptr_add src (int k)) (int i) = ptr_add src (int (k + i))" by (simp add: ptr_add_def)
    then show ?thesis
      using load_string [OF assms(1), of "k + i"] load_with_block [of "ptr_add src (int (k + i))" m]
        string_atD(1) [OF assms(1)] that assms(2) by simp
  qed
  moreover have "map (\<lambda>i. s ! (k + i)) [0..<n] = take n (drop k s)"
    by (rule nth_equalityI) (use assms(2) in simp_all)
  ultimately show ?thesis
    unfolding copy_bytes_def
    by (subst store_loop_fresh [where f = "\<lambda>i. s ! (k + i)"]) (use assms(3) in \<open>simp_all add: ptr_add_def\<close>)
qed

definition word_bytes :: "i64 \<Rightarrow> byte list" where
  "word_bytes w = map (\<lambda>k. ucast (drop_bit (8 * k) w)) [0..<8]"

lemma length_word_bytes [simp]: "length (word_bytes w) = 8"
  by (simp add: word_bytes_def)

lemma store_word_fresh:
  "d + 8 \<le> length blk \<Longrightarrow> store_word (Ptr (length (blocks m)) (int d)) w (with_block m blk) =
     Inr (with_block m (take d blk @ word_bytes w @ drop (d + 8) blk))"
  unfolding store_word_def word_bytes_def by (rule store_loop_fresh) (simp_all add: ptr_add_def)

lemma store_word_outside:
  "length blk \<le> d \<Longrightarrow> store_word (Ptr (length (blocks m)) (int d)) w (with_block m blk) = Inl Bad_access"
  by (simp add: store_word_def upt_conv_Cons store_byte_def ptr_add_def with_block_def)

lemma array_loop_fresh:
  "i \<le> n \<Longrightarrow> foldE (\<lambda>i. store_word (ptr_add (Ptr (length (blocks m)) 0) (8 * int i)) w) [0..<i]
      (with_block m (replicate (8 * n) 0)) =
    Inr (with_block m (concat (replicate i (word_bytes w)) @ replicate (8 * (n - i)) 0))"
proof (induction i)
  case (Suc i)
  let ?blk = "concat (replicate i (word_bytes w)) @ replicate (8 * (n - i)) 0"
  have len: "length (concat (replicate i (word_bytes w))) = 8 * i" by (induction i) simp_all
  have "store_word (ptr_add (Ptr (length (blocks m)) 0) (8 * int i)) w (with_block m ?blk) =
      Inr (with_block m (take (8 * i) ?blk @ word_bytes w @ drop (8 * i + 8) ?blk))"
    using store_word_fresh [of "8 * i" ?blk m w] Suc.prems by (simp add: ptr_add_def len)
  also have "take (8 * i) ?blk @ word_bytes w @ drop (8 * i + 8) ?blk =
      concat (replicate (Suc i) (word_bytes w)) @ replicate (8 * (n - Suc i)) 0"
  proof -
    have "concat (replicate (Suc i) (word_bytes w)) = concat (replicate i (word_bytes w)) @ word_bytes w"
      by (induction i) simp_all
    then show ?thesis by (simp add: len diff_mult_distrib2 add.commute del: replicate_Suc)
  qed
  finally show ?case using Suc by (simp add: foldE_append)
qed simp

lemma strlen_string: "string_at p m = Inr s \<Longrightarrow> strlen p m = Inr (word_of_nat (length s))"
  by (simp add: strlen_def)

section \<open>The table of the characters\<close>

definition consts_table :: "byte list" where
  "consts_table = concat (map (\<lambda>k. [word_of_nat k, 0]) [0..<256])"

definition consts_ok :: "runtime \<Rightarrow> bool" where
  "consts_ok m \<longleftrightarrow> blocks m \<noteq> [] \<and> blocks m ! 0 = consts_table"

lemma length_pairs: "length (concat (map (\<lambda>k. [f k, g k]) [0..<n])) = 2 * n"
  by (induction n) simp_all

lemma init_consts_fills:
  "n \<le> 256 \<Longrightarrow>
    foldE (\<lambda>k m. bindE (store_byte (ptr_add consts_ptr (2 * int k)) (word_of_nat k) m)
      (store_byte (ptr_add consts_ptr (2 * int k + 1)) 0)) [0..<n] (runtime_new input) =
    Inr ((runtime_new input)\<lparr>blocks :=
      [concat (map (\<lambda>k. [word_of_nat k, 0]) [0..<n]) @ replicate (512 - 2 * n) 0]\<rparr>)"
proof (induction n)
  case 0
  then show ?case by (simp add: runtime_new_def)
next
  case (Suc n)
  let ?t = "concat (map (\<lambda>k. [word_of_nat k, 0 :: byte]) [0..<n])"
  have "replicate (512 - 2 * n) (0 :: byte) = 0 # 0 # replicate (512 - 2 * Suc n) 0"
    using Suc.prems by (simp add: replicate_Suc [symmetric] del: replicate_Suc)
  moreover have "length ?t = 2 * n" by (rule length_pairs)
  ultimately show ?case
    using Suc
    by (simp add: foldE_append store_byte_def consts_ptr_def ptr_add_def list_update_append nat_add_distrib nat_mult_distrib)
qed

lemma init_consts_ok: "init_consts (runtime_new input) = Inr m \<Longrightarrow> consts_ok m"
  using init_consts_fills [of 256 input]
  by (auto simp: init_consts_def consts_ok_def consts_table_def runtime_new_def)

lemma consts_string:
  assumes "consts_ok m" and "k < 256"
  shows "string_at (Ptr 0 (2 * int k)) m = Inr (if k = 0 then [] else [word_of_nat k])"
proof -
  let ?f = "\<lambda>k. [word_of_nat k, 0 :: byte]"
  have "[0..<256] = [0..<k] @ k # [Suc k..<256]" 
    using assms(2) upt_add_eq_append [of 0 k "256 - k"] by (simp add: upt_conv_Cons)
  then have table: "blocks m ! 0 = concat (map ?f [0..<k]) @ word_of_nat k # 0 # concat (map ?f [Suc k..<256])"
    using assms(1) by (simp add: consts_ok_def consts_table_def)
  have ne: "0 < length (blocks m)" using assms(1) by (simp add: consts_ok_def)
  show ?thesis
  proof (cases "k = 0")
    case True
    then have "blocks m ! 0 = [] @ [] @ 0 # 0 # concat (map ?f [Suc k..<256])" using table by simp
    from string_atI [OF ne this] True show ?thesis by simp
  next
    case False
    then have "(word_of_nat k :: byte) \<noteq> 0"
      using assms(2) by (simp add: word_of_nat_eq_0_iff nat_dvd_not_less)
    then have "string_at (Ptr 0 (int (length (concat (map ?f [0..<k]))))) m = Inr [word_of_nat k]"
      by (intro string_atI [OF ne, of _ "[word_of_nat k]"]) (use table in auto)
    then show ?thesis using False by (simp add: length_pairs)
  qed
qed

text \<open>C29: concatenating two strings gives a string of the characters of the first and then of the second, and what
  is in memory stays as it is: at most one block is added.\<close>

theorem tc_concat_correct:
  assumes a: "string_at a m = Inr s" and b: "string_at b m = Inr t" and len: "length s + length t + 1 < 2 ^ 64"
    and ok: "malloc_ok (word_of_nat (length s + length t + 1)) m"
  shows "\<exists>p bs. tc_concat malloc_ok a b m = Inr (p, m\<lparr>blocks := blocks m @ bs\<rparr>) \<and> length bs \<le> 1 \<and>
    string_at p (m\<lparr>blocks := blocks m @ bs\<rparr>) = Inr (s @ t)"
proof -
  have un: "unat (word_of_nat k :: u64) = k" if "k < 2 ^ 64" for k using that by (simp add: unsigned_of_nat take_bit_nat_eq_self)
  have ls: "length s < 2 ^ 64" "length t < 2 ^ 64" "length s + length t < 2 ^ 64" using len by linarith+
  have zero: "(word_of_nat (length u) :: u64) = 0 \<longleftrightarrow> u = []" if "length u < 2 ^ 64" for u :: "byte list"
    unfolding unat_0_iff [symmetric] un [OF that] by simp
  let ?p = "Ptr (length (blocks m)) 0"
  show ?thesis
  proof (cases "s = [] \<or> t = []")
    case True
    then show ?thesis
      using a b zero ls by (intro exI [of _ "if s = [] then b else a"] exI [of _ "[]"]) (auto simp: tc_concat_def strlen_string)
  next
    case False
    let ?n = "length s + length t"
    let ?blk = "replicate (Suc ?n) (0 :: byte)"
    have n: "unat (word_of_nat (length s) + word_of_nat (length t) + 1 :: u64) = Suc ?n"
      "word_of_nat (length s) + word_of_nat (length t) + 1 = (word_of_nat (?n + 1) :: u64)"
      using un [OF len] by (simp_all add: ac_simps)
    have m1: "tc_init_string malloc_ok (word_of_nat (length s) + word_of_nat (length t) + 1) m = Inr (?p, with_block m ?blk)"
      unfolding tc_init_string_def n(2) by (subst tc_malloc_ok) (use ok un [OF len] in \<open>simp_all\<close>)
    have m2: "copy_bytes ?p a (length s) (with_block m ?blk) = Inr (with_block m (s @ drop (length s) ?blk))"
      using copy_bytes_fresh [OF a, of 0 "length s" 0 ?blk] by (simp add: ptr_add_def del: drop_replicate replicate.simps)
    have one: "replicate (Suc 0) 0 = [0 :: byte]" by simp
    have m3: "copy_bytes (ptr_add ?p (uint (word_of_nat (length s) :: u64))) b (length t)
        (with_block m (s @ drop (length s) ?blk)) = Inr (with_block m (s @ t @ [0]))"
      using copy_bytes_fresh [OF b, of 0 "length t" "length s" "s @ drop (length s) ?blk"] un [OF ls(1)]
      by (simp add: ptr_add_def uint_nat one del: replicate_Suc)
    have m4: "store_byte (ptr_add ?p (uint (word_of_nat (length s) + word_of_nat (length t) :: u64))) 0
        (with_block m (s @ t @ [0])) = Inr (with_block m (s @ t @ [0]))"
      using store_with_block [of ?n "s @ t @ [0]" m 0] un [OF ls(3)]
      by (simp add: ptr_add_def uint_nat list_update_append flip: of_nat_add)
    have "tc_concat malloc_ok a b m = Inr (?p, with_block m (s @ t @ [0]))"
      using False zero ls un m1 m2 m3 m4 by (simp add: tc_concat_def strlen_string [OF a] strlen_string [OF b] Let_def)
    moreover have "string_at ?p (with_block m (s @ t @ [0])) = Inr (s @ t)"
      by (rule string_atI [where xs = "[]" and rest = "[]"])
        (use string_atD(3) [OF a] string_atD(3) [OF b] in \<open>auto simp: with_block_def\<close>)
    ultimately show ?thesis
      by (intro exI [of _ ?p] exI [of _ "[s @ t @ [0]]"]) (simp add: with_block_def)
  qed
qed

lemma uint_sint_mod: "uint (w :: 'a :: len word) = sint w mod 2 ^ LENGTH('a)"
proof -
  have "uint (word_of_int (sint w) :: 'a word) = sint w mod 2 ^ LENGTH('a)" by (rule uint_word_of_int)
  moreover have "word_of_int (sint w) = w" by simp
  ultimately show ?thesis by simp
qed

lemma sint_nonneg:
  assumes "0 \<le> sint (a :: i64)"
  shows "sint a = int (unat a)" and "unat a < 2 ^ 63"
proof -
  have "sint a < 2 ^ 63" using sint_less [of a] by simp
  then have "uint a = sint a" using assms by (simp add: uint_sint_mod)
  then show "sint a = int (unat a)" by simp
  with \<open>sint a < 2 ^ 63\<close> have "int (unat a) < int (2 ^ 63)" by (simp del: of_nat_unat)
  then show "unat a < 2 ^ 63" by (simp only: of_nat_less_iff)
qed

lemma sum_le_signed:
  assumes "0 \<le> sint (a :: i64)" and "0 \<le> sint b" and "l < 2 ^ 64"
  shows "a + b \<le> word_of_nat l \<longleftrightarrow> sint a + sint b \<le> int l"
proof -
  note ab = sint_nonneg [OF assms(1)] sint_nonneg [OF assms(2)]
  then have "unat (a + b) = unat a + unat b" by (subst unat_add_lem [THEN iffD1]) simp_all
  moreover have "unat (word_of_nat l :: i64) = l" using assms(3) by (simp add: unsigned_of_nat take_bit_nat_eq_self)
  moreover have "sint a + sint b \<le> int l \<longleftrightarrow> unat a + unat b \<le> l" unfolding ab(1,3) by (simp flip: of_nat_add del: of_nat_unat)
  ultimately show ?thesis unfolding word_le_nat_alt by simp
qed

lemma unat_byte: "unat (c :: byte) < 256"
  using unsigned_less [of c, where ?'a = nat] by simp

lemma sint_byte: "sint (c :: byte) = (if 128 \<le> c then int (unat c) - 256 else int (unat c))"
proof -
  have c: "int (unat c) = sint c mod 256" using uint_sint_mod [of c] by simp
  have r: "- 128 \<le> sint c" "sint c < 128" using sint_greater_eq [of c] sint_less [of c] by simp_all
  have "sint c mod 256 = (if sint c < 0 then sint c + 256 else sint c)"
  proof (cases "sint c < 0")
    case True
    have "(sint c + 256) mod 256 = sint c + 256" by (rule mod_pos_pos_trivial) (use r True in simp_all)
    then show ?thesis using True by simp
  qed (use r in simp)
  then show ?thesis using c r by (auto simp: word_le_nat_alt simp del: of_nat_unat)
qed

lemma compare_bytes_0 [simp]: "compare_bytes s t = 0 \<longleftrightarrow> s = t"
  by (induction s t rule: compare_bytes.induct) auto

lemma tc_streq_equal:
  "string_at a m = Inr s \<Longrightarrow> string_at b m = Inr t \<Longrightarrow> tc_streq a b m = Inr (if s = t then 1 else 0)"
  by (simp add: tc_streq_def strcmp_def)

text \<open>C28: on a string of less than 2^31 bytes, \<open>substring\<close> exits when the bounds are wrong, and returns the
  characters asked for otherwise; but a single character above 127 is looked up before the table of characters, outside
  of any object.\<close>

theorem tc_substring_correct:
  assumes a: "string_at a m = Inr s" and len: "length s < 2 ^ 31" and c: "consts_ok m" and ok: "malloc_ok (n + 1) m"
  shows "if sint first < 0 \<or> sint n < 0 \<or> int (length s) < sint first + sint n
    then tc_substring malloc_ok a first n m = Inl (Runtime_exit 120)
    else if n = 1 \<and> 128 \<le> s ! nat (sint first)
    then \<exists>p. tc_substring malloc_ok a first n m = Inr (p, m) \<and> load_byte p m = Inl Bad_access
    else \<exists>p bs. tc_substring malloc_ok a first n m = Inr (p, m\<lparr>blocks := blocks m @ bs\<rparr>) \<and>
      string_at p (m\<lparr>blocks := blocks m @ bs\<rparr>) = Inr (take (nat (sint n)) (drop (nat (sint first)) s))"
    (is "if ?bad then _ else if ?high then _ else ?good")
proof -
  define f where "f = nat (sint first)"
  define k where "k = nat (sint n)"
  have sum: "first + n \<le> word_of_nat (length s) \<longleftrightarrow> sint first + sint n \<le> int (length s)"
    if "0 \<le> sint first" "0 \<le> sint n" using sum_le_signed [OF that] len by simp
  have test: "?bad \<longleftrightarrow> \<not> (0 \<le> sint first \<and> 0 \<le> sint n \<and> first + n \<le> word_of_nat (length s))"
    using sum by auto
  show ?thesis
  proof (cases ?bad)
    case True
    then show ?thesis using test by (simp add: tc_substring_def strlen_string [OF a])
  next
    case False
    then have fk: "sint first = int f" "sint n = int k" "f + k \<le> length s" by (auto simp: f_def k_def)
    have start: "tc_substring malloc_ok a first n m =
        (if n = 1 then bindE (load_byte (ptr_add a (int f)) m) (\<lambda>c. Inr (ptr_add consts_ptr (sint c * 2), m))
         else bindE (tc_init_string malloc_ok (n + 1) m) (\<lambda>(t, m1).
              bindE (copy_bytes t (ptr_add a (int f)) k m1) (\<lambda>m2.
              bindE (store_byte (ptr_add t (int k)) 0 m2) (\<lambda>m3. Inr (t, m3)))))"
      using False test fk len by (simp add: tc_substring_def strlen_string [OF a])
    show ?thesis
    proof (cases "n = 1")
      case True
      then have k: "k = 1" by (simp add: k_def)
      then have f: "f < length s" using fk(3) by simp
      then have run: "tc_substring malloc_ok a first n m = Inr (ptr_add consts_ptr (sint (s ! f) * 2), m)"
        using start True load_string [OF a f] by simp
      show ?thesis
      proof (cases "128 \<le> s ! f")
        case high: True
        then have "sint (s ! f) < 0" using unat_byte [of "s ! f"] by (simp add: sint_byte del: of_nat_unat)
        then have "load_byte (ptr_add consts_ptr (sint (s ! f) * 2)) m = Inl Bad_access" by (simp add: load_byte_def consts_ptr_def)
        then show ?thesis using False True high run f_def by auto
      next
        case low: False
        then have byte: "sint (s ! f) = int (unat (s ! f))" "unat (s ! f) < 256" using unat_byte by (simp_all add: sint_byte)
        have "s ! f \<noteq> 0" using string_atD(3) [OF a] nth_mem [OF f] by metis
        then have "string_at (ptr_add consts_ptr (sint (s ! f) * 2)) m = Inr [s ! f]"
          using consts_string [OF c byte(2)] by (simp add: byte(1) consts_ptr_def ptr_add_def mult.commute unat_0_iff)
        moreover have "take k (drop f s) = [s ! f]" using f k by (simp add: take_Suc hd_drop_conv_nth)
        ultimately have ?good using run by (intro exI [of _ "ptr_add consts_ptr (sint (s ! f) * 2)"] exI [of _ "[]"]) (simp add: f_def k_def)
        then show ?thesis using False low f_def by auto
      qed
    next
      case many: False
      let ?p = "Ptr (length (blocks m)) 0"
      let ?blk = "replicate (Suc k) (0 :: byte)"
      have size: "unat (n + 1) = Suc k"
      proof -
        have "unat n = k" using sint_nonneg(1) [of n] fk(2) by (simp del: of_nat_unat)
        then show ?thesis using fk(3) len by (subst unat_add_lem [THEN iffD1]) simp_all
      qed
      have m1: "tc_init_string malloc_ok (n + 1) m = Inr (?p, with_block m ?blk)"
        using tc_malloc_ok [of malloc_ok, OF ok] size by (simp add: tc_init_string_def)
      have one: "replicate (Suc 0) 0 = [0 :: byte]" by simp
      have m2: "copy_bytes ?p (ptr_add a (int f)) k (with_block m ?blk) = Inr (with_block m (take k (drop f s) @ [0]))"
        using copy_bytes_fresh [OF a, of f k 0 ?blk] fk(3) by (simp add: one del: replicate_Suc)
      have m3: "store_byte (ptr_add ?p (int k)) 0 (with_block m (take k (drop f s) @ [0])) =
          Inr (with_block m (take k (drop f s) @ [0]))"
        using store_with_block [of k "take k (drop f s) @ [0]" m 0] fk(3) by (simp add: ptr_add_def list_update_append)
      have "string_at ?p (with_block m (take k (drop f s) @ [0])) = Inr (take k (drop f s))"
        by (rule string_atI [where xs = "[]" and rest = "[]"])
          (use string_atD(3) [OF a] in \<open>auto simp: with_block_def dest: in_set_takeD in_set_dropD\<close>)
      then have ?good using start many m1 m2 m3
        by (intro exI [of _ ?p] exI [of _ "[take k (drop f s) @ [0]]"]) (simp add: with_block_def f_def k_def)
      then show ?thesis using False many by auto
    qed
  qed
qed

definition small_memory :: runtime where
  "small_memory = \<lparr>blocks = [consts_table, [104, 105, 106, 0], [107, 0]], stdin_bytes = [], stdout_text = [], stderr_text = []\<rparr>"

lemma small_memory_facts:
  "string_at (Ptr 1 0) small_memory = Inr [104, 105, 106]" "string_at (Ptr 2 0) small_memory = Inr [107]"
  "consts_ok small_memory"
  by (simp_all add: small_memory_def string_at_def from_ptr_def consts_ok_def)

theorem tc_concat_correct_witness:
  "\<exists>p bs. tc_concat (\<lambda>_ _. True) (Ptr 1 0) (Ptr 2 0) small_memory = Inr (p, small_memory\<lparr>blocks := blocks small_memory @ bs\<rparr>) \<and>
     length bs \<le> 1 \<and> string_at p (small_memory\<lparr>blocks := blocks small_memory @ bs\<rparr>) = Inr [104, 105, 106, 107]"
  using tc_concat_correct [OF small_memory_facts(1,2), of "\<lambda>_ _. True"] by simp

theorem tc_substring_correct_witness:
  "\<exists>p bs. tc_substring (\<lambda>_ _. True) (Ptr 1 0) 1 2 small_memory = Inr (p, small_memory\<lparr>blocks := blocks small_memory @ bs\<rparr>) \<and>
     string_at p (small_memory\<lparr>blocks := blocks small_memory @ bs\<rparr>) = Inr [105, 106]"
  using tc_substring_correct [OF small_memory_facts(1) _ small_memory_facts(3), of "\<lambda>_ _. True" 2 1] by simp

text \<open>C31: an array is filled with its element when eight times its length fits in 64 bits; otherwise the block is too
  short and the first element that it does not hold is written after its end.\<close>

theorem tc_init_array_bounds:
  assumes "malloc_ok (len * 8) m"
  shows "tc_init_array malloc_ok len elt m =
    (if 8 * unat len < 2 ^ 64
     then Inr (Ptr (length (blocks m)) 0, m\<lparr>blocks := blocks m @ [concat (replicate (unat len) (word_bytes elt))]\<rparr>)
     else Inl Bad_access)"
proof -
  have run: "tc_init_array malloc_ok len elt m =
      bindE (foldE (\<lambda>i. store_word (ptr_add (Ptr (length (blocks m)) 0) (8 * int i)) elt) [0..<unat len]
        (with_block m (replicate (unat (len * 8)) 0))) (\<lambda>m2. Inr (Ptr (length (blocks m)) 0, m2))"
    by (simp add: tc_init_array_def tc_malloc_ok assms)
  have size: "unat (len * 8) = 8 * unat len mod 2 ^ 64" by (simp add: unat_word_ariths mult.commute)
  show ?thesis
  proof (cases "8 * unat len < 2 ^ 64")
    case True
    then have "unat (len * 8) = 8 * unat len" using size by simp
    then show ?thesis
      using True array_loop_fresh [of "unat len" "unat len" m elt] by (simp add: run with_block_def)
  next
    case False
    have "8 * unat len mod 2 ^ 64 = 8 * (unat len mod 2 ^ 61)"
      using mult_mod_right [of 8 "unat len" "2 ^ 61"] by simp
    then obtain k where k: "unat (len * 8) = 8 * k" "k = unat len mod 2 ^ 61" using size by simp
    have "k < unat len" using k(2) False by (cases "unat len < 2 ^ 61") (auto intro: less_le_trans [OF mod_less_divisor])
    then have "[0..<unat len] = [0..<k] @ k # [Suc k..<unat len]"
      using upt_add_eq_append [of 0 k "unat len - k"] by (simp add: upt_conv_Cons)
    moreover have "store_word (ptr_add (Ptr (length (blocks m)) 0) (8 * int k)) elt
        (with_block m (concat (replicate k (word_bytes elt)))) = Inl Bad_access"
    proof -
      have "length (concat (replicate k (word_bytes elt))) = 8 * k" by (induction k) simp_all
      then show ?thesis using store_word_outside [of "concat (replicate k (word_bytes elt))" "8 * k"] by (simp add: ptr_add_def)
    qed
    ultimately show ?thesis
      using False array_loop_fresh [of k k m elt] by (simp add: run foldE_append k(1))
  qed
qed

text \<open>C30: \<open>ord\<close> gives back the number that \<open>chr\<close> was called with only from 1 to 127: it is -1 for the character 0, which
  makes an empty string, and the numbers above 127 come back negative.\<close>

theorem tc_ord_chr:
  assumes "consts_ok m"
  shows "bindE (tc_chr i) (\<lambda>p. tc_ord p m) =
    (if sint i < 0 \<or> 255 < sint i then Inl (Runtime_exit 120)
     else if i = 0 then Inr (- 1) else if sint i < 128 then Inr i else Inr (i - 256))"
proof (cases "sint i < 0 \<or> 255 < sint i")
  case True
  then show ?thesis by (auto simp: tc_chr_def)
next
  case False
  define k where "k = unat i"
  have i: "i = word_of_nat k" by (simp add: k_def)
  have "sint i = int k" "k < 256" using False sint_nonneg(1) [of i] by (auto simp: k_def simp del: of_nat_unat)
  note k = this i
  have ptr: "tc_chr i = Inr (Ptr 0 (2 * int k))" using False k by (simp add: tc_chr_def ptr_add_def consts_ptr_def)
  note str = consts_string [OF assms k(2)]
  show ?thesis
  proof (cases "k = 0")
    case True
    then have "i = 0" using k(3) by simp
    then show ?thesis using str True ptr by (simp add: tc_ord_def strlen_string)
  next
    case nz: False
    then have "i \<noteq> 0" using k(1) by auto
    have "load_byte (Ptr 0 (2 * int k)) m = Inr (word_of_nat k)"
      using load_string [OF str, of 0] nz by (simp add: ptr_add_def)
    then have "tc_ord (Ptr 0 (2 * int k)) m = Inr (scast (word_of_nat k :: byte))"
      using str nz by (simp add: tc_ord_def strlen_string)
    moreover have "scast (word_of_nat k :: byte) = (if k < 128 then i else i - 256)"
    proof -
      have "unat (word_of_nat k :: byte) = k" using k(2) by (simp add: unsigned_of_nat take_bit_nat_eq_self)
      then have "sint (word_of_nat k :: byte) = (if k < 128 then int k else int k - 256)"
        by (simp add: sint_byte word_le_nat_alt del: of_nat_unat)
      then have "(word_of_int (sint (word_of_nat k :: byte)) :: i64) = (if k < 128 then i else i - 256)"
        using k(3) by simp
      then show ?thesis by simp
    qed
    ultimately show ?thesis using False ptr \<open>i \<noteq> 0\<close> k(1) by simp
  qed
qed

theorem tc_init_array_bounds_witness:
  "tc_init_array (\<lambda>_ _. True) (2 ^ 61) 7 small_memory = Inl Bad_access \<and>
   tc_init_array (\<lambda>_ _. True) 2 7 small_memory =
     Inr (Ptr 3 0, small_memory\<lparr>blocks := blocks small_memory @ [word_bytes 7 @ word_bytes 7]\<rparr>)"
proof -
  have "concat (replicate 2 xs) = xs @ xs" for xs :: "byte list" by (simp add: numeral_2_eq_2)
  then show ?thesis
    using tc_init_array_bounds [of "\<lambda>_ _. True" "2 ^ 61" small_memory 7]
      tc_init_array_bounds [of "\<lambda>_ _. True" 2 small_memory 7]
    by (simp add: small_memory_def)
qed

theorem tc_ord_chr_witness:
  "bindE (tc_chr 200) (\<lambda>p. tc_ord p small_memory) = Inr (- 56) \<and> bindE (tc_chr 65) (\<lambda>p. tc_ord p small_memory) = Inr 65"
  using tc_ord_chr [OF small_memory_facts(3), of 200] tc_ord_chr [OF small_memory_facts(3), of 65] by simp

end
