(* ===== verification/Tiger_Gc.thy ===== *)
theory Tiger_Gc
  imports Tiger_Prelude
begin

text \<open>
  \<^verbatim>\<open>src/src/llvmgc/runtime\<close>: the allocator and the collector that compiled programs are linked with.  An
  object is known by the pointer to its field \<open>f\<close>, which is what the program sees; its size is in bytes and its
  contents are words.  \<open>calloc\<close> is an argument, that gives the pointer or nothing; \<open>node_ok\<close> tells whether the
  \<open>malloc\<close> of a list node succeeds, and \<open>stack\<close> is the words between the frame of \<open>gc_collect\<close> and the top of the
  stack.
\<close>

section \<open>The model of the code\<close>

type_synonym tc_word = "64 word"

record gc_ctx =
  heap :: "tc_word list"
  gc_enabled :: bool
  marked :: "tc_word \<Rightarrow> bool"
  obj_size :: "tc_word \<Rightarrow> tc_word"
  contents :: "tc_word \<Rightarrow> tc_word list"
  freed :: "tc_word list"

definition gc_new :: gc_ctx where
  "gc_new = \<lparr>heap = [], gc_enabled = True, marked = \<lambda>_. False, obj_size = \<lambda>_. 0, contents = \<lambda>_. [], freed = []\<rparr>"

primrec find_in_heap :: "tc_word \<Rightarrow> tc_word list \<Rightarrow> tc_word option" where
  "find_in_heap node [] = None"
| "find_in_heap node (obj # objs) = (if obj \<noteq> node then find_in_heap node objs else Some obj)"

definition words_of :: "gc_ctx \<Rightarrow> tc_word \<Rightarrow> tc_word list" where
  "words_of g obj = map (\<lambda>i. contents g obj ! i) [0..<unat (obj_size g obj) div 8]"

text \<open>A bound on the depth of the calls.\<close>

primrec DFS :: "nat \<Rightarrow> tc_word \<Rightarrow> gc_ctx \<Rightarrow> gc_ctx res" where
  "DFS 0 = (\<lambda>node g. Inl No_fuel)"
| "DFS (Suc n) = (\<lambda>node g. case find_in_heap node (heap g) of
     None \<Rightarrow> Inr g
   | Some obj \<Rightarrow>
       if \<not> marked g obj then foldE (DFS n) (words_of g obj) (g\<lparr>marked := (marked g)(obj := True)\<rparr>) else Inr g)"

fun sweep :: "tc_word list \<Rightarrow> gc_ctx \<Rightarrow> tc_word list \<times> gc_ctx" where
  "sweep [] g = ([], g)"
| "sweep (h # hs) g =
     (if marked g h then let (kept, g') = sweep hs (g\<lparr>marked := (marked g)(h := False)\<rparr>) in (h # kept, g')
      else sweep hs (g\<lparr>freed := freed g @ [h]\<rparr>))"

definition gc_collect :: "nat \<Rightarrow> tc_word list \<Rightarrow> gc_ctx \<Rightarrow> gc_ctx res" where
  "gc_collect n stack g =
     (if \<not> gc_enabled g then Inr g
      else bindE (foldE (DFS n) stack g) (\<lambda>g1. let (kept, g2) = sweep (heap g1) g1 in Inr (g2\<lparr>heap := kept\<rparr>)))"

text \<open>A block of \<open>16 + size\<close> bytes: the header does not fit when the sum has wrapped around.\<close>

definition add_object :: "bool \<Rightarrow> tc_word \<Rightarrow> tc_word \<Rightarrow> gc_ctx \<Rightarrow> (tc_word \<times> gc_ctx) res" where
  "add_object node_ok bytes f g =
     (if \<not> node_ok then Inl (Runtime_exit 1)
      else if unat (16 + bytes) < 16 then Inl Bad_access
      else Inr (f, g\<lparr>heap := f # heap g, marked := (marked g)(f := False), obj_size := (obj_size g)(f := bytes),
                    contents := (contents g)(f := replicate (unat bytes div 8) 0)\<rparr>))"

definition tc_malloc_gc ::
  "nat \<Rightarrow> (tc_word \<Rightarrow> gc_ctx \<Rightarrow> tc_word option) \<Rightarrow> bool \<Rightarrow> tc_word list \<Rightarrow> tc_word \<Rightarrow> gc_ctx \<Rightarrow> (tc_word \<times> gc_ctx) res" where
  "tc_malloc_gc n calloc node_ok stack bytes g = (case calloc (16 + bytes) g of
     Some f \<Rightarrow> add_object node_ok bytes f g
   | None \<Rightarrow> bindE (gc_collect n stack g) (\<lambda>g1. case calloc (16 + bytes) g1 of
       None \<Rightarrow> Inl (Runtime_exit 1)
     | Some f \<Rightarrow> add_object node_ok bytes f g1))"

definition tc_init_string_gc ::
  "nat \<Rightarrow> (tc_word \<Rightarrow> gc_ctx \<Rightarrow> tc_word option) \<Rightarrow> bool \<Rightarrow> tc_word list \<Rightarrow> tc_word \<Rightarrow> gc_ctx \<Rightarrow> (tc_word \<times> gc_ctx) res" where
  "tc_init_string_gc n calloc node_ok stack bytes = tc_malloc_gc n calloc node_ok stack bytes"

definition tc_init_record_gc ::
  "nat \<Rightarrow> (tc_word \<Rightarrow> gc_ctx \<Rightarrow> tc_word option) \<Rightarrow> bool \<Rightarrow> tc_word list \<Rightarrow> tc_word \<Rightarrow> gc_ctx \<Rightarrow> (tc_word \<times> gc_ctx) res" where
  "tc_init_record_gc n calloc node_ok stack bytes = tc_malloc_gc n calloc node_ok stack bytes"

definition set_word :: "tc_word \<Rightarrow> tc_word \<Rightarrow> nat \<Rightarrow> gc_ctx \<Rightarrow> gc_ctx res" where
  "set_word f w i g =
     (if i < length (contents g f) then Inr (g\<lparr>contents := (contents g)(f := (contents g f)[i := w])\<rparr>)
      else Inl Bad_access)"

definition tc_init_array_gc ::
  "nat \<Rightarrow> (tc_word \<Rightarrow> gc_ctx \<Rightarrow> tc_word option) \<Rightarrow> bool \<Rightarrow> tc_word list \<Rightarrow> tc_word \<Rightarrow> tc_word \<Rightarrow> gc_ctx
   \<Rightarrow> (tc_word \<times> gc_ctx) res" where
  "tc_init_array_gc n calloc node_ok stack len elt g =
     bindE (tc_malloc_gc n calloc node_ok stack (len * 8) g) (\<lambda>(f, g1).
     bindE (foldE (set_word f elt) [0..<unat len] g1) (\<lambda>g2. Inr (f, g2)))"

definition tc_init_ptr_array_gc ::
  "nat \<Rightarrow> (tc_word \<Rightarrow> gc_ctx \<Rightarrow> tc_word option) \<Rightarrow> bool \<Rightarrow> tc_word list \<Rightarrow> tc_word \<Rightarrow> tc_word \<Rightarrow> gc_ctx
   \<Rightarrow> (tc_word \<times> gc_ctx) res" where
  "tc_init_ptr_array_gc n calloc node_ok stack len elt g =
     bindE (tc_malloc_gc n calloc node_ok stack (len * 8) g) (\<lambda>(f, g1).
     bindE (foldE (set_word f elt) [0..<unat len] g1) (\<lambda>g2. Inr (f, g2)))"

definition tc_gc_enable :: "tc_word \<Rightarrow> gc_ctx \<Rightarrow> gc_ctx" where
  "tc_gc_enable enable g = g\<lparr>gc_enabled := (enable \<noteq> 0)\<rparr>"

definition tc_gc_run :: "nat \<Rightarrow> tc_word list \<Rightarrow> gc_ctx \<Rightarrow> gc_ctx res" where
  "tc_gc_run n stack g = gc_collect n stack g"

section \<open>What is reachable\<close>

text \<open>The objects of \<open>H\<close> that are reached from \<open>S\<close> through the words \<open>F\<close> of objects, without entering \<open>M\<close>.\<close>

inductive_set gc_reached :: "tc_word set \<Rightarrow> (tc_word \<Rightarrow> tc_word list) \<Rightarrow> tc_word set \<Rightarrow> tc_word set \<Rightarrow> tc_word set"
  for H :: "tc_word set" and F :: "tc_word \<Rightarrow> tc_word list" and M :: "tc_word set" and S :: "tc_word set" where
  root: "w \<in> S \<Longrightarrow> w \<in> H \<Longrightarrow> w \<notin> M \<Longrightarrow> w \<in> gc_reached H F M S"
| step: "x \<in> gc_reached H F M S \<Longrightarrow> w \<in> set (F x) \<Longrightarrow> w \<in> H \<Longrightarrow> w \<notin> M \<Longrightarrow> w \<in> gc_reached H F M S"

lemma reached_fresh: "x \<in> gc_reached H F M S \<Longrightarrow> x \<in> H \<and> x \<notin> M"
  by (induction rule: gc_reached.induct) auto

lemma reached_empty [simp]: "gc_reached H F M {} = {}"
proof -
  have "x \<in> gc_reached H F M {} \<Longrightarrow> False" for x by (induction rule: gc_reached.induct) auto
  then show ?thesis by blast
qed

lemma reached_mono: "x \<in> gc_reached H F M S \<Longrightarrow> M' \<subseteq> M \<Longrightarrow> S \<subseteq> S' \<Longrightarrow> x \<in> gc_reached H F M' S'"
  by (induction rule: gc_reached.induct) (auto intro: gc_reached.intros)

lemma reached_Un:
  "gc_reached H F M (S \<union> T) = gc_reached H F M S \<union> gc_reached H F (M \<union> gc_reached H F M S) T" (is "?A = ?B \<union> ?C")
proof
  have "x \<in> ?A \<Longrightarrow> x \<in> ?B \<union> ?C" for x
  proof (induction rule: gc_reached.induct)
    case (root w)
    then show ?case by (cases "w \<in> ?B") (auto intro: gc_reached.intros)
  next
    case (step x w)
    then show ?case by (cases "w \<in> ?B") (auto intro: gc_reached.intros)
  qed
  then show "?A \<subseteq> ?B \<union> ?C" by blast
  have "x \<in> ?B \<Longrightarrow> x \<in> ?A" for x by (erule reached_mono) auto
  moreover have "x \<in> ?C \<Longrightarrow> x \<in> ?A" for x by (erule reached_mono) auto
  ultimately show "?B \<union> ?C \<subseteq> ?A" by blast
qed

lemma reached_object:
  assumes "obj \<in> H" and "obj \<notin> M"
  shows "gc_reached H F M {obj} = insert obj (gc_reached H F (insert obj M) (set (F obj)))" (is "?A = insert obj ?B")
proof
  have "x \<in> ?A \<Longrightarrow> x \<in> insert obj ?B" for x
  proof (induction rule: gc_reached.induct)
    case (step x w)
    then show ?case by (cases "w = obj") (auto intro: gc_reached.intros)
  qed simp
  then show "?A \<subseteq> insert obj ?B" by blast
  have obj: "obj \<in> ?A" by (rule gc_reached.root) (use assms in auto)
  have "x \<in> ?B \<Longrightarrow> x \<in> ?A" for x
    by (induction rule: gc_reached.induct) (auto intro: gc_reached.step [OF obj] gc_reached.step)
  with obj show "insert obj ?B \<subseteq> ?A" by blast
qed

lemma reached_outside: "w \<notin> H \<or> w \<in> M \<Longrightarrow> gc_reached H F M {w} = {}"
proof -
  assume out: "w \<notin> H \<or> w \<in> M"
  have "x \<in> gc_reached H F M {w} \<Longrightarrow> False" for x by (induction rule: gc_reached.induct) (use out in auto)
  then show ?thesis by blast
qed

definition reachable :: "gc_ctx \<Rightarrow> tc_word list \<Rightarrow> tc_word set" where
  "reachable g roots = gc_reached (set (heap g)) (words_of g) {} (set roots)"

lemma reachable_heap: "reachable g stack \<subseteq> set (heap g)"
  by (auto simp: reachable_def dest: reached_fresh)

section \<open>Marking\<close>

lemma find_in_heap_simp: "find_in_heap w hs = (if w \<in> set hs then Some w else None)"
  by (induction hs) auto

definition unmarked :: "gc_ctx \<Rightarrow> nat" where
  "unmarked g = card {x \<in> set (heap g). \<not> marked g x}"

text \<open>What marking from \<open>S\<close> does.\<close>

definition marks_from :: "tc_word set \<Rightarrow> gc_ctx \<Rightarrow> gc_ctx \<Rightarrow> bool" where
  "marks_from S g g' \<longleftrightarrow> (\<exists>m. g' = g\<lparr>marked := m\<rparr> \<and>
     {x. m x} = {x. marked g x} \<union> gc_reached (set (heap g)) (words_of g) {x. marked g x} S)"

lemma marks_from_unmarked: "marks_from S g g' \<Longrightarrow> unmarked g' \<le> unmarked g"
  unfolding marks_from_def unmarked_def by (auto intro!: card_mono)

lemma words_of_marked [simp]: "words_of (g\<lparr>marked := m\<rparr>) = words_of g"
  by (simp add: words_of_def fun_eq_iff)

lemma marks_from_trans:
  assumes "marks_from S g g1" and "marks_from T g1 g2"
  shows "marks_from (S \<union> T) g g2"
proof -
  obtain m1 where g1: "g1 = g\<lparr>marked := m1\<rparr>"
    and m1: "{x. m1 x} = {x. marked g x} \<union> gc_reached (set (heap g)) (words_of g) {x. marked g x} S"
    using assms(1) by (auto simp: marks_from_def)
  obtain m2 where g2: "g2 = g\<lparr>marked := m2\<rparr>"
    and m2: "{x. m2 x} = {x. m1 x} \<union> gc_reached (set (heap g)) (words_of g) {x. m1 x} T"
    using assms(2) by (auto simp: marks_from_def g1)
  have "{x. m2 x} = {x. marked g x} \<union> gc_reached (set (heap g)) (words_of g) {x. marked g x} (S \<union> T)"
    unfolding reached_Un m2 m1 by blast
  then show ?thesis using g2 by (auto simp: marks_from_def)
qed

lemma marks_fold:
  assumes "\<And>w g. unmarked g < n \<Longrightarrow> \<exists>g'. f w g = Inr g' \<and> marks_from {w} g g'" and "unmarked g < n"
  shows "\<exists>g'. foldE f ws g = Inr g' \<and> marks_from (set ws) g g'"
  using assms(2)
proof (induction ws arbitrary: g)
  case Nil
  then show ?case by (auto simp: marks_from_def intro!: exI [of _ "marked g"])
next
  case (Cons w ws)
  then obtain g1 where g1: "f w g = Inr g1" "marks_from {w} g g1" using assms(1) by blast
  then have "unmarked g1 < n" using marks_from_unmarked [OF g1(2)] Cons.prems by simp
  from Cons.IH [OF this] obtain g2 where "foldE f ws g1 = Inr g2" "marks_from (set ws) g1 g2" by blast
  then show ?case using g1 marks_from_trans [OF g1(2)] by auto
qed

lemma DFS_marks: "unmarked g < n \<Longrightarrow> \<exists>g'. DFS n w g = Inr g' \<and> marks_from {w} g g'"
proof (induction n arbitrary: w g)
  case (Suc n)
  show ?case
  proof (cases "w \<in> set (heap g) \<and> \<not> marked g w")
    case False
    then have "DFS (Suc n) w g = Inr g" by (auto simp: find_in_heap_simp)
    moreover have "marks_from {w} g g" using False by (auto simp: marks_from_def reached_outside intro!: exI [of _ "marked g"])
    ultimately show ?thesis by blast
  next
    case True
    let ?g = "g\<lparr>marked := (marked g)(w := True)\<rparr>"
    have "{x \<in> set (heap ?g). \<not> marked ?g x} = {x \<in> set (heap g). \<not> marked g x} - {w}" by auto
    then have "unmarked ?g < unmarked g" unfolding unmarked_def by (simp only:) (rule card_Diff1_less, use True in auto)
    then have "unmarked ?g < n" using Suc.prems by simp
    from marks_fold [OF Suc.IH this] obtain g' where
      g': "foldE (DFS n) (words_of g w) ?g = Inr g'" "marks_from (set (words_of g w)) ?g g'" by blast
    then have "DFS (Suc n) w g = Inr g'" using True by (simp add: find_in_heap_simp)
    moreover have "marks_from {w} g g'"
    proof -
      have "{x. ((marked g)(w := True)) x} = insert w {x. marked g x}" by auto
      then show ?thesis
        using g'(2) reached_object [of w "set (heap g)" "{x. marked g x}" "words_of g"] True
        by (auto simp: marks_from_def)
    qed
    ultimately show ?thesis by blast
  qed
qed simp

section \<open>Collecting\<close>

lemma sweep_filters:
  "distinct hs \<Longrightarrow> sweep hs g =
     (filter (marked g) hs,
      g\<lparr>marked := \<lambda>x. marked g x \<and> x \<notin> set hs, freed := freed g @ filter (\<lambda>x. \<not> marked g x) hs\<rparr>)"
proof (induction hs arbitrary: g)
  case (Cons h hs)
  have same: "filter ((marked g)(h := False)) hs = filter (marked g) hs"
    "filter (\<lambda>x. \<not> ((marked g)(h := False)) x) hs = filter (\<lambda>x. \<not> marked g x) hs"
    using Cons.prems by (auto intro!: filter_cong split: if_splits)
  have marks: "(\<lambda>x. ((marked g)(h := False)) x \<and> x \<notin> set hs) = (\<lambda>x. marked g x \<and> x \<noteq> h \<and> x \<notin> set hs)" by auto
  show ?case
  proof (cases "marked g h")
    case True
    then show ?thesis using Cons same marks by simp
  next
    case False
    then have "(\<lambda>x. marked g x \<and> x \<notin> set hs) = (\<lambda>x. marked g x \<and> x \<noteq> h \<and> x \<notin> set hs)" by auto
    then show ?thesis using False Cons by simp
  qed
qed simp

text \<open>Between two collections: the objects differ, none is marked, and each has the words of its size.\<close>

definition gc_ok :: "gc_ctx \<Rightarrow> bool" where
  "gc_ok g \<longleftrightarrow> distinct (heap g) \<and> marked g = (\<lambda>_. False) \<and>
     (\<forall>x \<in> set (heap g). length (contents g x) = unat (obj_size g x) div 8)"

lemma gc_collect_runs:
  assumes "gc_ok g" and "gc_enabled g" and "length (heap g) < n"
  shows "gc_collect n stack g =
    Inr (g\<lparr>heap := filter (\<lambda>x. x \<in> reachable g stack) (heap g),
          freed := freed g @ filter (\<lambda>x. x \<notin> reachable g stack) (heap g)\<rparr>)"
proof -
  have none: "{x. marked g x} = {}" and dist: "distinct (heap g)" using assms(1) by (simp_all add: gc_ok_def)
  have "unmarked g \<le> card (set (heap g))" unfolding unmarked_def by (intro card_mono) auto
  then have "unmarked g < n" using assms(3) card_length [of "heap g"] by simp
  from marks_fold [where f = "DFS n", OF DFS_marks this] obtain m where run: "foldE (DFS n) stack g = Inr (g\<lparr>marked := m\<rparr>)"
    and m: "{x. m x} = reachable g stack"
    by (auto simp: marks_from_def none reachable_def)
  have m_iff: "m x \<longleftrightarrow> x \<in> reachable g stack" for x using m by blast
  have "reachable g stack \<subseteq> set (heap g)" by (rule reachable_heap)
  then have clean: "(\<lambda>x. m x \<and> x \<notin> set (heap g)) = marked g" using none m_iff by blast
  have "sweep (heap g) (g\<lparr>marked := m\<rparr>) = (filter m (heap g),
      g\<lparr>marked := \<lambda>x. m x \<and> x \<notin> set (heap g), freed := freed g @ filter (\<lambda>x. \<not> m x) (heap g)\<rparr>)"
    using sweep_filters [OF dist, of "g\<lparr>marked := m\<rparr>"] by simp
  then have "gc_collect n stack g =
      Inr (g\<lparr>heap := filter m (heap g), freed := freed g @ filter (\<lambda>x. \<not> m x) (heap g)\<rparr>)"
    unfolding clean using assms(2) run by (simp add: gc_collect_def)
  then show ?thesis unfolding m_iff .
qed

text \<open>C26: a collection ends, and frees exactly the objects that are not reachable from the stack; the others keep
  their contents, their order and no mark.\<close>

theorem gc_collect_exact:
  assumes "gc_ok g" and "gc_enabled g" and "length (heap g) < n"
  shows "gc_collect n stack g =
    Inr (g\<lparr>heap := filter (\<lambda>x. x \<in> reachable g stack) (heap g),
          freed := freed g @ filter (\<lambda>x. x \<notin> reachable g stack) (heap g)\<rparr>)"
  by (rule gc_collect_runs [OF assms])

lemma gc_collect_disabled: "\<not> gc_enabled g \<Longrightarrow> gc_collect n stack g = Inr g"
  by (simp add: gc_collect_def)

lemma gc_collect_keeps:
  assumes "gc_ok g" and "length (heap g) < n"
  shows "\<exists>hs fs. gc_collect n stack g = Inr (g\<lparr>heap := hs, freed := fs\<rparr>) \<and> gc_ok (g\<lparr>heap := hs, freed := fs\<rparr>) \<and>
    reachable g stack \<subseteq> set hs \<and> set hs \<subseteq> set (heap g)"
proof -
  have sub: "reachable g stack \<subseteq> set (heap g)" by (rule reachable_heap)
  show ?thesis
  proof (cases "gc_enabled g")
    case True
    let ?hs = "filter (\<lambda>x. x \<in> reachable g stack) (heap g)"
    let ?fs = "freed g @ filter (\<lambda>x. x \<notin> reachable g stack) (heap g)"
    have "gc_ok (g\<lparr>heap := ?hs, freed := ?fs\<rparr>)" using assms(1) by (simp add: gc_ok_def)
    moreover have "gc_collect n stack g = Inr (g\<lparr>heap := ?hs, freed := ?fs\<rparr>)"
      by (rule gc_collect_runs [OF assms(1) True assms(2)])
    moreover have "reachable g stack \<subseteq> set ?hs" "set ?hs \<subseteq> set (heap g)" using sub by auto
    ultimately show ?thesis by blast
  next
    case False
    then show ?thesis
      using assms(1) sub by (intro exI [of _ "heap g"] exI [of _ "freed g"]) (simp add: gc_collect_disabled)
  qed
qed

text \<open>C27: an allocation ends, with a new object of zeros, or the exit of the program; it keeps the heap well formed and
  every object that is reachable from the stack, with its contents, although it may collect.\<close>

theorem tc_malloc_safe:
  assumes "gc_ok g" and "length (heap g) < n" and fresh: "\<And>k g f. calloc k g = Some f \<Longrightarrow> f \<notin> set (heap g)"
    and "unat bytes < 2 ^ 64 - 16"
  shows "tc_malloc_gc n calloc node_ok stack bytes g = Inl (Runtime_exit 1) \<or>
    (\<exists>f g'. tc_malloc_gc n calloc node_ok stack bytes g = Inr (f, g') \<and> gc_ok g' \<and> f \<in> set (heap g') \<and>
       contents g' f = replicate (unat bytes div 8) 0 \<and> obj_size g' f = bytes \<and> f \<notin> reachable g stack \<and>
       (\<forall>x \<in> reachable g stack. x \<in> set (heap g') \<and> contents g' x = contents g x))"
proof -
  have "unat (16 + bytes) = 16 + unat bytes" by (subst unat_add_lem [THEN iffD1]) (use assms(4) in simp_all)
  then have fits: "\<not> unat (16 + bytes) < 16" by simp
  have adds: "add_object node_ok bytes f h = Inl (Runtime_exit 1) \<or>
      (\<exists>g'. add_object node_ok bytes f h = Inr (f, g') \<and> gc_ok g' \<and> f \<in> set (heap g') \<and>
       contents g' f = replicate (unat bytes div 8) 0 \<and> obj_size g' f = bytes \<and> f \<notin> reachable g stack \<and>
       (\<forall>x \<in> reachable g stack. x \<in> set (heap g') \<and> contents g' x = contents g x))"
    if "gc_ok h" "f \<notin> set (heap h)" "reachable g stack \<subseteq> set (heap h)" "contents h = contents g" for f h
  proof (cases node_ok)
    case True
    let ?g = "h\<lparr>heap := f # heap h, marked := (marked h)(f := False), obj_size := (obj_size h)(f := bytes),
      contents := (contents h)(f := replicate (unat bytes div 8) 0)\<rparr>"
    have run: "add_object node_ok bytes f h = Inr (f, ?g)" using True fits by (simp add: add_object_def)
    have "gc_ok ?g" using that(1,2) by (auto simp: gc_ok_def)
    moreover have "f \<notin> reachable g stack" using that(2,3) by blast
    moreover have "\<forall>x \<in> reachable g stack. x \<in> set (heap ?g) \<and> contents ?g x = contents g x" using that(2-4) by auto
    ultimately show ?thesis using run by simp
  qed (simp add: add_object_def)
  show ?thesis
  proof (cases "calloc (16 + bytes) g")
    case (Some f)
    have "reachable g stack \<subseteq> set (heap g)" by (rule reachable_heap)
    from adds [OF assms(1) fresh [OF Some] this refl] show ?thesis by (auto simp: tc_malloc_gc_def Some)
  next
    case None
    obtain hs fs where h: "gc_collect n stack g = Inr (g\<lparr>heap := hs, freed := fs\<rparr>)" "gc_ok (g\<lparr>heap := hs, freed := fs\<rparr>)"
      "reachable g stack \<subseteq> set hs" using gc_collect_keeps [OF assms(1,2)] by blast
    show ?thesis
    proof (cases "calloc (16 + bytes) (g\<lparr>heap := hs, freed := fs\<rparr>)")
      case again: (Some f)
      from adds [OF h(2) fresh [OF again]] h(3) show ?thesis by (auto simp: tc_malloc_gc_def None h(1) again)
    qed (simp add: tc_malloc_gc_def None h(1))
  qed
qed

text \<open>Two objects that point to each other, and one that nothing points to.\<close>

definition small_heap :: gc_ctx where
  "small_heap = \<lparr>heap = [48, 32, 16], gc_enabled = True, marked = \<lambda>_. False, obj_size = \<lambda>_. 8,
     contents = (\<lambda>_. [0])(16 := [32], 32 := [16]), freed = []\<rparr>"

lemma small_heap_ok: "gc_ok small_heap" "gc_enabled small_heap" "heap small_heap = [48, 32, 16]"
  by (simp_all add: gc_ok_def small_heap_def)

theorem gc_collect_exact_witness:
  "\<exists>g. gc_collect 4 [7, 16] small_heap = Inr g \<and> heap g = [32, 16] \<and> freed g = [48] \<and>
   filter (\<lambda>x. x \<in> reachable small_heap [7, 16]) [48, 32, 16] = [32, 16]"
proof -
  have run: "case gc_collect 4 [7, 16] small_heap of Inl _ \<Rightarrow> False | Inr g \<Rightarrow> heap g = [32, 16] \<and> freed g = [48]"
    by code_simp
  have "length (heap small_heap) < 4" by (simp add: small_heap_ok)
  from gc_collect_exact [OF small_heap_ok(1,2) this, of "[7, 16]"] run show ?thesis
    by (simp only: sum.case small_heap_ok(3)) simp
qed

theorem tc_malloc_safe_witness:
  "\<exists>f g'. tc_malloc_gc 4 (\<lambda>k g. if 64 \<in> set (heap g) then None else Some 64) True [7, 16] 24 small_heap = Inr (f, g') \<and>
     gc_ok g' \<and> contents g' f = [0, 0, 0] \<and> (\<forall>x \<in> reachable small_heap [7, 16]. x \<in> set (heap g'))"
proof -
  let ?c = "\<lambda>k :: tc_word. \<lambda>g. if 64 \<in> set (heap g) then None else Some (64 :: tc_word)"
  have fresh: "?c k g = Some f \<Longrightarrow> f \<notin> set (heap g)" for k g f by (auto split: if_splits)
  have len: "length (heap small_heap) < 4" "unat (24 :: tc_word) < 2 ^ 64 - 16" by (simp_all add: small_heap_ok)
  have "tc_malloc_gc 4 ?c True [7, 16] 24 small_heap \<noteq> Inl (Runtime_exit 1)"
    by (simp add: tc_malloc_gc_def add_object_def small_heap_ok)
  with tc_malloc_safe [of small_heap 4 ?c, OF small_heap_ok(1) len(1) fresh len(2), of True "[7, 16]"]
  show ?thesis by (auto simp: numeral_3_eq_3)
qed

text \<open>The element of an array of pointers is not a root: when no word of the stack holds it, the array is filled with a
  pointer to an object that the allocation has freed.\<close>

lemma ptr_array_dangling:
  "case tc_init_ptr_array_gc 4 (\<lambda>k g. if 48 \<in> set (heap g) then None else Some 64) True [16] 1 48 small_heap of
     Inl _ \<Rightarrow> False
   | Inr (f, g') \<Rightarrow> contents g' f = [48] \<and> freed g' = [48]"
  by code_simp

end
