(* ===== verification/Misc_Scoped_Map.thy ===== *)
theory Misc_Scoped_Map
  imports Tiger_Prelude
begin

text \<open>
  \<^verbatim>\<open>lib/misc/scoped-map.hh\<close>, \<^verbatim>\<open>lib/misc/scoped-map.hxx\<close>: the stack of dictionaries that
  implements the symbol tables.  The vector of maps is a list whose head is the vector's
  \<open>back()\<close>, the innermost scope.  The interface a client relies on is the locale
  \<open>symbol_table\<close>; its interpretation on the code's model is at the end.
\<close>

section \<open>The model of the code\<close>

record ('k, 'd) scoped_map =
  scopes :: "('k \<rightharpoonup> 'd) list"

definition sm_scope_begin :: "('k, 'd) scoped_map \<Rightarrow> ('k, 'd) scoped_map" where
  "sm_scope_begin m = m\<lparr>scopes := Map.empty # scopes m\<rparr>"

text \<open>The constructor starts from the empty vector and opens a first scope.\<close>

definition sm_new :: "('k, 'd) scoped_map" where
  "sm_new = sm_scope_begin \<lparr>scopes = []\<rparr>"

definition sm_put :: "'k \<Rightarrow> 'd \<Rightarrow> ('k, 'd) scoped_map \<Rightarrow> ('k, 'd) scoped_map res" where
  "sm_put k d m =
     (case scopes m of
        [] \<Rightarrow> Inl Logic_error
      | back # rest \<Rightarrow>
          if k \<in> dom back
          then Inr (m\<lparr>scopes := back(k := Some d) # rest\<rparr>)
          else Inr (m\<lparr>scopes := back(k \<mapsto> d) # rest\<rparr>))"

text \<open>
  \<open>get\<close> on pointer data: the loop from \<open>rbegin\<close> to \<open>rend\<close>, innermost scope first; \<open>None\<close> is
  \<open>nullptr\<close>.
\<close>

fun sm_get_loop :: "('k \<rightharpoonup> 'd) list \<Rightarrow> 'k \<Rightarrow> 'd option" where
  "sm_get_loop [] k = None"
| "sm_get_loop (sc # scs) k = (if sc k \<noteq> None then sc k else sm_get_loop scs k)"

definition sm_get :: "('k, 'd) scoped_map \<Rightarrow> 'k \<Rightarrow> 'd option" where
  "sm_get m k = (if scopes m = [] then None else sm_get_loop (scopes m) k)"

text \<open>\<open>get\<close> on data that is no pointer: the innermost scope only, an exception otherwise.\<close>

definition sm_get_value :: "('k, 'd) scoped_map \<Rightarrow> 'k \<Rightarrow> 'd res" where
  "sm_get_value m k =
     (case scopes m of
        [] \<Rightarrow> Inl Range_error
      | back # _ \<Rightarrow> (case back k of None \<Rightarrow> Inl Range_error | Some d \<Rightarrow> Inr d))"

definition sm_scope_end :: "('k, 'd) scoped_map \<Rightarrow> ('k, 'd) scoped_map res" where
  "sm_scope_end m =
     (case scopes m of [] \<Rightarrow> Inl Logic_error | _ # rest \<Rightarrow> Inr (m\<lparr>scopes := rest\<rparr>))"

fun sm_contains_loop :: "('k \<rightharpoonup> 'd) list \<Rightarrow> 'k \<Rightarrow> bool" where
  "sm_contains_loop [] k = False"
| "sm_contains_loop (sc # scs) k = (if sc k \<noteq> None then True else sm_contains_loop scs k)"

definition sm_contains :: "('k, 'd) scoped_map \<Rightarrow> 'k \<Rightarrow> bool" where
  "sm_contains m k = sm_contains_loop (scopes m) k"

section \<open>Facts of the model\<close>

definition sm_depth :: "('k, 'd) scoped_map \<Rightarrow> nat" where
  "sm_depth m = length (scopes m)"

text \<open>The abstraction: one map, in which inner scopes hide outer ones.\<close>

definition sm_view :: "('k, 'd) scoped_map \<Rightarrow> ('k \<rightharpoonup> 'd)" where
  "sm_view m = foldr (\<lambda>sc acc. acc ++ sc) (scopes m) Map.empty"

lemma sm_get_loop_view: "sm_get_loop scs k = foldr (\<lambda>sc acc. acc ++ sc) scs Map.empty k"
  by (induction scs) (auto simp: map_add_def split: option.splits)

lemma sm_get_view: "sm_get m k = sm_view m k"
  by (simp add: sm_get_def sm_view_def sm_get_loop_view)

lemma sm_contains_loop_iff: "sm_contains_loop scs k \<longleftrightarrow> sm_get_loop scs k \<noteq> None"
  by (induction scs) auto

lemma sm_contains_iff: "sm_contains m k \<longleftrightarrow> k \<in> dom (sm_view m)"
  by (auto simp: sm_contains_def sm_contains_loop_iff sm_get_loop_view sm_view_def)

lemma sm_contains_get: "sm_contains m k \<longleftrightarrow> sm_get m k \<noteq> None"
  by (cases "scopes m") (auto simp: sm_contains_def sm_contains_loop_iff sm_get_def)

lemma sm_put_nonempty:
  "scopes m \<noteq> [] \<Longrightarrow> sm_put k d m = Inr (m\<lparr>scopes := (hd (scopes m))(k \<mapsto> d) # tl (scopes m)\<rparr>)"
  by (cases "scopes m") (auto simp: sm_put_def)

lemma sm_put_Inr_iff:
  "sm_put k d m = Inr m' \<longleftrightarrow>
   scopes m \<noteq> [] \<and> m' = m\<lparr>scopes := (hd (scopes m))(k \<mapsto> d) # tl (scopes m)\<rparr>"
  by (cases "scopes m") (auto simp: sm_put_def)

lemma sm_put_view: "sm_put k d m = Inr m' \<Longrightarrow> sm_view m' = (sm_view m)(k \<mapsto> d)"
  by (cases "scopes m") (auto simp: sm_put_Inr_iff sm_view_def)

lemma sm_put_depth: "sm_put k d m = Inr m' \<Longrightarrow> sm_depth m' = sm_depth m \<and> 0 < sm_depth m"
  by (cases "scopes m") (auto simp: sm_put_Inr_iff sm_depth_def)

lemma sm_scope_begin_view [simp]: "sm_view (sm_scope_begin m) = sm_view m"
  by (simp add: sm_view_def sm_scope_begin_def)

lemma sm_scope_begin_depth [simp]: "sm_depth (sm_scope_begin m) = Suc (sm_depth m)"
  by (simp add: sm_depth_def sm_scope_begin_def)

lemma sm_scope_end_Inr_iff:
  "sm_scope_end m = Inr m' \<longleftrightarrow> scopes m \<noteq> [] \<and> m' = m\<lparr>scopes := tl (scopes m)\<rparr>"
  by (cases "scopes m") (auto simp: sm_scope_end_def)

lemma sm_scope_end_begin: "sm_scope_end (sm_scope_begin m) = Inr m"
  by (simp add: sm_scope_end_def sm_scope_begin_def)

lemmas sm_simps = sm_get_view sm_contains_iff sm_put_view sm_put_depth sm_scope_end_begin

section \<open>The interface of symbol tables\<close>

text \<open>
  What the visitors that keep a symbol table rely on: a view as one map, a depth, and how each
  operation changes them.  \<open>insert_data\<close> fails only without an open scope, and leaving the scope
  just entered, whatever was put in it, gives the former table back.
\<close>

locale symbol_table =
  fixes enter :: "'t \<Rightarrow> 't"
    and leave :: "'t \<Rightarrow> exn + 't"
    and insert_data :: "'k \<Rightarrow> 'd \<Rightarrow> 't \<Rightarrow> exn + 't"
    and lookup :: "'t \<Rightarrow> 'k \<Rightarrow> 'd option"
    and outer :: "'t \<Rightarrow> 't list"
  assumes lookup_enter: "lookup (enter t) k = lookup t k"
    and outer_enter: "outer (enter t) = t # outer t"
    and insert_ok: "outer t \<noteq> [] \<Longrightarrow> \<exists>u. insert_data k d t = Inr u"
    and insert_fails: "outer t = [] \<Longrightarrow> insert_data k d t = Inl Logic_error"
    and lookup_insert:
      "insert_data k d t = Inr u \<Longrightarrow> lookup u k' = (if k' = k then Some d else lookup t k')"
    and outer_insert: "insert_data k d t = Inr u \<Longrightarrow> outer u = outer t"
    and leave_outer:
      "leave t = (case outer t of [] \<Rightarrow> Inl Logic_error | u # _ \<Rightarrow> Inr u)"
begin

fun insert_all :: "('k \<times> 'd) list \<Rightarrow> 't \<Rightarrow> exn + 't" where
  "insert_all [] t = Inr t"
| "insert_all ((k, d) # kds) t = bindE (insert_data k d t) (insert_all kds)"

lemma outer_insert_all: "insert_all kds t = Inr u \<Longrightarrow> outer u = outer t"
  by (induction kds t rule: insert_all.induct) (auto simp: bindE_eq_Inr dest: outer_insert)

lemma insert_all_ok: "outer t \<noteq> [] \<Longrightarrow> \<exists>u. insert_all kds t = Inr u"
proof (induction kds t rule: insert_all.induct)
  case (2 k d kds t)
  then obtain u where u: "insert_data k d t = Inr u" using insert_ok by blast
  with 2 outer_insert [OF u] show ?case by simp
qed simp

lemma lookup_insert_all:
  "insert_all kds t = Inr u \<Longrightarrow>
   lookup u k = (case map_of (rev kds) k of None \<Rightarrow> lookup t k | Some d \<Rightarrow> Some d)"
proof (induction kds t rule: insert_all.induct)
  case (2 k' d kds t)
  then obtain v where v: "insert_data k' d t = Inr v" "insert_all kds v = Inr u"
    by (auto simp: bindE_eq_Inr)
  from 2(1) [OF v] lookup_insert [OF v(1)] show ?case
    by (auto simp: map_of_append map_add_def split: option.splits)
qed simp

text \<open>A scope is closed on the very table it was opened on.\<close>

lemma balanced:
  assumes "insert_all kds (enter t) = Inr u"
  shows "leave u = Inr t"
  using outer_insert_all [OF assms] by (simp add: leave_outer outer_enter)

end

text \<open>The tables under a scoped map: what is left after each \<open>scope_end\<close>.\<close>

fun suffixes_from :: "'a list \<Rightarrow> 'a list list" where
  "suffixes_from [] = [[]]"
| "suffixes_from (x # xs) = (x # xs) # suffixes_from xs"

definition sm_outer :: "('k, 'd) scoped_map \<Rightarrow> ('k, 'd) scoped_map list" where
  "sm_outer m = map (\<lambda>s. \<lparr>scopes = s\<rparr>) (tl (suffixes_from (scopes m)))"

lemma suffixes_from_hd: "suffixes_from xs = xs # tl (suffixes_from xs)"
  by (cases xs) simp_all

lemma sm_outer_cons:
  "scopes m = b # rest \<Longrightarrow> sm_outer m = \<lparr>scopes = rest\<rparr> # sm_outer \<lparr>scopes = rest\<rparr>"
  using suffixes_from_hd [of rest] by (cases rest) (simp_all add: sm_outer_def)

lemma sm_outer_record:
  "sm_outer \<lparr>scopes = b # rest\<rparr> = \<lparr>scopes = rest\<rparr> # sm_outer \<lparr>scopes = rest\<rparr>"
  by (rule sm_outer_cons) simp

lemma sm_outer_nil: "scopes m = [] \<Longrightarrow> sm_outer m = []"
  by (simp add: sm_outer_def)

lemma sm_outer_empty_iff: "sm_outer m = [] \<longleftrightarrow> scopes m = []"
  by (cases "scopes m") (simp_all add: sm_outer_nil sm_outer_cons)

interpretation sm: symbol_table sm_scope_begin sm_scope_end sm_put sm_get sm_outer
proof
  fix t u :: "('k, 'd) scoped_map" and k k' :: 'k and d :: 'd
  show "sm_get (sm_scope_begin t) k = sm_get t k"
    by (simp add: sm_get_view)
  show "sm_outer (sm_scope_begin t) = t # sm_outer t"
    by (cases t) (simp add: sm_outer_cons [where b = Map.empty] sm_scope_begin_def)
  show "sm_outer t \<noteq> [] \<Longrightarrow> \<exists>u. sm_put k d t = Inr u"
    by (simp add: sm_outer_empty_iff sm_put_nonempty)
  show "sm_outer t = [] \<Longrightarrow> sm_put k d t = Inl Logic_error"
    by (simp add: sm_outer_empty_iff sm_put_def)
  show "sm_put k d t = Inr u \<Longrightarrow> sm_get u k' = (if k' = k then Some d else sm_get t k')"
    by (simp add: sm_get_view sm_put_view)
  show "sm_put k d t = Inr u \<Longrightarrow> sm_outer u = sm_outer t"
    by (cases t; cases "scopes t") (auto simp: sm_put_Inr_iff sm_outer_record)
  show "sm_scope_end t = (case sm_outer t of [] \<Rightarrow> Inl Logic_error | u # _ \<Rightarrow> Inr u)"
    by (cases t; cases "scopes t") (auto simp: sm_scope_end_def sm_outer_nil sm_outer_record)
qed

section \<open>Properties\<close>

definition sm_put_all :: "('k \<times> 'd) list \<Rightarrow> ('k, 'd) scoped_map \<Rightarrow> ('k, 'd) scoped_map res" where
  "sm_put_all kds m = foldE (\<lambda>kd m. sm_put (fst kd) (snd kd) m) kds m"

lemma sm_put_all_insert_all: "sm_put_all kds m = sm.insert_all kds m"
  unfolding sm_put_all_def
proof (induction kds arbitrary: m)
  case (Cons kd kds)
  then have "foldE (\<lambda>kd m. sm_put (fst kd) (snd kd) m) kds = sm.insert_all kds" by (rule ext)
  then show ?case by (cases kd) simp
qed simp

text \<open>C17: Opening a scope, putting any bindings in it and closing it gives the very same table back;
  inside, the last binding of a name in the scope hides the outer ones, and the other names keep
  their outer bindings.\<close>

theorem scope_discipline:
  assumes "sm_put_all kds (sm_scope_begin m) = Inr u"
  shows "sm_scope_end u = Inr m \<and>
    sm_get u k = (case map_of (rev kds) k of None \<Rightarrow> sm_get m k | Some d \<Rightarrow> Some d)"
  using sm.balanced [OF assms [unfolded sm_put_all_insert_all]]
    sm.lookup_insert_all [OF assms [unfolded sm_put_all_insert_all]] sm.lookup_enter [of m k]
  by (simp split: option.splits)

theorem scope_discipline_witness:
  "sm_scope_end \<lparr>scopes = [[''x'' \<mapsto> 2], [''x'' \<mapsto> (1 :: nat)]]\<rparr> = Inr \<lparr>scopes = [[''x'' \<mapsto> 1]]\<rparr> \<and>
   sm_get \<lparr>scopes = [[''x'' \<mapsto> 2], [''x'' \<mapsto> (1 :: nat)]]\<rparr> ''x'' = Some 2"
  using scope_discipline [of "[(''x'', 2)]" "\<lparr>scopes = [[''x'' \<mapsto> (1 :: nat)]]\<rparr>"
      "\<lparr>scopes = [[''x'' \<mapsto> 2], [''x'' \<mapsto> 1]]\<rparr>" "''x''"]
  by (simp add: sm_put_all_def sm_put_def sm_scope_begin_def)

text \<open>\<open>get\<close> on data that is no pointer does not look in the outer scopes: a name bound there and
  not in the innermost scope raises \<open>range_error\<close>, whereas \<open>get\<close> on pointers finds it.\<close>

theorem get_value_misses_outer_scopes:
  "sm_get_value (sm_scope_begin m) k = Inl Range_error \<and> sm_get (sm_scope_begin m) k = sm_get m k"
  by (simp add: sm_get_value_def sm_get_view) (simp add: sm_scope_begin_def)

end
