(* ===== verification/Misc_Symbol.thy ===== *)
theory Misc_Symbol
  imports Tiger_Prelude
begin

text \<open>
  \<^verbatim>\<open>lib/misc/unique.hxx\<close>, \<^verbatim>\<open>lib/misc/symbol.cc\<close>, \<^verbatim>\<open>lib/misc/symbol.hxx\<close>: the flyweight of
  strings.  The static set is the list of its elements in the order of their insertion, and the
  address of an element is its position in that list (a \<open>std::set\<close> never moves its nodes and
  nothing removes one).  A \<open>unique\<close> is the pointer it holds.  The abstraction, a symbol is its
  string, is what the rest of the model uses; the refinement lemmas are here.
\<close>

section \<open>Flyweights: \<open>misc::unique\<close>\<close>

record 'd object_set =
  objects :: "'d list"

definition object_map_size :: "'d object_set \<Rightarrow> nat" where
  "object_map_size t = length (objects t)"

fun position :: "'d \<Rightarrow> 'd list \<Rightarrow> nat option" where
  "position x [] = None"
| "position x (y # ys) = (if x = y then Some 0 else map_option Suc (position x ys))"

text \<open>\<open>unique(s)\<close>: \<open>object_set_instance().insert(s).first\<close>.  Equality stands for the equivalence of the comparator of the
  set, that is equality for \<open>std::less\<close>, the only one in use.\<close>

definition unique_new :: "'d \<Rightarrow> 'd object_set \<Rightarrow> addr \<times> 'd object_set" where
  "unique_new s t =
     (case position s (objects t) of
        Some a \<Rightarrow> (a, t)
      | None \<Rightarrow> (length (objects t), t\<lparr>objects := objects t @ [s]\<rparr>))"

definition unique_get :: "addr \<Rightarrow> 'd object_set \<Rightarrow> 'd res" where
  "unique_get a t = (if a < length (objects t) then Inr (objects t ! a) else Inl Null_deref)"

definition unique_eq :: "addr \<Rightarrow> addr \<Rightarrow> bool" where
  "unique_eq p q \<longleftrightarrow> p = q"

definition unique_neq :: "addr \<Rightarrow> addr \<Rightarrow> bool" where
  "unique_neq p q \<longleftrightarrow> \<not> unique_eq p q"

text \<open>The order of \<open>unique\<close> is that of the objects, whatever their addresses.\<close>

definition unique_less :: "('d \<Rightarrow> 'd \<Rightarrow> bool) \<Rightarrow> addr \<Rightarrow> addr \<Rightarrow> 'd object_set \<Rightarrow> bool res" where
  "unique_less cmp p q t =
     bindE (unique_get p t) (\<lambda>x. bindE (unique_get q t) (\<lambda>y. Inr (cmp x y)))"

definition object_set_wf :: "'d object_set \<Rightarrow> bool" where
  "object_set_wf t \<longleftrightarrow> distinct (objects t)"

lemma position_None_iff: "position x ys = None \<longleftrightarrow> x \<notin> set ys"
  by (induction ys) auto

lemma position_Some: "position x ys = Some a \<Longrightarrow> a < length ys \<and> ys ! a = x"
proof (induction ys arbitrary: a)
  case (Cons y ys)
  then show ?case by (cases "x = y") auto
qed simp

lemma unique_new_get: "unique_new s t = (p, t') \<Longrightarrow> unique_get p t' = Inr s"
  by (auto simp: unique_new_def unique_get_def dest: position_Some split: option.splits)

lemma unique_new_wf: "object_set_wf t \<Longrightarrow> object_set_wf (snd (unique_new s t))"
  by (auto simp: unique_new_def object_set_wf_def position_None_iff split: option.splits)

lemma unique_new_keeps:
  "unique_get p t = Inr s \<Longrightarrow> unique_get p (snd (unique_new r t)) = Inr s"
  by (auto simp: unique_new_def unique_get_def nth_append split: option.splits if_splits)

lemma unique_new_set: "set (objects (snd (unique_new s t))) = insert s (set (objects t))"
  by (auto simp: unique_new_def dest: position_Some split: option.splits)

lemma unique_get_inject:
  "object_set_wf t \<Longrightarrow> unique_get p t = Inr s \<Longrightarrow> unique_get q t = Inr r \<Longrightarrow>
   unique_eq p q \<longleftrightarrow> s = r"
  by (auto simp: unique_get_def unique_eq_def object_set_wf_def nth_eq_iff_index_eq
      split: if_splits)

lemma unique_size:
  "object_set_wf t \<Longrightarrow> object_map_size t = card (set (objects t))"
  by (simp add: object_set_wf_def object_map_size_def distinct_card)

text \<open>Building several uniques one after the other.\<close>

fun unique_news :: "'d list \<Rightarrow> 'd object_set \<Rightarrow> addr list \<times> 'd object_set" where
  "unique_news [] t = ([], t)"
| "unique_news (s # ss) t =
     (fst (unique_new s t) # fst (unique_news ss (snd (unique_new s t))),
      snd (unique_news ss (snd (unique_new s t))))"

lemma unique_new_get': "unique_get (fst (unique_new s t)) (snd (unique_new s t)) = Inr s"
  by (rule unique_new_get) simp

lemma unique_news_length: "length (fst (unique_news ss t)) = length ss"
  by (induction ss arbitrary: t) simp_all

lemma unique_news_wf: "object_set_wf t \<Longrightarrow> object_set_wf (snd (unique_news ss t))"
  by (induction ss arbitrary: t) (simp_all add: unique_new_wf)

lemma unique_news_keeps:
  "unique_get p t = Inr s \<Longrightarrow> unique_get p (snd (unique_news ss t)) = Inr s"
  by (induction ss arbitrary: t) (simp_all add: unique_new_keeps)

lemma unique_news_get:
  "i < length ss \<Longrightarrow> unique_get (fst (unique_news ss t) ! i) (snd (unique_news ss t)) = Inr (ss ! i)"
proof (induction ss arbitrary: t i)
  case (Cons s ss)
  then show ?case by (cases i) (simp_all add: unique_news_keeps unique_new_get')
qed simp

lemma unique_news_set:
  "set (objects (snd (unique_news ss t))) = set ss \<union> set (objects t)"
  by (induction ss arbitrary: t) (simp_all add: unique_new_set)

section \<open>Symbols\<close>

record symbols =
  string_set :: "string object_set"
  counter :: u32

definition symbols0 :: symbols where
  "symbols0 = \<lparr>string_set = \<lparr>objects = []\<rparr>, counter = 0\<rparr>"

definition symbol_new :: "string \<Rightarrow> symbols \<Rightarrow> addr \<times> symbols" where
  "symbol_new s st =
     (let (p, t) = unique_new s (string_set st) in (p, st\<lparr>string_set := t\<rparr>))"

definition symbol_eq :: "addr \<Rightarrow> addr \<Rightarrow> bool" where
  "symbol_eq p q \<longleftrightarrow> p = q"

definition symbol_neq :: "addr \<Rightarrow> addr \<Rightarrow> bool" where
  "symbol_neq p q \<longleftrightarrow> p \<noteq> q"

definition symbol_assign :: "addr \<Rightarrow> addr \<Rightarrow> addr" where
  "symbol_assign lhs rhs = rhs"

definition symbol_print :: "addr \<Rightarrow> symbols \<Rightarrow> string res" where
  "symbol_print p st = unique_get p (string_set st)"

definition symbol_fresh_of :: "addr \<Rightarrow> symbols \<Rightarrow> (addr \<times> symbols) res" where
  "symbol_fresh_of s st =
     bindE (unique_get s (string_set st)) (\<lambda>name.
       (let str = name @ ''_'' @ dec_nat (unat (counter st));
            st1 = st\<lparr>counter := counter st + 1\<rparr>
        in Inr (symbol_new str st1)))"

definition symbol_fresh :: "symbols \<Rightarrow> (addr \<times> symbols) res" where
  "symbol_fresh st = (let (a, st1) = symbol_new ''a'' st in symbol_fresh_of a st1)"

section \<open>Symbols as strings\<close>

text \<open>The same function on strings, with the counter as its only state.\<close>

definition fresh_name :: "symbol \<Rightarrow> u32 \<Rightarrow> symbol \<times> u32" where
  "fresh_name s c = (s @ ''_'' @ dec_nat (unat c), c + 1)"

lemma symbol_new_refines:
  "symbol_new s st = (p, st') \<Longrightarrow> symbol_print p st' = Inr s \<and> counter st' = counter st"
  by (auto simp: symbol_new_def symbol_print_def dest: unique_new_get split: prod.splits)

lemma symbol_fresh_of_refines:
  assumes "symbol_print p st = Inr s"
  shows "\<exists>q st'. symbol_fresh_of p st = Inr (q, st') \<and>
     symbol_print q st' = Inr (fst (fresh_name s (counter st))) \<and>
     counter st' = snd (fresh_name s (counter st))"
  using assms symbol_new_refines
  by (cases "symbol_new (s @ ''_'' @ dec_nat (unat (counter st))) (st\<lparr>counter := counter st + 1\<rparr>)")
    (fastforce simp: symbol_fresh_of_def symbol_print_def fresh_name_def Let_def)

lemma fresh_name_inject:
  "fst (fresh_name s c) = fst (fresh_name s' c') \<longleftrightarrow> s = s' \<and> c = c'"
proof
  assume "fst (fresh_name s c) = fst (fresh_name s' c')"
  then have "s @ CHR ''_'' # dec_nat (unat c) = s' @ CHR ''_'' # dec_nat (unat c')"
    by (simp add: fresh_name_def)
  from append_separator_inject [OF underscore_notin_dec_nat underscore_notin_dec_nat this]
  show "s = s' \<and> c = c'" by (simp add: word_unat_eq_iff)
qed simp

section \<open>The interface of fresh names\<close>

text \<open>
  What the renamers rely on: a state that ticks at each call, and names that tell the ticks
  apart, as long as the counter has not come back to a value it had.
\<close>

locale fresh_source =
  fixes gen :: "'s \<Rightarrow> 'c \<Rightarrow> 's \<times> 'c"
    and tick :: "'c \<Rightarrow> nat"
    and limit :: nat
  assumes tick_gen: "Suc (tick c) < limit \<Longrightarrow> tick (snd (gen s c)) = Suc (tick c)"
    and gen_distinct: "tick c \<noteq> tick c' \<Longrightarrow> fst (gen s c) \<noteq> fst (gen s' c')"
begin

fun gens :: "'s list \<Rightarrow> 'c \<Rightarrow> 's list \<times> 'c" where
  "gens [] c = ([], c)"
| "gens (s # ss) c = (fst (gen s c) # fst (gens ss (snd (gen s c))), snd (gens ss (snd (gen s c))))"

lemma gens_tick: "tick c + length ss < limit \<Longrightarrow> tick (snd (gens ss c)) = tick c + length ss"
  by (induction ss arbitrary: c) (simp_all add: tick_gen)

lemma gens_later:
  "tick c + length ss < limit \<Longrightarrow> x \<in> set (fst (gens ss c)) \<Longrightarrow>
   \<exists>s d. x = fst (gen s d) \<and> tick c \<le> tick d"
proof (induction ss arbitrary: c)
  case (Cons s ss)
  then have step: "tick (snd (gen s c)) = Suc (tick c)" by (simp add: tick_gen)
  from Cons.prems(2) consider "x = fst (gen s c)" | "x \<in> set (fst (gens ss (snd (gen s c))))"
    by auto
  then show ?case
  proof cases
    case 2
    with Cons.IH [of "snd (gen s c)"] Cons.prems(1) step show ?thesis by fastforce
  qed blast
qed simp

lemma gens_distinct: "tick c + length ss < limit \<Longrightarrow> distinct (fst (gens ss c))"
proof (induction ss arbitrary: c)
  case (Cons s ss)
  then have step: "tick (snd (gen s c)) = Suc (tick c)" by (simp add: tick_gen)
  have "fst (gen s c) \<notin> set (fst (gens ss (snd (gen s c))))"
  proof
    assume "fst (gen s c) \<in> set (fst (gens ss (snd (gen s c))))"
    with gens_later [of "snd (gen s c)" ss] Cons.prems step
    obtain s' d where "fst (gen s c) = fst (gen s' d)" "Suc (tick c) \<le> tick d" by fastforce
    with gen_distinct [of c d s s'] show False by simp
  qed
  with Cons step show ?case by simp
qed simp

end

lemma unat_incr: "Suc (unat c) < 2 ^ 32 \<Longrightarrow> unat ((c :: u32) + 1) = Suc (unat c)"
  by (simp add: unat_word_ariths)

interpretation sf: fresh_source fresh_name unat "2 ^ 32"
proof
  fix c c' :: u32 and s s' :: symbol
  show "Suc (unat c) < 2 ^ 32 \<Longrightarrow> unat (snd (fresh_name s c)) = Suc (unat c)"
    by (simp add: fresh_name_def unat_incr)
  show "unat c \<noteq> unat c' \<Longrightarrow> fst (fresh_name s c) \<noteq> fst (fresh_name s' c')"
    by (auto simp: fresh_name_inject)
qed

section \<open>Properties\<close>

text \<open>C19: The flyweight: among any number of uniques built in any order, two pointers are equal
  exactly when the objects are, each pointer gives its object back, and the set holds no object
  twice.\<close>

theorem flyweight:
  assumes "object_set_wf t" and "i < length ss" and "j < length ss"
  shows "(unique_eq (fst (unique_news ss t) ! i) (fst (unique_news ss t) ! j) \<longleftrightarrow> ss ! i = ss ! j) \<and>
    unique_get (fst (unique_news ss t) ! i) (snd (unique_news ss t)) = Inr (ss ! i) \<and>
    object_map_size (snd (unique_news ss t)) = card (set ss \<union> set (objects t))"
  using unique_get_inject [OF unique_news_wf [OF assms(1)] unique_news_get [OF assms(2)]
      unique_news_get [OF assms(3)]]
    unique_news_get [OF assms(2)] unique_size [OF unique_news_wf [OF assms(1)], of ss]
  by (simp add: unique_news_set)

theorem flyweight_witness:
  "unique_eq (fst (unique_news [''a'', ''b'', ''a''] \<lparr>objects = []\<rparr>) ! 0)
             (fst (unique_news [''a'', ''b'', ''a''] \<lparr>objects = []\<rparr>) ! 2)"
  using flyweight [of "\<lparr>objects = []\<rparr> :: string object_set" 0 "[''a'', ''b'', ''a'']" 2]
  by (simp add: object_set_wf_def)

fun fresh_names :: "symbol list \<Rightarrow> u32 \<Rightarrow> symbol list \<times> u32" where
  "fresh_names [] c = ([], c)"
| "fresh_names (s # ss) c =
     (let (n, c1) = fresh_name s c; (ns, c2) = fresh_names ss c1 in (n # ns, c2))"

lemma fresh_names_gens: "fresh_names ss c = sf.gens ss c"
  by (induction ss arbitrary: c) (simp_all add: split_beta Let_def)

text \<open>C20: Fewer than \<open>2 ^ 32\<close> calls of \<open>fresh\<close>, whatever the symbols they start from, give pairwise
  different symbols.\<close>

theorem fresh_names_distinct:
  assumes "length ss < 2 ^ 32"
  shows "distinct (fst (fresh_names ss 0))"
  unfolding fresh_names_gens by (rule sf.gens_distinct) (use assms in simp)

theorem fresh_names_distinct_witness: "distinct (fst (fresh_names [''x'', ''y'', ''x''] 0))"
  by (rule fresh_names_distinct) simp

text \<open>The result of \<open>fresh\<close> is not new when the program has a symbol of that name: it is then
  the very same pointer.\<close>

theorem fresh_is_not_new:
  assumes "object_set_wf (string_set st)" and "symbol_print s st = Inr name"
    and "symbol_new (name @ ''_'' @ dec_nat (unat (counter st))) st = (q, st1)"
  shows "\<exists>st2. symbol_fresh_of s st1 = Inr (q, st2)"
proof -
  from assms(3) have q: "symbol_print q st1 = Inr (name @ ''_'' @ dec_nat (unat (counter st)))"
    "counter st1 = counter st"
    using symbol_new_refines by blast+
  from assms(3) have st1: "string_set st1 = snd (unique_new (name @ ''_'' @ dec_nat (unat (counter st))) (string_set st))"
    by (auto simp: symbol_new_def split: prod.splits)
  with assms(1,2) have w: "object_set_wf (string_set st1)" "symbol_print s st1 = Inr name"
    by (simp_all add: unique_new_wf unique_new_keeps symbol_print_def)
  from symbol_fresh_of_refines [OF w(2)] obtain r st2 where r: "symbol_fresh_of s st1 = Inr (r, st2)"
    "symbol_print r st2 = Inr (name @ ''_'' @ dec_nat (unat (counter st)))"
    by (auto simp: fresh_name_def q(2))
  have st2: "object_set_wf (string_set st2)" "symbol_print q st2 = Inr (name @ ''_'' @ dec_nat (unat (counter st)))"
    using r(1) w q unique_new_keeps [of q "string_set st1"] unique_new_wf [of "string_set st1"]
    by (auto simp: symbol_fresh_of_def symbol_new_def symbol_print_def Let_def split: prod.splits)
      (metis snd_conv)+
  have "q = r"
    using unique_get_inject [OF st2(1)] st2(2) r(2) by (simp add: symbol_print_def unique_eq_def)
  with r(1) show ?thesis by blast
qed

theorem fresh_is_not_new_witness:
  "\<exists>st2. symbol_fresh_of 0 \<lparr>string_set = \<lparr>objects = [''a'', ''a_0'']\<rparr>, counter = 0\<rparr> = Inr (1, st2)"
  by (rule fresh_is_not_new [of "\<lparr>string_set = \<lparr>objects = [''a'']\<rparr>, counter = 0\<rparr>" 0 "''a''" 1])
    (simp_all add: object_set_wf_def symbol_print_def unique_get_def symbol_new_def unique_new_def
      dec_nat.simps)

end
