(* ===== verification/Misc_Container.thy ===== *)
theory Misc_Container
  imports Misc_Stream
begin

text \<open>
  The containers of \<^verbatim>\<open>lib/misc\<close>: \<^verbatim>\<open>map.hxx\<close>, \<^verbatim>\<open>endomap.hxx\<close>, \<^verbatim>\<open>set.hxx\<close>, \<^verbatim>\<open>vector.hxx\<close>,
  \<^verbatim>\<open>list.hxx\<close>, \<^verbatim>\<open>algorithm.hxx\<close>.  A \<open>std::map\<close> is the list of its entries in the order of the keys;
  the searches by \<open>lower_bound\<close> and \<open>key_comp\<close> of the code are modelled as such, and the lemmas show
  that they keep the order and act as updates of the finite map \<open>map_of\<close>.  A \<open>std::set\<close> is a set,
  a \<open>std::vector\<close> a list and an iterator its distance to \<open>begin()\<close>.
\<close>

section \<open>\<open>std::map\<close>\<close>

type_synonym ('k, 'v) entries = "('k \<times> 'v) list"

definition sorted_keys :: "('k :: linorder, 'v) entries \<Rightarrow> bool" where
  "sorted_keys m \<longleftrightarrow> sorted_wrt (<) (map fst m)"

text \<open>\<open>lower_bound\<close>: the entries before the bound, and those from it on.\<close>

definition lower_bound :: "'k :: linorder \<Rightarrow> ('k, 'v) entries \<Rightarrow> ('k, 'v) entries \<times> ('k, 'v) entries"
  where "lower_bound k m = (takeWhile (\<lambda>p. fst p < k) m, dropWhile (\<lambda>p. fst p < k) m)"

definition std_emplace :: "'k :: linorder \<Rightarrow> 'v \<Rightarrow> ('k, 'v) entries \<Rightarrow> ('k, 'v) entries \<times> bool" where
  "std_emplace k v m =
     (if map_of m k \<noteq> None then (m, False)
      else (takeWhile (\<lambda>p. fst p < k) m @ (k, v) # dropWhile (\<lambda>p. fst p < k) m, True))"

definition std_erase :: "'k \<Rightarrow> ('k, 'v) entries \<Rightarrow> ('k, 'v) entries" where
  "std_erase k m = filter (\<lambda>p. fst p \<noteq> k) m"

section \<open>\<open>misc::map\<close> and \<open>misc::put\<close>\<close>

definition map_find :: "('k, 'v) entries \<Rightarrow> 'k \<Rightarrow> 'v option" where
  "map_find m t = map_of m t"

definition map_xfind :: "('k, 'v) entries \<Rightarrow> 'k \<Rightarrow> 'v res" where
  "map_xfind m t = (case map_find m t of Some v \<Rightarrow> Inr v | None \<Rightarrow> Inl Range_error)"

definition map_call :: "('k, 'v) entries \<Rightarrow> 'k \<Rightarrow> 'v res" where
  "map_call m t = map_xfind m t"

fun map_call_list_loop :: "('k, 'v) entries \<Rightarrow> 'k list \<Rightarrow> 'v list \<Rightarrow> 'v list res" where
  "map_call_list_loop m [] acc = Inr acc"
| "map_call_list_loop m (t # ts) acc =
     bindE (map_call m t) (\<lambda>v. map_call_list_loop m ts (acc @ [v]))"

definition map_call_list :: "('k, 'v) entries \<Rightarrow> 'k list \<Rightarrow> 'v list res" where
  "map_call_list m ts = map_call_list_loop m ts []"

text \<open>The subscript of a constant map; that of a mutable one, which inserts \<open>N()\<close> (\<open>dflt\<close>).\<close>

definition map_at :: "('k, 'v) entries \<Rightarrow> 'k \<Rightarrow> 'v res" where
  "map_at m t = map_call m t"

definition map_subscript :: "'v \<Rightarrow> ('k :: linorder, 'v) entries \<Rightarrow> 'k \<Rightarrow> 'v \<times> ('k, 'v) entries" where
  "map_subscript dflt m t =
     (case map_of m t of
        Some v \<Rightarrow> (v, m)
      | None \<Rightarrow> (dflt, fst (std_emplace t dflt m)))"

definition map_insert :: "'k :: linorder \<times> 'v \<Rightarrow> ('k, 'v) entries \<Rightarrow> ('k, 'v) entries \<times> bool" where
  "map_insert x m = std_emplace (fst x) (snd x) m"

definition map_insert_all ::
  "('k :: linorder, 'v) entries \<Rightarrow> ('k, 'v) entries \<Rightarrow> ('k, 'v) entries" where
  "map_insert_all other m = fold (\<lambda>x m. fst (std_emplace (fst x) (snd x) m)) other m"

definition map_take :: "'k \<Rightarrow> ('k, 'v) entries \<Rightarrow> ('v \<times> ('k, 'v) entries) res" where
  "map_take t m = bindE (map_xfind m t) (\<lambda>elt. Inr (elt, std_erase t m))"

definition map_empty :: "('k, 'v) entries \<Rightarrow> bool" where
  "map_empty m \<longleftrightarrow> m = []"

definition map_size :: "('k, 'v) entries \<Rightarrow> nat" where
  "map_size m = length m"

definition map_clear :: "('k, 'v) entries \<Rightarrow> ('k, 'v) entries" where
  "map_clear m = []"

definition map_print ::
  "('k \<Rightarrow> string) \<Rightarrow> ('v \<Rightarrow> string) \<Rightarrow> ('k, 'v) entries \<Rightarrow> 'd ostream \<Rightarrow> 'd ostream" where
  "map_print show_k show_v m os =
     fold (\<lambda>p os. iendl (put_str (show_v (snd p)) (put_str '' -> '' (put_str (show_k (fst p)) os)))) m os"

definition put :: "('k :: linorder, 'v) entries \<Rightarrow> 'k \<Rightarrow> 'v \<Rightarrow> ('k, 'v) entries" where
  "put m key val =
     (let (before, i) = lower_bound key m
      in if i \<noteq> [] \<and> \<not> (key < fst (hd i))
         then before @ (fst (hd i), val) # tl i
         else fst (std_emplace key val m))"

section \<open>\<open>misc::endomap\<close>\<close>

datatype strictness = nonstrict | strict

record 'k endomap =
  entries_of :: "('k, 'k) entries"
  strictness_of :: strictness

definition endomap_new :: "'k endomap" where
  "endomap_new = \<lparr>entries_of = [], strictness_of = nonstrict\<rparr>"

definition endomap_call :: "'k endomap \<Rightarrow> 'k \<Rightarrow> 'k res" where
  "endomap_call m t =
     (case map_find (entries_of m) t of
        Some v \<Rightarrow> Inr v
      | None \<Rightarrow> if strictness_of m = nonstrict then Inr t else Inl Range_error)"

definition endomap_subscript :: "'k :: linorder endomap \<Rightarrow> 'k \<Rightarrow> 'k \<times> 'k endomap" where
  "endomap_subscript m t =
     (let i = snd (lower_bound t (entries_of m))
      in if i = [] \<or> t < fst (hd i)
         then (t, m\<lparr>entries_of := fst (std_emplace t t (entries_of m))\<rparr>)
         else (snd (hd i), m))"

section \<open>\<open>misc::set\<close>\<close>

definition set_of_range :: "'a list \<Rightarrow> 'a set" where
  "set_of_range xs = fold insert xs {}"

definition set_has :: "'a set \<Rightarrow> 'a \<Rightarrow> bool" where
  "set_has s k \<longleftrightarrow> k \<in> s"

definition set_mem :: "'a \<Rightarrow> 'a set \<Rightarrow> bool" where
  "set_mem k s \<longleftrightarrow> set_has s k"

definition set_plus :: "'a set \<Rightarrow> 'a \<Rightarrow> 'a set res" where
  "set_plus s d = (if \<not> set_mem d s then Inr (insert d s) else Inl Assertion)"

definition set_plus_assign :: "'a set \<Rightarrow> 'a \<Rightarrow> 'a set res" where
  "set_plus_assign s d = (if \<not> set_mem d s then Inr (insert d s) else Inl Assertion)"

definition set_minus :: "'a set \<Rightarrow> 'a \<Rightarrow> 'a set res" where
  "set_minus s d = (if set_mem d s then Inr (s - {d}) else Inl Assertion)"

definition set_minus_assign :: "'a set \<Rightarrow> 'a \<Rightarrow> 'a set res" where
  "set_minus_assign s d = (if set_mem d s then Inr (s - {d}) else Inl Assertion)"

definition set_union :: "'a set \<Rightarrow> 'a set \<Rightarrow> 'a set" where
  "set_union s1 s2 = s1 \<union> s2"

definition set_difference :: "'a set \<Rightarrow> 'a set \<Rightarrow> 'a set" where
  "set_difference s1 s2 = s1 - s2"

definition set_intersection :: "'a set \<Rightarrow> 'a set \<Rightarrow> 'a set" where
  "set_intersection s1 s2 = s1 \<inter> s2"

definition set_plus_set :: "'a set \<Rightarrow> 'a set \<Rightarrow> 'a set" where
  "set_plus_set s t = set_union s t"

definition set_minus_set :: "'a set \<Rightarrow> 'a set \<Rightarrow> 'a set" where
  "set_minus_set s t = set_difference s t"

definition set_or :: "'a set \<Rightarrow> 'a set \<Rightarrow> 'a set" where
  "set_or s t = set_plus_set s t"

definition set_and :: "'a set \<Rightarrow> 'a set \<Rightarrow> 'a set" where
  "set_and s t = set_intersection s t"

text \<open>Printing a set: its elements in order, with commas between them.\<close>

fun set_print_loop :: "('a \<Rightarrow> string) \<Rightarrow> 'a list \<Rightarrow> 'd ostream \<Rightarrow> 'd ostream" where
  "set_print_loop f [] os = os"
| "set_print_loop f (x # xs) os =
     (let os1 = put_str (f x) os
      in set_print_loop f xs (if xs \<noteq> [] then put_str '', '' os1 else os1))"

definition set_print :: "('a :: linorder \<Rightarrow> string) \<Rightarrow> 'a set \<Rightarrow> 'd ostream \<Rightarrow> 'd ostream" where
  "set_print f s os = set_print_loop f (sorted_list_of_set s) os"

section \<open>\<open>misc::vector\<close>, \<open>misc::list\<close>, \<open>misc::has\<close>\<close>

definition vector_has :: "'a list \<Rightarrow> 'a \<Rightarrow> bool" where
  "vector_has v d \<longleftrightarrow> d \<in> set v"

definition vector_insert :: "'a list \<Rightarrow> nat \<Rightarrow> 'a list \<Rightarrow> 'a list \<times> nat" where
  "vector_insert v it w = (take it v @ w @ drop it v, it)"

definition vector_prepend :: "'a list \<Rightarrow> 'a list \<Rightarrow> 'a list \<times> nat" where
  "vector_prepend v w = vector_insert v 0 w"

definition vector_append :: "'a list \<Rightarrow> 'a list \<Rightarrow> 'a list \<times> nat" where
  "vector_append v w = vector_insert v (length v) w"

definition vector_plus :: "'a list \<Rightarrow> 'a list \<Rightarrow> 'a list" where
  "vector_plus v w = fst (vector_insert v (length v) w)"

definition vector_position_append :: "'a list \<Rightarrow> 'a list \<Rightarrow> nat \<Rightarrow> 'a list \<times> nat" where
  "vector_position_append v w it = vector_insert v it w"

definition vector_remove :: "'a list \<Rightarrow> 'a \<Rightarrow> 'a list res" where
  "vector_remove v d = (if vector_has v d then Inr (remove1 d v) else Inl Assertion)"

text \<open>The \<open>_and_move\<close> functions return the two vectors and the iterator.\<close>

definition append_and_move :: "'a list \<Rightarrow> 'a list \<Rightarrow> 'a list \<times> 'a list \<times> nat" where
  "append_and_move v1 v2 = (let (v, it) = vector_insert v1 (length v1) v2 in (v, [], it))"

definition prepend_and_move :: "'a list \<Rightarrow> 'a list \<Rightarrow> 'a list \<times> 'a list \<times> nat" where
  "prepend_and_move v1 v2 = (let (v, it) = vector_insert v1 0 v2 in (v, [], it))"

definition position_append_and_move :: "'a list \<Rightarrow> nat \<Rightarrow> 'a list \<Rightarrow> 'a list \<times> 'a list \<times> nat" where
  "position_append_and_move v1 it v2 = (let (v, it') = vector_insert v1 it v2 in (v, [], it'))"

fun vector_dump_loop :: "('a \<Rightarrow> string) \<Rightarrow> bool \<Rightarrow> 'a list \<Rightarrow> 'd ostream \<Rightarrow> 'd ostream" where
  "vector_dump_loop f first [] os = os"
| "vector_dump_loop f first (x # xs) os =
     vector_dump_loop f False xs (put_str (f x) (put_str (if first then '''' else '', '') os))"

definition vector_dump :: "('a \<Rightarrow> string) \<Rightarrow> 'a list \<Rightarrow> 'd ostream \<Rightarrow> 'd ostream" where
  "vector_dump f v os = vector_dump_loop f True v os"

definition list_cons :: "'a \<Rightarrow> 'a list \<Rightarrow> 'a list" where
  "list_cons h t = fst (vector_append ([] @ [h]) t)"

definition list_snoc :: "'a list \<Rightarrow> ('a \<times> 'a list) res" where
  "list_snoc v = (if 0 < length v then Inr (v ! 0, drop 1 v) else Inl Assertion)"

definition list_decompose :: "nat \<Rightarrow> 'a list \<Rightarrow> 'a list res" where
  "list_decompose n v = (if length v = n then Inr v else Inl Assertion)"

section \<open>Facts of the model\<close>

lemma lower_bound_split:
  assumes "lower_bound k m = (before, i)"
  shows "m = before @ i" "\<And>p. p \<in> set before \<Longrightarrow> fst p < k" "i \<noteq> [] \<Longrightarrow> k \<le> fst (hd i)"
proof -
  from assms have b: "before = takeWhile (\<lambda>p. fst p < k) m" "i = dropWhile (\<lambda>p. fst p < k) m"
    by (auto simp: lower_bound_def)
  show "m = before @ i" by (simp add: b)
  show "p \<in> set before \<Longrightarrow> fst p < k" for p by (auto simp: b dest: set_takeWhileD)
  show "i \<noteq> [] \<Longrightarrow> k \<le> fst (hd i)"
    using hd_dropWhile [of "\<lambda>p. fst p < k" m] by (simp add: b not_less)
qed

lemma sorted_keys_Cons:
  "sorted_keys (p # m) \<longleftrightarrow> (\<forall>q \<in> set m. fst p < fst q) \<and> sorted_keys m"
  by (auto simp: sorted_keys_def)

lemma sorted_keys_append:
  "sorted_keys (a @ b) \<longleftrightarrow>
   sorted_keys a \<and> sorted_keys b \<and> (\<forall>p \<in> set a. \<forall>q \<in> set b. fst p < fst q)"
  by (auto simp: sorted_keys_def sorted_wrt_append)

lemma map_of_less_None: "(\<And>p. p \<in> set a \<Longrightarrow> fst p < k) \<Longrightarrow> map_of a (k :: 'k :: linorder) = None"
  by (auto simp: map_of_eq_None_iff)

lemma map_of_greater_None: "(\<And>p. p \<in> set a \<Longrightarrow> k < fst p) \<Longrightarrow> map_of a (k :: 'k :: linorder) = None"
  by (auto simp: map_of_eq_None_iff)

text \<open>The entry at the lower bound is the one of the key, when there is one.\<close>

lemma lower_bound_find:
  assumes "lower_bound k m = (before, i)" and "sorted_keys m"
  shows "map_of m k = (if i \<noteq> [] \<and> \<not> k < fst (hd i) then Some (snd (hd i)) else None)"
proof (cases i)
  case Nil
  with lower_bound_split [OF assms(1)] show ?thesis by (simp add: map_of_less_None)
next
  case (Cons p ps)
  have m: "m = before @ p # ps" and b: "\<And>q. q \<in> set before \<Longrightarrow> fst q < k" and "k \<le> fst p"
    using lower_bound_split [OF assms(1)] Cons by auto
  have later: "k < fst q" if "q \<in> set ps" for q
    using assms(2) that \<open>k \<le> fst p\<close> by (auto simp: m sorted_keys_append sorted_keys_Cons)
  show ?thesis
    using Cons \<open>k \<le> fst p\<close> b later
    by (auto simp: m map_of_append map_add_def map_of_less_None map_of_greater_None not_less
        split: option.splits)
qed

lemma std_emplace_split:
  assumes "lower_bound k m = (before, i)" and "map_of m k = None"
  shows "std_emplace k v m = (before @ (k, v) # i, True)"
  using assms by (auto simp: std_emplace_def lower_bound_def)

lemma std_emplace_map:
  assumes "sorted_keys m"
  shows "map_of (fst (std_emplace k v m)) = (if map_of m k = None then (map_of m)(k \<mapsto> v) else map_of m)"
proof (cases "map_of m k")
  case None
  obtain before i where lb: "lower_bound k m = (before, i)" by fastforce
  from lower_bound_split [OF lb] have m: "m = before @ i" by simp
  from None have "map_of before k = None" by (auto simp: m map_of_append map_add_def split: option.splits)
  moreover have "fst (std_emplace k v m) = before @ (k, v) # i"
    by (simp add: std_emplace_split [OF lb None])
  ultimately have "map_of (fst (std_emplace k v m)) = (map_of (before @ i))(k \<mapsto> v)"
    by (auto simp: map_of_append map_add_def split: option.splits)
  with None m show ?thesis by simp
qed (simp add: std_emplace_def)

lemma std_emplace_sorted:
  assumes "sorted_keys m"
  shows "sorted_keys (fst (std_emplace k v m))"
proof (cases "map_of m k")
  case None
  obtain before i where lb: "lower_bound k m = (before, i)" by fastforce
  note sp = lower_bound_split [OF lb]
  have "i \<noteq> [] \<Longrightarrow> k < fst (hd i)"
    using lower_bound_find [OF lb assms] None by (auto split: if_splits)
  then have "\<forall>q \<in> set i. k < fst q"
    using assms sp(1) by (cases i) (auto simp: sorted_keys_append sorted_keys_Cons)
  then have "sorted_keys (before @ (k, v) # i)"
    using assms sp(2)
    by (auto simp: sp(1) sorted_keys_append sorted_keys_Cons dest: less_trans)
  then show ?thesis by (simp add: std_emplace_split [OF lb None])
qed (simp add: std_emplace_def assms)

text \<open>The searches of \<open>put\<close> and of the subscript of \<open>endomap\<close> agree with the map.\<close>

lemma put_map: "sorted_keys m \<Longrightarrow> map_of (put m k v) = (map_of m)(k \<mapsto> v)"
proof -
  assume s: "sorted_keys m"
  obtain before i where lb: "lower_bound k m = (before, i)" by fastforce
  note sp = lower_bound_split [OF lb] and find = lower_bound_find [OF lb s]
  show ?thesis
  proof (cases "i \<noteq> [] \<and> \<not> k < fst (hd i)")
    case True
    then obtain p ps where i: "i = p # ps" "fst p = k" using sp(3) by (cases i) auto
    have "map_of before k = None" using sp(2) by (rule map_of_less_None)
    then have "map_of (before @ (k, v) # ps) = (map_of (before @ p # ps))(k \<mapsto> v)"
      using i(2) by (auto simp: map_of_append map_add_def split: option.splits)
    moreover have "put m k v = before @ (k, v) # ps"
      using True i by (simp add: put_def lb)
    ultimately show ?thesis using sp(1) i(1) by simp
  next
    case False
    then show ?thesis using find s by (auto simp: put_def lb std_emplace_map)
  qed
qed

lemma put_sorted: "sorted_keys m \<Longrightarrow> sorted_keys (put m k v)"
proof -
  assume s: "sorted_keys m"
  obtain before i where lb: "lower_bound k m = (before, i)" by fastforce
  show ?thesis
  proof (cases "i \<noteq> [] \<and> \<not> k < fst (hd i)")
    case True
    then have "put m k v = before @ (fst (hd i), v) # tl i"
      by (simp add: put_def lb)
    then show ?thesis using True s lower_bound_split(1) [OF lb]
      by (cases i) (auto simp: sorted_keys_append sorted_keys_Cons)
  next
    case False
    then show ?thesis by (auto simp: put_def lb std_emplace_sorted [OF s])
  qed
qed

lemma map_take_map:
  "map_take t m = Inr (v, m') \<Longrightarrow> map_of m t = Some v \<and> map_of m' = (map_of m)(t := None)"
proof -
  assume "map_take t m = Inr (v, m')"
  then have "map_of m t = Some v" "m' = std_erase t m"
    by (auto simp: bindE_eq_Inr map_take_def map_xfind_def map_find_def split: option.splits)
  moreover have "map_of (std_erase t m) = (map_of m)(t := None)"
    by (induction m) (auto simp: std_erase_def)
  ultimately show ?thesis by simp
qed

lemma map_take_sorted: "map_take t m = Inr (v, m') \<Longrightarrow> sorted_keys m \<Longrightarrow> sorted_keys m'"
  by (induction m) (auto simp: bindE_eq_Inr map_take_def map_xfind_def map_find_def std_erase_def sorted_keys_def
      sorted_wrt_filter sorted_wrt_map split: option.splits if_splits)

lemma map_insert_all_map:
  "sorted_keys m \<Longrightarrow>
   sorted_keys (map_insert_all other m) \<and>
   map_of (map_insert_all other m) = map_of (m @ other)"
proof (induction other arbitrary: m)
  case (Cons x other)
  have "map_of (fst (std_emplace (fst x) (snd x) m) @ other) = map_of (m @ x # other)"
    using std_emplace_map [OF Cons.prems, of "fst x" "snd x"]
    by (cases x) (auto simp: map_of_append map_add_def fun_eq_iff split: option.splits)
  with Cons.IH [OF std_emplace_sorted [OF Cons.prems]] show ?case
    by (simp add: map_insert_all_def)
qed (simp add: map_insert_all_def)

lemma endomap_subscript_eq:
  assumes "sorted_keys (entries_of m)"
  shows "endomap_subscript m t =
    (case map_of (entries_of m) t of
       Some v \<Rightarrow> (v, m)
     | None \<Rightarrow> (t, m\<lparr>entries_of := fst (std_emplace t t (entries_of m))\<rparr>))"
proof -
  obtain before i where lb: "lower_bound t (entries_of m) = (before, i)" by fastforce
  show ?thesis
    using lower_bound_find [OF lb assms]
    by (auto simp: endomap_subscript_def lb Let_def split: if_splits)
qed

lemma map_call_list_loop_eq:
  "map_call_list_loop m ts acc =
   (if \<forall>t \<in> set ts. map_of m t \<noteq> None then Inr (acc @ map (\<lambda>t. the (map_of m t)) ts)
    else Inl Range_error)"
  by (induction ts arbitrary: acc)
    (auto simp: map_call_def map_xfind_def map_find_def split: option.splits)

section \<open>Properties\<close>

text \<open>\<open>misc::put\<close>, by one search of the lower bound, updates or inserts: it acts as the update of
  the finite map and keeps the entries sorted without duplicate.\<close>

theorem put_updates:
  assumes "sorted_keys m"
  shows "map_of (put m k v) = (map_of m)(k \<mapsto> v) \<and> sorted_keys (put m k v)"
  using put_map [OF assms] put_sorted [OF assms] by simp

theorem put_updates_witness:
  "map_of (put [(1 :: nat, ''a''), (3, ''c'')] 2 ''b'') = (map_of [(1, ''a''), (3, ''c'')])(2 \<mapsto> ''b'') \<and>
   sorted_keys (put [(1 :: nat, ''a''), (3, ''c'')] 2 ''b'')"
  by (rule put_updates) (simp add: sorted_keys_def)

end
