(* ===== verification/Binder.thy ===== *)
theory Binder
  imports Ast_Visitor Misc_Scoped_Map Misc_Error
begin

text \<open>
  \<^verbatim>\<open>src/bind/binder.cc\<close>: the binding of the uses of names to their declarations.  The state is the
  members of the class; the annotations \<open>def_\<close> that the pass leaves on the nodes are the map
  \<open>bindings\<close> from the address of the use to the address of the declaration.

  The rules that the pass applies are a second traversal (\<open>spec_visit\<close>) on plain environments, without scopes to
  open and close, flags to save, nor stack of loops; the refinement lemma \<open>visit_refines\<close> shows that the pass
  computes it.  They are the rules of this code, with its departures from the language; \<open>Tiger_Scoping\<close> compares
  them with those of Tiger.
\<close>

section \<open>The model of the code\<close>

record bind_state =
  b_error :: error
  vardecs :: "(symbol, addr) scoped_map"
  fundecs :: "(symbol, addr) scoped_map"
  typedecs :: "(symbol, addr) scoped_map"
  loops :: "addr list"
  in_loop :: bool
  bindings :: "addr \<rightharpoonup> addr"

definition binder_new :: bind_state where
  "binder_new =
     \<lparr>b_error = error_new, vardecs = sm_new, fundecs = sm_new, typedecs = sm_new,
      loops = [], in_loop = False, bindings = Map.empty\<rparr>"

definition name_get :: "ast \<Rightarrow> symbol" where
  "name_get e = (case e of
     VarDec _ n _ _ \<Rightarrow> n | FunctionDec _ n _ _ _ \<Rightarrow> n | MethodDec _ n _ _ _ \<Rightarrow> n
   | TypeDec _ n _ \<Rightarrow> n | _ \<Rightarrow> [])"

text \<open>\<open>error_ << bind\<close>, then the text of the diagnosis, then \<open>error_.exit()\<close>.\<close>

definition binder_exit :: "string \<Rightarrow> bind_state \<Rightarrow> 'a res" where
  "binder_exit msg s = error_exit (error_put msg (error_status err_bind (b_error s)))"

definition def_set :: "header \<Rightarrow> addr option \<Rightarrow> bind_state \<Rightarrow> bind_state" where
  "def_set h def s = s\<lparr>bindings := (bindings s)(adr h := def)\<rparr>"

definition binder_scope_begin :: "bind_state \<Rightarrow> bind_state" where
  "binder_scope_begin s =
     s\<lparr>vardecs := sm_scope_begin (vardecs s), typedecs := sm_scope_begin (typedecs s),
       fundecs := sm_scope_begin (fundecs s)\<rparr>"

definition binder_scope_end :: "bind_state \<Rightarrow> bind_state res" where
  "binder_scope_end s =
     bindE (sm_scope_end (vardecs s)) (\<lambda>v.
     bindE (sm_scope_end (typedecs s)) (\<lambda>t.
     bindE (sm_scope_end (fundecs s)) (\<lambda>f.
       Inr (s\<lparr>vardecs := v, typedecs := t, fundecs := f\<rparr>))))"

text \<open>Declarations.\<close>

definition binder_VarDec ::
  "bind_state visit \<Rightarrow> header \<Rightarrow> symbol \<Rightarrow> ast option \<Rightarrow> ast option \<Rightarrow> bind_state \<Rightarrow> bind_state res" where
  "binder_VarDec visit h name type_name init s =
     bindE (sm_put name (adr h) (vardecs s)) (\<lambda>m.
     bindE (accept_opt visit type_name (s\<lparr>vardecs := m\<rparr>)) (\<lambda>s1. accept_opt visit init s1))"

fun binder_duplicates :: "ast list \<Rightarrow> symbol set \<Rightarrow> bind_state \<Rightarrow> unit res" where
  "binder_duplicates [] vars s = Inr ()"
| "binder_duplicates (dec # decs) vars s =
     (if name_get dec \<in> vars
      then binder_exit (''duplicated parameter: '' @ name_get dec) s
      else binder_duplicates decs (insert (name_get dec) vars) s)"

definition binder_VarChunk :: "bind_state visit \<Rightarrow> ast list \<Rightarrow> bind_state \<Rightarrow> bind_state res" where
  "binder_VarChunk visit decs s =
     bindE (binder_duplicates decs {} s) (\<lambda>_. foldE visit decs s)"

definition binder_TypeChunk :: "bind_state visit \<Rightarrow> ast list \<Rightarrow> bind_state \<Rightarrow> bind_state res" where
  "binder_TypeChunk visit decs s =
     foldE (\<lambda>dec s.
       if sm_contains (typedecs s) (name_get dec)
       then binder_exit (''duplicated type: '' @ name_get dec) s
       else visit dec s) decs s"

definition binder_fundec_put :: "ast \<Rightarrow> bind_state \<Rightarrow> bind_state res" where
  "binder_fundec_put dec s =
     (if sm_contains (fundecs s) (name_get dec)
      then binder_exit (''duplicated function: '' @ name_get dec) s
      else bindE (sm_put (name_get dec) (addr_of dec) (fundecs s)) (\<lambda>m. Inr (s\<lparr>fundecs := m\<rparr>)))"

definition binder_FunctionChunk :: "bind_state visit \<Rightarrow> ast list \<Rightarrow> bind_state \<Rightarrow> bind_state res" where
  "binder_FunctionChunk visit decs s =
     bindE (foldE binder_fundec_put decs s) (\<lambda>s1. foldE visit decs s1)"

definition binder_FunctionDec :: "bind_state visit \<Rightarrow> ast \<Rightarrow> ast option \<Rightarrow> bind_state \<Rightarrow> bind_state res" where
  "binder_FunctionDec visit formals body s =
     (let copy = in_loop s in
      bindE (foldE visit (decs_get formals) (binder_scope_begin (s\<lparr>in_loop := False\<rparr>))) (\<lambda>s1.
      bindE (accept_opt visit body s1) (\<lambda>s2.
      bindE (binder_scope_end s2) (\<lambda>s3. Inr (s3\<lparr>in_loop := copy\<rparr>)))))"

definition binder_TypeDec :: "header \<Rightarrow> symbol \<Rightarrow> bind_state \<Rightarrow> bind_state res" where
  "binder_TypeDec h name s =
     bindE (sm_put name (adr h) (typedecs s)) (\<lambda>m. Inr (s\<lparr>typedecs := m\<rparr>))"

text \<open>Loops.\<close>

definition loops_pop :: "bind_state \<Rightarrow> bind_state" where
  "loops_pop s = s\<lparr>loops := tl (loops s)\<rparr>"

definition binder_ForExp ::
  "bind_state visit \<Rightarrow> header \<Rightarrow> ast \<Rightarrow> ast \<Rightarrow> ast \<Rightarrow> bind_state \<Rightarrow> bind_state res" where
  "binder_ForExp visit h vardec hi body s =
     (let copy = in_loop s;
          s1 = binder_scope_begin (s\<lparr>in_loop := True, loops := adr h # loops s\<rparr>)
      in bindE (visit vardec s1) (\<lambda>s2.
         bindE (visit hi s2) (\<lambda>s3.
         bindE (visit body s3) (\<lambda>s4.
         bindE (binder_scope_end s4) (\<lambda>s5. Inr ((loops_pop s5)\<lparr>in_loop := copy\<rparr>))))))"

definition binder_WhileExp :: "bind_state visit \<Rightarrow> header \<Rightarrow> ast \<Rightarrow> bind_state \<Rightarrow> bind_state res" where
  "binder_WhileExp visit h body s =
     (let copy = in_loop s
      in bindE (visit body (s\<lparr>in_loop := True, loops := adr h # loops s\<rparr>)) (\<lambda>s1.
           Inr ((loops_pop s1)\<lparr>in_loop := copy\<rparr>)))"

text \<open>Uses.\<close>

definition binder_SimpleVar :: "header \<Rightarrow> symbol \<Rightarrow> bind_state \<Rightarrow> bind_state res" where
  "binder_SimpleVar h name s =
     (case sm_get (vardecs s) name of
        None \<Rightarrow> binder_exit (''undeclared variable: '' @ name) s
      | Some def \<Rightarrow> Inr (def_set h (Some def) s))"

definition binder_CallExp ::
  "bind_state visit \<Rightarrow> header \<Rightarrow> symbol \<Rightarrow> ast list \<Rightarrow> bind_state \<Rightarrow> bind_state res" where
  "binder_CallExp visit h name args s =
     (case sm_get (fundecs s) name of
        None \<Rightarrow> binder_exit (''undeclared/undefined function: '' @ name) s
      | Some def \<Rightarrow> foldE visit args (def_set h (Some def) s))"

definition binder_BreakExp :: "header \<Rightarrow> bind_state \<Rightarrow> bind_state res" where
  "binder_BreakExp h s =
     (if in_loop s
      then if loops s \<noteq> [] then Inr (def_set h (Some (hd (loops s))) s)
           else binder_exit ''break outside loop: '' s
      else binder_exit ''Invalid break'' s)"

definition binder_NameTy :: "header \<Rightarrow> symbol \<Rightarrow> bind_state \<Rightarrow> bind_state res" where
  "binder_NameTy h name s =
     (let def = sm_get (typedecs s) name in
      if def = None \<and> name \<noteq> ''int'' \<and> name \<noteq> ''string''
      then binder_exit (''undeclared type: '' @ name) s
      else Inr (def_set h def s))"

text \<open>Scopes.\<close>

definition binder_SeqExp :: "bind_state visit \<Rightarrow> ast list \<Rightarrow> bind_state \<Rightarrow> bind_state res" where
  "binder_SeqExp visit exps s =
     foldE (\<lambda>x s. bindE (visit x (binder_scope_begin s)) binder_scope_end) exps s"

definition binder_LetExp :: "bind_state visit \<Rightarrow> ast \<Rightarrow> ast \<Rightarrow> bind_state \<Rightarrow> bind_state res" where
  "binder_LetExp visit chunks body s =
     (let copy = in_loop s in
      bindE (visit chunks ((binder_scope_begin s)\<lparr>in_loop := False\<rparr>)) (\<lambda>s1.
      bindE (visit body s1) (\<lambda>s2.
      bindE (binder_scope_end s2) (\<lambda>s3. Inr (s3\<lparr>in_loop := copy\<rparr>)))))"

text \<open>The table of the virtual methods of \<open>Binder\<close>.\<close>

definition binder_dispatch :: "bind_state visit \<Rightarrow> bind_state visit" where
  "binder_dispatch visit e s = (case e of
     VarDec h name type_name init \<Rightarrow> binder_VarDec visit h name type_name init s
   | VarChunk h decs \<Rightarrow> binder_VarChunk visit decs s
   | TypeChunk h decs \<Rightarrow> binder_TypeChunk visit decs s
   | FunctionChunk h decs \<Rightarrow> binder_FunctionChunk visit decs s
   | FunctionDec h name formals result body \<Rightarrow> binder_FunctionDec visit formals body s
   | TypeDec h name ty \<Rightarrow> binder_TypeDec h name s
   | ForExp h vardec hi body \<Rightarrow> binder_ForExp visit h vardec hi body s
   | WhileExp h test body \<Rightarrow> binder_WhileExp visit h body s
   | SimpleVar h name \<Rightarrow> binder_SimpleVar h name s
   | CallExp h name args \<Rightarrow> binder_CallExp visit h name args s
   | BreakExp h \<Rightarrow> binder_BreakExp h s
   | NameTy h name \<Rightarrow> binder_NameTy h name s
   | SeqExp h exps \<Rightarrow> binder_SeqExp visit exps s
   | LetExp h chunks body \<Rightarrow> binder_LetExp visit chunks body s
   | ClassTy _ _ _ \<Rightarrow> object_visit e s
   | MethodChunk _ _ \<Rightarrow> object_visit e s
   | MethodDec _ _ _ _ _ \<Rightarrow> object_visit e s
   | MethodCallExp _ _ _ _ \<Rightarrow> object_visit e s
   | ObjectExp _ _ \<Rightarrow> object_visit e s
   | _ \<Rightarrow> default_visit visit e s)"

lemmas binder_method_defs =
  binder_VarDec_def binder_VarChunk_def binder_TypeChunk_def binder_FunctionChunk_def
  binder_FunctionDec_def binder_TypeDec_def binder_ForExp_def binder_WhileExp_def
  binder_SimpleVar_def binder_CallExp_def binder_BreakExp_def binder_NameTy_def binder_SeqExp_def
  binder_LetExp_def

lemma decs_get_size: "d \<in> set (decs_get e) \<Longrightarrow> size d < size e"
  by (cases e) (auto simp: decs_get_def chunk_view_def dest: size_list_member)

lemma binder_dispatch_local:
  assumes "\<And>c s. size c < size e \<Longrightarrow> f c s = g c s"
  shows "binder_dispatch f e s = binder_dispatch g e s"
  using assms default_visit_cong [of e f g]
  by (cases e)
    (auto simp: binder_dispatch_def binder_method_defs Let_def accept_opt_def size_list_member_less
      intro!: bindE_cong foldE_cong dest: decs_get_size size_list_member split: option.splits)

lemma binder_dispatch_cong [fundef_cong]:
  assumes "e = e'" and "s = s'" and "\<And>c s. size c < size e' \<Longrightarrow> f c s = g c s"
  shows "binder_dispatch f e s = binder_dispatch g e' s'"
  unfolding assms(1,2) by (rule binder_dispatch_local) (rule assms(3))

function binder_visit :: "bind_state visit" where
  "binder_visit e s = binder_dispatch binder_visit e s"
  by auto
termination by (relation "measure (size \<circ> fst)") auto

declare binder_visit.simps [simp del]

interpretation bv: traversal binder_visit binder_dispatch
  by unfold_locales (rule binder_visit.simps, rule binder_dispatch_local)

text \<open>\<open>launch_bind\<close>: a new \<open>Binder\<close> on the program.\<close>

definition launch_bind :: "ast \<Rightarrow> bind_state res" where
  "launch_bind the_program = binder_visit the_program binder_new"

section \<open>Scopes are balanced\<close>

text \<open>
  What a visit leaves as it was: the tables under the innermost scopes, the stack of loops, the
  flag, the error.
\<close>

definition same_frame :: "bind_state \<Rightarrow> bind_state \<Rightarrow> bool" where
  "same_frame s t \<longleftrightarrow>
     sm_outer (vardecs t) = sm_outer (vardecs s) \<and> sm_outer (fundecs t) = sm_outer (fundecs s) \<and>
     sm_outer (typedecs t) = sm_outer (typedecs s) \<and>
     loops t = loops s \<and> in_loop t = in_loop s \<and> b_error t = b_error s"

lemma same_frame_refl [simp, intro]: "same_frame s s"
  by (simp add: same_frame_def)

lemma same_frame_trans: "same_frame s t \<Longrightarrow> same_frame t u \<Longrightarrow> same_frame s u"
  by (simp add: same_frame_def)

lemma same_frame_foldE:
  "foldE f xs s = Inr t \<Longrightarrow> (\<And>x s t. x \<in> set xs \<Longrightarrow> f x s = Inr t \<Longrightarrow> same_frame s t) \<Longrightarrow>
   same_frame s t"
  by (rule foldE_relation [of f xs s t same_frame]) (auto intro: same_frame_trans)

lemma same_frame_opt:
  "accept_opt f m s = Inr t \<Longrightarrow> (\<And>x s t. m = Some x \<Longrightarrow> f x s = Inr t \<Longrightarrow> same_frame s t) \<Longrightarrow>
   same_frame s t"
  by (cases m) auto

text \<open>The scope a visit ends is the one it began: the tables are the very ones of the beginning.\<close>

lemma scope_end_begin:
  assumes "same_frame (binder_scope_begin s) t"
  shows "binder_scope_end t =
    Inr (t\<lparr>vardecs := vardecs s, typedecs := typedecs s, fundecs := fundecs s\<rparr>)"
  using assms
  by (simp add: binder_scope_end_def same_frame_def binder_scope_begin_def sm.leave_outer
      sm.outer_enter)

lemma binder_exit_Inl [simp]: "binder_exit msg s \<noteq> Inr t"
  by (simp add: binder_exit_def error_exit_def)

section \<open>The rules of the pass, on environments\<close>

text \<open>
  What the pass computes, without its data structures: an environment maps the names in scope to
  their declarations and says which loop a \<open>break\<close> leaves; a construct that opens a scope gives
  its own environment back.
\<close>

record env =
  evars :: "symbol \<rightharpoonup> addr"
  efuns :: "symbol \<rightharpoonup> addr"
  etypes :: "symbol \<rightharpoonup> addr"
  eloop :: "addr option"

type_synonym spec_state = "env \<times> (addr \<rightharpoonup> addr)"

definition env0 :: env where
  "env0 = \<lparr>evars = Map.empty, efuns = Map.empty, etypes = Map.empty, eloop = None\<rparr>"

definition bind_error :: "string \<Rightarrow> 'a res" where
  "bind_error msg = error_exit (error_put msg (error_status err_bind error_new))"

definition bind_use :: "header \<Rightarrow> addr option \<Rightarrow> spec_state \<Rightarrow> spec_state" where
  "bind_use h def q = (fst q, (snd q)(adr h := def))"

definition scoped :: "env \<Rightarrow> spec_state res \<Rightarrow> spec_state res" where
  "scoped outer r = bindE r (\<lambda>q. Inr (outer, snd q))"

fun spec_duplicates :: "ast list \<Rightarrow> symbol set \<Rightarrow> unit res" where
  "spec_duplicates [] names = Inr ()"
| "spec_duplicates (dec # decs) names =
     (if name_get dec \<in> names then bind_error (''duplicated parameter: '' @ name_get dec)
      else spec_duplicates decs (insert (name_get dec) names))"

definition spec_declare_fun :: "ast \<Rightarrow> spec_state \<Rightarrow> spec_state res" where
  "spec_declare_fun dec q =
     (if name_get dec \<in> dom (efuns (fst q))
      then bind_error (''duplicated function: '' @ name_get dec)
      else Inr ((fst q)\<lparr>efuns := (efuns (fst q))(name_get dec \<mapsto> addr_of dec)\<rparr>, snd q))"

definition spec_dispatch :: "spec_state visit \<Rightarrow> spec_state visit" where
  "spec_dispatch visit e q = (case e of
     VarDec h name type_name init \<Rightarrow>
       foldE visit (opt_list type_name @ opt_list init)
         ((fst q)\<lparr>evars := (evars (fst q))(name \<mapsto> adr h)\<rparr>, snd q)
   | VarChunk h decs \<Rightarrow> bindE (spec_duplicates decs {}) (\<lambda>_. foldE visit decs q)
   | TypeChunk h decs \<Rightarrow>
       foldE (\<lambda>dec q.
         if name_get dec \<in> dom (etypes (fst q))
         then bind_error (''duplicated type: '' @ name_get dec) else visit dec q) decs q
   | FunctionChunk h decs \<Rightarrow> bindE (foldE spec_declare_fun decs q) (foldE visit decs)
   | FunctionDec h name formals result body \<Rightarrow>
       scoped (fst q)
         (foldE visit (decs_get formals @ opt_list body) ((fst q)\<lparr>eloop := None\<rparr>, snd q))
   | TypeDec h name ty \<Rightarrow> Inr ((fst q)\<lparr>etypes := (etypes (fst q))(name \<mapsto> adr h)\<rparr>, snd q)
   | ForExp h vardec hi body \<Rightarrow>
       scoped (fst q) (foldE visit [vardec, hi, body] ((fst q)\<lparr>eloop := Some (adr h)\<rparr>, snd q))
   | WhileExp h test body \<Rightarrow>
       bindE (visit body ((fst q)\<lparr>eloop := Some (adr h)\<rparr>, snd q))
         (\<lambda>q1. Inr ((fst q1)\<lparr>eloop := eloop (fst q)\<rparr>, snd q1))
   | SimpleVar h name \<Rightarrow>
       (if name \<in> dom (evars (fst q)) then Inr (bind_use h (evars (fst q) name) q)
        else bind_error (''undeclared variable: '' @ name))
   | CallExp h name args \<Rightarrow>
       (if name \<in> dom (efuns (fst q)) then foldE visit args (bind_use h (efuns (fst q) name) q)
        else bind_error (''undeclared/undefined function: '' @ name))
   | BreakExp h \<Rightarrow>
       (case eloop (fst q) of
          None \<Rightarrow> bind_error ''Invalid break''
        | Some loop \<Rightarrow> Inr (bind_use h (Some loop) q))
   | NameTy h name \<Rightarrow>
       (if name \<in> dom (etypes (fst q)) \<or> name = ''int'' \<or> name = ''string''
        then Inr (bind_use h (etypes (fst q) name) q)
        else bind_error (''undeclared type: '' @ name))
   | SeqExp h exps \<Rightarrow> foldE (\<lambda>x q. scoped (fst q) (visit x q)) exps q
   | LetExp h chunks body \<Rightarrow>
       scoped (fst q) (foldE visit [chunks, body] ((fst q)\<lparr>eloop := None\<rparr>, snd q))
   | ClassTy _ _ _ \<Rightarrow> Inr q
   | MethodChunk _ _ \<Rightarrow> Inr q
   | MethodDec _ _ _ _ _ \<Rightarrow> Inr q
   | MethodCallExp _ _ _ _ \<Rightarrow> Inr q
   | ObjectExp _ _ \<Rightarrow> Inr q
   | _ \<Rightarrow> foldE visit (subs e) q)"

lemma foldE_subs_cong:
  assumes "\<And>c s. size c < size e \<Longrightarrow> f c s = g c s"
  shows "foldE f (subs e) s = foldE g (subs e) s"
  by (rule foldE_cong [OF refl refl]) (rule assms, erule subs_size)

lemma spec_dispatch_local:
  assumes "\<And>c s. size c < size e \<Longrightarrow> f c s = g c s"
  shows "spec_dispatch f e q = spec_dispatch g e q"
proof (cases e)
  case (FunctionDec h name formals result body)
  have "foldE f (decs_get formals @ opt_list body) r = foldE g (decs_get formals @ opt_list body) r" for r
  proof (rule foldE_cong [OF refl refl])
    fix x s
    assume "x \<in> set (decs_get formals @ opt_list body)"
    then have "size x < size e"
      using decs_get_size [of x formals] by (cases body) (auto simp: FunctionDec)
    then show "f x s = g x s" by (rule assms)
  qed
  then show ?thesis by (simp add: FunctionDec spec_dispatch_def)
qed (use assms foldE_subs_cong [of e f g] in
    \<open>auto simp: spec_dispatch_def scoped_def opt_list_def size_list_member_less
      intro!: bindE_cong foldE_cong dest: size_list_member split: option.splits\<close>)

lemma spec_dispatch_cong [fundef_cong]:
  assumes "e = e'" and "s = s'" and "\<And>c s. size c < size e' \<Longrightarrow> f c s = g c s"
  shows "spec_dispatch f e s = spec_dispatch g e' s'"
  unfolding assms(1,2) by (rule spec_dispatch_local) (rule assms(3))

function spec_visit :: "spec_state visit" where
  "spec_visit e q = spec_dispatch spec_visit e q"
  by auto
termination by (relation "measure (size \<circ> fst)") auto

declare spec_visit.simps [simp del]

section \<open>The pass refines the specification\<close>

definition abs_env :: "bind_state \<Rightarrow> env" where
  "abs_env s =
     \<lparr>evars = sm_get (vardecs s), efuns = sm_get (fundecs s), etypes = sm_get (typedecs s),
      eloop = (if in_loop s then Some (hd (loops s)) else None)\<rparr>"

definition abs_state :: "bind_state \<Rightarrow> spec_state" where
  "abs_state s = (abs_env s, bindings s)"

definition ready :: "bind_state \<Rightarrow> bool" where
  "ready s \<longleftrightarrow>
     sm_outer (vardecs s) \<noteq> [] \<and> sm_outer (fundecs s) \<noteq> [] \<and> sm_outer (typedecs s) \<noteq> [] \<and>
     (in_loop s \<longrightarrow> loops s \<noteq> []) \<and> b_error s = error_new"

definition refines :: "bind_state \<Rightarrow> bind_state res \<Rightarrow> spec_state res \<Rightarrow> bool" where
  "refines s r q =
     (case r of Inl x \<Rightarrow> q = Inl x | Inr t \<Rightarrow> q = Inr (abs_state t) \<and> same_frame s t)"

lemma ready_frame: "ready s \<Longrightarrow> same_frame s t \<Longrightarrow> ready t"
  by (simp add: ready_def same_frame_def)

lemma ready_new: "ready binder_new"
  by (simp add: ready_def binder_new_def sm_outer_empty_iff sm_new_def sm_scope_begin_def)

lemma abs_new: "abs_state binder_new = (env0, Map.empty)"
  by (auto simp: abs_state_def abs_env_def binder_new_def env0_def sm_new_def sm_scope_begin_def
      sm_get_def fun_eq_iff)

lemma ready_begin [simp]: "ready (binder_scope_begin s) = ((in_loop s \<longrightarrow> loops s \<noteq> []) \<and> b_error s = error_new)"
  by (simp add: ready_def binder_scope_begin_def sm.outer_enter)

lemma abs_begin [simp]: "abs_state (binder_scope_begin s) = abs_state s"
  by (simp add: abs_state_def abs_env_def binder_scope_begin_def fun_eq_iff sm.lookup_enter)

lemma refines_Inr: "same_frame s t \<Longrightarrow> q = Inr (abs_state t) \<Longrightarrow> refines s (Inr t) q"
  by (simp add: refines_def)

lemma refines_bind:
  assumes "refines s r q" and "ready s"
    and "\<And>t. ready t \<Longrightarrow> same_frame s t \<Longrightarrow> refines t (f t) (g (abs_state t))"
  shows "refines s (bindE r f) (bindE q g)"
proof (cases r)
  case (Inl x)
  with assms(1) show ?thesis by (simp add: refines_def)
next
  case (Inr t)
  with assms(1) have t: "q = Inr (abs_state t)" "same_frame s t" by (simp_all add: refines_def)
  have "refines t (f t) (g (abs_state t))"
    using ready_frame [OF assms(2) t(2)] t(2) by (rule assms(3))
  with Inr t show ?thesis
    by (auto simp: refines_def split: sum.splits intro: same_frame_trans)
qed

lemma refines_foldE:
  assumes "ready s"
    and "\<And>x t. x \<in> set xs \<Longrightarrow> ready t \<Longrightarrow> refines t (f x t) (g x (abs_state t))"
  shows "refines s (foldE f xs s) (foldE g xs (abs_state s))"
  using assms
proof (induction xs arbitrary: s)
  case Nil
  then show ?case by (simp add: refines_Inr)
next
  case (Cons x xs)
  then show ?case by (auto intro!: refines_bind)
qed

lemma refines_error: "b_error s = error_new \<Longrightarrow> refines s (binder_exit msg s) (bind_error msg)"
  by (simp add: refines_def binder_exit_def bind_error_def error_exit_def)

lemma refines_scoped:
  assumes "refines (binder_scope_begin s0) r q"
    and "vardecs s0 = vardecs s" "fundecs s0 = fundecs s" "typedecs s0 = typedecs s"
      "b_error s0 = b_error s"
    and fin: "\<And>u. loops u = loops s0 \<Longrightarrow> in_loop u = in_loop s0 \<Longrightarrow> fin u = u\<lparr>in_loop := in_loop s, loops := loops s\<rparr>"
  shows "refines s (bindE r (\<lambda>t. bindE (binder_scope_end t) (\<lambda>u. Inr (fin u))))
    (scoped (fst (abs_state s)) q)"
proof (cases r)
  case (Inl x)
  with assms(1) show ?thesis by (simp add: refines_def scoped_def)
next
  case (Inr t)
  with assms(1) have q: "q = Inr (abs_state t)" and f: "same_frame (binder_scope_begin s0) t"
    by (simp_all add: refines_def)
  from f have l: "loops t = loops s0" "in_loop t = in_loop s0" "b_error t = b_error s"
    using assms(5) by (simp_all add: same_frame_def binder_scope_begin_def)
  have "bindE r (\<lambda>t. bindE (binder_scope_end t) (\<lambda>u. Inr (fin u))) =
    Inr (t\<lparr>vardecs := vardecs s, typedecs := typedecs s, fundecs := fundecs s,
           in_loop := in_loop s, loops := loops s\<rparr>)"
    using l(1,2) by (simp add: Inr scope_end_begin [OF f] assms(2-4) fin)
  moreover have "scoped (fst (abs_state s)) q = Inr (abs_env s, bindings t)"
    by (simp add: q scoped_def abs_state_def)
  ultimately show ?thesis
    using l(3) by (simp add: refines_def abs_state_def abs_env_def same_frame_def)
qed

lemma accept_opt_foldE: "accept_opt visit m s = foldE visit (opt_list m) s"
  by (cases m) simp_all

lemma sm_put_ready:
  assumes "sm_outer m \<noteq> []"
  obtains m' where "sm_put k d m = Inr m'" "sm_get m' = (sm_get m)(k \<mapsto> d)" "sm_outer m' = sm_outer m"
proof -
  obtain m' where m': "sm_put k d m = Inr m'" using sm.insert_ok [OF assms] by blast
  moreover have "sm_get m' = (sm_get m)(k \<mapsto> d)"
    by (auto simp: fun_eq_iff sm.lookup_insert [OF m'])
  ultimately show ?thesis by (rule that) (rule sm.outer_insert [OF m'])
qed

lemma abs_in_loop:
  "abs_state (s\<lparr>in_loop := l, loops := ls\<rparr>) =
   ((fst (abs_state s))\<lparr>eloop := (if l then Some (hd ls) else None)\<rparr>, snd (abs_state s))"
  "abs_state (s\<lparr>in_loop := False\<rparr>) = ((fst (abs_state s))\<lparr>eloop := None\<rparr>, snd (abs_state s))"
  by (simp_all add: abs_state_def abs_env_def)

lemma def_set_refines:
  "same_frame s (def_set h def s)" "abs_state (def_set h def s) = bind_use h def (abs_state s)"
  by (simp_all add: def_set_def same_frame_def bind_use_def abs_state_def abs_env_def)

lemma ready_def_set: "ready s \<Longrightarrow> ready (def_set h def s)"
  using ready_frame def_set_refines(1) by blast

text \<open>The induction hypothesis of the simulation: the visits of smaller nodes agree.\<close>

definition agree_below :: "ast \<Rightarrow> bind_state visit \<Rightarrow> spec_state visit \<Rightarrow> bool" where
  "agree_below e f g \<longleftrightarrow>
     (\<forall>c s. size c < size e \<longrightarrow> ready s \<longrightarrow> refines s (f c s) (g c (abs_state s)))"

lemma refines_visit:
  "agree_below e f g \<Longrightarrow> size c < size e \<Longrightarrow> ready s \<Longrightarrow> refines s (f c s) (g c (abs_state s))"
  by (simp add: agree_below_def)

lemma refines_list:
  "agree_below e f g \<Longrightarrow> ready s \<Longrightarrow> (\<And>x. x \<in> set xs \<Longrightarrow> size x < size e) \<Longrightarrow>
   refines s (foldE f xs s) (foldE g xs (abs_state s))"
  by (intro refines_foldE refines_visit)

lemma refines_step:
  assumes "refines t r q" and "same_frame s t"
  shows "refines s r q"
  using assms by (auto simp: refines_def split: sum.splits intro: same_frame_trans)

lemma refines_VarDec:
  assumes "agree_below e f g" "e = VarDec h name ty init" "ready s"
  shows "refines s (binder_VarDec f h name ty init s) (spec_dispatch g e (abs_state s))"
proof -
  from assms(3) have "sm_outer (vardecs s) \<noteq> []" by (simp add: ready_def)
  then obtain m where m: "sm_put name (adr h) (vardecs s) = Inr m"
    "sm_get m = (sm_get (vardecs s))(name \<mapsto> adr h)" "sm_outer m = sm_outer (vardecs s)"
    by (rule sm_put_ready)
  let ?t = "s\<lparr>vardecs := m\<rparr>"
  have fr: "same_frame s ?t" by (simp add: same_frame_def m)
  have ab: "abs_state ?t =
      ((fst (abs_state s))\<lparr>evars := (evars (fst (abs_state s)))(name \<mapsto> adr h)\<rparr>, snd (abs_state s))"
    by (simp add: abs_state_def abs_env_def m)
  have "refines ?t (foldE f (opt_list ty @ opt_list init) ?t)
      (foldE g (opt_list ty @ opt_list init) (abs_state ?t))"
    by (rule refines_list [OF assms(1) ready_frame [OF assms(3) fr]])
      (auto simp: assms(2) opt_list_def split: option.splits)
  then show ?thesis
    by (intro refines_step [OF _ fr])
      (simp add: assms(2) binder_VarDec_def m accept_opt_foldE foldE_append spec_dispatch_def ab)
qed

lemma refines_duplicates:
  "b_error s = error_new \<Longrightarrow> binder_duplicates decs names s = spec_duplicates decs names"
  by (induction decs arbitrary: names) (simp_all add: binder_exit_def bind_error_def)

lemma refines_VarChunk:
  assumes "agree_below e f g" "e = VarChunk h decs" "ready s"
  shows "refines s (binder_VarChunk f decs s) (spec_dispatch g e (abs_state s))"
proof -
  have "refines s (foldE f decs s) (foldE g decs (abs_state s))"
    by (rule refines_list [OF assms(1,3)]) (simp add: assms(2) size_list_member_less)
  moreover have "binder_duplicates decs {} s = spec_duplicates decs {}"
    using assms(3) by (simp add: refines_duplicates ready_def)
  ultimately show ?thesis
    by (cases "spec_duplicates decs {}")
      (simp_all add: assms(2) binder_VarChunk_def spec_dispatch_def refines_def)
qed

lemma refines_TypeChunk:
  assumes "agree_below e f g" "e = TypeChunk h decs" "ready s"
  shows "refines s (binder_TypeChunk f decs s) (spec_dispatch g e (abs_state s))"
  unfolding assms(2) binder_TypeChunk_def spec_dispatch_def ast.case
proof (rule refines_foldE [OF assms(3)])
  fix x t
  assume x: "x \<in> set decs" "ready t"
  have "refines t (f x t) (g x (abs_state t))"
    using x by (intro refines_visit [OF assms(1)]) (simp_all add: assms(2) size_list_member_less)
  with x(2) show "refines t
     (if sm_contains (typedecs t) (name_get x)
      then binder_exit (''duplicated type: '' @ name_get x) t else f x t)
     (if name_get x \<in> dom (etypes (fst (abs_state t)))
      then bind_error (''duplicated type: '' @ name_get x) else g x (abs_state t))"
    by (auto simp: sm_contains_get abs_state_def abs_env_def ready_def intro: refines_error)
qed

lemma refines_fundec_put:
  assumes "ready s"
  shows "refines s (binder_fundec_put d s) (spec_declare_fun d (abs_state s))"
proof -
  from assms have "sm_outer (fundecs s) \<noteq> []" by (simp add: ready_def)
  then obtain m where m: "sm_put (name_get d) (addr_of d) (fundecs s) = Inr m"
    "sm_get m = (sm_get (fundecs s))(name_get d \<mapsto> addr_of d)" "sm_outer m = sm_outer (fundecs s)"
    by (rule sm_put_ready)
  show ?thesis
    using assms
    by (auto simp: binder_fundec_put_def spec_declare_fun_def sm_contains_get abs_state_def
        abs_env_def m ready_def same_frame_def intro: refines_error intro!: refines_Inr)
qed

lemma refines_FunctionChunk:
  assumes "agree_below e f g" "e = FunctionChunk h decs" "ready s"
  shows "refines s (binder_FunctionChunk f decs s) (spec_dispatch g e (abs_state s))"
  unfolding assms(2) binder_FunctionChunk_def spec_dispatch_def ast.case
  by (rule refines_bind [OF refines_foldE [OF assms(3) refines_fundec_put] assms(3)])
    (auto intro!: refines_list [OF assms(1)] simp: assms(2) size_list_member_less)

lemma refines_FunctionDec:
  assumes "agree_below e f g" "e = FunctionDec h name formals result body" "ready s"
  shows "refines s (binder_FunctionDec f formals body s) (spec_dispatch g e (abs_state s))"
proof -
  let ?s0 = "s\<lparr>in_loop := False\<rparr>"
  have "refines (binder_scope_begin ?s0)
     (foldE f (decs_get formals @ opt_list body) (binder_scope_begin ?s0))
     (foldE g (decs_get formals @ opt_list body) (abs_state (binder_scope_begin ?s0)))"
    using assms(3)
    by (intro refines_list [OF assms(1)])
      (auto simp: assms(2) ready_def opt_list_def binder_scope_begin_def sm.outer_enter
        dest!: decs_get_size split: option.splits)
  from refines_scoped [OF this, of s "\<lambda>u. u\<lparr>in_loop := in_loop s\<rparr>"] show ?thesis
    by (simp add: assms(2) binder_FunctionDec_def spec_dispatch_def accept_opt_foldE foldE_append
        bindE_assoc abs_in_loop)
qed

lemma refines_TypeDec:
  assumes "e = TypeDec h name ty" "ready s"
  shows "refines s (binder_TypeDec h name s) (spec_dispatch g e (abs_state s))"
proof -
  from assms(2) have "sm_outer (typedecs s) \<noteq> []" by (simp add: ready_def)
  then obtain m where "sm_put name (adr h) (typedecs s) = Inr m"
    "sm_get m = (sm_get (typedecs s))(name \<mapsto> adr h)" "sm_outer m = sm_outer (typedecs s)"
    by (rule sm_put_ready)
  then show ?thesis
    by (auto simp: assms(1) binder_TypeDec_def spec_dispatch_def abs_state_def abs_env_def
        same_frame_def intro!: refines_Inr)
qed

lemma refines_ForExp:
  assumes "agree_below e f g" "e = ForExp h vardec hi body" "ready s"
  shows "refines s (binder_ForExp f h vardec hi body s) (spec_dispatch g e (abs_state s))"
proof -
  let ?s0 = "s\<lparr>in_loop := True, loops := adr h # loops s\<rparr>"
  have "refines (binder_scope_begin ?s0)
     (foldE f [vardec, hi, body] (binder_scope_begin ?s0))
     (foldE g [vardec, hi, body] (abs_state (binder_scope_begin ?s0)))"
    using assms(3)
    by (intro refines_list [OF assms(1)])
      (auto simp: assms(2) ready_def binder_scope_begin_def sm.outer_enter)
  from refines_scoped [OF this, of s "\<lambda>u. (loops_pop u)\<lparr>in_loop := in_loop s\<rparr>"] show ?thesis
    by (simp add: assms(2) binder_ForExp_def spec_dispatch_def bindE_assoc abs_in_loop loops_pop_def
        Let_def)
qed

lemma refines_WhileExp:
  assumes "agree_below e f g" "e = WhileExp h test body" "ready s"
  shows "refines s (binder_WhileExp f h body s) (spec_dispatch g e (abs_state s))"
proof -
  let ?s0 = "s\<lparr>in_loop := True, loops := adr h # loops s\<rparr>"
  have "refines ?s0 (f body ?s0) (g body (abs_state ?s0))"
    using assms(3) by (intro refines_visit [OF assms(1)]) (simp_all add: assms(2) ready_def)
  then show ?thesis
    by (cases "f body ?s0")
      (auto simp: assms(2) binder_WhileExp_def spec_dispatch_def abs_in_loop loops_pop_def refines_def
        same_frame_def abs_state_def abs_env_def Let_def)
qed

lemma refines_SimpleVar:
  assumes "e = SimpleVar h name" "ready s"
  shows "refines s (binder_SimpleVar h name s) (spec_dispatch g e (abs_state s))"
proof -
  have vars: "evars (fst (abs_state s)) = sm_get (vardecs s)"
    by (simp add: abs_state_def abs_env_def)
  have ok: "refines s (Inr (def_set h d s)) (Inr (bind_use h d (abs_state s)))" for d
    by (rule refines_Inr) (simp_all add: def_set_refines)
  from assms(2) have er: "refines s (binder_exit msg s) (bind_error msg)" for msg
    by (intro refines_error) (simp add: ready_def)
  show ?thesis
    using ok er
    by (auto simp: assms(1) binder_SimpleVar_def spec_dispatch_def vars domIff split: option.splits)
qed

lemma refines_CallExp:
  assumes "agree_below e f g" "e = CallExp h name args" "ready s"
  shows "refines s (binder_CallExp f h name args s) (spec_dispatch g e (abs_state s))"
proof (cases "sm_get (fundecs s) name")
  case None
  with assms(3) show ?thesis
    by (auto simp: assms(2) binder_CallExp_def spec_dispatch_def ready_def abs_state_def abs_env_def
        domIff intro: refines_error)
next
  case (Some def)
  let ?t = "def_set h (Some def) s"
  have "refines ?t (foldE f args ?t) (foldE g args (abs_state ?t))"
    by (rule refines_list [OF assms(1) ready_def_set [OF assms(3)]])
      (simp add: assms(2) size_list_member_less)
  from refines_step [OF this def_set_refines(1)] Some show ?thesis
    by (simp add: assms(2) binder_CallExp_def spec_dispatch_def def_set_refines(2) domIff)
      (simp add: abs_state_def abs_env_def)
qed

lemma refines_BreakExp:
  assumes "e = BreakExp h" "ready s"
  shows "refines s (binder_BreakExp h s) (spec_dispatch g e (abs_state s))"
proof (cases "in_loop s")
  case True
  with assms(2) have "loops s \<noteq> []" by (simp add: ready_def)
  with True show ?thesis
    by (auto simp: assms(1) binder_BreakExp_def spec_dispatch_def def_set_refines(2)
        intro!: refines_Inr def_set_refines(1))
      (simp add: abs_state_def abs_env_def)
next
  case False
  with assms(2) show ?thesis
    by (auto simp: assms(1) binder_BreakExp_def spec_dispatch_def ready_def abs_state_def abs_env_def
        intro: refines_error)
qed

lemma refines_NameTy:
  assumes "e = NameTy h name" "ready s"
  shows "refines s (binder_NameTy h name s) (spec_dispatch g e (abs_state s))"
proof -
  have ty: "etypes (fst (abs_state s)) = sm_get (typedecs s)"
    by (simp add: abs_state_def abs_env_def)
  have ok: "refines s (Inr (def_set h d s)) (Inr (bind_use h d (abs_state s)))" for d
    by (rule refines_Inr) (simp_all add: def_set_refines)
  from assms(2) have er: "refines s (binder_exit msg s) (bind_error msg)" for msg
    by (intro refines_error) (simp add: ready_def)
  show ?thesis
    using ok er by (auto simp: assms(1) binder_NameTy_def spec_dispatch_def ty domIff Let_def)
qed

lemma refines_SeqExp:
  assumes "agree_below e f g" "e = SeqExp h exps" "ready s"
  shows "refines s (binder_SeqExp f exps s) (spec_dispatch g e (abs_state s))"
  unfolding assms(2) binder_SeqExp_def spec_dispatch_def ast.case
proof (rule refines_foldE [OF assms(3)])
  fix x t
  assume x: "x \<in> set exps" "ready t"
  have "refines (binder_scope_begin t) (f x (binder_scope_begin t))
    (g x (abs_state (binder_scope_begin t)))"
    using x by (intro refines_visit [OF assms(1)])
      (simp_all add: assms(2) size_list_member_less, simp add: ready_def)
  from refines_scoped [OF this, of t "\<lambda>u. u"]
  show "refines t (bindE (f x (binder_scope_begin t)) binder_scope_end)
    (scoped (fst (abs_state t)) (g x (abs_state t)))"
    by (auto intro: bind_state.equality)
qed

lemma refines_LetExp:
  assumes "agree_below e f g" "e = LetExp h chunks body" "ready s"
  shows "refines s (binder_LetExp f chunks body s) (spec_dispatch g e (abs_state s))"
proof -
  let ?s0 = "s\<lparr>in_loop := False\<rparr>"
  have begin_eq: "(binder_scope_begin s)\<lparr>in_loop := False\<rparr> = binder_scope_begin ?s0"
    by (simp add: binder_scope_begin_def)
  have "refines (binder_scope_begin ?s0) (foldE f [chunks, body] (binder_scope_begin ?s0))
     (foldE g [chunks, body] (abs_state (binder_scope_begin ?s0)))"
    using assms(3)
    by (intro refines_list [OF assms(1)])
      (auto simp: assms(2) ready_def binder_scope_begin_def sm.outer_enter)
  from refines_scoped [OF this, of s "\<lambda>u. u\<lparr>in_loop := in_loop s\<rparr>"] show ?thesis
    by (simp add: assms(2) binder_LetExp_def begin_eq spec_dispatch_def bindE_assoc abs_in_loop Let_def)
qed

lemma refines_default:
  assumes "agree_below e f g" "ready s" "\<not> is_object_node e"
  shows "refines s (default_visit f e s) (foldE g (subs e) (abs_state s))"
  unfolding default_visit_def accepts_subs [OF assms(3)]
  by (rule refines_list [OF assms(1,2)]) (rule subs_size)

lemma refines_dispatch:
  assumes "agree_below e f g" "ready s"
  shows "refines s (binder_dispatch f e s) (spec_dispatch g e (abs_state s))"
proof (cases e)
  case (VarDec h n t i)
  then show ?thesis using refines_VarDec [OF assms(1) _ assms(2)] by (simp add: binder_dispatch_def)
next
  case (VarChunk h ds)
  then show ?thesis using refines_VarChunk [OF assms(1) _ assms(2)] by (simp add: binder_dispatch_def)
next
  case (TypeChunk h ds)
  then show ?thesis using refines_TypeChunk [OF assms(1) _ assms(2)] by (simp add: binder_dispatch_def)
next
  case (FunctionChunk h ds)
  then show ?thesis using refines_FunctionChunk [OF assms(1) _ assms(2)] by (simp add: binder_dispatch_def)
next
  case (FunctionDec h n f r b)
  then show ?thesis using refines_FunctionDec [OF assms(1) _ assms(2)] by (simp add: binder_dispatch_def)
next
  case (TypeDec h n t)
  then show ?thesis using refines_TypeDec [OF _ assms(2)] by (simp add: binder_dispatch_def)
next
  case (ForExp h v hi b)
  then show ?thesis using refines_ForExp [OF assms(1) _ assms(2)] by (simp add: binder_dispatch_def)
next
  case (WhileExp h t b)
  then show ?thesis using refines_WhileExp [OF assms(1) _ assms(2)] by (simp add: binder_dispatch_def)
next
  case (SimpleVar h n)
  then show ?thesis using refines_SimpleVar [OF _ assms(2)] by (simp add: binder_dispatch_def)
next
  case (CallExp h n as)
  then show ?thesis using refines_CallExp [OF assms(1) _ assms(2)] by (simp add: binder_dispatch_def)
next
  case (BreakExp h)
  then show ?thesis using refines_BreakExp [OF _ assms(2)] by (simp add: binder_dispatch_def)
next
  case (NameTy h n)
  then show ?thesis using refines_NameTy [OF _ assms(2)] by (simp add: binder_dispatch_def)
next
  case (SeqExp h es)
  then show ?thesis using refines_SeqExp [OF assms(1) _ assms(2)] by (simp add: binder_dispatch_def)
next
  case (LetExp h cs b)
  then show ?thesis using refines_LetExp [OF assms(1) _ assms(2)] by (simp add: binder_dispatch_def)
qed (use refines_default [OF assms] in
    \<open>simp_all add: binder_dispatch_def spec_dispatch_def object_visit_def refines_Inr is_object_node_def\<close>)

lemma visit_refines: "ready s \<Longrightarrow> refines s (binder_visit e s) (spec_visit e (abs_state s))"
proof (induction e arbitrary: s rule: measure_induct_rule [of size])
  case (less e)
  have "agree_below e binder_visit spec_visit"
    unfolding agree_below_def using less.IH by blast
  from refines_dispatch [OF this less.prems] show ?case
    by (simp only: binder_visit.simps [symmetric] spec_visit.simps [symmetric])
qed

section \<open>Expressions leave the tables as they are\<close>

text \<open>The nodes below which declarations only occur inside a construct with a scope.\<close>

definition quiet :: "ast \<Rightarrow> bool" where
  "quiet e \<longleftrightarrow> is_Exp e \<or> is_Ty e \<or> is_Field e \<or> is_FieldInit e"

definition same_tables :: "bind_state \<Rightarrow> bind_state \<Rightarrow> bool" where
  "same_tables s t \<longleftrightarrow>
     vardecs t = vardecs s \<and> fundecs t = fundecs s \<and> typedecs t = typedecs s"

lemma visit_frame: "ready s \<Longrightarrow> binder_visit e s = Inr t \<Longrightarrow> same_frame s t"
  using visit_refines [of s e] by (simp add: refines_def)

lemma same_tables_foldE:
  assumes "foldE f xs s = Inr t" and "ready s"
    and "\<And>x s t. x \<in> set xs \<Longrightarrow> ready s \<Longrightarrow> f x s = Inr t \<Longrightarrow> same_tables s t \<and> same_frame s t"
  shows "same_tables s t"
  using assms
proof (induction xs arbitrary: s)
  case Nil
  then show ?case by (simp add: same_tables_def)
next
  case (Cons x xs)
  from Cons.prems(1) obtain u where u: "f x s = Inr u" "foldE f xs u = Inr t"
    by (auto simp: bindE_eq_Inr)
  have *: "same_tables s u" "same_frame s u"
    using Cons.prems(3) [OF _ Cons.prems(2) u(1)] by simp_all
  have "same_tables u t"
    by (rule Cons.IH [OF u(2) ready_frame [OF Cons.prems(2) *(2)]])
      (rule Cons.prems(3), simp_all)
  with * show ?case by (simp add: same_tables_def)
qed

lemma scope_end_tables:
  assumes "same_frame (binder_scope_begin s) t" "binder_scope_end t = Inr u"
  shows "same_tables s u"
  using assms(2) by (simp add: scope_end_begin [OF assms(1)] same_tables_def) auto

lemma frame_foldE:
  assumes "ready s" "foldE binder_visit xs s = Inr t"
  shows "same_frame s t"
  using refines_foldE [OF assms(1), of xs binder_visit spec_visit] visit_refines assms(2)
  by (simp add: refines_def)

lemma scoped_tables:
  assumes "foldE binder_visit xs (binder_scope_begin s0) = Inr u" "ready (binder_scope_begin s0)"
    and "binder_scope_end u = Inr v"
  shows "same_tables s0 v"
  using frame_foldE [OF assms(2,1)] assms(3) by (rule scope_end_tables)

lemma wf_accepts: "wf_ast e \<Longrightarrow> c \<in> set (accepts e) \<Longrightarrow> wf_ast c"
  using accepts_subs accepts_object
  by (cases "is_object_node e") (auto simp: wf_ast_unfold [of e] list_all_iff)

lemma is_class_case:
  "is_VarDec e \<Longrightarrow> \<exists>h n t i. e = VarDec h n t i" "is_NameTy e \<Longrightarrow> is_Ty e" "is_Var e \<Longrightarrow> is_Exp e"
  by (cases e; simp add: is_class_defs)+

lemma quiet_accepts:
  assumes "wf_ast e" "quiet e" "c \<in> set (accepts e)"
    and "\<And>h v hi b. e \<noteq> ForExp h v hi b" "\<And>h cs b. e \<noteq> LetExp h cs b"
  shows "quiet c"
proof -
  from assms(1) have "wf_node e" by (simp add: wf_ast_unfold)
  with assms(2-) is_class_case(2,3) show ?thesis
    by (cases e) (auto simp: quiet_def wf_node_def accepts_defs list_all_iff is_Exp_def is_Ty_def
        is_Field_def is_FieldInit_def)
qed

lemma visit_tables:
  "ready s \<Longrightarrow> wf_ast e \<Longrightarrow> quiet e \<Longrightarrow> binder_visit e s = Inr t \<Longrightarrow> same_tables s t"
proof (induction e arbitrary: s t rule: measure_induct_rule [of size])
  case (less e)
  note visit = less.prems(4) [unfolded binder_visit.simps [of e] binder_dispatch_def]
  have list: "same_tables s t"
    if "foldE binder_visit xs s = Inr t" "ready s" "set xs \<subseteq> set (accepts e)"
      "\<And>h v hi b. e \<noteq> ForExp h v hi b" "\<And>h cs b. e \<noteq> LetExp h cs b" for xs s t
    using that(1,2)
  proof (rule same_tables_foldE)
    fix x s t
    assume x: "x \<in> set xs" "ready s" "binder_visit x s = Inr t"
    with that(3) have c: "x \<in> set (accepts e)" by blast
    have "same_tables s t"
      using accepts_size [OF c] x(2) wf_accepts [OF less.prems(2) c]
        quiet_accepts [OF less.prems(2,3) c that(4,5)] x(3)
      by (rule less.IH)
    with visit_frame [OF x(2,3)] show "same_tables s t \<and> same_frame s t" by simp
  qed
  show ?case
  proof (cases e)
    case (SeqExp h es)
    have "foldE (\<lambda>x s. bindE (binder_visit x (binder_scope_begin s)) binder_scope_end) es s = Inr t"
      using visit by (simp add: SeqExp binder_SeqExp_def)
    then show ?thesis
    proof (rule same_tables_foldE [OF _ less.prems(1)])
      fix x s t
      assume x: "ready s" "bindE (binder_visit x (binder_scope_begin s)) binder_scope_end = Inr t"
      then obtain u where u: "binder_visit x (binder_scope_begin s) = Inr u" "binder_scope_end u = Inr t"
        by (auto simp: bindE_eq_Inr)
      have f: "same_frame (binder_scope_begin s) u"
        by (rule visit_frame [OF _ u(1)]) (use x(1) in \<open>simp, simp add: ready_def\<close>)
      from scope_end_tables [OF f u(2)] f u(2) show "same_tables s t \<and> same_frame s t"
        by (auto simp: scope_end_begin [OF f] same_frame_def binder_scope_begin_def)
    qed
  next
    case (CallExp h n as)
    with visit obtain d where "foldE binder_visit as (def_set h d s) = Inr t"
      by (auto simp: binder_CallExp_def split: option.splits)
    then have "same_tables (def_set h d s) t"
      by (rule list) (simp_all add: CallExp accepts_defs ready_def_set less.prems(1))
    then show ?thesis by (simp add: same_tables_def def_set_def)
  next
    case (ForExp h v hi b)
    let ?s0 = "s\<lparr>in_loop := True, loops := adr h # loops s\<rparr>"
    from visit obtain u w where "foldE binder_visit [v, hi, b] (binder_scope_begin ?s0) = Inr u"
      "binder_scope_end u = Inr w" "t = (loops_pop w)\<lparr>in_loop := in_loop s\<rparr>"
      by (auto simp: ForExp binder_ForExp_def bindE_eq_Inr Let_def)
    with scoped_tables [of "[v, hi, b]" ?s0 u w] less.prems(1) show ?thesis
      by (simp add: same_tables_def loops_pop_def ready_def sm.outer_enter binder_scope_begin_def)
  next
    case (LetExp h cs b)
    let ?s0 = "s\<lparr>in_loop := False\<rparr>"
    have "(binder_scope_begin s)\<lparr>in_loop := False\<rparr> = binder_scope_begin ?s0"
      by (simp add: binder_scope_begin_def)
    with visit obtain u w where "foldE binder_visit [cs, b] (binder_scope_begin ?s0) = Inr u"
      "binder_scope_end u = Inr w" "t = w\<lparr>in_loop := in_loop s\<rparr>"
      by (auto simp: LetExp binder_LetExp_def bindE_eq_Inr Let_def)
    with scoped_tables [of "[cs, b]" ?s0 u w] less.prems(1) show ?thesis
      by (simp add: same_tables_def ready_def sm.outer_enter binder_scope_begin_def)
  next
    case (WhileExp h c b)
    let ?s0 = "s\<lparr>in_loop := True, loops := adr h # loops s\<rparr>"
    from visit obtain u where u: "binder_visit b ?s0 = Inr u" "t = (loops_pop u)\<lparr>in_loop := in_loop s\<rparr>"
      by (auto simp: WhileExp binder_WhileExp_def bindE_eq_Inr Let_def)
    have "same_tables ?s0 u"
      using less.prems(1) u(1)
      by (intro list [of "[b]"]) (simp_all add: WhileExp accepts_defs ready_def)
    with u(2) show ?thesis by (simp add: same_tables_def loops_pop_def)
  qed (use visit less.prems(1,3) list [of "accepts e" s t] in
      \<open>auto simp: same_tables_def default_visit_def object_visit_def binder_BreakExp_def
        binder_SimpleVar_def binder_NameTy_def def_set_def Let_def quiet_def is_class_defs
        split: if_splits option.splits\<close>)
qed

section \<open>Failures\<close>

definition bind_failure :: "exn \<Rightarrow> bool" where
  "bind_failure x = (case x of Thrown err \<Rightarrow> status err = err_bind | _ \<Rightarrow> False)"

lemma bind_error_failure: "bind_error msg = Inl x \<Longrightarrow> bind_failure x"
  by (auto simp: bind_error_def error_exit_def bind_failure_def error_copy_def error_assign_def
      error_put_def error_status_def error_new_def Let_def)

lemma spec_duplicates_failure: "spec_duplicates decs ns = Inl x \<Longrightarrow> bind_failure x"
  by (induction decs ns rule: spec_duplicates.induct)
    (auto dest: bind_error_failure split: if_splits)

lemma spec_visit_failure: "spec_visit e q = Inl x \<Longrightarrow> bind_failure x"
proof (induction e arbitrary: q x rule: measure_induct_rule [of size])
  case (less e)
  note visit = less.prems [unfolded spec_visit.simps [of e] spec_dispatch_def]
  have list: "bind_failure x" if "foldE spec_visit xs q = Inl x" "\<And>y. y \<in> set xs \<Longrightarrow> size y < size e"
    for xs q x
    using that(1) by (rule foldE_fails) (use that(2) less.IH in blast)
  show ?case
  proof (cases e)
    case (TypeChunk h ds)
    with visit have "foldE (\<lambda>dec q.
         if name_get dec \<in> dom (etypes (fst q))
         then bind_error (''duplicated type: '' @ name_get dec) else spec_visit dec q) ds q = Inl x"
      by simp
    then show ?thesis
      by (rule foldE_fails)
        (auto simp: TypeChunk size_list_member_less dest: bind_error_failure split: if_splits
          intro: less.IH [rotated])
  next
    case (SeqExp h es)
    with visit have "foldE (\<lambda>x q. scoped (fst q) (spec_visit x q)) es q = Inl x" by simp
    then show ?thesis
      by (rule foldE_fails)
        (auto simp: SeqExp size_list_member_less scoped_def bindE_eq_Inl intro: less.IH [rotated])
  next
    case (FunctionChunk h ds)
    have "bind_failure x" if "foldE spec_declare_fun ds q = Inl x" for q x
      using that by (rule foldE_fails)
        (auto simp: spec_declare_fun_def dest: bind_error_failure split: if_splits)
    moreover from visit have "foldE spec_declare_fun ds q = Inl x \<or> (\<exists>r. foldE spec_visit ds r = Inl x)"
      by (auto simp: FunctionChunk bindE_eq_Inl)
    moreover have "bind_failure x" if "foldE spec_visit ds r = Inl x" for r
      using that by (rule list) (simp add: FunctionChunk size_list_member_less)
    ultimately show ?thesis by blast
  next
    case (FunctionDec h n f r b)
    from visit have "foldE spec_visit (decs_get f @ opt_list b) ((fst q)\<lparr>eloop := None\<rparr>, snd q) = Inl x"
      by (simp add: FunctionDec bindE_eq_Inl scoped_def)
    then show ?thesis
      by (rule list) (use decs_get_size [of _ f] in \<open>cases b; fastforce simp: FunctionDec\<close>)
  next
    case (VarDec h n t i)
    with visit have "foldE spec_visit (opt_list t @ opt_list i)
        ((fst q)\<lparr>evars := (evars (fst q))(n \<mapsto> adr h)\<rparr>, snd q) = Inl x"
      by simp
    then show ?thesis by (rule list) (cases t; cases i; auto simp: VarDec)
  next
    case (VarChunk h ds)
    with visit consider "spec_duplicates ds {} = Inl x" | "foldE spec_visit ds q = Inl x"
      by (auto simp: bindE_eq_Inl)
    then show ?thesis
    proof cases
      case 2
      then show ?thesis by (rule list) (simp add: VarChunk size_list_member_less)
    qed (rule spec_duplicates_failure)
  next
    case (ForExp h v hi b)
    from visit have "foldE spec_visit [v, hi, b] ((fst q)\<lparr>eloop := Some (adr h)\<rparr>, snd q) = Inl x"
      by (simp add: ForExp bindE_eq_Inl scoped_def del: foldE.simps)
    then show ?thesis by (rule list) (auto simp: ForExp)
  next
    case (LetExp h cs b)
    from visit have "foldE spec_visit [cs, b] ((fst q)\<lparr>eloop := None\<rparr>, snd q) = Inl x"
      by (simp add: LetExp bindE_eq_Inl scoped_def del: foldE.simps)
    then show ?thesis by (rule list) (auto simp: LetExp)
  next
    case (WhileExp h c b)
    from visit have "spec_visit b ((fst q)\<lparr>eloop := Some (adr h)\<rparr>, snd q) = Inl x"
      by (simp add: WhileExp bindE_eq_Inl)
    then show ?thesis by (rule less.IH [rotated]) (simp add: WhileExp)
  next
    case (CallExp h n as)
    with visit consider "(bind_error (''undeclared/undefined function: '' @ n) :: spec_state res) = Inl x"
      | "foldE spec_visit as (bind_use h (efuns (fst q) n) q) = Inl x"
      by (auto split: if_splits)
    then show ?thesis
    proof cases
      case 2
      then show ?thesis by (rule list) (simp add: CallExp size_list_member_less)
    qed (rule bind_error_failure)
  qed (use visit list [of "subs e" q x] subs_size [of _ e] in
      \<open>auto dest: bind_error_failure split: if_splits option.splits\<close>)
qed

lemma launch_bind_refines:
  "refines binder_new (launch_bind p) (spec_visit p (env0, Map.empty))"
  using visit_refines [OF ready_new, of p] by (simp add: launch_bind_def abs_new)

section \<open>Properties\<close>

text \<open>The pass computes its rules: on every program, it fails with the very error of the environments, or it
  succeeds and leaves their bindings.\<close>

lemma launch_bind_environments:
  "map_sum id bindings (launch_bind p) = map_sum id snd (spec_visit p (env0, Map.empty))"
  using launch_bind_refines [of p]
  by (cases "launch_bind p") (simp_all add: refines_def abs_state_def)

text \<open>C2: Every visit that ends leaves the enclosing scopes, the stack of loops, the flag of the enclosing loop and
  the error as it found them: what it declares is in the innermost scope.  The visit of an expression or of a type
  leaves that scope as well: the three symbol tables are what they were.\<close>

theorem visit_scopes_balanced:
  assumes "ready s" and "binder_visit e s = Inr t"
  shows "same_frame s t \<and> (wf_ast e \<and> quiet e \<longrightarrow> same_tables s t)"
  using visit_tables [OF assms(1) _ _ assms(2)] visit_frame [OF assms] by simp

theorem visit_scopes_balanced_witness:
  "same_tables binder_new (binder_new\<lparr>bindings := Map.empty\<rparr>) \<and>
   same_frame binder_new (binder_new\<lparr>bindings := Map.empty\<rparr>)"
proof -
  let ?h = "header_at 0"
  let ?let = "LetExp ?h (ChunkList ?h [VarChunk ?h [VarDec ?h ''x'' None (Some (IntExp ?h 1))]]) (SeqExp ?h [])"
  have "wf_ast ?let"
    by (simp add: wf_ast_unfold wf_node_def is_class_defs)
  moreover have "quiet ?let" by (simp add: quiet_def is_Exp_def)
  moreover have "binder_visit ?let binder_new = Inr (binder_new\<lparr>bindings := Map.empty\<rparr>)"
    by (simp add: binder_visit.simps binder_dispatch_def binder_method_defs default_visit_def
        accepts_defs binder_new_def binder_scope_begin_def binder_scope_end_def sm_scope_begin_def
        sm_new_def sm_put_def sm_scope_end_def)
  ultimately show ?thesis using visit_scopes_balanced [OF ready_new] by blast
qed

text \<open>C16: A failure of the pass is a thrown \<open>misc::error\<close> with the status of binding errors: no
  \<open>logic_error\<close> of a symbol table, no assertion, no access to an empty stack.\<close>

theorem launch_bind_failure:
  assumes "launch_bind p = Inl x"
  shows "bind_failure x"
  using launch_bind_refines [of p] assms spec_visit_failure by (simp add: refines_def)

theorem launch_bind_failure_witness:
  "bind_failure (case launch_bind (SimpleVar (header_at 0) ''x'') of Inl x \<Rightarrow> x | Inr t \<Rightarrow> Unreachable)"
proof -
  have "launch_bind (SimpleVar (header_at 0) ''x'') =
    Inl (Thrown (error_copy (error_put ''undeclared variable: x'' (error_status err_bind error_new))))"
    by (simp add: launch_bind_def binder_visit.simps binder_dispatch_def binder_SimpleVar_def
        binder_new_def sm_new_def sm_scope_begin_def sm_get_def binder_exit_def error_exit_def)
  from launch_bind_failure [OF this] this show ?thesis by simp
qed

text \<open>A \<open>break\<close> in the body of a \<open>let\<close> inside a loop is refused, whatever the loop's test.\<close>

theorem break_in_let_refused:
  "launch_bind (WhileExp h test (LetExp h1 (ChunkList h2 []) (BreakExp h3))) =
   bind_error ''Invalid break''"
  by (simp add: launch_bind_def binder_visit.simps binder_dispatch_def binder_method_defs
      default_visit_def accepts_defs binder_new_def binder_scope_begin_def binder_exit_def
      bind_error_def error_exit_def)

text \<open>What the pass does not read: the condition of a \<open>while\<close>, the type of a type declaration,
  the result type of a function.\<close>

theorem bind_unread_parts:
  "binder_visit (WhileExp h test body) s = binder_visit (WhileExp h test' body) s \<and>
   binder_visit (TypeDec h name ty) s = binder_visit (TypeDec h name ty') s \<and>
   binder_visit (FunctionDec h name formals result fbody) s =
   binder_visit (FunctionDec h name formals result' fbody) s"
  by (simp add: binder_visit.simps [of "WhileExp _ _ _"] binder_visit.simps [of "TypeDec _ _ _"]
      binder_visit.simps [of "FunctionDec _ _ _ _ _"] binder_dispatch_def)

end
