(* ===== verification/Renamer.thy ===== *)
theory Renamer
  imports Binder Misc_Symbol
begin

text \<open>
  \<^verbatim>\<open>src/bind/renamer.cc\<close>, \<^verbatim>\<open>src/bind/renamer.hxx\<close>: every declaration of a variable, a type or a
  function with a body gets a fresh name, and its uses with it.  The parameters are the program
  \<open>root\<close>, in which the pointers to declarations are looked up, and the bindings \<open>bnd\<close> of the
  name binding.  The names set on the nodes are the map \<open>node_names\<close>; \<open>rename_tree\<close> puts them in
  the tree.
\<close>

section \<open>The model of the code\<close>

record renamer =
  unique_names :: "addr \<rightharpoonup> symbol"
  r_counter :: u32
  node_names :: "addr \<rightharpoonup> symbol"

definition renamer_new :: "u32 \<Rightarrow> renamer" where
  "renamer_new c = \<lparr>unique_names = Map.empty, r_counter = c, node_names = Map.empty\<rparr>"

text \<open>\<open>name_get\<close>: the name that was set, or the one of the construction.\<close>

definition cur_name :: "renamer \<Rightarrow> ast \<Rightarrow> symbol" where
  "cur_name s e = (case node_names s (addr_of e) of Some n \<Rightarrow> n | None \<Rightarrow> name_get e)"

text \<open>\<open>def_get\<close>: a pointer to a node of the program.\<close>

definition def_get :: "ast \<Rightarrow> (addr \<rightharpoonup> addr) \<Rightarrow> header \<Rightarrow> ast option res" where
  "def_get root bnd h =
     (case bnd (adr h) of
        None \<Rightarrow> Inr None
      | Some d \<Rightarrow> (case node_at root d of None \<Rightarrow> Inl Bad_access | Some n \<Rightarrow> Inr (Some n)))"

definition body_get :: "ast \<Rightarrow> ast option" where
  "body_get e = (case e of
     FunctionDec _ _ _ _ body \<Rightarrow> body | MethodDec _ _ _ _ body \<Rightarrow> body | _ \<Rightarrow> None)"

text \<open>The template \<open>visit(E& e, const Def* def)\<close>.\<close>

definition renamer_name :: "header \<Rightarrow> ast option \<Rightarrow> renamer \<Rightarrow> renamer" where
  "renamer_name h def s =
     (case def of
        None \<Rightarrow> s
      | Some d \<Rightarrow>
          (let s1 =
             (if unique_names s (addr_of d) = None
              then (let (n, c) = fresh_name (cur_name s d) (r_counter s)
                    in s\<lparr>unique_names := (unique_names s)(addr_of d \<mapsto> n), r_counter := c\<rparr>)
              else s)
           in s1\<lparr>node_names := (node_names s1)(adr h := unique_names s1 (addr_of d))\<rparr>))"

definition renamer_VarDec :: "renamer visit \<Rightarrow> header \<Rightarrow> ast \<Rightarrow> renamer \<Rightarrow> renamer res" where
  "renamer_VarDec visit h e s = default_visit visit e (renamer_name h (Some e) s)"

definition renamer_FunctionDec :: "renamer visit \<Rightarrow> header \<Rightarrow> ast \<Rightarrow> renamer \<Rightarrow> renamer res" where
  "renamer_FunctionDec visit h e s =
     (if body_get e = None then Inr s
      else default_visit visit e
             (if cur_name s e \<noteq> ''_main'' then renamer_name h (Some e) s else s))"

definition renamer_TypeDec :: "renamer visit \<Rightarrow> header \<Rightarrow> ast \<Rightarrow> renamer \<Rightarrow> renamer res" where
  "renamer_TypeDec visit h e s = default_visit visit e (renamer_name h (Some e) s)"

definition renamer_SimpleVar ::
  "ast \<Rightarrow> (addr \<rightharpoonup> addr) \<Rightarrow> renamer visit \<Rightarrow> header \<Rightarrow> ast \<Rightarrow> renamer \<Rightarrow> renamer res" where
  "renamer_SimpleVar root bnd visit h e s =
     bindE (def_get root bnd h) (\<lambda>def. default_visit visit e (renamer_name h def s))"

definition renamer_CallExp ::
  "ast \<Rightarrow> (addr \<rightharpoonup> addr) \<Rightarrow> renamer visit \<Rightarrow> header \<Rightarrow> ast \<Rightarrow> renamer \<Rightarrow> renamer res" where
  "renamer_CallExp root bnd visit h e s =
     bindE (def_get root bnd h) (\<lambda>def.
       default_visit visit e
         (case def of
            None \<Rightarrow> s
          | Some d \<Rightarrow> if body_get d \<noteq> None then renamer_name h (Some d) s else s))"

definition renamer_NameTy ::
  "ast \<Rightarrow> (addr \<rightharpoonup> addr) \<Rightarrow> renamer visit \<Rightarrow> header \<Rightarrow> ast \<Rightarrow> renamer \<Rightarrow> renamer res" where
  "renamer_NameTy root bnd visit h e s =
     bindE (def_get root bnd h) (\<lambda>def. default_visit visit e (renamer_name h def s))"

definition renamer_dispatch :: "ast \<Rightarrow> (addr \<rightharpoonup> addr) \<Rightarrow> renamer visit \<Rightarrow> renamer visit" where
  "renamer_dispatch root bnd visit e s =
     (if is_object_node e then non_object_visit e s
      else case e of
        VarDec h _ _ _ \<Rightarrow> renamer_VarDec visit h e s
      | FunctionDec h _ _ _ _ \<Rightarrow> renamer_FunctionDec visit h e s
      | TypeDec h _ _ \<Rightarrow> renamer_TypeDec visit h e s
      | SimpleVar h _ \<Rightarrow> renamer_SimpleVar root bnd visit h e s
      | CallExp h _ _ \<Rightarrow> renamer_CallExp root bnd visit h e s
      | NameTy h _ \<Rightarrow> renamer_NameTy root bnd visit h e s
      | _ \<Rightarrow> default_visit visit e s)"

lemmas renamer_method_defs =
  renamer_VarDec_def renamer_FunctionDec_def renamer_TypeDec_def renamer_SimpleVar_def
  renamer_CallExp_def renamer_NameTy_def

lemma renamer_dispatch_local:
  assumes "\<And>c s. size c < size e \<Longrightarrow> f c s = g c s"
  shows "renamer_dispatch root bnd f e s = renamer_dispatch root bnd g e s"
proof -
  have "default_visit f e = default_visit g e"
    by (rule ext) (rule default_visit_cong [OF assms])
  then show ?thesis
    by (cases e) (simp_all add: renamer_dispatch_def renamer_method_defs)
qed

lemma renamer_dispatch_cong [fundef_cong]:
  assumes "root = root'" and "bnd = bnd'" and "e = e'" and "s = s'"
    and "\<And>c s. size c < size e' \<Longrightarrow> f c s = g c s"
  shows "renamer_dispatch root bnd f e s = renamer_dispatch root' bnd' g e' s'"
  unfolding assms(1-4) by (rule renamer_dispatch_local) (rule assms(5))

function renamer_visit :: "ast \<Rightarrow> (addr \<rightharpoonup> addr) \<Rightarrow> renamer visit" where
  "renamer_visit root bnd e s = renamer_dispatch root bnd (renamer_visit root bnd) e s"
  by auto
termination by (relation "measure (\<lambda>(root, bnd, e, s). size e)") auto

declare renamer_visit.simps [simp del]

interpretation rv: traversal "renamer_visit root bnd" "renamer_dispatch root bnd" for root bnd
  by unfold_locales (rule renamer_visit.simps, rule renamer_dispatch_local)

definition launch_rename :: "ast \<Rightarrow> (addr \<rightharpoonup> addr) \<Rightarrow> u32 \<Rightarrow> renamer res" where
  "launch_rename the_program bnd c = renamer_visit the_program bnd the_program (renamer_new c)"

section \<open>What one step does\<close>

text \<open>
  The declaration a node stands for: a use is for what it is bound to, a declaration is for itself.
\<close>

definition target :: "(addr \<rightharpoonup> addr) \<Rightarrow> addr \<Rightarrow> addr" where
  "target bnd a = (case bnd a of Some d \<Rightarrow> d | None \<Rightarrow> a)"

text \<open>
  The invariant: the names of the declarations were issued at different ticks of the counter, all
  of them past, and the name of a node is the one of its declaration.  \<open>D\<close> bounds the addresses of
  the declarations, \<open>c0\<close> is the counter at the start.
\<close>

definition issued :: "u32 \<Rightarrow> addr set \<Rightarrow> (addr \<rightharpoonup> addr) \<Rightarrow> renamer \<Rightarrow> bool" where
  "issued c0 D bnd s \<longleftrightarrow>
     dom (unique_names s) \<subseteq> D \<and>
     unat (r_counter s) = unat c0 + card (dom (unique_names s)) \<and>
     (\<exists>tick. inj_on tick (dom (unique_names s)) \<and>
        (\<forall>d n. unique_names s d = Some n \<longrightarrow>
           unat (tick d) < unat (r_counter s) \<and> (\<exists>base. n = fst (fresh_name base (tick d))))) \<and>
     (\<forall>a n. node_names s a = Some n \<longrightarrow> unique_names s (target bnd a) = Some n)"

lemma issued_new: "issued c D bnd (renamer_new c)"
  by (simp add: issued_def renamer_new_def)

lemma issued_inj:
  assumes "issued c0 D bnd s" "unique_names s d = Some n" "unique_names s d' = Some n"
  shows "d = d'"
proof -
  from assms(1) obtain tick where t: "inj_on tick (dom (unique_names s))"
    "\<And>d n. unique_names s d = Some n \<Longrightarrow> \<exists>base. n = fst (fresh_name base (tick d))"
    by (auto simp: issued_def)
  from t(2) [OF assms(2)] t(2) [OF assms(3)] obtain b b'
    where "fst (fresh_name b (tick d)) = fst (fresh_name b' (tick d'))" by auto
  with sf.gen_distinct [of "tick d" "tick d'" b b'] have "tick d = tick d'"
    by (auto simp: word_unat_eq_iff)
  with t(1) assms(2,3) show ?thesis by (auto dest: inj_onD)
qed

lemma issued_names:
  assumes "issued c0 D bnd s" and "unique_names s (target bnd a) = n"
  shows "issued c0 D bnd (s\<lparr>node_names := (node_names s)(a := n)\<rparr>)"
  using assms by (auto simp: issued_def)

lemma issued_fresh:
  assumes "issued c0 D bnd s" "finite D" "unat c0 + card D < 2 ^ 32" "d \<in> D"
    and "unique_names s d = None"
  shows "issued c0 D bnd
    (s\<lparr>unique_names := (unique_names s)(d \<mapsto> fst (fresh_name base (r_counter s))),
       r_counter := snd (fresh_name base (r_counter s))\<rparr>)"
proof -
  let ?U = "dom (unique_names s)"
  from assms(1) obtain tick where t: "inj_on tick ?U"
    "\<And>d n. unique_names s d = Some n \<Longrightarrow>
       unat (tick d) < unat (r_counter s) \<and> (\<exists>base. n = fst (fresh_name base (tick d)))"
    by (auto simp: issued_def)
  from assms(1) have U: "?U \<subseteq> D" "unat (r_counter s) = unat c0 + card ?U"
    by (simp_all add: issued_def)
  have fin: "finite ?U" using U(1) assms(2) by (rule finite_subset)
  have d: "d \<notin> ?U" using assms(5) by auto
  have "card (insert d ?U) \<le> card D" using U(1) assms(2,4) by (intro card_mono) auto
  with fin d have lt: "Suc (unat (r_counter s)) < 2 ^ 32" using U(2) assms(3) by simp
  let ?tick = "tick(d := r_counter s)"
  let ?n = "fst (fresh_name base (r_counter s))" and ?c = "snd (fresh_name base (r_counter s))"
  have c: "unat ?c = Suc (unat (r_counter s))" by (rule sf.tick_gen [OF lt])
  have new: "r_counter s \<notin> tick ` ?U" using t(2) by fastforce
  have "inj_on ?tick (insert d ?U)"
  proof -
    have "?tick ` (?U - {d}) \<subseteq> tick ` ?U" by auto
    with new have "?tick d \<notin> ?tick ` (?U - {d})" by auto
    with inj_on_fun_updI [OF t(1) new, of d] show ?thesis by (simp add: inj_on_insert)
  qed
  moreover have "unat (?tick d') < unat ?c \<and> (\<exists>b. n = fst (fresh_name b (?tick d')))"
    if "((unique_names s)(d \<mapsto> ?n)) d' = Some n" for d' n
    using that t(2) [of d' n] c by (auto split: if_splits)
  moreover have "((unique_names s)(d \<mapsto> ?n)) (target bnd a) = Some n"
    if "node_names s a = Some n" for a n
    using assms(1,5) that by (auto simp: issued_def)
  ultimately show ?thesis
    unfolding issued_def using U fin d c assms(4)
    by (auto simp del: fun_upd_apply intro!: exI [of _ ?tick])
qed

lemma renamer_name_issued:
  assumes "issued c0 D bnd s" "finite D" "unat c0 + card D < 2 ^ 32"
    and "\<And>d. def = Some d \<Longrightarrow> addr_of d \<in> D \<and> target bnd (adr h) = addr_of d"
  shows "issued c0 D bnd (renamer_name h def s)"
proof (cases def)
  case None
  with assms(1) show ?thesis by (simp add: renamer_name_def)
next
  case (Some d)
  with assms(4) have d: "addr_of d \<in> D" "target bnd (adr h) = addr_of d" by simp_all
  show ?thesis
  proof (cases "unique_names s (addr_of d)")
    case None
    from issued_names [OF issued_fresh [OF assms(1-3) d(1) None], where a = "adr h"] show ?thesis
      by (simp add: renamer_name_def Some None d(2) split_beta Let_def)
  next
    case (Some n)
    from issued_names [OF assms(1), where a = "adr h" and n = "Some n"] Some show ?thesis
      by (simp add: renamer_name_def \<open>def = Some d\<close> d(2))
  qed
qed

text \<open>Names that were set stay set.\<close>

definition named_more :: "renamer \<Rightarrow> renamer \<Rightarrow> bool" where
  "named_more s t \<longleftrightarrow> unique_names s \<subseteq>\<^sub>m unique_names t \<and> dom (node_names s) \<subseteq> dom (node_names t)"

lemma named_more_refl [simp]: "named_more s s"
  by (simp add: named_more_def)

lemma named_more_trans: "named_more s t \<Longrightarrow> named_more t u \<Longrightarrow> named_more s u"
  by (auto simp: named_more_def intro: map_le_trans)

lemma renamer_name_more: "named_more s (renamer_name h def s)"
  by (auto simp: named_more_def renamer_name_def map_le_def Let_def split: option.splits prod.splits)

lemma renamer_name_sets: "def = Some d \<Longrightarrow> node_names (renamer_name h def s) (adr h) \<noteq> None"
  by (auto simp: renamer_name_def Let_def split: prod.splits)

lemma default_named_more:
  "default_visit f e s = Inr t \<Longrightarrow>
   (\<And>c s t. size c < size e \<Longrightarrow> f c s = Inr t \<Longrightarrow> named_more s t) \<Longrightarrow> named_more s t"
  unfolding default_visit_def
  by (rule foldE_relation [of f "accepts e" s t named_more])
    (assumption | simp | erule named_more_trans | blast dest: accepts_size)+

lemma renamer_visit_more: "renamer_visit root bnd e s = Inr t \<Longrightarrow> named_more s t"
proof (rule rv.keeps)
  fix e s t
  assume IH: "\<And>c s t. size c < size e \<Longrightarrow> renamer_visit root bnd c s = Inr t \<Longrightarrow> named_more s t"
    and d: "renamer_dispatch root bnd (renamer_visit root bnd) e s = Inr t"
  have dv: "named_more s t" if "default_visit (renamer_visit root bnd) e s = Inr t" for s t
    using that IH by (rule default_named_more)
  have via: "named_more s t" if "default_visit (renamer_visit root bnd) e (renamer_name h def s) = Inr t"
    for h def s t
    using renamer_name_more dv [OF that] by (rule named_more_trans)
  show "named_more s t"
    using d dv [of s t] via [of _ _ s t]
    by (cases e)
      (auto simp: renamer_dispatch_def renamer_method_defs non_object_visit_def is_object_node_def
        bindE_eq_Inr split: if_splits option.splits)
qed

section \<open>What a traversal does\<close>

text \<open>
  The program is bound: the pointers of the uses point to declarations of the program, and the
  declarations have none.
\<close>

definition bound_program :: "ast \<Rightarrow> (addr \<rightharpoonup> addr) \<Rightarrow> bool" where
  "bound_program root bnd \<longleftrightarrow>
     (\<forall>e \<in> set (nodes root). is_Dec e \<longrightarrow> bnd (addr_of e) = None)"

definition node_addrs :: "ast \<Rightarrow> addr set" where
  "node_addrs root = addr_of ` set (nodes root)"

lemma node_at_Some: "node_at root a = Some d \<Longrightarrow> d \<in> set (nodes root) \<and> addr_of d = a"
  by (auto simp: node_at_def find_Some_iff)

lemma def_get_target:
  "def_get root bnd h = Inr (Some d) \<Longrightarrow> addr_of d \<in> node_addrs root \<and> target bnd (adr h) = addr_of d"
  by (auto simp: def_get_def node_addrs_def target_def dest: node_at_Some split: option.splits)

lemma issued_foldE:
  assumes "foldE f xs s = Inr t" "issued c D bnd s"
    and "\<And>x s t. x \<in> set xs \<Longrightarrow> issued c D bnd s \<Longrightarrow> f x s = Inr t \<Longrightarrow> issued c D bnd t"
  shows "issued c D bnd t"
  by (rule foldE_invariant [where P = "issued c D bnd", OF assms(1,2)]) (rule assms(3))

lemma renamer_visit_issued:
  assumes "bound_program root bnd" "unat c0 + card (node_addrs root) < 2 ^ 32"
  shows "e \<in> set (nodes root) \<Longrightarrow> issued c0 (node_addrs root) bnd s \<Longrightarrow>
    renamer_visit root bnd e s = Inr t \<Longrightarrow> issued c0 (node_addrs root) bnd t"
proof (induction e arbitrary: s t rule: measure_induct_rule [of size])
  case (less e)
  let ?D = "node_addrs root"
  have fin: "finite ?D" by (simp add: node_addrs_def)
  have dv: "issued c0 ?D bnd t"
    if "default_visit (renamer_visit root bnd) e s = Inr t" "issued c0 ?D bnd s" for s t
    using that unfolding default_visit_def
    by (rule issued_foldE) (use less.IH accepts_size nodes_closed [OF less.prems(1)] in blast)
  have name: "issued c0 ?D bnd (renamer_name h def s)"
    if "issued c0 ?D bnd s" "\<And>d. def = Some d \<Longrightarrow> addr_of d \<in> ?D \<and> target bnd (adr h) = addr_of d"
    for h def s
    using that by (intro renamer_name_issued fin assms(2)) auto
  have self: "addr_of e \<in> ?D \<and> (is_Dec e \<longrightarrow> target bnd (addr_of e) = addr_of e)"
    using less.prems(1) assms(1) by (simp add: node_addrs_def bound_program_def target_def)
  note visit = less.prems(3) [unfolded renamer_visit.simps [of root bnd e] renamer_dispatch_def]
  show ?case
  proof (cases e)
    case (VarDec h n ty i)
    have "issued c0 ?D bnd (renamer_name h (Some e) s)"
      using self less.prems(2) by (intro name) (auto simp: VarDec is_class_defs addr_of_def)
    with visit dv show ?thesis by (simp add: VarDec renamer_VarDec_def is_object_node_def)
  next
    case (TypeDec h n ty)
    have "issued c0 ?D bnd (renamer_name h (Some e) s)"
      using self less.prems(2) by (intro name) (auto simp: TypeDec is_class_defs addr_of_def)
    with visit dv show ?thesis by (simp add: TypeDec renamer_TypeDec_def is_object_node_def)
  next
    case (FunctionDec h n f r b)
    have "issued c0 ?D bnd (renamer_name h (Some e) s)"
      using self less.prems(2) by (intro name) (auto simp: FunctionDec is_class_defs addr_of_def)
    with visit dv less.prems(2) show ?thesis
      by (auto simp: FunctionDec renamer_FunctionDec_def is_object_node_def split: if_splits)
  next
    case (SimpleVar h n)
    with visit obtain d where d: "def_get root bnd h = Inr d"
      "default_visit (renamer_visit root bnd) e (renamer_name h d s) = Inr t"
      by (auto simp: renamer_SimpleVar_def is_object_node_def bindE_eq_Inr)
    have "issued c0 ?D bnd (renamer_name h d s)"
      by (rule name [OF less.prems(2)]) (use def_get_target [of root bnd h] d(1) in blast)
    with d(2) show ?thesis by (rule dv)
  next
    case (NameTy h n)
    with visit obtain d where d: "def_get root bnd h = Inr d"
      "default_visit (renamer_visit root bnd) e (renamer_name h d s) = Inr t"
      by (auto simp: renamer_NameTy_def is_object_node_def bindE_eq_Inr)
    have "issued c0 ?D bnd (renamer_name h d s)"
      by (rule name [OF less.prems(2)]) (use def_get_target [of root bnd h] d(1) in blast)
    with d(2) show ?thesis by (rule dv)
  next
    case (CallExp h n as)
    with visit obtain d s' where d: "def_get root bnd h = Inr d"
      "default_visit (renamer_visit root bnd) e s' = Inr t" "s' = s \<or> s' = renamer_name h d s"
      by (auto simp: renamer_CallExp_def is_object_node_def bindE_eq_Inr split: option.splits if_splits)
    have "issued c0 ?D bnd (renamer_name h d s)"
      by (rule name [OF less.prems(2)]) (use def_get_target [of root bnd h] d(1) in blast)
    with d(3) less.prems(2) have "issued c0 ?D bnd s'" by blast
    with d(2) show ?thesis by (rule dv)
  qed (use visit dv less.prems(2) in \<open>simp_all add: is_object_node_def non_object_visit_def\<close>)
qed

section \<open>Every reached declaration and use is named\<close>

text \<open>The nodes the traversal reaches: it does not go into primitives.\<close>

function reached :: "ast \<Rightarrow> ast list" where
  "reached e =
     e # (if is_FunctionDec e \<and> body_get e = None then [] else concat (map reached (accepts e)))"
  by auto
termination by (relation "measure size") (auto dest: accepts_size)

declare reached.simps [simp del]

text \<open>What is renamed: the declarations but \<open>_main\<close> and the primitives, and the bound uses but those of the primitives.\<close>

definition must_name :: "ast \<Rightarrow> (addr \<rightharpoonup> addr) \<Rightarrow> ast \<Rightarrow> bool" where
  "must_name root bnd e = (case e of
     VarDec _ _ _ _ \<Rightarrow> True
   | TypeDec _ _ _ \<Rightarrow> True
   | FunctionDec _ n _ _ b \<Rightarrow> b \<noteq> None \<and> n \<noteq> ''_main''
   | SimpleVar h _ \<Rightarrow> bnd (adr h) \<noteq> None
   | NameTy h _ \<Rightarrow> bnd (adr h) \<noteq> None
   | CallExp h _ _ \<Rightarrow> (case def_get root bnd h of Inr (Some d) \<Rightarrow> body_get d \<noteq> None | _ \<Rightarrow> False)
   | _ \<Rightarrow> False)"

lemma renamer_visit_names:
  "renamer_visit root bnd e s = Inr t \<Longrightarrow> x \<in> set (reached e) \<Longrightarrow> must_name root bnd x \<Longrightarrow>
   node_names t (addr_of x) \<noteq> None"
proof (induction e arbitrary: s t rule: measure_induct_rule [of size])
  case (less e)
  note visit = less.prems(1) [unfolded renamer_visit.simps [of root bnd e] renamer_dispatch_def]
  have below: "node_names t (addr_of x) \<noteq> None"
    if d: "default_visit (renamer_visit root bnd) e s = Inr t" and x: "x \<noteq> e" for s t
  proof -
    from less.prems(2) x obtain c where c: "c \<in> set (accepts e)" "x \<in> set (reached c)"
      by (auto simp: reached.simps [of e] split: if_splits)
    have "\<exists>u v. renamer_visit root bnd c u = Inr v \<and> named_more v t"
      by (rule foldE_member [OF d [unfolded default_visit_def] c(1)])
        (rule named_more_refl, erule named_more_trans, assumption, erule renamer_visit_more)
    then obtain u v where uv: "renamer_visit root bnd c u = Inr v" "named_more v t" by blast
    from less.IH [OF accepts_size [OF c(1)] uv(1) c(2) less.prems(3)] uv(2) show ?thesis
      by (auto simp: named_more_def)
  qed
  have other: "node_names t (addr_of x) \<noteq> None"
    if "\<not> must_name root bnd e" "default_visit (renamer_visit root bnd) e s = Inr t" for s t
    using that(1) less.prems(3) by (intro below [OF that(2)]) blast
  have kept: "node_names t a \<noteq> None"
    if "default_visit (renamer_visit root bnd) e s = Inr t" "node_names s a \<noteq> None" for s t a
    using default_named_more [OF that(1)] renamer_visit_more that(2)
    by (fastforce simp: named_more_def)
  have both: "node_names t (addr_of x) \<noteq> None"
    if "default_visit (renamer_visit root bnd) e (renamer_name (hdr e) (Some d) s) = Inr t" for d s t
  proof (cases "x = e")
    case True
    with kept [OF that renamer_name_sets [OF refl]] show ?thesis by (simp add: addr_of_def)
  qed (rule below [OF that])
  show ?case
  proof (cases e)
    case (VarDec h n ty i)
    with visit both show ?thesis by (simp add: renamer_VarDec_def is_object_node_def)
  next
    case (TypeDec h n ty)
    with visit both show ?thesis by (simp add: renamer_TypeDec_def is_object_node_def)
  next
    case (FunctionDec h n f r b)
    show ?thesis
    proof (cases "b = None")
      case True
      have "reached e = [e]"
        by (subst reached.simps) (simp add: FunctionDec True is_FunctionDec_def body_get_def)
      with less.prems(2,3) True show ?thesis by (simp add: FunctionDec must_name_def)
    next
      case False
      show ?thesis
      proof (cases "cur_name s e = ''_main''")
        case True
        have d: "default_visit (renamer_visit root bnd) e s = Inr t"
          using visit False True
          by (simp add: FunctionDec renamer_FunctionDec_def body_get_def is_object_node_def)
        show ?thesis
        proof (cases "x = e")
          case x: True
          with True less.prems(3) have "node_names s (addr_of e) \<noteq> None"
            by (auto simp: FunctionDec must_name_def cur_name_def name_get_def split: option.splits)
          with kept [OF d] x show ?thesis by blast
        qed (rule below [OF d])
      next
        case nm: False
        with visit False both show ?thesis
          by (simp add: FunctionDec renamer_FunctionDec_def body_get_def is_object_node_def)
      qed
    qed
  next
    case (SimpleVar h n)
    with visit obtain d where d: "def_get root bnd h = Inr d"
      "default_visit (renamer_visit root bnd) e (renamer_name (hdr e) d s) = Inr t"
      by (auto simp: renamer_SimpleVar_def is_object_node_def bindE_eq_Inr)
    moreover have "d \<noteq> None" if "x = e"
      using d(1) less.prems(3) that
      by (cases "bnd (adr h)"; cases "node_at root (the (bnd (adr h)))")
        (simp_all add: SimpleVar must_name_def def_get_def, auto?)
    ultimately show ?thesis using both below by (cases d) blast+
  next
    case (NameTy h n)
    with visit obtain d where d: "def_get root bnd h = Inr d"
      "default_visit (renamer_visit root bnd) e (renamer_name (hdr e) d s) = Inr t"
      by (auto simp: renamer_NameTy_def is_object_node_def bindE_eq_Inr)
    moreover have "d \<noteq> None" if "x = e"
      using d(1) less.prems(3) that
      by (cases "bnd (adr h)"; cases "node_at root (the (bnd (adr h)))")
        (simp_all add: NameTy must_name_def def_get_def, auto?)
    ultimately show ?thesis using both below by (cases d) blast+
  next
    case (CallExp h n as)
    with visit obtain d where d: "def_get root bnd h = Inr d" "default_visit (renamer_visit root bnd) e
        (case d of None \<Rightarrow> s | Some d \<Rightarrow> if body_get d \<noteq> None then renamer_name h (Some d) s else s) = Inr t"
      by (auto simp: renamer_CallExp_def is_object_node_def bindE_eq_Inr)
    show ?thesis
    proof (cases "must_name root bnd e")
      case True
      with d(1) obtain d' where "d = Some d'" "body_get d' \<noteq> None"
        by (auto simp: CallExp must_name_def split: option.splits)
      with d(2) both [of d' s t] show ?thesis by (simp add: CallExp)
    qed (rule other [OF _ d(2)])
  qed (use visit other [of s t] in
      \<open>simp_all add: is_object_node_def non_object_visit_def must_name_def\<close>)
qed

text \<open>Nothing else is.\<close>

definition named_in :: "addr set \<Rightarrow> renamer \<Rightarrow> bool" where
  "named_in A s \<longleftrightarrow> dom (node_names s) \<subseteq> A"

lemma renamer_name_in: "named_in A s \<Longrightarrow> adr h \<in> A \<Longrightarrow> named_in A (renamer_name h d s)"
  by (auto simp: named_in_def renamer_name_def Let_def split: option.splits prod.splits if_splits)

lemma renamer_visit_only:
  assumes "A = addr_of ` {x \<in> set (nodes root). must_name root bnd x}"
  shows "e \<in> set (nodes root) \<Longrightarrow> named_in A s \<Longrightarrow> renamer_visit root bnd e s = Inr t \<Longrightarrow> named_in A t"
proof (induction e arbitrary: s t rule: measure_induct_rule [of size])
  case (less e)
  have dv: "named_in A t" if "default_visit (renamer_visit root bnd) e s = Inr t" "named_in A s" for s t
    using that unfolding default_visit_def
    by (rule foldE_invariant [where P = "named_in A"])
      (use less.IH accepts_size nodes_closed [OF less.prems(1)] in blast)
  have e: "must_name root bnd e \<Longrightarrow> adr (hdr e) \<in> A" using assms less.prems(1) by (auto simp: addr_of_def)
  have name: "named_in A (renamer_name (hdr e) d s)"
    if "named_in A s" "d \<noteq> None \<Longrightarrow> must_name root bnd e" for d s
    using that e by (cases d) (auto simp: renamer_name_def [of _ None] intro: renamer_name_in)
  note visit = less.prems(3) [unfolded renamer_visit.simps [of root bnd e] renamer_dispatch_def]
  show ?case
  proof (cases e)
    case (VarDec h n ty i)
    with visit have "default_visit (renamer_visit root bnd) e (renamer_name (hdr e) (Some e) s) = Inr t"
      by (simp add: renamer_VarDec_def is_object_node_def)
    then show ?thesis by (rule dv) (rule name [OF less.prems(2)], simp add: VarDec must_name_def)
  next
    case (TypeDec h n ty)
    with visit have "default_visit (renamer_visit root bnd) e (renamer_name (hdr e) (Some e) s) = Inr t"
      by (simp add: renamer_TypeDec_def is_object_node_def)
    then show ?thesis by (rule dv) (rule name [OF less.prems(2)], simp add: TypeDec must_name_def)
  next
    case (FunctionDec h n f r b)
    show ?thesis
    proof (cases b)
      case None
      with FunctionDec visit less.prems(2) show ?thesis
        by (simp add: renamer_FunctionDec_def body_get_def is_object_node_def)
    next
      case (Some body)
      with FunctionDec visit have d: "default_visit (renamer_visit root bnd) e
          (if cur_name s e \<noteq> ''_main'' then renamer_name h (Some e) s else s) = Inr t"
        by (simp add: renamer_FunctionDec_def body_get_def is_object_node_def split: if_splits)
      have "adr h \<in> A" if "cur_name s e \<noteq> ''_main''"
      proof (cases "n = ''_main''")
        case True
        with that FunctionDec have "node_names s (addr_of e) \<noteq> None"
          by (auto simp: cur_name_def name_get_def split: option.splits)
        with less.prems(2) FunctionDec show ?thesis by (auto simp: named_in_def addr_of_def)
      next
        case False
        with e Some FunctionDec show ?thesis by (simp add: must_name_def)
      qed
      with less.prems(2) FunctionDec
      have "named_in A (if cur_name s e \<noteq> ''_main'' then renamer_name h (Some e) s else s)"
        by (simp add: renamer_name_in)
      with d show ?thesis by (rule dv)
    qed
  next
    case (SimpleVar h n)
    with visit obtain d where d: "def_get root bnd h = Inr d"
      "default_visit (renamer_visit root bnd) e (renamer_name (hdr e) d s) = Inr t"
      by (auto simp: renamer_SimpleVar_def is_object_node_def bindE_eq_Inr)
    have "d \<noteq> None \<Longrightarrow> must_name root bnd e"
      using d(1) by (auto simp: SimpleVar must_name_def def_get_def split: option.splits)
    with d(2) show ?thesis by (blast intro: dv name [OF less.prems(2)])
  next
    case (NameTy h n)
    with visit obtain d where d: "def_get root bnd h = Inr d"
      "default_visit (renamer_visit root bnd) e (renamer_name (hdr e) d s) = Inr t"
      by (auto simp: renamer_NameTy_def is_object_node_def bindE_eq_Inr)
    have "d \<noteq> None \<Longrightarrow> must_name root bnd e"
      using d(1) by (auto simp: NameTy must_name_def def_get_def split: option.splits)
    with d(2) show ?thesis by (blast intro: dv name [OF less.prems(2)])
  next
    case (CallExp h n as)
    with visit obtain d where d: "def_get root bnd h = Inr d" "default_visit (renamer_visit root bnd) e
        (case d of None \<Rightarrow> s | Some d \<Rightarrow> if body_get d \<noteq> None then renamer_name h (Some d) s else s) = Inr t"
      by (auto simp: renamer_CallExp_def is_object_node_def bindE_eq_Inr)
    from d(1) have "must_name root bnd e" if "d = Some d'" "body_get d' \<noteq> None" for d'
      using that by (simp add: CallExp must_name_def)
    with less.prems(2) have "named_in A
        (case d of None \<Rightarrow> s | Some d \<Rightarrow> if body_get d \<noteq> None then renamer_name h (Some d) s else s)"
      using name [of s d] CallExp by (auto split: option.splits)
    with d(2) show ?thesis by (rule dv)
  qed (use visit dv less.prems(2) in \<open>simp_all add: is_object_node_def non_object_visit_def\<close>)
qed

section \<open>Properties\<close>

text \<open>C14: Renaming is free of capture and of confusion: two nodes that were given a name have the
  same new name exactly when they stand for the same declaration; every variable and type declaration, every
  function declaration with a body but \<open>_main\<close>, every bound use of a variable or of a type and every call of a
  function with a body that the traversal reaches was given one; and no other node was: the primitives, their
  calls and \<open>_main\<close> keep their names.\<close>

theorem rename_correct:
  assumes "bound_program p bnd" and "unat c + card (node_addrs p) < 2 ^ 32"
    and "launch_rename p bnd c = Inr t"
  shows "(\<forall>a b n m. node_names t a = Some n \<longrightarrow> node_names t b = Some m \<longrightarrow>
            (n = m \<longleftrightarrow> target bnd a = target bnd b)) \<and>
         (\<forall>x \<in> set (reached p). must_name p bnd x \<longrightarrow> node_names t (addr_of x) \<noteq> None) \<and>
         (\<forall>a. node_names t a \<noteq> None \<longrightarrow> (\<exists>x \<in> set (nodes p). addr_of x = a \<and> must_name p bnd x))"
proof -
  have i: "issued c (node_addrs p) bnd t"
    using renamer_visit_issued [OF assms(1,2) nodes_self issued_new assms(3) [unfolded launch_rename_def]] .
  then have n: "\<And>a n. node_names t a = Some n \<Longrightarrow> unique_names t (target bnd a) = Some n"
    by (simp add: issued_def)
  have "named_in (addr_of ` {x \<in> set (nodes p). must_name p bnd x}) t"
    by (rule renamer_visit_only [OF refl nodes_self _ assms(3) [unfolded launch_rename_def]])
      (simp add: named_in_def renamer_new_def)
  then have "\<forall>a. node_names t a \<noteq> None \<longrightarrow> (\<exists>x \<in> set (nodes p). addr_of x = a \<and> must_name p bnd x)"
    unfolding named_in_def by blast
  moreover have "\<forall>a b n m. node_names t a = Some n \<longrightarrow> node_names t b = Some m \<longrightarrow> (n = m \<longleftrightarrow> target bnd a = target bnd b)"
    using issued_inj [OF i] n by (metis option.inject)
  moreover have "\<forall>x \<in> set (reached p). must_name p bnd x \<longrightarrow> node_names t (addr_of x) \<noteq> None"
    using renamer_visit_names [OF assms(3) [unfolded launch_rename_def]] by blast
  ultimately show ?thesis by blast
qed

definition rename_example :: ast where
  "rename_example =
     LetExp (header_at 0)
       (ChunkList (header_at 1) [VarChunk (header_at 2)
          [VarDec (header_at 3) ''x'' None (Some (IntExp (header_at 4) 1))]])
       (SimpleVar (header_at 5) ''x'')"

theorem rename_correct_witness:
  "\<exists>t. launch_rename rename_example [5 \<mapsto> 3] 0 = Inr t \<and> node_names t 3 = Some ''x_0'' \<and>
     node_names t 5 = Some ''x_0'' \<and> target [5 \<mapsto> 3] 3 = target [5 \<mapsto> 3] 5"
proof -
  have nodes: "nodes rename_example =
    [rename_example, ChunkList (header_at 1) [VarChunk (header_at 2)
          [VarDec (header_at 3) ''x'' None (Some (IntExp (header_at 4) 1))]],
     VarChunk (header_at 2) [VarDec (header_at 3) ''x'' None (Some (IntExp (header_at 4) 1))],
     VarDec (header_at 3) ''x'' None (Some (IntExp (header_at 4) 1)), IntExp (header_at 4) 1,
     SimpleVar (header_at 5) ''x'']"
    by (simp add: rename_example_def nodes.simps)
  have "card (node_addrs rename_example) \<le> 6"
    using card_length [of "map addr_of (nodes rename_example)"] by (simp add: node_addrs_def nodes)
  moreover have "bound_program rename_example [5 \<mapsto> 3]"
    unfolding bound_program_def nodes
    by (simp add: is_class_defs rename_example_def addr_of_def header_at_def)
  moreover have "node_at rename_example 3 = Some (VarDec (header_at 3) ''x'' None (Some (IntExp (header_at 4) 1)))"
    unfolding node_at_def nodes by (simp add: rename_example_def addr_of_def header_at_def)
  then have "def_get rename_example [5 \<mapsto> 3] (header_at 5) =
      Inr (Some (VarDec (header_at 3) ''x'' None (Some (IntExp (header_at 4) 1))))"
    by (simp add: def_get_def header_at_def)
  then have "renamer_visit rename_example [5 \<mapsto> 3] rename_example (renamer_new 0) =
    Inr \<lparr>unique_names = [3 \<mapsto> ''x_0''], r_counter = 1, node_names = [3 \<mapsto> ''x_0'', 5 \<mapsto> ''x_0'']\<rparr>"
    by (subst (2) rename_example_def)
      (simp add: renamer_visit.simps renamer_dispatch_def renamer_method_defs
        default_visit_def accepts_defs is_object_node_def renamer_new_def renamer_name_def
        cur_name_def name_get_def addr_of_def fresh_name_def dec_nat.simps,
       simp add: header_at_def)
  then have r: "launch_rename rename_example [5 \<mapsto> 3] 0 =
    Inr \<lparr>unique_names = [3 \<mapsto> ''x_0''], r_counter = 1, node_names = [3 \<mapsto> ''x_0'', 5 \<mapsto> ''x_0'']\<rparr>"
    by (simp add: launch_rename_def)
  moreover note r
  ultimately have "node_names t a = Some n \<longrightarrow> node_names t b = Some m \<longrightarrow>
      (n = m \<longleftrightarrow> target [5 \<mapsto> 3] a = target [5 \<mapsto> 3] b)"
    if "t = \<lparr>unique_names = [3 \<mapsto> ''x_0''], r_counter = 1, node_names = [3 \<mapsto> ''x_0'', 5 \<mapsto> ''x_0'']\<rparr>"
    for t a b n m using rename_correct [of rename_example "[5 \<mapsto> 3]" 0 t] that by simp
  from this [OF refl, of 3 _ 5] show ?thesis using r by simp
qed

text \<open>A call of \<open>_main\<close> is renamed although its declaration never is: the declaration keeps the name
  \<open>_main\<close> and the call gets a fresh one.\<close>

theorem rename_main_call:
  assumes "def_get root bnd h = Inr (Some d)" and "body_get d \<noteq> None" and "name_get d = ''_main''"
    and "unique_names s (addr_of d) = None" and "node_names s (addr_of d) = None"
    and "renamer_visit root bnd (CallExp h ''_main'' []) s = Inr t"
  shows "node_names t (adr h) = Some (''_main_'' @ dec_nat (unat (r_counter s)))"
  using assms(6)
  by (auto simp: renamer_visit.simps renamer_dispatch_def renamer_CallExp_def is_object_node_def
      assms(1-5) default_visit_def accepts_defs renamer_name_def fresh_name_def cur_name_def)

theorem rename_main_call_witness:
  "node_names (renamer_name (header_at 3) (Some (FunctionDec (header_at 0) ''_main''
      (VarChunk (header_at 2) []) None (Some (CallExp (header_at 3) ''_main'' [])))) (renamer_new 0)) 3
   = Some ''_main_0''"
proof -
  let ?d = "FunctionDec (header_at 0) ''_main'' (VarChunk (header_at 2) []) None
      (Some (CallExp (header_at 3) ''_main'' []))"
  have d: "def_get ?d [3 \<mapsto> 0] (header_at 3) = Inr (Some ?d)"
    by (simp add: def_get_def node_at_def nodes.simps addr_of_def header_at_def)
  have "renamer_visit ?d [3 \<mapsto> 0] (CallExp (header_at 3) ''_main'' []) (renamer_new 0) =
      Inr (renamer_name (header_at 3) (Some ?d) (renamer_new 0))"
    by (simp add: renamer_visit.simps renamer_dispatch_def renamer_CallExp_def is_object_node_def d
        body_get_def default_visit_def accepts_defs)
  from rename_main_call [OF d _ _ _ _ this] show ?thesis
    by (simp add: body_get_def name_get_def renamer_new_def header_at_def dec_nat.simps)
qed

end
