(* ===== verification/Escapes.thy ===== *)
theory Escapes
  imports Renamer
begin

text \<open>
  \<^verbatim>\<open>src/escapes/escapes-visitor.cc\<close>: the flag of the variables that escape.  The flags are the map
  \<open>escape_flags\<close>, the global variable \<open>escapes::escaped\<close> is the field \<open>escaped\<close> (a \<open>VarDec\<close> that is not in it has the flag of its construction, true).

  The specification is the list of the declarations and uses in the order of the traversal, with
  their depths: the visitor is shown to be one fold over it.
\<close>

section \<open>The model of the code\<close>

record escapes_state =
  escape_flags :: "addr \<rightharpoonup> bool"
  scope_depth :: int
  vars_scope :: "addr \<rightharpoonup> int"
  escaped :: bool

definition escape_set :: "addr \<Rightarrow> bool \<Rightarrow> escapes_state \<Rightarrow> escapes_state" where
  "escape_set a b s = s\<lparr>escape_flags := (escape_flags s)(a \<mapsto> b)\<rparr>"

definition escape_get :: "addr \<Rightarrow> escapes_state \<Rightarrow> bool" where
  "escape_get a s = (case escape_flags s a of None \<Rightarrow> True | Some b \<Rightarrow> b)"

definition escapes_new :: escapes_state where
  "escapes_new = \<lparr>escape_flags = Map.empty, scope_depth = 0, vars_scope = Map.empty, escaped = False\<rparr>"

definition escapes_VarDec :: "escapes_state visit \<Rightarrow> header \<Rightarrow> escapes_state visit" where
  "escapes_VarDec visit h e s =
     (let s1 = escape_set (adr h) False s;
          s2 = s1\<lparr>vars_scope := (vars_scope s1)(adr h \<mapsto> scope_depth s1)\<rparr>
      in default_visit visit e s2)"

definition escapes_SimpleVar ::
  "(addr \<rightharpoonup> addr) \<Rightarrow> escapes_state visit \<Rightarrow> header \<Rightarrow> escapes_state visit" where
  "escapes_SimpleVar bnd visit h e s =
     default_visit visit e
       (case bnd (adr h) of
          None \<Rightarrow> s
        | Some d \<Rightarrow>
            (case vars_scope s d of
               None \<Rightarrow> s
             | Some k \<Rightarrow> if k < scope_depth s then escape_set d True s else s))"

definition escapes_FunctionDec :: "escapes_state visit \<Rightarrow> escapes_state visit" where
  "escapes_FunctionDec visit e s =
     bindE (default_visit visit e (s\<lparr>scope_depth := scope_depth s + 1\<rparr>))
       (\<lambda>t. Inr (t\<lparr>scope_depth := scope_depth t - 1\<rparr>))"

definition escapes_ForExp :: "escapes_state visit \<Rightarrow> escapes_state visit" where
  "escapes_ForExp visit e s =
     bindE (default_visit visit e (s\<lparr>scope_depth := scope_depth s + 1\<rparr>))
       (\<lambda>t. Inr (t\<lparr>scope_depth := scope_depth t - 1\<rparr>))"

definition escapes_SeqExp :: "escapes_state visit \<Rightarrow> escapes_state visit" where
  "escapes_SeqExp visit e s = default_visit visit e s"

definition escapes_LetExp :: "escapes_state visit \<Rightarrow> escapes_state visit" where
  "escapes_LetExp visit e s =
     bindE (default_visit visit e (s\<lparr>scope_depth := scope_depth s + 1\<rparr>))
       (\<lambda>t. Inr (t\<lparr>scope_depth := scope_depth t - 1\<rparr>))"

definition escapes_dispatch :: "(addr \<rightharpoonup> addr) \<Rightarrow> escapes_state visit \<Rightarrow> escapes_state visit" where
  "escapes_dispatch bnd visit e s =
     (if is_object_node e then non_object_visit e s
      else case e of
        VarDec h _ _ _ \<Rightarrow> escapes_VarDec visit h e s
      | SimpleVar h _ \<Rightarrow> escapes_SimpleVar bnd visit h e s
      | FunctionDec _ _ _ _ _ \<Rightarrow> escapes_FunctionDec visit e s
      | ForExp _ _ _ _ \<Rightarrow> escapes_ForExp visit e s
      | SeqExp _ _ \<Rightarrow> escapes_SeqExp visit e s
      | LetExp _ _ _ \<Rightarrow> escapes_LetExp visit e s
      | _ \<Rightarrow> default_visit visit e s)"

lemmas escapes_method_defs =
  escapes_VarDec_def escapes_SimpleVar_def escapes_FunctionDec_def escapes_ForExp_def
  escapes_SeqExp_def escapes_LetExp_def

lemma escapes_dispatch_local:
  assumes "\<And>c s. size c < size e \<Longrightarrow> f c s = g c s"
  shows "escapes_dispatch bnd f e s = escapes_dispatch bnd g e s"
proof -
  have "default_visit f e = default_visit g e"
    by (rule ext) (rule default_visit_cong [OF assms])
  then show ?thesis by (cases e) (simp_all add: escapes_dispatch_def escapes_method_defs)
qed

lemma escapes_dispatch_cong [fundef_cong]:
  assumes "bnd = bnd'" and "e = e'" and "s = s'" and "\<And>c s. size c < size e' \<Longrightarrow> f c s = g c s"
  shows "escapes_dispatch bnd f e s = escapes_dispatch bnd' g e' s'"
  unfolding assms(1-3) by (rule escapes_dispatch_local) (rule assms(4))

function escapes_visit :: "(addr \<rightharpoonup> addr) \<Rightarrow> escapes_state visit" where
  "escapes_visit bnd e s = escapes_dispatch bnd (escapes_visit bnd) e s"
  by auto
termination by (relation "measure (\<lambda>(bnd, e, s). size e)") auto

declare escapes_visit.simps [simp del]

interpretation ev: traversal "escapes_visit bnd" "escapes_dispatch bnd" for bnd
  by unfold_locales (rule escapes_visit.simps, rule escapes_dispatch_local)

definition escapes_compute :: "(addr \<rightharpoonup> addr) \<Rightarrow> ast \<Rightarrow> escapes_state res" where
  "escapes_compute bnd tree = escapes_visit bnd tree (escapes_new\<lparr>escaped := True\<rparr>)"

section \<open>Declarations and uses in order\<close>

datatype event = Declare addr int | Use addr int

definition deepens :: "ast \<Rightarrow> bool" where
  "deepens e = (case e of
     FunctionDec _ _ _ _ _ \<Rightarrow> True | ForExp _ _ _ _ \<Rightarrow> True | LetExp _ _ _ \<Rightarrow> True | _ \<Rightarrow> False)"

definition own_events :: "(addr \<rightharpoonup> addr) \<Rightarrow> int \<Rightarrow> ast \<Rightarrow> event list" where
  "own_events bnd k e = (case e of
     VarDec h _ _ _ \<Rightarrow> [Declare (adr h) k]
   | SimpleVar h _ \<Rightarrow> (case bnd (adr h) of None \<Rightarrow> [] | Some d \<Rightarrow> [Use d k])
   | _ \<Rightarrow> [])"

function events :: "(addr \<rightharpoonup> addr) \<Rightarrow> int \<Rightarrow> ast \<Rightarrow> event list" where
  "events bnd k e =
     own_events bnd k e @
     concat (map (events bnd (if deepens e then k + 1 else k)) (accepts e))"
  by auto
termination by (relation "measure (\<lambda>(bnd, k, e). size e)") (auto dest: accepts_size)

declare events.simps [simp del]

lemma events_plain:
  "own_events bnd k e = [] \<Longrightarrow> \<not> deepens e \<Longrightarrow>
    events bnd k e = concat (map (events bnd k) (accepts e))"
  by (subst events.simps) simp

fun escape_step :: "event \<Rightarrow> escapes_state \<Rightarrow> escapes_state" where
  "escape_step (Declare a k) s =
     s\<lparr>escape_flags := (escape_flags s)(a \<mapsto> False), vars_scope := (vars_scope s)(a \<mapsto> k)\<rparr>"
| "escape_step (Use d k) s =
     (case vars_scope s d of
        None \<Rightarrow> s
      | Some j \<Rightarrow> if j < k then s\<lparr>escape_flags := (escape_flags s)(d \<mapsto> True)\<rparr> else s)"

lemma escape_step_depth [simp]: "scope_depth (escape_step v s) = scope_depth s"
  by (cases v) (auto split: option.splits)

lemma fold_escape_depth [simp]: "scope_depth (fold escape_step vs s) = scope_depth s"
  by (induction vs arbitrary: s) simp_all

lemma escape_step_escaped [simp]: "escaped (escape_step v s) = escaped s"
  by (cases v) (auto split: option.splits)

lemma fold_escape_escaped [simp]: "escaped (fold escape_step vs s) = escaped s"
  by (induction vs arbitrary: s) simp_all

lemma escape_step_at_depth:
  "escape_step v (s\<lparr>scope_depth := k\<rparr>) = (escape_step v s)\<lparr>scope_depth := k\<rparr>"
  by (cases v) (auto split: option.splits)

lemma fold_escape_at_depth:
  "fold escape_step vs (s\<lparr>scope_depth := k\<rparr>) = (fold escape_step vs s)\<lparr>scope_depth := k\<rparr>"
  by (induction vs arbitrary: s) (simp_all add: escape_step_at_depth)

text \<open>The visitor is a fold of the events.\<close>

lemma foldE_events:
  assumes "foldE f xs s = Inr t" and "scope_depth s = k"
    and "\<And>x s t. x \<in> set xs \<Longrightarrow> f x s = Inr t \<Longrightarrow> t = fold escape_step (g (scope_depth s) x) s"
  shows "t = fold escape_step (concat (map (g k) xs)) s"
  using assms
proof (induction xs arbitrary: s)
  case (Cons x xs)
  then obtain u where u: "f x s = Inr u" "foldE f xs u = Inr t" by (auto simp: bindE_eq_Inr)
  have "u = fold escape_step (g (scope_depth s) x) s" by (rule Cons.prems(3)) (simp_all add: u)
  then have *: "u = fold escape_step (g k x) s" using Cons.prems(2) by simp
  have "t = fold escape_step (concat (map (g k) xs)) u"
    by (rule Cons.IH [OF u(2)]) (use * Cons.prems in auto)
  with * show ?case by simp
qed simp

lemma escapes_visit_events:
  "escapes_visit bnd e s = Inr t \<Longrightarrow> t = fold escape_step (events bnd (scope_depth s) e) s"
proof (induction e arbitrary: s t rule: measure_induct_rule [of size])
  case (less e)
  note visit = less.prems [unfolded escapes_visit.simps [of bnd e] escapes_dispatch_def]
  have dv: "t = fold escape_step (concat (map (events bnd (scope_depth s)) (accepts e))) s"
    if "default_visit (escapes_visit bnd) e s = Inr t" for s t
    using that unfolding default_visit_def
    by (rule foldE_events [OF _ refl]) (use less.IH accepts_size in blast)
  have deep: "t\<lparr>scope_depth := scope_depth t - 1\<rparr> =
      fold escape_step (concat (map (events bnd (scope_depth s + 1)) (accepts e))) s"
    if "default_visit (escapes_visit bnd) e (s\<lparr>scope_depth := scope_depth s + 1\<rparr>) = Inr t" for t
    using dv [OF that] by (auto simp: fold_escape_at_depth intro: escapes_state.equality)
  show ?case
  proof (cases e)
    case (VarDec h n ty i)
    let ?s = "escape_step (Declare (adr h) (scope_depth s)) s"
    have "default_visit (escapes_visit bnd) e ?s = Inr t"
      using visit VarDec by (simp add: escapes_VarDec_def is_object_node_def escape_set_def Let_def)
    from dv [OF this] show ?thesis
      by (subst events.simps) (simp add: own_events_def deepens_def VarDec)
  next
    case (SimpleVar h n)
    with visit show ?thesis
      by (subst events.simps) (auto simp: own_events_def deepens_def escapes_SimpleVar_def
          is_object_node_def default_visit_def accepts_defs escape_set_def split: option.splits
          if_splits)
  next
    case (FunctionDec h n f r b)
    with visit obtain u where "default_visit (escapes_visit bnd) e (s\<lparr>scope_depth := scope_depth s + 1\<rparr>) = Inr u"
      "t = u\<lparr>scope_depth := scope_depth u - 1\<rparr>"
      by (auto simp: escapes_FunctionDec_def is_object_node_def bindE_eq_Inr)
    with deep show ?thesis
      by (subst events.simps) (simp add: own_events_def deepens_def FunctionDec)
  next
    case (ForExp h v hi b)
    with visit obtain u where "default_visit (escapes_visit bnd) e (s\<lparr>scope_depth := scope_depth s + 1\<rparr>) = Inr u"
      "t = u\<lparr>scope_depth := scope_depth u - 1\<rparr>"
      by (auto simp: escapes_ForExp_def is_object_node_def bindE_eq_Inr)
    with deep show ?thesis
      by (subst events.simps) (simp add: own_events_def deepens_def ForExp)
  next
    case (LetExp h cs b)
    with visit obtain u where "default_visit (escapes_visit bnd) e (s\<lparr>scope_depth := scope_depth s + 1\<rparr>) = Inr u"
      "t = u\<lparr>scope_depth := scope_depth u - 1\<rparr>"
      by (auto simp: escapes_LetExp_def is_object_node_def bindE_eq_Inr)
    with deep show ?thesis
      by (subst events.simps) (simp add: own_events_def deepens_def LetExp)
  qed (use visit dv [of s t] in
      \<open>simp_all add: is_object_node_def non_object_visit_def escapes_SeqExp_def own_events_def
        events_plain deepens_def\<close>)
qed

text \<open>The visitor fails on object constructs only.\<close>

lemma escapes_visit_total:
  "list_all (\<lambda>x. \<not> is_object_node x) (nodes e) \<Longrightarrow> \<exists>t. escapes_visit bnd e s = Inr t"
proof (induction e arbitrary: s rule: measure_induct_rule [of size])
  case (less e)
  have o: "\<not> is_object_node e" using less.prems by (subst (asm) nodes.simps) simp
  have "\<exists>t. escapes_visit bnd c s = Inr t" if "c \<in> set (accepts e)" for c s
  proof (rule less.IH)
    show "size c < size e" using that by (rule accepts_size)
    show "list_all (\<lambda>x. \<not> is_object_node x) (nodes c)"
      using nodes_trans [of c e] that less.prems accepts_subs [OF o] by (auto simp: list_all_iff)
  qed
  then have d: "\<exists>t. default_visit (escapes_visit bnd) e s = Inr t" for s
    unfolding default_visit_def by (rule foldE_total)
  have "\<exists>t. bindE (default_visit (escapes_visit bnd) e s) (\<lambda>t. Inr (f t)) = Inr t"
    for s and f :: "escapes_state \<Rightarrow> escapes_state"
    using d [of s] by (auto simp: bindE_eq_Inr)
  with d o show ?case
    by (subst escapes_visit.simps)
      (cases e; simp add: escapes_dispatch_def escapes_method_defs Let_def)
qed

section \<open>The flags\<close>

text \<open>Each variable is declared once, before its uses: what the name binding ensures.\<close>

fun declared_before :: "addr set \<Rightarrow> event list \<Rightarrow> bool" where
  "declared_before A [] = True"
| "declared_before A (Declare a k # vs) = (a \<notin> A \<and> declared_before (insert a A) vs)"
| "declared_before A (Use d k # vs) = (d \<in> A \<and> declared_before A vs)"

lemma fold_escape_declared:
  assumes "declared_before A vs" and "A = dom (vars_scope s)" and "vars_scope s d = Some k"
  shows "escape_get d (fold escape_step vs s) \<longleftrightarrow>
    escape_get d s \<or> (\<exists>j. Use d j \<in> set vs \<and> k < j)"
  using assms
proof (induction vs arbitrary: A s)
  case Nil
  then show ?case by simp
next
  case (Cons v vs)
  show ?case
  proof (cases v)
    case (Declare a j)
    with Cons.prems have "a \<noteq> d" by auto
    let ?s = "escape_step v s"
    have "escape_get d (fold escape_step vs ?s) \<longleftrightarrow>
        escape_get d ?s \<or> (\<exists>j. Use d j \<in> set vs \<and> k < j)"
      by (rule Cons.IH [of "insert a A"]) (use Cons.prems Declare \<open>a \<noteq> d\<close> in auto)
    with \<open>a \<noteq> d\<close> Declare show ?thesis by (simp add: escape_get_def)
  next
    case (Use a j)
    let ?s = "escape_step v s"
    have "escape_get d (fold escape_step vs ?s) \<longleftrightarrow>
        escape_get d ?s \<or> (\<exists>j. Use d j \<in> set vs \<and> k < j)"
      by (rule Cons.IH [of A]) (use Cons.prems Use in \<open>auto split: option.splits\<close>)
    moreover have "escape_get d ?s \<longleftrightarrow> escape_get d s \<or> (a = d \<and> k < j)"
      using Cons.prems Use by (auto simp: escape_get_def split: option.splits)
    ultimately show ?thesis using Use by auto
  qed
qed

lemma fold_escape_flag:
  assumes "declared_before A vs" and "A = dom (vars_scope s)" and "Declare d k \<in> set vs"
  shows "escape_get d (fold escape_step vs s) \<longleftrightarrow> (\<exists>j. Use d j \<in> set vs \<and> k < j)"
  using assms
proof (induction vs arbitrary: A s)
  case (Cons v vs)
  show ?case
  proof (cases "v = Declare d k")
    case True
    let ?s = "escape_step v s"
    have "escape_get d (fold escape_step vs ?s) \<longleftrightarrow>
        escape_get d ?s \<or> (\<exists>j. Use d j \<in> set vs \<and> k < j)"
      by (rule fold_escape_declared [of "insert d A"]) (use Cons.prems True in auto)
    with True show ?thesis by (simp add: escape_get_def)
  next
    case False
    with Cons.prems(3) have d: "Declare d k \<in> set vs" by simp
    have fresh: "d \<notin> B" if "declared_before B vs" for B
      using that d
    proof (induction vs arbitrary: B)
      case (Cons w ws)
      then show ?case by (cases w) auto
    qed simp
    show ?thesis
    proof (cases v)
      case (Declare a j)
      then have "insert a A = dom (vars_scope (escape_step v s))" using Cons.prems(2) by auto
      from Cons.IH [OF _ this d] Cons.prems(1) Declare show ?thesis by auto
    next
      case (Use a j)
      with Cons.prems fresh have "a \<noteq> d" by auto
      have "A = dom (vars_scope (escape_step v s))"
        using Cons.prems(2) Use by (auto split: option.splits)
      from Cons.IH [OF _ this d] Cons.prems(1) Use \<open>a \<noteq> d\<close> show ?thesis by auto
    qed
  qed
qed simp

section \<open>Properties\<close>

text \<open>C15: On a program without objects the pass ends; if every variable is declared once and before its
  uses, a declared variable is marked as escaping exactly when it is used at a greater depth than the
  one of its declaration, a depth being the number of functions, loops \<open>for\<close> and \<open>let\<close> around.\<close>

theorem escapes_correct:
  assumes "list_all (\<lambda>x. \<not> is_object_node x) (nodes p)" and "declared_before {} (events bnd 0 p)"
  shows "\<exists>t. escapes_compute bnd p = Inr t \<and> escaped t \<and>
    (\<forall>d k. Declare d k \<in> set (events bnd 0 p) \<longrightarrow>
      (escape_get d t \<longleftrightarrow> (\<exists>j. Use d j \<in> set (events bnd 0 p) \<and> k < j)))"
proof -
  let ?s = "escapes_new\<lparr>escaped := True\<rparr>"
  from escapes_visit_total [OF assms(1)] obtain t where t: "escapes_visit bnd p ?s = Inr t"
    by blast
  note e = escapes_visit_events [OF t]
  then have g: "escaped t" by simp
  from e fold_escape_flag [OF assms(2), of ?s]
  have "\<forall>d k. Declare d k \<in> set (events bnd 0 p) \<longrightarrow>
      (escape_get d t \<longleftrightarrow> (\<exists>j. Use d j \<in> set (events bnd 0 p) \<and> k < j))"
    by (simp add: escapes_new_def)
  with t g show ?thesis by (auto simp: escapes_compute_def)
qed

definition nested_let :: ast where
  "nested_let =
     LetExp (header_at 0)
       (ChunkList (header_at 1) [VarChunk (header_at 2)
          [VarDec (header_at 3) ''x'' None (Some (IntExp (header_at 4) 1))]])
       (LetExp (header_at 5) (ChunkList (header_at 6) []) (SimpleVar (header_at 7) ''x''))"

lemma nested_let_events: "events [7 \<mapsto> 3] 0 nested_let = [Declare 3 1, Use 3 2]"
  by (simp add: nested_let_def events.simps own_events_def deepens_def accepts_defs header_at_def)

lemma nested_let_plain: "list_all (\<lambda>x. \<not> is_object_node x) (nodes nested_let)"
  by (simp add: nested_let_def nodes.simps is_object_node_def)

lemma nested_let_compute: "\<exists>t. escapes_compute [7 \<mapsto> 3] nested_let = Inr t"
  by (simp add: escapes_compute_def nested_let_def escapes_visit.simps escapes_dispatch_def
      escapes_method_defs default_visit_def accepts_defs is_object_node_def escape_set_def
      escapes_new_def header_at_def)

theorem escapes_correct_witness:
  "\<exists>t. escapes_compute [7 \<mapsto> 3] nested_let = Inr t \<and> escape_get 3 t"
  using escapes_correct [OF nested_let_plain, of "[7 \<mapsto> 3]"] by (auto simp: nested_let_events)

text \<open>A variable used in a \<open>let\<close> nested in the \<open>let\<close> of its declaration is marked as escaping
  although the program has no function at all.\<close>

theorem nested_let_escapes:
  "(\<exists>t. escapes_compute [7 \<mapsto> 3] nested_let = Inr t \<and> escape_flags t 3 = Some True) \<and>
   \<not> list_ex is_FunctionDec (nodes nested_let)"
proof -
  from nested_let_compute obtain t where t: "escapes_compute [7 \<mapsto> 3] nested_let = Inr t" by blast
  from escapes_visit_events [OF t [unfolded escapes_compute_def]]
  have "escape_flags t 3 = Some True"
    by (simp add: escapes_new_def nested_let_events)
  with t show ?thesis
    by (auto simp: nested_let_def nodes.simps is_FunctionDec_def)
qed

end
