(* ===== verification/Types.thy ===== *)
theory Types
  imports Misc_Error
begin

text \<open>
  \<^verbatim>\<open>src/type\<close>: the types of the checker.  Types are compared by identity, so that they live in a
  store: a pointer to a type is an index of the list of the objects, the four built-in types being
  the singletons at the first four indices.  A \<open>Named\<close> type points to the type that it names once
  its declaration has been processed, and may then be on a cycle: \<open>actual\<close> may not return.
\<close>

section \<open>The model of the code\<close>

datatype ty_obj =
    Int_ty
  | Nil_ty
  | String_ty
  | Void_ty
  | Named_ty symbol "addr option"
  | Array_ty addr
  | Record_ty "(symbol \<times> addr) list"
  | Function_ty addr addr

type_synonym ty_store = "ty_obj list"

definition types_new :: ty_store where
  "types_new = [Int_ty, Nil_ty, String_ty, Void_ty]"

definition Int_instance :: addr where "Int_instance = 0"
definition Nil_instance :: addr where "Nil_instance = 1"
definition String_instance :: addr where "String_instance = 2"
definition Void_instance :: addr where "Void_instance = 3"

lemmas instance_defs =
  Int_instance_def Nil_instance_def String_instance_def Void_instance_def

text \<open>Going through a pointer, and through a reference.\<close>

definition deref_ty :: "addr option \<Rightarrow> addr res" where
  "deref_ty p = (case p of None \<Rightarrow> Inl Null_deref | Some a \<Rightarrow> Inr a)"

definition ty_at :: "ty_store \<Rightarrow> addr \<Rightarrow> ty_obj res" where
  "ty_at ts a = (if a < length ts then Inr (ts ! a) else Inl Bad_access)"

definition ty_alloc :: "ty_obj \<Rightarrow> ty_store \<Rightarrow> addr \<times> ty_store" where
  "ty_alloc t ts = (length ts, ts @ [t])"

text \<open>\<open>dynamic_cast\<close>: null for a null pointer and for an object of another class.\<close>

definition cast_Record :: "ty_store \<Rightarrow> addr option \<Rightarrow> (symbol \<times> addr) list option" where
  "cast_Record ts p = (case p of None \<Rightarrow> None | Some a \<Rightarrow>
     if a < length ts then (case ts ! a of Record_ty fs \<Rightarrow> Some fs | _ \<Rightarrow> None) else None)"

definition cast_Array :: "ty_store \<Rightarrow> addr option \<Rightarrow> addr option" where
  "cast_Array ts p = (case p of None \<Rightarrow> None | Some a \<Rightarrow>
     if a < length ts then (case ts ! a of Array_ty b \<Rightarrow> Some b | _ \<Rightarrow> None) else None)"

definition cast_Function :: "ty_store \<Rightarrow> addr option \<Rightarrow> (addr \<times> addr) option" where
  "cast_Function ts p = (case p of None \<Rightarrow> None | Some a \<Rightarrow>
     if a < length ts then (case ts ! a of Function_ty f r \<Rightarrow> Some (f, r) | _ \<Rightarrow> None) else None)"

definition cast_Named :: "ty_store \<Rightarrow> addr option \<Rightarrow> (symbol \<times> addr option) option" where
  "cast_Named ts p = (case p of None \<Rightarrow> None | Some a \<Rightarrow>
     if a < length ts then (case ts ! a of Named_ty n q \<Rightarrow> Some (n, q) | _ \<Rightarrow> None) else None)"

lemmas cast_defs = cast_Record_def cast_Array_def cast_Function_def cast_Named_def

section \<open>Named types\<close>

definition named_error :: error where
  "named_error = error_put ''Uninitialized type in named.'' (error_status err_type error_new)"

text \<open>
  \<open>actual\<close>, with a bound on the number of pointers followed.  A chain without cycle has at most as
  many \<open>Named\<close> as the store has objects, so that the bound taken by \<open>actual\<close> is only reached when
  the code does not return.
\<close>

fun actual_upto :: "nat \<Rightarrow> ty_store \<Rightarrow> addr \<Rightarrow> addr res" where
  "actual_upto 0 ts a = Inl No_fuel"
| "actual_upto (Suc n) ts a =
     bindE (ty_at ts a) (\<lambda>t. case t of
       Named_ty name p \<Rightarrow> (case p of Some b \<Rightarrow> actual_upto n ts b | None \<Rightarrow> error_exit named_error)
     | _ \<Rightarrow> Inr a)"

definition actual :: "ty_store \<Rightarrow> addr \<Rightarrow> addr res" where
  "actual ts a = actual_upto (Suc (length ts)) ts a"

definition ty_eq :: "ty_store \<Rightarrow> addr \<Rightarrow> addr \<Rightarrow> bool res" where
  "ty_eq ts lhs rhs = bindE (actual ts lhs) (\<lambda>x. bindE (actual ts rhs) (\<lambda>y. Inr (x = y)))"

definition ty_neq :: "ty_store \<Rightarrow> addr \<Rightarrow> addr \<Rightarrow> bool res" where
  "ty_neq ts lhs rhs = bindE (ty_eq ts lhs rhs) (\<lambda>b. Inr (\<not> b))"

text \<open>\<open>dynamic_cast<const Named*>(cur->type_get())\<close>.\<close>

definition named_next :: "ty_store \<Rightarrow> addr \<Rightarrow> addr option" where
  "named_next ts a = (case cast_Named ts (Some a) of
     Some (name, Some b) \<Rightarrow> (if cast_Named ts (Some b) \<noteq> None then Some b else None)
   | _ \<Rightarrow> None)"

lemma named_next_in: "named_next ts a = Some b \<Longrightarrow> b < length ts"
  by (auto simp: named_next_def cast_defs split: option.splits if_splits ty_obj.splits prod.splits)

function sound_loop :: "ty_store \<Rightarrow> addr set \<Rightarrow> addr \<Rightarrow> bool" where
  "sound_loop ts prev cur = (case named_next ts cur of
     None \<Rightarrow> True
   | Some b \<Rightarrow> if b \<in> prev then False else sound_loop ts (insert b prev) b)"
  by auto
termination
proof (relation "measure (\<lambda>(ts, prev, cur). card ({..<length ts} - prev))")
  fix ts :: ty_store and prev cur b
  assume b: "named_next ts cur = Some b" "b \<notin> prev"
  then have "b < length ts" using named_next_in by blast
  with b have "{..<length ts} - insert b prev \<subset> {..<length ts} - prev" by auto
  then show "((ts, insert b prev, b), ts, prev, cur) \<in>
      measure (\<lambda>(ts, prev, cur). card ({..<length ts} - prev))"
    by (simp add: psubset_card_mono)
qed simp

declare sound_loop.simps [simp del]

definition sound :: "ty_store \<Rightarrow> addr \<Rightarrow> bool" where
  "sound ts a = sound_loop ts {a} a"

definition named_type_set :: "addr \<Rightarrow> addr option \<Rightarrow> ty_store \<Rightarrow> ty_store" where
  "named_type_set a t ts = (case cast_Named ts (Some a) of
     Some (name, q) \<Rightarrow> ts[a := Named_ty name t] | None \<Rightarrow> ts)"

section \<open>Compatibility\<close>

text \<open>
  The virtual method \<open>compatible_with\<close>, with a bound on the nesting of the calls (a function whose
  result is a function is the only case that nests more than once).
\<close>

fun compatible_upto :: "nat \<Rightarrow> ty_store \<Rightarrow> addr \<Rightarrow> addr \<Rightarrow> bool res" where
  "compatible_upto 0 ts a other = Inl No_fuel"
| "compatible_upto (Suc n) ts a other =
     bindE (ty_at ts a) (\<lambda>t. case t of
       Named_ty name p \<Rightarrow> bindE (actual ts a) (\<lambda>x. compatible_upto n ts x other)
     | Record_ty fs \<Rightarrow>
         bindE (actual ts other) (\<lambda>y.
           if ts ! y = Nil_ty then Inr True
           else bindE (actual ts a) (\<lambda>x. Inr (x = y)))
     | Function_ty f r \<Rightarrow>
         bindE (actual ts other) (\<lambda>y. case cast_Function ts (Some y) of
           None \<Rightarrow> Inr False
         | Some (f', r') \<Rightarrow>
             bindE (compatible_upto n ts f f') (\<lambda>b.
               if b then compatible_upto n ts r r' else Inr False))
     | _ \<Rightarrow> ty_eq ts a other)"

declare compatible_upto.simps [simp del]

definition compatible_with :: "ty_store \<Rightarrow> addr \<Rightarrow> addr \<Rightarrow> bool res" where
  "compatible_with ts a other = compatible_upto (Suc (Suc (2 * length ts))) ts a other"

section \<open>Records\<close>

definition key_error :: "symbol \<Rightarrow> error" where
  "key_error key =
     error_put key (error_put ''No field with key: '' (error_status err_type error_new))"

fun field_type :: "(symbol \<times> addr) list \<Rightarrow> symbol \<Rightarrow> addr res" where
  "field_type [] key = error_exit (key_error key)"
| "field_type ((name, t) # flds) key = (if name = key then Inr t else field_type flds key)"

fun field_index_from :: "int \<Rightarrow> (symbol \<times> addr) list \<Rightarrow> symbol \<Rightarrow> int res" where
  "field_index_from i [] key = error_exit (key_error key)"
| "field_index_from i ((name, t) # flds) key =
     (if name = key then Inr i else field_index_from (i + 1) flds key)"

definition field_index :: "(symbol \<times> addr) list \<Rightarrow> symbol \<Rightarrow> int res" where
  "field_index flds key = field_index_from 0 flds key"

definition field_add :: "addr \<Rightarrow> symbol \<Rightarrow> addr \<Rightarrow> ty_store \<Rightarrow> ty_store" where
  "field_add r name t ts = (case cast_Record ts (Some r) of
     Some fs \<Rightarrow> ts[r := Record_ty (fs @ [(name, t)])] | None \<Rightarrow> ts)"

section \<open>Printing\<close>

text \<open>
  What \<open>operator<<\<close> writes for a type; \<open>ptr\<close> gives the text of a pointer, which depends on the
  machine: the printer of \<open>Named\<close> prints the pointer \<open>type_get()\<close>, not the type.
\<close>

fun print_ty :: "(addr option \<Rightarrow> string) \<Rightarrow> nat \<Rightarrow> ty_store \<Rightarrow> addr \<Rightarrow> string res"
  and print_fields :: "(addr option \<Rightarrow> string) \<Rightarrow> nat \<Rightarrow> ty_store \<Rightarrow> (symbol \<times> addr) list \<Rightarrow> string res"
where
  "print_ty ptr 0 ts a = Inl No_fuel"
| "print_ty ptr (Suc n) ts a =
     bindE (ty_at ts a) (\<lambda>t. case t of
       Nil_ty \<Rightarrow> Inr ''nil''
     | Void_ty \<Rightarrow> Inr ''void''
     | Int_ty \<Rightarrow> Inr ''int''
     | String_ty \<Rightarrow> Inr ''string''
     | Named_ty name p \<Rightarrow> Inr (name @ '' : '' @ ptr p)
     | Array_ty b \<Rightarrow> Inr []
     | Record_ty fs \<Rightarrow>
         (case fs of
            [] \<Rightarrow> Inr ''{}''
          | (name, t) # flds \<Rightarrow>
              bindE (print_ty ptr n ts t) (\<lambda>x.
              bindE (print_fields ptr n ts flds) (\<lambda>y. Inr (''{'' @ x @ y @ ''}''))))
     | Function_ty f r \<Rightarrow>
         bindE (print_ty ptr n ts f) (\<lambda>x.
         bindE (print_ty ptr n ts r) (\<lambda>y. Inr (''function_call( '' @ x @ '') : '' @ y))))"
| "print_fields ptr n ts [] = Inr []"
| "print_fields ptr n ts ((name, t) # flds) =
     bindE (print_ty ptr n ts t) (\<lambda>x.
     bindE (print_fields ptr n ts flds) (\<lambda>y. Inr ('', '' @ x @ y)))"

definition ty_print :: "(addr option \<Rightarrow> string) \<Rightarrow> ty_store \<Rightarrow> addr \<Rightarrow> string res" where
  "ty_print ptr ts a = print_ty ptr (Suc (length ts)) ts a"

definition field_print :: "(addr option \<Rightarrow> string) \<Rightarrow> ty_store \<Rightarrow> symbol \<times> addr \<Rightarrow> string res" where
  "field_print ptr ts f = bindE (ty_print ptr ts (snd f)) (\<lambda>x. Inr (fst f @ '' : '' @ x))"

section \<open>Soundness of named types\<close>

lemma actual_upto_more:
  "actual_upto n ts a \<noteq> Inl No_fuel \<Longrightarrow> actual_upto (n + k) ts a = actual_upto n ts a"
proof (induction n ts a rule: actual_upto.induct)
  case (2 n ts a)
  then show ?case
    by (cases "ty_at ts a") (auto split: ty_obj.splits option.splits)
qed simp

lemma actual_upto_next:
  "named_next ts a = Some b \<Longrightarrow> actual_upto (Suc n) ts a = actual_upto n ts b"
  by (auto simp: named_next_def cast_Named_def ty_at_def
      split: option.splits if_splits ty_obj.splits)

lemma named_next_None: "named_next ts a = None \<Longrightarrow> actual_upto 2 ts a \<noteq> Inl No_fuel"
  by (auto simp: named_next_def cast_Named_def ty_at_def numeral_2_eq_2 error_exit_def
      split: option.splits if_splits ty_obj.splits prod.splits)

lemma sound_loop_returns:
  "sound_loop ts prev a \<Longrightarrow>
    \<exists>n \<le> card ({..<length ts} - prev) + 2. actual_upto n ts a \<noteq> Inl No_fuel"
proof (induction ts prev a rule: sound_loop.induct)
  case (1 ts prev a)
  show ?case
  proof (cases "named_next ts a")
    case None
    from named_next_None [OF this] show ?thesis by (intro exI [of _ 2]) simp
  next
    case (Some b)
    with "1.prems" have b: "b \<notin> prev" "sound_loop ts (insert b prev) b"
      by (auto simp: sound_loop.simps [of ts prev a] split: if_splits)
    from "1.IH" [OF Some b] obtain n where
      n: "n \<le> card ({..<length ts} - insert b prev) + 2" "actual_upto n ts b \<noteq> Inl No_fuel"
      by blast
    have "b \<in> {..<length ts} - prev" using b(1) named_next_in [OF Some] by simp
    then have "card ({..<length ts} - prev) = Suc (card ({..<length ts} - prev - {b}))"
      by (intro card.remove) simp_all
    moreover have "{..<length ts} - insert b prev = {..<length ts} - prev - {b}" by auto
    ultimately have "Suc n \<le> card ({..<length ts} - prev) + 2" using n(1) by simp
    moreover have "actual_upto (Suc n) ts a \<noteq> Inl No_fuel"
      using n(2) actual_upto_next [OF Some, of n] by simp
    ultimately show ?thesis by blast
  qed
qed

lemma closed_chain:
  assumes "\<And>x. x \<in> C \<Longrightarrow> \<exists>y \<in> C. named_next ts x = Some y" and "a \<in> C"
  shows "actual_upto n ts a = Inl No_fuel"
  using assms(2)
proof (induction n arbitrary: a)
  case (Suc n)
  from assms(1) [OF Suc.prems] obtain b where "b \<in> C" "named_next ts a = Some b" by blast
  with Suc.IH [of b] actual_upto_next [of ts a b n] show ?case by simp
qed simp

lemma sound_loop_cycle:
  assumes "\<not> sound_loop ts prev a" and "a \<in> prev"
    and "\<And>x. x \<in> prev \<Longrightarrow> x \<noteq> a \<Longrightarrow> \<exists>y \<in> prev. named_next ts x = Some y"
  shows "actual_upto n ts a = Inl No_fuel"
  using assms
proof (induction ts prev a arbitrary: n rule: sound_loop.induct)
  case (1 ts prev a)
  from "1.prems"(1) obtain b where b: "named_next ts a = Some b"
    by (auto simp: sound_loop.simps [of ts prev a] split: option.splits)
  show ?case
  proof (cases "b \<in> prev")
    case True
    with b "1.prems"(3) have "\<And>x. x \<in> prev \<Longrightarrow> \<exists>y \<in> prev. named_next ts x = Some y" by metis
    from closed_chain [OF this "1.prems"(2)] show ?thesis by simp
  next
    case False
    with b "1.prems"(1) have "\<not> sound_loop ts (insert b prev) b"
      by (simp add: sound_loop.simps [of ts prev a])
    moreover have "\<exists>y \<in> insert b prev. named_next ts x = Some y" if "x \<in> insert b prev" "x \<noteq> b" for x
      using that b "1.prems"(3) [of x] by (cases "x = a") auto
    ultimately have "actual_upto m ts b = Inl No_fuel" for m
      using "1.IH" [OF b False] by blast
    then show ?thesis using actual_upto_next [OF b] by (cases n) simp_all
  qed
qed

text \<open>C5: For every type, \<open>sound\<close> holds exactly when \<open>actual\<close> returns or throws, however long one waits,
  and then the bound of the model is not reached: \<open>sound\<close> is false exactly on the types on which
  \<open>actual\<close> recurses for ever.\<close>

theorem sound_iff_actual_ends:
  "(sound ts a \<longleftrightarrow> (\<exists>n. actual_upto n ts a \<noteq> Inl No_fuel)) \<and>
   (sound ts a \<longleftrightarrow> actual ts a \<noteq> Inl No_fuel)"
proof -
  have c: "actual_upto n ts a = Inl No_fuel" if "\<not> sound ts a" for n
    using sound_loop_cycle [of ts "{a}" a n] that by (auto simp: sound_def)
  have r: "actual ts a \<noteq> Inl No_fuel" if s: "sound ts a"
  proof (cases "a < length ts")
    case True
    from sound_loop_returns [OF s [unfolded sound_def]] obtain n where
      n: "n \<le> card ({..<length ts} - {a}) + 2" "actual_upto n ts a \<noteq> Inl No_fuel" by blast
    from True n(1) have "n \<le> Suc (length ts)" by simp
    with actual_upto_more [OF n(2), of "Suc (length ts) - n"] n(2) show ?thesis
      by (simp add: actual_def)
  next
    case False
    then show ?thesis by (simp add: actual_def ty_at_def)
  qed
  from c r show ?thesis unfolding actual_def by blast
qed

section \<open>Compatibility of types\<close>

lemma actual_upto_not_Named:
  "actual_upto n ts a = Inr x \<Longrightarrow> x < length ts \<and> (\<forall>n p. ts ! x \<noteq> Named_ty n p)"
proof (induction n arbitrary: a)
  case (Suc n)
  then have "a < length ts" by (auto simp: ty_at_def split: if_splits)
  with Suc show ?case
    by (cases "ts ! a") (auto simp: ty_at_def error_exit_def split: option.splits)
qed simp

lemma actual_not_Named:
  "actual ts a = Inr x \<Longrightarrow> x < length ts \<and> (\<forall>n p. ts ! x \<noteq> Named_ty n p)"
  unfolding actual_def by (rule actual_upto_not_Named)

lemma actual_self:
  "x < length ts \<Longrightarrow> (\<forall>n p. ts ! x \<noteq> Named_ty n p) \<Longrightarrow> actual ts x = Inr x"
  by (auto simp: actual_def ty_at_def split: ty_obj.splits)

lemma actual_idem: "actual ts a = Inr x \<Longrightarrow> actual ts x = Inr x"
  using actual_not_Named actual_self by blast

definition is_record_at :: "ty_store \<Rightarrow> addr \<Rightarrow> bool" where
  "is_record_at ts x \<longleftrightarrow> cast_Record ts (Some x) \<noteq> None"

definition is_function_at :: "ty_store \<Rightarrow> addr \<Rightarrow> bool" where
  "is_function_at ts x \<longleftrightarrow> cast_Function ts (Some x) \<noteq> None"

lemma compatible_upto_actual:
  assumes x: "actual ts x = Inr x" and f: "\<not> is_function_at ts x"
  shows "compatible_upto (Suc n) ts x b =
    bindE (actual ts b) (\<lambda>y. Inr (x = y \<or> is_record_at ts x \<and> ts ! y = Nil_ty))"
proof -
  note r = actual_not_Named [OF x]
  then have "ty_at ts x = Inr (ts ! x)" by (simp add: ty_at_def)
  with r f show ?thesis
    by (cases "actual ts b"; cases "ts ! x")
      (simp_all add: compatible_upto.simps ty_eq_def x is_record_at_def is_function_at_def
        cast_Record_def cast_Function_def)
qed

lemma compatible_actual:
  assumes a: "actual ts a = Inr x" and f: "\<not> is_function_at ts x"
  shows "compatible_with ts a b =
    bindE (actual ts b) (\<lambda>y. Inr (x = y \<or> is_record_at ts x \<and> ts ! y = Nil_ty))"
proof (cases "\<exists>n p. a < length ts \<and> ts ! a = Named_ty n p")
  case True
  then have "compatible_with ts a b = compatible_upto (Suc (2 * length ts)) ts x b"
    by (auto simp: compatible_with_def compatible_upto.simps(2) [of "Suc (2 * length ts)"] ty_at_def a)
  with compatible_upto_actual [OF actual_idem [OF a] f] show ?thesis by simp
next
  case False
  have "a < length ts" using a by (auto simp: actual_def ty_at_def split: if_splits)
  with False actual_self [of a ts] a have "a = x" by auto
  with compatible_upto_actual [OF actual_idem [OF a] f] show ?thesis
    by (simp only: compatible_with_def)
qed

text \<open>Nil, that does not redefine \<open>compatible_with\<close>, is not compatible with a record, where
  \<^verbatim>\<open>src/type/test-type.cc\<close> asserts that it is.\<close>

lemma nil_refuses_records:
  assumes "Nil_instance < length ts" and "ts ! Nil_instance = Nil_ty" and "actual ts a = Inr r" and "is_record_at ts r"
  shows "compatible_with ts Nil_instance a = Inr False" and "compatible_with ts a Nil_instance = Inr True"
proof -
  have r: "ts ! r \<noteq> Nil_ty" "\<not> is_function_at ts r"
    using assms(4) by (auto simp: is_record_at_def is_function_at_def cast_defs split: if_splits ty_obj.splits)
  have n: "actual ts Nil_instance = Inr Nil_instance" using assms(1,2) by (intro actual_self) auto
  show "compatible_with ts a Nil_instance = Inr True" using compatible_actual [OF assms(3) r(2)] n assms(2,4) by simp
  have "\<not> is_function_at ts Nil_instance" "\<not> is_record_at ts Nil_instance"
    using assms(2) by (auto simp: is_record_at_def is_function_at_def cast_defs split: if_splits)
  then show "compatible_with ts Nil_instance a = Inr False" using compatible_actual [OF n] assms(2,3) r(1) by auto
qed

text \<open>C6: Two types that name no functions are compatible exactly when they have the same actual type or
  the first is a record and the second is nil.  So nil is not compatible with a record: the code lacks the symmetric case.\<close>

theorem compatible_iff:
  assumes "actual ts a = Inr x" and "actual ts b = Inr y" and "\<not> is_function_at ts x"
  shows "compatible_with ts a b = Inr (x = y \<or> is_record_at ts x \<and> ts ! y = Nil_ty)"
  using assms by (simp add: compatible_actual)

theorem compatible_iff_witness:
  "let ts = types_new @ [Record_ty [], Named_ty ''r'' (Some 4)] in
   compatible_with ts 5 Nil_instance = Inr True \<and> compatible_with ts Nil_instance 5 = Inr False"
proof -
  let ?ts = "types_new @ [Record_ty [], Named_ty ''r'' (Some 4)]"
  have a: "actual ?ts 5 = Inr 4" "actual ?ts 1 = Inr 1"
    by (simp_all add: actual_def types_new_def ty_at_def numeral_eq_Suc)
  from compatible_iff [OF a(1) a(2)] compatible_iff [OF a(2) a(1)] show ?thesis
    by (simp add: types_new_def is_record_at_def is_function_at_def cast_defs Nil_instance_def Let_def)
qed

section \<open>Looking up fields\<close>

lemma field_type_map_of:
  "field_type fs k = (case map_of fs k of None \<Rightarrow> error_exit (key_error k) | Some t \<Rightarrow> Inr t)"
  by (induction fs) auto

lemma field_index_from_lookup:
  "field_index_from i fs k = Inr j \<Longrightarrow>
    i \<le> j \<and> nat (j - i) < length fs \<and> fst (fs ! nat (j - i)) = k \<and>
    (\<forall>m < nat (j - i). fst (fs ! m) \<noteq> k) \<and> map_of fs k = Some (snd (fs ! nat (j - i)))"
proof (induction fs arbitrary: i)
  case (Cons f fs)
  show ?case
  proof (cases "fst f = k")
    case True
    with Cons.prems show ?thesis by (cases f) auto
  next
    case False
    with Cons.prems have "field_index_from (i + 1) fs k = Inr j" by (cases f) auto
    note ih = Cons.IH [OF this]
    then have "nat (j - i) = Suc (nat (j - (i + 1)))" by linarith
    with ih False show ?thesis by (cases f) (auto simp: less_Suc_eq_0_disj)
  qed
qed (simp add: error_exit_def)

lemma field_index_from_missing:
  "map_of fs k = None \<Longrightarrow> field_index_from i fs k = error_exit (key_error k)"
  by (induction fs arbitrary: i) (auto split: if_splits)

lemma field_index_from_present:
  "map_of fs k \<noteq> None \<Longrightarrow> \<exists>j. field_index_from i fs k = Inr j"
  by (induction fs arbitrary: i) (auto split: if_splits)

text \<open>C9: The type and the index of a field agree: both throw an error when the record has no field of
  that name; otherwise the index is that of the first field of that name, and the type its type.\<close>

theorem field_lookup:
  "case map_of fs k of
     None \<Rightarrow> field_type fs k = error_exit (key_error k) \<and> field_index fs k = error_exit (key_error k)
   | Some t \<Rightarrow> field_type fs k = Inr t \<and>
       (\<exists>j \<ge> 0. field_index fs k = Inr j \<and> nat j < length fs \<and> fs ! nat j = (k, t) \<and>
         (\<forall>m < nat j. fst (fs ! m) \<noteq> k))"
proof (cases "map_of fs k")
  case None
  then show ?thesis by (simp add: field_type_map_of field_index_def field_index_from_missing)
next
  case (Some t)
  then obtain j where j: "field_index_from 0 fs k = Inr j"
    using field_index_from_present [of fs k 0] by auto
  from field_index_from_lookup [OF j] Some show ?thesis
    by (auto simp: field_type_map_of field_index_def j prod_eq_iff intro!: exI [of _ j])
qed

theorem field_lookup_witness: "field_type [(''a'', 0), (''b'', 2)] ''b'' = Inr 2"
  using field_lookup [of "[(''a'', 0), (''b'', 2)]" "''b''"] by simp

end
