(* ===== verification/Type_Checker.thy ===== *)
theory Type_Checker
  imports Types Escapes
begin

text \<open>
  \<^verbatim>\<open>src/type/type-checker.cc\<close>, \<^verbatim>\<open>src/type/type-checker.hxx\<close>: the type checker.  The members
  \<open>type_\<close> and \<open>created_type_\<close> of the nodes are the maps \<open>type_of\<close> and \<open>created_of\<close>; a null pointer is
  \<open>None\<close>, going through one is the failure \<open>Null_deref\<close>.

  The visits follow a use to its declaration, which is not a part of the use, so that they may not
  end: they have fuel.  The arguments of a call are evaluated from left to right (the order is left
  open by C++).  The printers of locations (generated by Bison) and of pointers are parameters.
\<close>

section \<open>State, accessors\<close>

record tc_env =
  tc_root :: ast
  tc_defs :: "addr \<rightharpoonup> addr"
  loc_str :: "location \<Rightarrow> string"
  ptr_str :: "addr option \<Rightarrow> string"

record tc_state =
  types :: ty_store
  type_of :: "addr \<rightharpoonup> addr"
  created_of :: "addr \<rightharpoonup> addr"
  t_error :: error
  var_read_only :: "addr set"

definition tc_new :: tc_state where
  "tc_new =
     \<lparr>types = types_new, type_of = Map.empty, created_of = Map.empty, t_error = error_new,
      var_read_only = {}\<rparr>"

definition type_set :: "header \<Rightarrow> addr option \<Rightarrow> tc_state \<Rightarrow> tc_state" where
  "type_set h t s = s\<lparr>type_of := (type_of s)(adr h := t)\<rparr>"

definition created_type_set :: "header \<Rightarrow> addr option \<Rightarrow> tc_state \<Rightarrow> tc_state" where
  "created_type_set h t s = s\<lparr>created_of := (created_of s)(adr h := t)\<rparr>"

definition type_default :: "header \<Rightarrow> addr option \<Rightarrow> tc_state \<Rightarrow> tc_state" where
  "type_default h t s = (if type_of s (adr h) = None then type_set h t s else s)"

definition created_type_default :: "header \<Rightarrow> addr option \<Rightarrow> tc_state \<Rightarrow> tc_state" where
  "created_type_default h t s =
     type_default h t (if created_of s (adr h) = None then created_type_set h t s else s)"

text \<open>\<open>new\<close> of a type.\<close>

definition tc_alloc :: "ty_obj \<Rightarrow> tc_state \<Rightarrow> addr \<times> tc_state" where
  "tc_alloc t s = (length (types s), s\<lparr>types := types s @ [t]\<rparr>)"

text \<open>\<open>def_get\<close> of a node, and going through it.\<close>

definition tc_def :: "tc_env \<Rightarrow> header \<Rightarrow> ast option res" where
  "tc_def P h = def_get (tc_root P) (tc_defs P) h"

definition tc_def_deref :: "tc_env \<Rightarrow> header \<Rightarrow> ast res" where
  "tc_def_deref P h =
     bindE (tc_def P h) (\<lambda>d. case d of None \<Rightarrow> Inl Null_deref | Some n \<Rightarrow> Inr n)"

text \<open>\<open>type(e)\<close>: visit the node unless it has a type already; what is returned is \<open>e.type_get()\<close>.\<close>

definition tc_type :: "tc_state visit \<Rightarrow> ast \<Rightarrow> tc_state \<Rightarrow> (addr option \<times> tc_state) res" where
  "tc_type visit e s =
     bindE (if type_of s (addr_of e) = None then visit e s else Inr s)
       (\<lambda>s1. Inr (type_of s1 (addr_of e), s1))"

text \<open>\<open>*type(e)\<close>.\<close>

definition tc_type_ref :: "tc_state visit \<Rightarrow> ast \<Rightarrow> tc_state \<Rightarrow> (addr \<times> tc_state) res" where
  "tc_type_ref visit e s =
     bindE (tc_type visit e s) (\<lambda>(t, s1). bindE (deref_ty t) (\<lambda>a. Inr (a, s1)))"

definition tc_field_add :: "addr \<Rightarrow> symbol \<Rightarrow> addr \<Rightarrow> tc_state \<Rightarrow> tc_state" where
  "tc_field_add r name t s = s\<lparr>types := field_add r name t (types s)\<rparr>"

definition Field_parts :: "ast \<Rightarrow> (symbol \<times> ast) res" where
  "Field_parts f = (case f of Field_node h n t \<Rightarrow> Inr (n, t) | _ \<Rightarrow> Inl Bad_cast)"

definition tc_fields :: "tc_state visit \<Rightarrow> ast list \<Rightarrow> tc_state \<Rightarrow> (addr \<times> tc_state) res" where
  "tc_fields visit flds s =
     (let (r, s1) = tc_alloc (Record_ty []) s in
      bindE (foldE (\<lambda>f s.
          bindE (Field_parts f) (\<lambda>(n, t).
          bindE (tc_type_ref visit t s) (\<lambda>(a, s'). Inr (tc_field_add r n a s')))) flds s1)
        (\<lambda>s2. Inr (r, s2)))"

definition tc_formals :: "tc_state visit \<Rightarrow> ast \<Rightarrow> tc_state \<Rightarrow> (addr \<times> tc_state) res" where
  "tc_formals visit e s =
     (let (r, s1) = tc_alloc (Record_ty []) s in
      bindE (foldE (\<lambda>var s.
          bindE (tc_type_ref visit var s) (\<lambda>(a, s'). Inr (tc_field_add r (name_get var) a s')))
          (decs_get e) s1)
        (\<lambda>s2. Inr (r, s2)))"

section \<open>Diagnostics\<close>

definition tc_error :: "tc_env \<Rightarrow> header \<Rightarrow> string \<Rightarrow> tc_state \<Rightarrow> tc_state" where
  "tc_error P h msg s = s\<lparr>t_error :=
     error_endl (error_put msg (error_put '': '' (error_put (loc_str P (loc h))
       (error_status err_type (t_error s)))))\<rparr>"

text \<open>The overload with an argument to print; \<open>exp\<close> is its text.\<close>

definition tc_error_exp :: "tc_env \<Rightarrow> header \<Rightarrow> string \<Rightarrow> string \<Rightarrow> tc_state \<Rightarrow> tc_state" where
  "tc_error_exp P h msg exp s = s\<lparr>t_error :=
     error_endl (error_put exp (error_put '': '' (error_put msg (error_put '': ''
       (error_put (loc_str P (loc h)) (error_status err_type (t_error s)))))))\<rparr>"

definition error_and_recover ::
  "tc_env \<Rightarrow> header \<Rightarrow> string \<Rightarrow> string \<Rightarrow> tc_state \<Rightarrow> tc_state" where
  "error_and_recover P h msg exp s =
     type_set h (Some Nil_instance) (tc_error_exp P h msg exp s)"

definition tc_print :: "tc_env \<Rightarrow> addr \<Rightarrow> tc_state \<Rightarrow> string res" where
  "tc_print P a s = ty_print (ptr_str P) (types s) a"

definition type_mismatch ::
  "tc_env \<Rightarrow> header \<Rightarrow> string \<Rightarrow> addr \<Rightarrow> string \<Rightarrow> addr \<Rightarrow> tc_state \<Rightarrow> tc_state res" where
  "type_mismatch P h exp1 type1 exp2 type2 s =
     (let e1 = error_incendl (error_put '': type mismatch'' (error_put (loc_str P (loc h))
                 (error_status err_type (t_error s)))) in
      bindE (tc_print P type1 s) (\<lambda>x.
      bindE (tc_print P type2 s) (\<lambda>y.
      let e2 = error_iendl (error_put x (error_put '' type: '' (error_put exp1 e1))) in
      bindE (error_decendl (error_put y (error_put '' type: '' (error_put exp2 e2)))) (\<lambda>e3.
      Inr (s\<lparr>t_error := e3\<rparr>)))))"

definition check_types ::
  "tc_env \<Rightarrow> header \<Rightarrow> string \<Rightarrow> addr \<Rightarrow> string \<Rightarrow> addr \<Rightarrow> tc_state \<Rightarrow> tc_state res" where
  "check_types P h exp1 type1 exp2 type2 s =
     bindE (actual (types s) type2) (\<lambda>a2.
     bindE (compatible_with (types s) type1 a2) (\<lambda>b.
       if \<not> b then type_mismatch P h exp1 type1 exp2 type2 s else Inr s))"

text \<open>The overload on nodes.\<close>

definition check_types_nodes ::
  "tc_env \<Rightarrow> tc_state visit \<Rightarrow> header \<Rightarrow> string \<Rightarrow> ast \<Rightarrow> string \<Rightarrow> ast \<Rightarrow> tc_state \<Rightarrow> tc_state res" where
  "check_types_nodes P visit h exp1 type1 exp2 type2 s =
     bindE (tc_type visit type1 s) (\<lambda>(_, s1).
     bindE (tc_type visit type2 s1) (\<lambda>(_, s2).
     bindE (deref_ty (type_of s2 (addr_of type1))) (\<lambda>t1.
     bindE (deref_ty (type_of s2 (addr_of type2))) (\<lambda>t2.
     bindE (actual (types s2) t2) (\<lambda>a2.
     bindE (compatible_with (types s2) t1 a2) (\<lambda>b.
       if \<not> b
       then bindE (actual (types s2) t1) (\<lambda>a1. type_mismatch P h exp1 a1 exp2 a2 s2)
       else Inr s2))))))"

definition check_type ::
  "tc_env \<Rightarrow> tc_state visit \<Rightarrow> ast \<Rightarrow> string \<Rightarrow> addr \<Rightarrow> tc_state \<Rightarrow> tc_state res" where
  "check_type P visit e msg expected s =
     bindE (tc_type visit e s) (\<lambda>(t, s1).
     bindE (deref_ty t) (\<lambda>t.
     bindE (actual (types s1) t) (\<lambda>a.
     bindE (ty_neq (types s1) a expected) (\<lambda>ne.
       if ne
       then bindE (tc_print P a s1) (\<lambda>x. Inr (error_and_recover P (hdr e) msg x s1))
       else Inr s1))))"

section \<open>Variables\<close>

definition tc_SimpleVar ::
  "tc_env \<Rightarrow> tc_state visit \<Rightarrow> header \<Rightarrow> tc_state \<Rightarrow> tc_state res" where
  "tc_SimpleVar P visit h s =
     bindE (tc_def P h) (\<lambda>d. case d of
       None \<Rightarrow> Inr s
     | Some dec \<Rightarrow> bindE (tc_type visit dec s) (\<lambda>(t, s1). Inr (type_set h t s1)))"

text \<open>\<open>field_type\<close> returns no null pointer, so that its test in the code always succeeds.\<close>

definition tc_FieldVar ::
  "tc_env \<Rightarrow> tc_state visit \<Rightarrow> header \<Rightarrow> ast \<Rightarrow> symbol \<Rightarrow> tc_state \<Rightarrow> tc_state res" where
  "tc_FieldVar P visit h var name s =
     bindE (tc_type visit var s) (\<lambda>(t, s1). case cast_Record (types s1) t of
       Some r \<Rightarrow> bindE (field_type r name) (\<lambda>ft. Inr (type_set h (Some ft) s1))
     | None \<Rightarrow> Inr (error_and_recover P h ''wrong type'' (ptr_str P t) s1))"

definition tc_SubscriptVar ::
  "tc_env \<Rightarrow> tc_state visit \<Rightarrow> header \<Rightarrow> ast \<Rightarrow> ast \<Rightarrow> tc_state \<Rightarrow> tc_state res" where
  "tc_SubscriptVar P visit h var index s =
     bindE (check_type P visit index ''expected int'' Int_instance s) (\<lambda>s1.
     bindE (tc_type visit var s1) (\<lambda>(t, s2). case cast_Array (types s2) t of
       Some b \<Rightarrow> Inr (type_set h (Some b) s2)
     | None \<Rightarrow> Inr (error_and_recover P h ''wrong type'' (ptr_str P t) s2)))"

section \<open>Expressions\<close>

definition tc_NilExp :: "header \<Rightarrow> tc_state \<Rightarrow> tc_state res" where
  "tc_NilExp h s = Inr (type_set h (Some Nil_instance) s)"

definition tc_IntExp :: "header \<Rightarrow> tc_state \<Rightarrow> tc_state res" where
  "tc_IntExp h s = Inr (type_set h (Some Int_instance) s)"

definition tc_StringExp :: "header \<Rightarrow> tc_state \<Rightarrow> tc_state res" where
  "tc_StringExp h s = Inr (type_set h (Some String_instance) s)"

definition TypeDec_ty :: "ast \<Rightarrow> ast res" where
  "TypeDec_ty d = (case d of TypeDec _ _ ty \<Rightarrow> Inr ty | _ \<Rightarrow> Inl Bad_cast)"

definition FieldInit_init :: "ast \<Rightarrow> ast res" where
  "FieldInit_init f = (case f of FieldInit _ _ i \<Rightarrow> Inr i | _ \<Rightarrow> Inl Bad_cast)"

text \<open>\<open>r->fields_get()[i]\<close>: the first is a pointer that may be null, the second is not checked.\<close>

definition record_field :: "(symbol \<times> addr) list option \<Rightarrow> nat \<Rightarrow> (symbol \<times> addr) res" where
  "record_field r i = (case r of
     None \<Rightarrow> Inl Null_deref
   | Some fs \<Rightarrow> if i < length fs then Inr (fs ! i) else Inl Bad_access)"

fun tc_inits ::
  "tc_env \<Rightarrow> tc_state visit \<Rightarrow> header \<Rightarrow> (symbol \<times> addr) list option \<Rightarrow> nat \<Rightarrow> ast list
   \<Rightarrow> tc_state \<Rightarrow> tc_state res" where
  "tc_inits P visit h r i [] s = Inr s"
| "tc_inits P visit h r i (f # fs) s =
     bindE (record_field r i) (\<lambda>(n, t).
     bindE (FieldInit_init f) (\<lambda>init.
     bindE (tc_type_ref visit init s) (\<lambda>(a, s1).
     bindE (check_types P h ''left field'' t ''right field'' a s1) (\<lambda>s2.
       tc_inits P visit h r (Suc i) fs s2))))"

definition tc_RecordExp ::
  "tc_env \<Rightarrow> tc_state visit \<Rightarrow> header \<Rightarrow> ast \<Rightarrow> ast list \<Rightarrow> tc_state \<Rightarrow> tc_state res" where
  "tc_RecordExp P visit h type_name inits s =
     bindE (tc_def_deref P (hdr type_name)) (\<lambda>d.
     bindE (TypeDec_ty d) (\<lambda>ty.
     let r = cast_Record (types s) (type_of s (addr_of ty));
         s1 = (if r = None then tc_error P h ''RecordExp: Untyped'' s else s) in
     bindE (tc_inits P visit h r 0 inits s1) (\<lambda>s2.
     bindE (tc_type visit type_name s2) (\<lambda>(t, s3). Inr (type_set h t s3)))))"

text \<open>The calls of \<open>check_types\<close> of an operator, an assignment, a test.\<close>

definition check_two ::
  "tc_env \<Rightarrow> tc_state visit \<Rightarrow> header \<Rightarrow> string \<Rightarrow> ast \<Rightarrow> string \<Rightarrow> ast \<Rightarrow> tc_state \<Rightarrow> tc_state res" where
  "check_two P visit h exp1 e1 exp2 e2 s =
     bindE (tc_type_ref visit e1 s) (\<lambda>(a, s1).
     bindE (tc_type_ref visit e2 s1) (\<lambda>(b, s2). check_types P h exp1 a exp2 b s2))"

definition tc_OpExp ::
  "tc_env \<Rightarrow> tc_state visit \<Rightarrow> header \<Rightarrow> ast \<Rightarrow> oper \<Rightarrow> ast \<Rightarrow> tc_state \<Rightarrow> tc_state res" where
  "tc_OpExp P visit h l oper r s =
     bindE
      (if oper = op_add \<or> oper = op_sub \<or> oper = op_mul \<or> oper = op_div
       then bindE (check_type P visit l ''left op should be int'' Int_instance s)
              (check_type P visit r ''right op should be int'' Int_instance)
       else if oper = op_eq \<or> oper = op_ne
       then check_two P visit h ''left op'' l ''right op'' r s
       else
         bindE (check_two P visit h ''left op'' l ''right op'' r s) (\<lambda>s1.
         bindE (deref_ty (type_of s1 (addr_of l))) (\<lambda>t.
         bindE (actual (types s1) t) (\<lambda>a.
         bindE (ty_neq (types s1) a Int_instance) (\<lambda>b1.
         bindE (if b1 then ty_neq (types s1) a String_instance else Inr False) (\<lambda>b2.
           if b2
           then bindE (tc_type_ref visit l s1) (\<lambda>(b, s2).
                bindE (tc_print P b s2) (\<lambda>x.
                  Inr (error_and_recover P h ''both op should be int or string'' x s2)))
           else Inr s1))))))
      (\<lambda>s1. Inr (type_set h (Some Int_instance) s1))"

fun tc_args ::
  "tc_env \<Rightarrow> tc_state visit \<Rightarrow> header \<Rightarrow> (symbol \<times> addr) list \<Rightarrow> ast list \<Rightarrow> tc_state \<Rightarrow> tc_state res" where
  "tc_args P visit h (f # fs) (e # es) s =
     bindE (tc_type_ref visit e s) (\<lambda>(a, s1).
     bindE (check_types P h ''argument'' a ''formal'' (snd f) s1) (\<lambda>s2.
       tc_args P visit h fs es s2))"
| "tc_args P visit h fs es s = Inr s"

definition FunctionDec_created :: "ast \<Rightarrow> tc_state \<Rightarrow> addr option res" where
  "FunctionDec_created d s = (case d of
     FunctionDec h _ _ _ _ \<Rightarrow> Inr (created_of s (adr h)) | _ \<Rightarrow> Inl Bad_cast)"

definition tc_CallExp ::
  "tc_env \<Rightarrow> tc_state visit \<Rightarrow> header \<Rightarrow> ast list \<Rightarrow> tc_state \<Rightarrow> tc_state res" where
  "tc_CallExp P visit h args s =
     bindE (tc_def_deref P h) (\<lambda>d.
     bindE (FunctionDec_created d s) (\<lambda>c. case cast_Function (types s) c of
       None \<Rightarrow> Inl Null_deref
     | Some (formals, result) \<Rightarrow>
         (case cast_Record (types s) (Some formals) of
            None \<Rightarrow> Inl Bad_access
          | Some fs \<Rightarrow>
              bindE (if length args \<noteq> length fs
                     then Inr (tc_error P h ''invalid number of arguments'' s)
                     else tc_args P visit h fs args s) (\<lambda>s1.
              Inr (type_set h (Some result) s1)))))"

definition tc_ArrayExp ::
  "tc_env \<Rightarrow> tc_state visit \<Rightarrow> header \<Rightarrow> ast \<Rightarrow> ast \<Rightarrow> ast \<Rightarrow> tc_state \<Rightarrow> tc_state res" where
  "tc_ArrayExp P visit h type_name sz init s =
     bindE (tc_type_ref visit sz s) (\<lambda>(a, s1).
     bindE (check_types P h ''len'' a ''given'' Int_instance s1) (\<lambda>s2.
     bindE (check_two P visit h ''array'' type_name ''elements'' init s2) (\<lambda>s3.
       Inr (type_set h (type_of s3 (addr_of type_name)) s3))))"

fun tc_SeqExp_loop ::
  "tc_state visit \<Rightarrow> addr option \<Rightarrow> ast list \<Rightarrow> tc_state \<Rightarrow> (addr option \<times> tc_state) res" where
  "tc_SeqExp_loop visit lst [] s = Inr (lst, s)"
| "tc_SeqExp_loop visit lst (e # es) s =
     bindE (tc_type visit e s) (\<lambda>(t, s1). tc_SeqExp_loop visit t es s1)"

definition tc_SeqExp :: "tc_state visit \<Rightarrow> header \<Rightarrow> ast list \<Rightarrow> tc_state \<Rightarrow> tc_state res" where
  "tc_SeqExp visit h exps s =
     bindE (tc_SeqExp_loop visit (Some Void_instance) exps s) (\<lambda>(t, s1). Inr (type_set h t s1))"

text \<open>The variable is read-only: a use of the variable of a loop.\<close>

definition read_only_use :: "tc_env \<Rightarrow> ast \<Rightarrow> tc_state \<Rightarrow> bool" where
  "read_only_use P var s = (case var of
     SimpleVar h _ \<Rightarrow>
       (case tc_defs P (adr h) of None \<Rightarrow> False | Some d \<Rightarrow> d \<in> var_read_only s)
   | _ \<Rightarrow> False)"

definition tc_AssignExp ::
  "tc_env \<Rightarrow> tc_state visit \<Rightarrow> header \<Rightarrow> ast \<Rightarrow> ast \<Rightarrow> tc_state \<Rightarrow> tc_state res" where
  "tc_AssignExp P visit h var e s =
     (let s1 = (if read_only_use P var s then tc_error P h ''Updating read-only variable'' s else s) in
      bindE (check_two P visit h ''var'' var ''exp'' e s1) (\<lambda>s2.
        Inr (type_set h (Some Void_instance) s2)))"

definition tc_IfExp ::
  "tc_env \<Rightarrow> tc_state visit \<Rightarrow> header \<Rightarrow> ast \<Rightarrow> ast \<Rightarrow> ast \<Rightarrow> tc_state \<Rightarrow> tc_state res" where
  "tc_IfExp P visit h test thenclause elseclause s =
     bindE (check_type P visit test ''expected int'' Int_instance s) (\<lambda>s1.
     bindE (check_two P visit h ''then'' thenclause ''else'' elseclause s1) (\<lambda>s2.
       Inr (type_set h (type_of s2 (addr_of thenclause)) s2)))"

definition tc_WhileExp ::
  "tc_env \<Rightarrow> tc_state visit \<Rightarrow> header \<Rightarrow> ast \<Rightarrow> ast \<Rightarrow> tc_state \<Rightarrow> tc_state res" where
  "tc_WhileExp P visit h test body s =
     bindE (check_type P visit test ''expected int'' Int_instance s) (\<lambda>s1.
     bindE (check_type P visit body ''expected void'' Void_instance s1) (\<lambda>s2.
       Inr (type_set h (Some Void_instance) s2)))"

definition tc_ForExp ::
  "tc_env \<Rightarrow> tc_state visit \<Rightarrow> header \<Rightarrow> ast \<Rightarrow> ast \<Rightarrow> ast \<Rightarrow> tc_state \<Rightarrow> tc_state res" where
  "tc_ForExp P visit h vardec hi body s =
     bindE (check_type P visit vardec ''expected int'' Int_instance s) (\<lambda>s1.
     bindE (check_type P visit hi ''expected int'' Int_instance s1) (\<lambda>s2.
     let s3 = s2\<lparr>var_read_only := insert (addr_of vardec) (var_read_only s2)\<rparr> in
     bindE (check_type P visit body ''expected void'' Void_instance s3) (\<lambda>s4.
       Inr (type_set h (Some Void_instance) s4))))"

definition tc_BreakExp :: "header \<Rightarrow> tc_state \<Rightarrow> tc_state res" where
  "tc_BreakExp h s = Inr (type_set h (Some Void_instance) s)"

definition tc_LetExp ::
  "tc_state visit \<Rightarrow> header \<Rightarrow> ast \<Rightarrow> ast \<Rightarrow> tc_state \<Rightarrow> tc_state res" where
  "tc_LetExp visit h chunks body s =
     bindE (visit chunks s) (\<lambda>s1.
     bindE (tc_type visit body s1) (\<lambda>(t, s2). Inr (type_set h t s2)))"

definition tc_CastExp :: "tc_state visit \<Rightarrow> header \<Rightarrow> ast \<Rightarrow> tc_state \<Rightarrow> tc_state res" where
  "tc_CastExp visit h ty s =
     bindE (tc_type visit ty s) (\<lambda>(t, s1). Inr (type_set h t s1))"

section \<open>Declarations\<close>

definition tc_FunctionDec_header :: "tc_state visit \<Rightarrow> ast \<Rightarrow> tc_state \<Rightarrow> tc_state res" where
  "tc_FunctionDec_header visit d s = (case d of
     FunctionDec h name formals result body \<Rightarrow>
       bindE (tc_formals visit formals s) (\<lambda>(f, s1).
       bindE (case result of
                None \<Rightarrow> Inr (Void_instance, s1)
              | Some r \<Rightarrow> tc_type_ref visit r s1) (\<lambda>(t, s2).
       let (a, s3) = tc_alloc (Function_ty f t) s2 in Inr (created_type_default h (Some a) s3)))
   | _ \<Rightarrow> Inl Bad_cast)"

definition tc_routine_body ::
  "tc_env \<Rightarrow> tc_state visit \<Rightarrow> header \<Rightarrow> ast \<Rightarrow> tc_state \<Rightarrow> tc_state res" where
  "tc_routine_body P visit h body s =
     (let rt = cast_Function (types s) (created_of s (adr h)) in
      bindE
       (if rt = None
        then bindE (deref_ty (created_of s (adr h))) (\<lambda>c.
             bindE (actual (types s) c) (\<lambda>a.
             bindE (tc_print P a s) (\<lambda>x. Inr (error_and_recover P h ''wrong type'' x s))))
        else Inr s) (\<lambda>s1.
      bindE (tc_type_ref visit body s1) (\<lambda>(b, s2).
        case rt of
          None \<Rightarrow> Inl Null_deref
        | Some (f, result) \<Rightarrow> check_types P h ''body'' b ''return'' result s2)))"

definition tc_FunctionDec_body ::
  "tc_env \<Rightarrow> tc_state visit \<Rightarrow> ast \<Rightarrow> tc_state \<Rightarrow> tc_state res" where
  "tc_FunctionDec_body P visit d s = (case d of
     FunctionDec h name formals result body \<Rightarrow>
       (case body of None \<Rightarrow> Inr s | Some b \<Rightarrow> tc_routine_body P visit h b s)
   | _ \<Rightarrow> Inl Bad_cast)"

definition tc_VarDec ::
  "tc_env \<Rightarrow> tc_state visit \<Rightarrow> header \<Rightarrow> ast option \<Rightarrow> ast option \<Rightarrow> tc_state \<Rightarrow> tc_state res" where
  "tc_VarDec P visit h type_name init s = (case type_name of
     None \<Rightarrow>
       (case init of
          Some i \<Rightarrow> bindE (tc_type visit i s) (\<lambda>(t, s1). Inr (type_set h t s1))
        | None \<Rightarrow> Inr (tc_error P h ''No detectable type'' s))
   | Some n \<Rightarrow>
       bindE (tc_type visit n s) (\<lambda>(t, s1).
       bindE (case init of
                Some i \<Rightarrow>
                  bindE (tc_type_ref visit i s1) (\<lambda>(a, s2).
                  bindE (deref_ty t) (\<lambda>b. check_types P h ''init'' a ''type'' b s2))
              | None \<Rightarrow> Inr s1) (\<lambda>s3.
       Inr (type_set h t s3))))"

definition tc_TypeDec_header :: "ast \<Rightarrow> tc_state \<Rightarrow> tc_state res" where
  "tc_TypeDec_header d s = (case d of
     TypeDec h name ty \<Rightarrow>
       (let (a, s1) = tc_alloc (Named_ty name None) s in Inr (created_type_default h (Some a) s1))
   | _ \<Rightarrow> Inl Bad_cast)"

definition tc_TypeDec_body ::
  "tc_env \<Rightarrow> tc_state visit \<Rightarrow> ast \<Rightarrow> tc_state \<Rightarrow> tc_state res" where
  "tc_TypeDec_body P visit d s = (case d of
     TypeDec h name ty \<Rightarrow>
       bindE (tc_type visit ty s) (\<lambda>(_, s1).
       case created_of s1 (adr h) of
         None \<Rightarrow> Inl Null_deref
       | Some n \<Rightarrow>
           if cast_Named (types s1) (Some n) = None then Inl Null_deref
           else
             (let s2 = s1\<lparr>types := named_type_set n (created_of s1 (addr_of ty)) (types s1)\<rparr> in
              if \<not> sound (types s2) n
              then Inr (error_and_recover P h ''cycle of type detected'' name s2)
              else Inr s2))
   | _ \<Rightarrow> Inl Bad_cast)"

text \<open>\<open>chunk_visit\<close>: all the headers, then all the bodies.\<close>

definition tc_chunk_visit ::
  "(ast \<Rightarrow> tc_state \<Rightarrow> tc_state res) \<Rightarrow> (ast \<Rightarrow> tc_state \<Rightarrow> tc_state res) \<Rightarrow> ast list
   \<Rightarrow> tc_state \<Rightarrow> tc_state res" where
  "tc_chunk_visit header body ds s = bindE (foldE header ds s) (foldE body ds)"

definition tc_FunctionChunk ::
  "tc_env \<Rightarrow> tc_state visit \<Rightarrow> ast list \<Rightarrow> tc_state \<Rightarrow> tc_state res" where
  "tc_FunctionChunk P visit ds =
     tc_chunk_visit (tc_FunctionDec_header visit) (tc_FunctionDec_body P visit) ds"

definition tc_TypeChunk ::
  "tc_env \<Rightarrow> tc_state visit \<Rightarrow> ast list \<Rightarrow> tc_state \<Rightarrow> tc_state res" where
  "tc_TypeChunk P visit ds = tc_chunk_visit tc_TypeDec_header (tc_TypeDec_body P visit) ds"

section \<open>Types\<close>

definition tc_NameTy :: "tc_env \<Rightarrow> header \<Rightarrow> symbol \<Rightarrow> tc_state \<Rightarrow> tc_state res" where
  "tc_NameTy P h name s =
     (if name = ''int'' then Inr (type_set h (Some Int_instance) s)
      else if name = ''string'' then Inr (type_set h (Some String_instance) s)
      else (case tc_defs P (adr h) of
        None \<Rightarrow> Inr s
      | Some d \<Rightarrow> Inr (type_set h (created_of s d) s)))"

definition tc_RecordTy ::
  "tc_state visit \<Rightarrow> header \<Rightarrow> ast list \<Rightarrow> tc_state \<Rightarrow> tc_state res" where
  "tc_RecordTy visit h flds s =
     bindE (tc_fields visit flds s) (\<lambda>(r, s1). Inr (created_type_default h (Some r) s1))"

definition tc_ArrayTy ::
  "tc_state visit \<Rightarrow> header \<Rightarrow> ast \<Rightarrow> tc_state \<Rightarrow> tc_state res" where
  "tc_ArrayTy visit h base_type s =
     bindE (tc_type_ref visit base_type s) (\<lambda>(b, s1).
       let (a, s2) = tc_alloc (Array_ty b) s1 in Inr (created_type_default h (Some a) s2))"

section \<open>The visitor\<close>

definition tc_dispatch :: "tc_env \<Rightarrow> tc_state visit \<Rightarrow> tc_state visit" where
  "tc_dispatch P visit e s = (case e of
     SimpleVar h name \<Rightarrow> tc_SimpleVar P visit h s
   | FieldVar h var name \<Rightarrow> tc_FieldVar P visit h var name s
   | SubscriptVar h var index \<Rightarrow> tc_SubscriptVar P visit h var index s
   | NilExp h \<Rightarrow> tc_NilExp h s
   | IntExp h n \<Rightarrow> tc_IntExp h s
   | StringExp h str \<Rightarrow> tc_StringExp h s
   | RecordExp h type_name inits \<Rightarrow> tc_RecordExp P visit h type_name inits s
   | OpExp h l oper r \<Rightarrow> tc_OpExp P visit h l oper r s
   | CallExp h name args \<Rightarrow> tc_CallExp P visit h args s
   | ObjectExp h ty \<Rightarrow> Inr s
   | MethodCallExp h name args obj \<Rightarrow> Inr s
   | ArrayExp h type_name sz init \<Rightarrow> tc_ArrayExp P visit h type_name sz init s
   | SeqExp h exps \<Rightarrow> tc_SeqExp visit h exps s
   | AssignExp h var exp1 \<Rightarrow> tc_AssignExp P visit h var exp1 s
   | IfExp h test thenclause elseclause \<Rightarrow> tc_IfExp P visit h test thenclause elseclause s
   | WhileExp h test body \<Rightarrow> tc_WhileExp P visit h test body s
   | ForExp h vardec hi body \<Rightarrow> tc_ForExp P visit h vardec hi body s
   | BreakExp h \<Rightarrow> tc_BreakExp h s
   | LetExp h chunks body \<Rightarrow> tc_LetExp visit h chunks body s
   | CastExp h exp1 ty \<Rightarrow> tc_CastExp visit h ty s
   | FunctionChunk h ds \<Rightarrow> tc_FunctionChunk P visit ds s
   | FunctionDec _ _ _ _ _ \<Rightarrow> Inl Unreachable
   | TypeChunk h ds \<Rightarrow> tc_TypeChunk P visit ds s
   | TypeDec _ _ _ \<Rightarrow> Inl Unreachable
   | VarDec h name type_name init \<Rightarrow> tc_VarDec P visit h type_name init s
   | NameTy h name \<Rightarrow> tc_NameTy P h name s
   | RecordTy h flds \<Rightarrow> tc_RecordTy visit h flds s
   | ArrayTy h base_type \<Rightarrow> tc_ArrayTy visit h base_type s
   | ClassTy _ _ _ \<Rightarrow> non_object_visit e s
   | MethodChunk _ _ \<Rightarrow> non_object_visit e s
   | MethodDec _ _ _ _ _ \<Rightarrow> non_object_visit e s
   | _ \<Rightarrow> default_visit visit e s)"

primrec tc_visit :: "tc_env \<Rightarrow> nat \<Rightarrow> tc_state visit" where
  "tc_visit P 0 = (\<lambda>e s. Inl No_fuel)"
| "tc_visit P (Suc n) = (\<lambda>e s. tc_dispatch P (tc_visit P n) e s)"

text \<open>\<open>types_check\<close> returns a copy of the error of the visitor; the annotations stay on the tree.\<close>

definition types_check :: "tc_env \<Rightarrow> nat \<Rightarrow> tc_state \<Rightarrow> (error \<times> tc_state) res" where
  "types_check P n s =
     bindE (tc_visit P n (tc_root P) (s\<lparr>t_error := error_new, var_read_only := {}\<rparr>)) (\<lambda>t. Inr (error_copy (t_error t), t))"

end
