(* ===== verification/Escapes_Collector.thy ===== *)
theory Escapes_Collector
  imports Type_Checker
begin

text \<open>
  \<^verbatim>\<open>src/llvmtranslate/escapes-collector.*\<close>: the variables that each function needs, for the lambda lifting.
  A function is known by the object of \<open>type::Function\<close> that stands for it in the store of the types.  The
  member \<open>actual_func_\<close> has no initial value: reading it before a function is visited is \<open>Bad_access\<close>.  The loop over
  the functions of a chunk has a bound on its rounds.

  The specification is two relations between functions and variables: what a function uses itself, and what it
  uses through the functions that it calls.
\<close>

section \<open>The model of the code\<close>

text \<open>What the passes that ran before left in the nodes.\<close>

record ec_env =
  ec_root :: ast
  ec_defs :: "addr \<rightharpoonup> addr"
  ec_store :: ty_store
  ec_types :: "addr \<rightharpoonup> addr"
  ec_escape :: "addr \<Rightarrow> bool"

record ec_state =
  did_modify :: bool
  escaped_map :: "addr \<rightharpoonup> addr set"
  actual_func :: "addr option"

definition ec_new :: ec_state where
  "ec_new = \<lparr>did_modify = False, escaped_map = Map.empty, actual_func = None\<rparr>"

text \<open>\<open>dynamic_cast<const type::Function*>(&e.type_get()->actual())\<close>.\<close>

definition function_type :: "ec_env \<Rightarrow> ast \<Rightarrow> addr option res" where
  "function_type P e =
     bindE (deref_ty (ec_types P (addr_of e))) (\<lambda>t.
     bindE (actual (ec_store P) t) (\<lambda>a.
       Inr (if cast_Function (ec_store P) (Some a) = None then None else Some a)))"

text \<open>\<open>escaped_.at\<close> of the current function, and the insertion in the set it gives.\<close>

definition escaped_at :: "addr option \<Rightarrow> ec_state \<Rightarrow> (addr \<times> addr set) res" where
  "escaped_at f s = (case f of
     None \<Rightarrow> Inl Bad_access
   | Some a \<Rightarrow> (case escaped_map s a of None \<Rightarrow> Inl Out_of_range | Some vs \<Rightarrow> Inr (a, vs)))"

fun ec_rounds :: "nat \<Rightarrow> (ec_state \<Rightarrow> ec_state res) \<Rightarrow> ec_state \<Rightarrow> ec_state res" where
  "ec_rounds 0 body s = (if did_modify s then Inl No_fuel else Inr s)"
| "ec_rounds (Suc n) body s =
     (if did_modify s then bindE (body (s\<lparr>did_modify := False\<rparr>)) (ec_rounds n body) else Inr s)"

definition ec_FunctionChunk :: "nat \<Rightarrow> ec_state visit \<Rightarrow> ast list \<Rightarrow> ec_state visit" where
  "ec_FunctionChunk n visit decs e s =
     bindE (ec_rounds n (default_visit visit e) (s\<lparr>did_modify := decs \<noteq> []\<rparr>))
       (\<lambda>t. Inr (t\<lparr>did_modify := did_modify s\<rparr>))"

definition ec_FunctionDec :: "ec_env \<Rightarrow> ec_state visit \<Rightarrow> ec_state visit" where
  "ec_FunctionDec P visit e s =
     bindE (function_type P e) (\<lambda>cast. case cast of
       None \<Rightarrow> Inl Assertion
     | Some f \<Rightarrow>
         let s1 = s\<lparr>actual_func := Some f\<rparr>;
             s2 = if escaped_map s1 f = None then s1\<lparr>escaped_map := (escaped_map s1)(f \<mapsto> {})\<rparr> else s1
         in bindE (default_visit visit e s2) (\<lambda>t. Inr (t\<lparr>actual_func := actual_func s\<rparr>)))"

definition ec_CallExp :: "ec_env \<Rightarrow> ec_state visit \<Rightarrow> header \<Rightarrow> ec_state visit" where
  "ec_CallExp P visit h e s =
     bindE (default_visit visit e s) (\<lambda>s1.
     bindE (def_get (ec_root P) (ec_defs P) h) (\<lambda>def. case def of
       None \<Rightarrow> Inr s1
     | Some d \<Rightarrow>
         bindE (function_type P d) (\<lambda>cast. case cast of
           None \<Rightarrow> Inr s1
         | Some g \<Rightarrow>
             (case escaped_map s1 g of
                None \<Rightarrow> Inr s1
              | Some vs \<Rightarrow>
                  bindE (escaped_at (actual_func s1) s1) (\<lambda>(f, def_escaped).
                    Inr (s1\<lparr>escaped_map := (escaped_map s1)(f \<mapsto> def_escaped \<union> vs),
                            did_modify := (did_modify s1 \<or> \<not> vs \<subseteq> def_escaped)\<rparr>))))))"

definition ec_SimpleVar :: "ec_env \<Rightarrow> header \<Rightarrow> ec_state \<Rightarrow> ec_state res" where
  "ec_SimpleVar P h s =
     bindE (def_get (ec_root P) (ec_defs P) h) (\<lambda>def. case def of
       None \<Rightarrow> Inl Assertion
     | Some d \<Rightarrow>
         if ec_escape P (addr_of d)
         then bindE (escaped_at (actual_func s) s) (\<lambda>(f, vs).
           Inr (s\<lparr>escaped_map := (escaped_map s)(f \<mapsto> insert (addr_of d) vs)\<rparr>))
         else Inr s)"

definition ec_dispatch :: "ec_env \<Rightarrow> nat \<Rightarrow> ec_state visit \<Rightarrow> ec_state visit" where
  "ec_dispatch P n visit e s =
     (if is_object_node e then non_object_visit e s
      else case e of
        FunctionChunk _ decs \<Rightarrow> ec_FunctionChunk n visit decs e s
      | FunctionDec _ _ _ _ _ \<Rightarrow> ec_FunctionDec P visit e s
      | CallExp h _ _ \<Rightarrow> ec_CallExp P visit h e s
      | SimpleVar h _ \<Rightarrow> ec_SimpleVar P h s
      | _ \<Rightarrow> default_visit visit e s)"

lemmas ec_method_defs = ec_FunctionChunk_def ec_FunctionDec_def ec_CallExp_def ec_SimpleVar_def

lemma ec_dispatch_local:
  assumes "\<And>c s. size c < size e \<Longrightarrow> f c s = g c s"
  shows "ec_dispatch P n f e s = ec_dispatch P n g e s"
proof -
  have "default_visit f e = default_visit g e"
    by (rule ext) (rule default_visit_cong [OF assms])
  then show ?thesis by (cases e) (simp_all add: ec_dispatch_def ec_method_defs)
qed

lemma ec_dispatch_cong [fundef_cong]:
  assumes "P = P'" and "n = n'" and "e = e'" and "s = s'" and "\<And>c s. size c < size e' \<Longrightarrow> f c s = g c s"
  shows "ec_dispatch P n f e s = ec_dispatch P' n' g e' s'"
  unfolding assms(1-4) by (rule ec_dispatch_local) (rule assms(5))

function ec_visit :: "ec_env \<Rightarrow> nat \<Rightarrow> ec_state visit" where
  "ec_visit P n e s = ec_dispatch P n (ec_visit P n) e s"
  by auto
termination by (relation "measure (\<lambda>(P, n, e, s). size e)") auto

declare ec_visit.simps [simp del]

interpretation ec: traversal "ec_visit P n" "ec_dispatch P n" for P n
  by unfold_locales (rule ec_visit.simps, rule ec_dispatch_local)

definition collect_escapes :: "ec_env \<Rightarrow> nat \<Rightarrow> (addr \<rightharpoonup> addr set) res" where
  "collect_escapes P n = bindE (ec_visit P n (ec_root P) ec_new) (\<lambda>s. Inr (escaped_map s))"

section \<open>What the functions need\<close>

text \<open>The function in which the sons of a node are, and what a node adds to the two relations.\<close>

definition function_of :: "ec_env \<Rightarrow> ast \<Rightarrow> addr option" where
  "function_of P e = (case function_type P e of Inr (Some f) \<Rightarrow> Some f | _ \<Rightarrow> None)"

definition inside :: "ec_env \<Rightarrow> addr option \<Rightarrow> ast \<Rightarrow> addr option" where
  "inside P c e = (case e of FunctionDec _ _ _ _ _ \<Rightarrow> function_of P e | _ \<Rightarrow> c)"

definition own_uses :: "ec_env \<Rightarrow> addr option \<Rightarrow> ast \<Rightarrow> (addr \<times> addr) list" where
  "own_uses P c e = (case (c, e) of
     (Some f, SimpleVar h _) \<Rightarrow> (case ec_defs P (adr h) of
        Some d \<Rightarrow> if ec_escape P d then [(f, d)] else [] | None \<Rightarrow> [])
   | _ \<Rightarrow> [])"

definition own_calls :: "ec_env \<Rightarrow> addr option \<Rightarrow> ast \<Rightarrow> (addr \<times> addr) list" where
  "own_calls P c e = (case (c, e) of
     (Some f, CallExp h _ _) \<Rightarrow> (case def_get (ec_root P) (ec_defs P) h of
        Inr (Some d) \<Rightarrow> (case function_of P d of Some g \<Rightarrow> [(f, g)] | None \<Rightarrow> []) | _ \<Rightarrow> [])
   | _ \<Rightarrow> [])"

function uses_in :: "ec_env \<Rightarrow> addr option \<Rightarrow> ast \<Rightarrow> (addr \<times> addr) list" where
  "uses_in P c e = own_uses P c e @ concat (map (uses_in P (inside P c e)) (accepts e))"
  by auto
termination by (relation "measure (\<lambda>(P, c, e). size e)") (auto dest: accepts_size)

function calls_in :: "ec_env \<Rightarrow> addr option \<Rightarrow> ast \<Rightarrow> (addr \<times> addr) list" where
  "calls_in P c e = own_calls P c e @ concat (map (calls_in P (inside P c e)) (accepts e))"
  by auto
termination by (relation "measure (\<lambda>(P, c, e). size e)") (auto dest: accepts_size)

declare uses_in.simps [simp del] calls_in.simps [simp del]

definition uses :: "ec_env \<Rightarrow> (addr \<times> addr) set" where
  "uses P = set (uses_in P None (ec_root P))"

definition calls :: "ec_env \<Rightarrow> (addr \<times> addr) set" where
  "calls P = set (calls_in P None (ec_root P))"

text \<open>What a function uses itself or through the functions that it calls.\<close>

definition needs :: "ec_env \<Rightarrow> (addr \<times> addr) set" where
  "needs P = (calls P)\<^sup>* O uses P"

lemma uses_subset_needs: "uses P \<subseteq> needs P"
  by (auto simp: needs_def)

lemma needs_call: "(f, g) \<in> calls P \<Longrightarrow> (g, v) \<in> needs P \<Longrightarrow> (f, v) \<in> needs P"
  unfolding needs_def by (auto intro: converse_rtrancl_into_rtrancl)

lemma needs_subset: "needs P \<subseteq> (Domain (calls P) \<union> Domain (uses P)) \<times> Range (uses P)"
  by (auto simp: needs_def elim: converse_rtranclE)

lemma finite_needs: "finite (needs P)"
proof -
  have "finite (uses P)" "finite (calls P)" by (simp_all add: uses_def calls_def)
  then show ?thesis by (intro finite_subset [OF needs_subset]) (simp add: finite_Domain finite_Range)
qed

text \<open>What the passes before must have done: the functions are typed, the variables are bound to declarations.\<close>

definition annotated_node :: "ec_env \<Rightarrow> ast \<Rightarrow> bool" where
  "annotated_node P e = (case e of
     FunctionDec _ _ _ _ _ \<Rightarrow> function_of P e \<noteq> None
   | SimpleVar h _ \<Rightarrow> (case def_get (ec_root P) (ec_defs P) h of Inr (Some _) \<Rightarrow> True | _ \<Rightarrow> False)
   | CallExp h _ _ \<Rightarrow> (case def_get (ec_root P) (ec_defs P) h of
       Inr None \<Rightarrow> True | Inr (Some d) \<Rightarrow> function_of P d \<noteq> None | _ \<Rightarrow> False)
   | _ \<Rightarrow> \<not> is_object_node e)"


text \<open>No variable is used and no function called outside of the functions, as in what the parser makes of a program.\<close>

function in_functions :: "ast \<Rightarrow> bool" where
  "in_functions e = (case e of
     FunctionDec _ _ _ _ _ \<Rightarrow> True | SimpleVar _ _ \<Rightarrow> False | CallExp _ _ _ \<Rightarrow> False
   | _ \<Rightarrow> list_all in_functions (accepts e))"
  by auto
termination by (relation "measure size") (auto dest: accepts_size)

declare in_functions.simps [simp del]

definition annotated :: "ec_env \<Rightarrow> bool" where
  "annotated P \<longleftrightarrow> list_all (annotated_node P) (nodes (ec_root P)) \<and> in_functions (ec_root P)"

definition functions_in :: "ec_env \<Rightarrow> ast \<Rightarrow> addr set" where
  "functions_in P e = {f. \<exists>d \<in> set (nodes e). is_FunctionDec d \<and> function_of P d = Some f}"

section \<open>A visit ends, and only adds what is needed\<close>

definition pairs :: "ec_state \<Rightarrow> (addr \<times> addr) set" where
  "pairs s = {(f, v). \<exists>vs. escaped_map s f = Some vs \<and> v \<in> vs}"

definition ec_ready :: "ec_env \<Rightarrow> addr option \<Rightarrow> ec_state \<Rightarrow> bool" where
  "ec_ready P c s \<longleftrightarrow> actual_func s = c \<and> set_option c \<subseteq> dom (escaped_map s) \<and> pairs s \<subseteq> needs P"

text \<open>From a state that is ready, \<open>f\<close> ends; it adds the functions \<open>F\<close>, the uses \<open>D\<close> and nothing that is not needed; if it
  sets the flag, it has added a variable.\<close>

definition adds :: "ec_env \<Rightarrow> addr option \<Rightarrow> addr set \<Rightarrow> (addr \<times> addr) set \<Rightarrow> (ec_state \<Rightarrow> ec_state res) \<Rightarrow> bool" where
  "adds P c F D f \<longleftrightarrow> (\<forall>s. ec_ready P c s \<longrightarrow> (\<exists>t. f s = Inr t \<and> ec_ready P c t \<and>
     dom (escaped_map s) \<union> F \<subseteq> dom (escaped_map t) \<and> pairs s \<union> D \<subseteq> pairs t \<and>
     (did_modify t \<longrightarrow> did_modify s \<or> pairs s \<subset> pairs t)))"

lemma addsI:
  assumes "\<And>s. ec_ready P c s \<Longrightarrow> \<exists>t. f s = Inr t \<and> ec_ready P c t \<and>
     dom (escaped_map s) \<union> F \<subseteq> dom (escaped_map t) \<and> pairs s \<union> D \<subseteq> pairs t \<and>
     (did_modify t \<longrightarrow> did_modify s \<or> pairs s \<subset> pairs t)"
  shows "adds P c F D f"
  using assms by (simp add: adds_def)

lemma addsE:
  assumes "adds P c F D f" "ec_ready P c s"
  obtains t where "f s = Inr t" "ec_ready P c t" "dom (escaped_map s) \<union> F \<subseteq> dom (escaped_map t)"
    "pairs s \<union> D \<subseteq> pairs t" "did_modify t \<longrightarrow> did_modify s \<or> pairs s \<subset> pairs t"
  using assms unfolding adds_def by blast

lemma adds_result:
  assumes "adds P c F D f" "ec_ready P c s" "f s = Inr t"
  shows "ec_ready P c t" "pairs s \<subseteq> pairs t" "D \<subseteq> pairs t"
  using addsE [OF assms(1,2)] assms(3) by auto

lemma adds_skip: "adds P c {} {} Inr"
  by (simp add: adds_def)

lemma adds_bind:
  assumes f: "adds P c F D f" and g: "adds P c F' D' g"
  shows "adds P c (F \<union> F') (D \<union> D') (\<lambda>s. bindE (f s) g)"
proof (rule addsI)
  fix s assume "ec_ready P c s"
  then obtain t where t: "f s = Inr t" "ec_ready P c t" "dom (escaped_map s) \<union> F \<subseteq> dom (escaped_map t)"
    "pairs s \<union> D \<subseteq> pairs t" "did_modify t \<longrightarrow> did_modify s \<or> pairs s \<subset> pairs t" using f by (elim addsE)
  with g obtain u where u: "g t = Inr u" "ec_ready P c u" "dom (escaped_map t) \<union> F' \<subseteq> dom (escaped_map u)"
    "pairs t \<union> D' \<subseteq> pairs u" "did_modify u \<longrightarrow> did_modify t \<or> pairs t \<subset> pairs u" by (elim addsE)
  have "dom (escaped_map s) \<union> (F \<union> F') \<subseteq> dom (escaped_map u)" using t(3) u(3) by blast
  moreover have "pairs s \<union> (D \<union> D') \<subseteq> pairs u" using t(4) u(4) by blast
  moreover have "did_modify u \<longrightarrow> did_modify s \<or> pairs s \<subset> pairs u" using t(4,5) u(4,5) by blast
  ultimately show "\<exists>u. bindE (f s) g = Inr u \<and> ec_ready P c u \<and> dom (escaped_map s) \<union> (F \<union> F') \<subseteq> dom (escaped_map u) \<and>
      pairs s \<union> (D \<union> D') \<subseteq> pairs u \<and> (did_modify u \<longrightarrow> did_modify s \<or> pairs s \<subset> pairs u)"
    using t(1) u(1,2) by simp
qed

lemma adds_foldE:
  assumes "\<And>x. x \<in> set xs \<Longrightarrow> adds P c (F x) (D x) (f x)"
  shows "adds P c (\<Union>x \<in> set xs. F x) (\<Union>x \<in> set xs. D x) (foldE f xs)"
  using assms
proof (induction xs)
  case Nil
  then show ?case using adds_skip by (simp add: adds_def)
next
  case (Cons x xs)
  then have "adds P c (F x \<union> (\<Union>x \<in> set xs. F x)) (D x \<union> (\<Union>x \<in> set xs. D x)) (\<lambda>s. bindE (f x s) (foldE f xs))"
    by (intro adds_bind) auto
  then show ?case by (simp add: adds_def)
qed

text \<open>The rounds of a chunk: each one but the last adds a variable.\<close>

lemma rounds_done: "\<not> did_modify s \<Longrightarrow> ec_rounds n body s = Inr s"
  by (cases n) simp_all

lemma ready_flag [simp]: "ec_ready P c (s\<lparr>did_modify := b\<rparr>) = ec_ready P c s" "pairs (s\<lparr>did_modify := b\<rparr>) = pairs s"
  by (simp_all add: ec_ready_def pairs_def)

lemma adds_rounds:
  assumes body: "adds P c F D body" and "ec_ready P c s" "card (needs P - pairs s) < n" "did_modify s"
  shows "\<exists>t. ec_rounds n body s = Inr t \<and> ec_ready P c t \<and> dom (escaped_map s) \<union> F \<subseteq> dom (escaped_map t) \<and>
    pairs s \<union> D \<subseteq> pairs t"
  using assms(2-)
proof (induction n arbitrary: s)
  case (Suc n)
  have "ec_ready P c (s\<lparr>did_modify := False\<rparr>)" using Suc.prems(1) by simp
  with body obtain t where t: "body (s\<lparr>did_modify := False\<rparr>) = Inr t" "ec_ready P c t"
    "dom (escaped_map s) \<union> F \<subseteq> dom (escaped_map t)" "pairs s \<union> D \<subseteq> pairs t" "did_modify t \<longrightarrow> pairs s \<subset> pairs t"
    by (rule addsE) auto
  show ?case
  proof (cases "did_modify t")
    case True
    then have "needs P - pairs t \<subset> needs P - pairs s" using t(2,5) by (auto simp: ec_ready_def)
    then have "card (needs P - pairs t) < card (needs P - pairs s)" by (intro psubset_card_mono) (simp_all add: finite_needs)
    then obtain u where u: "ec_rounds n body t = Inr u" "ec_ready P c u" "dom (escaped_map t) \<union> F \<subseteq> dom (escaped_map u)"
      "pairs t \<union> D \<subseteq> pairs u" using Suc.IH [of t] Suc.prems(2) t(2) True by auto
    have "dom (escaped_map s) \<union> F \<subseteq> dom (escaped_map u)" "pairs s \<union> D \<subseteq> pairs u" using t(3,4) u(3,4) by blast+
    then show ?thesis using t(1) u(1,2) Suc.prems(3) by simp
  next
    case False
    then show ?thesis using t Suc.prems(3) by (auto simp: rounds_done)
  qed
qed simp


section \<open>The visit of each kind of node\<close>

lemma function_of_eq: "function_of P e = Some f \<longleftrightarrow> function_type P e = Inr (Some f)"
  by (auto simp: function_of_def split: sum.splits option.splits)

lemma functions_in_unfold:
  assumes "\<not> is_object_node e"
  shows "functions_in P e =
    (if is_FunctionDec e then set_option (function_of P e) else {}) \<union> (\<Union>x \<in> set (accepts e). functions_in P x)"
  by (auto simp: functions_in_def nodes.simps [of e] accepts_subs [OF assms])

lemma uses_in_unfold: "set (uses_in P c e) = set (own_uses P c e) \<union> (\<Union>x \<in> set (accepts e). set (uses_in P (inside P c e) x))"
  by (simp add: uses_in.simps [of P c e])

lemma calls_in_unfold: "set (calls_in P c e) = set (own_calls P c e) \<union> (\<Union>x \<in> set (accepts e). set (calls_in P (inside P c e) x))"
  by (simp add: calls_in.simps [of P c e])

lemma adds_FunctionDec:
  assumes f: "function_type P e = Inr (Some f)" and sons: "adds P (Some f) F D (default_visit visit e)"
  shows "adds P c (insert f F) D (ec_FunctionDec P visit e)"
proof (rule addsI)
  fix s assume s: "ec_ready P c s"
  define s2 where "s2 = (if escaped_map s f = None then s\<lparr>actual_func := Some f, escaped_map := (escaped_map s)(f \<mapsto> {})\<rparr>
    else s\<lparr>actual_func := Some f\<rparr>)"
  have p: "pairs s2 = pairs s" by (auto simp: pairs_def s2_def split: if_splits)
  have d: "dom (escaped_map s2) = insert f (dom (escaped_map s))" "did_modify s2 = did_modify s" by (auto simp: s2_def)
  have "ec_ready P (Some f) s2" using s p d by (simp add: ec_ready_def) (simp add: s2_def)
  then obtain t where t: "default_visit visit e s2 = Inr t" "ec_ready P (Some f) t"
    "dom (escaped_map s2) \<union> F \<subseteq> dom (escaped_map t)" "pairs s2 \<union> D \<subseteq> pairs t"
    "did_modify t \<longrightarrow> did_modify s2 \<or> pairs s2 \<subset> pairs t" using sons by (elim addsE)
  let ?t = "t\<lparr>actual_func := actual_func s\<rparr>"
  have "ec_FunctionDec P visit e s = Inr ?t"
    using t(1) f by (auto simp: ec_FunctionDec_def s2_def Let_def)
  moreover have "pairs ?t = pairs t" by (simp add: pairs_def)
  moreover have "set_option c \<subseteq> dom (escaped_map t)" using s t(3) d(1) unfolding ec_ready_def by blast
  then have "ec_ready P c ?t" using s t(2) calculation(2) by (simp add: ec_ready_def)
  ultimately show "\<exists>t. ec_FunctionDec P visit e s = Inr t \<and> ec_ready P c t \<and>
      dom (escaped_map s) \<union> insert f F \<subseteq> dom (escaped_map t) \<and> pairs s \<union> D \<subseteq> pairs t \<and>
      (did_modify t \<longrightarrow> did_modify s \<or> pairs s \<subset> pairs t)"
    using t(3-5) p d by (intro exI [of _ ?t]) simp
qed

lemma adds_FunctionChunk:
  assumes "decs = [] \<Longrightarrow> F = {} \<and> D = {}" and sons: "adds P c F D (default_visit visit e)" and n: "card (needs P) < n"
  shows "adds P c F D (ec_FunctionChunk n visit decs e)"
proof (rule addsI)
  fix s assume s: "ec_ready P c s"
  let ?s = "s\<lparr>did_modify := decs \<noteq> []\<rparr>"
  have s': "ec_ready P c ?s" "pairs ?s = pairs s" using s by simp_all
  have "\<exists>t. ec_rounds n (default_visit visit e) ?s = Inr t \<and> ec_ready P c t \<and>
    dom (escaped_map s) \<union> F \<subseteq> dom (escaped_map t) \<and> pairs s \<union> D \<subseteq> pairs t"
  proof (cases "decs = []")
    case True
    then show ?thesis using assms(1) s' by (simp add: rounds_done)
  next
    case False
    have "card (needs P - pairs ?s) \<le> card (needs P)" by (rule card_mono) (simp_all add: finite_needs)
    then have "card (needs P - pairs ?s) < n" using n by linarith
    from adds_rounds [OF sons s'(1) this] False show ?thesis by simp
  qed
  then obtain t where t: "ec_rounds n (default_visit visit e) ?s = Inr t" "ec_ready P c t"
    "dom (escaped_map s) \<union> F \<subseteq> dom (escaped_map t)" "pairs s \<union> D \<subseteq> pairs t" by blast
  then show "\<exists>t. ec_FunctionChunk n visit decs e s = Inr t \<and> ec_ready P c t \<and>
      dom (escaped_map s) \<union> F \<subseteq> dom (escaped_map t) \<and> pairs s \<union> D \<subseteq> pairs t \<and>
      (did_modify t \<longrightarrow> did_modify s \<or> pairs s \<subset> pairs t)"
    by (intro exI [of _ "t\<lparr>did_modify := did_modify s\<rparr>"]) (simp add: ec_FunctionChunk_def)
qed

text \<open>An update of the set of the current function.\<close>

lemma update_adds:
  assumes s: "ec_ready P (Some f) s" and vs: "escaped_map s f = Some vs" and new: "Pair f ` ws \<subseteq> needs P"
    and t: "t = s\<lparr>escaped_map := (escaped_map s)(f \<mapsto> vs \<union> ws), did_modify := (did_modify s \<or> b)\<rparr>" and b: "b \<longrightarrow> \<not> ws \<subseteq> vs"
  shows "ec_ready P (Some f) t" "dom (escaped_map s) \<subseteq> dom (escaped_map t)" "pairs s \<union> Pair f ` ws \<subseteq> pairs t"
    "did_modify t \<longrightarrow> did_modify s \<or> pairs s \<subset> pairs t"
proof -
  have p: "pairs t = pairs s \<union> Pair f ` ws" using vs by (auto simp: pairs_def t split: if_splits)
  show "ec_ready P (Some f) t" using s new unfolding ec_ready_def p by (auto simp: t)
  show "dom (escaped_map s) \<subseteq> dom (escaped_map t)" by (auto simp: t)
  show "pairs s \<union> Pair f ` ws \<subseteq> pairs t" using p by simp
  have "Pair f ` vs \<subseteq> pairs s" "\<And>v. (f, v) \<in> pairs s \<Longrightarrow> v \<in> vs" using vs by (auto simp: pairs_def)
  then have "b \<longrightarrow> pairs s \<subset> pairs t" using b p by blast
  then show "did_modify t \<longrightarrow> did_modify s \<or> pairs s \<subset> pairs t" by (simp add: t)
qed

lemma escaped_at_ready:
  assumes "ec_ready P (Some f) s"
  obtains vs where "escaped_map s f = Some vs" "escaped_at (actual_func s) s = Inr (f, vs)"
  using assms by (auto simp: ec_ready_def escaped_at_def)

lemma adds_SimpleVar:
  assumes d: "def_get (ec_root P) (ec_defs P) h = Inr (Some d)" and own: "ec_escape P (addr_of d) \<Longrightarrow> (f, addr_of d) \<in> needs P"
  shows "adds P (Some f) {} {x. x = (f, addr_of d) \<and> ec_escape P (addr_of d)} (ec_SimpleVar P h)"
proof (rule addsI)
  fix s assume s: "ec_ready P (Some f) s"
  then obtain vs where vs: "escaped_map s f = Some vs" "escaped_at (actual_func s) s = Inr (f, vs)" by (rule escaped_at_ready)
  let ?t = "s\<lparr>escaped_map := (escaped_map s)(f \<mapsto> vs \<union> {addr_of d}), did_modify := (did_modify s \<or> False)\<rparr>"
  show "\<exists>t. ec_SimpleVar P h s = Inr t \<and> ec_ready P (Some f) t \<and> dom (escaped_map s) \<union> {} \<subseteq> dom (escaped_map t) \<and>
      pairs s \<union> {x. x = (f, addr_of d) \<and> ec_escape P (addr_of d)} \<subseteq> pairs t \<and>
      (did_modify t \<longrightarrow> did_modify s \<or> pairs s \<subset> pairs t)"
  proof (cases "ec_escape P (addr_of d)")
    case True
    have "ec_SimpleVar P h s = Inr ?t" using d vs(2) True by (simp add: ec_SimpleVar_def)
    with update_adds [OF s vs(1), of "{addr_of d}" ?t False] own [OF True] True show ?thesis by auto
  next
    case False
    then show ?thesis using d s by (simp add: ec_SimpleVar_def)
  qed
qed

lemma adds_CallExp:
  assumes sons: "adds P (Some f) F D (default_visit visit e)" and d: "def_get (ec_root P) (ec_defs P) h = Inr m"
    and g: "\<And>d. m = Some d \<Longrightarrow> \<exists>g. function_type P d = Inr (Some g) \<and> (f, g) \<in> calls P"
  shows "adds P (Some f) F D (ec_CallExp P visit h e)"
proof (cases m)
  case None
  then have "ec_CallExp P visit h e = default_visit visit e" using d by (simp add: ec_CallExp_def fun_eq_iff)
  then show ?thesis using sons by simp
next
  case (Some d')
  with g obtain g where g: "function_type P d' = Inr (Some g)" "(f, g) \<in> calls P" by blast
  define spread where "spread s1 = (case escaped_map s1 g of None \<Rightarrow> Inr s1 | Some vs \<Rightarrow>
      bindE (escaped_at (actual_func s1) s1) (\<lambda>(f, def_escaped).
        Inr (s1\<lparr>escaped_map := (escaped_map s1)(f \<mapsto> def_escaped \<union> vs),
                did_modify := (did_modify s1 \<or> \<not> vs \<subseteq> def_escaped)\<rparr>)))" for s1
  have "adds P (Some f) {} {} spread"
  proof (rule addsI)
    fix s assume s: "ec_ready P (Some f) s"
    then obtain vs where vs: "escaped_map s f = Some vs" "escaped_at (actual_func s) s = Inr (f, vs)" by (rule escaped_at_ready)
    show "\<exists>t. spread s = Inr t \<and> ec_ready P (Some f) t \<and> dom (escaped_map s) \<union> {} \<subseteq> dom (escaped_map t) \<and>
      pairs s \<union> {} \<subseteq> pairs t \<and> (did_modify t \<longrightarrow> did_modify s \<or> pairs s \<subset> pairs t)"
    proof (cases "escaped_map s g")
      case None
      then show ?thesis using s by (simp add: spread_def)
    next
      case (Some ws)
      let ?t = "s\<lparr>escaped_map := (escaped_map s)(f \<mapsto> vs \<union> ws), did_modify := (did_modify s \<or> \<not> ws \<subseteq> vs)\<rparr>"
      have "(g, v) \<in> needs P" if "v \<in> ws" for v using s Some that by (auto simp: ec_ready_def pairs_def)
      then have "Pair f ` ws \<subseteq> needs P" using needs_call [OF g(2)] by auto
      moreover have "spread s = Inr ?t" using Some vs(2) by (simp add: spread_def)
      ultimately show ?thesis using update_adds [OF s vs(1), of ws ?t "\<not> ws \<subseteq> vs"] by auto
    qed
  qed
  from adds_bind [OF sons this] have "adds P (Some f) F D (\<lambda>s. bindE (default_visit visit e s) spread)" by simp
  moreover have "ec_CallExp P visit h e s = bindE (default_visit visit e s) spread" for s
    using d Some g(1) by (cases "default_visit visit e s") (simp_all add: ec_CallExp_def spread_def)
  ultimately show ?thesis by (simp add: adds_def)
qed


lemma visit_adds:
  assumes ann: "annotated P" and n: "card (needs P) < n"
    and "e \<in> set (nodes (ec_root P))" and "set (uses_in P c e) \<subseteq> uses P" and "set (calls_in P c e) \<subseteq> calls P"
    and "c = None \<Longrightarrow> in_functions e"
  shows "adds P c (functions_in P e) (set (uses_in P c e)) (ec_visit P n e)"
  using assms(3-)
proof (induction e arbitrary: c rule: measure_induct_rule [of size])
  case (less e)
  let ?c = "inside P c e"
  have node: "annotated_node P e" using ann less.prems(1) by (simp add: annotated_def list_all_iff)
  then have plain: "\<not> is_object_node e" by (cases e) (simp_all add: annotated_node_def is_object_node_def)
  have visit: "ec_visit P n e = ec_dispatch P n (ec_visit P n) e" by (rule ext) (rule ec_visit.simps)
  have sub: "\<And>x. x \<in> set (accepts e) \<Longrightarrow> set (uses_in P ?c x) \<subseteq> uses P \<and> set (calls_in P ?c x) \<subseteq> calls P"
    using less.prems(2,3) uses_in_unfold [of P c e] calls_in_unfold [of P c e] by blast
  have top: "in_functions x" if "x \<in> set (accepts e)" "?c = None" for x
    using less.prems(4) in_functions.simps [of e] that node
    by (cases e) (auto simp: inside_def annotated_node_def list_all_iff)
  have sons: "adds P ?c (\<Union>x \<in> set (accepts e). functions_in P x) (\<Union>x \<in> set (accepts e). set (uses_in P ?c x))
      (default_visit (ec_visit P n) e)"
    unfolding default_visit_def
    by (rule adds_foldE) (use less.IH sub top accepts_size nodes_closed [OF less.prems(1)] in blast)
  note unfolds = functions_in_unfold [OF plain] uses_in_unfold [of P c e]
  have default: ?case if "\<not> is_FunctionDec e" "own_uses P c e = []"
    "ec_dispatch P n (ec_visit P n) e = default_visit (ec_visit P n) e" "?c = c"
    using sons that unfolding unfolds visit by simp
  show ?case
  proof (cases e)
    case (FunctionDec h m fs r b)
    then obtain f where f: "function_type P e = Inr (Some f)" "function_of P e = Some f" "?c = Some f"
      using node by (auto simp: annotated_node_def inside_def function_of_eq)
    have "ec_visit P n e = ec_FunctionDec P (ec_visit P n) e"
      unfolding visit by (rule ext) (simp add: ec_dispatch_def is_object_node_def FunctionDec)
    moreover have "is_FunctionDec e" "own_uses P c e = []"
      by (cases c; simp add: FunctionDec is_FunctionDec_def own_uses_def)+
    ultimately show ?thesis using adds_FunctionDec [OF f(1)] sons f(2,3) unfolding unfolds by simp
  next
    case (FunctionChunk h ds)
    have "ec_visit P n e = ec_FunctionChunk n (ec_visit P n) ds e"
      unfolding visit by (rule ext) (simp add: ec_dispatch_def is_object_node_def FunctionChunk)
    moreover have "\<not> is_FunctionDec e" "own_uses P c e = []" "?c = c" "accepts e = ds"
      by (cases c; simp add: FunctionChunk is_FunctionDec_def own_uses_def inside_def accepts_defs)+
    moreover have "adds P c (\<Union>x \<in> set (accepts e). functions_in P x) (\<Union>x \<in> set (accepts e). set (uses_in P c x))
        (ec_FunctionChunk n (ec_visit P n) ds e)"
      by (rule adds_FunctionChunk [OF _ _ n]) (use sons calculation in simp_all)
    ultimately show ?thesis unfolding unfolds by simp
  next
    case (CallExp h m args)
    have "\<not> in_functions e" by (subst in_functions.simps) (simp add: CallExp)
    then obtain f where c: "c = Some f" using less.prems(4) by (cases c) auto
    obtain d where d: "def_get (ec_root P) (ec_defs P) h = Inr d"
      "\<And>d'. d = Some d' \<Longrightarrow> \<exists>g. function_type P d' = Inr (Some g)"
      using node by (auto simp: annotated_node_def CallExp function_of_eq split: option.splits sum.splits)
    have own: "\<exists>g. function_type P d' = Inr (Some g) \<and> (f, g) \<in> calls P" if d': "d = Some d'" for d'
    proof -
      obtain g where g: "function_type P d' = Inr (Some g)" using d(2) [OF d'] by blast
      then have "(f, g) \<in> set (own_calls P c e)" using d(1) d' c by (simp add: own_calls_def CallExp function_of_eq [THEN iffD2])
      then show ?thesis using g less.prems(3) calls_in_unfold [of P c e] by blast
    qed
    have "ec_visit P n e = ec_CallExp P (ec_visit P n) h e"
      unfolding visit by (rule ext) (simp add: ec_dispatch_def is_object_node_def CallExp)
    moreover have "\<not> is_FunctionDec e" "own_uses P c e = []" "?c = c"
      by (cases c; simp add: CallExp is_FunctionDec_def own_uses_def inside_def)+
    ultimately show ?thesis using adds_CallExp [OF _ d(1) own] sons c unfolding unfolds by simp
  next
    case (SimpleVar h x)
    have "\<not> in_functions e" by (subst in_functions.simps) (simp add: SimpleVar)
    then obtain f where c: "c = Some f" using less.prems(4) by (cases c) auto
    obtain d where d: "def_get (ec_root P) (ec_defs P) h = Inr (Some d)" using node by (auto simp: annotated_node_def SimpleVar split: option.splits sum.splits)
    then have b: "ec_defs P (adr h) = Some (addr_of d)" by (auto simp: def_get_def dest: node_at_Some split: option.splits)
    have own: "own_uses P c e = (if ec_escape P (addr_of d) then [(f, addr_of d)] else [])"
      using c b by (simp add: own_uses_def SimpleVar)
    then have "(f, addr_of d) \<in> needs P" if "ec_escape P (addr_of d)"
      using less.prems(2) that uses_subset_needs uses_in_unfold [of P c e] by auto
    from adds_SimpleVar [OF d this] own c
    show ?thesis unfolding unfolds visit
      by (simp add: SimpleVar is_FunctionDec_def accepts_defs ec_dispatch_def is_object_node_def cong: if_cong)
  qed (rule default; use plain in \<open>cases c; simp add: is_FunctionDec_def own_uses_def inside_def is_object_node_def ec_dispatch_def fun_eq_iff\<close>)+
qed


text \<open>A bound on the rounds of every loop.\<close>

definition round_bound :: "ec_env \<Rightarrow> nat" where
  "round_bound P =
     (length (calls_in P None (ec_root P)) + length (uses_in P None (ec_root P))) * length (uses_in P None (ec_root P))"

lemma card_needs: "card (needs P) \<le> round_bound P"
proof -
  let ?C = "calls_in P None (ec_root P)" and ?U = "uses_in P None (ec_root P)"
  have "needs P \<subseteq> set (map fst (?C @ ?U)) \<times> set (map snd ?U)"
    using needs_subset [of P] by (simp add: calls_def uses_def Domain_fst Range_snd image_Un)
  then have "card (needs P) \<le> card (set (map fst (?C @ ?U)) \<times> set (map snd ?U))" by (rule card_mono [rotated]) simp
  also have "\<dots> = card (set (map fst (?C @ ?U))) * card (set (map snd ?U))" by (rule card_cartesian_product)
  also have "\<dots> \<le> length (map fst (?C @ ?U)) * length (map snd ?U)" by (intro mult_le_mono card_length)
  finally show ?thesis by (simp add: round_bound_def)
qed

text \<open>The state after the pass.\<close>

lemma collect_state:
  assumes "annotated P" "round_bound P < n"
  obtains s where "ec_visit P n (ec_root P) ec_new = Inr s" "collect_escapes P n = Inr (escaped_map s)"
    "functions_in P (ec_root P) \<subseteq> dom (escaped_map s)" "uses P \<subseteq> pairs s" "pairs s \<subseteq> needs P"
proof -
  have "ec_ready P None ec_new" by (simp add: ec_ready_def pairs_def ec_new_def)
  moreover have "adds P None (functions_in P (ec_root P)) (uses P) (ec_visit P n (ec_root P))"
    unfolding uses_def by (rule visit_adds)
      (use assms card_needs [of P] in \<open>auto simp: uses_def calls_def annotated_def\<close>)
  ultimately obtain s where "ec_visit P n (ec_root P) ec_new = Inr s" "ec_ready P None s"
    "functions_in P (ec_root P) \<subseteq> dom (escaped_map s)" "uses P \<subseteq> pairs s" unfolding adds_def by blast
  then show thesis by (intro that [of s]) (auto simp: collect_escapes_def ec_ready_def)
qed

section \<open>Calls to the functions visited before\<close>

text \<open>The calls and the ends of the functions, in the order of the traversal.\<close>

datatype ec_event = Called addr addr | Done addr

definition own_order :: "ec_env \<Rightarrow> addr option \<Rightarrow> ast \<Rightarrow> ec_event list" where
  "own_order P c e =
     map (\<lambda>(f, g). Called f g) (own_calls P c e) @
     (if is_FunctionDec e then (case function_of P e of Some f \<Rightarrow> [Done f] | None \<Rightarrow> []) else [])"

function order_in :: "ec_env \<Rightarrow> addr option \<Rightarrow> ast \<Rightarrow> ec_event list" where
  "order_in P c e = concat (map (order_in P (inside P c e)) (accepts e)) @ own_order P c e"
  by auto
termination by (relation "measure (\<lambda>(P, c, e). size e)") (auto dest: accepts_size)

declare order_in.simps [simp del]

text \<open>Every call is to the function that makes it, or to one that is done.\<close>

fun backwards :: "addr set \<Rightarrow> ec_event list \<Rightarrow> bool" where
  "backwards K [] = True"
| "backwards K (Called f g # es) = ((f = g \<or> g \<in> K) \<and> backwards K es)"
| "backwards K (Done f # es) = backwards (insert f K) es"

definition calls_back :: "ec_env \<Rightarrow> bool" where
  "calls_back P \<longleftrightarrow> backwards {} (order_in P None (ec_root P))"

definition distinct_functions :: "ec_env \<Rightarrow> bool" where
  "distinct_functions P \<longleftrightarrow> distinct (map (function_of P) (filter is_FunctionDec (nodes (ec_root P))))"

definition dones :: "ec_event list \<Rightarrow> addr set" where
  "dones es = {f. Done f \<in> set es}"

lemma dones_simps [simp]: "dones [] = {}" "dones (Called f g # es) = dones es" "dones (Done f # es) = insert f (dones es)"
  "dones (es @ es') = dones es \<union> dones es'"
  by (auto simp: dones_def)

lemma backwards_append: "backwards K (es @ es') \<longleftrightarrow> backwards K es \<and> backwards (K \<union> dones es) es'"
  by (induction K es rule: backwards.induct) (auto simp: insert_commute)

text \<open>What is done is complete, and a function has what the functions that it called need.\<close>

definition complete :: "ec_env \<Rightarrow> addr set \<Rightarrow> ec_state \<Rightarrow> bool" where
  "complete P K s \<longleftrightarrow> (\<forall>f \<in> K. \<forall>v. (f, v) \<in> needs P \<longrightarrow> (f, v) \<in> pairs s)"

definition covered :: "ec_env \<Rightarrow> ec_event list \<Rightarrow> ec_state \<Rightarrow> bool" where
  "covered P es s \<longleftrightarrow> (\<forall>f g v. Called f g \<in> set es \<and> f \<noteq> g \<and> (g, v) \<in> needs P \<longrightarrow> (f, v) \<in> pairs s)"

lemma complete_mono: "complete P K s \<Longrightarrow> pairs s \<subseteq> pairs t \<Longrightarrow> complete P K t"
  by (auto simp: complete_def)

lemma covered_mono: "covered P es s \<Longrightarrow> pairs s \<subseteq> pairs t \<Longrightarrow> covered P es t"
  by (auto simp: covered_def)

lemma covered_append: "covered P (es @ es') s \<longleftrightarrow> covered P es s \<and> covered P es' s"
  unfolding covered_def set_append by blast

definition completes :: "ec_env \<Rightarrow> addr option \<Rightarrow> ec_event list \<Rightarrow> (ec_state \<Rightarrow> ec_state res) \<Rightarrow> bool" where
  "completes P c es f \<longleftrightarrow> (\<forall>K s t. ec_ready P c s \<and> complete P K s \<and> backwards K es \<and> f s = Inr t \<longrightarrow>
     complete P (K \<union> dones es) t \<and> covered P es t)"

lemma completesI:
  assumes "\<And>K s t. ec_ready P c s \<Longrightarrow> complete P K s \<Longrightarrow> backwards K es \<Longrightarrow> f s = Inr t \<Longrightarrow>
    complete P (K \<union> dones es) t \<and> covered P es t"
  shows "completes P c es f"
  using assms unfolding completes_def by blast

lemma completesD:
  assumes "completes P c es f" "ec_ready P c s" "complete P K s" "backwards K es" "f s = Inr t"
  shows "complete P (K \<union> dones es) t" "covered P es t"
  using assms unfolding completes_def by blast+

lemma completes_foldE:
  assumes "\<And>x. x \<in> set xs \<Longrightarrow> completes P c (es x) (f x)" and adds: "\<And>x. x \<in> set xs \<Longrightarrow> adds P c (F x) (D x) (f x)"
  shows "completes P c (concat (map es xs)) (foldE f xs)"
  using assms
proof (induction xs)
  case Nil
  then show ?case by (simp add: completes_def covered_def)
next
  case (Cons x xs)
  show ?case
  proof (rule completesI)
    fix K s t assume s: "ec_ready P c s" "complete P K s" "backwards K (concat (map es (x # xs)))"
      and t: "foldE f (x # xs) s = Inr t"
    from t obtain u where u: "f x s = Inr u" "foldE f xs u = Inr t" by (auto simp: bindE_eq_Inr)
    have K: "backwards K (es x)" "backwards (K \<union> dones (es x)) (concat (map es xs))"
      using s(3) by (simp_all add: backwards_append)
    have x: "complete P (K \<union> dones (es x)) u" "covered P (es x) u"
      using completesD [OF Cons.prems(1) s(1,2) K(1) u(1)] by simp_all
    have "ec_ready P c u" using adds_result [OF Cons.prems(2) s(1) u(1)] by simp
    moreover have "adds P c (\<Union>x \<in> set xs. F x) (\<Union>x \<in> set xs. D x) (foldE f xs)"
      by (rule adds_foldE) (use Cons.prems(2) in simp)
    ultimately have "pairs u \<subseteq> pairs t" using adds_result u(2) by blast
    moreover have "completes P c (concat (map es xs)) (foldE f xs)" using Cons by simp
    from completesD [OF this \<open>ec_ready P c u\<close> x(1) K(2) u(2)]
    have "complete P (K \<union> dones (es x) \<union> dones (concat (map es xs))) t" "covered P (concat (map es xs)) t" .
    ultimately show "complete P (K \<union> dones (concat (map es (x # xs)))) t \<and> covered P (concat (map es (x # xs))) t"
      using covered_mono [OF x(2)] by (simp add: Un_assoc covered_append)
  qed
qed

lemma rounds_mono:
  assumes "adds P c F D body" "ec_rounds n body s = Inr t" "ec_ready P c s"
  shows "pairs s \<subseteq> pairs t"
  using assms(2,3)
proof (induction n arbitrary: s)
  case (Suc n)
  show ?case
  proof (cases "did_modify s")
    case True
    with Suc.prems obtain u where u: "body (s\<lparr>did_modify := False\<rparr>) = Inr u" "ec_rounds n body u = Inr t"
      by (auto simp: bindE_eq_Inr)
    have "ec_ready P c u \<and> pairs s \<subseteq> pairs u"
      using adds_result [OF assms(1) _ u(1)] Suc.prems(2) by simp
    then show ?thesis using Suc.IH [OF u(2)] by blast
  next
    case False
    then show ?thesis using Suc.prems by simp
  qed
qed (simp split: if_splits)


lemma completes_FunctionChunk:
  assumes "decs = [] \<Longrightarrow> es = []" and adds: "adds P c F D (default_visit visit e)"
    and sons: "completes P c es (default_visit visit e)"
  shows "completes P c es (ec_FunctionChunk n visit decs e)"
proof (rule completesI)
  fix K s t assume s: "ec_ready P c s" "complete P K s" "backwards K es" and "ec_FunctionChunk n visit decs e s = Inr t"
  then obtain u where u: "ec_rounds n (default_visit visit e) (s\<lparr>did_modify := decs \<noteq> []\<rparr>) = Inr u" and t: "pairs t = pairs u"
    by (auto simp: ec_FunctionChunk_def bindE_eq_Inr)
  have "complete P (K \<union> dones es) u \<and> covered P es u"
  proof (cases "decs = []")
    case True
    then show ?thesis using assms(1) s(2) u by (auto simp: rounds_done covered_def complete_def pairs_def)
  next
    case False
    then obtain m v where v: "n = Suc m" "default_visit visit e (s\<lparr>did_modify := False\<rparr>) = Inr v"
      "ec_rounds m (default_visit visit e) v = Inr u"
      using u by (cases n) (auto simp: bindE_eq_Inr)
    have s': "ec_ready P c (s\<lparr>did_modify := False\<rparr>)" "complete P K (s\<lparr>did_modify := False\<rparr>)"
      using s(1,2) by (simp_all add: complete_def)
    have "ec_ready P c v" by (rule adds_result [OF adds s'(1) v(2)])
    then have "pairs v \<subseteq> pairs u" by (rule rounds_mono [OF adds v(3)])
    then show ?thesis using completesD [OF sons s' s(3) v(2)] complete_mono covered_mono by blast
  qed
  then show "complete P (K \<union> dones es) t \<and> covered P es t" using t by (simp add: complete_def covered_def)
qed

lemma needs_cases:
  assumes "(f, v) \<in> needs P"
  shows "(f, v) \<in> uses P \<or> (\<exists>g. g \<noteq> f \<and> (f, g) \<in> calls P \<and> (g, v) \<in> needs P)"
proof -
  from assms obtain h where h: "(f, h) \<in> (calls P)\<^sup>*" "(h, v) \<in> uses P" by (auto simp: needs_def)
  from h(1) h(2) show ?thesis
  proof (induction rule: converse_rtrancl_induct)
    case (step f g)
    then show ?case by (cases "g = f") (auto simp: needs_def intro: relcompI)
  qed simp
qed

lemma completes_FunctionDec:
  assumes f: "function_type P e = Inr (Some f)" and adds: "adds P (Some f) F D (default_visit visit e)"
    and sons: "completes P (Some f) es (default_visit visit e)"
    and uses: "\<And>v. (f, v) \<in> uses P \<Longrightarrow> (f, v) \<in> D" and calls: "\<And>g. (f, g) \<in> calls P \<Longrightarrow> Called f g \<in> set es"
  shows "completes P c (es @ [Done f]) (ec_FunctionDec P visit e)"
proof (rule completesI)
  fix K s t assume s: "ec_ready P c s" "complete P K s" "backwards K (es @ [Done f])" and visit: "ec_FunctionDec P visit e s = Inr t"
  define s2 where "s2 = (if escaped_map s f = None then s\<lparr>actual_func := Some f, escaped_map := (escaped_map s)(f \<mapsto> {})\<rparr>
    else s\<lparr>actual_func := Some f\<rparr>)"
  have p: "pairs s2 = pairs s" by (auto simp: pairs_def s2_def split: if_splits)
  have "dom (escaped_map s2) = insert f (dom (escaped_map s))" by (auto simp: s2_def)
  then have s2: "ec_ready P (Some f) s2" "complete P K s2" using s(1,2) p by (simp_all add: ec_ready_def complete_def) (simp add: s2_def)
  from visit f obtain u where u: "default_visit visit e s2 = Inr u" "t = u\<lparr>actual_func := actual_func s\<rparr>"
    by (auto simp: ec_FunctionDec_def s2_def Let_def bindE_eq_Inr split: if_splits)
  then have t: "pairs t = pairs u" by (simp add: pairs_def)
  have es: "complete P (K \<union> dones es) t" "covered P es t"
    using completesD [OF sons s2 _ u(1)] s(3) t by (simp_all add: backwards_append complete_def covered_def)
  have "D \<subseteq> pairs t" using adds_result [OF adds s2(1) u(1)] t by simp
  then have "(f, v) \<in> pairs t" if "(f, v) \<in> needs P" for v
    using needs_cases [OF that] uses calls es(2) unfolding covered_def by blast
  then show "complete P (K \<union> dones (es @ [Done f])) t \<and> covered P (es @ [Done f]) t"
    using es by (auto simp: complete_def covered_append) (simp add: covered_def)
qed


lemma completes_CallExp:
  assumes adds: "adds P (Some f) F D (default_visit visit e)" and sons: "completes P (Some f) es (default_visit visit e)"
    and d: "def_get (ec_root P) (ec_defs P) h = Inr m"
    and g: "\<And>d. m = Some d \<Longrightarrow> function_type P d = Inr (Some (g d))"
  shows "completes P (Some f) (es @ (case m of None \<Rightarrow> [] | Some d \<Rightarrow> [Called f (g d)])) (ec_CallExp P visit h e)"
proof (cases m)
  case None
  then have "ec_CallExp P visit h e = default_visit visit e" using d by (simp add: ec_CallExp_def fun_eq_iff)
  then show ?thesis using sons None by simp
next
  case (Some d')
  show ?thesis
  proof (rule completesI)
    fix K s t assume s: "ec_ready P (Some f) s" "complete P K s"
      and bw: "backwards K (es @ (case m of None \<Rightarrow> [] | Some d \<Rightarrow> [Called f (g d)]))"
      and "ec_CallExp P visit h e s = Inr t"
    then obtain u where u: "default_visit visit e s = Inr u"
      and t: "(case escaped_map u (g d') of None \<Rightarrow> Inr u | Some vs \<Rightarrow>
        bindE (escaped_at (actual_func u) u) (\<lambda>(f, def_escaped).
          Inr (u\<lparr>escaped_map := (escaped_map u)(f \<mapsto> def_escaped \<union> vs),
                 did_modify := (did_modify u \<or> \<not> vs \<subseteq> def_escaped)\<rparr>))) = Inr t"
      using d g Some by (auto simp: ec_CallExp_def bindE_eq_Inr)
    have es: "complete P (K \<union> dones es) u" "covered P es u"
      using completesD [OF sons s _ u] bw by (simp_all add: backwards_append)
    have "ec_ready P (Some f) u" by (rule adds_result [OF adds s(1) u])
    then obtain vs where vs: "escaped_map u f = Some vs" "escaped_at (actual_func u) u = Inr (f, vs)" by (rule escaped_at_ready)
    have t': "pairs u \<subseteq> pairs t" "\<And>v. (g d', v) \<in> pairs u \<Longrightarrow> (f, v) \<in> pairs t"
      using t vs by (auto simp: pairs_def split: option.splits if_splits)
    have "g d' = f \<or> g d' \<in> K \<union> dones es" using bw Some by (auto simp: backwards_append)
    then have "covered P [Called f (g d')] t" using es(1) t'(2) by (auto simp: covered_def complete_def)
    then show "complete P (K \<union> dones (es @ (case m of None \<Rightarrow> [] | Some d \<Rightarrow> [Called f (g d)]))) t \<and>
        covered P (es @ (case m of None \<Rightarrow> [] | Some d \<Rightarrow> [Called f (g d)])) t"
      using complete_mono [OF es(1) t'(1)] covered_mono [OF es(2) t'(1)] Some by (simp add: covered_append)
  qed
qed

text \<open>Where the calls and the uses of a function come from.\<close>

lemma uses_origin:
  assumes "(f, v) \<in> set (uses_in P c e)" "c \<noteq> Some f" "list_all (annotated_node P) (nodes e)"
  shows "\<exists>d \<in> set (nodes e). is_FunctionDec d \<and> function_of P d = Some f \<and>
    (\<exists>x \<in> set (accepts d). (f, v) \<in> set (uses_in P (Some f) x))"
  using assms
proof (induction e arbitrary: c rule: measure_induct_rule [of size])
  case (less e)
  have "(f, v) \<notin> set (own_uses P c e)"
    using less.prems(2) by (cases c; cases e) (auto simp: own_uses_def split: option.splits)
  then obtain x where x: "x \<in> set (accepts e)" "(f, v) \<in> set (uses_in P (inside P c e) x)"
    using less.prems(1) uses_in_unfold [of P c e] by auto
  have sub: "set (nodes x) \<subseteq> set (nodes e)" by (rule nodes_sub) (rule nodes_closed [OF nodes_self x(1)])
  show ?case
  proof (cases "inside P c e = Some f")
    case True
    then have "is_FunctionDec e \<and> function_of P e = Some f"
      using less.prems(2) by (cases e) (auto simp: inside_def is_FunctionDec_def)
    then show ?thesis using x True by (intro bexI [of _ e]) auto
  next
    case False
    have "list_all (annotated_node P) (nodes x)" using less.prems(3) sub by (auto simp: list_all_iff)
    from less.IH [OF accepts_size [OF x(1)] x(2) False this] show ?thesis using sub by blast
  qed
qed

lemma calls_origin:
  assumes "(f, g) \<in> set (calls_in P c e)" "c \<noteq> Some f" "list_all (annotated_node P) (nodes e)"
  shows "\<exists>d \<in> set (nodes e). is_FunctionDec d \<and> function_of P d = Some f \<and>
    (\<exists>x \<in> set (accepts d). (f, g) \<in> set (calls_in P (Some f) x))"
  using assms
proof (induction e arbitrary: c rule: measure_induct_rule [of size])
  case (less e)
  have "(f, g) \<notin> set (own_calls P c e)"
    using less.prems(2) by (cases c; cases e) (auto simp: own_calls_def split: option.splits sum.splits)
  then obtain x where x: "x \<in> set (accepts e)" "(f, g) \<in> set (calls_in P (inside P c e) x)"
    using less.prems(1) calls_in_unfold [of P c e] by auto
  have sub: "set (nodes x) \<subseteq> set (nodes e)" by (rule nodes_sub) (rule nodes_closed [OF nodes_self x(1)])
  show ?case
  proof (cases "inside P c e = Some f")
    case True
    then have "is_FunctionDec e \<and> function_of P e = Some f"
      using less.prems(2) by (cases e) (auto simp: inside_def is_FunctionDec_def)
    then show ?thesis using x True by (intro bexI [of _ e]) auto
  next
    case False
    have "list_all (annotated_node P) (nodes x)" using less.prems(3) sub by (auto simp: list_all_iff)
    from less.IH [OF accepts_size [OF x(1)] x(2) False this] show ?thesis using sub by blast
  qed
qed

lemma distinct_functionsD:
  assumes "distinct_functions P" "d \<in> set (nodes (ec_root P))" "d' \<in> set (nodes (ec_root P))"
    "is_FunctionDec d" "is_FunctionDec d'" "function_of P d = function_of P d'"
  shows "d = d'"
  using assms by (auto simp: distinct_functions_def distinct_map dest: inj_onD)

lemma own_calls_in_order: "Called f g \<in> set (own_order P c e) \<longleftrightarrow> (f, g) \<in> set (own_calls P c e)"
proof -
  have "Called f g \<notin> set (case x of Some f \<Rightarrow> [Done f] | None \<Rightarrow> [])" for x by (cases x) simp_all
  moreover have "Called f g \<in> set (map (\<lambda>(f, g). Called f g) xs) \<longleftrightarrow> (f, g) \<in> set xs" for xs
    by (induction xs) auto
  ultimately show ?thesis unfolding own_order_def set_append by (simp only: Un_iff split: if_split) simp
qed

lemma calls_in_order: "Called f g \<in> set (order_in P c e) \<longleftrightarrow> (f, g) \<in> set (calls_in P c e)"
proof (induction P c e rule: calls_in.induct)
  case (1 P c e)
  then show ?case unfolding order_in.simps [of P c e] calls_in_unfold [of P c e] by (auto simp: own_calls_in_order)
qed

lemma visit_completes:
  assumes ann: "annotated P" and n: "card (needs P) < n" and dist: "distinct_functions P"
    and "e \<in> set (nodes (ec_root P))" and "set (uses_in P c e) \<subseteq> uses P" and "set (calls_in P c e) \<subseteq> calls P"
    and "c = None \<Longrightarrow> in_functions e"
  shows "completes P c (order_in P c e) (ec_visit P n e)"
  using assms(4-)
proof (induction e arbitrary: c rule: measure_induct_rule [of size])
  case (less e)
  let ?c = "inside P c e"
  have node: "annotated_node P e" using ann less.prems(1) by (simp add: annotated_def list_all_iff)
  then have plain: "\<not> is_object_node e" by (cases e) (simp_all add: annotated_node_def is_object_node_def)
  have visit: "ec_visit P n e = ec_dispatch P n (ec_visit P n) e" by (rule ext) (rule ec_visit.simps)
  have sub: "\<And>x. x \<in> set (accepts e) \<Longrightarrow> set (uses_in P ?c x) \<subseteq> uses P \<and> set (calls_in P ?c x) \<subseteq> calls P"
    using less.prems(2,3) uses_in_unfold [of P c e] calls_in_unfold [of P c e] by blast
  have top: "in_functions x" if "x \<in> set (accepts e)" "?c = None" for x
    using less.prems(4) in_functions.simps [of e] that node
    by (cases e) (auto simp: inside_def annotated_node_def list_all_iff)
  have each: "adds P ?c (functions_in P x) (set (uses_in P ?c x)) (ec_visit P n x)" if "x \<in> set (accepts e)" for x
    by (rule visit_adds [OF ann n]) (use sub [OF that] top [OF that] nodes_closed [OF less.prems(1) that] in auto)
  have adds: "adds P ?c (\<Union>x \<in> set (accepts e). functions_in P x) (\<Union>x \<in> set (accepts e). set (uses_in P ?c x))
      (default_visit (ec_visit P n) e)"
    unfolding default_visit_def by (rule adds_foldE) (rule each)
  have sons: "completes P ?c (concat (map (order_in P ?c) (accepts e))) (default_visit (ec_visit P n) e)"
    unfolding default_visit_def
    by (rule completes_foldE [OF _ each]) (use less.IH sub top accepts_size nodes_closed [OF less.prems(1)] in blast)+
  have default: ?case if "own_order P c e = []" "ec_dispatch P n (ec_visit P n) e = default_visit (ec_visit P n) e" "?c = c"
    using sons that unfolding visit by (simp add: order_in.simps [of P c e])
  show ?case
  proof (cases e)
    case (FunctionDec h m fs r b)
    then obtain f where f: "function_type P e = Inr (Some f)" "function_of P e = Some f" "?c = Some f"
      using node by (auto simp: annotated_node_def inside_def function_of_eq)
    have fd: "is_FunctionDec e" by (simp add: FunctionDec is_FunctionDec_def)
    have all: "list_all (annotated_node P) (nodes (ec_root P))" using ann by (simp add: annotated_def)
    have "(f, v) \<in> (\<Union>x \<in> set (accepts e). set (uses_in P ?c x))" if "(f, v) \<in> uses P" for v
      using uses_origin [OF that [unfolded uses_def] _ all] distinct_functionsD [OF dist _ less.prems(1) _ fd] f(2,3) by force
    moreover have "Called f g \<in> set (concat (map (order_in P ?c) (accepts e)))" if "(f, g) \<in> calls P" for g
      using calls_origin [OF that [unfolded calls_def] _ all] distinct_functionsD [OF dist _ less.prems(1) _ fd] f(2,3)
      by (force simp: calls_in_order)
    ultimately have "completes P c (concat (map (order_in P ?c) (accepts e)) @ [Done f]) (ec_FunctionDec P (ec_visit P n) e)"
      using completes_FunctionDec [OF f(1) adds [unfolded f(3)] sons [unfolded f(3)]] f(3) by simp
    moreover have "ec_visit P n e = ec_FunctionDec P (ec_visit P n) e"
      unfolding visit by (rule ext) (simp add: ec_dispatch_def is_object_node_def FunctionDec)
    moreover have "own_order P c e = [Done f]"
      using f(2) fd by (cases c) (simp_all add: own_order_def own_calls_def FunctionDec)
    ultimately show ?thesis by (simp add: order_in.simps [of P c e])
  next
    case (FunctionChunk h ds)
    have "ec_visit P n e = ec_FunctionChunk n (ec_visit P n) ds e"
      unfolding visit by (rule ext) (simp add: ec_dispatch_def is_object_node_def FunctionChunk)
    moreover have own: "own_order P c e = []" "?c = c" "accepts e = ds"
      by (cases c; simp add: FunctionChunk is_FunctionDec_def own_order_def own_calls_def inside_def accepts_defs)+
    moreover have "completes P c (concat (map (order_in P ?c) (accepts e))) (ec_FunctionChunk n (ec_visit P n) ds e)"
      by (rule completes_FunctionChunk [OF _ adds [unfolded own(2)]]) (use sons own in simp_all)
    ultimately show ?thesis by (simp add: order_in.simps [of P c e])
  next
    case (CallExp h m args)
    have "\<not> in_functions e" by (subst in_functions.simps) (simp add: CallExp)
    then obtain f where c: "c = Some f" using less.prems(4) by (cases c) auto
    obtain d where d: "def_get (ec_root P) (ec_defs P) h = Inr d" "\<And>d'. d = Some d' \<Longrightarrow> function_of P d' \<noteq> None"
      using node by (auto simp: annotated_node_def CallExp split: option.splits sum.splits)
    define g where "g d' = the (function_of P d')" for d'
    have g: "function_type P d' = Inr (Some (g d'))" if "d = Some d'" for d'
      using d(2) [OF that] by (auto simp: g_def simp flip: function_of_eq)
    have inc: "?c = Some f" by (simp add: c CallExp inside_def)
    have "own_order P c e = (case d of None \<Rightarrow> [] | Some d' \<Rightarrow> [Called f (g d')])"
      using d g by (auto simp: own_order_def own_calls_def CallExp c is_FunctionDec_def function_of_eq [THEN iffD2] split: option.split)
    moreover have "ec_visit P n e = ec_CallExp P (ec_visit P n) h e"
      unfolding visit by (rule ext) (simp add: ec_dispatch_def is_object_node_def CallExp)
    ultimately show ?thesis using completes_CallExp [OF adds [unfolded inc] sons [unfolded inc] d(1) g] inc c
      by (simp add: order_in.simps [of P "Some f" e])
  next
    case (SimpleVar h x)
    have "order_in P c e = []"
      unfolding SimpleVar
      by (subst order_in.simps) (cases c; simp add: own_order_def own_calls_def is_FunctionDec_def accepts_defs)
    moreover have "pairs s \<subseteq> pairs t" if "ec_ready P c s" "ec_visit P n e s = Inr t" for s t
      by (rule adds_result [OF visit_adds [OF ann n less.prems] that])
    ultimately show ?thesis by (auto simp: completes_def covered_def intro: complete_mono)
  qed (rule default; use plain in \<open>cases c; simp add: is_FunctionDec_def own_order_def own_calls_def inside_def is_object_node_def ec_dispatch_def fun_eq_iff\<close>)+
qed


lemma dones_in_order: "list_all (annotated_node P) (nodes e) \<Longrightarrow> dones (order_in P c e) = functions_in P e"
proof (induction P c e rule: order_in.induct)
  case (1 P c e)
  have "annotated_node P e" using 1(2) nodes_self [of e] unfolding list_all_iff by blast
  then have plain: "\<not> is_object_node e" by (cases e) (simp_all add: annotated_node_def is_object_node_def)
  have "list_all (annotated_node P) (nodes x)" if "x \<in> set (accepts e)" for x
    using nodes_sub [OF nodes_closed [OF nodes_self that]] 1(2) by (auto simp: list_all_iff)
  then have "\<forall>x \<in> set (accepts e). dones (order_in P (inside P c e) x) = functions_in P x" using 1(1) by blast
  moreover have "dones (own_order P c e) = (if is_FunctionDec e then set_option (function_of P e) else {})"
  proof -
    have "dones (map (\<lambda>(f, g). Called f g) xs) = {}" for xs by (induction xs) auto
    moreover have "dones (case x of Some f \<Rightarrow> [Done f] | None \<Rightarrow> []) = set_option x" for x by (cases x) simp_all
    ultimately show ?thesis by (simp add: own_order_def)
  qed
  moreover have "dones (concat (map h xs)) = (\<Union>x \<in> set xs. dones (h x))" for h :: "ast \<Rightarrow> ec_event list" and xs
    by (induction xs) auto
  ultimately show ?case unfolding functions_in_unfold [OF plain] order_in.simps [of P c e] by auto
qed

lemma needs_functions:
  assumes "annotated P" "(f, v) \<in> needs P"
  shows "f \<in> functions_in P (ec_root P)"
proof -
  have all: "list_all (annotated_node P) (nodes (ec_root P))" using assms(1) by (simp add: annotated_def)
  from needs_cases [OF assms(2)] show ?thesis
    using uses_origin [of f v P None "ec_root P"] calls_origin [of f _ P None "ec_root P"] all
    by (auto simp: uses_def calls_def functions_in_def)
qed


section \<open>Examples\<close>

text \<open>
  Two functions of a chunk, \<open>f\<close> that calls \<open>g\<close> and \<open>g\<close> that reads a variable of the function around them, in
  both orders:
  \<^verbatim>\<open>function _main() = let var x := 0 function f() = g() function g() : int = x in f() end\<close>.
\<close>

definition dec_f :: ast where
  "dec_f = FunctionDec (header_at 30) ''f'' (VarChunk (header_at 31) []) None (Some (CallExp (header_at 32) ''g'' []))"

definition dec_g :: ast where
  "dec_g = FunctionDec (header_at 40) ''g'' (VarChunk (header_at 41) []) None (Some (SimpleVar (header_at 42) ''x''))"

definition two_functions :: "ast list \<Rightarrow> ec_env" where
  "two_functions ds =
     \<lparr>ec_root = ChunkList (header_at 1) [FunctionChunk (header_at 2) [
        FunctionDec (header_at 10) ''_main'' (VarChunk (header_at 11) []) None
          (Some (LetExp (header_at 12)
            (ChunkList (header_at 13) [VarChunk (header_at 14) [VarDec (header_at 20) ''x'' None (Some (IntExp (header_at 21) 0))],
               FunctionChunk (header_at 15) ds])
            (CallExp (header_at 16) ''f'' [])))]],
      ec_defs = [16 \<mapsto> 30, 32 \<mapsto> 40, 42 \<mapsto> 20],
      ec_store = types_new @ [Record_ty [], Function_ty 4 3, Function_ty 4 3, Function_ty 4 3],
      ec_types = [10 \<mapsto> 5, 30 \<mapsto> 6, 40 \<mapsto> 7],
      ec_escape = (\<lambda>a. a = 20)\<rparr>"


section \<open>Properties\<close>

text \<open>C18: on a typed and bound program without object constructs the collection ends, within a number of rounds of its loops that
  the calls and the uses bound; every function has a set, which holds what the function uses itself and nothing
  that it does not need; when every call is to the function that makes it or to one whose declaration is complete, it is
  exactly what the function needs.\<close>

theorem collect_escapes_correct:
  assumes "annotated P" and "round_bound P < n"
  shows "\<exists>m. collect_escapes P n = Inr m \<and> functions_in P (ec_root P) \<subseteq> dom m \<and>
    (\<forall>f v. (f, v) \<in> uses P \<longrightarrow> (\<exists>vs. m f = Some vs \<and> v \<in> vs)) \<and>
    (\<forall>f v vs. m f = Some vs \<and> v \<in> vs \<longrightarrow> (f, v) \<in> needs P) \<and>
    (distinct_functions P \<and> calls_back P \<longrightarrow> (\<forall>f v. (f, v) \<in> needs P \<longrightarrow> (\<exists>vs. m f = Some vs \<and> v \<in> vs)))"
proof -
  from assms obtain s where s: "ec_visit P n (ec_root P) ec_new = Inr s" "collect_escapes P n = Inr (escaped_map s)"
    "functions_in P (ec_root P) \<subseteq> dom (escaped_map s)" "uses P \<subseteq> pairs s" "pairs s \<subseteq> needs P" by (rule collect_state)
  have "needs P \<subseteq> pairs s" if "distinct_functions P" "calls_back P"
  proof -
    have "completes P None (order_in P None (ec_root P)) (ec_visit P n (ec_root P))"
      by (rule visit_completes [OF assms(1) _ that(1)])
        (use assms card_needs [of P] in \<open>auto simp: uses_def calls_def annotated_def\<close>)
    then have "complete P ({} \<union> dones (order_in P None (ec_root P))) s"
      by (rule completesD) (use that(2) s(1) in \<open>auto simp: ec_ready_def pairs_def ec_new_def complete_def calls_back_def\<close>)
    then have "complete P (functions_in P (ec_root P)) s"
      using dones_in_order assms(1) by (simp add: annotated_def)
    then show ?thesis using needs_functions [OF assms(1)] by (auto simp: complete_def)
  qed
  then show ?thesis using s(2-) by (intro exI [of _ "escaped_map s"]) (auto simp: pairs_def)
qed

theorem collect_escapes_correct_witness:
  "\<exists>m. collect_escapes (two_functions [dec_g, dec_f]) 5 = Inr m \<and> (\<exists>vs. m 6 = Some vs \<and> 20 \<in> vs)"
proof -
  let ?P = "two_functions [dec_g, dec_f]"
  have hyps: "annotated ?P" "round_bound ?P < 5" "distinct_functions ?P" "calls_back ?P" by code_simp+
  have "(6, 7) \<in> calls ?P" "(7, 20) \<in> uses ?P" unfolding calls_def uses_def by code_simp+
  then have "(6, 20) \<in> needs ?P" by (meson needs_call subsetD uses_subset_needs)
  then show ?thesis using collect_escapes_correct [OF hyps(1,2)] hyps(3,4) by auto
qed

text \<open>In the other order the call of \<open>g\<close> comes before its declaration, the first round of the chunk adds the use of \<open>x\<close>
  without setting the flag, and no other round follows: \<open>f\<close> and \<open>_main\<close> do not have the variable that \<open>f\<close> has to
  give to \<open>g\<close>.\<close>

lemma forward_call_missed:
  "map_sum id (\<lambda>m. map m [5, 6, 7]) (collect_escapes (two_functions [dec_f, dec_g]) 5) = Inr [Some {}, Some {}, Some {20}] \<and>
   (6, 20) \<in> needs (two_functions [dec_f, dec_g])"
proof
  let ?P = "two_functions [dec_f, dec_g]"
  show "map_sum id (\<lambda>m. map m [5, 6, 7]) (collect_escapes ?P 5) = Inr [Some {}, Some {}, Some {20}]" by code_simp
  have "(6, 7) \<in> calls ?P" "(7, 20) \<in> uses ?P" unfolding calls_def uses_def by code_simp+
  then show "(6, 20) \<in> needs ?P" by (meson needs_call subsetD uses_subset_needs)
qed

end
