(* ===== verification/Type_Rules.thy ===== *)
theory Type_Rules
  imports Type_Checker
begin

text \<open>
  What an accepted program is: the annotations that the checker leaves are a typing derivation.
  \<open>typed_as\<close> is the typing rule of a node for the annotations of its children, \<open>seen\<close> says that a
  construct was checked.  The invariant \<open>tc_inv\<close> says that every node that has a type obeys its
  rule; the relation \<open>extends\<close> between states that no type is withdrawn, so that the rules, once
  obeyed, stay so.
\<close>

section \<open>Stores that grow\<close>

definition store_ext :: "ty_store \<Rightarrow> ty_store \<Rightarrow> bool" where
  "store_ext ts us \<longleftrightarrow> length ts \<le> length us \<and>
     (\<forall>a < length ts. us ! a = ts ! a \<or> (\<exists>n q. ts ! a = Named_ty n None \<and> us ! a = Named_ty n q))"

lemma store_ext_refl [simp]: "store_ext ts ts"
  by (simp add: store_ext_def)

lemma store_ext_trans:
  assumes "store_ext ts us" and "store_ext us vs"
  shows "store_ext ts vs"
  unfolding store_ext_def
proof (intro conjI allI impI)
  show "length ts \<le> length vs" using assms by (simp add: store_ext_def)
next
  fix a assume a: "a < length ts"
  with assms(1) have "a < length us" by (simp add: store_ext_def)
  with assms a show "vs ! a = ts ! a \<or> (\<exists>n q. ts ! a = Named_ty n None \<and> vs ! a = Named_ty n q)"
    unfolding store_ext_def by (metis ty_obj.inject(1))
qed

lemma store_ext_append [simp]: "store_ext ts (ts @ us)"
  by (simp add: store_ext_def nth_append)

lemma store_ext_cast:
  assumes "store_ext ts us"
  shows "cast_Record ts p = Some fs \<Longrightarrow> cast_Record us p = Some fs"
    and "cast_Array ts p = Some b \<Longrightarrow> cast_Array us p = Some b"
    and "cast_Function ts p = Some g \<Longrightarrow> cast_Function us p = Some g"
    and "cast_Named ts p = Some (n, Some q) \<Longrightarrow> cast_Named us p = Some (n, Some q)"
    and "cast_Named ts p = Some (n, None) \<Longrightarrow> \<exists>q. cast_Named us p = Some (n, q)"
  using assms by (auto simp: store_ext_def cast_defs split: option.splits if_splits ty_obj.splits)

lemma actual_upto_ext:
  assumes "store_ext ts us" and "actual_upto n ts a = Inr x"
  shows "actual_upto n us a = Inr x"
  using assms(2)
proof (induction n arbitrary: a)
  case (Suc n)
  then have a: "a < length ts" by (auto simp: ty_at_def split: if_splits)
  with assms(1) have "a < length us" "us ! a = ts ! a \<or> (\<exists>m q. ts ! a = Named_ty m None)"
    by (auto simp: store_ext_def)
  with a Suc show ?case
    by (cases "ts ! a") (auto simp: ty_at_def error_exit_def split: option.splits)
qed simp

lemma actual_ext:
  assumes "store_ext ts us" and "actual ts a = Inr x"
  shows "actual us a = Inr x"
proof -
  from actual_upto_ext [OF assms(1) assms(2) [unfolded actual_def]]
  have n: "actual_upto (Suc (length ts)) us a = Inr x" .
  from assms(1) obtain k where "length us = length ts + k"
    by (auto simp: store_ext_def le_iff_add)
  with actual_upto_more [of "Suc (length ts)" us a k] n show ?thesis
    by (simp only: actual_def add_Suc) simp
qed

lemma ty_eq_ext: "store_ext ts us \<Longrightarrow> ty_eq ts a b = Inr v \<Longrightarrow> ty_eq us a b = Inr v"
  by (auto simp: ty_eq_def bindE_eq_Inr dest: actual_ext)

lemma actual_nth_ext:
  "store_ext ts us \<Longrightarrow> actual ts a = Inr x \<Longrightarrow> us ! x = ts ! x"
  using actual_not_Named [of ts a x] by (auto simp: store_ext_def)

lemma compatible_upto_ext:
  assumes e: "store_ext ts us" and "compatible_upto n ts a b = Inr v"
  shows "compatible_upto (n + k) us a b = Inr v"
  using assms(2)
proof (induction n arbitrary: a b v)
  case (Suc n)
  then have a: "a < length ts" by (auto simp: ty_at_def compatible_upto.simps bindE_eq_Inr split: if_splits)
  note ih = Suc.IH and ext = actual_ext [OF e] ty_eq_ext [OF e] actual_nth_ext [OF e]
  have u: "a < length us" using a e by (auto simp: store_ext_def)
  have same: "us ! a = ts ! a" if "\<And>m. ts ! a \<noteq> Named_ty m None"
    using a e that by (auto simp: store_ext_def)
  show ?case
  proof (cases "ts ! a")
    case (Named_ty m p)
    then obtain q where q: "us ! a = Named_ty m q" using a e by (auto simp: store_ext_def)
    with Named_ty Suc.prems a u ih ext show ?thesis
      by (auto simp: compatible_upto.simps ty_at_def bindE_eq_Inr)
  next
    case (Record_ty fs)
    with same have "us ! a = Record_ty fs" by simp
    with Record_ty Suc.prems a u ext show ?thesis
      by (auto simp: compatible_upto.simps ty_at_def bindE_eq_Inr split: if_splits)
  next
    case (Function_ty f r)
    with same have us: "us ! a = Function_ty f r" by simp
    from Function_ty Suc.prems a obtain y where y: "actual ts b = Inr y"
      "(case cast_Function ts (Some y) of None \<Rightarrow> Inr False
        | Some (f', r') \<Rightarrow> bindE (compatible_upto n ts f f')
            (\<lambda>b. if b then compatible_upto n ts r r' else Inr False)) = Inr v"
      by (auto simp: compatible_upto.simps ty_at_def bindE_eq_Inr)
    have "cast_Function us (Some y) = cast_Function ts (Some y)"
      using ext(3) [OF y(1)] actual_not_Named [OF y(1)] actual_not_Named [OF ext(1) [OF y(1)]]
      by (simp add: cast_Function_def)
    then have "compatible_upto (Suc (n + k)) us a b =
        (case cast_Function ts (Some y) of None \<Rightarrow> Inr False
         | Some (f', r') \<Rightarrow> bindE (compatible_upto (n + k) us f f')
            (\<lambda>b. if b then compatible_upto (n + k) us r r' else Inr False))"
      using us u ext(1) [OF y(1)] by (simp add: compatible_upto.simps(2) ty_at_def)
    also have "\<dots> = Inr v"
    proof (cases "cast_Function ts (Some y)")
      case (Some g)
      obtain f' r' where g: "g = (f', r')" by (cases g)
      from y(2) Some g obtain c where c: "compatible_upto n ts f f' = Inr c"
        "(if c then compatible_upto n ts r r' else Inr False) = Inr v"
        by (auto simp: bindE_eq_Inr)
      from ih [OF c(1)] c(2) ih [of r r' v] Some g show ?thesis by (cases c) simp_all
    qed (use y(2) in simp)
    finally show ?thesis by simp
  qed (use Suc.prems a u ext(2) same in \<open>simp_all add: compatible_upto.simps ty_at_def\<close>)
qed (simp add: compatible_upto.simps)

lemma compatible_with_ext:
  assumes "store_ext ts us" and "compatible_with ts a b = Inr v"
  shows "compatible_with us a b = Inr v"
proof -
  from assms(1) obtain k where "length us = length ts + k"
    by (auto simp: store_ext_def le_iff_add)
  then have "Suc (Suc (2 * length us)) = Suc (Suc (2 * length ts)) + 2 * k" by simp
  with compatible_upto_ext [OF assms(1) assms(2) [unfolded compatible_with_def], of "2 * k"]
  show ?thesis by (simp only: compatible_with_def)
qed

text \<open>A type may be used where the other is expected, as \<open>check_types\<close> sees it.\<close>

definition conforms :: "ty_store \<Rightarrow> addr \<Rightarrow> addr \<Rightarrow> bool" where
  "conforms ts a b \<longleftrightarrow> (\<exists>y. actual ts b = Inr y \<and> compatible_with ts a y = Inr True)"

lemma conforms_ext: "store_ext ts us \<Longrightarrow> conforms ts a b \<Longrightarrow> conforms us a b"
  unfolding conforms_def using actual_ext compatible_with_ext by blast

section \<open>Typing rules\<close>

text \<open>The type of \<open>e\<close> is, in the state \<open>s\<close>, the type \<open>k\<close>.\<close>

definition has_type :: "tc_state \<Rightarrow> ast \<Rightarrow> addr \<Rightarrow> bool" where
  "has_type s e k \<longleftrightarrow> (\<exists>a. type_of s (addr_of e) = Some a \<and> ty_eq (types s) a k = Inr True)"

text \<open>A value of the type of the second may be used where a value of that of the first is expected.\<close>

definition accepts_type :: "tc_state \<Rightarrow> ast \<Rightarrow> ast \<Rightarrow> bool" where
  "accepts_type s e1 e2 \<longleftrightarrow>
     (\<exists>a b. type_of s (addr_of e1) = Some a \<and> type_of s (addr_of e2) = Some b \<and>
        conforms (types s) a b)"

text \<open>The body of a function conforms to its result, the body of a type is what its name stands for.\<close>

definition body_ok :: "tc_state \<Rightarrow> ast \<Rightarrow> bool" where
  "body_ok s d = (case d of
     FunctionDec h name formals result body \<Rightarrow>
       (case body of None \<Rightarrow> True | Some b \<Rightarrow>
          \<exists>c f r t. created_of s (adr h) = Some c \<and> cast_Function (types s) (Some c) = Some (f, r) \<and>
            type_of s (addr_of b) = Some t \<and> conforms (types s) t r)
   | TypeDec h name ty \<Rightarrow>
       \<exists>c. created_of s (adr h) = Some c \<and> cast_Named (types s) (Some c) \<noteq> None \<and>
         (is_NameTy ty \<or>
          (\<exists>n q. cast_Named (types s) (Some c) = Some (n, Some q) \<and>
             created_of s (addr_of ty) = Some q))
   | _ \<Rightarrow> False)"

text \<open>
  \<open>seen\<close>: the construct was checked.  An expression that was checked has a type, but for a use, a
  cast, a record, a sequence or a \<open>let\<close> that takes it from something that has none (a type name that
  was not declared yet), whose other parts were checked.
\<close>

definition init_typed :: "tc_state \<Rightarrow> ast \<Rightarrow> bool" where
  "init_typed s f \<longleftrightarrow> (\<exists>i. FieldInit_init f = Inr i \<and> type_of s (addr_of i) \<noteq> None)"

function seen :: "tc_state \<Rightarrow> ast \<Rightarrow> bool" where
  "seen s e \<longleftrightarrow> type_of s (addr_of e) \<noteq> None \<and> \<not> is_FunctionDec e \<and> \<not> is_TypeDec e \<or>
     (case e of
        SimpleVar _ _ \<Rightarrow> True
      | CastExp _ _ _ \<Rightarrow> True
      | NameTy _ _ \<Rightarrow> True
      | SeqExp _ es \<Rightarrow> es \<noteq> [] \<and> list_all (seen s) es
      | LetExp _ cs b \<Rightarrow> seen s cs \<and> seen s b
      | VarDec _ _ tn init \<Rightarrow>
          (case init of None \<Rightarrow> tn \<noteq> None | Some i \<Rightarrow> tn = None \<and> seen s i)
      | ChunkList _ cs \<Rightarrow> list_all (seen s) cs
      | VarChunk _ ds \<Rightarrow> list_all (seen s) ds
      | FunctionChunk _ ds \<Rightarrow> list_all (seen s) ds
      | TypeChunk _ ds \<Rightarrow> list_all (seen s) ds
      | FunctionDec h _ _ _ _ \<Rightarrow> type_of s (adr h) \<noteq> None \<and> body_ok s e
      | TypeDec h _ _ \<Rightarrow> type_of s (adr h) \<noteq> None \<and> body_ok s e
      | RecordExp _ _ ins \<Rightarrow> list_all (init_typed s) ins
      | FieldInit _ _ i \<Rightarrow> seen s i
      | Field_node _ _ t \<Rightarrow> seen s t
      | _ \<Rightarrow> False)"
  by auto
termination
  by (relation "measure (\<lambda>(s, e). size e)") (auto simp: size_list_member_less)

declare seen.simps [simp del]

definition arithmetic :: "oper \<Rightarrow> bool" where
  "arithmetic oper \<longleftrightarrow> oper = op_add \<or> oper = op_sub \<or> oper = op_mul \<or> oper = op_div"

definition field_of :: "tc_state \<Rightarrow> ast \<Rightarrow> symbol \<times> addr \<Rightarrow> bool" where
  "field_of s f nt \<longleftrightarrow>
     (\<exists>n t. Field_parts f = Inr (n, t) \<and> fst nt = n \<and> type_of s (addr_of t) = Some (snd nt))"

definition formal_of :: "tc_state \<Rightarrow> ast \<Rightarrow> symbol \<times> addr \<Rightarrow> bool" where
  "formal_of s d nt \<longleftrightarrow> fst nt = name_get d \<and> type_of s (addr_of d) = Some (snd nt)"

definition init_of :: "tc_state \<Rightarrow> ast \<Rightarrow> symbol \<times> addr \<Rightarrow> bool" where
  "init_of s f nt \<longleftrightarrow>
     (\<exists>i a. FieldInit_init f = Inr i \<and> type_of s (addr_of i) = Some a \<and>
        conforms (types s) (snd nt) a)"

definition arg_of :: "tc_state \<Rightarrow> ast \<Rightarrow> symbol \<times> addr \<Rightarrow> bool" where
  "arg_of s e nt \<longleftrightarrow>
     (\<exists>a. type_of s (addr_of e) = Some a \<and> conforms (types s) a (snd nt))"

text \<open>The rule of each construct: \<open>e\<close> may have the type \<open>t\<close> given the types of its parts.\<close>

definition typed_as :: "tc_env \<Rightarrow> tc_state \<Rightarrow> ast \<Rightarrow> addr \<Rightarrow> bool" where
  "typed_as P s e t = (case e of
     SimpleVar h _ \<Rightarrow> \<exists>d. tc_def P h = Inr (Some d) \<and> type_of s (addr_of d) = Some t
   | FieldVar h v n \<Rightarrow>
       \<exists>fs. cast_Record (types s) (type_of s (addr_of v)) = Some fs \<and> map_of fs n = Some t
   | SubscriptVar h v i \<Rightarrow>
       has_type s i Int_instance \<and> cast_Array (types s) (type_of s (addr_of v)) = Some t
   | NilExp _ \<Rightarrow> t = Nil_instance
   | IntExp _ _ \<Rightarrow> t = Int_instance
   | StringExp _ _ \<Rightarrow> t = String_instance
   | RecordExp h n ins \<Rightarrow>
       type_of s (addr_of n) = Some t \<and>
       (\<exists>d ty fs. tc_def P (hdr n) = Inr (Some d) \<and> TypeDec_ty d = Inr ty \<and>
          cast_Record (types s) (type_of s (addr_of ty)) = Some fs \<and>
          length ins \<le> length fs \<and> list_all2 (init_of s) ins (take (length ins) fs))
   | OpExp h l oper r \<Rightarrow>
       t = Int_instance \<and>
       (if arithmetic oper then has_type s l Int_instance \<and> has_type s r Int_instance
        else accepts_type s l r \<and>
          (oper = op_eq \<or> oper = op_ne \<or>
           has_type s l Int_instance \<or> has_type s l String_instance))
   | CallExp h _ args \<Rightarrow>
       (\<exists>d c f fs. tc_def P h = Inr (Some d) \<and> FunctionDec_created d s = Inr (Some c) \<and>
          cast_Function (types s) (Some c) = Some (f, t) \<and>
          cast_Record (types s) (Some f) = Some fs \<and> list_all2 (arg_of s) args fs)
   | ArrayExp h n sz init \<Rightarrow>
       type_of s (addr_of n) = Some t \<and>
       (\<exists>a. type_of s (addr_of sz) = Some a \<and> conforms (types s) a Int_instance) \<and>
       accepts_type s n init
   | SeqExp h es \<Rightarrow>
       list_all (seen s) es \<and>
       (if es = [] then t = Void_instance else type_of s (addr_of (last es)) = Some t)
   | AssignExp h v x \<Rightarrow> t = Void_instance \<and> accepts_type s v x
   | IfExp h c a b \<Rightarrow>
       has_type s c Int_instance \<and> accepts_type s a b \<and> type_of s (addr_of a) = Some t
   | WhileExp h c b \<Rightarrow>
       t = Void_instance \<and> has_type s c Int_instance \<and> has_type s b Void_instance
   | ForExp h v hi b \<Rightarrow>
       t = Void_instance \<and> has_type s v Int_instance \<and> has_type s hi Int_instance \<and>
       has_type s b Void_instance
   | BreakExp _ \<Rightarrow> t = Void_instance
   | LetExp h cs b \<Rightarrow> seen s cs \<and> type_of s (addr_of b) = Some t
   | CastExp h x ty \<Rightarrow> type_of s (addr_of ty) = Some t
   | VarDec h _ tn init \<Rightarrow>
       (case tn of
          None \<Rightarrow> \<exists>i. init = Some i \<and> type_of s (addr_of i) = Some t
        | Some n \<Rightarrow> type_of s (addr_of n) = Some t \<and>
            (\<forall>i. init = Some i \<longrightarrow>
               (\<exists>a. type_of s (addr_of i) = Some a \<and> conforms (types s) a t)))
   | NameTy h n \<Rightarrow>
       (if n = ''int'' then t = Int_instance
        else if n = ''string'' then t = String_instance
        else \<exists>d. tc_defs P (adr h) = Some d \<and> created_of s d = Some t)
   | RecordTy h fs \<Rightarrow>
       created_of s (adr h) = Some t \<and>
       (\<exists>rs. cast_Record (types s) (Some t) = Some rs \<and> list_all2 (field_of s) fs rs)
   | ArrayTy h b \<Rightarrow>
       created_of s (adr h) = Some t \<and>
       (\<exists>a. cast_Array (types s) (Some t) = Some a \<and> type_of s (addr_of b) = Some a)
   | FunctionDec h _ formals result _ \<Rightarrow>
       created_of s (adr h) = Some t \<and>
       (\<exists>f r rs. cast_Function (types s) (Some t) = Some (f, r) \<and>
          cast_Record (types s) (Some f) = Some rs \<and>
          list_all2 (formal_of s) (decs_get formals) rs \<and>
          (case result of None \<Rightarrow> r = Void_instance | Some n \<Rightarrow> type_of s (addr_of n) = Some r))
   | TypeDec h _ _ \<Rightarrow>
       created_of s (adr h) = Some t \<and> cast_Named (types s) (Some t) \<noteq> None
   | _ \<Rightarrow> False)"

section \<open>States that grow\<close>

definition extends :: "tc_state \<Rightarrow> tc_state \<Rightarrow> bool" where
  "extends s t \<longleftrightarrow>
     store_ext (types s) (types t) \<and>
     (\<forall>a x. type_of s a = Some x \<longrightarrow> type_of t a = Some x) \<and>
     (\<forall>a x. created_of s a = Some x \<longrightarrow> created_of t a = Some x)"

lemma extends_refl [simp]: "extends s s"
  by (simp add: extends_def)

lemma extends_trans: "extends s t \<Longrightarrow> extends t u \<Longrightarrow> extends s u"
  unfolding extends_def using store_ext_trans by blast

lemma extendsD:
  assumes "extends s t"
  shows "store_ext (types s) (types t)"
    and "type_of s a = Some x \<Longrightarrow> type_of t a = Some x"
    and "created_of s a = Some x \<Longrightarrow> created_of t a = Some x"
  using assms by (auto simp: extends_def)

lemma has_type_ext: "extends s t \<Longrightarrow> has_type s e k \<Longrightarrow> has_type t e k"
  unfolding has_type_def using extendsD ty_eq_ext by blast

lemma accepts_type_ext: "extends s t \<Longrightarrow> accepts_type s a b \<Longrightarrow> accepts_type t a b"
  unfolding accepts_type_def using extendsD conforms_ext by blast

lemma field_of_ext: "extends s t \<Longrightarrow> field_of s f x \<Longrightarrow> field_of t f x"
  by (auto simp: field_of_def dest: extendsD)

lemma formal_of_ext: "extends s t \<Longrightarrow> formal_of s f x \<Longrightarrow> formal_of t f x"
  by (auto simp: formal_of_def dest: extendsD)

lemma init_of_ext:
  assumes e: "extends s t" and i: "init_of s f x"
  shows "init_of t f x"
proof -
  from i obtain j a where j: "FieldInit_init f = Inr j" "type_of s (addr_of j) = Some a"
    "conforms (types s) (snd x) a"
    by (auto simp: init_of_def)
  from extendsD(2) [OF e j(2)] conforms_ext [OF extendsD(1) [OF e] j(3)] j(1) show ?thesis
    by (simp add: init_of_def)
qed

lemma arg_of_ext:
  assumes e: "extends s t" and i: "arg_of s f x"
  shows "arg_of t f x"
proof -
  from i obtain a where a: "type_of s (addr_of f) = Some a" "conforms (types s) a (snd x)"
    by (auto simp: arg_of_def)
  from extendsD(2) [OF e a(1)] conforms_ext [OF extendsD(1) [OF e] a(2)] show ?thesis
    by (simp add: arg_of_def)
qed

lemma cast_ext:
  assumes "extends s t"
  shows "cast_Record (types s) p = Some fs \<Longrightarrow> cast_Record (types t) p = Some fs"
    and "cast_Array (types s) p = Some b \<Longrightarrow> cast_Array (types t) p = Some b"
    and "cast_Function (types s) p = Some g \<Longrightarrow> cast_Function (types t) p = Some g"
    and "cast_Named (types s) p \<noteq> None \<Longrightarrow> cast_Named (types t) p \<noteq> None"
proof -
  note c = store_ext_cast [OF extendsD(1) [OF assms]]
  show "cast_Record (types s) p = Some fs \<Longrightarrow> cast_Record (types t) p = Some fs" by (rule c(1))
  show "cast_Array (types s) p = Some b \<Longrightarrow> cast_Array (types t) p = Some b" by (rule c(2))
  show "cast_Function (types s) p = Some g \<Longrightarrow> cast_Function (types t) p = Some g" by (rule c(3))
  show "cast_Named (types t) p \<noteq> None" if named: "cast_Named (types s) p \<noteq> None"
  proof -
    from named obtain n q where "cast_Named (types s) p = Some (n, q)" by auto
    with c(4,5) [of p n] show ?thesis by (cases q) fastforce+
  qed
qed

lemma cast_type_ext:
  assumes "extends s t"
  shows "cast_Record (types s) (type_of s a) = Some fs \<Longrightarrow> cast_Record (types t) (type_of t a) = Some fs"
    and "cast_Array (types s) (type_of s a) = Some b \<Longrightarrow> cast_Array (types t) (type_of t a) = Some b"
proof -
  show "cast_Record (types t) (type_of t a) = Some fs"
    if "cast_Record (types s) (type_of s a) = Some fs"
  proof (cases "type_of s a")
    case None
    with that show ?thesis by (simp add: cast_defs)
  next
    case (Some x)
    with that cast_ext(1) [OF assms] extendsD(2) [OF assms Some] show ?thesis by metis
  qed
  show "cast_Array (types t) (type_of t a) = Some b"
    if "cast_Array (types s) (type_of s a) = Some b"
  proof (cases "type_of s a")
    case None
    with that show ?thesis by (simp add: cast_defs)
  next
    case (Some x)
    with that cast_ext(2) [OF assms] extendsD(2) [OF assms Some] show ?thesis by metis
  qed
qed

lemma body_ok_ext:
  assumes e: "extends s t" and b: "body_ok s d"
  shows "body_ok t d"
proof (cases d)
  case (FunctionDec h n f r bd)
  show ?thesis
  proof (cases bd)
    case (Some x)
    from b obtain c g v u where "created_of s (adr h) = Some c"
      "cast_Function (types s) (Some c) = Some (g, v)" "type_of s (addr_of x) = Some u"
      "conforms (types s) u v"
      by (auto simp: body_ok_def FunctionDec Some)
    with extendsD [OF e] cast_ext(3) [OF e] conforms_ext [OF extendsD(1) [OF e]]
    show ?thesis by (auto simp: body_ok_def FunctionDec Some)
  qed (simp add: body_ok_def FunctionDec)
next
  case (TypeDec h n ty)
  from b obtain c where c: "created_of s (adr h) = Some c" "cast_Named (types s) (Some c) \<noteq> None"
    "is_NameTy ty \<or> (\<exists>n q. cast_Named (types s) (Some c) = Some (n, Some q) \<and>
       created_of s (addr_of ty) = Some q)"
    by (auto simp: body_ok_def TypeDec)
  with extendsD(3) [OF e] cast_ext(4) [OF e] store_ext_cast(4) [OF extendsD(1) [OF e]]
  show ?thesis unfolding body_ok_def TypeDec ast.case by meson
qed (use b in \<open>simp_all add: body_ok_def\<close>)

lemma seen_ext: "extends s t \<Longrightarrow> seen s e \<Longrightarrow> seen t e"
proof (induction e rule: measure_induct_rule [of size])
  case (less e)
  note ex = extendsD [OF less.prems(1)] body_ok_ext [OF less.prems(1)]
  have sub: "list_all (seen t) es" if "\<And>x. x \<in> set es \<Longrightarrow> size x < size e" "list_all (seen s) es" for es
    using that less by (simp add: list_all_iff)
  have one: "seen t x" if "size x < size e" "seen s x" for x
    using that less by blast
  have ty: "type_of t a \<noteq> None" if "type_of s a \<noteq> None" for a
    using that ex(2) by auto
  then have ini: "list_all (init_typed t) fs" if "list_all (init_typed s) fs" for fs
    using that unfolding init_typed_def list_all_iff by blast
  show ?case
  proof (cases "type_of s (addr_of e) \<noteq> None \<and> \<not> is_FunctionDec e \<and> \<not> is_TypeDec e")
    case True
    then show ?thesis using ty by (subst seen.simps) blast
  next
    case False
    have s: "case e of
        SimpleVar _ _ \<Rightarrow> True | CastExp _ _ _ \<Rightarrow> True | NameTy _ _ \<Rightarrow> True
      | SeqExp _ es \<Rightarrow> es \<noteq> [] \<and> list_all (seen s) es
      | LetExp _ cs b \<Rightarrow> seen s cs \<and> seen s b
      | VarDec _ _ tn init \<Rightarrow>
          (case init of None \<Rightarrow> tn \<noteq> None | Some i \<Rightarrow> tn = None \<and> seen s i)
      | ChunkList _ cs \<Rightarrow> list_all (seen s) cs
      | VarChunk _ ds \<Rightarrow> list_all (seen s) ds
      | FunctionChunk _ ds \<Rightarrow> list_all (seen s) ds
      | TypeChunk _ ds \<Rightarrow> list_all (seen s) ds
      | FunctionDec h _ _ _ _ \<Rightarrow> type_of s (adr h) \<noteq> None \<and> body_ok s e
      | TypeDec h _ _ \<Rightarrow> type_of s (adr h) \<noteq> None \<and> body_ok s e
      | RecordExp _ _ ins \<Rightarrow> list_all (init_typed s) ins
      | FieldInit _ _ i \<Rightarrow> seen s i
      | Field_node _ _ t \<Rightarrow> seen s t
      | _ \<Rightarrow> False"
      using less.prems(2) [unfolded seen.simps [of s e]] False by blast
    show ?thesis
    proof (cases e)
      case (SeqExp h es)
      with s sub [of es] show ?thesis
        by (simp add: seen.simps [of t] size_list_member_less)
    next
      case (RecordExp h n fs)
      with s ini show ?thesis by (simp add: seen.simps [of t])
    next
      case (LetExp h cs b)
      with s one [of cs] one [of b] show ?thesis by (simp add: seen.simps [of t])
    next
      case (VarDec h n tn i)
      with s one show ?thesis
        by (cases i) (simp_all add: seen.simps [of t])
    next
      case (ChunkList h cs)
      with s sub [of cs] show ?thesis
        by (simp add: seen.simps [of t] size_list_member_less)
    next
      case (VarChunk h cs)
      with s sub [of cs] show ?thesis
        by (simp add: seen.simps [of t] size_list_member_less)
    next
      case (FunctionChunk h cs)
      with s sub [of cs] show ?thesis
        by (simp add: seen.simps [of t] size_list_member_less)
    next
      case (TypeChunk h cs)
      with s sub [of cs] show ?thesis
        by (simp add: seen.simps [of t] size_list_member_less)
    next
      case (FunctionDec h n f r b)
      with s ex(4) ty show ?thesis by (auto simp: seen.simps [of t])
    next
      case (TypeDec h n b)
      with s ex(4) ty show ?thesis by (auto simp: seen.simps [of t])
    next
      case (FieldInit h n i)
      with s one [of i] show ?thesis by (simp add: seen.simps [of t])
    next
      case (Field_node h n i)
      with s one [of i] show ?thesis by (simp add: seen.simps [of t])
    qed (use s in \<open>simp_all add: seen.simps [of t]\<close>)
  qed
qed

lemma typed_as_ext:
  assumes e: "extends s t" and ty: "typed_as P s e x"
  shows "typed_as P t e x"
proof -
  note ex = extendsD [OF e] cast_ext [OF e] cast_type_ext [OF e] has_type_ext [OF e]
    accepts_type_ext [OF e] seen_ext [OF e]
  note cf = conforms_ext [OF extendsD(1) [OF e]]
  have l2: "list_all2 (field_of s) xs ys \<Longrightarrow> list_all2 (field_of t) xs ys"
    "list_all2 (formal_of s) xs ys \<Longrightarrow> list_all2 (formal_of t) xs ys"
    "list_all2 (init_of s) xs ys \<Longrightarrow> list_all2 (init_of t) xs ys"
    "list_all2 (arg_of s) xs ys \<Longrightarrow> list_all2 (arg_of t) xs ys" for xs ys
    using field_of_ext [OF e] formal_of_ext [OF e] init_of_ext [OF e] arg_of_ext [OF e]
    by (blast intro: list_all2_mono)+
  show ?thesis
  proof (cases e)
    case (RecordExp h n ins)
    with ty obtain d y fs where r: "type_of s (addr_of n) = Some x" "tc_def P (hdr n) = Inr (Some d)"
      "TypeDec_ty d = Inr y" "cast_Record (types s) (type_of s (addr_of y)) = Some fs"
      "length ins \<le> length fs" "list_all2 (init_of s) ins (take (length ins) fs)"
      by (auto simp: typed_as_def)
    with ex(2) [OF r(1)] ex(8) [OF r(4)] l2(3) [OF r(6)] show ?thesis
      unfolding typed_as_def RecordExp ast.case by blast
  next
    case (CallExp h n as)
    with ty obtain d c f fs where d: "tc_def P h = Inr (Some d)" "FunctionDec_created d s = Inr (Some c)"
      "cast_Function (types s) (Some c) = Some (f, x)"
      "cast_Record (types s) (Some f) = Some fs" "list_all2 (arg_of s) as fs"
      by (auto simp: typed_as_def)
    then have "FunctionDec_created d t = Inr (Some c)"
      using ex(3) by (auto simp: FunctionDec_created_def split: ast.splits)
    with d(1) ex(6) [OF d(3)] ex(4) [OF d(4)] l2(4) [OF d(5)] show ?thesis
      unfolding typed_as_def CallExp ast.case by blast
  next
    case (SeqExp h es)
    with ty ex(2) seen_ext [OF e] show ?thesis
      by (auto simp: typed_as_def list_all_iff split: if_splits)
  next
    case (VarDec h n tn i)
    show ?thesis
    proof (cases tn)
      case None
      with ty ex(2) VarDec show ?thesis by (auto simp: typed_as_def)
    next
      case (Some m)
      with ty VarDec have m: "type_of s (addr_of m) = Some x"
        "\<And>j. i = Some j \<Longrightarrow> \<exists>a. type_of s (addr_of j) = Some a \<and> conforms (types s) a x"
        by (auto simp: typed_as_def)
      have "\<exists>a. type_of t (addr_of j) = Some a \<and> conforms (types t) a x" if "i = Some j" for j
        using m(2) [OF that] ex(2) cf by blast
      with ex(2) [OF m(1)] Some VarDec show ?thesis by (simp add: typed_as_def)
    qed
  next
    case (RecordTy h fs)
    with ty obtain rs where r: "created_of s (adr h) = Some x"
      "cast_Record (types s) (Some x) = Some rs" "list_all2 (field_of s) fs rs"
      by (auto simp: typed_as_def)
    from ex(3) [OF r(1)] ex(4) [OF r(2)] l2(1) [OF r(3)] show ?thesis
      by (simp add: typed_as_def RecordTy)
  next
    case (FunctionDec h n f r b)
    with ty obtain g v rs where g: "created_of s (adr h) = Some x"
      "cast_Function (types s) (Some x) = Some (g, v)"
      "cast_Record (types s) (Some g) = Some rs" "list_all2 (formal_of s) (decs_get f) rs"
      "(case r of None \<Rightarrow> v = Void_instance | Some n \<Rightarrow> type_of s (addr_of n) = Some v)"
      by (auto simp: typed_as_def)
    have "(case r of None \<Rightarrow> v = Void_instance | Some n \<Rightarrow> type_of t (addr_of n) = Some v)"
      using g(5) ex(2) by (cases r) simp_all
    with ex(3) [OF g(1)] ex(6) [OF g(2)] ex(4) [OF g(3)] l2(2) [OF g(4)] show ?thesis
      by (simp add: typed_as_def FunctionDec)
  next
    case (OpExp h l oper r)
    with ty ex(10,11) show ?thesis
      by (auto simp: typed_as_def split: if_splits)
  next
    case (FieldVar h v n)
    with ty ex(8) show ?thesis by (auto simp: typed_as_def)
  next
    case (SubscriptVar h v n)
    with ty ex(9,10) show ?thesis by (auto simp: typed_as_def)
  next
    case (SimpleVar h n)
    with ty ex(2) show ?thesis by (auto simp: typed_as_def)
  next
    case (ArrayExp h n sz init)
    with ty ex(2,11) cf show ?thesis by (auto simp: typed_as_def)
  next
    case (NameTy h n)
    with ty ex(3) show ?thesis by (auto simp: typed_as_def split: if_splits)
  next
    case (ArrayTy h b)
    with ty ex(2,3,5) show ?thesis by (auto simp: typed_as_def)
  next
    case (TypeDec h n b)
    with ty ex(3,7) show ?thesis by (auto simp: typed_as_def)
  qed (use ty ex(2,10-12) in \<open>simp_all add: typed_as_def\<close>)
qed

text \<open>The rules are deterministic.\<close>

lemma typed_as_unique: "typed_as P s e x \<Longrightarrow> typed_as P s e y \<Longrightarrow> x = y"
  by (cases e) (auto simp: typed_as_def split: if_splits option.splits)

end
