(* ===== verification/Type_Sound.thy ===== *)
theory Type_Sound
  imports Type_Rules
begin

text \<open>
  The checker is sound: when it accepts a program, every node it typed obeys its typing rule and
  the whole program was checked.  Each method of the visitor keeps the invariant and extends the
  annotations (\<open>grows\<close>), which is shown by induction on the fuel.
\<close>

section \<open>The invariant\<close>

definition plain_formal :: "ast \<Rightarrow> bool" where
  "plain_formal d = (case d of
     VarDec _ _ tn init \<Rightarrow> (case tn of Some n \<Rightarrow> is_NameTy n | None \<Rightarrow> False) \<and> init = None
   | _ \<Rightarrow> False)"

text \<open>
  The trees the parser builds for programs without objects: nodes at different addresses, members of
  their static types, formals with a type name and no initial value.
\<close>

definition tc_program :: "tc_env \<Rightarrow> bool" where
  "tc_program P \<longleftrightarrow> distinct_nodes (tc_root P) \<and>
     (\<forall>e \<in> set (nodes (tc_root P)). \<not> is_object_node e \<and> wf_node e \<and>
        (case e of FunctionDec _ _ f _ _ \<Rightarrow> list_all plain_formal (decs_get f) | _ \<Rightarrow> True))"

lemma tc_programD:
  assumes "tc_program P" and "e \<in> set (nodes (tc_root P))"
  shows "\<not> is_object_node e" and "wf_node e"
    and "e = FunctionDec h n f r b \<Longrightarrow> list_all plain_formal (decs_get f)"
  using assms by (auto simp: tc_program_def)

text \<open>
  Programs without casts, whose uses are bound to declarations of the right kind: in them, no
  expression has a record or an array for type, only a name for one.
\<close>

definition plain_program :: "tc_env \<Rightarrow> bool" where
  "plain_program P \<longleftrightarrow> (\<forall>e \<in> set (nodes (tc_root P)). case e of
       CastExp _ _ _ \<Rightarrow> False
     | SimpleVar h _ \<Rightarrow> \<forall>d. tc_def P h = Inr (Some d) \<longrightarrow> is_VarDec d
     | NameTy h _ \<Rightarrow> \<forall>d. tc_defs P (adr h) = Some d \<longrightarrow>
         (\<exists>k n ty. TypeDec k n ty \<in> set (nodes (tc_root P)) \<and> adr k = d)
     | _ \<Rightarrow> True)"

definition is_struct :: "ty_store \<Rightarrow> addr \<Rightarrow> bool" where
  "is_struct ts a \<longleftrightarrow> cast_Record ts (Some a) \<noteq> None \<or> cast_Array ts (Some a) \<noteq> None"

definition unstructured :: "tc_env \<Rightarrow> tc_state \<Rightarrow> bool" where
  "unstructured P s \<longleftrightarrow> (plain_program P \<longrightarrow>
     4 \<le> length (types s) \<and> take 4 (types s) = types_new \<and>
     (\<forall>e \<in> set (nodes (tc_root P)). \<forall>t. type_of s (addr_of e) = Some t \<longrightarrow>
        is_Exp e \<or> is_VarDec e \<or> is_NameTy e \<longrightarrow>
        t < length (types s) \<and> \<not> is_struct (types s) t))"

definition tc_inv :: "tc_env \<Rightarrow> tc_state \<Rightarrow> bool" where
  "tc_inv P s \<longleftrightarrow> unstructured P s \<and>
     (\<forall>e \<in> set (nodes (tc_root P)). \<forall>t. type_of s (addr_of e) = Some t \<longrightarrow> typed_as P s e t) \<and>
     (\<forall>a c. created_of s a = Some c \<longrightarrow> type_of s a \<noteq> None \<and> c < length (types s)) \<and>
     (\<forall>a b c. created_of s a = Some c \<longrightarrow> created_of s b = Some c \<longrightarrow> a = b) \<and>
     (\<forall>c n q. c < length (types s) \<longrightarrow> types s ! c = Named_ty n (Some q) \<longrightarrow>
        (\<exists>h m ty. TypeDec h m ty \<in> set (nodes (tc_root P)) \<and> created_of s (adr h) = Some c \<and>
           created_of s (addr_of ty) = Some q))"

lemma tc_invD:
  assumes "tc_inv P s"
  shows "e \<in> set (nodes (tc_root P)) \<Longrightarrow> type_of s (addr_of e) = Some t \<Longrightarrow> typed_as P s e t"
    and "created_of s a = Some c \<Longrightarrow> type_of s a \<noteq> None"
    and "created_of s a = Some c \<Longrightarrow> c < length (types s)"
    and "created_of s a = Some c \<Longrightarrow> created_of s b = Some c \<Longrightarrow> a = b"
    and "c < length (types s) \<Longrightarrow> types s ! c = Named_ty n (Some q) \<Longrightarrow>
      \<exists>h m ty. TypeDec h m ty \<in> set (nodes (tc_root P)) \<and> created_of s (adr h) = Some c \<and>
        created_of s (addr_of ty) = Some q"
    and "unstructured P s"
  using assms by (simp_all add: tc_inv_def)

lemma unstructuredD:
  assumes "unstructured P s" and "plain_program P"
  shows "4 \<le> length (types s)" and "take 4 (types s) = types_new"
    and "e \<in> set (nodes (tc_root P)) \<Longrightarrow> type_of s (addr_of e) = Some t \<Longrightarrow>
      is_Exp e \<or> is_VarDec e \<or> is_NameTy e \<Longrightarrow> t < length (types s) \<and> \<not> is_struct (types s) t"
  using assms unfolding unstructured_def by blast+

lemma is_struct_ext: "store_ext ts us \<Longrightarrow> t < length ts \<Longrightarrow> is_struct us t = is_struct ts t"
  by (auto simp: store_ext_def is_struct_def cast_defs split: ty_obj.splits)

lemma base_ext:
  assumes "store_ext ts us" and "4 \<le> length ts" and "take 4 ts = types_new"
  shows "4 \<le> length us \<and> take 4 us = types_new"
proof
  show "4 \<le> length us" using assms(1,2) by (simp add: store_ext_def)
  have "us ! i = ts ! i" if i: "i < 4" for i
  proof -
    have "ts ! i = types_new ! i" using assms(3) i by (metis nth_take)
    moreover have "types_new ! i \<noteq> Named_ty n p" for n p
      using i by (auto simp: types_new_def less_Suc_eq numeral_eq_Suc)
    ultimately show ?thesis using assms(1,2) i unfolding store_ext_def
      by (metis order_less_le_trans)
  qed
  then show "take 4 us = types_new"
    using assms \<open>4 \<le> length us\<close> by (metis nth_take_lemma)
qed

lemma unstructured_ext:
  assumes u: "unstructured P s" and e: "extends s t"
    and new: "\<And>e x. plain_program P \<Longrightarrow> e \<in> set (nodes (tc_root P)) \<Longrightarrow>
      is_Exp e \<or> is_VarDec e \<or> is_NameTy e \<Longrightarrow> type_of t (addr_of e) = Some x \<Longrightarrow>
      type_of s (addr_of e) = Some x \<or> x < length (types t) \<and> \<not> is_struct (types t) x"
  shows "unstructured P t"
  unfolding unstructured_def
proof (intro impI conjI ballI allI)
  assume p: "plain_program P"
  note u = unstructuredD [OF u p] and se = extendsD(1) [OF e]
  from base_ext [OF se u(1,2)] show "4 \<le> length (types t)" "take 4 (types t) = types_new" by auto
  fix e x assume x: "e \<in> set (nodes (tc_root P))" "type_of t (addr_of e) = Some x"
    and k: "is_Exp e \<or> is_VarDec e \<or> is_NameTy e"
  have "x < length (types t) \<and> \<not> is_struct (types t) x" if "type_of s (addr_of e) = Some x"
    using u(3) [OF x(1) that k] is_struct_ext [OF se, of x] se by (auto simp: store_ext_def)
  with new [OF p x(1) k x(2)] show "x < length (types t)" "\<not> is_struct (types t) x" by auto
qed

lemma unstructured_same:
  "unstructured P s \<Longrightarrow> extends s t \<Longrightarrow> type_of t = type_of s \<Longrightarrow> unstructured P t"
  by (rule unstructured_ext) auto

text \<open>A type that obeys a rule is not a record nor an array.\<close>

lemma nth_base:
  "take 4 ts = types_new \<Longrightarrow> k < 4 \<Longrightarrow> ts ! k = types_new ! k"
  by (metis nth_take)

lemma instance_unstructured:
  assumes "4 \<le> length ts" and "take 4 ts = types_new" and "k < 4"
  shows "k < length ts \<and> \<not> is_struct ts k"
  using nth_base [OF assms(2,3)] assms(1,3)
  by (auto simp: types_new_def less_Suc_eq numeral_eq_Suc is_struct_def cast_defs)

definition ok :: "tc_state \<Rightarrow> bool" where
  "ok s \<longleftrightarrow> status (t_error s) = err_success"

definition grows :: "tc_env \<Rightarrow> tc_state \<Rightarrow> tc_state \<Rightarrow> bool" where
  "grows P s t \<longleftrightarrow> (ok t \<longrightarrow> ok s \<and> (tc_inv P s \<longrightarrow> tc_inv P t \<and> extends s t))"

definition good :: "tc_env \<Rightarrow> ast \<Rightarrow> tc_state \<Rightarrow> tc_state \<Rightarrow> bool" where
  "good P e s t \<longleftrightarrow> grows P s t \<and> (ok t \<and> tc_inv P s \<longrightarrow> seen t e)"

definition visit_ok :: "tc_env \<Rightarrow> tc_state visit \<Rightarrow> bool" where
  "visit_ok P visit \<longleftrightarrow>
     (\<forall>e \<in> set (nodes (tc_root P)). \<forall>s t. visit e s = Inr t \<longrightarrow> good P e s t)"

lemma grows_refl [simp]: "grows P s s"
  by (simp add: grows_def)

lemma grows_trans: "grows P s t \<Longrightarrow> grows P t u \<Longrightarrow> grows P s u"
  unfolding grows_def using extends_trans by blast

lemma growsD:
  assumes "grows P s t" and "ok t"
  shows "ok s" and "tc_inv P s \<Longrightarrow> tc_inv P t" and "tc_inv P s \<Longrightarrow> extends s t"
  using assms by (auto simp: grows_def)

lemma grows_refused [simp]: "\<not> ok t \<Longrightarrow> grows P s t"
  by (simp add: grows_def)

lemma status_type_not_success [simp]: "status (error_status err_type e) \<noteq> err_success"
  by (auto simp: error_status_def Let_def error_code_def split: error_type.splits)

lemma ok_simps [simp]:
  "ok (type_set h t s) = ok s" "ok (created_type_set h t s) = ok s"
  "ok (type_default h t s) = ok s" "ok (created_type_default h t s) = ok s"
  "ok (s\<lparr>types := ts\<rparr>) = ok s" "ok (s\<lparr>var_read_only := A\<rparr>) = ok s"
  "\<not> ok (tc_error P h msg s)" "\<not> ok (tc_error_exp P h msg x s)"
  "\<not> ok (error_and_recover P h msg x s)"
  by (simp_all add: ok_def type_set_def created_type_set_def type_default_def
      created_type_default_def tc_error_def tc_error_exp_def error_and_recover_def)

lemma type_mismatch_not_ok: "type_mismatch P h x a y b s = Inr t \<Longrightarrow> \<not> ok t"
  by (auto simp: type_mismatch_def ok_def bindE_eq_Inr Let_def dest!: error_decendl_status)

lemma read_only_inv [simp]:
  "tc_inv P (s\<lparr>var_read_only := A\<rparr>) = tc_inv P s" "extends s (s\<lparr>var_read_only := A\<rparr>)"
proof -
  let ?t = "s\<lparr>var_read_only := A\<rparr>"
  have e: "extends s ?t" "extends ?t s" by (simp_all add: extends_def)
  then have "typed_as P ?t e x = typed_as P s e x" for e x
    using typed_as_ext by blast
  moreover have "unstructured P ?t = unstructured P s" by (simp add: unstructured_def)
  ultimately show "tc_inv P ?t = tc_inv P s" by (simp add: tc_inv_def)
  show "extends s ?t" by (rule e)
qed

lemma grows_read_only [simp]: "grows P s (s\<lparr>var_read_only := A\<rparr>)"
  by (simp add: grows_def)

section \<open>Setting a type, allocating a type\<close>

lemma child_node: "e \<in> set (nodes (tc_root P)) \<Longrightarrow> c \<in> set (accepts e) \<Longrightarrow> c \<in> set (nodes (tc_root P))"
  by (rule nodes_closed)

lemma typed_unstructured:
  assumes "tc_program P" and i: "tc_inv P u" and plain: "plain_program P"
    and e: "e \<in> set (nodes (tc_root P))" and k: "is_Exp e \<or> is_VarDec e \<or> is_NameTy e"
    and ty: "typed_as P u e x"
  shows "x < length (types u) \<and> \<not> is_struct (types u) x"
proof -
  note un = unstructuredD [OF tc_invD(6) [OF i] plain]
  note wf = tc_programD(2) [OF assms(1) e]
  note base = instance_unstructured [OF un(1,2)]
  have p: "case e of CastExp _ _ _ \<Rightarrow> False
     | SimpleVar h _ \<Rightarrow> \<forall>d. tc_def P h = Inr (Some d) \<longrightarrow> is_VarDec d
     | NameTy h _ \<Rightarrow> \<forall>d. tc_defs P (adr h) = Some d \<longrightarrow>
         (\<exists>k n ty. TypeDec k n ty \<in> set (nodes (tc_root P)) \<and> adr k = d)
     | _ \<Rightarrow> True"
    using plain e unfolding plain_program_def by blast
  have child: "x < length (types u) \<and> \<not> is_struct (types u) x"
    if "c \<in> set (accepts e)" "is_Exp c \<or> is_VarDec c \<or> is_NameTy c" "type_of u (addr_of c) = Some x" for c x
    using un(3) [OF child_node [OF e that(1)] that(3,2)] .
  show ?thesis
  proof (cases e)
    case (SimpleVar h n)
    with ty p obtain d where "tc_def P h = Inr (Some d)" "type_of u (addr_of d) = Some x" "is_VarDec d"
      by (auto simp: typed_as_def)
    then show ?thesis using un(3) [of d] unfolding tc_def_def def_get_def
      by (auto split: option.splits dest: node_at_Some)
  next
    case (FieldVar h v n)
    with ty obtain fs where "cast_Record (types u) (type_of u (addr_of v)) = Some fs"
      by (auto simp: typed_as_def)
    then obtain a where a: "type_of u (addr_of v) = Some a" "is_struct (types u) a"
      by (cases "type_of u (addr_of v)") (auto simp: is_struct_def cast_Record_def)
    with child [of v a] wf FieldVar show ?thesis
      by (cases v) (auto simp: accepts_defs wf_node_def is_class_defs)
  next
    case (SubscriptVar h v n)
    with ty have "cast_Array (types u) (type_of u (addr_of v)) = Some x"
      by (auto simp: typed_as_def)
    then obtain a where a: "type_of u (addr_of v) = Some a" "is_struct (types u) a"
      by (cases "type_of u (addr_of v)") (auto simp: is_struct_def cast_Array_def)
    with child [of v a] wf SubscriptVar show ?thesis
      by (cases v) (auto simp: accepts_defs wf_node_def is_class_defs)
  next
    case (CallExp h n as)
    with ty obtain d c f where d: "tc_def P h = Inr (Some d)" "FunctionDec_created d u = Inr (Some c)"
      "cast_Function (types u) (Some c) = Some (f, x)"
      by (auto simp: typed_as_def)
    from d(1) have dn: "d \<in> set (nodes (tc_root P))"
      unfolding tc_def_def def_get_def by (auto split: option.splits dest: node_at_Some)
    from d(2) obtain g m fm r b where f: "d = FunctionDec g m fm r b" "created_of u (adr g) = Some c"
      by (auto simp: FunctionDec_created_def split: ast.splits)
    from tc_invD(2) [OF i f(2)] obtain y where "type_of u (addr_of d) = Some y"
      by (auto simp: f(1) addr_of_def)
    from tc_invD(1) [OF i dn this] f d(3)
    have r: "case r of None \<Rightarrow> x = Void_instance | Some n \<Rightarrow> type_of u (addr_of n) = Some x"
      by (auto simp: typed_as_def)
    show ?thesis
    proof (cases r)
      case None
      with r base [of Void_instance] show ?thesis by (simp add: Void_instance_def)
    next
      case (Some k)
      have "k \<in> set (nodes (tc_root P))" by (rule child_node [OF dn]) (simp add: f(1) accepts_defs Some)
      moreover have "is_NameTy k" using tc_programD(2) [OF assms(1) dn] by (simp add: f(1) wf_node_def Some)
      ultimately show ?thesis using un(3) [of k] r Some by simp
    qed
  next
    case (SeqExp h es)
    show ?thesis
    proof (cases "es = []")
      case True
      with ty SeqExp base [of Void_instance] show ?thesis by (simp add: typed_as_def Void_instance_def)
    next
      case False
      with ty SeqExp wf child [of "last es"] show ?thesis
        by (simp add: typed_as_def accepts_defs wf_node_def list_all_iff)
    qed
  next
    case (VarDec h n tn j)
    with ty wf child show ?thesis
      by (cases tn) (auto simp: typed_as_def accepts_defs wf_node_def)
  next
    case (NameTy h n)
    show ?thesis
    proof (cases "n = ''int'' \<or> n = ''string''")
      case True
      with ty NameTy base [of 0] base [of 2] show ?thesis
        by (auto simp: typed_as_def Int_instance_def String_instance_def split: if_splits)
    next
      case False
      with ty NameTy p obtain k m y where t: "TypeDec k m y \<in> set (nodes (tc_root P))"
        "created_of u (adr k) = Some x"
        by (auto simp: typed_as_def)
      from tc_invD(2) [OF i t(2)] obtain z where "type_of u (addr_of (TypeDec k m y)) = Some z"
        by (auto simp: addr_of_def)
      from tc_invD(1) [OF i t(1) this] t(2) have "cast_Named (types u) (Some x) \<noteq> None"
        by (simp add: typed_as_def)
      then show ?thesis by (auto simp: is_struct_def cast_defs split: if_splits ty_obj.splits)
    qed
  next
    case (RecordExp h n ins)
    with ty wf child [of n] show ?thesis by (simp add: typed_as_def accepts_defs wf_node_def)
  next
    case (ArrayExp h n sz j)
    with ty wf child [of n] show ?thesis by (simp add: typed_as_def accepts_defs wf_node_def)
  next
    case (IfExp h c a b)
    with ty wf child [of a] show ?thesis by (simp add: typed_as_def accepts_defs wf_node_def)
  next
    case (LetExp h c b)
    with ty wf child [of b] show ?thesis by (simp add: typed_as_def accepts_defs wf_node_def)
  qed (use ty k p base [of 0] base [of 1] base [of 2] base [of 3] in
      \<open>auto simp: typed_as_def is_class_defs instance_defs\<close>)
qed

lemma addr_of_node:
  "addr_of (ArrayTy h b) = adr h" "addr_of (RecordTy h fs) = adr h"
  "addr_of (TypeDec h n ty) = adr h" "addr_of (FunctionDec h n f r c) = adr h"
  by (simp_all add: addr_of_def)

lemma addr_of_hdr [simp]: "adr (hdr e) = addr_of e"
  by (simp add: addr_of_def)

lemma distinct_nodes_eq:
  "distinct_nodes root \<Longrightarrow> e \<in> set (nodes root) \<Longrightarrow> f \<in> set (nodes root) \<Longrightarrow>
    addr_of e = addr_of f \<Longrightarrow> e = f"
  unfolding distinct_nodes_def by (metis distinct_map inj_on_eq_iff)

lemma type_set_inv:
  assumes "tc_program P" and e: "e \<in> set (nodes (tc_root P))" and i: "tc_inv P u"
    and t: "\<And>x. t = Some x \<Longrightarrow> typed_as P u e x"
    and n: "t = None \<Longrightarrow> type_of u (addr_of e) = None"
  shows "tc_inv P (type_set (hdr e) t u) \<and> extends u (type_set (hdr e) t u)"
proof -
  let ?v = "type_set (hdr e) t u"
  have ext: "extends u ?v"
    unfolding extends_def
  proof (intro conjI allI impI)
    fix a x assume a: "type_of u a = Some x"
    show "type_of ?v a = Some x"
    proof (cases "a = addr_of e")
      case True
      with a n obtain y where y: "t = Some y" by (cases t) auto
      from typed_as_unique [OF t [OF y]] tc_invD(1) [OF i e] a True have "x = y" by blast
      with y True show ?thesis by (simp add: type_set_def)
    qed (use a in \<open>simp add: type_set_def\<close>)
  qed (simp_all add: type_set_def)
  have d: "distinct_nodes (tc_root P)" using assms(1) by (simp add: tc_program_def)
  have "typed_as P ?v f x" if f: "f \<in> set (nodes (tc_root P))" "type_of ?v (addr_of f) = Some x" for f x
  proof (cases "addr_of f = addr_of e")
    case True
    with distinct_nodes_eq [OF d f(1) e] f(2) have "f = e" "t = Some x"
      by (auto simp: type_set_def)
    with typed_as_ext [OF ext t] show ?thesis by blast
  next
    case False
    with f tc_invD(1) [OF i] have "typed_as P u f x" by (simp add: type_set_def)
    with typed_as_ext [OF ext] show ?thesis by blast
  qed
  moreover have "type_of ?v a \<noteq> None" if "created_of ?v a = Some c" for a c
  proof -
    have "created_of u a = Some c" using that by (simp add: type_set_def)
    from tc_invD(2) [OF i this] obtain x where "type_of u a = Some x" by blast
    from extendsD(2) [OF ext this] show ?thesis by simp
  qed
  moreover have "unstructured P ?v"
  proof (rule unstructured_ext [OF tc_invD(6) [OF i] ext])
    fix f x assume p: "plain_program P" and f: "f \<in> set (nodes (tc_root P))"
      and k: "is_Exp f \<or> is_VarDec f \<or> is_NameTy f" and x: "type_of ?v (addr_of f) = Some x"
    show "type_of u (addr_of f) = Some x \<or> x < length (types ?v) \<and> \<not> is_struct (types ?v) x"
    proof (cases "addr_of f = addr_of e")
      case True
      with distinct_nodes_eq [OF d f e] x have "f = e" "t = Some x" by (auto simp: type_set_def)
      with typed_unstructured [OF assms(1) i p e _ t] k show ?thesis by (simp add: type_set_def)
    qed (use x in \<open>simp add: type_set_def\<close>)
  qed
  ultimately have "tc_inv P ?v"
    using i by (simp add: tc_inv_def) (simp add: type_set_def)
  with ext show ?thesis by blast
qed

lemma grows_type_set:
  assumes "tc_program P" and e: "e \<in> set (nodes (tc_root P))" and g: "grows P s u"
    and t: "\<And>x. ok u \<Longrightarrow> tc_inv P s \<Longrightarrow> tc_inv P u \<Longrightarrow> typed_as P u e x \<longleftrightarrow> t = Some x"
  shows "grows P s (type_set (hdr e) t u)"
  unfolding grows_def
proof (intro impI)
  assume "ok (type_set (hdr e) t u)"
  then have "ok u" by simp
  note g = growsD [OF g this]
  have "tc_inv P (type_set (hdr e) t u) \<and> extends u (type_set (hdr e) t u)" if i: "tc_inv P s"
  proof (rule type_set_inv [OF assms(1) e g(2) [OF i]])
    note iff = t [OF \<open>ok u\<close> i g(2) [OF i]]
    show "typed_as P u e x" if "t = Some x" for x using iff that by simp
    show "type_of u (addr_of e) = None" if "t = None"
      using iff that tc_invD(1) [OF g(2) [OF i] e] by (cases "type_of u (addr_of e)") auto
  qed
  with g extends_trans
  show "ok s \<and> (tc_inv P s \<longrightarrow> tc_inv P (type_set (hdr e) t u) \<and> extends s (type_set (hdr e) t u))"
    by blast
qed

lemma seen_typed:
  "type_of s (addr_of e) \<noteq> None \<Longrightarrow> \<not> is_FunctionDec e \<Longrightarrow> \<not> is_TypeDec e \<Longrightarrow> seen s e"
  by (subst seen.simps) blast

lemma type_of_type_set [simp]: "type_of (type_set (hdr e) t u) (addr_of e) = t"
  by (simp add: type_set_def)

text \<open>The end of most methods: the type is set to one that obeys the rule.\<close>

lemma good_type_set:
  assumes "tc_program P" and "e \<in> set (nodes (tc_root P))" and "grows P s u"
    and "\<not> is_FunctionDec e" "\<not> is_TypeDec e" and "h = hdr e"
    and "ok u \<Longrightarrow> tc_inv P s \<Longrightarrow> tc_inv P u \<Longrightarrow> typed_as P u e x"
  shows "good P e s (type_set h (Some x) u)"
  unfolding good_def \<open>h = hdr e\<close>
proof (intro conjI impI)
  show "grows P s (type_set (hdr e) (Some x) u)"
    by (rule grows_type_set [OF assms(1-3)]) (use assms(7) typed_as_unique in blast)
  show "seen (type_set (hdr e) (Some x) u) e"
    by (rule seen_typed) (use assms(4,5) in simp_all)
qed

lemma alloc_inv:
  assumes i: "tc_inv P u" and X: "\<And>n q. X \<noteq> Named_ty n (Some q)"
  shows "tc_inv P (u\<lparr>types := types u @ [X]\<rparr>) \<and> extends u (u\<lparr>types := types u @ [X]\<rparr>)"
proof -
  let ?v = "u\<lparr>types := types u @ [X]\<rparr>"
  have ext: "extends u ?v" by (simp add: extends_def)
  have "\<exists>h m ty. TypeDec h m ty \<in> set (nodes (tc_root P)) \<and> created_of u (adr h) = Some c \<and>
      created_of u (addr_of ty) = Some q"
    if "c < length (types ?v)" "types ?v ! c = Named_ty n (Some q)" for c n q
    using that X tc_invD(5) [OF i, of c n q] by (auto simp: nth_append less_Suc_eq split: if_splits)
  moreover have "unstructured P ?v" by (rule unstructured_same [OF tc_invD(6) [OF i] ext]) simp
  ultimately have "tc_inv P ?v"
    using i typed_as_ext [OF ext] unfolding tc_inv_def by (auto simp: less_SucI)
  with ext show ?thesis by blast
qed

text \<open>The type that a node creates, once its parts have their types.\<close>

lemma created_inv:
  assumes "tc_program P" and e: "e \<in> set (nodes (tc_root P))" and i: "tc_inv P u"
    and X: "\<And>n q. X \<noteq> Named_ty n (Some q)"
    and v: "v = u\<lparr>types := types u @ [X]\<rparr>"
    and ne: "\<not> is_Exp e" "\<not> is_VarDec e" "\<not> is_NameTy e"
    and c: "\<And>x. typed_as P u e x \<Longrightarrow> created_of u (addr_of e) = Some x"
    and t: "typed_as P (created_type_set (hdr e) (Some (length (types u))) v) e (length (types u))"
  shows "tc_inv P (created_type_default (hdr e) (Some (length (types u))) v) \<and>
    extends u (created_type_default (hdr e) (Some (length (types u))) v)"
proof (cases "created_of u (addr_of e)")
  case (Some x)
  with tc_invD(2) [OF i Some]
  have "created_type_default (hdr e) (Some (length (types u))) v = v"
    by (auto simp: created_type_default_def type_default_def v)
  with alloc_inv [OF i X] v show ?thesis by simp
next
  case None
  let ?a = "length (types u)"
  let ?w = "created_type_set (hdr e) (Some ?a) v"
  have n: "type_of u (addr_of e) = None" using None c tc_invD(1) [OF i e] by fastforce
  then have w: "created_type_default (hdr e) (Some ?a) v = type_set (hdr e) (Some ?a) ?w"
    using None by (simp add: created_type_default_def type_default_def v created_type_set_def)
  let ?z = "type_set (hdr e) (Some ?a) ?w"
  have uz: "extends u ?z" and wz: "extends ?w ?z"
    using None n by (simp_all add: extends_def v created_type_set_def type_set_def)
  have d: "distinct_nodes (tc_root P)" using assms(1) by (simp add: tc_program_def)
  have "typed_as P ?z f x" if f: "f \<in> set (nodes (tc_root P))" "type_of ?z (addr_of f) = Some x" for f x
  proof (cases "addr_of f = addr_of e")
    case True
    with distinct_nodes_eq [OF d f(1) e] f(2) have "f = e" "x = ?a"
      by (auto simp: type_set_def)
    with typed_as_ext [OF wz t] show ?thesis by blast
  next
    case False
    with f tc_invD(1) [OF i] have "typed_as P u f x"
      by (simp add: type_set_def created_type_set_def v)
    with typed_as_ext [OF uz] show ?thesis by blast
  qed
  moreover have "type_of ?z a \<noteq> None \<and> x < length (types ?z)" if "created_of ?z a = Some x" for a x
    using that tc_invD(2,3) [OF i, of a x] extendsD(2) [OF uz, of a]
    by (auto simp: type_set_def created_type_set_def v less_SucI split: if_splits)
  moreover have "a = b" if "created_of ?z a = Some x" "created_of ?z b = Some x" for a b x
    using that tc_invD(3,4) [OF i]
    by (auto simp: type_set_def created_type_set_def v split: if_splits)
  moreover have "\<exists>h m ty. TypeDec h m ty \<in> set (nodes (tc_root P)) \<and>
      created_of ?z (adr h) = Some x \<and> created_of ?z (addr_of ty) = Some q"
    if x: "x < length (types ?z)" "types ?z ! x = Named_ty m (Some q)" for x m q
  proof -
    have "x < length (types u)" "types u ! x = Named_ty m (Some q)"
      using x X by (auto simp: type_set_def created_type_set_def v nth_append less_Suc_eq split: if_splits)
    from tc_invD(5) [OF i this] extendsD(3) [OF uz] show ?thesis by blast
  qed
  moreover have "unstructured P ?z"
  proof (rule unstructured_ext [OF tc_invD(6) [OF i] uz])
    fix f x assume f: "f \<in> set (nodes (tc_root P))" "is_Exp f \<or> is_VarDec f \<or> is_NameTy f"
      and x: "type_of ?z (addr_of f) = Some x"
    from distinct_nodes_eq [OF d f(1) e] f(2) ne have "addr_of f \<noteq> addr_of e" by auto
    with x show "type_of u (addr_of f) = Some x \<or> x < length (types ?z) \<and> \<not> is_struct (types ?z) x"
      by (simp add: type_set_def created_type_set_def v)
  qed
  ultimately have "tc_inv P ?z" unfolding tc_inv_def by blast
  with uz w show ?thesis by simp
qed

section \<open>The steps of the methods\<close>

lemma seen_accepts:
  "e \<in> set (nodes (tc_root P)) \<Longrightarrow> c \<in> set (accepts e) \<Longrightarrow> c \<in> set (nodes (tc_root P))"
  by (rule nodes_closed)

lemma tc_type_ok:
  assumes V: "visit_ok P visit" and c: "c \<in> set (nodes (tc_root P))"
    and run: "tc_type visit c s = Inr (x, t)"
  shows "grows P s t" and "x = type_of t (addr_of c)"
    and "ok t \<Longrightarrow> tc_inv P s \<Longrightarrow> x = None \<Longrightarrow> seen t c"
proof -
  from run have x: "x = type_of t (addr_of c)"
    and r: "type_of s (addr_of c) = None \<and> visit c s = Inr t \<or> type_of s (addr_of c) \<noteq> None \<and> t = s"
    by (auto simp: tc_type_def bindE_eq_Inr split: if_splits)
  then have g: "type_of s (addr_of c) = None \<and> good P c s t \<or> type_of s (addr_of c) \<noteq> None \<and> t = s"
    using V c unfolding visit_ok_def by blast
  show "x = type_of t (addr_of c)" by (rule x)
  show "grows P s t" using g by (auto simp: good_def)
  show "seen t c" if "ok t" "tc_inv P s" "x = None" using g x that by (auto simp: good_def)
qed

lemma tc_type_ref_ok:
  assumes "visit_ok P visit" and "c \<in> set (nodes (tc_root P))"
    and "tc_type_ref visit c s = Inr (a, t)"
  shows "grows P s t" and "type_of t (addr_of c) = Some a"
proof -
  from assms(3) have "tc_type visit c s = Inr (Some a, t)"
    by (auto simp: tc_type_ref_def bindE_eq_Inr deref_ty_def split: option.splits)
  from tc_type_ok [OF assms(1,2) this] show "grows P s t" "type_of t (addr_of c) = Some a" by simp_all
qed

lemma check_types_ok:
  assumes "check_types P h x a y b s = Inr t"
  shows "grows P s t" and "ok t \<Longrightarrow> t = s \<and> conforms (types s) a b"
proof -
  from assms have "t = s \<and> conforms (types s) a b \<or> \<not> ok t"
    by (auto simp: check_types_def bindE_eq_Inr conforms_def split: if_splits
        dest: type_mismatch_not_ok)
  then show "grows P s t" "ok t \<Longrightarrow> t = s \<and> conforms (types s) a b" by auto
qed

lemma check_type_ok:
  assumes "visit_ok P visit" and "c \<in> set (nodes (tc_root P))"
    and run: "check_type P visit c msg k s = Inr t"
  shows "grows P s t" and "ok t \<Longrightarrow> has_type t c k"
proof -
  from run obtain a u x ne where u: "tc_type visit c s = Inr (Some a, u)" "actual (types u) a = Inr x"
    "ty_neq (types u) x k = Inr ne"
    "(if ne then bindE (tc_print P x u) (\<lambda>y. Inr (error_and_recover P (hdr c) msg y u))
      else Inr u) = Inr t"
    by (auto simp: check_type_def bindE_eq_Inr deref_ty_def split: option.splits)
  then have u3: "t = u \<and> ty_neq (types u) x k = Inr False \<or> \<not> ok t"
    by (cases ne) (auto simp: bindE_eq_Inr)
  note c = tc_type_ok [OF assms(1,2) u(1)]
  from c(1) u3 show "grows P s t" by auto
  assume "ok t"
  with u3 have t: "t = u" "ty_neq (types u) x k = Inr False" by auto
  then have "ty_eq (types u) a k = Inr True"
    using u(2) actual_idem [OF u(2)] by (auto simp: ty_neq_def ty_eq_def bindE_eq_Inr)
  with c(2) [symmetric] t(1) show "has_type t c k" by (simp add: has_type_def)
qed

lemma check_two_ok:
  assumes "visit_ok P visit" and "e1 \<in> set (nodes (tc_root P))" and "e2 \<in> set (nodes (tc_root P))"
    and run: "check_two P visit h x e1 y e2 s = Inr t"
  shows "grows P s t" and "ok t \<Longrightarrow> tc_inv P s \<Longrightarrow> accepts_type t e1 e2"
proof -
  from run obtain a u b v where u: "tc_type_ref visit e1 s = Inr (a, u)"
    "tc_type_ref visit e2 u = Inr (b, v)" "check_types P h x a y b v = Inr t"
    by (auto simp: check_two_def bindE_eq_Inr)
  note e1 = tc_type_ref_ok [OF assms(1,2) u(1)] and e2 = tc_type_ref_ok [OF assms(1,3) u(2)]
    and c = check_types_ok [OF u(3)]
  show "grows P s t" using grows_trans e1(1) e2(1) c(1) by blast
  assume "ok t" and i: "tc_inv P s"
  with c(2) have t: "t = v" "conforms (types v) a b" "ok v" by auto
  from growsD [OF e2(1) t(3)] growsD [OF e1(1)] i have "extends u v" by blast
  from extendsD(2) [OF this e1(2)] e2(2) t show "accepts_type t e1 e2" by (auto simp: accepts_type_def)
qed

lemma tc_def_node: "tc_def P h = Inr (Some d) \<Longrightarrow> d \<in> set (nodes (tc_root P))"
  unfolding tc_def_def def_get_def by (auto split: option.splits dest: node_at_Some)

lemma tc_def_deref_Inr [simp]: "tc_def_deref P h = Inr d \<longleftrightarrow> tc_def P h = Inr (Some d)"
  by (auto simp: tc_def_deref_def bindE_eq_Inr split: option.splits)

section \<open>The methods\<close>

lemma tc_leaf_ok:
  assumes "tc_program P" and "e \<in> set (nodes (tc_root P))"
    and "\<not> is_FunctionDec e" "\<not> is_TypeDec e" and "h = hdr e" and "typed_as P s e x"
  shows "good P e s (type_set h (Some x) s)"
  by (rule good_type_set [OF assms(1,2) grows_refl assms(3-6)])

lemma tc_SimpleVar_ok:
  assumes "tc_program P" and "visit_ok P visit" and e: "SimpleVar h n \<in> set (nodes (tc_root P))"
    and run: "tc_SimpleVar P visit h s = Inr t"
  shows "good P (SimpleVar h n) s t"
proof -
  from run obtain d where d: "tc_def P h = Inr d"
    "(case d of None \<Rightarrow> Inr s
      | Some dec \<Rightarrow> bindE (tc_type visit dec s) (\<lambda>(t, s1). Inr (type_set h t s1))) = Inr t"
    by (auto simp: tc_SimpleVar_def bindE_eq_Inr)
  show ?thesis
  proof (cases d)
    case None
    with d show ?thesis by (simp add: good_def seen.simps)
  next
    case (Some dec)
    with d obtain x u where u: "tc_type visit dec s = Inr (x, u)" "t = type_set h x u"
      by (auto simp: bindE_eq_Inr)
    from d(1) Some tc_def_node have "dec \<in> set (nodes (tc_root P))" by blast
    note c = tc_type_ok [OF assms(2) this u(1)]
    have "grows P s (type_set (hdr (SimpleVar h n)) x u)"
      by (rule grows_type_set [OF assms(1) e c(1)]) (use c(2) d(1) Some in \<open>auto simp: typed_as_def\<close>)
    with u(2) show ?thesis by (simp add: good_def seen.simps)
  qed
qed

lemma tc_FieldVar_ok:
  assumes "tc_program P" and "visit_ok P visit" and e: "FieldVar h v n \<in> set (nodes (tc_root P))"
    and run: "tc_FieldVar P visit h v n s = Inr t"
  shows "good P (FieldVar h v n) s t"
proof -
  from run obtain x u where u: "tc_type visit v s = Inr (x, u)"
    "(case cast_Record (types u) x of
        Some r \<Rightarrow> bindE (field_type r n) (\<lambda>ft. Inr (type_set h (Some ft) u))
      | None \<Rightarrow> Inr (error_and_recover P h ''wrong type'' (ptr_str P x) u)) = Inr t"
    by (auto simp: tc_FieldVar_def bindE_eq_Inr)
  from e have "v \<in> set (nodes (tc_root P))" by (rule seen_accepts) (simp add: accepts_defs)
  note c = tc_type_ok [OF assms(2) this u(1)]
  show ?thesis
  proof (cases "cast_Record (types u) x")
    case (Some r)
    with u(2) obtain ft where ft: "map_of r n = Some ft" "t = type_set h (Some ft) u"
      by (auto simp: bindE_eq_Inr field_type_map_of error_exit_def split: option.splits)
    show ?thesis unfolding ft(2)
      by (rule good_type_set [OF assms(1) e c(1)])
        (use Some c(2) ft(1) in \<open>auto simp: typed_as_def is_class_defs\<close>)
  qed (use u(2) in \<open>auto simp: good_def\<close>)
qed

lemma tc_SubscriptVar_ok:
  assumes "tc_program P" and "visit_ok P visit" and e: "SubscriptVar h v i \<in> set (nodes (tc_root P))"
    and run: "tc_SubscriptVar P visit h v i s = Inr t"
  shows "good P (SubscriptVar h v i) s t"
proof -
  from run obtain u1 x u where u: "check_type P visit i ''expected int'' Int_instance s = Inr u1"
    "tc_type visit v u1 = Inr (x, u)"
    "(case cast_Array (types u) x of
        Some b \<Rightarrow> Inr (type_set h (Some b) u)
      | None \<Rightarrow> Inr (error_and_recover P h ''wrong type'' (ptr_str P x) u)) = (Inr t :: tc_state res)"
    unfolding tc_SubscriptVar_def by (elim bindE_pairE bindE_InrE) (rule that, assumption+)
  from e have "v \<in> set (nodes (tc_root P))" "i \<in> set (nodes (tc_root P))"
    by (rule seen_accepts, simp add: accepts_defs)+
  note i = check_type_ok [OF assms(2) this(2) u(1)] and c = tc_type_ok [OF assms(2) this(1) u(2)]
  show ?thesis
  proof (cases "cast_Array (types u) x")
    case (Some b)
    show ?thesis
    proof -
      have "has_type u i Int_instance" if "ok u" "tc_inv P s"
        using that has_type_ext growsD [OF c(1)] growsD [OF i(1)] i(2) by blast
      then have "good P (SubscriptVar h v i) s (type_set h (Some b) u)"
        by (intro good_type_set [OF assms(1) e grows_trans [OF i(1) c(1)]])
          (use Some c(2) in \<open>auto simp: typed_as_def is_class_defs\<close>)
      with u(3) Some show ?thesis by simp
    qed
  qed (use u(3) in \<open>auto simp: good_def\<close>)
qed

lemma tc_OpExp_ok:
  assumes "tc_program P" and V: "visit_ok P visit" and e: "OpExp h l oper r \<in> set (nodes (tc_root P))"
    and run: "tc_OpExp P visit h l oper r s = Inr t"
  shows "good P (OpExp h l oper r) s t"
proof -
  have l: "l \<in> set (nodes (tc_root P))" and r: "r \<in> set (nodes (tc_root P))"
    by (rule seen_accepts [OF e], simp add: accepts_defs)+
  have "\<exists>u. t = type_set h (Some Int_instance) u \<and> grows P s u \<and>
      (ok u \<and> tc_inv P s \<longrightarrow> typed_as P u (OpExp h l oper r) Int_instance)"
  proof (cases "arithmetic oper")
    case True
    with run obtain u1 u where u: "check_type P visit l ''left op should be int'' Int_instance s = Inr u1"
      "check_type P visit r ''right op should be int'' Int_instance u1 = Inr u"
      "t = type_set h (Some Int_instance) u"
      by (auto simp: tc_OpExp_def arithmetic_def bindE_eq_Inr)
    note a = check_type_ok [OF V l u(1)] and b = check_type_ok [OF V r u(2)]
    have "has_type u l Int_instance" if "ok u" "tc_inv P s"
      using that has_type_ext growsD [OF b(1)] growsD [OF a(1)] a(2) by blast
    with True b(2) u(3) grows_trans [OF a(1) b(1)] show ?thesis by (auto simp: typed_as_def)
  next
    case False
    show ?thesis
    proof (cases "oper = op_eq \<or> oper = op_ne")
      case True
      with run False obtain u where u: "check_two P visit h ''left op'' l ''right op'' r s = Inr u"
        "t = type_set h (Some Int_instance) u"
        by (auto simp: tc_OpExp_def arithmetic_def bindE_eq_Inr)
      with check_two_ok [OF V l r u(1)] True False show ?thesis by (auto simp: typed_as_def)
    next
      case op: False
      from run False op obtain u1 x a b1 b2 v where
        u1: "check_two P visit h ''left op'' l ''right op'' r s = Inr u1"
        and x0: "deref_ty (type_of u1 (addr_of l)) = Inr x" "actual (types u1) x = Inr a"
          "ty_neq (types u1) a Int_instance = Inr b1"
          "(if b1 then ty_neq (types u1) a String_instance else Inr False) = Inr b2"
        and v: "(if b2
           then bindE (tc_type_ref visit l u1) (\<lambda>(b, s2).
                bindE (tc_print P b s2) (\<lambda>x.
                  Inr (error_and_recover P h ''both op should be int or string'' x s2)))
           else Inr u1) = Inr v" "t = type_set h (Some Int_instance) v"
      proof -
        from False op have "\<not> (oper = op_add \<or> oper = op_sub \<or> oper = op_mul \<or> oper = op_div)"
          by (simp add: arithmetic_def)
        note run [unfolded tc_OpExp_def if_not_P [OF this] if_not_P [OF op]]
        then show ?thesis
          by (elim bindE_InrE) (rule that, assumption+, simp)
      qed
      then have x: "type_of u1 (addr_of l) = Some x"
        by (simp add: deref_ty_def split: option.splits)
      note x = x x0(2-4)
      have t: "b2 \<and> \<not> ok v \<or> \<not> b2 \<and> v = u1"
        using v(1) by (cases b2) (auto simp: bindE_eq_Inr)
      note c = check_two_ok [OF V l r u1]
      have "has_type u1 l Int_instance \<or> has_type u1 l String_instance" if "\<not> b2"
        using that x actual_idem [OF x(2)]
        by (cases b1) (auto simp: has_type_def ty_neq_def ty_eq_def bindE_eq_Inr)
      with c t op False v(2) show ?thesis
        by (intro exI [of _ v]) (auto simp: typed_as_def)
    qed
  qed
  then obtain u where u: "t = type_set h (Some Int_instance) u" "grows P s u"
    "ok u \<Longrightarrow> tc_inv P s \<Longrightarrow> typed_as P u (OpExp h l oper r) Int_instance" by blast
  show ?thesis unfolding u(1)
    by (rule good_type_set [OF assms(1) e u(2)]) (use u(3) in \<open>auto simp: is_class_defs\<close>)
qed

lemma tc_inits_ok:
  assumes "tc_program P" and V: "visit_ok P visit"
    and "\<And>f i. f \<in> set ins \<Longrightarrow> FieldInit_init f = Inr i \<Longrightarrow> i \<in> set (nodes (tc_root P))"
    and "tc_inits P visit h r k ins s = Inr t"
  shows "grows P s t \<and> (ok t \<and> tc_inv P s \<longrightarrow>
    (ins = [] \<or> r \<noteq> None) \<and> (\<forall>fs. r = Some fs \<longrightarrow> k \<le> length fs \<longrightarrow>
      k + length ins \<le> length fs \<and> list_all2 (init_of t) ins (take (length ins) (drop k fs))))"
  using assms(3,4)
proof (induction ins arbitrary: k s)
  case Nil
  then show ?case by simp
next
  case (Cons f ins)
  from Cons.prems(2) obtain n x i a u v where
    f: "record_field r k = Inr (n, x)" "FieldInit_init f = Inr i" "tc_type_ref visit i s = Inr (a, u)"
      "check_types P h ''left field'' x ''right field'' a u = Inr v"
      "tc_inits P visit h r (Suc k) ins v = Inr t"
    unfolding tc_inits.simps by (elim bindE_pairE bindE_InrE) (rule that, assumption+)
  from Cons.prems(1) [of f] f(2) have i: "i \<in> set (nodes (tc_root P))" by simp
  note a = tc_type_ref_ok [OF V i f(3)] and c = check_types_ok [OF f(4)]
  have rest: "i \<in> set (nodes (tc_root P))" if "f \<in> set ins" "FieldInit_init f = Inr i" for f i
    by (rule Cons.prems(1) [OF _ that(2)]) (use that(1) in simp)
  have ih: "grows P v t \<and> (ok t \<and> tc_inv P v \<longrightarrow>
    (ins = [] \<or> r \<noteq> None) \<and> (\<forall>fs. r = Some fs \<longrightarrow> Suc k \<le> length fs \<longrightarrow>
      Suc k + length ins \<le> length fs \<and>
      list_all2 (init_of t) ins (take (length ins) (drop (Suc k) fs))))"
    by (rule Cons.IH [OF _ f(5)]) (use rest in blast)
  have g: "grows P s v" using grows_trans [OF a(1) c(1)] .
  then have gt: "grows P s t" using ih grows_trans by blast
  from f(1) obtain fs where r: "r = Some fs" "k < length fs" "fs ! k = (n, x)"
    by (auto simp: record_field_def split: option.splits if_splits)
  show ?case
  proof (intro conjI impI allI gt)
    assume ok: "ok t \<and> tc_inv P s"
    then have v: "ok v" "tc_inv P v" using growsD [OF conjunct1 [OF ih]] growsD [OF g] by blast+
    with ih ok r(1,2) have ih2: "Suc k + length ins \<le> length fs"
      "list_all2 (init_of t) ins (take (length ins) (drop (Suc k) fs))" by auto
    from c(2) v(1) have uv: "v = u" "conforms (types u) x a" by auto
    then have "init_of v f (fs ! k)" using a(2) f(2) r(3) by (auto simp: init_of_def)
    moreover have "extends v t" using growsD [OF conjunct1 [OF ih]] ok v by blast
    ultimately have "init_of t f (fs ! k)" using init_of_ext by blast
    moreover have "drop k fs = fs ! k # drop (Suc k) fs" using r(2) by (simp add: Cons_nth_drop_Suc)
    ultimately show "k + length (f # ins) \<le> length gs"
        "list_all2 (init_of t) (f # ins) (take (length (f # ins)) (drop k gs))"
      if "r = Some gs" for gs
      using ih2 that r(1) by simp_all
    show "f # ins = [] \<or> r \<noteq> None" using r(1) by simp
  qed
qed

lemma tc_RecordExp_ok:
  assumes "tc_program P" and V: "visit_ok P visit" and e: "RecordExp h n ins \<in> set (nodes (tc_root P))"
    and run: "tc_RecordExp P visit h n ins s = Inr t"
  shows "good P (RecordExp h n ins) s t"
proof -
  define r where "r ty = cast_Record (types s) (type_of s (addr_of ty))" for ty
  define s1 where "s1 ty = (if r ty = None then tc_error P h ''RecordExp: Untyped'' s else s)" for ty
  note run = run [unfolded tc_RecordExp_def Let_def, folded r_def, folded s1_def]
  from run obtain d ty u x v where
    d: "tc_def P (hdr n) = Inr (Some d)" "TypeDec_ty d = Inr ty"
      "tc_inits P visit h (r ty) 0 ins (s1 ty) = Inr u" "tc_type visit n u = Inr (x, v)"
      "t = type_set h x v"
    by (elim bindE_pairE bindE_InrE) (rule that, unfold tc_def_deref_Inr, assumption+, simp)
  have n: "n \<in> set (nodes (tc_root P))" and
    "\<And>f. f \<in> set ins \<Longrightarrow> f \<in> set (nodes (tc_root P))"
    by (rule seen_accepts [OF e], simp add: accepts_defs)+
  then have ins: "i \<in> set (nodes (tc_root P))" if "f \<in> set ins" "FieldInit_init f = Inr i" for f i
    using seen_accepts [of f P i] that
    by (auto simp: FieldInit_init_def accepts_defs split: ast.splits)
  note i = tc_inits_ok [OF assms(1) V ins d(3)] and c = tc_type_ok [OF V n d(4)]
  show ?thesis
  proof (cases "r ty")
    case None
    then have "\<not> ok (s1 ty)" by (simp add: s1_def)
    then have "\<not> ok t" using growsD [OF conjunct1 [OF i]] growsD [OF c(1)] d(5) by auto
    then show ?thesis by (simp add: good_def)
  next
    case (Some fs)
    then have s1: "s1 ty = s" by (simp add: s1_def)
    have g: "grows P s v" using grows_trans [OF _ c(1)] i s1 by auto
    have x: "typed_as P v (RecordExp h n ins) y \<longleftrightarrow> x = Some y"
      if ok: "ok v" "tc_inv P s" "tc_inv P v" for y
    proof -
      have u: "ok u" "tc_inv P u" "extends u v" "extends s v"
        using growsD [OF c(1) ok(1)] growsD [OF conjunct1 [OF i]] growsD [OF g] ok s1 by auto
      have "length ins \<le> length fs" "list_all2 (init_of u) ins (take (length ins) fs)"
        using i u(1) ok(2) s1 Some by auto
      moreover have "list_all2 (init_of v) ins (take (length ins) fs)"
        using list_all2_mono [OF calculation(2)] init_of_ext [OF u(3)] by blast
      moreover have "cast_Record (types v) (type_of v (addr_of ty)) = Some fs"
        using cast_type_ext(1) [OF u(4)] Some by (simp add: r_def)
      ultimately show ?thesis using c(2) d(1,2) by (auto simp: typed_as_def)
    qed
    have "grows P s t" unfolding d(5)
      using grows_type_set [OF assms(1) e g, of x] x by simp
    moreover have "seen t (RecordExp h n ins)" if t: "ok t \<and> tc_inv P s"
    proof -
      have v: "ok v" "ok u" "tc_inv P u" using t d(5) growsD [OF c(1)] growsD [OF conjunct1 [OF i]] s1 by auto
      then have "list_all2 (init_of u) ins (take (length ins) fs)" "extends u v"
        using i s1 Some t growsD [OF c(1)] by auto
      then have "list_all2 (init_of v) ins (take (length ins) fs)"
        using list_all2_mono init_of_ext by blast
      moreover have "extends v t"
        using grows_type_set [OF assms(1) e grows_refl, of v x] x v growsD [OF c(1)] t d(5)
        by (auto simp: grows_def)
      ultimately have "list_all2 (init_of t) ins (take (length ins) fs)"
        using list_all2_mono init_of_ext by blast
      then have "list_all (init_typed t) ins"
        by (auto simp: list_all2_conv_all_nth list_all_length init_of_def init_typed_def)
      then show ?thesis by (simp add: seen.simps)
    qed
    ultimately show ?thesis by (simp add: good_def)
  qed
qed

lemma tc_args_ok:
  assumes V: "visit_ok P visit" and "length args = length fs"
    and "\<And>x. x \<in> set args \<Longrightarrow> x \<in> set (nodes (tc_root P))"
    and "tc_args P visit h fs args s = Inr t"
  shows "grows P s t \<and> (ok t \<and> tc_inv P s \<longrightarrow> list_all2 (arg_of t) args fs)"
  using assms(2-)
proof (induction args fs arbitrary: s rule: list_induct2)
  case (Cons x xs f fs)
  from Cons.prems(2) obtain a u v where r: "tc_type_ref visit x s = Inr (a, u)"
    "check_types P h ''argument'' a ''formal'' (snd f) u = Inr v" "tc_args P visit h fs xs v = Inr t"
    unfolding tc_args.simps by (elim bindE_pairE bindE_InrE) (rule that, assumption+)
  from Cons.prems(1) have x: "x \<in> set (nodes (tc_root P))" by simp
  note a = tc_type_ref_ok [OF V x r(1)] and c = check_types_ok [OF r(2)]
  have ih: "grows P v t \<and> (ok t \<and> tc_inv P v \<longrightarrow> list_all2 (arg_of t) xs fs)"
    by (rule Cons.IH [OF _ r(3)]) (use Cons.prems(1) in simp)
  have g: "grows P s v" using grows_trans [OF a(1) c(1)] .
  then have gt: "grows P s t" using ih grows_trans by blast
  moreover have "list_all2 (arg_of t) (x # xs) (f # fs)" if "ok t \<and> tc_inv P s"
  proof -
    from that have v: "ok v" "tc_inv P v" "extends v t"
      using growsD [OF conjunct1 [OF ih]] growsD [OF g] by blast+
    from c(2) v(1) a(2) have "arg_of v x f" by (auto simp: arg_of_def)
    with arg_of_ext [OF v(3)] ih that v(2) show ?thesis by simp
  qed
  ultimately show ?case by blast
qed simp

lemma FunctionDec_created_ext:
  "extends s t \<Longrightarrow> FunctionDec_created d s = Inr (Some c) \<Longrightarrow> FunctionDec_created d t = Inr (Some c)"
  by (auto simp: FunctionDec_created_def extends_def split: ast.splits)

lemma tc_CallExp_ok:
  assumes "tc_program P" and V: "visit_ok P visit" and e: "CallExp h n args \<in> set (nodes (tc_root P))"
    and run: "tc_CallExp P visit h args s = Inr t"
  shows "good P (CallExp h n args) s t"
proof -
  from run obtain d c where d: "tc_def P h = Inr (Some d)" "FunctionDec_created d s = Inr c"
    and c: "(case cast_Function (types s) c of
       None \<Rightarrow> Inl Null_deref
     | Some (formals, result) \<Rightarrow>
         (case cast_Record (types s) (Some formals) of
            None \<Rightarrow> Inl Bad_access
          | Some fs \<Rightarrow>
              bindE (if length args \<noteq> length fs
                     then Inr (tc_error P h ''invalid number of arguments'' s)
                     else tc_args P visit h fs args s) (\<lambda>s1.
              Inr (type_set h (Some result) s1)))) = Inr t"
    unfolding tc_CallExp_def by (elim bindE_InrE) (rule that, unfold tc_def_deref_Inr, assumption+)
  from c obtain f r fs where f: "cast_Function (types s) c = Some (f, r)"
    "cast_Record (types s) (Some f) = Some fs"
    by (auto split: option.splits prod.splits)
  obtain c' where c': "c = Some c'" using f(1) by (cases c) (auto simp: cast_defs)
  from c f obtain u where u: "(if length args \<noteq> length fs
        then Inr (tc_error P h ''invalid number of arguments'' s)
        else tc_args P visit h fs args s) = Inr u" "t = type_set h (Some r) u"
    by (auto simp: bindE_eq_Inr)
  have args: "x \<in> set (nodes (tc_root P))" if "x \<in> set args" for x
    by (rule seen_accepts [OF e]) (use that in \<open>simp add: accepts_defs\<close>)
  show ?thesis
  proof (cases "length args = length fs")
    case True
    then have run: "tc_args P visit h fs args s = Inr u" using u(1) by simp
    have a: "grows P s u \<and> (ok u \<and> tc_inv P s \<longrightarrow> list_all2 (arg_of u) args fs)"
      by (rule tc_args_ok [OF V True _ run]) (rule args)
    have "typed_as P u (CallExp h n args) r" if "ok u" "tc_inv P s"
    proof -
      have "extends s u" using a growsD that by blast
      with cast_ext(1,3) [OF this] FunctionDec_created_ext d f a that c' show ?thesis
        by (auto simp: typed_as_def)
    qed
    with u(2) a show ?thesis
      by (auto intro!: good_type_set [OF assms(1) e] simp: is_class_defs)
  qed (use u in \<open>auto simp: good_def\<close>)
qed

lemma tc_ArrayExp_ok:
  assumes "tc_program P" and V: "visit_ok P visit" and e: "ArrayExp h n sz i \<in> set (nodes (tc_root P))"
    and run: "tc_ArrayExp P visit h n sz i s = Inr t"
  shows "good P (ArrayExp h n sz i) s t"
proof -
  from run obtain a u1 u2 u where
    u: "tc_type_ref visit sz s = Inr (a, u1)" "check_types P h ''len'' a ''given'' Int_instance u1 = Inr u2"
      "check_two P visit h ''array'' n ''elements'' i u2 = Inr u"
      "t = type_set h (type_of u (addr_of n)) u"
    unfolding tc_ArrayExp_def by (elim bindE_pairE bindE_InrE) (rule that, assumption+, simp)
  have c: "n \<in> set (nodes (tc_root P))" "sz \<in> set (nodes (tc_root P))" "i \<in> set (nodes (tc_root P))"
    by (rule seen_accepts [OF e], simp add: accepts_defs)+
  note s = tc_type_ref_ok [OF V c(2) u(1)] and l = check_types_ok [OF u(2)]
    and w = check_two_ok [OF V c(1,3) u(3)]
  have g2: "grows P s u2" and g: "grows P s u" using grows_trans s(1) l(1) w(1) by blast+
  show ?thesis
  proof (cases "type_of u (addr_of n)")
    case None
    have "\<not> (ok u \<and> tc_inv P s)"
    proof
      assume "ok u \<and> tc_inv P s"
      then have "accepts_type u n i" using w(2) growsD [OF w(1)] growsD [OF g2] by blast
      with None show False by (simp add: accepts_type_def)
    qed
    moreover from u(3) obtain b v w where "tc_type_ref visit n u2 = Inr (b, v)"
      "tc_type_ref visit i v = Inr w" by (auto simp: check_two_def bindE_eq_Inr)
    ultimately show ?thesis using u(4) g
      by (auto simp: good_def grows_def)
  next
    case (Some x)
    have "typed_as P u (ArrayExp h n sz i) x" if k: "ok u" "tc_inv P s"
    proof -
      have u2: "ok u2" "tc_inv P u2" "extends u2 u" using k growsD [OF w(1)] growsD [OF g2] by blast+
      have "u2 = u1" "conforms (types u2) a Int_instance" using l(2) u2(1) by auto
      then have "type_of u (addr_of sz) = Some a" "conforms (types u) a Int_instance"
        using s(2) extendsD [OF u2(3)] conforms_ext by auto
      with w(2) k(1) u2(2) Some show ?thesis by (auto simp: typed_as_def)
    qed
    with u(4) Some show ?thesis
      by (auto intro!: good_type_set [OF assms(1) e g] simp: is_class_defs)
  qed
qed

lemma tc_SeqExp_loop_ok:
  assumes V: "visit_ok P visit"
    and "\<And>x. x \<in> set es \<Longrightarrow> x \<in> set (nodes (tc_root P)) \<and> \<not> is_FunctionDec x \<and> \<not> is_TypeDec x"
    and "tc_SeqExp_loop visit l es s = Inr (x, t)"
  shows "grows P s t \<and> (ok t \<and> tc_inv P s \<longrightarrow> list_all (seen t) es) \<and>
    (es = [] \<longrightarrow> x = l) \<and> (ok t \<and> tc_inv P s \<and> es \<noteq> [] \<longrightarrow> type_of t (addr_of (last es)) = x)"
  using assms(2-)
proof (induction es arbitrary: s l)
  case (Cons e es)
  from Cons.prems(2) obtain y u where u: "tc_type visit e s = Inr (y, u)"
    "tc_SeqExp_loop visit y es u = Inr (x, t)"
    unfolding tc_SeqExp_loop.simps by (elim bindE_pairE) (rule that)
  from Cons.prems(1) have e: "e \<in> set (nodes (tc_root P))" "\<not> is_FunctionDec e" "\<not> is_TypeDec e" by auto
  note a = tc_type_ok [OF V e(1) u(1)]
  have ih: "grows P u t \<and> (ok t \<and> tc_inv P u \<longrightarrow> list_all (seen t) es) \<and>
    (es = [] \<longrightarrow> x = y) \<and> (ok t \<and> tc_inv P u \<and> es \<noteq> [] \<longrightarrow> type_of t (addr_of (last es)) = x)"
    by (rule Cons.IH [OF _ u(2)]) (use Cons.prems(1) in simp)
  have "seen t e" if k: "ok t \<and> tc_inv P s"
  proof -
    have "seen u e" using a k growsD [of P u t] ih seen_typed [OF _ e(2,3), of u] by (cases y) auto
    moreover have "extends u t" using k ih growsD [OF a(1)] growsD [of P u t] by blast
    ultimately show ?thesis using seen_ext by blast
  qed
  moreover have "tc_inv P u" if "ok t \<and> tc_inv P s"
    using that ih growsD [OF a(1)] growsD [of P u t] by blast
  moreover have "t = u" if "es = []" using that u(2) by simp
  ultimately show ?case using ih grows_trans [OF a(1)] a(2) by auto
qed simp

lemma Exp_not_Dec: "is_Exp x \<Longrightarrow> \<not> is_FunctionDec x \<and> \<not> is_TypeDec x"
  by (cases x) (simp_all add: is_class_defs)

lemma tc_SeqExp_ok:
  assumes "tc_program P" and V: "visit_ok P visit" and e: "SeqExp h es \<in> set (nodes (tc_root P))"
    and run: "tc_SeqExp visit h es s = Inr t"
  shows "good P (SeqExp h es) s t"
proof -
  from run obtain x u where u: "tc_SeqExp_loop visit (Some Void_instance) es s = Inr (x, u)"
    "t = type_set h x u"
    by (auto simp: tc_SeqExp_def bindE_eq_Inr)
  have "y \<in> set (nodes (tc_root P)) \<and> \<not> is_FunctionDec y \<and> \<not> is_TypeDec y" if "y \<in> set es" for y
  proof
    show "y \<in> set (nodes (tc_root P))"
      by (rule seen_accepts [OF e]) (use that in \<open>simp add: accepts_defs\<close>)
    have "is_Exp y" using tc_programD(2) [OF assms(1) e] that by (simp add: wf_node_def list_all_iff)
    then show "\<not> is_FunctionDec y \<and> \<not> is_TypeDec y" by (rule Exp_not_Dec)
  qed
  from tc_SeqExp_loop_ok [OF V this u(1)]
  have l: "grows P s u" "ok u \<Longrightarrow> tc_inv P s \<Longrightarrow> list_all (seen u) es" "es = [] \<Longrightarrow> x = Some Void_instance"
    "ok u \<Longrightarrow> tc_inv P s \<Longrightarrow> es \<noteq> [] \<Longrightarrow> type_of u (addr_of (last es)) = x" by auto
  have iff: "typed_as P u (SeqExp h es) y \<longleftrightarrow> x = Some y" if "ok u" "tc_inv P s" for y
    using l that by (cases "es = []") (auto simp: typed_as_def)
  have g: "grows P s t" unfolding u(2)
    using grows_type_set [OF assms(1) e l(1), of x] iff by simp
  have "seen t (SeqExp h es)" if k: "ok t \<and> tc_inv P s"
  proof (cases x)
    case None
    have ku: "ok u" using k u(2) by simp
    have "grows P u t" unfolding u(2)
      using grows_type_set [OF assms(1) e grows_refl, of u x] iff k ku by simp
    then have "extends u t" using k ku growsD [OF l(1) ku] by (auto simp: grows_def)
    then have "list_all (seen t) es"
      using l(2) ku k seen_ext by (auto simp: list_all_iff)
    with None l(3) show ?thesis by (auto simp: seen.simps [of t "SeqExp h es"])
  next
    case (Some y)
    with u(2) show ?thesis
      using seen_typed [of t "SeqExp h es"] type_of_type_set [of "SeqExp h es"]
      by (simp add: is_class_defs)
  qed
  with g show ?thesis by (simp add: good_def)
qed

lemma tc_AssignExp_ok:
  assumes "tc_program P" and V: "visit_ok P visit" and e: "AssignExp h v x \<in> set (nodes (tc_root P))"
    and run: "tc_AssignExp P visit h v x s = Inr t"
  shows "good P (AssignExp h v x) s t"
proof -
  define s1 where "s1 = (if read_only_use P v s then tc_error P h ''Updating read-only variable'' s else s)"
  from run obtain u where u: "check_two P visit h ''var'' v ''exp'' x s1 = Inr u"
    "t = type_set h (Some Void_instance) u"
    by (auto simp: tc_AssignExp_def Let_def bindE_eq_Inr s1_def)
  have c: "v \<in> set (nodes (tc_root P))" "x \<in> set (nodes (tc_root P))"
    by (rule seen_accepts [OF e], simp add: accepts_defs)+
  note w = check_two_ok [OF V c u(1)]
  show ?thesis
  proof (cases "read_only_use P v s")
    case True
    then have "\<not> ok t" using u growsD(1) [OF w(1)] by (auto simp: s1_def)
    then show ?thesis by (simp add: good_def)
  next
    case False
    then have s1: "s1 = s" by (simp add: s1_def)
    show ?thesis unfolding u(2)
      by (rule good_type_set [OF assms(1) e]) (use w s1 in \<open>auto simp: typed_as_def is_class_defs\<close>)
  qed
qed

lemma tc_IfExp_ok:
  assumes "tc_program P" and V: "visit_ok P visit" and e: "IfExp h c a b \<in> set (nodes (tc_root P))"
    and run: "tc_IfExp P visit h c a b s = Inr t"
  shows "good P (IfExp h c a b) s t"
proof -
  from run obtain u1 u where u: "check_type P visit c ''expected int'' Int_instance s = Inr u1"
    "check_two P visit h ''then'' a ''else'' b u1 = Inr u" "t = type_set h (type_of u (addr_of a)) u"
    by (auto simp: tc_IfExp_def bindE_eq_Inr)
  have m: "c \<in> set (nodes (tc_root P))" "a \<in> set (nodes (tc_root P))" "b \<in> set (nodes (tc_root P))"
    by (rule seen_accepts [OF e], simp add: accepts_defs)+
  note i = check_type_ok [OF V m(1) u(1)] and w = check_two_ok [OF V m(2,3) u(2)]
  have g: "grows P s u" using grows_trans [OF i(1) w(1)] .
  have k: "has_type u c Int_instance \<and> accepts_type u a b" if k: "ok u" "tc_inv P s"
    using i(2) w(2) has_type_ext growsD [OF w(1)] growsD [OF i(1)] k by blast
  show ?thesis
  proof (cases "type_of u (addr_of a)")
    case None
    then have "\<not> (ok u \<and> tc_inv P s)" using k by (auto simp: accepts_type_def)
    with u(3) g show ?thesis by (auto simp: good_def grows_def)
  next
    case (Some x)
    show ?thesis unfolding u(3) Some
      by (rule good_type_set [OF assms(1) e g]) (use k Some in \<open>auto simp: typed_as_def is_class_defs\<close>)
  qed
qed

lemma tc_WhileExp_ok:
  assumes "tc_program P" and V: "visit_ok P visit" and e: "WhileExp h c b \<in> set (nodes (tc_root P))"
    and run: "tc_WhileExp P visit h c b s = Inr t"
  shows "good P (WhileExp h c b) s t"
proof -
  from run obtain u1 u where u: "check_type P visit c ''expected int'' Int_instance s = Inr u1"
    "check_type P visit b ''expected void'' Void_instance u1 = Inr u"
    "t = type_set h (Some Void_instance) u"
    by (auto simp: tc_WhileExp_def bindE_eq_Inr)
  have m: "c \<in> set (nodes (tc_root P))" "b \<in> set (nodes (tc_root P))"
    by (rule seen_accepts [OF e], simp add: accepts_defs)+
  note i = check_type_ok [OF V m(1) u(1)] and w = check_type_ok [OF V m(2) u(2)]
  have "has_type u c Int_instance \<and> has_type u b Void_instance" if "ok u" "tc_inv P s"
    using i(2) w(2) has_type_ext growsD [OF w(1)] growsD [OF i(1)] that by blast
  then show ?thesis unfolding u(3)
    by (intro good_type_set [OF assms(1) e grows_trans [OF i(1) w(1)]])
      (auto simp: typed_as_def is_class_defs)
qed

lemma tc_ForExp_ok:
  assumes "tc_program P" and V: "visit_ok P visit" and e: "ForExp h v hi b \<in> set (nodes (tc_root P))"
    and run: "tc_ForExp P visit h v hi b s = Inr t"
  shows "good P (ForExp h v hi b) s t"
proof -
  from run obtain u1 u2 u where u: "check_type P visit v ''expected int'' Int_instance s = Inr u1"
    "check_type P visit hi ''expected int'' Int_instance u1 = Inr u2"
    "check_type P visit b ''expected void'' Void_instance
       (u2\<lparr>var_read_only := insert (addr_of v) (var_read_only u2)\<rparr>) = Inr u"
    "t = type_set h (Some Void_instance) u"
    by (auto simp: tc_ForExp_def Let_def bindE_eq_Inr)
  have m: "v \<in> set (nodes (tc_root P))" "hi \<in> set (nodes (tc_root P))" "b \<in> set (nodes (tc_root P))"
    by (rule seen_accepts [OF e], simp add: accepts_defs)+
  note i = check_type_ok [OF V m(1) u(1)] and j = check_type_ok [OF V m(2) u(2)]
    and w = check_type_ok [OF V m(3) u(3)]
  note g1 = grows_trans [OF grows_read_only w(1)]
  have "has_type u v Int_instance \<and> has_type u hi Int_instance \<and> has_type u b Void_instance"
    if "ok u" "tc_inv P s"
    using i(2) j(2) w(2) has_type_ext growsD [OF g1] growsD [OF j(1)] growsD [OF i(1)] that by blast
  then show ?thesis unfolding u(4)
    by (intro good_type_set [OF assms(1) e grows_trans [OF i(1) grows_trans [OF j(1) g1]]])
      (auto simp: typed_as_def is_class_defs)
qed

text \<open>The methods that take the type of a part, which may be null.\<close>

lemma good_type_of_part:
  assumes "tc_program P" and e: "e \<in> set (nodes (tc_root P))" and g: "grows P s u"
    and iff: "\<And>y. ok u \<Longrightarrow> tc_inv P s \<Longrightarrow> tc_inv P u \<Longrightarrow> typed_as P u e y \<longleftrightarrow> x = Some y"
    and "\<not> is_FunctionDec e" "\<not> is_TypeDec e" and h: "h = hdr e"
    and none: "\<And>t. ok u \<Longrightarrow> tc_inv P s \<Longrightarrow> extends u t \<Longrightarrow> x = None \<Longrightarrow> seen t e"
  shows "good P e s (type_set h x u)"
proof -
  let ?t = "type_set (hdr e) x u"
  have "grows P s ?t" by (rule grows_type_set [OF assms(1) e g iff])
  moreover have "seen ?t e" if k: "ok ?t \<and> tc_inv P s"
  proof (cases x)
    case None
    have ku: "ok u" using k by simp
    have "grows P u ?t"
      by (rule grows_type_set [OF assms(1) e grows_refl]) (use iff k in blast)
    then have "extends u ?t" using k ku growsD [OF g ku] by (auto simp: grows_def)
    from none [OF ku _ this None] k show ?thesis by blast
  next
    case (Some y)
    show ?thesis by (rule seen_typed) (use Some assms(5,6) in simp_all)
  qed
  ultimately show ?thesis by (simp add: good_def h)
qed

lemma tc_LetExp_ok:
  assumes "tc_program P" and V: "visit_ok P visit" and e: "LetExp h cs b \<in> set (nodes (tc_root P))"
    and run: "tc_LetExp visit h cs b s = Inr t"
  shows "good P (LetExp h cs b) s t"
proof -
  from run obtain u1 x u where u: "visit cs s = Inr u1" "tc_type visit b u1 = Inr (x, u)"
    "t = type_set h x u"
    by (auto simp: tc_LetExp_def bindE_eq_Inr)
  have m: "cs \<in> set (nodes (tc_root P))" "b \<in> set (nodes (tc_root P))"
    by (rule seen_accepts [OF e], simp add: accepts_defs)+
  have i: "grows P s u1" "ok u1 \<Longrightarrow> tc_inv P s \<Longrightarrow> seen u1 cs"
    using V m(1) u(1) unfolding visit_ok_def good_def by blast+
  note w = tc_type_ok [OF V m(2) u(2)]
  have g: "grows P s u" using grows_trans [OF i(1) w(1)] .
  have c: "seen u cs" if k: "ok u" "tc_inv P s"
    using i(2) growsD [OF w(1)] growsD [OF i(1)] seen_ext k by blast
  have n: "seen t b" if "ok u" "tc_inv P s" "extends u t" "x = None" for t
    using w(3) growsD [OF w(1)] growsD [OF i(1)] seen_ext that by blast
  show ?thesis unfolding u(3)
    by (rule good_type_of_part [OF assms(1) e g])
      (use c n w(2) seen_ext in \<open>auto simp: typed_as_def is_class_defs seen.simps [of _ "LetExp h cs b"]\<close>)
qed

lemma tc_CastExp_ok:
  assumes "tc_program P" and V: "visit_ok P visit" and e: "CastExp h x ty \<in> set (nodes (tc_root P))"
    and run: "tc_CastExp visit h ty s = Inr t"
  shows "good P (CastExp h x ty) s t"
proof -
  from run obtain y u where u: "tc_type visit ty s = Inr (y, u)" "t = type_set h y u"
    by (auto simp: tc_CastExp_def bindE_eq_Inr)
  have m: "ty \<in> set (nodes (tc_root P))"
    by (rule seen_accepts [OF e], simp add: accepts_defs)
  note w = tc_type_ok [OF V m u(1)]
  show ?thesis unfolding u(2)
    by (rule good_type_of_part [OF assms(1) e w(1)])
      (use w(2) in \<open>auto simp: typed_as_def is_class_defs seen.simps\<close>)
qed

lemma tc_VarDec_ok:
  assumes "tc_program P" and V: "visit_ok P visit" and e: "VarDec h n tn i \<in> set (nodes (tc_root P))"
    and run: "tc_VarDec P visit h tn i s = Inr t"
  shows "good P (VarDec h n tn i) s t"
proof (cases tn)
  case None
  show ?thesis
  proof (cases i)
    case None
    with run \<open>tn = None\<close> show ?thesis by (auto simp: tc_VarDec_def good_def)
  next
    case (Some j)
    with run None obtain x u where u: "tc_type visit j s = Inr (x, u)" "t = type_set h x u"
      by (auto simp: tc_VarDec_def bindE_eq_Inr)
    have m: "j \<in> set (nodes (tc_root P))"
      by (rule seen_accepts [OF e]) (simp add: accepts_defs Some)
    note w = tc_type_ok [OF V m u(1)]
    have "seen t j" if "ok u" "tc_inv P s" "extends u t" "x = None" for t
      using w(3) that seen_ext by blast
    then show ?thesis unfolding u(2)
      by (intro good_type_of_part [OF assms(1) e w(1)])
        (use w(2) None Some in \<open>auto simp: typed_as_def is_class_defs seen.simps [of _ "VarDec _ _ _ _"]\<close>)
  qed
next
  case tn: (Some ty)
  have m: "ty \<in> set (nodes (tc_root P))" "\<And>j. i = Some j \<Longrightarrow> j \<in> set (nodes (tc_root P))"
    by (rule seen_accepts [OF e], simp add: accepts_defs tn)+
  show ?thesis
  proof (cases i)
    case None
    with run tn obtain x u where u: "tc_type visit ty s = Inr (x, u)" "t = type_set h x u"
      by (auto simp: tc_VarDec_def bindE_eq_Inr)
    note w = tc_type_ok [OF V m(1) u(1)]
    show ?thesis unfolding u(2)
      by (rule good_type_of_part [OF assms(1) e w(1)])
        (use w(2) None tn in \<open>auto simp: typed_as_def is_class_defs seen.simps [of _ "VarDec _ _ _ _"]\<close>)
  next
    case (Some j)
    note run = run [unfolded tc_VarDec_def tn Some option.case]
    from run obtain x0 u1 u where x0: "tc_type visit ty s = Inr (x0, u1)"
      "bindE (tc_type_ref visit j u1) (\<lambda>(a, s2).
         bindE (deref_ty x0) (\<lambda>b. check_types P h ''init'' a ''type'' b s2)) = Inr u"
      "t = type_set h x0 u"
      by (elim bindE_pairE bindE_InrE) (auto simp: bindE_eq_Inr)
    from x0(2) obtain a u2 x where u2: "tc_type_ref visit j u1 = Inr (a, u2)" "x0 = Some x"
      "check_types P h ''init'' a ''type'' x u2 = Inr u"
      by (auto simp: bindE_eq_Inr deref_ty_def split: option.splits)
    note w = tc_type_ok [OF V m(1) x0(1)] and v = tc_type_ref_ok [OF V m(2) [OF Some] u2(1)]
      and c = check_types_ok [OF u2(3)]
    have g1: "grows P u1 u" using grows_trans [OF v(1) c(1)] .
    have g: "grows P s u" using grows_trans [OF w(1) g1] .
    have "typed_as P u (VarDec h n tn i) x" if k: "ok u" "tc_inv P s"
    proof -
      have "extends u1 u" using k growsD [OF g1] growsD [OF w(1)] by blast
      then have "type_of u (addr_of ty) = Some x" using w(2) u2(2) extendsD by metis
      moreover have "u = u2" "conforms (types u) a x" using c(2) k by auto
      ultimately show ?thesis using v(2) tn Some by (simp add: typed_as_def)
    qed
    then show ?thesis unfolding x0(3) u2(2)
      by (intro good_type_set [OF assms(1) e g]) (simp_all add: is_class_defs)
  qed
qed

lemma tc_NameTy_ok:
  assumes "tc_program P" and e: "NameTy h n \<in> set (nodes (tc_root P))"
    and run: "tc_NameTy P h n s = Inr t"
  shows "good P (NameTy h n) s t"
proof (cases "n = ''int'' \<or> n = ''string'' \<or> tc_defs P (adr h) \<noteq> None")
  case True
  then obtain x where x: "t = type_set h x s" "\<And>y. typed_as P s (NameTy h n) y \<longleftrightarrow> x = Some y"
    using run by (auto simp: tc_NameTy_def typed_as_def split: if_splits)
  show ?thesis unfolding x(1)
    by (rule good_type_of_part [OF assms(1) e grows_refl])
      (use x(2) in \<open>auto simp: is_class_defs seen.simps\<close>)
qed (use run in \<open>auto simp: tc_NameTy_def good_def seen.simps\<close>)

section \<open>Types and functions\<close>

text \<open>
  Collecting the fields of a record or the formals of a function: the record is allocated first and
  grows while the names of types are visited, which neither read nor write the store.
\<close>

definition storeless :: "tc_state visit \<Rightarrow> ast \<Rightarrow> bool" where
  "storeless visit c \<longleftrightarrow>
     (\<forall>s t ts. visit c s = Inr t \<longrightarrow> types t = types s \<and> visit c (s\<lparr>types := ts\<rparr>) = Inr (t\<lparr>types := ts\<rparr>)) \<and>
     (\<forall>s t ts. visit c (s\<lparr>types := ts\<rparr>) = Inr t \<longrightarrow> (\<exists>u. visit c s = Inr u))"

lemma storelessD:
  assumes "storeless visit c" and "visit c (s\<lparr>types := ts\<rparr>) = Inr t"
  shows "\<exists>u. visit c s = Inr u \<and> types u = types s \<and> t = u\<lparr>types := ts\<rparr>"
  using assms unfolding storeless_def by force

lemma tc_type_ref_storeless:
  assumes "storeless visit c" and "tc_type_ref visit c (s\<lparr>types := ts\<rparr>) = Inr (a, t)"
  shows "\<exists>u. tc_type_ref visit c s = Inr (a, u) \<and> types u = types s \<and> t = u\<lparr>types := ts\<rparr>"
proof (cases "type_of s (addr_of c)")
  case None
  with assms(2) have v: "visit c (s\<lparr>types := ts\<rparr>) = Inr t" "type_of t (addr_of c) = Some a"
    by (auto simp: tc_type_ref_def tc_type_def bindE_eq_Inr deref_ty_def split: option.splits)
  from storelessD [OF assms(1) v(1)] obtain u where "visit c s = Inr u" "types u = types s"
    "t = u\<lparr>types := ts\<rparr>" by blast
  with v(2) None show ?thesis by (auto simp: tc_type_ref_def tc_type_def deref_ty_def)
next
  case (Some x)
  with assms(2) show ?thesis
    by (auto simp: tc_type_ref_def tc_type_def deref_ty_def intro!: exI [of _ s])
qed

lemma collect_ok:
  assumes V: "visit_ok P visit"
    and "\<And>x n c. x \<in> set xs \<Longrightarrow> part x = Inr (n, c) \<Longrightarrow> c \<in> set (nodes (tc_root P)) \<and> storeless visit c"
    and "foldE (\<lambda>x s. bindE (part x) (\<lambda>(n, c).
          bindE (tc_type_ref visit c s) (\<lambda>(a, s'). Inr (tc_field_add (length ts) n a s'))))
        xs (s\<lparr>types := ts @ [Record_ty fs]\<rparr>) = Inr t"
    and "types s = ts"
  shows "\<exists>u gs. grows P s u \<and> types u = ts \<and> t = u\<lparr>types := ts @ [Record_ty (fs @ gs)]\<rparr> \<and>
    (ok u \<and> tc_inv P s \<longrightarrow>
      list_all2 (\<lambda>x g. \<exists>n c. part x = Inr (n, c) \<and> fst g = n \<and> type_of u (addr_of c) = Some (snd g)) xs gs)"
  using assms(2-)
proof (induction xs arbitrary: s fs)
  case Nil
  then show ?case by (intro exI [of _ s] exI [of _ "[]"]) auto
next
  case (Cons x xs)
  let ?s = "s\<lparr>types := ts @ [Record_ty fs]\<rparr>"
  from Cons.prems(2) obtain n c a v where x: "part x = Inr (n, c)" "tc_type_ref visit c ?s = Inr (a, v)"
    "foldE (\<lambda>x s. bindE (part x) (\<lambda>(n, c).
          bindE (tc_type_ref visit c s) (\<lambda>(a, s'). Inr (tc_field_add (length ts) n a s'))))
        xs (tc_field_add (length ts) n a v) = Inr t"
    by (auto simp: bindE_eq_Inr)
  from Cons.prems(1) [OF _ x(1)] have c: "c \<in> set (nodes (tc_root P))" "storeless visit c" by simp_all
  from tc_type_ref_storeless [OF c(2) x(2)] obtain u where
    u: "tc_type_ref visit c s = Inr (a, u)" "types u = ts" "v = u\<lparr>types := ts @ [Record_ty fs]\<rparr>"
    using Cons.prems(3) by auto
  note w = tc_type_ref_ok [OF V c(1) u(1)]
  have "tc_field_add (length ts) n a v = u\<lparr>types := ts @ [Record_ty (fs @ [(n, a)])]\<rparr>"
    by (simp add: u(3) tc_field_add_def field_add_def cast_Record_def)
  from Cons.IH [OF _ x(3) [unfolded this] u(2)] Cons.prems(1) obtain r gs where
    r: "grows P u r" "types r = ts" "t = r\<lparr>types := ts @ [Record_ty ((fs @ [(n, a)]) @ gs)]\<rparr>"
      "ok r \<and> tc_inv P u \<Longrightarrow>
       list_all2 (\<lambda>x g. \<exists>n c. part x = Inr (n, c) \<and> fst g = n \<and> type_of r (addr_of c) = Some (snd g)) xs gs"
    by (metis (no_types, lifting) list.set_intros(2))
  have "type_of r (addr_of c) = Some a \<and> tc_inv P u" if "ok r" "tc_inv P s"
    using that growsD [OF r(1)] growsD [OF w(1)] extendsD(2) w(2) by blast
  with x(1) r grows_trans [OF w(1) r(1)] show ?case
    by (intro exI [of _ r] exI [of _ "(n, a) # gs"]) auto
qed

definition visit_plain :: "tc_state visit \<Rightarrow> bool" where
  "visit_plain visit \<longleftrightarrow> (\<forall>c. is_NameTy c \<or> plain_formal c \<longrightarrow> storeless visit c)"

lemma storeless_NameTy: "is_NameTy c \<Longrightarrow> storeless (tc_visit P n) c"
  by (cases c; cases n)
    (auto simp: storeless_def is_NameTy_def tc_dispatch_def tc_NameTy_def type_set_def
      split: if_splits option.splits)

lemma storeless_VarDec:
  assumes "plain_formal c"
  shows "storeless (tc_visit P n) c"
proof -
  from assms obtain h m ty where c: "c = VarDec h m (Some ty) None" "is_NameTy ty"
    by (auto simp: plain_formal_def split: ast.splits option.splits)
  show ?thesis
  proof (cases n)
    case (Suc k)
    note ty = storeless_NameTy [OF c(2), of P k]
    have v: "tc_visit P n c s = bindE (tc_type (tc_visit P k) ty s) (\<lambda>(t, s1). Inr (type_set h t s1))"
      for s
      by (simp add: Suc c(1) tc_dispatch_def tc_VarDec_def)
    show ?thesis
      unfolding storeless_def v tc_type_def
      using ty [unfolded storeless_def]
      by (auto simp: bindE_eq_Inr type_set_def) blast+
  qed (simp add: storeless_def)
qed

lemma tc_visit_plain: "visit_plain (tc_visit P n)"
  by (simp add: visit_plain_def storeless_NameTy storeless_VarDec)

lemma typed_created_type_default [simp]:
  "type_of (created_type_default (hdr e) (Some a) v) (addr_of e) \<noteq> None"
  by (simp add: created_type_default_def type_default_def type_set_def created_type_set_def)

lemma grows_created:
  assumes "tc_program P" and e: "e \<in> set (nodes (tc_root P))" and g: "grows P s u"
    and X: "\<And>n q. X \<noteq> Named_ty n (Some q)"
    and ne: "\<not> is_Exp e" "\<not> is_VarDec e" "\<not> is_NameTy e"
    and c: "\<And>x. typed_as P u e x \<Longrightarrow> created_of u (addr_of e) = Some x"
    and t: "ok u \<Longrightarrow> tc_inv P s \<Longrightarrow> typed_as P (created_type_set (hdr e) (Some (length (types u)))
        (u\<lparr>types := types u @ [X]\<rparr>)) e (length (types u))"
  shows "grows P s (created_type_default (hdr e) (Some (length (types u)))
      (u\<lparr>types := types u @ [X]\<rparr>))"
  unfolding grows_def
proof (intro impI)
  let ?t = "created_type_default (hdr e) (Some (length (types u))) (u\<lparr>types := types u @ [X]\<rparr>)"
  assume "ok ?t"
  then have k: "ok u" by simp
  note g = growsD [OF g k]
  have "tc_inv P ?t \<and> extends u ?t" if i: "tc_inv P s"
    by (rule created_inv [OF assms(1) e g(2) [OF i] X refl ne c t [OF k i]])
  with g extends_trans show "ok s \<and> (tc_inv P s \<longrightarrow> tc_inv P ?t \<and> extends s ?t)" by blast
qed

lemma Fields_part:
  assumes "tc_program P" and e: "RecordTy h fs \<in> set (nodes (tc_root P))"
    and "x \<in> set fs" and "Field_parts x = Inr (n, c)"
  shows "c \<in> set (nodes (tc_root P)) \<and> is_NameTy c"
proof -
  have x: "x \<in> set (nodes (tc_root P))"
    by (rule seen_accepts [OF e]) (use assms(3) in \<open>simp add: accepts_defs\<close>)
  from assms(4) obtain h' where h': "x = Field_node h' n c"
    by (auto simp: Field_parts_def split: ast.splits)
  with x have "c \<in> set (nodes (tc_root P))"
    by (intro seen_accepts [OF x]) (simp add: accepts_defs)
  with tc_programD(2) [OF assms(1) x] show ?thesis by (simp add: h' wf_node_def)
qed

lemma tc_RecordTy_ok:
  assumes "tc_program P" and V: "visit_ok P visit" and N: "visit_plain visit"
    and e: "RecordTy h fs \<in> set (nodes (tc_root P))"
    and run: "tc_RecordTy visit h fs s = Inr t"
  shows "good P (RecordTy h fs) s t"
proof -
  from run obtain v where v: "foldE (\<lambda>f s. bindE (Field_parts f) (\<lambda>(n, c).
          bindE (tc_type_ref visit c s) (\<lambda>(a, s'). Inr (tc_field_add (length (types s0)) n a s'))))
        fs (s\<lparr>types := types s @ [Record_ty []]\<rparr>) = Inr v"
    "t = created_type_default h (Some (length (types s))) v" if "s0 = s" for s0
    by (auto simp: tc_RecordTy_def tc_fields_def tc_alloc_def bindE_eq_Inr)
  have part: "c \<in> set (nodes (tc_root P)) \<and> storeless visit c"
    if "x \<in> set fs" "Field_parts x = Inr (n, c)" for x n c
    using Fields_part [OF assms(1) e that] N by (auto simp: visit_plain_def)
  have "\<exists>u gs. grows P s u \<and> types u = types s \<and> v = u\<lparr>types := types s @ [Record_ty ([] @ gs)]\<rparr> \<and>
    (ok u \<and> tc_inv P s \<longrightarrow> list_all2 (\<lambda>x g. \<exists>n c. Field_parts x = Inr (n, c) \<and> fst g = n \<and>
         type_of u (addr_of c) = Some (snd g)) fs gs)"
    by (rule collect_ok [OF V part v(1) [OF refl] refl])
  then obtain u gs where
    u: "grows P s u" "types u = types s" "v = u\<lparr>types := types s @ [Record_ty gs]\<rparr>"
      "ok u \<Longrightarrow> tc_inv P s \<Longrightarrow> list_all2 (\<lambda>x g. \<exists>n c. Field_parts x = Inr (n, c) \<and> fst g = n \<and>
         type_of u (addr_of c) = Some (snd g)) fs gs"
    by auto
  let ?w = "created_type_set h (Some (length (types u))) (u\<lparr>types := types u @ [Record_ty gs]\<rparr>)"
  have "typed_as P ?w (RecordTy h fs) (length (types u))" if "ok u" "tc_inv P s"
    unfolding typed_as_def
    using list_all2_mono [OF u(4) [OF that], of "field_of ?w"]
    by (auto simp: created_type_set_def cast_Record_def field_of_def)
  then have g: "grows P s (created_type_default (hdr (RecordTy h fs)) (Some (length (types u)))
      (u\<lparr>types := types u @ [Record_ty gs]\<rparr>))"
    by (intro grows_created [OF assms(1) e u(1)]) (auto simp: typed_as_def addr_of_node is_class_defs)
  have t: "t = created_type_default (hdr (RecordTy h fs)) (Some (length (types u)))
      (u\<lparr>types := types u @ [Record_ty gs]\<rparr>)"
    using v(2) u(2,3) by simp
  have "seen t (RecordTy h fs)" unfolding t
    by (rule seen_typed [OF typed_created_type_default]) (simp_all add: is_class_defs)
  with g t show ?thesis by (simp add: good_def)
qed

lemma tc_ArrayTy_ok:
  assumes "tc_program P" and V: "visit_ok P visit"
    and e: "ArrayTy h b \<in> set (nodes (tc_root P))"
    and run: "tc_ArrayTy visit h b s = Inr t"
  shows "good P (ArrayTy h b) s t"
proof -
  from run obtain a u where u: "tc_type_ref visit b s = Inr (a, u)"
    "t = created_type_default (hdr (ArrayTy h b)) (Some (length (types u)))
       (u\<lparr>types := types u @ [Array_ty a]\<rparr>)"
    by (auto simp: tc_ArrayTy_def bindE_eq_Inr tc_alloc_def)
  have b: "b \<in> set (nodes (tc_root P))" by (rule seen_accepts [OF e]) (simp add: accepts_defs)
  note w = tc_type_ref_ok [OF V b u(1)]
  have "grows P s t" unfolding u(2)
  proof (rule grows_created [OF assms(1) e w(1)])
    show "created_of u (addr_of (ArrayTy h b)) = Some x" if "typed_as P u (ArrayTy h b) x" for x
      using that by (simp add: typed_as_def addr_of_node)
    let ?w = "created_type_set (hdr (ArrayTy h b)) (Some (length (types u)))
        (u\<lparr>types := types u @ [Array_ty a]\<rparr>)"
    have "cast_Array (types ?w) (Some (length (types u))) = Some a"
      by (simp add: created_type_set_def cast_Array_def)
    moreover have "type_of ?w (addr_of b) = Some a" "created_of ?w (adr h) = Some (length (types u))"
      using w(2) by (simp_all add: created_type_set_def)
    ultimately show "typed_as P ?w (ArrayTy h b) (length (types u))" by (simp add: typed_as_def)
  qed (simp_all add: is_class_defs)
  moreover have "seen t (ArrayTy h b)" unfolding u(2)
    by (rule seen_typed [OF typed_created_type_default]) (simp_all add: is_class_defs)
  ultimately show ?thesis by (simp add: good_def)
qed

lemma foldE_grows:
  assumes "foldE f xs s = Inr t"
    and "\<And>x s t. x \<in> set xs \<Longrightarrow> f x s = Inr t \<Longrightarrow> grows P s t \<and> (ok t \<and> tc_inv P s \<longrightarrow> Q t x)"
    and "\<And>x s t. extends s t \<Longrightarrow> Q s x \<Longrightarrow> Q t x"
  shows "grows P s t \<and> (ok t \<and> tc_inv P s \<longrightarrow> list_all (Q t) xs)"
  using assms(1,2)
proof (induction xs arbitrary: s)
  case (Cons x xs)
  from Cons.prems(1) obtain u where u: "f x s = Inr u" "foldE f xs u = Inr t"
    by (auto simp: bindE_eq_Inr)
  from Cons.prems(2) [OF _ u(1)] have x: "grows P s u" "ok u \<and> tc_inv P s \<longrightarrow> Q u x" by simp_all
  have ih: "grows P u t \<and> (ok t \<and> tc_inv P u \<longrightarrow> list_all (Q t) xs)"
    by (rule Cons.IH [OF u(2)]) (rule Cons.prems(2), simp_all)
  with x growsD [of P u t] growsD [OF x(1)] assms(3) [of u t x] grows_trans [OF x(1)]
  show ?case by auto
qed simp

lemma tc_FunctionDec_header_ok:
  assumes "tc_program P" and V: "visit_ok P visit" and N: "visit_plain visit"
    and e: "FunctionDec h n fm r b \<in> set (nodes (tc_root P))"
    and run: "tc_FunctionDec_header visit (FunctionDec h n fm r b) s = Inr t"
  shows "grows P s t \<and> (ok t \<and> tc_inv P s \<longrightarrow> type_of t (adr h) \<noteq> None)"
proof -
  let ?e = "FunctionDec h n fm r b"
  from run obtain f s1 x s2 where
    s1: "tc_formals visit fm s = Inr (f, s1)"
    and s2: "(case r of None \<Rightarrow> Inr (Void_instance, s1) | Some r \<Rightarrow> tc_type_ref visit r s1) = Inr (x, s2)"
    and t: "t = created_type_default (hdr ?e) (Some (length (types s2)))
      (s2\<lparr>types := types s2 @ [Function_ty f x]\<rparr>)"
    by (auto simp: tc_FunctionDec_header_def bindE_eq_Inr tc_alloc_def)
  let ?part = "\<lambda>d. Inr (name_get d, d) :: (symbol \<times> ast) res"
  have fm: "fm \<in> set (nodes (tc_root P))"
    by (rule seen_accepts [OF e]) (simp add: accepts_defs)
  have part: "c \<in> set (nodes (tc_root P)) \<and> storeless visit c"
    if "d \<in> set (decs_get fm)" "?part d = Inr (m, c)" for d m c
  proof -
    have "is_VarChunk fm" using tc_programD(2) [OF assms(1) e] by (simp add: wf_node_def)
    with that(1) have "d \<in> set (accepts fm)"
      by (cases fm) (auto simp: is_class_defs decs_get_def chunk_view_def accepts_defs)
    moreover have "plain_formal d"
      using tc_programD(3) [OF assms(1) e refl] that(1) by (simp add: list_all_iff)
    ultimately show ?thesis using seen_accepts [OF fm] N that(2) by (simp add: visit_plain_def)
  qed
  have loop: "foldE (\<lambda>d s. bindE (?part d) (\<lambda>(m, c).
          bindE (tc_type_ref visit c s) (\<lambda>(a, s'). Inr (tc_field_add (length (types s0)) m a s'))))
        (decs_get fm) (s\<lparr>types := types s @ [Record_ty []]\<rparr>) = Inr s1" and f: "f = length (types s)"
    if "s0 = s" for s0
    using s1 that by (auto simp: tc_formals_def tc_alloc_def bindE_eq_Inr)
  have "\<exists>u gs. grows P s u \<and> types u = types s \<and> s1 = u\<lparr>types := types s @ [Record_ty ([] @ gs)]\<rparr> \<and>
    (ok u \<and> tc_inv P s \<longrightarrow> list_all2 (\<lambda>x g. \<exists>n c. ?part x = Inr (n, c) \<and> fst g = n \<and>
         type_of u (addr_of c) = Some (snd g)) (decs_get fm) gs)"
    by (rule collect_ok [OF V part loop [OF refl] refl])
  moreover have parts: "(\<lambda>x g. \<exists>n c. ?part x = Inr (n, c) \<and> fst g = n \<and>
      type_of u (addr_of c) = Some (snd g)) = formal_of u" for u
    by (intro ext) (auto simp: formal_of_def)
  ultimately obtain u gs where
    u: "grows P s u" "types u = types s" "s1 = u\<lparr>types := types s @ [Record_ty gs]\<rparr>"
      "ok u \<Longrightarrow> tc_inv P s \<Longrightarrow> list_all2 (formal_of u) (decs_get fm) gs"
    unfolding parts by auto
  have u1: "grows P u s1"
    using alloc_inv [of P u "Record_ty gs"] u(2,3) by (simp add: grows_def)
  have r: "grows P s1 s2" "case r of None \<Rightarrow> x = Void_instance | Some n \<Rightarrow> type_of s2 (addr_of n) = Some x"
  proof -
    have "grows P s1 s2 \<and> (case r of None \<Rightarrow> x = Void_instance | Some n \<Rightarrow> type_of s2 (addr_of n) = Some x)"
    proof (cases r)
      case (Some m)
      have "m \<in> set (nodes (tc_root P))" by (rule seen_accepts [OF e]) (simp add: accepts_defs Some)
      from tc_type_ref_ok [OF V this] s2 Some show ?thesis by simp
    qed (use s2 in simp)
    then show "grows P s1 s2" "case r of None \<Rightarrow> x = Void_instance | Some n \<Rightarrow> type_of s2 (addr_of n) = Some x"
      by blast+
  qed
  have us2: "grows P u s2" and g: "grows P s s2" using grows_trans u(1) u1 r(1) by blast+
  let ?w = "created_type_set (hdr ?e) (Some (length (types s2))) (s2\<lparr>types := types s2 @ [Function_ty f x]\<rparr>)"
  have typed: "typed_as P ?w ?e (length (types s2))" if k: "ok s2" "tc_inv P s"
  proof -
    have i: "ok u" "tc_inv P u" "extends u s2" "ok s1" "tc_inv P s1" "extends s1 s2"
      using k growsD [OF r(1)] growsD [OF u1] growsD [OF u(1)] growsD [OF us2] by blast+
    have sw: "extends s2 (s2\<lparr>types := types s2 @ [Function_ty f x]\<rparr>)" by (simp add: extends_def)
    have "cast_Record (types s1) (Some f) = Some gs" by (simp add: u(3) f [OF refl] cast_Record_def)
    from cast_ext(1) [OF sw cast_ext(1) [OF i(6) this]]
    have "cast_Record (types ?w) (Some f) = Some gs" by (simp add: created_type_set_def)
    moreover have "list_all2 (formal_of ?w) (decs_get fm) gs"
      using list_all2_mono [OF u(4) [OF i(1) k(2)], of "formal_of ?w"] formal_of_ext [OF i(3)]
      by (simp add: formal_of_def created_type_set_def)
    ultimately show ?thesis
      using r(2) by (auto simp: typed_as_def created_type_set_def cast_Function_def split: option.splits)
  qed
  have "grows P s t" unfolding t
  proof (rule grows_created [OF assms(1) e g])
    show "created_of s2 (addr_of ?e) = Some x" if "typed_as P s2 ?e x" for x
      using that by (simp add: typed_as_def addr_of_node)
  qed (use typed in \<open>simp_all add: is_class_defs\<close>)
  moreover have "type_of t (adr h) \<noteq> None"
    using typed_created_type_default [of ?e] unfolding t by (simp add: addr_of_node)
  ultimately show ?thesis by blast
qed

lemma tc_FunctionDec_body_ok:
  assumes "tc_program P" and V: "visit_ok P visit"
    and e: "FunctionDec h n fm r b \<in> set (nodes (tc_root P))"
    and run: "tc_FunctionDec_body P visit (FunctionDec h n fm r b) s = Inr t"
  shows "grows P s t \<and> (ok t \<and> tc_inv P s \<longrightarrow> body_ok t (FunctionDec h n fm r b))"
proof (cases b)
  case None
  with run show ?thesis by (simp add: tc_FunctionDec_body_def body_ok_def)
next
  case (Some x)
  have x: "x \<in> set (nodes (tc_root P))" by (rule seen_accepts [OF e]) (simp add: accepts_defs Some)
  from run Some have run: "tc_routine_body P visit h x s = Inr t" by (simp add: tc_FunctionDec_body_def)
  then obtain f y a u where f: "cast_Function (types s) (created_of s (adr h)) = Some (f, y)"
    "tc_type_ref visit x s = Inr (a, u)" "check_types P h ''body'' a ''return'' y u = Inr t"
    by (cases "cast_Function (types s) (created_of s (adr h))")
      (auto simp: tc_routine_body_def Let_def bindE_eq_Inr)
  note w = tc_type_ref_ok [OF V x f(2)] and c = check_types_ok [OF f(3)]
  obtain k where k: "created_of s (adr h) = Some k"
    using f(1) by (cases "created_of s (adr h)") (auto simp: cast_defs)
  have "body_ok t (FunctionDec h n fm r b)" if "ok t" "tc_inv P s"
  proof -
    have t: "t = u" "conforms (types u) a y" using c(2) that by auto
    then have "extends s u" using growsD [OF w(1)] that by blast
    from extendsD(3) [OF this k] cast_ext(3) [OF this f(1) [unfolded k]] w(2) t
    show ?thesis by (simp add: body_ok_def Some)
  qed
  with grows_trans [OF w(1) c(1)] show ?thesis by blast
qed

lemma tc_TypeDec_header_ok:
  assumes "tc_program P" and e: "TypeDec h n ty \<in> set (nodes (tc_root P))"
    and run: "tc_TypeDec_header (TypeDec h n ty) s = Inr t"
  shows "grows P s t \<and> type_of t (adr h) \<noteq> None"
proof -
  let ?e = "TypeDec h n ty"
  from run have t: "t = created_type_default (hdr ?e) (Some (length (types s)))
      (s\<lparr>types := types s @ [Named_ty n None]\<rparr>)"
    by (simp add: tc_TypeDec_header_def tc_alloc_def)
  have "grows P s t" unfolding t
  proof (rule grows_created [OF assms(1) e grows_refl])
    show "created_of s (addr_of ?e) = Some x" if "typed_as P s ?e x" for x
      using that by (simp add: typed_as_def addr_of_node)
  qed (simp_all add: typed_as_def created_type_set_def cast_Named_def is_class_defs)
  moreover have "type_of t (adr h) \<noteq> None"
    using typed_created_type_default [of ?e] unfolding t by (simp add: addr_of_node)
  ultimately show ?thesis by blast
qed

text \<open>The name of a type gets its meaning: its store cell is filled, at most once.\<close>

lemma named_type_set_ok:
  assumes "tc_program P" and e: "TypeDec h n ty \<in> set (nodes (tc_root P))" and i: "tc_inv P u"
    and c: "created_of u (adr h) = Some c" and m: "cast_Named (types u) (Some c) = Some (m, p)"
    and t: "t = u\<lparr>types := named_type_set c (created_of u (addr_of ty)) (types u)\<rparr>"
  shows "tc_inv P t \<and> extends u t \<and>
    cast_Named (types t) (Some c) = Some (m, created_of u (addr_of ty))"
proof -
  let ?q = "created_of u (addr_of ty)"
  from m have cell: "c < length (types u)" "types u ! c = Named_ty m p"
    by (auto simp: cast_Named_def split: if_splits ty_obj.splits)
  have ts: "types t = (types u)[c := Named_ty m ?q]" using m by (simp add: t named_type_set_def)
  have d: "distinct_nodes (tc_root P)" using assms(1) by (simp add: tc_program_def)
  have p: "p = None \<or> p = ?q"
  proof (cases p)
    case (Some q)
    with cell tc_invD(5) [OF i, of c m q] obtain h' m' ty' where
      o: "TypeDec h' m' ty' \<in> set (nodes (tc_root P))" "created_of u (adr h') = Some c"
        "created_of u (addr_of ty') = Some q" by auto
    from tc_invD(4) [OF i c o(2)] have "addr_of (TypeDec h n ty) = addr_of (TypeDec h' m' ty')"
      by (simp add: addr_of_node)
    from distinct_nodes_eq [OF d e o(1) this] o(3) Some show ?thesis by simp
  qed simp
  have tt: "type_of t = type_of u" "created_of t = created_of u" by (simp_all add: t)
  have "store_ext (types u) (types t)"
    unfolding store_ext_def ts using cell p by (auto simp: nth_list_update)
  then have ext: "extends u t" by (simp add: extends_def tt)
  have "\<exists>h m ty. TypeDec h m ty \<in> set (nodes (tc_root P)) \<and>
      created_of t (adr h) = Some x \<and> created_of t (addr_of ty) = Some q"
    if x: "x < length (types t)" "types t ! x = Named_ty k (Some q)" for x k q
  proof (cases "x = c")
    case True
    with x cell have "?q = Some q" by (simp add: ts)
    with e c True show ?thesis by (auto simp: t)
  next
    case False
    with x tc_invD(5) [OF i, of x k q] show ?thesis by (simp add: ts) (simp add: t)
  qed
  moreover have "typed_as P t f y" if "f \<in> set (nodes (tc_root P))" "type_of t (addr_of f) = Some y" for f y
    using typed_as_ext [OF ext tc_invD(1) [OF i that(1)]] that(2) by (simp add: t)
  moreover have "type_of t a \<noteq> None \<and> x < length (types t)" if "created_of t a = Some x" for a x
    using that tc_invD(2,3) [OF i, of a x] by (simp add: ts) (simp add: t)
  moreover have "a = b" if "created_of t a = Some x" "created_of t b = Some x" for a b x
    using that tc_invD(4) [OF i, of a x b] by (simp add: t)
  moreover have "unstructured P t" by (rule unstructured_same [OF tc_invD(6) [OF i] ext tt(1)])
  ultimately have "tc_inv P t" unfolding tc_inv_def by blast
  moreover have "cast_Named (types t) (Some c) = Some (m, ?q)"
    using cell by (simp add: cast_Named_def ts)
  ultimately show ?thesis using ext by blast
qed

lemma tc_TypeDec_body_ok:
  assumes "tc_program P" and V: "visit_ok P visit" and e: "TypeDec h n ty \<in> set (nodes (tc_root P))"
    and run: "tc_TypeDec_body P visit (TypeDec h n ty) s = Inr t"
  shows "grows P s t \<and> (ok t \<and> tc_inv P s \<longrightarrow> body_ok t (TypeDec h n ty))"
proof -
  have m: "ty \<in> set (nodes (tc_root P))" by (rule seen_accepts [OF e]) (simp add: accepts_defs)
  from run obtain x u where u: "tc_type visit ty s = Inr (x, u)"
    and r: "(case created_of u (adr h) of
         None \<Rightarrow> Inl Null_deref
       | Some n' \<Rightarrow>
           if cast_Named (types u) (Some n') = None then Inl Null_deref
           else
             (let s2 = u\<lparr>types := named_type_set n' (created_of u (addr_of ty)) (types u)\<rparr> in
              if \<not> sound (types s2) n'
              then Inr (error_and_recover P h ''cycle of type detected'' n s2)
              else Inr s2)) = Inr t"
    by (auto simp: tc_TypeDec_body_def bindE_eq_Inr)
  note w = tc_type_ok [OF V m u]
  from r obtain c k p where c: "created_of u (adr h) = Some c" "cast_Named (types u) (Some c) = Some (k, p)"
    by (auto split: option.splits if_splits)
  define v where "v = u\<lparr>types := named_type_set c (created_of u (addr_of ty)) (types u)\<rparr>"
  from r c have t: "t = v \<or> \<not> ok t" by (auto simp: Let_def v_def split: if_splits)
  note n = named_type_set_ok [OF assms(1) e _ c v_def]
  have g: "grows P u v" using n by (auto simp: grows_def v_def)
  have "body_ok v (TypeDec h n ty)" if k: "ok v" "tc_inv P s"
  proof -
    have i: "ok u" "tc_inv P u" using k growsD [OF g] growsD [OF w(1)] by blast+
    have "\<exists>q. created_of u (addr_of ty) = Some q" if nt: "\<not> is_NameTy ty"
    proof -
      have "is_Ty ty" using tc_programD(2) [OF assms(1) e] by (simp add: wf_node_def)
      with nt tc_programD(1) [OF assms(1) m] have "(\<exists>h fs. ty = RecordTy h fs) \<or> (\<exists>h b. ty = ArrayTy h b)"
        by (cases ty) (simp_all add: is_class_defs is_object_node_def)
      moreover have "type_of u (addr_of ty) \<noteq> None"
      proof
        assume n: "type_of u (addr_of ty) = None"
        with w(2,3) i(1) k(2) have "seen u ty" by simp
        with n calculation show False by (auto simp: seen.simps)
      qed
      then obtain y where "type_of u (addr_of ty) = Some y" by blast
      then have "typed_as P u ty y" using tc_invD(1) [OF i(2) m] by blast
      ultimately show ?thesis by (auto simp: typed_as_def addr_of_node)
    qed
    with n [OF i(2)] c(1) show ?thesis by (auto simp: body_ok_def v_def)
  qed
  with t grows_trans [OF w(1) g] show ?thesis by auto
qed

section \<open>The visitor\<close>

lemma tc_chunk_ok:
  assumes "tc_chunk_visit header body ds s = Inr t"
    and "\<And>d s t. d \<in> set ds \<Longrightarrow> header d s = Inr t \<Longrightarrow>
      grows P s t \<and> (ok t \<and> tc_inv P s \<longrightarrow> type_of t (addr_of d) \<noteq> None)"
    and "\<And>d s t. d \<in> set ds \<Longrightarrow> body d s = Inr t \<Longrightarrow> grows P s t \<and> (ok t \<and> tc_inv P s \<longrightarrow> body_ok t d)"
  shows "grows P s t \<and> (ok t \<and> tc_inv P s \<longrightarrow>
    list_all (\<lambda>d. type_of t (addr_of d) \<noteq> None \<and> body_ok t d) ds)"
proof -
  from assms(1) obtain u where u: "foldE header ds s = Inr u" "foldE body ds u = Inr t"
    by (auto simp: tc_chunk_visit_def bindE_eq_Inr)
  have some: "extends a b \<Longrightarrow> type_of a x \<noteq> None \<Longrightarrow> type_of b x \<noteq> None" for a b x
    using extendsD(2) by fastforce
  have h: "grows P s u \<and> (ok u \<and> tc_inv P s \<longrightarrow> list_all (\<lambda>d. type_of u (addr_of d) \<noteq> None) ds)"
    by (rule foldE_grows [OF u(1) assms(2) some])
  have b: "grows P u t \<and> (ok t \<and> tc_inv P u \<longrightarrow> list_all (body_ok t) ds)"
    by (rule foldE_grows [OF u(2) assms(3) body_ok_ext])
  have "list_all (\<lambda>d. type_of t (addr_of d) \<noteq> None \<and> body_ok t d) ds" if k: "ok t \<and> tc_inv P s"
  proof -
    have i: "ok u" "tc_inv P u" "extends u t"
      using k growsD [OF conjunct1 [OF b]] growsD [OF conjunct1 [OF h]] by blast+
    with h b k some [OF i(3)] show ?thesis by (auto simp: list_all_iff)
  qed
  with grows_trans h b show ?thesis by blast
qed

lemma default_visit_ok:
  assumes V: "visit_ok P visit" and e: "e \<in> set (nodes (tc_root P))"
    and run: "default_visit visit e s = Inr t"
  shows "grows P s t \<and> (ok t \<and> tc_inv P s \<longrightarrow> list_all (seen t) (accepts e))"
  by (rule foldE_grows [OF run [unfolded default_visit_def]])
    (use V seen_accepts [OF e] seen_ext in \<open>unfold visit_ok_def good_def, blast+\<close>)

lemma tc_dispatch_ok:
  assumes "tc_program P" and V: "visit_ok P visit" and N: "visit_plain visit"
    and e: "e \<in> set (nodes (tc_root P))" and run: "tc_dispatch P visit e s = Inr t"
  shows "good P e s t"
proof -
  note m = assms(1) V
  note d = default_visit_ok [OF V e]
  show ?thesis
  proof (cases e)
    case (FunctionChunk h ds)
    have ds: "d \<in> set (nodes (tc_root P)) \<and> is_FunctionDec d \<and> \<not> is_object_node d" if "d \<in> set ds" for d
      using seen_accepts [OF e, of d] tc_programD(2) [OF assms(1) e] that tc_programD(1) [OF assms(1)]
      by (simp add: FunctionChunk accepts_defs wf_node_def list_all_iff)
    have "grows P s t \<and> (ok t \<and> tc_inv P s \<longrightarrow>
        list_all (\<lambda>d. type_of t (addr_of d) \<noteq> None \<and> body_ok t d) ds)"
    proof (rule tc_chunk_ok)
      show "tc_chunk_visit (tc_FunctionDec_header visit) (tc_FunctionDec_body P visit) ds s = Inr t"
        using run by (simp add: tc_dispatch_def FunctionChunk tc_FunctionChunk_def)
    next
      fix d s t assume d: "d \<in> set ds" "tc_FunctionDec_header visit d s = Inr t"
      from ds [OF d(1)] obtain h n f r b where "d = FunctionDec h n f r b"
        by (cases d) (auto simp: is_class_defs is_object_node_def)
      with tc_FunctionDec_header_ok [OF assms(1) V N, of h n f r b s t] ds [OF d(1)] d(2)
      show "grows P s t \<and> (ok t \<and> tc_inv P s \<longrightarrow> type_of t (addr_of d) \<noteq> None)"
        by (auto simp: addr_of_node)
    next
      fix d s t assume d: "d \<in> set ds" "tc_FunctionDec_body P visit d s = Inr t"
      from ds [OF d(1)] obtain h n f r b where "d = FunctionDec h n f r b"
        by (cases d) (auto simp: is_class_defs is_object_node_def)
      with tc_FunctionDec_body_ok [OF assms(1) V, of h n f r b s t] ds [OF d(1)] d(2)
      show "grows P s t \<and> (ok t \<and> tc_inv P s \<longrightarrow> body_ok t d)" by simp
    qed
    moreover have "seen t d" if "d \<in> set ds" "type_of t (addr_of d) \<noteq> None" "body_ok t d" for d
      using ds [OF that(1)] that(2,3)
      by (cases d) (auto simp: is_class_defs is_object_node_def seen.simps addr_of_node)
    ultimately show ?thesis
      by (auto simp: good_def FunctionChunk list_all_iff seen.simps [of t "FunctionChunk h ds"])
  next
    case (TypeChunk h ds)
    have ds: "d \<in> set (nodes (tc_root P)) \<and> is_TypeDec d" if "d \<in> set ds" for d
      using seen_accepts [OF e, of d] tc_programD(2) [OF assms(1) e] that
      by (simp add: TypeChunk accepts_defs wf_node_def list_all_iff)
    have "grows P s t \<and> (ok t \<and> tc_inv P s \<longrightarrow>
        list_all (\<lambda>d. type_of t (addr_of d) \<noteq> None \<and> body_ok t d) ds)"
    proof (rule tc_chunk_ok)
      show "tc_chunk_visit tc_TypeDec_header (tc_TypeDec_body P visit) ds s = Inr t"
        using run by (simp add: tc_dispatch_def TypeChunk tc_TypeChunk_def)
    next
      fix d s t assume d: "d \<in> set ds" "tc_TypeDec_header d s = Inr t"
      from ds [OF d(1)] obtain h n ty where "d = TypeDec h n ty"
        by (cases d) (auto simp: is_class_defs is_object_node_def)
      with tc_TypeDec_header_ok [OF assms(1), of h n ty s t] ds [OF d(1)] d(2)
      show "grows P s t \<and> (ok t \<and> tc_inv P s \<longrightarrow> type_of t (addr_of d) \<noteq> None)"
        by (simp add: addr_of_node)
    next
      fix d s t assume d: "d \<in> set ds" "tc_TypeDec_body P visit d s = Inr t"
      from ds [OF d(1)] obtain h n ty where "d = TypeDec h n ty"
        by (cases d) (auto simp: is_class_defs is_object_node_def)
      with tc_TypeDec_body_ok [OF assms(1) V, of h n ty s t] ds [OF d(1)] d(2)
      show "grows P s t \<and> (ok t \<and> tc_inv P s \<longrightarrow> body_ok t d)" by simp
    qed
    moreover have "seen t d" if "d \<in> set ds" "type_of t (addr_of d) \<noteq> None" "body_ok t d" for d
      using ds [OF that(1)] that(2,3)
      by (cases d) (auto simp: is_class_defs is_object_node_def seen.simps addr_of_node)
    ultimately show ?thesis
      by (auto simp: good_def TypeChunk list_all_iff seen.simps [of t "TypeChunk h ds"])
  next
    case (BreakExp h)
    with run have t: "t = type_set h (Some Void_instance) s" by (simp add: tc_dispatch_def tc_BreakExp_def)
    show ?thesis unfolding t
      by (rule tc_leaf_ok [OF assms(1) e]) (simp_all add: BreakExp is_class_defs typed_as_def)
  next
    case (NilExp h)
    with run have t: "t = type_set h (Some Nil_instance) s" by (simp add: tc_dispatch_def tc_NilExp_def)
    show ?thesis unfolding t
      by (rule tc_leaf_ok [OF assms(1) e]) (simp_all add: NilExp is_class_defs typed_as_def)
  next
    case (IntExp h i)
    with run have t: "t = type_set h (Some Int_instance) s" by (simp add: tc_dispatch_def tc_IntExp_def)
    show ?thesis unfolding t
      by (rule tc_leaf_ok [OF assms(1) e]) (simp_all add: IntExp is_class_defs typed_as_def)
  next
    case (StringExp h str)
    with run have t: "t = type_set h (Some String_instance) s" by (simp add: tc_dispatch_def tc_StringExp_def)
    show ?thesis unfolding t
      by (rule tc_leaf_ok [OF assms(1) e]) (simp_all add: StringExp is_class_defs typed_as_def)
  next
    case (FieldInit h n i)
    with run have "default_visit visit e s = Inr t" by (simp add: tc_dispatch_def)
    from d [OF this] show ?thesis
      by (auto simp: good_def FieldInit accepts_defs seen.simps [of t "FieldInit h n i"])
  next
    case (Field_node h n i)
    with run have "default_visit visit e s = Inr t" by (simp add: tc_dispatch_def)
    from d [OF this] show ?thesis
      by (auto simp: good_def Field_node accepts_defs seen.simps [of t "Field_node h n i"])
  next
    case (ChunkList h cs)
    with run have "default_visit visit e s = Inr t" by (simp add: tc_dispatch_def)
    from d [OF this] show ?thesis
      by (auto simp: good_def ChunkList accepts_defs seen.simps [of t "ChunkList h cs"])
  next
    case (VarChunk h cs)
    with run have "default_visit visit e s = Inr t" by (simp add: tc_dispatch_def)
    from d [OF this] show ?thesis
      by (auto simp: good_def VarChunk accepts_defs seen.simps [of t "VarChunk h cs"])
  qed (use run e tc_programD(1) [OF assms(1) e] tc_SimpleVar_ok [OF m] tc_FieldVar_ok [OF m]
      tc_SubscriptVar_ok [OF m] tc_RecordExp_ok [OF m] tc_OpExp_ok [OF m] tc_CallExp_ok [OF m]
      tc_ArrayExp_ok [OF m] tc_SeqExp_ok [OF m] tc_AssignExp_ok [OF m] tc_IfExp_ok [OF m]
      tc_WhileExp_ok [OF m] tc_ForExp_ok [OF m] tc_LetExp_ok [OF m] tc_CastExp_ok [OF m]
      tc_VarDec_ok [OF m] tc_NameTy_ok [OF assms(1)] tc_RecordTy_ok [OF m N] tc_ArrayTy_ok [OF m]
      in \<open>simp_all add: tc_dispatch_def is_object_node_def\<close>)
qed

lemma tc_visit_ok:
  assumes "tc_program P"
  shows "visit_ok P (tc_visit P n)"
proof (induction n)
  case (Suc n)
  show ?case
    unfolding visit_ok_def tc_visit.simps
    using tc_dispatch_ok [OF assms Suc tc_visit_plain] by blast
qed (simp add: visit_ok_def)

lemma tc_inv_start:
  assumes "types s = types_new" "type_of s = Map.empty" "created_of s = Map.empty"
  shows "tc_inv P s"
  unfolding tc_inv_def
proof (intro conjI allI impI ballI)
  fix c n q assume "c < length (types s)" "types s ! c = Named_ty n (Some q)"
  then show "\<exists>h m ty. TypeDec h m ty \<in> set (nodes (tc_root P)) \<and> created_of s (adr h) = Some c \<and>
      created_of s (addr_of ty) = Some q"
    by (auto simp: assms(1) types_new_def less_Suc_eq)
qed (use assms in \<open>simp_all add: unstructured_def types_new_def\<close>)

lemma types_check_inv:
  assumes "tc_program P" and "types_check P n tc_new = Inr (e, t)" and "status e = err_success"
  shows "tc_inv P t" and "seen t (tc_root P)"
proof -
  let ?s = "tc_new\<lparr>t_error := error_new, var_read_only := {}\<rparr>"
  from assms(2) have r: "tc_visit P n (tc_root P) ?s = Inr t" "e = error_copy (t_error t)"
    by (auto simp: types_check_def bindE_eq_Inr)
  have "ok t" using assms(3) r(2) by (simp add: ok_def error_copy_def error_assign_def)
  moreover have "tc_inv P ?s" by (rule tc_inv_start) (simp_all add: tc_new_def)
  moreover have "good P (tc_root P) ?s t"
    using tc_visit_ok [OF assms(1)] r(1) nodes_self unfolding visit_ok_def by blast
  ultimately show "tc_inv P t" "seen t (tc_root P)" by (auto simp: good_def grows_def)
qed

section \<open>Properties\<close>

text \<open>C3: When the checker accepts a program, the annotations are a typing derivation: the whole program
  was checked, and every node that has a type obeys the typing rule of its construct, given the types
  of its parts.\<close>

theorem types_check_sound:
  assumes "tc_program P" and "types_check P n tc_new = Inr (e, t)" and "status e = err_success"
  shows "seen t (tc_root P) \<and>
    (\<forall>x \<in> set (nodes (tc_root P)). \<forall>ty. type_of t (addr_of x) = Some ty \<longrightarrow> typed_as P t x ty)"
  using types_check_inv [OF assms] tc_invD(1) by blast

declare addr_of_hdr [simp del]

text \<open>To run the checker on examples.\<close>

lemma addr_of_header_at:
  "addr_of (LetExp h a b) = adr h" "addr_of (VarDec h n tn i) = adr h" "addr_of (OpExp h l p r) = adr h"
  "addr_of (SimpleVar h n) = adr h" "addr_of (IntExp h w) = adr h" "addr_of (StringExp h n) = adr h"
  "addr_of (SubscriptVar h v j) = adr h" "addr_of (CastExp h a b) = adr h" "addr_of (NameTy h n) = adr h"
  "adr (header_at k) = k"
  by (simp_all add: addr_of_def header_at_def)

lemma run_IntExp: "tc_visit P (Suc n) (IntExp h w) s = Inr (type_set h (Some Int_instance) s)"
  by (simp add: tc_dispatch_def tc_IntExp_def)

lemma run_VarDec:
  "tc_visit P (Suc n) (VarDec h x None (Some i)) s =
    bindE (tc_type (tc_visit P n) i s) (\<lambda>(t, s1). Inr (type_set h t s1))"
  by (simp add: tc_dispatch_def tc_VarDec_def)

lemma run_SimpleVar: "tc_visit P (Suc n) (SimpleVar h x) s = tc_SimpleVar P (tc_visit P n) h s"
  by (simp add: tc_dispatch_def)

lemma run_OpExp: "tc_visit P (Suc n) (OpExp h l p r) s = tc_OpExp P (tc_visit P n) h l p r s"
  by (simp add: tc_dispatch_def)

lemma run_LetExp: "tc_visit P (Suc n) (LetExp h c b) s = tc_LetExp (tc_visit P n) h c b s"
  by (simp add: tc_dispatch_def)

lemma run_ChunkList: "tc_visit P (Suc n) (ChunkList h cs) s = foldE (tc_visit P n) cs s"
  by (simp add: tc_dispatch_def default_visit_def accepts_defs)

lemma run_VarChunk: "tc_visit P (Suc n) (VarChunk h ds) s = foldE (tc_visit P n) ds s"
  by (simp add: tc_dispatch_def default_visit_def accepts_defs)

lemma type_set_sel [simp]:
  "type_of (type_set h t s) = (type_of s)(adr h := t)" "types (type_set h t s) = types s"
  "t_error (type_set h t s) = t_error s"
  by (simp_all add: type_set_def)

lemma tc_new_sel:
  "types tc_new = types_new" "type_of tc_new = Map.empty" "t_error tc_new = error_new"
  "tc_new\<lparr>t_error := error_new, var_read_only := {}\<rparr> = tc_new"
  by (simp_all add: tc_new_def)

lemma actual_base: "actual types_new 0 = Inr 0"
  by (simp add: actual_def types_new_def ty_at_def)

lemmas tc_run =
  run_IntExp run_VarDec run_SimpleVar run_OpExp run_LetExp run_ChunkList run_VarChunk
  tc_LetExp_def tc_OpExp_def check_type_def tc_type_def tc_SimpleVar_def
  addr_of_header_at tc_new_sel deref_ty_def Int_instance_def ty_neq_def ty_eq_def

lemma error_copy_status [simp]: "status (error_copy e) = status e"
  by (simp add: error_copy_def error_assign_def)

lemma error_new_status [simp]: "status error_new = err_success"
  by (simp add: error_new_def)

definition sound_example :: tc_env where
  "sound_example =
     \<lparr>tc_root = LetExp (header_at 0)
        (ChunkList (header_at 1) [VarChunk (header_at 2)
          [VarDec (header_at 3) ''x'' None (Some (IntExp (header_at 4) 1))]])
        (OpExp (header_at 5) (SimpleVar (header_at 6) ''x'') op_add (IntExp (header_at 7) 2)),
      tc_defs = [6 \<mapsto> 3], loc_str = \<lambda>l. [], ptr_str = \<lambda>p. []\<rparr>"

lemma sound_example_program: "tc_program sound_example"
  unfolding tc_program_def distinct_nodes_def sound_example_def
  by (simp add: nodes.simps addr_of_def header_at_def is_object_node_def wf_node_def is_class_defs)

lemma sound_example_use:
  "tc_def sound_example (header_at 6) =
    Inr (Some (VarDec (header_at 3) ''x'' None (Some (IntExp (header_at 4) 1))))"
  by (simp add: tc_def_def def_get_def sound_example_def node_at_def nodes.simps addr_of_def header_at_def)

lemma sound_example_run:
  "\<exists>e t. types_check sound_example 6 tc_new = Inr (e, t) \<and> status e = err_success \<and>
     type_of t 0 = Some Int_instance"
proof -
  have r: "tc_root sound_example = LetExp (header_at 0)
        (ChunkList (header_at 1) [VarChunk (header_at 2)
          [VarDec (header_at 3) ''x'' None (Some (IntExp (header_at 4) 1))]])
        (OpExp (header_at 5) (SimpleVar (header_at 6) ''x'') op_add (IntExp (header_at 7) 2))"
    by (simp add: sound_example_def)
  have "\<exists>t. tc_visit sound_example (Suc (Suc (Suc (Suc (Suc (Suc 0)))))) (tc_root sound_example) tc_new = Inr t \<and>
      t_error t = error_new \<and> type_of t 0 = Some 0"
    unfolding r by (simp add: tc_run sound_example_use actual_base del: tc_visit.simps)
  then show ?thesis
    by (auto simp: types_check_def tc_new_sel Int_instance_def numeral_eq_Suc simp del: tc_visit.simps)
qed

theorem types_check_sound_witness:
  "\<exists>e t. types_check sound_example 6 tc_new = Inr (e, t) \<and> status e = err_success \<and>
     typed_as sound_example t (tc_root sound_example) Int_instance"
proof -
  from sound_example_run obtain e t where t: "types_check sound_example 6 tc_new = Inr (e, t)"
    "status e = err_success" "type_of t 0 = Some Int_instance" by blast
  from types_check_sound [OF sound_example_program t(1,2)] nodes_self t(3)
  have "typed_as sound_example t (tc_root sound_example) Int_instance"
    by (auto simp: sound_example_def addr_of_header_at)
  with t(1,2) show ?thesis by blast
qed

end
