(* ===== verification/Type_Results.thy ===== *)
theory Type_Results
  imports Type_Sound
begin

text \<open>
  What follows from the model of \<^verbatim>\<open>src/type/type-checker.cc\<close> beside its soundness: when the checker
  ends, with a bound on the nesting of its calls; a program, accepted by the Binder, on which it does
  not end; and that no access to a field or an element is ever accepted in a program without casts.
\<close>

section \<open>The calls of a visit\<close>

text \<open>The nodes that the visit of a node may visit: its descendants, and the declaration of a variable.\<close>

definition tc_calls :: "tc_env \<Rightarrow> ast \<Rightarrow> ast \<Rightarrow> bool" where
  "tc_calls P e c \<longleftrightarrow> (\<exists>d \<in> set (subs e). c \<in> set (nodes d)) \<or>
     (\<exists>h n. e = SimpleVar h n \<and> tc_def P h = Inr (Some c))"

lemma sub_call: "c \<in> set (subs e) \<Longrightarrow> tc_calls P e c"
  using nodes_self tc_calls_def by blast

lemma sub_sub_call:
  assumes "d \<in> set (subs e)" and "c \<in> set (subs d)"
  shows "tc_calls P e c"
  using assms nodes_trans [OF assms(2)] nodes_self [of c] unfolding tc_calls_def by blast

lemma sub_sub_sub_call:
  assumes "d \<in> set (subs e)" and "b \<in> set (subs d)" and "c \<in> set (subs b)"
  shows "tc_calls P e c"
  using assms nodes_trans [OF assms(2)] nodes_trans [OF assms(3)] nodes_self [of c]
  unfolding tc_calls_def by blast

lemma tc_fields_cong:
  assumes "\<And>c t. c \<in> set fs \<Longrightarrow> t \<in> set (subs c) \<Longrightarrow> f t = g t"
  shows "tc_fields f fs s = tc_fields g fs s"
proof -
  have "foldE (\<lambda>x s. bindE (Field_parts x) (\<lambda>(n, t).
          bindE (tc_type_ref f t s) (\<lambda>(a, s'). Inr (tc_field_add r n a s')))) fs u =
     foldE (\<lambda>x s. bindE (Field_parts x) (\<lambda>(n, t).
          bindE (tc_type_ref g t s) (\<lambda>(a, s'). Inr (tc_field_add r n a s')))) fs u" for r u
    by (rule foldE_cong [OF refl refl])
      (use assms in \<open>auto simp: Field_parts_def tc_type_ref_def tc_type_def split: ast.splits\<close>)
  then show ?thesis by (simp add: tc_fields_def tc_alloc_def)
qed

lemma tc_formals_cong:
  assumes "\<And>c. c \<in> set (decs_get e) \<Longrightarrow> f c = g c"
  shows "tc_formals f e s = tc_formals g e s"
proof -
  have "foldE (\<lambda>var s. bindE (tc_type_ref f var s) (\<lambda>(a, s'). Inr (tc_field_add r (name_get var) a s')))
          (decs_get e) u =
     foldE (\<lambda>var s. bindE (tc_type_ref g var s) (\<lambda>(a, s'). Inr (tc_field_add r (name_get var) a s')))
          (decs_get e) u" for r u
    by (rule foldE_cong [OF refl refl]) (use assms in \<open>simp add: tc_type_ref_def tc_type_def\<close>)
  then show ?thesis by (simp add: tc_formals_def tc_alloc_def)
qed

lemma tc_inits_cong:
  assumes "\<And>c t. c \<in> set fs \<Longrightarrow> t \<in> set (subs c) \<Longrightarrow> f t = g t"
  shows "tc_inits P f h r i fs s = tc_inits P g h r i fs s"
  using assms
proof (induction fs arbitrary: i s)
  case (Cons x fs)
  have "FieldInit_init x = Inr t \<Longrightarrow> f t = g t" for t
    using Cons.prems [of x] by (auto simp: FieldInit_init_def split: ast.splits)
  then have "bindE (FieldInit_init x) (\<lambda>t. bindE (tc_type_ref f t s) (\<lambda>(a, s1). k t a s1)) =
     bindE (FieldInit_init x) (\<lambda>t. bindE (tc_type_ref g t s) (\<lambda>(a, s1). k t a s1))" for k :: "ast \<Rightarrow> addr \<Rightarrow> tc_state \<Rightarrow> tc_state res"
    by (cases "FieldInit_init x") (simp_all add: tc_type_ref_def tc_type_def)
  moreover have "tc_inits P f h r j fs = tc_inits P g h r j fs" for j
    by (rule ext) (use Cons in auto)
  ultimately show ?case by simp
qed simp

lemma tc_args_cong:
  assumes "\<And>c. c \<in> set es \<Longrightarrow> f c = g c"
  shows "tc_args P f h fs es s = tc_args P g h fs es s"
  using assms
proof (induction P f h fs es s rule: tc_args.induct)
  case (1 P visit h f fs e es s)
  then show ?case by (auto simp: tc_type_ref_def tc_type_def intro!: bindE_cong)
qed simp_all

lemma tc_SeqExp_loop_cong:
  assumes "\<And>c. c \<in> set es \<Longrightarrow> f c = g c"
  shows "tc_SeqExp_loop f l es s = tc_SeqExp_loop g l es s"
  using assms
proof (induction es arbitrary: l s)
  case (Cons e es)
  then have "tc_SeqExp_loop f l es = tc_SeqExp_loop g l es" for l by (intro ext) simp
  with Cons.prems show ?case by (simp add: tc_type_def)
qed simp

lemma decs_get_subs: "c \<in> set (decs_get e) \<Longrightarrow> c \<in> set (subs e)"
  by (cases e) (auto simp: decs_get_def chunk_view_def)

lemma tc_dispatch_cong:
  assumes eq: "\<And>c. tc_calls P e c \<Longrightarrow> f c = g c"
  shows "tc_dispatch P f e s = tc_dispatch P g e s"
proof -
  note sub = eq [OF sub_call] and sub2 = eq [OF sub_sub_call] and sub3 = eq [OF sub_sub_sub_call]
  note unf = tc_dispatch_def tc_type_def [abs_def] tc_type_ref_def [abs_def] check_type_def [abs_def] check_two_def [abs_def]
  show ?thesis
  proof (cases e)
    case (SimpleVar h n)
    have "tc_def P h = Inr (Some d) \<Longrightarrow> f d = g d" for d
      by (rule eq) (simp add: tc_calls_def SimpleVar)
    then show ?thesis
      by (cases "tc_def P h") (auto simp: unf SimpleVar tc_SimpleVar_def split: option.splits)
  next
    case (RecordExp h n ins)
    have "tc_inits P f h r i ins s = tc_inits P g h r i ins s" for r i s
      by (rule tc_inits_cong) (use sub2 in \<open>auto simp: RecordExp\<close>)
    with RecordExp sub [of n] show ?thesis by (simp add: unf tc_RecordExp_def Let_def cong: if_cong)
  next
    case (CallExp h n as)
    have "tc_args P f h fs as = tc_args P g h fs as" for fs
      by (rule ext, rule tc_args_cong) (use sub in \<open>simp add: CallExp\<close>)
    with CallExp show ?thesis by (simp add: unf tc_CallExp_def cong: if_cong option.case_cong prod.case_cong)
  next
    case (SeqExp h es)
    have "tc_SeqExp_loop f l es s = tc_SeqExp_loop g l es s" for l s
      by (rule tc_SeqExp_loop_cong) (use sub in \<open>simp add: SeqExp\<close>)
    with SeqExp show ?thesis by (simp add: unf tc_SeqExp_def)
  next
    case (RecordTy h fs)
    have "tc_fields f fs s = tc_fields g fs s" for s
      by (rule tc_fields_cong) (use sub2 in \<open>simp add: RecordTy\<close>)
    with RecordTy show ?thesis by (simp add: unf tc_RecordTy_def)
  next
    case (FunctionChunk h ds)
    have h: "tc_FunctionDec_header f d u = tc_FunctionDec_header g d u" if "d \<in> set ds" for d u
    proof (cases d)
      case (FunctionDec k m fm r b)
      have "tc_formals f fm v = tc_formals g fm v" for v
        by (rule tc_formals_cong) (use sub3 [of d fm] that decs_get_subs [of _ fm] in \<open>auto simp: FunctionChunk FunctionDec\<close>)
      with FunctionDec sub2 [of d] that FunctionChunk show ?thesis
        by (cases r) (simp_all add: tc_FunctionDec_header_def unf cong: if_cong)
    qed (simp_all add: tc_FunctionDec_header_def)
    have b: "tc_FunctionDec_body P f d u = tc_FunctionDec_body P g d u" if "d \<in> set ds" for d u
      using sub2 [of d] that FunctionChunk
      by (cases d) (auto simp: tc_FunctionDec_body_def tc_routine_body_def unf Let_def split: option.splits cong: if_cong)
    have "foldE (tc_FunctionDec_header f) ds = foldE (tc_FunctionDec_header g) ds"
      "foldE (tc_FunctionDec_body P f) ds = foldE (tc_FunctionDec_body P g) ds"
      using h b by (auto intro!: ext foldE_cong)
    then show ?thesis using FunctionChunk
      by (simp add: unf tc_FunctionChunk_def tc_chunk_visit_def)
  next
    case (TypeChunk h ds)
    have b: "tc_TypeDec_body P f d u = tc_TypeDec_body P g d u" if "d \<in> set ds" for d u
      using sub2 [of d] that TypeChunk
      by (cases d) (auto simp: tc_TypeDec_body_def unf cong: if_cong)
    have "foldE (tc_TypeDec_body P f) ds = foldE (tc_TypeDec_body P g) ds"
      using b by (auto intro!: ext foldE_cong)
    then show ?thesis using TypeChunk
      by (simp add: unf tc_TypeChunk_def tc_chunk_visit_def)
  next
    case (ChunkList h cs)
    then show ?thesis using sub by (auto simp: unf default_visit_def accepts_defs intro: foldE_cong)
  next
    case (VarChunk h cs)
    then show ?thesis using sub by (auto simp: unf default_visit_def accepts_defs intro: foldE_cong)
  next
    case (VarDec h n tn i)
    then show ?thesis using sub by (cases tn; cases i) (simp_all add: unf tc_VarDec_def cong: if_cong)
  qed (use sub in \<open>simp_all add: unf tc_FieldVar_def tc_SubscriptVar_def tc_NilExp_def tc_OpExp_def
    tc_ArrayExp_def tc_AssignExp_def tc_IfExp_def tc_WhileExp_def tc_ForExp_def tc_LetExp_def tc_CastExp_def
    tc_ArrayTy_def non_object_visit_def default_visit_def accepts_defs Let_def cong: if_cong\<close>)
qed

definition tc_ranked :: "tc_env \<Rightarrow> (addr \<Rightarrow> nat) \<Rightarrow> bool" where
  "tc_ranked P rank \<longleftrightarrow> (\<forall>e \<in> set (nodes (tc_root P)).
     (\<forall>c \<in> set (subs e). rank (addr_of c) < rank (addr_of e)) \<and>
     (case e of
        SimpleVar h _ \<Rightarrow> \<forall>d. tc_def P h = Inr (Some d) \<longrightarrow> rank (addr_of d) < rank (adr h)
      | _ \<Rightarrow> True))"

lemma ranked_nodes:
  assumes "tc_ranked P rank"
  shows "set (nodes e) \<subseteq> set (nodes (tc_root P)) \<Longrightarrow> c \<in> set (nodes e) \<Longrightarrow> rank (addr_of c) \<le> rank (addr_of e)"
proof (induction e rule: nodes.induct)
  case (1 e)
  show ?case
  proof (cases "c = e")
    case False
    with 1(3) obtain d where d: "d \<in> set (subs e)" "c \<in> set (nodes d)" by (auto simp: nodes.simps [of e])
    from nodes_trans [OF d(1)] 1(2) have n: "set (nodes d) \<subseteq> set (nodes (tc_root P))" by simp
    have "rank (addr_of c) \<le> rank (addr_of d)" by (rule 1(1) [OF d(1) n d(2)])
    moreover have "e \<in> set (nodes (tc_root P))" using 1(2) nodes_self by blast
    with assms d(1) have "rank (addr_of d) < rank (addr_of e)" by (auto simp: tc_ranked_def)
    ultimately show ?thesis by simp
  qed simp
qed

lemma ranked_call:
  assumes "tc_ranked P rank" and e: "e \<in> set (nodes (tc_root P))" and "tc_calls P e c"
  shows "c \<in> set (nodes (tc_root P)) \<and> rank (addr_of c) < rank (addr_of e)"
proof -
  have sub: "set (nodes e) \<subseteq> set (nodes (tc_root P))" by (rule nodes_sub [OF e])
  from assms(3) consider d where "d \<in> set (subs e)" "c \<in> set (nodes d)"
    | h n where "e = SimpleVar h n" "tc_def P h = Inr (Some c)"
    by (auto simp: tc_calls_def)
  then show ?thesis
  proof cases
    case 1
    from nodes_trans [OF 1(1)] sub have n: "set (nodes d) \<subseteq> set (nodes (tc_root P))" by simp
    have "rank (addr_of d) < rank (addr_of e)" using assms(1) e 1(1) by (auto simp: tc_ranked_def)
    with ranked_nodes [OF assms(1) n 1(2)] n 1(2) show ?thesis by auto
  next
    case 2
    then show ?thesis using assms(1) e tc_def_node [OF 2(2)] by (auto simp: tc_ranked_def addr_of_header_at addr_of_def)
  qed
qed

lemma ranked_visit:
  assumes "tc_ranked P rank"
  shows "e \<in> set (nodes (tc_root P)) \<Longrightarrow> rank (addr_of e) < n \<Longrightarrow> rank (addr_of e) < m \<Longrightarrow>
    ((tc_dispatch P) ^^ n) f e = ((tc_dispatch P) ^^ m) g e"
proof (induction n arbitrary: m e)
  case (Suc n)
  from Suc.prems(3) obtain k where k: "m = Suc k" by (cases m) auto
  have "((tc_dispatch P) ^^ n) f c = ((tc_dispatch P) ^^ k) g c" if "tc_calls P e c" for c
    by (rule Suc.IH) (use ranked_call [OF assms Suc.prems(1) that] Suc.prems(2,3) k in auto)
  then show ?case
    unfolding k funpow.simps comp_def by (intro ext) (rule tc_dispatch_cong)
qed simp

lemma tc_visit_funpow: "tc_visit P n = ((tc_dispatch P) ^^ n) (\<lambda>e s. Inl No_fuel)"
proof (induction n)
  case (Suc n)
  have "tc_visit P (Suc n) = tc_dispatch P (tc_visit P n)" by (intro ext) simp
  with Suc show ?case by simp
qed simp

text \<open>C4: The checker ends on every program whose uses of variables lead to declarations of a smaller
  rank, whatever would be done once its calls are nested deeper than the rank of the program: the
  bound on the nesting is never reached, and the verdict is the same for all the larger bounds.\<close>

theorem types_check_ends:
  assumes "tc_ranked P rank" and "rank (addr_of (tc_root P)) < n"
  shows "tc_visit P n (tc_root P) s = (tc_dispatch P ^^ n) beyond (tc_root P) s \<and>
    types_check P n s = types_check P (Suc (rank (addr_of (tc_root P)))) s"
proof
  show "tc_visit P n (tc_root P) s = (tc_dispatch P ^^ n) beyond (tc_root P) s"
    unfolding tc_visit_funpow by (rule fun_cong [OF ranked_visit [OF assms(1) nodes_self assms(2,2)]])
  have "tc_visit P n (tc_root P) = tc_visit P (Suc (rank (addr_of (tc_root P)))) (tc_root P)"
    unfolding tc_visit_funpow by (rule ranked_visit [OF assms(1) nodes_self assms(2)]) simp
  then show "types_check P n s = types_check P (Suc (rank (addr_of (tc_root P)))) s"
    by (simp only: types_check_def)
qed

lemma addr_of_chunks:
  "addr_of (ChunkList h cs) = adr h" "addr_of (VarChunk h ds) = adr h"
  by (simp_all add: addr_of_def)
definition example_rank :: "addr \<Rightarrow> nat" where
  "example_rank a = [6, 4, 3, 2, 1, 5, 3, 1] ! a"

theorem types_check_ends_witness:
  "types_check sound_example 9 tc_new = types_check sound_example 7 tc_new"
proof -
  have r: "tc_root sound_example = LetExp (header_at 0)
        (ChunkList (header_at 1) [VarChunk (header_at 2)
          [VarDec (header_at 3) ''x'' None (Some (IntExp (header_at 4) 1))]])
        (OpExp (header_at 5) (SimpleVar (header_at 6) ''x'') op_add (IntExp (header_at 7) 2))"
    by (simp add: sound_example_def)
  have "tc_ranked sound_example example_rank"
    unfolding tc_ranked_def r
    by (simp add: nodes.simps sound_example_use addr_of_header_at addr_of_chunks example_rank_def)
  from types_check_ends [OF this, of 9 tc_new "\<lambda>e s. Inl No_fuel"] show ?thesis
    by (simp add: r addr_of_header_at example_rank_def del: tc_visit.simps)
qed

text \<open>\<open>let var x := x in x end\<close>.\<close>

definition self_init :: ast where
  "self_init = LetExp (header_at 0)
     (ChunkList (header_at 1) [VarChunk (header_at 2)
        [VarDec (header_at 3) ''x'' None (Some (SimpleVar (header_at 4) ''x''))]])
     (SimpleVar (header_at 5) ''x'')"

definition bound_env :: "ast \<Rightarrow> (addr \<rightharpoonup> addr) \<Rightarrow> tc_env" where
  "bound_env root defs = \<lparr>tc_root = root, tc_defs = defs, loc_str = \<lambda>l. [], ptr_str = \<lambda>p. []\<rparr>"

lemma self_init_bound:
  "\<exists>b. launch_bind self_init = Inr b \<and> bindings b 4 = Some 3"
  by (simp add: self_init_def launch_bind_def binder_visit.simps binder_dispatch_def binder_method_defs
      default_visit_def accepts_defs binder_new_def binder_scope_begin_def binder_scope_end_def
      sm_scope_begin_def sm_new_def sm_put_def sm_scope_end_def sm_get_def def_set_def addr_of_header_at accept_opt_def name_get_def)

lemma self_init_loop:
  assumes "tc_def P k = Inr (Some (VarDec h x None (Some (SimpleVar k y))))"
    and "type_of s (adr h) = None" and "type_of s (adr k) = None"
  shows "tc_visit P n (VarDec h x None (Some (SimpleVar k y))) s = Inl No_fuel \<and>
    tc_visit P n (SimpleVar k y) s = Inl No_fuel"
proof (induction n)
  case (Suc n)
  then show ?case using assms
    by (simp add: run_VarDec run_SimpleVar tc_SimpleVar_def tc_type_def addr_of_header_at del: tc_visit.simps)
qed simp

text \<open>C8: The Binder accepts a variable in its own initialiser, as in \<^verbatim>\<open>let var x := x in x end\<close>;
  the checker then never returns, whatever the bound on the nesting of its calls.\<close>

theorem self_init_never_returns:
  "\<exists>b. launch_bind self_init = Inr b \<and>
     (\<forall>n. types_check (bound_env self_init (bindings b)) n tc_new = Inl No_fuel)"
proof -
  from self_init_bound obtain b where b: "launch_bind self_init = Inr b" "bindings b 4 = Some 3" by blast
  let ?P = "bound_env self_init (bindings b)"
  let ?x = "VarDec (header_at 3) ''x'' None (Some (SimpleVar (header_at 4) ''x''))"
  have d: "tc_def ?P (header_at 4) = Inr (Some ?x)"
    using b(2) by (simp add: tc_def_def def_get_def bound_env_def self_init_def node_at_def nodes.simps
      addr_of_header_at addr_of_chunks)
  have x: "tc_visit ?P n ?x tc_new = Inl No_fuel" for n
    using self_init_loop [OF d] by (simp add: tc_new_sel)
  have "tc_visit ?P n self_init tc_new = Inl No_fuel" for n
  proof (cases n)
    case (Suc m)
    have "tc_visit ?P k (VarChunk (header_at 2) [?x]) tc_new = Inl No_fuel" for k
      using x by (cases k) (simp_all add: run_VarChunk del: tc_visit.simps(2))
    then have "tc_visit ?P k (ChunkList (header_at 1) [VarChunk (header_at 2) [?x]]) tc_new = Inl No_fuel" for k
      by (cases k) (simp_all add: run_ChunkList del: tc_visit.simps(2))
    then show ?thesis unfolding self_init_def Suc by (simp add: run_LetExp tc_LetExp_def del: tc_visit.simps(2))
  qed simp
  then have "types_check ?P n tc_new = Inl No_fuel" for n
    by (simp add: types_check_def tc_new_sel bound_env_def)
  with b(1) show ?thesis by blast
qed

text \<open>C7: In a well-formed program without casts on which the checker returns, an access to a field or to an element
  that has been given a type makes the checker refuse the program: the type of a variable is at best a name for a record or an array, which
  the two methods do not look through.\<close>

theorem access_refused:
  assumes "tc_program P" and "plain_program P" and "types_check P n tc_new = Inr (e, t)"
    and x: "x \<in> set (nodes (tc_root P))" "x = FieldVar h v nm \<or> x = SubscriptVar h v i"
    and ty: "type_of t (addr_of x) \<noteq> None"
  shows "status e \<noteq> err_success"
proof
  assume "status e = err_success"
  note inv = types_check_inv(1) [OF assms(1,3) this]
  from ty obtain a where "type_of t (addr_of x) = Some a" by blast
  with tc_invD(1) [OF inv x(1)] have typed: "typed_as P t x a" .
  note wf = tc_programD(2) [OF assms(1) x(1)]
  have wv: "v \<in> set (accepts x)" "is_Exp v"
    using wf x(2) by (cases v; auto simp: accepts_defs wf_node_def is_class_defs)+
  obtain b where v: "type_of t (addr_of v) = Some b" "is_struct (types t) b"
    using typed x(2) by (cases "type_of t (addr_of v)")
      (auto simp: typed_as_def is_struct_def cast_Record_def cast_Array_def)
  from unstructuredD(3) [OF tc_invD(6) [OF inv] assms(2) child_node [OF x(1) wv(1)] v(1)] v(2) wv(2)
  show False by blast
qed

text \<open>\<open>let type a = {x : int} var r := a {x = 1} in r.x end\<close>, with the bindings of its names.\<close>

definition access_example :: tc_env where
  "access_example = bound_env
     (LetExp (header_at 0)
       (ChunkList (header_at 1)
         [TypeChunk (header_at 2) [TypeDec (header_at 3) ''a''
            (RecordTy (header_at 4) [Field_node (header_at 5) ''x'' (NameTy (header_at 6) ''int'')])],
          VarChunk (header_at 7) [VarDec (header_at 8) ''r'' None
            (Some (RecordExp (header_at 9) (NameTy (header_at 10) ''a'')
               [FieldInit (header_at 11) ''x'' (IntExp (header_at 12) 1)]))]])
       (FieldVar (header_at 13) (SimpleVar (header_at 14) ''r'') ''x''))
     [10 \<mapsto> 3, 14 \<mapsto> 8]"

lemma access_example_program: "tc_program access_example" "plain_program access_example"
proof -
  show "tc_program access_example"
    unfolding tc_program_def distinct_nodes_def access_example_def bound_env_def
    by (simp add: nodes.simps addr_of_def header_at_def is_object_node_def wf_node_def is_class_defs)
  show "plain_program access_example"
    unfolding plain_program_def access_example_def bound_env_def
    by (simp add: nodes.simps tc_def_def def_get_def node_at_def addr_of_def header_at_def is_class_defs)
qed

lemma access_example_defs:
  "tc_def access_example (header_at 10) = Inr (Some (TypeDec (header_at 3) ''a''
     (RecordTy (header_at 4) [Field_node (header_at 5) ''x'' (NameTy (header_at 6) ''int'')])))"
  "tc_def access_example (header_at 14) = Inr (Some (VarDec (header_at 8) ''r'' None
            (Some (RecordExp (header_at 9) (NameTy (header_at 10) ''a'')
               [FieldInit (header_at 11) ''x'' (IntExp (header_at 12) 1)]))))"
  "tc_defs access_example 10 = Some 3"
  by (simp_all add: tc_def_def def_get_def node_at_def addr_of_def header_at_def access_example_def bound_env_def nodes.simps)

abbreviation "access_named \<equiv> Suc (Suc (Suc (Suc 0)))"

definition access_types :: ty_store where
  "access_types = types_new @ [Named_ty ''a'' (Some (Suc access_named)), Record_ty [(''x'', 0)]]"

lemma access_types_sound: "sound access_types access_named"
  by (simp add: sound_def sound_loop.simps [of _ _ access_named] access_types_def types_new_def named_next_def cast_defs)

lemma access_example_types:
  "\<exists>t. tc_visit access_example (Suc (Suc (Suc n))) (TypeChunk (header_at 2) [TypeDec (header_at 3) ''a''
            (RecordTy (header_at 4) [Field_node (header_at 5) ''x'' (NameTy (header_at 6) ''int'')])]) tc_new = Inr t \<and>
       types t = access_types \<and> type_of t = [3 \<mapsto> access_named, 6 \<mapsto> 0, 4 \<mapsto> Suc access_named] \<and>
       created_of t = [3 \<mapsto> access_named, 4 \<mapsto> Suc access_named]"
  using access_types_sound
  by (simp add: tc_dispatch_def tc_TypeChunk_def tc_chunk_visit_def tc_TypeDec_header_def tc_TypeDec_body_def
    tc_alloc_def created_type_default_def created_type_set_def type_default_def type_set_def tc_new_def addr_of_node addr_of_header_at types_new_def tc_type_def
    tc_RecordTy_def tc_fields_def Field_parts_def tc_NameTy_def tc_type_ref_def deref_ty_def Int_instance_def tc_field_add_def field_add_def
    cast_defs named_type_set_def access_types_def)

lemma access_types_int: "actual access_types 0 = Inr 0" "compatible_with access_types 0 0 = Inr True"
proof -
  show i: "actual access_types 0 = Inr 0" by (simp add: actual_def ty_at_def access_types_def types_new_def)
  have "\<not> is_function_at access_types 0" by (simp add: is_function_at_def cast_defs access_types_def types_new_def)
  from compatible_upto_actual [OF i this] i show "compatible_with access_types 0 0 = Inr True"
    by (simp add: compatible_with_def del: compatible_upto.simps)
qed

lemma addr_of_at: "adr (header_at k) = k" by (simp add: header_at_def)

lemma access_example_var:
  assumes "types s = access_types" "type_of s = [3 \<mapsto> access_named, 6 \<mapsto> 0, 4 \<mapsto> Suc access_named]"
       "created_of s = [3 \<mapsto> access_named, 4 \<mapsto> Suc access_named]"
  shows "\<exists>t. tc_visit access_example (Suc (Suc (Suc (Suc n)))) (VarChunk (header_at 7) [VarDec (header_at 8) ''r'' None
            (Some (RecordExp (header_at 9) (NameTy (header_at 10) ''a'')
               [FieldInit (header_at 11) ''x'' (IntExp (header_at 12) 1)]))]) s = Inr t \<and>
     types t = access_types \<and> type_of t 8 = Some access_named \<and> type_of t 13 = None \<and> type_of t 14 = None"
proof -
  have r: "cast_Record access_types (Some (Suc access_named)) = Some [(''x'', 0)]"
    by (simp add: cast_defs access_types_def types_new_def)
  show ?thesis
  apply (simp add: assms run_VarDec run_VarChunk tc_type_def addr_of_def addr_of_at del: tc_visit.simps)
  apply (simp add: assms tc_RecordExp_def tc_def_deref_def access_example_defs FieldInit_init_def TypeDec_ty_def record_field_def tc_dispatch_def tc_IntExp_def r
    tc_type_def tc_type_ref_def deref_ty_def Int_instance_def check_types_def access_types_int addr_of_def addr_of_at type_set_def tc_NameTy_def)
  done
qed

lemma run_FieldVar: "tc_visit P (Suc n) (FieldVar h v x) s = tc_FieldVar P (tc_visit P n) h v x s"
  by (simp add: tc_dispatch_def)

lemma access_example_run: "\<exists>e t. types_check access_example 7 tc_new = Inr (e, t) \<and> type_of t 13 = Some 1"
proof -
  have r: "tc_root access_example = (LetExp (header_at 0)
       (ChunkList (header_at 1)
         [TypeChunk (header_at 2) [TypeDec (header_at 3) ''a''
            (RecordTy (header_at 4) [Field_node (header_at 5) ''x'' (NameTy (header_at 6) ''int'')])],
          VarChunk (header_at 7) [VarDec (header_at 8) ''r'' None
            (Some (RecordExp (header_at 9) (NameTy (header_at 10) ''a'')
               [FieldInit (header_at 11) ''x'' (IntExp (header_at 12) 1)]))]])
       (FieldVar (header_at 13) (SimpleVar (header_at 14) ''r'') ''x''))"
     by (simp add: access_example_def bound_env_def)
  from access_example_types [of "Suc (Suc 0)"] obtain u where u: "tc_visit access_example (Suc (Suc (Suc (Suc (Suc 0))))) (TypeChunk (header_at 2) [TypeDec (header_at 3) ''a''
            (RecordTy (header_at 4) [Field_node (header_at 5) ''x'' (NameTy (header_at 6) ''int'')])]) tc_new = Inr u"
       "types u = access_types" "type_of u = [3 \<mapsto> access_named, 6 \<mapsto> 0, 4 \<mapsto> Suc access_named]"
       "created_of u = [3 \<mapsto> access_named, 4 \<mapsto> Suc access_named]" by blast
  from access_example_var [OF u(2-4), of "Suc 0"] obtain v where v: "tc_visit access_example (Suc (Suc (Suc (Suc (Suc 0))))) (VarChunk (header_at 7) [VarDec (header_at 8) ''r'' None
            (Some (RecordExp (header_at 9) (NameTy (header_at 10) ''a'')
               [FieldInit (header_at 11) ''x'' (IntExp (header_at 12) 1)]))]) u = Inr v"
     "types v = access_types" "type_of v 8 = Some access_named" "type_of v 13 = None" "type_of v 14 = None" by blast
  have c: "cast_Record access_types (Some access_named) = None"
    by (simp add: cast_defs access_types_def types_new_def)
  have "\<exists>t. tc_visit access_example (Suc (Suc (Suc (Suc (Suc (Suc (Suc 0))))))) (tc_root access_example) tc_new = Inr t \<and> type_of t 13 = Some 1"
    unfolding r
    apply (simp add: run_LetExp tc_LetExp_def run_ChunkList u v tc_type_def addr_of_def addr_of_at del: tc_visit.simps)
    apply (simp add: run_FieldVar run_SimpleVar tc_FieldVar_def tc_type_def addr_of_def addr_of_at tc_SimpleVar_def access_example_defs v c error_and_recover_def
       tc_error_exp_def Nil_instance_def del: tc_visit.simps)
    done
  then show ?thesis by (auto simp: types_check_def tc_new_sel numeral_eq_Suc simp del: tc_visit.simps)
qed

theorem access_refused_witness:
  "\<exists>e t. types_check access_example 7 tc_new = Inr (e, t) \<and> status e \<noteq> err_success"
proof -
  from access_example_run obtain e t where r: "types_check access_example 7 tc_new = Inr (e, t)"
    "type_of t 13 = Some 1" by blast
  let ?x = "FieldVar (header_at 13) (SimpleVar (header_at 14) ''r'') ''x''"
  have n: "?x \<in> set (nodes (tc_root access_example))"
    by (simp add: access_example_def bound_env_def nodes.simps)
  have "type_of t (addr_of ?x) \<noteq> None" using r(2) by (simp add: addr_of_def addr_of_at)
  from access_refused [OF access_example_program r(1) n _ this] r(1) show ?thesis by blast
qed

lemma compatible_with_Int:
  assumes b: "4 \<le> length ts" "take 4 ts = types_new" and c: "compatible_with ts a Int_instance = Inr True"
  shows "actual ts a = Inr Int_instance"
proof -
  have i: "ts ! 0 = Int_ty" using nth_base [OF b(2), of 0] by (simp add: types_new_def)
  have i0: "actual ts 0 = Inr 0" using b(1) i by (intro actual_self) auto
  show ?thesis
  proof (cases "actual ts a")
    case (Inl x)
    with actual_self [of a ts] have "a < length ts \<Longrightarrow> \<exists>n p. ts ! a = Named_ty n p" by auto
    with c Inl show ?thesis
      by (cases "a < length ts") (auto simp: compatible_with_def compatible_upto.simps ty_at_def)
  next
    case (Inr x)
    show ?thesis
    proof (cases "is_function_at ts x")
      case False
      with c compatible_actual [OF Inr False] i i0 Inr show ?thesis by (simp add: Int_instance_def)
    next
      case True
      then obtain f r where f: "x < length ts" "ts ! x = Function_ty f r"
        by (auto simp: is_function_at_def cast_Function_def split: if_splits ty_obj.splits)
      have u: "compatible_upto (Suc n) ts x 0 = Inr False" for n
        using f i i0 by (simp add: compatible_upto.simps ty_at_def cast_Function_def)
      have "compatible_with ts a 0 = Inr False"
      proof (cases "\<exists>n p. a < length ts \<and> ts ! a = Named_ty n p")
        case True
        then show ?thesis
          using u by (auto simp: compatible_with_def compatible_upto.simps(2) [of "Suc (2 * length ts)"] ty_at_def Inr)
      next
        case False
        have "a < length ts" using Inr by (auto simp: actual_def ty_at_def split: if_splits)
        with False actual_self [of a ts] Inr have "a = x" by auto
        with u show ?thesis by (simp only: compatible_with_def)
      qed
      with c show ?thesis by (simp add: Int_instance_def)
    qed
  qed
qed

text \<open>In an accepted program without casts, an array expression whose initial element is an
  integer has itself the type of the integers: the element is compared with the type of the array, not
  with that of its elements.\<close>

theorem array_of_ints_is_int:
  assumes "tc_program P" and "plain_program P" and "types_check P n tc_new = Inr (e, t)"
    and "status e = err_success" and x: "ArrayExp h type_name sz init \<in> set (nodes (tc_root P))"
    and "type_of t (adr h) = Some a" and "type_of t (addr_of init) = Some Int_instance"
  shows "actual (types t) a = Inr Int_instance"
proof -
  note inv = types_check_inv(1) [OF assms(1,3,4)]
  note base = unstructuredD(1,2) [OF tc_invD(6) [OF inv] assms(2)]
  from tc_invD(1) [OF inv x] assms(6) have "typed_as P t (ArrayExp h type_name sz init) a"
    by (simp add: addr_of_def)
  with assms(7) have "conforms (types t) a Int_instance"
    by (auto simp: typed_as_def accepts_type_def)
  moreover have "actual (types t) Int_instance = Inr Int_instance"
    using nth_base [OF base(2), of 0] base(1)
    by (intro actual_self) (auto simp: types_new_def Int_instance_def)
  ultimately show ?thesis using compatible_with_Int [OF base] by (auto simp: conforms_def)
qed

definition array_example :: tc_env where
  "array_example = bound_env (ArrayExp (header_at 0) (NameTy (header_at 1) ''int'')
     (IntExp (header_at 2) 3) (IntExp (header_at 3) 4)) Map.empty"

lemma array_example_program: "tc_program array_example" "plain_program array_example"
proof -
  show "tc_program array_example"
    unfolding tc_program_def distinct_nodes_def array_example_def bound_env_def
    by (simp add: nodes.simps addr_of_def header_at_def is_object_node_def wf_node_def is_class_defs)
  show "plain_program array_example"
    unfolding plain_program_def array_example_def bound_env_def
    by (simp add: nodes.simps)
qed

lemma types_new_int: "compatible_with types_new 0 0 = Inr True"
proof -
  have "\<not> is_function_at types_new 0" by (simp add: is_function_at_def cast_Function_def types_new_def)
  from compatible_actual [OF actual_base this] show ?thesis by (simp add: actual_base)
qed

lemma array_example_run:
  "\<exists>e t. types_check array_example 2 tc_new = Inr (e, t) \<and> status e = err_success \<and>
     type_of t 0 = Some 0 \<and> type_of t 3 = Some 0"
  by (simp add: types_check_def tc_new_sel array_example_def bound_env_def tc_dispatch_def numeral_2_eq_2
     tc_ArrayExp_def tc_type_ref_def tc_type_def tc_IntExp_def tc_NameTy_def addr_of_def addr_of_at
     deref_ty_def check_types_def check_two_def Int_instance_def actual_base types_new_int)

theorem array_of_ints_is_int_witness:
  "\<exists>e t. types_check array_example 2 tc_new = Inr (e, t) \<and> actual (types t) 0 = Inr Int_instance"
proof -
  from array_example_run obtain e t where r: "types_check array_example 2 tc_new = Inr (e, t)"
    "status e = err_success" "type_of t 0 = Some 0" "type_of t 3 = Some 0" by blast
  have "ArrayExp (header_at 0) (NameTy (header_at 1) ''int'') (IntExp (header_at 2) 3)
      (IntExp (header_at 3) 4) \<in> set (nodes (tc_root array_example))"
    by (simp add: array_example_def bound_env_def)
  from array_of_ints_is_int [OF array_example_program r(1,2) this, of 0] r
  show ?thesis by (simp add: addr_of_def addr_of_at Int_instance_def)
qed

end
