(* ===== verification/Cloner.thy ===== *)
theory Cloner
  imports Ast_Visitor "HOL-Library.Multiset"
begin

text \<open>
  \<^verbatim>\<open>src/astclone\<close>: the duplication of a tree, from which the passes that rewrite trees inherit (the
  desugaring, the inlining, the pruning): \<open>visit\<close> is the virtual call \<open>accept(*this)\<close>.  The state
  is the member \<open>result_\<close> and the next address; the subclasses extend the record.  The result of
  \<open>recurse\<close> is a \<open>dynamic_cast\<close> of \<open>result_\<close> to the static type of its argument.
\<close>

section \<open>The model of the code\<close>

record clone_state =
  result :: "ast option"
  cl_next :: addr

definition cl_new :: "ast alloc \<Rightarrow> 's clone_state_scheme \<Rightarrow> 's clone_state_scheme" where
  "cl_new a s = (let (e, n) = a (cl_next s) in s\<lparr>result := Some e, cl_next := n\<rparr>)"

text \<open>\<open>recurse\<close> on a reference, on a pointer that may be null, on the elements of a collection.\<close>

definition recurse ::
  "'s clone_state_scheme visit \<Rightarrow> (ast \<Rightarrow> bool) \<Rightarrow> ast \<Rightarrow> 's clone_state_scheme
   \<Rightarrow> (ast \<times> 's clone_state_scheme) res" where
  "recurse visit cls t s =
     bindE (visit t s) (\<lambda>s1. case result s1 of
       None \<Rightarrow> Inl Assertion
     | Some r \<Rightarrow> if cls r then Inr (r, s1) else Inl Assertion)"

definition recurse_opt ::
  "'s clone_state_scheme visit \<Rightarrow> (ast \<Rightarrow> bool) \<Rightarrow> ast option \<Rightarrow> 's clone_state_scheme
   \<Rightarrow> (ast option \<times> 's clone_state_scheme) res" where
  "recurse_opt visit cls t s = (case t of
     None \<Rightarrow> Inr (None, s)
   | Some e \<Rightarrow> bindE (recurse visit cls e s) (\<lambda>(r, s1). Inr (Some r, s1)))"

fun recurse_collection ::
  "'s clone_state_scheme visit \<Rightarrow> (ast \<Rightarrow> bool) \<Rightarrow> ast list \<Rightarrow> 's clone_state_scheme
   \<Rightarrow> (ast list \<times> 's clone_state_scheme) res" where
  "recurse_collection visit cls [] s = Inr ([], s)"
| "recurse_collection visit cls (e # es) s =
     bindE (recurse visit cls e s) (\<lambda>(r, s1).
     bindE (recurse_collection visit cls es s1) (\<lambda>(rs, s2). Inr (r # rs, s2)))"

definition cl_chunk_visit ::
  "'s clone_state_scheme visit \<Rightarrow> (ast \<Rightarrow> bool) \<Rightarrow> (header \<Rightarrow> ast list \<Rightarrow> ast) \<Rightarrow> header \<Rightarrow> ast list
   \<Rightarrow> 's clone_state_scheme \<Rightarrow> 's clone_state_scheme res" where
  "cl_chunk_visit visit cls C h ds s =
     bindE (recurse_collection visit cls ds s) (\<lambda>(ds', s1).
       Inr (cl_new (new_Chunk C (loc h) ds') s1))"

definition cl_ArrayExp ::
  "'s clone_state_scheme visit \<Rightarrow> header \<Rightarrow> ast \<Rightarrow> ast \<Rightarrow> ast \<Rightarrow> 's clone_state_scheme \<Rightarrow> 's clone_state_scheme res" where
  "cl_ArrayExp visit h t z i s =
     bindE (recurse visit is_NameTy t s) (\<lambda>(t', s1).
     bindE (recurse visit is_Exp z s1) (\<lambda>(z', s2).
     bindE (recurse visit is_Exp i s2) (\<lambda>(i', s3).
       Inr (cl_new (new_ArrayExp (loc h) t' z' i') s3))))"

definition cl_ArrayTy ::
  "'s clone_state_scheme visit \<Rightarrow> header \<Rightarrow> ast \<Rightarrow> 's clone_state_scheme \<Rightarrow> 's clone_state_scheme res" where
  "cl_ArrayTy visit h b s =
     bindE (recurse visit is_NameTy b s) (\<lambda>(b', s1).
       Inr (cl_new (new_ArrayTy (loc h) b') s1))"

definition cl_AssignExp ::
  "'s clone_state_scheme visit \<Rightarrow> header \<Rightarrow> ast \<Rightarrow> ast \<Rightarrow> 's clone_state_scheme \<Rightarrow> 's clone_state_scheme res" where
  "cl_AssignExp visit h v e s =
     bindE (recurse visit is_Var v s) (\<lambda>(v', s1).
     bindE (recurse visit is_Exp e s1) (\<lambda>(e', s2).
       Inr (cl_new (new_AssignExp (loc h) v' e') s2)))"

definition cl_BreakExp ::
  "header \<Rightarrow> 's clone_state_scheme \<Rightarrow> 's clone_state_scheme res" where
  "cl_BreakExp h s =
       Inr (cl_new (new_BreakExp (loc h)) s)"

definition cl_CallExp ::
  "'s clone_state_scheme visit \<Rightarrow> header \<Rightarrow> symbol \<Rightarrow> ast list \<Rightarrow> 's clone_state_scheme \<Rightarrow> 's clone_state_scheme res" where
  "cl_CallExp visit h name args s =
     bindE (recurse_collection visit is_Exp args s) (\<lambda>(args', s1).
       Inr (cl_new (new_CallExp (loc h) name args') s1))"

definition cl_CastExp ::
  "'s clone_state_scheme visit \<Rightarrow> header \<Rightarrow> ast \<Rightarrow> ast \<Rightarrow> 's clone_state_scheme \<Rightarrow> 's clone_state_scheme res" where
  "cl_CastExp visit h e t s =
     bindE (recurse visit is_Exp e s) (\<lambda>(e', s1).
     bindE (recurse visit is_Ty t s1) (\<lambda>(t', s2).
       Inr (cl_new (new_CastExp (loc h) e' t') s2)))"

definition cl_ChunkList ::
  "'s clone_state_scheme visit \<Rightarrow> header \<Rightarrow> ast list \<Rightarrow> 's clone_state_scheme \<Rightarrow> 's clone_state_scheme res" where
  "cl_ChunkList visit h xs s =
     bindE (recurse_collection visit is_Chunk xs s) (\<lambda>(xs', s1).
       Inr (cl_new (new_ChunkList (loc h) xs') s1))"

definition cl_ClassTy ::
  "'s clone_state_scheme visit \<Rightarrow> header \<Rightarrow> ast \<Rightarrow> ast \<Rightarrow> 's clone_state_scheme \<Rightarrow> 's clone_state_scheme res" where
  "cl_ClassTy visit h super cs s =
     bindE (recurse visit is_NameTy super s) (\<lambda>(super', s1).
     bindE (recurse visit is_ChunkList cs s1) (\<lambda>(cs', s2).
       Inr (cl_new (new_ClassTy (loc h) super' cs') s2)))"

definition cl_Field_node ::
  "'s clone_state_scheme visit \<Rightarrow> header \<Rightarrow> symbol \<Rightarrow> ast \<Rightarrow> 's clone_state_scheme \<Rightarrow> 's clone_state_scheme res" where
  "cl_Field_node visit h name t s =
     bindE (recurse visit is_NameTy t s) (\<lambda>(t', s1).
       Inr (cl_new (new_Field_node (loc h) name t') s1))"

definition cl_FieldInit ::
  "'s clone_state_scheme visit \<Rightarrow> header \<Rightarrow> symbol \<Rightarrow> ast \<Rightarrow> 's clone_state_scheme \<Rightarrow> 's clone_state_scheme res" where
  "cl_FieldInit visit h name i s =
     bindE (recurse visit is_Exp i s) (\<lambda>(i', s1).
       Inr (cl_new (new_FieldInit (loc h) name i') s1))"

definition cl_FieldVar ::
  "'s clone_state_scheme visit \<Rightarrow> header \<Rightarrow> ast \<Rightarrow> symbol \<Rightarrow> 's clone_state_scheme \<Rightarrow> 's clone_state_scheme res" where
  "cl_FieldVar visit h v name s =
     bindE (recurse visit is_Var v s) (\<lambda>(v', s1).
       Inr (cl_new (new_FieldVar (loc h) v' name) s1))"

definition cl_ForExp ::
  "'s clone_state_scheme visit \<Rightarrow> header \<Rightarrow> ast \<Rightarrow> ast \<Rightarrow> ast \<Rightarrow> 's clone_state_scheme \<Rightarrow> 's clone_state_scheme res" where
  "cl_ForExp visit h v hi b s =
     bindE (recurse visit is_VarDec v s) (\<lambda>(v', s1).
     bindE (recurse visit is_Exp hi s1) (\<lambda>(hi', s2).
     bindE (recurse visit is_Exp b s2) (\<lambda>(b', s3).
       Inr (cl_new (new_ForExp (loc h) v' hi' b') s3))))"

definition cl_FunctionDec ::
  "'s clone_state_scheme visit \<Rightarrow> header \<Rightarrow> symbol \<Rightarrow> ast \<Rightarrow> ast option \<Rightarrow> ast option \<Rightarrow> 's clone_state_scheme \<Rightarrow> 's clone_state_scheme res" where
  "cl_FunctionDec visit h name f rt body s =
     bindE (recurse visit is_VarChunk f s) (\<lambda>(f', s1).
     bindE (recurse_opt visit is_NameTy rt s1) (\<lambda>(rt', s2).
     bindE (recurse_opt visit is_Exp body s2) (\<lambda>(body', s3).
       Inr (cl_new (new_FunctionDec (loc h) name f' rt' body') s3))))"

definition cl_IfExp ::
  "'s clone_state_scheme visit \<Rightarrow> header \<Rightarrow> ast \<Rightarrow> ast \<Rightarrow> ast \<Rightarrow> 's clone_state_scheme \<Rightarrow> 's clone_state_scheme res" where
  "cl_IfExp visit h c t f s =
     bindE (recurse visit is_Exp c s) (\<lambda>(c', s1).
     bindE (recurse visit is_Exp f s1) (\<lambda>(f', s2).
     bindE (recurse visit is_Exp t s2) (\<lambda>(t', s3).
       Inr (cl_new (new_IfExp (loc h) c' t' f') s3))))"

definition cl_IntExp ::
  "header \<Rightarrow> i32 \<Rightarrow> 's clone_state_scheme \<Rightarrow> 's clone_state_scheme res" where
  "cl_IntExp h value s =
       Inr (cl_new (new_IntExp (loc h) value) s)"

definition cl_LetExp ::
  "'s clone_state_scheme visit \<Rightarrow> header \<Rightarrow> ast \<Rightarrow> ast \<Rightarrow> 's clone_state_scheme \<Rightarrow> 's clone_state_scheme res" where
  "cl_LetExp visit h cs b s =
     bindE (recurse visit is_Exp b s) (\<lambda>(b', s1).
     bindE (recurse visit is_ChunkList cs s1) (\<lambda>(cs', s2).
       Inr (cl_new (new_LetExp (loc h) cs' b') s2)))"

definition cl_MethodDec ::
  "'s clone_state_scheme visit \<Rightarrow> header \<Rightarrow> symbol \<Rightarrow> ast \<Rightarrow> ast option \<Rightarrow> ast option \<Rightarrow> 's clone_state_scheme \<Rightarrow> 's clone_state_scheme res" where
  "cl_MethodDec visit h name f rt body s =
     bindE (recurse visit is_VarChunk f s) (\<lambda>(f', s1).
     bindE (recurse_opt visit is_NameTy rt s1) (\<lambda>(rt', s2).
     bindE (recurse_opt visit is_Exp body s2) (\<lambda>(body', s3).
       Inr (cl_new (new_MethodDec (loc h) name f' rt' body') s3))))"

definition cl_NameTy ::
  "header \<Rightarrow> symbol \<Rightarrow> 's clone_state_scheme \<Rightarrow> 's clone_state_scheme res" where
  "cl_NameTy h name s =
       Inr (cl_new (new_NameTy (loc h) name) s)"

definition cl_NilExp ::
  "header \<Rightarrow> 's clone_state_scheme \<Rightarrow> 's clone_state_scheme res" where
  "cl_NilExp h s =
       Inr (cl_new (new_NilExp (loc h)) s)"

definition cl_OpExp ::
  "'s clone_state_scheme visit \<Rightarrow> header \<Rightarrow> ast \<Rightarrow> oper \<Rightarrow> ast \<Rightarrow> 's clone_state_scheme \<Rightarrow> 's clone_state_scheme res" where
  "cl_OpExp visit h l oper r s =
     bindE (recurse visit is_Exp l s) (\<lambda>(l', s1).
     bindE (recurse visit is_Exp r s1) (\<lambda>(r', s2).
       Inr (cl_new (new_OpExp (loc h) l' oper r') s2)))"

definition cl_RecordExp ::
  "'s clone_state_scheme visit \<Rightarrow> header \<Rightarrow> ast \<Rightarrow> ast list \<Rightarrow> 's clone_state_scheme \<Rightarrow> 's clone_state_scheme res" where
  "cl_RecordExp visit h t fs s =
     bindE (recurse visit is_NameTy t s) (\<lambda>(t', s1).
     bindE (recurse_collection visit is_FieldInit fs s1) (\<lambda>(fs', s2).
       Inr (cl_new (new_RecordExp (loc h) t' fs') s2)))"

definition cl_RecordTy ::
  "'s clone_state_scheme visit \<Rightarrow> header \<Rightarrow> ast list \<Rightarrow> 's clone_state_scheme \<Rightarrow> 's clone_state_scheme res" where
  "cl_RecordTy visit h fs s =
     bindE (recurse_collection visit is_Field fs s) (\<lambda>(fs', s1).
       Inr (cl_new (new_RecordTy (loc h) fs') s1))"

definition cl_SeqExp ::
  "'s clone_state_scheme visit \<Rightarrow> header \<Rightarrow> ast list \<Rightarrow> 's clone_state_scheme \<Rightarrow> 's clone_state_scheme res" where
  "cl_SeqExp visit h es s =
     bindE (recurse_collection visit is_Exp es s) (\<lambda>(es', s1).
       Inr (cl_new (new_SeqExp (loc h) es') s1))"

definition cl_SimpleVar ::
  "header \<Rightarrow> symbol \<Rightarrow> 's clone_state_scheme \<Rightarrow> 's clone_state_scheme res" where
  "cl_SimpleVar h name s =
       Inr (cl_new (new_SimpleVar (loc h) name) s)"

definition cl_StringExp ::
  "header \<Rightarrow> string \<Rightarrow> 's clone_state_scheme \<Rightarrow> 's clone_state_scheme res" where
  "cl_StringExp h str s =
       Inr (cl_new (new_StringExp (loc h) str) s)"

definition cl_SubscriptVar ::
  "'s clone_state_scheme visit \<Rightarrow> header \<Rightarrow> ast \<Rightarrow> ast \<Rightarrow> 's clone_state_scheme \<Rightarrow> 's clone_state_scheme res" where
  "cl_SubscriptVar visit h v i s =
     bindE (recurse visit is_Var v s) (\<lambda>(v', s1).
     bindE (recurse visit is_Exp i s1) (\<lambda>(i', s2).
       Inr (cl_new (new_SubscriptVar (loc h) v' i') s2)))"

definition cl_TypeDec ::
  "'s clone_state_scheme visit \<Rightarrow> header \<Rightarrow> symbol \<Rightarrow> ast \<Rightarrow> 's clone_state_scheme \<Rightarrow> 's clone_state_scheme res" where
  "cl_TypeDec visit h name ty s =
     bindE (recurse visit is_Ty ty s) (\<lambda>(ty', s1).
       Inr (cl_new (new_TypeDec (loc h) name ty') s1))"

definition cl_VarDec ::
  "'s clone_state_scheme visit \<Rightarrow> header \<Rightarrow> symbol \<Rightarrow> ast option \<Rightarrow> ast option \<Rightarrow> 's clone_state_scheme \<Rightarrow> 's clone_state_scheme res" where
  "cl_VarDec visit h name tn init s =
     bindE (recurse_opt visit is_NameTy tn s) (\<lambda>(tn', s1).
     bindE (recurse_opt visit is_Exp init s1) (\<lambda>(init', s2).
       Inr (cl_new (new_VarDec (loc h) name tn' init') s2)))"

definition cl_WhileExp ::
  "'s clone_state_scheme visit \<Rightarrow> header \<Rightarrow> ast \<Rightarrow> ast \<Rightarrow> 's clone_state_scheme \<Rightarrow> 's clone_state_scheme res" where
  "cl_WhileExp visit h c b s =
     bindE (recurse visit is_Exp c s) (\<lambda>(c', s1).
     bindE (recurse visit is_Exp b s1) (\<lambda>(b', s2).
       Inr (cl_new (new_WhileExp (loc h) c' b') s2)))"

definition cl_FunctionChunk ::
  "'s clone_state_scheme visit \<Rightarrow> header \<Rightarrow> ast list \<Rightarrow> 's clone_state_scheme \<Rightarrow> 's clone_state_scheme res" where
  "cl_FunctionChunk visit h ds s = cl_chunk_visit visit is_FunctionDec FunctionChunk h ds s"

definition cl_MethodChunk ::
  "'s clone_state_scheme visit \<Rightarrow> header \<Rightarrow> ast list \<Rightarrow> 's clone_state_scheme \<Rightarrow> 's clone_state_scheme res" where
  "cl_MethodChunk visit h ds s = cl_chunk_visit visit is_MethodDec MethodChunk h ds s"

definition cl_TypeChunk ::
  "'s clone_state_scheme visit \<Rightarrow> header \<Rightarrow> ast list \<Rightarrow> 's clone_state_scheme \<Rightarrow> 's clone_state_scheme res" where
  "cl_TypeChunk visit h ds s = cl_chunk_visit visit is_TypeDec TypeChunk h ds s"

definition cl_VarChunk ::
  "'s clone_state_scheme visit \<Rightarrow> header \<Rightarrow> ast list \<Rightarrow> 's clone_state_scheme \<Rightarrow> 's clone_state_scheme res" where
  "cl_VarChunk visit h ds s = cl_chunk_visit visit is_VarDec VarChunk h ds s"

text \<open>The table of the virtual methods; those of the object constructs leave \<open>result_\<close> as it is.\<close>

definition cloner_dispatch :: "'s clone_state_scheme visit \<Rightarrow> 's clone_state_scheme visit" where
  "cloner_dispatch visit e s = (case e of
     ArrayExp h t z i \<Rightarrow> cl_ArrayExp visit h t z i s
   | ArrayTy h b \<Rightarrow> cl_ArrayTy visit h b s
   | AssignExp h v e \<Rightarrow> cl_AssignExp visit h v e s
   | BreakExp h \<Rightarrow> cl_BreakExp h s
   | CallExp h name args \<Rightarrow> cl_CallExp visit h name args s
   | CastExp h e t \<Rightarrow> cl_CastExp visit h e t s
   | ChunkList h xs \<Rightarrow> cl_ChunkList visit h xs s
   | ClassTy h super cs \<Rightarrow> cl_ClassTy visit h super cs s
   | Field_node h name t \<Rightarrow> cl_Field_node visit h name t s
   | FieldInit h name i \<Rightarrow> cl_FieldInit visit h name i s
   | FieldVar h v name \<Rightarrow> cl_FieldVar visit h v name s
   | ForExp h v hi b \<Rightarrow> cl_ForExp visit h v hi b s
   | FunctionDec h name f rt body \<Rightarrow> cl_FunctionDec visit h name f rt body s
   | IfExp h c t f \<Rightarrow> cl_IfExp visit h c t f s
   | IntExp h value \<Rightarrow> cl_IntExp h value s
   | LetExp h cs b \<Rightarrow> cl_LetExp visit h cs b s
   | MethodDec h name f rt body \<Rightarrow> cl_MethodDec visit h name f rt body s
   | NameTy h name \<Rightarrow> cl_NameTy h name s
   | NilExp h \<Rightarrow> cl_NilExp h s
   | OpExp h l oper r \<Rightarrow> cl_OpExp visit h l oper r s
   | RecordExp h t fs \<Rightarrow> cl_RecordExp visit h t fs s
   | RecordTy h fs \<Rightarrow> cl_RecordTy visit h fs s
   | SeqExp h es \<Rightarrow> cl_SeqExp visit h es s
   | SimpleVar h name \<Rightarrow> cl_SimpleVar h name s
   | StringExp h str \<Rightarrow> cl_StringExp h str s
   | SubscriptVar h v i \<Rightarrow> cl_SubscriptVar visit h v i s
   | TypeDec h name ty \<Rightarrow> cl_TypeDec visit h name ty s
   | VarDec h name tn init \<Rightarrow> cl_VarDec visit h name tn init s
   | WhileExp h c b \<Rightarrow> cl_WhileExp visit h c b s
   | FunctionChunk h ds \<Rightarrow> cl_FunctionChunk visit h ds s
   | MethodChunk h ds \<Rightarrow> cl_MethodChunk visit h ds s
   | TypeChunk h ds \<Rightarrow> cl_TypeChunk visit h ds s
   | VarChunk h ds \<Rightarrow> cl_VarChunk visit h ds s
   | MethodCallExp _ _ _ _ \<Rightarrow> Inr s
   | ObjectExp _ _ \<Rightarrow> Inr s)"

lemmas cl_defs =
  cl_ArrayExp_def cl_ArrayTy_def cl_AssignExp_def cl_BreakExp_def cl_CallExp_def cl_CastExp_def
  cl_ChunkList_def cl_ClassTy_def cl_Field_node_def cl_FieldInit_def cl_FieldVar_def cl_ForExp_def
  cl_FunctionDec_def cl_IfExp_def cl_IntExp_def cl_LetExp_def cl_MethodDec_def cl_NameTy_def
  cl_NilExp_def cl_OpExp_def cl_RecordExp_def cl_RecordTy_def cl_SeqExp_def cl_SimpleVar_def
  cl_StringExp_def cl_SubscriptVar_def cl_TypeDec_def cl_VarDec_def cl_WhileExp_def
  cl_FunctionChunk_def cl_MethodChunk_def cl_TypeChunk_def cl_VarChunk_def

section \<open>The copy\<close>

text \<open>The tree with other headers; without the identities of its nodes.\<close>

primrec map_hdr :: "(header \<Rightarrow> header) \<Rightarrow> ast \<Rightarrow> ast" where
  "map_hdr F (ArrayExp h t z i) = ArrayExp (F h) (map_hdr F t) (map_hdr F z) (map_hdr F i)"
| "map_hdr F (ArrayTy h b) = ArrayTy (F h) (map_hdr F b)"
| "map_hdr F (AssignExp h v e) = AssignExp (F h) (map_hdr F v) (map_hdr F e)"
| "map_hdr F (BreakExp h) = BreakExp (F h)"
| "map_hdr F (CallExp h name args) = CallExp (F h) name (map (map_hdr F) args)"
| "map_hdr F (CastExp h e t) = CastExp (F h) (map_hdr F e) (map_hdr F t)"
| "map_hdr F (ChunkList h xs) = ChunkList (F h) (map (map_hdr F) xs)"
| "map_hdr F (ClassTy h super cs) = ClassTy (F h) (map_hdr F super) (map_hdr F cs)"
| "map_hdr F (Field_node h name t) = Field_node (F h) name (map_hdr F t)"
| "map_hdr F (FieldInit h name i) = FieldInit (F h) name (map_hdr F i)"
| "map_hdr F (FieldVar h v name) = FieldVar (F h) (map_hdr F v) name"
| "map_hdr F (ForExp h v hi b) = ForExp (F h) (map_hdr F v) (map_hdr F hi) (map_hdr F b)"
| "map_hdr F (FunctionDec h name f rt body) = FunctionDec (F h) name (map_hdr F f) (map_option (map_hdr F) rt) (map_option (map_hdr F) body)"
| "map_hdr F (IfExp h c t f) = IfExp (F h) (map_hdr F c) (map_hdr F t) (map_hdr F f)"
| "map_hdr F (IntExp h value) = IntExp (F h) value"
| "map_hdr F (LetExp h cs b) = LetExp (F h) (map_hdr F cs) (map_hdr F b)"
| "map_hdr F (MethodDec h name f rt body) = MethodDec (F h) name (map_hdr F f) (map_option (map_hdr F) rt) (map_option (map_hdr F) body)"
| "map_hdr F (NameTy h name) = NameTy (F h) name"
| "map_hdr F (NilExp h) = NilExp (F h)"
| "map_hdr F (OpExp h l oper r) = OpExp (F h) (map_hdr F l) oper (map_hdr F r)"
| "map_hdr F (RecordExp h t fs) = RecordExp (F h) (map_hdr F t) (map (map_hdr F) fs)"
| "map_hdr F (RecordTy h fs) = RecordTy (F h) (map (map_hdr F) fs)"
| "map_hdr F (SeqExp h es) = SeqExp (F h) (map (map_hdr F) es)"
| "map_hdr F (SimpleVar h name) = SimpleVar (F h) name"
| "map_hdr F (StringExp h str) = StringExp (F h) str"
| "map_hdr F (SubscriptVar h v i) = SubscriptVar (F h) (map_hdr F v) (map_hdr F i)"
| "map_hdr F (TypeDec h name ty) = TypeDec (F h) name (map_hdr F ty)"
| "map_hdr F (VarDec h name tn init) = VarDec (F h) name (map_option (map_hdr F) tn) (map_option (map_hdr F) init)"
| "map_hdr F (WhileExp h c b) = WhileExp (F h) (map_hdr F c) (map_hdr F b)"
| "map_hdr F (MethodCallExp h name args v) = MethodCallExp (F h) name (map (map_hdr F) args) (map_hdr F v)"
| "map_hdr F (ObjectExp h t) = ObjectExp (F h) (map_hdr F t)"
| "map_hdr F (FunctionChunk h ds) = FunctionChunk (F h) (map (map_hdr F) ds)"
| "map_hdr F (MethodChunk h ds) = MethodChunk (F h) (map (map_hdr F) ds)"
| "map_hdr F (TypeChunk h ds) = TypeChunk (F h) (map (map_hdr F) ds)"
| "map_hdr F (VarChunk h ds) = VarChunk (F h) (map (map_hdr F) ds)"

definition no_adr :: "header \<Rightarrow> header" where
  "no_adr h = h\<lparr>adr := 0\<rparr>"

definition strip :: "ast \<Rightarrow> ast" where
  "strip = map_hdr no_adr"

lemma strip_simps [simp]:
  "strip (ArrayExp h t z i) = ArrayExp (no_adr h) (strip t) (strip z) (strip i)"
  "strip (ArrayTy h b) = ArrayTy (no_adr h) (strip b)"
  "strip (AssignExp h v e) = AssignExp (no_adr h) (strip v) (strip e)"
  "strip (BreakExp h) = BreakExp (no_adr h)"
  "strip (CallExp h name args) = CallExp (no_adr h) name (map strip args)"
  "strip (CastExp h e t) = CastExp (no_adr h) (strip e) (strip t)"
  "strip (ChunkList h xs) = ChunkList (no_adr h) (map strip xs)"
  "strip (ClassTy h super cs) = ClassTy (no_adr h) (strip super) (strip cs)"
  "strip (Field_node h name t) = Field_node (no_adr h) name (strip t)"
  "strip (FieldInit h name i) = FieldInit (no_adr h) name (strip i)"
  "strip (FieldVar h v name) = FieldVar (no_adr h) (strip v) name"
  "strip (ForExp h v hi b) = ForExp (no_adr h) (strip v) (strip hi) (strip b)"
  "strip (FunctionDec h name f rt body) = FunctionDec (no_adr h) name (strip f) (map_option strip rt) (map_option strip body)"
  "strip (IfExp h c t f) = IfExp (no_adr h) (strip c) (strip t) (strip f)"
  "strip (IntExp h value) = IntExp (no_adr h) value"
  "strip (LetExp h cs b) = LetExp (no_adr h) (strip cs) (strip b)"
  "strip (MethodDec h name f rt body) = MethodDec (no_adr h) name (strip f) (map_option strip rt) (map_option strip body)"
  "strip (NameTy h name) = NameTy (no_adr h) name"
  "strip (NilExp h) = NilExp (no_adr h)"
  "strip (OpExp h l oper r) = OpExp (no_adr h) (strip l) oper (strip r)"
  "strip (RecordExp h t fs) = RecordExp (no_adr h) (strip t) (map strip fs)"
  "strip (RecordTy h fs) = RecordTy (no_adr h) (map strip fs)"
  "strip (SeqExp h es) = SeqExp (no_adr h) (map strip es)"
  "strip (SimpleVar h name) = SimpleVar (no_adr h) name"
  "strip (StringExp h str) = StringExp (no_adr h) str"
  "strip (SubscriptVar h v i) = SubscriptVar (no_adr h) (strip v) (strip i)"
  "strip (TypeDec h name ty) = TypeDec (no_adr h) name (strip ty)"
  "strip (VarDec h name tn init) = VarDec (no_adr h) name (map_option strip tn) (map_option strip init)"
  "strip (WhileExp h c b) = WhileExp (no_adr h) (strip c) (strip b)"
  "strip (MethodCallExp h name args v) = MethodCallExp (no_adr h) name (map strip args) (strip v)"
  "strip (ObjectExp h t) = ObjectExp (no_adr h) (strip t)"
  "strip (FunctionChunk h ds) = FunctionChunk (no_adr h) (map strip ds)"
  "strip (MethodChunk h ds) = MethodChunk (no_adr h) (map strip ds)"
  "strip (TypeChunk h ds) = TypeChunk (no_adr h) (map strip ds)"
  "strip (VarChunk h ds) = VarChunk (no_adr h) (map strip ds)"
  by (simp_all add: strip_def)

text \<open>The nodes of the tree take, in some order, addresses of the interval.\<close>

definition owns :: "ast list \<Rightarrow> addr \<Rightarrow> addr \<Rightarrow> bool" where
  "owns es a b \<longleftrightarrow> a \<le> b \<and> distinct (map addr_of (concat (map nodes es))) \<and>
     addr_of ` set (concat (map nodes es)) \<subseteq> {a..<b}"

definition copies :: "ast list \<Rightarrow> ast list \<Rightarrow> addr \<Rightarrow> addr \<Rightarrow> bool" where
  "copies es rs a b \<longleftrightarrow> map strip rs = map strip es \<and> owns rs a b"

lemma owns_Nil [simp]: "owns [] a b \<longleftrightarrow> a \<le> b"
  by (simp add: owns_def)

lemma owns_append: "owns rs a b \<Longrightarrow> owns ss b c \<Longrightarrow> owns (rs @ ss) a c"
  by (fastforce simp: owns_def)

lemma mset_concat_map: "mset (concat (map f xs)) = (\<Sum>x \<in># mset xs. mset (f x))"
  by (induction xs) simp_all

lemma owns_perm: "owns rs a b \<Longrightarrow> mset ss = mset rs \<Longrightarrow> owns ss a b"
proof -
  assume o: "owns rs a b" and m: "mset ss = mset rs"
  have "mset (concat (map nodes ss)) = mset (concat (map nodes rs))"
    using m by (simp add: mset_concat_map)
  then have "mset (map addr_of (concat (map nodes ss))) = mset (map addr_of (concat (map nodes rs)))"
    by (metis mset_map)
  then have "distinct (map addr_of (concat (map nodes ss))) = distinct (map addr_of (concat (map nodes rs)))"
    using mset_eq_imp_distinct_iff by blast
  moreover have "set (concat (map nodes ss)) = set (concat (map nodes rs))"
    using \<open>mset (concat (map nodes ss)) = mset (concat (map nodes rs))\<close> by (metis set_mset_mset)
  ultimately show ?thesis using o by (simp add: owns_def)
qed

lemma owns_node:
  assumes "owns (subs r) a b" and "addr_of r = b"
  shows "owns [r] a (Suc b)"
  using assms by (fastforce simp: owns_def nodes.simps [of r])

lemma copies_Nil [simp]: "copies [] rs a b \<longleftrightarrow> rs = [] \<and> a \<le> b"
  by (auto simp: copies_def)

lemma copies_append: "copies es rs a b \<Longrightarrow> copies fs ss b c \<Longrightarrow> copies (es @ fs) (rs @ ss) a c"
  by (auto simp: copies_def owns_append)

lemma copies_Cons: "copies [e] [r] a b \<Longrightarrow> copies fs ss b c \<Longrightarrow> copies (e # fs) (r # ss) a c"
  using copies_append [of "[e]" "[r]" a b fs ss c] by simp

text \<open>The classes do not depend on the identities.\<close>

lemma class_strip:
  "is_Exp (strip e) = is_Exp e" "is_Var (strip e) = is_Var e" "is_Ty (strip e) = is_Ty e" "is_NameTy (strip e) = is_NameTy e"
  "is_VarDec (strip e) = is_VarDec e" "is_TypeDec (strip e) = is_TypeDec e" "is_FunctionDec (strip e) = is_FunctionDec e"
  "is_MethodDec (strip e) = is_MethodDec e" "is_VarChunk (strip e) = is_VarChunk e" "is_Chunk (strip e) = is_Chunk e"
  "is_ChunkList (strip e) = is_ChunkList e" "is_Field (strip e) = is_Field e" "is_FieldInit (strip e) = is_FieldInit e"
  by (cases e; simp add: is_class_defs)+

text \<open>A visit that makes a copy; what \<open>recurse\<close> and \<open>recurse_collection\<close> give then.\<close>

definition clones :: "'s clone_state_scheme visit \<Rightarrow> ast \<Rightarrow> bool" where
  "clones visit e \<longleftrightarrow> (\<forall>s. \<exists>t r. visit e s = Inr t \<and> result t = Some r \<and>
     copies [e] [r] (cl_next s) (cl_next t) \<and> clone_state.more t = clone_state.more s)"

lemma recurse_ok:
  assumes "clones visit e" and "cls e" and "\<And>e. cls (strip e) = cls e"
  shows "\<exists>r t. recurse visit cls e s = Inr (r, t) \<and> copies [e] [r] (cl_next s) (cl_next t) \<and>
    clone_state.more t = clone_state.more s"
proof -
  from assms(1) obtain t r where t: "visit e s = Inr t" "result t = Some r"
    "copies [e] [r] (cl_next s) (cl_next t)" "clone_state.more t = clone_state.more s"
    unfolding clones_def by blast
  then have "strip r = strip e" by (simp add: copies_def)
  then have "cls r" using assms(2,3) by metis
  with t show ?thesis by (simp add: recurse_def)
qed

lemma recurse_opt_ok:
  assumes "opt_all (clones visit) m" and "opt_all cls m" and "\<And>e. cls (strip e) = cls e"
  shows "\<exists>r t. recurse_opt visit cls m s = Inr (r, t) \<and> map_option strip r = map_option strip m \<and>
    copies (opt_list m) (opt_list r) (cl_next s) (cl_next t) \<and> clone_state.more t = clone_state.more s"
proof (cases m)
  case (Some e)
  with recurse_ok [of visit e cls s] assms obtain r t where
    "recurse visit cls e s = Inr (r, t)" "copies [e] [r] (cl_next s) (cl_next t)"
    "clone_state.more t = clone_state.more s" by auto
  then show ?thesis by (auto simp: recurse_opt_def Some copies_def intro!: exI [of _ "Some r"] exI [of _ t])
qed (simp add: recurse_opt_def)

lemma recurse_collection_ok:
  assumes "list_all (clones visit) es" and "list_all cls es" and "\<And>e. cls (strip e) = cls e"
  shows "\<exists>rs t. recurse_collection visit cls es s = Inr (rs, t) \<and>
    copies es rs (cl_next s) (cl_next t) \<and> clone_state.more t = clone_state.more s"
  using assms(1,2)
proof (induction es arbitrary: s)
  case (Cons e es)
  from recurse_ok [of visit e cls s] Cons.prems assms(3) obtain r t where r:
    "recurse visit cls e s = Inr (r, t)" "copies [e] [r] (cl_next s) (cl_next t)"
    "clone_state.more t = clone_state.more s" by auto
  from Cons.IH [of t] Cons.prems obtain rs u where
    "recurse_collection visit cls es t = Inr (rs, u)" "copies es rs (cl_next t) (cl_next u)"
    "clone_state.more u = clone_state.more t" by auto
  with r copies_Cons [OF r(2)] show ?case by auto
qed simp

lemma cl_new_ok:
  assumes "copies (subs e) (subs r) a b" and "strip r = strip e" and "addr_of r = b"
  shows "copies [e] [r] a (Suc b)"
  using assms owns_node by (auto simp: copies_def)

definition ok_copy :: "ast \<Rightarrow> 's clone_state_scheme \<Rightarrow> 's clone_state_scheme res \<Rightarrow> bool" where
  "ok_copy e s x \<longleftrightarrow> (\<exists>t r. x = Inr t \<and> result t = Some r \<and>
     copies [e] [r] (cl_next s) (cl_next t) \<and> clone_state.more t = clone_state.more s)"

lemma clones_iff: "clones visit e \<longleftrightarrow> (\<forall>s. ok_copy e s (visit e s))"
  by (simp add: clones_def ok_copy_def)

lemma copies_strip: "copies [e] [r] a b \<Longrightarrow> strip r = strip e" "copies es rs a b \<Longrightarrow> map strip rs = map strip es"
  by (simp_all add: copies_def)

lemma bind_recurse:
  assumes "clones visit c" and "cls c" and "\<And>e. cls (strip e) = cls e"
    and "\<And>r t. strip r = strip c \<Longrightarrow> copies [c] [r] (cl_next u) (cl_next t) \<Longrightarrow>
      clone_state.more t = clone_state.more u \<Longrightarrow> ok_copy e s (k r t)"
  shows "ok_copy e s (bindE (recurse visit cls c u) (\<lambda>(r, t). k r t))"
  using recurse_ok [OF assms(1-3), of u] assms(4) by (fastforce simp: copies_strip)

lemma bind_recurse_opt:
  assumes "opt_all (clones visit) m" and "opt_all cls m" and "\<And>e. cls (strip e) = cls e"
    and "\<And>r t. map_option strip r = map_option strip m \<Longrightarrow> copies (opt_list m) (opt_list r) (cl_next u) (cl_next t) \<Longrightarrow>
      clone_state.more t = clone_state.more u \<Longrightarrow> ok_copy e s (k r t)"
  shows "ok_copy e s (bindE (recurse_opt visit cls m u) (\<lambda>(r, t). k r t))"
  using recurse_opt_ok [OF assms(1-3), of u] assms(4) by fastforce

lemma bind_recurse_collection:
  assumes "list_all (clones visit) es" and "list_all cls es" and "\<And>e. cls (strip e) = cls e"
    and "\<And>rs t. map strip rs = map strip es \<Longrightarrow> copies es rs (cl_next u) (cl_next t) \<Longrightarrow>
      clone_state.more t = clone_state.more u \<Longrightarrow> ok_copy e s (k rs t)"
  shows "ok_copy e s (bindE (recurse_collection visit cls es u) (\<lambda>(rs, t). k rs t))"
  using recurse_collection_ok [OF assms(1-3), of u] assms(4) by (fastforce simp: copies_strip)

lemma ok_new:
  assumes "clone_state.more u = clone_state.more s" and "snd (a (cl_next u)) = Suc (cl_next u)"
    and "addr_of (fst (a (cl_next u))) = cl_next u" and "strip (fst (a (cl_next u))) = strip e"
    and "copies (subs e) (subs (fst (a (cl_next u)))) (cl_next s) (cl_next u)"
  shows "ok_copy e s (Inr (cl_new a u))"
  using cl_new_ok [OF assms(5,4,3)] assms(1,2)
  by (cases "a (cl_next u)") (simp add: ok_copy_def cl_new_def)

lemmas new_defs = alloc_def new_ArrayExp_def new_ArrayTy_def new_AssignExp_def new_BreakExp_def new_CallExp_def
  new_CastExp_def new_ClassTy_def new_Field_node_def new_FieldInit_def new_FieldVar_def new_ForExp_def
  new_FunctionDec_def new_IfExp_def new_IntExp_def new_LetExp_def new_MethodDec_def new_NameTy_def
  new_NilExp_def new_OpExp_def new_RecordExp_def new_RecordTy_def new_SeqExp_def new_SimpleVar_def
  new_StringExp_def new_SubscriptVar_def new_TypeDec_def new_VarDec_def new_WhileExp_def
  new_ChunkList_def new_Chunk_def

definition clonable :: "ast \<Rightarrow> bool" where
  "clonable e \<longleftrightarrow> (case e of MethodCallExp _ _ _ _ \<Rightarrow> False | ObjectExp _ _ \<Rightarrow> False | _ \<Rightarrow> True)"

lemma copies2: "copies [e] [r] a b \<Longrightarrow> copies [f] [q] b c \<Longrightarrow> copies [e, f] [r, q] a c"
  by (rule copies_Cons)

lemma copies3:
  "copies [e] [r] a b \<Longrightarrow> copies [f] [q] b c \<Longrightarrow> copies [g] [p] c d \<Longrightarrow> copies [e, f, g] [r, q, p] a d"
  using copies_Cons [of e r a b "[f, g]" "[q, p]" d] copies2 [of f q b c g p d] by blast

lemma copies2_swap: "copies [f] [q] a b \<Longrightarrow> copies [e] [r] b c \<Longrightarrow> copies [e, f] [r, q] a c"
  using copies2 [of f q a b e r c] owns_perm [of "[q, r]" a c "[r, q]"] by (simp add: copies_def)

lemma copies3_swap:
  "copies [e] [r] a b \<Longrightarrow> copies [g] [p] b c \<Longrightarrow> copies [f] [q] c d \<Longrightarrow> copies [e, f, g] [r, q, p] a d"
  using copies3 [of e r a b g p c f q d] owns_perm [of "[r, p, q]" a d "[r, q, p]"] by (simp add: copies_def)

lemma copies_empty: "copies [] [] a a" by simp

lemma no_adr_new: "no_adr \<lparr>adr = n, loc = loc h\<rparr> = no_adr h"
  by (simp add: no_adr_def)

lemmas copy_rules = bind_recurse bind_recurse_opt bind_recurse_collection
lemma opt_all_iff: "opt_all P m \<longleftrightarrow> (\<forall>x \<in> set (opt_list m). P x)"
  by (cases m) simp_all
lemmas copy_facts = new_defs no_adr_new addr_of_def opt_all_iff list_all_iff

lemma dispatch_clones:
  assumes "\<And>c. c \<in> set (subs e) \<Longrightarrow> clones visit c" and "wf_node e" and "clonable e"
  shows "clones (cloner_dispatch visit) e"
  unfolding clones_iff
proof
  fix s
  show "ok_copy e s (cloner_dispatch visit e s)"
  proof (cases e)
    case (FunctionDec h n f r b)
    with assms(1,2) show ?thesis
      by (simp add: cloner_dispatch_def cl_defs wf_node_def)
        (intro copy_rules ok_new; (simp add: class_strip copy_facts)?;
          (rule copies_Cons, assumption, rule copies_append; assumption)?)
  next
    case (MethodDec h n f r b)
    with assms(1,2) show ?thesis
      by (simp add: cloner_dispatch_def cl_defs wf_node_def)
        (intro copy_rules ok_new; (simp add: class_strip copy_facts)?;
          (rule copies_Cons, assumption, rule copies_append; assumption)?)
  next
    case (VarDec h n t i)
    with assms(1,2) show ?thesis
      by (simp add: cloner_dispatch_def cl_defs wf_node_def)
        (intro copy_rules ok_new; (simp add: class_strip copy_facts)?; (rule copies_append; assumption)?)
  next
    case (RecordExp h t fs)
    with assms(1,2) show ?thesis
      by (simp add: cloner_dispatch_def cl_defs wf_node_def)
        (intro copy_rules ok_new; (simp add: class_strip copy_facts)?; (rule copies_Cons; assumption)?)
  next
    case (IfExp h c t f)
    with assms(1,2) show ?thesis
      by (simp add: cloner_dispatch_def cl_defs wf_node_def)
        (intro copy_rules ok_new; (simp add: class_strip copy_facts)?; (rule copies3_swap; assumption)?)
  next
    case (LetExp h c b)
    with assms(1,2) show ?thesis
      by (simp add: cloner_dispatch_def cl_defs wf_node_def)
        (intro copy_rules ok_new; (simp add: class_strip copy_facts)?; (rule copies2_swap; assumption)?)
  qed (use assms in \<open>simp_all add: cloner_dispatch_def cl_defs cl_chunk_visit_def wf_node_def clonable_def\<close>,
      (intro copy_rules ok_new; (simp add: class_strip copy_facts)?;
        ((rule copies3; assumption) | (rule copies2; assumption))?)+)
qed

lemma recurse_collection_cong:
  assumes "\<And>c. c \<in> set es \<Longrightarrow> f c = g c"
  shows "recurse_collection f cls es s = recurse_collection g cls es s"
  using assms
proof (induction es arbitrary: s)
  case (Cons e es)
  then have "recurse_collection f cls es = recurse_collection g cls es" by (intro ext) simp
  with Cons.prems show ?case by (simp add: recurse_def)
qed simp

lemma cloner_dispatch_local:
  assumes "\<And>c. size c < size e \<Longrightarrow> f c = g c"
  shows "cloner_dispatch f e s = cloner_dispatch g e s"
proof -
  have sub: "f c = g c" if "c \<in> set (subs e)" for c using assms subs_size that by blast
  have opt: "recurse_opt f cls m = recurse_opt g cls m" if "\<And>c. c \<in> set (opt_list m) \<Longrightarrow> f c = g c" for cls m
    using that by (cases m) (auto simp: recurse_opt_def recurse_def fun_eq_iff)
  have coll: "recurse_collection f cls es = recurse_collection g cls es" if "\<And>c. c \<in> set es \<Longrightarrow> f c = g c" for cls es
    by (rule ext, rule recurse_collection_cong) (rule that)
  show ?thesis
    using sub opt coll
    by (cases e) (simp_all add: cloner_dispatch_def cl_defs cl_chunk_visit_def recurse_def)
qed

lemma cloner_dispatch_cong [fundef_cong]:
  assumes "e = e'" and "s = s'" and "\<And>c s. size c < size e' \<Longrightarrow> f c s = g c s"
  shows "cloner_dispatch f e s = cloner_dispatch g e' s'"
  unfolding assms(1,2) by (rule cloner_dispatch_local) (use assms(3) in \<open>auto simp: fun_eq_iff\<close>)

function cloner_visit :: "clone_state visit" where
  "cloner_visit e s = cloner_dispatch cloner_visit e s"
  by auto
termination by (relation "measure (size \<circ> fst)") auto

declare cloner_visit.simps [simp del]

text \<open>\<open>clone\<close>: a new \<open>Cloner\<close>, and its result.\<close>

definition clone :: "ast \<Rightarrow> addr \<Rightarrow> (ast option \<times> addr) res" where
  "clone tree n =
     bindE (cloner_visit tree \<lparr>result = None, cl_next = n\<rparr>) (\<lambda>s. Inr (result s, cl_next s))"

lemma cloner_visit_fun: "cloner_visit e = cloner_dispatch cloner_visit e"
  by (rule ext) (rule cloner_visit.simps)

lemma clones_cong: "f e = g e \<Longrightarrow> clones f e = clones g e" by (simp add: clones_def)

lemma visit_clones:
  "wf_ast e \<Longrightarrow> list_all clonable (nodes e) \<Longrightarrow> clones cloner_visit e"
proof (induction e rule: nodes.induct)
  case (1 e)
  have "clones cloner_visit c" if "c \<in> set (subs e)" for c
    using 1 that nodes_trans [OF that] by (auto simp: wf_ast_unfold [of e] list_all_iff)
  moreover have "wf_node e" "clonable e"
    using "1.prems" by (auto simp: wf_ast_unfold [of e] nodes.simps [of e])
  ultimately have "clones (cloner_dispatch cloner_visit) e" by (rule dispatch_clones)
  then show ?case using clones_cong cloner_visit_fun by blast
qed

text \<open>C13: The clone of a tree without object constructs is the same tree, all of whose nodes are new:
  the copy shares no node with the tree, nor between its own parts.\<close>

theorem clone_correct:
  assumes "wf_ast e" and "list_all clonable (nodes e)"
  shows "\<exists>r m. clone e n = Inr (Some r, m) \<and> strip r = strip e \<and>
    distinct (map addr_of (nodes r)) \<and> addr_of ` set (nodes r) \<subseteq> {n..<m}"
proof -
  from visit_clones [OF assms] obtain t r where
    "cloner_visit e \<lparr>result = None, cl_next = n\<rparr> = Inr t" "result t = Some r" "copies [e] [r] n (cl_next t)"
    unfolding clones_def by fastforce
  then show ?thesis by (auto simp: clone_def copies_def owns_def)
qed

theorem clone_correct_witness:
  "\<exists>r m. clone (OpExp (header_at 0) (IntExp (header_at 1) 1) op_add (IntExp (header_at 2) 2)) 7 = Inr (Some r, m) \<and>
    addr_of ` set (nodes r) \<subseteq> {7..<m}"
proof -
  let ?e = "OpExp (header_at 0) (IntExp (header_at 1) 1) op_add (IntExp (header_at 2) 2)"
  have "wf_ast ?e" "list_all clonable (nodes ?e)"
    by (simp_all add: wf_ast_unfold wf_node_def is_class_defs nodes.simps clonable_def)
  from clone_correct [OF this, of 7] show ?thesis by blast
qed

text \<open>The object constructs are not cloned: a sequence whose second expression creates an object is
  cloned into a sequence that holds the copy of its first expression twice, the same node.\<close>

theorem clone_object_aliases:
  "clone (SeqExp h [IntExp h1 w, ObjectExp h2 t]) n =
    (let copy = IntExp \<lparr>adr = n, loc = loc h1\<rparr> w
     in Inr (Some (SeqExp \<lparr>adr = Suc n, loc = loc h\<rparr> [copy, copy]), Suc (Suc n)))"
  by (simp add: clone_def cloner_visit.simps cloner_dispatch_def cl_SeqExp_def cl_IntExp_def recurse_def
      cl_new_def new_defs is_class_defs Let_def)

end
