(* ===== verification/Tiger_Eval.thy ===== *)
theory Tiger_Eval
  imports Ast_Visitor "HOL-Library.Signed_Division"
begin

text \<open>
  The meaning of a part of Tiger, to state what the passes that rewrite trees preserve:
  literals, variables, assignments, operators, sequences, conditionals, loops, \<open>break\<close>, \<open>let\<close> of
  variables and calls of primitives, on 32-bit integers and strings.  What the primitives do to the
  rest of the world is a parameter, \<open>prims\<close>; the other constructs (records, arrays, functions,
  objects) have no meaning here.

  \<open>eval n e\<close> is the outcome of \<open>e\<close> within \<open>n\<close> nested evaluations, \<open>None\<close> when it takes more (or when
  \<open>e\<close> has no meaning, as a test that is no integer): \<open>e\<close> has an outcome when some \<open>n\<close> gives it.
\<close>

section \<open>The meaning of expressions\<close>

datatype val = IntV i32 | StrV string | UnitV

text \<open>The values of the variables in scope, and the rest of the world.\<close>

record 'w store =
  vars :: "symbol \<Rightarrow> val"
  world :: 'w

datatype 'w outcome = Val "val" "'w store" | Brk "'w store"

definition assign :: "symbol \<Rightarrow> val \<Rightarrow> 'w store \<Rightarrow> 'w store" where
  "assign x v s = s\<lparr>vars := (vars s)(x := v)\<rparr>"

primrec out_assign :: "symbol \<Rightarrow> val \<Rightarrow> 'w outcome \<Rightarrow> 'w outcome" where
  "out_assign x v (Val a s) = Val a (assign x v s)"
| "out_assign x v (Brk s) = Brk (assign x v s)"

primrec out_store :: "'w outcome \<Rightarrow> 'w store" where
  "out_store (Val a s) = s"
| "out_store (Brk s) = s"

text \<open>What follows a value; a \<open>break\<close> goes through.\<close>

definition andthen ::
  "'w outcome option \<Rightarrow> (val \<Rightarrow> 'w store \<Rightarrow> 'w outcome option) \<Rightarrow> 'w outcome option" where
  "andthen r k = (case r of
     None \<Rightarrow> None | Some u \<Rightarrow> (case u of Val a s \<Rightarrow> k a s | Brk s \<Rightarrow> Some (Brk s)))"

text \<open>What follows the body of a loop, that a \<open>break\<close> ends.\<close>

definition loop_then ::
  "'w outcome option \<Rightarrow> ('w store \<Rightarrow> 'w outcome option) \<Rightarrow> 'w outcome option" where
  "loop_then r k = (case r of
     None \<Rightarrow> None | Some u \<Rightarrow> (case u of Val a s \<Rightarrow> k s | Brk s \<Rightarrow> Some (Val UnitV s)))"

definition truth :: "bool \<Rightarrow> i32" where
  "truth b = (if b then 1 else 0)"

text \<open>The order of strings, by the codes of their characters; the comparison of two things in it.\<close>

fun str_less :: "string \<Rightarrow> string \<Rightarrow> bool" where
  "str_less [] [] = False"
| "str_less [] (d # b) = True"
| "str_less (c # a) [] = False"
| "str_less (c # a) (d # b) =
     ((of_char c :: nat) < of_char d \<or> c = d \<and> str_less a b)"

definition compared :: "oper \<Rightarrow> bool \<Rightarrow> bool \<Rightarrow> i32 option" where
  "compared oper lt eq = (case oper of
     op_eq \<Rightarrow> Some (truth eq) | op_ne \<Rightarrow> Some (truth (\<not> eq))
   | op_lt \<Rightarrow> Some (truth lt) | op_le \<Rightarrow> Some (truth (lt \<or> eq))
   | op_gt \<Rightarrow> Some (truth (\<not> lt \<and> \<not> eq)) | op_ge \<Rightarrow> Some (truth (\<not> lt))
   | _ \<Rightarrow> None)"

definition int_op :: "oper \<Rightarrow> i32 \<Rightarrow> i32 \<Rightarrow> i32 option" where
  "int_op oper a b = (case oper of
     op_add \<Rightarrow> Some (a + b) | op_sub \<Rightarrow> Some (a - b) | op_mul \<Rightarrow> Some (a * b)
   | op_div \<Rightarrow> (if b = 0 \<or> b = - 1 \<and> a = - (2 ^ 31) then None else Some (word_of_int (sint a sdiv sint b)))
   | _ \<Rightarrow> compared oper (sint a < sint b) (a = b))"

definition op_value :: "oper \<Rightarrow> val \<Rightarrow> val \<Rightarrow> val option" where
  "op_value oper a b = (case a of
     IntV x \<Rightarrow> (case b of IntV y \<Rightarrow> map_option IntV (int_op oper x y) | _ \<Rightarrow> None)
   | StrV x \<Rightarrow> (case b of StrV y \<Rightarrow> map_option IntV (compared oper (str_less x y) (x = y)) | _ \<Rightarrow> None)
   | UnitV \<Rightarrow> None)"

text \<open>The value and the effect of a primitive.\<close>

type_synonym 'w prims = "symbol \<Rightarrow> val list \<Rightarrow> 'w \<Rightarrow> (val \<times> 'w) option"

definition call_prim :: "'w prims \<Rightarrow> symbol \<Rightarrow> val list \<Rightarrow> 'w store \<Rightarrow> 'w outcome option" where
  "call_prim prims f vs s = map_option (\<lambda>(v, w). Val v (s\<lparr>world := w\<rparr>)) (prims f vs (world s))"

text \<open>A declaration of one initialised variable; the declarations that \<open>eval\<close> knows.\<close>

definition var_of :: "ast \<Rightarrow> (symbol \<times> ast) option" where
  "var_of c = (case c of
     VarChunk _ ds \<Rightarrow> (case ds of
       [d] \<Rightarrow> (case d of VarDec _ x _ i \<Rightarrow> (case i of Some e \<Rightarrow> Some (x, e) | None \<Rightarrow> None) | _ \<Rightarrow> None)
     | _ \<Rightarrow> None)
   | _ \<Rightarrow> None)"

definition let_vars :: "ast \<Rightarrow> (symbol \<times> ast) list option" where
  "let_vars cs = (case cs of
     ChunkList _ xs \<Rightarrow>
       if list_all (\<lambda>c. var_of c \<noteq> None) xs then Some (map (\<lambda>c. the (var_of c)) xs) else None
   | _ \<Rightarrow> None)"

definition for_var :: "ast \<Rightarrow> (symbol \<times> ast) option" where
  "for_var d = (case d of
     VarDec _ i _ init \<Rightarrow> (case init of Some lo \<Rightarrow> Some (i, lo) | None \<Rightarrow> None) | _ \<Rightarrow> None)"

definition assigned_var :: "ast \<Rightarrow> symbol option" where
  "assigned_var v = (case v of SimpleVar _ x \<Rightarrow> Some x | _ \<Rightarrow> None)"

type_synonym 'w eval = "ast \<Rightarrow> 'w store \<Rightarrow> 'w outcome option"

text \<open>The meaning of each construct, from that of its parts, \<open>ev\<close>.\<close>

fun eval_seq :: "'w eval \<Rightarrow> val \<Rightarrow> ast list \<Rightarrow> 'w store \<Rightarrow> 'w outcome option" where
  "eval_seq ev v [] s = Some (Val v s)"
| "eval_seq ev v (e # es) s = andthen (ev e s) (\<lambda>a s1. eval_seq ev a es s1)"

fun eval_args ::
  "'w eval \<Rightarrow> ast list \<Rightarrow> val list \<Rightarrow> (val list \<Rightarrow> 'w store \<Rightarrow> 'w outcome option) \<Rightarrow> 'w store \<Rightarrow> 'w outcome option" where
  "eval_args ev [] vs k s = k (rev vs) s"
| "eval_args ev (e # es) vs k s = andthen (ev e s) (\<lambda>a s1. eval_args ev es (a # vs) k s1)"

fun eval_let :: "'w eval \<Rightarrow> (symbol \<times> ast) list \<Rightarrow> ast \<Rightarrow> 'w store \<Rightarrow> 'w outcome option" where
  "eval_let ev [] b s = ev b s"
| "eval_let ev ((x, e) # vs) b s =
     andthen (ev e s) (\<lambda>a s1. map_option (out_assign x (vars s1 x)) (eval_let ev vs b (assign x a s1)))"

text \<open>The body of a \<open>for\<close> for the integers \<open>k\<close>, \<open>k + 1\<close>, ...: \<open>c\<close> of them, unless it breaks.\<close>

primrec eval_for :: "'w eval \<Rightarrow> nat \<Rightarrow> symbol \<Rightarrow> int \<Rightarrow> ast \<Rightarrow> 'w store \<Rightarrow> 'w outcome option" where
  "eval_for ev 0 i k b s = Some (Val UnitV s)"
| "eval_for ev (Suc c) i k b s =
     loop_then (ev b (assign i (IntV (word_of_int k)) s)) (eval_for ev c i (k + 1) b)"

definition for_range :: "val \<Rightarrow> val \<Rightarrow> (int \<Rightarrow> int \<Rightarrow> 'a option) \<Rightarrow> 'a option" where
  "for_range a c f = (case a of
     IntV k \<Rightarrow> (case c of IntV m \<Rightarrow> f (sint k) (sint m) | _ \<Rightarrow> None) | _ \<Rightarrow> None)"

text \<open>The choice of a test.\<close>

definition test_int :: "val \<Rightarrow> 'a option \<Rightarrow> 'a option \<Rightarrow> 'a option" where
  "test_int a t f = (case a of IntV k \<Rightarrow> if k \<noteq> 0 then t else f | _ \<Rightarrow> None)"

definition eval_step :: "'w prims \<Rightarrow> 'w eval \<Rightarrow> 'w eval" where
  "eval_step prims ev e s = (case e of
     IntExp _ i \<Rightarrow> Some (Val (IntV i) s)
   | StringExp _ t \<Rightarrow> Some (Val (StrV t) s)
   | CallExp _ f args \<Rightarrow> eval_args ev args [] (call_prim prims f) s
   | SimpleVar _ x \<Rightarrow> Some (Val (vars s x) s)
   | BreakExp _ \<Rightarrow> Some (Brk s)
   | OpExp _ l oper r \<Rightarrow>
       andthen (ev l s) (\<lambda>a s1. andthen (ev r s1) (\<lambda>b s2.
         map_option (\<lambda>v. Val v s2) (op_value oper a b)))
   | AssignExp _ v x \<Rightarrow> (case assigned_var v of
       None \<Rightarrow> None
     | Some name \<Rightarrow> andthen (ev x s) (\<lambda>a s1. Some (Val UnitV (assign name a s1))))
   | SeqExp _ es \<Rightarrow> eval_seq ev UnitV es s
   | IfExp _ c t f \<Rightarrow> andthen (ev c s) (\<lambda>a s1. test_int a (ev t s1) (ev f s1))
   | WhileExp _ c b \<Rightarrow> andthen (ev c s) (\<lambda>a s1.
       test_int a (loop_then (ev b s1) (ev e)) (Some (Val UnitV s1)))
   | ForExp _ d hi b \<Rightarrow> (case for_var d of
       None \<Rightarrow> None
     | Some (i, lo) \<Rightarrow>
         andthen (ev lo s) (\<lambda>a s1. andthen (ev hi s1) (\<lambda>c s2.
           for_range a c (\<lambda>k m. map_option (out_assign i (vars s2 i))
             (eval_for ev (nat (m - k + 1)) i k b s2)))))
   | LetExp _ cs b \<Rightarrow> (case let_vars cs of
       None \<Rightarrow> None
     | Some vs \<Rightarrow> eval_let ev vs b s)
   | _ \<Rightarrow> None)"

primrec eval :: "'w prims \<Rightarrow> nat \<Rightarrow> 'w eval" where
  "eval prims 0 = (\<lambda>e s. None)"
| "eval prims (Suc n) = (\<lambda>e s. eval_step prims (eval prims n) e s)"

section \<open>More steps\<close>

definition opt_le :: "'a option \<Rightarrow> 'a option \<Rightarrow> bool" where
  "opt_le r q \<longleftrightarrow> r = None \<or> r = q"

definition eval_le :: "'w eval \<Rightarrow> 'w eval \<Rightarrow> bool" where
  "eval_le f g \<longleftrightarrow> (\<forall>e s. opt_le (f e s) (g e s))"

lemma opt_le_refl: "opt_le r r" "opt_le None r"
  by (simp_all add: opt_le_def)

lemma andthen_le: "opt_le r q \<Longrightarrow> (\<And>a s. opt_le (k a s) (l a s)) \<Longrightarrow> opt_le (andthen r k) (andthen q l)"
  by (auto simp: opt_le_def andthen_def split: option.splits outcome.splits)

lemma loop_then_le: "opt_le r q \<Longrightarrow> (\<And>s. opt_le (k s) (l s)) \<Longrightarrow> opt_le (loop_then r k) (loop_then q l)"
  by (auto simp: opt_le_def loop_then_def split: option.splits outcome.splits)

lemma map_option_le: "opt_le r q \<Longrightarrow> opt_le (map_option h r) (map_option h q)"
  by (auto simp: opt_le_def)

lemma for_range_le: "(\<And>k m. opt_le (f k m) (g k m)) \<Longrightarrow> opt_le (for_range a c f) (for_range a c g)"
  by (auto simp: for_range_def opt_le_refl split: val.splits)

lemma test_int_le: "opt_le r q \<Longrightarrow> opt_le r' q' \<Longrightarrow> opt_le (test_int a r r') (test_int a q q')"
  by (auto simp: test_int_def opt_le_refl split: val.splits)

lemmas le_rules = andthen_le loop_then_le map_option_le for_range_le test_int_le

lemma eval_leD: "eval_le f g \<Longrightarrow> opt_le (f e s) (g e s)"
  by (simp add: eval_le_def)

lemma eval_seq_le: "eval_le f g \<Longrightarrow> opt_le (eval_seq f v es s) (eval_seq g v es s)"
  by (induction es arbitrary: v s) (auto simp: opt_le_refl intro!: andthen_le intro: eval_leD)

lemma eval_args_le: "eval_le f g \<Longrightarrow> opt_le (eval_args f es vs k s) (eval_args g es vs k s)"
  by (induction es arbitrary: vs s) (auto simp: opt_le_refl intro!: andthen_le intro: eval_leD)

lemma eval_let_le: "eval_le f g \<Longrightarrow> opt_le (eval_let f vs b s) (eval_let g vs b s)"
  by (induction f vs b s rule: eval_let.induct) (auto intro!: le_rules intro: eval_leD)

lemma eval_for_le: "eval_le f g \<Longrightarrow> opt_le (eval_for f c i k b s) (eval_for g c i k b s)"
  by (induction c arbitrary: k s) (auto simp: opt_le_refl intro!: le_rules intro: eval_leD)

lemma eval_step_le:
  assumes "eval_le f g"
  shows "eval_le (eval_step prims f) (eval_step prims g)"
  unfolding eval_le_def
proof (intro allI)
  fix e s
  note eval = eval_leD [OF assms] eval_seq_le [OF assms] eval_args_le [OF assms] eval_let_le [OF assms] eval_for_le [OF assms]
  show "opt_le (eval_step prims f e s) (eval_step prims g e s)"
    by (cases e) (auto simp: eval_step_def opt_le_refl intro!: le_rules intro: eval split: option.splits prod.splits)
qed

lemma eval_le_Suc: "eval_le (eval prims n) (eval prims (Suc n))"
proof (induction n)
  case (Suc n)
  from eval_step_le [OF this, of prims] show ?case by (simp only: eval.simps(2))
qed (simp add: eval_le_def opt_le_refl)

lemma eval_more:
  assumes "n \<le> m" and "eval prims n e s = Some u"
  shows "eval prims m e s = Some u"
  using assms
proof (induction rule: dec_induct)
  case (step m)
  with eval_leD [OF eval_le_Suc, of prims m e s] show ?case by (simp add: opt_le_def)
qed

section \<open>Variables that an expression does not use\<close>

fun free_let :: "(ast \<Rightarrow> bool) \<Rightarrow> symbol \<Rightarrow> (symbol \<times> ast) list \<Rightarrow> ast \<Rightarrow> bool" where
  "free_let f x [] b = f b"
| "free_let f x ((y, e) # vs) b \<longleftrightarrow> f e \<or> x \<noteq> y \<and> free_let f x vs b"

lemma free_let_cong [fundef_cong]:
  assumes "x = y" "vs = ws" "b = c" and "\<And>z d. (z, d) \<in> set ws \<Longrightarrow> f d = g d" and "f c = g c"
  shows "free_let f x vs b = free_let g y ws c"
proof -
  have "(\<And>z d. (z, d) \<in> set ws \<Longrightarrow> f d = g d) \<Longrightarrow> f c = g c \<Longrightarrow> free_let f y ws c = free_let g y ws c"
    by (induction f y ws c rule: free_let.induct) auto
  with assms show ?thesis by simp
qed

lemma var_of_size: "var_of c = Some (x, e) \<Longrightarrow> size e < size c"
  by (auto simp: var_of_def split: ast.splits list.splits option.splits)

lemma let_vars_size: "let_vars cs = Some vs \<Longrightarrow> (x, e) \<in> set vs \<Longrightarrow> size e < size cs"
proof -
  assume v: "let_vars cs = Some vs" "(x, e) \<in> set vs"
  then obtain h xs where cs: "cs = ChunkList h xs" "list_all (\<lambda>c. var_of c \<noteq> None) xs"
    "vs = map (\<lambda>c. the (var_of c)) xs"
    by (auto simp: let_vars_def split: ast.splits if_splits)
  with v(2) obtain c where "c \<in> set xs" "var_of c = Some (x, e)" by (auto simp: list_all_iff)
  with var_of_size [of c x e] size_list_member_less [of c xs] cs(1) show "size e < size cs" by fastforce
qed

lemma for_var_size: "for_var d = Some (i, lo) \<Longrightarrow> size lo < size d"
  by (auto simp: for_var_def split: ast.splits option.splits)

function free :: "symbol \<Rightarrow> ast \<Rightarrow> bool" where
  "free x e = (case e of
     SimpleVar _ y \<Rightarrow> x = y
   | OpExp _ l _ r \<Rightarrow> free x l \<or> free x r
   | AssignExp _ v b \<Rightarrow> (case assigned_var v of None \<Rightarrow> False | Some y \<Rightarrow> x = y \<or> free x b)
   | SeqExp _ es \<Rightarrow> list_ex (free x) es
   | IfExp _ c t f \<Rightarrow> free x c \<or> free x t \<or> free x f
   | WhileExp _ c b \<Rightarrow> free x c \<or> free x b
   | ForExp _ d hi b \<Rightarrow> (case for_var d of
       None \<Rightarrow> False | Some (i, lo) \<Rightarrow> free x lo \<or> free x hi \<or> x \<noteq> i \<and> free x b)
   | LetExp _ cs b \<Rightarrow> (case let_vars cs of None \<Rightarrow> False | Some vs \<Rightarrow> free_let (free x) x vs b)
   | CallExp _ _ args \<Rightarrow> list_ex (free x) args
   | _ \<Rightarrow> False)"
  by auto
termination
proof (relation "measure (\<lambda>(x, e). size e)", goal_cases)
qed (auto simp: size_list_member_less dest: let_vars_size for_var_size)

declare free.simps [simp del]

lemmas free_simps =
  free.simps [of _ "ArrayExp _ _ _ _"] free.simps [of _ "ArrayTy _ _"] free.simps [of _ "AssignExp _ _ _"]
  free.simps [of _ "BreakExp _"] free.simps [of _ "CallExp _ _ _"] free.simps [of _ "CastExp _ _ _"]
  free.simps [of _ "ClassTy _ _ _"] free.simps [of _ "Field_node _ _ _"] free.simps [of _ "FieldInit _ _ _"]
  free.simps [of _ "FieldVar _ _ _"] free.simps [of _ "ForExp _ _ _ _"] free.simps [of _ "FunctionDec _ _ _ _ _"]
  free.simps [of _ "IfExp _ _ _ _"] free.simps [of _ "IntExp _ _"] free.simps [of _ "LetExp _ _ _"]
  free.simps [of _ "MethodCallExp _ _ _ _"] free.simps [of _ "MethodDec _ _ _ _ _"] free.simps [of _ "NameTy _ _"]
  free.simps [of _ "NilExp _"] free.simps [of _ "ObjectExp _ _"] free.simps [of _ "OpExp _ _ _ _"]
  free.simps [of _ "RecordExp _ _ _"] free.simps [of _ "RecordTy _ _"] free.simps [of _ "SeqExp _ _"]
  free.simps [of _ "SimpleVar _ _"] free.simps [of _ "StringExp _ _"] free.simps [of _ "SubscriptVar _ _ _"]
  free.simps [of _ "TypeDec _ _ _"] free.simps [of _ "VarDec _ _ _ _"] free.simps [of _ "WhileExp _ _ _"]
  free.simps [of _ "ChunkList _ _"] free.simps [of _ "FunctionChunk _ _"] free.simps [of _ "MethodChunk _ _"]
  free.simps [of _ "TypeChunk _ _"] free.simps [of _ "VarChunk _ _"]

text \<open>The computation is not changed by the value of \<open>x\<close>, that it leaves.\<close>

definition framed :: "symbol \<Rightarrow> ('w store \<Rightarrow> 'w outcome option) \<Rightarrow> bool" where
  "framed x k \<longleftrightarrow> (\<forall>v s. k (assign x v s) = map_option (out_assign x v) (k s))"

lemma assign_simps [simp]:
  "assign x v (assign x w s) = assign x v s" "vars (assign x v s) y = (if y = x then v else vars s y)"
  "assign x (vars s x) s = s"
  by (simp_all add: assign_def)

lemma assign_commute: "x \<noteq> y \<Longrightarrow> assign x v (assign y w s) = assign y w (assign x v s)"
  by (simp add: assign_def fun_upd_twist)

lemma out_assign_simps [simp]: "out_assign x v (out_assign x w u) = out_assign x v u"
  by (cases u) simp_all

lemma out_assign_commute: "x \<noteq> y \<Longrightarrow> out_assign x v (out_assign y w u) = out_assign y w (out_assign x v u)"
  by (cases u) (simp_all add: assign_commute)

lemma framed_val:
  "framed x (\<lambda>s. Some (Val a s))" "framed x (\<lambda>s. Some (Brk s))" "framed x (\<lambda>s. None)"
  "x \<noteq> y \<Longrightarrow> framed x (\<lambda>s. Some (Val (vars s y) s))"
  "x \<noteq> y \<Longrightarrow> framed x (\<lambda>s. Some (Val a (assign y b s)))"
  "framed x (\<lambda>s. map_option (\<lambda>v. Val v s) r)"
  by (simp_all add: framed_def assign_commute option.map_comp comp_def)

lemma framed_andthen: "framed x r \<Longrightarrow> (\<And>a. framed x (k a)) \<Longrightarrow> framed x (\<lambda>s. andthen (r s) k)"
  unfolding framed_def andthen_def by (auto split: option.splits outcome.splits)

lemma framed_loop_then: "framed x r \<Longrightarrow> framed x k \<Longrightarrow> framed x (\<lambda>s. loop_then (r s) k)"
  unfolding framed_def loop_then_def by (auto split: option.splits outcome.splits)

lemma framed_test: "framed x r \<Longrightarrow> framed x q \<Longrightarrow> framed x (\<lambda>s. test_int a (r s) (q s))"
  by (simp add: framed_def test_int_def split: val.splits)

lemma framed_range:
  "(\<And>k m. framed x (\<lambda>s. f s k m)) \<Longrightarrow> framed x (\<lambda>s. for_range a c (f s))"
  by (simp add: framed_def for_range_def split: val.splits)

lemma framed_restore:
  assumes "x \<noteq> y \<Longrightarrow> framed x f" and "\<And>v s. x = y \<Longrightarrow> f (assign y v s) = f s \<or>
      map_option (out_assign y (vars s y)) (f (assign y v s)) = map_option (out_assign y (vars s y)) (f s)"
  shows "framed x (\<lambda>s. map_option (out_assign y (vars s y)) (f s))"
proof (cases "x = y")
  case True
  have "map_option (out_assign y v) (f (assign y v s)) =
    map_option (out_assign y v) (map_option (out_assign y (vars s y)) (f s))" for v s
    using assms(2) [OF True, of v s]
  proof
    assume "map_option (out_assign y (vars s y)) (f (assign y v s)) = map_option (out_assign y (vars s y)) (f s)"
    from arg_cong [OF this, of "map_option (out_assign y v)"] show ?thesis
      by (simp add: option.map_comp comp_def)
  qed (simp add: option.map_comp comp_def)
  with True show ?thesis by (simp add: framed_def)
next
  case False
  with assms(1) show ?thesis
    by (simp add: framed_def option.map_comp comp_def out_assign_commute)
qed

lemma framed_bind:
  "x \<noteq> y \<Longrightarrow> framed x f \<Longrightarrow> framed x (\<lambda>s. f (assign y a s))"
  by (simp add: framed_def assign_commute [of y x])

lemma framed_seq: "list_all (\<lambda>e. framed x (ev e)) es \<Longrightarrow> framed x (eval_seq ev v es)"
proof (induction es arbitrary: v)
  case (Cons e es)
  then have "framed x (\<lambda>s. andthen (ev e s) (\<lambda>a. eval_seq ev a es))" by (auto intro: framed_andthen)
  then show ?case by (simp add: framed_def)
qed (simp add: framed_def)

lemma framed_let:
  assumes "\<And>e. \<not> free x e \<Longrightarrow> framed x (ev e)" and "\<not> free_let (free x) x vs b"
  shows "framed x (eval_let ev vs b)"
  using assms(2)
proof (induction vs)
  case Nil
  then have "framed x (ev b)" using assms(1) by simp
  then show ?case by (simp add: framed_def)
next
  case (Cons ye vs)
  obtain y e where ye: "ye = (y, e)" by (cases ye)
  have "framed x (\<lambda>s. map_option (out_assign y (vars s y)) (eval_let ev vs b (assign y a s)))" for a
    by (rule framed_restore) (use Cons ye in \<open>auto intro: framed_bind\<close>)
  with Cons.prems ye assms(1) [of e] have "framed x (\<lambda>s. andthen (ev e s)
      (\<lambda>a s. map_option (out_assign y (vars s y)) (eval_let ev vs b (assign y a s))))"
    by (auto intro: framed_andthen)
  then show ?case by (simp add: framed_def ye)
qed

lemma framed_for:
  assumes "x \<noteq> i" and "framed x (ev b)"
  shows "framed x (eval_for ev c i k b)"
proof (induction c arbitrary: k)
  case (Suc c)
  have "framed x (\<lambda>s. loop_then (ev b (assign i (IntV (word_of_int k)) s)) (eval_for ev c i (k + 1) b))"
    by (intro framed_loop_then framed_bind assms Suc)
  then show ?case by (simp add: framed_def)
qed (simp add: framed_def)

lemma framed_for_restore:
  assumes "x \<noteq> i \<Longrightarrow> framed x (ev b)"
  shows "framed x (\<lambda>s. map_option (out_assign i (vars s i)) (eval_for ev c i k b s))"
proof (rule framed_restore)
  show "eval_for ev c i k b (assign i v s) = eval_for ev c i k b s \<or>
    map_option (out_assign i (vars s i)) (eval_for ev c i k b (assign i v s)) =
    map_option (out_assign i (vars s i)) (eval_for ev c i k b s)" for v s
    by (cases c) simp_all
qed (use assms framed_for in blast)

lemma framed_args:
  assumes "list_all (\<lambda>e. framed x (ev e)) es" and "\<And>vs. framed x (k vs)"
  shows "framed x (eval_args ev es vs k)"
  using assms(1)
proof (induction es arbitrary: vs)
  case (Cons e es)
  then have "framed x (\<lambda>s. andthen (ev e s) (\<lambda>a. eval_args ev es (a # vs) k))" by (auto intro: framed_andthen)
  then show ?case by (simp add: framed_def)
qed (use assms(2) in \<open>simp add: framed_def\<close>)

lemma framed_prim: "framed x (call_prim prims f vs)"
  by (auto simp: framed_def call_prim_def assign_def option.map_comp comp_def intro!: option.map_cong)

lemma framed_step:
  assumes ev: "\<And>e. \<not> free x e \<Longrightarrow> framed x (ev e)"
  shows "\<not> free x e \<Longrightarrow> framed x (eval_step prims ev e)"
proof -
  assume e: "\<not> free x e"
  note rules = framed_val framed_andthen framed_test framed_range framed_loop_then ev
  have "framed x (\<lambda>s. eval_step prims ev e s)"
  proof (cases e)
    case (ForExp h d hi b)
    show ?thesis
    proof (cases "for_var d")
      case None
      with e ForExp show ?thesis
        by (simp add: eval_step_def free_simps framed_val)
    next
      case (Some il)
      obtain i lo where "il = (i, lo)" by (cases il)
      with e ForExp Some show ?thesis
        by (auto simp: eval_step_def free_simps intro!: rules framed_for_restore)
    qed
  next
    case (LetExp h cs b)
    with e show ?thesis
      by (cases "let_vars cs") (auto simp: eval_step_def free_simps framed_val intro!: framed_let ev)
  next
    case (AssignExp h v b)
    with e show ?thesis
      by (cases "assigned_var v") (auto simp: eval_step_def free_simps framed_val intro!: rules)
  next
    case (SeqExp h es)
    with e show ?thesis
      by (auto simp: eval_step_def free_simps list_all_iff list_ex_iff intro!: framed_seq ev)
  next
    case (CallExp h f args)
    with e show ?thesis
      by (auto simp: eval_step_def free_simps list_all_iff list_ex_iff intro!: framed_args framed_prim ev)
  next
    case (WhileExp h c b)
    with e have "framed x (ev c)" "framed x (ev b)" "framed x (ev e)"
      by (auto simp: free_simps intro!: ev)
    with WhileExp show ?thesis by (auto simp: eval_step_def intro!: rules)
  next
    case (IfExp h c t f)
    with e have "framed x (ev c)" "framed x (ev t)" "framed x (ev f)"
      by (auto simp: free_simps intro!: ev)
    with IfExp show ?thesis by (auto simp: eval_step_def intro!: rules)
  next
    case (OpExp h l oper r)
    with e have "framed x (ev l)" "framed x (ev r)"
      by (auto simp: free_simps intro!: ev)
    with OpExp show ?thesis by (auto simp: eval_step_def intro!: rules)
  qed (use e in \<open>auto simp: eval_step_def free_simps framed_val\<close>)
  then show ?thesis by simp
qed

text \<open>A variable that is not free in an expression does not matter, and is left as it was.\<close>

lemma eval_frame: "\<not> free x e \<Longrightarrow> framed x (eval prims n e)"
proof (induction n arbitrary: e)
  case (Suc n)
  then show ?case using framed_step [of x "eval prims n"] by simp
qed (simp add: framed_def)

section \<open>Variables that an expression does not assign\<close>

definition assigns :: "symbol \<Rightarrow> ast \<Rightarrow> bool" where
  "assigns x e \<longleftrightarrow> list_ex (\<lambda>c. case c of AssignExp _ v _ \<Rightarrow> assigned_var v = Some x | _ \<Rightarrow> False) (nodes e)"

definition keeps :: "symbol \<Rightarrow> ('w store \<Rightarrow> 'w outcome option) \<Rightarrow> bool" where
  "keeps x k \<longleftrightarrow> (\<forall>s u. k s = Some u \<longrightarrow> vars (out_store u) x = vars s x)"

lemma assigns_sub: "c \<in> set (subs e) \<Longrightarrow> assigns x c \<Longrightarrow> assigns x e"
  using nodes_trans by (fastforce simp: assigns_def list_ex_iff)

lemma out_store_assign [simp]: "out_store (out_assign x v u) = assign x v (out_store u)"
  by (cases u) simp_all

lemma keeps_val:
  "keeps x (\<lambda>s. Some (Val (f s) s))" "keeps x (\<lambda>s. Some (Brk s))" "keeps x (\<lambda>s. None)"
  "x \<noteq> y \<Longrightarrow> keeps x (\<lambda>s. Some (Val a (assign y b s)))"
  "keeps x (\<lambda>s. map_option (\<lambda>v. Val v s) r)"
  by (auto simp: keeps_def)

lemma keeps_andthen: "keeps x r \<Longrightarrow> (\<And>a. keeps x (k a)) \<Longrightarrow> keeps x (\<lambda>s. andthen (r s) k)"
  unfolding keeps_def andthen_def by (fastforce split: option.splits outcome.splits)

lemma keeps_loop_then: "keeps x r \<Longrightarrow> keeps x k \<Longrightarrow> keeps x (\<lambda>s. loop_then (r s) k)"
  unfolding keeps_def loop_then_def by (fastforce split: option.splits outcome.splits)

lemma keeps_test: "keeps x r \<Longrightarrow> keeps x q \<Longrightarrow> keeps x (\<lambda>s. test_int a (r s) (q s))"
  by (simp add: keeps_def test_int_def split: val.splits)

lemma keeps_range: "(\<And>k m. keeps x (\<lambda>s. f s k m)) \<Longrightarrow> keeps x (\<lambda>s. for_range a c (f s))"
  by (auto simp: keeps_def for_range_def split: val.splits)

text \<open>Binding a variable and restoring it.\<close>

lemma keeps_restore:
  "x \<noteq> y \<Longrightarrow> keeps x f \<Longrightarrow> keeps x (\<lambda>s. map_option (out_assign y (vars s y)) (f s))"
  "keeps y (\<lambda>s. map_option (out_assign y (vars s y)) (f s))"
  "x \<noteq> y \<Longrightarrow> keeps x f \<Longrightarrow> keeps x (\<lambda>s. f (assign y a s))"
  by (auto simp: keeps_def)

lemma keeps_bound:
  "keeps x f \<Longrightarrow> keeps x (\<lambda>s. map_option (out_assign y (vars s y)) (f (assign y a s)))"
proof (cases "x = y")
  case True
  then show ?thesis by (auto simp: keeps_def)
next
  case False
  assume "keeps x f"
  from keeps_restore(3) [OF False this] have "keeps x (\<lambda>s. f (assign y a s))" .
  from keeps_restore(1) [OF False this] show ?thesis .
qed

lemma keeps_seq: "list_all (\<lambda>e. keeps x (ev e)) es \<Longrightarrow> keeps x (eval_seq ev v es)"
proof (induction es arbitrary: v)
  case (Cons e es)
  then have "keeps x (\<lambda>s. andthen (ev e s) (\<lambda>a. eval_seq ev a es))" by (auto intro: keeps_andthen)
  then show ?case by (simp add: keeps_def)
qed (simp add: keeps_def)

lemma keeps_args:
  assumes "list_all (\<lambda>e. keeps x (ev e)) es" and "\<And>vs. keeps x (k vs)"
  shows "keeps x (eval_args ev es vs k)"
  using assms(1)
proof (induction es arbitrary: vs)
  case (Cons e es)
  then have "keeps x (\<lambda>s. andthen (ev e s) (\<lambda>a. eval_args ev es (a # vs) k))" by (auto intro: keeps_andthen)
  then show ?case by (simp add: keeps_def)
qed (use assms(2) in \<open>simp add: keeps_def\<close>)

lemma keeps_prim: "keeps x (call_prim prims f vs)"
  by (auto simp: keeps_def call_prim_def)

lemma keeps_let:
  assumes "keeps x (ev b)" and "\<And>y e. (y, e) \<in> set vs \<Longrightarrow> keeps x (ev e)"
  shows "keeps x (eval_let ev vs b)"
  using assms(2)
proof (induction vs)
  case Nil
  then show ?case using assms(1) by (simp add: keeps_def)
next
  case (Cons ye vs)
  obtain y e where ye: "ye = (y, e)" by (cases ye)
  have "keeps x (\<lambda>s. andthen (ev e s)
      (\<lambda>a s. map_option (out_assign y (vars s y)) (eval_let ev vs b (assign y a s))))"
    by (intro keeps_andthen keeps_bound) (use Cons ye in auto)
  then show ?case by (simp add: keeps_def ye)
qed

lemma keeps_for: "x \<noteq> i \<Longrightarrow> keeps x (ev b) \<Longrightarrow> keeps x (eval_for ev c i k b)"
proof (induction c arbitrary: k)
  case (Suc c)
  then have "keeps x (\<lambda>s. loop_then (ev b (assign i (IntV (word_of_int k)) s)) (eval_for ev c i (k + 1) b))"
    by (intro keeps_loop_then keeps_restore(3)) auto
  then show ?case by (simp add: keeps_def)
qed (simp add: keeps_def)

lemma keeps_for_restore:
  "keeps x (ev b) \<Longrightarrow> keeps x (\<lambda>s. map_option (out_assign i (vars s i)) (eval_for ev c i k b s))"
proof (cases "x = i")
  case True
  then show ?thesis by (simp add: keeps_restore(2))
next
  case False
  assume "keeps x (ev b)"
  then have "keeps x (eval_for ev c i k b)" by (rule keeps_for [OF False])
  then show ?thesis by (rule keeps_restore(1) [OF False])
qed


lemma let_vars_member:
  assumes "let_vars cs = Some vs" and "(y, e) \<in> set vs"
  shows "set (nodes e) \<subseteq> set (nodes cs)"
proof -
  from assms(1) obtain h xs where cs: "cs = ChunkList h xs" "list_all (\<lambda>c. var_of c \<noteq> None) xs"
    "vs = map (\<lambda>c. the (var_of c)) xs"
    by (auto simp: let_vars_def split: ast.splits if_splits)
  with assms(2) obtain c where c: "c \<in> set xs" "var_of c = Some (y, e)" by (auto simp: list_all_iff)
  then obtain k m tn where "c = VarChunk k [VarDec m y tn (Some e)]"
    by (auto simp: var_of_def split: ast.splits list.splits option.splits)
  with c(1) cs(1) show ?thesis by (auto simp: nodes.simps [of "ChunkList _ _"] nodes.simps [of "VarChunk _ _"]
    nodes.simps [of "VarDec _ _ _ _"])
qed

lemma assigns_nodes: "set (nodes c) \<subseteq> set (nodes e) \<Longrightarrow> \<not> assigns x e \<Longrightarrow> \<not> assigns x c"
  by (auto simp: assigns_def list_ex_iff)

lemma keeps_step:
  assumes ev: "\<And>e. \<not> assigns x e \<Longrightarrow> keeps x (ev e)"
    and e: "\<not> assigns x e"
  shows "keeps x (eval_step prims ev e)"
proof -
  have sub: "keeps x (ev c)" if "c \<in> set (subs e)" for c
    using ev assigns_sub [OF that] e by blast
  note rules = keeps_val keeps_andthen keeps_test keeps_range keeps_loop_then
  have "keeps x (\<lambda>s. eval_step prims ev e s)"
  proof (cases e)
    case (ForExp h d hi b)
    show ?thesis
    proof (cases "for_var d")
      case None
      with ForExp show ?thesis by (simp add: eval_step_def keeps_val)
    next
      case (Some il)
      obtain i lo where il: "il = (i, lo)" by (cases il)
      with Some have "set (nodes lo) \<subseteq> set (nodes d)"
        by (auto simp: for_var_def nodes.simps [of "VarDec _ _ _ _"] split: ast.splits option.splits)
      also have "\<dots> \<subseteq> set (nodes e)" by (rule nodes_trans) (simp add: ForExp)
      finally have "keeps x (ev lo)" using ev assigns_nodes e by blast
      with sub ForExp Some il show ?thesis
        by (auto simp: eval_step_def intro!: rules keeps_for_restore)
    qed
  next
    case (LetExp h cs b)
    show ?thesis
    proof (cases "let_vars cs")
      case None
      with LetExp show ?thesis by (simp add: eval_step_def keeps_val)
    next
      case (Some vs)
      have "keeps x (ev c)" if "(y, c) \<in> set vs" for y c
      proof -
        have "set (nodes cs) \<subseteq> set (nodes e)" by (rule nodes_trans) (simp add: LetExp)
        with let_vars_member [OF Some that] show ?thesis using ev assigns_nodes e by blast
      qed
      with keeps_let [of x ev b vs] sub LetExp Some show ?thesis by (simp add: eval_step_def)
    qed
  next
    case (AssignExp h v b)
    have "\<not> (assigned_var v = Some x)" using e by (auto simp: AssignExp assigns_def nodes.simps [of "AssignExp _ _ _"])
    with sub AssignExp show ?thesis
      by (cases "assigned_var v") (auto simp: eval_step_def intro!: rules)
  next
    case (SeqExp h es)
    with sub show ?thesis by (auto simp: eval_step_def list_all_iff intro!: keeps_seq)
  next
    case (CallExp h f args)
    with sub show ?thesis by (auto simp: eval_step_def list_all_iff intro!: keeps_args keeps_prim)
  next
    case (WhileExp h c b)
    with sub ev [OF e] show ?thesis by (auto simp: eval_step_def intro!: rules)
  next
    case (IfExp h c t f)
    with sub show ?thesis by (auto simp: eval_step_def intro!: rules)
  next
    case (OpExp h l oper r)
    with sub show ?thesis by (auto simp: eval_step_def intro!: rules)
  qed (use e in \<open>auto simp: eval_step_def keeps_val\<close>)
  then show ?thesis by simp
qed

text \<open>A variable that an expression does not assign keeps its value.\<close>

lemma eval_keeps:
  assumes "\<not> assigns x e"
  shows "keeps x (eval prims n e)"
  using assms
proof (induction n arbitrary: e)
  case (Suc n)
  then show ?case using keeps_step [of x "eval prims n"] by simp
qed (simp add: keeps_def)

section \<open>The outcome of an expression\<close>

text \<open>The outcome, if any, whatever the number of nested evaluations.\<close>

definition meaning :: "'w prims \<Rightarrow> 'w eval" where
  "meaning prims e s =
     (if \<exists>n. eval prims n e s \<noteq> None
      then eval prims (LEAST n. eval prims n e s \<noteq> None) e s else None)"

text \<open>A growing sequence of partial results and its limit.\<close>

definition limit :: "(nat \<Rightarrow> 'a option) \<Rightarrow> 'a option \<Rightarrow> bool" where
  "limit F r \<longleftrightarrow> (\<forall>n m. n \<le> m \<longrightarrow> opt_le (F n) (F m)) \<and> (\<forall>u. r = Some u \<longleftrightarrow> (\<exists>n. F n = Some u))"

lemma limitI:
  assumes "\<And>n. opt_le (F n) r" and "\<And>n m. n \<le> m \<Longrightarrow> opt_le (F n) (F m)" and "\<And>u. r = Some u \<Longrightarrow> \<exists>n. F n = Some u"
  shows "limit F r"
  using assms unfolding limit_def opt_le_def by (metis option.distinct(1))

lemma limitD:
  assumes "limit F r"
  shows "opt_le (F n) r" and "n \<le> m \<Longrightarrow> opt_le (F n) (F m)" and "r = Some u \<Longrightarrow> \<exists>n. F n = Some u"
  using assms unfolding limit_def opt_le_def by (metis not_Some_eq)+

lemma limit_more: "limit F r \<Longrightarrow> F n = Some u \<Longrightarrow> n \<le> m \<Longrightarrow> F m = Some u"
  using limitD(2) [of F r n m] by (auto simp: opt_le_def)

lemma limit_const: "limit (\<lambda>n. r) r"
  by (simp add: limit_def opt_le_refl)

lemma limit_unique: "limit F r \<Longrightarrow> limit F q \<Longrightarrow> r = q"
  unfolding limit_def by (metis not_Some_eq)

lemma limit_Suc:
  assumes "limit F r"
  shows "limit (\<lambda>n. F (Suc n)) r"
proof (rule limitI)
  fix u assume "r = Some u"
  with limitD(3) [OF assms] obtain n where n: "F n = Some u" by blast
  from limit_more [OF assms n, of "Suc n"] show "\<exists>n. F (Suc n) = Some u" by auto
next
  fix n m :: nat assume "n \<le> m"
  then show "opt_le (F (Suc n)) (F (Suc m))" by (intro limitD(2) [OF assms]) simp
qed (rule limitD(1) [OF assms])

lemma limit_andthen:
  assumes "limit F r" and "\<And>a s. limit (\<lambda>n. K n a s) (k a s)"
  shows "limit (\<lambda>n. andthen (F n) (K n)) (andthen r k)"
proof (rule limitI)
  fix u assume u: "andthen r k = Some u"
  then obtain w where r: "r = Some w" by (auto simp: andthen_def split: option.splits)
  with limitD(3) [OF assms(1)] obtain n where n: "F n = Some w" by blast
  show "\<exists>n. andthen (F n) (K n) = Some u"
  proof (cases w)
    case (Val a s)
    with u r have "k a s = Some u" by (simp add: andthen_def)
    with limitD(3) [OF assms(2)] obtain m where m: "K m a s = Some u" by blast
    have "F (max n m) = Some w" "K (max n m) a s = Some u"
      using limit_more [OF assms(1) n] limit_more [OF assms(2) m] by simp_all
    with Val have "andthen (F (max n m)) (K (max n m)) = Some u" by (simp add: andthen_def)
    then show ?thesis ..
  next
    case (Brk s)
    with u r n have "andthen (F n) (K n) = Some u" by (auto simp: andthen_def)
    then show ?thesis ..
  qed
qed (use assms in \<open>auto intro!: andthen_le dest: limitD(1,2)\<close>)

lemma limit_loop_then:
  assumes "limit F r" and "\<And>s. limit (\<lambda>n. K n s) (k s)"
  shows "limit (\<lambda>n. loop_then (F n) (K n)) (loop_then r k)"
proof (rule limitI)
  fix u assume u: "loop_then r k = Some u"
  then obtain w where r: "r = Some w" by (auto simp: loop_then_def split: option.splits)
  with limitD(3) [OF assms(1)] obtain n where n: "F n = Some w" by blast
  show "\<exists>n. loop_then (F n) (K n) = Some u"
  proof (cases w)
    case (Val a s)
    with u r have "k s = Some u" by (simp add: loop_then_def)
    with limitD(3) [OF assms(2)] obtain m where m: "K m s = Some u" by blast
    have "F (max n m) = Some w" "K (max n m) s = Some u"
      using limit_more [OF assms(1) n] limit_more [OF assms(2) m] by simp_all
    with Val have "loop_then (F (max n m)) (K (max n m)) = Some u" by (simp add: loop_then_def)
    then show ?thesis ..
  next
    case (Brk s)
    with u r n have "loop_then (F n) (K n) = Some u" by (simp add: loop_then_def)
    then show ?thesis ..
  qed
qed (use assms in \<open>auto intro!: loop_then_le dest: limitD(1,2)\<close>)

lemma limit_map: "limit F r \<Longrightarrow> limit (\<lambda>n. map_option h (F n)) (map_option h r)"
  by (rule limitI) (auto intro!: map_option_le dest: limitD, metis limitD(3))

lemma limit_range:
  "(\<And>k m. limit (\<lambda>n. F n k m) (f k m)) \<Longrightarrow> limit (\<lambda>n. for_range a c (F n)) (for_range a c f)"
  by (auto simp: for_range_def limit_const split: val.splits)

lemma limit_test:
  "limit F r \<Longrightarrow> limit G q \<Longrightarrow> limit (\<lambda>n. test_int a (F n) (G n)) (test_int a r q)"
  by (auto simp: test_int_def limit_const split: val.splits)

lemmas limit_rules = limit_andthen limit_loop_then limit_map limit_range limit_test

lemma limit_eval: "limit (\<lambda>n. eval prims n e s) (meaning prims e s)"
proof (rule limitI)
  fix n
  show "opt_le (eval prims n e s) (meaning prims e s)"
  proof (cases "eval prims n e s")
    case (Some u)
    let ?P = "\<lambda>n. eval prims n e s \<noteq> None"
    from Some have P: "?P n" by simp
    then have "?P (Least ?P)" "Least ?P \<le> n" by (rule LeastI, rule Least_le)
    with eval_more [of "Least ?P" n prims e s] Some P show ?thesis
      by (auto simp: meaning_def opt_le_def)
  qed (simp add: opt_le_refl)
next
  fix n m :: nat assume "n \<le> m"
  with eval_more [of n m prims e s] show "opt_le (eval prims n e s) (eval prims m e s)"
    by (cases "eval prims n e s") (auto simp: opt_le_def)
next
  fix u assume "meaning prims e s = Some u"
  then show "\<exists>n. eval prims n e s = Some u"
    by (auto simp: meaning_def split: if_splits)
qed

lemma limit_seq:
  assumes "\<And>e s. limit (\<lambda>n. ev n e s) (m e s)"
  shows "limit (\<lambda>n. eval_seq (ev n) v es s) (eval_seq m v es s)"
  by (induction es arbitrary: v s) (auto intro!: limit_rules assms limit_const)

lemma limit_args:
  assumes "\<And>e s. limit (\<lambda>n. ev n e s) (m e s)"
  shows "limit (\<lambda>n. eval_args (ev n) es vs k s) (eval_args m es vs k s)"
  by (induction es arbitrary: vs s) (auto intro!: limit_rules assms limit_const)

lemma limit_let:
  assumes "\<And>e s. limit (\<lambda>n. ev n e s) (m e s)"
  shows "limit (\<lambda>n. eval_let (ev n) vs b s) (eval_let m vs b s)"
  by (induction vs arbitrary: s) (auto intro!: limit_rules assms)

lemma limit_for:
  assumes "\<And>e s. limit (\<lambda>n. ev n e s) (m e s)"
  shows "limit (\<lambda>n. eval_for (ev n) c i k b s) (eval_for m c i k b s)"
  by (induction c arbitrary: k s) (auto intro!: limit_rules assms limit_const)

text \<open>The outcome of an expression from those of its parts.\<close>

lemma meaning_step: "meaning prims e s = eval_step prims (meaning prims) e s"
proof -
  note ev = limit_eval
  have "limit (\<lambda>n. eval_step prims (eval prims n) e s) (eval_step prims (meaning prims) e s)"
    by (cases e) (auto simp: eval_step_def intro!: limit_rules ev limit_const limit_seq [OF ev] limit_args [OF ev] limit_let [OF ev]
        limit_for [OF ev] split: option.splits)
  moreover have "limit (\<lambda>n. eval prims (Suc n) e s) (meaning prims e s)"
    by (rule limit_Suc) (rule ev)
  ultimately show ?thesis by (auto intro: limit_unique)
qed

lemma meaning_frame:
  assumes "\<not> free x e"
  shows "framed x (meaning prims e)"
  unfolding framed_def
proof (intro allI)
  fix v s
  have "limit (\<lambda>n. eval prims n e (assign x v s)) (map_option (out_assign x v) (meaning prims e s))"
    using eval_frame [OF assms, of prims] limit_map [OF limit_eval, of "out_assign x v" prims e s]
    by (simp add: framed_def)
  with limit_eval show "meaning prims e (assign x v s) = map_option (out_assign x v) (meaning prims e s)"
    by (rule limit_unique)
qed

lemma framed_keeps: "framed x k \<Longrightarrow> keeps x k"
proof -
  assume f: "framed x k"
  have "vars (out_store u) x = vars s x" if "k s = Some u" for s u
  proof -
    from f have "k (assign x (vars s x) s) = map_option (out_assign x (vars s x)) (k s)"
      unfolding framed_def by blast
    with that have "u = out_assign x (vars s x) u" by simp
    then show ?thesis using out_store_assign [of x "vars s x" u] assign_simps(2) [of x _ _ x] by metis
  qed
  then show ?thesis by (simp add: keeps_def)
qed

lemma meaning_keeps:
  assumes "\<not> assigns x e"
  shows "keeps x (meaning prims e)"
  using eval_keeps [OF assms] limitD(3) [OF limit_eval] unfolding keeps_def by meson

end
