(* ===== verification/Loop_Meaning.thy ===== *)
theory Loop_Meaning
  imports Tiger_Eval
begin

text \<open>
  The meaning of the loop that \<open>for\<close> is rewritten to by \<^verbatim>\<open>src/desugar/desugar-visitor.cc\<close>: a \<open>let\<close> of the two
  bounds and of the index around a \<open>while\<close> that breaks after the upper bound.
\<close>

section \<open>Loops\<close>

text \<open>The tree of the text that \<open>for\<close> is desugared to; \<open>h\<close> is the header of all of its nodes.\<close>

definition lo_name :: symbol where "lo_name = ''_lo''"
definition hi_name :: symbol where "hi_name = ''_hi''"

definition let_var :: "header \<Rightarrow> symbol \<Rightarrow> ast \<Rightarrow> ast" where
  "let_var h x e = VarChunk h [VarDec h x None (Some e)]"

definition for_iteration :: "header \<Rightarrow> symbol \<Rightarrow> ast \<Rightarrow> ast" where
  "for_iteration h i body = SeqExp h
     [body,
      IfExp h (OpExp h (SimpleVar h i) op_eq (SimpleVar h hi_name)) (BreakExp h) (SeqExp h []),
      AssignExp h (SimpleVar h i) (OpExp h (SimpleVar h i) op_add (IntExp h 1))]"

definition for_while :: "header \<Rightarrow> symbol \<Rightarrow> ast \<Rightarrow> ast" where
  "for_while h i body = WhileExp h (IntExp h 1) (for_iteration h i body)"

definition for_tree :: "header \<Rightarrow> symbol \<Rightarrow> ast \<Rightarrow> ast \<Rightarrow> ast \<Rightarrow> ast" where
  "for_tree h i lo hi body = LetExp h
     (ChunkList h [let_var h lo_name lo, let_var h hi_name hi, let_var h i (SimpleVar h lo_name)])
     (SeqExp h [IfExp h (OpExp h (SimpleVar h i) op_le (SimpleVar h hi_name))
        (for_while h i body) (SeqExp h [])])"

lemma andthen_unit [simp]: "andthen r (\<lambda>a s. Some (Val a s)) = r"
  by (auto simp: andthen_def split: option.splits outcome.splits)

lemma andthen_seq_end [simp]: "andthen r (\<lambda>a. eval_seq ev a []) = r"
  by (auto simp: andthen_def split: option.splits outcome.splits)

lemma andthen_simps [simp]:
  "andthen (Some (Val a s)) k = k a s" "andthen (Some (Brk s)) k = Some (Brk s)" "andthen None k = None"
  by (simp_all add: andthen_def)

lemma loop_then_simps [simp]:
  "loop_then (Some (Val a s)) k = k s" "loop_then (Some (Brk s)) k = Some (Val UnitV s)" "loop_then None k = None"
  by (simp_all add: loop_then_def)

lemma test_int_truth [simp]: "test_int (IntV (truth b)) t f = (if b then t else f)"
  by (simp add: test_int_def truth_def)

text \<open>The meaning of the small parts.\<close>

lemma meaning_parts:
  "meaning prims (IntExp h w) s = Some (Val (IntV w) s)"
  "meaning prims (SimpleVar h x) s = Some (Val (vars s x) s)"
  "meaning prims (BreakExp h) s = Some (Brk s)"
  "meaning prims (SeqExp h []) s = Some (Val UnitV s)"
  by (simp_all add: meaning_step [of prims "IntExp h w"] meaning_step [of prims "SimpleVar h x"]
      meaning_step [of prims "BreakExp h"] meaning_step [of prims "SeqExp h []"] eval_step_def)

lemma meaning_compounds:
  "meaning prims (SeqExp h es) s = eval_seq (meaning prims) UnitV es s"
  "meaning prims (IfExp h c t f) s = andthen (meaning prims c s) (\<lambda>a s1.
     test_int a (meaning prims t s1) (meaning prims f s1))"
  "meaning prims (OpExp h l oper r) s = andthen (meaning prims l s) (\<lambda>a s1.
     andthen (meaning prims r s1) (\<lambda>b s2. map_option (\<lambda>v. Val v s2) (op_value oper a b)))"
  "meaning prims (AssignExp h (SimpleVar k x) e) s =
     andthen (meaning prims e s) (\<lambda>a s1. Some (Val UnitV (assign x a s1)))"
  "meaning prims (WhileExp h c b) s = andthen (meaning prims c s) (\<lambda>a s1.
     test_int a (loop_then (meaning prims b s1) (meaning prims (WhileExp h c b))) (Some (Val UnitV s1)))"
  by (simp_all add: meaning_step [of prims "SeqExp h es"] meaning_step [of prims "IfExp h c t f"]
      meaning_step [of prims "OpExp h l oper r"] meaning_step [of prims "AssignExp h (SimpleVar k x) e"]
      meaning_step [of prims "WhileExp h c b"] eval_step_def assigned_var_def)

lemma sint_le_iff: "sint (a :: i32) \<le> sint b \<longleftrightarrow> sint a < sint b \<or> a = b"
  by (metis order_le_less order_refl signed_word_eqI)

lemma op_value_ints:
  "op_value op_le (IntV a) (IntV b) = Some (IntV (truth (sint a \<le> sint b)))"
  "op_value op_eq (IntV a) (IntV b) = Some (IntV (truth (a = b)))"
  "op_value op_add (IntV a) (IntV b) = Some (IntV (a + b))"
  using sint_le_iff [of a b]
  by (simp_all add: op_value_def int_op_def compared_def)

text \<open>The two auxiliary variables are bound around the iterations.\<close>

definition with_bounds :: "val \<Rightarrow> i32 \<Rightarrow> 'w store \<Rightarrow> 'w store" where
  "with_bounds a m s = assign hi_name (IntV m) (assign lo_name a s)"

primrec out_bounds :: "val \<Rightarrow> i32 \<Rightarrow> 'w outcome \<Rightarrow> 'w outcome" where
  "out_bounds a m (Val v s) = Val v (with_bounds a m s)"
| "out_bounds a m (Brk s) = Brk (with_bounds a m s)"

lemma framed_bounds:
  fixes k :: "'w store \<Rightarrow> 'w outcome option"
  assumes "framed lo_name k" and "framed hi_name k"
  shows "k (with_bounds a m s) = map_option (out_bounds a m) (k s)"
proof -
  have "out_bounds a m = (\<lambda>u. out_assign hi_name (IntV m) (out_assign lo_name a u) :: 'w outcome)"
  proof
    show "out_bounds a m u = out_assign hi_name (IntV m) (out_assign lo_name a u)" for u
      by (cases u) (simp_all add: with_bounds_def)
  qed
  with assms show ?thesis
    unfolding framed_def by (simp only: with_bounds_def option.map_comp comp_def)
qed

lemma with_bounds_commute:
  "i \<noteq> lo_name \<Longrightarrow> i \<noteq> hi_name \<Longrightarrow> assign i v (with_bounds a m s) = with_bounds a m (assign i v s)"
  by (simp add: with_bounds_def assign_commute)

lemma with_bounds_vars [simp]:
  "vars (with_bounds a m s) hi_name = IntV m"
  "i \<noteq> lo_name \<Longrightarrow> i \<noteq> hi_name \<Longrightarrow> vars (with_bounds a m s) i = vars s i"
  by (simp_all add: with_bounds_def)

lemma sint_succ: "sint (k :: i32) < sint (m :: i32) \<Longrightarrow> sint (k + 1) = sint k + 1"
proof -
  assume k: "sint k < sint m"
  have "sint m < 2 ^ 31" "- (2 ^ 31) \<le> sint k" using sint_lt [of m] sint_ge [of k] by simp_all
  with k show ?thesis by (simp add: sint_word_ariths signed_take_bit_int_eq_self)
qed

lemma for_while_unroll: "meaning prims (for_while h i body) s =
  loop_then (meaning prims (for_iteration h i body) s) (meaning prims (for_while h i body))"
proof -
  have "meaning prims (for_while h i body) s = andthen (meaning prims (IntExp h 1) s) (\<lambda>a s1.
      test_int a (loop_then (meaning prims (for_iteration h i body) s1) (meaning prims (for_while h i body)))
        (Some (Val UnitV s1)))"
    unfolding for_while_def by (rule meaning_compounds(5))
  then show ?thesis by (simp add: meaning_parts test_int_def)
qed

lemma for_while_meaning:
  assumes "framed lo_name (meaning prims body)" and "framed hi_name (meaning prims body)"
    and "keeps i (meaning prims body)" and i: "i \<noteq> lo_name" "i \<noteq> hi_name"
    and "sint k \<le> sint m" and "c = nat (sint m - sint k + 1)"
  shows "meaning prims (for_while h i body) (assign i (IntV k) (with_bounds a m s)) =
    map_option (out_bounds a m) (eval_for (meaning prims) c i (sint k) body s)"
  using assms(6,7)
proof (induction c arbitrary: k s)
  case (Suc c)
  let ?M = "meaning prims" and ?x = "assign i (IntV k) s"
  have w: "(word_of_int (sint k) :: i32) = k" by simp
  have b: "?M body (assign i (IntV k) (with_bounds a m s)) = map_option (out_bounds a m) (?M body ?x)"
    using framed_bounds [OF assms(1,2)] i by (simp add: with_bounds_commute)
  have unroll: "?M (for_while h i body) (assign i (IntV k) (with_bounds a m s)) =
    loop_then (?M (for_iteration h i body) (assign i (IntV k) (with_bounds a m s))) (?M (for_while h i body))"
    by (rule for_while_unroll)
  show ?case
  proof (cases "?M body ?x")
    case None
    with b w show ?thesis
      unfolding unroll by (simp add: for_iteration_def meaning_compounds(1))
  next
    case (Some u)
    show ?thesis
    proof (cases u)
      case (Brk s1)
      with Some b w show ?thesis
        unfolding unroll by (simp add: for_iteration_def meaning_compounds(1))
    next
      case (Val v s1)
      have ik: "vars s1 i = IntV k"
        using assms(3) Some Val unfolding keeps_def by fastforce
      have iter: "?M (for_iteration h i body) (assign i (IntV k) (with_bounds a m s)) =
        (if k = m then Some (Brk (with_bounds a m s1))
         else Some (Val UnitV (assign i (IntV (k + 1)) (with_bounds a m s1))))"
        using Some Val b ik i
        by (simp add: for_iteration_def meaning_compounds(1-4) meaning_parts op_value_ints)
      have step: "eval_for ?M (Suc c) i (sint k) body s = eval_for ?M c i (sint k + 1) body s1"
        using Some Val w by simp
      show ?thesis
      proof (cases "k = m")
        case True
        with Suc.prems have "c = 0" by simp
        with True show ?thesis unfolding unroll iter step by simp
      next
        case False
        then have "sint k < sint m" using Suc.prems(1) by (metis order_le_less signed_word_eqI)
        with sint_succ have k: "sint (k + 1) = sint k + 1" by blast
        from \<open>sint k < sint m\<close> Suc.prems(2) have "c = nat (sint m - sint (k + 1) + 1)" "sint (k + 1) \<le> sint m"
          unfolding k by linarith+
        from Suc.IH [OF this(2,1), of s1] False show ?thesis unfolding unroll iter step by (simp add: k)
      qed
    qed
  qed
qed simp


lemma for_range_Val: "for_range (IntV k) (IntV m) f = f (sint k) (sint m)"
  by (simp add: for_range_def)

lemma out_bounds_store [simp]: "out_store (out_bounds a m u) = with_bounds a m (out_store u)"
  by (cases u) simp_all

text \<open>Unbinding the auxiliary variables.\<close>

lemma unbind_bounds:
  assumes "vars (out_store u) lo_name = p" and "vars (out_store u) hi_name = q" and "i \<noteq> lo_name" "i \<noteq> hi_name"
  shows "out_assign lo_name p (out_assign hi_name q (out_assign i v (out_bounds a m u))) = out_assign i v u"
proof -
  have ne: "lo_name \<noteq> hi_name" by (simp add: lo_name_def hi_name_def)
  show ?thesis
    using assms ne by (cases u) (simp_all add: with_bounds_def assign_def fun_eq_iff)
qed

definition int_valued :: "'w prims \<Rightarrow> ast \<Rightarrow> bool" where
  "int_valued prims e \<longleftrightarrow> (\<forall>s a s1. meaning prims e s = Some (Val a s1) \<longrightarrow> (\<exists>k. a = IntV k))"

lemma meaning_for: "meaning prims (ForExp h (VarDec k i tn (Some lo)) hi body) s =
  andthen (meaning prims lo s) (\<lambda>a s1. andthen (meaning prims hi s1) (\<lambda>c s2.
    for_range a c (\<lambda>k m. map_option (out_assign i (vars s2 i))
      (eval_for (meaning prims) (nat (m - k + 1)) i k body s2))))"
  by (subst meaning_step) (simp add: eval_step_def for_var_def)

lemma meaning_for_tree: "meaning prims (for_tree h i lo hi body) s =
  eval_let (meaning prims) [(lo_name, lo), (hi_name, hi), (i, SimpleVar h lo_name)]
    (SeqExp h [IfExp h (OpExp h (SimpleVar h i) op_le (SimpleVar h hi_name)) (for_while h i body) (SeqExp h [])]) s"
  unfolding for_tree_def
  by (subst meaning_step) (simp add: eval_step_def let_vars_def let_var_def var_of_def)

text \<open>The loop under its test, once the bounds are bound.\<close>

lemma for_tested_meaning:
  assumes "framed lo_name (meaning prims body)" and "framed hi_name (meaning prims body)"
    and "keeps i (meaning prims body)" and i: "i \<noteq> lo_name" "i \<noteq> hi_name"
  shows "meaning prims (SeqExp h [IfExp h (OpExp h (SimpleVar h i) op_le (SimpleVar h hi_name))
      (for_while h i body) (SeqExp h [])]) (assign i (IntV k) (with_bounds a m s)) =
    (if sint k \<le> sint m
     then map_option (out_bounds a m) (eval_for (meaning prims) (nat (sint m - sint k + 1)) i (sint k) body s)
     else Some (Val UnitV (assign i (IntV k) (with_bounds a m s))))"
  using for_while_meaning [OF assms, of k m "nat (sint m - sint k + 1)"] i
  by (simp add: meaning_compounds(1-3) meaning_parts op_value_ints)


lemma with_bounds_fold: "assign hi_name (IntV m) (assign lo_name a s) = with_bounds a m s"
  by (simp add: with_bounds_def)

definition for_tested :: "header \<Rightarrow> symbol \<Rightarrow> ast \<Rightarrow> ast" where
  "for_tested h i body = SeqExp h [IfExp h (OpExp h (SimpleVar h i) op_le (SimpleVar h hi_name))
     (for_while h i body) (SeqExp h [])]"

lemma eval_for_keeps_bounds:
  assumes "framed lo_name (meaning prims body)" and "framed hi_name (meaning prims body)"
    and "i \<noteq> lo_name" "i \<noteq> hi_name" and "eval_for (meaning prims) c i n body s = Some u"
  shows "vars (out_store u) lo_name = vars s lo_name" and "vars (out_store u) hi_name = vars s hi_name"
proof -
  have "keeps x (eval_for (meaning prims) c i n body)" if "framed x (meaning prims body)" "x \<noteq> i" for x
    using that by (intro keeps_for framed_keeps)
  with assms show "vars (out_store u) lo_name = vars s lo_name" "vars (out_store u) hi_name = vars s hi_name"
    unfolding keeps_def by metis+
qed

text \<open>The three variables around the loop.\<close>

lemma for_bound_meaning:
  assumes "framed lo_name (meaning prims body)" and "framed hi_name (meaning prims body)"
    and "keeps i (meaning prims body)" and i: "i \<noteq> lo_name" "i \<noteq> hi_name"
  shows "map_option (out_assign lo_name (vars s lo_name)) (map_option (out_assign hi_name (vars s hi_name))
      (map_option (out_assign i (vars s i))
        (meaning prims (for_tested h i body) (assign i (IntV a) (with_bounds (IntV a) m s))))) =
    map_option (out_assign i (vars s i))
      (eval_for (meaning prims) (nat (sint m - sint a + 1)) i (sint a) body s)"
proof (cases "sint a \<le> sint m")
  case True
  with eval_for_keeps_bounds [OF assms(1,2) i, of "nat (sint m - sint a + 1)" "sint a" s] i show ?thesis
    unfolding for_tested_def for_tested_meaning [OF assms]
    by (cases "eval_for (meaning prims) (nat (sint m - sint a + 1)) i (sint a) body s")
      (simp_all add: unbind_bounds)
next
  case False
  then show ?thesis
    using unbind_bounds [of "Val UnitV s" "vars s lo_name" "vars s hi_name" i "vars s i" "IntV a" m] i
    unfolding for_tested_def for_tested_meaning [OF assms] by simp
qed

lemma for_tree_meaning:
  assumes lo: "int_valued prims lo" and hi: "int_valued prims hi"
    and fhi: "framed lo_name (meaning prims hi)"
    and fbody: "framed lo_name (meaning prims body)" "framed hi_name (meaning prims body)" "keeps i (meaning prims body)"
    and i: "i \<noteq> lo_name" "i \<noteq> hi_name"
  shows "meaning prims (for_tree h i lo hi body) s =
    meaning prims (ForExp g (VarDec k i tn (Some lo)) hi body) s"
proof -
  let ?M = "meaning prims"
  have ne: "lo_name \<noteq> hi_name" by (simp add: lo_name_def hi_name_def)
  note for_let = meaning_for meaning_for_tree [folded for_tested_def]
  show ?thesis
  proof (cases "?M lo s")
    case lo_u: (Some u)
    show ?thesis
    proof (cases u)
      case u: (Val v s1)
      with lo lo_u obtain a where a: "v = IntV a" unfolding int_valued_def by blast
      have hi_a: "?M hi (assign lo_name (IntV a) s1) = map_option (out_assign lo_name (IntV a)) (?M hi s1)"
        using fhi by (simp add: framed_def)
      show ?thesis
      proof (cases "?M hi s1")
        case hi_w: (Some w)
        then have s1: "vars s1 lo_name = vars (out_store w) lo_name"
          using framed_keeps [OF fhi] by (simp add: keeps_def)
        show ?thesis
        proof (cases w)
          case w: (Val c s2)
          with hi hi_w obtain m where m: "c = IntV m" unfolding int_valued_def by blast
          show ?thesis
            using for_bound_meaning [OF fbody i, of s2 h a m] s1 ne i unfolding for_let
            by (simp add: lo_u u a hi_a hi_w w m meaning_parts with_bounds_fold for_range_Val option.map_comp comp_def)
        next
          case (Brk s2)
          with s1 show ?thesis unfolding for_let by (simp add: lo_u u a hi_a hi_w)
        qed
      qed (simp add: for_let lo_u u a hi_a)
    qed (simp add: for_let lo_u)
  qed (simp add: for_let)
qed

end
