(* ===== verification/Meaning_Trees.thy ===== *)
theory Meaning_Trees
  imports Cloner Loop_Meaning
begin

text \<open>
  When two trees mean the same: the headers of the nodes do not matter, and a construct means the same when
  its parts do.
\<close>

section \<open>Headers\<close>

text \<open>A tree without its headers.\<close>

definition bare :: "ast \<Rightarrow> ast" where
  "bare = map_hdr (\<lambda>_. header_at 0)"

lemma var_of_map_hdr: "var_of (map_hdr F c) = map_option (map_prod id (map_hdr F)) (var_of c)"
proof (cases c)
  case (VarChunk h ds)
  then show ?thesis
    by (auto simp: var_of_def split: list.splits ast.splits option.splits)
qed (simp_all add: var_of_def)

lemma let_vars_map_hdr: "let_vars (map_hdr F cs) = map_option (map (map_prod id (map_hdr F))) (let_vars cs)"
proof (cases cs)
  case (ChunkList h xs)
  then show ?thesis by (auto simp: let_vars_def var_of_map_hdr list_all_iff option.map_sel)
qed (simp_all add: let_vars_def)

lemma for_var_map_hdr: "for_var (map_hdr F d) = map_option (map_prod id (map_hdr F)) (for_var d)"
  by (cases d) (auto simp: for_var_def split: option.splits)

lemma assigned_var_map_hdr: "assigned_var (map_hdr F v) = assigned_var v"
  by (cases v) (simp_all add: assigned_var_def)

lemma eval_seq_map:
  assumes "\<And>e. ev (f e) = ev' e"
  shows "eval_seq ev v (map f es) s = eval_seq ev' v es s"
proof (induction es arbitrary: v s)
  case (Cons e es)
  then have "eval_seq ev a (map f es) = eval_seq ev' a es" for a by (intro ext)
  with assms show ?case by simp
qed simp

lemma eval_args_map:
  assumes "\<And>e. ev (f e) = ev' e"
  shows "eval_args ev (map f es) vs k s = eval_args ev' es vs k s"
proof (induction es arbitrary: vs s)
  case (Cons e es)
  then have "eval_args ev (map f es) ws k = eval_args ev' es ws k" for ws by (intro ext)
  with assms show ?case by simp
qed simp

lemma eval_let_map:
  "(\<And>e. ev (f e) = ev' e) \<Longrightarrow> eval_let ev (map (map_prod id f) vs) (f b) s = eval_let ev' vs b s"
  by (induction vs arbitrary: s) auto

lemma eval_for_map:
  "(\<And>e. ev (f e) = ev' e) \<Longrightarrow> eval_for ev c i k (f b) s = eval_for ev' c i k b s"
proof (induction c arbitrary: k s)
  case (Suc c)
  then have "eval_for ev c i (k + 1) (f b) = eval_for ev' c i (k + 1) b" by (intro ext) simp
  with Suc.prems show ?case by simp
qed simp

lemma eval_map_hdr: "eval prims n (map_hdr F e) = eval prims n e"
proof (induction n arbitrary: e)
  case (Suc n)
  note maps = eval_seq_map [of "eval prims n" "map_hdr F" "eval prims n"]
    eval_args_map [of "eval prims n" "map_hdr F" "eval prims n"]
    eval_let_map [of "eval prims n" "map_hdr F" "eval prims n"]
    eval_for_map [of "eval prims n" "map_hdr F" "eval prims n"]
  have while: "eval prims n (WhileExp (F h) (map_hdr F c) (map_hdr F b)) = eval prims n (WhileExp h c b)" for h c b
    using Suc.IH [of "WhileExp h c b"] by simp
  have "eval_step prims (eval prims n) (map_hdr F e) s = eval_step prims (eval prims n) e s" for s
    by (cases e) (simp_all add: eval_step_def Suc.IH maps while let_vars_map_hdr for_var_map_hdr
      assigned_var_map_hdr split: option.splits prod.splits)
  then show ?case by (intro ext) simp
qed simp

lemma meaning_map_hdr: "meaning prims (map_hdr F e) = meaning prims e"
  by (intro ext) (simp add: meaning_def eval_map_hdr)

lemma meaning_bare: "bare r = bare e \<Longrightarrow> meaning prims r = meaning prims e"
  unfolding bare_def by (metis meaning_map_hdr)

section \<open>Congruences\<close>

lemma meaning_seq: "meaning prims (SeqExp h es) s = eval_seq (meaning prims) UnitV es s"
  by (rule meaning_compounds)

lemma eval_seq_cong:
  "list_all2 (\<lambda>r e. ev r = ev e) rs es \<Longrightarrow> eval_seq ev v rs s = eval_seq ev v es s"
proof (induction rs es arbitrary: v s rule: list_all2_induct)
  case (Cons r rs e es)
  then have "eval_seq ev a rs = eval_seq ev a es" for a by (intro ext)
  with Cons.hyps(1) show ?case by simp
qed simp

lemma eval_args_cong:
  "list_all2 (\<lambda>r e. ev r = ev e) rs es \<Longrightarrow> eval_args ev rs vs k s = eval_args ev es vs k s"
proof (induction rs es arbitrary: vs s rule: list_all2_induct)
  case (Cons r rs e es)
  then have "eval_args ev rs ws k = eval_args ev es ws k" for ws by (intro ext)
  with Cons.hyps(1) show ?case by simp
qed simp

lemma eval_let_cong:
  "list_all2 (\<lambda>r e. fst r = fst e \<and> ev (snd r) = ev (snd e)) rs es \<Longrightarrow> ev b = ev c \<Longrightarrow>
   eval_let ev rs b s = eval_let ev es c s"
  by (induction rs es arbitrary: s rule: list_all2_induct) auto

lemma eval_for_cong: "ev b = ev c \<Longrightarrow> eval_for ev n i k b s = eval_for ev n i k c s"
proof (induction n arbitrary: k s)
  case (Suc n)
  then have "eval_for ev n i (k + 1) b = eval_for ev n i (k + 1) c" by (intro ext) simp
  with Suc.prems show ?case by simp
qed simp

lemma eval_le_meaning: "opt_le (eval prims n e s) (meaning prims e s)"
  by (rule limitD(1)) (rule limit_eval)

lemma meaning_while_le:
  assumes "meaning prims c = meaning prims c'" and "meaning prims b = meaning prims b'"
  shows "opt_le (eval prims n (WhileExp h c b) s) (meaning prims (WhileExp k c' b') s)"
proof (induction n arbitrary: s)
  case (Suc n)
  have "opt_le (andthen (eval prims n c s) (\<lambda>a s1.
      test_int a (loop_then (eval prims n b s1) (eval prims n (WhileExp h c b))) (Some (Val UnitV s1))))
    (andthen (meaning prims c' s) (\<lambda>a s1.
      test_int a (loop_then (meaning prims b' s1) (meaning prims (WhileExp k c' b'))) (Some (Val UnitV s1))))"
    using eval_le_meaning [of prims n c] eval_le_meaning [of prims n b] assms
    by (intro le_rules opt_le_refl Suc.IH) simp_all
  then show ?case by (simp add: meaning_compounds(5) [symmetric]) (simp add: eval_step_def)
qed (simp add: opt_le_refl)

lemma opt_le_meaning:
  assumes "\<And>n. opt_le (eval prims n e s) r"
  shows "opt_le (meaning prims e s) r"
proof (cases "meaning prims e s")
  case (Some u)
  with limitD(3) [OF limit_eval] obtain n where "eval prims n e s = Some u" by blast
  with assms [of n] Some show ?thesis by (simp add: opt_le_def)
qed (simp add: opt_le_refl)

lemma opt_le_antisym: "opt_le r q \<Longrightarrow> opt_le q r \<Longrightarrow> r = q"
  by (auto simp: opt_le_def)

lemma meaning_while_cong:
  assumes "meaning prims c = meaning prims c'" and "meaning prims b = meaning prims b'"
  shows "meaning prims (WhileExp h c b) = meaning prims (WhileExp k c' b')"
proof (rule ext, rule opt_le_antisym)
  fix s
  show "opt_le (meaning prims (WhileExp h c b) s) (meaning prims (WhileExp k c' b') s)"
    by (rule opt_le_meaning) (rule meaning_while_le [OF assms])
  show "opt_le (meaning prims (WhileExp k c' b') s) (meaning prims (WhileExp h c b) s)"
    by (rule opt_le_meaning) (rule meaning_while_le [OF assms [symmetric]])
qed

lemma meaning_call: "meaning prims (CallExp h f args) s = eval_args (meaning prims) args [] (call_prim prims f) s"
  by (subst meaning_step) (simp add: eval_step_def)

lemma meaning_string: "meaning prims (StringExp h t) s = Some (Val (StrV t) s)"
  by (subst meaning_step) (simp add: eval_step_def)

lemma meaning_let: "let_vars cs = Some vs \<Longrightarrow> meaning prims (LetExp h cs b) s = eval_let (meaning prims) vs b s"
  by (subst meaning_step) (simp add: eval_step_def)

lemma meaning_congs:
  "list_all2 (\<lambda>r e. meaning prims r = meaning prims e) rs es \<Longrightarrow>
     meaning prims (SeqExp h rs) = meaning prims (SeqExp k es)"
  "list_all2 (\<lambda>r e. meaning prims r = meaning prims e) rs es \<Longrightarrow>
     meaning prims (CallExp h f rs) = meaning prims (CallExp k f es)"
  "meaning prims c' = meaning prims c \<Longrightarrow> meaning prims t' = meaning prims t \<Longrightarrow> meaning prims e' = meaning prims e \<Longrightarrow>
     meaning prims (IfExp h c' t' e') = meaning prims (IfExp k c t e)"
  "meaning prims l' = meaning prims l \<Longrightarrow> meaning prims r' = meaning prims r \<Longrightarrow>
     meaning prims (OpExp h l' oper r') = meaning prims (OpExp k l oper r)"
  "meaning prims e' = meaning prims e \<Longrightarrow>
     meaning prims (AssignExp h (SimpleVar h1 x) e') = meaning prims (AssignExp k (SimpleVar k1 x) e)"
  "meaning prims lo' = meaning prims lo \<Longrightarrow> meaning prims hi' = meaning prims hi \<Longrightarrow>
     meaning prims b' = meaning prims b \<Longrightarrow>
     meaning prims (ForExp h (VarDec h1 i tn' (Some lo')) hi' b') = meaning prims (ForExp k (VarDec k1 i tn (Some lo)) hi b)"
  "let_vars ds' = Some vs' \<Longrightarrow> let_vars ds = Some vs \<Longrightarrow>
     list_all2 (\<lambda>r e. fst r = fst e \<and> meaning prims (snd r) = meaning prims (snd e)) vs' vs \<Longrightarrow>
     meaning prims b' = meaning prims b \<Longrightarrow> meaning prims (LetExp h ds' b') = meaning prims (LetExp k ds b)"
  by (intro ext; simp add: meaning_compounds(1-4) meaning_call meaning_for meaning_let
      cong: eval_seq_cong eval_args_cong eval_let_cong eval_for_cong;
    auto intro: eval_seq_cong eval_args_cong eval_let_cong)+

end
