(* ===== verification/Tweast.thy ===== *)
theory Tweast
  imports Ast Misc_Container Misc_Error
begin

text \<open>
  \<^verbatim>\<open>src/parse/tweast.*\<close> and \<^verbatim>\<open>metavar-map.*\<close>: text with embedded trees.  A tree inserted in the text is
  kept in a map under the next number of the static \<open>count_\<close>, a parameter here that the operations
  return, and the text names it; the parser takes it back by its number.  The five base classes, one
  per kind of metavariable, are five maps of the datatype; \<open>boost::algorithm::replace_first\<close> is the
  parameter \<open>replace_first\<close>.
\<close>

section \<open>\<open>MetavarMap\<close>\<close>

type_synonym 'a metavars = "(u32, 'a) entries"

definition mm_show :: "string \<Rightarrow> u32 \<Rightarrow> string" where
  "mm_show name key = CHR ''_'' # name @ CHR ''('' # dec_nat (unat key) @ [CHR '')'']"

definition mm_append :: "string \<Rightarrow> u32 \<Rightarrow> 'a \<Rightarrow> 'a metavars \<Rightarrow> string \<times> 'a metavars \<times> u32" where
  "mm_append name count data m = (mm_show name count, put m count data, count + 1)"

definition mm_take :: "u32 \<Rightarrow> 'a metavars \<Rightarrow> ('a \<times> 'a metavars) res" where
  "mm_take key m = map_take key m"

definition mm_dump :: "string \<Rightarrow> ('a \<Rightarrow> string) \<Rightarrow> 'a metavars \<Rightarrow> 'd ostream \<Rightarrow> 'd ostream res" where
  "mm_dump name show_v m os =
     (let os1 = put_str ''> = ['' (put_str name (put_str ''MetavarMap<'' os))
      in if m = [] then Inr (iendl (put_str '' ]'' os1))
         else bindE (decendl (fold (\<lambda>(k, v) os.
                put_str (show_v v) (put_str '' -> '' (put_str (mm_show name k) (iendl os))))
                m (incindent os1)))
              (\<lambda>os2. Inr (iendl (put_str '']'' os2))))"

section \<open>\<open>Tweast\<close>\<close>

datatype tweast = Tweast
  (tw_exps: "ast metavars") (tw_vars: "ast metavars") (tw_nametys: "ast metavars") (tw_chunks: "ast metavars")
  (tw_tweasts: "(u32 \<times> tweast) list") (tw_input: ostringstream)

definition exp_name :: string where "exp_name = ''exp''"
definition lvalue_name :: string where "lvalue_name = ''lvalue''"
definition namety_name :: string where "namety_name = ''namety''"
definition chunks_name :: string where "chunks_name = ''chunks''"
definition tweast_name :: string where "tweast_name = ''tweast''"

text \<open>The constructor initialises the stream with the string: the next output goes to its beginning.\<close>

definition tw_new :: "string \<Rightarrow> tweast" where
  "tw_new str = Tweast [] [] [] [] [] (oss_set str oss_new)"

definition tw_default :: tweast where
  "tw_default = tw_new []"

text \<open>\<open>operator<<\<close>: on text, and on each kind of metavariable.\<close>

definition tw_put :: "string \<Rightarrow> tweast \<Rightarrow> tweast" where
  "tw_put t tw = (case tw of Tweast es vs ns cs ts i \<Rightarrow> Tweast es vs ns cs ts (oss_put t i))"

definition tw_put_exp :: "ast \<Rightarrow> tweast \<times> u32 \<Rightarrow> tweast \<times> u32" where
  "tw_put_exp e = (\<lambda>(tw, count). case tw of Tweast es vs ns cs ts i \<Rightarrow>
     (let (t, es', count') = mm_append exp_name count e es in (Tweast es' vs ns cs ts (oss_put t i), count')))"

definition tw_put_var :: "ast \<Rightarrow> tweast \<times> u32 \<Rightarrow> tweast \<times> u32" where
  "tw_put_var e = (\<lambda>(tw, count). case tw of Tweast es vs ns cs ts i \<Rightarrow>
     (let (t, vs', count') = mm_append lvalue_name count e vs in (Tweast es vs' ns cs ts (oss_put t i), count')))"

definition tw_put_namety :: "ast \<Rightarrow> tweast \<times> u32 \<Rightarrow> tweast \<times> u32" where
  "tw_put_namety e = (\<lambda>(tw, count). case tw of Tweast es vs ns cs ts i \<Rightarrow>
     (let (t, ns', count') = mm_append namety_name count e ns in (Tweast es vs ns' cs ts (oss_put t i), count')))"

definition tw_put_chunks :: "ast \<Rightarrow> tweast \<times> u32 \<Rightarrow> tweast \<times> u32" where
  "tw_put_chunks e = (\<lambda>(tw, count). case tw of Tweast es vs ns cs ts i \<Rightarrow>
     (let (t, cs', count') = mm_append chunks_name count e cs in (Tweast es vs ns cs' ts (oss_put t i), count')))"

definition tw_put_tweast :: "tweast \<Rightarrow> tweast \<times> u32 \<Rightarrow> tweast \<times> u32" where
  "tw_put_tweast e = (\<lambda>(tw, count). case tw of Tweast es vs ns cs ts i \<Rightarrow>
     (let (t, ts', count') = mm_append tweast_name count e ts in (Tweast es vs ns cs ts' (oss_put t i), count')))"

text \<open>\<open>dump\<close>; the pointers are printed by \<open>ptr\<close>.\<close>

definition tw_dump :: "(ast \<Rightarrow> string) \<Rightarrow> (tweast \<Rightarrow> string) \<Rightarrow> tweast \<Rightarrow> 'd ostream \<Rightarrow> 'd ostream res" where
  "tw_dump ptr tptr tw os =
     bindE (mm_dump exp_name ptr (tw_exps tw)
       (iendl (put_str [CHR 0x22] (put_str (buffer (tw_input tw)) (put_str (''input = '' @ [CHR 0x22]) os))))) (\<lambda>os1.
     bindE (mm_dump lvalue_name ptr (tw_vars tw) os1) (\<lambda>os2.
     bindE (mm_dump namety_name ptr (tw_nametys tw) os2) (\<lambda>os3.
     bindE (mm_dump chunks_name ptr (tw_chunks tw) os3) (\<lambda>os4.
     bindE (mm_dump tweast_name tptr (tw_tweasts tw) os4) (\<lambda>os5.
       decendl os5)))))"

text \<open>\<open>take\<close>: the contents are dumped on a new error before dying, after \<open>what\<close>.\<close>

definition tw_die ::
  "(ast \<Rightarrow> string) \<Rightarrow> (tweast \<Rightarrow> string) \<Rightarrow> string \<Rightarrow> tweast \<Rightarrow> 'a res" where
  "tw_die ptr tptr what tw =
     bindE (tw_dump ptr tptr tw (put_endl (put_str what (ostream_new :: unit ostream))))
       (\<lambda>os. error_ice (error_put (text_of os) error_new))"

definition tw_catch ::
  "(ast \<Rightarrow> string) \<Rightarrow> (tweast \<Rightarrow> string) \<Rightarrow> u32 \<Rightarrow> tweast \<Rightarrow> 'a res \<Rightarrow> 'a res" where
  "tw_catch ptr tptr s tw r = (case r of
     Inl Range_error \<Rightarrow> tw_die ptr tptr (''map: no mapping for '' @ dec_nat (unat s)) tw
   | _ \<Rightarrow> r)"

definition tw_take_exp :: "(ast \<Rightarrow> string) \<Rightarrow> (tweast \<Rightarrow> string) \<Rightarrow> u32 \<Rightarrow> tweast \<Rightarrow> (ast \<times> tweast) res" where
  "tw_take_exp ptr tptr s tw = tw_catch ptr tptr s tw (case tw of Tweast es vs ns cs ts i \<Rightarrow>
     bindE (mm_take s es) (\<lambda>(e, es'). Inr (e, Tweast es' vs ns cs ts i)))"

definition tw_take_var :: "(ast \<Rightarrow> string) \<Rightarrow> (tweast \<Rightarrow> string) \<Rightarrow> u32 \<Rightarrow> tweast \<Rightarrow> (ast \<times> tweast) res" where
  "tw_take_var ptr tptr s tw = tw_catch ptr tptr s tw (case tw of Tweast es vs ns cs ts i \<Rightarrow>
     bindE (mm_take s vs) (\<lambda>(e, vs'). Inr (e, Tweast es vs' ns cs ts i)))"

definition tw_take_namety :: "(ast \<Rightarrow> string) \<Rightarrow> (tweast \<Rightarrow> string) \<Rightarrow> u32 \<Rightarrow> tweast \<Rightarrow> (ast \<times> tweast) res" where
  "tw_take_namety ptr tptr s tw = tw_catch ptr tptr s tw (case tw of Tweast es vs ns cs ts i \<Rightarrow>
     bindE (mm_take s ns) (\<lambda>(e, ns'). Inr (e, Tweast es vs ns' cs ts i)))"

definition tw_take_chunks :: "(ast \<Rightarrow> string) \<Rightarrow> (tweast \<Rightarrow> string) \<Rightarrow> u32 \<Rightarrow> tweast \<Rightarrow> (ast \<times> tweast) res" where
  "tw_take_chunks ptr tptr s tw = tw_catch ptr tptr s tw (case tw of Tweast es vs ns cs ts i \<Rightarrow>
     bindE (mm_take s cs) (\<lambda>(e, cs'). Inr (e, Tweast es vs ns cs' ts i)))"

definition tw_input_get :: "tweast \<Rightarrow> string" where
  "tw_input_get tw = buffer (tw_input tw)"

text \<open>The destructors of the maps: every metavariable should have been taken.\<close>

definition tw_delete :: "tweast \<Rightarrow> unit res" where
  "tw_delete tw = (if tw_exps tw = [] \<and> tw_vars tw = [] \<and> tw_nametys tw = [] \<and> tw_chunks tw = [] \<and> tw_tweasts tw = []
     then Inr () else Inl Assertion)"

text \<open>\<open>move_metavars_\<close>: the metavariables of one kind, in the order of the map, under new numbers.\<close>

definition move_metavar ::
  "(string \<Rightarrow> string \<Rightarrow> string \<Rightarrow> string) \<Rightarrow> string \<Rightarrow> u32 \<times> 'a \<Rightarrow> 'a metavars \<times> u32 \<times> string
   \<Rightarrow> 'a metavars \<times> u32 \<times> string" where
  "move_metavar replace_first name v = (\<lambda>(m, count, input).
     (put m count (snd v), count + 1, replace_first input (mm_show name (fst v)) (mm_show name count)))"

definition move_metavars ::
  "(string \<Rightarrow> string \<Rightarrow> string \<Rightarrow> string) \<Rightarrow> string \<Rightarrow> 'a metavars \<Rightarrow> 'a metavars \<times> u32 \<times> string
   \<Rightarrow> 'a metavars \<times> u32 \<times> string" where
  "move_metavars replace_first name source s = fold (move_metavar replace_first name) source s"

text \<open>One iteration of the second loop of \<open>flatten\<close>: the text and the metavariables of a tweast.\<close>

definition absorb ::
  "(string \<Rightarrow> string \<Rightarrow> string \<Rightarrow> string) \<Rightarrow> u32 \<times> tweast \<Rightarrow> tweast \<times> u32 \<Rightarrow> tweast \<times> u32" where
  "absorb replace_first t = (\<lambda>(tw, c). case tw of Tweast es vs ns cs ts i \<Rightarrow>
     (let (es', c1, i1) = move_metavars replace_first exp_name (tw_exps (snd t)) (es, c, tw_input_get (snd t));
          (vs', c2, i2) = move_metavars replace_first lvalue_name (tw_vars (snd t)) (vs, c1, i1);
          (ns', c3, i3) = move_metavars replace_first namety_name (tw_nametys (snd t)) (ns, c2, i2);
          (cs', c4, i4) = move_metavars replace_first chunks_name (tw_chunks (snd t)) (cs, c3, i3)
      in (Tweast es' vs' ns' cs' ts
            (oss_set (replace_first (buffer i) (mm_show tweast_name (fst t)) i4) i), c4)))"

definition tw_clear :: "tweast \<Rightarrow> tweast" where
  "tw_clear tw = (case tw of Tweast es vs ns cs ts i \<Rightarrow> Tweast es vs ns cs [] i)"

definition set_tweasts :: "(u32 \<times> tweast) list \<Rightarrow> tweast \<Rightarrow> tweast" where
  "set_tweasts ts tw = (case tw of Tweast es vs ns cs _ i \<Rightarrow> Tweast es vs ns cs ts i)"

lemma tweast_list_size: "t \<in> set ts \<Longrightarrow> size (snd t) \<le> size_list (size_prod (\<lambda>_. 0) size) ts"
  by (induction ts) auto

lemma tweast_size: "t \<in> set (tw_tweasts tw) \<Longrightarrow> size (snd t) < size tw"
  using tweast_list_size [of t "tw_tweasts tw"] by (cases tw) (simp add: less_Suc_eq_le trans_le_add1 trans_le_add2)

fun thread :: "('a \<Rightarrow> 's \<Rightarrow> 'b \<times> 's) \<Rightarrow> 'a list \<Rightarrow> 's \<Rightarrow> 'b list \<times> 's" where
  "thread f [] s = ([], s)"
| "thread f (x # xs) s = (let (y, s1) = f x s; (ys, s2) = thread f xs s1 in (y # ys, s2))"

lemma thread_cong [fundef_cong]:
  assumes "xs = ys" and "s = t" and "\<And>x s. x \<in> set ys \<Longrightarrow> f x s = g x s"
  shows "thread f xs s = thread g ys t"
proof -
  have "(\<And>x s. x \<in> set ys \<Longrightarrow> f x s = g x s) \<Longrightarrow> thread f ys t = thread g ys t"
    by (induction ys arbitrary: t) (simp_all add: Let_def split: prod.splits)
  with assms show ?thesis by simp
qed

function flatten :: "(string \<Rightarrow> string \<Rightarrow> string \<Rightarrow> string) \<Rightarrow> tweast \<Rightarrow> u32 \<Rightarrow> tweast \<times> u32" where
  "flatten replace_first tw count =
     (let (ts, c) = thread (\<lambda>t c. let (u, c') = flatten replace_first (snd t) c in ((fst t, u), c'))
            (tw_tweasts tw) count;
          (tw', c') = fold (absorb replace_first) ts (set_tweasts ts tw, c)
      in (tw_clear tw', c'))"
  by auto
termination by (relation "measure (\<lambda>(r, tw, c). size tw)") (auto dest: tweast_size)

declare flatten.simps [simp del]

section \<open>Insertion and extraction\<close>

lemma mm_take_append:
  assumes "sorted_keys m" and "mm_append name count data m = (t, m', count')"
  shows "bindE (mm_take count m') (\<lambda>(e, m''). Inr e) = Inr data" and "sorted_keys m'"
    and "k \<noteq> count \<Longrightarrow> map_of m' k = map_of m k"
  using assms put_map [OF assms(1), of count data] put_sorted [OF assms(1), of count data]
  by (auto simp: mm_append_def mm_take_def map_take_def map_xfind_def map_find_def)

text \<open>The tweasts built by the code: text and trees appended at the end, to ordered maps.\<close>

definition tw_ok :: "tweast \<Rightarrow> bool" where
  "tw_ok tw \<longleftrightarrow> oss_at_end (tw_input tw) \<and> sorted_keys (tw_exps tw) \<and> sorted_keys (tw_vars tw) \<and>
     sorted_keys (tw_nametys tw) \<and> sorted_keys (tw_chunks tw) \<and> sorted_keys (tw_tweasts tw)"

lemma tw_ok_default: "tw_ok tw_default" "tw_input_get tw_default = []"
  by (simp_all add: tw_ok_def tw_default_def tw_new_def oss_at_end_def oss_set_def sorted_keys_def tw_input_get_def)

lemma tw_put_ok:
  assumes "tw_ok tw"
  shows "tw_ok (tw_put t tw)" and "tw_input_get (tw_put t tw) = tw_input_get tw @ t"
    and "tw_exps (tw_put t tw) = tw_exps tw" and "tw_vars (tw_put t tw) = tw_vars tw"
    and "tw_nametys (tw_put t tw) = tw_nametys tw" and "tw_chunks (tw_put t tw) = tw_chunks tw"
    and "tw_tweasts (tw_put t tw) = tw_tweasts tw"
  using assms by (cases tw; simp add: tw_ok_def tw_put_def tw_input_get_def)+

lemma tw_put_exp_ok:
  assumes "tw_ok tw"
  shows "tw_ok (fst (tw_put_exp e (tw, c)))" and "snd (tw_put_exp e (tw, c)) = c + 1"
    and "tw_input_get (fst (tw_put_exp e (tw, c))) = tw_input_get tw @ mm_show exp_name c"
    and "tw_exps (fst (tw_put_exp e (tw, c))) = put (tw_exps tw) c e"
    and "tw_vars (fst (tw_put_exp e (tw, c))) = tw_vars tw"
    and "tw_nametys (fst (tw_put_exp e (tw, c))) = tw_nametys tw"
    and "tw_chunks (fst (tw_put_exp e (tw, c))) = tw_chunks tw"
    and "tw_tweasts (fst (tw_put_exp e (tw, c))) = tw_tweasts tw"
  using assms put_sorted [of "tw_exps tw" c e]
  by (cases tw; simp add: tw_ok_def tw_put_exp_def mm_append_def tw_input_get_def)+


lemma std_erase_put:
  assumes "sorted_keys m" and "map_of m k = None"
  shows "std_erase k (put m k v) = m"
proof -
  have k: "k \<notin> fst ` set m" using assms(2) by (simp add: map_of_eq_None_iff)
  obtain before i where lb: "lower_bound k m = (before, i)" by (cases "lower_bound k m")
  then have b: "before = takeWhile (\<lambda>p. fst p < k) m" "i = dropWhile (\<lambda>p. fst p < k) m"
    by (simp_all add: lower_bound_def)
  have "i \<noteq> [] \<Longrightarrow> k < fst (hd i)"
  proof -
    assume "i \<noteq> []"
    then have "hd i \<in> set m" using b(2) by (metis set_dropWhileD list.set_sel(1))
    with k have "fst (hd i) \<noteq> k" by blast
    moreover have "\<not> fst (hd i) < k" using b(2) \<open>i \<noteq> []\<close> hd_dropWhile by blast
    ultimately show "k < fst (hd i)" by simp
  qed
  with lb b have "put m k v = before @ (k, v) # i"
    using assms(2) by (auto simp: put_def std_emplace_def)
  moreover have "filter (\<lambda>p. fst p \<noteq> k) m = m" using k by (auto simp: filter_id_conv)
  moreover have "m = before @ i" using b by simp
  ultimately show ?thesis by (simp add: std_erase_def)
qed

text \<open>C24: A tree that is inserted is taken back by the number that the text names it with, and the
  tweast holds then the trees it held: the text is what it was, followed by the name.\<close>

theorem tweast_insert_take:
  assumes "tw_ok tw" and "map_of (tw_exps tw) count = None"
  shows "\<exists>tw1 tw2. tw_put_exp e (tw, count) = (tw1, count + 1) \<and>
    tw_take_exp ptr tptr count tw1 = Inr (e, tw2) \<and> tw_exps tw2 = tw_exps tw \<and>
    tw_input_get tw2 = tw_input_get tw @ mm_show exp_name count"
proof -
  obtain es vs ns cs ts i where tw: "tw = Tweast es vs ns cs ts i" by (cases tw)
  with assms have "map_of (put es count e) count = Some e" "std_erase count (put es count e) = es"
    by (simp_all add: tw_ok_def put_map std_erase_put)
  with assms(1) tw show ?thesis
    by (simp add: tw_put_exp_def mm_append_def tw_take_exp_def tw_catch_def mm_take_def map_take_def map_xfind_def
        map_find_def tw_input_get_def tw_ok_def)
qed

theorem tweast_insert_take_witness:
  "\<exists>tw1 tw2. tw_put_exp (NilExp (header_at 0)) (tw_default, 4) = (tw1, 5) \<and>
    tw_take_exp (\<lambda>_. []) (\<lambda>_. []) 4 tw1 = Inr (NilExp (header_at 0), tw2) \<and>
    tw_input_get tw2 = ''_exp(4)''"
proof -
  have "map_of (tw_exps tw_default) 4 = None" by (simp add: tw_default_def tw_new_def)
  moreover have "digit 4 = CHR ''4''" by code_simp
  ultimately show ?thesis
    using tweast_insert_take [OF tw_ok_default(1), of 4 "NilExp (header_at 0)" "\<lambda>_. []" "\<lambda>_. []"]
    by (auto simp: tw_ok_default(2) mm_show_def exp_name_def dec_nat.simps)
qed

section \<open>A metavariable that is not in the map\<close>

lemma indent_frame [simp]:
  "indent_of (put_str t os) = indent_of os" "indent_of (put_endl os) = indent_of os"
  "indent_of (iendl os) = indent_of os" "indent_of (incindent os) = indent_of os + 2"
  by (simp_all add: put_str_def put_endl_def iendl_def incindent_def Let_def)

lemma mm_dump_indent:
  fixes os :: "'d ostream"
  assumes "0 \<le> indent_of os"
  shows "\<exists>os'. mm_dump name show_v m os = Inr os' \<and> indent_of os' = indent_of os"
proof -
  have "indent_of (fold (\<lambda>(k, v) os. put_str (show_v v) (put_str '' -> '' (put_str (mm_show name k) (iendl os)))) m os)
    = indent_of os" for os :: "'d ostream"
    by (induction m arbitrary: os) auto
  with assms show ?thesis
    by (simp add: mm_dump_def Let_def decendl_def decindent_def)
qed

text \<open>Taking a metavariable that is not there aborts on an assertion in the printing of the tweast,
  that closes an indentation nobody opened: the message that was to be printed never is.\<close>

theorem tweast_take_unknown:
  assumes "map_of (tw_exps tw) k = None"
  shows "tw_take_exp ptr tptr k tw = Inl Assertion"
proof -
  have dump: "tw_dump ptr tptr tw os = Inl Assertion" if "indent_of os = 0" for os :: "unit ostream"
  proof -
    define o0 where
      0: "o0 = iendl (put_str [CHR 0x22] (put_str (buffer (tw_input tw)) (put_str (''input = '' @ [CHR 0x22]) os)))"
    with that have "indent_of o0 = 0" by simp
    with mm_dump_indent [of o0 exp_name ptr "tw_exps tw"] obtain o1 where
      1: "mm_dump exp_name ptr (tw_exps tw) o0 = Inr o1" "indent_of o1 = 0" by auto
    from mm_dump_indent [of o1 lvalue_name ptr "tw_vars tw"] 1 obtain o2 where
      2: "mm_dump lvalue_name ptr (tw_vars tw) o1 = Inr o2" "indent_of o2 = 0" by auto
    from mm_dump_indent [of o2 namety_name ptr "tw_nametys tw"] 2 obtain o3 where
      3: "mm_dump namety_name ptr (tw_nametys tw) o2 = Inr o3" "indent_of o3 = 0" by auto
    from mm_dump_indent [of o3 chunks_name ptr "tw_chunks tw"] 3 obtain o4 where
      4: "mm_dump chunks_name ptr (tw_chunks tw) o3 = Inr o4" "indent_of o4 = 0" by auto
    from mm_dump_indent [of o4 tweast_name tptr "tw_tweasts tw"] 4 obtain o5 where
      5: "mm_dump tweast_name tptr (tw_tweasts tw) o4 = Inr o5" "indent_of o5 = 0" by auto
    show ?thesis unfolding tw_dump_def by (simp only: 0 [symmetric] 1 2 3 4 5 bindE_Inr decendl_def decindent_def) simp
  qed
  have "indent_of (put_endl (put_str what (ostream_new :: unit ostream))) = 0" for what
    by (simp add: ostream_new_def)
  with dump have "tw_die ptr tptr what tw = (Inl Assertion :: (ast \<times> tweast) res)" for what
    by (simp add: tw_die_def)
  with assms show ?thesis
    by (cases tw) (simp add: tw_take_exp_def tw_catch_def mm_take_def map_take_def map_xfind_def map_find_def)
qed

theorem tweast_take_unknown_witness: "tw_take_exp (\<lambda>_. []) (\<lambda>_. []) 3 tw_default = Inl Assertion"
  by (rule tweast_take_unknown) (simp add: tw_default_def tw_new_def)

end
