(* ===== verification/File_Library.thy ===== *)
theory File_Library
  imports Tiger_Prelude
begin

text \<open>
  \<^verbatim>\<open>src/lib/misc/file-library.*\<close>: the search path and the stack of current directories.  A
  \<open>std::filesystem::path\<close> is whether it is absolute and its components (the last one is empty after a
  final slash); the existence of a file is the parameter \<open>exists\<close>, the working directory \<open>cwd\<close>.
\<close>

section \<open>Paths\<close>

record path =
  absolute :: bool
  parts :: "string list"

definition empty_path :: path where
  "empty_path = \<lparr>absolute = False, parts = []\<rparr>"

definition path_empty :: "path \<Rightarrow> bool" where
  "path_empty p \<longleftrightarrow> p = empty_path"

definition path_join :: "path \<Rightarrow> path \<Rightarrow> path" where
  "path_join p q =
     (if absolute q then q
      else let front = (if parts p \<noteq> [] \<and> List.last (parts p) = [] then butlast (parts p) else parts p)
           in p\<lparr>parts := front @ (if parts q = [] \<and> parts p \<noteq> [] then [[]] else parts q)\<rparr>)"

definition path_filename :: "path \<Rightarrow> path" where
  "path_filename p = \<lparr>absolute = False, parts = (if parts p = [] then [] else [List.last (parts p)])\<rparr>"

definition path_parent :: "path \<Rightarrow> path" where
  "path_parent p = p\<lparr>parts := butlast (parts p)\<rparr>"

section \<open>The library\<close>

record file_library =
  search_path :: "path list"
  current_directory :: "path list"

definition current_directory_get :: "file_library \<Rightarrow> path res" where
  "current_directory_get l = (case current_directory l of [] \<Rightarrow> Inl Assertion | d # _ \<Rightarrow> Inr d)"

definition ensure_absolute_path :: "path \<Rightarrow> file_library \<Rightarrow> path res" where
  "ensure_absolute_path p l =
     (if absolute p then Inr p
      else bindE (current_directory_get l) (\<lambda>d. Inr (path_join d p)))"

definition push_current_directory :: "path \<Rightarrow> file_library \<Rightarrow> file_library res" where
  "push_current_directory p l =
     bindE (if absolute p then Inr p else bindE (current_directory_get l) (\<lambda>d. Inr (path_join d p))) (\<lambda>q.
       Inr (l\<lparr>current_directory := q # current_directory l\<rparr>))"

definition pop_current_directory :: "file_library \<Rightarrow> file_library res" where
  "pop_current_directory l =
     (if current_directory l = [] then Inl Assertion
      else Inr (l\<lparr>current_directory := tl (current_directory l)\<rparr>))"

definition push_cwd :: "path \<Rightarrow> file_library \<Rightarrow> file_library res" where
  "push_cwd cwd l = push_current_directory cwd l"

definition library_new :: "path \<Rightarrow> file_library res" where
  "library_new cwd = push_cwd cwd \<lparr>search_path = [], current_directory = []\<rparr>"

definition library_of :: "path \<Rightarrow> path \<Rightarrow> file_library res" where
  "library_of cwd p =
     bindE (push_cwd cwd \<lparr>search_path = [], current_directory = []\<rparr>) (\<lambda>l.
       Inr (l\<lparr>search_path := search_path l @ [p]\<rparr>))"

definition append_dir :: "path \<Rightarrow> file_library \<Rightarrow> file_library res" where
  "append_dir p l =
     bindE (ensure_absolute_path p l) (\<lambda>q. Inr (l\<lparr>search_path := search_path l @ [q]\<rparr>))"

definition prepend_dir :: "path \<Rightarrow> file_library \<Rightarrow> file_library res" where
  "prepend_dir p l =
     bindE (ensure_absolute_path p l) (\<lambda>q. Inr (l\<lparr>search_path := q # search_path l\<rparr>))"

text \<open>The directories of a list separated by colons; \<open>to_path\<close> reads a path.\<close>

function append_dir_list :: "(string \<Rightarrow> path) \<Rightarrow> string \<Rightarrow> file_library \<Rightarrow> file_library res" where
  "append_dir_list to_path path_list l =
     (case dropWhile (\<lambda>c. c \<noteq> CHR '':'') path_list of
        [] \<Rightarrow> append_dir (to_path path_list) l
      | _ # rest \<Rightarrow>
          bindE (append_dir (to_path (takeWhile (\<lambda>c. c \<noteq> CHR '':'') path_list)) l)
            (\<lambda>l1. append_dir_list to_path rest l1))"
  by auto
termination
proof (relation "measure (\<lambda>(f, path_list, l). length path_list)", goal_cases)
  case (2 f path_list l c rest l1)
  have "length (dropWhile (\<lambda>c. c \<noteq> CHR '':'') path_list) \<le> length path_list" by (rule length_dropWhile_le)
  with 2 show ?case by simp
qed simp

declare append_dir_list.simps [simp del]

definition find_in_directory :: "(path \<Rightarrow> bool) \<Rightarrow> path \<Rightarrow> path \<Rightarrow> bool" where
  "find_in_directory exists dir file \<longleftrightarrow> exists (path_join dir file)"

fun search_in :: "(path \<Rightarrow> bool) \<Rightarrow> path \<Rightarrow> path \<Rightarrow> path list \<Rightarrow> file_library \<Rightarrow> path res" where
  "search_in exists relative_path filename [] l = Inr empty_path"
| "search_in exists relative_path filename (p # ps) l =
     bindE (if absolute p then Inr p else bindE (current_directory_get l) (\<lambda>d. Inr (path_join d p))) (\<lambda>dir.
       let checked_dir = path_join dir relative_path
       in if find_in_directory exists checked_dir filename then Inr checked_dir
          else search_in exists relative_path filename ps l)"

definition find_in_search_path :: "(path \<Rightarrow> bool) \<Rightarrow> path \<Rightarrow> path \<Rightarrow> file_library \<Rightarrow> path res" where
  "find_in_search_path exists relative_path filename l =
     search_in exists relative_path filename (search_path l) l"

definition find_file :: "(path \<Rightarrow> bool) \<Rightarrow> path \<Rightarrow> file_library \<Rightarrow> path res" where
  "find_file exists p l =
     (let directory = path_filename p
      in if absolute directory then Inr (if exists p then directory else empty_path)
         else bindE (current_directory_get l) (\<lambda>d.
           if find_in_directory exists d p then Inr (path_parent (path_join d p))
           else find_in_search_path exists directory (path_filename p) l))"

section \<open>The search\<close>

definition absolute_library :: "file_library \<Rightarrow> bool" where
  "absolute_library l \<longleftrightarrow> current_directory l \<noteq> [] \<and> list_all absolute (current_directory l) \<and>
     list_all absolute (search_path l)"

lemma path_join_absolute: "absolute d \<Longrightarrow> absolute (path_join d p)"
  by (simp add: path_join_def Let_def)

text \<open>C25: Every operation of the library keeps its paths absolute and a current directory, except popping
  the last one; what is pushed is popped.\<close>

theorem library_absolute:
  assumes "absolute_library l"
  shows "(\<exists>l'. push_current_directory p l = Inr l' \<and> absolute_library l' \<and> pop_current_directory l' = Inr l) \<and>
    (\<exists>l'. append_dir p l = Inr l' \<and> absolute_library l' \<and> current_directory l' = current_directory l) \<and>
    (\<exists>l'. prepend_dir p l = Inr l' \<and> absolute_library l' \<and> current_directory l' = current_directory l) \<and>
    (\<exists>l'. append_dir_list to_path s l = Inr l' \<and> absolute_library l' \<and>
      current_directory l' = current_directory l)"
proof -
  have dir: "\<exists>q. ensure_absolute_path p l = Inr q \<and> absolute q" if "absolute_library l" for p l
    using that by (cases "current_directory l")
      (auto simp: ensure_absolute_path_def current_directory_get_def absolute_library_def path_join_absolute)
  have append: "\<exists>l'. append_dir p l = Inr l' \<and> absolute_library l' \<and> current_directory l' = current_directory l"
    if "absolute_library l" for p l
    using dir [OF that, of p] that by (auto simp: append_dir_def absolute_library_def)
  moreover have "\<exists>l'. prepend_dir p l = Inr l' \<and> absolute_library l' \<and> current_directory l' = current_directory l"
    using dir [OF assms, of p] assms by (auto simp: prepend_dir_def absolute_library_def)
  moreover have "\<exists>l'. push_current_directory p l = Inr l' \<and> absolute_library l' \<and> pop_current_directory l' = Inr l"
  proof -
    from dir [OF assms, of p] obtain q where "ensure_absolute_path p l = Inr q" "absolute q" by blast
    then have "push_current_directory p l = Inr (l\<lparr>current_directory := q # current_directory l\<rparr>)"
      unfolding push_current_directory_def ensure_absolute_path_def by simp
    with assms \<open>absolute q\<close> show ?thesis by (auto simp: pop_current_directory_def absolute_library_def)
  qed
  moreover have "\<exists>l'. append_dir_list to_path s l = Inr l' \<and> absolute_library l' \<and>
      current_directory l' = current_directory l"
    using assms
  proof (induction to_path s l rule: append_dir_list.induct)
    case (1 to_path s l)
    from append [OF 1(2)] obtain l1 where l1: "append_dir (to_path (takeWhile (\<lambda>c. c \<noteq> CHR '':'') s)) l = Inr l1"
      "absolute_library l1" "current_directory l1 = current_directory l" by blast
    show ?case
    proof (cases "dropWhile (\<lambda>c. c \<noteq> CHR '':'') s")
      case Nil
      then have "append_dir_list to_path s l = append_dir (to_path s) l"
        by (subst append_dir_list.simps) (simp only: list.case)
      with append [OF 1(2)] show ?thesis by simp
    next
      case (Cons c rest)
      then have "append_dir_list to_path s l = append_dir_list to_path rest l1"
        by (subst append_dir_list.simps) (simp only: list.case l1(1) bindE_Inr)
      with 1(1) [OF Cons, of l1] l1 show ?thesis by simp
    qed
  qed
  ultimately show ?thesis using assms by blast
qed

theorem library_absolute_witness:
  "\<exists>l'. push_current_directory \<lparr>absolute = False, parts = [''a'']\<rparr>
      \<lparr>search_path = [], current_directory = [\<lparr>absolute = True, parts = [''home'']\<rparr>]\<rparr> = Inr l' \<and>
    pop_current_directory l' = Inr \<lparr>search_path = [], current_directory = [\<lparr>absolute = True, parts = [''home'']\<rparr>]\<rparr>"
  using library_absolute [of "\<lparr>search_path = [], current_directory = [\<lparr>absolute = True, parts = [''home'']\<rparr>]\<rparr>"
    "\<lparr>absolute = False, parts = [''a'']\<rparr>" "\<lambda>_. empty_path" "[]"]
  by (auto simp: absolute_library_def)

lemma search_in_result:
  "search_in exists r f ps l = Inr q \<Longrightarrow> q \<noteq> empty_path \<Longrightarrow>
   \<exists>d. q = path_join d r \<and> exists (path_join (path_join d r) f)"
  by (induction exists r f ps l rule: search_in.induct)
    (auto simp: find_in_directory_def bindE_eq_Inr Let_def split: if_splits)

text \<open>Of a file that is not in the current directory, the search path only gives a directory that is
  named as the file: the directory it looks into is followed by the name of the file, where the directory of
  the file was meant.\<close>

theorem find_file_search_path:
  assumes "find_file exists p l = Inr q" and "q \<noteq> empty_path"
    and "\<forall>d. current_directory_get l = Inr d \<longrightarrow> \<not> exists (path_join d p)"
  shows "\<exists>d. q = path_join d (path_filename p) \<and> exists (path_join q (path_filename p))"
proof -
  from assms(1,3) have "find_in_search_path exists (path_filename p) (path_filename p) l = Inr q"
    by (auto simp: find_file_def Let_def bindE_eq_Inr find_in_directory_def path_filename_def split: if_splits)
  with search_in_result [of exists _ _ "search_path l" l q] assms(2) show ?thesis
    by (auto simp: find_in_search_path_def)
qed

theorem find_file_search_path_witness:
  "let lib = \<lparr>search_path = [\<lparr>absolute = True, parts = [''lib'']\<rparr>],
              current_directory = [\<lparr>absolute = True, parts = [''home'']\<rparr>]\<rparr>;
       file = \<lparr>absolute = False, parts = [''a.tih'']\<rparr>;
       there = \<lparr>absolute = True, parts = [''lib'', ''a.tih'', ''a.tih'']\<rparr>
   in find_file (\<lambda>q. q = \<lparr>absolute = True, parts = [''lib'', ''a.tih'']\<rparr>) file lib = Inr empty_path \<and>
     (\<exists>d. \<lparr>absolute = True, parts = [''lib'', ''a.tih'']\<rparr> = path_join d (path_filename file))"
proof -
  let ?lib = "\<lparr>search_path = [\<lparr>absolute = True, parts = [''lib'']\<rparr>],
              current_directory = [\<lparr>absolute = True, parts = [''home'']\<rparr>]\<rparr>"
  let ?file = "\<lparr>absolute = False, parts = [''a.tih'']\<rparr>"
  let ?there = "\<lparr>absolute = True, parts = [''lib'', ''a.tih'', ''a.tih'']\<rparr>"
  have "find_file (\<lambda>q. q = \<lparr>absolute = True, parts = [''lib'', ''a.tih'']\<rparr>) ?file ?lib = Inr empty_path"
    by (simp add: find_file_def current_directory_get_def find_in_directory_def find_in_search_path_def
      path_join_def path_filename_def Let_def)
  moreover have "find_file (\<lambda>q. q = ?there) ?file ?lib = Inr \<lparr>absolute = True, parts = [''lib'', ''a.tih'']\<rparr>"
    "\<forall>d. current_directory_get ?lib = Inr d \<longrightarrow> path_join d ?file \<noteq> ?there"
    by (simp_all add: find_file_def current_directory_get_def find_in_directory_def find_in_search_path_def
      path_join_def path_filename_def Let_def)
  from find_file_search_path [OF this(1) _ this(2)] have
    "\<exists>d. \<lparr>absolute = True, parts = [''lib'', ''a.tih'']\<rparr> = path_join d (path_filename ?file)"
    by (auto simp: empty_path_def)
  ultimately show ?thesis by (simp add: Let_def)
qed

end
