(* ===== verification/Parse_Driver.thy ===== *)
theory Parse_Driver
  imports Tweast File_Library
begin

text \<open>
  \<^verbatim>\<open>src/parse/tiger-driver.*\<close> and \<^verbatim>\<open>libparse.*\<close>: what surrounds the scanner and the parser, that the build
  generates: they are the parameter \<open>run\<close>, which reads the text, sets \<open>ast_\<close> and the errors of the driver,
  takes the metavariables of its input, and may call \<open>parse_import\<close>; \<open>parser_at\<close> is the one that does, for a
  parser given by what it does between two imports.  The heap and the static counter of the
  tweasts are in \<open>glob\<close>; what the driver takes from outside is in \<open>surroundings\<close>.  An exception loses the
  state of the driver: the message that \<open>parse_import\<close> adds after a conversion that failed inside the parser
  follows what \<open>error_\<close> held when the import began.
\<close>

section \<open>State\<close>

text \<open>\<open>ast_type\<close>, and the input of the driver.\<close>

datatype ast_variant = Exp_v "ast option" | Chunks_v "ast option"

datatype input = File string | In_tweast tweast

record glob =
  gl_next :: addr
  gl_count :: u32

record driver =
  open_files :: "path \<rightharpoonup> location"
  dr_ast :: ast_variant
  dr_error :: error
  scan_trace_p :: bool
  parse_trace_p :: bool
  dr_location :: location
  dr_input :: input
  dr_library :: file_library
  enable_object_extensions_p :: bool
  enable_extensions_p :: bool

type_synonym parser_run = "string \<Rightarrow> driver \<times> glob \<Rightarrow> (driver \<times> glob) res"

record surroundings =
  run :: parser_run
  files :: "string \<rightharpoonup> string"
  std_in :: string
  exists_file :: "path \<Rightarrow> bool"
  cwd :: path
  to_path :: "string \<Rightarrow> path"
  path_str :: "path \<Rightarrow> string"
  program_name :: string
  strerror :: string
  location_str :: "location \<Rightarrow> string"
  scan_env :: bool
  parse_env :: bool
  replace_1st :: "string \<Rightarrow> string \<Rightarrow> string \<Rightarrow> string"
  prelude_text :: string
  ast_ptr :: "ast \<Rightarrow> string"
  tweast_ptr :: "tweast \<Rightarrow> string"

definition location_start :: location where
  "location_start = \<lparr>begin_of = \<lparr>line = 1, column = 1\<rparr>, end_of = \<lparr>line = 1, column = 1\<rparr>\<rparr>"

definition driver_new :: "surroundings \<Rightarrow> file_library \<Rightarrow> driver" where
  "driver_new P lib =
     \<lparr>open_files = Map.empty, dr_ast = Exp_v None, dr_error = error_new, scan_trace_p = scan_env P,
      parse_trace_p = parse_env P, dr_location = location_start, dr_input = File [], dr_library = lib,
      enable_object_extensions_p = False, enable_extensions_p = False\<rparr>"

text \<open>The conversions of an \<open>ast_type\<close>.\<close>

definition get_exp :: "ast_variant \<Rightarrow> ast option res" where
  "get_exp t = (case t of Exp_v e \<Rightarrow> Inr e | Chunks_v _ \<Rightarrow> Inl Bad_variant)"

definition get_chunks :: "ast_variant \<Rightarrow> ast option res" where
  "get_chunks t = (case t of Chunks_v c \<Rightarrow> Inr c | Exp_v _ \<Rightarrow> Inl Bad_variant)"

section \<open>\<open>TigerDriver\<close>\<close>

definition cannot_open :: "surroundings \<Rightarrow> string \<Rightarrow> error \<Rightarrow> error" where
  "cannot_open P fn e = error_put (program_name P @ '': cannot open `'' @ fn @ [CHR 0x27] @ '': '' @ strerror P @ newline)
     (error_status err_failure e)"

definition input_text :: "surroundings \<Rightarrow> driver \<Rightarrow> string res" where
  "input_text P d = (case dr_input d of
     In_tweast tw \<Rightarrow> Inr (tw_input_get tw)
   | File fn \<Rightarrow>
       if fn = ''-'' then Inr (std_in P)
       else (case files P fn of
               Some text \<Rightarrow> Inr text
             | None \<Rightarrow> error_exit (cannot_open P fn (dr_error d))))"

definition driver_parse :: "surroundings \<Rightarrow> driver \<times> glob \<Rightarrow> (ast_variant \<times> driver \<times> glob) res" where
  "driver_parse P = (\<lambda>(d, g).
     let d1 = d\<lparr>dr_location := location_start\<rparr>
     in bindE (input_text P d1) (\<lambda>text.
        bindE (run P text (d1, g)) (\<lambda>(d2, g2).
          Inr (dr_ast d2, d2\<lparr>dr_ast := Exp_v None\<rparr>, g2))))"

definition parse_file :: "surroundings \<Rightarrow> path \<Rightarrow> driver \<times> glob \<Rightarrow> (ast_variant \<times> driver \<times> glob) res" where
  "parse_file P name = (\<lambda>(d, g). driver_parse P (d\<lparr>dr_input := File (path_str P name)\<rparr>, g))"

text \<open>The tweast is a reference: it is returned as the parser leaves it.\<close>

definition input_tweast :: "driver \<Rightarrow> tweast" where
  "input_tweast d = (case dr_input d of In_tweast tw \<Rightarrow> tw | File _ \<Rightarrow> tw_default)"

definition parse_input ::
  "surroundings \<Rightarrow> tweast \<Rightarrow> bool \<Rightarrow> driver \<times> glob \<Rightarrow> (ast_variant \<times> tweast \<times> driver \<times> glob) res" where
  "parse_input P s extensions = (\<lambda>(d, g).
     let saved = enable_extensions_p d;
         (s1, c) = flatten (replace_1st P) s (gl_count g)
     in bindE (driver_parse P (d\<lparr>enable_extensions_p := extensions, dr_input := In_tweast s1\<rparr>, g\<lparr>gl_count := c\<rparr>))
          (\<lambda>(res, d1, g1). Inr (res, input_tweast d1, d1\<lparr>enable_extensions_p := saved\<rparr>, g1)))"

definition parse_tweast ::
  "surroundings \<Rightarrow> tweast \<Rightarrow> driver \<times> glob \<Rightarrow> (ast_variant \<times> tweast \<times> driver \<times> glob) res" where
  "parse_tweast P s = parse_input P s True"

definition parse_string ::
  "surroundings \<Rightarrow> string \<Rightarrow> driver \<times> glob \<Rightarrow> (ast_variant \<times> driver \<times> glob) res" where
  "parse_string P s x =
     bindE (parse_input P (tw_new s) False x) (\<lambda>(res, tw, y).
     bindE (tw_delete tw) (\<lambda>_. Inr (res, y)))"

definition not_found :: "surroundings \<Rightarrow> string \<Rightarrow> location \<Rightarrow> error \<Rightarrow> error" where
  "not_found P name l e = error_put (location_str P l @ '': '' @ name @ '': file not found.'' @ newline)
     (error_status err_failure e)"

definition recursive_inclusion :: "surroundings \<Rightarrow> string \<Rightarrow> location \<Rightarrow> location \<Rightarrow> error \<Rightarrow> error" where
  "recursive_inclusion P name l first e =
     error_put (location_str P l @ '': '' @ name @ '': recursive inclusion.'' @ newline @ location_str P first @
       '': initial inclusion was here.'' @ newline) (error_status err_failure e)"

definition not_chunks :: "surroundings \<Rightarrow> path \<Rightarrow> location \<Rightarrow> error \<Rightarrow> error" where
  "not_chunks P p l e =
     error_put (path_str P p @ '': imported from '' @ location_str P l @
       '': syntax error, unexpected exp, expecting chunks.'' @ newline) (error_status err_parse e)"

text \<open>The conversion of the result to chunks is inside the \<open>try\<close>.\<close>

definition import_file ::
  "surroundings \<Rightarrow> path \<Rightarrow> location \<Rightarrow> driver \<times> glob \<Rightarrow> (ast option \<times> driver \<times> glob) res" where
  "import_file P p l x = (case parse_file P p x of
     Inr (res, d, g) \<Rightarrow> (case get_chunks res of
         Inr cs \<Rightarrow> Inr (cs, d, g)
       | Inl _ \<Rightarrow> error_exit (not_chunks P p l (dr_error d)))
   | Inl e \<Rightarrow> if e = Bad_variant then error_exit (not_chunks P p l (dr_error (fst x))) else Inl e)"

definition parse_import ::
  "surroundings \<Rightarrow> string \<Rightarrow> location \<Rightarrow> driver \<times> glob \<Rightarrow> (ast option \<times> driver \<times> glob) res" where
  "parse_import P name l = (\<lambda>(d, g).
     bindE (find_file (exists_file P) (to_path P name) (dr_library d)) (\<lambda>directory_path.
     if path_empty directory_path then Inr (None, d\<lparr>dr_error := not_found P name l (dr_error d)\<rparr>, g)
     else let absolute_path = path_join directory_path (path_filename (to_path P name)) in
       case open_files d absolute_path of
         Some first \<Rightarrow> Inr (None, d\<lparr>dr_error := recursive_inclusion P name l first (dr_error d)\<rparr>, g)
       | None \<Rightarrow>
           bindE (push_current_directory directory_path (dr_library d)) (\<lambda>lib.
           let d1 = d\<lparr>dr_library := lib, open_files := (open_files d)(absolute_path \<mapsto> l)\<rparr>;
               saved_input = dr_input d1;
               saved_location = dr_location d1
           in bindE (import_file P absolute_path l (d1, g)) (\<lambda>(res, d2, g2).
              bindE (pop_current_directory (dr_library d2)) (\<lambda>lib2.
                Inr (res, d2\<lparr>dr_input := saved_input, dr_location := saved_location,
                             open_files := (open_files d2)(absolute_path := None), dr_library := lib2\<rparr>, g2))))))"

section \<open>The parser and its imports\<close>

text \<open>
  What the scanner and the actions of the grammar touch of the driver: they set \<open>ast_\<close>, report to \<open>error_\<close>, move
  \<open>location_\<close> and take from the tweast of \<open>input_\<close>.
\<close>

record touched =
  t_ast :: ast_variant
  t_error :: error
  t_location :: location
  t_input :: input

definition touch :: "touched \<Rightarrow> driver \<Rightarrow> driver" where
  "touch v d = d\<lparr>dr_ast := t_ast v, dr_error := t_error v, dr_location := t_location v, dr_input := t_input v\<rparr>"

text \<open>
  A parse: it accepts, it raises, or the action of \<open>import\<close> calls \<open>parse_import\<close> and goes on with what that
  returns and leaves.
\<close>

datatype parsing =
    Accepts touched glob
  | Raises exn
  | Imports string location touched glob "ast option \<times> driver \<times> glob \<Rightarrow> parsing"

type_synonym reader = "string \<Rightarrow> driver \<times> glob \<Rightarrow> parsing"

type_synonym importer = "string \<Rightarrow> location \<Rightarrow> driver \<times> glob \<Rightarrow> (ast option \<times> driver \<times> glob) res"

primrec parses :: "parsing \<Rightarrow> importer \<Rightarrow> driver \<Rightarrow> (driver \<times> glob) res" where
  "parses (Accepts v g) imp d = Inr (touch v d, g)"
| "parses (Raises e) imp d = Inl e"
| "parses (Imports name l v g k) imp d = (case imp name l (touch v d, g) of
     Inl e \<Rightarrow> Inl e
   | Inr x \<Rightarrow> parses (k x) imp (fst (snd x)))"

text \<open>The parser where imports nest \<open>n\<close> deep at most, the calls of \<open>parse_import\<close> it makes being those above.\<close>

primrec parser_at :: "reader \<Rightarrow> surroundings \<Rightarrow> nat \<Rightarrow> parser_run" where
  "parser_at rd P 0 = (\<lambda>text x. Inl No_fuel)"
| "parser_at rd P (Suc n) = (\<lambda>text x. parses (rd text x) (parse_import (P\<lparr>run := parser_at rd P n\<rparr>)) (fst x))"

section \<open>\<open>libparse\<close>\<close>

text \<open>The program around an expression; the prelude before it.\<close>

definition with_prelude :: "ast option \<Rightarrow> tweast \<times> u32 \<Rightarrow> tweast \<times> u32" where
  "with_prelude cs tw = (case cs of Some c \<Rightarrow> tw_put_chunks c tw | None \<Rightarrow> tw)"

definition main_tweast :: "ast option \<Rightarrow> ast \<Rightarrow> u32 \<Rightarrow> tweast \<times> u32" where
  "main_tweast prelude_chunks e count =
     (let (tw, c) = with_prelude prelude_chunks (tw_default, count);
          (tw1, c1) = tw_put_exp e (tw_put ''function _main() = ('' tw, c)
      in (tw_put ''; ())'' tw1, c1))"

definition parse_prelude ::
  "surroundings \<Rightarrow> string \<Rightarrow> driver \<times> glob \<Rightarrow> (ast option \<times> driver \<times> glob) res" where
  "parse_prelude P prelude x =
     (if prelude = [] then Inr (None, x)
      else if prelude = ''builtin''
      then bindE (parse_string P (prelude_text P) x) (\<lambda>(t, y). bindE (get_chunks t) (\<lambda>c. Inr (c, y)))
      else parse_import P prelude location_start x)"

definition parse_main ::
  "surroundings \<Rightarrow> string \<Rightarrow> ast \<Rightarrow> driver \<times> glob \<Rightarrow> (ast option \<times> driver \<times> glob) res" where
  "parse_main P prelude e x =
     bindE (parse_prelude P prelude x) (\<lambda>(cs, d, g).
       let (tw, c) = main_tweast cs e (gl_count g)
       in bindE (parse_tweast P tw (d, g\<lparr>gl_count := c\<rparr>)) (\<lambda>(t, tw1, y).
          bindE (get_chunks t) (\<lambda>res.
          bindE (tw_delete tw1) (\<lambda>_. Inr (res, y)))))"

definition parse ::
  "surroundings \<Rightarrow> string \<Rightarrow> string \<Rightarrow> file_library \<Rightarrow> bool \<Rightarrow> bool \<Rightarrow> bool \<Rightarrow> glob
   \<Rightarrow> ((ast option \<times> error) \<times> file_library \<times> glob) res" where
  "parse P prelude fname library scan_trace parse_trace object_extensions g =
     bindE (push_current_directory (path_parent (to_path P fname)) library) (\<lambda>lib1.
     let td = (driver_new P lib1)\<lparr>scan_trace_p := scan_trace, parse_trace_p := parse_trace,
                                  enable_object_extensions_p := object_extensions\<rparr>
     in bindE (parse_file P (to_path P fname) (td, g)) (\<lambda>(tree, d, g1).
        bindE (case tree of
                 Exp_v (Some e) \<Rightarrow> parse_main P prelude e (d, g1)
               | Exp_v None \<Rightarrow> Inr (None, d, g1)
               | Chunks_v c \<Rightarrow> Inr (c, d, g1)) (\<lambda>(res, d2, g2).
        bindE (pop_current_directory lib1) (\<lambda>lib2. Inr ((res, dr_error d2), lib2, g2)))))"

definition unresolved :: "surroundings \<Rightarrow> tweast \<Rightarrow> error \<Rightarrow> 'a res" where
  "unresolved P tw e =
     bindE (tw_dump (ast_ptr P) (tweast_ptr P) tw
       (incendl (put_str ''Failed to resolve Tweast:'' (ostream_new :: unit ostream)))) (\<lambda>os.
       error_ice (error_import e (error_put (text_of os @ ''Got: '') error_new)))"

definition parse_of_tweast :: "surroundings \<Rightarrow> tweast \<Rightarrow> glob \<Rightarrow> (ast_variant \<times> tweast \<times> glob) res" where
  "parse_of_tweast P tw g =
     bindE (library_new (cwd P)) (\<lambda>lib.
     bindE (parse_tweast P tw ((driver_new P lib)\<lparr>enable_extensions_p := True, enable_object_extensions_p := True\<rparr>, g))
       (\<lambda>(res, tw1, d, g1). if error_bool (dr_error d) then unresolved P tw1 (dr_error d) else Inr (res, tw1, g1)))"

definition parse_exp :: "surroundings \<Rightarrow> string \<Rightarrow> bool \<Rightarrow> glob \<Rightarrow> (ast option \<times> glob) res" where
  "parse_exp P str object_extensions g =
     bindE (library_new (cwd P)) (\<lambda>lib.
     bindE (parse_string P str ((driver_new P lib)\<lparr>enable_object_extensions_p := object_extensions\<rparr>, g)) (\<lambda>(t, d, g1).
     bindE (get_exp t) (\<lambda>res.
     bindE (error_ice_on_error (dr_error d)) (\<lambda>_. Inr (res, g1)))))"

definition parse_unit :: "surroundings \<Rightarrow> string \<Rightarrow> bool \<Rightarrow> glob \<Rightarrow> (ast option \<times> glob) res" where
  "parse_unit P str object_extensions g =
     bindE (library_new (cwd P)) (\<lambda>lib.
     bindE (parse_string P (''function _main() = ('' @ str @ ''; ())'')
       ((driver_new P lib)\<lparr>enable_object_extensions_p := object_extensions\<rparr>, g)) (\<lambda>(t, d, g1).
     bindE (get_chunks t) (\<lambda>res.
     bindE (error_ice_on_error (dr_error d)) (\<lambda>_. Inr (res, g1)))))"

definition parse_chunks :: "surroundings \<Rightarrow> tweast \<Rightarrow> glob \<Rightarrow> (ast \<times> tweast \<times> glob) res" where
  "parse_chunks P tw g =
     bindE (parse_of_tweast P tw g) (\<lambda>(t, tw1, g1).
     bindE (get_chunks t) (\<lambda>dl. case dl of
       None \<Rightarrow> Inl Null_deref
     | Some cl \<Rightarrow> (case cl of
         ChunkList _ xs \<Rightarrow> (case xs of [c] \<Rightarrow> Inr (c, tw1, g1) | _ \<Rightarrow> Inl Assertion)
       | _ \<Rightarrow> Inl Bad_variant)))"


section \<open>Imports\<close>

lemma error_status_bool: "error_code t \<noteq> 0 \<Longrightarrow> error_bool (error_put s (error_status t e))"
  by (auto simp: error_bool_def error_put_def error_status_def Let_def)

lemma push_pop: "push_current_directory p lib = Inr lib1 \<Longrightarrow> pop_current_directory lib1 = Inr lib"
  by (auto simp: push_current_directory_def pop_current_directory_def bindE_eq_Inr)

text \<open>What a parse leaves of the driver: the files that are open and the directories.\<close>

definition run_tidy :: "parser_run \<Rightarrow> bool" where
  "run_tidy f \<longleftrightarrow> (\<forall>text d g d' g'. f text (d, g) = Inr (d', g') \<longrightarrow>
     open_files d' = open_files d \<and> dr_library d' = dr_library d)"

lemma import_file_tidy:
  assumes "run_tidy (run P)" and "import_file P p l (d, g) = Inr (res, d', g')"
  shows "open_files d' = open_files d \<and> dr_library d' = dr_library d"
proof -
  from assms(2) obtain t where "parse_file P p (d, g) = Inr (t, d', g')"
    by (auto simp: import_file_def error_exit_def split: sum.splits if_splits)
  with assms(1) show ?thesis
    by (fastforce simp: parse_file_def driver_parse_def Let_def bindE_eq_Inr run_tidy_def)
qed

lemma import_keeps:
  assumes "run_tidy (run P)" and "parse_import P name l (d, g) = Inr (res, d', g')"
  shows "open_files d' = open_files d \<and> dr_library d' = dr_library d \<and> dr_input d' = dr_input d \<and>
    dr_location d' = dr_location d"
proof -
  from assms(2) obtain dir where dir: "find_file (exists_file P) (to_path P name) (dr_library d) = Inr dir"
    by (auto simp: parse_import_def bindE_eq_Inr)
  let ?p = "path_join dir (path_filename (to_path P name))"
  show ?thesis
  proof (cases "path_empty dir \<or> open_files d ?p \<noteq> None")
    case True
    with assms(2) dir show ?thesis
      by (cases "path_empty dir"; cases "open_files d ?p") (simp_all add: parse_import_def Let_def, auto)
  next
    case False
    with assms(2) dir obtain lib d2 lib2 where
      lib: "push_current_directory dir (dr_library d) = Inr lib" and
      d2: "import_file P ?p l (d\<lparr>dr_library := lib, open_files := (open_files d)(?p \<mapsto> l)\<rparr>, g) = Inr (res, d2, g')" and
      lib2: "pop_current_directory (dr_library d2) = Inr lib2" and
      d': "d' = d2\<lparr>dr_input := dr_input d, dr_location := dr_location d,
        open_files := (open_files d2)(?p := None), dr_library := lib2\<rparr>"
      by (auto simp: parse_import_def Let_def bindE_eq_Inr)
    from import_file_tidy [OF assms(1) d2] have
      "open_files d2 = (open_files d)(?p \<mapsto> l)" "dr_library d2 = lib" by simp_all
    with lib lib2 d' False push_pop [OF lib] show ?thesis by (auto simp: fun_upd_idem_iff)
  qed
qed

lemma parses_tidy:
  assumes "\<And>name l d g res d' g'. imp name l (d, g) = Inr (res, d', g') \<Longrightarrow>
      open_files d' = open_files d \<and> dr_library d' = dr_library d"
  shows "parses p imp d = Inr (d', g') \<Longrightarrow> open_files d' = open_files d \<and> dr_library d' = dr_library d"
proof (induction p arbitrary: d)
  case (Imports name l v g k)
  from Imports.prems obtain res d1 g1 where i: "imp name l (touch v d, g) = Inr (res, d1, g1)"
    and p: "parses (k (res, d1, g1)) imp d1 = Inr (d', g')" by (auto split: sum.splits)
  from Imports.IH [OF _ p] assms [OF i] show ?case by (simp add: touch_def)
qed (auto simp: touch_def)

lemma parser_tidy: "run_tidy (parser_at rd P n)"
proof (induction n)
  case (Suc n)
  let ?P = "P\<lparr>run := parser_at rd P n\<rparr>"
  from Suc.IH have tidy: "run_tidy (run ?P)" by simp
  have keeps: "open_files d' = open_files d \<and> dr_library d' = dr_library d"
    if "parse_import ?P name l (d, g) = Inr (res, d', g')" for name l d g res d' g'
    using import_keeps [OF tidy that] by simp
  show ?case unfolding run_tidy_def
  proof (intro allI impI)
    fix u d g d' g'
    assume "parser_at rd P (Suc n) u (d, g) = Inr (d', g')"
    then have "parses (rd u (d, g)) (parse_import ?P) d = Inr (d', g')" by simp
    with keeps show "open_files d' = open_files d \<and> dr_library d' = dr_library d" by (rule parses_tidy)
  qed
qed (simp add: run_tidy_def)

text \<open>C22: Whatever the parser does between the imports it makes, and however these nest, an import that returns
  restores the driver: the file it opened is closed and its directory popped, and the input and the location are
  those of the importing file again.  This holds of the imports inside the imported files as well, and on every
  path: the file is not found, is open already, or is parsed.\<close>

theorem import_restores:
  assumes "parse_import (P\<lparr>run := parser_at rd P n\<rparr>) name l (d, g) = Inr (res, d', g')"
  shows "open_files d' = open_files d \<and> dr_library d' = dr_library d \<and> dr_input d' = dr_input d \<and>
    dr_location d' = dr_location d"
  using import_keeps [OF _ assms] parser_tidy by simp



lemma directories_fuel [simp]:
  "current_directory_get lib \<noteq> Inl No_fuel" "push_current_directory p lib \<noteq> Inl No_fuel"
  "pop_current_directory lib \<noteq> Inl No_fuel"
  by (auto simp: current_directory_get_def push_current_directory_def pop_current_directory_def bindE_def
      split: list.splits if_splits)

lemma search_fuel [simp]: "search_in ex r f ps lib \<noteq> Inl No_fuel"
proof (induction ps)
  case (Cons p ps)
  then show ?case by (cases "current_directory lib") (simp_all add: current_directory_get_def Let_def)
qed simp

lemma find_file_fuel [simp]: "find_file ex p lib \<noteq> Inl No_fuel"
  using search_fuel [of ex "path_filename p" "path_filename p" "search_path lib" lib]
  by (auto simp: find_file_def find_in_search_path_def bindE_def current_directory_get_def Let_def split: list.splits)





text \<open>A file that is being imported is not imported again: the parser is not run, the result is
  null, and the driver holds an error that names both requests.\<close>

theorem import_recursive:
  assumes "find_file (exists_file P) (to_path P name) (dr_library d) = Inr dir" and "\<not> path_empty dir"
    and "open_files d (path_join dir (path_filename (to_path P name))) = Some first"
  shows "parse_import P name l (d, g) =
      Inr (None, d\<lparr>dr_error := recursive_inclusion P name l first (dr_error d)\<rparr>, g) \<and>
    error_bool (recursive_inclusion P name l first (dr_error d))"
  using assms error_status_bool [of err_failure]
  by (simp add: parse_import_def Let_def recursive_inclusion_def error_code_def)

text \<open>Surroundings for the examples: one file, \<open>/home/a\<close>, that parses to no declaration.\<close>

definition one_file :: surroundings where
  "one_file =
     \<lparr>run = (\<lambda>text (d, g). Inr (d\<lparr>dr_ast := Chunks_v (Some (ChunkList (header_at (gl_next g)) []))\<rparr>, g)),
      files = (\<lambda>f. if f = ''a'' then Some [] else None), std_in = [],
      exists_file = (\<lambda>p. p = \<lparr>absolute = True, parts = [''home'', ''a'']\<rparr>),
      cwd = \<lparr>absolute = True, parts = [''home'']\<rparr>, to_path = (\<lambda>s. \<lparr>absolute = False, parts = [s]\<rparr>),
      path_str = (\<lambda>p. List.last (parts p)), program_name = [], strerror = [], location_str = (\<lambda>_. []),
      scan_env = False, parse_env = False, replace_1st = (\<lambda>s _ _. s), prelude_text = [], ast_ptr = (\<lambda>_. []),
      tweast_ptr = (\<lambda>_. [])\<rparr>"

definition home_library :: file_library where
  "home_library = \<lparr>search_path = [], current_directory = [\<lparr>absolute = True, parts = [''home'']\<rparr>]\<rparr>"

lemma find_one_file: "find_file (exists_file one_file) (to_path one_file ''a'') home_library =
  Inr \<lparr>absolute = True, parts = [''home'']\<rparr>"
  by (simp add: find_file_def one_file_def home_library_def current_directory_get_def find_in_directory_def
      path_join_def path_filename_def path_parent_def Let_def)

lemmas home_defs = home_library_def driver_new_def path_empty_def empty_path_def path_join_def path_filename_def

text \<open>A reader that imports \<open>b\<close> where the text says so, and surroundings where \<open>/home/a\<close> does.\<close>

definition untouched :: "driver \<Rightarrow> touched" where
  "untouched d = \<lparr>t_ast = dr_ast d, t_error = dr_error d, t_location = dr_location d, t_input = dr_input d\<rparr>"

definition import_reader :: reader where
  "import_reader u = (\<lambda>(d, g).
     if u = ''import'' then Imports ''b'' location_start (untouched d) g
       (\<lambda>(res, d1, g1). Accepts ((untouched d1)\<lparr>t_ast := Chunks_v res\<rparr>) g1)
     else Accepts ((untouched d)\<lparr>t_ast := Chunks_v (Some (ChunkList (header_at (gl_next g)) []))\<rparr>) g)"

definition two_files :: surroundings where
  "two_files = one_file\<lparr>files := [''a'' \<mapsto> ''import'', ''b'' \<mapsto> []],
     exists_file := (\<lambda>p. p = \<lparr>absolute = True, parts = [''home'', ''a'']\<rparr> \<or> p = \<lparr>absolute = True, parts = [''home'', ''b'']\<rparr>)\<rparr>"

lemma two_files_sel [simp]:
  "files two_files ''a'' = Some ''import''" "files two_files ''b'' = Some []"
  "to_path two_files u = \<lparr>absolute = False, parts = [u]\<rparr>" "path_str two_files q = List.last (parts q)"
  by (simp_all add: two_files_def one_file_def)

lemma find_two_files:
  assumes "current_directory lib = \<lparr>absolute = True, parts = [''home'']\<rparr> # ds" and "f = ''a'' \<or> f = ''b''"
  shows "find_file (exists_file two_files) (to_path two_files f) lib = Inr \<lparr>absolute = True, parts = [''home'']\<rparr>"
  using assms
  by (auto simp: find_file_def two_files_def one_file_def current_directory_get_def find_in_directory_def
      path_join_def path_filename_def path_parent_def Let_def)

theorem import_restores_witness:
  "\<exists>res d'. parse_import (two_files\<lparr>run := parser_at import_reader two_files 2\<rparr>) ''a'' location_start
      (driver_new two_files home_library, \<lparr>gl_next = 3, gl_count = 0\<rparr>) = Inr (res, d', \<lparr>gl_next = 3, gl_count = 0\<rparr>) \<and>
    res \<noteq> None \<and> dr_library d' = home_library \<and> open_files d' = Map.empty"
proof -
  let ?P = "\<lambda>n. two_files\<lparr>run := parser_at import_reader two_files n\<rparr>"
  let ?d = "driver_new two_files home_library" and ?g = "\<lparr>gl_next = 3, gl_count = 0\<rparr>"
  note defs = Let_def home_defs push_current_directory_def import_file_def parse_file_def
    driver_parse_def input_text_def get_chunks_def pop_current_directory_def touch_def untouched_def
  have b: "parse_import (?P 1) ''b'' l (d, g) =
      Inr (Some (ChunkList (header_at (gl_next g)) []), d\<lparr>dr_ast := Exp_v None\<rparr>, g)"
    if "current_directory (dr_library d) = [home, home]" "open_files d \<lparr>absolute = True, parts = [''home'', ''b'']\<rparr> = None"
      "home = \<lparr>absolute = True, parts = [''home'']\<rparr>" for l d g home
    using that find_two_files [of "dr_library d" "[home]" "''b''"]
    by (simp add: parse_import_def defs)
      (simp add: one_file_def two_files_def import_reader_def defs fun_upd_idem)
  have two: "run (?P 2) = (\<lambda>u x. parses (import_reader u x) (parse_import (?P 1)) (fst x))"
    by (simp add: numeral_2_eq_2 del: One_nat_def) simp
  have "\<exists>res d'. parse_import (?P 2) ''a'' location_start (?d, ?g) = Inr (res, d', ?g) \<and> res \<noteq> None"
    using find_two_files [of home_library "[]" "''a''"]
    by (subst parse_import_def) (simp add: defs two import_reader_def b [unfolded One_nat_def] del: parser_at.simps)
  then obtain res d' where r: "parse_import (?P 2) ''a'' location_start (?d, ?g) = Inr (res, d', ?g)" "res \<noteq> None"
    by blast
  from import_restores [OF r(1)] r show ?thesis by (auto simp: driver_new_def)
qed



theorem import_recursive_witness:
  "\<exists>e. parse_import one_file ''a'' location_start
    ((driver_new one_file home_library)\<lparr>open_files :=
      [\<lparr>absolute = True, parts = [''home'', ''a'']\<rparr> \<mapsto> location_start]\<rparr>, \<lparr>gl_next = 3, gl_count = 0\<rparr>) =
    Inr (None, (driver_new one_file home_library)\<lparr>open_files :=
      [\<lparr>absolute = True, parts = [''home'', ''a'']\<rparr> \<mapsto> location_start], dr_error := e\<rparr>, \<lparr>gl_next = 3, gl_count = 0\<rparr>)"
proof -
  let ?d = "(driver_new one_file home_library)\<lparr>open_files :=
    [\<lparr>absolute = True, parts = [''home'', ''a'']\<rparr> \<mapsto> location_start]\<rparr>"
  have "open_files ?d (path_join \<lparr>absolute = True, parts = [''home'']\<rparr> (path_filename (to_path one_file ''a''))) =
    Some location_start" by (simp add: path_join_def path_filename_def one_file_def)
  with import_recursive [of one_file "''a''" ?d "\<lparr>absolute = True, parts = [''home'']\<rparr>" location_start location_start
      "\<lparr>gl_next = 3, gl_count = 0\<rparr>"]
    find_one_file show ?thesis by (auto simp: driver_new_def path_empty_def empty_path_def)
qed

end
