(* ===== verification/Desugar.thy ===== *)
theory Desugar
  imports Meaning_Trees Parse_Driver Type_Checker
begin

text \<open>
  \<^verbatim>\<open>src/desugar/desugar-visitor.*\<close> and the functions of \<^verbatim>\<open>libdesugar.hxx\<close> that use it: the cloner,
  where \<open>for\<close> loops become \<open>while\<close> loops, through a text that is parsed, and comparisons of strings become
  calls of primitives.  The two flags are \<open>desugar_for_p\<close> and \<open>desugar_string_cmp_p\<close>; the types of the
  tree are the table \<open>ty_of\<close> of the type checker and its store of types.
\<close>

section \<open>The model of the code\<close>

record desugar_state = clone_state +
  ds_count :: u32

record desugar_env =
  desugar_for_p :: bool
  desugar_string_cmp_p :: bool
  ds_types :: ty_store
  ds_type_of :: "addr \<rightharpoonup> addr"
  ds_parse :: surroundings

text \<open>\<open>*e.type_get() == String::instance()\<close>, when the flag is set.\<close>

definition compares_strings :: "desugar_env \<Rightarrow> ast \<Rightarrow> bool res" where
  "compares_strings D l =
     (if desugar_string_cmp_p D
      then (case ds_type_of D (addr_of l) of
              None \<Rightarrow> Inl Null_deref
            | Some a \<Rightarrow> ty_eq (ds_types D) a String_instance)
      else Inr False)"

definition ds_OpExp ::
  "desugar_env \<Rightarrow> desugar_state visit \<Rightarrow> header \<Rightarrow> ast \<Rightarrow> oper \<Rightarrow> ast \<Rightarrow> desugar_state \<Rightarrow> desugar_state res" where
  "ds_OpExp D visit h l oper r s =
     bindE (compares_strings D l) (\<lambda>strings.
     if \<not> strings then cl_OpExp visit h l oper r s
     else if oper = op_eq
     then bindE (recurse visit is_Exp l s) (\<lambda>(l', s1).
          bindE (recurse visit is_Exp r s1) (\<lambda>(r', s2).
            Inr (cl_new (new_CallExp (loc h) ''streq'' [l', r']) s2)))
     else bindE (recurse visit is_Exp l s) (\<lambda>(l', s1).
          bindE (recurse visit is_Exp r s1) (\<lambda>(r', s2).
            let (c, n) = new_CallExp (loc h) ''strcmp'' [l', r'] (cl_next s2);
                (z, m) = new_IntExp (loc h) 0 n
            in Inr (cl_new (new_OpExp (loc h) c oper z) (s2\<lparr>cl_next := m\<rparr>)))))"

text \<open>Inserting a tree in the text; parsing the text, whose tweast is then destroyed.\<close>

definition ds_insert :: "ast \<Rightarrow> string \<Rightarrow> tweast \<Rightarrow> desugar_state \<Rightarrow> tweast \<times> desugar_state" where
  "ds_insert e text tw s =
     (let (tw1, c) = tw_put_exp e (tw, ds_count s) in (tw_put text tw1, s\<lparr>ds_count := c\<rparr>))"

definition ds_parse_exp :: "desugar_env \<Rightarrow> tweast \<Rightarrow> desugar_state \<Rightarrow> desugar_state res" where
  "ds_parse_exp D tw s =
     bindE (parse_of_tweast (ds_parse D) tw \<lparr>gl_next = cl_next s, gl_count = ds_count s\<rparr>) (\<lambda>(t, tw1, g).
     bindE (get_exp t) (\<lambda>e.
     bindE (tw_delete tw1) (\<lambda>_.
       Inr (s\<lparr>result := e, cl_next := gl_next g, ds_count := gl_count g\<rparr>))))"

definition ds_ForExp ::
  "desugar_env \<Rightarrow> desugar_state visit \<Rightarrow> header \<Rightarrow> ast \<Rightarrow> ast \<Rightarrow> ast \<Rightarrow> desugar_state \<Rightarrow> desugar_state res" where
  "ds_ForExp D visit h v hi b s =
     (if \<not> desugar_for_p D then cl_ForExp visit h v hi b s
      else case v of
        VarDec _ i _ init \<Rightarrow>
          let in0 = tw_put '' let  var _lo := '' tw_default in
          bindE (recurse_opt visit is_Exp init s) (\<lambda>(lo', s1). case lo' of
            None \<Rightarrow> Inl Null_deref
          | Some lo \<Rightarrow>
              let (in1, s2) = ds_insert lo '' var _hi := '' in0 s1 in
              bindE (recurse visit is_Exp hi s2) (\<lambda>(hi', s3).
              let (in2, s4) = ds_insert hi' ('' var '' @ i @ '' := _lo  in  if '' @ i @
                    '' <= _hi then  while 1 do  ( '') in1 s3 in
              bindE (recurse visit is_Exp b s4) (\<lambda>(b', s5).
              let (in3, s6) = ds_insert b' (''; if '' @ i @ '' = _hi then  break;  '' @ i @ '' := '' @ i @
                    '' + 1  )  end '') in2 s5 in
              ds_parse_exp D in3 s6)))
      | _ \<Rightarrow> Inl Bad_cast)"

definition desugar_dispatch :: "desugar_env \<Rightarrow> desugar_state visit \<Rightarrow> desugar_state visit" where
  "desugar_dispatch D visit e s = (case e of
     OpExp h l oper r \<Rightarrow> ds_OpExp D visit h l oper r s
   | ForExp h v hi b \<Rightarrow> ds_ForExp D visit h v hi b s
   | _ \<Rightarrow> cloner_dispatch visit e s)"

lemma recurse_local: "f e = g e \<Longrightarrow> recurse f cls e = recurse g cls e"
  by (simp add: recurse_def fun_eq_iff)

lemma desugar_dispatch_local:
  assumes "\<And>c. size c < size e \<Longrightarrow> f c = g c"
  shows "desugar_dispatch D f e s = desugar_dispatch D g e s"
proof -
  have c: "cloner_dispatch f e s = cloner_dispatch g e s" using assms by (rule cloner_dispatch_local)
  show ?thesis
  proof (cases e)
    case (OpExp h l oper r)
    with assms have "recurse f is_Exp l = recurse g is_Exp l" "recurse f is_Exp r = recurse g is_Exp r"
      by (auto intro!: recurse_local)
    with OpExp c show ?thesis
      by (simp add: desugar_dispatch_def ds_OpExp_def cl_OpExp_def cong: if_cong)
  next
    case (ForExp h v hi b)
    then have r: "recurse f is_Exp hi = recurse g is_Exp hi" "recurse f is_Exp b = recurse g is_Exp b"
      using assms by (auto intro!: recurse_local)
    show ?thesis
    proof (cases "desugar_for_p D")
      case False
      with ForExp c show ?thesis by (simp add: desugar_dispatch_def ds_ForExp_def cloner_dispatch_def)
    next
      case True
      have "recurse_opt f is_Exp init = recurse_opt g is_Exp init" if "v = VarDec k i tn init" for k i tn init
        using assms ForExp that by (cases init) (auto simp: recurse_opt_def fun_eq_iff recurse_def)
      with True ForExp r show ?thesis
        by (cases v) (simp_all add: desugar_dispatch_def ds_ForExp_def Let_def cong: option.case_cong)
    qed
  qed (use c in \<open>simp_all add: desugar_dispatch_def\<close>)
qed

lemma desugar_dispatch_cong [fundef_cong]:
  assumes "D = D'" and "e = e'" and "s = s'" and "\<And>c s. size c < size e' \<Longrightarrow> f c s = g c s"
  shows "desugar_dispatch D f e s = desugar_dispatch D' g e' s'"
  unfolding assms(1-3) by (rule desugar_dispatch_local) (use assms(4) in \<open>auto simp: fun_eq_iff\<close>)

function desugar_visit :: "desugar_env \<Rightarrow> desugar_state visit" where
  "desugar_visit D e s = desugar_dispatch D (desugar_visit D) e s"
  by auto
termination by (relation "measure (\<lambda>(D, e, s). size e)") auto

declare desugar_visit.simps [simp del]

lemma desugar_visit_fun: "desugar_visit D e = desugar_dispatch D (desugar_visit D) e"
  by (rule ext) (rule desugar_visit.simps)

definition raw_desugar :: "desugar_env \<Rightarrow> ast \<Rightarrow> glob \<Rightarrow> (ast option \<times> glob) res" where
  "raw_desugar D tree g =
     bindE (desugar_visit D tree \<lparr>result = None, cl_next = gl_next g, ds_count = gl_count g\<rparr>) (\<lambda>s.
       Inr (case result s of Some r \<Rightarrow> if is_ChunkList r then Some r else None | None \<Rightarrow> None,
            \<lparr>gl_next = cl_next s, gl_count = ds_count s\<rparr>))"

text \<open>Binding and type checking the new tree; the types of the old one are still there.\<close>

definition bind_and_types_check ::
  "(location \<Rightarrow> string) \<Rightarrow> (addr option \<Rightarrow> string) \<Rightarrow> nat \<Rightarrow> ast \<Rightarrow> tc_state \<Rightarrow> (bind_state \<times> tc_state) res" where
  "bind_and_types_check show_loc show_ptr n tree s =
     bindE (launch_bind tree) (\<lambda>b.
     bindE (error_ice_on_error error_new) (\<lambda>_.
     bindE (types_check \<lparr>tc_root = tree, tc_defs = bindings b, loc_str = show_loc, ptr_str = show_ptr\<rparr> n s) (\<lambda>(e, t).
     bindE (error_ice_on_error (error_import e error_new)) (\<lambda>_. Inr (b, t)))))"

definition desugar ::
  "(location \<Rightarrow> string) \<Rightarrow> (addr option \<Rightarrow> string) \<Rightarrow> nat \<Rightarrow> desugar_env \<Rightarrow> ast \<Rightarrow> glob \<Rightarrow> tc_state
   \<Rightarrow> (ast \<times> glob \<times> bind_state \<times> tc_state) res" where
  "desugar show_loc show_ptr n D tree g s =
     bindE (raw_desugar D tree g) (\<lambda>(desugared, g1). case desugared of
       None \<Rightarrow> Inl Assertion
     | Some r \<Rightarrow> bindE (bind_and_types_check show_loc show_ptr n r s) (\<lambda>(b, t). Inr (r, g1, b, t)))"

section \<open>Without the flags\<close>

lemma desugar_dispatch_off:
  assumes "\<not> desugar_for_p D" and "\<not> desugar_string_cmp_p D"
  shows "desugar_dispatch D f e = cloner_dispatch f e"
  using assms by (intro ext, cases e)
    (simp_all add: desugar_dispatch_def ds_OpExp_def ds_ForExp_def compares_strings_def cloner_dispatch_def)

lemma desugar_clones:
  assumes "\<not> desugar_for_p D" and "\<not> desugar_string_cmp_p D"
  shows "wf_ast e \<Longrightarrow> list_all clonable (nodes e) \<Longrightarrow> clones (desugar_visit D) e"
proof (induction e rule: nodes.induct)
  case (1 e)
  have "clones (desugar_visit D) c" if "c \<in> set (subs e)" for c
    using 1 that nodes_trans [OF that] by (auto simp: wf_ast_unfold [of e] list_all_iff)
  moreover have "wf_node e" "clonable e"
    using "1.prems" by (auto simp: wf_ast_unfold [of e] nodes.simps [of e])
  ultimately have "clones (cloner_dispatch (desugar_visit D)) e" by (rule dispatch_clones)
  then show ?case using clones_cong desugar_visit_fun desugar_dispatch_off [OF assms] by metis
qed

section \<open>The text of a loop and its parse\<close>

definition for_text :: "symbol \<Rightarrow> u32 \<Rightarrow> u32 \<Rightarrow> u32 \<Rightarrow> string" where
  "for_text i a b c = '' let  var _lo := '' @ mm_show exp_name a @ '' var _hi := '' @ mm_show exp_name b @
     '' var '' @ i @ '' := _lo  in  if '' @ i @ '' <= _hi then  while 1 do  ( '' @ mm_show exp_name c @
     ''; if '' @ i @ '' = _hi then  break;  '' @ i @ '' := '' @ i @ '' + 1  )  end ''"

text \<open>
  What the code relies on of the scanner and the parser: for an identifier \<open>i\<close> they read that text as the
  tree it displays, take its three metavariables, and report no error.  The scanner refuses an integer above
  \<open>INT_MAX\<close>, so the numbers of the metavariables are below \<open>2 ^ 31\<close>.
\<close>

definition parses_for :: "surroundings \<Rightarrow> symbol set \<Rightarrow> bool" where
  "parses_for P ids \<longleftrightarrow> absolute (cwd P) \<and> (\<forall>i \<in> ids. \<forall>a b c lo hi body es inp d g.
     distinct [a, b, c] \<and> a < 2 ^ 31 \<and> b < 2 ^ 31 \<and> c < 2 ^ 31 \<and> is_Exp lo \<and> is_Exp hi \<and> is_Exp body \<and> enable_extensions_p d \<and>
     dr_input d = In_tweast (Tweast es [] [] [] [] inp) \<and> map_of es = [a \<mapsto> lo, b \<mapsto> hi, c \<mapsto> body] \<longrightarrow>
     (\<exists>d' n r. run P (for_text i a b c) (d, g) = Inr (d', g\<lparr>gl_next := n\<rparr>) \<and> dr_ast d' = Exp_v (Some r) \<and>
        dr_error d' = dr_error d \<and> dr_input d' = In_tweast (Tweast [] [] [] [] [] inp) \<and>
        is_Exp r \<and> bare r = bare (for_tree (header_at 0) i lo hi body)))"

lemma flatten_flat: "flatten f (Tweast es vs ns cs [] i) c = (Tweast es vs ns cs [] i, c)"
  by (subst flatten.simps) (simp add: set_tweasts_def tw_clear_def)

lemma parse_for_text:
  assumes "parses_for P ids" and "i \<in> ids" and "distinct [a, b, c]" and "a < 2 ^ 31" "b < 2 ^ 31" "c < 2 ^ 31"
    and "is_Exp lo" "is_Exp hi" "is_Exp body" and "map_of es = [a \<mapsto> lo, b \<mapsto> hi, c \<mapsto> body]" and "buffer inp = for_text i a b c"
  shows "\<exists>n r. parse_of_tweast P (Tweast es [] [] [] [] inp) g =
      Inr (Exp_v (Some r), Tweast [] [] [] [] [] inp, g\<lparr>gl_next := n\<rparr>) \<and> is_Exp r \<and>
    bare r = bare (for_tree (header_at 0) i lo hi body)"
proof -
  from assms(1) obtain lib where lib: "library_new (cwd P) = Inr lib"
    by (auto simp: parses_for_def library_new_def push_cwd_def push_current_directory_def)
  let ?d = "(driver_new P lib)\<lparr>enable_object_extensions_p := True, enable_extensions_p := True,
    dr_input := In_tweast (Tweast es [] [] [] [] inp), dr_location := location_start\<rparr>"
  have "enable_extensions_p ?d" "dr_input ?d = In_tweast (Tweast es [] [] [] [] inp)" by simp_all
  with assms obtain d' n r where
    run: "run P (for_text i a b c) (?d, g) = Inr (d', g\<lparr>gl_next := n\<rparr>)" "dr_ast d' = Exp_v (Some r)"
      "dr_error d' = dr_error ?d" "dr_input d' = In_tweast (Tweast [] [] [] [] [] inp)" and
    r: "is_Exp r" "bare r = bare (for_tree (header_at 0) i lo hi body)"
    unfolding parses_for_def by blast
  have "error_bool (dr_error d') = False" using run(3) by (simp add: driver_new_def error_bool_def error_new_def error_code_def)
  with run lib have "parse_of_tweast P (Tweast es [] [] [] [] inp) g =
      Inr (Exp_v (Some r), Tweast [] [] [] [] [] inp, g\<lparr>gl_next := n\<rparr>)"
    by (simp add: parse_of_tweast_def parse_tweast_def parse_input_def flatten_flat driver_parse_def Let_def
        input_text_def tw_input_get_def assms(11) input_tweast_def)
  with r show ?thesis by blast
qed

text \<open>The tweast of a loop.\<close>

definition for_tweast :: "symbol \<Rightarrow> u32 \<Rightarrow> ast \<Rightarrow> u32 \<Rightarrow> ast \<Rightarrow> u32 \<Rightarrow> ast \<Rightarrow> tweast" where
  "for_tweast i a lo b hi c body =
     (let put1 = \<lambda>e k t tw. tw_put t (fst (tw_put_exp e (tw, k)));
          in0 = tw_put '' let  var _lo := '' tw_default;
          in1 = put1 lo a '' var _hi := '' in0;
          in2 = put1 hi b ('' var '' @ i @ '' := _lo  in  if '' @ i @ '' <= _hi then  while 1 do  ( '') in1
      in put1 body c (''; if '' @ i @ '' = _hi then  break;  '' @ i @ '' := '' @ i @ '' + 1  )  end '') in2)"

lemma for_tweast_parts:
  assumes "distinct [a, b, c]"
  shows "\<exists>es inp. for_tweast i a lo b hi c body = Tweast es [] [] [] [] inp \<and>
    map_of es = [a \<mapsto> lo, b \<mapsto> hi, c \<mapsto> body] \<and> buffer inp = for_text i a b c"
proof -
  define in0 where "in0 = tw_put '' let  var _lo := '' tw_default"
  define put1 where "put1 = (\<lambda>e k t tw. tw_put t (fst (tw_put_exp e (tw, k))))"
  have put1: "tw_ok (put1 e k t tw) \<and> tw_input_get (put1 e k t tw) = tw_input_get tw @ mm_show exp_name k @ t \<and>
      map_of (tw_exps (put1 e k t tw)) = (map_of (tw_exps tw))(k \<mapsto> e) \<and> tw_vars (put1 e k t tw) = tw_vars tw \<and>
      tw_nametys (put1 e k t tw) = tw_nametys tw \<and> tw_chunks (put1 e k t tw) = tw_chunks tw \<and>
      tw_tweasts (put1 e k t tw) = tw_tweasts tw" if "tw_ok tw" for e k t tw
    using that tw_put_exp_ok [OF that, of e k] tw_put_ok [of "fst (tw_put_exp e (tw, k))" t]
    by (simp add: put1_def put_map tw_ok_def)
  have in0: "tw_ok in0" "tw_input_get in0 = '' let  var _lo := ''" "tw_exps in0 = []" "tw_vars in0 = []"
    "tw_nametys in0 = []" "tw_chunks in0 = []" "tw_tweasts in0 = []"
    using tw_put_ok [OF tw_ok_default(1)] tw_ok_default(2) by (simp_all add: in0_def) (simp_all add: tw_default_def tw_new_def)
  define tw where "tw = for_tweast i a lo b hi c body"
  have tw: "tw = put1 body c (''; if '' @ i @ '' = _hi then  break;  '' @ i @ '' := '' @ i @ '' + 1  )  end '')
    (put1 hi b ('' var '' @ i @ '' := _lo  in  if '' @ i @ '' <= _hi then  while 1 do  ( '')
      (put1 lo a '' var _hi := '' in0))"
    by (simp only: tw_def for_tweast_def in0_def put1_def Let_def)
  have "tw_input_get tw = for_text i a b c" "map_of (tw_exps tw) = [a \<mapsto> lo, b \<mapsto> hi, c \<mapsto> body]"
    "tw_vars tw = []" "tw_nametys tw = []" "tw_chunks tw = []" "tw_tweasts tw = []"
    unfolding tw using put1 in0 by (simp_all add: for_text_def)
  then show ?thesis unfolding tw_def [symmetric] tw_input_get_def by (cases tw) simp
qed

section \<open>The meaning of the desugared tree\<close>

text \<open>The primitives of strings, as \<^verbatim>\<open>src/src/translate\<close> and the runtime give them: \<open>strcmp\<close> is that of C.\<close>

definition string_prims :: "'w prims \<Rightarrow> bool" where
  "string_prims prims \<longleftrightarrow> (\<forall>a b w. prims ''streq'' [StrV a, StrV b] w = Some (IntV (truth (a = b)), w) \<and>
     (\<exists>k. prims ''strcmp'' [StrV a, StrV b] w = Some (IntV k, w) \<and>
       (sint k < 0 \<longleftrightarrow> str_less a b) \<and> (k = 0 \<longleftrightarrow> a = b)))"

definition str_valued :: "'w prims \<Rightarrow> ast \<Rightarrow> bool" where
  "str_valued prims e \<longleftrightarrow> (\<forall>s a s1. meaning prims e s = Some (Val a s1) \<longrightarrow> (\<exists>t. a = StrV t))"

definition comparison :: "oper \<Rightarrow> bool" where
  "comparison oper \<longleftrightarrow> oper \<in> {op_eq, op_ne, op_lt, op_le, op_gt, op_ge}"

text \<open>The declaration of a variable in a \<open>let\<close>.\<close>

definition decl_of :: "header \<times> header \<times> symbol \<times> ast \<Rightarrow> ast" where
  "decl_of = (\<lambda>(k, m, x, e). VarChunk k [VarDec m x None (Some e)])"

text \<open>
  The programs considered: those \<open>eval\<close> knows, as the checks before leave them.  The types of operands are
  those of their values; the bounds of a loop are integers, its index is not assigned, and the names of the
  auxiliary variables, that the scanner reserves, are not used; \<open>ids\<close> are the identifiers.
\<close>

inductive core :: "desugar_env \<Rightarrow> 'w prims \<Rightarrow> symbol set \<Rightarrow> ast \<Rightarrow> bool" for D prims ids where
  core_IntExp: "core D prims ids (IntExp h w)"
| core_StringExp: "core D prims ids (StringExp h t)"
| core_SimpleVar: "core D prims ids (SimpleVar h x)"
| core_BreakExp: "core D prims ids (BreakExp h)"
| core_CallExp: "\<forall>e \<in> set es. core D prims ids e \<Longrightarrow> core D prims ids (CallExp h f es)"
| core_SeqExp: "\<forall>e \<in> set es. core D prims ids e \<Longrightarrow> core D prims ids (SeqExp h es)"
| core_AssignExp: "core D prims ids e \<Longrightarrow> core D prims ids (AssignExp h (SimpleVar k x) e)"
| core_IfExp: "core D prims ids c \<Longrightarrow> core D prims ids t \<Longrightarrow> core D prims ids f \<Longrightarrow> core D prims ids (IfExp h c t f)"
| core_WhileExp: "core D prims ids c \<Longrightarrow> core D prims ids b \<Longrightarrow> core D prims ids (WhileExp h c b)"
| core_LetExp: "\<forall>(k, m, x, e) \<in> set ds. core D prims ids e \<Longrightarrow> core D prims ids b \<Longrightarrow>
    core D prims ids (LetExp h (ChunkList hc (map decl_of ds)) b)"
| core_OpExp: "core D prims ids l \<Longrightarrow> core D prims ids r \<Longrightarrow> compares_strings D l = Inr strings \<Longrightarrow>
    (strings \<Longrightarrow> str_valued prims l \<and> str_valued prims r \<and> comparison oper) \<Longrightarrow> core D prims ids (OpExp h l oper r)"
| core_ForExp: "core D prims ids lo \<Longrightarrow> core D prims ids hi \<Longrightarrow> core D prims ids b \<Longrightarrow>
    int_valued prims lo \<Longrightarrow> int_valued prims hi \<Longrightarrow> \<not> free lo_name hi \<Longrightarrow> \<not> free lo_name b \<Longrightarrow> \<not> free hi_name b \<Longrightarrow>
    \<not> assigns i b \<Longrightarrow> i \<in> ids \<Longrightarrow> i \<noteq> lo_name \<Longrightarrow> i \<noteq> hi_name \<Longrightarrow>
    core D prims ids (ForExp h (VarDec k i None (Some lo)) hi b)"

text \<open>The number of metavariables the visit of a tree takes.\<close>

definition is_loop :: "ast \<Rightarrow> bool" where
  "is_loop e = (case e of ForExp _ _ _ _ \<Rightarrow> True | _ \<Rightarrow> False)"

definition fors :: "ast \<Rightarrow> nat" where
  "fors e = length (filter is_loop (nodes e))"

definition metas :: "desugar_env \<Rightarrow> ast \<Rightarrow> nat" where
  "metas D e = (if desugar_for_p D then 3 * fors e else 0)"

text \<open>What a visit gives while the counter of metavariables is small: an expression with the meaning of the one
  visited.\<close>

definition keeps_meaning :: "desugar_env \<Rightarrow> 'w prims \<Rightarrow> ast \<Rightarrow> bool" where
  "keeps_meaning D prims e \<longleftrightarrow> (\<forall>s. unat (ds_count s) + metas D e \<le> 2 ^ 31 \<longrightarrow>
     (\<exists>t r. desugar_visit D e s = Inr t \<and> result t = Some r \<and> is_Exp r \<and>
       meaning prims r = meaning prims e \<and> unat (ds_count t) = unat (ds_count s) + metas D e))"

lemma recurse_meaning:
  assumes "keeps_meaning D prims e" and "unat (ds_count s) + metas D e \<le> 2 ^ 31"
  shows "\<exists>t r. recurse (desugar_visit D) is_Exp e s = Inr (r, t) \<and> is_Exp r \<and> meaning prims r = meaning prims e \<and>
    unat (ds_count t) = unat (ds_count s) + metas D e"
proof -
  from assms obtain t r where "desugar_visit D e s = Inr t" "result t = Some r" "is_Exp r"
    "meaning prims r = meaning prims e" "unat (ds_count t) = unat (ds_count s) + metas D e"
    unfolding keeps_meaning_def by blast
  then show ?thesis by (auto simp: recurse_def)
qed

lemma collection_meaning:
  assumes "\<forall>e \<in> set es. keeps_meaning D prims e" and "unat (ds_count s) + sum_list (map (metas D) es) \<le> 2 ^ 31"
  shows "\<exists>t rs. recurse_collection (desugar_visit D) is_Exp es s = Inr (rs, t) \<and>
    list_all2 (\<lambda>r e. meaning prims r = meaning prims e) rs es \<and>
    unat (ds_count t) = unat (ds_count s) + sum_list (map (metas D) es)"
  using assms
proof (induction es arbitrary: s)
  case (Cons e es)
  from Cons.prems recurse_meaning [of D prims e s] obtain t r where
    r: "recurse (desugar_visit D) is_Exp e s = Inr (r, t)" "meaning prims r = meaning prims e"
    "unat (ds_count t) = unat (ds_count s) + metas D e" by auto
  from Cons.IH [of t] Cons.prems r(3) obtain u rs where
    "recurse_collection (desugar_visit D) is_Exp es t = Inr (rs, u)"
    "list_all2 (\<lambda>r e. meaning prims r = meaning prims e) rs es"
    "unat (ds_count u) = unat (ds_count t) + sum_list (map (metas D) es)" by auto
  with r show ?case by (auto simp: add.assoc)
qed simp

lemma fors_subs: "fors e = of_bool (is_loop e) + sum_list (map fors (subs e))"
proof -
  have "length (filter is_loop (concat (map nodes xs))) = sum_list (map fors xs)" for xs
    by (induction xs) (simp_all add: fors_def)
  then show ?thesis by (simp add: fors_def nodes.simps [of e])
qed

lemma metas_subs:
  "metas D e = (if is_loop e \<and> desugar_for_p D then 3 else 0) + sum_list (map (metas D) (subs e))"
proof -
  have "sum_list (map (metas D) xs) = (if desugar_for_p D then 3 * sum_list (map fors xs) else 0)" for xs
    by (induction xs) (simp_all add: metas_def)
  then show ?thesis by (simp add: metas_def fors_subs [of e])
qed

lemma cl_new_count [simp]: "ds_count (cl_new a s) = ds_count s" "result (cl_new a s) = Some (fst (a (cl_next s)))"
  by (cases "a (cl_next s)"; simp add: cl_new_def)+

text \<open>Comparisons of strings.\<close>

lemma compared_strcmp:
  "sint k < 0 \<longleftrightarrow> str_less a b \<Longrightarrow> k = 0 \<longleftrightarrow> a = b \<Longrightarrow> comparison oper \<Longrightarrow>
   int_op oper k 0 = compared oper (str_less a b) (a = b)"
  by (auto simp: int_op_def comparison_def compared_def)

lemma streq_meaning:
  assumes "string_prims prims" and "str_valued prims l" "str_valued prims r"
    and eq: "meaning prims l' = meaning prims l" "meaning prims r' = meaning prims r"
  shows "meaning prims (CallExp h ''streq'' [l', r']) = meaning prims (OpExp k l op_eq r)"
proof
  fix s
  show "meaning prims (CallExp h ''streq'' [l', r']) s = meaning prims (OpExp k l op_eq r) s"
  proof (cases "meaning prims l s")
    case (Some u)
    show ?thesis
    proof (cases u)
      case (Val a s1)
      with Some assms(2) obtain t where a: "a = StrV t" unfolding str_valued_def by blast
      show ?thesis
      proof (cases "meaning prims r s1")
        case s2: (Some w)
        show ?thesis
        proof (cases w)
          case (Val b s2)
          with s2 assms(3) obtain t' where b: "b = StrV t'" unfolding str_valued_def by blast
          from assms(1) have "prims ''streq'' [StrV t, StrV t'] (world s2) = Some (IntV (truth (t = t')), world s2)"
            unfolding string_prims_def by blast
          then show ?thesis
            by (simp add: meaning_call meaning_compounds(3) eq Some \<open>u = Val a s1\<close> a s2 Val b call_prim_def
              op_value_def compared_def)
        qed (simp add: meaning_call meaning_compounds(3) eq Some \<open>u = Val a s1\<close> s2)
      qed (simp add: meaning_call meaning_compounds(3) eq Some Val)
    qed (simp add: meaning_call meaning_compounds(3) eq Some)
  qed (simp add: meaning_call meaning_compounds(3) eq)
qed

lemma strcmp_meaning:
  assumes "string_prims prims" and "str_valued prims l" "str_valued prims r" and "comparison oper"
    and eq: "meaning prims l' = meaning prims l" "meaning prims r' = meaning prims r"
  shows "meaning prims (OpExp h (CallExp h1 ''strcmp'' [l', r']) oper (IntExp h2 0)) = meaning prims (OpExp k l oper r)"
proof
  fix s
  show "meaning prims (OpExp h (CallExp h1 ''strcmp'' [l', r']) oper (IntExp h2 0)) s = meaning prims (OpExp k l oper r) s"
  proof (cases "meaning prims l s")
    case (Some u)
    show ?thesis
    proof (cases u)
      case (Val a s1)
      with Some assms(2) obtain t where a: "a = StrV t" unfolding str_valued_def by blast
      show ?thesis
      proof (cases "meaning prims r s1")
        case s2: (Some w)
        show ?thesis
        proof (cases w)
          case (Val b s2)
          with s2 assms(3) obtain t' where b: "b = StrV t'" unfolding str_valued_def by blast
          from assms(1) obtain c where "prims ''strcmp'' [StrV t, StrV t'] (world s2) = Some (IntV c, world s2)"
            "sint c < 0 \<longleftrightarrow> str_less t t'" "c = 0 \<longleftrightarrow> t = t'"
            unfolding string_prims_def by meson
          with compared_strcmp [of c t t' oper] assms(4) show ?thesis
            by (simp add: meaning_call meaning_compounds(3) meaning_parts eq Some \<open>u = Val a s1\<close> a s2 Val b
              call_prim_def op_value_def)
        qed (simp add: meaning_call meaning_compounds(3) eq Some \<open>u = Val a s1\<close> s2)
      qed (simp add: meaning_call meaning_compounds(3) eq Some Val)
    qed (simp add: meaning_call meaning_compounds(3) eq Some)
  qed (simp add: meaning_call meaning_compounds(3) eq)
qed

text \<open>The visits of the constructs.\<close>

lemma desugar_runs:
  "desugar_visit D (IntExp h w) s = cl_IntExp h w s"
  "desugar_visit D (StringExp h t) s = cl_StringExp h t s"
  "desugar_visit D (SimpleVar h x) s = cl_SimpleVar h x s"
  "desugar_visit D (BreakExp h) s = cl_BreakExp h s"
  "desugar_visit D (CallExp h f es) s = cl_CallExp (desugar_visit D) h f es s"
  "desugar_visit D (SeqExp h es) s = cl_SeqExp (desugar_visit D) h es s"
  "desugar_visit D (AssignExp h v e) s = cl_AssignExp (desugar_visit D) h v e s"
  "desugar_visit D (IfExp h c l r) s = cl_IfExp (desugar_visit D) h c l r s"
  "desugar_visit D (WhileExp h c b) s = cl_WhileExp (desugar_visit D) h c b s"
  "desugar_visit D (LetExp h cs b) s = cl_LetExp (desugar_visit D) h cs b s"
  "desugar_visit D (ChunkList h xs) s = cl_ChunkList (desugar_visit D) h xs s"
  "desugar_visit D (VarChunk h xs) s = cl_VarChunk (desugar_visit D) h xs s"
  "desugar_visit D (VarDec h x tn ini) s = cl_VarDec (desugar_visit D) h x tn ini s"
  "desugar_visit D (OpExp h l oper r) s = ds_OpExp D (desugar_visit D) h l oper r s"
  "desugar_visit D (ForExp h v hi b) s = ds_ForExp D (desugar_visit D) h v hi b s"
  by (subst desugar_visit.simps; simp add: desugar_dispatch_def cloner_dispatch_def)+

lemma keeps_leaves:
  "keeps_meaning D prims (IntExp h w)" "keeps_meaning D prims (StringExp h t)"
  "keeps_meaning D prims (SimpleVar h x)" "keeps_meaning D prims (BreakExp h)"
  by (simp_all add: keeps_meaning_def desugar_runs cl_defs new_defs is_class_defs metas_subs is_loop_def fun_eq_iff
      meaning_parts meaning_string)

lemma keeps_lists:
  assumes "\<forall>e \<in> set es. keeps_meaning D prims e"
  shows "keeps_meaning D prims (CallExp h f es)" "keeps_meaning D prims (SeqExp h es)"
proof -
  have "\<exists>t r. desugar_visit D (CallExp h f es) s = Inr t \<and> result t = Some r \<and> is_Exp r \<and>
      meaning prims r = meaning prims (CallExp h f es) \<and> unat (ds_count t) = unat (ds_count s) + metas D (CallExp h f es)" and
    "\<exists>t r. desugar_visit D (SeqExp h es) s = Inr t \<and> result t = Some r \<and> is_Exp r \<and>
      meaning prims r = meaning prims (SeqExp h es) \<and> unat (ds_count t) = unat (ds_count s) + metas D (SeqExp h es)"
    if "unat (ds_count s) + sum_list (map (metas D) es) \<le> 2 ^ 31" for s
  proof -
    from collection_meaning [OF assms that] obtain u rs where
      "recurse_collection (desugar_visit D) is_Exp es s = Inr (rs, u)"
      "list_all2 (\<lambda>r e. meaning prims r = meaning prims e) rs es"
      "unat (ds_count u) = unat (ds_count s) + sum_list (map (metas D) es)" by blast
    then show "\<exists>t r. desugar_visit D (CallExp h f es) s = Inr t \<and> result t = Some r \<and> is_Exp r \<and>
      meaning prims r = meaning prims (CallExp h f es) \<and> unat (ds_count t) = unat (ds_count s) + metas D (CallExp h f es)"
      "\<exists>t r. desugar_visit D (SeqExp h es) s = Inr t \<and> result t = Some r \<and> is_Exp r \<and>
      meaning prims r = meaning prims (SeqExp h es) \<and> unat (ds_count t) = unat (ds_count s) + metas D (SeqExp h es)"
      by (simp_all add: desugar_runs cl_CallExp_def cl_SeqExp_def new_defs is_class_defs metas_subs [of D "CallExp h f es"]
        metas_subs [of D "SeqExp h es"] is_loop_def meaning_congs(1,2))
  qed
  then show "keeps_meaning D prims (CallExp h f es)" "keeps_meaning D prims (SeqExp h es)"
    unfolding keeps_meaning_def
    by (simp_all add: metas_subs [of D "CallExp h f es"] metas_subs [of D "SeqExp h es"] is_loop_def)
qed

text \<open>A visit after which \<open>k\<close> trees are counted gives an expression that means what \<open>e\<close> does.\<close>

definition visits_to :: "'w prims \<Rightarrow> ast \<Rightarrow> nat \<Rightarrow> desugar_state res \<Rightarrow> bool" where
  "visits_to prims e c x \<longleftrightarrow> (\<exists>t r. x = Inr t \<and> result t = Some r \<and> is_Exp r \<and>
     meaning prims r = meaning prims e \<and> unat (ds_count t) = c)"

lemma keepsI:
  "(\<And>s. unat (ds_count s) + metas D e \<le> 2 ^ 31 \<Longrightarrow>
     visits_to prims e (unat (ds_count s) + metas D e) (desugar_visit D e s)) \<Longrightarrow> keeps_meaning D prims e"
  by (simp add: keeps_meaning_def visits_to_def)

lemma bind_meaning:
  assumes "keeps_meaning D prims c" and "unat (ds_count s) + metas D c \<le> 2 ^ 31"
    and "\<And>r t. is_Exp r \<Longrightarrow> meaning prims r = meaning prims c \<Longrightarrow>
      unat (ds_count t) = unat (ds_count s) + metas D c \<Longrightarrow> visits_to prims e n (k r t)"
  shows "visits_to prims e n (bindE (recurse (desugar_visit D) is_Exp c s) (\<lambda>(r, t). k r t))"
  using recurse_meaning [OF assms(1,2)] assms(3) by fastforce

lemma new_meaning:
  "is_Exp (fst (a (cl_next s))) \<Longrightarrow> meaning prims (fst (a (cl_next s))) = meaning prims e \<Longrightarrow> unat (ds_count s) = n \<Longrightarrow>
   visits_to prims e n (Inr (cl_new a s))"
  by (simp add: visits_to_def)

lemma keeps_assign_exp:
  assumes "keeps_meaning D prims e"
  shows "keeps_meaning D prims (AssignExp h (SimpleVar k x) e)"
proof (rule keepsI)
  fix s :: desugar_state
  assume room: "unat (ds_count s) + metas D (AssignExp h (SimpleVar k x) e) \<le> 2 ^ 31"
  obtain v t where v: "recurse (desugar_visit D) is_Var (SimpleVar k x) s = Inr (v, t)" "\<exists>m. v = SimpleVar m x"
    "ds_count t = ds_count s"
    by (simp add: recurse_def desugar_runs cl_SimpleVar_def new_defs is_class_defs)
  with room show "visits_to prims (AssignExp h (SimpleVar k x) e) (unat (ds_count s) + metas D (AssignExp h (SimpleVar k x) e))
      (desugar_visit D (AssignExp h (SimpleVar k x) e) s)"
    by (simp add: desugar_runs cl_AssignExp_def)
      (intro bind_meaning [OF assms] new_meaning;
        auto simp: new_defs is_class_defs metas_subs [of D "AssignExp _ _ _"] metas_subs [of D "SimpleVar _ _"]
          is_loop_def intro: meaning_congs)
qed

lemma keeps_if_exp:
  assumes "keeps_meaning D prims c" "keeps_meaning D prims t" "keeps_meaning D prims f"
  shows "keeps_meaning D prims (IfExp h c t f)"
  by (rule keepsI, simp add: desugar_runs cl_IfExp_def)
    (intro bind_meaning [OF assms(1)] bind_meaning [OF assms(2)] bind_meaning [OF assms(3)] new_meaning;
      auto simp: new_defs is_class_defs metas_subs [of D "IfExp _ _ _ _"] is_loop_def intro: meaning_congs)

lemma keeps_while_exp:
  assumes "keeps_meaning D prims c" "keeps_meaning D prims b"
  shows "keeps_meaning D prims (WhileExp h c b)"
  by (rule keepsI, simp add: desugar_runs cl_WhileExp_def)
    (intro bind_meaning [OF assms(1)] bind_meaning [OF assms(2)] new_meaning;
      auto simp: new_defs is_class_defs metas_subs [of D "WhileExp _ _ _"] is_loop_def intro: meaning_while_cong)

lemma keeps_op_exp:
  assumes "keeps_meaning D prims l" "keeps_meaning D prims r" and "compares_strings D l = Inr strings"
    and strings: "strings \<Longrightarrow> string_prims prims \<and> str_valued prims l \<and> str_valued prims r \<and> comparison oper"
  shows "keeps_meaning D prims (OpExp h l oper r)"
proof (cases strings)
  case False
  with assms(3) show ?thesis
    by (intro keepsI, simp add: desugar_runs ds_OpExp_def cl_OpExp_def)
      (intro bind_meaning [OF assms(1)] bind_meaning [OF assms(2)] new_meaning;
        auto simp: new_defs is_class_defs metas_subs [of D "OpExp _ _ _ _"] is_loop_def intro: meaning_congs)
next
  case True
  with strings have p: "string_prims prims" "str_valued prims l" "str_valued prims r" "comparison oper" by simp_all
  show ?thesis
  proof (cases "oper = op_eq")
    case eq: True
    with assms(3) True show ?thesis
      by (intro keepsI, simp add: desugar_runs ds_OpExp_def)
        (intro bind_meaning [OF assms(1)] bind_meaning [OF assms(2)] new_meaning;
          auto simp: new_defs is_class_defs metas_subs [of D "OpExp _ _ _ _"] is_loop_def
            intro: streq_meaning [OF p(1-3)])
  next
    case False
    with assms(3) True show ?thesis
      by (intro keepsI, simp add: desugar_runs ds_OpExp_def new_CallExp_def new_IntExp_def alloc_def Let_def)
        (intro bind_meaning [OF assms(1)] bind_meaning [OF assms(2)] new_meaning;
          auto simp: new_OpExp_def alloc_def is_class_defs metas_subs [of D "OpExp _ _ _ _"] is_loop_def
            intro: strcmp_meaning [OF p])
  qed
qed

lemma metas_decl [simp]: "metas D (decl_of (k, m, x, e)) = metas D e"
  by (simp add: decl_of_def metas_subs [of D "VarChunk _ _"] metas_subs [of D "VarDec _ _ _ _"] is_loop_def)

lemma decl_meaning:
  assumes "keeps_meaning D prims e" and "unat (ds_count s) + metas D e \<le> 2 ^ 31"
  shows "\<exists>t r e'. recurse (desugar_visit D) is_Chunk (decl_of (k, m, x, e)) s = Inr (r, t) \<and>
    var_of r = Some (x, e') \<and> meaning prims e' = meaning prims e \<and> unat (ds_count t) = unat (ds_count s) + metas D e"
proof -
  from recurse_meaning [OF assms] obtain t r where
    r: "recurse (desugar_visit D) is_Exp e s = Inr (r, t)" "meaning prims r = meaning prims e"
      "unat (ds_count t) = unat (ds_count s) + metas D e" by blast
  then have "recurse (desugar_visit D) is_VarDec (VarDec m x None (Some e)) s =
      Inr (VarDec \<lparr>adr = cl_next t, loc = loc m\<rparr> x None (Some r), cl_new (new_VarDec (loc m) x None (Some r)) t)"
    by (simp add: recurse_def [of _ is_VarDec] desugar_runs cl_VarDec_def recurse_opt_def new_defs is_class_defs)
  with r show ?thesis
    by (simp add: recurse_def [of _ is_Chunk] decl_of_def desugar_runs cl_VarChunk_def cl_chunk_visit_def
        new_defs is_class_defs var_of_def)
qed

lemma decls_meaning:
  assumes "\<forall>(k, m, x, e) \<in> set ds. keeps_meaning D prims e"
    and "unat (ds_count s) + sum_list (map (\<lambda>d. metas D (decl_of d)) ds) \<le> 2 ^ 31"
  shows "\<exists>t rs. recurse_collection (desugar_visit D) is_Chunk (map decl_of ds) s = Inr (rs, t) \<and>
    list_all2 (\<lambda>r (k, m, x, e). \<exists>e'. var_of r = Some (x, e') \<and> meaning prims e' = meaning prims e) rs ds \<and>
    unat (ds_count t) = unat (ds_count s) + sum_list (map (\<lambda>d. metas D (decl_of d)) ds)"
  using assms
proof (induction ds arbitrary: s)
  case (Cons d ds)
  obtain k m x e where d: "d = (k, m, x, e)" by (cases d)
  with Cons.prems decl_meaning [of D prims e s k m x] obtain t r e' where
    r: "recurse (desugar_visit D) is_Chunk (decl_of d) s = Inr (r, t)" "var_of r = Some (x, e')"
    "meaning prims e' = meaning prims e" "unat (ds_count t) = unat (ds_count s) + metas D e" by auto
  from Cons.IH [of t] Cons.prems r(4) d obtain u rs where
    "recurse_collection (desugar_visit D) is_Chunk (map decl_of ds) t = Inr (rs, u)"
    "list_all2 (\<lambda>r (k, m, x, e). \<exists>e'. var_of r = Some (x, e') \<and> meaning prims e' = meaning prims e) rs ds"
    "unat (ds_count u) = unat (ds_count t) + sum_list (map (\<lambda>d. metas D (decl_of d)) ds)" by auto
  with r d show ?case by (auto simp: add.assoc)
qed simp

lemma let_vars_decls: "let_vars (ChunkList h (map decl_of ds)) = Some (map (\<lambda>(k, m, x, e). (x, e)) ds)"
  by (auto simp: let_vars_def decl_of_def var_of_def list_all_iff)

lemma let_vars_visited:
  assumes "list_all2 (\<lambda>r (k, m, x, e). \<exists>e'. var_of r = Some (x, e') \<and> meaning prims e' = meaning prims e) rs ds"
  shows "\<exists>vs. let_vars (ChunkList h rs) = Some vs \<and>
    list_all2 (\<lambda>r e. fst r = fst e \<and> meaning prims (snd r) = meaning prims (snd e)) vs (map (\<lambda>(k, m, x, e). (x, e)) ds)"
proof -
  have "list_all (\<lambda>c. var_of c \<noteq> None) rs"
    using assms by (induction rs ds rule: list_all2_induct) auto
  moreover have "list_all2 (\<lambda>r e. fst r = fst e \<and> meaning prims (snd r) = meaning prims (snd e))
    (map (\<lambda>c. the (var_of c)) rs) (map (\<lambda>(k, m, x, e). (x, e)) ds)"
    using assms by (induction rs ds rule: list_all2_induct) auto
  ultimately show ?thesis by (simp add: let_vars_def)
qed

lemma keeps_let_exp:
  assumes "\<forall>(k, m, x, e) \<in> set ds. keeps_meaning D prims e" and "keeps_meaning D prims b"
  shows "keeps_meaning D prims (LetExp h (ChunkList hc (map decl_of ds)) b)"
proof (rule keepsI)
  fix s :: desugar_state
  assume room: "unat (ds_count s) + metas D (LetExp h (ChunkList hc (map decl_of ds)) b) \<le> 2 ^ 31"
  have metas: "metas D (LetExp h (ChunkList hc (map decl_of ds)) b) =
      sum_list (map (\<lambda>d. metas D (decl_of d)) ds) + metas D b"
    by (simp add: metas_subs [of D "LetExp _ _ _"] metas_subs [of D "ChunkList _ _"] is_loop_def comp_def)
  from recurse_meaning [OF assms(2), of s] room metas obtain t b' where b: "recurse (desugar_visit D) is_Exp b s = Inr (b', t)"
    "meaning prims b' = meaning prims b" "unat (ds_count t) = unat (ds_count s) + metas D b" by auto
  from decls_meaning [OF assms(1), of t] room metas this(3) obtain u rs where
    rs: "recurse_collection (desugar_visit D) is_Chunk (map decl_of ds) t = Inr (rs, u)"
    "list_all2 (\<lambda>r (k, m, x, e). \<exists>e'. var_of r = Some (x, e') \<and> meaning prims e' = meaning prims e) rs ds"
    "unat (ds_count u) = unat (ds_count t) + sum_list (map (\<lambda>d. metas D (decl_of d)) ds)" by auto
  from let_vars_visited [OF rs(2)] obtain vs where
    vs: "let_vars (ChunkList \<lparr>adr = cl_next u, loc = loc hc\<rparr> rs) = Some vs"
    "list_all2 (\<lambda>r e. fst r = fst e \<and> meaning prims (snd r) = meaning prims (snd e)) vs
      (map (\<lambda>(k, m, x, e). (x, e)) ds)" by blast
  have "recurse (desugar_visit D) is_ChunkList (ChunkList hc (map decl_of ds)) t =
    Inr (ChunkList \<lparr>adr = cl_next u, loc = loc hc\<rparr> rs, cl_new (new_ChunkList (loc hc) rs) u)"
    using rs(1) by (simp add: recurse_def desugar_runs cl_ChunkList_def new_defs is_class_defs)
  then show "visits_to prims (LetExp h (ChunkList hc (map decl_of ds)) b)
      (unat (ds_count s) + metas D (LetExp h (ChunkList hc (map decl_of ds)) b))
      (desugar_visit D (LetExp h (ChunkList hc (map decl_of ds)) b) s)"
    using b rs(3) meaning_congs(7) [OF vs(1) let_vars_decls vs(2) b(2)]
    by (auto simp: desugar_runs cl_LetExp_def new_LetExp_def alloc_def is_class_defs metas intro!: new_meaning)
qed

section \<open>Loops\<close>

lemma ds_insert_eq: "ds_insert e text tw s = (tw_put text (fst (tw_put_exp e (tw, ds_count s))), s\<lparr>ds_count := ds_count s + 1\<rparr>)"
  by (cases tw) (simp add: ds_insert_def tw_put_exp_def mm_append_def)

lemma visit_for:
  assumes "desugar_for_p D" and "recurse (desugar_visit D) is_Exp lo s = Inr (lo', s1)"
    and "recurse (desugar_visit D) is_Exp hi (s1\<lparr>ds_count := ds_count s1 + 1\<rparr>) = Inr (hi', s2)"
    and "recurse (desugar_visit D) is_Exp b (s2\<lparr>ds_count := ds_count s2 + 1\<rparr>) = Inr (b', s3)"
  shows "desugar_visit D (ForExp h (VarDec k i tn (Some lo)) hi b) s =
    ds_parse_exp D (for_tweast i (ds_count s1) lo' (ds_count s2) hi' (ds_count s3) b') (s3\<lparr>ds_count := ds_count s3 + 1\<rparr>)"
  using assms by (simp add: desugar_runs ds_ForExp_def recurse_opt_def ds_insert_eq for_tweast_def Let_def)

lemma unat_next: "unat a < 2 ^ 31 \<Longrightarrow> unat (a + 1) = Suc (unat (a :: u32))"
  using unat_word_ariths(1) [of a 1] by simp

lemma keeps_for_exp:
  assumes k: "keeps_meaning D prims lo" "keeps_meaning D prims hi" "keeps_meaning D prims b"
    and ints: "int_valued prims lo" "int_valued prims hi"
    and free: "\<not> free lo_name hi" "\<not> free lo_name b" "\<not> free hi_name b" "\<not> assigns i b" "i \<noteq> lo_name" "i \<noteq> hi_name"
    and P: "desugar_for_p D \<Longrightarrow> parses_for (ds_parse D) ids" "i \<in> ids"
  shows "keeps_meaning D prims (ForExp h (VarDec k i None (Some lo)) hi b)"
proof (rule keepsI)
  fix s :: desugar_state
  let ?e = "ForExp h (VarDec k i None (Some lo)) hi b"
  have metas: "metas D ?e = (if desugar_for_p D then 3 else 0) + metas D lo + metas D hi + metas D b"
    by (simp add: metas_subs [of D ?e] metas_subs [of D "VarDec _ _ _ _"] is_loop_def)
  assume room: "unat (ds_count s) + metas D ?e \<le> 2 ^ 31"
  with recurse_meaning [OF k(1), of s] metas obtain s1 lo' where lo: "recurse (desugar_visit D) is_Exp lo s = Inr (lo', s1)"
    "is_Exp lo'" "meaning prims lo' = meaning prims lo" "unat (ds_count s1) = unat (ds_count s) + metas D lo" by auto
  show "visits_to prims ?e (unat (ds_count s) + metas D ?e) (desugar_visit D ?e s)"
  proof (cases "desugar_for_p D")
    case False
    have v: "recurse (desugar_visit D) is_VarDec (VarDec k i None (Some lo)) s =
        Inr (VarDec \<lparr>adr = cl_next s1, loc = loc k\<rparr> i None (Some lo'), cl_new (new_VarDec (loc k) i None (Some lo')) s1)"
      using lo by (simp add: recurse_def [of _ is_VarDec] desugar_runs cl_VarDec_def recurse_opt_def new_defs is_class_defs)
    show ?thesis
      using False lo room
      by (simp add: desugar_runs ds_ForExp_def cl_ForExp_def v)
        (intro bind_meaning [OF k(2)] bind_meaning [OF k(3)] new_meaning;
          auto simp: new_ForExp_def alloc_def is_class_defs metas add.assoc intro: meaning_congs)
  next
    case True
    with metas room have all: "unat (ds_count s) + (3 + metas D lo + metas D hi + metas D b) \<le> 2 ^ 31" by simp
    with lo(4) have n1: "unat (ds_count s1 + 1) = Suc (unat (ds_count s1))" by (intro unat_next) simp
    with recurse_meaning [OF k(2), of "s1\<lparr>ds_count := ds_count s1 + 1\<rparr>"] all lo(4) obtain s2 hi' where
      hi: "recurse (desugar_visit D) is_Exp hi (s1\<lparr>ds_count := ds_count s1 + 1\<rparr>) = Inr (hi', s2)"
        "is_Exp hi'" "meaning prims hi' = meaning prims hi" "unat (ds_count s2) = Suc (unat (ds_count s1)) + metas D hi" by auto
    with all lo(4) have n2: "unat (ds_count s2 + 1) = Suc (unat (ds_count s2))" by (intro unat_next) simp
    with recurse_meaning [OF k(3), of "s2\<lparr>ds_count := ds_count s2 + 1\<rparr>"] all lo(4) hi(4) obtain s3 b' where
      b: "recurse (desugar_visit D) is_Exp b (s2\<lparr>ds_count := ds_count s2 + 1\<rparr>) = Inr (b', s3)"
        "is_Exp b'" "meaning prims b' = meaning prims b" "unat (ds_count s3) = Suc (unat (ds_count s2)) + metas D b" by auto
    with all lo(4) hi(4) have n3: "unat (ds_count s3 + 1) = Suc (unat (ds_count s3))" by (intro unat_next) simp
    let ?s = "s3\<lparr>ds_count := ds_count s3 + 1\<rparr>" and ?tw = "for_tweast i (ds_count s1) lo' (ds_count s2) hi' (ds_count s3) b'"
    have "unat (ds_count s1) < unat (ds_count s2)" "unat (ds_count s2) < unat (ds_count s3)" using hi(4) b(4) by simp_all
    then have dist: "distinct [ds_count s1, ds_count s2, ds_count s3]" by auto
    have small: "ds_count s1 < 2 ^ 31" "ds_count s2 < 2 ^ 31" "ds_count s3 < 2 ^ 31"
      using all lo(4) hi(4) b(4) by (simp_all add: word_less_nat_alt)
    from for_tweast_parts [OF dist, of i lo' hi' b'] obtain es inp where tw: "?tw = Tweast es [] [] [] [] inp"
      "map_of es = [ds_count s1 \<mapsto> lo', ds_count s2 \<mapsto> hi', ds_count s3 \<mapsto> b']"
      "buffer inp = for_text i (ds_count s1) (ds_count s2) (ds_count s3)" by blast
    from parse_for_text [OF P(1) [OF True] P(2) dist small lo(2) hi(2) b(2) tw(2,3), of "\<lparr>gl_next = cl_next ?s, gl_count = ds_count ?s\<rparr>"]
    obtain n r where r: "parse_of_tweast (ds_parse D) ?tw \<lparr>gl_next = cl_next ?s, gl_count = ds_count ?s\<rparr> =
        Inr (Exp_v (Some r), Tweast [] [] [] [] [] inp, \<lparr>gl_next = n, gl_count = ds_count ?s\<rparr>)"
      "is_Exp r" "bare r = bare (for_tree (header_at 0) i lo' hi' b')" unfolding tw(1) by auto
    have "meaning prims r = meaning prims (for_tree (header_at 0) i lo' hi' b')" by (rule meaning_bare) (rule r(3))
    also have "\<dots> = meaning prims (ForExp h (VarDec k i None (Some lo')) hi' b')"
      using ints free lo(3) hi(3) b(3)
      by (intro ext for_tree_meaning) (simp_all add: int_valued_def meaning_frame meaning_keeps)
    also have "\<dots> = meaning prims ?e" by (rule meaning_congs(6)) (fact lo(3) hi(3) b(3))+
    finally have m: "meaning prims r = meaning prims ?e" .
    have "unat (ds_count s3 + 1) = unat (ds_count s) + metas D ?e"
      using lo(4) hi(4) b(4) metas True n3 by simp
    with r m show ?thesis
      unfolding visit_for [OF True lo(1) hi(1) b(1)] visits_to_def
      by (simp add: ds_parse_exp_def get_exp_def tw_delete_def)
  qed
qed

lemma core_keeps_meaning:
  assumes "core D prims ids e"
    and "desugar_string_cmp_p D \<Longrightarrow> string_prims prims" and "desugar_for_p D \<Longrightarrow> parses_for (ds_parse D) ids"
  shows "keeps_meaning D prims e"
  using assms(1)
proof (induction rule: core.induct)
  case (core_LetExp ds b h hc)
  then show ?case by (intro keeps_let_exp) fastforce+
next
  case (core_OpExp l r strings oper h)
  have "strings \<Longrightarrow> desugar_string_cmp_p D"
    using core_OpExp(3) by (auto simp: compares_strings_def split: if_splits)
  with core_OpExp assms(2) show ?case by (intro keeps_op_exp [of D prims l r strings]) simp_all
next
  case (core_ForExp lo hi b i h k)
  with assms(3) show ?case by (intro keeps_for_exp [of D prims lo hi b i ids]) simp_all
qed (simp_all add: keeps_leaves keeps_lists keeps_assign_exp keeps_if_exp keeps_while_exp)

text \<open>With the flags off, the desugaring is the cloning: the same tree, of new nodes.\<close>

theorem desugar_off_clones:
  assumes "\<not> desugar_for_p D" and "\<not> desugar_string_cmp_p D" and "wf_ast e" and "list_all clonable (nodes e)"
  shows "\<exists>t r. desugar_visit D e s = Inr t \<and> result t = Some r \<and> strip r = strip e \<and>
    addr_of ` set (nodes r) \<subseteq> {cl_next s..<cl_next t} \<and> ds_count t = ds_count s"
proof -
  from desugar_clones [OF assms] obtain t r where
    "desugar_visit D e s = Inr t" "result t = Some r" "copies [e] [r] (cl_next s) (cl_next t)"
    "clone_state.more t = clone_state.more s" unfolding clones_def by meson
  moreover from this(4) have "ds_count t = ds_count s" by (cases t; cases s) simp
  ultimately show ?thesis by (auto simp: copies_def owns_def)
qed

text \<open>C10: On the core of the language (integers, strings, simple variables, calls of primitives, sequences,
  assignments to simple variables, \<open>if\<close>, \<open>while\<close>, \<open>for\<close>, \<open>break\<close>, \<open>let\<close> of variables and operators, with the
  conditions of \<open>core\<close>), the desugaring of loops and of the comparisons of strings returns a tree that means
  what the tree means: it has the same outcome from every store, and none when the tree has none.  It relies on a
  parser that reads the text of a loop as it is written, on the primitives of strings, and on a counter of
  metavariables that stays below \<open>INT_MAX\<close>: a loop takes three numbers.\<close>

theorem desugar_keeps_meaning:
  assumes "core D prims ids e" and "unat (ds_count s) + 3 * fors e \<le> 2 ^ 31"
    and "string_prims prims" and "parses_for (ds_parse D) ids"
  shows "\<exists>t r. desugar_visit D e s = Inr t \<and> result t = Some r \<and> (\<forall>u. meaning prims r u = meaning prims e u)"
proof -
  have "unat (ds_count s) + metas D e \<le> 2 ^ 31" using assms(2) by (simp add: metas_def)
  moreover have "keeps_meaning D prims e" using core_keeps_meaning [OF assms(1)] assms(3,4) by simp
  ultimately show ?thesis unfolding keeps_meaning_def by metis
qed

section \<open>An example\<close>

text \<open>A reader of the text of the loops on \<open>i\<close>.\<close>

definition find_for :: "string \<Rightarrow> u32 list \<Rightarrow> (u32 \<times> u32 \<times> u32) option" where
  "find_for text ks =
     List.find (\<lambda>(a, b, c). text = for_text ''i'' a b c) (List.product ks (List.product ks ks))"

definition for_reader :: surroundings where
  "for_reader = one_file\<lparr>run := (\<lambda>text (d, g). case dr_input d of
     File _ \<Rightarrow> Inl Bad_variant
   | In_tweast tw \<Rightarrow> (case find_for text (map fst (tw_exps tw)) of
       None \<Rightarrow> error_exit (dr_error d)
     | Some (a, b, c) \<Rightarrow>
         Inr (d\<lparr>dr_ast := Exp_v (Some (for_tree (header_at 0) ''i'' (the (map_of (tw_exps tw) a))
                  (the (map_of (tw_exps tw) b)) (the (map_of (tw_exps tw) c)))),
                dr_input := In_tweast (Tweast [] [] [] [] [] (tw_input tw))\<rparr>, g)))\<rparr>"

lemma first_separator:
  "c \<notin> set xs \<Longrightarrow> c \<notin> set xs' \<Longrightarrow> xs @ c # ys = xs' @ c # ys' \<longleftrightarrow> xs = xs' \<and> ys = ys'"
proof (induction xs arbitrary: xs')
  case Nil
  then show ?case by (cases xs') auto
next
  case (Cons x xs)
  then show ?case by (cases xs') auto
qed

lemma paren_notin_dec: "CHR '')'' \<notin> set (dec_nat n)"
proof
  assume "CHR '')'' \<in> set (dec_nat n)"
  then obtain d where "d < 10" "CHR '')'' = digit d" using dec_nat_digits by blast
  then have "(of_char (CHR '')'') :: nat) = 48 + d" using of_char_digit by metis
  then show False by simp
qed

lemma mm_show_inject: "mm_show exp_name a @ xs = mm_show exp_name b @ ys \<longleftrightarrow> a = b \<and> xs = ys"
  by (auto simp: mm_show_def first_separator paren_notin_dec intro: unsigned_word_eqI [where 'a = nat])

lemma mm_show_inject_end: "mm_show exp_name a = mm_show exp_name b \<longleftrightarrow> a = b"
  using mm_show_inject [of a "[]" b "[]"] by simp

lemma for_text_inject: "for_text i a b c = for_text i a' b' c' \<longleftrightarrow> a = a' \<and> b = b' \<and> c = c'"
  by (auto simp: for_text_def mm_show_inject mm_show_inject_end)

lemma find_for_found:
  assumes "a \<in> set ks" "b \<in> set ks" "c \<in> set ks"
  shows "find_for (for_text ''i'' a b c) ks = Some (a, b, c)"
proof -
  let ?P = "\<lambda>(x, y, z). for_text ''i'' a b c = for_text ''i'' x y z"
  have "(a, b, c) \<in> set (List.product ks (List.product ks ks))" using assms by simp
  then have "find_for (for_text ''i'' a b c) ks \<noteq> None"
    by (auto simp: find_for_def find_None_iff)
  then obtain r where r: "find_for (for_text ''i'' a b c) ks = Some r" by blast
  then have "?P r" unfolding find_for_def find_Some_iff by auto
  with r show ?thesis by (cases r) (simp add: for_text_inject)
qed

lemma for_reader_parses: "parses_for for_reader {''i''}"
  unfolding parses_for_def
proof (intro conjI ballI allI impI)
  show "absolute (cwd for_reader)" by (simp add: for_reader_def one_file_def)
next
  fix i a b c lo hi body es inp and d :: driver and g :: glob
  assume i: "i \<in> {''i''}" and h: "distinct [a, b, c] \<and> a < 2 ^ 31 \<and> b < 2 ^ 31 \<and> c < 2 ^ 31 \<and> is_Exp lo \<and> is_Exp hi \<and> is_Exp body \<and> enable_extensions_p d \<and>
    dr_input d = In_tweast (Tweast es [] [] [] [] inp) \<and> map_of es = [a \<mapsto> lo, b \<mapsto> hi, c \<mapsto> body]"
  then have "a \<in> fst ` set es" "b \<in> fst ` set es" "c \<in> fst ` set es"
    unfolding dom_map_of_conv_image_fst [symmetric] by auto
  with i find_for_found [of a "map fst es" b c]
  have f: "find_for (for_text i a b c) (map fst es) = Some (a, b, c)" by simp
  have "map_of es a = Some lo" "map_of es b = Some hi" "map_of es c = Some body" using h by auto
  with f h i have "run for_reader (for_text i a b c) (d, g) =
      Inr (d\<lparr>dr_ast := Exp_v (Some (for_tree (header_at 0) i lo hi body)),
        dr_input := In_tweast (Tweast [] [] [] [] [] inp)\<rparr>, g\<lparr>gl_next := gl_next g\<rparr>)"
    by (simp add: for_reader_def)
  then show "\<exists>d' n r. run for_reader (for_text i a b c) (d, g) = Inr (d', g\<lparr>gl_next := n\<rparr>) \<and> dr_ast d' = Exp_v (Some r) \<and>
      dr_error d' = dr_error d \<and> dr_input d' = In_tweast (Tweast [] [] [] [] [] inp) \<and>
      is_Exp r \<and> bare r = bare (for_tree (header_at 0) i lo hi body)"
    by (intro exI conjI) (assumption | simp add: for_tree_def is_class_defs)+
qed

definition example_prims :: "unit prims" where
  "example_prims f vs w = (case vs of [StrV a, StrV b] \<Rightarrow>
     if f = ''streq'' then Some (IntV (truth (a = b)), w)
     else if f = ''strcmp'' then Some (IntV (if str_less a b then -1 else if a = b then 0 else 1), w) else None
   | _ \<Rightarrow> None)"

lemma str_less_irrefl: "\<not> str_less a a"
  by (induction a) auto

lemma example_prims_strings: "string_prims example_prims"
  by (auto simp: string_prims_def example_prims_def str_less_irrefl)

definition example_desugar :: desugar_env where
  "example_desugar = \<lparr>desugar_for_p = True, desugar_string_cmp_p = True, ds_types = types_new,
     ds_type_of = [5 \<mapsto> String_instance], ds_parse = for_reader\<rparr>"

text \<open>\<^verbatim>\<open>for i := 1 to 3 do x := ("a" < "b")\<close>.\<close>

definition example_loop :: ast where
  "example_loop = ForExp (header_at 0) (VarDec (header_at 1) ''i'' None (Some (IntExp (header_at 2) 1)))
     (IntExp (header_at 3) 3)
     (AssignExp (header_at 4) (SimpleVar (header_at 7) ''x'')
       (OpExp (header_at 8) (StringExp (header_at 5) ''a'') op_lt (StringExp (header_at 6) ''b'')))"

lemma example_core: "core example_desugar example_prims {''i''} example_loop"
proof -
  have "compares_strings example_desugar (StringExp (header_at 5) ''a'') = Inr True"
    by (simp add: compares_strings_def example_desugar_def header_at_def addr_of_def ty_eq_def actual_def
        actual_upto.simps ty_at_def types_new_def String_instance_def numeral_eq_Suc)
  then have "core example_desugar example_prims {''i''}
    (OpExp (header_at 8) (StringExp (header_at 5) ''a'') op_lt (StringExp (header_at 6) ''b''))"
    by (intro core_OpExp [of _ _ _ _ _ True] core_StringExp) (simp_all add: str_valued_def meaning_string comparison_def)
  then show ?thesis unfolding example_loop_def
    by (intro core_ForExp core_AssignExp core_IntExp)
      (simp_all add: int_valued_def meaning_parts free_simps lo_name_def hi_name_def assigned_var_def assigns_def
        nodes.simps)
qed

theorem desugar_keeps_meaning_witness:
  "\<exists>t r. desugar_visit example_desugar example_loop \<lparr>result = None, cl_next = 9, ds_count = 0\<rparr> = Inr t \<and>
    result t = Some r \<and> (\<forall>u. meaning example_prims r u = meaning example_prims example_loop u)"
proof (rule desugar_keeps_meaning [OF example_core _ example_prims_strings])
  show "parses_for (ds_parse example_desugar) {''i''}" by (simp add: example_desugar_def for_reader_parses)
  show "unat (ds_count \<lparr>result = None, cl_next = 9, ds_count = 0\<rparr>) + 3 * fors example_loop \<le> 2 ^ 31"
    by (simp add: example_loop_def fors_def is_loop_def nodes.simps)
qed

theorem desugar_off_clones_witness:
  "\<exists>t r. desugar_visit (example_desugar\<lparr>desugar_for_p := False, desugar_string_cmp_p := False\<rparr>)
      (NilExp (header_at 0)) \<lparr>result = None, cl_next = 9, ds_count = 0\<rparr> = Inr t \<and>
    result t = Some r \<and> strip r = NilExp (no_adr (header_at 0))"
proof -
  let ?e = "NilExp (header_at 0)"
  have "wf_ast ?e" "list_all clonable (nodes ?e)"
    by (simp_all add: wf_ast_unfold wf_node_def nodes.simps clonable_def)
  from desugar_off_clones [OF _ _ this, of "example_desugar\<lparr>desugar_for_p := False, desugar_string_cmp_p := False\<rparr>"
    "\<lparr>result = None, cl_next = 9, ds_count = 0\<rparr>"] show ?thesis by (auto simp del: strip_simps simp: strip_simps(19))
qed

end

