(* ===== verification/Type_Class.thy ===== *)
theory Type_Class
  imports Ast Misc_Container
begin

text \<open>
  \<^verbatim>\<open>src/src/type/class.*\<close>, \<^verbatim>\<open>attribute.*\<close>, \<^verbatim>\<open>method.*\<close>: the class types.  Classes and methods are compared by identity and
  live in a store: a pointer is an index of the list of the objects.  An attribute holds a pointer to its
  declaration.  A loop \<open>for (c = this; c; c = c->super_get())\<close> does not end when the inheritance is cyclic: it has a
  bound, one more than the number of classes, which is reached on a cycle only.
\<close>

section \<open>The model of the code\<close>

record attribute =
  attr_def :: ast

record class_method =
  method_name :: symbol
  method_owner :: "addr option"
  method_formals :: addr
  method_result :: addr
  method_def :: "ast option"

record class_obj =
  class_id :: u32
  class_super :: "addr option"
  class_subclasses :: "addr list"
  class_attrs :: "attribute list"
  class_meths :: "addr list"

text \<open>The store, with the static counter of \<open>fresh_id\<close>.\<close>

record class_store =
  classes :: "class_obj list"
  methods :: "class_method list"
  class_counter :: u32

definition class_at :: "class_store \<Rightarrow> addr \<Rightarrow> class_obj res" where
  "class_at T a = (if a < length (classes T) then Inr (classes T ! a) else Inl Bad_access)"

definition method_at :: "class_store \<Rightarrow> addr \<Rightarrow> class_method res" where
  "method_at T m = (if m < length (methods T) then Inr (methods T ! m) else Inl Bad_access)"

definition class_update :: "addr \<Rightarrow> (class_obj \<Rightarrow> class_obj) \<Rightarrow> class_store \<Rightarrow> class_store res" where
  "class_update a f T = bindE (class_at T a) (\<lambda>c. Inr (T\<lparr>classes := (classes T)[a := f c]\<rparr>))"

definition class_fresh_id :: "class_store \<Rightarrow> u32 \<times> class_store" where
  "class_fresh_id T = (class_counter T, T\<lparr>class_counter := class_counter T + 1\<rparr>)"

definition class_new :: "addr option \<Rightarrow> class_store \<Rightarrow> addr \<times> class_store" where
  "class_new super T =
     (let (n, T1) = class_fresh_id T
      in (length (classes T1), T1\<lparr>classes := classes T1 @ [\<lparr>class_id = n, class_super = super, class_subclasses = [],
            class_attrs = [], class_meths = []\<rparr>]\<rparr>))"

definition method_new ::
  "symbol \<Rightarrow> addr option \<Rightarrow> addr \<Rightarrow> addr \<Rightarrow> ast option \<Rightarrow> class_store \<Rightarrow> addr \<times> class_store" where
  "method_new name owner formals res def T =
     (length (methods T), T\<lparr>methods := methods T @ [\<lparr>method_name = name, method_owner = owner, method_formals = formals,
        method_result = res, method_def = def\<rparr>]\<rparr>)"

text \<open>\<open>def_->name_get()\<close> of a \<open>VarDec\<close>.\<close>

definition attr_name :: "attribute \<Rightarrow> symbol" where
  "attr_name at = (case attr_def at of VarDec _ name _ _ \<Rightarrow> name | _ \<Rightarrow> [])"

definition attr_add :: "attribute \<Rightarrow> addr \<Rightarrow> class_store \<Rightarrow> class_store res" where
  "attr_add attr a = class_update a (\<lambda>c. c\<lparr>class_attrs := class_attrs c @ [attr]\<rparr>)"

definition attr_add_def :: "ast \<Rightarrow> addr \<Rightarrow> class_store \<Rightarrow> class_store res" where
  "attr_add_def def a = attr_add \<lparr>attr_def = def\<rparr> a"

definition meth_add :: "addr \<Rightarrow> addr \<Rightarrow> class_store \<Rightarrow> class_store res" where
  "meth_add m a = class_update a (\<lambda>c. c\<lparr>class_meths := class_meths c @ [m]\<rparr>)"

definition super_set :: "addr option \<Rightarrow> addr \<Rightarrow> class_store \<Rightarrow> class_store res" where
  "super_set super a = class_update a (\<lambda>c. c\<lparr>class_super := super\<rparr>)"

definition subclass_add :: "addr \<Rightarrow> addr \<Rightarrow> class_store \<Rightarrow> class_store res" where
  "subclass_add b a = class_update a (\<lambda>c. c\<lparr>class_subclasses := class_subclasses c @ [b]\<rparr>)"

definition subclasses_clear :: "addr \<Rightarrow> class_store \<Rightarrow> class_store res" where
  "subclasses_clear a = class_update a (\<lambda>c. c\<lparr>class_subclasses := []\<rparr>)"

definition has_data :: "class_obj \<Rightarrow> bool" where
  "has_data c \<longleftrightarrow> class_attrs c \<noteq> []"

definition method_name_set :: "symbol \<Rightarrow> addr \<Rightarrow> class_store \<Rightarrow> class_store res" where
  "method_name_set name m T =
     bindE (method_at T m) (\<lambda>x. Inr (T\<lparr>methods := (methods T)[m := x\<lparr>method_name := name\<rparr>]\<rparr>))"

definition method_def_set :: "ast option \<Rightarrow> addr \<Rightarrow> class_store \<Rightarrow> class_store res" where
  "method_def_set def m T =
     bindE (method_at T m) (\<lambda>x. Inr (T\<lparr>methods := (methods T)[m := x\<lparr>method_def := def\<rparr>]\<rparr>))"

fun owned_attr_loop :: "symbol \<Rightarrow> attribute list \<Rightarrow> attribute option" where
  "owned_attr_loop key [] = None"
| "owned_attr_loop key (at # ats) = (if attr_name at = key then Some at else owned_attr_loop key ats)"

definition owned_attr_find :: "symbol \<Rightarrow> class_obj \<Rightarrow> attribute option" where
  "owned_attr_find key c = owned_attr_loop key (class_attrs c)"

fun owned_meth_loop :: "class_store \<Rightarrow> symbol \<Rightarrow> addr list \<Rightarrow> addr option res" where
  "owned_meth_loop T key [] = Inr None"
| "owned_meth_loop T key (m # ms) =
     bindE (method_at T m) (\<lambda>x. if method_name x = key then Inr (Some m) else owned_meth_loop T key ms)"

definition owned_meth_find :: "class_store \<Rightarrow> symbol \<Rightarrow> class_obj \<Rightarrow> addr option res" where
  "owned_meth_find T key c = owned_meth_loop T key (class_meths c)"

text \<open>The loop on the class and its super classes, that returns at the first thing found.\<close>

fun up_find :: "nat \<Rightarrow> class_store \<Rightarrow> (class_obj \<Rightarrow> 'a option res) \<Rightarrow> addr option \<Rightarrow> 'a option res" where
  "up_find n T f None = Inr None"
| "up_find 0 T f (Some a) = Inl No_fuel"
| "up_find (Suc n) T f (Some a) =
     bindE (class_at T a) (\<lambda>c. bindE (f c) (\<lambda>r. case r of
       Some x \<Rightarrow> Inr (Some x)
     | None \<Rightarrow> up_find n T f (class_super c)))"

definition attr_find :: "class_store \<Rightarrow> symbol \<Rightarrow> addr \<Rightarrow> attribute option res" where
  "attr_find T key a = up_find (Suc (length (classes T))) T (\<lambda>c. Inr (owned_attr_find key c)) (Some a)"

definition meth_find :: "class_store \<Rightarrow> symbol \<Rightarrow> addr \<Rightarrow> addr option res" where
  "meth_find T key a = up_find (Suc (length (classes T))) T (owned_meth_find T key) (Some a)"

text \<open>The loop on the class and its super classes, that does something for each.\<close>

fun up_fold :: "nat \<Rightarrow> class_store \<Rightarrow> (addr \<Rightarrow> class_obj \<Rightarrow> 's \<Rightarrow> 's res) \<Rightarrow> addr option \<Rightarrow> 's \<Rightarrow> 's res" where
  "up_fold n T f None s = Inr s"
| "up_fold 0 T f (Some a) s = Inl No_fuel"
| "up_fold (Suc n) T f (Some a) s =
     bindE (class_at T a) (\<lambda>c. bindE (f a c s) (up_fold n T f (class_super c)))"

definition for_supers :: "class_store \<Rightarrow> (addr \<Rightarrow> class_obj \<Rightarrow> 's \<Rightarrow> 's res) \<Rightarrow> addr \<Rightarrow> 's \<Rightarrow> 's res" where
  "for_supers T f a s = up_fold (Suc (length (classes T))) T f (Some a) s"

section \<open>The chain of the super classes\<close>

definition supers :: "class_store \<Rightarrow> addr \<Rightarrow> addr list res" where
  "supers T a = for_supers T (\<lambda>b c bs. Inr (bs @ [b])) a []"

lemma up_fold_snoc: "up_fold n T (\<lambda>b c bs. Inr (bs @ [b])) p bs =
    bindE (up_fold n T (\<lambda>b c bs. Inr (bs @ [b])) p []) (\<lambda>cs. Inr (bs @ cs))"
proof (induction n arbitrary: p bs)
  case 0
  then show ?case by (cases p) simp_all
next
  case (Suc n)
  show ?case
  proof (cases p)
    case (Some a)
    have "bindE (class_at T a) (\<lambda>c. up_fold n T (\<lambda>b c bs. Inr (bs @ [b])) (class_super c) (bs @ [a])) =
      bindE (class_at T a) (\<lambda>c. bindE (up_fold n T (\<lambda>b c bs. Inr (bs @ [b])) (class_super c) [a]) (\<lambda>cs. Inr (bs @ cs)))"
      by (subst (1 2) Suc.IH) (simp add: bindE_assoc)
    then show ?thesis by (simp add: Some bindE_assoc)
  qed simp
qed

text \<open>The chain as a relation: \<open>chain_of T p cs\<close> when following the pointers from \<open>p\<close> gives \<open>cs\<close>.\<close>

inductive chain_of :: "class_store \<Rightarrow> addr option \<Rightarrow> addr list \<Rightarrow> bool" for T where
  chain_end: "chain_of T None []"
| chain_step: "class_at T a = Inr c \<Longrightarrow> chain_of T (class_super c) cs \<Longrightarrow> chain_of T (Some a) (a # cs)"

inductive_cases chain_NoneE: "chain_of T None cs"
inductive_cases chain_SomeE: "chain_of T (Some a) cs"

lemma chain_unique: "chain_of T p cs \<Longrightarrow> chain_of T p ds \<Longrightarrow> cs = ds"
proof (induction arbitrary: ds rule: chain_of.induct)
  case chain_end
  then show ?case by (rule chain_NoneE) simp
next
  case (chain_step a c cs)
  from chain_step.prems obtain c' ds' where "ds = a # ds'" "class_at T a = Inr c'" "chain_of T (class_super c') ds'"
    by (rule chain_SomeE)
  with chain_step show ?case by simp
qed

lemma chain_in: "chain_of T p cs \<Longrightarrow> set cs \<subseteq> {..<length (classes T)}"
  by (induction rule: chain_of.induct) (auto simp: class_at_def split: if_splits)

text \<open>From a class of the chain on, the chain is the rest of it.\<close>

lemma chain_suffix: "chain_of T p cs \<Longrightarrow> b \<in> set cs \<Longrightarrow> \<exists>ys zs. cs = ys @ zs \<and> chain_of T (Some b) zs"
proof (induction rule: chain_of.induct)
  case (chain_step a c cs)
  show ?case
  proof (cases "b = a")
    case True
    then show ?thesis using chain_of.chain_step [OF chain_step(1,2)] by (intro exI [of _ "[]"] exI [of _ "a # cs"]) simp
  next
    case False
    then obtain ys zs where "cs = ys @ zs" "chain_of T (Some b) zs" using chain_step by auto
    then show ?thesis by (intro exI [of _ "a # ys"] exI [of _ zs]) simp
  qed
qed simp

lemma chain_distinct: "chain_of T p cs \<Longrightarrow> distinct cs"
proof (induction rule: chain_of.induct)
  case (chain_step a c cs)
  have "a \<notin> set cs"
  proof
    assume "a \<in> set cs"
    then obtain ys zs where cs: "cs = ys @ zs" and zs: "chain_of T (Some a) zs" using chain_suffix [OF chain_step(2)] by blast
    have "zs = a # cs" by (rule chain_unique [OF zs chain_of.chain_step [OF chain_step(1,2)]])
    then have "length cs = length ys + Suc (length cs)" using cs by (metis length_Cons length_append)
    then show False by simp
  qed
  then show ?case using chain_step by simp
qed simp

lemma up_fold_chain: "chain_of T p cs \<Longrightarrow> length cs \<le> n \<Longrightarrow>
    up_fold n T f p s = foldE (\<lambda>b s. bindE (class_at T b) (\<lambda>c. f b c s)) cs s"
proof (induction arbitrary: n s rule: chain_of.induct)
  case (chain_step a c cs)
  then obtain m where "n = Suc m" by (cases n) auto
  then show ?case using chain_step by (simp cong: bindE_cong)
qed simp

lemma chain_length: "chain_of T p cs \<Longrightarrow> length cs \<le> length (classes T)"
  using chain_in [of T p cs] chain_distinct [of T p cs] card_mono [of "{..<length (classes T)}" "set cs"]
  by (simp add: distinct_card)

lemma for_supers_chain:
  assumes "chain_of T (Some a) cs"
  shows "for_supers T f a s = foldE (\<lambda>b s. bindE (class_at T b) (\<lambda>c. f b c s)) cs s"
  unfolding for_supers_def by (rule up_fold_chain [OF assms]) (use chain_length [OF assms] in simp)

lemma up_fold_chain_of: "up_fold n T (\<lambda>b c bs. Inr (bs @ [b])) p [] = Inr cs \<Longrightarrow> chain_of T p cs"
proof (induction n arbitrary: p cs)
  case 0
  then show ?case by (cases p) (auto intro: chain_end)
next
  case (Suc n)
  show ?case
  proof (cases p)
    case None
    then show ?thesis using Suc.prems by (auto intro: chain_end)
  next
    case (Some a)
    with Suc.prems obtain c ds where "class_at T a = Inr c" "up_fold n T (\<lambda>b c bs. Inr (bs @ [b])) (class_super c) [] = Inr ds"
      "cs = a # ds"
      by (auto simp: bindE_eq_Inr up_fold_snoc [of n T _ "[a]"])
    then show ?thesis using Suc.IH Some by (auto intro: chain_step)
  qed
qed

lemma foldE_collect: "foldE (\<lambda>b bs. bindE (class_at T b) (\<lambda>c. Inr (bs @ [b]))) cs bs =
    (if \<forall>b \<in> set cs. b < length (classes T) then Inr (bs @ cs) else Inl Bad_access)"
  by (induction cs arbitrary: bs) (simp_all add: class_at_def)

lemma supers_iff: "supers T a = Inr cs \<longleftrightarrow> chain_of T (Some a) cs"
proof
  assume "supers T a = Inr cs"
  then show "chain_of T (Some a) cs" unfolding supers_def for_supers_def by (rule up_fold_chain_of)
next
  assume c: "chain_of T (Some a) cs"
  then show "supers T a = Inr cs"
    unfolding supers_def for_supers_chain [OF c] using chain_in [OF c] by (auto simp: foldE_collect)
qed


text \<open>The bound is reached on cycles only: without one, every walk ends within the number of classes.\<close>

lemma up_find_chain:
  "chain_of T p cs \<Longrightarrow> length cs \<le> n \<Longrightarrow> up_find n T f p =
    foldr (\<lambda>b r. bindE (class_at T b) (\<lambda>c. bindE (f c) (\<lambda>x. case x of Some y \<Rightarrow> Inr (Some y) | None \<Rightarrow> r))) cs (Inr None)"
proof (induction arbitrary: n rule: chain_of.induct)
  case (chain_step a c cs)
  then obtain m where "n = Suc m" by (cases n) auto
  then show ?case using chain_step by simp
qed simp

lemma owned_attr_loop_find: "owned_attr_loop key ats = find (\<lambda>at. attr_name at = key) ats"
  by (induction ats) simp_all

lemma no_chain_long:
  "\<nexists>cs. chain_of T p cs \<Longrightarrow> \<forall>a c b. class_at T a = Inr c \<and> class_super c = Some b \<longrightarrow> b < length (classes T) \<Longrightarrow>
    (case p of None \<Rightarrow> True | Some a \<Rightarrow> a < length (classes T)) \<Longrightarrow> up_fold n T (\<lambda>b c s. Inr (g b c s)) p s = Inl No_fuel"
proof (induction n arbitrary: p s)
  case 0
  then show ?case by (cases p) (auto intro: chain_end)
next
  case (Suc n)
  show ?case
  proof (cases p)
    case None
    then show ?thesis using Suc.prems(1) chain_end by blast
  next
    case (Some a)
    then obtain c where c: "class_at T a = Inr c" using Suc.prems(3) by (simp add: class_at_def)
    then have "\<nexists>cs. chain_of T (class_super c) cs" using Suc.prems(1) Some chain_step by blast
    moreover have "case class_super c of None \<Rightarrow> True | Some b \<Rightarrow> b < length (classes T)"
      using Suc.prems(2) c by (auto split: option.split)
    ultimately show ?thesis using Suc.IH Suc.prems(2) c Some by simp
  qed
qed

text \<open>What \<open>attr_find\<close> gives: the first attribute of that name of the nearest class that has one.\<close>

lemma attr_find_nearest:
  assumes "supers T a = Inr cs"
  shows "attr_find T key a =
    Inr (foldr (\<lambda>b r. case find (\<lambda>at. attr_name at = key) (class_attrs (classes T ! b)) of Some at \<Rightarrow> Some at | None \<Rightarrow> r) cs None)"
proof -
  have c: "chain_of T (Some a) cs" using assms by (simp add: supers_iff)
  have "foldr (\<lambda>b r. bindE (class_at T b) (\<lambda>c. bindE (Inr (owned_attr_find key c))
        (\<lambda>x. case x of Some y \<Rightarrow> Inr (Some y) | None \<Rightarrow> r))) ds (Inr None) =
      (Inr (foldr (\<lambda>b r. case find (\<lambda>at. attr_name at = key) (class_attrs (classes T ! b)) of Some at \<Rightarrow> Some at | None \<Rightarrow> r) ds None) :: attribute option res)"
    if "set ds \<subseteq> {..<length (classes T)}" for ds
    using that by (induction ds) (auto simp: class_at_def owned_attr_find_def owned_attr_loop_find split: option.splits)
  then show ?thesis
    unfolding attr_find_def by (subst up_find_chain [OF c]) (use chain_length [OF c] chain_in [OF c] in auto)
qed

text \<open>A hierarchy as the type checker has to leave it: no cycle, and the subclasses are the classes that inherit from
  the class, each of them once.\<close>

definition hierarchy_ok :: "class_store \<Rightarrow> bool" where
  "hierarchy_ok T \<longleftrightarrow> (\<forall>a < length (classes T). case supers T a of
       Inl _ \<Rightarrow> False
     | Inr cs \<Rightarrow> distinct (class_subclasses (classes T ! a)) \<and>
         set (class_subclasses (classes T ! a)) =
           {b \<in> {..<length (classes T)}. case supers T b of Inl _ \<Rightarrow> False | Inr ds \<Rightarrow> b \<noteq> a \<and> a \<in> set ds})"

lemma hierarchy_chain:
  assumes "hierarchy_ok T" "a < length (classes T)"
  obtains cs where "supers T a = Inr cs" "chain_of T (Some a) cs" "a \<in> set cs" "distinct cs"
    "set cs \<subseteq> {..<length (classes T)}"
proof -
  have "case supers T a of Inl _ \<Rightarrow> False | Inr cs \<Rightarrow> True"
    using assms unfolding hierarchy_ok_def by (cases "supers T a") force+
  then obtain cs where cs: "supers T a = Inr cs" by (cases "supers T a") auto
  then have c: "chain_of T (Some a) cs" by (simp add: supers_iff)
  then have "a \<in> set cs" by (rule chain_SomeE) simp
  then show thesis by (rule that [OF cs c _ chain_distinct [OF c] chain_in [OF c]])
qed

lemma hierarchy_subclasses:
  assumes "hierarchy_ok T" "a < length (classes T)"
  shows "distinct (class_subclasses (classes T ! a))"
    and "b \<in> set (class_subclasses (classes T ! a)) \<longleftrightarrow>
      b < length (classes T) \<and> b \<noteq> a \<and> (\<exists>ds. supers T b = Inr ds \<and> a \<in> set ds)"
proof -
  obtain cs where "supers T a = Inr cs" by (rule hierarchy_chain [OF assms])
  then have h: "distinct (class_subclasses (classes T ! a)) \<and> set (class_subclasses (classes T ! a)) =
      {b \<in> {..<length (classes T)}. case supers T b of Inl _ \<Rightarrow> False | Inr ds \<Rightarrow> b \<noteq> a \<and> a \<in> set ds}"
    using assms unfolding hierarchy_ok_def by force
  then show "distinct (class_subclasses (classes T ! a))" by blast
  show "b \<in> set (class_subclasses (classes T ! a)) \<longleftrightarrow>
      b < length (classes T) \<and> b \<noteq> a \<and> (\<exists>ds. supers T b = Inr ds \<and> a \<in> set ds)"
    unfolding conjunct2 [OF h] by (cases "supers T b") auto
qed

lemma subclass_supers:
  assumes "hierarchy_ok T" "a < length (classes T)" "b \<in> set (class_subclasses (classes T ! a))"
    and a: "supers T a = Inr cs" and b: "supers T b = Inr ds"
  shows "set ds \<subseteq> set cs \<union> set (class_subclasses (classes T ! a))"
proof -
  have "a \<in> set ds" using hierarchy_subclasses(2) [OF assms(1,2)] assms(3) b by auto
  then obtain ys zs where ds: "ds = ys @ zs" "chain_of T (Some a) zs" using chain_suffix b by (metis supers_iff)
  then have zs: "zs = cs" using a chain_unique by (auto simp: supers_iff)
  have az: "a \<in> set zs" using ds(2) by (auto elim: chain_SomeE)
  have dd: "distinct ds" using chain_distinct b by (simp add: supers_iff)
  have "x \<in> set (class_subclasses (classes T ! a))" if x: "x \<in> set ys" for x
  proof -
    have xd: "x \<in> set ds" using x ds by simp
    then obtain us vs where v: "ds = us @ vs" "chain_of T (Some x) vs" using chain_suffix b by (metis supers_iff)
    have "x \<in> set vs" using v(2) by (auto elim: chain_SomeE)
    then have xu: "x \<notin> set us" using dd v(1) by auto
    have "us @ vs = ys @ zs" using v(1) ds(1) by simp
    then obtain ws where "us = ys @ ws \<and> ws @ vs = zs \<or> us @ ws = ys \<and> vs = ws @ zs"
      by (auto simp: append_eq_append_conv2)
    then have "a \<in> set vs" using x xu az by auto
    moreover have "x \<noteq> a" using x az dd ds(1) by auto
    moreover have "x < length (classes T)" using chain_in [of T "Some b" ds] b xd by (auto simp: supers_iff)
    ultimately show ?thesis using hierarchy_subclasses(2) [OF assms(1,2)] v(2) by (auto simp: supers_iff)
  qed
  then show ?thesis using ds(1) zs by auto
qed

lemma super_supers:
  assumes "supers T a = Inr cs" "b \<in> set cs" "supers T b = Inr ds"
  shows "set ds \<subseteq> set cs"
proof -
  obtain ys zs where "cs = ys @ zs" "chain_of T (Some b) zs" using assms(1,2) chain_suffix by (metis supers_iff)
  then show ?thesis using chain_unique [of T "Some b" zs ds] assms(3) by (auto simp: supers_iff)
qed

end
