(* ===== verification/Object_Desugar.thy ===== *)
theory Object_Desugar
  imports Type_Class Parse_Driver Cloner Pretty_Printer
begin

text \<open>
  \<^verbatim>\<open>src/src/object/desugar-visitor.*\<close>: the desugaring of the objects, as far as the repository holds it.  A
  class becomes a record with a slot for the contents of each class it may be made of, and its conversions, methods
  and dispatch functions become functions; they are written as text with embedded trees, that is parsed.  The code
  that was deleted from the repository is the second group of fields of \<open>object_env\<close>; the visits of which nothing
  but the frame is left are not modelled, so \<open>visit\<close>, the virtual call, is not closed.
\<close>

section \<open>State and environment\<close>

record object_state = clone_state +
  od_count :: u32
  od_types :: tweast
  od_class_ids :: tweast
  od_funs :: tweast
  dispatch_added :: "addr list"
  dispatch_map :: "(addr, u32) entries"

type_synonym field_inits = "(addr, string) entries"

text \<open>What was deleted: \<open>class_type_query\<close>, the initialisation of the declarations of methods and attributes,
  the initialisations of a constructor, the actual arguments of a call, the fields of the contents, the class of
  a type declaration, the cast of an initialiser, \<open>object_instance\<close> and \<open>is_main\<close>.  A null tree is refused when it is inserted.\<close>

record object_env =
  ob_parse :: surroundings
  ob_print :: pp_context
  ob_store :: class_store
  class_names :: "(addr, symbol) entries"
  class_query :: "ast \<Rightarrow> addr option"
  method_dec :: "addr \<Rightarrow> ast"
  switch_dec :: "addr \<Rightarrow> addr option \<Rightarrow> ast"
  attribute_dec :: "attribute \<Rightarrow> ast"
  ctor_init :: "addr \<Rightarrow> field_inits \<Rightarrow> field_inits"
  pass_target :: "string \<Rightarrow> string"
  pass_formals :: "ast \<Rightarrow> string"
  contents_fields :: "addr \<Rightarrow> object_state \<Rightarrow> object_state res"
  dec_class :: "ast \<Rightarrow> addr option"
  init_cast :: "ast \<Rightarrow> ast \<Rightarrow> object_state \<Rightarrow> (ast \<times> object_state) res"
  object_class :: addr
  main_function :: "ast \<Rightarrow> bool"

definition od_new :: "tweast \<times> tweast \<times> tweast \<Rightarrow> glob \<Rightarrow> object_state" where
  "od_new tws g = \<lparr>result = None, cl_next = gl_next g, od_count = gl_count g, od_types = fst tws, od_class_ids = fst (snd tws),
     od_funs = snd (snd tws), dispatch_added = [], dispatch_map = []\<rparr>"

definition class_name :: "object_env \<Rightarrow> addr \<Rightarrow> symbol res" where
  "class_name E a = map_call (class_names E) a"

section \<open>Parsing\<close>

text \<open>\<open>parse::parse\<close> on a tweast that is destroyed after it, to an expression or to chunks.\<close>

definition od_parse :: "object_env \<Rightarrow> tweast \<Rightarrow> object_state \<Rightarrow> (ast_variant \<times> tweast \<times> object_state) res" where
  "od_parse E tw s =
     bindE (parse_of_tweast (ob_parse E) tw \<lparr>gl_next = cl_next s, gl_count = od_count s\<rparr>) (\<lambda>(t, tw1, g).
       Inr (t, tw1, s\<lparr>cl_next := gl_next g, od_count := gl_count g\<rparr>))"

definition od_parse_exp :: "object_env \<Rightarrow> tweast \<Rightarrow> object_state \<Rightarrow> (ast \<times> object_state) res" where
  "od_parse_exp E tw s =
     bindE (od_parse E tw s) (\<lambda>(t, tw1, s1).
     bindE (get_exp t) (\<lambda>e.
     bindE (tw_delete tw1) (\<lambda>_. case e of None \<Rightarrow> Inl Null_deref | Some e \<Rightarrow> Inr (e, s1))))"

definition od_parse_chunks :: "object_env \<Rightarrow> tweast \<Rightarrow> object_state \<Rightarrow> (ast \<times> tweast \<times> object_state) res" where
  "od_parse_chunks E tw s =
     bindE (od_parse E tw s) (\<lambda>(t, tw1, s1).
     bindE (get_chunks t) (\<lambda>cs. case cs of None \<Rightarrow> Inl Null_deref | Some cs \<Rightarrow> Inr (cs, tw1, s1)))"

text \<open>\<open><<\<close> of a tree or of a tweast, that takes a number from the counter.\<close>

definition od_insert ::
  "('a \<Rightarrow> tweast \<times> u32 \<Rightarrow> tweast \<times> u32) \<Rightarrow> 'a \<Rightarrow> tweast \<Rightarrow> object_state \<Rightarrow> tweast \<times> object_state" where
  "od_insert f x tw s = (let (tw1, c) = f x (tw, od_count s) in (tw1, s\<lparr>od_count := c\<rparr>))"

section \<open>Names\<close>

definition upcast_fun_name :: "object_env \<Rightarrow> addr \<Rightarrow> addr \<Rightarrow> string res" where
  "upcast_fun_name E from to =
     bindE (class_name E from) (\<lambda>nf. bindE (class_name E to) (\<lambda>nt. Inr (''_upcast_'' @ nf @ ''_to_'' @ nt)))"

definition downcast_fun_name :: "object_env \<Rightarrow> addr \<Rightarrow> addr \<Rightarrow> string res" where
  "downcast_fun_name E from to =
     bindE (class_name E from) (\<lambda>nf. bindE (class_name E to) (\<lambda>nt. Inr (''_downcast_'' @ nf @ ''_to_'' @ nt)))"

definition dispatch_fun_name :: "object_env \<Rightarrow> addr \<Rightarrow> addr \<Rightarrow> object_state \<Rightarrow> string res" where
  "dispatch_fun_name E owner m s =
     bindE (class_name E owner) (\<lambda>no. bindE (method_at (ob_store E) m) (\<lambda>x. Inr (''_dispatch_'' @
       (case map_find (dispatch_map s) m of Some n \<Rightarrow> dec_nat (unat n) @ ''_'' | None \<Rightarrow> []) @ no @ ''_'' @ method_name x)))"

definition adapt_type :: "object_env \<Rightarrow> ast \<Rightarrow> addr option \<Rightarrow> addr option \<Rightarrow> object_state \<Rightarrow> (ast \<times> object_state) res" where
  "adapt_type E source_exp source_type target_type s = (case (source_type, target_type) of
     (Some a, Some b) \<Rightarrow>
       if a = b then Inr (source_exp, s)
       else bindE (upcast_fun_name E a b) (\<lambda>f.
            let (tw, s1) = od_insert tw_put_exp source_exp (tw_put (f @ '' ('') tw_default) s
            in od_parse_exp E (tw_put '')'' tw) s1)
   | _ \<Rightarrow> Inr (source_exp, s))"

section \<open>Variants\<close>

definition super_slot :: "object_env \<Rightarrow> field_inits \<Rightarrow> addr \<Rightarrow> class_obj \<Rightarrow> tweast \<Rightarrow> tweast res" where
  "super_slot E inits a c tw =
     (if has_data c
      then bindE (class_name E a) (\<lambda>n. bindE (map_call inits a) (\<lambda>init.
             Inr (tw_put init (tw_put ('','' @ newline @ ''field_'' @ n @ '' = '') tw))))
      else Inr tw)"

definition sub_slot :: "object_env \<Rightarrow> field_inits \<Rightarrow> addr \<Rightarrow> tweast \<Rightarrow> tweast res" where
  "sub_slot E inits a tw =
     bindE (class_at (ob_store E) a) (\<lambda>c.
     if has_data c
     then bindE (class_name E a) (\<lambda>n. Inr (tw_put (case map_find inits a of Some v \<Rightarrow> v | None \<Rightarrow> ''nil'')
            (tw_put ('','' @ newline @ ''field_'' @ n @ '' = '') tw)))
     else Inr tw)"

text \<open>The text of \<open>variant_exp\<close>.\<close>

definition variant_input :: "object_env \<Rightarrow> addr \<Rightarrow> string \<Rightarrow> field_inits \<Rightarrow> tweast res" where
  "variant_input E static_type exact_type inits =
     bindE (class_name E static_type) (\<lambda>n.
     bindE (for_supers (ob_store E) (super_slot E inits) static_type
       (tw_put ('' _variant_'' @ n @ '' {   exact_type = '' @ exact_type) tw_default)) (\<lambda>tw1.
     bindE (class_at (ob_store E) static_type) (\<lambda>c.
     bindE (foldE (sub_slot E inits) (class_subclasses c) tw1) (\<lambda>tw2.
       Inr (tw_put ('' }'' @ newline) tw2)))))"

definition variant_exp_of :: "object_env \<Rightarrow> addr \<Rightarrow> string \<Rightarrow> field_inits \<Rightarrow> object_state \<Rightarrow> (ast \<times> object_state) res" where
  "variant_exp_of E static_type exact_type inits s =
     bindE (variant_input E static_type exact_type inits) (\<lambda>input. od_parse_exp E input s)"

definition variant_exp :: "object_env \<Rightarrow> addr \<Rightarrow> addr \<Rightarrow> field_inits \<Rightarrow> object_state \<Rightarrow> (ast \<times> object_state) res" where
  "variant_exp E static_type dynamic_type inits s =
     bindE (class_name E dynamic_type) (\<lambda>n. variant_exp_of E static_type (''_id_'' @ n) inits s)"

definition fill_variant_fields :: "object_env \<Rightarrow> addr \<Rightarrow> class_obj \<Rightarrow> tweast \<Rightarrow> tweast res" where
  "fill_variant_fields E a c tw =
     (if has_data c
      then bindE (class_name E a) (\<lambda>n. Inr (tw_put ('','' @ newline @ ''   field_'' @ n @ '' :    _contents_'' @ n) tw))
      else Inr tw)"

definition variant_ty :: "object_env \<Rightarrow> addr \<Rightarrow> tweast res" where
  "variant_ty E class_type =
     bindE (for_supers (ob_store E) (fill_variant_fields E) class_type (tw_put '' {   exact_type : int'' tw_default)) (\<lambda>tw1.
     bindE (class_at (ob_store E) class_type) (\<lambda>c.
     bindE (foldE (\<lambda>a tw. bindE (class_at (ob_store E) a) (\<lambda>c. fill_variant_fields E a c tw)) (class_subclasses c) tw1) (\<lambda>tw2.
       Inr (tw_put ('' }'' @ newline) tw2))))"

section \<open>Conversions\<close>

definition fill_init_list :: "object_env \<Rightarrow> addr \<Rightarrow> class_obj \<Rightarrow> field_inits \<Rightarrow> field_inits res" where
  "fill_init_list E a c inits =
     (if has_data c then bindE (class_name E a) (\<lambda>n. Inr (put inits a (''source.field_'' @ n))) else Inr inits)"

definition source_inits :: "object_env \<Rightarrow> addr \<Rightarrow> field_inits res" where
  "source_inits E source =
     bindE (for_supers (ob_store E) (fill_init_list E) source []) (\<lambda>inits.
     bindE (class_at (ob_store E) source) (\<lambda>c.
       foldE (\<lambda>a inits. bindE (class_at (ob_store E) a) (\<lambda>c. fill_init_list E a c inits)) (class_subclasses c) inits))"

definition cast_function ::
  "object_env \<Rightarrow> string \<Rightarrow> addr \<Rightarrow> addr \<Rightarrow> addr \<Rightarrow> object_state \<Rightarrow> (tweast \<times> object_state) res" where
  "cast_function E name source target exact_type s =
     bindE (class_name E source) (\<lambda>ns. bindE (class_name E target) (\<lambda>nt.
     let input = tw_put ('' function '' @ name @ ''   (source : _variant_'' @ ns @ '') :   _variant_'' @ nt @ '' = '') tw_default
     in bindE (source_inits E source) (\<lambda>inits.
        bindE (variant_exp E target exact_type inits s) (\<lambda>(e, s1).
        let (tw, s2) = od_insert tw_put_exp e input s1
        in Inr (tw_put newline tw, s2)))))"

definition upcast_function :: "object_env \<Rightarrow> addr \<Rightarrow> addr \<Rightarrow> object_state \<Rightarrow> (tweast \<times> object_state) res" where
  "upcast_function E source target s =
     bindE (upcast_fun_name E source target) (\<lambda>name. cast_function E name source target source s)"

definition downcast_function :: "object_env \<Rightarrow> addr \<Rightarrow> addr \<Rightarrow> object_state \<Rightarrow> (tweast \<times> object_state) res" where
  "downcast_function E source target s =
     bindE (downcast_fun_name E source target) (\<lambda>name. cast_function E name source target target s)"

section \<open>Dispatch\<close>

definition method_call :: "object_env \<Rightarrow> symbol \<Rightarrow> symbol \<Rightarrow> string \<Rightarrow> ast \<Rightarrow> tweast" where
  "method_call E cname mname target formals =
     tw_put '')'' (tw_put (pass_formals E formals) (tw_put (pass_target E target)
       (tw_put (''_method_'' @ cname @ ''_'' @ mname @ '' ('') tw_default)))"

text \<open>Whether a class is declared in a chunk of types.\<close>

definition declared_in :: "object_env \<Rightarrow> ast \<Rightarrow> addr \<Rightarrow> bool" where
  "declared_in E chunk c = (case chunk of TypeChunk _ ds \<Rightarrow> list_ex (\<lambda>d. class_query E d = Some c) ds | _ \<Rightarrow> False)"

text \<open>The loop on \<open>nearest_c\<close>; a null pointer has no name.\<close>

definition nearest_class :: "class_store \<Rightarrow> symbol \<Rightarrow> addr \<Rightarrow> addr option res" where
  "nearest_class T mname a = for_supers T (\<lambda>b c found. case found of
     Some x \<Rightarrow> Inr (Some x)
   | None \<Rightarrow> bindE (owned_meth_find T mname c) (\<lambda>m. Inr (if m = None then None else Some b))) a None"

definition switch_case ::
  "object_env \<Rightarrow> addr \<Rightarrow> symbol \<Rightarrow> ast \<Rightarrow> addr \<Rightarrow> bool \<times> tweast \<times> object_state \<Rightarrow> (bool \<times> tweast \<times> object_state) res" where
  "switch_case E class_type mname formals c = (\<lambda>(first, tw, s).
     bindE (class_name E c) (\<lambda>n.
     let tw1 = tw_put ('' if self.exact_type = _id_'' @ n @ '' then '') (if first then tw else tw_put '' else '' tw)
     in bindE (nearest_class (ob_store E) mname c) (\<lambda>near. case near of
          None \<Rightarrow> Inl Range_error
        | Some nc \<Rightarrow>
            bindE (class_name E nc) (\<lambda>nn.
            bindE (if class_type \<noteq> nc then bindE (downcast_fun_name E class_type nc) (\<lambda>f. Inr (f @ '' (self)'')) else Inr ''self'')
              (\<lambda>target.
            let (tw2, s1) = od_insert tw_put_tweast (method_call E nn mname target formals) tw1 s
            in Inr (False, tw2, s1))))))"

definition formal_names :: "ast \<Rightarrow> symbol list" where
  "formal_names f = (case f of VarChunk _ ds \<Rightarrow> map (\<lambda>d. case d of VarDec _ x _ _ \<Rightarrow> x | _ \<Rightarrow> []) ds | _ \<Rightarrow> [])"

definition dec_formals :: "ast \<Rightarrow> ast" where
  "dec_formals d = (case d of MethodDec _ _ f _ _ \<Rightarrow> f | _ \<Rightarrow> d)"

definition dec_result :: "ast \<Rightarrow> ast option" where
  "dec_result d = (case d of MethodDec _ _ _ r _ \<Rightarrow> r | _ \<Rightarrow> None)"

definition dec_body :: "ast \<Rightarrow> ast option" where
  "dec_body d = (case d of MethodDec _ _ _ _ b \<Rightarrow> b | _ \<Rightarrow> None)"

text \<open>The last branch; \<open>dispatch_map_[method]\<close> inserts a zero when the method has no entry.\<close>

definition switch_default ::
  "object_env \<Rightarrow> addr \<Rightarrow> addr \<Rightarrow> symbol \<Rightarrow> ast \<Rightarrow> addr option \<Rightarrow> tweast \<Rightarrow> object_state \<Rightarrow> (tweast \<times> object_state) res" where
  "switch_default E class_type m mname formals dispatch_method tw s =
     bindE (class_name E class_type) (\<lambda>n.
     if dispatch_method \<noteq> None
     then let (v, dm) = map_subscript 0 (dispatch_map s) m
          in Inr (tw_put ('' else _dispatch_'' @ (if v - 1 \<noteq> 1 then dec_nat (unat (v - 1)) @ ''_'' else []) @ n @ ''_'' @ mname @
               '' (self'' @ concat (map (\<lambda>x. '', '' @ x) (formal_names formals)) @ '')'') tw, s\<lparr>dispatch_map := dm\<rparr>)
     else Inr (od_insert tw_put_tweast (method_call E n mname ''self'' formals) (tw_put '' else '' tw) s))"

definition dispatch_switch ::
  "object_env \<Rightarrow> addr \<Rightarrow> addr \<Rightarrow> ast \<Rightarrow> addr option \<Rightarrow> object_state \<Rightarrow> (ast \<times> object_state) res" where
  "dispatch_switch E class_type m typechunk dispatch_method s =
     bindE (method_at (ob_store E) m) (\<lambda>x.
     let mname = method_name x; formals = dec_formals (switch_dec E m dispatch_method)
     in bindE (class_at (ob_store E) class_type) (\<lambda>c.
        let overridings = filter (declared_in E typechunk) (class_subclasses c)
        in bindE (if overridings = []
                  then bindE (class_name E class_type) (\<lambda>n.
                         Inr (od_insert tw_put_tweast (method_call E n mname ''self'' formals) tw_default s))
                  else bindE (foldE (switch_case E class_type mname formals) overridings (True, tw_default, s)) (\<lambda>(first, tw, s1).
                         switch_default E class_type m mname formals dispatch_method tw s1))
             (\<lambda>(tw, s2). od_parse_exp E (tw_put newline tw) s2)))"

text \<open>The signature of the function of a method: its formals, after \<open>self\<close>, and its result.\<close>

definition put_formal ::
  "object_state visit \<Rightarrow> ast \<Rightarrow> tweast \<times> object_state \<Rightarrow> (tweast \<times> object_state) res" where
  "put_formal visit arg = (\<lambda>(tw, s). case arg of
     VarDec _ x (Some t) _ \<Rightarrow>
       bindE (recurse visit is_NameTy t s) (\<lambda>(t', s1).
         Inr (od_insert tw_put_namety t' (tw_put ('', '' @ x @ '' : '') tw) s1))
   | _ \<Rightarrow> Inl Null_deref)"

definition put_signature ::
  "object_state visit \<Rightarrow> ast \<Rightarrow> tweast \<times> object_state \<Rightarrow> (tweast \<times> object_state) res" where
  "put_signature visit d x =
     bindE (foldE (put_formal visit) (case dec_formals d of VarChunk _ ds \<Rightarrow> ds | _ \<Rightarrow> []) x) (\<lambda>(tw, s).
     let tw1 = tw_put '')'' tw in
     case dec_result d of
       None \<Rightarrow> Inr (tw1, s)
     | Some r \<Rightarrow> bindE (recurse visit is_NameTy r s) (\<lambda>(r', s1). Inr (od_insert tw_put_namety r' (tw_put '' : '' tw1) s1)))"

text \<open>The counter of the dispatch functions of a method.\<close>

definition dispatch_bump :: "addr \<Rightarrow> object_state \<Rightarrow> object_state" where
  "dispatch_bump m s =
     s\<lparr>dispatch_map := (case map_find (dispatch_map s) m of
          None \<Rightarrow> put (dispatch_map s) m 2
        | Some n \<Rightarrow> put (dispatch_map s) m (n + 1)),
       dispatch_added := dispatch_added s @ [m]\<rparr>"

type_synonym dispatch_list = "(addr \<times> addr) set"

text \<open>The loops that begin at \<open>super_get()\<close>.\<close>

definition for_strict_supers :: "class_store \<Rightarrow> (addr \<Rightarrow> class_obj \<Rightarrow> 's \<Rightarrow> 's res) \<Rightarrow> addr \<Rightarrow> 's \<Rightarrow> 's res" where
  "for_strict_supers T f a s =
     bindE (class_at T a) (\<lambda>c. case class_super c of None \<Rightarrow> Inr s | Some p \<Rightarrow> for_supers T f p s)"

text \<open>The sub dispatch function of one super class.\<close>

definition sub_dispatch ::
  "object_env \<Rightarrow> object_state visit \<Rightarrow> ast \<Rightarrow> addr \<Rightarrow> addr \<Rightarrow> class_obj \<Rightarrow> tweast \<times> dispatch_list \<times> object_state
   \<Rightarrow> (tweast \<times> dispatch_list \<times> object_state) res" where
  "sub_dispatch E visit e m a c = (\<lambda>(tw, seen, s).
     if declared_in E e a then Inr (tw, seen, s)
     else bindE (method_at (ob_store E) m) (\<lambda>x.
          bindE (owned_meth_find (ob_store E) (method_name x) c) (\<lambda>found. case found of
            None \<Rightarrow> Inr (tw, seen, s)
          | Some mi \<Rightarrow>
              if (a, mi) \<in> seen then Inr (tw, seen, s)
              else let s1 = dispatch_bump mi s
                   in bindE (dispatch_fun_name E a mi s1) (\<lambda>f.
                      bindE (class_name E a) (\<lambda>n.
                      bindE (put_signature visit (method_dec E mi) (tw_put ('' function '' @ f @ '' (self : _variant_'' @ n) tw, s1)) (\<lambda>(tw1, s2).
                      bindE (dispatch_switch E a mi e (Some m) s2) (\<lambda>(sw, s3).
                      let (tw2, s4) = od_insert tw_put_exp sw (tw_put '' = '' tw1) s3
                      in Inr (tw2, insert (a, mi) seen, s4))))))))"

definition dispatch_function ::
  "object_env \<Rightarrow> object_state visit \<Rightarrow> ast \<Rightarrow> addr \<Rightarrow> symbol \<Rightarrow> addr \<Rightarrow> tweast \<times> dispatch_list \<times> object_state
   \<Rightarrow> (tweast \<times> dispatch_list \<times> object_state) res" where
  "dispatch_function E visit e cls cname m x =
     bindE (for_strict_supers (ob_store E) (sub_dispatch E visit e m) cls x) (\<lambda>(tw, seen, s).
     bindE (dispatch_fun_name E cls m s) (\<lambda>f.
     bindE (put_signature visit (method_dec E m) (tw_put ('' function '' @ f @ '' (self : _variant_'' @ cname) tw, s)) (\<lambda>(tw1, s1).
     bindE (dispatch_switch E cls m e None s1) (\<lambda>(sw, s2).
     let (tw2, s3) = od_insert tw_put_exp sw (tw_put '' = '' tw1) s2
     in Inr (tw2, seen, s3)))))"

section \<open>Classes\<close>

definition ctor_attr ::
  "object_env \<Rightarrow> object_state visit \<Rightarrow> attribute \<Rightarrow> bool \<times> tweast \<times> object_state \<Rightarrow> (bool \<times> tweast \<times> object_state) res" where
  "ctor_attr E visit a = (\<lambda>(first, tw, s).
     let tw1 = (if first then tw else tw_put '', '' tw) in
     case attribute_dec E a of
       VarDec _ x tn init \<Rightarrow>
         bindE (recurse_opt visit is_Exp init s) (\<lambda>(init', s1).
         case init' of
           None \<Rightarrow> Inl Null_deref
         | Some i \<Rightarrow>
             bindE (case (init, tn) of
                 (Some i0, Some t) \<Rightarrow> adapt_type E i (class_query E i0) (class_query E t) s1
               | _ \<Rightarrow> Inr (i, s1)) (\<lambda>(i1, s2).
             let (tw2, s3) = od_insert tw_put_exp i1 (tw_put (x @ '' = '') tw1) s2
             in Inr (False, tw2, s3)))
     | _ \<Rightarrow> Inl Null_deref)"

definition ctor_contents ::
  "object_env \<Rightarrow> object_state visit \<Rightarrow> addr \<Rightarrow> class_obj \<Rightarrow> tweast \<times> object_state \<Rightarrow> (tweast \<times> object_state) res" where
  "ctor_contents E visit a c = (\<lambda>(tw, s).
     if has_data c
     then bindE (class_name E a) (\<lambda>n.
          bindE (foldE (ctor_attr E visit) (class_attrs c)
            (True, tw_put ('' var contents_'' @ n @ '' :=  _contents_'' @ n @ '' { '') tw, s)) (\<lambda>(first, tw1, s1).
            Inr (tw_put '' } '' tw1, s1)))
     else Inr (tw, s))"

definition desugar_constructor ::
  "object_env \<Rightarrow> object_state visit \<Rightarrow> addr \<Rightarrow> symbol \<Rightarrow> tweast \<times> object_state \<Rightarrow> (tweast \<times> object_state) res" where
  "desugar_constructor E visit cls cname = (\<lambda>(tw, s).
     bindE (for_supers (ob_store E) (ctor_contents E visit) cls
       (tw_put ('' function _new_'' @ cname @ ''() :  _variant_'' @ cname @ '' =  let'') tw, s)) (\<lambda>(tw1, s1).
     let tw2 = tw_put '' in '' tw1 in
     bindE (for_supers (ob_store E) (\<lambda>a c inits. Inr (if has_data c then ctor_init E a inits else inits)) cls []) (\<lambda>inits.
     bindE (variant_exp E cls cls inits s1) (\<lambda>(e, s2).
     let (tw3, s3) = od_insert tw_put_exp e tw2 s2
     in Inr (tw_put ('' end'' @ newline) tw3, s3)))))"

definition desugar_method ::
  "object_env \<Rightarrow> object_state visit \<Rightarrow> addr \<Rightarrow> symbol \<Rightarrow> tweast \<times> object_state \<Rightarrow> (tweast \<times> object_state) res" where
  "desugar_method E visit m cname = (\<lambda>(tw, s).
     bindE (method_at (ob_store E) m) (\<lambda>x.
     let d = method_dec E m in
     bindE (put_signature visit d
       (tw_put ('' function _method_'' @ cname @ ''_'' @ method_name x @ '' (self : _variant_'' @ cname) tw, s)) (\<lambda>(tw1, s1).
     case dec_body d of
       None \<Rightarrow> Inl Null_deref
     | Some b \<Rightarrow>
         bindE (recurse visit is_Exp b s1) (\<lambda>(b1, s2).
         bindE (case dec_result d of
             Some r \<Rightarrow> adapt_type E b1 (class_query E b) (class_query E r) s2
           | None \<Rightarrow> Inr (b1, s2)) (\<lambda>(b2, s3).
         let (tw2, s4) = od_insert tw_put_exp b2 (tw_put '' = '' tw1) s3
         in Inr (tw_put newline tw2, s4))))))"

text \<open>The two loops on the conversions: those to the super classes go to \<open>funs_tweast\<close>.\<close>

definition put_upcast :: "object_env \<Rightarrow> addr \<Rightarrow> addr \<Rightarrow> class_obj \<Rightarrow> object_state \<Rightarrow> object_state res" where
  "put_upcast E cls a c s =
     bindE (upcast_function E cls a s) (\<lambda>(f, s1).
       let (tw, s2) = od_insert tw_put_tweast f (od_funs s1) s1 in Inr (s2\<lparr>od_funs := tw\<rparr>))"

definition put_downcast :: "object_env \<Rightarrow> addr \<Rightarrow> addr \<Rightarrow> tweast \<times> object_state \<Rightarrow> (tweast \<times> object_state) res" where
  "put_downcast E cls a = (\<lambda>(tw, s).
     bindE (downcast_function E cls a s) (\<lambda>(f, s1). Inr (od_insert tw_put_tweast f tw s1)))"

definition put_method ::
  "object_env \<Rightarrow> object_state visit \<Rightarrow> ast \<Rightarrow> addr \<Rightarrow> symbol \<Rightarrow> addr \<Rightarrow> tweast \<times> dispatch_list \<times> object_state
   \<Rightarrow> (tweast \<times> dispatch_list \<times> object_state) res" where
  "put_method E visit e cls cname m = (\<lambda>(tw, seen, s).
     bindE (desugar_method E visit m cname (tw, s)) (\<lambda>(tw1, s1). dispatch_function E visit e cls cname m (tw1, seen, s1)))"

definition put_class_id :: "symbol \<Rightarrow> u32 \<Rightarrow> object_state \<Rightarrow> object_state" where
  "put_class_id cname n s =
     s\<lparr>od_class_ids := tw_put ('' var _id_'' @ cname @ '' := '' @ dec_nat (unat n) @ newline) (od_class_ids s)\<rparr>"

definition put_contents :: "object_env \<Rightarrow> addr \<Rightarrow> symbol \<Rightarrow> object_state \<Rightarrow> object_state res" where
  "put_contents E cls cname s =
     bindE (contents_fields E cls (s\<lparr>od_types := tw_put ('' type _contents_'' @ cname @ '' = { '') (od_types s)\<rparr>)) (\<lambda>s1.
       Inr (s1\<lparr>od_types := tw_put ('' }'' @ newline) (od_types s1)\<rparr>))"

definition put_variant :: "object_env \<Rightarrow> addr \<Rightarrow> string \<Rightarrow> object_state \<Rightarrow> object_state res" where
  "put_variant E cls head s =
     bindE (variant_ty E cls) (\<lambda>v.
       let (tw, s1) = od_insert tw_put_tweast v (tw_put head (od_types s)) s in Inr (s1\<lparr>od_types := tw\<rparr>))"

definition handle_class ::
  "object_env \<Rightarrow> object_state visit \<Rightarrow> ast \<Rightarrow> addr \<Rightarrow> tweast \<times> dispatch_list \<times> object_state
   \<Rightarrow> (tweast \<times> dispatch_list \<times> object_state) res" where
  "handle_class E visit e cls = (\<lambda>(tw, seen, s).
     bindE (class_name E cls) (\<lambda>cname.
     bindE (class_at (ob_store E) cls) (\<lambda>c.
     bindE (if has_data c then put_contents E cls cname (put_class_id cname (class_id c) s)
            else Inr (put_class_id cname (class_id c) s)) (\<lambda>s1.
     bindE (put_variant E cls ('' type _variant_'' @ cname @ '' ='') s1) (\<lambda>s2.
     bindE (desugar_constructor E visit cls cname (tw, s2)) (\<lambda>(tw1, s3).
     bindE (for_strict_supers (ob_store E) (put_upcast E cls) cls s3) (\<lambda>s4.
     bindE (foldE (put_downcast E cls) (class_subclasses c) (tw1, s4)) (\<lambda>(tw2, s5).
       foldE (put_method E visit e cls cname) (class_meths c) (tw2, seen, s5)))))))))"

section \<open>Visits\<close>

fun od_chunks :: "object_state visit \<Rightarrow> ast list \<Rightarrow> ast list \<Rightarrow> object_state \<Rightarrow> (ast list \<times> object_state) res" where
  "od_chunks visit [] contents s = Inr (contents, s)"
| "od_chunks visit (d # ds) contents s =
     bindE (visit d s) (\<lambda>s1. case result s1 of
       None \<Rightarrow> Inl Unreachable
     | Some r \<Rightarrow>
         if is_Chunk r then od_chunks visit ds (contents @ [r]) s1
         else (case r of ChunkList _ cs \<Rightarrow> od_chunks visit ds (contents @ cs) s1 | _ \<Rightarrow> Inl Unreachable))"

definition od_ChunkList :: "object_state visit \<Rightarrow> header \<Rightarrow> ast list \<Rightarrow> object_state \<Rightarrow> object_state res" where
  "od_ChunkList visit h xs s =
     bindE (od_chunks visit xs [] s) (\<lambda>(contents, s1). Inr (cl_new (new_ChunkList (loc h) contents) s1))"

definition put_dec ::
  "object_env \<Rightarrow> object_state visit \<Rightarrow> ast \<Rightarrow> ast \<Rightarrow> tweast \<times> dispatch_list \<times> object_state
   \<Rightarrow> (tweast \<times> dispatch_list \<times> object_state) res" where
  "put_dec E visit e t = (\<lambda>(tw, seen, s). case dec_class E t of
     Some cls \<Rightarrow> handle_class E visit e cls (tw, seen, s)
   | None \<Rightarrow>
       bindE (recurse visit is_TypeDec t s) (\<lambda>(d, s1).
       bindE (print_ast (ob_print E) d (ostream_new :: unit ostream)) (\<lambda>os.
         Inr (tw, seen, s1\<lparr>od_types := tw_put (text_of os @ newline) (od_types s1)\<rparr>))))"

definition od_TypeChunk :: "object_env \<Rightarrow> object_state visit \<Rightarrow> header \<Rightarrow> ast list \<Rightarrow> object_state \<Rightarrow> object_state res" where
  "od_TypeChunk E visit h ds s =
     bindE (foldE (put_dec E visit (TypeChunk h ds)) ds (tw_default, {}, s)) (\<lambda>(functions, seen, s1).
     bindE (od_parse_chunks E functions s1) (\<lambda>(cs, tw, s2).
     bindE (tw_delete tw) (\<lambda>_. Inr (s2\<lparr>result := Some cs\<rparr>))))"


definition od_VarDec ::
  "object_env \<Rightarrow> object_state visit \<Rightarrow> header \<Rightarrow> symbol \<Rightarrow> ast option \<Rightarrow> ast option \<Rightarrow> object_state \<Rightarrow> object_state res" where
  "od_VarDec E visit h name tn init s =
     (if class_query E (VarDec h name tn init) = None then cl_VarDec visit h name tn init s
      else case init of
        Some i \<Rightarrow> (case tn of
            Some t \<Rightarrow>
              bindE (recurse visit is_NameTy t s) (\<lambda>(t', s1).
              bindE (recurse visit is_Exp i s1) (\<lambda>(i', s2).
              bindE (init_cast E (VarDec h name tn init) i' s2) (\<lambda>(i'', s3).
                Inr (cl_new (new_VarDec (loc h) name (Some t') (Some i'')) s3))))
          | None \<Rightarrow> cl_VarDec visit h name tn init s)
      | None \<Rightarrow>
          bindE (recurse_opt visit is_NameTy tn s) (\<lambda>(t', s1).
          if t' = None then Inl Assertion else Inr (cl_new (new_VarDec (loc h) name t' None) s1)))"

text \<open>The end of the scope of a dispatch function: \<open>dispatch_map_[meth]\<close> inserts a zero when there is no entry.\<close>

definition dispatch_leave :: "addr \<Rightarrow> object_state \<Rightarrow> object_state res" where
  "dispatch_leave m s =
     (let (n, dm) = map_subscript 0 (dispatch_map s) m
      in if n = 2 then bindE (map_take m dm) (\<lambda>(_, dm1). Inr (s\<lparr>dispatch_map := dm1\<rparr>))
         else Inr (s\<lparr>dispatch_map := put dm m (n - 1)\<rparr>))"

definition od_LetExp :: "object_state visit \<Rightarrow> header \<Rightarrow> ast \<Rightarrow> ast \<Rightarrow> object_state \<Rightarrow> object_state res" where
  "od_LetExp visit h cs b s =
     bindE (cl_LetExp visit h cs b (s\<lparr>dispatch_added := []\<rparr>)) (\<lambda>s1.
     bindE (foldE dispatch_leave (dispatch_added s1) s1) (\<lambda>s2.
       Inr (s2\<lparr>dispatch_added := dispatch_added s\<rparr>)))"

text \<open>The function of the program.\<close>

definition main_before :: "object_env \<Rightarrow> object_state \<Rightarrow> object_state res" where
  "main_before E s =
     bindE (put_variant E (object_class E) ''   type _variant_Object ='' s) (\<lambda>s1.
     bindE (class_at (ob_store E) (object_class E)) (\<lambda>c.
       Inr (s1\<lparr>od_class_ids := tw_put (''   var  _id_Object :=         '' @ dec_nat (unat (class_id c))) (od_class_ids s1)\<rparr>)))"

definition replace_body :: "object_env \<Rightarrow> (ast \<Rightarrow> object_state \<Rightarrow> (ast \<times> object_state) res) \<Rightarrow> object_state \<Rightarrow> object_state res" where
  "replace_body E f s = (case result s of
     Some (FunctionDec h name fs rt (Some b)) \<Rightarrow>
       bindE (f b s) (\<lambda>(b1, s1). Inr (s1\<lparr>result := Some (FunctionDec h name fs rt (Some b1))\<rparr>))
   | _ \<Rightarrow> Inl Null_deref)"

definition main_after :: "object_env \<Rightarrow> object_state \<Rightarrow> object_state res" where
  "main_after E s =
     bindE (variant_exp E (object_class E) (object_class E) (put [] (object_class E) ''_contents_Object {}'') s) (\<lambda>(e, s1).
     let (tw, s2) = od_insert tw_put_exp e (tw_put ''   function _new_Object() :     _variant_Object ='' (od_funs s1)) s1 in
     bindE (od_parse_chunks E (od_types s2) s2) (\<lambda>(types, tt, s3).
     bindE (od_parse_chunks E (od_class_ids s3) s3) (\<lambda>(ids, ti, s4).
     bindE (od_parse_chunks E tw s4) (\<lambda>(funs, tf, s5).
     replace_body E (\<lambda>b s6.
       let (tw1, s7) = od_insert tw_put_chunks (snd (cl_splice_back funs (snd (cl_splice_back ids types)))) (tw_put ''let '' tw_default) s6;
           (tw2, s8) = od_insert tw_put_exp b (tw_put '' in '' tw1) s7
       in od_parse_exp E (tw_put '' end'' tw2) s8)
       (s5\<lparr>od_types := tt, od_class_ids := ti, od_funs := tf\<rparr>)))))"

definition cast_result :: "object_env \<Rightarrow> ast option \<Rightarrow> ast option \<Rightarrow> object_state \<Rightarrow> object_state res" where
  "cast_result E rt body s = (case (body, rt) of
     (Some b, Some r) \<Rightarrow> (case (class_query E b, class_query E r) of
         (Some x, Some y) \<Rightarrow>
           if x = y then Inr s
           else replace_body E (\<lambda>b1 s1.
                  bindE (upcast_fun_name E x y) (\<lambda>f.
                  let (tw, s2) = od_insert tw_put_exp b1 (tw_put (f @ '' ('') tw_default) s1
                  in od_parse_exp E (tw_put '')'' tw) s2)) s
       | _ \<Rightarrow> Inr s)
   | _ \<Rightarrow> Inr s)"

definition od_FunctionDec ::
  "object_env \<Rightarrow> object_state visit \<Rightarrow> header \<Rightarrow> symbol \<Rightarrow> ast \<Rightarrow> ast option \<Rightarrow> ast option \<Rightarrow> object_state \<Rightarrow> object_state res" where
  "od_FunctionDec E visit h name f rt body s =
     (let is_main = main_function E (FunctionDec h name f rt body) in
      bindE (if is_main then main_before E s else Inr s) (\<lambda>s1.
      bindE (cl_FunctionDec visit h name f rt body s1) (\<lambda>s2.
      bindE (if is_main then main_after E s2 else Inr s2) (\<lambda>s3.
        cast_result E rt body s3))))"

section \<open>The slots of the variants\<close>

definition says :: "tweast \<Rightarrow> string \<Rightarrow> bool" where
  "says tw t \<longleftrightarrow> tw_ok tw \<and> tw_input_get tw = t"

lemma says_default [simp]: "says tw_default []"
  by (simp add: says_def tw_ok_default)

lemma says_put [intro]: "says tw t \<Longrightarrow> says (tw_put x tw) (t @ x)"
  by (simp add: says_def tw_put_ok)

lemma says_putI: "says tw t \<Longrightarrow> t' = t @ x \<Longrightarrow> says (tw_put x tw) t'"
  using says_put by simp

lemma foldE_says:
  assumes "\<And>a tw t. a \<in> set as \<Longrightarrow> says tw t \<Longrightarrow> \<exists>tw'. f a tw = Inr tw' \<and> says tw' (t @ g a)" and "says tw t"
  shows "\<exists>tw'. foldE f as tw = Inr tw' \<and> says tw' (t @ concat (map g as))"
  using assms
proof (induction as arbitrary: tw t)
  case (Cons a as)
  from Cons.prems obtain tw1 where 1: "f a tw = Inr tw1" "says tw1 (t @ g a)" by (metis list.set_intros(1))
  have "\<exists>tw'. foldE f as tw1 = Inr tw' \<and> says tw' ((t @ g a) @ concat (map g as))"
    by (rule Cons.IH) (use Cons.prems(1) 1(2) in auto)
  with 1(1) show ?case by auto
qed auto

text \<open>What the desugaring finds: classes whose hierarchy is as it should be, and a name for each.\<close>

definition classes_ok :: "object_env \<Rightarrow> bool" where
  "classes_ok E \<longleftrightarrow> hierarchy_ok (ob_store E) \<and>
     (\<forall>a < length (classes (ob_store E)). map_of (class_names E) a \<noteq> None)"

definition is_class :: "object_env \<Rightarrow> addr \<Rightarrow> bool" where
  "is_class E a \<longleftrightarrow> a < length (classes (ob_store E))"

definition name_of :: "object_env \<Rightarrow> addr \<Rightarrow> symbol" where
  "name_of E a = (case map_of (class_names E) a of Some n \<Rightarrow> n | None \<Rightarrow> [])"

definition supers_of :: "object_env \<Rightarrow> addr \<Rightarrow> addr list" where
  "supers_of E a = (case supers (ob_store E) a of Inr cs \<Rightarrow> cs | Inl _ \<Rightarrow> [])"

definition subs_of :: "object_env \<Rightarrow> addr \<Rightarrow> addr list" where
  "subs_of E a = class_subclasses (classes (ob_store E) ! a)"

text \<open>The classes that have a slot in the variant of a class, in its order.\<close>

definition slots :: "object_env \<Rightarrow> addr \<Rightarrow> addr list" where
  "slots E a = filter (\<lambda>b. has_data (classes (ob_store E) ! b)) (supers_of E a @ subs_of E a)"

lemma class_name_of: "classes_ok E \<Longrightarrow> is_class E a \<Longrightarrow> class_name E a = Inr (name_of E a)"
  by (auto simp: classes_ok_def is_class_def class_name_def map_call_def map_xfind_def map_find_def name_of_def split: option.splits)

lemma class_at_is: "is_class E a \<Longrightarrow> class_at (ob_store E) a = Inr (classes (ob_store E) ! a)"
  by (simp add: class_at_def is_class_def)

lemma supers_of_chain:
  assumes "classes_ok E" "is_class E a"
  shows "chain_of (ob_store E) (Some a) (supers_of E a)" and "a \<in> set (supers_of E a)"
    and "\<And>b. b \<in> set (supers_of E a) \<Longrightarrow> is_class E b"
proof -
  have h: "hierarchy_ok (ob_store E)" "a < length (classes (ob_store E))" using assms by (auto simp: classes_ok_def is_class_def)
  obtain cs where cs: "supers (ob_store E) a = Inr cs" "chain_of (ob_store E) (Some a) cs" "a \<in> set cs"
    "set cs \<subseteq> {..<length (classes (ob_store E))}"
    by (rule hierarchy_chain [OF h])
  then show "chain_of (ob_store E) (Some a) (supers_of E a)" "a \<in> set (supers_of E a)"
    "\<And>b. b \<in> set (supers_of E a) \<Longrightarrow> is_class E b"
    by (auto simp: supers_of_def is_class_def)
qed

lemma subs_of_class:
  assumes "classes_ok E" "is_class E a"
  shows "b \<in> set (subs_of E a) \<longleftrightarrow> is_class E b \<and> b \<noteq> a \<and> a \<in> set (supers_of E b)"
proof -
  have "\<And>b. is_class E b \<Longrightarrow> supers (ob_store E) b = Inr (supers_of E b)"
    using supers_of_chain(1) [OF assms(1)] by (simp add: supers_iff)
  then show ?thesis
    using hierarchy_subclasses(2) [of "ob_store E" a b] assms by (auto simp: classes_ok_def is_class_def subs_of_def)
qed

lemma for_supers_of:
  assumes "classes_ok E" "is_class E a"
  shows "for_supers (ob_store E) f a s = foldE (\<lambda>b s. f b (classes (ob_store E) ! b) s) (supers_of E a) s"
  unfolding for_supers_chain [OF supers_of_chain(1) [OF assms]]
  by (rule foldE_cong) (use supers_of_chain(3) [OF assms] in \<open>auto simp: class_at_is\<close>)

text \<open>The text of a list of slots.\<close>

definition slot_text :: "object_env \<Rightarrow> (addr \<Rightarrow> string) \<Rightarrow> addr list \<Rightarrow> string" where
  "slot_text E f as = concat (map f (filter (\<lambda>b. has_data (classes (ob_store E) ! b)) as))"

lemma slot_text_append: "slot_text E f (xs @ ys) = slot_text E f xs @ slot_text E f ys"
  by (simp add: slot_text_def)

lemma slot_text_concat: "slot_text E f as = concat (map (\<lambda>b. if has_data (classes (ob_store E) ! b) then f b else []) as)"
  by (induction as) (simp_all add: slot_text_def)

lemma slot_text_slots: "slot_text E f (supers_of E a @ subs_of E a) = concat (map f (slots E a))"
  by (simp add: slot_text_def slots_def)

lemma fold_slots:
  assumes "\<And>b tw t. b \<in> set as \<Longrightarrow> has_data (classes (ob_store E) ! b) \<Longrightarrow> says tw t \<Longrightarrow> \<exists>tw'. f b tw = Inr tw' \<and> says tw' (t @ g b)"
    and "\<And>b tw. b \<in> set as \<Longrightarrow> \<not> has_data (classes (ob_store E) ! b) \<Longrightarrow> f b tw = Inr tw" and "says tw t"
  shows "\<exists>tw'. foldE f as tw = Inr tw' \<and> says tw' (t @ slot_text E g as)"
  unfolding slot_text_concat by (rule foldE_says) (use assms in force)+

text \<open>\<open>variant_ty\<close> and \<open>variant_exp\<close> have the same slots in the same order.\<close>

definition type_slot :: "object_env \<Rightarrow> addr \<Rightarrow> string" where
  "type_slot E b = '','' @ newline @ ''   field_'' @ name_of E b @ '' :    _contents_'' @ name_of E b"

definition value_slot :: "object_env \<Rightarrow> (addr \<Rightarrow> string) \<Rightarrow> addr \<Rightarrow> string" where
  "value_slot E v b = '','' @ newline @ ''field_'' @ name_of E b @ '' = '' @ v b"

lemma variant_ty_text:
  assumes ok: "classes_ok E" and a: "is_class E a"
  shows "\<exists>tw. variant_ty E a = Inr tw \<and>
    says tw ('' {   exact_type : int'' @ concat (map (type_slot E) (slots E a)) @ '' }'' @ newline)"
proof -
  have f: "\<exists>tw'. fill_variant_fields E b (classes (ob_store E) ! b) tw = Inr tw' \<and> says tw' (t @ type_slot E b)"
    if "is_class E b" "has_data (classes (ob_store E) ! b)" "says tw t" for b tw t
    using that says_put [OF that(3)] by (simp add: fill_variant_fields_def class_name_of [OF ok] type_slot_def)
  have n: "fill_variant_fields E b (classes (ob_store E) ! b) tw = Inr tw" if "\<not> has_data (classes (ob_store E) ! b)" for b tw
    using that by (simp add: fill_variant_fields_def)
  have s0: "says (tw_put '' {   exact_type : int'' tw_default) '' {   exact_type : int''"
    using says_put [OF says_default] by simp
  obtain tw1 where 1: "for_supers (ob_store E) (fill_variant_fields E) a (tw_put '' {   exact_type : int'' tw_default) = Inr tw1"
    "says tw1 ('' {   exact_type : int'' @ slot_text E (type_slot E) (supers_of E a))"
    using fold_slots [of "supers_of E a" E "\<lambda>b. fill_variant_fields E b (classes (ob_store E) ! b)" "type_slot E", OF _ _ s0]
      f n supers_of_chain(3) [OF ok a] unfolding for_supers_of [OF ok a] by blast
  have "\<exists>tw2. foldE (\<lambda>b tw. bindE (class_at (ob_store E) b) (\<lambda>c. fill_variant_fields E b c tw)) (subs_of E a) tw1 = Inr tw2 \<and>
      says tw2 (('' {   exact_type : int'' @ slot_text E (type_slot E) (supers_of E a)) @ slot_text E (type_slot E) (subs_of E a))"
    by (rule fold_slots [OF _ _ 1(2)]) (use f n subs_of_class [OF ok a] in \<open>auto simp: class_at_is\<close>)
  then obtain tw2 where 2: "foldE (\<lambda>b tw. bindE (class_at (ob_store E) b) (\<lambda>c. fill_variant_fields E b c tw)) (subs_of E a) tw1 = Inr tw2"
    "says tw2 ('' {   exact_type : int'' @ concat (map (type_slot E) (slots E a)))"
    by (auto simp: slot_text_append simp flip: slot_text_slots)
  show ?thesis
    using 1(1) 2(1) says_put [OF 2(2)] by (simp add: variant_ty_def class_at_is [OF a] flip: subs_of_def)
qed

lemma variant_input_text:
  assumes ok: "classes_ok E" and a: "is_class E a"
    and given: "\<And>b. b \<in> set (supers_of E a) \<Longrightarrow> has_data (classes (ob_store E) ! b) \<Longrightarrow> map_of inits b \<noteq> None"
  shows "\<exists>tw. variant_input E a exact inits = Inr tw \<and>
    says tw ('' _variant_'' @ name_of E a @ '' {   exact_type = '' @ exact @
      concat (map (value_slot E (\<lambda>b. case map_of inits b of Some v \<Rightarrow> v | None \<Rightarrow> ''nil'')) (slots E a)) @ '' }'' @ newline)"
proof -
  let ?v = "value_slot E (\<lambda>b. case map_of inits b of Some v \<Rightarrow> v | None \<Rightarrow> ''nil'')"
  let ?h = "'' _variant_'' @ name_of E a @ '' {   exact_type = '' @ exact"
  have p: "\<exists>tw'. super_slot E inits b (classes (ob_store E) ! b) tw = Inr tw' \<and> says tw' (t @ ?v b)"
    if "b \<in> set (supers_of E a)" "has_data (classes (ob_store E) ! b)" "says tw t" for b tw t
    using given [OF that(1,2)] supers_of_chain(3) [OF ok a that(1)] that(2)
    by (auto simp: super_slot_def class_name_of [OF ok] value_slot_def map_call_def map_xfind_def map_find_def
      intro!: says_putI [OF says_putI [OF that(3)]])
  have b: "\<exists>tw'. sub_slot E inits b tw = Inr tw' \<and> says tw' (t @ ?v b)"
    if "is_class E b" "has_data (classes (ob_store E) ! b)" "says tw t" for b tw t
    using that(1,2)
    by (auto simp: sub_slot_def class_at_is class_name_of [OF ok] value_slot_def map_find_def
      intro!: says_putI [OF says_putI [OF that(3)]])
  have s0: "says (tw_put ?h tw_default) ?h" using says_put [OF says_default] by simp
  obtain tw1 where 1: "for_supers (ob_store E) (super_slot E inits) a (tw_put ?h tw_default) = Inr tw1"
    "says tw1 (?h @ slot_text E ?v (supers_of E a))"
    using fold_slots [of "supers_of E a" E "\<lambda>b. super_slot E inits b (classes (ob_store E) ! b)" ?v, OF _ _ s0] p
    unfolding for_supers_of [OF ok a] by (auto simp: super_slot_def)
  have "\<exists>tw2. foldE (sub_slot E inits) (subs_of E a) tw1 = Inr tw2 \<and>
      says tw2 ((?h @ slot_text E ?v (supers_of E a)) @ slot_text E ?v (subs_of E a))"
    by (rule fold_slots [OF b _ 1(2)]) (use subs_of_class [OF ok a] in \<open>auto simp: class_at_is sub_slot_def\<close>)
  then obtain tw2 where 2: "foldE (sub_slot E inits) (subs_of E a) tw1 = Inr tw2" "says tw2 (?h @ concat (map ?v (slots E a)))"
    by (auto simp: slot_text_append simp flip: slot_text_slots)
  show ?thesis
    using 1(1) 2(1) says_put [OF 2(2)] by (simp add: variant_input_def class_name_of [OF ok a] class_at_is [OF a] flip: subs_of_def)
qed

text \<open>The initialisations that a conversion copies.\<close>

lemma fold_inits:
  assumes "\<And>b m. b \<in> set as \<Longrightarrow> f b m = Inr (if has_data (classes (ob_store E) ! b) then put m b (v b) else m)" and "sorted_keys m"
  shows "\<exists>m'. foldE f as m = Inr m' \<and> sorted_keys m' \<and>
    map_of m' = (\<lambda>b. if b \<in> set as \<and> has_data (classes (ob_store E) ! b) then Some (v b) else map_of m b)"
  using assms
proof (induction as arbitrary: m)
  case (Cons a as)
  let ?m = "if has_data (classes (ob_store E) ! a) then put m a (v a) else m"
  have "\<exists>m'. foldE f as ?m = Inr m' \<and> sorted_keys m' \<and>
    map_of m' = (\<lambda>b. if b \<in> set as \<and> has_data (classes (ob_store E) ! b) then Some (v b) else map_of ?m b)"
    by (rule Cons.IH) (use Cons.prems put_sorted in auto)
  then show ?case using Cons.prems by (auto simp: put_map fun_eq_iff)
qed auto

lemma source_inits_map:
  assumes ok: "classes_ok E" and a: "is_class E a"
  shows "\<exists>m. source_inits E a = Inr m \<and>
    map_of m = (\<lambda>b. if b \<in> set (slots E a) then Some (''source.field_'' @ name_of E b) else None)"
proof -
  let ?v = "\<lambda>b. ''source.field_'' @ name_of E b"
  have f: "fill_init_list E b (classes (ob_store E) ! b) m = Inr (if has_data (classes (ob_store E) ! b) then put m b (?v b) else m)"
    if "is_class E b" for b m
    using that by (simp add: fill_init_list_def class_name_of [OF ok])
  obtain m1 where 1: "for_supers (ob_store E) (fill_init_list E) a [] = Inr m1" "sorted_keys m1"
    "map_of m1 = (\<lambda>b. if b \<in> set (supers_of E a) \<and> has_data (classes (ob_store E) ! b) then Some (?v b) else None)"
    using fold_inits [of "supers_of E a" "\<lambda>b. fill_init_list E b (classes (ob_store E) ! b)" E ?v "[]"] f supers_of_chain(3) [OF ok a]
    unfolding for_supers_of [OF ok a] by (auto simp: sorted_keys_def cong: if_cong)
  have "\<exists>m2. foldE (\<lambda>b m. bindE (class_at (ob_store E) b) (\<lambda>c. fill_init_list E b c m)) (subs_of E a) m1 = Inr m2 \<and> sorted_keys m2 \<and>
      map_of m2 = (\<lambda>b. if b \<in> set (subs_of E a) \<and> has_data (classes (ob_store E) ! b) then Some (?v b) else map_of m1 b)"
    by (rule fold_inits [OF _ 1(2)]) (use f subs_of_class [OF ok a] in \<open>auto simp: class_at_is\<close>)
  then show ?thesis
    using 1 by (auto simp: source_inits_def class_at_is [OF a] slots_def fun_eq_iff simp flip: subs_of_def)
qed

text \<open>A class and one it can be converted to share the mandatory slots.\<close>

lemma cast_slots:
  assumes ok: "classes_ok E" and a: "is_class E a" and b: "is_class E b"
    and rel: "b \<in> set (supers_of E a) \<or> b \<in> set (subs_of E a)"
  shows "set (supers_of E b) \<subseteq> set (supers_of E a) \<union> set (subs_of E a)"
proof -
  have sup: "\<And>x. is_class E x \<Longrightarrow> supers (ob_store E) x = Inr (supers_of E x)"
    using supers_of_chain(1) [OF ok] by (simp add: supers_iff)
  show ?thesis
  proof (cases "b \<in> set (supers_of E a)")
    case True
    then show ?thesis using super_supers [OF sup [OF a] _ sup [OF b]] by blast
  next
    case False
    then have "b \<in> set (class_subclasses (classes (ob_store E) ! a))" using rel by (simp add: subs_of_def)
    then show ?thesis
      using subclass_supers [of "ob_store E" a b, OF _ _ _ sup [OF a] sup [OF b]] ok a by (auto simp: classes_ok_def is_class_def subs_of_def)
  qed
qed

text \<open>C34: The variant that a conversion between two related classes builds has the fields of the variant type of the
  target, each once and in their order; each takes the contents of the same class from the source, or is \<open>nil\<close> when the
  source has none, and the classes from which the target inherits are never \<open>nil\<close>.  Nothing but the parser can fail.\<close>

theorem casts_fill_target:
  assumes ok: "classes_ok E" and a: "is_class E source" and b: "is_class E target" and d: "is_class E dyn"
    and rel: "target \<in> set (supers_of E source) \<or> target \<in> set (subs_of E source)"
  shows "\<exists>v e. variant_ty E target = Inr v \<and>
      cast_function E name source target dyn s =
        bindE (od_parse_exp E e s) (\<lambda>(x, s1).
          let (tw, s2) = od_insert tw_put_exp x (tw_put ('' function '' @ name @ ''   (source : _variant_'' @
                name_of E source @ '') :   _variant_'' @ name_of E target @ '' = '') tw_default) s1
          in Inr (tw_put newline tw, s2)) \<and>
      tw_input_get v = '' {   exact_type : int'' @ concat (map (type_slot E) (slots E target)) @ '' }'' @ newline \<and>
      tw_input_get e = '' _variant_'' @ name_of E target @ '' {   exact_type = '' @ (''_id_'' @ name_of E dyn) @
         concat (map (value_slot E (\<lambda>c. if c \<in> set (slots E source) then ''source.field_'' @ name_of E c else ''nil''))
           (slots E target)) @ '' }'' @ newline \<and>
      (\<forall>c \<in> set (slots E target). c \<in> set (supers_of E target) \<longrightarrow> c \<in> set (slots E source))"
proof -
  let ?s = "\<lambda>c. if c \<in> set (slots E source) then ''source.field_'' @ name_of E c else ''nil''"
  have in_source: "c \<in> set (slots E source)" if "c \<in> set (supers_of E target)" "has_data (classes (ob_store E) ! c)" for c
    using cast_slots [OF ok a b rel] that by (auto simp: slots_def)
  obtain v where v: "variant_ty E target = Inr v"
    "says v ('' {   exact_type : int'' @ concat (map (type_slot E) (slots E target)) @ '' }'' @ newline)"
    using variant_ty_text [OF ok b] by blast
  obtain inits where i: "source_inits E source = Inr inits"
    "map_of inits = (\<lambda>c. if c \<in> set (slots E source) then Some (''source.field_'' @ name_of E c) else None)"
    using source_inits_map [OF ok a] by blast
  have m: "(\<lambda>c. case map_of inits c of Some x \<Rightarrow> x | None \<Rightarrow> ''nil'') = ?s" by (rule ext) (simp add: i(2))
  obtain e where e: "variant_input E target (''_id_'' @ name_of E dyn) inits = Inr e"
    "says e ('' _variant_'' @ name_of E target @ '' {   exact_type = '' @ (''_id_'' @ name_of E dyn) @
        concat (map (value_slot E ?s) (slots E target)) @ '' }'' @ newline)"
    using variant_input_text [OF ok b, of inits "''_id_'' @ name_of E dyn", unfolded m] in_source i(2) by auto
  have "cast_function E name source target dyn s =
      bindE (od_parse_exp E e s) (\<lambda>(x, s1).
          let (tw, s2) = od_insert tw_put_exp x (tw_put ('' function '' @ name @ ''   (source : _variant_'' @
                name_of E source @ '') :   _variant_'' @ name_of E target @ '' = '') tw_default) s1
          in Inr (tw_put newline tw, s2))"
    by (simp only: cast_function_def class_name_of [OF ok a] class_name_of [OF ok b] class_name_of [OF ok d]
      Let_def variant_exp_def variant_exp_of_def i(1) e(1) bindE_Inr)
  moreover have "\<forall>c \<in> set (slots E target). c \<in> set (supers_of E target) \<longrightarrow> c \<in> set (slots E source)"
    using in_source by (auto simp: slots_def)
  ultimately show ?thesis
    using v e(2) unfolding says_def by (intro exI [of _ v] exI [of _ e] conjI) (simp_all only:)
qed

section \<open>The scope of the dispatch functions\<close>

text \<open>The number of the current dispatch function of a method: one when the map has no entry.\<close>

definition suffix :: "object_state \<Rightarrow> addr \<Rightarrow> nat" where
  "suffix s m = (case map_of (dispatch_map s) m of None \<Rightarrow> 1 | Some n \<Rightarrow> unat n)"

definition suffixes_ok :: "object_state \<Rightarrow> bool" where
  "suffixes_ok s \<longleftrightarrow> sorted_keys (dispatch_map s) \<and> (\<forall>n \<in> ran (map_of (dispatch_map s)). 2 \<le> unat n)"

text \<open>What a visit may do to the two members: record new dispatch functions, each counted once.\<close>

definition adds :: "addr list \<Rightarrow> object_state \<Rightarrow> object_state \<Rightarrow> bool" where
  "adds ms s s' \<longleftrightarrow> dispatch_added s' = dispatch_added s @ ms \<and> suffixes_ok s' \<and>
     (\<forall>m. suffix s' m = suffix s m + count_list ms m)"

definition scoped :: "(object_state \<Rightarrow> object_state res) \<Rightarrow> bool" where
  "scoped f \<longleftrightarrow> (\<forall>s s'. suffixes_ok s \<and> f s = Inr s' \<longrightarrow> (\<exists>ms. adds ms s s'))"

lemma adds_trans: "adds ms s s1 \<Longrightarrow> adds ns s1 s2 \<Longrightarrow> adds (ms @ ns) s s2"
  by (simp add: adds_def)


lemma suffixes_ge: "suffixes_ok s \<Longrightarrow> map_of (dispatch_map s) m = Some n \<Longrightarrow> 2 \<le> unat n"
  by (auto simp: suffixes_ok_def ran_def)

lemma suffix_eq:
  assumes "suffixes_ok s" "suffixes_ok s'" "\<And>m. suffix s m = suffix s' m"
  shows "map_of (dispatch_map s) = map_of (dispatch_map s')"
proof
  fix m
  show "map_of (dispatch_map s) m = map_of (dispatch_map s') m"
    using assms(3) [of m] suffixes_ge [OF assms(1), of m] suffixes_ge [OF assms(2), of m]
    by (auto simp: suffix_def split: option.splits intro: unsigned_word_eqI)
qed


lemma leave_suffix:
  assumes ok: "suffixes_ok s" and m: "2 \<le> suffix s m"
  shows "\<exists>s'. dispatch_leave m s = Inr s' \<and> suffixes_ok s' \<and> suffix s' = (suffix s)(m := suffix s m - 1) \<and>
    (\<exists>dm. s' = s\<lparr>dispatch_map := dm\<rparr>)"
proof -
  obtain n where n: "map_of (dispatch_map s) m = Some n" "2 \<le> unat n"
    using m by (auto simp: suffix_def split: option.splits)
  have so: "sorted_keys (dispatch_map s)" using ok by (simp add: suffixes_ok_def)
  show ?thesis
  proof (cases "n = 2")
    case True
    have t: "map_take m (dispatch_map s) = Inr (2, std_erase m (dispatch_map s))"
      using n True by (simp add: map_take_def map_xfind_def map_find_def)
    have e: "map_of (std_erase m (dispatch_map s)) = (map_of (dispatch_map s))(m := None)" "sorted_keys (std_erase m (dispatch_map s))"
      using map_take_map [of m "dispatch_map s"] map_take_sorted [OF t so] t n(1) by auto
    let ?s = "s\<lparr>dispatch_map := std_erase m (dispatch_map s)\<rparr>"
    have "dispatch_leave m s = Inr ?s" using n t True by (simp add: dispatch_leave_def map_subscript_def)
    moreover have "suffixes_ok ?s" using ok e by (auto simp: suffixes_ok_def ran_def split: if_splits)
    moreover have "suffix ?s = (suffix s)(m := suffix s m - 1)" using e n True by (auto simp: suffix_def)
    ultimately show ?thesis by blast
  next
    case False
    have u: "unat (n - 1) = unat n - 1" using n(2) by (intro unat_minus_one) auto
    have "unat n \<noteq> 2" using False by (auto simp: word_unat_eq_iff)
    then have u2: "2 \<le> unat (n - 1)" using u n(2) by simp
    let ?s = "s\<lparr>dispatch_map := put (dispatch_map s) m (n - 1)\<rparr>"
    have "dispatch_leave m s = Inr ?s" using n False by (simp add: dispatch_leave_def map_subscript_def)
    moreover have "suffixes_ok ?s"
      using ok u2 put_sorted [OF so] by (auto simp: suffixes_ok_def ran_def put_map split: if_splits)
    moreover have "suffix ?s = (suffix s)(m := suffix s m - 1)" using so n u by (auto simp: suffix_def put_map)
    ultimately show ?thesis by blast
  qed
qed

lemma leave_all:
  assumes "suffixes_ok s" "\<And>m. suffix s m = k m + count_list ms m" "\<And>m. 1 \<le> k m"
  shows "\<exists>s'. foldE dispatch_leave ms s = Inr s' \<and> suffixes_ok s' \<and> (\<forall>m. suffix s' m = k m) \<and> (\<exists>dm. s' = s\<lparr>dispatch_map := dm\<rparr>)"
  using assms
proof (induction ms arbitrary: s)
  case Nil
  then show ?case by (auto intro!: exI [of _ "dispatch_map s"])
next
  case (Cons m ms)
  have "2 \<le> suffix s m" using Cons.prems(2) [of m] Cons.prems(3) [of m] by simp
  then obtain s1 dm where s1: "dispatch_leave m s = Inr s1" "suffixes_ok s1" "suffix s1 = (suffix s)(m := suffix s m - 1)"
    "s1 = s\<lparr>dispatch_map := dm\<rparr>"
    using leave_suffix [OF Cons.prems(1)] by blast
  have "\<And>x. suffix s1 x = k x + count_list ms x" using Cons.prems(2) s1(3) by (auto split: if_splits)
  from Cons.IH [OF s1(2) this Cons.prems(3)] show ?case using s1(1,4) by fastforce
qed

lemma recurse_scoped: "scoped (visit e) \<Longrightarrow> suffixes_ok s \<Longrightarrow> recurse visit cls e s = Inr (r, s') \<Longrightarrow> \<exists>ms. adds ms s s'"
  by (auto simp: recurse_def bindE_eq_Inr scoped_def split: option.splits if_splits)

lemma let_scope:
  assumes ok: "suffixes_ok s" and b: "scoped (visit b)" and cs: "scoped (visit cs)"
    and run: "cl_LetExp visit h cs b (s\<lparr>dispatch_added := []\<rparr>) = Inr s1"
  shows "\<exists>s2. od_LetExp visit h cs b s = Inr s2 \<and> dispatch_added s2 = dispatch_added s \<and> suffixes_ok s2 \<and>
    map_of (dispatch_map s2) = map_of (dispatch_map s) \<and>
    s2 = s1\<lparr>dispatch_added := dispatch_added s2, dispatch_map := dispatch_map s2\<rparr>"
proof -
  let ?s = "s\<lparr>dispatch_added := []\<rparr>"
  have s0: "suffixes_ok ?s" "suffix ?s = suffix s" using ok by (simp_all add: suffixes_ok_def suffix_def fun_eq_iff)
  from run obtain b' t cs' u where t: "recurse visit is_Exp b ?s = Inr (b', t)" "recurse visit is_ChunkList cs t = Inr (cs', u)"
    "s1 = cl_new (new_LetExp (loc h) cs' b') u"
    by (auto simp: cl_LetExp_def bindE_eq_Inr)
  from recurse_scoped [OF b s0(1) t(1)] obtain ms where ms: "adds ms ?s t" by blast
  then have "suffixes_ok t" by (simp add: adds_def)
  from recurse_scoped [OF cs this t(2)] obtain ns where "adds ns t u" by blast
  with ms have "adds (ms @ ns) ?s u" by (rule adds_trans)
  then have u: "dispatch_added u = ms @ ns" "suffixes_ok u" "\<And>m. suffix u m = suffix s m + count_list (ms @ ns) m"
    using s0(2) by (simp_all add: adds_def)
  have same: "dispatch_added s1 = dispatch_added u" "dispatch_map s1 = dispatch_map u"
    using t(3) by (simp_all add: cl_new_def split: prod.splits)
  then have s1: "suffixes_ok s1" "\<And>m. suffix s1 m = suffix s m + count_list (ms @ ns) m"
    using u by (simp_all add: suffixes_ok_def suffix_def)
  have "\<And>m. 1 \<le> suffix s m" using suffixes_ge [OF ok] by (force simp: suffix_def split: option.splits)
  from leave_all [OF s1 this] obtain s2 dm where s2: "foldE dispatch_leave (ms @ ns) s1 = Inr s2" "suffixes_ok s2"
    "\<forall>m. suffix s2 m = suffix s m" "s2 = s1\<lparr>dispatch_map := dm\<rparr>"
    by blast
  have "map_of (dispatch_map s2) = map_of (dispatch_map s)" by (rule suffix_eq [OF s2(2) ok]) (use s2(3) in simp)
  then show ?thesis using run s2 same u(1) by (auto simp: od_LetExp_def suffixes_ok_def)
qed

section \<open>The dispatch functions of a method\<close>


text \<open>What the loop on the super classes writes a sub dispatch function for: those that are not of the chunk, that
  have a method of the name, and for which the chunk has none yet.\<close>

definition method_in :: "object_env \<Rightarrow> addr \<Rightarrow> addr \<Rightarrow> addr option" where
  "method_in E m a = (case method_at (ob_store E) m of
     Inr x \<Rightarrow> find (\<lambda>i. method_name (methods (ob_store E) ! i) = method_name x) (class_meths (classes (ob_store E) ! a))
   | Inl _ \<Rightarrow> None)"

definition new_subs :: "object_env \<Rightarrow> ast \<Rightarrow> addr \<Rightarrow> dispatch_list \<Rightarrow> addr list \<Rightarrow> (addr \<times> addr) list" where
  "new_subs E e m seen as = filter (\<lambda>x. x \<notin> seen) (concat (map (\<lambda>a.
     if declared_in E e a then [] else case method_in E m a of Some i \<Rightarrow> [(a, i)] | None \<Rightarrow> []) as))"

definition still :: "object_state \<Rightarrow> object_state \<Rightarrow> bool" where
  "still s s' \<longleftrightarrow> dispatch_added s' = dispatch_added s \<and> dispatch_map s' = dispatch_map s"

lemma still_refl [intro, simp]: "still s s"
  by (simp add: still_def)















lemma new_subs_Nil [simp]: "new_subs E e m seen [] = []"
  by (simp add: new_subs_def)











section \<open>An example\<close>

text \<open>\<open>Object\<close>, a class \<open>A\<close> with an attribute and a method \<open>m\<close>, and \<open>B\<close> that inherits from it, with its own
  attribute and \<open>m\<close>.  The program declares \<open>B\<close> in another chunk than \<open>A\<close>.\<close>

definition example_method :: "addr \<Rightarrow> class_method" where
  "example_method a = \<lparr>method_name = ''m'', method_owner = Some a, method_formals = 0, method_result = 0, method_def = None\<rparr>"

definition example_store :: class_store where
  "example_store = \<lparr>classes =
      [\<lparr>class_id = 0, class_super = None, class_subclasses = [1, 2], class_attrs = [], class_meths = []\<rparr>,
       \<lparr>class_id = 1, class_super = Some 0, class_subclasses = [2],
         class_attrs = [\<lparr>attr_def = VarDec (header_at 1) ''x'' None (Some (IntExp (header_at 2) 1))\<rparr>], class_meths = [0]\<rparr>,
       \<lparr>class_id = 2, class_super = Some 1, class_subclasses = [],
         class_attrs = [\<lparr>attr_def = VarDec (header_at 3) ''y'' None (Some (IntExp (header_at 4) 2))\<rparr>], class_meths = [1]\<rparr>],
     methods = [example_method 1, example_method 2], class_counter = 3\<rparr>"


definition example_parser :: surroundings where
  "example_parser = one_file\<lparr>run := \<lambda>text (d, g).
     Inr (d\<lparr>dr_ast := Exp_v (Some (NilExp (header_at (gl_next g)))), dr_input := In_tweast tw_default\<rparr>, g\<lparr>gl_next := Suc (gl_next g)\<rparr>)\<rparr>"

definition example_objects :: object_env where
  "example_objects = \<lparr>ob_parse = example_parser, ob_print = plain_context, ob_store = example_store,
     class_names = [(0, ''Object''), (1, ''A''), (2, ''B'')],
     class_query = \<lambda>t. if is_TypeDec t then Some 2 else None,
     method_dec = \<lambda>_. MethodDec (header_at 8) ''m'' (VarChunk (header_at 9) []) None None,
     switch_dec = \<lambda>_ _. MethodDec (header_at 8) ''m'' (VarChunk (header_at 9) []) None None,
     attribute_dec = attr_def, ctor_init = \<lambda>_ i. i, pass_target = \<lambda>t. t,
     pass_formals = \<lambda>_. [], contents_fields = \<lambda>_. Inr, dec_class = \<lambda>_. None, init_cast = \<lambda>_ i s. Inr (i, s), object_class = 0, main_function = \<lambda>_. False\<rparr>"

definition example_state :: object_state where
  "example_state = (od_new (tw_default, tw_default, tw_default) \<lparr>gl_next = 9, gl_count = 0\<rparr>)
     \<lparr>dispatch_added := [7], dispatch_map := [(7, 2)]\<rparr>"

lemma example_supers: "supers example_store 0 = Inr [0]" "supers example_store (Suc 0) = Inr [1, 0]"
    "supers example_store 2 = Inr [2, 1, 0]"
  by (simp_all add: supers_def for_supers_def example_store_def class_at_def numeral_3_eq_3 numeral_2_eq_2)

lemma example_hierarchy: "hierarchy_ok example_store"
proof -
  have l: "length (classes example_store) = 3" by (simp add: example_store_def)
  have s: "class_subclasses (classes example_store ! 0) = [1, 2]" "class_subclasses (classes example_store ! Suc 0) = [2]"
    "class_subclasses (classes example_store ! 2) = []"
    by (simp_all add: example_store_def)
  have a: "(\<forall>a < 3. P a) \<longleftrightarrow> P 0 \<and> P (Suc 0) \<and> P (2 :: nat)" for P
    by (auto simp: less_Suc_eq numeral_3_eq_3 numeral_2_eq_2)
  have b0: "{..<3} = {0, Suc 0, 2 :: nat}" by auto
  have b: "{b \<in> {..<3}. P b} = (if P 0 then {0} else {}) \<union> (if P (Suc 0) then {Suc 0} else {}) \<union> (if P 2 then {2 :: nat} else {})" for P
    unfolding b0 by (auto intro: gr0I)
  show ?thesis unfolding hierarchy_ok_def l a b by (simp add: example_supers s insert_commute)
qed

theorem casts_fill_target_witness:
  "\<exists>v e. variant_ty example_objects 1 = Inr v \<and>
    tw_input_get v = '' {   exact_type : int,'' @ newline @ ''   field_A :    _contents_A,'' @ newline @
      ''   field_B :    _contents_B }'' @ newline \<and>
    tw_input_get e = '' _variant_A {   exact_type = _id_B,'' @ newline @ ''field_A = source.field_A,'' @ newline @
      ''field_B = source.field_B }'' @ newline \<and>
    (\<exists>f. cast_function example_objects ''f'' 2 1 2 example_state = bindE (od_parse_exp example_objects e example_state) f)"
proof -
  have st: "ob_store example_objects = example_store" by (simp add: example_objects_def)
  have l: "length (classes example_store) = 3" by (simp add: example_store_def)
  have ok: "classes_ok example_objects"
    unfolding classes_ok_def st l by (auto simp: example_hierarchy example_objects_def)
  have c: "is_class example_objects 2" "is_class example_objects 1" by (simp_all add: is_class_def st l)
  have su: "supers_of example_objects 1 = [1, 0]" "supers_of example_objects 2 = [2, 1, 0]"
    "subs_of example_objects 1 = [2]" "subs_of example_objects 2 = []"
    by (simp_all add: supers_of_def subs_of_def st example_supers) (simp_all add: example_store_def)
  have sl: "slots example_objects 1 = [1, 2]" "slots example_objects 2 = [2, 1]"
    unfolding slots_def su st by (simp_all add: has_data_def example_store_def)
  have n: "name_of example_objects 1 = ''A''" "name_of example_objects 2 = ''B''"
    by (simp_all add: name_of_def example_objects_def)
  have rel: "1 \<in> set (supers_of example_objects 2) \<or> 1 \<in> set (subs_of example_objects 2)" by (simp add: su)
  obtain v e where "variant_ty example_objects 1 = Inr v"
    "\<exists>f. cast_function example_objects ''f'' 2 1 2 example_state = bindE (od_parse_exp example_objects e example_state) f"
    "tw_input_get v = '' {   exact_type : int'' @ concat (map (type_slot example_objects) [1, 2]) @ '' }'' @ newline"
    "tw_input_get e = '' _variant_'' @ ''A'' @ '' {   exact_type = '' @ (''_id_'' @ ''B'') @
         concat (map (value_slot example_objects (\<lambda>c. if c \<in> set [2, 1] then ''source.field_'' @ name_of example_objects c else ''nil''))
           [1, 2]) @ '' }'' @ newline"
    using casts_fill_target [OF ok c c(1) rel, of "''f''" example_state, unfolded sl n] by blast
  then show ?thesis
    by (intro exI [of _ v] exI [of _ e]) (simp add: type_slot_def value_slot_def n [simplified])
qed














end
