(* ===== verification/Call_Graph.thy ===== *)
theory Call_Graph
  imports Ast_Visitor "HOL-Library.Multiset"
begin

text \<open>
  \<^verbatim>\<open>lib/misc/graph.*\<close> and \<^verbatim>\<open>src/src/callgraph\<close>: the graphs whose vertices are the functions, and the visitor that
  builds the graph of their parents.  A graph is a \<open>boost::adjacency_list\<close>, which is not part of the repository: it
  is the parameter \<open>graph_lib\<close>, and \<open>adjacency_list_laws\<close> says what its documentation promises of vertices in a
  vector and of edges in sets.  A pointer to a declaration is its address, the null pointer is \<open>None\<close>.  The graph
  of the calls has lost the visit that adds its edges; its two other visits are here.
\<close>

section \<open>\<open>misc::graph\<close>\<close>

record ('g, 'l) graph_lib =
  bg_new :: 'g
  bg_add_vertex :: "'l \<Rightarrow> 'g \<Rightarrow> nat \<times> 'g"
  bg_add_edge :: "nat \<Rightarrow> nat \<Rightarrow> 'g \<Rightarrow> 'g"
  bg_count :: "'g \<Rightarrow> nat"
  bg_label :: "'g \<Rightarrow> nat \<Rightarrow> 'l"
  bg_adjacent :: "'g \<Rightarrow> nat \<Rightarrow> nat list"
  bg_edges :: "'g \<Rightarrow> (nat \<times> nat) list"

definition vertex_add :: "('g, 'l) graph_lib \<Rightarrow> 'l \<Rightarrow> 'g \<Rightarrow> nat \<times> 'g" where
  "vertex_add B l g = bg_add_vertex B l g"

definition directed_edge_add :: "('g, 'l) graph_lib \<Rightarrow> nat \<Rightarrow> nat \<Rightarrow> 'g \<Rightarrow> 'g" where
  "directed_edge_add B v1 v2 g = bg_add_edge B v1 v2 g"

definition undirected_edge_add :: "('g, 'l) graph_lib \<Rightarrow> nat \<Rightarrow> nat \<Rightarrow> 'g \<Rightarrow> 'g" where
  "undirected_edge_add B v1 v2 g = (if v1 > v2 then bg_add_edge B v2 v1 g else bg_add_edge B v1 v2 g)"

text \<open>The text of \<open>print\<close>, for labels of edges that print as nothing.\<close>

definition graph_print ::
  "('g, 'l) graph_lib \<Rightarrow> bool \<Rightarrow> string \<Rightarrow> ('l \<Rightarrow> string) \<Rightarrow> 'g \<Rightarrow> string" where
  "graph_print B undirected name show_l g =
     ''/* Graph Visualization */'' @ newline @
     (if undirected then ''graph'' else ''digraph'') @ '' '' @ [CHR 0x22] @ name @ [CHR 0x22] @ '' {'' @ newline @
     ''  node [shape=box];'' @ newline @
     concat (map (\<lambda>v. ''  '' @ [CHR 0x22] @ dec_nat v @ [CHR 0x22] @ '' [label='' @ [CHR 0x22] @ show_l (bg_label B g v) @
         [CHR 0x22] @ '']'' @ newline) [0..<bg_count B g]) @
     concat (map (\<lambda>(u, v). ''  '' @ [CHR 0x22] @ dec_nat u @ [CHR 0x22] @ '' '' @ (if undirected then ''--'' else ''->'') @ '' '' @
         [CHR 0x22] @ dec_nat v @ [CHR 0x22] @ newline) (bg_edges B g)) @
     ''}'' @ newline"

text \<open>\<open>topological_sort\<close>, as it stands.\<close>

definition topological_sort :: "'g \<Rightarrow> nat list" where
  "topological_sort g = []"

section \<open>\<open>FundecGraph\<close>\<close>

type_synonym fundec = "addr option"

record 'g fundec_graph =
  fg_graph :: 'g
  hfundecs :: "fundec \<rightharpoonup> nat"

type_synonym 'g fundec_lib = "('g, fundec) graph_lib"

definition fg_new :: "'g fundec_lib \<Rightarrow> 'g fundec_graph" where
  "fg_new B = \<lparr>fg_graph = bg_new B, hfundecs = Map.empty\<rparr>"

definition fundec_add :: "'g fundec_lib \<Rightarrow> fundec \<Rightarrow> 'g fundec_graph \<Rightarrow> 'g fundec_graph" where
  "fundec_add B f G =
     (let (v, g) = vertex_add B f (fg_graph G) in G\<lparr>fg_graph := g, hfundecs := (hfundecs G)(f \<mapsto> v)\<rparr>)"

text \<open>\<open>hfundecs[f]\<close> inserts a zero when \<open>f\<close> is not there.\<close>

definition hfundecs_at :: "fundec \<Rightarrow> 'g fundec_graph \<Rightarrow> nat \<times> 'g fundec_graph" where
  "hfundecs_at f G = (case hfundecs G f of Some v \<Rightarrow> (v, G) | None \<Rightarrow> (0, G\<lparr>hfundecs := (hfundecs G)(f \<mapsto> 0)\<rparr>))"

definition fundec_link :: "'g fundec_lib \<Rightarrow> fundec \<Rightarrow> fundec \<Rightarrow> 'g fundec_graph \<Rightarrow> 'g fundec_graph" where
  "fundec_link B fu fv G =
     (let (u, G1) = hfundecs_at fu G; (v, G2) = hfundecs_at fv G1 in G2\<lparr>fg_graph := bg_add_edge B u v (fg_graph G2)\<rparr>)"

definition hfundec_get :: "fundec \<Rightarrow> 'g fundec_graph \<Rightarrow> nat res" where
  "hfundec_get f G = (case hfundecs G f of Some v \<Rightarrow> Inr v | None \<Rightarrow> Inl Assertion)"

text \<open>The recursion goes on for ever on a cycle of the graph: it is bounded, and the bound is shown to be enough.\<close>

fun deep_get_upto :: "nat \<Rightarrow> 'g fundec_lib \<Rightarrow> 'g fundec_graph \<Rightarrow> fundec \<Rightarrow> fundec \<Rightarrow> fundec res" where
  "deep_get_upto 0 B G start searched = Inl No_fuel"
| "deep_get_upto (Suc n) B G start searched =
     (if start = searched then Inr searched
      else case hfundecs G start of
        None \<Rightarrow> Inl Bad_access
      | Some v \<Rightarrow> (case bg_adjacent B (fg_graph G) v of
          [] \<Rightarrow> Inl Bad_access
        | p # _ \<Rightarrow>
            if bg_label B (fg_graph G) p = start then Inr None
            else deep_get_upto n B G (bg_label B (fg_graph G) p) searched))"

definition hfundec_deep_get :: "'g fundec_lib \<Rightarrow> 'g fundec_graph \<Rightarrow> fundec \<Rightarrow> fundec \<Rightarrow> fundec res" where
  "hfundec_deep_get B G start searched = deep_get_upto (Suc (bg_count B (fg_graph G))) B G start searched"

section \<open>\<open>ParentGraphVisitor\<close> and \<open>CallGraphVisitor\<close>\<close>

record 'g pg_state =
  parent :: fundec
  parentgraph :: "'g fundec_graph"

definition pg_add :: "'g fundec_lib \<Rightarrow> ast \<Rightarrow> 'g pg_state \<Rightarrow> 'g pg_state" where
  "pg_add B f s =
     s\<lparr>parentgraph := fundec_link B (Some (addr_of f)) (parent s) (fundec_add B (Some (addr_of f)) (parentgraph s))\<rparr>"

definition pg_FunctionChunk :: "'g fundec_lib \<Rightarrow> 'g pg_state visit \<Rightarrow> ast list \<Rightarrow> 'g pg_state visit" where
  "pg_FunctionChunk B visit ds e s = default_visit visit e (fold (pg_add B) ds s)"

definition pg_FunctionDec :: "'g pg_state visit \<Rightarrow> header \<Rightarrow> 'g pg_state visit" where
  "pg_FunctionDec visit h e s =
     bindE (default_visit visit e (s\<lparr>parent := Some (adr h)\<rparr>)) (\<lambda>t. Inr (t\<lparr>parent := parent s\<rparr>))"

definition pg_dispatch :: "'g fundec_lib \<Rightarrow> 'g pg_state visit \<Rightarrow> 'g pg_state visit" where
  "pg_dispatch B visit e s =
     (if is_object_node e then non_object_visit e s
      else case e of
        FunctionChunk _ ds \<Rightarrow> pg_FunctionChunk B visit ds e s
      | FunctionDec h _ _ _ _ \<Rightarrow> pg_FunctionDec visit h e s
      | _ \<Rightarrow> default_visit visit e s)"

lemma pg_dispatch_local:
  assumes "\<And>c s. size c < size e \<Longrightarrow> f c s = g c s"
  shows "pg_dispatch B f e s = pg_dispatch B g e s"
proof -
  have "default_visit f e = default_visit g e"
    by (rule ext) (rule default_visit_cong [OF assms])
  then show ?thesis by (cases e) (simp_all add: pg_dispatch_def pg_FunctionChunk_def pg_FunctionDec_def)
qed

lemma pg_dispatch_cong [fundef_cong]:
  assumes "B = B'" and "e = e'" and "s = s'" and "\<And>c s. size c < size e' \<Longrightarrow> f c s = g c s"
  shows "pg_dispatch B f e s = pg_dispatch B' g e' s'"
  unfolding assms(1-3) by (rule pg_dispatch_local) (rule assms(4))

function pg_visit :: "'g fundec_lib \<Rightarrow> 'g pg_state visit" where
  "pg_visit B e s = pg_dispatch B (pg_visit B) e s"
  by auto
termination by (relation "measure (\<lambda>(B, e, s). size e)") auto

declare pg_visit.simps [simp del]

interpretation pgv: traversal "pg_visit B" "pg_dispatch B" for B
  by unfold_locales (rule pg_visit.simps, rule pg_dispatch_local)

definition parentgraph_compute :: "'g fundec_lib \<Rightarrow> ast \<Rightarrow> 'g fundec_graph res" where
  "parentgraph_compute B tree =
     bindE (pg_visit B tree \<lparr>parent = None, parentgraph = fg_new B\<rparr>) (\<lambda>s. Inr (parentgraph s))"

record 'g cg_state =
  caller :: fundec
  callgraph :: "'g fundec_graph"

definition cg_FunctionChunk :: "'g fundec_lib \<Rightarrow> 'g cg_state visit \<Rightarrow> ast list \<Rightarrow> 'g cg_state visit" where
  "cg_FunctionChunk B visit ds e s =
     default_visit visit e (s\<lparr>callgraph := fold (\<lambda>f. fundec_add B (Some (addr_of f))) ds (callgraph s)\<rparr>)"

definition cg_FunctionDec :: "'g cg_state visit \<Rightarrow> header \<Rightarrow> 'g cg_state visit" where
  "cg_FunctionDec visit h e s =
     bindE (default_visit visit e (s\<lparr>caller := Some (adr h)\<rparr>)) (\<lambda>t. Inr (t\<lparr>caller := caller s\<rparr>))"

section \<open>What the library promises\<close>

definition adjacency_list_laws :: "('g, 'l) graph_lib \<Rightarrow> bool" where
  "adjacency_list_laws B \<longleftrightarrow>
     bg_count B (bg_new B) = 0 \<and>
     (\<forall>l g. fst (bg_add_vertex B l g) = bg_count B g \<and>
        bg_count B (snd (bg_add_vertex B l g)) = Suc (bg_count B g) \<and>
        bg_label B (snd (bg_add_vertex B l g)) (bg_count B g) = l \<and>
        bg_adjacent B (snd (bg_add_vertex B l g)) (bg_count B g) = [] \<and>
        (\<forall>v < bg_count B g. bg_label B (snd (bg_add_vertex B l g)) v = bg_label B g v \<and>
           bg_adjacent B (snd (bg_add_vertex B l g)) v = bg_adjacent B g v)) \<and>
     (\<forall>u v g. u < bg_count B g \<and> v < bg_count B g \<longrightarrow>
        bg_count B (bg_add_edge B u v g) = bg_count B g \<and>
        (\<forall>w < bg_count B g. bg_label B (bg_add_edge B u v g) w = bg_label B g w \<and>
           bg_adjacent B (bg_add_edge B u v g) w =
             (if w = u \<and> v \<notin> set (bg_adjacent B g u) then insort v (bg_adjacent B g u) else bg_adjacent B g w)))"

section \<open>The declarations and their parents, in order\<close>

definition below :: "fundec \<Rightarrow> ast \<Rightarrow> fundec" where
  "below p e = (case e of FunctionDec h _ _ _ _ \<Rightarrow> Some (adr h) | _ \<Rightarrow> p)"

definition chunk_decs :: "ast \<Rightarrow> addr list" where
  "chunk_decs e = (case e of FunctionChunk _ ds \<Rightarrow> map addr_of ds | _ \<Rightarrow> [])"

function pairs :: "fundec \<Rightarrow> ast \<Rightarrow> (addr \<times> fundec) list" where
  "pairs p e = map (\<lambda>d. (d, p)) (chunk_decs e) @ concat (map (pairs (below p e)) (subs e))"
  by auto
termination by (relation "measure (\<lambda>(p, e). size e)") (auto dest: subs_size)

declare pairs.simps [simp del]

definition pg_step :: "'g fundec_lib \<Rightarrow> addr \<times> fundec \<Rightarrow> 'g fundec_graph \<Rightarrow> 'g fundec_graph" where
  "pg_step B x G = fundec_link B (Some (fst x)) (snd x) (fundec_add B (Some (fst x)) G)"

lemma pg_add_chunk:
  "fold (pg_add B) ds s = s\<lparr>parentgraph := fold (pg_step B) (map (\<lambda>d. (addr_of d, parent s)) ds) (parentgraph s)\<rparr>"
  by (induction ds arbitrary: s) (simp_all add: pg_add_def pg_step_def)

lemma pg_dispatch_eq:
  assumes "\<not> is_object_node e"
  shows "pg_dispatch B visit e s =
    bindE (default_visit visit e (s\<lparr>parent := below (parent s) e,
        parentgraph := fold (pg_step B) (map (\<lambda>d. (d, parent s)) (chunk_decs e)) (parentgraph s)\<rparr>))
      (\<lambda>t. Inr (if is_FunctionDec e then t\<lparr>parent := parent s\<rparr> else t))"
  using assms
  by (cases e) (simp_all add: pg_dispatch_def pg_FunctionChunk_def pg_FunctionDec_def below_def chunk_decs_def pg_add_chunk
      is_FunctionDec_def comp_def is_object_node_def)

lemma below_other: "\<not> is_object_node e \<Longrightarrow> \<not> is_FunctionDec e \<Longrightarrow> below p e = p"
  by (cases e) (simp_all add: below_def is_FunctionDec_def)

text \<open>The visitor is one fold over them.\<close>

lemma pg_visit_fold:
  "list_all (\<lambda>x. \<not> is_object_node x) (nodes e) \<Longrightarrow>
    pg_visit B e s = Inr (s\<lparr>parentgraph := fold (pg_step B) (pairs (parent s) e) (parentgraph s)\<rparr>)"
proof (induction e arbitrary: s rule: measure_induct_rule [of size])
  case (less e)
  have o: "\<not> is_object_node e" using less.prems by (simp add: nodes.simps [of e])
  have acc: "accepts e = subs e" using o by (rule accepts_subs)
  have children: "foldE (pg_visit B) cs t = Inr (t\<lparr>parentgraph := fold (pg_step B) (concat (map (pairs (parent t)) cs)) (parentgraph t)\<rparr>)"
    if "set cs \<subseteq> set (subs e)" for cs t
    using that
  proof (induction cs arbitrary: t)
    case (Cons c cs)
    then have c: "c \<in> set (subs e)" by simp
    have "list_all (\<lambda>x. \<not> is_object_node x) (nodes c)" using less.prems nodes_trans [OF c] by (auto simp: list_all_iff)
    from less.IH [OF subs_size [OF c] this] Cons show ?case by simp
  qed simp
  have d: "default_visit (pg_visit B) e t = Inr (t\<lparr>parentgraph := fold (pg_step B) (concat (map (pairs (parent t)) (subs e))) (parentgraph t)\<rparr>)" for t
    unfolding default_visit_def acc by (rule children) simp
  show ?case
    by (subst pg_visit.simps) (simp add: pg_dispatch_eq [OF o] d pairs.simps [of _ e] below_other [OF o])
qed

section \<open>The functions of a tree\<close>

text \<open>The functions that the chunks of a tree declare; \<open>g\<close> encloses \<open>f\<close> when \<open>f\<close> is declared inside \<open>g\<close>.\<close>

definition declared :: "ast \<Rightarrow> addr list" where
  "declared e = concat (map chunk_decs (nodes e))"

definition encloses :: "ast \<Rightarrow> addr \<Rightarrow> addr \<Rightarrow> bool" where
  "encloses tree g f \<longleftrightarrow> list_ex (\<lambda>G. is_FunctionDec G \<and> addr_of G = g \<and> f \<in> set (declared G)) (nodes tree)"

lemma declared_unfold: "declared e = chunk_decs e @ concat (map declared (subs e))"
proof -
  have "concat (map chunk_decs (concat (map nodes cs))) = concat (map (\<lambda>c. concat (map chunk_decs (nodes c))) cs)" for cs
    by (induction cs) simp_all
  then show ?thesis unfolding declared_def by (subst nodes.simps) (simp add: comp_def)
qed

lemma pairs_declared: "map fst (pairs p e) = declared e"
proof (induction p e rule: pairs.induct)
  case (1 p e)
  have "map (\<lambda>x. map fst (pairs (below p e) x)) (subs e) = map declared (subs e)" using 1 by simp
  then show ?case by (subst pairs.simps) (simp add: declared_unfold [of e] map_concat comp_def cong: map_cong)
qed

text \<open>Every parent has been declared before, if the root is no declaration.\<close>

fun known :: "addr set \<Rightarrow> (addr \<times> fundec) list \<Rightarrow> bool" where
  "known A [] = True"
| "known A ((f, p) # ps) = ((case p of None \<Rightarrow> True | Some q \<Rightarrow> q \<in> A) \<and> known (insert f A) ps)"

lemma known_append: "known A (xs @ ys) \<longleftrightarrow> known A xs \<and> known (A \<union> fst ` set xs) ys"
  by (induction A xs rule: known.induct) auto

lemma known_mono: "known A ps \<Longrightarrow> A \<subseteq> A' \<Longrightarrow> known A' ps"
proof (induction A ps arbitrary: A' rule: known.induct)
  case (2 A f p ps)
  have "known (insert f A') ps" by (rule 2(1)) (use 2(2,3) in auto)
  then show ?case using 2(2,3) by (auto split: option.splits)
qed simp

lemma known_nth:
  "known A ps \<Longrightarrow> i < length ps \<Longrightarrow> snd (ps ! i) = Some q \<Longrightarrow> q \<in> A \<or> (\<exists>j < i. fst (ps ! j) = q)"
proof (induction A ps arbitrary: i rule: known.induct)
  case (2 A f p ps)
  show ?case
  proof (cases i)
    case (Suc k)
    then have "q \<in> insert f A \<or> (\<exists>j < k. fst (ps ! j) = q)" using 2 by auto
    then show ?thesis using Suc by (auto intro: exI [of _ 0] exI [of _ "Suc _"])
  qed (use 2 in auto)
qed simp

lemma fd_class:
  "is_FunctionDec c \<Longrightarrow> \<not> is_Exp c \<and> \<not> is_Var c \<and> \<not> is_Ty c \<and> \<not> is_NameTy c \<and> \<not> is_VarDec c \<and> \<not> is_TypeDec c \<and>
    \<not> is_VarChunk c \<and> \<not> is_Chunk c \<and> \<not> is_Field c \<and> \<not> is_FieldInit c \<and> \<not> is_ChunkList c"
  by (cases c) (simp_all add: is_class_defs)

lemma subs_not_FunctionDec:
  "wf_node e \<Longrightarrow> \<not> is_object_node e \<Longrightarrow> c \<in> set (subs e) \<Longrightarrow> is_FunctionDec c \<Longrightarrow> addr_of c \<in> set (chunk_decs e)"
  by (cases e) (auto simp: wf_node_def chunk_decs_def opt_list_def list_all_iff is_object_node_def dest: fd_class split: option.splits)

definition plain_tree :: "ast \<Rightarrow> bool" where
  "plain_tree e \<longleftrightarrow> wf_ast e \<and> list_all (\<lambda>x. \<not> is_object_node x) (nodes e)"

lemma plain_node: "plain_tree e \<Longrightarrow> wf_node e \<and> \<not> is_object_node e"
  using nodes_self [of e] by (simp add: plain_tree_def wf_ast_def list_all_iff)

lemma plain_sub: "plain_tree e \<Longrightarrow> c \<in> set (nodes e) \<Longrightarrow> plain_tree c"
  using nodes_sub [of c e] by (auto simp: plain_tree_def wf_ast_def list_all_iff)

lemma sub_node: "c \<in> set (subs e) \<Longrightarrow> c \<in> set (nodes e)"
  using nodes_trans [of c e] by auto

lemma pairs_known:
  "plain_tree e \<Longrightarrow> (\<And>q. p = Some q \<Longrightarrow> q \<in> A) \<Longrightarrow> (is_FunctionDec e \<Longrightarrow> addr_of e \<in> A) \<Longrightarrow> known A (pairs p e)"
proof (induction p e arbitrary: A rule: pairs.induct)
  case (1 p e)
  note node = plain_node [OF 1(2)]
  have first: "known A (map (\<lambda>d. (d, p)) ds)" if "\<And>q. p = Some q \<Longrightarrow> q \<in> A" for ds A
    using that by (induction ds arbitrary: A) (auto split: option.split)
  have b: "q \<in> A" if "below p e = Some q" for q
    using that 1(3,4) by (cases e) (auto simp: below_def is_FunctionDec_def addr_of_def)
  have "known A' (concat (map (pairs (below p e)) cs))" if "A \<union> set (chunk_decs e) \<subseteq> A'" "set cs \<subseteq> set (subs e)" for cs A'
    using that
  proof (induction cs arbitrary: A')
    case (Cons c cs)
    then have c: "c \<in> set (subs e)" by simp
    have "known A' (pairs (below p e) c)"
      by (rule 1(1) [OF c]) (use plain_sub [OF 1(2) sub_node [OF c]] b Cons.prems subs_not_FunctionDec [of e c] node c in auto)
    moreover have "known (A' \<union> fst ` set (pairs (below p e) c)) (concat (map (pairs (below p e)) cs))"
      by (rule Cons.IH) (use Cons.prems in auto)
    ultimately show ?case by (simp add: known_append)
  qed simp
  then show ?case
    using first [of A "chunk_decs e"] 1(3) by (subst pairs.simps) (simp add: known_append image_image)
qed

section \<open>The parents and the enclosing functions\<close>

definition parent_rel :: "(addr \<times> fundec) list \<Rightarrow> (addr \<times> addr) set" where
  "parent_rel ps = {(f, q). (f, Some q) \<in> set ps}"

lemma parent_rel_mono: "set ps \<subseteq> set qs \<Longrightarrow> parent_rel ps \<subseteq> parent_rel qs"
  by (auto simp: parent_rel_def)

lemma pairs_sub: "c \<in> set (subs e) \<Longrightarrow> set (pairs (below p e) c) \<subseteq> set (pairs p e)"
  by (subst (2) pairs.simps) auto

lemma pairs_node: "G \<in> set (nodes e) \<Longrightarrow> \<exists>p'. set (pairs p' G) \<subseteq> set (pairs p e)"
proof (induction p e rule: pairs.induct)
  case (1 p e)
  show ?case
  proof (cases "G = e")
    case False
    then obtain c where c: "c \<in> set (subs e)" "G \<in> set (nodes c)" using 1(2) by (auto simp: nodes.simps [of e])
    then show ?thesis using 1(1) [OF c] pairs_sub [OF c(1)] by blast
  qed blast
qed

lemma below_FunctionDec: "is_FunctionDec e \<Longrightarrow> \<not> is_object_node e \<Longrightarrow> below p e = Some (addr_of e)"
  by (cases e) (simp_all add: is_FunctionDec_def is_object_node_def below_def addr_of_def)

lemma pairs_reach:
  "plain_tree e \<Longrightarrow> f \<in> set (declared e) \<Longrightarrow> below p e = Some q \<Longrightarrow> (f, q) \<in> (parent_rel (pairs p e))\<^sup>+"
proof (induction p e arbitrary: q rule: pairs.induct)
  case (1 p e)
  note node = plain_node [OF 1(2)]
  have first: "(d, q) \<in> (parent_rel (pairs p e))\<^sup>+" if "d \<in> set (chunk_decs e)" for d
  proof -
    have "below p e = p" using that by (cases e) (simp_all add: below_def chunk_decs_def)
    then have "(d, q) \<in> parent_rel (pairs p e)" using that 1(4) by (subst pairs.simps) (auto simp: parent_rel_def)
    then show ?thesis by blast
  qed
  show ?case
  proof (cases "f \<in> set (chunk_decs e)")
    case True
    then show ?thesis by (rule first)
  next
    case False
    then obtain c where c: "c \<in> set (subs e)" "f \<in> set (declared c)" using 1(3) by (auto simp: declared_unfold [of e])
    note pc = plain_sub [OF 1(2) sub_node [OF c(1)]]
    note mono = trancl_mono [OF _ parent_rel_mono [OF pairs_sub [OF c(1)]]]
    show ?thesis
    proof (cases "is_FunctionDec c")
      case True
      then have "(f, addr_of c) \<in> (parent_rel (pairs p e))\<^sup>+"
        using 1(1) [OF c(1) pc c(2)] below_FunctionDec plain_node [OF pc] mono by blast
      then show ?thesis using first subs_not_FunctionDec [of e c] node c(1) True by (meson trancl_trans)
    next
      case False
      then have "below (below p e) c = Some q" using below_other plain_node [OF pc] 1(4) by simp
      from 1(1) [OF c(1) pc c(2) this] show ?thesis by (rule mono)
    qed
  qed
qed

lemma pairs_sound:
  "plain_tree e \<Longrightarrow> (f, Some q) \<in> set (pairs p e) \<Longrightarrow> p = Some q \<or> encloses e q f"
proof (induction p e rule: pairs.induct)
  case (1 p e)
  note node = plain_node [OF 1(2)]
  from 1(3) consider "p = Some q" | c where "c \<in> set (subs e)" "(f, Some q) \<in> set (pairs (below p e) c)"
    by (subst (asm) pairs.simps) auto
  then show ?case
  proof cases
    case 2
    have fc: "f \<in> set (declared c)" using 2(2) by (force simp flip: pairs_declared [of "below p e" c])
    then have fe: "f \<in> set (declared e)" using 2(1) by (auto simp: declared_unfold [of e])
    from 1(1) [OF 2(1) plain_sub [OF 1(2) sub_node [OF 2(1)]] 2(2)] consider "below p e = Some q" | "encloses c q f" by blast
    then show ?thesis
    proof cases
      case 1
      show ?thesis
      proof (cases "is_FunctionDec e")
        case True
        then have "addr_of e = q" using 1 below_FunctionDec node by simp
        then have "encloses e q f" using True fe nodes_self [of e] by (auto simp: encloses_def list_ex_iff)
        then show ?thesis ..
      qed (use 1 node below_other in auto)
    next
      case 2
      then have "encloses e q f" using nodes_trans [of c e] \<open>c \<in> set (subs e)\<close> by (auto simp: encloses_def list_ex_iff)
      then show ?thesis ..
    qed
  qed simp
qed

text \<open>A function that is declared is a node.\<close>

lemma nodes_size: "y \<in> set (nodes d) \<Longrightarrow> size y \<le> size d"
proof (induction d rule: nodes.induct)
  case (1 d)
  from 1(2) consider "y = d" | c where "c \<in> set (subs d)" "y \<in> set (nodes c)" by (subst (asm) nodes.simps) auto
  then show ?case using 1(1) subs_size by cases (auto, fastforce)
qed

lemma declared_node:
  assumes "plain_tree e" "f \<in> set (declared e)"
  shows "\<exists>d \<in> set (nodes e). is_FunctionDec d \<and> addr_of d = f \<and> d \<noteq> e"
proof -
  obtain x where x: "x \<in> set (nodes e)" "f \<in> set (chunk_decs x)" using assms(2) by (auto simp: declared_def)
  then obtain h ds d where d: "x = FunctionChunk h ds" "d \<in> set ds" "addr_of d = f"
    by (cases x) (auto simp: chunk_decs_def)
  have "wf_node x" using assms(1) x(1) by (auto simp: plain_tree_def wf_ast_def list_all_iff)
  then have fd: "is_FunctionDec d" using d by (auto simp: wf_node_def list_all_iff)
  have dx: "d \<in> set (subs x)" using d by simp
  then have "d \<in> set (nodes e)" using nodes_sub [OF x(1)] sub_node by blast
  moreover have "d \<noteq> e"
  proof
    assume "d = e"
    then have "set (nodes x) \<subseteq> set (nodes d)" using nodes_sub [OF x(1)] by simp
    then show False using subs_size [OF dx] nodes_size [of x d] nodes_self [of x] by (meson leD subsetD)
  qed
  ultimately show ?thesis using fd d(3) by blast
qed

lemma encloses_trans:
  assumes t: "plain_tree tree" "distinct_nodes tree" and a: "encloses tree q f" and b: "encloses tree r q"
  shows "encloses tree r f"
proof -
  obtain G where G: "G \<in> set (nodes tree)" "is_FunctionDec G" "addr_of G = q" "f \<in> set (declared G)"
    using a by (auto simp: encloses_def list_ex_iff)
  obtain H where H: "H \<in> set (nodes tree)" "is_FunctionDec H" "addr_of H = r" "q \<in> set (declared H)"
    using b by (auto simp: encloses_def list_ex_iff)
  obtain d where d: "d \<in> set (nodes H)" "addr_of d = q" using declared_node [OF plain_sub [OF t(1) H(1)] H(4)] by blast
  have "d \<in> set (nodes tree)" using nodes_sub [OF H(1)] d(1) by blast
  then have "d = G" using t(2) G(1,3) d(2) by (auto simp: distinct_nodes_def distinct_map inj_on_def)
  then have "f \<in> set (declared H)" using G(4) nodes_sub [OF d(1)] by (auto simp: declared_def)
  then show ?thesis using H by (auto simp: encloses_def list_ex_iff)
qed

lemma encloses_iff:
  assumes "plain_tree tree" "distinct_nodes tree"
  shows "(f, g) \<in> (parent_rel (pairs None tree))\<^sup>+ \<longleftrightarrow> encloses tree g f"
proof
  assume "(f, g) \<in> (parent_rel (pairs None tree))\<^sup>+"
  then show "encloses tree g f"
  proof (induction rule: trancl_induct)
    case (base g)
    then show ?case using pairs_sound [OF assms(1), of f g None] by (simp add: parent_rel_def)
  next
    case (step q g)
    then have "encloses tree g q" using pairs_sound [OF assms(1), of q g None] by (simp add: parent_rel_def)
    with step.IH show ?case by (rule encloses_trans [OF assms])
  qed
next
  assume "encloses tree g f"
  then obtain G where G: "G \<in> set (nodes tree)" "is_FunctionDec G" "addr_of G = g" "f \<in> set (declared G)"
    by (auto simp: encloses_def list_ex_iff)
  note pG = plain_sub [OF assms(1) G(1)]
  obtain p where p: "set (pairs p G) \<subseteq> set (pairs None tree)" using pairs_node [OF G(1)] by blast
  have "(f, g) \<in> (parent_rel (pairs p G))\<^sup>+"
    by (rule pairs_reach [OF pG G(4)]) (use below_FunctionDec G plain_node [OF pG] in auto)
  then show "(f, g) \<in> (parent_rel (pairs None tree))\<^sup>+" by (rule trancl_mono [OF _ parent_rel_mono [OF p]])
qed

text \<open>No function is declared twice.\<close>

lemma declared_mset: "mset (declared e) \<subseteq># mset (map addr_of (concat (map nodes (subs e))))"
proof (induction e rule: nodes.induct)
  case (1 e)
  have len: "mset (map addr_of cs) + mset (concat (map declared cs)) \<subseteq># mset (map addr_of (concat (map nodes cs)))"
    if "set cs \<subseteq> set (subs e)" for cs
    using that
  proof (induction cs)
    case (Cons c cs)
    have "mset (declared c) \<subseteq># mset (map addr_of (concat (map nodes (subs c))))" using 1 Cons.prems by simp
    then have "add_mset (addr_of c) (mset (declared c)) \<subseteq># mset (map addr_of (nodes c))" by (subst nodes.simps) simp
    moreover have "mset (map addr_of cs) + mset (concat (map declared cs)) \<subseteq># mset (map addr_of (concat (map nodes cs)))"
      using Cons by simp
    ultimately have "add_mset (addr_of c) (mset (declared c)) + (mset (map addr_of cs) + mset (concat (map declared cs)))
        \<subseteq># mset (map addr_of (nodes c)) + mset (map addr_of (concat (map nodes cs)))"
      by (rule subset_mset.add_mono)
    then show ?case by (simp add: ac_simps)
  qed simp
  have "mset (chunk_decs e) \<subseteq># mset (map addr_of (subs e))" by (cases e) (simp_all add: chunk_decs_def)
  then have "mset (declared e) \<subseteq># mset (map addr_of (subs e)) + mset (concat (map declared (subs e)))"
    by (simp add: declared_unfold [of e])
  then show ?case using len [of "subs e"] by (meson order_refl subset_mset.order_trans)
qed

lemma declared_distinct: "distinct_nodes e \<Longrightarrow> distinct (declared e)"
proof -
  assume "distinct_nodes e"
  then have "distinct (map addr_of (concat (map nodes (subs e))))" by (simp add: distinct_nodes_def nodes.simps [of e])
  then have d: "count (mset (map addr_of (concat (map nodes (subs e))))) a \<le> 1" for a by (simp add: distinct_count_atmost_1)
  have "count (mset (declared e)) a \<le> 1" for a
    using mset_subset_eq_count [OF declared_mset [of e]] d by (rule order_trans)
  moreover have "a \<in> set (declared e) \<Longrightarrow> 0 < count (mset (declared e)) a" for a by simp
  ultimately show ?thesis by (auto simp: distinct_count_atmost_1 count_eq_zero_iff le_Suc_eq)
qed

section \<open>The graph that the visitor builds\<close>

definition represents :: "'g fundec_lib \<Rightarrow> (addr \<times> fundec) list \<Rightarrow> 'g fundec_graph \<Rightarrow> bool" where
  "represents B ps G \<longleftrightarrow> bg_count B (fg_graph G) = length ps \<and>
     (\<forall>i < length ps. bg_label B (fg_graph G) i = Some (fst (ps ! i)) \<and> hfundecs G (Some (fst (ps ! i))) = Some i \<and>
        (\<exists>j. bg_adjacent B (fg_graph G) i = [j] \<and>
          (case snd (ps ! i) of None \<Rightarrow> j = 0 | Some q \<Rightarrow> j < i \<and> fst (ps ! j) = q))) \<and>
     (\<forall>f. f \<notin> fst ` set ps \<longrightarrow> hfundecs G (Some f) = None) \<and> hfundecs G None \<in> {None, Some 0}"

lemma fundec_add_eq:
  assumes "adjacency_list_laws B" and "bg_count B (fg_graph G) = n"
  shows "\<exists>g. fundec_add B f G = G\<lparr>fg_graph := g, hfundecs := (hfundecs G)(f \<mapsto> n)\<rparr> \<and> bg_count B g = Suc n \<and>
    bg_label B g n = f \<and> bg_adjacent B g n = [] \<and>
    (\<forall>v < n. bg_label B g v = bg_label B (fg_graph G) v \<and> bg_adjacent B g v = bg_adjacent B (fg_graph G) v)"
proof -
  have v: "fst (bg_add_vertex B f (fg_graph G)) = n" "bg_count B (snd (bg_add_vertex B f (fg_graph G))) = Suc n"
    "bg_label B (snd (bg_add_vertex B f (fg_graph G))) n = f" "bg_adjacent B (snd (bg_add_vertex B f (fg_graph G))) n = []"
    "\<forall>v < n. bg_label B (snd (bg_add_vertex B f (fg_graph G))) v = bg_label B (fg_graph G) v \<and>
       bg_adjacent B (snd (bg_add_vertex B f (fg_graph G))) v = bg_adjacent B (fg_graph G) v"
    using assms unfolding adjacency_list_laws_def by blast+
  then show ?thesis
    by (intro exI [of _ "snd (bg_add_vertex B f (fg_graph G))"]) (simp add: fundec_add_def vertex_add_def split_beta)
qed

lemma represents_step:
  assumes laws: "adjacency_list_laws B" and R: "represents B ps G" and new: "f \<notin> fst ` set ps"
    and p: "\<And>q. p = Some q \<Longrightarrow> q \<in> fst ` set ps"
  shows "represents B (ps @ [(f, p)]) (pg_step B (f, p) G)"
proof -
  let ?n = "length ps"
  from R have cnt: "bg_count B (fg_graph G) = ?n" by (simp add: represents_def)
  obtain g where g: "fundec_add B (Some f) G = G\<lparr>fg_graph := g, hfundecs := (hfundecs G)(Some f \<mapsto> ?n)\<rparr>" "bg_count B g = Suc ?n"
    "bg_label B g ?n = Some f" "bg_adjacent B g ?n = []"
    "\<And>v. v < ?n \<Longrightarrow> bg_label B g v = bg_label B (fg_graph G) v \<and> bg_adjacent B g v = bg_adjacent B (fg_graph G) v"
    using fundec_add_eq [OF laws cnt, of "Some f"] by blast
  have old: "hfundecs G (Some (fst (ps ! i))) = Some i" if "i < ?n" for i using R that by (simp add: represents_def)
  obtain j m where j: "pg_step B (f, p) G = \<lparr>fg_graph = bg_add_edge B ?n j g, hfundecs = m\<rparr>" "j \<le> ?n"
      "\<And>x. m (Some x) = ((hfundecs G)(Some f \<mapsto> ?n)) (Some x)" "m None \<in> {None, Some 0}"
      "case p of None \<Rightarrow> j = 0 | Some q \<Rightarrow> j < ?n \<and> fst (ps ! j) = q"
  proof (cases p)
    case None
    have "hfundecs G None = None \<or> hfundecs G None = Some 0" using R by (auto simp: represents_def)
    then show ?thesis
    proof
      assume "hfundecs G None = None"
      then show ?thesis using None
        by (intro that [of 0 "((hfundecs G)(Some f \<mapsto> ?n))(None \<mapsto> 0)"]) (auto simp: pg_step_def g fundec_link_def hfundecs_at_def)
    next
      assume "hfundecs G None = Some 0"
      then show ?thesis using None
        by (intro that [of 0 "(hfundecs G)(Some f \<mapsto> ?n)"]) (auto simp: pg_step_def g fundec_link_def hfundecs_at_def)
    qed
  next
    case (Some q)
    then obtain j where j: "j < ?n" "fst (ps ! j) = q" using p by (force simp: in_set_conv_nth)
    have "hfundecs G (Some q) = Some j" using old [OF j(1)] j(2) by simp
    moreover have "q \<noteq> f" using new p Some by blast
    moreover have "hfundecs G None \<in> {None, Some 0}" using R by (simp add: represents_def)
    ultimately show ?thesis using Some j
      by (intro that [of j "(hfundecs G)(Some f \<mapsto> ?n)"]) (auto simp: pg_step_def g fundec_link_def hfundecs_at_def)
  qed
  have e: "bg_count B (bg_add_edge B ?n j g) = Suc ?n"
    "\<And>w. w < Suc ?n \<Longrightarrow> bg_label B (bg_add_edge B ?n j g) w = bg_label B g w"
    "bg_adjacent B (bg_add_edge B ?n j g) ?n = [j]"
    "\<And>w. w < ?n \<Longrightarrow> bg_adjacent B (bg_add_edge B ?n j g) w = bg_adjacent B g w"
    using laws g(2,4) j(2) by (auto simp: adjacency_list_laws_def)
  have i1: "bg_label B (bg_add_edge B ?n j g) i = Some (fst ((ps @ [(f, p)]) ! i)) \<and> m (Some (fst ((ps @ [(f, p)]) ! i))) = Some i \<and>
      (\<exists>k. bg_adjacent B (bg_add_edge B ?n j g) i = [k] \<and>
        (case snd ((ps @ [(f, p)]) ! i) of None \<Rightarrow> k = 0 | Some q \<Rightarrow> k < i \<and> fst ((ps @ [(f, p)]) ! k) = q))"
    if i: "i < Suc ?n" for i
  proof (cases "i = ?n")
    case True
    then show ?thesis using e g(3) j(3,5) by (auto simp: nth_append split: option.splits)
  next
    case False
    then have i: "i < ?n" using i by simp
    then have "fst (ps ! i) \<noteq> f" using new nth_mem by fastforce
    moreover have "bg_label B (fg_graph G) i = Some (fst (ps ! i)) \<and>
        (\<exists>k. bg_adjacent B (fg_graph G) i = [k] \<and> (case snd (ps ! i) of None \<Rightarrow> k = 0 | Some q \<Rightarrow> k < i \<and> fst (ps ! k) = q))"
      using R i by (simp add: represents_def)
    ultimately show ?thesis using i e g(5) j(3) old [OF i] by (auto simp: nth_append split: option.splits)
  qed
  have "\<forall>x. x \<notin> fst ` set ps \<longrightarrow> hfundecs G (Some x) = None" using R by (simp add: represents_def)
  then show ?thesis using i1 e(1) j(1,3,4) by (auto simp: represents_def)
qed

lemma represents_fold:
  "adjacency_list_laws B \<Longrightarrow> represents B ps G \<Longrightarrow> known (fst ` set ps) qs \<Longrightarrow> distinct (map fst (ps @ qs)) \<Longrightarrow>
    represents B (ps @ qs) (fold (pg_step B) qs G)"
proof (induction qs arbitrary: ps G)
  case (Cons x qs)
  obtain f p where x: "x = (f, p)" by fastforce
  have "represents B (ps @ [x]) (pg_step B x G)"
    unfolding x by (rule represents_step) (use Cons.prems x in \<open>auto split: option.splits\<close>)
  then have "represents B ((ps @ [x]) @ qs) (fold (pg_step B) qs (pg_step B x G))"
    by (rule Cons.IH [OF Cons.prems(1)]) (use Cons.prems x in auto)
  then show ?case by simp
qed simp

lemma represents_tree:
  assumes "adjacency_list_laws B" "plain_tree tree" "distinct_nodes tree" "\<not> is_FunctionDec tree"
  shows "\<exists>G. parentgraph_compute B tree = Inr G \<and> represents B (pairs None tree) G"
proof -
  have "represents B [] (fg_new B)" using assms(1) by (simp add: represents_def fg_new_def adjacency_list_laws_def)
  moreover have "known {} (pairs None tree)" by (rule pairs_known) (use assms in auto)
  moreover have "distinct (map fst (pairs None tree))" using declared_distinct [OF assms(3)] by (simp add: pairs_declared)
  ultimately have "represents B (pairs None tree) (fold (pg_step B) (pairs None tree) (fg_new B))"
    using represents_fold [OF assms(1), of "[]" "fg_new B" "pairs None tree"] by simp
  moreover have "parentgraph_compute B tree = Inr (fold (pg_step B) (pairs None tree) (fg_new B))"
    using assms(2) by (simp add: parentgraph_compute_def pg_visit_fold plain_tree_def)
  ultimately show ?thesis by blast
qed

text \<open>The walk from a function to its parents.\<close>

lemma deep_get_walk:
  assumes R: "represents B ps G" and d: "distinct (map fst ps)"
  shows "i < length ps \<Longrightarrow> i \<le> n \<Longrightarrow> deep_get_upto (Suc n) B G (Some (fst (ps ! i))) (Some g) =
    Inr (if g = fst (ps ! i) \<or> (fst (ps ! i), g) \<in> (parent_rel ps)\<^sup>+ \<or> g = fst (ps ! 0) then Some g else None)"
proof (induction i arbitrary: n rule: less_induct)
  case (less i)
  have unique: "p = snd (ps ! i)" if "(fst (ps ! i), p) \<in> set ps" for p
    using that d less.prems(1) by (metis eq_key_imp_eq_value nth_mem prod.collapse)
  have reach: "(fst (ps ! i), g) \<in> (parent_rel ps)\<^sup>+ \<longleftrightarrow>
      (\<exists>q. snd (ps ! i) = Some q \<and> (q = g \<or> (q, g) \<in> (parent_rel ps)\<^sup>+))"
  proof
    assume "(fst (ps ! i), g) \<in> (parent_rel ps)\<^sup>+"
    then show "\<exists>q. snd (ps ! i) = Some q \<and> (q = g \<or> (q, g) \<in> (parent_rel ps)\<^sup>+)"
      by (cases rule: converse_tranclE) (use unique in \<open>auto simp: parent_rel_def\<close>)
  next
    assume "\<exists>q. snd (ps ! i) = Some q \<and> (q = g \<or> (q, g) \<in> (parent_rel ps)\<^sup>+)"
    then obtain q where q: "snd (ps ! i) = Some q" "q = g \<or> (q, g) \<in> (parent_rel ps)\<^sup>+" by blast
    then have "(fst (ps ! i), q) \<in> parent_rel ps" using less.prems(1) by (metis (no_types, lifting) mem_Collect_eq nth_mem parent_rel_def case_prodI prod.collapse)
    then show "(fst (ps ! i), g) \<in> (parent_rel ps)\<^sup>+" using q(2) by (auto intro: trancl_into_trancl2)
  qed
  show ?case
  proof (cases "g = fst (ps ! i)")
    case False
    from R less.prems(1) obtain j where j: "hfundecs G (Some (fst (ps ! i))) = Some i" "bg_adjacent B (fg_graph G) i = [j]"
      "case snd (ps ! i) of None \<Rightarrow> j = 0 | Some q \<Rightarrow> j < i \<and> fst (ps ! j) = q"
      by (auto simp: represents_def)
    have jl: "j < length ps" "j \<le> i" using j(3) less.prems(1) by (auto split: option.splits)
    then have lab: "bg_label B (fg_graph G) j = Some (fst (ps ! j))" using R by (simp add: represents_def)
    have same: "fst (ps ! j) = fst (ps ! i) \<longleftrightarrow> j = i"
      using d jl(1) less.prems(1) by (metis length_map nth_eq_iff_index_eq nth_map)
    show ?thesis
    proof (cases "j = i")
      case True
      then have "i = 0" "snd (ps ! i) = None" using j(3) by (auto split: option.splits)
      then show ?thesis using False j(1,2) lab True reach by auto
    next
      case ne: False
      then have "0 < n" "j < i" "j \<le> n - 1" using jl(2) less.prems(2) by auto
      then have "deep_get_upto n B G (Some (fst (ps ! j))) (Some g) =
          Inr (if g = fst (ps ! j) \<or> (fst (ps ! j), g) \<in> (parent_rel ps)\<^sup>+ \<or> g = fst (ps ! 0) then Some g else None)"
        using less.IH [of j "n - 1"] jl(1) by simp
      moreover have "(fst (ps ! 0), g) \<notin> (parent_rel ps)\<^sup>+" if "snd (ps ! i) = None"
      proof
        have l0: "0 < length ps" using less.prems(1) by linarith
        from R l0 have s0: "snd (ps ! 0) = None" by (force simp: represents_def split: option.splits)
        assume "(fst (ps ! 0), g) \<in> (parent_rel ps)\<^sup>+"
        then obtain q where "(fst (ps ! 0), Some q) \<in> set ps" by (cases rule: converse_tranclE) (auto simp: parent_rel_def)
        moreover have "(fst (ps ! 0), None) \<in> set ps" using l0 s0 by (metis nth_mem prod.collapse)
        ultimately show False using d by (metis eq_key_imp_eq_value option.distinct(1))
      qed
      ultimately show ?thesis using False ne j lab same reach by (auto split: option.splits)
    qed
  qed simp
qed

text \<open>C33: In the graph of the parents, the search of \<open>g\<close> from \<open>f\<close> ends, and it finds \<open>g\<close> exactly when \<open>g\<close> is \<open>f\<close>, encloses
  it in the program, or is the first function of the program, which is taken for the parent of every function that
  has none.\<close>

theorem parent_graph_correct:
  assumes "adjacency_list_laws B" and "plain_tree tree" and "distinct_nodes tree" and "\<not> is_FunctionDec tree"
    and "f \<in> set (declared tree)"
  shows "\<exists>G. parentgraph_compute B tree = Inr G \<and>
    hfundec_deep_get B G (Some f) (Some g) =
      Inr (if g = f \<or> encloses tree g f \<or> g = hd (declared tree) then Some g else None)"
proof -
  let ?ps = "pairs None tree"
  obtain G where G: "parentgraph_compute B tree = Inr G" "represents B ?ps G" using represents_tree [OF assms(1-4)] by blast
  have d: "distinct (map fst ?ps)" using declared_distinct [OF assms(3)] by (simp add: pairs_declared)
  obtain i where i: "i < length ?ps" "fst (?ps ! i) = f"
    using assms(5) by (metis in_set_conv_nth length_map nth_map pairs_declared)
  have hd: "hd (declared tree) = fst (?ps ! 0)" using i(1) by (metis hd_conv_nth length_greater_0_conv less_nat_zero_code list.size(3) map_is_Nil_conv nth_map pairs_declared)
  have "bg_count B (fg_graph G) = length ?ps" using G(2) by (simp add: represents_def)
  then show ?thesis
    using G(1) deep_get_walk [OF G(2) d i(1), of "length ?ps" g] i hd
    by (simp add: hfundec_deep_get_def encloses_iff [OF assms(2,3)] del: deep_get_upto.simps)
qed

section \<open>An example\<close>

text \<open>A graph as the list of its vertices with their sorted targets, and a program where the first function holds
  another, before a third.\<close>

definition list_graph :: "((fundec \<times> nat list) list, fundec) graph_lib" where
  "list_graph = \<lparr>bg_new = [], bg_add_vertex = \<lambda>l g. (length g, g @ [(l, [])]),
     bg_add_edge = \<lambda>u v g. g[u := (fst (g ! u), if v \<in> set (snd (g ! u)) then snd (g ! u) else insort v (snd (g ! u)))],
     bg_count = length, bg_label = \<lambda>g v. fst (g ! v), bg_adjacent = \<lambda>g v. snd (g ! v), bg_edges = \<lambda>_. []\<rparr>"

lemma list_graph_laws: "adjacency_list_laws list_graph"
  by (auto simp: adjacency_list_laws_def list_graph_def nth_append nth_list_update)

definition example_function :: "addr \<Rightarrow> symbol \<Rightarrow> ast \<Rightarrow> ast" where
  "example_function a name b = FunctionDec (header_at a) name (VarChunk (header_at (a + 1)) []) None (Some b)"

definition example_functions :: ast where
  "example_functions = ChunkList (header_at 0) [FunctionChunk (header_at 1)
     [example_function 10 ''f'' (LetExp (header_at 12) (ChunkList (header_at 13) [FunctionChunk (header_at 14)
        [example_function 20 ''g'' (NilExp (header_at 22))]]) (NilExp (header_at 15))),
      example_function 30 ''h'' (NilExp (header_at 32))]]"

theorem parent_graph_correct_witness:
  "encloses example_functions 10 20 \<and> \<not> encloses example_functions 30 20 \<and> \<not> encloses example_functions 10 30 \<and>
   (\<exists>G. parentgraph_compute list_graph example_functions = Inr G \<and> hfundec_deep_get list_graph G (Some 20) (Some 10) = Inr (Some 10)) \<and>
   (\<exists>G. parentgraph_compute list_graph example_functions = Inr G \<and> hfundec_deep_get list_graph G (Some 20) (Some 30) = Inr None) \<and>
   (\<exists>G. parentgraph_compute list_graph example_functions = Inr G \<and> hfundec_deep_get list_graph G (Some 30) (Some 10) = Inr (Some 10))"
proof -
  have n: "nodes (example_function a name b) = [example_function a name b, VarChunk (header_at (a + 1)) []] @ nodes b" for a name b
    by (simp add: example_function_def nodes.simps)
  have d: "plain_tree example_functions" "distinct_nodes example_functions" "\<not> is_FunctionDec example_functions"
    "declared example_functions = [10, 30, 20]" "encloses example_functions 10 20" "\<not> encloses example_functions 30 20"
    "\<not> encloses example_functions 10 30"
    by code_simp+
  have e: "20 \<in> set (declared example_functions)" "30 \<in> set (declared example_functions)" by (simp_all add: d)
  note t = parent_graph_correct [OF list_graph_laws d(1-3)]
  show ?thesis using t [OF e(1), of 10] t [OF e(1), of 30] t [OF e(2), of 10] by (simp add: d)
qed

end
