(* ===== verification/Over_Table.thy ===== *)
theory Over_Table
  imports Misc_Container
begin

text \<open>
  \<^verbatim>\<open>src/src/overload/over-table.*\<close>: the table of the overloaded functions, in which a name has every value that was
  put for it.  A scope is a whole copy of the table, in a vector whose last element is the innermost one.  A
  \<open>std::multimap\<close> is the list of its entries in the order of the keys, those of a key in the order of their insertion.
  \<open>dump\<close> is left out: its template cannot be instantiated.
\<close>

section \<open>The model of the code\<close>

type_synonym ('k, 'v) over_table = "('k, 'v) entries list"

definition multimap_emplace :: "'k :: linorder \<Rightarrow> 'v \<Rightarrow> ('k, 'v) entries \<Rightarrow> ('k, 'v) entries" where
  "multimap_emplace k v m = takeWhile (\<lambda>x. fst x \<le> k) m @ (k, v) # dropWhile (\<lambda>x. fst x \<le> k) m"

text \<open>\<open>equal_range\<close>: from the first key that is not less to the first that is greater.\<close>

definition equal_range :: "'k :: linorder \<Rightarrow> ('k, 'v) entries \<Rightarrow> ('k, 'v) entries" where
  "equal_range k m = takeWhile (\<lambda>x. fst x \<le> k) (dropWhile (\<lambda>x. fst x < k) m)"

definition ot_new :: "('k, 'v) over_table" where
  "ot_new = [[]]"

definition ot_put :: "'k :: linorder \<Rightarrow> 'v \<Rightarrow> ('k, 'v) over_table \<Rightarrow> ('k, 'v) over_table res" where
  "ot_put k v t = (if t = [] then Inl Bad_access else Inr (butlast t @ [multimap_emplace k v (last t)]))"

definition ot_get :: "'k :: linorder \<Rightarrow> ('k, 'v) over_table \<Rightarrow> ('k, 'v) entries res" where
  "ot_get k t = (if t = [] then Inl Assertion else Inr (equal_range k (last t)))"

definition ot_scope_begin :: "('k, 'v) over_table \<Rightarrow> ('k, 'v) over_table res" where
  "ot_scope_begin t = (if t = [] then Inl Bad_access else Inr (t @ [last t]))"

definition ot_scope_end :: "('k, 'v) over_table \<Rightarrow> ('k, 'v) over_table res" where
  "ot_scope_end t = (if t = [] then Inl Assertion else Inr (butlast t))"

section \<open>The multimap\<close>

definition sorted_multi :: "('k :: linorder, 'v) entries \<Rightarrow> bool" where
  "sorted_multi m \<longleftrightarrow> sorted (map fst m)"

definition homonyms :: "('k, 'v) entries \<Rightarrow> 'k \<Rightarrow> 'v list" where
  "homonyms m k = map snd (filter (\<lambda>x. fst x = k) m)"

lemma after_dropWhile:
  "sorted_multi m \<Longrightarrow> x \<in> set (dropWhile (\<lambda>x. fst x \<le> k) m) \<Longrightarrow> k < fst x"
  by (induction m) (auto simp: sorted_multi_def split: if_splits)

lemma before_takeWhile: "x \<in> set (takeWhile (\<lambda>x. fst x \<le> k) m) \<Longrightarrow> fst x \<le> k"
  by (metis set_takeWhileD)

lemma emplace_sorted: "sorted_multi m \<Longrightarrow> sorted_multi (multimap_emplace k v m)"
proof -
  assume s: "sorted_multi m"
  have m: "m = takeWhile (\<lambda>x. fst x \<le> k) m @ dropWhile (\<lambda>x. fst x \<le> k) m" by simp
  have "sorted (map fst (takeWhile (\<lambda>x. fst x \<le> k) m)) \<and> sorted (map fst (dropWhile (\<lambda>x. fst x \<le> k) m))"
    using s m unfolding sorted_multi_def by (metis map_append sorted_append)
  moreover have "fst x \<le> fst y" if "x \<in> set (takeWhile (\<lambda>x. fst x \<le> k) m)" "y \<in> set (dropWhile (\<lambda>x. fst x \<le> k) m)" for x y
    using before_takeWhile [OF that(1)] after_dropWhile [OF s that(2)] by simp
  moreover have "\<forall>y \<in> set (dropWhile (\<lambda>x. fst x \<le> k) m). k \<le> fst y" using after_dropWhile [OF s] less_imp_le by blast
  moreover have "\<forall>x \<in> set (takeWhile (\<lambda>x. fst x \<le> k) m). fst x \<le> k" using before_takeWhile by blast
  ultimately show ?thesis by (simp add: sorted_multi_def multimap_emplace_def sorted_append)
qed

lemma emplace_values: "sorted_multi m \<Longrightarrow> homonyms (multimap_emplace k v m) k' = homonyms m k' @ (if k' = k then [v] else [])"
proof -
  assume s: "sorted_multi m"
  have m: "filter P m = filter P (takeWhile (\<lambda>x. fst x \<le> k) m) @ filter P (dropWhile (\<lambda>x. fst x \<le> k) m)" for P
    by (metis filter_append takeWhile_dropWhile_id)
  have "filter (\<lambda>x. fst x = k) (dropWhile (\<lambda>x. fst x \<le> k) m) = []"
    using after_dropWhile [OF s, of _ k] by (auto simp: filter_empty_conv)
  then show ?thesis by (auto simp: homonyms_def multimap_emplace_def m)
qed

lemma equal_range_values: "sorted_multi m \<Longrightarrow> map snd (equal_range k m) = homonyms m k"
proof (induction m)
  case (Cons x m)
  then have s: "sorted_multi m" "\<And>y. y \<in> set m \<Longrightarrow> fst x \<le> fst y" by (auto simp: sorted_multi_def)
  consider "fst x < k" | "fst x = k" | "k < fst x" by fastforce
  then show ?case
  proof cases
    case 2
    have "dropWhile (\<lambda>y. fst y < k) m = m" using s(2) 2 by (cases m) (auto simp: not_less)
    then show ?thesis using Cons.IH [OF s(1)] 2 by (simp add: equal_range_def homonyms_def)
  next
    case 3
    then have "filter (\<lambda>y. fst y = k) m = []" using s(2) by (force simp: filter_empty_conv)
    then show ?thesis using 3 by (auto simp: equal_range_def homonyms_def)
  qed (use Cons.IH [OF s(1)] in \<open>auto simp: equal_range_def homonyms_def\<close>)
qed (simp add: equal_range_def homonyms_def)

section \<open>Declarations and nested scopes\<close>

text \<open>What a binder does to a table: declarations, and scopes with actions inside.\<close>

datatype ('k, 'v) action = Declare_act 'k 'v | Scope_act "('k, 'v) action list"

fun run_action :: "('k :: linorder, 'v) action \<Rightarrow> ('k, 'v) over_table \<Rightarrow> ('k, 'v) over_table res" where
  "run_action (Declare_act k v) t = ot_put k v t"
| "run_action (Scope_act as) t = bindE (ot_scope_begin t) (\<lambda>t1. bindE (foldE run_action as t1) ot_scope_end)"

fun declares :: "'k \<Rightarrow> ('k, 'v) action \<Rightarrow> 'v list" where
  "declares k (Declare_act k' v) = (if k' = k then [v] else [])"
| "declares k (Scope_act as) = []"

definition ot_ok :: "('k :: linorder, 'v) over_table \<Rightarrow> bool" where
  "ot_ok t \<longleftrightarrow> t \<noteq> [] \<and> list_all sorted_multi t"

lemma ot_ok_last: "ot_ok t \<Longrightarrow> t = butlast t @ [last t] \<and> sorted_multi (last t) \<and> list_all sorted_multi (butlast t)"
  by (auto simp: ot_ok_def list_all_iff dest: in_set_butlastD)

definition outcome :: "('k :: linorder, 'v) over_table \<Rightarrow> ('k \<Rightarrow> 'v list) \<Rightarrow> ('k, 'v) over_table res \<Rightarrow> bool" where
  "outcome t d r \<longleftrightarrow> (\<exists>u. r = Inr u \<and> ot_ok u \<and> butlast u = butlast t \<and> (\<forall>k. homonyms (last u) k = homonyms (last t) k @ d k))"

lemma run_actions:
  "ot_ok t \<Longrightarrow> (\<And>a t. a \<in> set as \<Longrightarrow> ot_ok t \<Longrightarrow> outcome t (\<lambda>k. declares k a) (run_action a t)) \<Longrightarrow>
    outcome t (\<lambda>k. concat (map (declares k) as)) (foldE run_action as t)"
proof (induction as arbitrary: t)
  case (Cons a as)
  then obtain u where u: "run_action a t = Inr u" "ot_ok u" "butlast u = butlast t"
    "\<And>k. homonyms (last u) k = homonyms (last t) k @ declares k a"
    unfolding outcome_def by (metis list.set_intros(1))
  have "outcome u (\<lambda>k. concat (map (declares k) as)) (foldE run_action as u)" by (rule Cons.IH) (use Cons.prems u in auto)
  then show ?case using u by (auto simp: outcome_def)
qed (simp add: outcome_def)

lemma run_action_outcome: "ot_ok t \<Longrightarrow> outcome t (\<lambda>k. declares k a) (run_action a t)"
proof (induction a arbitrary: t)
  case (Declare_act k v)
  then show ?case
    using ot_ok_last [OF Declare_act] emplace_sorted [of "last t" k v] emplace_values [of "last t" k v]
    by (auto simp: outcome_def ot_put_def ot_ok_def)
next
  case (Scope_act as)
  then have t1: "ot_scope_begin t = Inr (t @ [last t])" "ot_ok (t @ [last t])"
    using ot_ok_last [OF Scope_act(2)] by (auto simp: ot_scope_begin_def ot_ok_def)
  have "outcome (t @ [last t]) (\<lambda>k. concat (map (declares k) as)) (foldE run_action as (t @ [last t]))"
    by (rule run_actions [OF t1(2)]) (use Scope_act(1) in blast)
  then obtain u where u: "foldE run_action as (t @ [last t]) = Inr u" "u \<noteq> []" "butlast u = t" by (auto simp: outcome_def ot_ok_def)
  then show ?case using t1 Scope_act(2) by (auto simp: outcome_def ot_scope_end_def)
qed

text \<open>C36: On a table that is not empty, no sequence of declarations and of nested scopes fails; the outer scopes are as
  they were, and a lookup gives the homonyms it gave before, followed by those declared since, in the order of their
  declarations and without those of the scopes that are closed.\<close>

theorem over_table_scopes:
  assumes "ot_ok t"
  shows "\<exists>u. foldE run_action as t = Inr u \<and> ot_ok u \<and> butlast u = butlast t \<and>
    (\<forall>k. \<exists>before now. ot_get k t = Inr before \<and> ot_get k u = Inr now \<and>
       map snd now = map snd before @ concat (map (declares k) as))"
proof -
  have "outcome t (\<lambda>k. concat (map (declares k) as)) (foldE run_action as t)"
    by (rule run_actions [OF assms]) (rule run_action_outcome)
  then obtain u where u: "foldE run_action as t = Inr u" "ot_ok u" "butlast u = butlast t"
    "\<And>k. homonyms (last u) k = homonyms (last t) k @ concat (map (declares k) as)"
    unfolding outcome_def by blast
  have g: "ot_get k x = Inr (equal_range k (last x))" "map snd (equal_range k (last x)) = homonyms (last x) k" if "ot_ok x" for k x
    using ot_ok_last [OF that] that equal_range_values [of "last x"] by (simp_all add: ot_get_def ot_ok_def)
  have "\<forall>k. \<exists>before now. ot_get k t = Inr before \<and> ot_get k u = Inr now \<and>
       map snd now = map snd before @ concat (map (declares k) as)"
    using u(4) by (simp add: g [OF assms] g [OF u(2)])
  then show ?thesis using u(1-3) by blast
qed

theorem over_table_scopes_witness:
  "\<exists>u. foldE run_action [Declare_act (6 :: nat) 1, Scope_act [Declare_act (6 :: nat) 2], Declare_act 7 3, Declare_act (6 :: nat) (4 :: nat)] ot_new
      = Inr u \<and> (\<exists>now. ot_get 6 u = Inr now \<and> map snd now = [1, 4])"
proof -
  have "ot_ok (ot_new :: (nat, nat) over_table)" by (simp add: ot_ok_def ot_new_def sorted_multi_def)
  then obtain u where u: "foldE run_action [Declare_act (6 :: nat) 1, Scope_act [Declare_act 6 2], Declare_act 7 3, Declare_act 6 (4 :: nat)] ot_new = Inr u"
    "\<forall>k. \<exists>before now. ot_get k (ot_new :: (nat, nat) over_table) = Inr before \<and> ot_get k u = Inr now \<and> map snd now = map snd before @
       concat (map (declares k) [Declare_act (6 :: nat) 1, Scope_act [Declare_act 6 2], Declare_act 7 3, Declare_act 6 (4 :: nat)])"
    using over_table_scopes by blast
  from u(2) obtain before now where "ot_get 6 (ot_new :: (nat, nat) over_table) = Inr before" "ot_get 6 u = Inr now"
    "map snd now = map snd before @ [1, 4]" by (auto dest!: spec [of _ 6])
  moreover from this(1) have "before = []" by (simp add: ot_get_def ot_new_def equal_range_def)
  ultimately show ?thesis using u(1) by auto
qed

end
