(* ===== verification/Translator.thy ===== *)
theory Translator
  imports Escapes_Collector
begin

text \<open>
  \<^verbatim>\<open>src/llvmtranslate/translator.*\<close>, \<^verbatim>\<open>llvm-type-visitor.*\<close> and \<^verbatim>\<open>libllvmtranslate.cc\<close>: the translation of a
  typed tree without sugar to the intermediate representation of LLVM.

  LLVM is not part of the repository.  What the code calls is the type \<open>ll_call\<close>, one constructor per function
  of LLVM that changes the context, the module or the builder, with the arguments that the code gives it; what LLVM does is a
  parameter, the record \<open>llvm\<close>, over a state \<open>'m\<close> of LLVM that the model does not look into.  All objects of LLVM
  are known by their addresses.  The code puts the builder only at the end of a block, so that an insertion point is
  known by its block, none for the point that is not set.

  A method is written with what follows it, \<open>k\<close>, as last but one argument, where it gives a value.
\<close>

section \<open>What the code calls\<close>

datatype ll_binary =
    ll_add | ll_sub | ll_mul | ll_sdiv
  | ll_icmp_eq | ll_icmp_ne | ll_icmp_slt | ll_icmp_sle | ll_icmp_sgt | ll_icmp_sge

datatype ll_linkage = External_linkage | Internal_linkage

datatype ll_attribute = No_unwind | Inline_hint

text \<open>Types, constants, functions, blocks, instructions.\<close>

datatype ll_call =
    Get_int64_ty
  | Get_int8_ty
  | Get_void_ty
  | Pointer_get_ctx nat
  | Pointer_get addr nat
  | Pointer_get_unqual addr
  | Struct_create
  | Set_body addr "addr list"
  | Function_type_get addr "addr list"
  | Const_int addr i64
  | Const_null addr
  | Const_size_of addr
  | Const_trunc_or_bitcast addr addr
  | Function_create addr ll_linkage string
  | Add_fn_attr addr ll_attribute
  | Set_name addr string
  | Get_or_insert_function string addr
  | Set_target_triple string
  | Verify_function addr
  | Verify_module
  | Block_create string "addr option"
  | Set_insert_point addr
  | Restore_ip "addr option"
  | Alloca_at_begin addr addr string
  | Create_gep addr addr addr string
  | Create_struct_gep addr addr int string
  | Create_ptr_to_int addr addr string
  | Create_bit_cast addr addr string
  | Create_call addr "addr list" string
  | Create_load addr addr string
  | Create_store addr addr
  | Create_global_string_ptr string string nat
  | Create_malloc addr addr addr addr string
  | Create_binary ll_binary addr addr string
  | Create_zext_or_trunc addr addr string
  | Create_cond_br addr addr addr
  | Create_br addr
  | Create_phi addr nat string
  | Add_incoming addr addr addr
  | Create_ret_void
  | Create_ret addr

text \<open>
  \<open>ll_do\<close> makes a call and gives its result, which the code ignores when the function returns nothing; the others are the
  functions that only look at the state: the type of a value, whether a type is one of pointers, the arguments of a function, its entry
  block, a function by its name, the block of the builder, the 64-bit variant of the triple of the process.
\<close>

record 'm llvm =
  ll_do :: "ll_call \<Rightarrow> 'm \<Rightarrow> addr \<times> 'm"
  ll_type_of :: "'m \<Rightarrow> addr \<Rightarrow> addr"
  ll_is_pointer :: "'m \<Rightarrow> addr \<Rightarrow> bool"
  ll_args :: "'m \<Rightarrow> addr \<Rightarrow> addr list"
  ll_entry :: "'m \<Rightarrow> addr \<Rightarrow> addr"
  ll_function :: "'m \<Rightarrow> string \<Rightarrow> addr option"
  ll_insert_block :: "'m \<Rightarrow> addr option"
  ll_triple64 :: string

section \<open>The state of the translator\<close>

text \<open>
  The members, those of the translator of types included.  The reference \<open>ctx_\<close> and the builder are in \<open>tr_module\<close>.
  A null pointer in \<open>structs_\<close> is like no entry: the code only tests it.
\<close>

record 'm tr_state =
  tr_value :: "addr option"
  tr_function :: "addr option"
  tr_module :: 'm
  tr_locals :: "addr option \<rightharpoonup> (addr \<rightharpoonup> addr)"
  tr_loop_end :: "addr \<rightharpoonup> addr"
  tr_escaped :: "addr \<rightharpoonup> addr set"
  tr_type :: "addr option"
  tr_structs :: "addr \<rightharpoonup> addr"
  tr_malloc :: addr

text \<open>The tree with what the passes before wrote in it, LLVM, and a bound on the nesting of types.\<close>

record 'm tr_env =
  te_prog :: ec_env
  te_llvm :: "'m llvm"
  te_fuel :: nat

type_synonym 'm tr = "'m tr_state \<Rightarrow> 'm tr_state res"

definition api :: "'m tr_env \<Rightarrow> ll_call \<Rightarrow> (addr \<Rightarrow> 'm tr) \<Rightarrow> 'm tr" where
  "api E c k s = (case ll_do (te_llvm E) c (tr_module s) of (r, m) \<Rightarrow> k r (s\<lparr>tr_module := m\<rparr>))"

definition set_value :: "addr \<Rightarrow> 'm tr" where
  "set_value v s = Inr (s\<lparr>tr_value := Some v\<rparr>)"

definition set_type :: "addr \<Rightarrow> 'm tr" where
  "set_type t s = Inr (s\<lparr>tr_type := Some t\<rparr>)"

definition need :: "'a option \<Rightarrow> ('a \<Rightarrow> 's \<Rightarrow> 't res) \<Rightarrow> 's \<Rightarrow> 't res" where
  "need p k s = (case p of None \<Rightarrow> Inl Null_deref | Some a \<Rightarrow> k a s)"

definition skip :: "'m tr" where
  "skip s = Inr s"

text \<open>\<open>translate\<close>: visit, then read \<open>value_\<close>, which may be null or that of an earlier visit.\<close>

definition translate :: "'m tr_state visit \<Rightarrow> ast \<Rightarrow> (addr option \<Rightarrow> 'm tr) \<Rightarrow> 'm tr" where
  "translate visit e k s = bindE (visit e s) (\<lambda>t. k (tr_value t) t)"

text \<open>A translation whose value is used in the call of LLVM that follows.\<close>

definition operand :: "'m tr_state visit \<Rightarrow> ast \<Rightarrow> (addr \<Rightarrow> 'm tr) \<Rightarrow> 'm tr" where
  "operand visit e k = translate visit e (\<lambda>v. need v k)"

text \<open>The loops that put what each round gives in a vector, and those that only call.\<close>

fun gather :: "('x \<Rightarrow> (addr \<Rightarrow> 'm tr) \<Rightarrow> 'm tr) \<Rightarrow> 'x list \<Rightarrow> (addr list \<Rightarrow> 'm tr) \<Rightarrow> 'm tr" where
  "gather f [] k = k []"
| "gather f (x # xs) k = f x (\<lambda>v. gather f xs (\<lambda>vs. k (v # vs)))"

section \<open>Types\<close>

text \<open>
  \<open>LLVMTypeVisitor\<close>, with a bound on the nested visits.  A type of functions is left to the default visitor, whose
  method calls \<open>accept\<close> on the object it visits: it does not return.
\<close>

fun llvm_type_upto :: "'m tr_env \<Rightarrow> nat \<Rightarrow> addr \<Rightarrow> 'm tr" where
  "llvm_type_upto E 0 a s = Inl No_fuel"
| "llvm_type_upto E (Suc n) a s =
     bindE (ty_at (ec_store (te_prog E)) a) (\<lambda>t. case t of
       Nil_ty \<Rightarrow> api E (Pointer_get_ctx 1) set_type s
     | Void_ty \<Rightarrow> api E Get_int64_ty set_type s
     | Int_ty \<Rightarrow> api E Get_int64_ty set_type s
     | String_ty \<Rightarrow> api E Get_int8_ty (\<lambda>c. api E (Pointer_get c 1) set_type) s
     | Named_ty name p \<Rightarrow> bindE (actual (ec_store (te_prog E)) a) (\<lambda>b. llvm_type_upto E n b s)
     | Record_ty fs \<Rightarrow>
         bindE
          (if tr_structs s a \<noteq> None then Inr s
           else api E Struct_create (\<lambda>st s1.
             gather (\<lambda>f k s2. bindE (llvm_type_upto E n (snd f) s2) (\<lambda>t. need (tr_type t) k t)) fs
               (\<lambda>field_types. api E (Set_body st field_types) (\<lambda>_. skip))
               (s1\<lparr>tr_structs := (tr_structs s1)(a \<mapsto> st)\<rparr>)) s)
          (\<lambda>t. need (tr_structs t a) (\<lambda>st. api E (Pointer_get st 1) set_type) t)
     | Array_ty b \<Rightarrow>
         bindE (llvm_type_upto E n b s) (\<lambda>t. need (tr_type t) (\<lambda>e. api E (Pointer_get e 1) set_type) t)
     | Function_ty f r \<Rightarrow> Inl No_fuel)"

definition llvm_type :: "'m tr_env \<Rightarrow> addr \<Rightarrow> (addr \<Rightarrow> 'm tr) \<Rightarrow> 'm tr" where
  "llvm_type E a k s = bindE (llvm_type_upto E (te_fuel E) a s) (\<lambda>t. need (tr_type t) k t)"

text \<open>\<open>e.type_get()\<close>, its actual type, and the type of a variable: an integer for the object \<open>Void\<close>.\<close>

definition node_type :: "'m tr_env \<Rightarrow> ast \<Rightarrow> addr option" where
  "node_type E e = ec_types (te_prog E) (addr_of e)"

definition actual_type :: "'m tr_env \<Rightarrow> ast \<Rightarrow> addr res" where
  "actual_type E e = bindE (deref_ty (node_type E e)) (actual (ec_store (te_prog E)))"

definition var_ltype :: "'m tr_env \<Rightarrow> ast \<Rightarrow> (addr \<Rightarrow> 'm tr) \<Rightarrow> 'm tr" where
  "var_ltype E e k s =
     (if node_type E e = Some Void_instance then api E Get_int64_ty k s
      else need (node_type E e) (\<lambda>t. llvm_type E t k) s)"

definition type_formals :: "'m tr_env \<Rightarrow> addr \<Rightarrow> (symbol \<times> addr) list res" where
  "type_formals E f = (case cast_Function (ec_store (te_prog E)) (Some f) of
     None \<Rightarrow> Inl Bad_access
   | Some (fs, r) \<Rightarrow> (case cast_Record (ec_store (te_prog E)) (Some fs) of None \<Rightarrow> Inl Bad_access | Some flds \<Rightarrow> Inr flds))"

definition type_result :: "'m tr_env \<Rightarrow> addr \<Rightarrow> addr res" where
  "type_result E f = (case cast_Function (ec_store (te_prog E)) (Some f) of
     None \<Rightarrow> Inl Bad_access | Some (fs, r) \<Rightarrow> Inr r)"

text \<open>Whether the result of a function of that type is of type void.\<close>

definition void_result :: "'m tr_env \<Rightarrow> addr \<Rightarrow> bool res" where
  "void_result E f = bindE (type_result E f) (\<lambda>r. ty_eq (ec_store (te_prog E)) r Void_instance)"

text \<open>\<open>static_cast<const type::Function&>(e.type_get()->actual())\<close>: undefined on another type.\<close>

definition static_function :: "'m tr_env \<Rightarrow> ast \<Rightarrow> addr res" where
  "static_function E e = bindE (function_type (te_prog E) e) (\<lambda>f. case f of None \<Rightarrow> Inl Bad_access | Some a \<Rightarrow> Inr a)"

text \<open>A declaration by its address; the escaping variables in the order of the set, that of their addresses.\<close>

definition dec_at :: "'m tr_env \<Rightarrow> addr \<Rightarrow> ast res" where
  "dec_at E a = (case node_at (ec_root (te_prog E)) a of None \<Rightarrow> Inl Bad_access | Some d \<Rightarrow> Inr d)"

definition dec_symbol :: "ast \<Rightarrow> symbol" where
  "dec_symbol d = (case d of VarDec _ x _ _ \<Rightarrow> x | _ \<Rightarrow> [])"

definition escapes_of :: "addr \<Rightarrow> 'm tr_state \<Rightarrow> addr list" where
  "escapes_of f s = (case tr_escaped s f of None \<Rightarrow> [] | Some vs \<Rightarrow> sorted_list_of_set vs)"

definition llvm_function_type :: "'m tr_env \<Rightarrow> addr \<Rightarrow> (addr \<Rightarrow> 'm tr) \<Rightarrow> 'm tr" where
  "llvm_function_type E f k s =
     gather
       (\<lambda>a k s. bindE (dec_at E a) (\<lambda>d. need (node_type E d) (\<lambda>ty.
          llvm_type E ty (\<lambda>var_ltype. api E (Pointer_get_unqual var_ltype) k)) s))
       (escapes_of f s)
       (\<lambda>ptrs s1. bindE (type_formals E f) (\<lambda>formals.
          gather (\<lambda>field. llvm_type E (snd field)) formals (\<lambda>args s2.
            bindE (void_result E f) (\<lambda>void.
              if void then api E Get_void_ty (\<lambda>r. api E (Function_type_get r (ptrs @ args)) k) s2
              else bindE (type_result E f) (\<lambda>t.
                llvm_type E t (\<lambda>r. api E (Function_type_get r (ptrs @ args)) k) s2))) s1))
       s"

section \<open>Variables\<close>

text \<open>\<open>locals_.at(current_function_).at(d)\<close> and \<open>locals_[current_function_][d] = v\<close>.\<close>

definition local_at :: "addr option \<Rightarrow> (addr \<Rightarrow> 'm tr) \<Rightarrow> 'm tr" where
  "local_at d k s = (case tr_locals s (tr_function s) of
     None \<Rightarrow> Inl Out_of_range
   | Some vars \<Rightarrow> (case d of
       None \<Rightarrow> Inl Out_of_range
     | Some a \<Rightarrow> (case vars a of None \<Rightarrow> Inl Out_of_range | Some v \<Rightarrow> k v s)))"

definition local_put :: "addr \<Rightarrow> addr \<Rightarrow> 'm tr_state \<Rightarrow> 'm tr_state" where
  "local_put d v s =
     (let vars = (case tr_locals s (tr_function s) of None \<Rightarrow> Map.empty | Some m \<Rightarrow> m)
      in s\<lparr>tr_locals := (tr_locals s)(tr_function s \<mapsto> vars(d \<mapsto> v))\<rparr>)"

definition create_alloca :: "'m tr_env \<Rightarrow> addr option \<Rightarrow> addr \<Rightarrow> string \<Rightarrow> (addr \<Rightarrow> 'm tr) \<Rightarrow> 'm tr" where
  "create_alloca E f ltype name k =
     need f (\<lambda>fn s. api E (Alloca_at_begin (ll_entry (te_llvm E) (tr_module s) fn) ltype name) k s)"

text \<open>The loop that looks for the index of a field: the last index when no field has the name.\<close>

fun field_position :: "int \<Rightarrow> (symbol \<times> addr) list \<Rightarrow> symbol \<Rightarrow> int" where
  "field_position index [] key = index"
| "field_position index ((name, t) # flds) key =
     (if name = key then index + 1 else field_position (index + 1) flds key)"

definition record_ltype :: "addr \<Rightarrow> 'm tr_state \<Rightarrow> addr option" where
  "record_ltype a s = tr_structs s a"

definition access_simple :: "'m tr_env \<Rightarrow> header \<Rightarrow> (addr \<Rightarrow> 'm tr) \<Rightarrow> 'm tr" where
  "access_simple E h = local_at (ec_defs (te_prog E) (adr h))"

definition access_subscript :: "'m tr_env \<Rightarrow> 'm tr_state visit \<Rightarrow> ast \<Rightarrow> ast \<Rightarrow> (addr \<Rightarrow> 'm tr) \<Rightarrow> 'm tr" where
  "access_subscript E visit var index k =
     translate visit var (\<lambda>arr. translate visit index (\<lambda>idx s.
       bindE (actual_type E var) (\<lambda>t.
         need (cast_Array (ec_store (te_prog E)) (Some t)) (\<lambda>elem. llvm_type E elem (\<lambda>lt.
           need arr (\<lambda>a. need idx (\<lambda>i. api E (Create_gep lt a i []) k)))) s)))"

definition access_field :: "'m tr_env \<Rightarrow> 'm tr_state visit \<Rightarrow> ast \<Rightarrow> symbol \<Rightarrow> (addr \<Rightarrow> 'm tr) \<Rightarrow> 'm tr" where
  "access_field E visit var name k =
     translate visit var (\<lambda>var_val s.
       bindE (actual_type E var) (\<lambda>t.
         need (cast_Record (ec_store (te_prog E)) (Some t)) (\<lambda>fs s.
           need (record_ltype t s) (\<lambda>st. need var_val (\<lambda>v.
             api E (Create_struct_gep st v (field_position (-1) fs name) (''fieldptr_'' @ name)) k)) s) s))"

definition access_var :: "'m tr_env \<Rightarrow> 'm tr_state visit \<Rightarrow> ast \<Rightarrow> (addr \<Rightarrow> 'm tr) \<Rightarrow> 'm tr" where
  "access_var E visit e k = (case e of
     SimpleVar h _ \<Rightarrow> access_simple E h k
   | SubscriptVar _ var index \<Rightarrow> access_subscript E visit var index k
   | FieldVar _ var name \<Rightarrow> access_field E visit var name k
   | _ \<Rightarrow> (\<lambda>s. Inl Unreachable))"

definition tr_SimpleVar :: "'m tr_env \<Rightarrow> 'm tr_state visit \<Rightarrow> symbol \<Rightarrow> 'm tr_state visit" where
  "tr_SimpleVar E visit name e =
     var_ltype E e (\<lambda>lt. access_var E visit e (\<lambda>p. api E (Create_load lt p name) set_value))"

definition tr_FieldVar :: "'m tr_env \<Rightarrow> 'm tr_state visit \<Rightarrow> symbol \<Rightarrow> 'm tr_state visit" where
  "tr_FieldVar E visit name e =
     var_ltype E e (\<lambda>lt. access_var E visit e (\<lambda>p. api E (Create_load lt p name) set_value))"

definition tr_SubscriptVar :: "'m tr_env \<Rightarrow> 'm tr_state visit \<Rightarrow> 'm tr_state visit" where
  "tr_SubscriptVar E visit e =
     var_ltype E e (\<lambda>lt. access_var E visit e (\<lambda>p. api E (Create_load lt p ''subscript'') set_value))"

section \<open>Expressions\<close>

definition tr_NilExp :: "'m tr_env \<Rightarrow> 'm tr_state visit" where
  "tr_NilExp E e =
     need (node_type E e) (\<lambda>t. llvm_type E t (\<lambda>lt s.
       if ll_is_pointer (te_llvm E) (tr_module s) lt then api E (Const_null lt) set_value s else Inl Null_deref))"

definition tr_IntExp :: "'m tr_env \<Rightarrow> i32 \<Rightarrow> 'm tr" where
  "tr_IntExp E i = api E Get_int64_ty (\<lambda>t. api E (Const_int t (scast i)) set_value)"

definition tr_StringExp :: "'m tr_env \<Rightarrow> string \<Rightarrow> 'm tr" where
  "tr_StringExp E str = api E (Create_global_string_ptr str ''Str'' 1) set_value"

text \<open>A constant zero.\<close>

definition zero_value :: "'m tr_env \<Rightarrow> (addr \<Rightarrow> 'm tr) \<Rightarrow> 'm tr" where
  "zero_value E k = api E Get_int64_ty (\<lambda>t. api E (Const_int t 0) k)"

definition field_init :: "ast \<Rightarrow> (symbol \<times> ast) option" where
  "field_init f = (case f of FieldInit _ name init \<Rightarrow> Some (name, init) | _ \<Rightarrow> None)"

definition init_record_field ::
  "'m tr_env \<Rightarrow> 'm tr_state visit \<Rightarrow> (symbol \<times> addr) list \<Rightarrow> addr \<Rightarrow> addr \<Rightarrow> ast \<Rightarrow> 'm tr" where
  "init_record_field E visit fs st malloc_val f = (case field_init f of
     None \<Rightarrow> (\<lambda>s. Inl Bad_access)
   | Some (name, init) \<Rightarrow> translate visit init (\<lambda>field s.
       bindE (field_index fs name) (\<lambda>i.
         api E (Create_struct_gep st malloc_val i []) (\<lambda>p.
           need field (\<lambda>v. api E (Create_store v p) (\<lambda>_. skip))) s)))"

definition tr_RecordExp :: "'m tr_env \<Rightarrow> 'm tr_state visit \<Rightarrow> ast \<Rightarrow> ast list \<Rightarrow> 'm tr" where
  "tr_RecordExp E visit type_name flds s =
     bindE (actual_type E type_name) (\<lambda>r. case cast_Record (ec_store (te_prog E)) (Some r) of
       None \<Rightarrow> Inl Assertion
     | Some fs \<Rightarrow>
         llvm_type E r (\<lambda>_ s. need (record_ltype r s) (\<lambda>st.
           api E (Const_size_of st) (\<lambda>sz. api E Get_int64_ty (\<lambda>i64. api E (Const_trunc_or_bitcast sz i64) (\<lambda>sizeof_val s.
             api E (Create_malloc i64 st sizeof_val (tr_malloc s) ''malloccall'') (\<lambda>malloc_val s.
               bindE (foldE (init_record_field E visit fs st malloc_val) flds s) (set_value malloc_val)) s)))) s) s)"

definition ll_operation :: "oper \<Rightarrow> ll_binary \<times> string" where
  "ll_operation oper = (case oper of
     op_add \<Rightarrow> (ll_add, ''add'')
   | op_sub \<Rightarrow> (ll_sub, ''sub'')
   | op_mul \<Rightarrow> (ll_mul, ''mul'')
   | op_div \<Rightarrow> (ll_sdiv, ''div'')
   | op_eq \<Rightarrow> (ll_icmp_eq, ''eq'')
   | op_ne \<Rightarrow> (ll_icmp_ne, ''ne'')
   | op_lt \<Rightarrow> (ll_icmp_slt, ''lt'')
   | op_le \<Rightarrow> (ll_icmp_sle, ''le'')
   | op_gt \<Rightarrow> (ll_icmp_sgt, ''gt'')
   | op_ge \<Rightarrow> (ll_icmp_sge, ''ge''))"

definition tr_OpExp :: "'m tr_env \<Rightarrow> 'm tr_state visit \<Rightarrow> ast \<Rightarrow> oper \<Rightarrow> ast \<Rightarrow> 'm tr" where
  "tr_OpExp E visit left oper right =
     translate visit left (\<lambda>l. translate visit right (\<lambda>r. need l (\<lambda>lv. need r (\<lambda>rv.
       case ll_operation oper of (b, name) \<Rightarrow>
         api E (Create_binary b lv rv name) (\<lambda>v s. api E Get_int64_ty (\<lambda>i64.
           api E (Create_zext_or_trunc v i64 ''op_zext'') set_value) (s\<lparr>tr_value := Some v\<rparr>))))))"

definition tr_SeqExp :: "'m tr_env \<Rightarrow> 'm tr_state visit \<Rightarrow> ast list \<Rightarrow> 'm tr" where
  "tr_SeqExp E visit exps = (if exps = [] then zero_value E set_value else foldE visit exps)"

definition tr_AssignExp :: "'m tr_env \<Rightarrow> 'm tr_state visit \<Rightarrow> ast \<Rightarrow> ast \<Rightarrow> 'm tr" where
  "tr_AssignExp E visit var exp1 =
     translate visit exp1 (\<lambda>v. access_var E visit var (\<lambda>p. need v (\<lambda>x.
       api E (Create_store x p) (\<lambda>_. zero_value E set_value))))"

text \<open>The block of the builder, which is always set where the code asks for it after it has set it.\<close>

definition insert_block :: "'m tr_env \<Rightarrow> 'm tr_state \<Rightarrow> addr option" where
  "insert_block E s = ll_insert_block (te_llvm E) (tr_module s)"

definition tr_if_branch :: "'m tr_env \<Rightarrow> 'm tr_state visit \<Rightarrow> ast \<Rightarrow> addr \<Rightarrow> addr \<Rightarrow> (addr option \<Rightarrow> addr option \<Rightarrow> 'm tr) \<Rightarrow> 'm tr" where
  "tr_if_branch E visit e bb merge_bb k =
     api E (Set_insert_point bb) (\<lambda>_. translate visit e (\<lambda>v.
       api E (Create_br merge_bb) (\<lambda>_ s. k v (insert_block E s) s)))"

definition tr_if_value :: "'m tr_env \<Rightarrow> ast \<Rightarrow> addr option \<Rightarrow> addr option \<Rightarrow> addr option \<Rightarrow> addr option \<Rightarrow> 'm tr" where
  "tr_if_value E e then_val then_bb else_val else_bb =
     need (node_type E e) (\<lambda>t. llvm_type E t (\<lambda>value_type s.
       bindE (ty_neq (ec_store (te_prog E)) t Void_instance) (\<lambda>value.
         if value then
           api E (Create_phi value_type 2 ''iftmp'') (\<lambda>phi.
             need then_val (\<lambda>v. need then_bb (\<lambda>b. api E (Add_incoming phi v b) (\<lambda>_.
             need else_val (\<lambda>w. need else_bb (\<lambda>c. api E (Add_incoming phi w c) (\<lambda>_.
               set_value phi))))))) s
         else Inr s)))"

definition tr_IfExp :: "'m tr_env \<Rightarrow> 'm tr_state visit \<Rightarrow> ast \<Rightarrow> ast \<Rightarrow> ast \<Rightarrow> 'm tr_state visit" where
  "tr_IfExp E visit test thenclause elseclause e s =
     api E (Block_create ''then'' (tr_function s)) (\<lambda>then_bb.
     api E (Block_create ''else'' (tr_function s)) (\<lambda>else_bb.
     api E (Block_create ''ifcont'' (tr_function s)) (\<lambda>merge_bb.
     translate visit test (\<lambda>c. zero_value E (\<lambda>zero. need c (\<lambda>cv.
     api E (Create_binary ll_icmp_ne cv zero ''condition'') (\<lambda>cond_v.
     api E (Create_cond_br cond_v then_bb else_bb) (\<lambda>_.
     tr_if_branch E visit thenclause then_bb merge_bb (\<lambda>then_val then_end.
     tr_if_branch E visit elseclause else_bb merge_bb (\<lambda>else_val else_end.
     api E (Set_insert_point merge_bb) (\<lambda>_.
     tr_if_value E e then_val then_end else_val else_end))))))))))) s"

definition tr_WhileExp :: "'m tr_env \<Rightarrow> 'm tr_state visit \<Rightarrow> ast \<Rightarrow> ast \<Rightarrow> 'm tr_state visit" where
  "tr_WhileExp E visit test body e s =
     api E (Block_create ''test'' (tr_function s)) (\<lambda>test_bb.
     api E (Block_create ''body'' (tr_function s)) (\<lambda>body_bb.
     api E (Block_create ''afterloop'' (tr_function s)) (\<lambda>after_bb s.
     api E (Create_br test_bb) (\<lambda>_.
     api E (Set_insert_point test_bb) (\<lambda>_.
     operand visit test (\<lambda>cond_val s.
     api E (Const_int (ll_type_of (te_llvm E) (tr_module s) cond_val) 0) (\<lambda>zero_val.
     api E (Create_binary ll_icmp_ne cond_val zero_val ''loopcond'') (\<lambda>cmp_val.
     api E (Create_cond_br cmp_val body_bb after_bb) (\<lambda>_.
     api E (Set_insert_point body_bb) (\<lambda>_.
     translate visit body (\<lambda>_.
     api E (Create_br test_bb) (\<lambda>_.
     api E (Set_insert_point after_bb) (\<lambda>_. skip))))))) s)))
       (s\<lparr>tr_loop_end := (tr_loop_end s)(addr_of e \<mapsto> after_bb)\<rparr>)))) s"

definition tr_BreakExp :: "'m tr_env \<Rightarrow> header \<Rightarrow> 'm tr" where
  "tr_BreakExp E h s =
     bindE (def_get (ec_root (te_prog E)) (ec_defs (te_prog E)) h) (\<lambda>d. case d of
       Some (WhileExp w _ _) \<Rightarrow> (case tr_loop_end s (adr w) of
         None \<Rightarrow> Inl Out_of_range
       | Some bb \<Rightarrow> api E (Create_br bb) set_value s)
     | _ \<Rightarrow> Inl Assertion)"

definition init_array :: "'m tr_env \<Rightarrow> addr \<Rightarrow> addr \<Rightarrow> (addr \<Rightarrow> 'm tr) \<Rightarrow> 'm tr" where
  "init_array E count_val init_val k s =
     (let L = te_llvm E; t = ll_type_of L (tr_module s) init_val; ptr = ll_is_pointer L (tr_module s) t
      in api E Get_int64_ty (\<lambda>i64.
         api E (if ptr then Create_ptr_to_int init_val i64 ''init_array_ptrtoint''
                else Create_bit_cast init_val i64 ''init_array_bitcast'') (\<lambda>cast s.
         api E (Pointer_get i64 1) (\<lambda>i64p.
         api E (Function_type_get i64p [i64, ll_type_of L (tr_module s) cast]) (\<lambda>ft.
         api E (Get_or_insert_function (if ptr then ''tc_init_ptr_array'' else ''tc_init_array'') ft) (\<lambda>fn.
         api E (Create_call fn [count_val, cast] ''init_array_call'') (\<lambda>call.
         api E (Pointer_get t 1) (\<lambda>result_t.
         api E (Create_bit_cast call result_t ''init_array_call_cast'') k))))) s)) s)"

definition tr_ArrayExp :: "'m tr_env \<Rightarrow> 'm tr_state visit \<Rightarrow> ast \<Rightarrow> ast \<Rightarrow> 'm tr" where
  "tr_ArrayExp E visit sz init =
     translate visit sz (\<lambda>n. translate visit init (\<lambda>i. need i (\<lambda>iv. need n (\<lambda>nv.
       init_array E nv iv set_value))))"

definition tr_CastExp :: "'m tr_env \<Rightarrow> 'm tr_state visit \<Rightarrow> ast \<Rightarrow> ast \<Rightarrow> 'm tr" where
  "tr_CastExp E visit exp1 ty =
     translate visit exp1 (\<lambda>v. need (node_type E ty) (\<lambda>t. llvm_type E t (\<lambda>lt. need v (\<lambda>x.
       api E (Create_bit_cast x lt ''cast_exp'') set_value))))"

section \<open>Functions\<close>

definition tc_prefix :: "string \<Rightarrow> string" where
  "tc_prefix name = ''tc_'' @ name"

definition function_dec_name :: "symbol \<Rightarrow> ast option \<Rightarrow> string" where
  "function_dec_name name body =
     (if name = ''_main'' then ''tc_main'' else if body = None then tc_prefix name else name)"

definition set_default_attributes :: "'m tr_env \<Rightarrow> addr \<Rightarrow> ast option \<Rightarrow> 'm tr \<Rightarrow> 'm tr" where
  "set_default_attributes E f body k =
     api E (Add_fn_attr f No_unwind) (\<lambda>_.
       if body = None then api E (Add_fn_attr f Inline_hint) (\<lambda>_. k) else k)"

text \<open>The members of a declaration of a function, and its formals.\<close>

definition dec_parts :: "ast \<Rightarrow> (symbol \<times> ast list \<times> ast option) option" where
  "dec_parts d = (case d of
     FunctionDec _ name (VarChunk _ formals) _ body \<Rightarrow> Some (name, formals, body)
   | MethodDec _ name (VarChunk _ formals) _ body \<Rightarrow> Some (name, formals, body)
   | _ \<Rightarrow> None)"

definition emit_call :: "'m tr_env \<Rightarrow> addr \<Rightarrow> ast \<Rightarrow> addr list \<Rightarrow> 'm tr" where
  "emit_call E f d args s = (case dec_parts d of
     None \<Rightarrow> Inl Bad_access
   | Some (name, formals, body) \<Rightarrow>
       need (ll_function (te_llvm E) (tr_module s) (function_dec_name name body)) (\<lambda>func s.
         bindE (void_result E f) (\<lambda>void.
           api E (Create_call func args (if void then [] else ''funcCall'')) set_value s)) s)"

definition tr_CallExp :: "'m tr_env \<Rightarrow> 'm tr_state visit \<Rightarrow> header \<Rightarrow> ast list \<Rightarrow> 'm tr" where
  "tr_CallExp E visit h args s =
     bindE (def_get (ec_root (te_prog E)) (ec_defs (te_prog E)) h) (\<lambda>def. need def (\<lambda>d s.
     bindE (function_type (te_prog E) d) (\<lambda>cast. case cast of
       None \<Rightarrow> Inl Out_of_range
     | Some f \<Rightarrow>
         if tr_escaped s f = None then Inl Out_of_range
         else gather (\<lambda>esc. local_at (Some esc)) (escapes_of f s) (\<lambda>vars.
           gather (operand visit) args (\<lambda>vals. emit_call E f d (vars @ vals))) s)) s)"

text \<open>The name of the argument of rank \<open>i\<close>.\<close>

definition arg_name :: "'m tr_env \<Rightarrow> addr list \<Rightarrow> ast list \<Rightarrow> nat \<Rightarrow> symbol res" where
  "arg_name E escs formals i =
     (if i < length escs then bindE (dec_at E (escs ! i)) (\<lambda>d. Inr (dec_symbol d))
      else if i - length escs < length formals then Inr (dec_symbol (formals ! (i - length escs)))
      else Inl Bad_access)"

definition visit_function_dec_header :: "'m tr_env \<Rightarrow> ast \<Rightarrow> 'm tr" where
  "visit_function_dec_header E e s = (case dec_parts e of
     None \<Rightarrow> Inl Bad_access
   | Some (name, formals, body) \<Rightarrow>
       bindE (static_function E e) (\<lambda>f.
       llvm_function_type E f (\<lambda>ft.
       api E (Function_create ft
         (if name = ''_main'' \<or> body = None then External_linkage else Internal_linkage) (function_dec_name name body)) (\<lambda>fn.
       set_default_attributes E fn body (\<lambda>s.
         let s1 = (if tr_escaped s f = None then s\<lparr>tr_escaped := (tr_escaped s)(f \<mapsto> {})\<rparr> else s)
         in foldE (\<lambda>(i, arg) s. bindE (arg_name E (escapes_of f s1) formals i) (\<lambda>x. api E (Set_name arg x) (\<lambda>_. skip) s))
              (enumerate 0 (ll_args (te_llvm E) (tr_module s1) fn)) s1))) s))"

text \<open>The formals get a variable each, that holds the argument.\<close>

definition store_formal :: "'m tr_env \<Rightarrow> addr \<Rightarrow> ast \<times> addr \<Rightarrow> 'm tr" where
  "store_formal E fn fa =
     (case fa of (f, arg) \<Rightarrow> var_ltype E f (\<lambda>lt.
       create_alloca E (Some fn) lt (dec_symbol f) (\<lambda>a s.
         api E (Create_store arg a) (\<lambda>_. skip) (local_put (addr_of f) a s))))"

text \<open>The end of a body: the return, the verification whose verdict is dropped, the function and the block of before.\<close>

definition finish_body ::
  "'m tr_env \<Rightarrow> addr \<Rightarrow> addr \<Rightarrow> addr option \<Rightarrow> addr option \<Rightarrow> addr option \<Rightarrow> 'm tr" where
  "finish_body E fn f old_function old_insert_point v s =
     bindE (void_result E f) (\<lambda>void.
       (if void then api E Create_ret_void else (\<lambda>k. need v (\<lambda>x. api E (Create_ret x) k)))
         (\<lambda>_. api E (Verify_function fn) (\<lambda>_ s.
           api E (Restore_ip old_insert_point) (\<lambda>_. skip) (s\<lparr>tr_function := old_function\<rparr>))) s)"

text \<open>The arguments: the escaping variables are where the arguments say, the formals in new variables.\<close>

definition bind_arguments :: "'m tr_env \<Rightarrow> addr \<Rightarrow> addr \<Rightarrow> ast list \<Rightarrow> 'm tr" where
  "bind_arguments E fn f formals s =
     (let s1 = (if tr_escaped s f = None then s\<lparr>tr_escaped := (tr_escaped s)(f \<mapsto> {})\<rparr> else s);
          args = ll_args (te_llvm E) (tr_module s1) fn; escs = escapes_of f s1
      in if length args < length escs + length formals then Inl Bad_access
         else foldE (store_formal E fn) (zip formals (drop (length escs) args))
                (fold (\<lambda>(d, a). local_put d a) (zip escs args) s1))"

definition visit_function_dec_body :: "'m tr_env \<Rightarrow> 'm tr_state visit \<Rightarrow> ast \<Rightarrow> 'm tr" where
  "visit_function_dec_body E visit e s = (case dec_parts e of
     None \<Rightarrow> Inl Bad_access
   | Some (name, formals, body) \<Rightarrow>
       need (ll_function (te_llvm E) (tr_module s) (function_dec_name name body)) (\<lambda>fn s.
         api E (Block_create (''entry_'' @ name) (Some fn)) (\<lambda>bb.
         api E (Set_insert_point bb) (\<lambda>_ s1.
           bindE (static_function E e) (\<lambda>f.
           bindE (bind_arguments E fn f formals s1) (\<lambda>s2.
             need body (\<lambda>b. translate visit b
               (finish_body E fn f (tr_function s) (insert_block E s))) s2))))
         (s\<lparr>tr_function := Some fn\<rparr>)) s)"

section \<open>The visitor\<close>

definition tr_VarDec :: "'m tr_env \<Rightarrow> 'm tr_state visit \<Rightarrow> symbol \<Rightarrow> ast option \<Rightarrow> 'm tr_state visit" where
  "tr_VarDec E visit name init e =
     var_ltype E e (\<lambda>lt s. create_alloca E (tr_function s) lt name (\<lambda>a s.
       need init (\<lambda>i. operand visit i (\<lambda>v. api E (Create_store v a) set_value)) (local_put (addr_of e) a s)) s)"

definition tr_FunctionChunk :: "'m tr_env \<Rightarrow> 'm tr_state visit \<Rightarrow> ast list \<Rightarrow> 'm tr" where
  "tr_FunctionChunk E visit decs s =
     bindE (foldE (visit_function_dec_header E) decs s)
       (foldE (visit_function_dec_body E visit) (filter (\<lambda>d. body_get d \<noteq> None) decs))"

text \<open>A \<open>ForExp\<close>, a \<open>LetExp\<close>, the other chunks, types and declarations are left to the default visitor.\<close>

definition tr_dispatch :: "'m tr_env \<Rightarrow> 'm tr_state visit \<Rightarrow> 'm tr_state visit" where
  "tr_dispatch E visit e s =
     (if is_object_node e then non_object_visit e s
      else case e of
        SimpleVar _ name \<Rightarrow> tr_SimpleVar E visit name e s
      | FieldVar _ _ name \<Rightarrow> tr_FieldVar E visit name e s
      | SubscriptVar _ _ _ \<Rightarrow> tr_SubscriptVar E visit e s
      | NilExp _ \<Rightarrow> tr_NilExp E e s
      | IntExp _ i \<Rightarrow> tr_IntExp E i s
      | StringExp _ str \<Rightarrow> tr_StringExp E str s
      | RecordExp _ type_name flds \<Rightarrow> tr_RecordExp E visit type_name flds s
      | CallExp h _ args \<Rightarrow> tr_CallExp E visit h args s
      | OpExp _ left oper right \<Rightarrow> tr_OpExp E visit left oper right s
      | SeqExp _ exps \<Rightarrow> tr_SeqExp E visit exps s
      | AssignExp _ var exp1 \<Rightarrow> tr_AssignExp E visit var exp1 s
      | IfExp _ test thenclause elseclause \<Rightarrow> tr_IfExp E visit test thenclause elseclause e s
      | WhileExp _ test body \<Rightarrow> tr_WhileExp E visit test body e s
      | BreakExp h \<Rightarrow> tr_BreakExp E h s
      | ArrayExp _ _ sz init \<Rightarrow> tr_ArrayExp E visit sz init s
      | CastExp _ exp1 ty \<Rightarrow> tr_CastExp E visit exp1 ty s
      | FunctionChunk _ decs \<Rightarrow> tr_FunctionChunk E visit decs s
      | VarDec _ name _ init \<Rightarrow> tr_VarDec E visit name init e s
      | _ \<Rightarrow> default_visit visit e s)"

lemma translate_cong: "(\<And>s. f x s = g x s) \<Longrightarrow> translate f x k = translate g x k"
  by (rule ext) (simp add: translate_def)

lemma operand_cong: "(\<And>s. f x s = g x s) \<Longrightarrow> operand f x k = operand g x k"
  unfolding operand_def by (rule translate_cong)

lemma gather_cong: "(\<And>x k. x \<in> set xs \<Longrightarrow> f x k = g x k) \<Longrightarrow> gather f xs k = gather g xs k"
  by (induction xs arbitrary: k) simp_all

lemma access_var_cong:
  assumes local: "\<And>c s. size c < size e \<Longrightarrow> f c s = g c s"
  shows "access_var E f e k = access_var E g e k"
proof -
  have "size x < size e \<Longrightarrow> translate f x = translate g x" for x
    by (rule ext) (rule translate_cong [OF local])
  then show ?thesis
    by (cases e) (simp_all add: access_var_def access_subscript_def access_field_def)
qed

lemma dec_parts_body: "dec_parts d = Some (name, formals, body) \<Longrightarrow> body = Some b \<Longrightarrow> size b < size d"
  by (auto simp: dec_parts_def split: ast.splits)

lemma function_body_cong:
  assumes "\<And>c s. size c < size d \<Longrightarrow> f c s = g c s"
  shows "visit_function_dec_body E f d = visit_function_dec_body E g d"
proof (rule ext)
  fix s
  show "visit_function_dec_body E f d s = visit_function_dec_body E g d s"
  proof (cases "dec_parts d")
    case None
    then show ?thesis by (simp add: visit_function_dec_body_def)
  next
    case (Some p)
    then obtain name formals body where p: "dec_parts d = Some (name, formals, body)" by (cases p) auto
    have "translate f b k = translate g b k" if "body = Some b" for b and k :: "addr option \<Rightarrow> 'a tr"
      by (rule translate_cong) (rule assms, rule dec_parts_body [OF p that])
    then have "need body (\<lambda>b. translate f b (k b)) = need body (\<lambda>b. translate g b (k b))"
      for k :: "ast \<Rightarrow> addr option \<Rightarrow> 'a tr"
      by (intro ext) (auto simp: need_def split: option.split)
    then show ?thesis by (simp add: visit_function_dec_body_def p)
  qed
qed


lemma tr_dispatch_local:
  assumes local: "\<And>c s. size c < size e \<Longrightarrow> f c s = g c s"
  shows "tr_dispatch E f e s = tr_dispatch E g e s"
proof -
  have v: "x = e \<Longrightarrow> access_var E f x k = access_var E g x k" for x k
    by (simp add: access_var_cong [OF local])
  have "default_visit f e = default_visit g e"
    by (rule ext) (rule default_visit_cong [OF local])
  then have d: "x = e \<Longrightarrow> default_visit f x = default_visit g x" for x by simp
  have t: "size x < size e \<Longrightarrow> translate f x = translate g x" for x
    by (rule ext) (rule translate_cong [OF local])
  then have o: "size x < size e \<Longrightarrow> operand f x = operand g x" for x
    by (auto simp: operand_def intro!: ext)
  show ?thesis
  proof (cases e)
    case (RecordExp h ty fs)
    have "init_record_field E f flds st m x = init_record_field E g flds st m x" if "x \<in> set fs" for flds st m x
      using t size_list_member_less [OF that] RecordExp
      by (cases x) (auto simp: init_record_field_def field_init_def)
    then have "foldE (init_record_field E f flds st m) fs u = foldE (init_record_field E g flds st m) fs u" for flds st m u
      by (intro foldE_cong) simp_all
    with RecordExp show ?thesis by (simp add: tr_dispatch_def tr_RecordExp_def is_object_node_def cong: option.case_cong)
  next
    case (CallExp h x args)
    have "gather (operand f) args k = gather (operand g) args k" for k
      by (rule gather_cong) (simp add: o CallExp size_list_member_less)
    with CallExp show ?thesis by (simp add: tr_dispatch_def tr_CallExp_def is_object_node_def cong: option.case_cong if_cong)
  next
    case (SeqExp h es)
    have "foldE f es u = foldE g es u" for u
      by (rule foldE_cong) (use local SeqExp size_list_member_less in auto)
    with SeqExp show ?thesis by (simp add: tr_dispatch_def tr_SeqExp_def is_object_node_def)
  next
    case (FunctionChunk h ds)
    have "visit_function_dec_body E f x = visit_function_dec_body E g x" if "x \<in> set ds" for x
      by (rule function_body_cong, rule local) (use FunctionChunk size_list_member_less [OF that] in auto)
    then have "foldE (visit_function_dec_body E f) (filter (\<lambda>d. body_get d \<noteq> None) ds) u =
        foldE (visit_function_dec_body E g) (filter (\<lambda>d. body_get d \<noteq> None) ds) u" for u
      by (intro foldE_cong) simp_all
    with FunctionChunk show ?thesis by (simp add: tr_dispatch_def tr_FunctionChunk_def is_object_node_def cong: bindE_cong)
  next
    case (AssignExp h x y)
    have "access_var E f x k = access_var E g x k" for k
      by (rule access_var_cong) (use local AssignExp in auto)
    with AssignExp t show ?thesis by (simp add: tr_dispatch_def tr_AssignExp_def is_object_node_def)
  next
    case (VarDec h x ty i)
    then have "need i (\<lambda>i. operand f i (k i)) = need i (\<lambda>i. operand g i (k i))" for k
      by (intro ext) (auto simp: need_def o split: option.split)
    with VarDec show ?thesis by (simp add: tr_dispatch_def tr_VarDec_def is_object_node_def)
  qed (simp_all add: d v t o tr_dispatch_def is_object_node_def tr_SimpleVar_def tr_FieldVar_def
    tr_SubscriptVar_def tr_OpExp_def tr_IfExp_def tr_if_branch_def tr_WhileExp_def tr_ArrayExp_def tr_CastExp_def)
qed

lemma tr_dispatch_cong [fundef_cong]:
  assumes "E = E'" and "e = e'" and "s = s'" and "\<And>c s. size c < size e' \<Longrightarrow> f c s = g c s"
  shows "tr_dispatch E f e s = tr_dispatch E' g e' s'"
  unfolding assms(1-3) by (rule tr_dispatch_local) (rule assms(4))

function tr_visit :: "'m tr_env \<Rightarrow> 'm tr_state visit" where
  "tr_visit E e s = tr_dispatch E (tr_visit E) e s"
  by auto
termination by (relation "measure (\<lambda>(E, e, s). size e)") auto

declare tr_visit.simps [simp del]

interpretation tr: traversal "tr_visit E" "tr_dispatch E" for E
  by unfold_locales (rule tr_visit.simps, rule tr_dispatch_local)

section \<open>The entry points\<close>

definition tr_new :: "'m tr_env \<Rightarrow> 'm \<Rightarrow> (addr \<rightharpoonup> addr set) \<Rightarrow> ('m tr_state \<Rightarrow> 'm tr_state res) \<Rightarrow> 'm tr_state res" where
  "tr_new E m vs k =
     api E (Pointer_get_ctx 1) (\<lambda>p. api E Get_int64_ty (\<lambda>i64. api E (Function_type_get p [i64]) (\<lambda>ft.
     api E (Function_create ft External_linkage ''tc_malloc'') (\<lambda>f s.
     api E (Set_target_triple (ll_triple64 (te_llvm E))) (\<lambda>_. k) (s\<lparr>tr_malloc := f\<rparr>)))))
       \<lparr>tr_value = None, tr_function = None, tr_module = m, tr_locals = Map.empty, tr_loop_end = Map.empty,
        tr_escaped = vs, tr_type = None, tr_structs = Map.empty, tr_malloc = 0\<rparr>"

text \<open>The \<open>operator()\<close> of the translator on the whole tree; \<open>translate\<close> of the library, on a new module.\<close>

definition tr_run :: "'m tr_env \<Rightarrow> ast \<Rightarrow> 'm tr" where
  "tr_run E e = translate (tr_visit E) e (\<lambda>_ s. Inr (s\<lparr>tr_value := None\<rparr>))"

definition llvm_translate :: "'m tr_env \<Rightarrow> nat \<Rightarrow> 'm \<Rightarrow> 'm res" where
  "llvm_translate E rounds m =
     bindE (collect_escapes (te_prog E) rounds) (\<lambda>vs.
     bindE (tr_new E m vs (\<lambda>s. bindE (tr_run E (ec_root (te_prog E)) s) (api E Verify_module (\<lambda>_. skip))))
       (\<lambda>s. Inr (tr_module s)))"

end
