(* ===== verification/Llvm_Ir.thy ===== *)
theory Llvm_Ir
  imports Translator "HOL-Library.Signed_Division"
begin

text \<open>
  What the translator needs of LLVM, as far as its documentation says it: a view of the module (the
  instructions of each block, the types of the values, the constants), what each call does to the view, and what the
  instructions do when they are executed.  An instruction is the call that made it, with its value; a call of
  the builder whose operands are constants may give a constant instead.  The variables that are allocated at the beginning
  of an entry block are kept apart from its other instructions, which they precede.
\<close>

section \<open>The view of a module\<close>

datatype ll_val = Int_val i64 | Bool_val bool | Cell addr

type_synonym instruction = "ll_call \<times> addr"

record ll_view =
  known :: "addr set"
  code_of :: "addr \<Rightarrow> instruction list"
  point :: "addr option"
  const_of :: "addr \<rightharpoonup> ll_val"
  ty_of :: "addr \<Rightarrow> addr"
  incoming :: "addr \<Rightarrow> (addr \<times> addr) list"
  allocas :: "addr set"
  entry_of :: "addr \<rightharpoonup> addr"
  args_of :: "addr \<Rightarrow> addr list"
  fn_named :: "string \<rightharpoonup> addr"
  int64 :: addr
  int1 :: addr

definition view_ok :: "ll_view \<Rightarrow> bool" where
  "view_ok V \<longleftrightarrow>
     int64 V \<noteq> int1 V \<and> allocas V \<subseteq> known V \<and> (\<forall>a \<in> allocas V. const_of V a = None) \<and> set_option (point V) \<subseteq> known V \<and>
     (\<forall>a. a \<notin> known V \<longrightarrow> const_of V a = None \<and> code_of V a = [] \<and> incoming V a = [])"

section \<open>Execution\<close>

definition is_icmp :: "ll_binary \<Rightarrow> bool" where
  "is_icmp b \<longleftrightarrow> b \<notin> {ll_add, ll_sub, ll_mul, ll_sdiv}"

text \<open>Signed division is undefined by zero and when the quotient does not fit.\<close>

definition sdiv64 :: "i64 \<Rightarrow> i64 \<Rightarrow> i64 option" where
  "sdiv64 a b = (if b = 0 \<or> b = - 1 \<and> a = - (2 ^ 63) then None else Some (word_of_int (sint a sdiv sint b)))"

definition binary_int :: "ll_binary \<Rightarrow> i64 \<Rightarrow> i64 \<Rightarrow> ll_val option" where
  "binary_int op a b = (case op of
     ll_add \<Rightarrow> Some (Int_val (a + b))
   | ll_sub \<Rightarrow> Some (Int_val (a - b))
   | ll_mul \<Rightarrow> Some (Int_val (a * b))
   | ll_sdiv \<Rightarrow> map_option Int_val (sdiv64 a b)
   | ll_icmp_eq \<Rightarrow> Some (Bool_val (a = b))
   | ll_icmp_ne \<Rightarrow> Some (Bool_val (a \<noteq> b))
   | ll_icmp_slt \<Rightarrow> Some (Bool_val (sint a < sint b))
   | ll_icmp_sle \<Rightarrow> Some (Bool_val (sint a \<le> sint b))
   | ll_icmp_sgt \<Rightarrow> Some (Bool_val (sint b < sint a))
   | ll_icmp_sge \<Rightarrow> Some (Bool_val (sint b \<le> sint a)))"

definition binary_val :: "ll_binary \<Rightarrow> ll_val \<Rightarrow> ll_val \<Rightarrow> ll_val option" where
  "binary_val op x y = (case x of
     Int_val a \<Rightarrow> (case y of Int_val b \<Rightarrow> binary_int op a b | _ \<Rightarrow> None)
   | _ \<Rightarrow> None)"

definition extended :: "ll_val \<Rightarrow> ll_val" where
  "extended x = (case x of Bool_val b \<Rightarrow> Int_val (if b then 1 else 0) | _ \<Rightarrow> x)"

type_synonym registers = "addr \<rightharpoonup> ll_val"
type_synonym cells = "addr \<rightharpoonup> ll_val"

definition value_of :: "ll_view \<Rightarrow> registers \<Rightarrow> addr \<Rightarrow> ll_val option" where
  "value_of V rho a = (case const_of V a of None \<Rightarrow> rho a | Some x \<Rightarrow> Some x)"

text \<open>The value of an instruction; a \<open>phi\<close> takes the value that goes with the block before.\<close>

definition computes :: "ll_view \<Rightarrow> addr option \<Rightarrow> registers \<Rightarrow> cells \<Rightarrow> instruction \<Rightarrow> ll_val option" where
  "computes V prev rho mem i = (case fst i of
     Create_binary op x y _ \<Rightarrow> Option.bind (value_of V rho x) (\<lambda>a. Option.bind (value_of V rho y) (binary_val op a))
   | Create_zext_or_trunc x _ _ \<Rightarrow> map_option extended (value_of V rho x)
   | Create_load _ p _ \<Rightarrow> Option.bind (value_of V rho p) (\<lambda>a. case a of Cell c \<Rightarrow> mem c | _ \<Rightarrow> None)
   | Create_phi _ _ _ \<Rightarrow> Option.bind prev (\<lambda>b.
       Option.bind (map_of (map (\<lambda>(v, b). (b, v)) (incoming V (snd i))) b) (value_of V rho))
   | _ \<Rightarrow> None)"

text \<open>A configuration: the block before, the block, the rank of the next instruction, the values of the
  instructions and of the variables; or the returned value.\<close>

datatype config =
    Run "addr option" addr nat registers cells
  | Returned "ll_val option" cells

definition ll_execute :: "ll_view \<Rightarrow> addr option \<Rightarrow> addr \<Rightarrow> nat \<Rightarrow> registers \<Rightarrow> cells \<Rightarrow> instruction \<Rightarrow> config option" where
  "ll_execute V prev b i rho mem ins = (case fst ins of
     Create_store v p \<Rightarrow> Option.bind (value_of V rho v) (\<lambda>x. Option.bind (value_of V rho p) (\<lambda>a.
       case a of Cell c \<Rightarrow> Some (Run prev b (Suc i) rho (mem(c \<mapsto> x))) | _ \<Rightarrow> None))
   | Create_br d \<Rightarrow> Some (Run (Some b) d 0 rho mem)
   | Create_cond_br x d d' \<Rightarrow> Option.bind (value_of V rho x) (\<lambda>a.
       case a of Bool_val t \<Rightarrow> Some (Run (Some b) (if t then d else d') 0 rho mem) | _ \<Rightarrow> None)
   | Create_ret_void \<Rightarrow> Some (Returned None mem)
   | Create_ret x \<Rightarrow> map_option (\<lambda>a. Returned (Some a) mem) (value_of V rho x)
   | _ \<Rightarrow> map_option (\<lambda>a. Run prev b (Suc i) (rho(snd ins \<mapsto> a)) mem) (computes V prev rho mem ins))"

definition ll_step :: "ll_view \<Rightarrow> config \<Rightarrow> config option" where
  "ll_step V c = (case c of
     Run prev b i rho mem \<Rightarrow> if i < length (code_of V b) then ll_execute V prev b i rho mem (code_of V b ! i) else None
   | Returned _ _ \<Rightarrow> None)"

inductive ll_steps :: "ll_view \<Rightarrow> config \<Rightarrow> config \<Rightarrow> bool" for V where
  stop: "ll_steps V c c"
| step: "ll_step V c = Some d \<Longrightarrow> ll_steps V d e \<Longrightarrow> ll_steps V c e"

lemma ll_steps_trans: "ll_steps V c d \<Longrightarrow> ll_steps V d e \<Longrightarrow> ll_steps V c e"
  by (induction rule: ll_steps.induct) (auto intro: ll_steps.step)

lemma ll_steps_one: "ll_step V c = Some d \<Longrightarrow> ll_steps V c d"
  by (blast intro: ll_steps.intros)

section \<open>What the calls do to the view\<close>

text \<open>The type of the value of an instruction, where it has one.\<close>

definition result_type :: "ll_view \<Rightarrow> ll_call \<Rightarrow> addr option" where
  "result_type V c = (case c of
     Create_binary op x y _ \<Rightarrow> Some (if is_icmp op then int1 V else ty_of V x)
   | Create_zext_or_trunc x t _ \<Rightarrow> Some t
   | Create_load t _ _ \<Rightarrow> Some t
   | Create_phi t _ _ \<Rightarrow> Some t
   | _ \<Rightarrow> None)"

text \<open>A new instruction at the end of the block of the builder.\<close>

definition emits :: "ll_view \<Rightarrow> ll_call \<Rightarrow> addr \<Rightarrow> ll_view \<Rightarrow> bool" where
  "emits V c r V' \<longleftrightarrow> r \<notin> known V \<and> (\<exists>b t. point V = Some b \<and> (\<forall>u. result_type V c = Some u \<longrightarrow> t = u) \<and>
     V' = V\<lparr>known := insert r (known V), code_of := (code_of V)(b := code_of V b @ [(c, r)]), ty_of := (ty_of V)(r := t)\<rparr>)"

text \<open>A constant, that may exist already.\<close>

definition gives_constant :: "ll_view \<Rightarrow> ll_val \<Rightarrow> addr \<Rightarrow> addr \<Rightarrow> ll_view \<Rightarrow> bool" where
  "gives_constant V x t r V' \<longleftrightarrow>
     (if r \<in> known V then const_of V r = Some x \<and> ty_of V r = t \<and> V' = V
      else V' = V\<lparr>known := insert r (known V), const_of := (const_of V)(r \<mapsto> x), ty_of := (ty_of V)(r := t)\<rparr>)"

definition val_type :: "ll_view \<Rightarrow> ll_val \<Rightarrow> addr" where
  "val_type V x = (case x of Bool_val _ \<Rightarrow> int1 V | _ \<Rightarrow> int64 V)"

definition folds_binary :: "ll_view \<Rightarrow> ll_binary \<Rightarrow> addr \<Rightarrow> addr \<Rightarrow> addr \<Rightarrow> ll_view \<Rightarrow> bool" where
  "folds_binary V op x y r V' \<longleftrightarrow> (\<exists>a b c. const_of V x = Some a \<and> const_of V y = Some b \<and>
     (\<forall>z. binary_val op a b = Some z \<longrightarrow> c = z) \<and>
     gives_constant V c (if is_icmp op then int1 V else ty_of V x) r V')"

text \<open>The first block of a function is its entry block.\<close>

definition first_block :: "addr option \<Rightarrow> addr \<Rightarrow> (addr \<rightharpoonup> addr) \<Rightarrow> (addr \<rightharpoonup> addr)" where
  "first_block f r entries = (case f of
     None \<Rightarrow> entries | Some a \<Rightarrow> if entries a = None then entries(a \<mapsto> r) else entries)"

text \<open>The new view, for the calls that the translation of integers and control makes.\<close>

definition ll_effect :: "ll_view \<Rightarrow> ll_call \<Rightarrow> addr \<Rightarrow> ll_view \<Rightarrow> bool" where
  "ll_effect V c r V' = (case c of
     Get_int64_ty \<Rightarrow> r = int64 V \<and> V' = V
   | Const_int t k \<Rightarrow> t = int64 V \<longrightarrow> gives_constant V (Int_val k) t r V'
   | Block_create _ f \<Rightarrow> r \<notin> known V \<and> V' = V\<lparr>known := insert r (known V), entry_of := first_block f r (entry_of V)\<rparr>
   | Set_insert_point b \<Rightarrow> V' = V\<lparr>point := Some b\<rparr>
   | Restore_ip p \<Rightarrow> V' = V\<lparr>point := p\<rparr>
   | Alloca_at_begin e _ _ \<Rightarrow> e \<in> ran (entry_of V) \<longrightarrow> r \<notin> known V \<and> V' = V\<lparr>known := insert r (known V), allocas := insert r (allocas V)\<rparr>
   | Create_binary op x y _ \<Rightarrow> emits V c r V' \<or> folds_binary V op x y r V'
   | Create_zext_or_trunc x t _ \<Rightarrow>
       if ty_of V x = t then r = x \<and> V' = V
       else emits V c r V' \<or> (\<exists>a. const_of V x = Some a \<and> gives_constant V (extended a) t r V')
   | Create_load _ _ _ \<Rightarrow> emits V c r V'
   | Create_store _ _ \<Rightarrow> emits V c r V'
   | Create_phi _ _ _ \<Rightarrow> emits V c r V'
   | Create_br _ \<Rightarrow> emits V c r V'
   | Create_cond_br _ _ _ \<Rightarrow> emits V c r V'
   | Create_ret_void \<Rightarrow> emits V c r V'
   | Create_ret _ \<Rightarrow> emits V c r V'
   | Add_incoming phi v b \<Rightarrow> V' = V\<lparr>incoming := (incoming V)(phi := incoming V phi @ [(v, b)])\<rparr>
   | Verify_function _ \<Rightarrow> V' = V
   | _ \<Rightarrow> True)"

text \<open>The instructions are put where the builder is.\<close>

definition needs_block :: "ll_call \<Rightarrow> bool" where
  "needs_block c = (case c of
     Create_binary _ _ _ _ \<Rightarrow> True | Create_zext_or_trunc _ _ _ \<Rightarrow> True | Create_load _ _ _ \<Rightarrow> True
   | Create_store _ _ \<Rightarrow> True | Create_phi _ _ _ \<Rightarrow> True | Create_br _ \<Rightarrow> True | Create_cond_br _ _ _ \<Rightarrow> True
   | Create_ret_void \<Rightarrow> True | Create_ret _ \<Rightarrow> True | _ \<Rightarrow> False)"

text \<open>LLVM, seen through \<open>v\<close>.\<close>

definition llvm_laws :: "'m llvm \<Rightarrow> ('m \<Rightarrow> ll_view) \<Rightarrow> bool" where
  "llvm_laws L v \<longleftrightarrow>
     (\<forall>m c. view_ok (v m) \<longrightarrow> (needs_block c \<longrightarrow> point (v m) \<noteq> None) \<longrightarrow>
        ll_effect (v m) c (fst (ll_do L c m)) (v (snd (ll_do L c m)))) \<and>
     (\<forall>m a. ll_type_of L m a = ty_of (v m) a) \<and>
     (\<forall>m f. ll_args L m f = args_of (v m) f) \<and>
     (\<forall>m f e. entry_of (v m) f = Some e \<longrightarrow> ll_entry L m f = e) \<and>
     (\<forall>m x. ll_function L m x = fn_named (v m) x) \<and>
     (\<forall>m. ll_insert_block L m = point (v m))"

section \<open>How a view ll_grows\<close>

text \<open>From \<open>V\<close> to \<open>V'\<close>, with new instructions in the blocks \<open>S\<close> and in new blocks only.\<close>

definition ll_grows :: "addr set \<Rightarrow> ll_view \<Rightarrow> ll_view \<Rightarrow> bool" where
  "ll_grows S V V' \<longleftrightarrow>
     known V \<subseteq> known V' \<and> allocas V \<subseteq> allocas V' \<and> allocas V' \<inter> known V \<subseteq> allocas V \<and>
     int64 V' = int64 V \<and> int1 V' = int1 V \<and> args_of V' = args_of V \<and> fn_named V' = fn_named V \<and>
     entry_of V \<subseteq>\<^sub>m entry_of V' \<and>
     (\<forall>a \<in> known V. const_of V' a = const_of V a \<and> ty_of V' a = ty_of V a \<and> incoming V' a = incoming V a \<and>
        (\<exists>l. code_of V' a = code_of V a @ l) \<and> (a \<notin> S \<longrightarrow> code_of V' a = code_of V a))"

lemma ll_grows_refl: "ll_grows S V V"
  by (auto simp: ll_grows_def)

lemma ll_growsD:
  assumes "ll_grows S V V'"
  shows "known V \<subseteq> known V'" and "a \<in> known V \<Longrightarrow> const_of V' a = const_of V a"
    and "a \<in> known V \<Longrightarrow> ty_of V' a = ty_of V a" and "a \<in> known V \<Longrightarrow> incoming V' a = incoming V a"
    and "a \<in> known V \<Longrightarrow> \<exists>l. code_of V' a = code_of V a @ l" and "a \<in> known V \<Longrightarrow> a \<notin> S \<Longrightarrow> code_of V' a = code_of V a"
    and "int64 V' = int64 V" and "int1 V' = int1 V"
    and "allocas V \<subseteq> allocas V'" and "allocas V' \<inter> known V \<subseteq> allocas V"
    and "args_of V' = args_of V" and "fn_named V' = fn_named V" and "entry_of V \<subseteq>\<^sub>m entry_of V'"
  using assms by (simp_all add: ll_grows_def)

lemma ll_grows_trans:
  assumes "ll_grows S V V'" and "ll_grows S' V' V''" and "S \<inter> known V \<subseteq> T" and "S' \<inter> known V \<subseteq> T"
  shows "ll_grows T V V''"
proof -
  note g = ll_growsD [OF assms(1)] and h = ll_growsD [OF assms(2)]
  have "const_of V'' a = const_of V a \<and> ty_of V'' a = ty_of V a \<and> incoming V'' a = incoming V a \<and>
    (\<exists>l. code_of V'' a = code_of V a @ l) \<and> (a \<notin> T \<longrightarrow> code_of V'' a = code_of V a)" if a: "a \<in> known V" for a
  proof -
    have k: "a \<in> known V'" using a g(1) by blast
    have "\<exists>l. code_of V'' a = code_of V a @ l" using g(5) [OF a] h(5) [OF k] by auto
    moreover have "code_of V'' a = code_of V a" if t: "a \<notin> T"
    proof -
      have "a \<notin> S" "a \<notin> S'" using t a assms(3,4) by blast+
      with g(6) [OF a] h(6) [OF k] show ?thesis by simp
    qed
    ultimately show ?thesis using g(2-4) [OF a] h(2-4) [OF k] by simp
  qed
  moreover have "entry_of V \<subseteq>\<^sub>m entry_of V''" using g(13) h(13) by (rule map_le_trans)
  moreover have "known V \<subseteq> known V''" "allocas V \<subseteq> allocas V''" using g(1,9) h(1,9) by blast+
  moreover have "allocas V'' \<inter> known V \<subseteq> allocas V" using g(1,10) h(10) by blast
  ultimately show ?thesis using g(7,8,11,12) h(7,8,11,12) by (simp add: ll_grows_def)
qed

lemma grows_mono: "ll_grows S V V' \<Longrightarrow> S \<inter> known V \<subseteq> T \<Longrightarrow> ll_grows T V V'"
  by (rule ll_grows_trans [OF _ ll_grows_refl [of "{}"]]) auto

text \<open>An instruction that was emitted stays where it is.\<close>

lemma emitted_at:
  assumes e: "emits V c r V'" and b: "point V = Some b" and g: "ll_grows S V' M" and k: "b \<in> known V"
  shows "length (code_of V b) < length (code_of M b)" and "code_of M b ! length (code_of V b) = (c, r)"
    and "length (code_of V' b) = Suc (length (code_of V b))"
proof -
  have c: "code_of V' b = code_of V b @ [(c, r)]" "b \<in> known V'" using e b k by (auto simp: emits_def)
  with ll_growsD(5) [OF g c(2)] show "length (code_of V b) < length (code_of M b)" "code_of M b ! length (code_of V b) = (c, r)"
    "length (code_of V' b) = Suc (length (code_of V b))" by (auto simp: nth_append)
qed

lemma emits_grows: "emits V c r V' \<Longrightarrow> point V = Some b \<Longrightarrow> view_ok V \<Longrightarrow> ll_grows {b} V V'"
  by (auto simp: emits_def ll_grows_def view_ok_def)

lemma emits_ok: "emits V c r V' \<Longrightarrow> view_ok V \<Longrightarrow> view_ok V' \<and> point V' = point V \<and> r \<in> known V' - known V"
  by (auto simp: emits_def view_ok_def)

lemma gives_constant_grows:
  "gives_constant V x t r V' \<Longrightarrow> view_ok V \<Longrightarrow>
    ll_grows {} V V' \<and> view_ok V' \<and> point V' = point V \<and> code_of V' = code_of V \<and> r \<in> known V' \<and> const_of V' r = Some x \<and> ty_of V' r = t"
  by (auto simp: gives_constant_def ll_grows_def view_ok_def split: if_splits)

end
