(* ===== verification/Translator_Runs.thy ===== *)
theory Translator_Runs
  imports Llvm_Ir
begin

text \<open>
  The meaning of the trees of integers, variables and control, and the executions of the instructions that are
  made for them.  The meaning is on 64-bit integers, that of the back end, and binds a variable by its declaration, as
  the \<open>Binder\<close> left it in the tree.
\<close>

section \<open>The meaning of the tree\<close>

type_synonym valuation = "addr \<rightharpoonup> i64"
type_synonym source = "ast \<Rightarrow> valuation \<Rightarrow> (i64 \<times> valuation) option"

definition op64 :: "oper \<Rightarrow> i64 \<Rightarrow> i64 \<Rightarrow> i64 option" where
  "op64 oper a b = (case oper of
     op_add \<Rightarrow> Some (a + b) | op_sub \<Rightarrow> Some (a - b) | op_mul \<Rightarrow> Some (a * b) | op_div \<Rightarrow> sdiv64 a b
   | op_eq \<Rightarrow> Some (of_bool (a = b)) | op_ne \<Rightarrow> Some (of_bool (a \<noteq> b))
   | op_lt \<Rightarrow> Some (of_bool (sint a < sint b)) | op_le \<Rightarrow> Some (of_bool (sint a \<le> sint b))
   | op_gt \<Rightarrow> Some (of_bool (sint b < sint a)) | op_ge \<Rightarrow> Some (of_bool (sint b \<le> sint a)))"

definition var_def :: "ec_env \<Rightarrow> ast \<Rightarrow> addr option" where
  "var_def P v = (case v of SimpleVar h _ \<Rightarrow> ec_defs P (adr h) | _ \<Rightarrow> None)"

text \<open>The declarations of variables that a list of chunks holds.\<close>

definition chunk_vars :: "ast \<Rightarrow> ast list option" where
  "chunk_vars c = (case c of VarChunk _ ds \<Rightarrow> Some ds | _ \<Rightarrow> None)"

fun chunks_vars :: "ast list \<Rightarrow> ast list option" where
  "chunks_vars [] = Some []"
| "chunks_vars (c # cs) =
     Option.bind (chunk_vars c) (\<lambda>ds. map_option (\<lambda>es. ds @ es) (chunks_vars cs))"

definition let_decs :: "ast \<Rightarrow> ast list option" where
  "let_decs cs = (case cs of ChunkList _ xs \<Rightarrow> chunks_vars xs | _ \<Rightarrow> None)"

definition dec_init :: "ast \<Rightarrow> ast option" where
  "dec_init d = (case d of VarDec _ _ _ init \<Rightarrow> init | _ \<Rightarrow> None)"

fun src_seq :: "source \<Rightarrow> i64 \<Rightarrow> ast list \<Rightarrow> valuation \<Rightarrow> (i64 \<times> valuation) option" where
  "src_seq ev w [] sigma = Some (w, sigma)"
| "src_seq ev w (e # es) sigma = Option.bind (ev e sigma) (\<lambda>(a, sigma1). src_seq ev a es sigma1)"

fun src_let :: "source \<Rightarrow> ast list \<Rightarrow> ast \<Rightarrow> valuation \<Rightarrow> (i64 \<times> valuation) option" where
  "src_let ev [] b sigma = ev b sigma"
| "src_let ev (d # ds) b sigma = Option.bind (dec_init d) (\<lambda>i.
     Option.bind (ev i sigma) (\<lambda>(a, sigma1). src_let ev ds b (sigma1(addr_of d \<mapsto> a))))"

definition src_step :: "ec_env \<Rightarrow> source \<Rightarrow> source" where
  "src_step P ev e sigma = (case e of
     IntExp _ i \<Rightarrow> Some (scast i, sigma)
   | SimpleVar h _ \<Rightarrow> Option.bind (ec_defs P (adr h)) (\<lambda>d. map_option (\<lambda>w. (w, sigma)) (sigma d))
   | OpExp _ l oper r \<Rightarrow> Option.bind (ev l sigma) (\<lambda>(a, sigma1). Option.bind (ev r sigma1) (\<lambda>(b, sigma2).
       map_option (\<lambda>w. (w, sigma2)) (op64 oper a b)))
   | AssignExp _ v x \<Rightarrow> Option.bind (var_def P v) (\<lambda>d.
       Option.bind (ev x sigma) (\<lambda>(a, sigma1). Some (0, sigma1(d \<mapsto> a))))
   | SeqExp _ es \<Rightarrow> src_seq ev 0 es sigma
   | IfExp _ c t f \<Rightarrow> Option.bind (ev c sigma) (\<lambda>(a, sigma1). if a \<noteq> 0 then ev t sigma1 else ev f sigma1)
   | WhileExp _ c b \<Rightarrow> Option.bind (ev c sigma) (\<lambda>(a, sigma1).
       if a \<noteq> 0 then Option.bind (ev b sigma1) (\<lambda>(_, sigma2). ev e sigma2) else Some (0, sigma1))
   | LetExp _ cs b \<Rightarrow> Option.bind (let_decs cs) (\<lambda>ds. src_let ev ds b sigma)
   | _ \<Rightarrow> None)"

text \<open>Within \<open>n\<close> nested evaluations.\<close>

primrec src :: "ec_env \<Rightarrow> nat \<Rightarrow> source" where
  "src P 0 = (\<lambda>e sigma. None)"
| "src P (Suc n) = (\<lambda>e sigma. src_step P (src P n) e sigma)"

section \<open>The trees of integers and control\<close>

definition int_like :: "'m tr_env \<Rightarrow> addr \<Rightarrow> bool" where
  "int_like E t \<longleftrightarrow> (case actual (ec_store (te_prog E)) t of
     Inl _ \<Rightarrow> False | Inr a \<Rightarrow> ty_at (ec_store (te_prog E)) a \<in> {Inr Int_ty, Inr Void_ty})"

definition int_node :: "'m tr_env \<Rightarrow> ast \<Rightarrow> bool" where
  "int_node E e \<longleftrightarrow> (case node_type E e of None \<Rightarrow> False | Some t \<Rightarrow> int_like E t)"

definition has_value :: "'m tr_env \<Rightarrow> ast \<Rightarrow> bool res" where
  "has_value E e = bindE (deref_ty (node_type E e)) (\<lambda>t. ty_neq (ec_store (te_prog E)) t Void_instance)"

text \<open>In the scope of the declarations \<open>D\<close>; \<open>b\<close> tells that the value is used, which that of a loop is not.\<close>

inductive int_code :: "'m tr_env \<Rightarrow> addr set \<Rightarrow> bool \<Rightarrow> ast \<Rightarrow> bool"
  and int_codes :: "'m tr_env \<Rightarrow> addr set \<Rightarrow> bool \<Rightarrow> ast list \<Rightarrow> bool"
  and int_let :: "'m tr_env \<Rightarrow> addr set \<Rightarrow> bool \<Rightarrow> ast list \<Rightarrow> ast \<Rightarrow> bool"
for E where
  int_IntExp: "int_code E D b (IntExp h i)"
| int_SimpleVar: "ec_defs (te_prog E) (adr h) = Some d \<Longrightarrow> d \<in> D \<Longrightarrow> int_node E (SimpleVar h x) \<Longrightarrow>
    int_code E D b (SimpleVar h x)"
| int_OpExp: "int_code E D True l \<Longrightarrow> int_code E D True r \<Longrightarrow> int_code E D b (OpExp h l oper r)"
| int_AssignExp: "ec_defs (te_prog E) (adr k) = Some d \<Longrightarrow> d \<in> D \<Longrightarrow> int_code E D True e \<Longrightarrow>
    int_code E D b (AssignExp h (SimpleVar k x) e)"
| int_SeqExp: "int_codes E D b es \<Longrightarrow> int_code E D b (SeqExp h es)"
| int_IfExp: "int_node E (IfExp h c t f) \<Longrightarrow> has_value E (IfExp h c t f) = Inr v \<Longrightarrow> int_code E D True c \<Longrightarrow>
    int_code E D v t \<Longrightarrow> int_code E D v f \<Longrightarrow> b \<longrightarrow> v \<Longrightarrow> int_code E D b (IfExp h c t f)"
| int_WhileExp: "int_code E D True c \<Longrightarrow> int_code E D False e \<Longrightarrow> int_code E D False (WhileExp h c e)"
| int_LetExp: "let_decs cs = Some ds \<Longrightarrow> int_let E D b ds e \<Longrightarrow> int_code E D b (LetExp h cs e)"
| int_none: "int_codes E D b []"
| int_last: "int_code E D b e \<Longrightarrow> int_codes E D b [e]"
| int_more: "int_code E D False e \<Longrightarrow> int_codes E D b (f # es) \<Longrightarrow> int_codes E D b (e # f # es)"
| int_body: "int_code E D b e \<Longrightarrow> int_let E D b [] e"
| int_dec: "int_node E (VarDec h x ty (Some i)) \<Longrightarrow> int_code E D True i \<Longrightarrow>
    int_let E (insert (adr h) D) b ds e \<Longrightarrow> int_let E D b (VarDec h x ty (Some i) # ds) e"

text \<open>The variables that a tree var_means.\<close>

definition decls :: "ast \<Rightarrow> addr list" where
  "decls e = map addr_of (filter is_VarDec (nodes e))"

lemma decls_unfold: "decls e = (if is_VarDec e then [addr_of e] else []) @ concat (map decls (subs e))"
proof -
  have "map addr_of (filter is_VarDec (concat (map nodes xs))) = concat (map decls xs)" for xs
    by (induction xs) (simp_all add: decls_def)
  then show ?thesis by (simp add: decls_def nodes.simps [of e])
qed

lemma decls_simps:
  "decls (OpExp h l oper r) = decls l @ decls r" "decls (AssignExp h (SimpleVar k x) e) = decls e"
  "decls (SeqExp h es) = concat (map decls es)" "decls (IfExp h c t f) = decls c @ decls t @ decls f"
  "decls (WhileExp h c e) = decls c @ decls e" "decls (LetExp h cs e) = decls cs @ decls e"
  "decls (VarDec h x ty (Some i)) = adr h # concat (map decls (opt_list ty)) @ decls i"
  "decls (ChunkList h xs) = concat (map decls xs)" "decls (VarChunk h ds) = concat (map decls ds)"
  by (simp_all add: decls_unfold [of "OpExp h l oper r"] decls_unfold [of "AssignExp h (SimpleVar k x) e"]
    decls_unfold [of "SimpleVar k x"] decls_unfold [of "SeqExp h es"] decls_unfold [of "IfExp h c t f"]
    decls_unfold [of "WhileExp h c e"] decls_unfold [of "LetExp h cs e"] decls_unfold [of "VarDec h x ty (Some i)"]
    decls_unfold [of "ChunkList h xs"] decls_unfold [of "VarChunk h ds"] is_VarDec_def addr_of_def)

lemma decls_let: "let_decs cs = Some ds \<Longrightarrow> decls cs = concat (map decls ds)"
proof -
  have "chunks_vars xs = Some ds \<Longrightarrow> concat (map decls xs) = concat (map decls ds)" for xs ds
    by (induction xs arbitrary: ds)
      (auto simp: chunk_vars_def decls_simps split: ast.splits bind_splits)
  then show "let_decs cs = Some ds \<Longrightarrow> decls cs = concat (map decls ds)"
    by (auto simp: let_decs_def decls_simps split: ast.splits)
qed

section \<open>Runs of the code between two views\<close>

definition at_end :: "ll_view \<Rightarrow> addr option \<Rightarrow> registers \<Rightarrow> cells \<Rightarrow> config" where
  "at_end V p rho mem = Run p (the (point V)) (length (code_of V (the (point V)))) rho mem"

text \<open>From the end of \<open>V\<close> to that of \<open>V'\<close> in \<open>M\<close>; only the registers \<open>X\<close> change.\<close>

definition runs ::
  "ll_view \<Rightarrow> addr set \<Rightarrow> ll_view \<Rightarrow> addr option \<Rightarrow> registers \<Rightarrow> cells \<Rightarrow> ll_view \<Rightarrow> addr option \<Rightarrow> registers \<Rightarrow> cells \<Rightarrow> bool" where
  "runs M X V p rho mem V' p' rho' mem' \<longleftrightarrow>
     ll_steps M (at_end V p rho mem) (at_end V' p' rho' mem') \<and> (\<forall>a. a \<notin> X \<longrightarrow> rho' a = rho a)"

lemma runs_refl: "runs M X V p rho mem V p rho mem"
  by (simp add: runs_def ll_steps.stop)

lemma runs_trans:
  "runs M X V p rho mem V' p' rho' mem' \<Longrightarrow> runs M X V' p' rho' mem' V'' p'' rho'' mem'' \<Longrightarrow>
   runs M X V p rho mem V'' p'' rho'' mem''"
  by (auto simp: runs_def intro: ll_steps_trans)

lemma runs_mono: "runs M X V p rho mem V' p' rho' mem' \<Longrightarrow> X \<subseteq> Y \<Longrightarrow> runs M Y V p rho mem V' p' rho' mem'"
  by (auto simp: runs_def)

text \<open>The registers that code may change.\<close>

definition fresh :: "ll_view \<Rightarrow> ll_view \<Rightarrow> addr set" where
  "fresh V V' = known V' - known V - allocas V'"

abbreviation part_of :: "ll_view \<Rightarrow> ll_view \<Rightarrow> bool" where
  "part_of V W \<equiv> ll_grows UNIV V W"

lemma grows_any: "ll_grows S V W \<Longrightarrow> part_of V W"
  by (erule grows_mono) simp

lemma below_trans [trans]: "part_of V W \<Longrightarrow> part_of W U \<Longrightarrow> part_of V U"
  by (erule ll_grows_trans) simp_all

lemma fresh_between: "part_of V V1 \<Longrightarrow> part_of V2 V3 \<Longrightarrow> fresh V1 V2 \<subseteq> fresh V V3"
  by (auto simp: fresh_def dest: ll_growsD(1,10))

text \<open>The execution of one instruction.\<close>

lemma runs_emit:
  assumes e: "emits V c r V'" and p: "point V = Some b" and k: "b \<in> known V" and g: "ll_grows S V' M"
    and x: "ll_execute M p0 b (length (code_of V b)) rho mem (c, r) = Some (Run p0 b (Suc (length (code_of V b))) rho' mem')"
    and s: "\<And>a. a \<notin> X \<Longrightarrow> rho' a = rho a"
  shows "runs M X V p0 rho mem V' p0 rho' mem'"
proof -
  note em = emitted_at [OF e p g k]
  have "point V' = Some b" using e p by (auto simp: emits_def)
  with em x p have "ll_step M (at_end V p0 rho mem) = Some (at_end V' p0 rho' mem')"
    by (simp add: ll_step_def at_end_def)
  then show ?thesis by (auto simp: runs_def s intro: ll_steps_one)
qed

text \<open>A jump to the beginning of a block where the view \<open>W\<close> is.\<close>

lemma runs_jump:
  assumes e: "emits V c r V'" and p: "point V = Some b" and k: "b \<in> known V" and g: "ll_grows S V' M"
    and x: "ll_execute M p0 b (length (code_of V b)) rho mem (c, r) = Some (Run (Some b) d 0 rho mem)"
    and w: "point W = Some d" "code_of W d = []"
  shows "runs M X V p0 rho mem W (Some b) rho mem"
proof -
  note em = emitted_at [OF e p g k]
  from em x p w have "ll_step M (at_end V p0 rho mem) = Some (at_end W (Some b) rho mem)"
    by (simp add: ll_step_def at_end_def)
  then show ?thesis by (auto simp: runs_def intro: ll_steps_one)
qed

section \<open>Variables\<close>

text \<open>The variable \<open>d\<close> is at the address that the value \<open>L d\<close> has, the cell \<open>K d\<close>, which holds its value.\<close>

definition tracks :: "ll_view \<Rightarrow> (addr \<rightharpoonup> addr) \<Rightarrow> (addr \<Rightarrow> addr) \<Rightarrow> valuation \<Rightarrow> registers \<Rightarrow> cells \<Rightarrow> bool" where
  "tracks M L K sigma rho mem \<longleftrightarrow> inj_on K (dom L) \<and>
     (\<forall>d h. L d = Some h \<longrightarrow> value_of M rho h = Some (Cell (K d)) \<and>
        (\<forall>w. sigma d = Some w \<longrightarrow> mem (K d) = Some (Int_val w)))"

lemma tracks_registers:
  assumes "tracks M L K sigma rho mem" and "\<And>a. a \<in> ran L \<Longrightarrow> rho' a = rho a"
  shows "tracks M L K sigma rho' mem"
proof -
  have "value_of M rho' h = value_of M rho h" if "L d = Some h" for d h
  proof -
    have "h \<in> ran L" using that by (rule ranI)
    from assms(2) [OF this] show ?thesis by (cases "const_of M h") (simp_all add: value_of_def)
  qed
  with assms(1) show ?thesis by (simp add: tracks_def)
qed

lemma tracks_assign:
  assumes "tracks M L K sigma rho mem" and "L d = Some h"
  shows "tracks M L K (sigma(d \<mapsto> w)) rho (mem(K d \<mapsto> Int_val w))"
  using assms by (auto simp: tracks_def dest: inj_onD)

text \<open>The code between two views does what \<open>F\<close> says, and leaves its value, if any, in \<open>v\<close>.\<close>

definition simulates ::
  "ll_view \<Rightarrow> (addr \<rightharpoonup> addr) \<Rightarrow> (addr \<Rightarrow> addr) \<Rightarrow> ll_view \<Rightarrow> ll_view \<Rightarrow> addr option \<Rightarrow>
   (valuation \<Rightarrow> i64 \<Rightarrow> valuation \<Rightarrow> bool) \<Rightarrow> bool" where
  "simulates M L K V V' v F \<longleftrightarrow> (\<forall>sigma w sigma' p rho mem. F sigma w sigma' \<longrightarrow> tracks M L K sigma rho mem \<longrightarrow>
     (\<exists>p' rho' mem'. runs M (fresh V V') V p rho mem V' p' rho' mem' \<and> tracks M L K sigma' rho' mem' \<and>
        (\<forall>x. v = Some x \<longrightarrow> value_of M rho' x = Some (Int_val w)) \<and> (\<forall>c. c \<notin> K ` dom L \<longrightarrow> mem' c = mem c)))"

lemma simulatesE:
  assumes "simulates M L K V V' v F" and "F sigma w sigma'" and "tracks M L K sigma rho mem"
  obtains p' rho' mem' where "runs M (fresh V V') V p rho mem V' p' rho' mem'" "tracks M L K sigma' rho' mem'"
    "\<And>x. v = Some x \<Longrightarrow> value_of M rho' x = Some (Int_val w)" "\<And>c. c \<notin> K ` dom L \<Longrightarrow> mem' c = mem c"
  using assms unfolding simulates_def by metis

definition means :: "ec_env \<Rightarrow> ast \<Rightarrow> valuation \<Rightarrow> i64 \<Rightarrow> valuation \<Rightarrow> bool" where
  "means P e sigma w sigma' \<longleftrightarrow> (\<exists>n. src P n e sigma = Some (w, sigma'))"

section \<open>The translation of a tree\<close>

definition loc_of :: "'m tr_state \<Rightarrow> addr \<rightharpoonup> addr" where
  "loc_of s = (case tr_locals s (tr_function s) of None \<Rightarrow> Map.empty | Some m \<Rightarrow> m)"

definition view :: "('m \<Rightarrow> ll_view) \<Rightarrow> 'm tr_state \<Rightarrow> ll_view" where
  "view v s = v (tr_module s)"

definition tr_ready :: "('m \<Rightarrow> ll_view) \<Rightarrow> 'm tr_state \<Rightarrow> bool" where
  "tr_ready v s \<longleftrightarrow> view_ok (view v s) \<and> point (view v s) \<noteq> None \<and>
     (\<exists>f. tr_function s = Some f \<and> entry_of (view v s) f \<noteq> None)"

text \<open>The variables are at different addresses, which the module knows.\<close>

definition placed :: "('m \<Rightarrow> ll_view) \<Rightarrow> 'm tr_state \<Rightarrow> bool" where
  "placed v s \<longleftrightarrow> inj_on (loc_of s) (dom (loc_of s)) \<and> ran (loc_of s) \<subseteq> known (view v s)"

text \<open>
  What a translation keeps: the function, the variables but \<open>A\<close>, which get new addresses, and what is not of the
  code that it adds.
\<close>

definition frame_kept :: "('m \<Rightarrow> ll_view) \<Rightarrow> addr set \<Rightarrow> 'm tr_state \<Rightarrow> 'm tr_state \<Rightarrow> bool" where
  "frame_kept v A s t \<longleftrightarrow> tr_function t = tr_function s \<and> tr_escaped t = tr_escaped s \<and>
     (\<forall>d. d \<notin> A \<longrightarrow> loc_of t d = loc_of s d) \<and> (\<forall>g. g \<noteq> tr_function s \<longrightarrow> tr_locals t g = tr_locals s g) \<and>
     known (view v s) \<subseteq> known (view v t) \<and> allocas (view v s) \<subseteq> allocas (view v t) \<and>
     ran (loc_of t) \<subseteq> ran (loc_of s) \<union> (allocas (view v t) - known (view v s)) \<and>
     (placed v s \<longrightarrow> placed v t)"

definition keeps_state :: "('m \<Rightarrow> ll_view) \<Rightarrow> addr set \<Rightarrow> 'm tr_state \<Rightarrow> 'm tr_state \<Rightarrow> bool" where
  "keeps_state v A s t \<longleftrightarrow> tr_ready v t \<and> frame_kept v A s t \<and>
     ll_grows (set_option (point (view v s))) (view v s) (view v t) \<and>
     (point (view v t) = point (view v s) \<or> set_option (point (view v t)) \<inter> known (view v s) = {})"

lemma frame_kept_trans: "frame_kept v A s t \<Longrightarrow> frame_kept v B t u \<Longrightarrow> frame_kept v (A \<union> B) s u"
  unfolding frame_kept_def by (elim conjE, intro conjI) auto

lemma frame_kept_mono: "frame_kept v A s t \<Longrightarrow> A \<subseteq> B \<Longrightarrow> frame_kept v B s t"
  by (auto simp: frame_kept_def)

lemma frame_kept_module:
  assumes "ll_grows S (view v s) (view v t)" and "tr_function t = tr_function s" and "tr_escaped t = tr_escaped s"
    and "tr_locals t = tr_locals s"
  shows "frame_kept v A s t"
  using assms ll_growsD(1,9) [OF assms(1)] by (auto simp: frame_kept_def placed_def loc_of_def)

lemma frame_kept_locals:
  assumes "frame_kept v A s t"
  shows "d \<notin> A \<Longrightarrow> loc_of t d = loc_of s d"
  using assms by (simp add: frame_kept_def)

definition int_value :: "('m \<Rightarrow> ll_view) \<Rightarrow> 'm tr_state \<Rightarrow> bool" where
  "int_value v t \<longleftrightarrow> (\<exists>x. tr_value t = Some x \<and> x \<in> known (view v t) \<and> ty_of (view v t) x = int64 (view v t))"

text \<open>From \<open>s\<close>, \<open>f\<close> ends in a state whose new code does what \<open>F\<close> says, in the module that the translation ends with.\<close>

definition compiles ::
  "('m \<Rightarrow> ll_view) \<Rightarrow> addr set \<Rightarrow> addr set \<Rightarrow> bool \<Rightarrow> (valuation \<Rightarrow> i64 \<Rightarrow> valuation \<Rightarrow> bool) \<Rightarrow> 'm tr_state \<Rightarrow> 'm tr_state \<Rightarrow> bool" where
  "compiles v D A b F s t \<longleftrightarrow> keeps_state v A s t \<and> (b \<longrightarrow> int_value v t) \<and>
     (\<forall>M L K. ll_grows UNIV (view v t) M \<longrightarrow> ran L \<subseteq> known (view v s) \<union> allocas M \<longrightarrow>
        (\<forall>d \<in> D \<union> A. loc_of t d = L d) \<longrightarrow>
        simulates M L K (view v s) (view v t) (if b then tr_value t else None) F)"


lemma compilesD:
  assumes "compiles v D A b F s t"
  shows "keeps_state v A s t" and "b \<Longrightarrow> int_value v t"
    and "ll_grows UNIV (view v t) M \<Longrightarrow> ran L \<subseteq> known (view v s) \<union> allocas M \<Longrightarrow> (\<And>d. d \<in> D \<union> A \<Longrightarrow> loc_of t d = L d) \<Longrightarrow>
      simulates M L K (view v s) (view v t) (if b then tr_value t else None) F"
  using assms by (auto simp: compiles_def)

lemma keepsD:
  assumes "keeps_state v A s t"
  shows "tr_ready v t" and "tr_function t = tr_function s" and "tr_escaped t = tr_escaped s"
    and "ll_grows (set_option (point (view v s))) (view v s) (view v t)"
    and "point (view v t) = point (view v s) \<or> set_option (point (view v t)) \<inter> known (view v s) = {}"
    and "d \<notin> A \<Longrightarrow> loc_of t d = loc_of s d" and "g \<noteq> tr_function s \<Longrightarrow> tr_locals t g = tr_locals s g"
  using assms by (auto simp: keeps_state_def frame_kept_def)

lemma keeps_stateI:
  assumes "tr_ready v t" and "frame_kept v A s t" and "ll_grows (set_option (point (view v s))) (view v s) (view v t)"
    and "point (view v t) = point (view v s) \<or> set_option (point (view v t)) \<inter> known (view v s) = {}"
  shows "keeps_state v A s t"
  using assms by (simp add: keeps_state_def)

lemma keeps_frame: "keeps_state v A s t \<Longrightarrow> frame_kept v A s t"
  by (simp add: keeps_state_def)

lemma tr_readyD:
  assumes "tr_ready v s"
  obtains f b where "view_ok (view v s)" "point (view v s) = Some b" "b \<in> known (view v s)" "tr_function s = Some f"
    "entry_of (view v s) f \<noteq> None"
  using assms by (auto simp: tr_ready_def view_ok_def)

lemma keeps_refl: "tr_ready v s \<Longrightarrow> keeps_state v A s s"
  by (auto simp: keeps_state_def ll_grows_refl frame_kept_def)

lemma keeps_trans:
  assumes "keeps_state v A s t" and "keeps_state v B t u" and "A \<union> B \<subseteq> C"
  shows "keeps_state v C s u"
proof -
  note k = keepsD [OF assms(1)] and l = keepsD [OF assms(2)]
  have kn: "known (view v s) \<subseteq> known (view v t)" using ll_growsD(1) [OF k(4)] .
  have p: "set_option (point (view v t)) \<inter> known (view v s) \<subseteq> set_option (point (view v s))"
    using k(5) by auto
  have "ll_grows (set_option (point (view v s))) (view v s) (view v u)"
    by (rule ll_grows_trans [OF k(4) l(4)]) (use p in auto)
  moreover have "point (view v u) = point (view v s) \<or> set_option (point (view v u)) \<inter> known (view v s) = {}"
    using k(5) l(5) kn by auto
  ultimately show ?thesis
    using l(1) frame_kept_mono [OF frame_kept_trans [OF keeps_frame [OF assms(1)] keeps_frame [OF assms(2)]] assms(3)]
    by (intro keeps_stateI)
qed

section \<open>Calls of LLVM\<close>

text \<open>A call goes on in a state with the effect of the call; the members of the translator do not change.\<close>

lemma api_effect:
  assumes laws: "llvm_laws (te_llvm E) v" and "view_ok (view v s)" and "needs_block c \<longrightarrow> point (view v s) \<noteq> None"
  obtains r m where "\<And>k. api E c k s = k r (s\<lparr>tr_module := m\<rparr>)" "ll_effect (view v s) c r (v m)"
proof -
  have "ll_effect (view v s) c (fst (ll_do (te_llvm E) c (tr_module s))) (v (snd (ll_do (te_llvm E) c (tr_module s))))"
    using laws assms unfolding llvm_laws_def view_def by blast
  then show ?thesis by (rule that [rotated]) (simp add: api_def split: prod.split)
qed

lemma observations:
  assumes laws: "llvm_laws (te_llvm E) v"
  shows "ll_type_of (te_llvm E) m a = ty_of (v m) a" "ll_args (te_llvm E) m f = args_of (v m) f"
  "entry_of (v m) f = Some e \<Longrightarrow> ll_entry (te_llvm E) m f = e" "ll_function (te_llvm E) m x = fn_named (v m) x"
  "ll_insert_block (te_llvm E) m = point (v m)"
  using laws by (auto simp: llvm_laws_def)

text \<open>The type of the integers.\<close>

lemma api_int64:
  assumes laws: "llvm_laws (te_llvm E) v" and "view_ok (view v s)"
  obtains m where "\<And>k. api E Get_int64_ty k s = k (int64 (view v s)) (s\<lparr>tr_module := m\<rparr>)" "v m = view v s"
  using api_effect [OF assms, of Get_int64_ty] by (auto simp: ll_effect_def needs_block_def)

lemma zero_value_effect:
  assumes laws: "llvm_laws (te_llvm E) v" and "view_ok (view v s)"
  obtains r m where "\<And>k. zero_value E k s = k r (s\<lparr>tr_module := m\<rparr>)"
    "gives_constant (view v s) (Int_val 0) (int64 (view v s)) r (v m)"
proof -
  obtain m where m: "\<And>k. api E Get_int64_ty k s = k (int64 (view v s)) (s\<lparr>tr_module := m\<rparr>)" "v m = view v s"
    using api_int64 [OF assms] by blast
  have "view_ok (view v (s\<lparr>tr_module := m\<rparr>))" using assms(2) m(2) by (simp add: view_def)
  then obtain r m' where r: "\<And>k. api E (Const_int (int64 (view v s)) 0) k (s\<lparr>tr_module := m\<rparr>) =
      k r (s\<lparr>tr_module := m\<rparr>\<lparr>tr_module := m'\<rparr>)"
    "ll_effect (view v (s\<lparr>tr_module := m\<rparr>)) (Const_int (int64 (view v s)) 0) r (v m')"
    using api_effect [OF laws, of "s\<lparr>tr_module := m\<rparr>" "Const_int (int64 (view v s)) 0"] by (auto simp: needs_block_def)
  show ?thesis
    by (rule that [of r m']) (use m r in \<open>simp_all add: zero_value_def ll_effect_def view_def\<close>)
qed


lemma view_simps [simp]:
  "view v (s\<lparr>tr_module := m\<rparr>) = v m" "view v (s\<lparr>tr_value := x\<rparr>) = view v s" "view v (s\<lparr>tr_type := y\<rparr>) = view v s"
  "view v (s\<lparr>tr_loop_end := l\<rparr>) = view v s" "view v (s\<lparr>tr_locals := ls\<rparr>) = view v s"
  by (simp_all add: view_def)

lemma loc_of_simps [simp]:
  "loc_of (s\<lparr>tr_module := m\<rparr>) = loc_of s" "loc_of (s\<lparr>tr_value := x\<rparr>) = loc_of s" "loc_of (s\<lparr>tr_type := y\<rparr>) = loc_of s"
  "loc_of (s\<lparr>tr_loop_end := l\<rparr>) = loc_of s"
  by (simp_all add: loc_of_def)

text \<open>Steps that add no code, and steps that add code where the builder is.\<close>

lemma runs_silent: "point V' = point V \<Longrightarrow> code_of V' = code_of V \<Longrightarrow> runs M X V p rho mem V' p rho mem"
  by (simp add: runs_def at_end_def ll_steps.stop)

lemma value_kept: "runs M X V p rho mem V' p' rho' mem' \<Longrightarrow> x \<notin> X \<Longrightarrow> value_of M rho' x = value_of M rho x"
  by (cases "const_of M x") (simp_all add: runs_def value_of_def)

lemma ran_not_fresh: "ll_grows S V' M \<Longrightarrow> ran L \<subseteq> known V \<union> allocas M \<Longrightarrow> a \<in> ran L \<Longrightarrow> a \<notin> fresh V V'"
  by (auto simp: fresh_def dest: ll_growsD(10))

lemma tracks_runs:
  assumes "tracks M L K sigma rho mem" and "runs M X V p rho mem V' p' rho' mem'" and "ran L \<inter> X = {}"
  shows "tracks M L K sigma rho' mem"
  by (rule tracks_registers [OF assms(1)]) (use assms(2,3) in \<open>auto simp: runs_def\<close>)

lemma keeps_module:
  assumes "tr_ready v s" and "ll_grows (set_option (point (view v s))) (view v s) (view v t)" and "view_ok (view v t)"
    and "point (view v t) = point (view v s)" and "tr_function t = tr_function s" and "tr_escaped t = tr_escaped s"
    and "tr_locals t = tr_locals s"
  shows "keeps_state v A s t"
proof -
  from tr_readyD [OF assms(1)] obtain f e where f: "tr_function s = Some f" "entry_of (view v s) f = Some e" by blast
  with ll_growsD(13) [OF assms(2)] have "entry_of (view v t) f = Some e" by (force simp: map_le_def)
  with f assms have "tr_ready v t" by (auto simp: tr_ready_def)
  with assms show ?thesis by (intro keeps_stateI frame_kept_module [OF assms(2)]) simp_all
qed

text \<open>The value \<open>r\<close> of the code between \<open>V\<close> and \<open>V'\<close>, which changes no variable.\<close>

definition yields :: "ll_view \<Rightarrow> addr set \<Rightarrow> ll_view \<Rightarrow> ll_view \<Rightarrow> addr \<Rightarrow> registers \<Rightarrow> cells \<Rightarrow> ll_val \<Rightarrow> bool" where
  "yields M X V V' r rho mem z \<longleftrightarrow>
     (\<forall>p. \<exists>rho'. runs M X V p rho mem V' p rho' mem \<and> value_of M rho' r = Some z)"

lemma yields_emit:
  assumes e: "emits V c r V'" and ok: "view_ok V" and g: "ll_grows S V' M" and x: "fresh V V' \<subseteq> X"
    and c: "\<And>p b i. ll_execute M p b i rho mem (c, r) = map_option (\<lambda>a. Run p b (Suc i) (rho(r \<mapsto> a)) mem) (Some z)"
  shows "yields M X V V' r rho mem z"
  unfolding yields_def
proof (intro allI exI conjI)
  fix p
  from e obtain b where b: "point V = Some b" by (auto simp: emits_def)
  have r: "r \<notin> known V" "r \<in> known V'" "r \<notin> allocas V'" "b \<in> known V" "const_of V' r = None"
    using e ok b by (auto simp: emits_def view_ok_def)
  then have "r \<in> X" using x by (auto simp: fresh_def)
  then show "runs M X V p rho mem V' p (rho(r \<mapsto> z)) mem"
    by (intro runs_emit [OF e b r(4) g]) (auto simp: c)
  show "value_of M (rho(r \<mapsto> z)) r = Some z"
    using ll_growsD(2) [OF g r(2)] r(5) by (simp add: value_of_def)
qed

lemma yields_constant:
  assumes "gives_constant V z t r V'" and ok: "view_ok V" and g: "ll_grows S V' M"
  shows "yields M X V V' r rho mem z"
proof -
  note c = gives_constant_grows [OF assms(1) ok]
  then have "const_of M r = Some z" using ll_growsD(2) [OF g, of r] by simp
  with c show ?thesis unfolding yields_def
    by (intro allI exI [of _ rho]) (simp add: runs_silent value_of_def)
qed

text \<open>A binary operation.\<close>

lemma binary_effect:
  assumes laws: "llvm_laws (te_llvm E) v" and rd: "tr_ready v s" and k: "x \<in> known (view v s)" "y \<in> known (view v s)"
  obtains r m where "\<And>k. api E (Create_binary op x y n) k s = k r (s\<lparr>tr_module := m\<rparr>)"
    "ll_grows (set_option (point (view v s))) (view v s) (v m)" "view_ok (v m)" "point (v m) = point (view v s)" "r \<in> known (v m)"
    "ty_of (v m) r = (if is_icmp op then int1 (view v s) else ty_of (view v s) x)"
    "\<And>M X rho mem a b z. ll_grows UNIV (v m) M \<Longrightarrow> fresh (view v s) (v m) \<subseteq> X \<Longrightarrow> value_of M rho x = Some a \<Longrightarrow>
       value_of M rho y = Some b \<Longrightarrow> binary_val op a b = Some z \<Longrightarrow> yields M X (view v s) (v m) r rho mem z"
proof -
  from tr_readyD [OF rd] obtain b where ok: "view_ok (view v s)" and b: "point (view v s) = Some b" "b \<in> known (view v s)" by blast
  obtain r m where r: "\<And>k. api E (Create_binary op x y n) k s = k r (s\<lparr>tr_module := m\<rparr>)"
    "ll_effect (view v s) (Create_binary op x y n) r (v m)"
    using api_effect [OF laws ok, of "Create_binary op x y n"] b by auto
  then consider (emit) "emits (view v s) (Create_binary op x y n) r (v m)" | (fold) "folds_binary (view v s) op x y r (v m)"
    by (auto simp: ll_effect_def)
  then show ?thesis
  proof cases
    case emit
    note g = emits_grows [OF emit b(1) ok] and o = emits_ok [OF emit ok]
    have t: "ty_of (v m) r = (if is_icmp op then int1 (view v s) else ty_of (view v s) x)"
      using emit by (auto simp: emits_def result_type_def)
    show ?thesis
    proof (rule that [of r m])
      fix M X rho mem a c z
      assume "ll_grows UNIV (v m) M" "fresh (view v s) (v m) \<subseteq> X" "value_of M rho x = Some a"
        "value_of M rho y = Some c" "binary_val op a c = Some z"
      then show "yields M X (view v s) (v m) r rho mem z"
        by (intro yields_emit [OF emit ok]) (simp_all add: ll_execute_def computes_def)
    qed (use r g o t b in simp_all)
  next
    case fold
    then obtain a0 b0 c0 where f: "const_of (view v s) x = Some a0" "const_of (view v s) y = Some b0"
      "\<And>z. binary_val op a0 b0 = Some z \<Longrightarrow> c0 = z"
      "gives_constant (view v s) c0 (if is_icmp op then int1 (view v s) else ty_of (view v s) x) r (v m)"
      by (auto simp: folds_binary_def)
    note g = gives_constant_grows [OF f(4) ok]
    show ?thesis
    proof (rule that [of r m])
      show "ll_grows (set_option (point (view v s))) (view v s) (v m)" by (rule grows_mono) (use g in auto)
    next
      fix M X rho mem a c z
      assume h: "ll_grows UNIV (v m) M" "value_of M rho x = Some a" "value_of M rho y = Some c" "binary_val op a c = Some z"
      have "ll_grows UNIV (view v s) M" using g h(1) by (blast intro: ll_grows_trans)
      then have "const_of M x = Some a0" "const_of M y = Some b0" using f k by (simp_all add: ll_growsD(2))
      with h f(3) have "c0 = z" by (simp add: value_of_def)
      with f(4) h(1) show "yields M X (view v s) (v m) r rho mem z" by (intro yields_constant [OF _ ok]) simp_all
    qed (use r g in simp_all)
  qed
qed

text \<open>The extension of a truth value to an integer.\<close>

lemma zext_effect:
  assumes laws: "llvm_laws (te_llvm E) v" and rd: "tr_ready v s" and k: "x \<in> known (view v s)"
  obtains r m where "\<And>k. api E (Create_zext_or_trunc x (int64 (view v s)) n) k s = k r (s\<lparr>tr_module := m\<rparr>)"
    "ll_grows (set_option (point (view v s))) (view v s) (v m)" "view_ok (v m)" "point (v m) = point (view v s)" "r \<in> known (v m)"
    "ty_of (v m) r = int64 (view v s)"
    "\<And>M X rho mem a. ll_grows UNIV (v m) M \<Longrightarrow> fresh (view v s) (v m) \<subseteq> X \<Longrightarrow> value_of M rho x = Some a \<Longrightarrow>
       (ty_of (view v s) x = int64 (view v s) \<longrightarrow> extended a = a) \<Longrightarrow> yields M X (view v s) (v m) r rho mem (extended a)"
proof -
  let ?c = "Create_zext_or_trunc x (int64 (view v s)) n"
  from tr_readyD [OF rd] obtain b where ok: "view_ok (view v s)" and b: "point (view v s) = Some b" "b \<in> known (view v s)" by blast
  obtain r m where r: "\<And>k. api E ?c k s = k r (s\<lparr>tr_module := m\<rparr>)" "ll_effect (view v s) ?c r (v m)"
    using api_effect [OF laws ok, of ?c] b by auto
  then consider (same) "ty_of (view v s) x = int64 (view v s)" "r = x" "v m = view v s"
    | (emit) "ty_of (view v s) x \<noteq> int64 (view v s)" "emits (view v s) ?c r (v m)"
    | (fold) a where "ty_of (view v s) x \<noteq> int64 (view v s)" "const_of (view v s) x = Some a"
      "gives_constant (view v s) (extended a) (int64 (view v s)) r (v m)"
    by (auto simp: ll_effect_def split: if_splits)
  then show ?thesis
  proof cases
    case same
    show ?thesis
    proof (rule that [of r m])
      fix M X rho mem a
      assume "value_of M rho x = Some a" "ty_of (view v s) x = int64 (view v s) \<longrightarrow> extended a = a"
      with same show "yields M X (view v s) (v m) r rho mem (extended a)"
        unfolding yields_def by (intro allI exI [of _ rho]) (simp add: runs_refl)
    qed (use r same k ok in \<open>simp_all add: ll_grows_refl\<close>)
  next
    case emit
    note g = emits_grows [OF emit(2) b(1) ok] and o = emits_ok [OF emit(2) ok]
    have t: "ty_of (v m) r = int64 (view v s)" using emit(2) by (auto simp: emits_def result_type_def)
    show ?thesis
    proof (rule that [of r m])
      fix M X rho mem a
      assume "ll_grows UNIV (v m) M" "fresh (view v s) (v m) \<subseteq> X" "value_of M rho x = Some a"
      then show "yields M X (view v s) (v m) r rho mem (extended a)"
        by (intro yields_emit [OF emit(2) ok]) (simp_all add: ll_execute_def computes_def)
    qed (use r g o t b in simp_all)
  next
    case (fold a0)
    note g = gives_constant_grows [OF fold(3) ok]
    show ?thesis
    proof (rule that [of r m])
      show "ll_grows (set_option (point (view v s))) (view v s) (v m)" by (rule grows_mono) (use g in auto)
    next
      fix M X rho mem a
      assume h: "ll_grows UNIV (v m) M" "value_of M rho x = Some a"
      have "ll_grows UNIV (view v s) M" using g h(1) by (blast intro: ll_grows_trans)
      then have "const_of M x = Some a0" using fold k by (simp add: ll_growsD(2))
      with h have "a0 = a" by (simp add: value_of_def)
      with fold(3) h(1) show "yields M X (view v s) (v m) r rho mem (extended a)"
        by (intro yields_constant [OF _ ok]) simp_all
    qed (use r g in simp_all)
  qed
qed


section \<open>The cases\<close>

text \<open>From every state with the variables \<open>D\<close>, \<open>f\<close> ends well; it var_means the variables \<open>A\<close>.\<close>

definition compiled ::
  "('m \<Rightarrow> ll_view) \<Rightarrow> addr set \<Rightarrow> addr set \<Rightarrow> bool \<Rightarrow> 'm tr \<Rightarrow> (valuation \<Rightarrow> i64 \<Rightarrow> valuation \<Rightarrow> bool) \<Rightarrow> bool" where
  "compiled v D A b f F \<longleftrightarrow>
     (\<forall>s. tr_ready v s \<longrightarrow> D \<subseteq> dom (loc_of s) \<longrightarrow> (\<exists>t. f s = Inr t \<and> compiles v D A b F s t))"

lemma compiledE:
  assumes "compiled v D A b f F" and "tr_ready v s" and "D \<subseteq> dom (loc_of s)"
  obtains t where "f s = Inr t" "compiles v D A b F s t"
  using assms by (auto simp: compiled_def)

lemma keeps_dom: "keeps_state v A s t \<Longrightarrow> D \<inter> A = {} \<Longrightarrow> D \<subseteq> dom (loc_of s) \<Longrightarrow> D \<subseteq> dom (loc_of t)"
proof
  fix d assume "keeps_state v A s t" "D \<inter> A = {}" "D \<subseteq> dom (loc_of s)" "d \<in> D"
  then have "loc_of t d = loc_of s d" "d \<in> dom (loc_of s)" by (auto dest: keepsD(6))
  then show "d \<in> dom (loc_of t)" by auto
qed

lemma keeps_loc: "keeps_state v A s t \<Longrightarrow> C \<inter> A = {} \<Longrightarrow> (\<And>d. d \<in> C \<Longrightarrow> loc_of t d = L d) \<Longrightarrow> d \<in> C \<Longrightarrow> loc_of s d = L d"
  using keepsD(6) [of v A s t d] by (metis disjoint_iff)

declare llvm_type_upto.simps [simp del]

lemma tr_visit_cases:
  "tr_visit E (IntExp h i) = tr_IntExp E i" "tr_visit E (SimpleVar h x) = tr_SimpleVar E (tr_visit E) x (SimpleVar h x)"
  "tr_visit E (OpExp h l oper r) = tr_OpExp E (tr_visit E) l oper r"
  "tr_visit E (AssignExp h y e) = tr_AssignExp E (tr_visit E) y e" "tr_visit E (SeqExp h es) = tr_SeqExp E (tr_visit E) es"
  "tr_visit E (IfExp h e f g) = tr_IfExp E (tr_visit E) e f g (IfExp h e f g)"
  "tr_visit E (WhileExp h e f) = tr_WhileExp E (tr_visit E) e f (WhileExp h e f)"
  "tr_visit E (LetExp h cs e) = (\<lambda>s. bindE (tr_visit E cs s) (tr_visit E e))"
  "tr_visit E (ChunkList h xs) = foldE (tr_visit E) xs" "tr_visit E (VarChunk h ds) = foldE (tr_visit E) ds"
  "tr_visit E (VarDec h x ty j) = tr_VarDec E (tr_visit E) x j (VarDec h x ty j)"
  by (intro ext, simp add: tr_visit.simps [of E "IntExp h i"] tr_visit.simps [of E "SimpleVar h x"]
    tr_visit.simps [of E "OpExp h l oper r"] tr_visit.simps [of E "AssignExp h y e"] tr_visit.simps [of E "SeqExp h es"]
    tr_visit.simps [of E "IfExp h e f g"] tr_visit.simps [of E "WhileExp h e f"] tr_visit.simps [of E "LetExp h cs e"]
    tr_visit.simps [of E "ChunkList h xs"] tr_visit.simps [of E "VarChunk h ds"] tr_visit.simps [of E "VarDec h x ty j"]
    tr_dispatch_def is_object_node_def default_visit_def accepts_defs foldE_one)+

text \<open>The type of the integers, for the nodes whose type it is.\<close>

lemma llvm_type_int:
  assumes laws: "llvm_laws (te_llvm E) v" and rd: "tr_ready v s" and i: "int_like E t" and n: "2 \<le> te_fuel E"
  obtains m y where "\<And>k. llvm_type E t k s = k (int64 (view v s)) (s\<lparr>tr_module := m, tr_type := y\<rparr>)" "v m = view v s"
proof -
  let ?ts = "ec_store (te_prog E)"
  from tr_readyD [OF rd] have ok: "view_ok (view v s)" by blast
  obtain m where m: "\<And>k. api E Get_int64_ty k s = k (int64 (view v s)) (s\<lparr>tr_module := m\<rparr>)" "v m = view v s"
    using api_int64 [OF laws ok] by blast
  from i obtain a where a: "actual ?ts t = Inr a" "ty_at ?ts a = Inr Int_ty \<or> ty_at ?ts a = Inr Void_ty"
    by (auto simp: int_like_def split: sum.splits)
  obtain n' where n': "te_fuel E = Suc (Suc n')" using n by (metis add_2_eq_Suc le_Suc_ex)
  have at_a: "llvm_type_upto E (Suc k) a s = Inr (s\<lparr>tr_module := m, tr_type := Some (int64 (view v s))\<rparr>)" for k
    using a(2) by (auto simp: llvm_type_upto.simps m set_type_def)
  have "llvm_type_upto E (te_fuel E) t s = Inr (s\<lparr>tr_module := m, tr_type := Some (int64 (view v s))\<rparr>)"
  proof (cases "t = a")
    case True
    then show ?thesis using at_a by (simp add: n')
  next
    case False
    have "\<exists>x p. ty_at ?ts t = Inr (Named_ty x p)"
    proof -
      obtain x where "ty_at ?ts t = Inr x" using a(1) by (auto simp: actual_def bindE_eq_Inr)
      with a(1) False show ?thesis by (cases x) (simp_all add: actual_def)
    qed
    then show ?thesis using at_a a(1) by (auto simp: llvm_type_upto.simps(2) [of E "Suc n'"] n')
  qed
  then show ?thesis by (intro that [of "Some (int64 (view v s))" m]) (simp_all add: llvm_type_def need_def m)
qed


lemma var_ltype_int:
  assumes laws: "llvm_laws (te_llvm E) v" and rd: "tr_ready v s" and i: "int_node E e" and n: "2 \<le> te_fuel E"
  obtains m y where "\<And>k. var_ltype E e k s = k (int64 (view v s)) (s\<lparr>tr_module := m, tr_type := y\<rparr>)" "v m = view v s"
proof -
  from tr_readyD [OF rd] have ok: "view_ok (view v s)" by blast
  obtain m where m: "\<And>k. api E Get_int64_ty k s = k (int64 (view v s)) (s\<lparr>tr_module := m\<rparr>)" "v m = view v s"
    using api_int64 [OF laws ok] by blast
  from i obtain t where t: "node_type E e = Some t" "int_like E t" by (auto simp: int_node_def split: option.splits)
  obtain m' y where l: "\<And>k. llvm_type E t k s = k (int64 (view v s)) (s\<lparr>tr_module := m', tr_type := y\<rparr>)" "v m' = view v s"
    using llvm_type_int [OF laws rd t(2) n] by blast
  show ?thesis
  proof (cases "t = Void_instance")
    case True
    with t m show ?thesis by (intro that [of "tr_type s" m]) (simp_all add: var_ltype_def)
  next
    case False
    with t l show ?thesis by (intro that [of y m']) (simp_all add: var_ltype_def need_def)
  qed
qed

lemma simulatesI:
  assumes "\<And>sigma w sigma' p rho mem. F sigma w sigma' \<Longrightarrow> tracks M L K sigma rho mem \<Longrightarrow>
    \<exists>p' rho' mem'. runs M (fresh V V') V p rho mem V' p' rho' mem' \<and> tracks M L K sigma' rho' mem' \<and>
      (\<forall>x. y = Some x \<longrightarrow> value_of M rho' x = Some (Int_val w)) \<and> (\<forall>c. c \<notin> K ` dom L \<longrightarrow> mem' c = mem c)"
  shows "simulates M L K V V' y F"
  using assms unfolding simulates_def by blast

lemma simulates_yields:
  assumes "\<And>sigma w sigma' rho mem. F sigma w sigma' \<Longrightarrow> tracks M L K sigma rho mem \<Longrightarrow>
      sigma' = sigma \<and> yields M (fresh V V') V V' r rho mem (Int_val w)"
    and "ll_grows S V' M" and "ran L \<subseteq> known V \<union> allocas M"
  shows "simulates M L K V V' (Some r) F"
proof (rule simulatesI)
  fix sigma w sigma' p rho mem
  assume f: "F sigma w sigma'" and t: "tracks M L K sigma rho mem"
  from assms(1) [OF f t] obtain rho' where r: "sigma' = sigma" "runs M (fresh V V') V p rho mem V' p rho' mem"
    "value_of M rho' r = Some (Int_val w)"
    unfolding yields_def by blast
  moreover have "tracks M L K sigma rho' mem"
    by (rule tracks_runs [OF t r(2)]) (use ran_not_fresh [OF assms(2,3)] in blast)
  ultimately show "\<exists>p' rho' mem'. runs M (fresh V V') V p rho mem V' p' rho' mem' \<and> tracks M L K sigma' rho' mem' \<and>
      (\<forall>x. Some r = Some x \<longrightarrow> value_of M rho' x = Some (Int_val w)) \<and> (\<forall>c. c \<notin> K ` dom L \<longrightarrow> mem' c = mem c)"
    by blast
qed

text \<open>
  Executions, piece by piece: from the end of \<open>V\<close> the code gets to the end of \<open>V'\<close>, where the variables have the values
  \<open>sigma\<close> and the values \<open>vals\<close> are known; it changes the registers \<open>X\<close> and the variables only.
\<close>

definition reaches ::
  "ll_view \<Rightarrow> (addr \<rightharpoonup> addr) \<Rightarrow> (addr \<Rightarrow> addr) \<Rightarrow> addr set \<Rightarrow> ll_view \<Rightarrow> addr option \<Rightarrow> registers \<Rightarrow> cells \<Rightarrow>
   valuation \<Rightarrow> ll_view \<Rightarrow> addr option \<Rightarrow> (addr \<times> ll_val) set \<Rightarrow> bool" where
  "reaches M L K X V p rho mem sigma V' p' vals \<longleftrightarrow> (\<exists>rho' mem'. runs M X V p rho mem V' p' rho' mem' \<and>
     tracks M L K sigma rho' mem' \<and> (\<forall>(x, z) \<in> vals. value_of M rho' x = Some z) \<and>
     (\<forall>c. c \<notin> K ` dom L \<longrightarrow> mem' c = mem c))"

lemma reaches_start: "tracks M L K sigma rho mem \<Longrightarrow> reaches M L K X V p rho mem sigma V p {}"
  by (auto simp: reaches_def intro: runs_refl)

lemma reaches_less: "reaches M L K X V p rho mem sigma V' p' vals \<Longrightarrow> vs \<subseteq> vals \<Longrightarrow> reaches M L K X V p rho mem sigma V' p' vs"
  unfolding reaches_def by blast

lemma reaches_sim:
  assumes r: "reaches M L K X V p rho mem sigma V1 p1 vals" and s: "simulates M L K V1 V2 y F" and f: "F sigma w sigma'"
    and x: "fresh V1 V2 \<subseteq> X" and k: "fst ` vals \<subseteq> known V1"
  obtains p2 where "reaches M L K X V p rho mem sigma' V2 p2 (vals \<union> {(x, Int_val w) |x. y = Some x})"
proof -
  from r obtain rho1 mem1 where r1: "runs M X V p rho mem V1 p1 rho1 mem1" "tracks M L K sigma rho1 mem1"
    "\<forall>(x, z) \<in> vals. value_of M rho1 x = Some z" "\<forall>c. c \<notin> K ` dom L \<longrightarrow> mem1 c = mem c"
    unfolding reaches_def by blast
  obtain p2 rho2 mem2 where r2: "runs M (fresh V1 V2) V1 p1 rho1 mem1 V2 p2 rho2 mem2" "tracks M L K sigma' rho2 mem2"
    "\<And>x. y = Some x \<Longrightarrow> value_of M rho2 x = Some (Int_val w)" "\<And>c. c \<notin> K ` dom L \<Longrightarrow> mem2 c = mem1 c"
    using simulatesE [OF s f r1(2)] by blast
  have "value_of M rho2 x = value_of M rho1 x" if "(x, z) \<in> vals" for x z
    using value_kept [OF r2(1)] k that by (force simp: fresh_def)
  with r1 r2 have "reaches M L K X V p rho mem sigma' V2 p2 (vals \<union> {(x, Int_val w) |x. y = Some x})"
    unfolding reaches_def by (intro exI [of _ rho2] exI [of _ mem2]) (auto intro: runs_trans runs_mono [OF _ x])
  then show ?thesis by (rule that)
qed

lemma reaches_yields:
  assumes r: "reaches M L K X V p rho mem sigma V1 p1 vals"
    and y: "\<And>rho mem. \<forall>(x, z) \<in> vals. value_of M rho x = Some z \<Longrightarrow> yields M (fresh V1 V2) V1 V2 r rho mem z"
    and x: "fresh V1 V2 \<subseteq> X" "ran L \<inter> X = {}" and k: "fst ` vals \<subseteq> known V1"
  shows "reaches M L K X V p rho mem sigma V2 p1 (insert (r, z) vals)"
proof -
  from r obtain rho1 mem1 where r1: "runs M X V p rho mem V1 p1 rho1 mem1" "tracks M L K sigma rho1 mem1"
    "\<forall>(x, z) \<in> vals. value_of M rho1 x = Some z" "\<forall>c. c \<notin> K ` dom L \<longrightarrow> mem1 c = mem c"
    unfolding reaches_def by blast
  obtain rho2 where r2: "runs M (fresh V1 V2) V1 p1 rho1 mem1 V2 p1 rho2 mem1" "value_of M rho2 r = Some z"
    using y [OF r1(3)] unfolding yields_def by blast
  have "value_of M rho2 x = value_of M rho1 x" if "(x, z) \<in> vals" for x z
    using value_kept [OF r2(1)] k that by (force simp: fresh_def)
  moreover have "tracks M L K sigma rho2 mem1" by (rule tracks_runs [OF r1(2) r2(1)]) (use x in blast)
  ultimately show ?thesis
    unfolding reaches_def using r1 r2 by (intro exI [of _ rho2] exI [of _ mem1]) (auto intro: runs_trans runs_mono [OF _ x(1)])
qed

lemma reaches_store:
  assumes r: "reaches M L K X V p rho mem sigma V1 p1 vals" and e: "emits V1 (Create_store x h) r V2" and ok: "view_ok V1"
    and g: "ll_grows S V2 M" and L: "L d = Some h" and v: "(x, Int_val w) \<in> vals"
  shows "reaches M L K X V p rho mem (sigma(d \<mapsto> w)) V2 p1 vals"
proof -
  from r obtain rho1 mem1 where r1: "runs M X V p rho mem V1 p1 rho1 mem1" "tracks M L K sigma rho1 mem1"
    "\<forall>(x, z) \<in> vals. value_of M rho1 x = Some z" "\<forall>c. c \<notin> K ` dom L \<longrightarrow> mem1 c = mem c"
    unfolding reaches_def by blast
  from e ok obtain b where b: "point V1 = Some b" "b \<in> known V1" by (auto simp: emits_def view_ok_def)
  have "value_of M rho1 h = Some (Cell (K d))" using r1(2) L by (simp add: tracks_def)
  then have "runs M X V1 p1 rho1 mem1 V2 p1 rho1 (mem1(K d \<mapsto> Int_val w))"
    using r1(3) v by (intro runs_emit [OF e b g]) (auto simp: ll_execute_def)
  moreover have "K d \<in> K ` dom L" using L by blast
  ultimately show ?thesis unfolding reaches_def
    using r1 tracks_assign [OF r1(2) L] by (intro exI [of _ rho1] exI [of _ "mem1(K d \<mapsto> Int_val w)"]) (auto intro: runs_trans)
qed

lemma reaches_br:
  assumes r: "reaches M L K X V p rho mem sigma V1 p1 vals" and e: "emits V1 (Create_br d) r V2" and ok: "view_ok V1"
    and g: "ll_grows S V2 M" and w: "point W = Some d" "code_of W d = []"
  shows "reaches M L K X V p rho mem sigma W (point V1) vals"
proof -
  from e ok obtain b where b: "point V1 = Some b" "b \<in> known V1" by (auto simp: emits_def view_ok_def)
  have "runs M X V1 p1 rho1 mem1 W (point V1) rho1 mem1" for rho1 mem1
    using runs_jump [OF e b g _ w] b(1) by (simp add: ll_execute_def)
  with r show ?thesis unfolding reaches_def by (blast intro: runs_trans)
qed

lemma reaches_cond_br:
  assumes r: "reaches M L K X V p rho mem sigma V1 p1 vals" and e: "emits V1 (Create_cond_br x d d') r V2" and ok: "view_ok V1"
    and g: "ll_grows S V2 M" and v: "(x, Bool_val t) \<in> vals"
    and w: "point W = Some (if t then d else d')" "code_of W (if t then d else d') = []"
  shows "reaches M L K X V p rho mem sigma W (point V1) vals"
proof -
  from e ok obtain b where b: "point V1 = Some b" "b \<in> known V1" by (auto simp: emits_def view_ok_def)
  from r obtain rho1 mem1 where r1: "runs M X V p rho mem V1 p1 rho1 mem1" "tracks M L K sigma rho1 mem1"
    "\<forall>(x, z) \<in> vals. value_of M rho1 x = Some z" "\<forall>c. c \<notin> K ` dom L \<longrightarrow> mem1 c = mem c"
    unfolding reaches_def by blast
  have "runs M X V1 p1 rho1 mem1 W (point V1) rho1 mem1"
    using runs_jump [OF e b g _ w] b(1) r1(3) v by (auto simp: ll_execute_def)
  with r1 show ?thesis unfolding reaches_def by (blast intro: runs_trans)
qed

lemma simulates_reaches:
  assumes "\<And>sigma w sigma' p rho mem. F sigma w sigma' \<Longrightarrow> tracks M L K sigma rho mem \<Longrightarrow>
    \<exists>p' vals. reaches M L K (fresh V V') V p rho mem sigma' V' p' vals \<and> (\<forall>x. y = Some x \<longrightarrow> (x, Int_val w) \<in> vals)"
  shows "simulates M L K V V' y F"
proof (rule simulatesI)
  fix sigma w sigma' p rho mem
  assume "F sigma w sigma'" "tracks M L K sigma rho mem"
  from assms [OF this] show "\<exists>p' rho' mem'. runs M (fresh V V') V p rho mem V' p' rho' mem' \<and> tracks M L K sigma' rho' mem' \<and>
      (\<forall>x. y = Some x \<longrightarrow> value_of M rho' x = Some (Int_val w)) \<and> (\<forall>c. c \<notin> K ` dom L \<longrightarrow> mem' c = mem c)"
    unfolding reaches_def by (force split: prod.splits)
qed

lemma simulates_flag: "simulates M L K V V' y F \<Longrightarrow> simulates M L K V V' (if b then y else None) F"
proof (rule simulates_reaches)
  fix sigma w sigma' p rho mem
  assume "simulates M L K V V' y F" "F sigma w sigma'" "tracks M L K sigma rho mem"
  from reaches_sim [OF reaches_start [OF this(3)] this(1,2) order_refl] obtain p2 where
    "reaches M L K (fresh V V') V p rho mem sigma' V' p2 {(x, Int_val w) |x. y = Some x}" by auto
  then show "\<exists>p' vals. reaches M L K (fresh V V') V p rho mem sigma' V' p' vals \<and>
      (\<forall>x. (if b then y else None) = Some x \<longrightarrow> (x, Int_val w) \<in> vals)"
    by (intro exI conjI) (auto split: if_splits)
qed

text \<open>It is enough to prove that the value is right.\<close>

lemma compiledI:
  assumes "\<And>s. tr_ready v s \<Longrightarrow> D \<subseteq> dom (loc_of s) \<Longrightarrow> \<exists>t x. f s = Inr t \<and> keeps_state v A s t \<and> tr_value t = Some x \<and>
      x \<in> known (view v t) \<and> ty_of (view v t) x = int64 (view v t) \<and>
      (\<forall>M L K. ll_grows UNIV (view v t) M \<longrightarrow> ran L \<subseteq> known (view v s) \<union> allocas M \<longrightarrow> (\<forall>d \<in> D \<union> A. loc_of t d = L d) \<longrightarrow>
        simulates M L K (view v s) (view v t) (Some x) F)"
  shows "compiled v D A b f F"
  unfolding compiled_def
proof (intro allI impI)
  fix s assume "tr_ready v s" "D \<subseteq> dom (loc_of s)"
  from assms [OF this] obtain t x where t: "f s = Inr t" "keeps_state v A s t" "tr_value t = Some x"
    "x \<in> known (view v t)" "ty_of (view v t) x = int64 (view v t)"
    and sim: "\<And>M L K. ll_grows UNIV (view v t) M \<Longrightarrow> ran L \<subseteq> known (view v s) \<union> allocas M \<Longrightarrow> (\<forall>d \<in> D \<union> A. loc_of t d = L d) \<Longrightarrow>
        simulates M L K (view v s) (view v t) (Some x) F" by blast
  have "simulates M L K (view v s) (view v t) (if b then tr_value t else None) F"
    if "ll_grows UNIV (view v t) M" "ran L \<subseteq> known (view v s) \<union> allocas M" "\<forall>d \<in> D \<union> A. loc_of t d = L d" for M L K
    unfolding t(3) by (rule simulates_flag [OF sim [OF that]])
  with t show "\<exists>t. f s = Inr t \<and> compiles v D A b F s t"
    by (intro exI [of _ t]) (simp add: compiles_def int_value_def)
qed

lemma int_valueE:
  assumes "compiles v D A True F s t"
  obtains x where "tr_value t = Some x" "x \<in> known (view v t)" "ty_of (view v t) x = int64 (view v t)"
  using compilesD(2) [OF assms] by (auto simp: int_value_def)

lemma compiles_sim:
  assumes "compiles v D A b F s t" and "part_of (view v t) M" and "ran L \<subseteq> known (view v s) \<union> allocas M"
    and "\<And>d. d \<in> D \<union> A \<Longrightarrow> loc_of t d = L d" and "y = (if b then tr_value t else None)"
  shows "simulates M L K (view v s) (view v t) y F"
  unfolding assms(5) by (rule compilesD(3) [OF assms(1-4)])

lemma known_kept: "keeps_state v A s t \<Longrightarrow> known (view v s) \<subseteq> known (view v t)"
  by (rule ll_growsD(1) [OF keepsD(4)])

end
