(* ===== verification/Translator_Correct.thy ===== *)
theory Translator_Correct
  imports Translator_Runs
begin

text \<open>
  What the instructions that the translator makes do, for integers, variables and control: they compute what the
  tree means.
\<close>

section \<open>Literals, variables, operations\<close>

lemma means_simps:
  "means P (IntExp h i) sigma w sigma' \<longleftrightarrow> w = scast i \<and> sigma' = sigma"
  "means P (SimpleVar h x) sigma w sigma' \<longleftrightarrow> (\<exists>d. ec_defs P (adr h) = Some d \<and> sigma d = Some w) \<and> sigma' = sigma"
proof -
  have "(\<exists>n. src P n e sigma = Some z) \<longleftrightarrow> (\<exists>n. src_step P (src P n) e sigma = Some z)" for e z
    by (metis option.distinct(1) src.simps not0_implies_Suc)
  then show "means P (IntExp h i) sigma w sigma' \<longleftrightarrow> w = scast i \<and> sigma' = sigma"
    "means P (SimpleVar h x) sigma w sigma' \<longleftrightarrow> (\<exists>d. ec_defs P (adr h) = Some d \<and> sigma d = Some w) \<and> sigma' = sigma"
    by (auto simp: means_def src_step_def split: bind_splits)
qed

lemma compiled_IntExp:
  assumes laws: "llvm_laws (te_llvm E) v"
  shows "compiled v D A b (tr_visit E (IntExp h i)) (means (te_prog E) (IntExp h i))"
proof (rule compiledI)
  fix s assume rd: "tr_ready v s"
  then have ok: "view_ok (view v s)" by (simp add: tr_ready_def)
  obtain m where m: "\<And>k. api E Get_int64_ty k s = k (int64 (view v s)) (s\<lparr>tr_module := m\<rparr>)" "v m = view v s"
    using api_int64 [OF laws ok] by blast
  let ?c = "Const_int (int64 (view v s)) (scast i)"
  obtain r m' where r: "\<And>k. api E ?c k (s\<lparr>tr_module := m\<rparr>) = k r (s\<lparr>tr_module := m'\<rparr>)"
    "gives_constant (view v s) (Int_val (scast i)) (int64 (view v s)) r (v m')"
    using api_effect [OF laws, of "s\<lparr>tr_module := m\<rparr>" ?c] ok m(2) by (auto simp: needs_block_def ll_effect_def)
  note g = gives_constant_grows [OF r(2) ok]
  let ?t = "s\<lparr>tr_module := m', tr_value := Some r\<rparr>"
  have "tr_visit E (IntExp h i) s = Inr ?t"
    by (simp add: tr_visit_cases tr_IntExp_def m r set_value_def)
  moreover have "keeps_state v A s ?t"
    by (rule keeps_module [OF rd]) (use g in \<open>auto intro: grows_mono\<close>)
  moreover have "simulates M L K (view v s) (v m') (Some r) (means (te_prog E) (IntExp h i))"
    if M: "ll_grows UNIV (v m') M" "ran L \<subseteq> known (view v s) \<union> allocas M" for M L K
    by (rule simulates_yields [OF _ M]) (auto simp: means_simps intro: yields_constant [OF r(2) ok M(1)])
  ultimately show "\<exists>t x. tr_visit E (IntExp h i) s = Inr t \<and> keeps_state v A s t \<and> tr_value t = Some x \<and>
      x \<in> known (view v t) \<and> ty_of (view v t) x = int64 (view v t) \<and>
      (\<forall>M L K. ll_grows UNIV (view v t) M \<longrightarrow> ran L \<subseteq> known (view v s) \<union> allocas M \<longrightarrow> (\<forall>d \<in> D \<union> A. loc_of t d = L d) \<longrightarrow>
        simulates M L K (view v s) (view v t) (Some x) (means (te_prog E) (IntExp h i)))"
    using g ll_growsD(7) [of "{}" "view v s" "v m'"] by (intro exI [of _ ?t] exI [of _ r]) simp
qed

lemma compiled_SimpleVar:
  assumes laws: "llvm_laws (te_llvm E) v" and d: "ec_defs (te_prog E) (adr h) = Some d" "d \<in> D"
    and i: "int_node E (SimpleVar h x)" and n: "2 \<le> te_fuel E"
  shows "compiled v D A b (tr_visit E (SimpleVar h x)) (means (te_prog E) (SimpleVar h x))"
proof (rule compiledI)
  fix s assume rd: "tr_ready v s" and D: "D \<subseteq> dom (loc_of s)"
  from tr_readyD [OF rd] obtain b where ok: "view_ok (view v s)" and b: "point (view v s) = Some b" by blast
  obtain m y where m: "\<And>k. var_ltype E (SimpleVar h x) k s = k (int64 (view v s)) (s\<lparr>tr_module := m, tr_type := y\<rparr>)" "v m = view v s"
    using var_ltype_int [OF laws rd i n] by blast
  from D d obtain p where p: "loc_of s d = Some p" by auto
  let ?s = "s\<lparr>tr_module := m, tr_type := y\<rparr>" and ?c = "Create_load (int64 (view v s)) p x"
  have a: "local_at (Some d) k ?s = k p ?s" for k
    using p by (auto simp: local_at_def loc_of_def split: option.splits)
  obtain r m' where r: "\<And>k. api E ?c k ?s = k r (?s\<lparr>tr_module := m'\<rparr>)" "emits (view v s) ?c r (v m')"
    using api_effect [OF laws, of ?s ?c] ok m(2) b by (auto simp: ll_effect_def)
  note g = emits_grows [OF r(2) b ok] and o = emits_ok [OF r(2) ok]
  let ?t = "s\<lparr>tr_module := m', tr_type := y, tr_value := Some r\<rparr>"
  have "tr_visit E (SimpleVar h x) s = Inr ?t"
    by (simp add: tr_visit_cases tr_SimpleVar_def m r(1) a access_var_def access_simple_def d set_value_def)
  moreover have "keeps_state v A s ?t"
    by (rule keeps_module [OF rd]) (use g o b in auto)
  moreover have "ty_of (v m') r = int64 (v m')" using r(2) by (auto simp: emits_def result_type_def)
  moreover have "simulates M L K (view v s) (v m') (Some r) (means (te_prog E) (SimpleVar h x))"
    if M: "ll_grows UNIV (v m') M" "ran L \<subseteq> known (view v s) \<union> allocas M" and L: "\<forall>d \<in> D \<union> A. loc_of s d = L d" for M L K
  proof (rule simulates_yields [OF _ M])
    fix sigma w sigma' rho mem
    assume e: "means (te_prog E) (SimpleVar h x) sigma w sigma'" and t: "tracks M L K sigma rho mem"
    have "L d = Some p" using L d(2) p by auto
    with t e d(1) have "value_of M rho p = Some (Cell (K d))" "mem (K d) = Some (Int_val w)" "sigma' = sigma"
      by (auto simp: tracks_def means_simps)
    then show "sigma' = sigma \<and> yields M (fresh (view v s) (v m')) (view v s) (v m') r rho mem (Int_val w)"
      using yields_emit [OF r(2) ok M(1)] by (simp add: ll_execute_def computes_def)
  qed
  ultimately show "\<exists>t x'. tr_visit E (SimpleVar h x) s = Inr t \<and> keeps_state v A s t \<and> tr_value t = Some x' \<and>
      x' \<in> known (view v t) \<and> ty_of (view v t) x' = int64 (view v t) \<and>
      (\<forall>M L K. ll_grows UNIV (view v t) M \<longrightarrow> ran L \<subseteq> known (view v s) \<union> allocas M \<longrightarrow> (\<forall>d \<in> D \<union> A. loc_of t d = L d) \<longrightarrow>
        simulates M L K (view v s) (view v t) (Some x') (means (te_prog E) (SimpleVar h x)))"
    using o by (intro exI [of _ ?t] exI [of _ r]) simp
qed


text \<open>Operations.\<close>

lemma op_binary:
  assumes "op64 oper a b = Some w"
  obtains z where "binary_val (fst (ll_operation oper)) (Int_val a) (Int_val b) = Some z" "extended z = Int_val w"
    "\<not> is_icmp (fst (ll_operation oper)) \<Longrightarrow> z = Int_val w"
  using assms by (cases oper) (auto simp: op64_def ll_operation_def binary_val_def binary_int_def extended_def is_icmp_def)

lemma means_OpExp:
  assumes "means P (OpExp h l oper r) sigma w sigma'"
  obtains a sigma1 b where "means P l sigma a sigma1" "means P r sigma1 b sigma'" "op64 oper a b = Some w"
proof -
  from assms obtain n where "src P n (OpExp h l oper r) sigma = Some (w, sigma')" by (auto simp: means_def)
  then obtain k where "src_step P (src P k) (OpExp h l oper r) sigma = Some (w, sigma')" by (cases n) auto
  then obtain a sigma1 b where "src P k l sigma = Some (a, sigma1)" "src P k r sigma1 = Some (b, sigma')" "op64 oper a b = Some w"
    by (auto simp: src_step_def split: bind_splits)
  then show ?thesis by (intro that) (auto simp: means_def)
qed

lemma compiled_OpExp:
  assumes laws: "llvm_laws (te_llvm E) v"
    and l: "compiled v D A True (tr_visit E l) (means (te_prog E) l)"
    and r: "compiled v D B True (tr_visit E r) (means (te_prog E) r)"
    and disj: "D \<inter> A = {}" "D \<inter> B = {}" "A \<inter> B = {}"
  shows "compiled v D (A \<union> B) c (tr_visit E (OpExp h l oper r)) (means (te_prog E) (OpExp h l oper r))"
proof (rule compiledI)
  fix s assume rd: "tr_ready v s" and D: "D \<subseteq> dom (loc_of s)"
  obtain s1 where s1: "tr_visit E l s = Inr s1" "compiles v D A True (means (te_prog E) l) s s1"
    using compiledE [OF l rd D] .
  note k1 = compilesD(1) [OF s1(2)]
  obtain x1 where x1: "tr_value s1 = Some x1" "x1 \<in> known (view v s1)" "ty_of (view v s1) x1 = int64 (view v s1)"
    using int_valueE [OF s1(2)] .
  obtain s2 where s2: "tr_visit E r s1 = Inr s2" "compiles v D B True (means (te_prog E) r) s1 s2"
    using compiledE [OF r keepsD(1) [OF k1] keeps_dom [OF k1 disj(1) D]] .
  note k2 = compilesD(1) [OF s2(2)]
  obtain x2 where x2: "tr_value s2 = Some x2" "x2 \<in> known (view v s2)" "ty_of (view v s2) x2 = int64 (view v s2)"
    using int_valueE [OF s2(2)] .
  note g2 = ll_growsD [OF keepsD(4) [OF k2]]
  obtain op n where op: "ll_operation oper = (op, n)" by (cases "ll_operation oper")
  have k12: "x1 \<in> known (view v s2)" using x1(2) g2(1) by blast
  obtain q m where q: "\<And>k. api E (Create_binary op x1 x2 n) k s2 = k q (s2\<lparr>tr_module := m\<rparr>)"
    "ll_grows (set_option (point (view v s2))) (view v s2) (v m)" "view_ok (v m)" "point (v m) = point (view v s2)" "q \<in> known (v m)"
    "ty_of (v m) q = (if is_icmp op then int1 (view v s2) else ty_of (view v s2) x1)"
    and qv: "\<And>M X rho mem a b z. ll_grows UNIV (v m) M \<Longrightarrow> fresh (view v s2) (v m) \<subseteq> X \<Longrightarrow> value_of M rho x1 = Some a \<Longrightarrow>
       value_of M rho x2 = Some b \<Longrightarrow> binary_val op a b = Some z \<Longrightarrow> yields M X (view v s2) (v m) q rho mem z"
    using binary_effect [OF laws keepsD(1) [OF k2] k12 x2(2)] by metis
  let ?s3 = "s2\<lparr>tr_module := m, tr_value := Some q\<rparr>"
  have k3: "keeps_state v {} s2 ?s3" by (rule keeps_module [OF keepsD(1) [OF k2]]) (use q in simp_all)
  have ok3: "view_ok (view v ?s3)" using q by simp
  obtain m3 where m3: "\<And>k. api E Get_int64_ty k ?s3 = k (int64 (v m)) (s2\<lparr>tr_value := Some q, tr_module := m3\<rparr>)" "v m3 = v m"
    using api_int64 [OF laws ok3] by auto
  let ?s4 = "s2\<lparr>tr_value := Some q, tr_module := m3\<rparr>"
  have rd4: "tr_ready v ?s4" using keepsD(1) [OF k3] m3(2) by (simp add: tr_ready_def)
  obtain y m4 where y: "\<And>k. api E (Create_zext_or_trunc q (int64 (v m)) ''op_zext'') k ?s4 = k y (s2\<lparr>tr_value := Some q, tr_module := m4\<rparr>)"
    "ll_grows (set_option (point (v m))) (v m) (v m4)" "view_ok (v m4)" "point (v m4) = point (v m)" "y \<in> known (v m4)"
    "ty_of (v m4) y = int64 (v m)"
    and yv: "\<And>M X rho mem a. ll_grows UNIV (v m4) M \<Longrightarrow> fresh (v m) (v m4) \<subseteq> X \<Longrightarrow> value_of M rho q = Some a \<Longrightarrow>
       (ty_of (v m) q = int64 (v m) \<longrightarrow> extended a = a) \<Longrightarrow> yields M X (v m) (v m4) y rho mem (extended a)"
    using zext_effect [OF laws rd4, of q "''op_zext''"] q(5) m3(2) by auto
  let ?t = "s2\<lparr>tr_module := m4, tr_value := Some y\<rparr>"
  have g24: "ll_grows (set_option (point (view v s2))) (view v s2) (v m4)"
    by (rule ll_grows_trans [OF q(2) y(2)]) (use q(4) in auto)
  have k4: "keeps_state v {} s2 ?t" by (rule keeps_module [OF keepsD(1) [OF k2] _]) (use g24 q y in simp_all)
  have kt: "keeps_state v (A \<union> B) s ?t"
    by (rule keeps_trans [OF keeps_trans [OF k1 k2 order_refl] k4]) simp
  have "tr_visit E (OpExp h l oper r) s = Inr ?t"
    by (simp add: tr_visit_cases tr_OpExp_def translate_def s1 s2 x1 x2 need_def op q(1) m3(1) y(1) set_value_def)
  moreover have "simulates M L K (view v s) (v m4) (Some y) (means (te_prog E) (OpExp h l oper r))"
    if M: "ll_grows UNIV (v m4) M" "ran L \<subseteq> known (view v s) \<union> allocas M" and L: "\<forall>d \<in> D \<union> (A \<union> B). loc_of s2 d = L d" for M L K
  proof (rule simulates_reaches)
    fix sigma w sigma' p rho mem
    assume e: "means (te_prog E) (OpExp h l oper r) sigma w sigma'" and t: "tracks M L K sigma rho mem"
    let ?X = "fresh (view v s) (v m4)"
    note b01 = grows_any [OF keepsD(4) [OF k1]] and b12 = grows_any [OF keepsD(4) [OF k2]] and b23 = grows_any [OF q(2)]
      and b34 = grows_any [OF y(2)] and b24 = grows_any [OF g24]
    note b02 = below_trans [OF b01 b12] and b14 = below_trans [OF b12 b24]
    note gM3 = below_trans [OF b34 M(1)] and gM2 = below_trans [OF b24 M(1)] and gM1 = below_trans [OF b14 M(1)]
    have L1: "loc_of s1 d = L d" if "d \<in> D \<union> A" for d using keeps_loc [OF k2, of "D \<union> A" L d] disj L that by blast
    have R1: "ran L \<subseteq> known (view v s1) \<union> allocas M" using M(2) known_kept [OF k1] by blast
    have sims: "simulates M L K (view v s) (view v s1) (Some x1) (means (te_prog E) l)"
      "simulates M L K (view v s1) (view v s2) (Some x2) (means (te_prog E) r)"
      using L L1 x1(1) x2(1) by (auto intro!: compiles_sim [OF s1(2) gM1 M(2)] compiles_sim [OF s2(2) gM2 R1])
    from e obtain a sigma1 b where e: "means (te_prog E) l sigma a sigma1" "means (te_prog E) r sigma1 b sigma'"
      "op64 oper a b = Some w" by (rule means_OpExp)
    from e(3) obtain z where z: "binary_val op (Int_val a) (Int_val b) = Some z" "extended z = Int_val w"
      "\<not> is_icmp op \<Longrightarrow> z = Int_val w" using op_binary [of oper a b w] op by auto
    have ext: "ty_of (v m) q = int64 (v m) \<longrightarrow> extended z = z"
      using q(6) z(2,3) q(3) ll_growsD(7,8) [OF q(2)] by (auto simp: view_ok_def)
    have X: "fresh (view v s) (view v s1) \<subseteq> ?X" "fresh (view v s1) (view v s2) \<subseteq> ?X" "fresh (view v s2) (v m) \<subseteq> ?X" "fresh (v m) (v m4) \<subseteq> ?X"
      using fresh_between [OF ll_grows_refl b14] fresh_between [OF b01 b24] fresh_between [OF b02 b34]
        fresh_between [OF below_trans [OF b02 b23] ll_grows_refl] by blast+
    have R: "ran L \<inter> ?X = {}" using ran_not_fresh [OF M] by blast
    from reaches_sim [OF reaches_start [OF t, of ?X] sims(1) e(1) X(1)] obtain p1 where
      "reaches M L K ?X (view v s) p rho mem sigma1 (view v s1) p1 {(x1, Int_val a)}" by auto
    from reaches_sim [OF this sims(2) e(2) X(2)] obtain p2 where
      "reaches M L K ?X (view v s) p rho mem sigma' (view v s2) p2 {(x1, Int_val a), (x2, Int_val b)}"
      using x1(2) by (auto simp: insert_commute)
    then have "reaches M L K ?X (view v s) p rho mem sigma' (v m) p2 {(q, z), (x1, Int_val a), (x2, Int_val b)}"
      by (rule reaches_yields [OF _ qv [OF gM3 order_refl] X(3) R]) (use z(1) k12 x2(2) in auto)
    then have "reaches M L K ?X (view v s) p rho mem sigma' (v m) p2 {(q, z)}" by (rule reaches_less) simp
    then have "reaches M L K ?X (view v s) p rho mem sigma' (v m4) p2 {(y, extended z), (q, z)}"
      by (rule reaches_yields [OF _ yv [OF M(1) order_refl] X(4) R]) (use ext q(5) in auto)
    with z(2) show "\<exists>p' vals. reaches M L K ?X (view v s) p rho mem sigma' (v m4) p' vals \<and> (\<forall>x. Some y = Some x \<longrightarrow> (x, Int_val w) \<in> vals)"
      by auto
  qed
  ultimately show "\<exists>t x. tr_visit E (OpExp h l oper r) s = Inr t \<and> keeps_state v (A \<union> B) s t \<and> tr_value t = Some x \<and>
      x \<in> known (view v t) \<and> ty_of (view v t) x = int64 (view v t) \<and>
      (\<forall>M L K. ll_grows UNIV (view v t) M \<longrightarrow> ran L \<subseteq> known (view v s) \<union> allocas M \<longrightarrow> (\<forall>d \<in> D \<union> (A \<union> B). loc_of t d = L d) \<longrightarrow>
        simulates M L K (view v s) (view v t) (Some x) (means (te_prog E) (OpExp h l oper r)))"
    using kt y(5,6) ll_growsD(7) [OF y(2)] by (intro exI [of _ ?t] exI [of _ y]) simp
qed


section \<open>Assignments and sequences\<close>

lemma means_AssignExp:
  assumes "means P (AssignExp h (SimpleVar k x) e) sigma w sigma'" and "ec_defs P (adr k) = Some d"
  obtains a sigma1 where "means P e sigma a sigma1" "sigma' = sigma1(d \<mapsto> a)" "w = 0"
proof -
  from assms(1) obtain n where "src P n (AssignExp h (SimpleVar k x) e) sigma = Some (w, sigma')" by (auto simp: means_def)
  then obtain m where "src_step P (src P m) (AssignExp h (SimpleVar k x) e) sigma = Some (w, sigma')" by (cases n) auto
  then obtain a sigma1 where "src P m e sigma = Some (a, sigma1)" "sigma' = sigma1(d \<mapsto> a)" "w = 0"
    using assms(2) by (auto simp: src_step_def var_def_def split: bind_splits)
  then show ?thesis by (intro that) (auto simp: means_def)
qed

text \<open>A store of a value in a variable, at the level of the translator.\<close>

lemma store_effect:
  assumes laws: "llvm_laws (te_llvm E) v" and rd: "tr_ready v s"
  obtains r m where "\<And>k. api E (Create_store x h) k s = k r (s\<lparr>tr_module := m\<rparr>)" "emits (view v s) (Create_store x h) r (v m)"
    "ll_grows (set_option (point (view v s))) (view v s) (v m)" "view_ok (v m)" "point (v m) = point (view v s)"
proof -
  from tr_readyD [OF rd] obtain b where ok: "view_ok (view v s)" and b: "point (view v s) = Some b" by blast
  obtain r m where r: "\<And>k. api E (Create_store x h) k s = k r (s\<lparr>tr_module := m\<rparr>)" "emits (view v s) (Create_store x h) r (v m)"
    using api_effect [OF laws ok, of "Create_store x h"] b by (auto simp: ll_effect_def)
  with emits_grows [OF r(2) b ok] emits_ok [OF r(2) ok] b show ?thesis by (intro that) auto
qed

lemma compiled_AssignExp:
  assumes laws: "llvm_laws (te_llvm E) v" and d: "ec_defs (te_prog E) (adr k) = Some d" "d \<in> D"
    and e: "compiled v D A True (tr_visit E e) (means (te_prog E) e)" and disj: "D \<inter> A = {}"
  shows "compiled v D A c (tr_visit E (AssignExp h (SimpleVar k x) e)) (means (te_prog E) (AssignExp h (SimpleVar k x) e))"
proof (rule compiledI)
  fix s assume rd: "tr_ready v s" and D: "D \<subseteq> dom (loc_of s)"
  obtain s1 where s1: "tr_visit E e s = Inr s1" "compiles v D A True (means (te_prog E) e) s s1"
    using compiledE [OF e rd D] .
  note k1 = compilesD(1) [OF s1(2)]
  obtain x1 where x1: "tr_value s1 = Some x1" "x1 \<in> known (view v s1)" using int_valueE [OF s1(2)] .
  obtain p where p: "loc_of s1 d = Some p" using keeps_dom [OF k1 disj D] d(2) by auto
  have a: "local_at (Some d) k s1 = k p s1" for k
    using p by (auto simp: local_at_def loc_of_def split: option.splits)
  obtain r m where r: "\<And>k. api E (Create_store x1 p) k s1 = k r (s1\<lparr>tr_module := m\<rparr>)" "emits (view v s1) (Create_store x1 p) r (v m)"
    "ll_grows (set_option (point (view v s1))) (view v s1) (v m)" "view_ok (v m)" "point (v m) = point (view v s1)"
    using store_effect [OF laws keepsD(1) [OF k1]] by blast
  have ok2: "view_ok (view v (s1\<lparr>tr_module := m\<rparr>))" using r(4) by simp
  obtain z m2 where z: "\<And>k. zero_value E k (s1\<lparr>tr_module := m\<rparr>) = k z (s1\<lparr>tr_module := m2\<rparr>)"
    "gives_constant (v m) (Int_val 0) (int64 (v m)) z (v m2)"
    using zero_value_effect [OF laws ok2] by auto
  note g = gives_constant_grows [OF z(2) r(4)]
  let ?t = "s1\<lparr>tr_module := m2, tr_value := Some z\<rparr>"
  have g12: "ll_grows (set_option (point (view v s1))) (view v s1) (v m2)"
    by (rule ll_grows_trans [OF r(3) conjunct1 [OF g]]) auto
  have kt: "keeps_state v A s ?t"
    by (rule keeps_trans [OF k1 keeps_module [OF keepsD(1) [OF k1]]]) (use g12 g r(5) in auto)
  have "tr_visit E (AssignExp h (SimpleVar k x) e) s = Inr ?t"
    by (simp add: tr_visit_cases tr_AssignExp_def translate_def s1(1) x1(1) access_var_def access_simple_def d(1) a need_def
      r(1) z(1) set_value_def)
  moreover have "simulates M L K (view v s) (v m2) (Some z) (means (te_prog E) (AssignExp h (SimpleVar k x) e))"
    if M: "ll_grows UNIV (v m2) M" "ran L \<subseteq> known (view v s) \<union> allocas M" and L: "\<forall>d \<in> D \<union> A. loc_of s1 d = L d" for M L K
  proof (rule simulates_reaches)
    fix sigma w sigma' p0 rho mem
    assume e: "means (te_prog E) (AssignExp h (SimpleVar k x) e) sigma w sigma'" and t: "tracks M L K sigma rho mem"
    let ?X = "fresh (view v s) (v m2)"
    note b01 = grows_any [OF keepsD(4) [OF k1]] and b12 = grows_any [OF r(3)] and b23 = grows_any [OF conjunct1 [OF g]]
      and b13 = grows_any [OF g12]
    from means_AssignExp [OF e d(1)] obtain a sigma1 where e: "means (te_prog E) e sigma a sigma1" "sigma' = sigma1(d \<mapsto> a)" "w = 0" .
    have sim: "simulates M L K (view v s) (view v s1) (Some x1) (means (te_prog E) e)"
      using L x1(1) by (intro compiles_sim [OF s1(2) below_trans [OF b13 M(1)] M(2)]) auto
    from reaches_sim [OF reaches_start [OF t, of ?X] sim e(1) fresh_between [OF ll_grows_refl b13]] obtain p1 where
      "reaches M L K ?X (view v s) p0 rho mem sigma1 (view v s1) p1 {(x1, Int_val a)}" by auto
    then have "reaches M L K ?X (view v s) p0 rho mem sigma' (v m) p1 {(x1, Int_val a)}"
      unfolding e(2) by (rule reaches_store [OF _ r(2) _ below_trans [OF b23 M(1)]])
        (use L d(2) p keepsD(1) [OF k1] in \<open>auto simp: tr_ready_def\<close>)
    then have "reaches M L K ?X (view v s) p0 rho mem sigma' (v m2) p1 {(z, Int_val 0), (x1, Int_val a)}"
      by (rule reaches_yields [OF _ yields_constant [OF z(2) r(4) M(1)]])
        (use fresh_between [OF below_trans [OF b01 b12] ll_grows_refl] ran_not_fresh [OF M] x1(2) ll_growsD(1) [OF r(3)] in auto)
    then show "\<exists>p' vals. reaches M L K ?X (view v s) p0 rho mem sigma' (v m2) p' vals \<and>
        (\<forall>x. Some z = Some x \<longrightarrow> (x, Int_val w) \<in> vals)"
      using e(3) by auto
  qed
  ultimately show "\<exists>t y. tr_visit E (AssignExp h (SimpleVar k x) e) s = Inr t \<and> keeps_state v A s t \<and> tr_value t = Some y \<and>
      y \<in> known (view v t) \<and> ty_of (view v t) y = int64 (view v t) \<and>
      (\<forall>M L K. ll_grows UNIV (view v t) M \<longrightarrow> ran L \<subseteq> known (view v s) \<union> allocas M \<longrightarrow> (\<forall>d \<in> D \<union> A. loc_of t d = L d) \<longrightarrow>
        simulates M L K (view v s) (view v t) (Some y) (means (te_prog E) (AssignExp h (SimpleVar k x) e)))"
    using kt g ll_growsD(7) [OF conjunct1 [OF g]] by (intro exI [of _ ?t] exI [of _ z]) simp
qed

text \<open>Code after code.\<close>

definition andthen_means ::
  "(valuation \<Rightarrow> i64 \<Rightarrow> valuation \<Rightarrow> bool) \<Rightarrow> (valuation \<Rightarrow> i64 \<Rightarrow> valuation \<Rightarrow> bool) \<Rightarrow> valuation \<Rightarrow> i64 \<Rightarrow> valuation \<Rightarrow> bool" where
  "andthen_means F G sigma w sigma' \<longleftrightarrow> (\<exists>a sigma1. F sigma a sigma1 \<and> G sigma1 w sigma')"

lemma compiles_seq:
  assumes f: "compiles v D A False F s s1" and g: "compiles v D' B b G s1 t"
    and disj: "(D \<union> A) \<inter> B = {}" and D': "D' \<subseteq> D \<union> A"
  shows "compiles v D (A \<union> B) b (andthen_means F G) s t"
  unfolding compiles_def
proof (intro conjI allI impI)
  note k1 = compilesD(1) [OF f] and k2 = compilesD(1) [OF g]
  show "keeps_state v (A \<union> B) s t" by (rule keeps_trans [OF k1 k2 order_refl])
  show "int_value v t" if b by (rule compilesD(2) [OF g that])
  fix M L K
  assume M: "part_of (view v t) M" "ran L \<subseteq> known (view v s) \<union> allocas M" and L: "\<forall>d \<in> D \<union> (A \<union> B). loc_of t d = L d"
  let ?X = "fresh (view v s) (view v t)" and ?y = "if b then tr_value t else None"
  note b01 = grows_any [OF keepsD(4) [OF k1]] and b12 = grows_any [OF keepsD(4) [OF k2]]
  have L1: "loc_of s1 d = L d" if "d \<in> D \<union> A" for d using keeps_loc [OF k2 disj, of L d] L that by blast
  have R1: "ran L \<subseteq> known (view v s1) \<union> allocas M" using M(2) known_kept [OF k1] by blast
  have s1: "simulates M L K (view v s) (view v s1) None F"
    by (rule compiles_sim [OF f below_trans [OF b12 M(1)] M(2) L1]) simp_all
  have s2: "simulates M L K (view v s1) (view v t) ?y G"
    by (rule compiles_sim [OF g M(1) R1]) (use L D' in auto)
  show "simulates M L K (view v s) (view v t) ?y (andthen_means F G)"
  proof (rule simulates_reaches)
    fix sigma w sigma' p rho mem
    assume "andthen_means F G sigma w sigma'" and t: "tracks M L K sigma rho mem"
    then obtain a sigma1 where e: "F sigma a sigma1" "G sigma1 w sigma'" by (auto simp: andthen_means_def)
    from reaches_sim [OF reaches_start [OF t, of ?X] s1 e(1) fresh_between [OF ll_grows_refl b12]] obtain p1 where
      "reaches M L K ?X (view v s) p rho mem sigma1 (view v s1) p1 {}" by auto
    from reaches_sim [OF this s2 e(2) fresh_between [OF b01 ll_grows_refl]] obtain p2 where
      "reaches M L K ?X (view v s) p rho mem sigma' (view v t) p2 {(x, Int_val w) |x. ?y = Some x}" by auto
    then show "\<exists>p' vals. reaches M L K ?X (view v s) p rho mem sigma' (view v t) p' vals \<and> (\<forall>x. ?y = Some x \<longrightarrow> (x, Int_val w) \<in> vals)"
      by blast
  qed
qed

lemma compiles_mono:
  assumes "compiles v D A b F s t" and "\<And>sigma w sigma'. G sigma w sigma' \<Longrightarrow> F sigma w sigma'" and "A \<subseteq> B"
  shows "compiles v D B b G s t"
  unfolding compiles_def
proof (intro conjI allI impI)
  show "keeps_state v B s t"
    by (rule keeps_trans [OF compilesD(1) [OF assms(1)] keeps_refl]) (use assms(3) keepsD(1) [OF compilesD(1) [OF assms(1)]] in auto)
  show "int_value v t" if b by (rule compilesD(2) [OF assms(1) that])
  fix M L K
  assume M: "part_of (view v t) M" "ran L \<subseteq> known (view v s) \<union> allocas M" "\<forall>d \<in> D \<union> B. loc_of t d = L d"
  have "simulates M L K (view v s) (view v t) (if b then tr_value t else None) F"
    by (rule compiles_sim [OF assms(1) M(1,2)]) (use M(3) assms(3) in auto)
  then show "simulates M L K (view v s) (view v t) (if b then tr_value t else None) G"
    using assms(2) unfolding simulates_def by blast
qed

lemma compiled_seq:
  assumes f: "compiled v D A False f F" and g: "compiled v D B b g G" and disj: "D \<inter> A = {}" "(D \<union> A) \<inter> B = {}"
  shows "compiled v D (A \<union> B) b (\<lambda>s. bindE (f s) g) (andthen_means F G)"
  unfolding compiled_def
proof (intro allI impI)
  fix s assume rd: "tr_ready v s" "D \<subseteq> dom (loc_of s)"
  obtain s1 where s1: "f s = Inr s1" "compiles v D A False F s s1" using compiledE [OF f rd] .
  note k1 = compilesD(1) [OF s1(2)]
  obtain t where t: "g s1 = Inr t" "compiles v D B b G s1 t"
    using compiledE [OF g keepsD(1) [OF k1] keeps_dom [OF k1 disj(1) rd(2)]] .
  from compiles_seq [OF s1(2) t(2) disj(2)] s1(1) t(1)
  show "\<exists>t. bindE (f s) g = Inr t \<and> compiles v D (A \<union> B) b (andthen_means F G) s t" by auto
qed

end
