(* ===== verification/Translator_Control.thy ===== *)
theory Translator_Control
  imports Translator_Correct
begin

text \<open>
  Conditionals, loops, declarations, and the theorem on the translation of the trees of integers and control.
\<close>

section \<open>Blocks\<close>

text \<open>A new block of the current function: it is empty, and the builder stays where it is.\<close>

lemma block_effect:
  assumes laws: "llvm_laws (te_llvm E) v" and rd: "tr_ready v s"
  obtains r m where "\<And>k. api E (Block_create n (tr_function s)) k s = k r (s\<lparr>tr_module := m\<rparr>)" "r \<notin> known (view v s)"
    "v m = (view v s)\<lparr>known := insert r (known (view v s))\<rparr>"
proof -
  obtain f where ok: "view_ok (view v s)" and f: "tr_function s = Some f" "entry_of (view v s) f \<noteq> None" using tr_readyD [OF rd] by blast
  obtain r m where r: "\<And>k. api E (Block_create n (Some f)) k s = k r (s\<lparr>tr_module := m\<rparr>)" "ll_effect (view v s) (Block_create n (Some f)) r (v m)"
    using api_effect [OF laws ok, of "Block_create n (Some f)"] by (auto simp: needs_block_def)
  moreover have "first_block (Some f) r (entry_of (view v s)) = entry_of (view v s)" using f(2) by (auto simp: first_block_def)
  ultimately show ?thesis using f(1) by (intro that) (auto simp: ll_effect_def)
qed

lemma new_block_grows:
  assumes "view_ok V" and "r \<notin> known V" and "V' = V\<lparr>known := insert r (known V)\<rparr>"
  shows "ll_grows {} V V'" "view_ok V'" "point V' = point V" "code_of V' = code_of V" "code_of V' r = []"
  using assms by (auto simp: ll_grows_def view_ok_def)

text \<open>The builder goes to another block.\<close>

lemma move_effect:
  assumes laws: "llvm_laws (te_llvm E) v" and ok: "view_ok (view v s)"
  obtains r m where "\<And>k. api E (Set_insert_point b) k s = k r (s\<lparr>tr_module := m\<rparr>)" "v m = (view v s)\<lparr>point := Some b\<rparr>"
proof -
  obtain r m where "\<And>k. api E (Set_insert_point b) k s = k r (s\<lparr>tr_module := m\<rparr>)" "ll_effect (view v s) (Set_insert_point b) r (v m)"
    using api_effect [OF laws ok, of "Set_insert_point b"] by (auto simp: needs_block_def)
  then show ?thesis by (intro that) (auto simp: ll_effect_def)
qed

lemma move_grows:
  assumes "view_ok V" and "b \<in> known V"
  shows "ll_grows {} V (V\<lparr>point := Some b\<rparr>)" "view_ok (V\<lparr>point := Some b\<rparr>)"
  using assms by (auto simp: ll_grows_def view_ok_def)

lemma emit_effect:
  assumes laws: "llvm_laws (te_llvm E) v" and rd: "tr_ready v s" and c: "\<And>r V V'. ll_effect V c r V' \<longleftrightarrow> emits V c r V'"
  obtains r m where "\<And>k. api E c k s = k r (s\<lparr>tr_module := m\<rparr>)" "emits (view v s) c r (v m)"
    "ll_grows (set_option (point (view v s))) (view v s) (v m)" "view_ok (v m)" "point (v m) = point (view v s)" "r \<in> known (v m)" "r \<notin> known (view v s)"
proof -
  from tr_readyD [OF rd] obtain b where ok: "view_ok (view v s)" and b: "point (view v s) = Some b" by blast
  obtain r m where r: "\<And>k. api E c k s = k r (s\<lparr>tr_module := m\<rparr>)" "emits (view v s) c r (v m)"
    using api_effect [OF laws ok, of c] b by (auto simp: c)
  with emits_grows [OF r(2) b ok] emits_ok [OF r(2) ok] b show ?thesis by (intro that) auto
qed

text \<open>The end of a test: a comparison with zero and a jump to one of two blocks.\<close>

lemma test_effect:
  assumes laws: "llvm_laws (te_llvm E) v" and rd: "tr_ready v s" and x: "x \<in> known (view v s)"
    and z: "gives_constant (view v s) (Int_val 0) (int64 (view v s)) z (v m1)"
  obtains r m where "\<And>k. api E (Create_binary ll_icmp_ne x z n) (\<lambda>q. api E (Create_cond_br q th el) k) (s\<lparr>tr_module := m1\<rparr>) = k r (s\<lparr>tr_module := m\<rparr>)"
    "ll_grows (set_option (point (view v s))) (view v s) (v m)" "view_ok (v m)" "point (v m) = point (view v s)"
    "\<And>M L K X V0 p rho mem sigma p1 vals a W. part_of (v m) M \<Longrightarrow> fresh (view v s) (v m) \<subseteq> X \<Longrightarrow> ran L \<inter> X = {} \<Longrightarrow>
       reaches M L K X V0 p rho mem sigma (view v s) p1 vals \<Longrightarrow> fst ` vals \<subseteq> known (view v s) \<Longrightarrow> (x, Int_val a) \<in> vals \<Longrightarrow>
       point W = Some (if a \<noteq> 0 then th else el) \<Longrightarrow> code_of W (if a \<noteq> 0 then th else el) = [] \<Longrightarrow>
       reaches M L K X V0 p rho mem sigma W (point (view v s)) vals"
proof -
  from rd have ok: "view_ok (view v s)" by (simp add: tr_ready_def)
  note g1 = gives_constant_grows [OF z ok]
  let ?s1 = "s\<lparr>tr_module := m1\<rparr>"
  have b01: "ll_grows (set_option (point (view v s))) (view v s) (v m1)" by (rule grows_mono) (use g1 in auto)
  have rd1: "tr_ready v ?s1" by (rule keepsD(1) [OF keeps_module [OF rd]]) (use b01 g1 in auto)
  have k1: "x \<in> known (view v ?s1)" "z \<in> known (view v ?s1)" using x g1 ll_growsD(1) [OF b01] by auto
  obtain q m2 where q: "\<And>k. api E (Create_binary ll_icmp_ne x z n) k ?s1 = k q (s\<lparr>tr_module := m2\<rparr>)"
    "ll_grows (set_option (point (v m1))) (v m1) (v m2)" "view_ok (v m2)" "point (v m2) = point (v m1)" "q \<in> known (v m2)"
    and qv: "\<And>M X rho mem a b z'. part_of (v m2) M \<Longrightarrow> fresh (v m1) (v m2) \<subseteq> X \<Longrightarrow> value_of M rho x = Some a \<Longrightarrow>
       value_of M rho z = Some b \<Longrightarrow> binary_val ll_icmp_ne a b = Some z' \<Longrightarrow> yields M X (v m1) (v m2) q rho mem z'"
    by (rule binary_effect [OF laws rd1 k1, of ll_icmp_ne n], rule that, simp_all)
  let ?s2 = "s\<lparr>tr_module := m2\<rparr>" and ?c = "Create_cond_br q th el"
  have b02: "ll_grows (set_option (point (view v s))) (view v s) (v m2)"
    by (rule ll_grows_trans [OF b01 q(2)]) (use g1 in auto)
  have rd2: "tr_ready v ?s2" by (rule keepsD(1) [OF keeps_module [OF rd]]) (use b02 q g1 in auto)
  obtain r m where r: "\<And>k. api E ?c k ?s2 = k r (?s2\<lparr>tr_module := m\<rparr>)" "emits (view v ?s2) ?c r (v m)"
    "ll_grows (set_option (point (view v ?s2))) (view v ?s2) (v m)" "view_ok (v m)" "point (v m) = point (view v ?s2)"
    by (rule emit_effect [OF laws rd2, of ?c], simp add: ll_effect_def, rule that)
  note r = r [unfolded view_simps]
  have b03: "ll_grows (set_option (point (view v s))) (view v s) (v m)"
    by (rule ll_grows_trans [OF b02 r(3)]) (use g1 q in auto)
  show ?thesis
  proof (rule that [of r m])
    fix M L K X V0 p rho mem sigma p1 vals a and W :: ll_view
    assume M: "part_of (v m) M" and X: "fresh (view v s) (v m) \<subseteq> X" "ran L \<inter> X = {}"
      and a: "reaches M L K X V0 p rho mem sigma (view v s) p1 vals" "fst ` vals \<subseteq> known (view v s)" "(x, Int_val a) \<in> vals"
      and W: "point W = Some (if a \<noteq> 0 then th else el)" "code_of W (if a \<noteq> 0 then th else el) = []"
    note m12 = grows_any [OF q(2)] and m23 = grows_any [OF r(3)]
    note M2 = below_trans [OF m23 M] and f = below_trans [OF m12 m23]
    from a(1) have "reaches M L K X V0 p rho mem sigma (v m1) p1 (insert (z, Int_val 0) vals)"
      by (rule reaches_yields [OF _ yields_constant [OF z ok below_trans [OF f M]] _ X(2) a(2)])
        (use fresh_between [OF ll_grows_refl f] X(1) in blast)
    then have "reaches M L K X V0 p rho mem sigma (v m2) p1 (insert (q, Bool_val (a \<noteq> 0)) (insert (z, Int_val 0) vals))"
      by (rule reaches_yields [OF _ qv [OF M2 order_refl, of _ "Int_val a" "Int_val 0"] _ X(2)])
        (use a(2,3) k1(2) X(1) ll_growsD(1) [OF b01] fresh_between [OF grows_any [OF b01] m23] in
          \<open>auto simp: binary_val_def binary_int_def split: prod.splits\<close>)
    then have "reaches M L K X V0 p rho mem sigma W (point (v m2)) (insert (q, Bool_val (a \<noteq> 0)) (insert (z, Int_val 0) vals))"
      by (rule reaches_cond_br [OF _ r(2) q(3) M _ W]) simp
    then have "reaches M L K X V0 p rho mem sigma W (point (v m2)) vals" by (rule reaches_less) blast
    then show "reaches M L K X V0 p rho mem sigma W (point (view v s)) vals" using q(4) g1 by simp
  qed (use q r g1 b03 in simp_all)
qed

text \<open>A part that is translated in a new block, which a jump ends.\<close>

lemma branch_effect:
  assumes laws: "llvm_laws (te_llvm E) v" and rd: "tr_ready v s" and bb: "bb \<in> known (view v s)" "code_of (view v s) bb = []"
    and e: "compiled v D A b (tr_visit E e) F" and D: "D \<subseteq> dom (loc_of s)"
  obtains y t c where
    "\<And>k. api E (Set_insert_point bb) (\<lambda>_. translate (tr_visit E) e (\<lambda>y. api E (Create_br d) (\<lambda>_. k y))) s = k y t"
    "tr_ready v t" "frame_kept v A s t" "ll_grows {bb} (view v s) (view v t)" "point (view v t) = Some c" "c = bb \<or> c \<notin> known (view v s)"
    "b \<Longrightarrow> \<exists>x. y = Some x \<and> x \<in> known (view v t) \<and> ty_of (view v t) x = int64 (view v t)"
    "\<And>M L K X V0 p rho mem sigma p1 w sigma' W. part_of (view v t) M \<Longrightarrow> fresh (view v s) (view v t) \<subseteq> X \<Longrightarrow>
       ran L \<subseteq> known (view v s) \<union> allocas M \<Longrightarrow> (\<forall>d \<in> D \<union> A. loc_of t d = L d) \<Longrightarrow>
       reaches M L K X V0 p rho mem sigma ((view v s)\<lparr>point := Some bb\<rparr>) p1 {} \<Longrightarrow> F sigma w sigma' \<Longrightarrow>
       point W = Some d \<Longrightarrow> code_of W d = [] \<Longrightarrow>
       reaches M L K X V0 p rho mem sigma' W (Some c) {(x, Int_val w) |x. (if b then y else None) = Some x}"
proof -
  from rd have ok: "view_ok (view v s)" by (simp add: tr_ready_def)
  obtain r m where r: "\<And>k. api E (Set_insert_point bb) k s = k r (s\<lparr>tr_module := m\<rparr>)" "v m = (view v s)\<lparr>point := Some bb\<rparr>"
    using move_effect [OF laws ok] by blast
  let ?s1 = "s\<lparr>tr_module := m\<rparr>"
  note mv = move_grows [OF ok bb(1)]
  have rd1: "tr_ready v ?s1" using rd mv by (auto simp: tr_ready_def r(2))
  obtain s2 where s2: "tr_visit E e ?s1 = Inr s2" "compiles v D A b F ?s1 s2"
    using compiledE [OF e rd1] D by auto
  note k2 = compilesD(1) [OF s2(2)]
  obtain q m3 where q: "\<And>k. api E (Create_br d) k s2 = k q (s2\<lparr>tr_module := m3\<rparr>)" "emits (view v s2) (Create_br d) q (v m3)"
    "ll_grows (set_option (point (view v s2))) (view v s2) (v m3)" "view_ok (v m3)" "point (v m3) = point (view v s2)"
    by (rule emit_effect [OF laws keepsD(1) [OF k2], of "Create_br d"], simp add: ll_effect_def, rule that)
  let ?t = "s2\<lparr>tr_module := m3\<rparr>"
  have k3: "keeps_state v A ?s1 ?t"
    by (rule keeps_trans [OF k2 keeps_module [OF keepsD(1) [OF k2], where A = "{}"]]) (use q in auto)
  obtain c where c: "point (v m3) = Some c" using keepsD(1) [OF k3] by (auto simp: tr_ready_def)
  have kn: "known (v m) = known (view v s)" by (simp add: r(2))
  have g3: "ll_grows {bb} (view v s) (v m3)"
    by (rule ll_grows_trans [OF mv(1) keepsD(4) [OF k3, unfolded view_simps r(2)]]) auto
  show ?thesis
  proof (rule that [of "tr_value s2" ?t c])
    show "\<And>k. api E (Set_insert_point bb) (\<lambda>_. translate (tr_visit E) e (\<lambda>y. api E (Create_br d) (\<lambda>_. k y))) s = k (tr_value s2) ?t"
      by (simp add: r(1) translate_def s2(1) q(1))
    show "tr_ready v ?t" by (rule keepsD(1) [OF k3])
    have "frame_kept v {} s ?s1" by (rule frame_kept_module) (use mv(1) in \<open>simp_all add: r(2)\<close>)
    from frame_kept_trans [OF this keeps_frame [OF k3]] show "frame_kept v A s ?t" by simp
    show "ll_grows {bb} (view v s) (view v ?t)" "point (view v ?t) = Some c" using g3 c by simp_all
    show "c = bb \<or> c \<notin> known (view v s)" using keepsD(5) [OF k3] c by (simp add: r(2))
    show "\<exists>x. tr_value s2 = Some x \<and> x \<in> known (view v ?t) \<and> ty_of (view v ?t) x = int64 (view v ?t)" if b
      using compilesD(2) [OF s2(2) that] ll_growsD(1,3,7) [OF q(3)] by (auto simp: int_value_def)
    fix M L K X V0 p rho mem sigma p1 w sigma' and W :: ll_view
    let ?y = "if b then tr_value s2 else None"
    assume M: "part_of (view v ?t) M" and X: "fresh (view v s) (view v ?t) \<subseteq> X"
      and L: "ran L \<subseteq> known (view v s) \<union> allocas M" "\<forall>d \<in> D \<union> A. loc_of ?t d = L d"
      and a: "reaches M L K X V0 p rho mem sigma ((view v s)\<lparr>point := Some bb\<rparr>) p1 {}" and f: "F sigma w sigma'"
      and W: "point W = Some d" "code_of W d = []"
    note m23 = grows_any [OF q(3)]
    have M2: "part_of (view v s2) M" using below_trans [OF m23] M by simp
    have sim: "simulates M L K (view v ?s1) (view v s2) ?y F"
      by (rule compiles_sim [OF s2(2) M2]) (use L kn in auto)
    have "fresh (v m) (view v s2) \<subseteq> X"
      using fresh_between [OF ll_grows_refl m23, of "v m"] X by (simp add: fresh_def kn)
    from reaches_sim [OF a [folded r(2)] sim [unfolded view_simps] f this] obtain p2 where
      "reaches M L K X V0 p rho mem sigma' (view v s2) p2 {(x, Int_val w) |x. ?y = Some x}" by auto
    then have "reaches M L K X V0 p rho mem sigma' W (point (view v s2)) {(x, Int_val w) |x. ?y = Some x}"
      by (rule reaches_br [OF _ q(2) _ M [unfolded view_simps] W]) (use keepsD(1) [OF k2] in \<open>simp add: tr_ready_def\<close>)
    then show "reaches M L K X V0 p rho mem sigma' W (Some c) {(x, Int_val w) |x. ?y = Some x}"
      using q(5) c by simp
  qed
qed


text \<open>The three blocks of a conditional or of a loop.\<close>

lemma blocks_effect:
  assumes laws: "llvm_laws (te_llvm E) v" and rd: "tr_ready v s"
  obtains a b c m where
    "\<And>k. api E (Block_create n1 (tr_function s)) (\<lambda>a. api E (Block_create n2 (tr_function s)) (\<lambda>b.
       api E (Block_create n3 (tr_function s)) (k a b))) s = k a b c (s\<lparr>tr_module := m\<rparr>)"
    "distinct [a, b, c]" "{a, b, c} \<inter> known (view v s) = {}" "{a, b, c} \<subseteq> known (v m)"
    "ll_grows {} (view v s) (v m)" "view_ok (v m)" "point (v m) = point (view v s)" "code_of (v m) = code_of (view v s)"
    "code_of (v m) a = []" "code_of (v m) b = []" "code_of (v m) c = []"
proof -
  from rd have ok: "view_ok (view v s)" by (simp add: tr_ready_def)
  obtain a m1 where a: "\<And>k. api E (Block_create n1 (tr_function s)) k s = k a (s\<lparr>tr_module := m1\<rparr>)" "a \<notin> known (view v s)"
    "v m1 = (view v s)\<lparr>known := insert a (known (view v s))\<rparr>"
    by (rule block_effect [OF laws rd, of n1], rule that)
  note ga = new_block_grows [OF ok a(2,3)]
  have rda: "tr_ready v (s\<lparr>tr_module := m1\<rparr>)"
    by (rule keepsD(1) [OF keeps_module [OF rd]]) (use ga in \<open>auto intro: grows_mono\<close>)
  obtain b m2 where b: "\<And>k. api E (Block_create n2 (tr_function s)) k (s\<lparr>tr_module := m1\<rparr>) = k b (s\<lparr>tr_module := m2\<rparr>)" "b \<notin> known (v m1)"
    "v m2 = (v m1)\<lparr>known := insert b (known (v m1))\<rparr>"
    by (rule block_effect [OF laws rda, of n2], rule that [of _ "_ :: 'a"]) auto
  note gb = new_block_grows [OF ga(2) b(2,3)]
  have rdb: "tr_ready v (s\<lparr>tr_module := m2\<rparr>)"
    by (rule keepsD(1) [OF keeps_module [OF rda]]) (use gb in \<open>auto intro: grows_mono\<close>)
  obtain c m3 where c: "\<And>k. api E (Block_create n3 (tr_function s)) k (s\<lparr>tr_module := m2\<rparr>) = k c (s\<lparr>tr_module := m3\<rparr>)" "c \<notin> known (v m2)"
    "v m3 = (v m2)\<lparr>known := insert c (known (v m2))\<rparr>"
    by (rule block_effect [OF laws rdb, of n3], rule that) auto
  note gc = new_block_grows [OF gb(2) c(2,3)]
  have gab: "ll_grows {} (view v s) (v m2)" by (rule ll_grows_trans [OF ga(1) gb(1)]) auto
  have g: "ll_grows {} (view v s) (v m3)" by (rule ll_grows_trans [OF gab gc(1)]) auto
  show ?thesis
    by (rule that [of a b c m3]) (use a b c ga gb gc g in \<open>auto simp: a(3) b(3)\<close>)
qed

text \<open>The meaning of a loop: the last test gives zero.\<close>

lemma src_WhileExp:
  assumes "src P n (WhileExp h c e) sigma = Some (w, sigma')"
  obtains m a sigma1 where "n = Suc m" "means P c sigma a sigma1" "a = 0" "w = 0" "sigma' = sigma1"
  | m a sigma1 w2 sigma2 where "n = Suc m" "means P c sigma a sigma1" "a \<noteq> 0" "means P e sigma1 w2 sigma2"
      "src P m (WhileExp h c e) sigma2 = Some (w, sigma')"
proof -
  from assms obtain m where n: "n = Suc m" "src_step P (src P m) (WhileExp h c e) sigma = Some (w, sigma')" by (cases n) auto
  then obtain a sigma1 where a: "src P m c sigma = Some (a, sigma1)"
    "(if a \<noteq> 0 then Option.bind (src P m e sigma1) (\<lambda>(_, sigma2). src P m (WhileExp h c e) sigma2) else Some (0, sigma1)) = Some (w, sigma')"
    by (auto simp: src_step_def split: bind_splits)
  have am: "means P c sigma a sigma1" using a(1) by (auto simp: means_def)
  show ?thesis
  proof (cases "a = 0")
    case True
    with a(2) n(1) am show ?thesis by (intro that(1)) auto
  next
    case False
    with a(2) obtain w2 sigma2 where "src P m e sigma1 = Some (w2, sigma2)" "src P m (WhileExp h c e) sigma2 = Some (w, sigma')"
      by (auto split: bind_splits)
    with False n(1) am show ?thesis by (intro that(2)) (auto simp: means_def)
  qed
qed

lemma frame_kept_dom: "frame_kept v A s t \<Longrightarrow> D \<inter> A = {} \<Longrightarrow> D \<subseteq> dom (loc_of s) \<Longrightarrow> D \<subseteq> dom (loc_of t)"
proof
  fix d assume "frame_kept v A s t" "D \<inter> A = {}" "D \<subseteq> dom (loc_of s)" "d \<in> D"
  then have "loc_of t d = loc_of s d" "d \<in> dom (loc_of s)" by (auto simp: frame_kept_def)
  then show "d \<in> dom (loc_of t)" by (auto simp: dom_def)
qed

lemma compiledI_no_value:
  assumes "\<And>s. tr_ready v s \<Longrightarrow> D \<subseteq> dom (loc_of s) \<Longrightarrow> \<exists>t. f s = Inr t \<and> keeps_state v A s t \<and>
      (\<forall>M L K. part_of (view v t) M \<longrightarrow> ran L \<subseteq> known (view v s) \<union> allocas M \<longrightarrow> (\<forall>d \<in> D \<union> A. loc_of t d = L d) \<longrightarrow>
        simulates M L K (view v s) (view v t) None F)"
  shows "compiled v D A False f F"
  using assms by (simp add: compiled_def compiles_def)

text \<open>Around the loop, whatever \<open>R\<close> says of the values of the variables at the test, in the body and after the loop.\<close>

lemma loop_runs:
  assumes test: "\<And>sigma a sigma1. R T sigma \<Longrightarrow> means P c sigma a sigma1 \<Longrightarrow> R (if a \<noteq> 0 then B else F) sigma1"
    and body: "\<And>sigma w sigma1. R B sigma \<Longrightarrow> means P e sigma w sigma1 \<Longrightarrow> R T sigma1"
    and w: "means P (WhileExp h c e) sigma w sigma'" and r: "R T sigma"
  shows "R F sigma'"
proof -
  have "src P n (WhileExp h c e) sigma = Some (w, sigma') \<Longrightarrow> R T sigma \<Longrightarrow> R F sigma'" for n sigma
  proof (induction n arbitrary: sigma)
    case (Suc n)
    from Suc.prems(1) show ?case
    proof (cases rule: src_WhileExp)
      case (1 m a sigma1)
      with test [OF Suc.prems(2) 1(2)] show ?thesis by simp
    next
      case (2 m a sigma1 w2 sigma2)
      with body [OF _ 2(4)] test [OF Suc.prems(2) 2(2)] have "R T sigma2" by simp
      with Suc.IH 2 show ?thesis by simp
    qed
  qed simp
  with w r show ?thesis by (auto simp: means_def)
qed

text \<open>
  The blocks of a loop and its test.  The view \<open>T\<close> is that of the empty test block, where the code of before goes, and from there
  to the body or to the end.
\<close>

lemma loop_test_effect:
  assumes laws: "llvm_laws (te_llvm E) v" and rd: "tr_ready v s" and D: "D \<subseteq> dom (loc_of s)"
    and c: "compiled v D A True (tr_visit E c) (means (te_prog E) c)"
  obtains tst bdy aft T t where
    "\<And>k. api E (Block_create ''test'' (tr_function s)) (\<lambda>test_bb. api E (Block_create ''body'' (tr_function s)) (\<lambda>body_bb.
       api E (Block_create ''afterloop'' (tr_function s)) (\<lambda>after_bb s. api E (Create_br test_bb) (\<lambda>_. api E (Set_insert_point test_bb) (\<lambda>_.
         operand (tr_visit E) c (\<lambda>x s. api E (Const_int (ll_type_of (te_llvm E) (tr_module s) x) 0) (\<lambda>z.
           api E (Create_binary ll_icmp_ne x z ''loopcond'') (\<lambda>q. api E (Create_cond_br q body_bb after_bb) (\<lambda>_. k test_bb body_bb after_bb))) s)))
         (s\<lparr>tr_loop_end := (tr_loop_end s)(h \<mapsto> after_bb)\<rparr>)))) s = k tst bdy aft t"
    "distinct [tst, bdy, aft]" "{tst, bdy, aft} \<inter> known (view v s) = {}"
    "ll_grows (set_option (point (view v s))) (view v s) T" "point T = Some tst" "code_of T tst = []" "ll_grows {tst} T (view v t)"
    "tr_ready v t" "frame_kept v A s t" "{bdy, aft} \<subseteq> known (view v t)" "code_of (view v t) bdy = []" "code_of (view v t) aft = []"
    "\<And>M L K X p rho mem sigma. part_of T M \<Longrightarrow> tracks M L K sigma rho mem \<Longrightarrow>
       reaches M L K X (view v s) p rho mem sigma T (point (view v s)) {}"
    "\<And>M L K X V0 p rho mem sigma p1 a sigma1 W. part_of (view v t) M \<Longrightarrow> fresh T (view v t) \<subseteq> X \<Longrightarrow> ran L \<inter> X = {} \<Longrightarrow>
       ran L \<subseteq> known T \<union> allocas M \<Longrightarrow> (\<forall>d \<in> D \<union> A. loc_of t d = L d) \<Longrightarrow>
       reaches M L K X V0 p rho mem sigma T p1 {} \<Longrightarrow> means (te_prog E) c sigma a sigma1 \<Longrightarrow>
       point W = Some (if a \<noteq> 0 then bdy else aft) \<Longrightarrow> code_of W (if a \<noteq> 0 then bdy else aft) = [] \<Longrightarrow>
       \<exists>q. reaches M L K X V0 p rho mem sigma1 W q {}"
proof -
  obtain b0 where b0: "point (view v s) = Some b0" "b0 \<in> known (view v s)" using tr_readyD [OF rd] by blast
  obtain tst bdy aft m1 where bl:
    "\<And>k. api E (Block_create ''test'' (tr_function s)) (\<lambda>a. api E (Block_create ''body'' (tr_function s)) (\<lambda>b.
       api E (Block_create ''afterloop'' (tr_function s)) (k a b))) s = k tst bdy aft (s\<lparr>tr_module := m1\<rparr>)"
    "distinct [tst, bdy, aft]" "{tst, bdy, aft} \<inter> known (view v s) = {}" "{tst, bdy, aft} \<subseteq> known (v m1)"
    "ll_grows {} (view v s) (v m1)" "view_ok (v m1)" "point (v m1) = point (view v s)" "code_of (v m1) = code_of (view v s)"
    "code_of (v m1) tst = []" "code_of (v m1) bdy = []" "code_of (v m1) aft = []"
    by (rule blocks_effect [OF laws rd, of "''test''" "''body''" "''afterloop''"], rule that)
  let ?s1 = "s\<lparr>tr_module := m1, tr_loop_end := (tr_loop_end s)(h \<mapsto> aft)\<rparr>"
  have rd1: "tr_ready v ?s1" by (rule keepsD(1) [OF keeps_module [OF rd]]) (use bl in \<open>auto intro: grows_mono\<close>)
  obtain r2 m2 where r2: "\<And>k. api E (Create_br tst) k ?s1 = k r2 (?s1\<lparr>tr_module := m2\<rparr>)" "emits (view v ?s1) (Create_br tst) r2 (v m2)"
    "ll_grows (set_option (point (view v ?s1))) (view v ?s1) (v m2)" "view_ok (v m2)" "point (v m2) = point (view v ?s1)"
    by (rule emit_effect [OF laws rd1, of "Create_br tst"], simp add: ll_effect_def, rule that)
  note r2 = r2 [unfolded view_simps]
  have t2: "tst \<in> known (v m2)" "bdy \<in> known (v m2)" "aft \<in> known (v m2)" using bl(4) ll_growsD(1) [OF r2(3)] by auto
  let ?s2 = "?s1\<lparr>tr_module := m2\<rparr>"
  have ok2: "view_ok (view v ?s2)" using r2(4) by simp
  obtain r3 m3 where r3: "\<And>k. api E (Set_insert_point tst) k ?s2 = k r3 (?s2\<lparr>tr_module := m3\<rparr>)" "v m3 = (view v ?s2)\<lparr>point := Some tst\<rparr>"
    using move_effect [OF laws ok2] by blast
  note r3 = r3 [unfolded view_simps]
  note mv3 = move_grows [OF r2(4) t2(1)]
  let ?s3 = "?s2\<lparr>tr_module := m3\<rparr>"
  have g12: "ll_grows {b0} (v m1) (v m2)" using r2(3) bl(7) b0 by simp
  have g13: "ll_grows {b0} (v m1) (v m3)" by (rule ll_grows_trans [OF g12 mv3(1) [folded r3(2)]]) auto
  have ne: "tst \<noteq> b0" "bdy \<noteq> b0" "aft \<noteq> b0" using bl(3) b0(2) by auto
  have e3: "code_of (v m3) tst = []" "code_of (v m3) bdy = []" "code_of (v m3) aft = []"
    using ll_growsD(6) [OF g13, of tst] ll_growsD(6) [OF g13, of bdy] ll_growsD(6) [OF g13, of aft] bl(4,9-11) ne by auto
  have rd3: "tr_ready v ?s3" using rd1 mv3 ll_growsD(13) [OF g13] by (auto simp: tr_ready_def r3(2) map_le_def dom_def)
  obtain s4 where s4: "tr_visit E c ?s3 = Inr s4" "compiles v D A True (means (te_prog E) c) ?s3 s4"
    using compiledE [OF c rd3] D by auto
  note k4 = compilesD(1) [OF s4(2)]
  obtain x where x: "tr_value s4 = Some x" "x \<in> known (view v s4)" "ty_of (view v s4) x = int64 (view v s4)"
    using int_valueE [OF s4(2)] .
  have ok4: "view_ok (view v s4)" using keepsD(1) [OF k4] by (simp add: tr_ready_def)
  obtain z m5 where z: "\<And>k. api E (Const_int (ll_type_of (te_llvm E) (tr_module s4) x) 0) k s4 = k z (s4\<lparr>tr_module := m5\<rparr>)"
    "gives_constant (view v s4) (Int_val 0) (int64 (view v s4)) z (v m5)"
    using api_effect [OF laws ok4, of "Const_int (ll_type_of (te_llvm E) (tr_module s4) x) 0"] x(3)
    by (auto simp: observations [OF laws] ll_effect_def needs_block_def view_def)
  obtain r6 m6 where r6: "\<And>k. api E (Create_binary ll_icmp_ne x z ''loopcond'') (\<lambda>q. api E (Create_cond_br q bdy aft) k) (s4\<lparr>tr_module := m5\<rparr>) =
      k r6 (s4\<lparr>tr_module := m6\<rparr>)"
    "ll_grows (set_option (point (view v s4))) (view v s4) (v m6)" "view_ok (v m6)" "point (v m6) = point (view v s4)"
    and jump: "\<And>M L K X V0 p rho mem sigma p1 vals a W. part_of (v m6) M \<Longrightarrow> fresh (view v s4) (v m6) \<subseteq> X \<Longrightarrow> ran L \<inter> X = {} \<Longrightarrow>
       reaches M L K X V0 p rho mem sigma (view v s4) p1 vals \<Longrightarrow> fst ` vals \<subseteq> known (view v s4) \<Longrightarrow> (x, Int_val a) \<in> vals \<Longrightarrow>
       point W = Some (if a \<noteq> 0 then bdy else aft) \<Longrightarrow> code_of W (if a \<noteq> 0 then bdy else aft) = [] \<Longrightarrow>
       reaches M L K X V0 p rho mem sigma W (point (view v s4)) vals"
    by (rule test_effect [OF laws keepsD(1) [OF k4] x(2) z(2), of "''loopcond''" bdy aft], rule that)
  let ?s6 = "s4\<lparr>tr_module := m6\<rparr>"
  have k6: "keeps_state v A ?s3 ?s6"
    by (rule keeps_trans [OF k4 keeps_module [OF keepsD(1) [OF k4], where A = "{}"]]) (use r6 in auto)
  have g36: "ll_grows {tst} (v m3) (v m6)" using keepsD(4) [OF k6] by (simp add: r3(2))
  have kn3: "known (v m3) = known (v m2)" by (simp add: r3(2))
  have e6: "code_of (v m6) bdy = []" "code_of (v m6) aft = []" 
    using ll_growsD(6) [OF g36, of bdy] ll_growsD(6) [OF g36, of aft] e3 t2 bl(2) kn3 by auto
  have b6: "bdy \<in> known (view v ?s6)" "aft \<in> known (view v ?s6)" using ll_growsD(1) [OF g36] t2 kn3 by auto
  have g03: "ll_grows {b0} (view v s) (v m3)" by (rule ll_grows_trans [OF bl(5) g13]) auto
  have "frame_kept v {} s ?s3" by (rule frame_kept_module) (use g03 in simp_all)
  note f6 = frame_kept_trans [OF this keeps_frame [OF k6]]
  show ?thesis
  proof (rule that [of tst bdy aft ?s6 "v m3"])
    fix M L K X p rho mem sigma
    assume M: "part_of (v m3) M" and t: "tracks M L K sigma rho mem"
    have "reaches M L K X (view v s) p rho mem sigma (v m1) p {}"
      using reaches_start [OF t, of X "view v s" p] bl(7,8) by (simp add: reaches_def runs_def at_end_def)
    then show "reaches M L K X (view v s) p rho mem sigma (v m3) (point (view v s)) {}"
      unfolding bl(7) [symmetric]
      by (rule reaches_br [OF _ r2(2) bl(6) below_trans [OF grows_any [OF mv3(1) [folded r3(2)]] M]]) (use e3(1) in \<open>simp_all add: r3(2)\<close>)
  next
    fix M L K X V0 p rho mem sigma p1 a sigma1 and W :: ll_view
    assume M: "part_of (view v ?s6) M" and X: "fresh (v m3) (view v ?s6) \<subseteq> X" "ran L \<inter> X = {}" and R: "ran L \<subseteq> known (v m3) \<union> allocas M"
      and L: "\<forall>d \<in> D \<union> A. loc_of ?s6 d = L d" and q: "reaches M L K X V0 p rho mem sigma (v m3) p1 {}"
      and f: "means (te_prog E) c sigma a sigma1"
      and W: "point W = Some (if a \<noteq> 0 then bdy else aft)" "code_of W (if a \<noteq> 0 then bdy else aft) = []"
    note b34 = grows_any [OF keepsD(4) [OF k4], unfolded view_simps] and b46 = grows_any [OF r6(2)]
    have M4: "part_of (view v s4) M" using below_trans [OF b46] M by simp
    have sim: "simulates M L K (v m3) (view v s4) (Some x) (means (te_prog E) c)"
      using compiles_sim [OF s4(2) M4, of L "Some x" K] x(1) R L by simp
    have X4: "fresh (v m3) (view v s4) \<subseteq> X" "fresh (view v s4) (v m6) \<subseteq> X"
      using fresh_between [OF ll_grows_refl b46, of "v m3"] fresh_between [OF b34 ll_grows_refl, of "v m6"] X(1) by auto
    from reaches_sim [OF q sim f X4(1)] obtain p2 where "reaches M L K X V0 p rho mem sigma1 (view v s4) p2 {(x, Int_val a)}" by auto
    then have "reaches M L K X V0 p rho mem sigma1 W (point (view v s4)) {(x, Int_val a)}"
      by (rule jump [OF M [unfolded view_simps] X4(2) X(2)]) (use x(2) W in auto)
    then show "\<exists>q. reaches M L K X V0 p rho mem sigma1 W q {}" by (blast intro: reaches_less)
  next
    show "\<And>k. api E (Block_create ''test'' (tr_function s)) (\<lambda>test_bb. api E (Block_create ''body'' (tr_function s)) (\<lambda>body_bb.
       api E (Block_create ''afterloop'' (tr_function s)) (\<lambda>after_bb s. api E (Create_br test_bb) (\<lambda>_. api E (Set_insert_point test_bb) (\<lambda>_.
         operand (tr_visit E) c (\<lambda>x s. api E (Const_int (ll_type_of (te_llvm E) (tr_module s) x) 0) (\<lambda>z.
           api E (Create_binary ll_icmp_ne x z ''loopcond'') (\<lambda>q. api E (Create_cond_br q body_bb after_bb) (\<lambda>_. k test_bb body_bb after_bb))) s)))
         (s\<lparr>tr_loop_end := (tr_loop_end s)(h \<mapsto> after_bb)\<rparr>)))) s = k tst bdy aft ?s6"
      by (simp add: bl(1) r2(1) [simplified] r3(1) [simplified] operand_def translate_def s4(1) [simplified] x(1) need_def z(1) r6(1))
  qed (use bl g03 g36 b0 e3(1) e6 b6 f6 keepsD(1) [OF k6] in \<open>simp_all add: r3(2)\<close>)
qed

lemma compiled_WhileExp:
  assumes laws: "llvm_laws (te_llvm E) v"
    and c: "compiled v D A True (tr_visit E c) (means (te_prog E) c)"
    and e: "compiled v D B False (tr_visit E e) (means (te_prog E) e)"
    and disj: "D \<inter> A = {}" "(D \<union> A) \<inter> B = {}"
  shows "compiled v D (A \<union> B) False (tr_visit E (WhileExp h c e)) (means (te_prog E) (WhileExp h c e))"
proof (rule compiledI_no_value)
  fix s assume rd: "tr_ready v s" and D: "D \<subseteq> dom (loc_of s)"
  obtain tst bdy aft T s6 where head:
    "\<And>k. api E (Block_create ''test'' (tr_function s)) (\<lambda>test_bb. api E (Block_create ''body'' (tr_function s)) (\<lambda>body_bb.
       api E (Block_create ''afterloop'' (tr_function s)) (\<lambda>after_bb s. api E (Create_br test_bb) (\<lambda>_. api E (Set_insert_point test_bb) (\<lambda>_.
         operand (tr_visit E) c (\<lambda>x s. api E (Const_int (ll_type_of (te_llvm E) (tr_module s) x) 0) (\<lambda>z.
           api E (Create_binary ll_icmp_ne x z ''loopcond'') (\<lambda>q. api E (Create_cond_br q body_bb after_bb) (\<lambda>_. k test_bb body_bb after_bb))) s)))
         (s\<lparr>tr_loop_end := (tr_loop_end s)(adr h \<mapsto> after_bb)\<rparr>)))) s = k tst bdy aft s6"
    and bl: "distinct [tst, bdy, aft]" "{tst, bdy, aft} \<inter> known (view v s) = {}"
    and T: "ll_grows (set_option (point (view v s))) (view v s) T" "point T = Some tst" "code_of T tst = []" "ll_grows {tst} T (view v s6)"
    and s6: "tr_ready v s6" "frame_kept v A s s6" "{bdy, aft} \<subseteq> known (view v s6)" "code_of (view v s6) bdy = []" "code_of (view v s6) aft = []"
    and enter: "\<And>M L K X p rho mem sigma. part_of T M \<Longrightarrow> tracks M L K sigma rho mem \<Longrightarrow>
       reaches M L K X (view v s) p rho mem sigma T (point (view v s)) {}"
    and test: "\<And>M L K X V0 p rho mem sigma p1 a sigma1 W. part_of (view v s6) M \<Longrightarrow> fresh T (view v s6) \<subseteq> X \<Longrightarrow> ran L \<inter> X = {} \<Longrightarrow>
       ran L \<subseteq> known T \<union> allocas M \<Longrightarrow> (\<forall>d \<in> D \<union> A. loc_of s6 d = L d) \<Longrightarrow>
       reaches M L K X V0 p rho mem sigma T p1 {} \<Longrightarrow> means (te_prog E) c sigma a sigma1 \<Longrightarrow>
       point W = Some (if a \<noteq> 0 then bdy else aft) \<Longrightarrow> code_of W (if a \<noteq> 0 then bdy else aft) = [] \<Longrightarrow>
       \<exists>q. reaches M L K X V0 p rho mem sigma1 W q {}"
    by (rule loop_test_effect [OF laws rd D c, of "adr h"], rule that)
  have D6: "D \<subseteq> dom (loc_of s6)"
    using frame_kept_dom [OF s6(2) disj(1) D] .
  obtain y s7 c7 where s7:
    "\<And>k. api E (Set_insert_point bdy) (\<lambda>_. translate (tr_visit E) e (\<lambda>y. api E (Create_br tst) (\<lambda>_. k y))) s6 = k y s7"
    "tr_ready v s7" "frame_kept v B s6 s7" "ll_grows {bdy} (view v s6) (view v s7)" "point (view v s7) = Some c7" "c7 = bdy \<or> c7 \<notin> known (view v s6)"
    "False \<Longrightarrow> \<exists>x. y = Some x \<and> x \<in> known (view v s7) \<and> ty_of (view v s7) x = int64 (view v s7)"
    and body: "\<And>M L K X V0 p rho mem sigma p1 w sigma' W. part_of (view v s7) M \<Longrightarrow> fresh (view v s6) (view v s7) \<subseteq> X \<Longrightarrow>
       ran L \<subseteq> known (view v s6) \<union> allocas M \<Longrightarrow> (\<forall>d \<in> D \<union> B. loc_of s7 d = L d) \<Longrightarrow>
       reaches M L K X V0 p rho mem sigma ((view v s6)\<lparr>point := Some bdy\<rparr>) p1 {} \<Longrightarrow> means (te_prog E) e sigma w sigma' \<Longrightarrow>
       point W = Some tst \<Longrightarrow> code_of W tst = [] \<Longrightarrow>
       reaches M L K X V0 p rho mem sigma' W (Some c7) {(x, Int_val w) |x. (if False then y else None) = Some x}"
    by (rule branch_effect [OF laws s6(1) _ s6(4) e D6, of tst], use s6(3) in simp, rule that)
  have ok7: "view_ok (view v s7)" using s7(2) by (simp add: tr_ready_def)
  obtain r8 m8 where r8: "\<And>k. api E (Set_insert_point aft) k s7 = k r8 (s7\<lparr>tr_module := m8\<rparr>)" "v m8 = (view v s7)\<lparr>point := Some aft\<rparr>"
    using move_effect [OF laws ok7] by blast
  have a7: "aft \<in> known (view v s7)" using ll_growsD(1) [OF s7(4)] s6(3) by auto
  note mv8 = move_grows [OF ok7 a7, folded r8(2)]
  let ?t = "s7\<lparr>tr_module := m8\<rparr>"
  have g68: "ll_grows {bdy} (view v s6) (v m8)" by (rule ll_grows_trans [OF s7(4) mv8(1)]) auto
  have e8: "code_of (v m8) aft = []" using ll_growsD(6) [OF g68, of aft] s6(3,5) bl(1) by simp
  have g38: "ll_grows {tst, bdy} T (v m8)" by (rule ll_grows_trans [OF T(4) g68]) auto
  have g08: "ll_grows (set_option (point (view v s))) (view v s) (v m8)" by (rule ll_grows_trans [OF T(1) g38]) (use bl(2) in auto)
  have "frame_kept v {} s7 ?t" by (rule frame_kept_module) (use mv8(1) in simp_all)
  from frame_kept_trans [OF s6(2) frame_kept_trans [OF s7(3) this]] have f8: "frame_kept v (A \<union> B) s ?t" by simp
  have rd8: "tr_ready v ?t" using s7(2) mv8(2) by (auto simp: tr_ready_def r8(2))
  have kt: "keeps_state v (A \<union> B) s ?t"
    by (rule keeps_stateI [OF rd8 f8]) (use g08 bl(2) in \<open>auto simp: r8(2)\<close>)
  have "tr_visit E (WhileExp h c e) s = Inr ?t"
    by (simp add: tr_visit_cases tr_WhileExp_def addr_of_def head s7(1) r8(1) skip_def)
  moreover have "simulates M L K (view v s) (v m8) None (means (te_prog E) (WhileExp h c e))"
    if M: "part_of (v m8) M" "ran L \<subseteq> known (view v s) \<union> allocas M" and L: "\<forall>d \<in> D \<union> (A \<union> B). loc_of s7 d = L d" for M L K
  proof (rule simulates_reaches)
    fix sigma w sigma' p0 rho mem
    assume w: "means (te_prog E) (WhileExp h c e) sigma w sigma'" and t: "tracks M L K sigma rho mem"
    let ?X = "fresh (view v s) (v m8)"
    note b03 = grows_any [OF T(1)] and b36 = grows_any [OF T(4)] and b68 = grows_any [OF g68] and b67 = grows_any [OF s7(4)] and b78 = grows_any [OF mv8(1)]
    note M7 = below_trans [OF b78 M(1)] and M6 = below_trans [OF b68 M(1)] and b06 = below_trans [OF b03 b36]
    note X = fresh_between [OF b03 b68] fresh_between [OF b06 b78]
    have R: "ran L \<inter> ?X = {}" using ran_not_fresh [OF M] by blast
    have known: "ran L \<subseteq> known T \<union> allocas M" "ran L \<subseteq> known (view v s6) \<union> allocas M"
      using M(2) ll_growsD(1) [OF b03] ll_growsD(1) [OF b06] by auto
    have L6: "\<forall>d \<in> D \<union> A. loc_of s6 d = L d" using s7(3) L disj by (auto simp: frame_kept_def)
    have LB: "\<forall>d \<in> D \<union> B. loc_of s7 d = L d" using L by blast
    define R where "R V sigma \<longleftrightarrow> (\<exists>p. reaches M L K ?X (view v s) p0 rho mem sigma V p {})" for V sigma
    have "R (v m8) sigma'"
    proof (rule loop_runs [where R = R and T = T and B = "(view v s6)\<lparr>point := Some bdy\<rparr>", OF _ _ w])
      fix sigma a sigma1
      assume "R T sigma" and f: "means (te_prog E) c sigma a sigma1"
      then obtain p1 where q: "reaches M L K ?X (view v s) p0 rho mem sigma T p1 {}" by (auto simp: R_def)
      show "R (if a \<noteq> 0 then (view v s6)\<lparr>point := Some bdy\<rparr> else v m8) sigma1"
        unfolding R_def by (rule test [OF M6 X(1) R known(1) L6 q f]) (use s6(4) e8 r8(2) in auto)
    next
      fix sigma w sigma1
      assume "R ((view v s6)\<lparr>point := Some bdy\<rparr>) sigma" and f: "means (te_prog E) e sigma w sigma1"
      then obtain p1 where q: "reaches M L K ?X (view v s) p0 rho mem sigma ((view v s6)\<lparr>point := Some bdy\<rparr>) p1 {}" by (auto simp: R_def)
      show "R T sigma1" unfolding R_def using body [OF M7 X(2) known(2) LB q f T(2,3)] by auto
    next
      have "part_of T M" using below_trans [OF grows_any [OF g38] M(1)] .
      from enter [OF this t] show "R T sigma" by (auto simp: R_def)
    qed
    then show "\<exists>p' vals. reaches M L K ?X (view v s) p0 rho mem sigma' (v m8) p' vals \<and> (\<forall>x. None = Some x \<longrightarrow> (x, Int_val w) \<in> vals)"
      by (auto simp: R_def)
  qed
  ultimately show "\<exists>t. tr_visit E (WhileExp h c e) s = Inr t \<and> keeps_state v (A \<union> B) s t \<and>
      (\<forall>M L K. part_of (view v t) M \<longrightarrow> ran L \<subseteq> known (view v s) \<union> allocas M \<longrightarrow> (\<forall>d \<in> D \<union> (A \<union> B). loc_of t d = L d) \<longrightarrow>
        simulates M L K (view v s) (view v t) None (means (te_prog E) (WhileExp h c e)))"
    using kt by (intro exI [of _ ?t]) simp
qed


section \<open>Conditionals\<close>

text \<open>The value of a conditional: that of the branch that was taken.\<close>

lemma phi_effect:
  assumes laws: "llvm_laws (te_llvm E) v" and rd: "tr_ready v s"
  obtains phi m where
    "\<And>k. api E (Create_phi (int64 (view v s)) n l) (\<lambda>phi. api E (Add_incoming phi x bt) (\<lambda>_. api E (Add_incoming phi y be) (\<lambda>_. k phi))) s =
       k phi (s\<lparr>tr_module := m\<rparr>)"
    "ll_grows (set_option (point (view v s))) (view v s) (v m)" "view_ok (v m)" "point (v m) = point (view v s)" "phi \<in> known (v m)"
    "ty_of (v m) phi = int64 (view v s)"
    "\<And>M L K X V0 p rho mem sigma b vals w z. part_of (v m) M \<Longrightarrow> fresh (view v s) (v m) \<subseteq> X \<Longrightarrow> ran L \<inter> X = {} \<Longrightarrow>
       reaches M L K X V0 p rho mem sigma (view v s) (Some b) vals \<Longrightarrow> b = bt \<and> z = x \<or> b = be \<and> be \<noteq> bt \<and> z = y \<Longrightarrow>
       (z, Int_val w) \<in> vals \<Longrightarrow> reaches M L K X V0 p rho mem sigma (v m) (Some b) {(phi, Int_val w)}"
proof -
  let ?c = "Create_phi (int64 (view v s)) n l"
  obtain b0 where ok: "view_ok (view v s)" and b0: "point (view v s) = Some b0" "b0 \<in> known (view v s)" using tr_readyD [OF rd] by blast
  obtain phi m1 where a: "\<And>k. api E ?c k s = k phi (s\<lparr>tr_module := m1\<rparr>)" "emits (view v s) ?c phi (v m1)"
    "ll_grows (set_option (point (view v s))) (view v s) (v m1)" "view_ok (v m1)" "point (v m1) = point (view v s)" "phi \<in> known (v m1)" "phi \<notin> known (view v s)"
    by (rule emit_effect [OF laws rd, of ?c], simp add: ll_effect_def, rule that)
  have ok1: "view_ok (view v (s\<lparr>tr_module := m1\<rparr>))" using a(4) by simp
  have inc: "incoming (v m1) phi = []" using a(2,7) ok by (auto simp: emits_def view_ok_def)
  have code1: "code_of (v m1) b0 = code_of (view v s) b0 @ [(?c, phi)]" "ty_of (v m1) phi = int64 (view v s)" "const_of (v m1) phi = None" "phi \<notin> allocas (v m1)"
    using a(2,7) b0 ok by (auto simp: emits_def result_type_def view_ok_def)
  obtain r2 m2 where b: "\<And>k. api E (Add_incoming phi x bt) k (s\<lparr>tr_module := m1\<rparr>) = k r2 (s\<lparr>tr_module := m2\<rparr>)"
    "v m2 = (v m1)\<lparr>incoming := (incoming (v m1))(phi := [(x, bt)])\<rparr>"
    using api_effect [OF laws ok1, of "Add_incoming phi x bt"] inc by (auto simp: needs_block_def ll_effect_def)
  have ok2: "view_ok (view v (s\<lparr>tr_module := m2\<rparr>))" using a(4,6) by (auto simp: b(2) view_ok_def)
  obtain r3 m where c: "\<And>k. api E (Add_incoming phi y be) k (s\<lparr>tr_module := m2\<rparr>) = k r3 (s\<lparr>tr_module := m\<rparr>)"
    "v m = (v m1)\<lparr>incoming := (incoming (v m1))(phi := [(x, bt), (y, be)])\<rparr>"
    using api_effect [OF laws ok2, of "Add_incoming phi y be"] by (auto simp: needs_block_def ll_effect_def b(2))
  have kn: "known (v m) = known (v m1)" "code_of (v m) = code_of (v m1)" "point (v m) = Some b0" "const_of (v m) = const_of (v m1)"
    using a(5) b0 by (simp_all add: c(2))
  have g: "ll_grows {b0} (view v s) (v m)" using a(3,7) b0(1) by (auto simp: c(2) ll_grows_def)
  show ?thesis
  proof (rule that [of phi m])
    show "view_ok (v m)" using a(4,6) by (auto simp: c(2) view_ok_def)
    show "ll_grows (set_option (point (view v s))) (view v s) (v m)" using g b0 by simp
    fix M L K X V0 p rho mem sigma b vals w z
    assume M: "part_of (v m) M" and X: "fresh (view v s) (v m) \<subseteq> X" "ran L \<inter> X = {}"
      and r: "reaches M L K X V0 p rho mem sigma (view v s) (Some b) vals"
      and z: "b = bt \<and> z = x \<or> b = be \<and> be \<noteq> bt \<and> z = y" "(z, Int_val w) \<in> vals"
    from r obtain rho1 mem1 where r1: "runs M X V0 p rho mem (view v s) (Some b) rho1 mem1" "tracks M L K sigma rho1 mem1"
      "\<forall>(x, z) \<in> vals. value_of M rho1 x = Some z" "\<forall>c. c \<notin> K ` dom L \<longrightarrow> mem1 c = mem c"
      unfolding reaches_def by blast
    let ?rho = "rho1(phi \<mapsto> Int_val w)"
    have "incoming M phi = [(x, bt), (y, be)]" "const_of M phi = None"
      using ll_growsD(2,4) [OF M, of phi] a(6) code1(3) kn by (simp_all add: c(2))
    moreover have "value_of M rho1 z = Some (Int_val w)" using r1(3) z(2) by auto
    ultimately have "computes M (Some b) rho1 mem1 (?c, phi) = Some (Int_val w)"
      using z(1) by (auto simp: computes_def)
    moreover obtain rest where "code_of M b0 = code_of (v m) b0 @ rest" using ll_growsD(5) [OF M, of b0] b0 kn ll_growsD(1) [OF g] by auto
    ultimately have "ll_step M (at_end (view v s) (Some b) rho1 mem1) = Some (at_end (v m) (Some b) ?rho mem1)"
      using b0 kn code1(1) by (simp add: ll_step_def at_end_def ll_execute_def nth_append)
    moreover have "phi \<in> X" using X(1) a(6,7) code1(4) kn by (auto simp: fresh_def c(2))
    ultimately have st: "runs M X (view v s) (Some b) rho1 mem1 (v m) (Some b) ?rho mem1"
      by (auto simp: runs_def intro: ll_steps_one)
    have "value_of M ?rho phi = Some (Int_val w)" using \<open>const_of M phi = None\<close> by (simp add: value_of_def)
    with st r1 tracks_runs [OF r1(2) st X(2)] show "reaches M L K X V0 p rho mem sigma (v m) (Some b) {(phi, Int_val w)}"
      unfolding reaches_def by (intro exI [of _ ?rho] exI [of _ mem1]) (auto intro: runs_trans)
  qed (use a b c kn code1 b0 in simp_all)
qed

lemma means_IfExp:
  assumes "means P (IfExp h c e f) sigma w sigma'"
  obtains a sigma1 where "means P c sigma a sigma1" "a \<noteq> 0" "means P e sigma1 w sigma'"
  | a sigma1 where "means P c sigma a sigma1" "a = 0" "means P f sigma1 w sigma'"
proof -
  from assms obtain n where "src P n (IfExp h c e f) sigma = Some (w, sigma')" by (auto simp: means_def)
  then obtain m where "src_step P (src P m) (IfExp h c e f) sigma = Some (w, sigma')" by (cases n) auto
  then obtain a sigma1 where a: "src P m c sigma = Some (a, sigma1)"
    "(if a \<noteq> 0 then src P m e sigma1 else src P m f sigma1) = Some (w, sigma')"
    by (auto simp: src_step_def split: bind_splits)
  have am: "means P c sigma a sigma1" using a(1) by (auto simp: means_def)
  show ?thesis
  proof (cases "a = 0")
    case True
    with a(2) show ?thesis by (intro that(2) [OF am]) (auto simp: means_def)
  next
    case False
    with a(2) show ?thesis by (intro that(1) [OF am]) (auto simp: means_def)
  qed
qed

lemma need_Some: "need (Some a) k = k a"
  by (rule ext) (simp add: need_def)

text \<open>The end of a conditional, with or without a value.\<close>

lemma if_value_effect:
  assumes laws: "llvm_laws (te_llvm E) v" and rd: "tr_ready v s" and i: "int_node E e" and n: "2 \<le> te_fuel E" and b: "has_value E e = Inr b"
    and x: "b \<Longrightarrow> x = Some xv" and y: "b \<Longrightarrow> y = Some yv"
  obtains t where "tr_if_value E e x (Some bt) y (Some be) s = Inr t" "keeps_state v {} s t" "b \<Longrightarrow> int_value v t"
    "\<And>M L K X V0 p rho mem sigma c vals w z. part_of (view v t) M \<Longrightarrow> fresh (view v s) (view v t) \<subseteq> X \<Longrightarrow> ran L \<inter> X = {} \<Longrightarrow>
       reaches M L K X V0 p rho mem sigma (view v s) (Some c) vals \<Longrightarrow> c = bt \<and> z = xv \<or> c = be \<and> be \<noteq> bt \<and> z = yv \<Longrightarrow>
       (b \<longrightarrow> (z, Int_val w) \<in> vals) \<Longrightarrow>
       \<exists>vals'. reaches M L K X V0 p rho mem sigma (view v t) (Some c) vals' \<and> (b \<longrightarrow> (\<exists>r. tr_value t = Some r \<and> (r, Int_val w) \<in> vals'))"
proof -
  from i obtain ty where ty: "node_type E e = Some ty" "int_like E ty" by (auto simp: int_node_def split: option.splits)
  obtain m q where m: "\<And>k. llvm_type E ty k s = k (int64 (view v s)) (s\<lparr>tr_module := m, tr_type := q\<rparr>)" "v m = view v s"
    using llvm_type_int [OF laws rd ty(2) n] by blast
  let ?s = "s\<lparr>tr_module := m, tr_type := q\<rparr>"
  from b ty(1) have neq: "ty_neq (ec_store (te_prog E)) ty Void_instance = Inr b" by (simp add: has_value_def deref_ty_def)
  have ok: "view_ok (view v s)" using rd by (simp add: tr_ready_def)
  have ks: "keeps_state v {} s ?s" by (rule keeps_module [OF rd]) (use m ok in \<open>simp_all add: ll_grows_refl\<close>)
  show ?thesis
  proof (cases b)
    case False
    show ?thesis
    proof (rule that [of ?s])
      show "tr_if_value E e x (Some bt) y (Some be) s = Inr ?s" by (simp add: tr_if_value_def ty(1) need_def m(1) neq False)
      show "\<exists>vals'. reaches M L K X V0 p rho mem sigma (view v ?s) (Some c) vals' \<and> (b \<longrightarrow> (\<exists>r. tr_value ?s = Some r \<and> (r, Int_val w) \<in> vals'))"
        if "reaches M L K X V0 p rho mem sigma (view v s) (Some c) vals" for M L K X V0 p rho mem sigma c vals w
        using that False m(2) by (simp add: exI)
    qed (use ks False in simp_all)
  next
    case True
    have rds: "tr_ready v ?s" by (rule keepsD(1) [OF ks])
    obtain phi m' where phi:
      "\<And>k. api E (Create_phi (int64 (view v ?s)) 2 ''iftmp'') (\<lambda>phi. api E (Add_incoming phi xv bt) (\<lambda>_. api E (Add_incoming phi yv be) (\<lambda>_. k phi))) ?s =
         k phi (?s\<lparr>tr_module := m'\<rparr>)"
      "ll_grows (set_option (point (view v ?s))) (view v ?s) (v m')" "view_ok (v m')" "point (v m') = point (view v ?s)" "phi \<in> known (v m')"
      "ty_of (v m') phi = int64 (view v ?s)"
      and val: "\<And>M L K X V0 p rho mem sigma b vals w z. part_of (v m') M \<Longrightarrow> fresh (view v ?s) (v m') \<subseteq> X \<Longrightarrow> ran L \<inter> X = {} \<Longrightarrow>
         reaches M L K X V0 p rho mem sigma (view v ?s) (Some b) vals \<Longrightarrow> b = bt \<and> z = xv \<or> b = be \<and> be \<noteq> bt \<and> z = yv \<Longrightarrow>
         (z, Int_val w) \<in> vals \<Longrightarrow> reaches M L K X V0 p rho mem sigma (v m') (Some b) {(phi, Int_val w)}"
      by (rule phi_effect [OF laws rds, of 2 "''iftmp''" xv bt yv be], rule that)
    note phi = phi [unfolded view_simps m(2)] and val = val [unfolded view_simps m(2)]
    let ?t = "s\<lparr>tr_type := q, tr_module := m', tr_value := Some phi\<rparr>"
    show ?thesis
    proof (rule that [of ?t])
      show "tr_if_value E e x (Some bt) y (Some be) s = Inr ?t"
        using phi(1) [simplified] by (simp add: tr_if_value_def ty(1) need_Some m(1) neq True x y set_value_def)
      show "keeps_state v {} s ?t" by (rule keeps_module [OF rd]) (use phi in simp_all)
      show "int_value v ?t" using phi(5,6) ll_growsD(7) [OF phi(2)] by (simp add: int_value_def)
      fix M L K X V0 p rho mem sigma c vals w z
      assume "part_of (view v ?t) M" "fresh (view v s) (view v ?t) \<subseteq> X" "ran L \<inter> X = {}"
        "reaches M L K X V0 p rho mem sigma (view v s) (Some c) vals" "c = bt \<and> z = xv \<or> c = be \<and> be \<noteq> bt \<and> z = yv"
        "b \<longrightarrow> (z, Int_val w) \<in> vals"
      with True val [of M X L K V0 p rho mem sigma c vals z w]
      show "\<exists>vals'. reaches M L K X V0 p rho mem sigma (view v ?t) (Some c) vals' \<and> (b \<longrightarrow> (\<exists>r. tr_value ?t = Some r \<and> (r, Int_val w) \<in> vals'))"
        by (intro exI [of _ "{(phi, Int_val w)}"]) simp
    qed
  qed
qed


text \<open>The blocks of a conditional and its test, up to the jump to one of its parts.\<close>

lemma if_test_effect:
  assumes laws: "llvm_laws (te_llvm E) v" and rd: "tr_ready v s" and D: "D \<subseteq> dom (loc_of s)"
    and c1: "compiled v D A True (tr_visit E e1) (means (te_prog E) e1)"
  obtains thn els mrg t where
    "\<And>k. api E (Block_create ''then'' (tr_function s)) (\<lambda>then_bb. api E (Block_create ''else'' (tr_function s)) (\<lambda>else_bb.
       api E (Block_create ''ifcont'' (tr_function s)) (\<lambda>merge_bb. translate (tr_visit E) e1 (\<lambda>c. zero_value E (\<lambda>zero. need c (\<lambda>cv.
         api E (Create_binary ll_icmp_ne cv zero ''condition'') (\<lambda>q. api E (Create_cond_br q then_bb else_bb) (\<lambda>_. k then_bb else_bb merge_bb)))))))) s = k thn els mrg t"
    "distinct [thn, els, mrg]" "{thn, els, mrg} \<inter> known (view v s) = {}" "{thn, els, mrg} \<subseteq> known (view v t)"
    "code_of (view v t) thn = []" "code_of (view v t) els = []" "code_of (view v t) mrg = []" "keeps_state v A s t"
    "\<And>M L K X p rho mem sigma a sigma1 W. part_of (view v t) M \<Longrightarrow> fresh (view v s) (view v t) \<subseteq> X \<Longrightarrow> ran L \<inter> X = {} \<Longrightarrow>
       ran L \<subseteq> known (view v s) \<union> allocas M \<Longrightarrow> (\<forall>d \<in> D \<union> A. loc_of t d = L d) \<Longrightarrow> tracks M L K sigma rho mem \<Longrightarrow>
       means (te_prog E) e1 sigma a sigma1 \<Longrightarrow> point W = Some (if a \<noteq> 0 then thn else els) \<Longrightarrow>
       code_of W (if a \<noteq> 0 then thn else els) = [] \<Longrightarrow> \<exists>q. reaches M L K X (view v s) p rho mem sigma1 W q {}"
proof -
  obtain b0 where b0: "point (view v s) = Some b0" "b0 \<in> known (view v s)" using tr_readyD [OF rd] by blast
  obtain thn els mrg m1 where bl:
    "\<And>k. api E (Block_create ''then'' (tr_function s)) (\<lambda>a. api E (Block_create ''else'' (tr_function s)) (\<lambda>b.
       api E (Block_create ''ifcont'' (tr_function s)) (k a b))) s = k thn els mrg (s\<lparr>tr_module := m1\<rparr>)"
    "distinct [thn, els, mrg]" "{thn, els, mrg} \<inter> known (view v s) = {}" "{thn, els, mrg} \<subseteq> known (v m1)"
    "ll_grows {} (view v s) (v m1)" "view_ok (v m1)" "point (v m1) = point (view v s)" "code_of (v m1) = code_of (view v s)"
    "code_of (v m1) thn = []" "code_of (v m1) els = []" "code_of (v m1) mrg = []"
    by (rule blocks_effect [OF laws rd, of "''then''" "''else''" "''ifcont''"], rule that)
  let ?s1 = "s\<lparr>tr_module := m1\<rparr>"
  have k1: "keeps_state v {} s ?s1" by (rule keeps_module [OF rd]) (use bl in \<open>auto intro: grows_mono\<close>)
  obtain s2 where s2: "tr_visit E e1 ?s1 = Inr s2" "compiles v D A True (means (te_prog E) e1) ?s1 s2"
    using compiledE [OF c1 keepsD(1) [OF k1]] D by auto
  note k2 = compilesD(1) [OF s2(2)]
  obtain x where x: "tr_value s2 = Some x" "x \<in> known (view v s2)" using int_valueE [OF s2(2)] .
  have ok2: "view_ok (view v s2)" using keepsD(1) [OF k2] by (simp add: tr_ready_def)
  obtain z m3 where z: "\<And>k. zero_value E k s2 = k z (s2\<lparr>tr_module := m3\<rparr>)"
    "gives_constant (view v s2) (Int_val 0) (int64 (view v s2)) z (v m3)"
    by (rule zero_value_effect [OF laws ok2], rule that)
  obtain r4 m4 where r4: "\<And>k. api E (Create_binary ll_icmp_ne x z ''condition'') (\<lambda>q. api E (Create_cond_br q thn els) k) (s2\<lparr>tr_module := m3\<rparr>) =
      k r4 (s2\<lparr>tr_module := m4\<rparr>)"
    "ll_grows (set_option (point (view v s2))) (view v s2) (v m4)" "view_ok (v m4)" "point (v m4) = point (view v s2)"
    and jump: "\<And>M L K X V0 p rho mem sigma p1 vals a W. part_of (v m4) M \<Longrightarrow> fresh (view v s2) (v m4) \<subseteq> X \<Longrightarrow> ran L \<inter> X = {} \<Longrightarrow>
       reaches M L K X V0 p rho mem sigma (view v s2) p1 vals \<Longrightarrow> fst ` vals \<subseteq> known (view v s2) \<Longrightarrow> (x, Int_val a) \<in> vals \<Longrightarrow>
       point W = Some (if a \<noteq> 0 then thn else els) \<Longrightarrow> code_of W (if a \<noteq> 0 then thn else els) = [] \<Longrightarrow>
       reaches M L K X V0 p rho mem sigma W (point (view v s2)) vals"
    by (rule test_effect [OF laws keepsD(1) [OF k2] x(2) z(2), of "''condition''" thn els], rule that)
  let ?s4 = "s2\<lparr>tr_module := m4\<rparr>"
  have k4: "keeps_state v A ?s1 ?s4"
    by (rule keeps_trans [OF k2 keeps_module [OF keepsD(1) [OF k2], where A = "{}"]]) (use r4 in auto)
  have g14: "ll_grows {b0} (v m1) (v m4)" using keepsD(4) [OF k4] bl(7) b0 by simp
  have ne: "thn \<noteq> b0" "els \<noteq> b0" "mrg \<noteq> b0" using bl(3) b0(2) by auto
  have e4: "code_of (v m4) thn = []" "code_of (v m4) els = []" "code_of (v m4) mrg = []"
    using ll_growsD(6) [OF g14, of thn] ll_growsD(6) [OF g14, of els] ll_growsD(6) [OF g14, of mrg] bl(4,9-11) ne by auto
  have kn4: "thn \<in> known (view v ?s4)" "els \<in> known (view v ?s4)" "mrg \<in> known (view v ?s4)" using ll_growsD(1) [OF g14] bl(4) by auto
  show ?thesis
  proof (rule that [of thn els mrg ?s4])
    show "\<And>k. api E (Block_create ''then'' (tr_function s)) (\<lambda>then_bb. api E (Block_create ''else'' (tr_function s)) (\<lambda>else_bb.
       api E (Block_create ''ifcont'' (tr_function s)) (\<lambda>merge_bb. translate (tr_visit E) e1 (\<lambda>c. zero_value E (\<lambda>zero. need c (\<lambda>cv.
         api E (Create_binary ll_icmp_ne cv zero ''condition'') (\<lambda>q. api E (Create_cond_br q then_bb else_bb) (\<lambda>_. k then_bb else_bb merge_bb)))))))) s = k thn els mrg ?s4"
      by (simp add: bl(1) translate_def [of _ _ _ "?s1"] s2(1) x(1) z(1) need_Some r4(1))
    show "keeps_state v A s ?s4" by (rule keeps_trans [OF k1 k4]) simp
    fix M L K X p rho mem sigma a sigma1 and W :: ll_view
    assume M: "part_of (view v ?s4) M" and X: "fresh (view v s) (view v ?s4) \<subseteq> X" "ran L \<inter> X = {}"
      and R: "ran L \<subseteq> known (view v s) \<union> allocas M" and L: "\<forall>d \<in> D \<union> A. loc_of ?s4 d = L d" and tr: "tracks M L K sigma rho mem"
      and f: "means (te_prog E) e1 sigma a sigma1" and W: "point W = Some (if a \<noteq> 0 then thn else els)" "code_of W (if a \<noteq> 0 then thn else els) = []"
    note b01 = grows_any [OF bl(5)] and b12 = grows_any [OF keepsD(4) [OF k2], unfolded view_simps] and b24 = grows_any [OF r4(2)]
    have M2: "part_of (view v s2) M" using below_trans [OF b24] M by simp
    have sim: "simulates M L K (v m1) (view v s2) (Some x) (means (te_prog E) e1)"
      using compiles_sim [OF s2(2) M2, of L "Some x" K] x(1) L R ll_growsD(1) [OF b01] by auto
    have X2: "fresh (v m1) (view v s2) \<subseteq> X" "fresh (view v s2) (v m4) \<subseteq> X"
      using fresh_between [OF b01 b24] fresh_between [OF below_trans [OF b01 b12] ll_grows_refl, of "v m4"] X(1) by auto
    have "reaches M L K X (view v s) p rho mem sigma (v m1) p {}"
      using reaches_start [OF tr, of X "view v s" p] bl(7,8) by (simp add: reaches_def runs_def at_end_def)
    from reaches_sim [OF this sim f X2(1)] obtain p2 where "reaches M L K X (view v s) p rho mem sigma1 (view v s2) p2 {(x, Int_val a)}" by auto
    then have "reaches M L K X (view v s) p rho mem sigma1 W (point (view v s2)) {(x, Int_val a)}"
      by (rule jump [OF M [unfolded view_simps] X2(2) X(2)]) (use x(2) W in auto)
    then show "\<exists>q. reaches M L K X (view v s) p rho mem sigma1 W q {}" by (blast intro: reaches_less)
  qed (use bl(2,3) kn4 e4 in simp_all)
qed

lemma compiled_IfExp:
  assumes laws: "llvm_laws (te_llvm E) v" and i: "int_node E (IfExp h e1 e2 e3)" and n: "2 \<le> te_fuel E"
    and b: "has_value E (IfExp h e1 e2 e3) = Inr b"
    and c1: "compiled v D A True (tr_visit E e1) (means (te_prog E) e1)"
    and c2: "compiled v D B b (tr_visit E e2) (means (te_prog E) e2)"
    and c3: "compiled v D C b (tr_visit E e3) (means (te_prog E) e3)"
    and disj: "D \<inter> A = {}" "(D \<union> A) \<inter> B = {}" "(D \<union> A \<union> B) \<inter> C = {}"
  shows "compiled v D (A \<union> B \<union> C) b (tr_visit E (IfExp h e1 e2 e3)) (means (te_prog E) (IfExp h e1 e2 e3))"
  unfolding compiled_def
proof (intro allI impI)
  fix s assume rd: "tr_ready v s" and D: "D \<subseteq> dom (loc_of s)"
  obtain thn els mrg s4 where head:
    "\<And>k. api E (Block_create ''then'' (tr_function s)) (\<lambda>then_bb. api E (Block_create ''else'' (tr_function s)) (\<lambda>else_bb.
       api E (Block_create ''ifcont'' (tr_function s)) (\<lambda>merge_bb. translate (tr_visit E) e1 (\<lambda>c. zero_value E (\<lambda>zero. need c (\<lambda>cv.
         api E (Create_binary ll_icmp_ne cv zero ''condition'') (\<lambda>q. api E (Create_cond_br q then_bb else_bb) (\<lambda>_. k then_bb else_bb merge_bb)))))))) s = k thn els mrg s4"
    and bl: "distinct [thn, els, mrg]" "{thn, els, mrg} \<inter> known (view v s) = {}" "{thn, els, mrg} \<subseteq> known (view v s4)"
    and e4: "code_of (view v s4) thn = []" "code_of (view v s4) els = []" "code_of (view v s4) mrg = []" and k4: "keeps_state v A s s4"
    and test: "\<And>M L K X p rho mem sigma a sigma1 W. part_of (view v s4) M \<Longrightarrow> fresh (view v s) (view v s4) \<subseteq> X \<Longrightarrow> ran L \<inter> X = {} \<Longrightarrow>
       ran L \<subseteq> known (view v s) \<union> allocas M \<Longrightarrow> (\<forall>d \<in> D \<union> A. loc_of s4 d = L d) \<Longrightarrow> tracks M L K sigma rho mem \<Longrightarrow>
       means (te_prog E) e1 sigma a sigma1 \<Longrightarrow> point W = Some (if a \<noteq> 0 then thn else els) \<Longrightarrow>
       code_of W (if a \<noteq> 0 then thn else els) = [] \<Longrightarrow> \<exists>q. reaches M L K X (view v s) p rho mem sigma1 W q {}"
    by (rule if_test_effect [OF laws rd D c1], rule that)
  note kn4 = bl(3)
  have D4: "D \<subseteq> dom (loc_of s4)" by (rule keeps_dom [OF k4 disj(1) D])
  obtain y5 s5 c5 where s5:
    "\<And>k. api E (Set_insert_point thn) (\<lambda>_. translate (tr_visit E) e2 (\<lambda>y. api E (Create_br mrg) (\<lambda>_. k y))) s4 = k y5 s5"
    "tr_ready v s5" "frame_kept v B s4 s5" "ll_grows {thn} (view v s4) (view v s5)" "point (view v s5) = Some c5" "c5 = thn \<or> c5 \<notin> known (view v s4)"
    "b \<Longrightarrow> \<exists>x. y5 = Some x \<and> x \<in> known (view v s5) \<and> ty_of (view v s5) x = int64 (view v s5)"
    and then_run: "\<And>M L K X V0 p rho mem sigma p1 w sigma' W. part_of (view v s5) M \<Longrightarrow> fresh (view v s4) (view v s5) \<subseteq> X \<Longrightarrow>
       ran L \<subseteq> known (view v s4) \<union> allocas M \<Longrightarrow> (\<forall>d \<in> D \<union> B. loc_of s5 d = L d) \<Longrightarrow>
       reaches M L K X V0 p rho mem sigma ((view v s4)\<lparr>point := Some thn\<rparr>) p1 {} \<Longrightarrow> means (te_prog E) e2 sigma w sigma' \<Longrightarrow>
       point W = Some mrg \<Longrightarrow> code_of W mrg = [] \<Longrightarrow>
       reaches M L K X V0 p rho mem sigma' W (Some c5) {(x, Int_val w) |x. (if b then y5 else None) = Some x}"
    by (rule branch_effect [OF laws keepsD(1) [OF k4] _ e4(1) c2 D4, of mrg], use kn4 in simp, rule that)
  have e5: "code_of (view v s5) els = []" "code_of (view v s5) mrg = []"
    using ll_growsD(6) [OF s5(4), of els] ll_growsD(6) [OF s5(4), of mrg] e4 kn4 bl(1) by auto
  have kn5: "els \<in> known (view v s5)" "mrg \<in> known (view v s5)" "c5 \<in> known (view v s5)"
    using ll_growsD(1) [OF s5(4)] kn4 s5(2,5) by (auto simp: tr_ready_def view_ok_def)
  have D5: "D \<subseteq> dom (loc_of s5)"
  proof
    fix d assume "d \<in> D"
    then have "loc_of s5 d = loc_of s4 d" "d \<in> dom (loc_of s4)" using s5(3) disj(2) D4 by (auto simp: frame_kept_def)
    then show "d \<in> dom (loc_of s5)" by auto
  qed
  obtain y6 s6 c6 where s6:
    "\<And>k. api E (Set_insert_point els) (\<lambda>_. translate (tr_visit E) e3 (\<lambda>y. api E (Create_br mrg) (\<lambda>_. k y))) s5 = k y6 s6"
    "tr_ready v s6" "frame_kept v C s5 s6" "ll_grows {els} (view v s5) (view v s6)" "point (view v s6) = Some c6" "c6 = els \<or> c6 \<notin> known (view v s5)"
    "b \<Longrightarrow> \<exists>x. y6 = Some x \<and> x \<in> known (view v s6) \<and> ty_of (view v s6) x = int64 (view v s6)"
    and else_run: "\<And>M L K X V0 p rho mem sigma p1 w sigma' W. part_of (view v s6) M \<Longrightarrow> fresh (view v s5) (view v s6) \<subseteq> X \<Longrightarrow>
       ran L \<subseteq> known (view v s5) \<union> allocas M \<Longrightarrow> (\<forall>d \<in> D \<union> C. loc_of s6 d = L d) \<Longrightarrow>
       reaches M L K X V0 p rho mem sigma ((view v s5)\<lparr>point := Some els\<rparr>) p1 {} \<Longrightarrow> means (te_prog E) e3 sigma w sigma' \<Longrightarrow>
       point W = Some mrg \<Longrightarrow> code_of W mrg = [] \<Longrightarrow>
       reaches M L K X V0 p rho mem sigma' W (Some c6) {(x, Int_val w) |x. (if b then y6 else None) = Some x}"
    by (rule branch_effect [OF laws s5(2) kn5(1) e5(1) c3 D5, of mrg], rule that)
  have ok6: "view_ok (view v s6)" using s6(2) by (simp add: tr_ready_def)
  have mrg6: "code_of (view v s6) mrg = []" "mrg \<in> known (view v s6)"
    using ll_growsD(6) [OF s6(4), of mrg] ll_growsD(1) [OF s6(4)] e5 kn5 bl(1) by auto
  obtain r7 m7 where r7: "\<And>k. api E (Set_insert_point mrg) k s6 = k r7 (s6\<lparr>tr_module := m7\<rparr>)" "v m7 = (view v s6)\<lparr>point := Some mrg\<rparr>"
    using move_effect [OF laws ok6] by blast
  note mv7 = move_grows [OF ok6 mrg6(2)]
  let ?s7 = "s6\<lparr>tr_module := m7\<rparr>"
  have rd7: "tr_ready v ?s7" using s6(2) mv7(2) by (auto simp: tr_ready_def r7(2))
  obtain xv yv where xy: "b \<Longrightarrow> y5 = Some xv" "b \<Longrightarrow> y6 = Some yv" using s5(7) s6(7) by (cases b) auto
  obtain t where t: "tr_if_value E (IfExp h e1 e2 e3) y5 (Some c5) y6 (Some c6) ?s7 = Inr t" "keeps_state v {} ?s7 t" "b \<Longrightarrow> int_value v t"
    and merge: "\<And>M L K X V0 p rho mem sigma c vals w z. part_of (view v t) M \<Longrightarrow> fresh (view v ?s7) (view v t) \<subseteq> X \<Longrightarrow> ran L \<inter> X = {} \<Longrightarrow>
       reaches M L K X V0 p rho mem sigma (view v ?s7) (Some c) vals \<Longrightarrow> c = c5 \<and> z = xv \<or> c = c6 \<and> c6 \<noteq> c5 \<and> z = yv \<Longrightarrow>
       (b \<longrightarrow> (z, Int_val w) \<in> vals) \<Longrightarrow>
       \<exists>vals'. reaches M L K X V0 p rho mem sigma (view v t) (Some c) vals' \<and> (b \<longrightarrow> (\<exists>r. tr_value t = Some r \<and> (r, Int_val w) \<in> vals'))"
    by (rule if_value_effect [OF laws rd7 i n b xy], assumption, assumption, rule that)
  have g7: "ll_grows {mrg} (view v ?s7) (view v t)" using keepsD(4) [OF t(2)] by (simp add: r7(2))
  have g57: "ll_grows {els} (view v s5) (view v ?s7)" by (rule ll_grows_trans [OF s6(4)]) (use mv7(1) r7(2) in auto)
  have g47: "ll_grows {thn, els} (view v s4) (view v ?s7)" by (rule ll_grows_trans [OF s5(4) g57]) auto
  have g4t: "ll_grows {thn, els, mrg} (view v s4) (view v t)" by (rule ll_grows_trans [OF g47 g7]) auto
  note g04 = keepsD(4) [OF k4]
  have g0t: "ll_grows (set_option (point (view v s))) (view v s) (view v t)" by (rule ll_grows_trans [OF g04 g4t]) (use bl(2) in auto)
  have pt: "point (view v t) = Some mrg \<or> set_option (point (view v t)) \<inter> known (view v s) = {}"
    using keepsD(5) [OF t(2)] ll_growsD(1) [OF ll_grows_trans [OF g04 g47 subset_UNIV subset_UNIV]] by (auto simp: r7(2))
  have "frame_kept v {} s6 ?s7" by (rule frame_kept_module) (use mv7(1) in \<open>simp_all add: r7(2)\<close>)
  note f67 = frame_kept_trans [OF this keeps_frame [OF t(2)]]
  have f5t: "frame_kept v C s5 t" using frame_kept_trans [OF s6(3) f67] by simp
  have f4t: "frame_kept v (B \<union> C) s4 t" by (rule frame_kept_trans [OF s5(3) f5t])
  have ft: "frame_kept v (A \<union> B \<union> C) s t"
    using frame_kept_trans [OF keeps_frame [OF k4] f4t] by (simp add: Un_assoc)
  have kt: "keeps_state v (A \<union> B \<union> C) s t"
    by (rule keeps_stateI [OF keepsD(1) [OF t(2)] ft]) (use g0t bl(2) pt in auto)
  have "tr_visit E (IfExp h e1 e2 e3) s = Inr t"
    by (simp add: tr_visit_cases tr_IfExp_def head tr_if_branch_def s5(1) s6(1)
      insert_block_def observations [OF laws] view_def [symmetric] s5(5) s6(5) r7(1) t(1))
  moreover have "compiles v D (A \<union> B \<union> C) b (means (te_prog E) (IfExp h e1 e2 e3)) s t"
    unfolding compiles_def
  proof (intro conjI allI impI)
    show "keeps_state v (A \<union> B \<union> C) s t" by (rule kt)
    show "int_value v t" if b by (rule t(3) [OF that])
    fix M L K
    assume M: "part_of (view v t) M" "ran L \<subseteq> known (view v s) \<union> allocas M" and L: "\<forall>d \<in> D \<union> (A \<union> B \<union> C). loc_of t d = L d"
    let ?X = "fresh (view v s) (view v t)" and ?y = "if b then tr_value t else None"
    note b04 = grows_any [OF g04] and b45 = grows_any [OF s5(4)] and b56 = grows_any [OF s6(4)] and b7t = grows_any [OF g7]
    have b67: "part_of (view v s6) (view v ?s7)" using mv7(1) r7(2) by (auto intro: grows_any)
    note b6t = below_trans [OF b67 b7t] and b05 = below_trans [OF b04 b45]
    note b5t = below_trans [OF b56 b6t] and b07 = below_trans [OF b05 below_trans [OF b56 b67]]
    note b4t = below_trans [OF b45 b5t]
    note M4 = below_trans [OF b4t M(1)] and M5 = below_trans [OF b5t M(1)] and M6 = below_trans [OF b6t M(1)]
    note X = fresh_between [OF ll_grows_refl b4t] fresh_between [OF b04 b5t] fresh_between [OF b05 b6t] fresh_between [OF b07 ll_grows_refl]
    have R: "ran L \<inter> ?X = {}" using ran_not_fresh [OF M] by blast
    have Rk: "ran L \<subseteq> known (view v s4) \<union> allocas M" "ran L \<subseteq> known (view v s5) \<union> allocas M"
      using M(2) ll_growsD(1) [OF b04] ll_growsD(1) [OF b05] by auto
    have L4: "\<forall>d \<in> D \<union> A. loc_of s4 d = L d" using f4t L disj by (auto simp: frame_kept_def)
    have L5: "\<forall>d \<in> D \<union> B. loc_of s5 d = L d" using f5t L disj by (auto simp: frame_kept_def)
    have L6: "\<forall>d \<in> D \<union> C. loc_of s6 d = L d" using f67 L by (auto simp: frame_kept_def)
    have c56: "c6 \<noteq> c5" using s5(6) s6(6) kn4 kn5 bl(1) by auto
    have W7: "point (view v ?s7) = Some mrg" "code_of (view v ?s7) mrg = []" using mrg6 by (simp_all add: r7(2))
    show "simulates M L K (view v s) (view v t) ?y (means (te_prog E) (IfExp h e1 e2 e3))"
    proof (rule simulates_reaches)
      fix sigma w sigma' p rho mem
      assume f: "means (te_prog E) (IfExp h e1 e2 e3) sigma w sigma'" and tr: "tracks M L K sigma rho mem"
      let ?R = "\<lambda>sigma. reaches M L K ?X (view v s) p rho mem sigma"
      have merged: "\<exists>p' vals. ?R sigma' (view v t) p' vals \<and> (\<forall>x. ?y = Some x \<longrightarrow> (x, Int_val w) \<in> vals)"
        if "?R sigma' (view v ?s7) (Some c) {(x, Int_val w) |x. (if b then yy else None) = Some x}"
          "c = c5 \<and> z = xv \<and> yy = y5 \<or> c = c6 \<and> z = yv \<and> yy = y6" for c z yy
      proof -
        have "b \<longrightarrow> (z, Int_val w) \<in> {(x, Int_val w) |x. (if b then yy else None) = Some x}" using that(2) xy by auto
        from merge [OF M(1) X(4) R that(1) _ this] that(2) c56 obtain vals' where
          "?R sigma' (view v t) (Some c) vals'" "b \<longrightarrow> (\<exists>r. tr_value t = Some r \<and> (r, Int_val w) \<in> vals')" by blast
        then show ?thesis by (intro exI [of _ "Some c"] exI [of _ vals']) (auto split: if_splits)
      qed
      from f show "\<exists>p' vals. ?R sigma' (view v t) p' vals \<and> (\<forall>x. ?y = Some x \<longrightarrow> (x, Int_val w) \<in> vals)"
      proof (cases rule: means_IfExp)
        case (1 a sigma1)
        obtain q where q: "?R sigma1 ((view v s4)\<lparr>point := Some thn\<rparr>) q {}"
          using test [OF M4 X(1) R M(2) L4 tr 1(1), of "(view v s4)\<lparr>point := Some thn\<rparr>"] 1(2) e4 by auto
        show ?thesis by (rule merged [OF then_run [OF M5 X(2) Rk(1) L5 q 1(3) W7], where z = xv]) simp_all
      next
        case (2 a sigma1)
        obtain q where q: "?R sigma1 ((view v s5)\<lparr>point := Some els\<rparr>) q {}"
          using test [OF M4 X(1) R M(2) L4 tr 2(1), of "(view v s5)\<lparr>point := Some els\<rparr>"] 2(2) e5 by auto
        show ?thesis by (rule merged [OF else_run [OF M6 X(3) Rk(2) L6 q 2(3) W7], where z = yv]) simp
      qed
    qed
  qed
  ultimately show "\<exists>t. tr_visit E (IfExp h e1 e2 e3) s = Inr t \<and>
      compiles v D (A \<union> B \<union> C) b (means (te_prog E) (IfExp h e1 e2 e3)) s t" by blast
qed


section \<open>Declarations\<close>

lemma local_put_simps [simp]:
  "view v (local_put d a s) = view v s" "tr_function (local_put d a s) = tr_function s" "tr_escaped (local_put d a s) = tr_escaped s"
  "tr_module (local_put d a s) = tr_module s" "loc_of (local_put d a s) = (loc_of s)(d \<mapsto> a)"
  by (auto simp: local_put_def view_def loc_of_def Let_def split: option.split)

lemma local_put_frame:
  assumes "a \<notin> known (view v s)" and "ll_grows S (view v s) (v m)" and "a \<in> allocas (v m)" and "a \<in> known (v m)"
  shows "frame_kept v {d} s (local_put d a (s\<lparr>tr_module := m\<rparr>))"
  unfolding frame_kept_def
proof (intro conjI allI impI)
  show "tr_locals (local_put d a (s\<lparr>tr_module := m\<rparr>)) g = tr_locals s g" if "g \<noteq> tr_function s" for g
    using that by (simp add: local_put_def Let_def)
  assume p: "placed v s"
  then have "a \<notin> ran (loc_of s)" using assms(1) by (auto simp: placed_def)
  then have "inj_on ((loc_of s)(d \<mapsto> a)) (insert d (dom (loc_of s)))"
    using p by (auto simp: placed_def inj_on_def ran_def dom_def)
  moreover have "ran ((loc_of s)(d \<mapsto> a)) \<subseteq> known (v m)"
    using p assms(4) ll_growsD(1) [OF assms(2)] by (auto simp: placed_def ran_def)
  ultimately show "placed v (local_put d a (s\<lparr>tr_module := m\<rparr>))" by (simp add: placed_def)
qed (use assms ll_growsD(1,9) [OF assms(2)] in \<open>auto simp: ran_def\<close>)

text \<open>A new variable.\<close>

lemma variable_effect:
  assumes laws: "llvm_laws (te_llvm E) v" and rd: "tr_ready v s"
  obtains a m where "\<And>k. create_alloca E (tr_function s) lt x k s = k a (s\<lparr>tr_module := m\<rparr>)"
    "keeps_state v {d} s (local_put d a (s\<lparr>tr_module := m\<rparr>))" "point (v m) = point (view v s)" "code_of (v m) = code_of (view v s)"
proof -
  obtain f e where ok: "view_ok (view v s)" and f: "tr_function s = Some f" "entry_of (view v s) f = Some e" using tr_readyD [OF rd] by blast
  have e: "ll_entry (te_llvm E) (tr_module s) f = e" using observations(3) [OF laws, of "tr_module s"] f(2) by (simp add: view_def)
  obtain a m where a: "\<And>k. api E (Alloca_at_begin e lt x) k s = k a (s\<lparr>tr_module := m\<rparr>)"
    "ll_effect (view v s) (Alloca_at_begin e lt x) a (v m)"
    using api_effect [OF laws ok, of "Alloca_at_begin e lt x"] by (auto simp: needs_block_def)
  have r: "a \<notin> known (view v s)" "v m = (view v s)\<lparr>known := insert a (known (view v s)), allocas := insert a (allocas (view v s))\<rparr>"
    using a(2) f(2) by (auto simp: ll_effect_def ran_def)
  have g: "ll_grows (set_option (point (view v s))) (view v s) (v m)" "view_ok (v m)"
    using ok r by (auto simp: ll_grows_def view_ok_def)
  then have "keeps_state v {} s (s\<lparr>tr_module := m\<rparr>)" by (intro keeps_module [OF rd]) (simp_all add: r(2))
  note k = keepsD [OF this] and fr = local_put_frame [OF r(1) g(1), of d]
  have "keeps_state v {d} s (local_put d a (s\<lparr>tr_module := m\<rparr>))"
    by (rule keeps_stateI) (use k fr in \<open>simp_all add: tr_ready_def r(2)\<close>)
  then show ?thesis by (intro that [of a m]) (use a(1) e f(1) r(2) in \<open>simp_all add: create_alloca_def need_def\<close>)
qed

definition var_means :: "ec_env \<Rightarrow> addr \<Rightarrow> ast \<Rightarrow> valuation \<Rightarrow> i64 \<Rightarrow> valuation \<Rightarrow> bool" where
  "var_means P d i sigma w sigma' \<longleftrightarrow> (\<exists>a sigma1. means P i sigma a sigma1 \<and> sigma' = sigma1(d \<mapsto> a))"

lemma compiles_VarDec:
  assumes laws: "llvm_laws (te_llvm E) v" and i: "int_node E (VarDec h x ty (Some e))" and n: "2 \<le> te_fuel E"
    and e: "compiled v D A True (tr_visit E e) (means (te_prog E) e)" and disj: "adr h \<notin> D" "adr h \<notin> A" "D \<inter> A = {}"
    and rd: "tr_ready v s" and D: "D \<subseteq> dom (loc_of s)"
  obtains t where "tr_visit E (VarDec h x ty (Some e)) s = Inr t" "adr h \<in> dom (loc_of t)"
    "compiles v D (insert (adr h) A) False (var_means (te_prog E) (adr h) e) s t"
proof -
  obtain m y where m: "\<And>k. var_ltype E (VarDec h x ty (Some e)) k s = k (int64 (view v s)) (s\<lparr>tr_module := m, tr_type := y\<rparr>)" "v m = view v s"
    using var_ltype_int [OF laws rd i n] by blast
  let ?s1 = "s\<lparr>tr_module := m, tr_type := y\<rparr>"
  have k1: "keeps_state v {} s ?s1" by (rule keeps_module [OF rd]) (use m rd in \<open>simp_all add: ll_grows_refl tr_ready_def\<close>)
  obtain a m2 where a: "\<And>k. create_alloca E (tr_function ?s1) (int64 (view v s)) x k ?s1 = k a (?s1\<lparr>tr_module := m2\<rparr>)"
    "keeps_state v {adr h} ?s1 (local_put (adr h) a (?s1\<lparr>tr_module := m2\<rparr>))" "point (v m2) = point (view v ?s1)" "code_of (v m2) = code_of (view v ?s1)"
    by (rule variable_effect [OF laws keepsD(1) [OF k1]], rule that)
  let ?s2 = "local_put (adr h) a (?s1\<lparr>tr_module := m2\<rparr>)"
  have D2: "D \<subseteq> dom (loc_of ?s2)" using D by auto
  obtain s3 where s3: "tr_visit E e ?s2 = Inr s3" "compiles v D A True (means (te_prog E) e) ?s2 s3"
    by (rule compiledE [OF e keepsD(1) [OF a(2)] D2], rule that)
  note k3 = compilesD(1) [OF s3(2)]
  obtain x3 where x3: "tr_value s3 = Some x3" "x3 \<in> known (view v s3)" using int_valueE [OF s3(2)] .
  obtain r m4 where r: "\<And>k. api E (Create_store x3 a) k s3 = k r (s3\<lparr>tr_module := m4\<rparr>)" "emits (view v s3) (Create_store x3 a) r (v m4)"
    "ll_grows (set_option (point (view v s3))) (view v s3) (v m4)" "view_ok (v m4)" "point (v m4) = point (view v s3)"
    using store_effect [OF laws keepsD(1) [OF k3]] by blast
  let ?t = "s3\<lparr>tr_module := m4, tr_value := Some r\<rparr>"
  have k4: "keeps_state v {} s3 ?t" by (rule keeps_module [OF keepsD(1) [OF k3]]) (use r in simp_all)
  have k02: "keeps_state v {adr h} s ?s2" by (rule keeps_trans [OF k1 a(2)]) simp
  have kt: "keeps_state v (insert (adr h) A) s ?t" by (rule keeps_trans [OF keeps_trans [OF k02 k3 order_refl] k4]) simp
  have la: "loc_of s3 (adr h) = Some a" using keepsD(6) [OF k3 disj(2)] by simp
  have "tr_visit E (VarDec h x ty (Some e)) s = Inr ?t"
    using a(1) [simplified] s3(1) [simplified]
    by (simp add: tr_visit_cases tr_VarDec_def m(1) addr_of_def need_Some operand_def translate_def x3(1) r(1) set_value_def)
  moreover have "compiles v D (insert (adr h) A) False (var_means (te_prog E) (adr h) e) s ?t"
    unfolding compiles_def
  proof (intro conjI allI impI)
    show "keeps_state v (insert (adr h) A) s ?t" by (rule kt)
    fix M L K
    assume M: "part_of (view v ?t) M" "ran L \<subseteq> known (view v s) \<union> allocas M" and L: "\<forall>d \<in> D \<union> insert (adr h) A. loc_of ?t d = L d"
    let ?X = "fresh (view v s) (view v ?t)"
    note b02 = grows_any [OF keepsD(4) [OF k02]] and b23 = grows_any [OF keepsD(4) [OF k3]] and b34 = grows_any [OF keepsD(4) [OF k4]]
    note M3 = below_trans [OF b34 M(1)]
    have sim: "simulates M L K (view v ?s2) (view v s3) (Some x3) (means (te_prog E) e)"
      by (rule compiles_sim [OF s3(2) M3]) (use L M(2) x3(1) ll_growsD(1) [OF b02] in auto)
    have "simulates M L K (view v s) (view v ?t) None (var_means (te_prog E) (adr h) e)"
    proof (rule simulates_reaches)
      fix sigma w sigma' p rho mem
      assume "var_means (te_prog E) (adr h) e sigma w sigma'" and tr: "tracks M L K sigma rho mem"
      then obtain w1 sigma1 where d: "means (te_prog E) e sigma w1 sigma1" "sigma' = sigma1(adr h \<mapsto> w1)" by (auto simp: var_means_def)
      let ?R = "\<lambda>sigma. reaches M L K ?X (view v s) p rho mem sigma"
      have "?R sigma (view v ?s2) p {}"
        using reaches_start [OF tr, of ?X "view v s" p] a(3,4) m(2) by (simp add: reaches_def runs_def at_end_def)
      from reaches_sim [OF this sim d(1) fresh_between [OF b02 b34]] obtain p2 where "?R sigma1 (view v s3) p2 {(x3, Int_val w1)}" by auto
      then have "?R sigma' (view v ?t) p2 {(x3, Int_val w1)}"
        unfolding d(2) view_simps by (rule reaches_store [OF _ r(2) _ M(1) [unfolded view_simps]])
          (use L la keepsD(1) [OF k3] in \<open>auto simp: tr_ready_def\<close>)
      then show "\<exists>p' vals. ?R sigma' (view v ?t) p' vals \<and> (\<forall>x. None = Some x \<longrightarrow> (x, Int_val w) \<in> vals)" by auto
    qed
    then show "simulates M L K (view v s) (view v ?t) (if False then tr_value ?t else None) (var_means (te_prog E) (adr h) e)" by simp
  qed simp
  moreover have "adr h \<in> dom (loc_of ?t)" using la by (simp add: domI)
  ultimately show ?thesis by (intro that)
qed

end
