(* ===== verification/Translator_Code.thy ===== *)
theory Translator_Code
  imports Translator_Control
begin

text \<open>
  The code of every tree of integers, variables and control: by rule induction on the trees, from the cases of the
  theories \<open>Translator_Correct\<close> and \<open>Translator_Control\<close>.
\<close>

section \<open>Sequences and \<open>let\<close>s\<close>

definition seq_means :: "ec_env \<Rightarrow> ast list \<Rightarrow> valuation \<Rightarrow> i64 \<Rightarrow> valuation \<Rightarrow> bool" where
  "seq_means P es sigma w sigma' \<longleftrightarrow> (\<exists>n w0. src_seq (src P n) w0 es sigma = Some (w, sigma'))"

definition let_means :: "ec_env \<Rightarrow> ast list \<Rightarrow> ast \<Rightarrow> valuation \<Rightarrow> i64 \<Rightarrow> valuation \<Rightarrow> bool" where
  "let_means P ds e sigma w sigma' \<longleftrightarrow> (\<exists>n. src_let (src P n) ds e sigma = Some (w, sigma'))"

lemma means_step: "means P e sigma w sigma' \<Longrightarrow> \<exists>n. src_step P (src P n) e sigma = Some (w, sigma')"
  unfolding means_def by (metis option.distinct(1) src.simps not0_implies_Suc)

lemma means_SeqExp: "means P (SeqExp h es) sigma w sigma' \<Longrightarrow> seq_means P es sigma w sigma'"
  by (fastforce simp: src_step_def seq_means_def dest!: means_step)

lemma means_SeqExp_none: "means P (SeqExp h []) sigma w sigma' \<Longrightarrow> w = 0 \<and> sigma' = sigma"
  by (auto simp: src_step_def dest!: means_step)

lemma means_LetExp: "means P (LetExp h cs e) sigma w sigma' \<Longrightarrow> let_decs cs = Some ds \<Longrightarrow> let_means P ds e sigma w sigma'"
  by (auto simp: src_step_def let_means_def dest!: means_step)

lemma seq_means_more:
  "seq_means P (e # es) sigma w sigma' \<Longrightarrow> andthen_means (means P e) (seq_means P es) sigma w sigma'"
  by (fastforce simp: seq_means_def andthen_means_def means_def split: bind_splits)

lemma seq_means_last: "seq_means P [e] sigma w sigma' \<Longrightarrow> means P e sigma w sigma'"
  by (auto simp: seq_means_def means_def split: bind_splits)

lemma let_means_body: "let_means P [] e sigma w sigma' \<Longrightarrow> means P e sigma w sigma'"
  by (auto simp: let_means_def means_def)

lemma let_means_dec:
  "let_means P (VarDec h x ty (Some i) # ds) e sigma w sigma' \<Longrightarrow>
    andthen_means (var_means P (adr h) i) (let_means P ds e) sigma w sigma'"
  by (fastforce simp: let_means_def andthen_means_def var_means_def means_def dec_init_def addr_of_def split: bind_splits)

section \<open>Weaker claims\<close>

lemma compiled_mono:
  assumes "compiled v D A b f F" and "\<And>sigma w sigma'. G sigma w sigma' \<Longrightarrow> F sigma w sigma'" and "A \<subseteq> B"
  shows "compiled v D B b f G"
  unfolding compiled_def
proof (intro allI impI)
  fix s assume "tr_ready v s" "D \<subseteq> dom (loc_of s)"
  from compiledE [OF assms(1) this] obtain t where "f s = Inr t" "compiles v D A b F s t" .
  with compiles_mono [OF this(2) assms(2,3)] show "\<exists>t. f s = Inr t \<and> compiles v D B b G s t" by blast
qed

lemma compiled_less:
  assumes "compiled v D A b f F" and "c \<longrightarrow> b"
  shows "compiled v D A c f F"
  unfolding compiled_def
proof (intro allI impI)
  fix s assume "tr_ready v s" "D \<subseteq> dom (loc_of s)"
  from compiledE [OF assms(1) this] obtain t where t: "f s = Inr t" "compiles v D A b F s t" .
  have "compiles v D A c F s t"
    unfolding compiles_def
  proof (intro conjI allI impI)
    show "keeps_state v A s t" by (rule compilesD(1) [OF t(2)])
    show "int_value v t" if c using compilesD(2) [OF t(2)] assms(2) that by blast
    fix M L K
    assume "part_of (view v t) M" "ran L \<subseteq> known (view v s) \<union> allocas M" "\<forall>d \<in> D \<union> A. loc_of t d = L d"
    then have "simulates M L K (view v s) (view v t) (if b then tr_value t else None) F"
      by (intro compilesD(3) [OF t(2)]) auto
    from simulates_flag [OF this, of c] assms(2)
    show "simulates M L K (view v s) (view v t) (if c then tr_value t else None) F" by (cases c) simp_all
  qed
  with t(1) show "\<exists>t. f s = Inr t \<and> compiles v D A c F s t" by blast
qed

text \<open>No code at all, and the code of the value zero.\<close>

lemma compiled_skip:
  assumes "\<And>sigma w sigma'. F sigma w sigma' \<Longrightarrow> sigma' = sigma"
  shows "compiled v D A False Inr F"
  unfolding compiled_def
proof (intro allI impI exI conjI)
  fix s assume rd: "tr_ready v s"
  show "compiles v D A False F s s"
    unfolding compiles_def
  proof (intro conjI allI impI)
    show "keeps_state v A s s" by (rule keeps_refl [OF rd])
    fix M L K
    show "simulates M L K (view v s) (view v s) (if False then tr_value s else None) F"
    proof (rule simulates_reaches)
      fix sigma w sigma' p rho mem
      assume "F sigma w sigma'" "tracks M L K sigma rho mem"
      then show "\<exists>p' vals. reaches M L K (fresh (view v s) (view v s)) (view v s) p rho mem sigma' (view v s) p' vals \<and>
          (\<forall>x. (if False then tr_value s else None) = Some x \<longrightarrow> (x, Int_val w) \<in> vals)"
        using assms reaches_start by fastforce
    qed
  qed simp
qed simp

lemma compiled_zero:
  assumes laws: "llvm_laws (te_llvm E) v" and f: "\<And>sigma w sigma'. F sigma w sigma' \<Longrightarrow> w = 0 \<and> sigma' = sigma"
  shows "compiled v D A b (zero_value E set_value) F"
proof (rule compiledI)
  fix s assume rd: "tr_ready v s"
  then have ok: "view_ok (view v s)" by (simp add: tr_ready_def)
  obtain r m where r: "\<And>k. zero_value E k s = k r (s\<lparr>tr_module := m\<rparr>)"
    "gives_constant (view v s) (Int_val 0) (int64 (view v s)) r (v m)"
    using zero_value_effect [OF laws ok] by blast
  note g = gives_constant_grows [OF r(2) ok]
  let ?t = "s\<lparr>tr_module := m, tr_value := Some r\<rparr>"
  have "zero_value E set_value s = Inr ?t" by (simp add: r(1) set_value_def)
  moreover have "keeps_state v A s ?t"
    by (rule keeps_module [OF rd]) (use g in \<open>auto intro: grows_mono\<close>)
  moreover have "simulates M L K (view v s) (v m) (Some r) F"
    if M: "ll_grows UNIV (v m) M" "ran L \<subseteq> known (view v s) \<union> allocas M" for M L K
    by (rule simulates_yields [OF _ M]) (use f in \<open>auto intro: yields_constant [OF r(2) ok M(1)]\<close>)
  ultimately show "\<exists>t x. zero_value E set_value s = Inr t \<and> keeps_state v A s t \<and> tr_value t = Some x \<and>
      x \<in> known (view v t) \<and> ty_of (view v t) x = int64 (view v t) \<and>
      (\<forall>M L K. ll_grows UNIV (view v t) M \<longrightarrow> ran L \<subseteq> known (view v s) \<union> allocas M \<longrightarrow> (\<forall>d \<in> D \<union> A. loc_of t d = L d) \<longrightarrow>
        simulates M L K (view v s) (view v t) (Some x) F)"
    using g ll_growsD(7) [OF conjunct1 [OF g]] by (intro exI [of _ ?t] exI [of _ r]) simp
qed

section \<open>Sequences and declarations\<close>

lemma compiled_more:
  assumes e: "compiled v D A False (tr_visit E e) (means (te_prog E) e)"
    and es: "compiled v D B b (foldE (tr_visit E) es) (seq_means (te_prog E) es)" and disj: "D \<inter> A = {}" "(D \<union> A) \<inter> B = {}"
  shows "compiled v D (A \<union> B) b (foldE (tr_visit E) (e # es)) (seq_means (te_prog E) (e # es))"
  unfolding foldE.simps by (rule compiled_mono [OF compiled_seq [OF e es disj] seq_means_more]) simp_all

lemma compiled_dec:
  assumes laws: "llvm_laws (te_llvm E) v" and i: "int_node E (VarDec h x ty (Some e))" and n: "2 \<le> te_fuel E"
    and e: "compiled v D A True (tr_visit E e) (means (te_prog E) e)"
    and ds: "compiled v (insert (adr h) D) B b (\<lambda>s. bindE (foldE (tr_visit E) ds s) (tr_visit E c)) (let_means (te_prog E) ds c)"
    and disj: "adr h \<notin> D" "adr h \<notin> A" "D \<inter> A = {}" "(insert (adr h) (D \<union> A)) \<inter> B = {}"
  shows "compiled v D (insert (adr h) A \<union> B) b (\<lambda>s. bindE (foldE (tr_visit E) (VarDec h x ty (Some e) # ds) s) (tr_visit E c))
    (let_means (te_prog E) (VarDec h x ty (Some e) # ds) c)"
  unfolding compiled_def
proof (intro allI impI)
  fix s assume rd: "tr_ready v s" and D: "D \<subseteq> dom (loc_of s)"
  obtain s1 where s1: "tr_visit E (VarDec h x ty (Some e)) s = Inr s1" "adr h \<in> dom (loc_of s1)"
    "compiles v D (insert (adr h) A) False (var_means (te_prog E) (adr h) e) s s1"
    by (rule compiles_VarDec [OF laws i n e disj(1-3) rd D])
  note k1 = compilesD(1) [OF s1(3)]
  have D1: "insert (adr h) D \<subseteq> dom (loc_of s1)" using s1(2) keeps_dom [OF k1 _ D] disj by auto
  obtain t where t: "bindE (foldE (tr_visit E) ds s1) (tr_visit E c) = Inr t"
    "compiles v (insert (adr h) D) B b (let_means (te_prog E) ds c) s1 t"
    by (rule compiledE [OF ds keepsD(1) [OF k1] D1])
  have "compiles v D (insert (adr h) A \<union> B) b (let_means (te_prog E) (VarDec h x ty (Some e) # ds) c) s t"
    by (rule compiles_mono [OF compiles_seq [OF s1(3) t(2)] let_means_dec]) (use disj in auto)
  with t(1) s1(1) show "\<exists>t. bindE (foldE (tr_visit E) (VarDec h x ty (Some e) # ds) s) (tr_visit E c) = Inr t \<and>
      compiles v D (insert (adr h) A \<union> B) b (let_means (te_prog E) (VarDec h x ty (Some e) # ds) c) s t"
    by (intro exI [of _ t]) simp
qed

lemma visit_decs: "let_decs cs = Some ds \<Longrightarrow> tr_visit E cs = foldE (tr_visit E) ds"
proof -
  have *: "foldE (tr_visit E) xs s = foldE (tr_visit E) ds s" if "chunks_vars xs = Some ds" for xs ds s
    using that
  proof (induction xs arbitrary: ds s)
    case (Cons c cs)
    then obtain h es fs where "c = VarChunk h es" "chunks_vars cs = Some fs" "ds = es @ fs"
      by (auto simp: chunk_vars_def split: ast.splits bind_splits)
    with Cons.IH show ?case by (simp add: tr_visit_cases foldE_append cong: bindE_cong)
  qed simp
  show "let_decs cs = Some ds \<Longrightarrow> tr_visit E cs = foldE (tr_visit E) ds"
    by (rule ext) (use * in \<open>auto simp: let_decs_def tr_visit_cases split: ast.splits\<close>)
qed

section \<open>Every tree\<close>

lemma code_is_right:
  assumes laws: "llvm_laws (te_llvm E) v" and n: "2 \<le> te_fuel E"
  shows "int_code E D b e \<Longrightarrow> distinct (decls e) \<Longrightarrow> D \<inter> set (decls e) = {} \<Longrightarrow>
      compiled v D (set (decls e)) b (tr_visit E e) (means (te_prog E) e)"
    and "int_codes E D b es \<Longrightarrow> distinct (concat (map decls es)) \<Longrightarrow> D \<inter> set (concat (map decls es)) = {} \<Longrightarrow>
      compiled v D (set (concat (map decls es))) (b \<and> es \<noteq> []) (foldE (tr_visit E) es) (seq_means (te_prog E) es)"
    and "int_let E D b ds e \<Longrightarrow> distinct (concat (map decls ds) @ decls e) \<Longrightarrow> D \<inter> set (concat (map decls ds) @ decls e) = {} \<Longrightarrow>
      compiled v D (set (concat (map decls ds) @ decls e)) b (\<lambda>s. bindE (foldE (tr_visit E) ds s) (tr_visit E e)) (let_means (te_prog E) ds e)"
proof (induction rule: int_code_int_codes_int_let.inducts)
  case (int_IntExp D b h i)
  show ?case by (rule compiled_IntExp [OF laws])
next
  case (int_SimpleVar h d D x b)
  from this(1-3) show ?case by (intro compiled_SimpleVar [OF laws _ _ _ n])
next
  case (int_OpExp D l r b h oper)
  then show ?case
    unfolding decls_simps set_append by (intro compiled_OpExp [OF laws]) auto
next
  case (int_AssignExp k d D e b h x)
  then show ?case unfolding decls_simps by (intro compiled_AssignExp [OF laws])
next
  case (int_SeqExp D b es h)
  show ?case
  proof (cases "es = []")
    case True
    then show ?thesis using compiled_zero [OF laws means_SeqExp_none] by (simp add: tr_visit_cases tr_SeqExp_def decls_simps)
  next
    case False
    have "compiled v D (set (concat (map decls es))) (b \<and> es \<noteq> []) (foldE (tr_visit E) es) (seq_means (te_prog E) es)"
      using int_SeqExp by (simp add: decls_simps)
    from compiled_mono [OF this means_SeqExp [of _ h] order_refl] False show ?thesis
      by (simp add: tr_visit_cases tr_SeqExp_def decls_simps)
  qed
next
  case (int_IfExp h c t f v' D b)
  have "compiled v D (set (decls c) \<union> set (decls t) \<union> set (decls f)) v' (tr_visit E (IfExp h c t f)) (means (te_prog E) (IfExp h c t f))"
    by (rule compiled_IfExp [OF laws int_IfExp(1) n int_IfExp(2)]) (use int_IfExp in \<open>auto simp: decls_simps\<close>)
  then show ?case
    using compiled_less [OF _ int_IfExp(9)] by (simp add: decls_simps Un_assoc)
next
  case (int_WhileExp D c e h)
  then show ?case unfolding decls_simps set_append by (intro compiled_WhileExp [OF laws]) auto
next
  case (int_LetExp cs ds D b e h)
  have "compiled v D (set (concat (map decls ds) @ decls e)) b (\<lambda>s. bindE (foldE (tr_visit E) ds s) (tr_visit E e)) (let_means (te_prog E) ds e)"
    using int_LetExp by (simp add: decls_simps decls_let)
  from compiled_mono [OF this means_LetExp [of _ h, OF _ int_LetExp(1)] order_refl] show ?case
    using int_LetExp(1) by (simp add: tr_visit_cases visit_decs decls_simps decls_let)
next
  case (int_none D b)
  show ?case by (simp add: seq_means_def) (rule compiled_skip, simp)
next
  case (int_last D b e)
  then show ?case using compiled_mono [OF _ seq_means_last order_refl] by (simp add: foldE_one)
next
  case (int_more D e b f es)
  let ?B = "set (concat (map decls (f # es)))"
  have "compiled v D (set (decls e) \<union> ?B) b (foldE (tr_visit E) (e # f # es)) (seq_means (te_prog E) (e # f # es))"
    by (rule compiled_more) (use int_more in \<open>simp_all del: foldE.simps, auto\<close>)
  then show ?case by (simp del: foldE.simps)
next
  case (int_body D b e)
  then show ?case using compiled_mono [OF _ let_means_body order_refl] by simp
next
  case (int_dec h x ty i D b ds e)
  let ?B = "set (concat (map decls ds) @ decls e)"
  have "compiled v D (insert (adr h) (set (decls i)) \<union> ?B) b
      (\<lambda>s. bindE (foldE (tr_visit E) (VarDec h x ty (Some i) # ds) s) (tr_visit E e)) (let_means (te_prog E) (VarDec h x ty (Some i) # ds) e)"
    by (rule compiled_dec [OF laws int_dec(1) n]) (use int_dec in \<open>auto simp: decls_simps\<close>)
  then show ?case by (rule compiled_mono) (auto simp: decls_simps)
qed

end
