(* ===== verification/Translator_Function.thy ===== *)
theory Translator_Function
  imports Translator_Code
begin

text \<open>
  The code of a function: its arguments, its body and its return.  A call of the code that is made for the declaration of a function
  returns what the body means, with the variables that the body assigns in their cells.
\<close>

section \<open>The arguments\<close>

lemma local_puts:
  fixes xs :: "(addr \<times> addr) list"
  defines "puts \<equiv> fold (\<lambda>(d, a). local_put d a)"
  shows "view v (puts xs s) = view v s" "tr_function (puts xs s) = tr_function s" "tr_escaped (puts xs s) = tr_escaped s"
    "tr_module (puts xs s) = tr_module s" "loc_of (puts xs s) = loc_of s ++ map_of (rev xs)"
    "g \<noteq> tr_function s \<Longrightarrow> tr_locals (puts xs s) g = tr_locals s g"
proof -
  have "view v (puts xs s) = view v s \<and> tr_function (puts xs s) = tr_function s \<and> tr_escaped (puts xs s) = tr_escaped s \<and>
    tr_module (puts xs s) = tr_module s \<and> loc_of (puts xs s) = loc_of s ++ map_of (rev xs) \<and>
    (g \<noteq> tr_function s \<longrightarrow> tr_locals (puts xs s) g = tr_locals s g)" for g
    unfolding puts_def
  proof (induction xs arbitrary: s)
    case (Cons x xs)
    have "tr_locals (local_put d a s) g = tr_locals s g" if "g \<noteq> tr_function s" for d a
      using that by (simp add: local_put_def Let_def)
    with Cons [of "local_put (fst x) (snd x) s"] show ?case by (cases x) (simp add: map_add_def fun_eq_iff split: option.split)
  qed simp
  then show "view v (puts xs s) = view v s" "tr_function (puts xs s) = tr_function s" "tr_escaped (puts xs s) = tr_escaped s"
    "tr_module (puts xs s) = tr_module s" "loc_of (puts xs s) = loc_of s ++ map_of (rev xs)"
    "g \<noteq> tr_function s \<Longrightarrow> tr_locals (puts xs s) g = tr_locals s g" by blast+
qed

text \<open>A formal gets a variable, with the value of its argument.\<close>

lemma store_formal_effect:
  assumes laws: "llvm_laws (te_llvm E) v" and rd: "tr_ready v s" and fn: "tr_function s = Some fn"
    and i: "int_node E x" and n: "2 \<le> te_fuel E"
  obtains t where "store_formal E fn (x, arg) s = Inr t" "keeps_state v {addr_of x} s t" "addr_of x \<in> dom (loc_of t)"
    "\<And>M L K X V0 p rho mem sigma p1 vals w. part_of (view v t) M \<Longrightarrow> loc_of t (addr_of x) = L (addr_of x) \<Longrightarrow>
       reaches M L K X V0 p rho mem sigma (view v s) p1 vals \<Longrightarrow> (arg, Int_val w) \<in> vals \<Longrightarrow>
       reaches M L K X V0 p rho mem (sigma(addr_of x \<mapsto> w)) (view v t) p1 vals"
proof -
  obtain m y where m: "\<And>k. var_ltype E x k s = k (int64 (view v s)) (s\<lparr>tr_module := m, tr_type := y\<rparr>)" "v m = view v s"
    using var_ltype_int [OF laws rd i n] by blast
  let ?s1 = "s\<lparr>tr_module := m, tr_type := y\<rparr>"
  have k1: "keeps_state v {} s ?s1" by (rule keeps_module [OF rd]) (use m rd in \<open>simp_all add: ll_grows_refl tr_ready_def\<close>)
  obtain a m2 where a: "\<And>k. create_alloca E (tr_function ?s1) (int64 (view v s)) (dec_symbol x) k ?s1 = k a (?s1\<lparr>tr_module := m2\<rparr>)"
    "keeps_state v {addr_of x} ?s1 (local_put (addr_of x) a (?s1\<lparr>tr_module := m2\<rparr>))" "point (v m2) = point (view v ?s1)" "code_of (v m2) = code_of (view v ?s1)"
    by (rule variable_effect [OF laws keepsD(1) [OF k1]], rule that)
  let ?s2 = "local_put (addr_of x) a (?s1\<lparr>tr_module := m2\<rparr>)"
  note k2 = keepsD [OF a(2)]
  obtain r m4 where r: "\<And>k. api E (Create_store arg a) k ?s2 = k r (?s2\<lparr>tr_module := m4\<rparr>)" "emits (view v ?s2) (Create_store arg a) r (v m4)"
    "ll_grows (set_option (point (view v ?s2))) (view v ?s2) (v m4)" "view_ok (v m4)" "point (v m4) = point (view v ?s2)"
    by (rule store_effect [OF laws k2(1), of arg a], rule that)
  let ?t = "?s2\<lparr>tr_module := m4\<rparr>"
  have k4: "keeps_state v {} ?s2 ?t" by (rule keeps_module [OF k2(1)]) (use r in simp_all)
  have kt: "keeps_state v {addr_of x} s ?t"
    by (rule keeps_trans [OF keeps_trans [OF k1 a(2) order_refl] k4]) simp
  have at: "loc_of ?t (addr_of x) = Some a" by simp
  show ?thesis
  proof (rule that [of ?t])
    show "store_formal E fn (x, arg) s = Inr ?t"
      using a(1) [simplified] r(1) [simplified] fn by (simp add: store_formal_def m(1) skip_def)
    show "keeps_state v {addr_of x} s ?t" by (rule kt)
    show "addr_of x \<in> dom (loc_of ?t)" by simp
    fix M L K X V0 p rho mem sigma p1 vals w
    assume M: "part_of (view v ?t) M" and L: "loc_of ?t (addr_of x) = L (addr_of x)"
      and q: "reaches M L K X V0 p rho mem sigma (view v s) p1 vals" and v: "(arg, Int_val w) \<in> vals"
    from q have "reaches M L K X V0 p rho mem sigma (view v ?s2) p1 vals"
      using a(3,4) m(2) by (simp add: reaches_def runs_def at_end_def)
    then show "reaches M L K X V0 p rho mem (sigma(addr_of x \<mapsto> w)) (view v ?t) p1 vals"
      unfolding view_simps by (rule reaches_store [OF _ r(2) _ M [unfolded view_simps] _ v])
        (use L at k2(1) in \<open>simp_all add: tr_ready_def\<close>)
  qed
qed

lemma store_formals_effect:
  assumes laws: "llvm_laws (te_llvm E) v" and n: "2 \<le> te_fuel E" and rd: "tr_ready v s" and fn: "tr_function s = Some fn"
    and len: "length formals = length args" and i: "\<forall>x \<in> set formals. int_node E x" and d: "distinct (map addr_of formals)"
  shows "\<exists>t. foldE (store_formal E fn) (zip formals args) s = Inr t \<and> keeps_state v (addr_of ` set formals) s t \<and>
    addr_of ` set formals \<subseteq> dom (loc_of t) \<and>
    (\<forall>M L K X V0 p rho mem sigma p1 vals ws. part_of (view v t) M \<longrightarrow> (\<forall>x \<in> set formals. loc_of t (addr_of x) = L (addr_of x)) \<longrightarrow>
       reaches M L K X V0 p rho mem sigma (view v s) p1 vals \<longrightarrow> length ws = length args \<longrightarrow>
       set (zip args (map Int_val ws)) \<subseteq> vals \<longrightarrow>
       reaches M L K X V0 p rho mem (sigma(map addr_of formals [\<mapsto>] ws)) (view v t) p1 vals)"
  using len rd fn i d
proof (induction formals args arbitrary: s rule: list_induct2)
  case Nil
  then show ?case by (intro exI [of _ s]) (auto simp: keeps_refl)
next
  case (Cons x xs a as)
  obtain s1 where s1: "store_formal E fn (x, a) s = Inr s1" "keeps_state v {addr_of x} s s1" "addr_of x \<in> dom (loc_of s1)"
    and st: "\<And>M L K X V0 p rho mem sigma p1 vals w. part_of (view v s1) M \<Longrightarrow> loc_of s1 (addr_of x) = L (addr_of x) \<Longrightarrow>
       reaches M L K X V0 p rho mem sigma (view v s) p1 vals \<Longrightarrow> (a, Int_val w) \<in> vals \<Longrightarrow>
       reaches M L K X V0 p rho mem (sigma(addr_of x \<mapsto> w)) (view v s1) p1 vals"
    by (rule store_formal_effect [OF laws Cons.prems(1,2) _ n, of x a]) (use Cons.prems(3) in simp, rule that)
  note k1 = keepsD [OF s1(2)]
  have ih: "tr_function s1 = Some fn" "\<forall>x \<in> set xs. int_node E x" "distinct (map addr_of xs)"
    using Cons.prems k1(2) by simp_all
  from Cons.IH [OF k1(1) ih] obtain t where t0: "foldE (store_formal E fn) (zip xs as) s1 = Inr t \<and>
    keeps_state v (addr_of ` set xs) s1 t \<and> addr_of ` set xs \<subseteq> dom (loc_of t) \<and>
    (\<forall>M L K X V0 p rho mem sigma p1 vals ws. part_of (view v t) M \<longrightarrow> (\<forall>x \<in> set xs. loc_of t (addr_of x) = L (addr_of x)) \<longrightarrow>
       reaches M L K X V0 p rho mem sigma (view v s1) p1 vals \<longrightarrow> length ws = length as \<longrightarrow>
       set (zip as (map Int_val ws)) \<subseteq> vals \<longrightarrow>
       reaches M L K X V0 p rho mem (sigma(map addr_of xs [\<mapsto>] ws)) (view v t) p1 vals)" ..
  note t = conjunct1 [OF t0] conjunct1 [OF conjunct2 [OF t0]] conjunct1 [OF conjunct2 [OF conjunct2 [OF t0]]]
    and sts = conjunct2 [OF conjunct2 [OF conjunct2 [OF t0]], rule_format]
  have lx: "loc_of t (addr_of x) = loc_of s1 (addr_of x)"
    by (rule keepsD(6) [OF t(2)]) (use Cons.prems(4) in auto)
  show ?case
  proof (intro exI [of _ t] conjI allI impI)
    show "foldE (store_formal E fn) (zip (x # xs) (a # as)) s = Inr t" by (simp add: s1(1) t(1))
    show "keeps_state v (addr_of ` set (x # xs)) s t" by (rule keeps_trans [OF s1(2) t(2)]) simp
    show "addr_of ` set (x # xs) \<subseteq> dom (loc_of t)" using t(3) lx s1(3) by (auto simp: dom_def)
    fix M L K X V0 p rho mem sigma p1 vals and ws :: "i64 list"
    assume M: "part_of (view v t) M" and L: "\<forall>y \<in> set (x # xs). loc_of t (addr_of y) = L (addr_of y)"
      and q: "reaches M L K X V0 p rho mem sigma (view v s) p1 vals" and ws: "length ws = length (a # as)"
      and vs: "set (zip (a # as) (map Int_val ws)) \<subseteq> vals"
    from ws obtain w us where w: "ws = w # us" "length us = length as" by (cases ws) auto
    have "part_of (view v s1) M" using below_trans [OF grows_any [OF keepsD(4) [OF t(2)]] M] .
    from st [OF this _ q, of w] have "reaches M L K X V0 p rho mem (sigma(addr_of x \<mapsto> w)) (view v s1) p1 vals"
      using L lx vs w by simp
    from sts [OF M _ this w(2)] show "reaches M L K X V0 p rho mem (sigma(map addr_of (x # xs) [\<mapsto>] ws)) (view v t) p1 vals"
      using L vs w by simp
  qed
qed

section \<open>The beginning and the end of a body\<close>

text \<open>The entry block, where the builder goes.\<close>

lemma entry_effect:
  assumes laws: "llvm_laws (te_llvm E) v" and ok: "view_ok (view v s)" and f: "tr_function s = Some fn" "entry_of (view v s) fn = None"
  obtains bb m where
    "\<And>k. api E (Block_create x (Some fn)) (\<lambda>bb. api E (Set_insert_point bb) (\<lambda>_. k bb)) s = k bb (s\<lparr>tr_module := m\<rparr>)"
    "bb \<notin> known (view v s)" "ll_grows {} (view v s) (v m)" "tr_ready v (s\<lparr>tr_module := m\<rparr>)" "point (v m) = Some bb" "code_of (v m) bb = []"
    "entry_of (v m) fn = Some bb"
proof -
  obtain bb m1 where b: "\<And>k. api E (Block_create x (Some fn)) k s = k bb (s\<lparr>tr_module := m1\<rparr>)"
    "ll_effect (view v s) (Block_create x (Some fn)) bb (v m1)"
    using api_effect [OF laws ok, of "Block_create x (Some fn)"] by (auto simp: needs_block_def)
  have v1: "bb \<notin> known (view v s)" "v m1 = (view v s)\<lparr>known := insert bb (known (view v s)), entry_of := (entry_of (view v s))(fn \<mapsto> bb)\<rparr>"
    using b(2) f(2) by (auto simp: ll_effect_def first_block_def)
  have g1: "ll_grows {} (view v s) (v m1)" using f(2) ok by (auto simp: v1(2) ll_grows_def map_le_def view_ok_def)
  have ok1: "view_ok (view v (s\<lparr>tr_module := m1\<rparr>))" using ok by (auto simp: v1(2) view_ok_def)
  obtain r m where m: "\<And>k. api E (Set_insert_point bb) k (s\<lparr>tr_module := m1\<rparr>) = k r (s\<lparr>tr_module := m1\<rparr>\<lparr>tr_module := m\<rparr>)"
    "v m = (view v (s\<lparr>tr_module := m1\<rparr>))\<lparr>point := Some bb\<rparr>"
    using move_effect [OF laws ok1] by blast
  note m = m [simplified]
  have bb: "bb \<in> known (v m1)" by (simp add: v1(2))
  note mv = move_grows [OF ok1 [unfolded view_simps] bb, folded m(2)]
  have "ll_grows {} (view v s) (v m)" by (rule ll_grows_trans [OF g1 mv(1)]) auto
  moreover have "code_of (v m) bb = []" using ok v1(1) by (simp add: m(2) v1(2) view_ok_def)
  ultimately show ?thesis
    by (intro that [of bb m]) (use b(1) m(1) v1 mv f(1) in \<open>simp_all add: m(2) tr_ready_def\<close>)
qed

text \<open>The variables of the caller are where the arguments say; the formals get new ones.\<close>

lemma bind_effect:
  assumes laws: "llvm_laws (te_llvm E) v" and n: "2 \<le> te_fuel E" and rd: "tr_ready v s" and fn: "tr_function s = Some fn"
    and new: "loc_of s = Map.empty" and escs: "escapes_of f s = escs"
    and args: "args_of (view v s) fn = ptrs @ args" "length ptrs = length escs" "length args = length formals"
    and kn: "distinct ptrs" "set ptrs \<subseteq> known (view v s)"
    and i: "\<forall>x \<in> set formals. int_node E x" and d: "distinct (escs @ map addr_of formals)"
  obtains s1 t where "bind_arguments E fn f formals s = Inr t" "view v s1 = view v s" "tr_function s1 = Some fn"
    "\<forall>g. g \<noteq> Some fn \<longrightarrow> tr_locals s1 g = tr_locals s g" "loc_of s1 = map_of (zip escs ptrs)" "placed v s1"
    "keeps_state v (addr_of ` set formals) s1 t" "addr_of ` set formals \<subseteq> dom (loc_of t)"
    "\<forall>M L K X V0 p rho mem sigma p1 vals ws. part_of (view v t) M \<longrightarrow> (\<forall>x \<in> set formals. loc_of t (addr_of x) = L (addr_of x)) \<longrightarrow>
       reaches M L K X V0 p rho mem sigma (view v s) p1 vals \<longrightarrow> length ws = length args \<longrightarrow>
       set (zip args (map Int_val ws)) \<subseteq> vals \<longrightarrow>
       reaches M L K X V0 p rho mem (sigma(map addr_of formals [\<mapsto>] ws)) (view v t) p1 vals"
proof -
  let ?s0 = "if tr_escaped s f = None then s\<lparr>tr_escaped := (tr_escaped s)(f \<mapsto> {})\<rparr> else s"
  let ?s1 = "fold (\<lambda>(d, a). local_put d a) (zip escs ptrs) ?s0"
  have s0: "view v ?s0 = view v s" "tr_function ?s0 = Some fn" "loc_of ?s0 = Map.empty" "tr_locals ?s0 = tr_locals s" "escapes_of f ?s0 = escs"
    "tr_module ?s0 = tr_module s"
    using fn new escs by (auto simp: view_def loc_of_def escapes_of_def)
  note puts = local_puts [where xs = "zip escs ptrs" and s = ?s0]
  have fst: "map fst (zip escs ptrs) = escs" "map snd (zip escs ptrs) = ptrs" using args(2) by simp_all
  have loc: "loc_of ?s1 = map_of (zip escs ptrs)"
    unfolding puts(5) s0(3) using map_of_inject_set [of "rev (zip escs ptrs)" "zip escs ptrs"] d by (simp add: rev_map [symmetric] fst)
  have ran: "ran (loc_of ?s1) = set ptrs" using d args(2) by (simp add: loc ran_map_of_zip)
  have placed: "placed v ?s1"
    unfolding placed_def ran loc puts(1) s0(1)
  proof (intro conjI inj_onI)
    fix x y assume x: "x \<in> dom (map_of (zip escs ptrs))" and e: "map_of (zip escs ptrs) x = map_of (zip escs ptrs) y"
    from domD [OF x] obtain a where "map_of (zip escs ptrs) x = Some a" ..
    with e have "(x, a) \<in> set (zip escs ptrs)" "(y, a) \<in> set (zip escs ptrs)" by (metis map_of_SomeD)+
    then show "x = y" using kn(1) by (auto simp: set_zip nth_eq_iff_index_eq)
  qed (use ran loc kn(2) in simp)
  have rd1: "tr_ready v ?s1" using rd by (simp add: tr_ready_def puts(1,2) s0(1) fn s0(2))
  have fn1: "tr_function ?s1 = Some fn" by (simp only: puts(2) s0(2))
  have len: "length formals = length args" using args(3) by simp
  have da: "distinct (map addr_of formals)" using d by simp
  obtain t where t: "foldE (store_formal E fn) (zip formals args) ?s1 = Inr t \<and> keeps_state v (addr_of ` set formals) ?s1 t \<and>
    addr_of ` set formals \<subseteq> dom (loc_of t) \<and>
    (\<forall>M L K X V0 p rho mem sigma p1 vals ws. part_of (view v t) M \<longrightarrow> (\<forall>x \<in> set formals. loc_of t (addr_of x) = L (addr_of x)) \<longrightarrow>
       reaches M L K X V0 p rho mem sigma (view v ?s1) p1 vals \<longrightarrow> length ws = length args \<longrightarrow>
       set (zip args (map Int_val ws)) \<subseteq> vals \<longrightarrow>
       reaches M L K X V0 p rho mem (sigma(map addr_of formals [\<mapsto>] ws)) (view v t) p1 vals)"
    using store_formals_effect [OF laws n rd1 fn1 len i da] ..
  have "ll_args (te_llvm E) (tr_module ?s0) fn = ptrs @ args"
    using observations(2) [OF laws] args(1) s0(6) by (simp add: view_def)
  moreover have "zip escs (ptrs @ args) = zip escs ptrs" using args(2) by (simp add: zip_append2)
  ultimately have "bind_arguments E fn f formals s = foldE (store_formal E fn) (zip formals args) ?s1"
    using args(2,3) s0(5) by (simp add: bind_arguments_def Let_def)
  with t have b: "bind_arguments E fn f formals s = Inr t" by simp
  have g: "\<forall>g. g \<noteq> Some fn \<longrightarrow> tr_locals ?s1 g = tr_locals s g" using puts(6) s0(2,4) by simp
  have "view v ?s1 = view v s" by (simp only: puts(1) s0(1))
  then show ?thesis
    by (rule that [OF b _ fn1 g loc placed]) (use t puts(1) [of v] s0(1) in simp_all)
qed

text \<open>The return, and the function and the block of before.\<close>

lemma finish_effect:
  assumes laws: "llvm_laws (te_llvm E) v" and rd: "tr_ready v s" and void: "void_result E f = Inr void"
    and y: "\<not> void \<longrightarrow> y = Some x" and old: "set_option old \<subseteq> known (view v s)"
  obtains t where "finish_body E fn f g old y s = Inr t" "tr_function t = g" "tr_locals t = tr_locals s" "tr_escaped t = tr_escaped s"
    "ll_grows (set_option (point (view v s))) (view v s) (view v t)" "point (view v t) = old" "view_ok (view v t)"
    "\<forall>M p rho mem w. part_of (view v t) M \<longrightarrow> (\<not> void \<longrightarrow> value_of M rho x = Some (Int_val w)) \<longrightarrow>
       ll_step M (at_end (view v s) p rho mem) = Some (Returned (if void then None else Some (Int_val w)) mem)"
proof -
  from tr_readyD [OF rd] obtain b where b: "point (view v s) = Some b" "b \<in> known (view v s)" by blast
  define c where "c = (if void then Create_ret_void else Create_ret x)"
  obtain r m where r: "\<And>k. api E c k s = k r (s\<lparr>tr_module := m\<rparr>)" "emits (view v s) c r (v m)"
    "ll_grows (set_option (point (view v s))) (view v s) (v m)" "view_ok (v m)" "point (v m) = point (view v s)"
    by (rule emit_effect [OF laws rd, of c], simp add: ll_effect_def c_def, rule that)
  have ok1: "view_ok (view v (s\<lparr>tr_module := m\<rparr>))" using r(4) by simp
  obtain q m2 where q: "\<And>k. api E (Verify_function fn) k (s\<lparr>tr_module := m\<rparr>) = k q (s\<lparr>tr_module := m\<rparr>\<lparr>tr_module := m2\<rparr>)" "v m2 = v m"
    using api_effect [OF laws ok1, of "Verify_function fn"] by (auto simp: needs_block_def ll_effect_def)
  let ?s2 = "s\<lparr>tr_module := m2, tr_function := g\<rparr>"
  have ok2: "view_ok (view v ?s2)" using r(4) q(2) by (simp add: view_def)
  obtain z m3 where z: "\<And>k. api E (Restore_ip old) k ?s2 = k z (?s2\<lparr>tr_module := m3\<rparr>)" "v m3 = (v m)\<lparr>point := old\<rparr>"
    using api_effect [OF laws ok2, of "Restore_ip old"] q(2) by (auto simp: needs_block_def ll_effect_def view_def)
  let ?t = "s\<lparr>tr_module := m3, tr_function := g\<rparr>"
  have g: "ll_grows {} (v m) (v m3)" by (auto simp: z(2) ll_grows_def)
  show ?thesis
  proof (rule that [of ?t])
    show "finish_body E fn f g old y s = Inr ?t"
      using r(1) y q(1) z(1) by (cases void) (simp_all add: finish_body_def void c_def need_def skip_def)
    show "ll_grows (set_option (point (view v s))) (view v s) (view v ?t)"
      using ll_grows_trans [OF r(3) g] by (simp add: view_def)
    show "view_ok (view v ?t)" "point (view v ?t) = old"
      using r(4) old ll_growsD(1) [OF r(3)] by (auto simp: view_def z(2) view_ok_def)
    show "\<forall>M p rho mem w. part_of (view v ?t) M \<longrightarrow> (\<not> void \<longrightarrow> value_of M rho x = Some (Int_val w)) \<longrightarrow>
       ll_step M (at_end (view v s) p rho mem) = Some (Returned (if void then None else Some (Int_val w)) mem)"
    proof (intro allI impI)
      fix M p rho mem w
      assume M: "part_of (view v ?t) M" and w: "\<not> void \<longrightarrow> value_of M rho x = Some (Int_val w)"
      have "part_of (v m) M" using below_trans [OF grows_any [OF g]] M by (simp add: view_def)
      note at = emitted_at [OF r(2) b(1) this b(2)]
      show "ll_step M (at_end (view v s) p rho mem) = Some (Returned (if void then None else Some (Int_val w)) mem)"
        using at(1,2) w b(1) by (cases void) (simp_all add: at_end_def ll_step_def ll_execute_def c_def)
    qed
  qed simp_all
qed

section \<open>A function\<close>

text \<open>The declaration of a function whose body is in the fragment, and the function of the module that was made for it.\<close>

definition int_function ::
  "'m tr_env \<Rightarrow> ('m \<Rightarrow> ll_view) \<Rightarrow> 'm tr_state \<Rightarrow> ast \<Rightarrow> addr \<Rightarrow> addr list \<Rightarrow> addr list \<Rightarrow> bool \<Rightarrow> ast list \<Rightarrow> ast \<Rightarrow> bool" where
  "int_function E v s d fn escs ptrs void formals body \<longleftrightarrow> (\<exists>name f args.
     dec_parts d = Some (name, formals, Some body) \<and> static_function E d = Inr f \<and> void_result E f = Inr void \<and>
     escapes_of f s = escs \<and> fn_named (view v s) (function_dec_name name (Some body)) = Some fn \<and>
     entry_of (view v s) fn = None \<and> tr_locals s (Some fn) = None \<and>
     args_of (view v s) fn = ptrs @ args \<and> length ptrs = length escs \<and> length args = length formals \<and>
     distinct ptrs \<and> set (ptrs @ args) \<subseteq> known (view v s)) \<and>
   (\<forall>x \<in> set formals. int_node E x) \<and> distinct (escs @ map addr_of formals @ decls body) \<and>
   int_code E (set escs \<union> set (map addr_of formals)) (\<not> void) body"

definition variables :: "'m tr_state \<Rightarrow> addr \<Rightarrow> addr \<rightharpoonup> addr" where
  "variables s fn = (case tr_locals s (Some fn) of None \<Rightarrow> Map.empty | Some m \<Rightarrow> m)"

text \<open>
  A call in the module \<open>M\<close>: the variables \<open>L\<close> of the function are in the cells \<open>C\<close>; those that come from the functions
  around it have their values, and the arguments have the values \<open>ws\<close>.
\<close>

definition called ::
  "ll_view \<Rightarrow> (addr \<Rightarrow> addr) \<Rightarrow> (addr \<rightharpoonup> addr) \<Rightarrow> valuation \<Rightarrow> addr list \<Rightarrow> i64 list \<Rightarrow> registers \<Rightarrow> cells \<Rightarrow> bool" where
  "called M C L sigma args ws rho mem \<longleftrightarrow> inj_on C (ran L) \<and> (\<forall>a \<in> ran L. value_of M rho a = Some (Cell (C a))) \<and>
     (\<forall>d a w. L d = Some a \<longrightarrow> sigma d = Some w \<longrightarrow> mem (C a) = Some (Int_val w)) \<and>
     map (value_of M rho) args = map (\<lambda>w. Some (Int_val w)) ws"

text \<open>The call returns the value, leaves the variables in their cells, and changes no other cell.\<close>

definition returns ::
  "ll_view \<Rightarrow> (addr \<Rightarrow> addr) \<Rightarrow> (addr \<rightharpoonup> addr) \<Rightarrow> addr \<Rightarrow> registers \<Rightarrow> cells \<Rightarrow> ll_val option \<Rightarrow> valuation \<Rightarrow> bool" where
  "returns M C L entry rho mem result sigma \<longleftrightarrow> (\<exists>mem'.
     ll_steps M (Run None entry 0 rho mem) (Returned result mem') \<and>
     (\<forall>d a w. L d = Some a \<longrightarrow> sigma d = Some w \<longrightarrow> mem' (C a) = Some (Int_val w)) \<and>
     (\<forall>c. c \<notin> C ` ran L \<longrightarrow> mem' c = mem c))"

lemma tracks_called:
  assumes "called M C L sigma args ws rho mem" and "inj_on L (dom L)"
  shows "tracks M L (C \<circ> the \<circ> L) sigma rho mem"
proof -
  have "inj_on (C \<circ> the \<circ> L) (dom L)"
  proof (rule inj_onI)
    fix x y assume "x \<in> dom L" "y \<in> dom L" and e: "(C \<circ> the \<circ> L) x = (C \<circ> the \<circ> L) y"
    then obtain a b where ab: "L x = Some a" "L y = Some b" by blast
    then have "a \<in> ran L" "b \<in> ran L" by (auto intro: ranI)
    with ab e assms(1) have "a = b" by (auto simp: called_def dest: inj_onD)
    with ab show "x = y" using inj_onD [OF assms(2), of x y] by auto
  qed
  with assms(1) show ?thesis by (auto simp: tracks_def called_def intro: ranI)
qed

lemma cells_of: "(C \<circ> the \<circ> L) ` dom L = C ` ran L"
proof -
  have "(the \<circ> L) ` dom L = ran L" by (force simp: ran_def dom_def image_iff)
  then have "C ` (the \<circ> L) ` dom L = C ` ran L" by simp
  then show ?thesis by (simp add: image_image)
qed

lemma reaches_returns:
  assumes r: "reaches M L (C \<circ> the \<circ> L) X V None rho mem sigma V' p vals" and V: "point V = Some b" "code_of V b = []"
    and ret: "\<And>rho mem. \<forall>(x, z) \<in> vals. value_of M rho x = Some z \<Longrightarrow> ll_step M (at_end V' p rho mem) = Some (Returned result mem)"
  shows "returns M C L b rho mem result sigma"
proof -
  from r obtain rho' mem' where r: "runs M X V None rho mem V' p rho' mem'" "tracks M L (C \<circ> the \<circ> L) sigma rho' mem'"
    "\<forall>(x, z) \<in> vals. value_of M rho' x = Some z" "\<forall>c. c \<notin> C ` ran L \<longrightarrow> mem' c = mem c"
    unfolding reaches_def cells_of by blast
  have "ll_steps M (Run None b 0 rho mem) (Returned result mem')"
    using r(1) ll_steps_trans [OF _ ll_steps_one [OF ret [OF r(3)]]] by (simp add: runs_def at_end_def V)
  moreover have "mem' (C a) = Some (Int_val w)" if "L d = Some a" "sigma d = Some w" for d a w
    using r(2) that by (fastforce simp: tracks_def)
  ultimately show ?thesis using r(4) unfolding returns_def by blast
qed

text \<open>From the entry block: the formals, the body, the return.\<close>

lemma call_returns:
  assumes c: "called M C L sigma args ws rho mem" and inj: "inj_on L (dom L)" and V: "point V = Some bb" "code_of V bb = []"
    and formals: "\<And>vals. reaches M L (C \<circ> the \<circ> L) UNIV V None rho mem sigma V None vals \<Longrightarrow> length ws = length args \<Longrightarrow>
      set (zip args (map Int_val ws)) \<subseteq> vals \<Longrightarrow> reaches M L (C \<circ> the \<circ> L) UNIV V None rho mem (sigma(ds [\<mapsto>] ws)) V3 None vals"
    and sim: "simulates M L (C \<circ> the \<circ> L) V3 V4 y F" and f: "F (sigma(ds [\<mapsto>] ws)) w sigma'" and kn: "set args \<subseteq> known V3"
    and ret: "\<And>p rho mem. \<forall>x. y = Some x \<longrightarrow> value_of M rho x = Some (Int_val w) \<Longrightarrow>
      ll_step M (at_end V4 p rho mem) = Some (Returned r mem)"
  shows "returns M C L bb rho mem r sigma'"
proof -
  let ?vals = "set (zip args (map Int_val ws))"
  have len: "length ws = length args" using c unfolding called_def by (metis length_map)
  have "\<forall>(x, z) \<in> ?vals. value_of M rho x = Some z"
    using c len by (auto simp: called_def set_zip list_eq_iff_nth_eq)
  then have "reaches M L (C \<circ> the \<circ> L) UNIV V None rho mem sigma V None ?vals"
    using tracks_called [OF c inj] by (auto simp: reaches_def intro: runs_refl)
  from formals [OF this len order_refl] have r: "reaches M L (C \<circ> the \<circ> L) UNIV V None rho mem (sigma(ds [\<mapsto>] ws)) V3 None ?vals" .
  have "fst ` ?vals \<subseteq> known V3" using kn len by (simp add: set_map [symmetric] del: set_map)
  then obtain p2 where "reaches M L (C \<circ> the \<circ> L) UNIV V None rho mem sigma' V4 p2 (?vals \<union> {(x, Int_val w) |x. y = Some x})"
    by (rule reaches_sim [OF r sim f subset_UNIV])
  then show ?thesis by (rule reaches_returns [OF _ V], intro ret) auto
qed

lemma function_code:
  assumes laws: "llvm_laws (te_llvm E) v" and n: "2 \<le> te_fuel E" and ok: "view_ok (view v s)"
    and d: "int_function E v s d fn escs ptrs void formals body"
  obtains t entry L where "visit_function_dec_body E (tr_visit E) d s = Inr t" "tr_function t = tr_function s" "point (view v t) = point (view v s)"
    "view_ok (view v t)" "ll_grows {} (view v s) (view v t)" "\<forall>g. g \<noteq> Some fn \<longrightarrow> tr_locals t g = tr_locals s g"
    "entry_of (view v t) fn = Some entry" "L = variables t fn" "inj_on L (dom L)" "map_of (zip escs ptrs) \<subseteq>\<^sub>m L"
    "ran L \<subseteq> set ptrs \<union> (allocas (view v t) - known (view v s))"
    "\<forall>M C sigma w sigma' ws rho mem. part_of (view v t) M \<longrightarrow>
       called M C L sigma (drop (length escs) (args_of M fn)) ws rho mem \<longrightarrow>
       means (te_prog E) body (sigma(map addr_of formals [\<mapsto>] ws)) w sigma' \<longrightarrow>
       returns M C L entry rho mem (if void then None else Some (Int_val w)) sigma'"
proof -
  let ?fs = "map addr_of formals"
  from d obtain name f args where parts: "dec_parts d = Some (name, formals, Some body)" "static_function E d = Inr f"
    "void_result E f = Inr void" "escapes_of f s = escs"
    and fn: "fn_named (view v s) (function_dec_name name (Some body)) = Some fn" "entry_of (view v s) fn = None" "tr_locals s (Some fn) = None"
    and args: "args_of (view v s) fn = ptrs @ args" "length ptrs = length escs" "length args = length formals" "distinct ptrs" "set (ptrs @ args) \<subseteq> known (view v s)"
    and i: "\<forall>x \<in> set formals. int_node E x" and dist: "distinct (escs @ ?fs @ decls body)"
    and code: "int_code E (set escs \<union> set ?fs) (\<not> void) body"
    unfolding int_function_def by blast
  let ?s0 = "s\<lparr>tr_function := Some fn\<rparr>"
  have s0: "view v ?s0 = view v s" by (simp add: view_def)
  have fn0: "tr_function ?s0 = Some fn" by simp
  obtain bb m where e: "\<And>k. api E (Block_create (''entry_'' @ name) (Some fn)) (\<lambda>bb. api E (Set_insert_point bb) (\<lambda>_. k bb)) ?s0 = k bb (?s0\<lparr>tr_module := m\<rparr>)"
    "bb \<notin> known (view v ?s0)" "ll_grows {} (view v ?s0) (v m)" "tr_ready v (?s0\<lparr>tr_module := m\<rparr>)" "point (v m) = Some bb" "code_of (v m) bb = []"
    "entry_of (v m) fn = Some bb"
    by (rule entry_effect [OF laws ok [folded s0] fn0 fn(2) [folded s0], of "''entry_'' @ name"], rule that)
  note e = e [unfolded s0]
  let ?s1 = "?s0\<lparr>tr_module := m\<rparr>"
  have new: "loc_of ?s1 = Map.empty" "escapes_of f ?s1 = escs" "tr_function ?s1 = Some fn" using fn(3) parts(4) by (simp_all add: loc_of_def escapes_of_def)
  have a1: "args_of (view v ?s1) fn = ptrs @ args" "set ptrs \<subseteq> known (view v ?s1)" using args ll_growsD(1,11) [OF e(3)] by auto
  have dist1: "distinct (escs @ ?fs)" using dist by (simp add: Int_Un_distrib)
  obtain s2 s3 where s3: "bind_arguments E fn f formals ?s1 = Inr s3" "view v s2 = view v ?s1" "tr_function s2 = Some fn"
    "\<forall>g. g \<noteq> Some fn \<longrightarrow> tr_locals s2 g = tr_locals ?s1 g" "loc_of s2 = map_of (zip escs ptrs)" "placed v s2"
    "keeps_state v (addr_of ` set formals) s2 s3" "addr_of ` set formals \<subseteq> dom (loc_of s3)"
    "\<forall>M L K X V0 p rho mem sigma p1 vals ws. part_of (view v s3) M \<longrightarrow> (\<forall>x \<in> set formals. loc_of s3 (addr_of x) = L (addr_of x)) \<longrightarrow>
       reaches M L K X V0 p rho mem sigma (view v ?s1) p1 vals \<longrightarrow> length ws = length args \<longrightarrow>
       set (zip args (map Int_val ws)) \<subseteq> vals \<longrightarrow>
       reaches M L K X V0 p rho mem (sigma(map addr_of formals [\<mapsto>] ws)) (view v s3) p1 vals"
    by (rule bind_effect [OF laws n e(4) new(3,1,2) a1(1) args(2,3,4) a1(2) i dist1], rule that)
  note k3 = keepsD [OF s3(7)]
  let ?D = "set escs \<union> set ?fs" and ?A = "set (decls body)"
  have "loc_of s3 x = loc_of s2 x" if "x \<in> set escs" for x
    by (rule k3(6)) (use that dist in auto)
  then have "set escs \<subseteq> dom (loc_of s3)" using s3(5) args(2) by (auto simp: dom_def) (metis domD dom_map_of_zip)
  then have D3: "?D \<subseteq> dom (loc_of s3)" using s3(8) by auto
  have cb: "compiled v ?D ?A (\<not> void) (tr_visit E body) (means (te_prog E) body)"
    by (rule code_is_right(1) [OF laws n code]) (use dist in auto)
  obtain s4 where s4: "tr_visit E body s3 = Inr s4" "compiles v ?D ?A (\<not> void) (means (te_prog E) body) s3 s4"
    using compiledE [OF cb k3(1) D3] .
  note k4 = compilesD(1) [OF s4(2)]
  note k24 = keeps_trans [OF s3(7) k4 order_refl]
  obtain x where x: "\<not> void \<longrightarrow> tr_value s4 = Some x" using compilesD(2) [OF s4(2)] by (cases void) (auto simp: int_value_def)
  have g04: "ll_grows {} (view v s) (view v s4)"
    by (rule ll_grows_trans [OF e(3)]) (use keepsD(4) [OF k24] s3(2) e(2,5) in auto)
  have old: "set_option (point (view v s)) \<subseteq> known (view v s4)" using ok ll_growsD(1) [OF g04] by (auto simp: view_ok_def)
  obtain t where t: "finish_body E fn f (tr_function s) (point (view v s)) (tr_value s4) s4 = Inr t" "tr_function t = tr_function s"
    "tr_locals t = tr_locals s4" "tr_escaped t = tr_escaped s4"
    "ll_grows (set_option (point (view v s4))) (view v s4) (view v t)" "point (view v t) = point (view v s)" "view_ok (view v t)"
    and ret: "\<forall>M p rho mem w. part_of (view v t) M \<longrightarrow> (\<not> void \<longrightarrow> value_of M rho x = Some (Int_val w)) \<longrightarrow>
       ll_step M (at_end (view v s4) p rho mem) = Some (Returned (if void then None else Some (Int_val w)) mem)"
    by (rule finish_effect [OF laws keepsD(1) [OF k4] parts(3) x old, where fn = fn and g = "tr_function s"], rule that)
  have g0t: "ll_grows {} (view v s) (view v t)"
    by (rule ll_grows_trans [OF g04 t(5)]) (use keepsD(5) [OF k24] s3(2) e(2,3,5) ll_growsD(1) [OF e(3)] in auto)
  have run: "visit_function_dec_body E (tr_visit E) d s = Inr t"
    using fn(1) s3(1) s4(1) t(1) by (simp add: visit_function_dec_body_def parts need_Some observations [OF laws] view_def [symmetric] e(1) [simplified]
      translate_def insert_block_def)
  define L where "L = loc_of s4"
  have fn4: "tr_function s4 = Some fn" using keepsD(2) [OF k24] s3(3) by simp
  have Lt: "L = variables t fn" by (simp add: L_def loc_of_def variables_def fn4 t(3))
  note fr = keeps_frame [OF k24]
  have inj: "inj_on L (dom L)" and ranL: "ran L \<subseteq> ran (loc_of s2) \<union> (allocas (view v s4) - known (view v s2))"
    using fr s3(6) by (auto simp: frame_kept_def placed_def L_def)
  have ptrs: "map_of (zip escs ptrs) \<subseteq>\<^sub>m L"
    unfolding s3(5) [symmetric] map_le_def
  proof
    fix a assume a: "a \<in> dom (loc_of s2)"
    then have "a \<in> set escs" using s3(5) by (auto dest: map_of_SomeD set_zip_leftD)
    then have "a \<notin> addr_of ` set formals \<union> ?A" using dist by auto
    from keepsD(6) [OF k24 this] show "loc_of s2 a = L a" by (simp add: L_def)
  qed
  have "ran (loc_of s2) \<subseteq> set ptrs" using s3(5) by (auto simp: ran_def dest!: map_of_SomeD dest: set_zip_rightD)
  then have ran: "ran L \<subseteq> set ptrs \<union> (allocas (view v t) - known (view v s))"
    using ranL ll_growsD(9) [OF t(5)] s3(2) ll_growsD(1) [OF e(3)] by auto
  show ?thesis
  proof (rule that [OF run t(2,6,7) g0t _ _ Lt inj ptrs ran])
    show "\<forall>g. g \<noteq> Some fn \<longrightarrow> tr_locals t g = tr_locals s g"
      using t(3) keepsD(7) [OF k24] s3(3,4) by simp
    show "entry_of (view v t) fn = Some bb"
      using e(7) ll_growsD(13) [OF keepsD(4) [OF k24]] ll_growsD(13) [OF t(5)] s3(2) by (force simp: map_le_def dom_def)
    show "\<forall>M C sigma w sigma' ws rho mem. part_of (view v t) M \<longrightarrow>
       called M C L sigma (drop (length escs) (args_of M fn)) ws rho mem \<longrightarrow>
       means (te_prog E) body (sigma(map addr_of formals [\<mapsto>] ws)) w sigma' \<longrightarrow>
       returns M C L bb rho mem (if void then None else Some (Int_val w)) sigma'"
    proof (intro allI impI)
      fix M C sigma w sigma' and ws :: "i64 list" and rho mem
      assume M: "part_of (view v t) M" and "called M C L sigma (drop (length escs) (args_of M fn)) ws rho mem"
        and f: "means (te_prog E) body (sigma(map addr_of formals [\<mapsto>] ws)) w sigma'"
      moreover have "drop (length escs) (args_of M fn) = args"
        using args(1,2) ll_growsD(11) [OF g0t] ll_growsD(11) [OF M] by simp
      ultimately have c: "called M C L sigma args ws rho mem" by simp
      note M4 = below_trans [OF grows_any [OF t(5)] M]
      note M3 = below_trans [OF grows_any [OF keepsD(4) [OF k4]] M4]
      have Lf: "loc_of s3 (addr_of x) = L (addr_of x)" if "x \<in> set formals" for x
      proof -
        have "addr_of x \<notin> ?A" using that dist by auto
        from keepsD(6) [OF k4 this] show ?thesis by (simp add: L_def)
      qed
      have "ran (loc_of s2) \<subseteq> known (view v s3)" using s3(6) known_kept [OF s3(7)] by (auto simp: placed_def)
      then have "ran L \<subseteq> known (view v s3) \<union> allocas M" using ranL ll_growsD(9) [OF M4] by auto
      then have sim: "simulates M L (C \<circ> the \<circ> L) (view v s3) (view v s4) (if \<not> void then tr_value s4 else None) (means (te_prog E) body)"
        by (intro compiles_sim [OF s4(2) M4]) (auto simp: L_def)
      have "set args \<subseteq> known (view v s3)"
        using args(5) ll_growsD(1) [OF e(3)] known_kept [OF s3(7)] s3(2) by auto
      then show "returns M C L bb rho mem (if void then None else Some (Int_val w)) sigma'"
        by (intro call_returns [OF c inj, where V = "view v ?s1", OF _ _ _ sim f]) (use e(5,6) s3(9) M3 Lf ret M x in auto)
    qed
  qed
qed

end
