(* ===== verification/Llvm_Builder.thy ===== *)
theory Llvm_Builder
  imports Translator_Function
begin

text \<open>
  A builder of instructions that does what \<open>llvm_laws\<close> says, on numbered objects: the laws can hold.  Then the code of a function
  with a loop, a conditional and variables, which is run.
\<close>

section \<open>A builder\<close>

text \<open>The next number, and the view, whose set of known objects is that of the numbers below.\<close>

type_synonym builder = "nat \<times> ll_view"

definition seen :: "builder \<Rightarrow> ll_view" where
  "seen m = (snd m)\<lparr>known := {..<fst m}\<rparr>"

definition emit_at :: "ll_call \<Rightarrow> builder \<Rightarrow> addr \<times> builder" where
  "emit_at c m = (case m of (n, V) \<Rightarrow> case point V of
     None \<Rightarrow> (0, m)
   | Some b \<Rightarrow> (n, Suc n, V\<lparr>code_of := (code_of V)(b := code_of V b @ [(c, n)]),
       ty_of := (ty_of V)(n := case result_type V c of None \<Rightarrow> 0 | Some t \<Rightarrow> t)\<rparr>))"

definition builder_do :: "ll_call \<Rightarrow> builder \<Rightarrow> addr \<times> builder" where
  "builder_do c m = (case m of (n, V) \<Rightarrow> (case c of
     Get_int64_ty \<Rightarrow> (int64 V, m)
   | Const_int t k \<Rightarrow> (n, Suc n, V\<lparr>const_of := (const_of V)(n \<mapsto> Int_val k), ty_of := (ty_of V)(n := t)\<rparr>)
   | Block_create _ f \<Rightarrow> (n, Suc n, V\<lparr>entry_of := first_block f n (entry_of V)\<rparr>)
   | Set_insert_point b \<Rightarrow> (0, n, V\<lparr>point := Some b\<rparr>)
   | Restore_ip p \<Rightarrow> (0, n, V\<lparr>point := p\<rparr>)
   | Alloca_at_begin _ _ _ \<Rightarrow> (n, Suc n, V\<lparr>allocas := insert n (allocas V)\<rparr>)
   | Create_zext_or_trunc x t _ \<Rightarrow> if ty_of V x = t then (x, m) else emit_at c m
   | Add_incoming phi v b \<Rightarrow> (0, n, V\<lparr>incoming := (incoming V)(phi := incoming V phi @ [(v, b)])\<rparr>)
   | _ \<Rightarrow> if needs_block c then emit_at c m else (0, m)))"

definition builder_llvm :: "builder llvm" where
  "builder_llvm =
     \<lparr>ll_do = builder_do, ll_type_of = (\<lambda>m. ty_of (snd m)), ll_is_pointer = (\<lambda>m a. False), ll_args = (\<lambda>m. args_of (snd m)),
      ll_entry = (\<lambda>m f. case entry_of (snd m) f of None \<Rightarrow> 0 | Some e \<Rightarrow> e), ll_function = (\<lambda>m. fn_named (snd m)),
      ll_insert_block = (\<lambda>m. point (snd m)), ll_triple64 = []\<rparr>"

lemma emit_at_emits:
  assumes "point (seen m) = Some b"
  shows "emits (seen m) c (fst (emit_at c m)) (seen (snd (emit_at c m)))"
proof -
  obtain n V where m: "m = (n, V)" by (cases m)
  have "result_type (seen m) c = result_type V c" by (cases c) (simp_all add: seen_def m result_type_def)
  with assms show ?thesis by (cases V) (auto simp: m emits_def emit_at_def seen_def lessThan_Suc split: option.split)
qed

lemma builder_laws: "llvm_laws builder_llvm seen"
  unfolding llvm_laws_def
proof (intro conjI allI impI)
  fix m :: builder and c
  assume p: "needs_block c \<longrightarrow> point (seen m) \<noteq> None"
  obtain n V where m: "m = (n, V)" by (cases m)
  have e: "needs_block c \<Longrightarrow> emits (seen m) c (fst (emit_at c m)) (seen (snd (emit_at c m)))"
    using p by (auto intro: emit_at_emits)
  show "ll_effect (seen m) c (fst (ll_do builder_llvm c m)) (seen (snd (ll_do builder_llvm c m)))"
    using e by (cases c; cases V)
      (auto simp: m builder_llvm_def builder_do_def ll_effect_def needs_block_def seen_def gives_constant_def lessThan_Suc)
qed (auto simp: builder_llvm_def seen_def)

section \<open>An example\<close>

text \<open>
  \<^verbatim>\<open>function gcd(a : int, b : int) : int = let var n := 0 in while a <> b do (n := n + 1; if a > b then a := a - b else b := b - a);
  if a = 1 then n else a end\<close>.
\<close>

definition gcd_body :: ast where
  "gcd_body = (let var = (\<lambda>k x. SimpleVar (header_at k) x) in
     LetExp (header_at 20)
       (ChunkList (header_at 21) [VarChunk (header_at 22) [VarDec (header_at 23) ''n'' None (Some (IntExp (header_at 24) 0))]])
       (SeqExp (header_at 25) [
         WhileExp (header_at 30) (OpExp (header_at 31) (var 32 ''a'') op_ne (var 33 ''b''))
           (SeqExp (header_at 34) [
             AssignExp (header_at 35) (var 36 ''n'') (OpExp (header_at 37) (var 38 ''n'') op_add (IntExp (header_at 39) 1)),
             IfExp (header_at 40) (OpExp (header_at 41) (var 42 ''a'') op_gt (var 43 ''b''))
               (AssignExp (header_at 44) (var 45 ''a'') (OpExp (header_at 46) (var 47 ''a'') op_sub (var 48 ''b'')))
               (AssignExp (header_at 49) (var 50 ''b'') (OpExp (header_at 51) (var 52 ''b'') op_sub (var 53 ''a'')))]),
         IfExp (header_at 54) (OpExp (header_at 55) (var 56 ''a'') op_eq (IntExp (header_at 57) 1)) (var 58 ''n'') (var 59 ''a'')]))"

definition gcd_formals :: "ast list" where
  "gcd_formals = [VarDec (header_at 12) ''a'' (Some (NameTy (header_at 14) ''int'')) None,
     VarDec (header_at 13) ''b'' (Some (NameTy (header_at 15) ''int'')) None]"

definition gcd_dec :: ast where
  "gcd_dec = FunctionDec (header_at 10) ''gcd'' (VarChunk (header_at 11) gcd_formals) (Some (NameTy (header_at 16) ''int'')) (Some gcd_body)"

definition gcd_env :: "builder tr_env" where
  "gcd_env =
     \<lparr>te_prog =
        \<lparr>ec_root = ChunkList (header_at 1) [FunctionChunk (header_at 2) [gcd_dec]],
         ec_defs = [32 \<mapsto> 12, 33 \<mapsto> 13, 36 \<mapsto> 23, 38 \<mapsto> 23, 42 \<mapsto> 12, 43 \<mapsto> 13, 45 \<mapsto> 12, 47 \<mapsto> 12, 48 \<mapsto> 13,
           50 \<mapsto> 13, 52 \<mapsto> 13, 53 \<mapsto> 12, 56 \<mapsto> 12, 58 \<mapsto> 23, 59 \<mapsto> 12],
         ec_store = types_new @ [Record_ty [(''a'', 0), (''b'', 0)], Function_ty 4 0],
         ec_types = (\<lambda>a. Some (if a = 10 then 5 else if a = 40 then 3 else 0)),
         ec_escape = (\<lambda>a. False)\<rparr>,
      te_llvm = builder_llvm, te_fuel = 2\<rparr>"

text \<open>The module with the header of the function, 2, and its arguments, 3 and 4; the builder is in the block 5.\<close>

definition gcd_module :: builder where
  "gcd_module = (10,
     \<lparr>known = {}, code_of = (\<lambda>b. []), point = Some 5, const_of = Map.empty, ty_of = (\<lambda>a. 0), incoming = (\<lambda>a. []), allocas = {},
      entry_of = Map.empty, args_of = (\<lambda>f. if f = 2 then [3, 4] else []), fn_named = [''gcd'' \<mapsto> 2], int64 = 0, int1 = 1\<rparr>)"

definition gcd_state :: "builder tr_state" where
  "gcd_state =
     \<lparr>tr_value = None, tr_function = Some 6, tr_module = gcd_module, tr_locals = Map.empty, tr_loop_end = Map.empty,
      tr_escaped = Map.empty, tr_type = None, tr_structs = Map.empty, tr_malloc = 0\<rparr>"

inductive_simps int_code_simps:
  "int_code E D b (IntExp h i)" "int_code E D b (SimpleVar h x)" "int_code E D b (OpExp h l oper r)"
  "int_code E D b (AssignExp h y e)" "int_code E D b (SeqExp h es)" "int_code E D b (IfExp h e f g)"
  "int_code E D b (WhileExp h e f)" "int_code E D b (LetExp h cs e)" "int_codes E D b []" "int_codes E D b [e]"
  "int_codes E D b (e # f # es)" "int_let E D b [] e" "int_let E D b (d # ds) e"

lemma gcd_types:
  "node_type gcd_env e = Some (if addr_of e = 10 then 5 else if addr_of e = 40 then 3 else 0)"
  "actual (ec_store (te_prog gcd_env)) 0 = Inr 0" "actual (ec_store (te_prog gcd_env)) 3 = Inr 3"
  "actual (ec_store (te_prog gcd_env)) 5 = Inr 5"
  "ty_at (ec_store (te_prog gcd_env)) 0 = Inr Int_ty" "ty_at (ec_store (te_prog gcd_env)) 3 = Inr Void_ty"
  by (simp_all add: node_type_def gcd_env_def types_new_def actual_def ty_at_def)

lemma gcd_nodes:
  "addr_of e \<noteq> 10 \<Longrightarrow> int_node gcd_env e"
  "addr_of e \<noteq> 10 \<Longrightarrow> has_value gcd_env e = Inr (addr_of e \<noteq> 40)"
  by (simp_all add: int_node_def int_like_def has_value_def gcd_types deref_ty_def ty_neq_def ty_eq_def Void_instance_def)

lemma adr_header_at [simp]: "adr (header_at a) = a"
  by (simp add: header_at_def)

lemma gcd_uses:
  "ec_defs (te_prog gcd_env) = [32 \<mapsto> 12, 33 \<mapsto> 13, 36 \<mapsto> 23, 38 \<mapsto> 23, 42 \<mapsto> 12, 43 \<mapsto> 13, 45 \<mapsto> 12, 47 \<mapsto> 12, 48 \<mapsto> 13,
     50 \<mapsto> 13, 52 \<mapsto> 13, 53 \<mapsto> 12, 56 \<mapsto> 12, 58 \<mapsto> 23, 59 \<mapsto> 12]"
  by (simp add: gcd_env_def)

lemma gcd_code: "int_code gcd_env {12, 13} True gcd_body"
  by (simp add: gcd_body_def Let_def int_code_simps gcd_nodes addr_of_def let_decs_def chunk_vars_def gcd_uses) blast

lemma gcd_decls: "decls gcd_body = [23]"
proof -
  have "decls (SimpleVar h x) = []" "decls (IntExp h i) = []" for h x i
    by (simp_all add: decls_unfold is_VarDec_def)
  then show ?thesis by (simp add: gcd_body_def Let_def decls_simps)
qed

lemma gcd_signature:
  "static_function gcd_env gcd_dec = Inr 5" "void_result gcd_env 5 = Inr False"
proof -
  have "cast_Function (ec_store (te_prog gcd_env)) (Some 5) = Some (4, 0)"
    by (simp add: gcd_env_def types_new_def cast_Function_def)
  then show "static_function gcd_env gcd_dec = Inr 5" "void_result gcd_env 5 = Inr False"
    using gcd_types(1) [of gcd_dec]
    by (simp_all add: static_function_def function_type_def node_type_def gcd_types deref_ty_def void_result_def type_result_def
      ty_eq_def Void_instance_def gcd_dec_def addr_of_def)
qed

lemma gcd_dec_parts: "dec_parts gcd_dec = Some (''gcd'', gcd_formals, Some gcd_body)"
  by (simp add: gcd_dec_def dec_parts_def)

lemma gcd_int_function: "int_function gcd_env seen gcd_state gcd_dec 2 [] [] False gcd_formals gcd_body"
  unfolding int_function_def
proof (intro conjI exI [of _ "''gcd''"] exI [of _ "5"] exI [of _ "[3, 4]"])
  show "int_code gcd_env (set [] \<union> set (map addr_of gcd_formals)) (\<not> False) gcd_body"
    using gcd_code by (simp add: gcd_formals_def addr_of_def insert_commute)
qed (simp_all add: gcd_signature gcd_dec_parts escapes_of_def gcd_state_def gcd_module_def view_def seen_def
    function_dec_name_def gcd_nodes gcd_formals_def addr_of_def gcd_decls)

lemma src_pred: "n \<noteq> 0 \<Longrightarrow> src P n e sigma = src_step P (src P (n - 1)) e sigma"
  by (cases n) simp_all

lemma src_rules:
  assumes "n \<noteq> 0"
  shows "src P n (IntExp h i) sigma = Some (scast i, sigma)"
    "src P n (SimpleVar h x) sigma = Option.bind (ec_defs P (adr h)) (\<lambda>d. map_option (\<lambda>w. (w, sigma)) (sigma d))"
    "src P n (OpExp h l oper r) sigma = Option.bind (src P (n - 1) l sigma) (\<lambda>(a, sigma1). Option.bind (src P (n - 1) r sigma1) (\<lambda>(b, sigma2).
       map_option (\<lambda>w. (w, sigma2)) (op64 oper a b)))"
    "src P n (AssignExp h v e) sigma = Option.bind (var_def P v) (\<lambda>d.
       Option.bind (src P (n - 1) e sigma) (\<lambda>(a, sigma1). Some (0, sigma1(d \<mapsto> a))))"
    "src P n (SeqExp h es) sigma = src_seq (src P (n - 1)) 0 es sigma"
    "src P n (IfExp h c t f) sigma = Option.bind (src P (n - 1) c sigma) (\<lambda>(a, sigma1). if a \<noteq> 0 then src P (n - 1) t sigma1 else src P (n - 1) f sigma1)"
    "src P n (WhileExp h c e) sigma = Option.bind (src P (n - 1) c sigma) (\<lambda>(a, sigma1).
       if a \<noteq> 0 then Option.bind (src P (n - 1) e sigma1) (\<lambda>(_, sigma2). src P (n - 1) (WhileExp h c e) sigma2) else Some (0, sigma1))"
    "src P n (LetExp h cs e) sigma = Option.bind (let_decs cs) (\<lambda>ds. src_let (src P (n - 1)) ds e sigma)"
  by (simp_all only: src_pred [OF assms] src_step_def ast.case)

lemma gcd_means: "means (te_prog gcd_env) gcd_body [12 \<mapsto> 12, 13 \<mapsto> 8] 4 [12 \<mapsto> 4, 23 \<mapsto> 2, 13 \<mapsto> 4]"
proof -
  have "src (te_prog gcd_env) 12 gcd_body [12 \<mapsto> 12, 13 \<mapsto> 8] = Some (4, [12 \<mapsto> 4, 23 \<mapsto> 2, 13 \<mapsto> 4])"
    by (simp add: gcd_body_def Let_def src_rules let_decs_def chunk_vars_def dec_init_def addr_of_def op64_def var_def_def gcd_uses cong: if_cong del: src.simps)
  then show ?thesis unfolding means_def by blast
qed

lemma gcd_ready:
  "llvm_laws (te_llvm gcd_env) seen" "2 \<le> te_fuel gcd_env" "view_ok (view seen gcd_state)"
  by (simp_all add: gcd_env_def builder_laws gcd_state_def gcd_module_def view_def seen_def view_ok_def)

lemma gcd_grows:
  assumes "visit_function_dec_body gcd_env (tr_visit gcd_env) gcd_dec gcd_state = Inr t"
  shows "ll_grows {} (view seen gcd_state) (view seen t)"
  by (rule function_code [OF gcd_ready gcd_int_function]) (use assms in simp)

section \<open>Properties\<close>

text \<open>C11: the code of a function of integers and control, with \<open>let\<close>s, loops, conditionals, assignments and variables of the functions around
  it, computes what its body means: from every state of the translator, with an LLVM that satisfies \<open>llvm_laws\<close>, the translation of the
  declaration ends; in the module it leaves, and in every later one, a call of the function returns the value of the body on
  64-bit integers, leaves the value of each variable in its cell and changes no other cell; the variables are at different addresses,
  the arguments for those of the functions around it, new ones for the others.\<close>

theorem function_code_computes_meaning:
  assumes "llvm_laws (te_llvm E) v" and "2 \<le> te_fuel E" and "view_ok (view v s)"
    and "int_function E v s d fn escs ptrs void formals body"
  shows "\<exists>t entry. visit_function_dec_body E (tr_visit E) d s = Inr t \<and> view_ok (view v t) \<and> entry_of (view v t) fn = Some entry \<and>
    inj_on (variables t fn) (dom (variables t fn)) \<and> map_of (zip escs ptrs) \<subseteq>\<^sub>m variables t fn \<and>
    ran (variables t fn) \<subseteq> set ptrs \<union> (allocas (view v t) - known (view v s)) \<and>
    (\<forall>M C sigma w sigma' ws rho mem. part_of (view v t) M \<longrightarrow>
       called M C (variables t fn) sigma (drop (length escs) (args_of M fn)) ws rho mem \<longrightarrow>
       means (te_prog E) body (sigma(map addr_of formals [\<mapsto>] ws)) w sigma' \<longrightarrow>
       returns M C (variables t fn) entry rho mem (if void then None else Some (Int_val w)) sigma')"
proof -
  obtain t entry L where t: "visit_function_dec_body E (tr_visit E) d s = Inr t" "tr_function t = tr_function s"
    "point (view v t) = point (view v s)" "view_ok (view v t)" "ll_grows {} (view v s) (view v t)"
    "\<forall>g. g \<noteq> Some fn \<longrightarrow> tr_locals t g = tr_locals s g" "entry_of (view v t) fn = Some entry" "L = variables t fn"
    "inj_on L (dom L)" "map_of (zip escs ptrs) \<subseteq>\<^sub>m L" "ran L \<subseteq> set ptrs \<union> (allocas (view v t) - known (view v s))"
    "\<forall>M C sigma w sigma' ws rho mem. part_of (view v t) M \<longrightarrow>
       called M C L sigma (drop (length escs) (args_of M fn)) ws rho mem \<longrightarrow>
       means (te_prog E) body (sigma(map addr_of formals [\<mapsto>] ws)) w sigma' \<longrightarrow>
       returns M C L entry rho mem (if void then None else Some (Int_val w)) sigma'"
    by (rule function_code [OF assms], rule that)
  show ?thesis
    by (intro exI [of _ t] exI [of _ entry] conjI) (use t in simp_all)
qed

theorem function_code_computes_meaning_witness:
  "\<exists>t entry mem. visit_function_dec_body gcd_env (tr_visit gcd_env) gcd_dec gcd_state = Inr t \<and> entry_of (view seen t) 2 = Some entry \<and>
    ll_steps (view seen t) (Run None entry 0 ((\<lambda>a. Some (Cell a))(3 \<mapsto> Int_val 12, 4 \<mapsto> Int_val 8)) Map.empty)
      (Returned (Some (Int_val 4)) mem)"
proof -
  let ?rho = "(\<lambda>a. Some (Cell a))(3 \<mapsto> Int_val 12, 4 \<mapsto> Int_val 8)"
  from function_code_computes_meaning [OF gcd_ready gcd_int_function] obtain t entry where t:
    "visit_function_dec_body gcd_env (tr_visit gcd_env) gcd_dec gcd_state = Inr t" "view_ok (view seen t)" "entry_of (view seen t) 2 = Some entry"
    "ran (variables t 2) \<subseteq> allocas (view seen t) - known (view seen gcd_state)"
    "\<forall>M C sigma w sigma' ws rho mem. part_of (view seen t) M \<longrightarrow> called M C (variables t 2) sigma (args_of M 2) ws rho mem \<longrightarrow>
       means (te_prog gcd_env) gcd_body (sigma(map addr_of gcd_formals [\<mapsto>] ws)) w sigma' \<longrightarrow>
       returns M C (variables t 2) entry rho mem (Some (Int_val w)) sigma'" by auto
  have "args_of (view seen t) 2 = [3, 4]" "const_of (view seen t) 3 = None" "const_of (view seen t) 4 = None"
    using ll_growsD(2,11) [OF gcd_grows [OF t(1)]] by (simp_all add: gcd_state_def gcd_module_def view_def seen_def)
  moreover have "a \<notin> {3, 4}" "const_of (view seen t) a = None" if "a \<in> ran (variables t 2)" for a
  proof -
    from that t(4) have "a \<in> allocas (view seen t)" "a \<notin> known (view seen gcd_state)" by auto
    with t(2) show "a \<notin> {3, 4}" "const_of (view seen t) a = None"
      by (auto simp: view_ok_def gcd_state_def gcd_module_def view_def seen_def)
  qed
  ultimately have "called (view seen t) id (variables t 2) Map.empty (args_of (view seen t) 2) [12, 8] ?rho Map.empty"
    by (auto simp: called_def value_of_def)
  moreover have "Map.empty(map addr_of gcd_formals [\<mapsto>] [12, 8]) = [12 \<mapsto> 12, 13 \<mapsto> 8]"
    by (simp add: gcd_formals_def addr_of_def)
  ultimately have "returns (view seen t) id (variables t 2) entry ?rho Map.empty (Some (Int_val 4)) [12 \<mapsto> 4, 23 \<mapsto> 2, 13 \<mapsto> 4]"
    using t(5) gcd_means by (metis ll_grows_refl)
  with t(1,3) show ?thesis unfolding returns_def by blast
qed

text \<open>C12: the translation of the body of a function of integers and control (\<open>int_function\<close>) leaves the rest as it was: the current function, the block of the builder, the
  variables of the other functions, and all that was in the module, no instruction of which changes; new blocks and new
  instructions are of the new function only.\<close>

theorem function_code_keeps_rest:
  assumes "llvm_laws (te_llvm E) v" and "2 \<le> te_fuel E" and "view_ok (view v s)"
    and "int_function E v s d fn escs ptrs void formals body"
  shows "\<exists>t. visit_function_dec_body E (tr_visit E) d s = Inr t \<and> tr_function t = tr_function s \<and> point (view v t) = point (view v s) \<and>
    (\<forall>g. g \<noteq> Some fn \<longrightarrow> tr_locals t g = tr_locals s g) \<and> ll_grows {} (view v s) (view v t)"
proof -
  obtain t entry L where t: "visit_function_dec_body E (tr_visit E) d s = Inr t" "tr_function t = tr_function s"
    "point (view v t) = point (view v s)" "view_ok (view v t)" "ll_grows {} (view v s) (view v t)"
    "\<forall>g. g \<noteq> Some fn \<longrightarrow> tr_locals t g = tr_locals s g" "entry_of (view v t) fn = Some entry" "L = variables t fn"
    "inj_on L (dom L)" "map_of (zip escs ptrs) \<subseteq>\<^sub>m L" "ran L \<subseteq> set ptrs \<union> (allocas (view v t) - known (view v s))"
    "\<forall>M C sigma w sigma' ws rho mem. part_of (view v t) M \<longrightarrow>
       called M C L sigma (drop (length escs) (args_of M fn)) ws rho mem \<longrightarrow>
       means (te_prog E) body (sigma(map addr_of formals [\<mapsto>] ws)) w sigma' \<longrightarrow>
       returns M C L entry rho mem (if void then None else Some (Int_val w)) sigma'"
    by (rule function_code [OF assms], rule that)
  with t show ?thesis by (intro exI [of _ t]) simp
qed

theorem function_code_keeps_rest_witness:
  "\<exists>t. visit_function_dec_body gcd_env (tr_visit gcd_env) gcd_dec gcd_state = Inr t \<and> tr_function t = Some 6 \<and>
    point (view seen t) = Some 5 \<and> code_of (view seen t) 5 = []"
proof -
  from function_code_keeps_rest [OF gcd_ready gcd_int_function] obtain t where t:
    "visit_function_dec_body gcd_env (tr_visit gcd_env) gcd_dec gcd_state = Inr t" "tr_function t = tr_function gcd_state"
    "point (view seen t) = point (view seen gcd_state)" "ll_grows {} (view seen gcd_state) (view seen t)" by blast
  moreover have "5 \<in> known (view seen gcd_state)" "code_of (view seen gcd_state) 5 = []"
    by (simp_all add: gcd_state_def gcd_module_def view_def seen_def)
  ultimately show ?thesis
    using ll_growsD(6) [OF t(4), of 5] by (intro exI [of _ t]) (simp add: gcd_state_def gcd_module_def view_def seen_def)
qed

end
