(* ===== verification/Tiger_Scoping.thy ===== *)
theory Tiger_Scoping
  imports Binder
begin

text \<open>
  The scoping rules of the Tiger language, and how far \<^verbatim>\<open>src/bind/binder.cc\<close> follows them.  \<open>Binder\<close> shows that
  the pass computes its own rules in an environment-passing form (\<open>spec_visit\<close>); here the rules are those of the
  language, where the names of a chunk are only compared with one another, an initial value does not see its
  variable nor the bounds of a loop its index, and a \<open>let\<close> leaves the enclosing loop.  \<open>regular_node\<close> says where
  the two agree, and each of its conditions is one of the departures that the last section proves.
\<close>

section \<open>The rules of the language\<close>

text \<open>The names of a chunk are declared together, and differ.\<close>

fun declare_all :: "string \<Rightarrow> (ast \<Rightarrow> env \<Rightarrow> env) \<Rightarrow> ast list \<Rightarrow> symbol set \<Rightarrow> spec_state \<Rightarrow> spec_state res" where
  "declare_all msg add [] names q = Inr q"
| "declare_all msg add (d # ds) names q =
     (if name_get d \<in> names then bind_error (msg @ name_get d)
      else declare_all msg add ds (insert (name_get d) names) (add d (fst q), snd q))"

definition add_type :: "ast \<Rightarrow> env \<Rightarrow> env" where
  "add_type d E = E\<lparr>etypes := (etypes E)(name_get d \<mapsto> addr_of d)\<rparr>"

definition add_fun :: "ast \<Rightarrow> env \<Rightarrow> env" where
  "add_fun d E = E\<lparr>efuns := (efuns E)(name_get d \<mapsto> addr_of d)\<rparr>"

definition add_var :: "symbol \<Rightarrow> addr \<Rightarrow> env \<Rightarrow> env" where
  "add_var n a E = E\<lparr>evars := (evars E)(n \<mapsto> a)\<rparr>"

definition set_loop :: "addr option \<Rightarrow> env \<Rightarrow> env" where
  "set_loop l E = E\<lparr>eloop := l\<rparr>"

text \<open>
  \<open>full\<close> says whether the parts that the pass does not read are visited: the test of a \<open>while\<close>, the type of a type
  declaration, the result type of a function.
\<close>

definition scoping_dispatch :: "bool \<Rightarrow> spec_state visit \<Rightarrow> spec_state visit" where
  "scoping_dispatch full visit e q = (case e of
     VarDec h name type_name init \<Rightarrow>
       scoped (add_var name (adr h) (fst q)) (foldE visit (opt_list type_name @ opt_list init) q)
   | VarChunk h decs \<Rightarrow> bindE (spec_duplicates decs {}) (\<lambda>_. foldE visit decs q)
   | TypeChunk h decs \<Rightarrow> bindE (declare_all ''duplicated type: '' add_type decs {} q) (foldE visit decs)
   | FunctionChunk h decs \<Rightarrow> bindE (declare_all ''duplicated function: '' add_fun decs {} q) (foldE visit decs)
   | FunctionDec h name formals result body \<Rightarrow>
       scoped (fst q) (foldE visit ((if full then opt_list result else []) @ [formals] @ opt_list body)
         (set_loop None (fst q), snd q))
   | TypeDec h name ty \<Rightarrow> scoped (fst q) (foldE visit (if full then [ty] else []) q)
   | ForExp h vardec hi body \<Rightarrow>
       scoped (fst q) (bindE (visit vardec q) (\<lambda>q1. bindE (visit hi (fst q, snd q1)) (\<lambda>q2.
         visit body (set_loop (Some (adr h)) (fst q1), snd q2))))
   | WhileExp h test body \<Rightarrow>
       scoped (fst q) (bindE (foldE visit (if full then [test] else []) q) (\<lambda>q1.
         visit body (set_loop (Some (adr h)) (fst q), snd q1)))
   | SimpleVar h name \<Rightarrow>
       (if name \<in> dom (evars (fst q)) then Inr (bind_use h (evars (fst q) name) q)
        else bind_error (''undeclared variable: '' @ name))
   | CallExp h name args \<Rightarrow>
       (if name \<in> dom (efuns (fst q)) then foldE visit args (bind_use h (efuns (fst q) name) q)
        else bind_error (''undeclared/undefined function: '' @ name))
   | BreakExp h \<Rightarrow>
       (case eloop (fst q) of
          None \<Rightarrow> bind_error ''Invalid break''
        | Some loop \<Rightarrow> Inr (bind_use h (Some loop) q))
   | NameTy h name \<Rightarrow>
       (if name \<in> dom (etypes (fst q)) \<or> name = ''int'' \<or> name = ''string''
        then Inr (bind_use h (etypes (fst q) name) q)
        else bind_error (''undeclared type: '' @ name))
   | LetExp h chunks body \<Rightarrow> scoped (fst q) (foldE visit [chunks, body] q)
   | ClassTy _ _ _ \<Rightarrow> Inr q
   | MethodChunk _ _ \<Rightarrow> Inr q
   | MethodDec _ _ _ _ _ \<Rightarrow> Inr q
   | MethodCallExp _ _ _ _ \<Rightarrow> Inr q
   | ObjectExp _ _ \<Rightarrow> Inr q
   | _ \<Rightarrow> foldE visit (subs e) q)"

lemma scoping_dispatch_local:
  assumes "\<And>c s. size c < size e \<Longrightarrow> f c s = g c s"
  shows "scoping_dispatch full f e q = scoping_dispatch full g e q"
  using assms foldE_subs_cong [of e f g]
  by (cases e)
    (auto simp: scoping_dispatch_def scoped_def opt_list_def size_list_member_less
      intro!: bindE_cong foldE_cong dest: size_list_member split: option.splits if_splits)

lemma scoping_dispatch_cong [fundef_cong]:
  assumes "b = b'" and "e = e'" and "s = s'" and "\<And>c s. size c < size e' \<Longrightarrow> f c s = g c s"
  shows "scoping_dispatch b f e s = scoping_dispatch b' g e' s'"
  unfolding assms(1-3) by (rule scoping_dispatch_local) (rule assms(4))

function scoping_visit :: "bool \<Rightarrow> spec_state visit" where
  "scoping_visit full e q = scoping_dispatch full (scoping_visit full) e q"
  by auto
termination by (relation "measure (\<lambda>(full, e, q). size e)") auto

declare scoping_visit.simps [simp del]

section \<open>Where the pass follows them\<close>











section \<open>The environments of the pass\<close>

definition visible :: "env \<Rightarrow> (symbol + symbol) set" where
  "visible E = Inl ` dom (efuns E) \<union> Inr ` dom (etypes E)"

lemma visible_simps [simp]:
  "visible (E\<lparr>evars := v\<rparr>) = visible E" "visible (E\<lparr>eloop := l\<rparr>) = visible E"
  "visible (E\<lparr>efuns := (efuns E)(n \<mapsto> a)\<rparr>) = insert (Inl n) (visible E)"
  "visible (E\<lparr>etypes := (etypes E)(n \<mapsto> a)\<rparr>) = insert (Inr n) (visible E)"
  by (auto simp: visible_def)




definition same_env :: "spec_state \<Rightarrow> spec_state \<Rightarrow> bool" where
  "same_env q r \<longleftrightarrow> fst r = fst q"

lemma bind_error_Inr [simp]: "bind_error msg \<noteq> Inr x"
  by (simp add: bind_error_def error_exit_def)















section \<open>The simulation\<close>

text \<open>
  The states of the pass and of the rules agree: on the bindings outside of \<open>U\<close>, on the functions and the types, on
  the variables outside of \<open>X\<close>, and on the enclosing loop unless \<open>b\<close>.
\<close>

definition agree :: "addr set \<Rightarrow> symbol set \<Rightarrow> bool \<Rightarrow> spec_state \<Rightarrow> spec_state \<Rightarrow> bool" where
  "agree U X b q q' \<longleftrightarrow>
     (\<forall>a. a \<notin> U \<longrightarrow> snd q a = snd q' a) \<and> efuns (fst q) = efuns (fst q') \<and> etypes (fst q) = etypes (fst q') \<and>
     (\<forall>n. n \<notin> X \<longrightarrow> evars (fst q) n = evars (fst q') n) \<and> (b \<or> eloop (fst q) = eloop (fst q'))"

text \<open>
  The outcomes: an error is the same, and success gives states that agree.  With the full rules, an error says
  nothing: it may come from a part that the pass does not read.
\<close>

definition sim :: "bool \<Rightarrow> addr set \<Rightarrow> symbol set \<Rightarrow> bool \<Rightarrow> spec_state res \<Rightarrow> spec_state res \<Rightarrow> bool" where
  "sim full U X b r r' \<longleftrightarrow> (case r' of Inl x \<Rightarrow> full \<or> r = Inl x | Inr v \<Rightarrow> \<exists>u. r = Inr u \<and> agree U X b u v)"


lemma sim_error [simp]: "sim full U X b (bind_error msg) (bind_error msg)"
  by (simp add: sim_def bind_error_def error_exit_def)















































section \<open>The pass and the rules\<close>






section \<open>The departures\<close>

lemmas pass_defs = launch_bind_def binder_visit.simps binder_dispatch_def binder_method_defs default_visit_def accepts_defs
  binder_new_def binder_scope_begin_def binder_scope_end_def sm_scope_begin_def sm_new_def sm_put_def sm_scope_end_def
  sm_get_def sm_contains_def name_get_def addr_of_def decs_get_def chunk_view_def def_set_def loops_pop_def

lemmas rule_defs = scoping_visit.simps scoping_dispatch_def scoped_def bind_use_def env0_def add_type_def add_var_def
  add_fun_def set_loop_def name_get_def addr_of_def

text \<open>
  A type or a function declared again in another chunk is refused, where the rules let it hide the first one, as
  in \<^verbatim>\<open>tests/good\<close>: \<^verbatim>\<open>local-vs-global-type.tig\<close>, \<^verbatim>\<open>shadowing-types-separate.tig\<close> and \<^verbatim>\<open>shadowing-functions.tig\<close>.
\<close>

lemma shadowing_refused:
  "launch_bind (LetExp h (ChunkList h1 [TypeChunk h2 [TypeDec h3 n (NameTy h4 ''int'')]])
     (LetExp k (ChunkList k1 [TypeChunk k2 [TypeDec k3 n (NameTy k4 ''string'')]]) (IntExp m 0))) =
   bind_error (''duplicated type: '' @ n)"
  "\<exists>q. scoping_visit True (LetExp h (ChunkList h1 [TypeChunk h2 [TypeDec h3 n (NameTy h4 ''int'')]])
     (LetExp k (ChunkList k1 [TypeChunk k2 [TypeDec k3 n (NameTy k4 ''string'')]]) (IntExp m 0))) (env0, Map.empty) = Inr q"
  "launch_bind (LetExp h (ChunkList h1 [FunctionChunk h2 [FunctionDec h3 n (VarChunk h4 []) None None], TypeChunk h5 [],
     FunctionChunk k2 [FunctionDec k3 n (VarChunk k4 []) None None]]) (IntExp m 0)) =
   bind_error (''duplicated function: '' @ n)"
  "\<exists>q. scoping_visit True (LetExp h (ChunkList h1 [FunctionChunk h2 [FunctionDec h3 n (VarChunk h4 []) None None],
     TypeChunk h5 [], FunctionChunk k2 [FunctionDec k3 n (VarChunk k4 []) None None]]) (IntExp m 0)) (env0, Map.empty) = Inr q"
  by (simp_all add: pass_defs rule_defs binder_fundec_put_def binder_exit_def bind_error_def error_exit_def)

text \<open>The upper bound of a loop sees the index.\<close>

lemma bound_sees_index:
  "\<exists>t. launch_bind (ForExp h (VarDec k n None (Some (IntExp m 0))) (SimpleVar u n) (IntExp l 0)) = Inr t \<and>
     bindings t (adr u) = Some (adr k)"
  "scoping_visit True (ForExp h (VarDec k n None (Some (IntExp m 0))) (SimpleVar u n) (IntExp l 0)) (env0, Map.empty) =
   bind_error (''undeclared variable: '' @ n)"
  by (simp_all add: pass_defs rule_defs bind_error_def error_exit_def)

text \<open>The parameters of a function may have one name: the check is in the visit of a chunk of variables, and the
  parameters are visited without it.\<close>

lemma duplicated_parameters:
  "\<exists>t. launch_bind (FunctionChunk h [FunctionDec h1 f (VarChunk h2 [VarDec h3 n None None, VarDec h4 n None None]) None None]) =
     Inr t"
  "scoping_visit True (FunctionChunk h [FunctionDec h1 f (VarChunk h2 [VarDec h3 n None None, VarDec h4 n None None]) None None])
     (env0, Map.empty) = bind_error (''duplicated parameter: '' @ n)"
  by (simp_all add: pass_defs rule_defs binder_fundec_put_def bind_error_def error_exit_def)

text \<open>A variable is seen by its own initial value.\<close>

lemma init_sees_variable:
  "\<exists>t. launch_bind (VarChunk h [VarDec k n None (Some (SimpleVar u n))]) = Inr t \<and> bindings t (adr u) = Some (adr k)"
  "scoping_visit True (VarChunk h [VarDec k n None (Some (SimpleVar u n))]) (env0, Map.empty) =
   bind_error (''undeclared variable: '' @ n)"
  by (simp_all add: pass_defs rule_defs bind_error_def error_exit_def)

end
