(* ===== verification/Spec2Isabelle.thy ===== *)
theory Spec2Isabelle
  imports Task Dumper_Dot Tiger_Runtime Tiger_Gc Misc_Scoped_Map Misc_Symbol Misc_Error Misc_Container Escapes Escapes_Collector Type_Results Desugar Object_Desugar Call_Graph Over_Table Llvm_Builder Tiger_Scoping
begin

text \<open>
  A model of the Tiger compiler of this repository, and what its passes guarantee.

  The parts and how they interact.  A program is parsed into a tree (\<^verbatim>\<open>src/src/parse\<close>, \<^verbatim>\<open>src/src/ast\<close>);
  passes then annotate the tree in place: the names are bound (\<^verbatim>\<open>src/src/bind/binder.*\<close>), the
  variables that escape are marked (\<^verbatim>\<open>src/src/escapes\<close>), the identifiers are made unique
  (\<^verbatim>\<open>src/src/bind/renamer.*\<close>), the types are checked (\<^verbatim>\<open>src/src/type\<close>).  Other passes build a new
  tree: the cloner (\<^verbatim>\<open>src/src/astclone\<close>) and the desugaring that inherits from it
  (\<^verbatim>\<open>src/src/desugar\<close>), which prints text with embedded trees (\<^verbatim>\<open>src/src/parse/tweast.*\<close>) and gives
  it back to the parser.  All of them rest on the library of \<^verbatim>\<open>src/lib/misc\<close>.

  \<^bold>\<open>The library.\<close>  \<^theory_text>\<open>Tiger_Prelude\<close>: addresses, the error monad \<open>'a res\<close> with one constructor of
  \<open>exn\<close> per abnormal exit, the output stream of an error, decimal numerals.  \<^theory_text>\<open>Misc_Scoped_Map\<close>
  (\<^verbatim>\<open>scoped-map\<close>), \<^theory_text>\<open>Misc_Symbol\<close> (\<^verbatim>\<open>unique\<close>, \<^verbatim>\<open>symbol\<close>), \<^theory_text>\<open>Misc_Error\<close> (\<^verbatim>\<open>error\<close>),
  \<^theory_text>\<open>Misc_Stream\<close> (\<^verbatim>\<open>indent\<close>, \<^verbatim>\<open>escape\<close>, \<^verbatim>\<open>separator\<close>, \<^verbatim>\<open>xalloc\<close>), \<^theory_text>\<open>Misc_Container\<close> (\<^verbatim>\<open>map\<close>,
  \<^verbatim>\<open>endomap\<close>, \<^verbatim>\<open>set\<close>, \<^verbatim>\<open>vector\<close>, \<^verbatim>\<open>list\<close>, \<^verbatim>\<open>algorithm\<close>), \<^theory_text>\<open>File_Library\<close> (\<^verbatim>\<open>file-library\<close>).  A class is
  a record, or the function that its state stands for when it has only one member; an operation that
  changes the object returns the new one.  The lemmas show the laws that the passes use, as locales
  that these models interpret, and the properties of each structure.

  \<^bold>\<open>Trees.\<close>  \<^theory_text>\<open>Ast\<close>: one constructor per class of \<^verbatim>\<open>src/src/ast\<close>, whose header holds the identity of
  the node and its location; \<open>new_X\<close> and \<open>make_X\<close> are the constructors of the classes and the functions of
  \<^verbatim>\<open>parse/tiger-factory.hxx\<close>.  \<^theory_text>\<open>Ast_Visitor\<close>: the default visitor, the locale of the visits that are the
  least fixed point of a table of methods, the nodes of a tree.  A visitor is a function
  \<open>X_visit\<close> from a node and a state to a result, and its methods \<open>X_dispatch\<close> take the visit to call
  on the sons as an argument: a subclass gives another table.  What a pass writes in the nodes
  (\<open>def_\<close>, \<open>type_\<close>, \<open>escape_\<close>) is a table over their addresses in the state of the visitor.

  \<^bold>\<open>Names.\<close>  \<^theory_text>\<open>Binder\<close> models every method of \<open>bind::Binder\<close> and shows that scopes are balanced and what
  the pass computes, with environments that are passed instead of tables that are changed.  \<^theory_text>\<open>Tiger_Scoping\<close> states the
  scoping rules of Tiger: the pass follows them on the regular programs, and departs from them elsewhere, as the lemmas of
  its last section and of \<^theory_text>\<open>Binder\<close> show (a function or type hidden by another, the index in the bounds of a loop, parameters of one
  name, a variable in its own initial value, a break that leaves a \<open>let\<close>, the parts that are not visited).  \<^theory_text>\<open>Renamer\<close> and
  \<^theory_text>\<open>Escapes\<close> model the other two passes on bindings, with what they mean for a variable, a use and a call.

  \<^bold>\<open>Types.\<close>  \<^theory_text>\<open>Types\<close> is the store of the objects of \<open>type::Type\<close>, with \<open>sound\<close>, \<open>actual\<close> and
  compatibility; \<^theory_text>\<open>Type_Checker\<close> is the visitor; \<^theory_text>\<open>Type_Rules\<close> states typing rules on an annotated tree;
  \<^theory_text>\<open>Type_Sound\<close> shows that an accepted tree obeys them; \<^theory_text>\<open>Type_Results\<close> holds the bound of the checker
  and what the checker does on some programs.

  \<^bold>\<open>New trees.\<close>  \<^theory_text>\<open>Cloner\<close> is \<open>astclone::Cloner\<close>: its state holds \<open>result_\<close> and the next address, and its
  lemmas show what a copy is.  \<^theory_text>\<open>Tweast\<close> and \<^theory_text>\<open>Parse_Driver\<close> model the text with embedded trees and
  \<open>parse::TigerDriver\<close>; the actions of the parser call the driver back for each import, and \<open>parser_at\<close> closes that loop over
  what the parser does with a text, so that the imports are those of the code at every depth.  \<^theory_text>\<open>Tiger_Eval\<close> gives the meaning of a part of Tiger (integers, strings, variables,
  control, primitives), \<^theory_text>\<open>Loop_Meaning\<close> that of the loop a \<open>for\<close> becomes, \<^theory_text>\<open>Meaning_Trees\<close> when two trees mean
  the same; \<^theory_text>\<open>Desugar\<close> is \<open>desugar::DesugarVisitor\<close> with the theorem that it keeps the meaning.

  \<^bold>\<open>Objects.\<close>  \<^theory_text>\<open>Type_Class\<close>: the classes, their attributes and methods (\<^verbatim>\<open>type/class.*\<close>,
  \<^verbatim>\<open>attribute.*\<close>, \<^verbatim>\<open>method.*\<close>) in a store, the loops on the super classes and what a hierarchy has to be.
  \<^theory_text>\<open>Object_Desugar\<close>: the visitor of \<^verbatim>\<open>object/desugar-visitor.*\<close> that turns classes into records and functions;
  its lemmas show that a conversion builds a variant of the type of its target, which dispatch functions are written for a
  method, and that their numbers follow the scopes.  \<^theory_text>\<open>Over_Table\<close>: the table of the overloaded functions.
  \<^theory_text>\<open>Call_Graph\<close>: the graphs of \<^verbatim>\<open>misc/graph.*\<close> and of \<^verbatim>\<open>callgraph\<close>, and what the graph of the parents of the
  functions says.

  \<^bold>\<open>Printing.\<close>  \<^theory_text>\<open>Pretty_Printer\<close> is \<open>ast::PrettyPrinter\<close>: each \<open>pp_X\<close> is a method, from a stream to a stream;
  its lemmas show that the indentation of the stream is given back, and which distinctions of the tree are lost.
  \<^theory_text>\<open>Dumper_Dot\<close> is \<open>ast::DumperDot\<close>, whose edges leave from ports that its tables declare.

  \<^bold>\<open>Tasks.\<close>  \<^theory_text>\<open>Misc_Timer\<close> models \<^verbatim>\<open>timer\<close>, with the readings of the system clock as parameters: each operation
  reads it once to stop a task and once to start another.  \<^theory_text>\<open>Task\<close> models
  \<^verbatim>\<open>src/src/task\<close>, \<^verbatim>\<open>tc.cc\<close> and the tables of the tasks of every directory: registering, reading the command line,
  enabling the dependencies, executing.  Its lemmas show that the tasks run in an order that respects the
  dependencies and that the scheduling ends on the tasks of \<^verbatim>\<open>tc\<close>.

  \<^bold>\<open>The back end.\<close>  \<^theory_text>\<open>Escapes_Collector\<close> finds the variables that each function has to be given; its lemmas show when
  they are all that it needs.  \<^theory_text>\<open>Translator\<close> models the translation to LLVM (\<^verbatim>\<open>llvmtranslate/translator.*\<close>,
  \<^verbatim>\<open>llvm-type-visitor.*\<close>, \<^verbatim>\<open>libllvmtranslate.cc\<close>): each \<open>tr_X\<close> is a method, and a call of LLVM a constructor of \<open>ll_call\<close>, given
  to a parameter.  \<^theory_text>\<open>Llvm_Ir\<close> says what those calls do to the code of a module and what the code does when it is
  executed; \<^theory_text>\<open>Translator_Runs\<close> gives the meaning of the trees of integers, variables and control, \<^theory_text>\<open>Translator_Correct\<close> and
  \<^theory_text>\<open>Translator_Control\<close> show that the code for each of them does what it means, \<^theory_text>\<open>Translator_Code\<close> and
  \<^theory_text>\<open>Translator_Function\<close> that of every tree and of every function made of them; \<^theory_text>\<open>Llvm_Builder\<close> holds a builder that obeys the
  laws, and the properties.

  \<^bold>\<open>The compiled programs.\<close>  \<^theory_text>\<open>Tiger_Runtime\<close> models the functions of \<^verbatim>\<open>tiger-runtime.c\<close> over a memory of blocks,
  \<^theory_text>\<open>Tiger_Gc\<close> the mark and sweep collector of \<^verbatim>\<open>llvmgc/runtime\<close>: it keeps exactly the objects that are reached.

  \<^bold>\<open>Bounds.\<close>  The recursion of the visitors is on the size of the tree, but for the type checker, which
  follows bindings: \<open>tc_visit\<close> takes a bound on the nested visits, and \<^theory_text>\<open>Type_Results\<close> shows that the rank
  of the nodes is enough and that the verdict does not depend on it beyond.  \<open>actual_upto\<close> takes a bound on the
  pointers followed; that of \<open>actual\<close>, the number of types, is only reached on a cycle (\<^theory_text>\<open>Types\<close>).  \<open>eval\<close> takes
  a bound on nested evaluations; \<open>meaning\<close> is its limit.  The counters of fresh symbols and of metavariables are
  words of 32 bits that wrap around; the theorems on them bound how many are drawn.  \<open>enable_upto\<close> takes a bound on
  nested enablings: seven are enough for the tasks of \<^verbatim>\<open>tc\<close>, none for a cycle of dependencies.  The
  traversal of the collector takes a bound on nested calls: the number of objects is enough.  The rounds of
  \<^theory_text>\<open>Escapes_Collector\<close> have a bound, and the number of calls and uses of the program gives one that is enough.
  The translation of types has a bound on nested types: two are enough for integers, and a type of arrays that
  are their own elements exhausts every bound.
  The nested imports have a bound: as many as there are files that can be opened are enough (\<^theory_text>\<open>Parse_Driver\<close>).
  The loops on super classes have the number of the classes as a bound, and the search in the graph of the parents the
  number of its vertices: they are reached on cycles only.

  \<^bold>\<open>Choices.\<close>  C++ leaves the order of evaluation of arguments open: it is taken from left to right.  Reading
  through a null pointer is the value \<open>Null_deref\<close>, outside a container \<open>Bad_access\<close>.  Assertions are
  checked, as without \<open>NDEBUG\<close>.  Deletions are not modelled but for the destructors that assert.

  \<^bold>\<open>Parameters.\<close>  The scanner and the parser, which the build generates, the file system, the environment,
  the system clock, \<open>boost::algorithm::replace_first\<close>, the words of the stack that the collector scans and
  the addresses that \<open>malloc\<close> and \<open>calloc\<close> give.  The hypothesis \<open>parses_for\<close> says what the desugaring needs of the
  parser, for the numbers of metavariables that the scanner accepts, those below \<open>INT_MAX\<close>, \<open>adjacency_list_laws\<close> what \<^theory_text>\<open>Call_Graph\<close> needs of \<open>boost::adjacency_list\<close>, \<open>llvm_laws\<close> what the correctness of the
  translation needs of LLVM, for the calls made for integers, variables and control.  The code that was removed
  from the desugaring of objects is in the second group of fields of \<open>object_env\<close>.

  \<^bold>\<open>Not modelled.\<close>  The linking calls libraries that are not in the repository, and most of the variant of the translation with
  garbage collection was removed from the sources.  The calls, strings, records, arrays and breaks of the translation to LLVM are modelled, but the
  correctness of the code does not cover them.
  The bounds checks, the inlining, the pruning, the graph of the calls, the binding and the typing of objects and of
  overloaded functions are shells here: the code of their visits was removed from the sources, and what is left of
  them has no behaviour of its own.  The combination of passes only inherits from these.
\<close>

end
